(* ===== verification/Prelude.thy ===== *)
theory Prelude
  imports Main "HOL-Library.Word"
begin

unbundle bit_operations_syntax

text \<open>
  Shared vocabulary of the development: the machine integers of Go at their width, byte slices,
  the errors a Go function returns as values, big-endian encoding as \<open>encoding/binary\<close>
  defines it, and the generic lemmas on slices and words the component theories rest on.

  Conventions.
  \<^item> \<open>uint8\<close>, \<open>uint16\<close>, \<open>uint32\<close> and \<open>uint64\<close> are words of that width, so
    \<open>+\<close>, \<open>-\<close> and shifts wrap as in Go. Go's \<open>int\<close> is \<open>nat\<close> where the code only
    counts with it and \<open>int\<close> where it can be negative; no modelled value comes near 2^63.
  \<^item> A byte slice is a list of bytes. A write through a slice returns the changed list.
    Slicing past the length is a run-time panic (the capacity of a slice is its length).
  \<^item> A function that returns \<open>(T, error)\<close> returns \<open>go_error + T\<close>; the context
    key/value pairs attached to an error are left out, its message is kept.
\<close>

section \<open>Types\<close>

type_synonym u8 = "8 word"
type_synonym u16 = "16 word"
type_synonym u32 = "32 word"
type_synonym u64 = "64 word"
type_synonym bytes = "u8 list"

datatype go_error =
    Err string
  | WrapErr string go_error
  | Panic string

type_synonym 'a res = "go_error + 'a"

fun is_panic :: "'a res \<Rightarrow> bool" where
  "is_panic (Inl (Panic _)) = True"
| "is_panic _ = False"

definition rbind :: "'a res \<Rightarrow> ('a \<Rightarrow> 'b res) \<Rightarrow> 'b res" where
  "rbind m f = (case m of Inl e \<Rightarrow> Inl e | Inr x \<Rightarrow> f x)"

named_theorems wire_simps \<open>lengths and round trips of the wire encodings\<close>
named_theorems res_simps \<open>inversion of the error monad\<close>

lemma rbind_Inr [simp]: "rbind (Inr x) f = f x"
  by (simp add: rbind_def)

lemma rbind_Inl [simp]: "rbind (Inl e) f = Inl e"
  by (simp add: rbind_def)

lemma rbind_eq_Inr [res_simps]: "rbind m f = Inr y \<longleftrightarrow> (\<exists>x. m = Inr x \<and> f x = Inr y)"
  by (cases m) auto

lemma rbind_eq_Inl [res_simps]:
  "rbind m f = Inl e \<longleftrightarrow> m = Inl e \<or> (\<exists>x. m = Inr x \<and> f x = Inl e)"
  by (cases m) auto

lemma rbind_cong [fundef_cong]:
  "m = m' \<Longrightarrow> (\<And>x. m' = Inr x \<Longrightarrow> f x = f' x) \<Longrightarrow> rbind m f = rbind m' f'"
  by (cases m') auto

lemma rbind_assoc: "rbind (rbind m f) g = rbind m (\<lambda>x. rbind (f x) g)"
  by (cases m) auto

text \<open>Wrapping an error with a message, as \<open>serrors.WrapStr\<close> does.\<close>

definition wrap_err :: "string \<Rightarrow> 'a res \<Rightarrow> 'a res" where
  "wrap_err s m = (case m of Inl e \<Rightarrow> Inl (WrapErr s e) | Inr x \<Rightarrow> Inr x)"

lemma wrap_err_eq_Inr [simp]: "wrap_err s m = Inr x \<longleftrightarrow> m = Inr x"
  by (cases m) (auto simp: wrap_err_def)

lemma wrap_err_Inr [simp]: "wrap_err s (Inr x) = Inr x"
  by (simp add: wrap_err_def)

text \<open>A failure that is a returned error, never a panic.\<close>

definition soft_error :: "go_error \<Rightarrow> bool" where
  "soft_error e = (case e of Panic _ \<Rightarrow> False | _ \<Rightarrow> True)"

lemma soft_error_simps [simp]: "soft_error (Err m)" "soft_error (WrapErr m e)" "\<not> soft_error (Panic m)"
  by (simp_all add: soft_error_def)

lemma wrap_err_Inl: "wrap_err s m = Inl e \<longleftrightarrow> (\<exists>e'. m = Inl e' \<and> e = WrapErr s e')"
  by (cases m) (auto simp: wrap_err_def)

lemma is_panic_iff: "is_panic m \<longleftrightarrow> (\<exists>e. m = Inl e \<and> \<not> soft_error e)"
  by (cases m rule: is_panic.cases) auto

section \<open>Slices\<close>

text \<open>\<open>b[i:j]\<close> of the source, where the bounds are known to hold; \<open>gslice\<close> is the same
  with the bounds check of the run time.\<close>

definition slice :: "nat \<Rightarrow> nat \<Rightarrow> 'a list \<Rightarrow> 'a list" where
  "slice i j b = take (j - i) (drop i b)"

definition gslice :: "nat \<Rightarrow> nat \<Rightarrow> 'a list \<Rightarrow> 'a list res" where
  "gslice i j b =
     (if i \<le> j \<and> j \<le> length b then Inr (slice i j b)
      else Inl (Panic ''slice bounds out of range''))"

text \<open>\<open>copy(b[i:], bs)\<close> for a \<open>bs\<close> that fits.\<close>

definition put_at :: "nat \<Rightarrow> 'a list \<Rightarrow> 'a list \<Rightarrow> 'a list" where
  "put_at i bs b = take i b @ bs @ drop (i + length bs) b"

text \<open>The built-in \<open>copy(dst, src)\<close>.\<close>

definition go_copy :: "'a list \<Rightarrow> 'a list \<Rightarrow> 'a list" where
  "go_copy dst src = take (length dst) src @ drop (length src) dst"

lemma length_go_copy [simp]: "length (go_copy dst src) = length dst"
  by (simp add: go_copy_def)

lemma go_copy_fits: "length src \<le> length dst \<Longrightarrow> go_copy dst src = put_at 0 src dst"
  by (simp add: go_copy_def put_at_def)

lemma length_slice [simp]: "length (slice i j b) = min (j - i) (length b - i)"
  by (simp add: slice_def min.commute)

lemma nth_slice [simp]: "k < j - i \<Longrightarrow> i + k < length b \<Longrightarrow> slice i j b ! k = b ! (i + k)"
  by (simp add: slice_def)

lemma gslice_ok [simp]: "i \<le> j \<Longrightarrow> j \<le> length b \<Longrightarrow> gslice i j b = Inr (slice i j b)"
  by (simp add: gslice_def)

lemma length_put_at [simp]: "i + length bs \<le> length b \<Longrightarrow> length (put_at i bs b) = length b"
  by (simp add: put_at_def)

lemma nth_put_at:
  assumes "i + length bs \<le> length b" "k < length b"
  shows "put_at i bs b ! k = (if i \<le> k \<and> k < i + length bs then bs ! (k - i) else b ! k)"
  using assms by (auto simp: put_at_def nth_append min_def)

lemma slice_put_at_same [simp]:
  "i + length bs \<le> length b \<Longrightarrow> j = i + length bs \<Longrightarrow> slice i j (put_at i bs b) = bs"
  by (simp add: slice_def put_at_def)

lemma slice_put_at_disjoint:
  assumes "i + length bs \<le> length b" "j \<le> length b" "j \<le> i \<or> i + length bs \<le> k"
  shows "slice k j (put_at i bs b) = slice k j b"
proof (rule nth_equalityI)
  show "length (slice k j (put_at i bs b)) = length (slice k j b)"
    using assms by simp
next
  fix m assume "m < length (slice k j (put_at i bs b))"
  with assms have m: "m < j - k" "k + m < length b" by auto
  then show "slice k j (put_at i bs b) ! m = slice k j b ! m"
    using assms by (auto simp: nth_put_at)
qed

lemma put_at_put_at_same:
  "length bs' = length bs \<Longrightarrow> i + length bs \<le> length b \<Longrightarrow> put_at i bs (put_at i bs' b) = put_at i bs b"
  by (simp add: put_at_def)

lemma put_at_slice_id: "i + n \<le> length b \<Longrightarrow> put_at i (slice i (i + n) b) b = b"
  by (rule nth_equalityI) (auto simp: nth_put_at)

lemma put_at_0: "put_at 0 bs b = bs @ drop (length bs) b"
  by (simp add: put_at_def)

lemma take_put_at_ge: "i + length bs \<le> n \<Longrightarrow> n \<le> length b \<Longrightarrow>
   take n (put_at i bs b) = put_at i bs (take n b)"
  by (rule nth_equalityI) (auto simp: nth_put_at)

lemma list_update_put_at: "i < length b \<Longrightarrow> b[i := x] = put_at i [x] b"
  by (simp add: put_at_def upd_conv_take_nth_drop)

section \<open>Big-endian integers\<close>

definition Uint16 :: "bytes \<Rightarrow> u16" where
  "Uint16 b = push_bit 8 (ucast (b ! 0)) OR ucast (b ! 1)"

definition PutUint16 :: "u16 \<Rightarrow> bytes" where
  "PutUint16 x = [ucast (drop_bit 8 x), ucast x]"

definition Uint32 :: "bytes \<Rightarrow> u32" where
  "Uint32 b = push_bit 24 (ucast (b ! 0)) OR push_bit 16 (ucast (b ! 1)) OR
     push_bit 8 (ucast (b ! 2)) OR ucast (b ! 3)"

definition PutUint32 :: "u32 \<Rightarrow> bytes" where
  "PutUint32 x = [ucast (drop_bit 24 x), ucast (drop_bit 16 x), ucast (drop_bit 8 x), ucast x]"

definition Uint64 :: "bytes \<Rightarrow> u64" where
  "Uint64 b = push_bit 56 (ucast (b ! 0)) OR push_bit 48 (ucast (b ! 1)) OR
     push_bit 40 (ucast (b ! 2)) OR push_bit 32 (ucast (b ! 3)) OR
     push_bit 24 (ucast (b ! 4)) OR push_bit 16 (ucast (b ! 5)) OR
     push_bit 8 (ucast (b ! 6)) OR ucast (b ! 7)"

definition PutUint64 :: "u64 \<Rightarrow> bytes" where
  "PutUint64 x = [ucast (drop_bit 56 x), ucast (drop_bit 48 x), ucast (drop_bit 40 x),
     ucast (drop_bit 32 x), ucast (drop_bit 24 x), ucast (drop_bit 16 x),
     ucast (drop_bit 8 x), ucast x]"

lemma length_PutUint [simp, wire_simps]:
  "length (PutUint16 x) = 2" "length (PutUint32 y) = 4" "length (PutUint64 z) = 8"
  by (simp_all add: PutUint16_def PutUint32_def PutUint64_def)

text \<open>Reassembling a word byte by byte: each byte extends the low part by eight bits.\<close>

lemma or_byte_take_bit:
  fixes x :: "'a::len word"
  shows "push_bit k (ucast (ucast (drop_bit k x) :: u8)) OR take_bit k x = take_bit (k + 8) x"
  by (rule bit_word_eqI) (auto simp: bit_simps)

lemma low_byte_take_bit: "ucast (ucast x :: u8) = take_bit 8 (x :: 'a::len word)"
  by (rule bit_word_eqI) (auto simp: bit_simps)

lemma take_bit_full: "LENGTH('a::len) \<le> k \<Longrightarrow> take_bit k x = (x :: 'a word)"
  by (rule bit_word_eqI) (auto simp: bit_simps dest: bit_imp_le_length)

lemma Uint16_PutUint16 [simp, wire_simps]: "Uint16 (PutUint16 x) = x"
  using or_byte_take_bit [of 8 x]
  by (simp add: Uint16_def PutUint16_def low_byte_take_bit take_bit_full)

lemma Uint32_PutUint32 [simp, wire_simps]: "Uint32 (PutUint32 x) = x"
  using or_byte_take_bit [of 8 x] or_byte_take_bit [of 16 x] or_byte_take_bit [of 24 x]
  by (simp add: Uint32_def PutUint32_def low_byte_take_bit take_bit_full)

lemma Uint64_PutUint64 [simp, wire_simps]: "Uint64 (PutUint64 x) = x"
  using or_byte_take_bit [of 8 x] or_byte_take_bit [of 16 x] or_byte_take_bit [of 24 x]
    or_byte_take_bit [of 32 x] or_byte_take_bit [of 40 x] or_byte_take_bit [of 48 x]
    or_byte_take_bit [of 56 x]
  by (simp add: Uint64_def PutUint64_def low_byte_take_bit take_bit_full)

lemma unat_u8_less: "unat (x :: u8) < 256"
proof -
  have "unat x < 2 ^ LENGTH(8)" by (rule unsigned_less)
  then show ?thesis by simp
qed

lemma bit_u8_high [simp]: "8 \<le> n \<Longrightarrow> \<not> bit (x :: u8) n"
  using bit_imp_le_length [of x n] by auto

lemma word_less_power_iff:
  assumes "k < LENGTH('a::len)"
  shows "(x :: 'a word) < 2 ^ k \<longleftrightarrow> take_bit k x = x"
proof -
  have "x < 2 ^ k \<longleftrightarrow> uint x < 2 ^ k"
    using assms by (simp add: word_2p_lem word_size)
  also have "\<dots> \<longleftrightarrow> uint (take_bit k x) = uint x"
    by (simp add: take_bit_int_eq_self_iff unsigned_take_bit_eq)
  finally show ?thesis by (simp add: word_uint_eq_iff)
qed

lemma u8_less_64: "(x :: u8) < 64 \<longleftrightarrow> take_bit 6 x = x"
  using word_less_power_iff [of 6 x] by simp

lemma u8_less_4: "(x :: u8) < 4 \<longleftrightarrow> take_bit 2 x = x"
  using word_less_power_iff [of 2 x] by simp

lemma and_3F [simp]: "(x :: u8) AND 0x3F = take_bit 6 x"
  by (simp add: take_bit_eq_mask mask_eq_exp_minus_1)

text \<open>And back: the bytes of a reassembled word are the bytes read.\<close>

lemma PutUint16_Uint16 [wire_simps]:
  assumes "length b = 2" shows "PutUint16 (Uint16 b) = b"
proof -
  obtain x y where b: "b = [x, y]"
    using assms by (auto simp: length_Suc_conv numeral_2_eq_2)
  have "ucast (drop_bit 8 (push_bit 8 (ucast x) OR ucast y :: u16)) = x"
    by (rule bit_word_eqI) (auto simp: bit_simps)
  moreover have "ucast (push_bit 8 (ucast x) OR ucast y :: u16) = y"
    by (rule bit_word_eqI) (auto simp: bit_simps)
  ultimately show ?thesis by (simp add: b PutUint16_def Uint16_def)
qed

lemma PutUint32_Uint32 [wire_simps]:
  assumes "length b = 4" shows "PutUint32 (Uint32 b) = b"
proof -
  obtain x y z w where b: "b = [x, y, z, w]"
    using assms by (auto simp: length_Suc_conv eval_nat_numeral)
  define v where "v = (push_bit 24 (ucast x) OR push_bit 16 (ucast y) OR
     push_bit 8 (ucast z) OR ucast w :: u32)"
  have "ucast (drop_bit 24 v) = x" "ucast (drop_bit 16 v) = y" "ucast (drop_bit 8 v) = z"
    "ucast v = w"
    unfolding v_def by (rule bit_word_eqI; simp add: bit_simps)+
  then show ?thesis by (simp add: b PutUint32_def Uint32_def v_def)
qed

end
