(* ===== verification/Wire.thy ===== *)
theory Wire
  imports Prelude
begin

text \<open>
  Sequences of fixed-width wire fields. The decoders and encoders of the path types walk over a
  buffer with an offset and hand each field a window of it; the two loops are modelled once, over
  the field's own decoder and encoder, and their correctness is proved once from the contract a
  field keeps (locale \<open>wire_field\<close>). The locale \<open>path_codec\<close> is the contract of
  \<open>path.Path\<close> (go/lib/slayers/path/path.go) that the SCION header relies on.
\<close>

section \<open>The two loops\<close>

text \<open>\<open>for i := 0; i < n; i++ { f[i].DecodeFromBytes(data[off:off+len]); off += len }\<close>\<close>

fun decode_fields :: "(bytes \<Rightarrow> 'a res) \<Rightarrow> nat \<Rightarrow> nat \<Rightarrow> nat \<Rightarrow> bytes \<Rightarrow> 'a list res" where
  "decode_fields dec len 0 off data = Inr []"
| "decode_fields dec len (Suc n) off data =
     rbind (gslice off (off + len) data) (\<lambda>w.
     rbind (dec w) (\<lambda>x.
     rbind (decode_fields dec len n (off + len) data) (\<lambda>xs.
     Inr (x # xs))))"

text \<open>\<open>for _, f := range fs { f.SerializeTo(b[off:off+len]); off += len }\<close>: the window is part
  of the buffer, so what is written to it is written back.\<close>

fun write_fields :: "('a \<Rightarrow> bytes \<Rightarrow> bytes res) \<Rightarrow> nat \<Rightarrow> 'a list \<Rightarrow> nat \<Rightarrow> bytes \<Rightarrow> bytes res" where
  "write_fields ser len [] off b = Inr b"
| "write_fields ser len (x # xs) off b =
     rbind (gslice off (off + len) b) (\<lambda>w.
     rbind (ser x w) (\<lambda>w'.
     write_fields ser len xs (off + len) (put_at off w' b)))"

section \<open>The contract of a field\<close>

locale wire_field =
  fixes wf :: "'a \<Rightarrow> bool"
    and enc :: "'a \<Rightarrow> bytes"
    and ser :: "'a \<Rightarrow> bytes \<Rightarrow> bytes res"
    and dec :: "bytes \<Rightarrow> 'a res"
    and len :: nat
  assumes enc_len: "wf x \<Longrightarrow> length (enc x) = len"
    and ser_ok: "wf x \<Longrightarrow> len \<le> length b \<Longrightarrow> ser x b = Inr (put_at 0 (enc x) b)"
    and dec_enc: "wf x \<Longrightarrow> dec (enc x @ ys) = Inr x"
    and dec_ok: "len \<le> length b \<Longrightarrow> \<exists>x. dec b = Inr x \<and> wf x"
begin

lemma concat_len: "list_all wf xs \<Longrightarrow> length (concat (map enc xs)) = length xs * len"
  by (induction xs) (auto simp: enc_len)

lemma write_ok:
  "list_all wf xs \<Longrightarrow> off + length xs * len \<le> length b \<Longrightarrow>
   write_fields ser len xs off b = Inr (put_at off (concat (map enc xs)) b)"
proof (induction xs arbitrary: off b)
  case Nil
  then show ?case by (simp add: put_at_def)
next
  case (Cons x xs)
  let ?w = "slice off (off + len) b" and ?t = "concat (map enc xs)"
  from Cons.prems have x: "wf x" "length (enc x) = len" "length ?t = length xs * len"
    by (auto simp: enc_len concat_len)
  from Cons.prems x have w: "ser x ?w = Inr (enc x)"
    by (simp add: ser_ok put_at_0)
  have "write_fields ser len (x # xs) off b = write_fields ser len xs (off + len) (put_at off (enc x) b)"
    using Cons.prems w by simp
  also have "\<dots> = Inr (put_at (off + len) ?t (put_at off (enc x) b))"
    using Cons.prems x by (intro Cons.IH) auto
  also have "put_at (off + len) ?t (put_at off (enc x) b) = put_at off (enc x @ ?t) b"
    using Cons.prems x by (simp add: put_at_def add_ac)
  finally show ?case by simp
qed

lemma decode_ok:
  "off + n * len \<le> length data \<Longrightarrow>
   \<exists>xs. decode_fields dec len n off data = Inr xs \<and> length xs = n \<and> list_all wf xs"
proof (induction n arbitrary: off)
  case 0
  then show ?case by simp
next
  case (Suc n)
  from Suc.prems obtain x where "dec (slice off (off + len) data) = Inr x" "wf x"
    using dec_ok [of "slice off (off + len) data"] by auto
  moreover from Suc.prems obtain xs where
    "decode_fields dec len n (off + len) data = Inr xs" "length xs = n" "list_all wf xs"
    using Suc.IH [of "off + len"] by auto
  ultimately show ?case using Suc.prems by simp
qed

lemma decode_enc:
  "list_all wf xs \<Longrightarrow> length pre = off \<Longrightarrow>
   decode_fields dec len (length xs) off (pre @ concat (map enc xs) @ post) = Inr xs"
proof (induction xs arbitrary: off pre)
  case Nil
  then show ?case by simp
next
  case (Cons x xs)
  let ?data = "pre @ concat (map enc (x # xs)) @ post"
  from Cons.prems have x: "wf x" "length (enc x) = len" by (auto simp: enc_len)
  have "slice off (off + len) ?data = enc x"
    using Cons.prems x by (simp add: slice_def)
  moreover have "dec (enc x) = Inr x" using dec_enc [OF x(1), of "[]"] by simp
  moreover have "decode_fields dec len (length xs) (off + len) ?data = Inr xs"
    using Cons.IH [of "pre @ enc x" "off + len"] Cons.prems x by simp
  moreover have "off + len \<le> length ?data" using Cons.prems x by simp
  ultimately show ?case by simp
qed

lemma decode_nth:
  "decode_fields dec len n off data = Inr xs \<Longrightarrow> i < n \<Longrightarrow>
   dec (slice (off + i * len) (off + i * len + len) data) = Inr (xs ! i)"
proof (induction n arbitrary: off xs i)
  case 0
  then show ?case by simp
next
  case (Suc n)
  from Suc.prems(1) obtain x xs' where
    w: "gslice off (off + len) data = Inr (slice off (off + len) data)" and
    x: "dec (slice off (off + len) data) = Inr x" and
    xs': "decode_fields dec len n (off + len) data = Inr xs'" "xs = x # xs'"
    by (auto simp: res_simps gslice_def split: if_splits)
  show ?case
  proof (cases i)
    case 0
    with x xs' show ?thesis by simp
  next
    case (Suc k)
    with Suc.prems Suc.IH [OF xs'(1), of k] xs' show ?thesis by (simp add: add_ac)
  qed
qed

end

section \<open>The contract of a path type\<close>

locale path_codec =
  fixes pwf :: "'p \<Rightarrow> bool"
    and plen :: "'p \<Rightarrow> nat"
    and pser :: "'p \<Rightarrow> bytes \<Rightarrow> bytes res"
    and pdec :: "bytes \<Rightarrow> 'p res"
  assumes pser_short: "length b < plen p \<Longrightarrow> \<exists>m. pser p b = Inl (Err m)"
    and pser_ok: "pwf p \<Longrightarrow> plen p \<le> length b \<Longrightarrow>
      \<exists>b'. pser p b = Inr b' \<and> length b' = length b \<and> drop (plen p) b' = drop (plen p) b \<and>
        pdec (take (plen p) b') = Inr p"
begin

text \<open>What the header layer needs: into a buffer of exactly \<open>Len()\<close> bytes the path can be
  written, and read back.\<close>

lemma exact_roundtrip:
  assumes "pwf p" "length b = plen p"
  shows "\<exists>b'. pser p b = Inr b' \<and> length b' = plen p \<and> pdec b' = Inr p"
  using pser_ok [OF assms(1), of b] assms(2) by auto

lemma ser_total_iff:
  assumes "pwf p"
  shows "(\<exists>b'. pser p b = Inr b') \<longleftrightarrow> plen p \<le> length b"
  using pser_ok [OF assms, of b] pser_short [of b p] by (cases "plen p \<le> length b") auto

end

end
