(* ===== verification/Path_Fields.thy ===== *)
theory Path_Fields
  imports Wire
begin

text \<open>
  The fields every SCION path is made of (go/lib/slayers/path): the info field of a segment, the
  hop field of an AS on it, their wire formats, the hop field MAC and the SegID update that chains
  the MACs of a segment. The keyed hash (\<open>hash.Hash\<close>, an AES-CMAC in production) is a
  parameter: a function from the written bytes to the sum.
\<close>

section \<open>Hop fields\<close>

definition HopLen :: nat where "HopLen = 12"
definition MacLen :: nat where "MacLen = 6"

text \<open>Maximum age in seconds and the unit of \<open>ExpTime\<close>: Go's integer division of constants.\<close>

definition MaxTTL :: int where "MaxTTL = 24 * 60 * 60"
definition expTimeUnit :: int where "expTimeUnit = MaxTTL div 256"

record hop_field =
  IngressRouterAlert :: bool
  EgressRouterAlert :: bool
  ExpTime :: u8
  ConsIngress :: u16
  ConsEgress :: u16
  Mac :: bytes

text \<open>The Go type \<open>[MacLen]byte\<close> fixes the length of the MAC.\<close>

definition hop_wf :: "hop_field \<Rightarrow> bool" where
  "hop_wf h \<longleftrightarrow> length (Mac h) = MacLen"

text \<open>The zero value \<open>HopField{}\<close>.\<close>

definition hop_zero :: hop_field where
  "hop_zero = \<lparr>IngressRouterAlert = False, EgressRouterAlert = False, ExpTime = 0,
     ConsIngress = 0, ConsEgress = 0, Mac = replicate MacLen 0\<rparr>"

definition HopField_DecodeFromBytes :: "bytes \<Rightarrow> hop_field res" where
  "HopField_DecodeFromBytes raw =
     (if length raw < HopLen then Inl (Err ''HopField raw too short'')
      else Inr \<lparr>IngressRouterAlert = (raw ! 0 AND 2 = 2),
                EgressRouterAlert = (raw ! 0 AND 1 = 1),
                ExpTime = raw ! 1,
                ConsIngress = Uint16 (slice 2 4 raw),
                ConsEgress = Uint16 (slice 4 6 raw),
                Mac = slice 6 (6 + MacLen) raw\<rparr>)"

definition HopField_SerializeTo :: "hop_field \<Rightarrow> bytes \<Rightarrow> bytes res" where
  "HopField_SerializeTo h b =
     (if length b < HopLen then Inl (Err ''buffer for HopField too short'')
      else let
        b = b[0 := 0];
        b = (if EgressRouterAlert h then b[0 := b ! 0 OR 1] else b);
        b = (if IngressRouterAlert h then b[0 := b ! 0 OR 2] else b);
        b = b[1 := ExpTime h];
        b = put_at 2 (PutUint16 (ConsIngress h)) b;
        b = put_at 4 (PutUint16 (ConsEgress h)) b;
        b = put_at 6 (Mac h) b
      in Inr b)"

text \<open>A \<open>time.Duration\<close> is a signed count of nanoseconds.\<close>

definition second_ns :: int where "second_ns = 1000000000"

definition ExpTimeToDuration :: "u8 \<Rightarrow> int" where
  "ExpTimeToDuration expTime = (uint expTime + 1) * expTimeUnit * second_ns"

section \<open>Info fields\<close>

definition InfoLen :: nat where "InfoLen = 8"

record info_field =
  Peer :: bool
  ConsDir :: bool
  SegID :: u16
  Timestamp :: u32

definition info_zero :: info_field where
  "info_zero = \<lparr>Peer = False, ConsDir = False, SegID = 0, Timestamp = 0\<rparr>"

definition InfoField_DecodeFromBytes :: "bytes \<Rightarrow> info_field res" where
  "InfoField_DecodeFromBytes raw =
     (if length raw < InfoLen then Inl (Err ''InfoField raw too short'')
      else Inr \<lparr>Peer = (raw ! 0 AND 2 = 2),
                ConsDir = (raw ! 0 AND 1 = 1),
                SegID = Uint16 (slice 2 4 raw),
                Timestamp = Uint32 (slice 4 8 raw)\<rparr>)"

definition InfoField_SerializeTo :: "info_field \<Rightarrow> bytes \<Rightarrow> bytes res" where
  "InfoField_SerializeTo info b =
     (if length b < InfoLen then Inl (Err ''buffer for InfoField too short'')
      else let
        b = b[0 := 0];
        b = (if ConsDir info then b[0 := b ! 0 OR 1] else b);
        b = (if Peer info then b[0 := b ! 0 OR 2] else b);
        b = b[1 := 0];
        b = put_at 2 (PutUint16 (SegID info)) b;
        b = put_at 4 (PutUint32 (Timestamp info)) b
      in Inr b)"

definition UpdateSegID :: "info_field \<Rightarrow> bytes \<Rightarrow> info_field" where
  "UpdateSegID info hfMac = info\<lparr>SegID := SegID info XOR Uint16 (slice 0 2 hfMac)\<rparr>"

section \<open>The hop field MAC\<close>

definition MACBufferSize :: nat where "MACBufferSize = 16"

definition MACInput :: "u16 \<Rightarrow> u32 \<Rightarrow> u8 \<Rightarrow> u16 \<Rightarrow> u16 \<Rightarrow> bytes \<Rightarrow> bytes" where
  "MACInput segID timestamp expTime consIngress consEgress buffer = (let
     b = put_at 0 (PutUint16 0) buffer;
     b = put_at 2 (PutUint16 segID) b;
     b = put_at 4 (PutUint32 timestamp) b;
     b = b[8 := 0];
     b = b[9 := expTime];
     b = put_at 10 (PutUint16 consIngress) b;
     b = put_at 12 (PutUint16 consEgress) b;
     b = put_at 14 (PutUint16 0) b
   in b)"

text \<open>\<open>h\<close> stands for \<open>Reset\<close>, \<open>Write\<close> of the buffer and \<open>Sum\<close>.\<close>

definition FullMAC :: "(bytes \<Rightarrow> bytes) \<Rightarrow> info_field \<Rightarrow> hop_field \<Rightarrow> bytes \<Rightarrow> bytes" where
  "FullMAC h info hf buffer = (let
     buffer = (if length buffer < MACBufferSize then replicate MACBufferSize 0 else buffer);
     buffer = MACInput (SegID info) (Timestamp info) (ExpTime hf)
                (ConsIngress hf) (ConsEgress hf) buffer
   in slice 0 16 (h buffer))"

definition MAC :: "(bytes \<Rightarrow> bytes) \<Rightarrow> info_field \<Rightarrow> hop_field \<Rightarrow> bytes \<Rightarrow> bytes" where
  "MAC h info hf buffer = slice 0 MacLen (FullMAC h info hf buffer)"

lemmas path_len_defs = HopLen_def MacLen_def InfoLen_def MACBufferSize_def

section \<open>Wire formats as byte strings\<close>

text \<open>The bytes a serialisation writes, and that it writes exactly those.\<close>

definition alert_byte :: "bool \<Rightarrow> bool \<Rightarrow> u8" where
  "alert_byte lo hi = (if lo then 1 else 0) OR (if hi then 2 else 0)"

definition hop_bytes :: "hop_field \<Rightarrow> bytes" where
  "hop_bytes h = alert_byte (EgressRouterAlert h) (IngressRouterAlert h) # ExpTime h #
     PutUint16 (ConsIngress h) @ PutUint16 (ConsEgress h) @ Mac h"

definition info_bytes :: "info_field \<Rightarrow> bytes" where
  "info_bytes info = alert_byte (ConsDir info) (Peer info) # 0 #
     PutUint16 (SegID info) @ PutUint32 (Timestamp info)"

lemma alert_byte_bits [simp]:
  "alert_byte a b AND 1 = 1 \<longleftrightarrow> a" "alert_byte a b AND 2 = 2 \<longleftrightarrow> b"
  by (cases a; cases b; simp add: alert_byte_def)+

lemma length_hop_bytes [simp, wire_simps]: "hop_wf h \<Longrightarrow> length (hop_bytes h) = HopLen"
  by (simp add: hop_bytes_def hop_wf_def path_len_defs)

lemma length_info_bytes [simp, wire_simps]: "length (info_bytes info) = InfoLen"
  by (simp add: info_bytes_def path_len_defs)

lemma hop_zero_wf [simp]: "hop_wf hop_zero"
  by (simp add: hop_wf_def hop_zero_def)

lemma put_at_Cons: "put_at (Suc i) bs (x # b) = x # put_at i bs b"
  by (simp add: put_at_def)

lemma put_at_Nil [simp]: "put_at i [] b = b"
  by (simp add: put_at_def)

lemma put_at_step:
  "put_at 0 (x # bs) (y # b) = x # put_at 0 bs b"
  by (simp add: put_at_def)

lemma length_ge_split: "n \<le> length b \<Longrightarrow> \<exists>xs ys. b = xs @ ys \<and> length xs = n"
  by (metis append_take_drop_id length_take min_absorb2)

lemmas put_at_eval = put_at_Cons put_at_step numeral_eq_Suc

lemma HopField_SerializeTo_eq:
  assumes "hop_wf h"
  shows "HopField_SerializeTo h b =
    (if length b < HopLen then Inl (Err ''buffer for HopField too short'')
     else Inr (put_at 0 (hop_bytes h) b))"
proof (cases "length b < HopLen")
  case False
  then obtain xs ys where b: "b = xs @ ys" and xs: "length xs = 12"
    using length_ge_split [of 12 b] by (auto simp: path_len_defs)
  obtain ms where m: "Mac h = ms" "length ms = 6"
    using assms by (simp add: hop_wf_def path_len_defs)
  from xs m(2) show ?thesis using False
    by (auto simp: length_Suc_conv numeral_eq_Suc HopField_SerializeTo_def hop_bytes_def b m(1)
      Let_def put_at_def alert_byte_def PutUint16_def)
qed (simp add: HopField_SerializeTo_def)

lemma InfoField_SerializeTo_eq:
  "InfoField_SerializeTo info b =
    (if length b < InfoLen then Inl (Err ''buffer for InfoField too short'')
     else Inr (put_at 0 (info_bytes info) b))"
proof (cases "length b < InfoLen")
  case False
  then obtain xs ys where b: "b = xs @ ys" and xs: "length xs = 8"
    using length_ge_split [of 8 b] by (auto simp: path_len_defs)
  from xs show ?thesis using False
    by (auto simp: length_Suc_conv numeral_eq_Suc InfoField_SerializeTo_def info_bytes_def b
      Let_def put_at_def alert_byte_def PutUint16_def PutUint32_def)
qed (simp add: InfoField_SerializeTo_def)

section \<open>Round trips\<close>

lemma slice_append_left: "j \<le> length xs \<Longrightarrow> slice i j (xs @ ys) = slice i j xs"
  by (rule nth_equalityI) (auto simp: nth_append)

lemma HopField_Decode_hop_bytes:
  assumes "hop_wf h"
  shows "HopField_DecodeFromBytes (hop_bytes h @ ys) = Inr h"
proof -
  obtain ms where m: "Mac h = ms" "length ms = 6"
    using assms by (simp add: hop_wf_def path_len_defs)
  then have "slice 2 4 (hop_bytes h @ ys) = PutUint16 (ConsIngress h)"
    "slice 4 6 (hop_bytes h @ ys) = PutUint16 (ConsEgress h)"
    "slice 6 12 (hop_bytes h @ ys) = Mac h"
    by (simp_all add: slice_def hop_bytes_def PutUint16_def numeral_eq_Suc)
  moreover have "hop_bytes h ! 0 = alert_byte (EgressRouterAlert h) (IngressRouterAlert h)"
    "hop_bytes h ! 1 = ExpTime h"
    by (simp_all add: hop_bytes_def)
  ultimately show ?thesis
    using assms by (simp add: HopField_DecodeFromBytes_def nth_append path_len_defs)
qed

lemma InfoField_Decode_info_bytes: "InfoField_DecodeFromBytes (info_bytes info @ ys) = Inr info"
proof -
  have "slice 2 4 (info_bytes info @ ys) = PutUint16 (SegID info)"
    "slice 4 8 (info_bytes info @ ys) = PutUint32 (Timestamp info)"
    by (simp_all add: slice_def info_bytes_def PutUint16_def PutUint32_def numeral_eq_Suc)
  moreover have "info_bytes info ! 0 = alert_byte (ConsDir info) (Peer info)"
    by (simp add: info_bytes_def)
  ultimately show ?thesis
    by (simp add: InfoField_DecodeFromBytes_def nth_append path_len_defs)
qed

lemma HopField_Decode_wf: "HopField_DecodeFromBytes raw = Inr h \<Longrightarrow> hop_wf h"
  by (auto simp: HopField_DecodeFromBytes_def hop_wf_def path_len_defs split: if_splits)

lemma HopField_Decode_total:
  "HopLen \<le> length raw \<Longrightarrow> \<exists>h. HopField_DecodeFromBytes raw = Inr h"
  by (simp add: HopField_DecodeFromBytes_def)

lemma InfoField_Decode_total:
  "InfoLen \<le> length raw \<Longrightarrow> \<exists>i. InfoField_DecodeFromBytes raw = Inr i"
  by (simp add: InfoField_DecodeFromBytes_def)

text \<open>Both fields keep the contract of a fixed-width wire field.\<close>

interpretation hopw: wire_field hop_wf hop_bytes HopField_SerializeTo HopField_DecodeFromBytes HopLen
proof
  fix b :: bytes assume "HopLen \<le> length b"
  then show "\<exists>x. HopField_DecodeFromBytes b = Inr x \<and> hop_wf x"
    using HopField_Decode_total HopField_Decode_wf by blast
qed (auto simp: HopField_SerializeTo_eq HopField_Decode_hop_bytes)

interpretation infow: wire_field "\<lambda>_. True" info_bytes InfoField_SerializeTo
  InfoField_DecodeFromBytes InfoLen
  by unfold_locales (auto simp: InfoField_SerializeTo_eq InfoField_Decode_info_bytes
    InfoField_Decode_total)

text \<open>A hop field written into any buffer that is long enough is read back unchanged, and
  only the first \<open>HopLen\<close> bytes of the buffer change; a shorter buffer is refused.\<close>

lemma HopField_roundtrip:
  assumes "hop_wf h"
  shows "(if HopLen \<le> length b
      then \<exists>b'. HopField_SerializeTo h b = Inr b' \<and> length b' = length b \<and>
             drop HopLen b' = drop HopLen b \<and> HopField_DecodeFromBytes b' = Inr h
      else HopField_SerializeTo h b = Inl (Err ''buffer for HopField too short''))"
  using assms HopField_Decode_hop_bytes [OF assms, of "drop HopLen b"]
  by (auto simp: HopField_SerializeTo_eq put_at_0)

lemma HopField_roundtrip_example:
  "\<exists>b'. HopField_SerializeTo (hop_zero\<lparr>ConsEgress := 7\<rparr>) (replicate 14 255) = Inr b' \<and>
     length b' = 14 \<and> HopField_DecodeFromBytes b' = Inr (hop_zero\<lparr>ConsEgress := 7\<rparr>)"
proof -
  have "hop_wf (hop_zero\<lparr>ConsEgress := 7\<rparr>)" by (simp add: hop_wf_def hop_zero_def)
  from HopField_roundtrip [OF this, of "replicate 14 255"] show ?thesis
    by (auto simp: path_len_defs)
qed

text \<open>An info field written into any buffer that is long enough is read back unchanged, and
  only the first \<open>InfoLen\<close> bytes of the buffer change; a shorter buffer is refused.\<close>

lemma InfoField_roundtrip:
  "(if InfoLen \<le> length b
    then \<exists>b'. InfoField_SerializeTo info b = Inr b' \<and> length b' = length b \<and>
           drop InfoLen b' = drop InfoLen b \<and> InfoField_DecodeFromBytes b' = Inr info
    else InfoField_SerializeTo info b = Inl (Err ''buffer for InfoField too short''))"
  using InfoField_Decode_info_bytes [of info "drop InfoLen b"]
  by (auto simp: InfoField_SerializeTo_eq put_at_0)

section \<open>The MAC input block\<close>

text \<open>The 16 bytes that are authenticated: SegID, timestamp, expiry and the two interfaces.\<close>

definition mac_block :: "info_field \<Rightarrow> hop_field \<Rightarrow> bytes" where
  "mac_block info hf = PutUint16 0 @ PutUint16 (SegID info) @ PutUint32 (Timestamp info) @
     [0, ExpTime hf] @ PutUint16 (ConsIngress hf) @ PutUint16 (ConsEgress hf) @ PutUint16 0"

lemma length_mac_block [simp]: "length (mac_block info hf) = 16"
  by (simp add: mac_block_def)

lemma MACInput_mac_block:
  assumes "length b = 16"
  shows "MACInput (SegID info) (Timestamp info) (ExpTime hf) (ConsIngress hf) (ConsEgress hf) b =
    mac_block info hf"
  using assms
  by (auto simp: length_Suc_conv numeral_eq_Suc MACInput_def mac_block_def Let_def put_at_def
    PutUint16_def PutUint32_def)

lemma FullMAC_mac_block:
  "length b \<le> MACBufferSize \<Longrightarrow> FullMAC h info hf b = slice 0 16 (h (mac_block info hf))"
  using MACInput_mac_block [of b info hf] MACInput_mac_block [of "replicate 16 0" info hf]
  by (auto simp: FullMAC_def Let_def path_len_defs)

lemma PutUint_inject [simp]:
  "PutUint16 a = PutUint16 a' \<longleftrightarrow> a = a'" "PutUint32 b = PutUint32 b' \<longleftrightarrow> b = b'"
  by (metis Uint16_PutUint16, metis Uint32_PutUint32)

text \<open>The MAC does not depend on the scratch buffer of 16 bytes it is computed in (nor on
  whether one is given), and two inputs are hashed alike exactly when they agree on SegID,
  timestamp, expiry time and both construction interfaces.\<close>

lemma FullMAC_input:
  "FullMAC h info hf (take 16 b) = slice 0 16 (h (mac_block info hf)) \<and>
   (mac_block info hf = mac_block info' hf' \<longleftrightarrow>
     SegID info = SegID info' \<and> Timestamp info = Timestamp info' \<and> ExpTime hf = ExpTime hf' \<and>
     ConsIngress hf = ConsIngress hf' \<and> ConsEgress hf = ConsEgress hf')"
  by (auto simp: FullMAC_mac_block path_len_defs) (auto simp: mac_block_def)

section \<open>SegID chaining and expiry\<close>

lemma UpdateSegID_simps [simp]:
  "ConsDir (UpdateSegID info m) = ConsDir info" "Peer (UpdateSegID info m) = Peer info"
  "Timestamp (UpdateSegID info m) = Timestamp info"
  by (simp_all add: UpdateSegID_def)

lemma UpdateSegID_twice: "UpdateSegID (UpdateSegID info m) m = info"
  by (simp add: UpdateSegID_def xor.assoc)

text \<open>The relative expiry of a hop field is positive, grows strictly with \<open>ExpTime\<close>, never
  exceeds \<open>MaxTTL\<close>, and is the whole-second unit 337 s per step: at most 128 s below the
  \<open>(1 + ExpTime) * (24*60*60)/256\<close> seconds the field's comment gives.\<close>

lemma ExpTimeToDuration_bounds:
  "0 < ExpTimeToDuration e \<and> ExpTimeToDuration e \<le> MaxTTL * second_ns \<and>
   (ExpTimeToDuration e < ExpTimeToDuration e' \<longleftrightarrow> e < e') \<and>
   ExpTimeToDuration e = (1 + uint e) * 337 * second_ns \<and>
   (1 + uint e) * MaxTTL * second_ns - 256 * ExpTimeToDuration e \<le> 256 * 128 * second_ns"
proof -
  have "uint e < 256" "0 \<le> uint e" "0 \<le> uint e'"
    using uint_lt2p [of e] by auto
  then show ?thesis
    by (auto simp: ExpTimeToDuration_def expTimeUnit_def MaxTTL_def second_ns_def word_less_def
      intro!: add_nonneg_pos)
qed

end
