(* ===== verification/Scion_Path.thy ===== *)
theory Scion_Path
  imports Path_Fields
begin

text \<open>
  The SCION path type (go/lib/slayers/path/scion): the path meta header, the \<open>Base\<close> both
  representations embed, the raw path the router works on and the decoded path. Go's struct
  embedding is record extension, so the methods of \<open>Base\<close> apply to both. A method with a
  pointer receiver returns the changed receiver; \<open>IncPath\<close>, which changes it even when it
  fails, returns it beside the error. A nil slice is the empty list.
\<close>

section \<open>The path meta header\<close>

definition MetaLen :: nat where "MetaLen = 4"

record meta_hdr =
  CurrINF :: u8
  CurrHF :: u8
  SegLen :: "u8 list"

definition MetaHdr_DecodeFromBytes :: "bytes \<Rightarrow> meta_hdr res" where
  "MetaHdr_DecodeFromBytes raw =
     (if length raw < MetaLen then Inl (Err ''MetaHdr raw too short'')
      else let line = Uint32 raw in
       Inr \<lparr>CurrINF = ucast (drop_bit 30 line),
            CurrHF = ucast (drop_bit 24 line) AND 0x3F,
            SegLen = [ucast (drop_bit 12 line) AND 0x3F,
                      ucast (drop_bit 6 line) AND 0x3F,
                      ucast line AND 0x3F]\<rparr>)"

definition meta_line :: "meta_hdr \<Rightarrow> u32" where
  "meta_line m = push_bit 30 (ucast (CurrINF m)) OR push_bit 24 (ucast (CurrHF m AND 0x3F)) OR
     push_bit 12 (ucast (SegLen m ! 0 AND 0x3F)) OR
     push_bit 6 (ucast (SegLen m ! 1 AND 0x3F)) OR
     ucast (SegLen m ! 2 AND 0x3F)"

definition MetaHdr_SerializeTo :: "meta_hdr \<Rightarrow> bytes \<Rightarrow> bytes res" where
  "MetaHdr_SerializeTo m b =
     (if length b < MetaLen then Inl (Err ''buffer for MetaHdr too short'')
      else Inr (put_at 0 (PutUint32 (meta_line m)) b))"

section \<open>Base\<close>

record base =
  PathMeta :: meta_hdr
  NumINF :: nat
  NumHops :: nat

text \<open>The loop \<open>for i := 2; i >= 0; i--\<close> over the segment lengths, with its two counters.\<close>

fun seglen_loop :: "u8 list \<Rightarrow> nat list \<Rightarrow> nat \<Rightarrow> nat \<Rightarrow> (nat \<times> nat) res" where
  "seglen_loop segLen [] numINF numHops = Inr (numINF, numHops)"
| "seglen_loop segLen (i # is) numINF numHops =
     (if segLen ! i = 0 \<and> numINF > 0
      then Inl (Err ''Meta.SegLen[i] == 0, but Meta.SegLen[j] > 0'')
      else seglen_loop segLen is
             (if segLen ! i > 0 \<and> numINF = 0 then i + 1 else numINF)
             (numHops + unat (segLen ! i)))"

definition Base_DecodeFromBytes :: "bytes \<Rightarrow> base res" where
  "Base_DecodeFromBytes data =
     rbind (MetaHdr_DecodeFromBytes data) (\<lambda>m.
     rbind (seglen_loop (SegLen m) [2, 1, 0] 0 0) (\<lambda>(numINF, numHops).
     Inr \<lparr>PathMeta = m, NumINF = numINF, NumHops = numHops\<rparr>))"

text \<open>The loop of \<open>infIndexForHF\<close>; \<open>left\<close> is a \<open>uint8\<close>.\<close>

fun inf_index_loop :: "u8 list \<Rightarrow> nat \<Rightarrow> u8 \<Rightarrow> u8 \<Rightarrow> u8 option" where
  "inf_index_loop [] i left hf = None"
| "inf_index_loop (l # ls) i left hf =
     (if hf \<ge> left \<and> hf < left + l then Some (of_nat i)
      else inf_index_loop ls (Suc i) (left + l) hf)"

definition infIndexForHF :: "'a base_scheme \<Rightarrow> u8 \<Rightarrow> u8" where
  "infIndexForHF s hf =
     (case inf_index_loop (take (NumINF s) (SegLen (PathMeta s))) 0 0 hf of
        Some i \<Rightarrow> i
      | None \<Rightarrow> word_of_int (int (NumINF s) - 1))"

definition Base_IncPath :: "'a base_scheme \<Rightarrow> 'a base_scheme \<times> go_error option" where
  "Base_IncPath s =
     (if NumINF s = 0 then (s, Some (Err ''empty path cannot be increased''))
      else if int (unat (CurrHF (PathMeta s))) \<ge> int (NumHops s) - 1
      then (s\<lparr>PathMeta := (PathMeta s)\<lparr>CurrHF := word_of_int (int (NumHops s) - 1)\<rparr>\<rparr>,
            Some (Err ''path already at end''))
      else let hf = CurrHF (PathMeta s) + 1 in
        (s\<lparr>PathMeta := (PathMeta s)\<lparr>CurrHF := hf, CurrINF := infIndexForHF s hf\<rparr>\<rparr>, None))"

definition IsXover :: "'a base_scheme \<Rightarrow> bool" where
  "IsXover s \<longleftrightarrow> CurrINF (PathMeta s) \<noteq> infIndexForHF s (CurrHF (PathMeta s) + 1)"

definition path_Len :: "'a base_scheme \<Rightarrow> nat" where
  "path_Len s = MetaLen + NumINF s * InfoLen + NumHops s * HopLen"

section \<open>Decoded paths\<close>

definition MaxINFs :: nat where "MaxINFs = 3"
definition MaxHops :: nat where "MaxHops = 64"

record decoded_path = base +
  InfoFields :: "info_field list"
  HopFields :: "hop_field list"

definition Decoded_DecodeFromBytes :: "bytes \<Rightarrow> decoded_path res" where
  "Decoded_DecodeFromBytes data =
     rbind (Base_DecodeFromBytes data) (\<lambda>s.
     if length data < path_Len s then Inl (Err ''DecodedPath raw too short'')
     else
     rbind (decode_fields InfoField_DecodeFromBytes InfoLen (NumINF s) MetaLen data) (\<lambda>infos.
     rbind (decode_fields HopField_DecodeFromBytes HopLen (NumHops s)
              (MetaLen + NumINF s * InfoLen) data) (\<lambda>hops.
     Inr \<lparr>PathMeta = PathMeta s, NumINF = NumINF s, NumHops = NumHops s,
          InfoFields = infos, HopFields = hops\<rparr>)))"

definition Decoded_SerializeTo :: "decoded_path \<Rightarrow> bytes \<Rightarrow> bytes res" where
  "Decoded_SerializeTo s b =
     (if length b < path_Len s then Inl (Err ''buffer too small to serialize path.'')
      else
      rbind (gslice 0 MetaLen b) (\<lambda>w.
      rbind (MetaHdr_SerializeTo (PathMeta s) w) (\<lambda>w'.
      rbind (write_fields InfoField_SerializeTo InfoLen (InfoFields s) MetaLen (put_at 0 w' b)) (\<lambda>b.
      write_fields HopField_SerializeTo HopLen (HopFields s)
        (MetaLen + length (InfoFields s) * InfoLen) b))))"

text \<open>\<open>for i, j := lo, hi; i < j; i, j = i+1, j-1 { x[i], x[j] = x[j], x[i] }\<close>\<close>

function swap_range :: "nat \<Rightarrow> nat \<Rightarrow> 'a list \<Rightarrow> 'a list" where
  "swap_range i j xs =
     (if i < j then swap_range (i + 1) (j - 1) (xs[i := xs ! j, j := xs ! i]) else xs)"
  by pat_completeness auto
termination
  by (relation "measure (\<lambda>(i, j, xs). j - i)") auto

declare swap_range.simps [simp del]

text \<open>\<open>for i := 0; i < n; i++ { info := &InfoFields[i]; info.ConsDir = !info.ConsDir }\<close>\<close>

definition flip_consdir :: "nat \<Rightarrow> info_field list \<Rightarrow> info_field list" where
  "flip_consdir n is = map (\<lambda>i. i\<lparr>ConsDir := \<not> ConsDir i\<rparr>) (take n is) @ drop n is"

text \<open>\<open>None\<close> is the nil path the method returns for an empty path. The index expressions of its
  loops panic when the slices are shorter than the counters say.\<close>

definition Decoded_Reverse :: "decoded_path \<Rightarrow> decoded_path option res" where
  "Decoded_Reverse s =
     (if NumINF s = 0 then Inr None
      else if length (InfoFields s) < NumINF s \<or> length (SegLen (PathMeta s)) < NumINF s \<or>
              NumHops s \<ge> 2 \<and> length (HopFields s) < NumHops s
      then Inl (Panic ''index out of range'')
      else let m = PathMeta s in
       Inr (Some (s\<lparr>
         InfoFields := flip_consdir (NumINF s) (swap_range 0 (NumINF s - 1) (InfoFields s)),
         HopFields := swap_range 0 (NumHops s - 1) (HopFields s),
         PathMeta := m\<lparr>
           SegLen := swap_range 0 (NumINF s - 1) (SegLen m),
           CurrINF := of_nat (NumINF s) - CurrINF m - 1,
           CurrHF := of_nat (NumHops s) - CurrHF m - 1\<rparr>\<rparr>)))"

section \<open>Raw paths\<close>

record raw_path = base +
  Raw :: bytes

definition Raw_DecodeFromBytes :: "bytes \<Rightarrow> raw_path res" where
  "Raw_DecodeFromBytes data =
     rbind (Base_DecodeFromBytes data) (\<lambda>s.
     if length data < path_Len s then Inl (Err ''RawPath raw too short'')
     else Inr \<lparr>PathMeta = PathMeta s, NumINF = NumINF s, NumHops = NumHops s,
               Raw = slice 0 (path_Len s) data\<rparr>)"

text \<open>\<open>s.PathMeta.SerializeTo(s.Raw[:MetaLen])\<close>\<close>

definition Raw_sync_meta :: "raw_path \<Rightarrow> raw_path res" where
  "Raw_sync_meta s =
     rbind (gslice 0 MetaLen (Raw s)) (\<lambda>w.
     rbind (MetaHdr_SerializeTo (PathMeta s) w) (\<lambda>w'.
     Inr (s\<lparr>Raw := put_at 0 w' (Raw s)\<rparr>)))"

definition Raw_SerializeTo :: "raw_path \<Rightarrow> bytes \<Rightarrow> (raw_path \<times> bytes) res" where
  "Raw_SerializeTo s b =
     (if Raw s = [] then Inl (Err ''raw is nil'')
      else if length b < path_Len s then Inl (Err ''buffer too small'')
      else rbind (Raw_sync_meta s) (\<lambda>s'. Inr (s', go_copy b (Raw s'))))"

definition Raw_ToDecoded :: "raw_path \<Rightarrow> (raw_path \<times> decoded_path) res" where
  "Raw_ToDecoded s =
     rbind (Raw_sync_meta s) (\<lambda>s'.
     rbind (Decoded_DecodeFromBytes (Raw s')) (\<lambda>d. Inr (s', d)))"

definition Raw_Reverse :: "raw_path \<Rightarrow> raw_path res" where
  "Raw_Reverse s =
     rbind (Raw_ToDecoded s) (\<lambda>(s', decoded).
     rbind (Decoded_Reverse decoded) (\<lambda>reversed.
     case reversed of
       None \<Rightarrow> Inl (Panic ''nil pointer dereference'')
     | Some r \<Rightarrow>
         rbind (Decoded_SerializeTo r (Raw s')) (\<lambda>b.
         Raw_DecodeFromBytes b)))"

definition Raw_IncPath :: "raw_path \<Rightarrow> raw_path res" where
  "Raw_IncPath s =
     (case Base_IncPath s of
        (s', Some e) \<Rightarrow> Inl e
      | (s', None) \<Rightarrow> Raw_sync_meta s')"

definition GetInfoField :: "raw_path \<Rightarrow> nat \<Rightarrow> info_field res" where
  "GetInfoField s idx =
     (if idx \<ge> NumINF s then Inl (Err ''InfoField index out of bounds'')
      else let infOffset = MetaLen + idx * InfoLen in
        rbind (gslice infOffset (infOffset + InfoLen) (Raw s)) InfoField_DecodeFromBytes)"

definition GetCurrentInfoField :: "raw_path \<Rightarrow> info_field res" where
  "GetCurrentInfoField s = GetInfoField s (unat (CurrINF (PathMeta s)))"

definition SetInfoField :: "raw_path \<Rightarrow> info_field \<Rightarrow> nat \<Rightarrow> raw_path res" where
  "SetInfoField s info idx =
     (if idx \<ge> NumINF s then Inl (Err ''InfoField index out of bounds'')
      else let infOffset = MetaLen + idx * InfoLen in
        rbind (gslice infOffset (infOffset + InfoLen) (Raw s)) (\<lambda>w.
        rbind (InfoField_SerializeTo info w) (\<lambda>w'.
        Inr (s\<lparr>Raw := put_at infOffset w' (Raw s)\<rparr>))))"

definition hop_offset :: "'a base_scheme \<Rightarrow> nat \<Rightarrow> nat" where
  "hop_offset s idx = MetaLen + NumINF s * InfoLen + idx * HopLen"

definition GetHopField :: "raw_path \<Rightarrow> nat \<Rightarrow> hop_field res" where
  "GetHopField s idx =
     (if idx \<ge> NumHops s then Inl (Err ''HopField index out of bounds'')
      else rbind (gslice (hop_offset s idx) (hop_offset s idx + HopLen) (Raw s))
             HopField_DecodeFromBytes)"

definition GetCurrentHopField :: "raw_path \<Rightarrow> hop_field res" where
  "GetCurrentHopField s = GetHopField s (unat (CurrHF (PathMeta s)))"

definition SetHopField :: "raw_path \<Rightarrow> hop_field \<Rightarrow> nat \<Rightarrow> raw_path res" where
  "SetHopField s hop idx =
     (if idx \<ge> NumHops s then Inl (Err ''HopField index out of bounds'')
      else
        rbind (gslice (hop_offset s idx) (hop_offset s idx + HopLen) (Raw s)) (\<lambda>w.
        rbind (HopField_SerializeTo hop w) (\<lambda>w'.
        Inr (s\<lparr>Raw := put_at (hop_offset s idx) w' (Raw s)\<rparr>))))"

definition IsPenultimateHop :: "'a base_scheme \<Rightarrow> bool" where
  "IsPenultimateHop s \<longleftrightarrow> int (unat (CurrHF (PathMeta s))) = int (NumHops s) - 2"

definition IsLastHop :: "'a base_scheme \<Rightarrow> bool" where
  "IsLastHop s \<longleftrightarrow> int (unat (CurrHF (PathMeta s))) = int (NumHops s) - 1"

text \<open>\<open>ToRaw\<close>: serialise into a fresh zeroed buffer of \<open>Len()\<close> bytes and decode it raw.\<close>

definition Decoded_ToRaw :: "decoded_path \<Rightarrow> raw_path res" where
  "Decoded_ToRaw s =
     rbind (Decoded_SerializeTo s (replicate (path_Len s) 0)) Raw_DecodeFromBytes"

section \<open>Well-formed headers\<close>

text \<open>The ranges the bit fields of the meta header can hold.\<close>

definition meta_wf :: "meta_hdr \<Rightarrow> bool" where
  "meta_wf m \<longleftrightarrow> CurrINF m < 4 \<and> CurrHF m < 64 \<and> length (SegLen m) = 3 \<and>
     (\<forall>l \<in> set (SegLen m). l < 64)"

text \<open>The header word keeps the five fields apart: the field at bit \<open>k\<close> is read back.\<close>

lemma meta_line_fields:
  "ucast (drop_bit 30 (meta_line m)) = take_bit 2 (CurrINF m)"
  "take_bit 6 (ucast (drop_bit 24 (meta_line m))) = take_bit 6 (CurrHF m)"
  "take_bit 6 (ucast (drop_bit 12 (meta_line m))) = take_bit 6 (SegLen m ! 0)"
  "take_bit 6 (ucast (drop_bit 6 (meta_line m))) = take_bit 6 (SegLen m ! 1)"
  "take_bit 6 (ucast (meta_line m)) = take_bit 6 (SegLen m ! 2)"
  unfolding meta_line_def and_3F
  by (rule bit_word_eqI; simp add: bit_simps; auto)+

definition meta_norm :: "meta_hdr \<Rightarrow> meta_hdr" where
  "meta_norm m = \<lparr>CurrINF = take_bit 2 (CurrINF m), CurrHF = take_bit 6 (CurrHF m),
     SegLen = map (take_bit 6) (SegLen m)\<rparr>"

lemma meta_norm_wf: "meta_wf m \<Longrightarrow> meta_norm m = m"
  by (cases m) (auto simp: meta_wf_def meta_norm_def u8_less_4 u8_less_64 intro: map_idI)

lemma Uint32_append: "length xs = 4 \<Longrightarrow> Uint32 (xs @ ys) = Uint32 xs"
  by (simp add: Uint32_def nth_append)

lemma MetaHdr_Decode_line:
  assumes "length (SegLen m) = 3"
  shows "MetaHdr_DecodeFromBytes (PutUint32 (meta_line m) @ ys) = Inr (meta_norm m)"
proof -
  obtain a b c where s: "SegLen m = [a, b, c]"
    using assms by (auto simp: length_Suc_conv numeral_3_eq_3)
  show ?thesis
    using meta_line_fields [of m]
    by (simp add: MetaHdr_DecodeFromBytes_def MetaLen_def Uint32_append meta_norm_def s)
qed

lemma MetaHdr_Decode_wf:
  "MetaHdr_DecodeFromBytes data = Inr m \<Longrightarrow> meta_wf m"
proof -
  have "(ucast (drop_bit 30 (x::u32)) :: u8) < 4" for x
    unfolding u8_less_4
    by (rule bit_word_eqI) (auto simp: bit_simps dest: bit_imp_le_length)
  then show "MetaHdr_DecodeFromBytes data = Inr m \<Longrightarrow> meta_wf m"
    by (auto simp: MetaHdr_DecodeFromBytes_def meta_wf_def Let_def u8_less_64 split: if_splits)
qed

definition segs_ok :: "u8 list \<Rightarrow> nat \<Rightarrow> nat \<Rightarrow> bool" where
  "segs_ok ls n h \<longleftrightarrow> n \<le> length ls \<and> (\<forall>i < length ls. ls ! i = 0 \<longleftrightarrow> n \<le> i) \<and>
     h = sum_list (map unat ls)"

lemma all_less_3: "(\<forall>i < Suc (Suc (Suc 0)). P i) \<longleftrightarrow> P 0 \<and> P 1 \<and> P 2"
  by (auto simp: less_Suc_eq numeral_2_eq_2)

lemma seglen_loop_spec:
  assumes "length ls = 3"
  shows "seglen_loop ls [2, 1, 0] 0 0 = Inr (n, h) \<longleftrightarrow> segs_ok ls n h"
proof -
  obtain a b c where s: "ls = [a, b, c]"
    using assms by (auto simp: length_Suc_conv numeral_3_eq_3)
  show ?thesis
    by (auto simp: s segs_ok_def all_less_3 word_greater_zero_iff split: if_splits)
qed

declare seglen_loop.simps [simp del]

text \<open>The shape every decoded path has: three segment lengths without a gap, counted right.\<close>

definition base_shape :: "'a base_scheme \<Rightarrow> bool" where
  "base_shape s \<longleftrightarrow> length (SegLen (PathMeta s)) = 3 \<and> (\<forall>l \<in> set (SegLen (PathMeta s)). l < 64) \<and>
     segs_ok (SegLen (PathMeta s)) (NumINF s) (NumHops s)"

definition decoded_wf :: "decoded_path \<Rightarrow> bool" where
  "decoded_wf d \<longleftrightarrow> base_shape d \<and> meta_wf (PathMeta d) \<and> length (InfoFields d) = NumINF d \<and>
     length (HopFields d) = NumHops d \<and> list_all hop_wf (HopFields d)"

definition raw_wf :: "raw_path \<Rightarrow> bool" where
  "raw_wf r \<longleftrightarrow> base_shape r \<and> length (Raw r) = path_Len r"

lemma Base_Decode_shape:
  assumes "Base_DecodeFromBytes data = Inr s"
  shows "base_shape s" "meta_wf (PathMeta s)" "MetaHdr_DecodeFromBytes data = Inr (PathMeta s)"
    "MetaLen \<le> length data"
proof -
  from assms obtain m n h where m: "MetaHdr_DecodeFromBytes data = Inr m"
    and l: "seglen_loop (SegLen m) [2, 1, 0] 0 0 = Inr (n, h)"
    and s: "s = \<lparr>PathMeta = m, NumINF = n, NumHops = h\<rparr>"
    unfolding Base_DecodeFromBytes_def by (auto simp only: res_simps split: prod.splits) simp
  from MetaHdr_Decode_wf [OF m] have wf: "meta_wf m" .
  then have "segs_ok (SegLen m) n h"
    using l seglen_loop_spec [of "SegLen m" n h] by (simp add: meta_wf_def)
  with wf show "base_shape s" "meta_wf (PathMeta s)"
    by (simp_all add: s base_shape_def meta_wf_def)
  show "MetaHdr_DecodeFromBytes data = Inr (PathMeta s)" using m s by simp
  show "MetaLen \<le> length data"
    using m by (auto simp: MetaHdr_DecodeFromBytes_def split: if_splits)
qed

lemma Base_Decode_line:
  assumes "meta_wf m" "segs_ok (SegLen m) n h"
  shows "Base_DecodeFromBytes (PutUint32 (meta_line m) @ ys) =
    Inr \<lparr>PathMeta = m, NumINF = n, NumHops = h\<rparr>"
proof -
  have "length (SegLen m) = 3" using assms(1) by (simp add: meta_wf_def)
  then have "seglen_loop (SegLen m) [2, 1, 0] 0 0 = Inr (n, h)"
    using assms(2) seglen_loop_spec by blast
  moreover have "MetaHdr_DecodeFromBytes (PutUint32 (meta_line m) @ ys) = Inr m"
    using assms(1) by (simp add: MetaHdr_Decode_line meta_norm_wf meta_wf_def)
  ultimately show ?thesis
    by (simp only: Base_DecodeFromBytes_def rbind_Inr prod.case)
qed

section \<open>Decoded paths on the wire\<close>

definition decoded_bytes :: "decoded_path \<Rightarrow> bytes" where
  "decoded_bytes d = PutUint32 (meta_line (PathMeta d)) @ concat (map info_bytes (InfoFields d)) @
     concat (map hop_bytes (HopFields d))"

lemma length_decoded_bytes [wire_simps]: "decoded_wf d \<Longrightarrow> length (decoded_bytes d) = path_Len d"
  by (simp add: decoded_bytes_def decoded_wf_def path_Len_def MetaLen_def hopw.concat_len
    infow.concat_len list_all_iff)

lemma put_at_adjacent:
  "j = i + length xs \<Longrightarrow> i + length xs + length ys \<le> length b \<Longrightarrow>
   put_at j ys (put_at i xs b) = put_at i (xs @ ys) b"
  by (simp add: put_at_def add_ac)

lemma MetaHdr_SerializeTo_window [simp]:
  "MetaLen \<le> length b \<Longrightarrow> MetaHdr_SerializeTo m (slice 0 MetaLen b) = Inr (PutUint32 (meta_line m))"
  by (simp add: MetaHdr_SerializeTo_def MetaLen_def put_at_0)

lemma Decoded_SerializeTo_eq:
  assumes "decoded_wf d"
  shows "Decoded_SerializeTo d b =
    (if length b < path_Len d then Inl (Err ''buffer too small to serialize path.'')
     else Inr (put_at 0 (decoded_bytes d) b))"
proof (cases "length b < path_Len d")
  case False
  let ?m = "PutUint32 (meta_line (PathMeta d))" and ?i = "concat (map info_bytes (InfoFields d))"
    and ?h = "concat (map hop_bytes (HopFields d))"
  from assms have li: "length ?i = NumINF d * InfoLen" "list_all (\<lambda>_. True) (InfoFields d)"
    and lh: "length ?h = NumHops d * HopLen" "list_all hop_wf (HopFields d)"
    and n: "length (InfoFields d) = NumINF d" "length (HopFields d) = NumHops d"
    by (auto simp: decoded_wf_def hopw.concat_len infow.concat_len list_all_iff)
  from False have b: "MetaLen + NumINF d * InfoLen + NumHops d * HopLen \<le> length b"
    by (simp add: path_Len_def)
  have "Decoded_SerializeTo d b =
    rbind (write_fields InfoField_SerializeTo InfoLen (InfoFields d) MetaLen (put_at 0 ?m b)) (\<lambda>b.
      write_fields HopField_SerializeTo HopLen (HopFields d) (MetaLen + NumINF d * InfoLen) b)"
    using False b by (simp add: Decoded_SerializeTo_def n)
  also have "write_fields InfoField_SerializeTo InfoLen (InfoFields d) MetaLen (put_at 0 ?m b) =
      Inr (put_at 0 (?m @ ?i) b)"
    using b li n by (subst infow.write_ok) (auto simp: put_at_adjacent MetaLen_def)
  also have "rbind (Inr (put_at 0 (?m @ ?i) b)) (\<lambda>b.
      write_fields HopField_SerializeTo HopLen (HopFields d) (MetaLen + NumINF d * InfoLen) b) =
      Inr (put_at 0 (decoded_bytes d) b)"
    using b li lh n
    by (simp, subst hopw.write_ok) (auto simp: put_at_adjacent MetaLen_def decoded_bytes_def)
  finally show ?thesis using False by simp
qed (simp add: Decoded_SerializeTo_def)

lemma Decoded_Decode_bytes:
  assumes "decoded_wf d"
  shows "Decoded_DecodeFromBytes (decoded_bytes d @ ys) = Inr d"
proof -
  let ?m = "PutUint32 (meta_line (PathMeta d))" and ?i = "concat (map info_bytes (InfoFields d))"
    and ?h = "concat (map hop_bytes (HopFields d))" and ?data = "decoded_bytes d @ ys"
  from assms have n: "NumINF d = length (InfoFields d)" "NumHops d = length (HopFields d)"
    and wf: "list_all (\<lambda>_. True) (InfoFields d)" "list_all hop_wf (HopFields d)"
    by (auto simp: decoded_wf_def list_all_iff)
  have base: "Base_DecodeFromBytes ?data =
      Inr \<lparr>PathMeta = PathMeta d, NumINF = NumINF d, NumHops = NumHops d\<rparr>"
    using assms by (simp add: decoded_bytes_def Base_Decode_line decoded_wf_def base_shape_def)
  have "decode_fields InfoField_DecodeFromBytes InfoLen (NumINF d) MetaLen ?data = Inr (InfoFields d)"
    using infow.decode_enc [OF wf(1), of ?m MetaLen "?h @ ys"]
    by (simp add: n decoded_bytes_def MetaLen_def)
  moreover have "decode_fields HopField_DecodeFromBytes HopLen (NumHops d)
      (MetaLen + NumINF d * InfoLen) ?data = Inr (HopFields d)"
    using hopw.decode_enc [OF wf(2), of "?m @ ?i" "MetaLen + NumINF d * InfoLen" ys] wf
    by (simp add: n decoded_bytes_def MetaLen_def infow.concat_len)
  moreover have "path_Len \<lparr>PathMeta = PathMeta d, NumINF = NumINF d, NumHops = NumHops d\<rparr> \<le> length ?data"
    using length_decoded_bytes [OF assms] by (simp add: path_Len_def)
  ultimately show ?thesis
    by (simp add: Decoded_DecodeFromBytes_def base del: decode_fields.simps)
qed

interpretation decp: path_codec decoded_wf path_Len Decoded_SerializeTo Decoded_DecodeFromBytes
proof
  fix b :: bytes and p :: decoded_path
  show "length b < path_Len p \<Longrightarrow> \<exists>m. Decoded_SerializeTo p b = Inl (Err m)"
    by (simp add: Decoded_SerializeTo_def)
  assume p: "decoded_wf p" "path_Len p \<le> length b"
  then have "take (path_Len p) (put_at 0 (decoded_bytes p) b) = decoded_bytes p @ []"
    using length_decoded_bytes [OF p(1)] by (simp add: put_at_0)
  with p show "\<exists>b'. Decoded_SerializeTo p b = Inr b' \<and> length b' = length b \<and>
      drop (path_Len p) b' = drop (path_Len p) b \<and>
      Decoded_DecodeFromBytes (take (path_Len p) b') = Inr p"
    using Decoded_Decode_bytes [OF p(1), of "[]"] length_decoded_bytes [OF p(1)]
    by (simp add: Decoded_SerializeTo_eq) (simp add: put_at_0)
qed

section \<open>Reversing a path\<close>

lemma length_swap_range [simp]: "length (swap_range i j xs) = length xs"
  by (induction i j xs rule: swap_range.induct) (subst swap_range.simps, simp)

lemma nth_swap_range:
  "j < length xs \<Longrightarrow> k < length xs \<Longrightarrow>
   swap_range i j xs ! k = (if i \<le> k \<and> k \<le> j then xs ! (i + j - k) else xs ! k)"
proof (induction i j xs rule: swap_range.induct)
  case (1 i j xs)
  show ?case
  proof (cases "i < j")
    case True
    have "swap_range i j xs ! k = swap_range (i + 1) (j - 1) (xs[i := xs ! j, j := xs ! i]) ! k"
      using True by (subst swap_range.simps) simp
    also have "\<dots> = (if i + 1 \<le> k \<and> k \<le> j - 1 then xs[i := xs ! j, j := xs ! i] ! (i + 1 + (j - 1) - k)
        else xs[i := xs ! j, j := xs ! i] ! k)"
      using 1(1) [OF True] 1(2-) by simp
    also have "\<dots> = (if i \<le> k \<and> k \<le> j then xs ! (i + j - k) else xs ! k)"
      using True 1(2-) by (auto simp: nth_list_update)
    finally show ?thesis .
  next
    case False
    then have "i \<le> k \<and> k \<le> j \<Longrightarrow> i + j - k = k" by arith
    with False show ?thesis by (subst swap_range.simps) auto
  qed
qed

lemma swap_range_rev:
  assumes "0 < n" "n \<le> length xs"
  shows "swap_range 0 (n - Suc 0) xs = rev (take n xs) @ drop n xs"
proof (rule nth_equalityI)
  show "length (swap_range 0 (n - Suc 0) xs) = length (rev (take n xs) @ drop n xs)"
    using assms by simp
next
  fix k assume "k < length (swap_range 0 (n - Suc 0) xs)"
  then show "swap_range 0 (n - Suc 0) xs ! k = (rev (take n xs) @ drop n xs) ! k"
    using assms by (auto simp: nth_swap_range nth_append rev_nth not_less Suc_diff_Suc)
qed

lemma swap_range_all: "n = length xs \<Longrightarrow> swap_range 0 (n - Suc 0) xs = rev xs"
  by (cases "n = 0") (simp_all add: swap_range_rev swap_range.simps [of 0 0])

definition flip_dir :: "info_field \<Rightarrow> info_field" where
  "flip_dir i = i\<lparr>ConsDir := \<not> ConsDir i\<rparr>"

lemma flip_dir_twice [simp]: "flip_dir (flip_dir i) = i"
  by (simp add: flip_dir_def)

lemma flip_consdir_all: "n = length is \<Longrightarrow> flip_consdir n is = map flip_dir is"
  by (simp add: flip_consdir_def flip_dir_def)

text \<open>The pointers of a path that is being forwarded.\<close>

definition cursor_ok :: "'a base_scheme \<Rightarrow> bool" where
  "cursor_ok s \<longleftrightarrow> unat (CurrINF (PathMeta s)) < NumINF s \<and> unat (CurrHF (PathMeta s)) < NumHops s"

definition rev_meta :: "'a base_scheme \<Rightarrow> meta_hdr" where
  "rev_meta s = (PathMeta s)\<lparr>
     SegLen := rev (take (NumINF s) (SegLen (PathMeta s))) @ drop (NumINF s) (SegLen (PathMeta s)),
     CurrINF := of_nat (NumINF s) - CurrINF (PathMeta s) - 1,
     CurrHF := of_nat (NumHops s) - CurrHF (PathMeta s) - 1\<rparr>"

definition rev_decoded :: "decoded_path \<Rightarrow> decoded_path" where
  "rev_decoded d = d\<lparr>PathMeta := rev_meta d, InfoFields := map flip_dir (rev (InfoFields d)),
     HopFields := rev (HopFields d)\<rparr>"

lemma Decoded_Reverse_eq:
  assumes "decoded_wf d" "0 < NumINF d"
  shows "Decoded_Reverse d = Inr (Some (rev_decoded d))"
proof -
  from assms have "NumINF d \<le> length (SegLen (PathMeta d))" "length (InfoFields d) = NumINF d"
    "length (HopFields d) = NumHops d"
    by (auto simp: decoded_wf_def base_shape_def segs_ok_def)
  with assms(2) show ?thesis
    by (simp add: Decoded_Reverse_def Let_def rev_decoded_def rev_meta_def swap_range_rev
      swap_range_all flip_consdir_all)
qed

lemma segs_ok_rev:
  assumes "segs_ok ls n h"
  shows "segs_ok (rev (take n ls) @ drop n ls) n h"
proof -
  have n: "n \<le> length ls" and z: "\<And>i. i < length ls \<Longrightarrow> ls ! i = 0 \<longleftrightarrow> n \<le> i"
    and h: "h = sum_list (map unat (take n ls)) + sum_list (map unat (drop n ls))"
    using assms unfolding segs_ok_def
    by (auto simp flip: sum_list_append map_append)
  have "(rev (take n ls) @ drop n ls) ! i = 0 \<longleftrightarrow> n \<le> i" if "i < length ls" for i
    using n z that by (auto simp: nth_append rev_nth min_absorb2 not_less)
  then show ?thesis
    using n h by (simp add: segs_ok_def flip: rev_map)
qed

lemma unat_of_nat_diff_1:
  assumes "n < 256" "unat (x :: u8) < n"
  shows "unat (of_nat n - x - 1 :: u8) = n - unat x - 1"
proof -
  have n: "unat (of_nat n :: u8) = n"
    using assms by (simp add: unat_of_nat)
  then have "x \<le> of_nat n" using assms by (simp add: word_le_nat_alt)
  then have d: "unat (of_nat n - x) = n - unat x" using n by (simp add: unat_sub)
  then have "1 \<le> (of_nat n - x :: u8)" using assms by (simp add: word_le_nat_alt)
  then show ?thesis using d by (simp add: unat_sub)
qed

lemma sum_unat_bound:
  "(\<And>l. l \<in> set ls \<Longrightarrow> unat l \<le> k) \<Longrightarrow> sum_list (map unat ls) \<le> k * length ls"
proof (induction ls)
  case (Cons a ls)
  then have "unat a \<le> k" "sum_list (map unat ls) \<le> k * length ls" by auto
  then show ?case by simp
qed simp

lemma base_shape_bounds:
  assumes "base_shape s"
  shows "NumINF s \<le> 3" "NumHops s \<le> 189"
proof -
  from assms show "NumINF s \<le> 3" by (simp add: base_shape_def segs_ok_def)
  have "unat l \<le> 63" if "l \<in> set (SegLen (PathMeta s))" for l
    using assms that by (fastforce simp: base_shape_def word_less_nat_alt)
  then have "sum_list (map unat (SegLen (PathMeta s))) \<le> 63 * length (SegLen (PathMeta s))"
    by (rule sum_unat_bound)
  then show "NumHops s \<le> 189" using assms by (simp add: base_shape_def segs_ok_def)
qed

lemma rev_decoded_wf:
  assumes "decoded_wf d" "cursor_ok d" "NumHops d \<le> MaxHops"
  shows "decoded_wf (rev_decoded d)" "cursor_ok (rev_decoded d)"
proof -
  note b = base_shape_bounds [of d]
  have ci: "unat (CurrINF (rev_meta d)) = NumINF d - unat (CurrINF (PathMeta d)) - 1"
    and ch: "unat (CurrHF (rev_meta d)) = NumHops d - unat (CurrHF (PathMeta d)) - 1"
    using assms b by (auto simp: rev_meta_def decoded_wf_def cursor_ok_def unat_of_nat_diff_1)
  show "cursor_ok (rev_decoded d)"
    using assms(2) by (simp add: cursor_ok_def rev_decoded_def ci ch)
  show "decoded_wf (rev_decoded d)"
    unfolding decoded_wf_def
  proof (intro conjI)
    let ?ls = "SegLen (PathMeta d)"
    have "set (rev (take (NumINF d) ?ls) @ drop (NumINF d) ?ls) = set ?ls"
      by (metis append_take_drop_id set_append set_rev)
    with assms(1) show sh: "base_shape (rev_decoded d)"
      using segs_ok_rev by (auto simp: base_shape_def rev_decoded_def rev_meta_def decoded_wf_def)
    from sh show "meta_wf (PathMeta (rev_decoded d))"
      using assms ci ch base_shape_bounds(1) [of d]
      by (auto simp: meta_wf_def rev_decoded_def base_shape_def word_less_nat_alt cursor_ok_def
        decoded_wf_def MaxHops_def)
  qed (use assms(1) in \<open>auto simp: rev_decoded_def decoded_wf_def list_all_iff\<close>)
qed

lemma rev_decoded_twice:
  assumes "decoded_wf d" "cursor_ok d"
  shows "rev_decoded (rev_decoded d) = d"
proof -
  have "NumINF d \<le> length (SegLen (PathMeta d))"
    using assms(1) by (simp add: decoded_wf_def base_shape_def segs_ok_def)
  then have "rev_meta (rev_decoded d) = PathMeta d"
    by (simp add: rev_meta_def rev_decoded_def)
  then show ?thesis
    by (simp add: rev_decoded_def rev_map comp_def)
qed

text \<open>The hop fields of segment \<open>i\<close>.\<close>

definition seg_hops :: "decoded_path \<Rightarrow> nat \<Rightarrow> hop_field list" where
  "seg_hops d i = take (unat (SegLen (PathMeta d) ! i)) (drop (sum_list (map unat (take i (SegLen (PathMeta d))))) (HopFields d))"

lemma rev_segment:
  assumes "sum_list ls = length xs" "i < length ls"
  shows "take (rev ls ! i) (drop (sum_list (take i (rev ls))) (rev xs)) =
    rev (take (ls ! (length ls - 1 - i)) (drop (sum_list (take (length ls - 1 - i) ls)) xs))"
proof -
  define j where "j = length ls - 1 - i"
  have j: "j < length ls" "i = length ls - Suc j" using assms(2) by (auto simp: j_def)
  have ls: "ls = take j ls @ ls ! j # drop (Suc j) ls" using j(1) by (rule id_take_nth_drop)
  have "length xs = sum_list (take j ls) + ls ! j + sum_list (drop (Suc j) ls)"
    unfolding assms(1) [symmetric] by (subst ls) (simp del: append_take_drop_id)
  moreover have "take i (rev ls) = rev (drop (Suc j) ls)" using j by (simp add: rev_drop)
  then have "sum_list (take i (rev ls)) = sum_list (drop (Suc j) ls)" by simp
  moreover have "rev ls ! i = ls ! j" using j by (simp add: rev_nth)
  ultimately show ?thesis unfolding j_def [symmetric] by (simp add: rev_take rev_drop drop_take)
qed

lemma rev_decoded_segments:
  assumes "decoded_wf d" "i < NumINF d"
  shows "seg_hops (rev_decoded d) i = rev (seg_hops d (NumINF d - 1 - i))"
proof -
  let ?n = "NumINF d" and ?l = "SegLen (PathMeta d)"
  have n: "?n \<le> length ?l" and z: "\<And>i. i < length ?l \<Longrightarrow> ?l ! i = 0 \<longleftrightarrow> ?n \<le> i" and h: "length (HopFields d) = sum_list (map unat ?l)"
    using assms(1) by (auto simp: decoded_wf_def base_shape_def segs_ok_def)
  have "sum_list (map unat (drop ?n ?l)) = 0" using z by (auto simp: sum_list_eq_0_iff in_set_conv_nth unat_eq_0)
  moreover have "sum_list (map unat ?l) = sum_list (map unat (take ?n ?l)) + sum_list (map unat (drop ?n ?l))"
    by (metis append_take_drop_id map_append sum_list_append)
  ultimately have s: "sum_list (map unat (take ?n ?l)) = length (HopFields d)" using h by simp
  have t: "map unat (take k (rev (take ?n ?l) @ drop ?n ?l)) = take k (rev (map unat (take ?n ?l)))" if "k \<le> ?n" for k
    using that n by (simp add: take_map rev_map)
  have g: "unat ((rev (take ?n ?l) @ drop ?n ?l) ! i) = rev (map unat (take ?n ?l)) ! i"
    using assms(2) n by (simp add: nth_append rev_nth)
  have u: "map unat (take k ?l) = take k (map unat (take ?n ?l))" if "k \<le> ?n" for k using that by (simp add: take_map min_absorb1)
  show ?thesis
    using rev_segment [OF s, of i] assms(2) n t [of i] g u [of "?n - 1 - i"]
    by (simp add: seg_hops_def rev_decoded_def rev_meta_def)
qed

text \<open>Claim C31. Reversing a well-formed path of at most \<open>MaxHops\<close> hops whose pointers are in range
  never fails: it reverses the order of the segments with their lengths and, in every segment, of the hops, flips every construction
  direction, keeps the path well formed with its pointers on the same segment and hop, and
  reversing twice gives back the original path.\<close>

theorem Decoded_Reverse_correct:
  assumes "decoded_wf d" "cursor_ok d" "NumHops d \<le> MaxHops"
  shows "\<exists>r. Decoded_Reverse d = Inr (Some r) \<and> decoded_wf r \<and> cursor_ok r \<and>
     InfoFields r = map flip_dir (rev (InfoFields d)) \<and> HopFields r = rev (HopFields d) \<and>
     NumINF r = NumINF d \<and> NumHops r = NumHops d \<and> take (NumINF d) (SegLen (PathMeta r)) = rev (take (NumINF d) (SegLen (PathMeta d))) \<and>
     (\<forall>i < NumINF d. seg_hops r i = rev (seg_hops d (NumINF d - 1 - i))) \<and>
     InfoFields r ! unat (CurrINF (PathMeta r)) = flip_dir (InfoFields d ! unat (CurrINF (PathMeta d))) \<and>
     HopFields r ! unat (CurrHF (PathMeta r)) = HopFields d ! unat (CurrHF (PathMeta d)) \<and>
     Decoded_Reverse r = Inr (Some d)"
proof -
  let ?r = "rev_decoded d"
  have n: "0 < NumINF d" "0 < NumINF ?r" "NumINF d < 256" "NumHops d < 256" "NumINF d \<le> length (SegLen (PathMeta d))"
    using assms base_shape_bounds [of d]
    by (auto simp: cursor_ok_def rev_decoded_def decoded_wf_def MaxHops_def base_shape_def segs_ok_def)
  note wf = rev_decoded_wf [OF assms]
  have "Decoded_Reverse ?r = Inr (Some d)"
    using Decoded_Reverse_eq [OF wf(1) n(2)] rev_decoded_twice [OF assms(1,2)] by simp
  moreover have "InfoFields ?r ! unat (CurrINF (PathMeta ?r)) =
      flip_dir (InfoFields d ! unat (CurrINF (PathMeta d)))"
    and "HopFields ?r ! unat (CurrHF (PathMeta ?r)) = HopFields d ! unat (CurrHF (PathMeta d))"
    using assms n
    by (auto simp: rev_decoded_def rev_meta_def unat_of_nat_diff_1 cursor_ok_def decoded_wf_def
      rev_nth)
  moreover have "take (NumINF d) (SegLen (PathMeta ?r)) = rev (take (NumINF d) (SegLen (PathMeta d)))"
    using n(5) by (simp add: rev_decoded_def rev_meta_def)
  moreover have "\<forall>i < NumINF d. seg_hops ?r i = rev (seg_hops d (NumINF d - 1 - i))" using rev_decoded_segments [OF assms(1)] by blast
  moreover have "InfoFields ?r = map flip_dir (rev (InfoFields d))" "HopFields ?r = rev (HopFields d)" "NumINF ?r = NumINF d" "NumHops ?r = NumHops d"
    by (simp_all add: rev_decoded_def)
  ultimately show ?thesis using Decoded_Reverse_eq [OF assms(1) n(1)] wf by blast
qed

text \<open>A path of two segments with two and one hops, at its second hop.\<close>

definition demo_path :: decoded_path where
  "demo_path = \<lparr>PathMeta = \<lparr>CurrINF = 0, CurrHF = 1, SegLen = [2, 1, 0]\<rparr>, NumINF = 2, NumHops = 3,
     InfoFields = [info_zero\<lparr>SegID := 5\<rparr>, info_zero\<lparr>ConsDir := True, SegID := 9\<rparr>],
     HopFields = [hop_zero\<lparr>ConsEgress := 1\<rparr>, hop_zero\<lparr>ConsIngress := 2\<rparr>, hop_zero\<lparr>ConsIngress := 3\<rparr>]\<rparr>"

lemma demo_path_wf [simp]: "decoded_wf demo_path" "cursor_ok demo_path" "NumHops demo_path \<le> MaxHops"
  "path_Len demo_path = 56"
  by (simp_all add: demo_path_def decoded_wf_def base_shape_def meta_wf_def segs_ok_def cursor_ok_def
    numeral_3_eq_3 all_less_3 hop_wf_def hop_zero_def MaxHops_def path_Len_def MetaLen_def path_len_defs)

theorem Decoded_Reverse_correct_witness:
  "\<exists>r. Decoded_Reverse demo_path = Inr (Some r) \<and> HopFields r = rev (HopFields demo_path) \<and>
     SegLen (PathMeta r) ! 0 = 1 \<and> seg_hops r 1 = rev (seg_hops demo_path 0) \<and> Decoded_Reverse r = Inr (Some demo_path)"
proof -
  from Decoded_Reverse_correct [OF demo_path_wf(1-3)] obtain r where r: "Decoded_Reverse demo_path = Inr (Some r)" "HopFields r = rev (HopFields demo_path)"
    "take 2 (SegLen (PathMeta r)) = [1, 2]" "seg_hops r 1 = rev (seg_hops demo_path 0)" "Decoded_Reverse r = Inr (Some demo_path)"
    by (auto simp: demo_path_def)
  then have "SegLen (PathMeta r) ! 0 = 1" by (cases "SegLen (PathMeta r)") auto
  with r show ?thesis by blast
qed

text \<open>Claim C30. A well-formed decoded path written into any buffer of at least \<open>Len()\<close> bytes is
  decoded from it unchanged, and the bytes after the path are kept; a shorter buffer is refused
  with an error.\<close>

theorem Decoded_roundtrip:
  assumes "decoded_wf d"
  shows "(if path_Len d \<le> length b
     then \<exists>b'. Decoded_SerializeTo d b = Inr b' \<and> length b' = length b \<and>
            drop (path_Len d) b' = drop (path_Len d) b \<and> Decoded_DecodeFromBytes b' = Inr d
     else \<exists>m. Decoded_SerializeTo d b = Inl (Err m))"
  using decp.pser_short [of b d] Decoded_Decode_bytes [OF assms, of "drop (path_Len d) b"]
    length_decoded_bytes [OF assms]
  by (auto simp: Decoded_SerializeTo_eq [OF assms] put_at_0)

theorem Decoded_roundtrip_witness:
  "\<exists>b'. Decoded_SerializeTo demo_path (replicate 60 1) = Inr b' \<and>
     Decoded_DecodeFromBytes b' = Inr demo_path"
  using Decoded_roundtrip [of demo_path "replicate 60 1"] by auto

section \<open>Segments and hops\<close>

text \<open>The number of hops in the segments before segment \<open>i\<close>.\<close>

definition seg_start :: "'a base_scheme \<Rightarrow> nat \<Rightarrow> nat" where
  "seg_start s i = sum_list (map unat (take i (SegLen (PathMeta s))))"

lemma unat_add_small:
  "unat (x :: u8) + unat y < 256 \<Longrightarrow> unat (x + y) = unat x + unat y"
  by (simp add: unat_add_lem [THEN iffD1])

lemma inf_index_loop_found:
  assumes "unat left + sum_list (map unat ls) < 256" "unat left \<le> unat hf"
    "unat hf < unat left + sum_list (map unat ls)"
  shows "\<exists>k < length ls. inf_index_loop ls i left hf = Some (of_nat (i + k)) \<and>
     unat left + sum_list (map unat (take k ls)) \<le> unat hf \<and>
     unat hf < unat left + sum_list (map unat (take (Suc k) ls))"
  using assms
proof (induction ls arbitrary: i left)
  case Nil
  then show ?case by simp
next
  case (Cons l ls)
  have l: "unat (left + l) = unat left + unat l" using Cons.prems(1) by (simp add: unat_add_small)
  show ?case
  proof (cases "hf < left + l")
    case True
    then have "unat hf < unat left + unat l" by (simp add: word_less_nat_alt l)
    with True Cons.prems show ?thesis by (intro exI [of _ 0]) (simp add: word_le_nat_alt)
  next
    case False
    then have ge: "unat (left + l) \<le> unat hf" by (simp add: word_less_nat_alt)
    have "\<exists>k < length ls. inf_index_loop ls (Suc i) (left + l) hf = Some (of_nat (Suc i + k)) \<and>
      unat (left + l) + sum_list (map unat (take k ls)) \<le> unat hf \<and>
      unat hf < unat (left + l) + sum_list (map unat (take (Suc k) ls))"
      using Cons.prems ge by (intro Cons.IH) (simp_all add: l)
    then obtain k where "k < length ls"
      "inf_index_loop ls (Suc i) (left + l) hf = Some (of_nat (Suc i + k))"
      "unat (left + l) + sum_list (map unat (take k ls)) \<le> unat hf"
      "unat hf < unat (left + l) + sum_list (map unat (take (Suc k) ls))" by blast
    with False show ?thesis by (intro exI [of _ "Suc k"]) (simp add: l)
  qed
qed

lemma inf_index_loop_beyond:
  assumes "unat left + sum_list (map unat ls) < 256" "unat left + sum_list (map unat ls) \<le> unat hf"
  shows "inf_index_loop ls i left hf = None"
  using assms
proof (induction ls arbitrary: i left)
  case (Cons l ls)
  have l: "unat (left + l) = unat left + unat l" using Cons.prems(1) by (simp add: unat_add_small)
  then have "\<not> hf < left + l" using Cons.prems by (simp add: word_less_nat_alt)
  with Cons l show ?case by simp
qed simp

lemma seg_start_total:
  assumes "base_shape s"
  shows "seg_start s (NumINF s) = NumHops s"
    and "sum_list (map unat (take (NumINF s) (SegLen (PathMeta s)))) = NumHops s"
proof -
  let ?ls = "SegLen (PathMeta s)"
  have "drop (NumINF s) ?ls ! i = 0" if "i < length (drop (NumINF s) ?ls)" for i
    using assms that by (auto simp: base_shape_def segs_ok_def)
  then have "sum_list (map unat (drop (NumINF s) ?ls)) = 0"
    by (auto simp: sum_list_eq_0_iff in_set_conv_nth)
  moreover have "NumHops s = sum_list (map unat (take (NumINF s) ?ls @ drop (NumINF s) ?ls))"
    using assms by (simp add: base_shape_def segs_ok_def)
  ultimately show "seg_start s (NumINF s) = NumHops s"
    "sum_list (map unat (take (NumINF s) ?ls)) = NumHops s"
    by (simp_all add: seg_start_def del: append_take_drop_id)
qed

lemma infIndexForHF_in:
  assumes "base_shape s" "unat hf < NumHops s"
  shows "\<exists>i < NumINF s. unat (infIndexForHF s hf) = i \<and> seg_start s i \<le> unat hf \<and>
    unat hf < seg_start s (Suc i)"
proof -
  let ?ls = "take (NumINF s) (SegLen (PathMeta s))"
  note b = base_shape_bounds [OF assms(1)]
  have n: "NumINF s \<le> length (SegLen (PathMeta s))"
    using assms(1) by (simp add: base_shape_def segs_ok_def)
  obtain k where k: "k < length ?ls" "inf_index_loop ?ls 0 0 hf = Some (of_nat k)"
    "sum_list (map unat (take k ?ls)) \<le> unat hf" "unat hf < sum_list (map unat (take (Suc k) ?ls))"
    using inf_index_loop_found [of 0 ?ls hf 0] assms(2) b seg_start_total(2) [OF assms(1)] by auto
  have "unat (of_nat k :: u8) = k" using k(1) b(1) by (simp add: unat_of_nat)
  with k n show ?thesis
    by (intro exI [of _ k]) (auto simp: infIndexForHF_def seg_start_def min_absorb1)
qed

lemma infIndexForHF_end:
  assumes "base_shape s" "NumHops s \<le> unat hf" "0 < NumINF s"
  shows "unat (infIndexForHF s hf) = NumINF s - 1"
proof -
  note b = base_shape_bounds [OF assms(1)]
  have "inf_index_loop (take (NumINF s) (SegLen (PathMeta s))) 0 0 hf = None"
    using assms b seg_start_total(2) [OF assms(1)] by (intro inf_index_loop_beyond) auto
  moreover have "(word_of_int (int (NumINF s) - 1) :: u8) = of_nat (NumINF s - 1)"
    using assms(3) by (simp add: of_nat_diff)
  moreover have "unat (of_nat (NumINF s - 1) :: u8) = NumINF s - 1"
    using b(1) by (simp only: unat_of_nat) simp
  ultimately show ?thesis by (simp add: infIndexForHF_def)
qed

lemma seg_start_mono: "i \<le> j \<Longrightarrow> seg_start s i \<le> seg_start s j"
  unfolding seg_start_def
  by (metis le_add1 le_add_diff_inverse map_append sum_list_append take_add)

lemma seg_index_unique:
  assumes "seg_start s i \<le> h" "h < seg_start s (Suc i)" "seg_start s j \<le> h" "h < seg_start s (Suc j)"
  shows "i = j"
proof (rule ccontr)
  assume "i \<noteq> j"
  then have "Suc i \<le> j \<or> Suc j \<le> i" by auto
  then show False
    using assms seg_start_mono [of "Suc i" j s] seg_start_mono [of "Suc j" i s] by auto
qed

definition cursor_sync :: "'a base_scheme \<Rightarrow> bool" where
  "cursor_sync s \<longleftrightarrow> cursor_ok s \<and> CurrINF (PathMeta s) = infIndexForHF s (CurrHF (PathMeta s))"

lemma cursor_sync_seg:
  assumes "base_shape s" "cursor_sync s"
  shows "seg_start s (unat (CurrINF (PathMeta s))) \<le> unat (CurrHF (PathMeta s))"
    "unat (CurrHF (PathMeta s)) < seg_start s (Suc (unat (CurrINF (PathMeta s))))"
  using infIndexForHF_in [of s "CurrHF (PathMeta s)"] assms
  by (auto simp: cursor_sync_def cursor_ok_def)

lemma unat_Suc_hf:
  assumes "base_shape s" "cursor_ok s"
  shows "unat (CurrHF (PathMeta s) + 1) = Suc (unat (CurrHF (PathMeta s)))"
  using unat_add_small [of "CurrHF (PathMeta s)" 1] base_shape_bounds [OF assms(1)] assms(2)
  by (simp add: cursor_ok_def)

lemma last_seg_start:
  assumes "base_shape s" "0 < NumINF s"
  shows "seg_start s (NumINF s - 1) < NumHops s"
proof -
  let ?ls = "SegLen (PathMeta s)" and ?n = "NumINF s"
  have n: "?n - 1 < length ?ls" "?ls ! (?n - 1) \<noteq> 0"
    using assms by (auto simp: base_shape_def segs_ok_def)
  have "seg_start s ?n = seg_start s (?n - 1) + unat (?ls ! (?n - 1))"
    using n(1) take_Suc_conv_app_nth [of "?n - 1" ?ls] assms(2) by (simp add: seg_start_def)
  then show ?thesis
    using seg_start_total(1) [OF assms(1)] n(2) by (simp add: unat_gt_0)
qed

text \<open>At a hop whose segment pointer is right, \<open>IsXover\<close> holds exactly at the last hop of
  a segment that is not the last one.\<close>

lemma IsXover_iff:
  assumes "base_shape s" "cursor_sync s"
  shows "IsXover s \<longleftrightarrow>
    Suc (unat (CurrHF (PathMeta s))) = seg_start s (Suc (unat (CurrINF (PathMeta s)))) \<and>
    Suc (unat (CurrINF (PathMeta s))) < NumINF s"
proof -
  let ?hf = "CurrHF (PathMeta s)" and ?i = "unat (CurrINF (PathMeta s))"
  have ok: "cursor_ok s" using assms(2) by (simp add: cursor_sync_def)
  note seg = cursor_sync_seg [OF assms] and h = unat_Suc_hf [OF assms(1) ok]
    and tot = seg_start_total(1) [OF assms(1)]
  show ?thesis
  proof (cases "Suc (unat ?hf) < NumHops s")
    case True
    then obtain j where j: "j < NumINF s" "unat (infIndexForHF s (?hf + 1)) = j"
      "seg_start s j \<le> Suc (unat ?hf)" "Suc (unat ?hf) < seg_start s (Suc j)"
      using infIndexForHF_in [OF assms(1), of "?hf + 1"] h by auto
    have "?i = j \<longleftrightarrow> Suc (unat ?hf) < seg_start s (Suc ?i)"
      using seg_index_unique [of s ?i "Suc (unat ?hf)" j] seg j by auto
    moreover have "Suc ?i < NumINF s" if "Suc (unat ?hf) = seg_start s (Suc ?i)"
      using that True tot ok seg_start_mono [of "NumINF s" "Suc ?i" s] by (auto simp: cursor_ok_def intro: ccontr)
    ultimately show ?thesis
      using seg j by (auto simp: IsXover_def word_unat_eq_iff)
  next
    case False
    have pos: "0 < NumINF s" and last: "Suc (unat ?hf) = NumHops s"
      using ok False by (auto simp: cursor_ok_def)
    have "?i = NumINF s - 1"
      using seg_index_unique [of s ?i "unat ?hf" "NumINF s - 1"] seg last pos tot
        last_seg_start [OF assms(1) pos] by auto
    moreover have "unat (infIndexForHF s (?hf + 1)) = NumINF s - 1"
      using False h by (intro infIndexForHF_end [OF assms(1) _ pos]) simp
    ultimately show ?thesis
      using pos by (auto simp: IsXover_def word_unat_eq_iff)
  qed
qed

lemma IsXover_iff_example: "base_shape demo_path \<and> cursor_sync demo_path \<and> IsXover demo_path"
proof -
  have "base_shape demo_path" using demo_path_wf(1) by (simp add: decoded_wf_def)
  moreover have "cursor_sync demo_path"
    by (simp add: cursor_sync_def infIndexForHF_def) (simp add: demo_path_def)
  ultimately show ?thesis
    using IsXover_iff [of demo_path] by (simp add: seg_start_def) (simp add: demo_path_def)
qed

section \<open>Advancing a path\<close>

lemma base_shape_meta_update:
  "SegLen m = SegLen (PathMeta s) \<Longrightarrow> base_shape (s\<lparr>PathMeta := m\<rparr>) = base_shape s"
  by (simp add: base_shape_def)

lemma infIndexForHF_meta_update:
  "SegLen m = SegLen (PathMeta s) \<Longrightarrow> infIndexForHF (s\<lparr>PathMeta := m\<rparr>) hf = infIndexForHF s hf"
  by (simp add: infIndexForHF_def split: option.split)

lemma le_hf_iff [simp]: "int n - 1 \<le> uint (x :: u8) \<longleftrightarrow> n \<le> Suc (unat x)"
  unfolding uint_nat by linarith

definition inc_meta :: "'a base_scheme \<Rightarrow> meta_hdr" where
  "inc_meta s = (PathMeta s)\<lparr>CurrHF := CurrHF (PathMeta s) + 1,
     CurrINF := infIndexForHF s (CurrHF (PathMeta s) + 1)\<rparr>"

lemma Base_IncPath_ok:
  assumes "base_shape s" "cursor_ok s" "Suc (unat (CurrHF (PathMeta s))) < NumHops s"
  shows "Base_IncPath s = (s\<lparr>PathMeta := inc_meta s\<rparr>, None)"
  using assms by (simp add: Base_IncPath_def inc_meta_def Let_def cursor_ok_def)

lemma Base_IncPath_sync:
  assumes "base_shape s" "cursor_ok s" "Suc (unat (CurrHF (PathMeta s))) < NumHops s"
  shows "cursor_sync (s\<lparr>PathMeta := inc_meta s\<rparr>)"
proof -
  obtain i where "i < NumINF s" "unat (infIndexForHF s (CurrHF (PathMeta s) + 1)) = i"
    using infIndexForHF_in [OF assms(1), of "CurrHF (PathMeta s) + 1"] assms(3)
      unat_Suc_hf [OF assms(1,2)] by auto
  then show ?thesis
    using assms(3) unat_Suc_hf [OF assms(1,2)]
    by (auto simp: cursor_sync_def cursor_ok_def infIndexForHF_meta_update inc_meta_def)
qed

text \<open>\<open>IncPath\<close> on a path with pointers in range: before the last hop it moves to the next
  hop and sets the segment pointer to the segment that hop is in, and changes nothing else; at the
  last hop it fails and leaves the path as it is.\<close>

lemma Base_IncPath_correct:
  assumes "base_shape s" "cursor_ok s"
  shows "(if Suc (unat (CurrHF (PathMeta s))) < NumHops s
     then \<exists>m. Base_IncPath s = (s\<lparr>PathMeta := m\<rparr>, None) \<and> SegLen m = SegLen (PathMeta s) \<and>
       unat (CurrHF m) = Suc (unat (CurrHF (PathMeta s))) \<and> cursor_sync (s\<lparr>PathMeta := m\<rparr>) \<and>
       base_shape (s\<lparr>PathMeta := m\<rparr>)
     else Base_IncPath s = (s, Some (Err ''path already at end'')))"
proof (cases "Suc (unat (CurrHF (PathMeta s))) < NumHops s")
  case True
  let ?m = "inc_meta s"
  have hf: "unat (CurrHF ?m) = Suc (unat (CurrHF (PathMeta s)))" and sl: "SegLen ?m = SegLen (PathMeta s)"
    using unat_Suc_hf [OF assms] by (simp_all add: inc_meta_def)
  have "cursor_sync (s\<lparr>PathMeta := ?m\<rparr>)" by (rule Base_IncPath_sync [OF assms True])
  then show ?thesis
    using True Base_IncPath_ok [OF assms True] hf sl assms(1) by (auto simp: base_shape_meta_update)
next
  case False
  then have last: "Suc (unat (CurrHF (PathMeta s))) = NumHops s" and pos: "NumINF s \<noteq> 0"
    using assms(2) by (auto simp: cursor_ok_def)
  then have "(word_of_int (int (NumHops s) - 1) :: u8) = CurrHF (PathMeta s)"
    by (simp flip: last)
  then show ?thesis
    using False last pos by (simp add: Base_IncPath_def)
qed

lemma Base_IncPath_correct_example:
  "\<exists>m. Base_IncPath demo_path = (demo_path\<lparr>PathMeta := m\<rparr>, None) \<and> unat (CurrHF m) = 2"
proof -
  have "base_shape demo_path" using demo_path_wf(1) by (simp add: decoded_wf_def)
  from Base_IncPath_correct [OF this demo_path_wf(2)] show ?thesis
    by (auto simp: demo_path_def split: if_splits)
qed

section \<open>Raw paths: reading and writing single fields\<close>

lemma raw_offsets:
  assumes "raw_wf r"
  shows "i < NumINF r \<Longrightarrow> MetaLen + i * InfoLen + InfoLen \<le> hop_offset r 0"
    and "i < NumHops r \<Longrightarrow> hop_offset r i + HopLen \<le> length (Raw r)"
    and "hop_offset r 0 \<le> hop_offset r j"
    and "hop_offset r 0 \<le> length (Raw r)"
proof -
  have m: "i < n \<Longrightarrow> i * k + k \<le> n * k" for i n k :: nat
    using mult_le_mono1 [of "Suc i" n k] by simp
  show "i < NumINF r \<Longrightarrow> MetaLen + i * InfoLen + InfoLen \<le> hop_offset r 0"
    using m [of i "NumINF r" InfoLen] by (simp add: hop_offset_def)
  show "i < NumHops r \<Longrightarrow> hop_offset r i + HopLen \<le> length (Raw r)"
    using m [of i "NumHops r" HopLen] assms by (simp add: hop_offset_def raw_wf_def path_Len_def)
  show "hop_offset r 0 \<le> hop_offset r j" "hop_offset r 0 \<le> length (Raw r)"
    using assms by (simp_all add: hop_offset_def raw_wf_def path_Len_def)
qed

lemma GetInfoField_ok:
  assumes "raw_wf r" "i < NumINF r"
  shows "GetInfoField r i =
      InfoField_DecodeFromBytes (slice (MetaLen + i * InfoLen) (MetaLen + i * InfoLen + InfoLen) (Raw r))"
    and "\<exists>info. GetInfoField r i = Inr info"
  using raw_offsets(1,4) [OF assms(1)] assms(2)
    infow.dec_ok [of "slice (MetaLen + i * InfoLen) (MetaLen + i * InfoLen + InfoLen) (Raw r)"]
  by (force simp: GetInfoField_def Let_def)+

lemma GetHopField_ok:
  assumes "raw_wf r" "i < NumHops r"
  shows "GetHopField r i = HopField_DecodeFromBytes (slice (hop_offset r i) (hop_offset r i + HopLen) (Raw r))"
    and "\<exists>hop. GetHopField r i = Inr hop \<and> hop_wf hop"
  using raw_offsets(2) [OF assms]  assms(2)
    hopw.dec_ok [of "slice (hop_offset r i) (hop_offset r i + HopLen) (Raw r)"]
  by (auto simp: GetHopField_def)

lemma SetInfoField_ok:
  assumes "raw_wf r" "i < NumINF r"
  shows "SetInfoField r info i = Inr (r\<lparr>Raw := put_at (MetaLen + i * InfoLen) (info_bytes info) (Raw r)\<rparr>)"
  using raw_offsets(1,4) [OF assms(1)] assms(2)
  by (force simp: SetInfoField_def Let_def InfoField_SerializeTo_eq put_at_0)

lemma SetHopField_ok:
  assumes "raw_wf r" "i < NumHops r" "hop_wf hop"
  shows "SetHopField r hop i = Inr (r\<lparr>Raw := put_at (hop_offset r i) (hop_bytes hop) (Raw r)\<rparr>)"
  using raw_offsets(2) [OF assms(1,2)] assms(2,3)
  by (simp add: SetHopField_def HopField_SerializeTo_eq put_at_0)

lemma base_shape_Raw_update [simp]: "base_shape (r\<lparr>Raw := b\<rparr>) = base_shape r"
  by (simp add: base_shape_def)

lemma path_Len_Raw_update [simp]: "path_Len (r\<lparr>Raw := b\<rparr>) = path_Len r"
  by (simp add: path_Len_def)

lemma hop_offset_Raw_update [simp]: "hop_offset (r\<lparr>Raw := b\<rparr>) i = hop_offset r i"
  by (simp add: hop_offset_def)

lemma raw_wf_Raw_update: "raw_wf r \<Longrightarrow> length b = length (Raw r) \<Longrightarrow> raw_wf (r\<lparr>Raw := b\<rparr>)"
  by (simp add: raw_wf_def)

lemma mult_disjoint: "(j :: nat) \<noteq> i \<Longrightarrow> j * k + k \<le> i * k \<or> i * k + k \<le> j * k"
  using mult_le_mono1 [of "Suc j" i k] mult_le_mono1 [of "Suc i" j k] by (cases "j < i") auto

text \<open>Writing an info field of a raw path, in range, succeeds; reading it back gives what was
  written, every other info field and every hop field reads as before, and the length, the meta
  header and the counters are kept.\<close>

lemma SetInfoField_correct:
  assumes "raw_wf r" "i < NumINF r"
  shows "\<exists>r'. SetInfoField r info i = Inr r' \<and> raw_wf r' \<and> r' = r\<lparr>Raw := Raw r'\<rparr> \<and>
     (\<forall>j. GetInfoField r' j = (if j = i then Inr info else GetInfoField r j)) \<and>
     (\<forall>j. GetHopField r' j = GetHopField r j)"
proof -
  let ?o = "\<lambda>k. MetaLen + k * InfoLen" and ?b = "put_at (MetaLen + i * InfoLen) (info_bytes info) (Raw r)"
  let ?r = "r\<lparr>Raw := ?b\<rparr>"
  note off = raw_offsets [OF assms(1)]
  have fit: "?o i + length (info_bytes info) \<le> length (Raw r)"
    using off(1) [OF assms(2)] off(4) by simp
  have wf: "raw_wf ?r" using assms(1) fit by (simp add: raw_wf_Raw_update)
  have same: "GetInfoField ?r i = Inr info"
    using GetInfoField_ok(1) [OF wf] assms(2) fit InfoField_Decode_info_bytes [of info "[]"] by simp
  have other: "GetInfoField ?r j = GetInfoField r j" if "j \<noteq> i" for j
  proof (cases "j < NumINF r")
    case True
    have "slice (?o j) (?o j + InfoLen) ?b = slice (?o j) (?o j + InfoLen) (Raw r)"
      using fit off(1) [OF True] off(4) mult_disjoint [OF that, of InfoLen]
      by (intro slice_put_at_disjoint) auto
    with True show ?thesis using GetInfoField_ok(1) [OF wf, of j] GetInfoField_ok(1) [OF assms(1), of j] by simp
  qed (simp add: GetInfoField_def)
  have hop: "GetHopField ?r j = GetHopField r j" for j
  proof (cases "j < NumHops r")
    case True
    have "slice (hop_offset r j) (hop_offset r j + HopLen) ?b =
        slice (hop_offset r j) (hop_offset r j + HopLen) (Raw r)"
      using fit off(1) [OF assms(2)] off(2) [OF True] off(3) [of j]
      by (intro slice_put_at_disjoint) auto
    with True show ?thesis using GetHopField_ok(1) [OF wf, of j] GetHopField_ok(1) [OF assms(1), of j] by simp
  qed (simp add: GetHopField_def)
  show ?thesis
    using SetInfoField_ok [OF assms] wf same other hop by (intro exI [of _ ?r]) simp
qed

text \<open>Writing a hop field of a raw path, in range, succeeds; reading it back gives what was
  written and every other hop field and every info field reads as before.\<close>

lemma SetHopField_correct:
  assumes "raw_wf r" "i < NumHops r" "hop_wf hop"
  shows "\<exists>r'. SetHopField r hop i = Inr r' \<and> raw_wf r' \<and> r' = r\<lparr>Raw := Raw r'\<rparr> \<and>
     (\<forall>j. GetHopField r' j = (if j = i then Inr hop else GetHopField r j)) \<and>
     (\<forall>j. GetInfoField r' j = GetInfoField r j)"
proof -
  let ?o = "\<lambda>k. MetaLen + k * InfoLen" and ?b = "put_at (hop_offset r i) (hop_bytes hop) (Raw r)"
  let ?r = "r\<lparr>Raw := ?b\<rparr>"
  note off = raw_offsets [OF assms(1)]
  have fit: "hop_offset r i + length (hop_bytes hop) \<le> length (Raw r)"
    using off(2) [OF assms(2)] assms(3) by simp
  have wf: "raw_wf ?r" using assms(1) fit by (simp add: raw_wf_Raw_update)
  have same: "GetHopField ?r i = Inr hop"
    using GetHopField_ok(1) [OF wf] assms fit HopField_Decode_hop_bytes [OF assms(3), of "[]"] by simp
  have other: "GetHopField ?r j = GetHopField r j" if "j \<noteq> i" for j
  proof (cases "j < NumHops r")
    case True
    have "slice (hop_offset r j) (hop_offset r j + HopLen) ?b =
        slice (hop_offset r j) (hop_offset r j + HopLen) (Raw r)"
      using fit off(2) [OF True] mult_disjoint [OF that, of HopLen] assms(3)
      by (intro slice_put_at_disjoint) (auto simp: hop_offset_def)
    with True show ?thesis using GetHopField_ok(1) [OF wf, of j] GetHopField_ok(1) [OF assms(1), of j] by simp
  qed (simp add: GetHopField_def)
  have info: "GetInfoField ?r j = GetInfoField r j" for j
  proof (cases "j < NumINF r")
    case True
    have "slice (?o j) (?o j + InfoLen) ?b = slice (?o j) (?o j + InfoLen) (Raw r)"
      using fit off(1) [OF True] off(3) [of i] off(4) by (intro slice_put_at_disjoint) auto
    with True show ?thesis using GetInfoField_ok(1) [OF wf, of j] GetInfoField_ok(1) [OF assms(1), of j] by simp
  qed (simp add: GetInfoField_def)
  show ?thesis
    using SetHopField_ok [OF assms] wf same other info by (intro exI [of _ ?r]) simp
qed

definition raw_of :: "decoded_path \<Rightarrow> raw_path" where
  "raw_of d = \<lparr>PathMeta = PathMeta d, NumINF = NumINF d, NumHops = NumHops d, Raw = decoded_bytes d\<rparr>"

lemma raw_of_wf: "decoded_wf d \<Longrightarrow> raw_wf (raw_of d)"
  using length_decoded_bytes [of d]
  by (simp add: raw_wf_def raw_of_def decoded_wf_def base_shape_def path_Len_def)

lemma raw_of_simps [simp]:
  "PathMeta (raw_of d) = PathMeta d" "NumINF (raw_of d) = NumINF d" "NumHops (raw_of d) = NumHops d"
  "Raw (raw_of d) = decoded_bytes d"
  by (simp_all add: raw_of_def)

lemma SetInfoField_correct_example:
  "\<exists>r'. SetInfoField (raw_of demo_path) info_zero 1 = Inr r' \<and> GetInfoField r' 1 = Inr info_zero"
  using SetInfoField_correct [OF raw_of_wf [OF demo_path_wf(1)], of 1 info_zero]
  by (auto simp: demo_path_def)

lemma SetHopField_correct_example:
  "\<exists>r'. SetHopField (raw_of demo_path) hop_zero 2 = Inr r' \<and> GetHopField r' 2 = Inr hop_zero"
  using SetHopField_correct [OF raw_of_wf [OF demo_path_wf(1)], of 2 hop_zero]
  by (auto simp: demo_path_def)

section \<open>Raw paths: the wire copy of the meta header\<close>

lemma raw_wf_MetaLen: "raw_wf r \<Longrightarrow> MetaLen \<le> length (Raw r)"
  by (simp add: raw_wf_def path_Len_def)

lemma Raw_sync_meta_ok:
  "raw_wf r \<Longrightarrow> Raw_sync_meta r = Inr (r\<lparr>Raw := put_at 0 (PutUint32 (meta_line (PathMeta r))) (Raw r)\<rparr>)"
  using raw_wf_MetaLen [of r] by (simp add: Raw_sync_meta_def)

lemma Raw_Decode_synced:
  assumes "raw_wf r" "meta_wf (PathMeta r)"
  shows "Raw_DecodeFromBytes (put_at 0 (PutUint32 (meta_line (PathMeta r))) (Raw r)) =
    Inr (r\<lparr>Raw := put_at 0 (PutUint32 (meta_line (PathMeta r))) (Raw r)\<rparr>)"
proof -
  let ?b = "put_at 0 (PutUint32 (meta_line (PathMeta r))) (Raw r)"
  have len: "length ?b = path_Len r"
    using assms(1) raw_wf_MetaLen [OF assms(1)] by (simp add: raw_wf_def MetaLen_def)
  moreover have "Base_DecodeFromBytes ?b =
      Inr \<lparr>PathMeta = PathMeta r, NumINF = NumINF r, NumHops = NumHops r\<rparr>"
    using assms by (simp add: put_at_0 Base_Decode_line raw_wf_def base_shape_def)
  ultimately show ?thesis
    by (simp add: Raw_DecodeFromBytes_def path_Len_def slice_def)
qed

lemma Raw_Decode_wf:
  assumes "Raw_DecodeFromBytes data = Inr r"
  shows "raw_wf r" "meta_wf (PathMeta r)" "Raw r = take (path_Len r) data"
proof -
  from assms obtain s where s: "Base_DecodeFromBytes data = Inr s" "path_Len s \<le> length data"
    and r: "r = \<lparr>PathMeta = PathMeta s, NumINF = NumINF s, NumHops = NumHops s,
      Raw = slice 0 (path_Len s) data\<rparr>"
    by (auto simp: Raw_DecodeFromBytes_def res_simps split: if_splits)
  then have "path_Len r = path_Len s" by (simp add: path_Len_def)
  with s r Base_Decode_shape(1,2) [OF s(1)]
  show "raw_wf r" "meta_wf (PathMeta r)" "Raw r = take (path_Len r) data"
    by (auto simp: raw_wf_def base_shape_def slice_def)
qed

lemma inc_meta_wf:
  assumes "base_shape s" "meta_wf (PathMeta s)" "cursor_ok s"
    "Suc (unat (CurrHF (PathMeta s))) < NumHops s" "NumHops s \<le> MaxHops"
  shows "meta_wf (inc_meta s)"
proof -
  obtain i where "i < NumINF s" "unat (infIndexForHF s (CurrHF (PathMeta s) + 1)) = i"
    using infIndexForHF_in [OF assms(1), of "CurrHF (PathMeta s) + 1"] assms(4)
      unat_Suc_hf [OF assms(1,3)] by auto
  with assms base_shape_bounds(1) [OF assms(1)] unat_Suc_hf [OF assms(1,3)] show ?thesis
    by (auto simp: meta_wf_def inc_meta_def word_less_nat_alt MaxHops_def)
qed

lemma Raw_IncPath_ok:
  assumes "raw_wf r" "cursor_ok r" "Suc (unat (CurrHF (PathMeta r))) < NumHops r"
  shows "Raw_IncPath r =
    Inr (r\<lparr>PathMeta := inc_meta r, Raw := put_at 0 (PutUint32 (meta_line (inc_meta r))) (Raw r)\<rparr>)"
proof -
  have "base_shape r" using assms(1) by (simp add: raw_wf_def)
  moreover have "raw_wf (r\<lparr>PathMeta := inc_meta r\<rparr>)"
    using assms(1) by (simp add: raw_wf_def base_shape_def path_Len_def inc_meta_def)
  ultimately show ?thesis
    using Base_IncPath_ok [of r] assms Raw_sync_meta_ok [of "r\<lparr>PathMeta := inc_meta r\<rparr>"]
    by (simp add: Raw_IncPath_def)
qed

lemma cursor_Raw_update [simp]:
  "infIndexForHF (r\<lparr>Raw := b\<rparr>) hf = infIndexForHF r hf" "cursor_ok (r\<lparr>Raw := b\<rparr>) = cursor_ok r"
  "cursor_sync (r\<lparr>Raw := b\<rparr>) = cursor_sync r"
  by (auto simp: cursor_sync_def cursor_ok_def infIndexForHF_def split: option.split)

text \<open>Advancing a raw path of at most \<open>MaxHops\<close> hops keeps its bytes and its struct in
  step: decoding the bytes again gives the advanced path.\<close>

lemma Raw_IncPath_wire:
  assumes "raw_wf r" "meta_wf (PathMeta r)" "cursor_ok r"
    "Suc (unat (CurrHF (PathMeta r))) < NumHops r" "NumHops r \<le> MaxHops"
  shows "\<exists>r'. Raw_IncPath r = Inr r' \<and> raw_wf r' \<and> cursor_sync r' \<and>
     unat (CurrHF (PathMeta r')) = Suc (unat (CurrHF (PathMeta r))) \<and>
     Raw_DecodeFromBytes (Raw r') = Inr r'"
proof -
  let ?s = "r\<lparr>PathMeta := inc_meta r\<rparr>"
  have sh: "base_shape r" using assms(1) by (simp add: raw_wf_def)
  have wf: "raw_wf ?s"
    using assms(1) by (simp add: raw_wf_def base_shape_def path_Len_def inc_meta_def)
  let ?r = "?s\<lparr>Raw := put_at 0 (PutUint32 (meta_line (inc_meta r))) (Raw r)\<rparr>"
  have "raw_wf ?r"
    using wf raw_wf_MetaLen [OF wf] raw_wf_Raw_update [OF wf] by (simp add: MetaLen_def)
  moreover have "Raw_DecodeFromBytes (Raw ?r) = Inr ?r"
    using Raw_Decode_synced [OF wf] inc_meta_wf [OF sh assms(2-5)] by simp
  moreover have "cursor_sync ?r"
    using Base_IncPath_sync [OF sh assms(3,4)] by simp
  ultimately show ?thesis
    using Raw_IncPath_ok [OF assms(1,3,4)] unat_Suc_hf [OF sh assms(3)]
    by (intro exI [of _ ?r]) (simp add: inc_meta_def)
qed

lemma Raw_IncPath_wire_example:
  "\<exists>r'. Raw_IncPath (raw_of demo_path) = Inr r' \<and> unat (CurrHF (PathMeta r')) = 2 \<and>
     Raw_DecodeFromBytes (Raw r') = Inr r'"
proof -
  have "meta_wf (PathMeta (raw_of demo_path))" "cursor_ok (raw_of demo_path)"
    using demo_path_wf(1,2) by (simp_all add: decoded_wf_def cursor_ok_def)
  then show ?thesis
    using Raw_IncPath_wire [OF raw_of_wf [OF demo_path_wf(1)]]
    by (auto simp: demo_path_def MaxHops_def)
qed

text \<open>The wire format has six bits for the hop pointer and decoding does not bound the number
  of hops by \<open>MaxHops\<close>: advancing a path of more than 64 hops past hop 63 succeeds with the
  struct at hop 64 while the bytes that are forwarded say hop 0.\<close>

lemma Raw_IncPath_wraps:
  assumes "raw_wf r" "cursor_ok r" "CurrHF (PathMeta r) = 63" "MaxHops < NumHops r"
  shows "\<exists>r' m. Raw_IncPath r = Inr r' \<and> CurrHF (PathMeta r') = 64 \<and>
     MetaHdr_DecodeFromBytes (Raw r') = Inr m \<and> CurrHF m = 0"
proof -
  have lt: "Suc (unat (CurrHF (PathMeta r))) < NumHops r"
    using assms(3,4) by (simp add: MaxHops_def)
  have "length (SegLen (inc_meta r)) = 3"
    using assms(1) by (simp add: inc_meta_def raw_wf_def base_shape_def)
  then show ?thesis
    using Raw_IncPath_ok [OF assms(1,2) lt] assms(3)
    by (simp add: put_at_0 MetaHdr_Decode_line) (simp add: inc_meta_def meta_norm_def)
qed

definition long_path :: raw_path where
  "long_path = \<lparr>PathMeta = \<lparr>CurrINF = 1, CurrHF = 63, SegLen = [40, 40, 0]\<rparr>, NumINF = 2, NumHops = 80,
     Raw = replicate 980 0\<rparr>"

lemma Raw_IncPath_wraps_example:
  "\<exists>r' m. Raw_IncPath long_path = Inr r' \<and> CurrHF (PathMeta r') = 64 \<and>
     MetaHdr_DecodeFromBytes (Raw r') = Inr m \<and> CurrHF m = 0"
proof -
  have "raw_wf long_path" "cursor_ok long_path"
    by (simp_all add: long_path_def raw_wf_def base_shape_def segs_ok_def cursor_ok_def numeral_3_eq_3
      all_less_3 path_Len_def MetaLen_def path_len_defs)
  then show ?thesis
    using Raw_IncPath_wraps [of long_path] by (simp add: MaxHops_def) (simp add: long_path_def)
qed

section \<open>Reversing raw paths\<close>

lemma Decoded_Decode_total:
  assumes "raw_wf r" "Base_DecodeFromBytes (Raw r) = Inr \<lparr>PathMeta = m, NumINF = NumINF r, NumHops = NumHops r\<rparr>"
  shows "\<exists>d. Decoded_DecodeFromBytes (Raw r) = Inr d \<and> decoded_wf d \<and> PathMeta d = m \<and>
    NumINF d = NumINF r \<and> NumHops d = NumHops r"
proof -
  let ?s = "\<lparr>PathMeta = m, NumINF = NumINF r, NumHops = NumHops r\<rparr> :: base"
  note sh = Base_Decode_shape [OF assms(2)]
  have l: "path_Len ?s = path_Len r" by (simp add: path_Len_def)
  obtain infs where i: "decode_fields InfoField_DecodeFromBytes InfoLen (NumINF r) MetaLen (Raw r) = Inr infs"
    "length infs = NumINF r"
    using infow.decode_ok [of MetaLen "NumINF r" "Raw r"] assms(1) by (auto simp: raw_wf_def path_Len_def)
  obtain hs where h: "decode_fields HopField_DecodeFromBytes HopLen (NumHops r)
      (MetaLen + NumINF r * InfoLen) (Raw r) = Inr hs" "length hs = NumHops r" "list_all hop_wf hs"
    using hopw.decode_ok [of "MetaLen + NumINF r * InfoLen" "NumHops r" "Raw r"] assms(1)
    by (auto simp: raw_wf_def path_Len_def)
  let ?d = "\<lparr>PathMeta = m, NumINF = NumINF r, NumHops = NumHops r, InfoFields = infs, HopFields = hs\<rparr>"
  have "Decoded_DecodeFromBytes (Raw r) = Inr ?d"
    using assms l i h by (simp add: Decoded_DecodeFromBytes_def raw_wf_def)
  moreover have "decoded_wf ?d"
    using sh(1,2) i h by (simp add: decoded_wf_def base_shape_def)
  ultimately show ?thesis by (intro exI [of _ ?d]) simp
qed

lemma Raw_ToDecoded_ok:
  assumes "raw_wf r" "meta_wf (PathMeta r)"
  shows "\<exists>d. Raw_ToDecoded r = Inr (r\<lparr>Raw := put_at 0 (PutUint32 (meta_line (PathMeta r))) (Raw r)\<rparr>, d) \<and>
     decoded_wf d \<and> PathMeta d = PathMeta r \<and> NumINF d = NumINF r \<and> NumHops d = NumHops r"
proof -
  let ?b = "put_at 0 (PutUint32 (meta_line (PathMeta r))) (Raw r)"
  have "raw_wf (r\<lparr>Raw := ?b\<rparr>)"
    using assms(1) raw_wf_MetaLen [OF assms(1)] by (intro raw_wf_Raw_update) (simp_all add: MetaLen_def)
  moreover have "Base_DecodeFromBytes ?b = Inr \<lparr>PathMeta = PathMeta r, NumINF = NumINF r, NumHops = NumHops r\<rparr>"
    using assms by (simp add: put_at_0 Base_Decode_line raw_wf_def base_shape_def)
  ultimately show ?thesis
    using Decoded_Decode_total [of "r\<lparr>Raw := ?b\<rparr>" "PathMeta r"] Raw_sync_meta_ok [OF assms(1)]
    by (auto simp: Raw_ToDecoded_def)
qed

lemma Raw_Decode_bytes:
  assumes "decoded_wf d"
  shows "Raw_DecodeFromBytes (decoded_bytes d) = Inr (raw_of d)"
proof -
  have "Base_DecodeFromBytes (decoded_bytes d) =
      Inr \<lparr>PathMeta = PathMeta d, NumINF = NumINF d, NumHops = NumHops d\<rparr>"
    using assms by (simp add: decoded_bytes_def Base_Decode_line decoded_wf_def base_shape_def)
  moreover have "path_Len \<lparr>PathMeta = PathMeta d, NumINF = NumINF d, NumHops = NumHops d\<rparr> =
      length (decoded_bytes d)"
    using length_decoded_bytes [OF assms] by (simp add: path_Len_def)
  ultimately show ?thesis
    by (simp add: Raw_DecodeFromBytes_def slice_def raw_of_def)
qed

lemma Raw_Reverse_ok:
  assumes "raw_wf r" "meta_wf (PathMeta r)" "cursor_ok r" "NumHops r \<le> MaxHops"
  shows "\<exists>s d. Raw_ToDecoded r = Inr (s, d) \<and> Raw_Reverse r = Inr (raw_of (rev_decoded d)) \<and>
    decoded_wf d \<and> PathMeta d = PathMeta r \<and> NumINF d = NumINF r \<and> NumHops d = NumHops r"
proof -
  obtain d where d: "Raw_ToDecoded r = Inr (r\<lparr>Raw := put_at 0 (PutUint32 (meta_line (PathMeta r))) (Raw r)\<rparr>, d)"
    "decoded_wf d" "PathMeta d = PathMeta r" "NumINF d = NumINF r" "NumHops d = NumHops r"
    using Raw_ToDecoded_ok [OF assms(1,2)] by blast
  let ?q = "rev_decoded d" and ?b = "put_at 0 (PutUint32 (meta_line (PathMeta r))) (Raw r)"
  have pos: "0 < NumINF d" and q: "decoded_wf ?q"
    using assms(3,4) d rev_decoded_wf [of d] by (auto simp: cursor_ok_def)
  have len: "length ?b = path_Len ?q"
    using assms(1) raw_wf_MetaLen [OF assms(1)] d
    by (simp add: raw_wf_def path_Len_def rev_decoded_def MetaLen_def)
  have "Raw_Reverse r = Inr (raw_of ?q)"
    using d(1) Decoded_Reverse_eq [OF d(2) pos] len length_decoded_bytes [OF q] Raw_Decode_bytes [OF q]
    by (simp add: Raw_Reverse_def Decoded_SerializeTo_eq [OF q] put_at_0)
  with d show ?thesis by blast
qed

text \<open>Reversing a raw path gives the bytes of the reversed decoded path; on a raw path with no
  segment, which decoding accepts, it dereferences the nil path \<open>Decoded.Reverse\<close> returns.\<close>

lemma Raw_Reverse_correct:
  assumes "raw_wf r" "meta_wf (PathMeta r)"
  shows "(NumINF r = 0 \<longrightarrow> is_panic (Raw_Reverse r)) \<and>
     (cursor_ok r \<and> NumHops r \<le> MaxHops \<longrightarrow>
       (\<exists>s d. Raw_ToDecoded r = Inr (s, d) \<and> Raw_Reverse r = Inr (raw_of (rev_decoded d))))"
proof (intro conjI impI)
  assume "NumINF r = 0"
  then show "is_panic (Raw_Reverse r)" using Raw_ToDecoded_ok [OF assms] by (auto simp: Raw_Reverse_def Decoded_Reverse_def)
qed (use Raw_Reverse_ok [OF assms] in blast)

definition empty_raw :: raw_path where
  "empty_raw = \<lparr>PathMeta = \<lparr>CurrINF = 0, CurrHF = 0, SegLen = [0, 0, 0]\<rparr>, NumINF = 0, NumHops = 0,
     Raw = [0, 0, 0, 0]\<rparr>"

lemma Raw_Reverse_correct_example:
  "raw_wf empty_raw \<and> meta_wf (PathMeta empty_raw) \<and> is_panic (Raw_Reverse empty_raw)"
proof -
  have "raw_wf empty_raw" "meta_wf (PathMeta empty_raw)"
    by (simp_all add: empty_raw_def raw_wf_def base_shape_def segs_ok_def meta_wf_def path_Len_def
      MetaLen_def all_less_3)
  then show ?thesis using Raw_Reverse_correct [of empty_raw] by (simp add: empty_raw_def)
qed

text \<open>Decoding a path header of four bytes or more succeeds exactly when no segment length is
  zero before a non-zero one; then the number of info fields is the number of non-zero segment
  lengths and the number of hops their sum.\<close>

lemma Base_Decode_iff:
  assumes "MetaHdr_DecodeFromBytes data = Inr m"
  shows "Base_DecodeFromBytes data = Inr s \<longleftrightarrow>
     PathMeta s = m \<and> NumINF s \<le> 3 \<and> (\<forall>i < 3. SegLen m ! i = 0 \<longleftrightarrow> NumINF s \<le> i) \<and>
     NumHops s = sum_list (map unat (SegLen m))"
proof -
  have l: "length (SegLen m) = 3" using MetaHdr_Decode_wf [OF assms] by (simp add: meta_wf_def)
  have "Base_DecodeFromBytes data = Inr s \<longleftrightarrow>
    PathMeta s = m \<and> seglen_loop (SegLen m) [2, 1, 0] 0 0 = Inr (NumINF s, NumHops s)"
    by (cases s) (auto simp: Base_DecodeFromBytes_def assms res_simps)
  also have "\<dots> \<longleftrightarrow> PathMeta s = m \<and> segs_ok (SegLen m) (NumINF s) (NumHops s)"
    by (simp only: seglen_loop_spec [OF l])
  finally show ?thesis by (simp add: segs_ok_def l)
qed

lemma Base_Decode_iff_example:
  "\<exists>m. MetaHdr_DecodeFromBytes [0, 0, 0x10, 0x40] = Inr m \<and> SegLen m = [1, 1, 0] \<and>
     Base_DecodeFromBytes [0, 0, 0x10, 0x40] = Inr \<lparr>PathMeta = m, NumINF = 2, NumHops = 2\<rparr>"
proof -
  let ?m = "\<lparr>CurrINF = 0, CurrHF = 0, SegLen = [1, 1, 0]\<rparr>"
  have "MetaHdr_DecodeFromBytes [0, 0, 0x10, 0x40] = Inr ?m"
    by (simp add: MetaHdr_DecodeFromBytes_def MetaLen_def Uint32_def)
  from Base_Decode_iff [OF this, of "\<lparr>PathMeta = ?m, NumINF = 2, NumHops = 2\<rparr>"] this show ?thesis
    by (auto simp: numeral_3_eq_3 less_Suc_eq)
qed

section \<open>Type safety of raw paths\<close>

text \<open>The operations that change a raw path; hop fields have a MAC of \<open>MacLen\<close> bytes, as their Go type says.\<close>

inductive raw_step :: "raw_path \<Rightarrow> raw_path \<Rightarrow> bool" where
  inc: "Raw_IncPath r = Inr r' \<Longrightarrow> raw_step r r'"
| set_info: "SetInfoField r info i = Inr r' \<Longrightarrow> raw_step r r'"
| set_hop: "SetHopField r hop i = Inr r' \<Longrightarrow> hop_wf hop \<Longrightarrow> raw_step r r'"
| reverse: "Raw_Reverse r = Inr r' \<Longrightarrow> raw_step r r'"
| serialize: "Raw_SerializeTo r b = Inr (r', b') \<Longrightarrow> raw_step r r'"

text \<open>Bytes and struct agree in size, the header is in the range of its bit fields and the pointers are in range.\<close>

definition raw_typed :: "nat \<Rightarrow> nat \<Rightarrow> raw_path \<Rightarrow> bool" where
  "raw_typed infs hops r \<longleftrightarrow> raw_wf r \<and> meta_wf (PathMeta r) \<and> cursor_ok r \<and> NumHops r \<le> MaxHops \<and> NumINF r = infs \<and> NumHops r = hops"

lemma raw_typed_Raw_update: "raw_typed n h r \<Longrightarrow> length b = length (Raw r) \<Longrightarrow> raw_typed n h (r\<lparr>Raw := b\<rparr>)"
  by (simp add: raw_typed_def raw_wf_Raw_update)

lemma Raw_Reverse_typed: "raw_typed n h r \<Longrightarrow> \<exists>r'. Raw_Reverse r = Inr r' \<and> raw_typed n h r'"
proof -
  assume a: "raw_typed n h r"
  then obtain s d where d: "Raw_Reverse r = Inr (raw_of (rev_decoded d))" "decoded_wf d" "PathMeta d = PathMeta r" "NumINF d = NumINF r"
    "NumHops d = NumHops r" using Raw_Reverse_ok [of r] unfolding raw_typed_def by blast
  moreover have "cursor_ok d" "NumHops d \<le> MaxHops" using a d(3-5) by (simp_all add: raw_typed_def cursor_ok_def)
  note w = rev_decoded_wf [OF d(2) this]
  have "raw_typed n h (raw_of (rev_decoded d))"
    using w raw_of_wf [OF w(1)] d(4,5) a by (simp add: raw_typed_def decoded_wf_def cursor_ok_def rev_decoded_def)
  then show ?thesis using d(1) by blast
qed

lemma Raw_IncPath_typed:
  assumes "raw_typed n h r"
  shows "Raw_IncPath r = Inr r' \<Longrightarrow> raw_typed n h r'" "\<not> is_panic (Raw_IncPath r)"
proof -
  from assms have a: "raw_wf r" "meta_wf (PathMeta r)" "cursor_ok r" "NumHops r \<le> MaxHops" "NumINF r = n" "NumHops r = h"
    by (auto simp: raw_typed_def)
  show "\<not> is_panic (Raw_IncPath r)"
    using a Raw_IncPath_ok [OF a(1,3)] by (cases "Suc (unat (CurrHF (PathMeta r))) < NumHops r")
      (auto simp: Raw_IncPath_def Base_IncPath_def)
  assume i: "Raw_IncPath r = Inr r'"
  then have l: "Suc (unat (CurrHF (PathMeta r))) < NumHops r"
    by (auto simp: Raw_IncPath_def Base_IncPath_def split: if_splits)
  then have r': "raw_wf r'" "cursor_sync r'" "unat (CurrHF (PathMeta r')) = Suc (unat (CurrHF (PathMeta r)))" "Raw_DecodeFromBytes (Raw r') = Inr r'"
    "PathMeta r' = inc_meta r" "NumINF r' = n" "NumHops r' = h"
    using Raw_IncPath_wire [OF a(1-3) _ a(4)] Raw_IncPath_ok [OF a(1,3) l] i a(5,6) by auto
  then show "raw_typed n h r'"
    using a l Raw_Decode_wf(2) [OF r'(4)] by (simp add: raw_typed_def cursor_sync_def)
qed

lemma raw_step_typed: "raw_step r r' \<Longrightarrow> raw_typed n h r \<Longrightarrow> raw_typed n h r'"
proof (induction rule: raw_step.induct)
  case (set_info r info i r')
  then have "i < NumINF r" "raw_wf r" by (auto simp: SetInfoField_def raw_typed_def split: if_splits)
  with set_info show ?case using raw_offsets(1) [of r i] raw_offsets(4) [of r] by (auto simp: SetInfoField_ok intro!: raw_typed_Raw_update)
next
  case (set_hop r hop i r')
  then have "i < NumHops r" "raw_wf r" by (auto simp: SetHopField_def raw_typed_def split: if_splits)
  with set_hop show ?case using raw_offsets(2) [of r i] by (auto simp: SetHopField_ok intro!: raw_typed_Raw_update)
next
  case (serialize r b r' b')
  then have "raw_wf r" by (simp add: raw_typed_def)
  with serialize show ?case using raw_wf_MetaLen [of r]
    by (auto simp: Raw_SerializeTo_def Raw_sync_meta_ok MetaLen_def split: if_splits intro!: raw_typed_Raw_update)
qed (use Raw_IncPath_typed(1) Raw_Reverse_typed in fastforce)+

lemma Raw_SerializeTo_typed:
  assumes "raw_typed n h r"
  shows "if path_Len r \<le> length b
    then \<exists>r' b'. Raw_SerializeTo r b = Inr (r', b') \<and> PathMeta r' = PathMeta r \<and> drop MetaLen (Raw r') = drop MetaLen (Raw r) \<and>
      b' = Raw r' @ drop (path_Len r) b \<and> Raw_DecodeFromBytes (Raw r') = Inr r'
    else \<exists>m. Raw_SerializeTo r b = Inl (Err m)"
proof -
  from assms have w: "raw_wf r" "meta_wf (PathMeta r)" by (simp_all add: raw_typed_def)
  let ?b = "put_at 0 (PutUint32 (meta_line (PathMeta r))) (Raw r)"
  have l: "length (Raw r) = path_Len r" "MetaLen \<le> length (Raw r)" "Raw r \<noteq> []" using w(1) raw_wf_MetaLen [OF w(1)] by (auto simp: raw_wf_def MetaLen_def)
  have b: "length ?b = path_Len r" "drop MetaLen ?b = drop MetaLen (Raw r)" using l by (simp_all add: put_at_def MetaLen_def)
  show ?thesis using l b Raw_sync_meta_ok [OF w(1)] Raw_Decode_synced [OF w] by (simp add: Raw_SerializeTo_def go_copy_def)
qed

text \<open>Claim C32. A raw path of at most \<open>MaxHops\<close> hops that was decoded with its pointers in range keeps its type under every sequence of
  operations: bytes and struct agree in size, the number of segments and hops stays, the pointers stay in range. No
  operation gets stuck on it: the current info and hop field can be read, it can be reversed, every
  field can be set, and advancing it gives a result or an error but never a panic. Written into a buffer that is long enough, it is
  read back as it is, the bytes after it being kept; a shorter buffer is an error.\<close>

theorem raw_path_type_safe:
  assumes "Raw_DecodeFromBytes b = Inr r0" "cursor_ok r0" "NumHops r0 \<le> MaxHops" "raw_step\<^sup>*\<^sup>* r0 r"
  shows "raw_wf r \<and> meta_wf (PathMeta r) \<and> cursor_ok r \<and> NumINF r = NumINF r0 \<and> NumHops r = NumHops r0 \<and>
    (\<exists>info. GetCurrentInfoField r = Inr info) \<and> (\<exists>hop. GetCurrentHopField r = Inr hop \<and> hop_wf hop) \<and>
    (\<forall>info i. (\<exists>r'. SetInfoField r info i = Inr r') \<longleftrightarrow> i < NumINF r) \<and>
    (\<forall>hop i. hop_wf hop \<longrightarrow> ((\<exists>r'. SetHopField r hop i = Inr r') \<longleftrightarrow> i < NumHops r)) \<and>
    (\<exists>r'. Raw_Reverse r = Inr r') \<and> \<not> is_panic (Raw_IncPath r) \<and>
    (\<forall>buf. if path_Len r \<le> length buf
      then \<exists>r' buf'. Raw_SerializeTo r buf = Inr (r', buf') \<and> PathMeta r' = PathMeta r \<and> drop MetaLen (Raw r') = drop MetaLen (Raw r) \<and>
        buf' = Raw r' @ drop (path_Len r) buf \<and> Raw_DecodeFromBytes (Raw r') = Inr r'
      else \<exists>m. Raw_SerializeTo r buf = Inl (Err m))"
proof -
  have "raw_typed (NumINF r0) (NumHops r0) r0" using Raw_Decode_wf [OF assms(1)] assms(2,3) by (simp add: raw_typed_def)
  with assms(4) have t: "raw_typed (NumINF r0) (NumHops r0) r"
    by (induction rule: rtranclp_induct) (auto intro: raw_step_typed)
  then have w: "raw_wf r" "cursor_ok r" by (auto simp: raw_typed_def)
  have "(\<exists>r'. SetInfoField r info i = Inr r') \<longleftrightarrow> i < NumINF r" for info i
    using SetInfoField_ok [OF w(1)] by (auto simp: SetInfoField_def split: if_splits)
  moreover have "hop_wf hop \<Longrightarrow> (\<exists>r'. SetHopField r hop i = Inr r') \<longleftrightarrow> i < NumHops r" for hop i
    using SetHopField_ok [OF w(1)] by (auto simp: SetHopField_def split: if_splits)
  moreover have "\<exists>info. GetCurrentInfoField r = Inr info" "\<exists>hop. GetCurrentHopField r = Inr hop \<and> hop_wf hop"
    using GetInfoField_ok(2) [OF w(1)] GetHopField_ok(2) [OF w(1)] w(2)
    by (auto simp: GetCurrentInfoField_def GetCurrentHopField_def cursor_ok_def)
  moreover have "raw_wf r \<and> meta_wf (PathMeta r) \<and> cursor_ok r \<and> NumINF r = NumINF r0 \<and> NumHops r = NumHops r0" "\<exists>r'. Raw_Reverse r = Inr r'"
    using t Raw_Reverse_typed [OF t] by (auto simp: raw_typed_def)
  ultimately show ?thesis using Raw_IncPath_typed(2) [OF t] Raw_SerializeTo_typed [OF t] by blast
qed

theorem raw_path_type_safe_witness:
  "\<exists>r1 r2 r3 buf. Raw_IncPath (raw_of demo_path) = Inr r1 \<and> Raw_Reverse r1 = Inr r2 \<and> NumHops r2 = 3 \<and> cursor_ok r2 \<and>
     Raw_SerializeTo r2 (replicate 100 7) = Inr (r3, buf) \<and> Raw_DecodeFromBytes (Raw r3) = Inr r3"
proof -
  let ?r = "raw_of demo_path"
  have d: "Raw_DecodeFromBytes (decoded_bytes demo_path) = Inr ?r" "cursor_ok ?r" "NumHops ?r \<le> MaxHops" "NumHops ?r = 3" "NumINF ?r = 2"
    using Raw_Decode_bytes [OF demo_path_wf(1)] demo_path_wf(2,3) by (simp_all add: cursor_ok_def demo_path_def)
  then obtain r1 where r1: "Raw_IncPath ?r = Inr r1"
    using Raw_IncPath_ok [OF raw_of_wf [OF demo_path_wf(1)]] d(2,4) by (auto simp: demo_path_def)
  then have s: "raw_step\<^sup>*\<^sup>* ?r r1" by (blast intro: raw_step.inc)
  then obtain r2 where r2: "Raw_Reverse r1 = Inr r2" using raw_path_type_safe [OF d(1-3)] by blast
  then have "raw_step\<^sup>*\<^sup>* ?r r2" using s by (meson raw_step.reverse rtranclp.rtrancl_into_rtrancl)
  note safe = raw_path_type_safe [OF d(1-3) this]
  then have n: "NumHops r2 = 3" "NumINF r2 = 2" "cursor_ok r2" using d(4,5) by auto
  have "path_Len r2 \<le> length (replicate 100 (7 :: u8))" using n by (simp add: path_Len_def MetaLen_def path_len_defs)
  then obtain r3 buf where "Raw_SerializeTo r2 (replicate 100 7) = Inr (r3, buf)" "Raw_DecodeFromBytes (Raw r3) = Inr r3"
    using safe by (metis (no_types, lifting))
  then show ?thesis using r1 r2 n by blast
qed

end
