(* ===== verification/Addr.thy ===== *)
theory Addr
  imports Prelude
begin

unbundle bit_operations_syntax

text \<open>
  ISD and AS numbers, their text formats and host addresses (go/lib/addr). The functions of the Go
  library the code calls (\<open>strconv.ParseUint\<close>, \<open>strconv.FormatUint\<close>, \<open>strings.Split\<close>,
  \<open>net.IP.To4\<close>, ...) are modelled first.
\<close>

section \<open>The library functions used\<close>

definition digit_char :: "nat \<Rightarrow> char" where
  "digit_char d = (if d < 10 then char_of (48 + d) else char_of (87 + d))"

text \<open>The value of a digit of \<open>strconv\<close>: decimal digits, then letters of either case.\<close>

definition digit_val :: "char \<Rightarrow> nat option" where
  "digit_val c = (let n = of_char c :: nat in
     if 48 \<le> n \<and> n \<le> 57 then Some (n - 48)
     else if 97 \<le> n \<and> n \<le> 122 then Some (n - 87)
     else if 65 \<le> n \<and> n \<le> 90 then Some (n - 55)
     else None)"

text \<open>\<open>strconv.FormatUint(n, base)\<close>.\<close>

fun FormatUint :: "nat \<Rightarrow> nat \<Rightarrow> string" where
  "FormatUint n base =
     (if n < base \<or> base < 2 then [digit_char n]
      else FormatUint (n div base) base @ [digit_char (n mod base)])"

declare FormatUint.simps [simp del]

fun parse_digits :: "nat \<Rightarrow> nat \<Rightarrow> nat \<Rightarrow> string \<Rightarrow> nat res" where
  "parse_digits base maxVal n [] = Inr n"
| "parse_digits base maxVal n (c # cs) =
     (case digit_val c of
        None \<Rightarrow> Inl (Err ''invalid syntax'')
      | Some d \<Rightarrow>
          if base \<le> d then Inl (Err ''invalid syntax'')
          else if maxVal < n * base + d then Inl (Err ''value out of range'')
          else parse_digits base maxVal (n * base + d) cs)"

text \<open>\<open>strconv.ParseUint(s, base, bitSize)\<close> for a base given explicitly.\<close>

definition ParseUint :: "string \<Rightarrow> nat \<Rightarrow> nat \<Rightarrow> nat res" where
  "ParseUint s base bits =
     (if s = [] then Inl (Err ''invalid syntax'') else parse_digits base (2 ^ bits - 1) 0 s)"

text \<open>\<open>strings.Split(s, sep)\<close>: the pieces between the leftmost occurrences of the separator; an
  empty separator splits into characters.\<close>

function split_on :: "string \<Rightarrow> string \<Rightarrow> string \<Rightarrow> string list" where
  "split_on sep cur [] = [cur]"
| "split_on sep cur (c # s) =
     (if sep \<noteq> [] \<and> take (length sep) (c # s) = sep
      then cur # split_on sep [] (drop (length sep) (c # s))
      else split_on sep (cur @ [c]) s)"
  by pat_completeness auto
termination
proof (relation "measure (\<lambda>(sep, cur, s). length s)")
  fix sep cur s :: string and c :: char
  assume "sep \<noteq> [] \<and> take (length sep) (c # s) = sep"
  then have "0 < length sep" by simp
  then show "((sep, [], drop (length sep) (c # s)), sep, cur, c # s) \<in> measure (\<lambda>(sep, cur, s). length s)"
    by simp
qed auto

definition strings_Split :: "string \<Rightarrow> string \<Rightarrow> string list" where
  "strings_Split s sep = (if sep = [] then map (\<lambda>c. [c]) s else split_on sep [] s)"

definition TrimPrefix :: "string \<Rightarrow> string \<Rightarrow> string" where
  "TrimPrefix s p = (if take (length p) s = p then drop (length p) s else s)"

definition HasSuffix :: "string \<Rightarrow> string \<Rightarrow> bool" where
  "HasSuffix s t \<longleftrightarrow> length t \<le> length s \<and> drop (length s - length t) s = t"

definition TrimSuffix :: "string \<Rightarrow> string \<Rightarrow> string" where
  "TrimSuffix s t = (if HasSuffix s t then take (length s - length t) s else s)"

text \<open>\<open>net.IP\<close>: a slice of bytes; \<open>nil\<close> is the empty slice.\<close>

definition To4 :: "bytes \<Rightarrow> bytes option" where
  "To4 ip =
     (if length ip = 4 then Some ip
      else if length ip = 16 \<and> take 10 ip = replicate 10 0 \<and> ip ! 10 = 0xff \<and> ip ! 11 = 0xff
      then Some (slice 12 16 ip)
      else None)"

definition v4InV6Prefix :: bytes where
  "v4InV6Prefix = replicate 10 0 @ [0xff, 0xff]"

definition IP_Equal :: "bytes \<Rightarrow> bytes \<Rightarrow> bool" where
  "IP_Equal ip x \<longleftrightarrow>
     (if length ip = length x then ip = x
      else if length ip = 4 \<and> length x = 16 then take 12 x = v4InV6Prefix \<and> ip = drop 12 x
      else if length ip = 16 \<and> length x = 4 then take 12 ip = v4InV6Prefix \<and> drop 12 ip = x
      else False)"

section \<open>ISD and AS numbers (isdas.go)\<close>

definition ISDBits :: nat where "ISDBits = 16"
definition ASBits :: nat where "ASBits = 48"
definition BGPASBits :: nat where "BGPASBits = 32"
definition MaxISD :: u16 where "MaxISD = 0xffff"
definition MaxAS :: u64 where "MaxAS = 2 ^ ASBits - 1"
definition MaxBGPAS :: u64 where "MaxBGPAS = 2 ^ BGPASBits - 1"
definition asPartBits :: nat where "asPartBits = 16"
definition asPartBase :: nat where "asPartBase = 16"
definition asPartMask :: u64 where "asPartMask = 2 ^ asPartBits - 1"
definition asParts :: nat where "asParts = ASBits div asPartBits"

lemmas as_consts = ISDBits_def ASBits_def BGPASBits_def MaxISD_def MaxAS_def MaxBGPAS_def
  asPartBits_def asPartBase_def asPartMask_def asParts_def

definition ParseISD :: "string \<Rightarrow> u16 res" where
  "ParseISD s = rbind (wrap_err ''parsing ISD'' (ParseUint s 10 ISDBits)) (\<lambda>isd. Inr (of_nat isd))"

definition ISD_String :: "u16 \<Rightarrow> string" where
  "ISD_String isd = FormatUint (unat isd) 10"

definition AS_inRange :: "u64 \<Rightarrow> bool" where
  "AS_inRange as \<longleftrightarrow> as \<le> MaxAS"

definition asParseBGP :: "string \<Rightarrow> u64 res" where
  "asParseBGP s =
     rbind (wrap_err ''parsing BGP AS'' (ParseUint s 10 BGPASBits)) (\<lambda>as. Inr (of_nat as))"

text \<open>The loop over the parts: \<open>parsed <<= asPartBits; parsed |= AS(v)\<close>.\<close>

fun parse_parts :: "string list \<Rightarrow> u64 \<Rightarrow> u64 res" where
  "parse_parts [] parsed = Inr parsed"
| "parse_parts (p # ps) parsed =
     rbind (wrap_err ''parsing AS part'' (ParseUint p asPartBase asPartBits)) (\<lambda>v.
     parse_parts ps (push_bit asPartBits parsed OR of_nat v))"

definition parseAS :: "string \<Rightarrow> string \<Rightarrow> u64 res" where
  "parseAS as sep = (let parts = strings_Split as sep in
     if length parts = 1 then asParseBGP as
     else if length parts \<noteq> asParts then Inl (Err ''wrong number of separators'')
     else rbind (parse_parts parts 0) (\<lambda>parsed.
       if \<not> AS_inRange parsed then Inl (Err ''AS out of range'') else Inr parsed))"

definition ParseAS :: "string \<Rightarrow> u64 res" where
  "ParseAS as = parseAS as '':''"

text \<open>\<open>fmtAS\<close> of fmt.go.\<close>

definition fmtAS :: "u64 \<Rightarrow> string \<Rightarrow> string" where
  "fmtAS as sep =
     (if \<not> AS_inRange as
      then FormatUint (unat as) 10 @ '' [Illegal AS: larger than '' @
           FormatUint (unat MaxAS) 10 @ '']''
      else if as \<le> MaxBGPAS then FormatUint (unat as) 10
      else concat (map (\<lambda>i. (if i > 0 then sep else []) @
             FormatUint (unat (drop_bit (asPartBits * (asParts - i - 1)) as AND asPartMask)) asPartBase)
             [0..<asParts]))"

definition AS_String :: "u64 \<Rightarrow> string" where
  "AS_String as = fmtAS as '':''"

definition AS_MarshalText :: "u64 \<Rightarrow> string res" where
  "AS_MarshalText as =
     (if \<not> AS_inRange as then Inl (Err ''AS out of range'') else Inr (AS_String as))"

definition AS_UnmarshalText :: "string \<Rightarrow> u64 res" where
  "AS_UnmarshalText text = ParseAS text"

text \<open>\<open>IA\<close> is a \<open>uint64\<close>: ISD in the high 16 bits, AS in the low 48.\<close>

definition IAFrom :: "u16 \<Rightarrow> u64 \<Rightarrow> u64 res" where
  "IAFrom isd as =
     (if \<not> AS_inRange as then Inl (Err ''AS out of range'')
      else Inr (push_bit ASBits (ucast isd) OR (as AND MaxAS)))"

definition MustIAFrom :: "u16 \<Rightarrow> u64 \<Rightarrow> u64 res" where
  "MustIAFrom isd as =
     (case IAFrom isd as of Inl _ \<Rightarrow> Inl (Panic ''parsing ISD-AS'') | Inr ia \<Rightarrow> Inr ia)"

definition ParseIA :: "string \<Rightarrow> u64 res" where
  "ParseIA ia = (case strings_Split ia ''-'' of
       [p0, p1] \<Rightarrow>
         rbind (ParseISD p0) (\<lambda>isd.
         rbind (ParseAS p1) (\<lambda>as.
         MustIAFrom isd as))
     | _ \<Rightarrow> Inl (Err ''invalid ISD-AS''))"

definition IA_ISD :: "u64 \<Rightarrow> u16" where
  "IA_ISD ia = ucast (drop_bit ASBits ia)"

definition IA_AS :: "u64 \<Rightarrow> u64" where
  "IA_AS ia = ia AND MaxAS"

definition IA_IsZero :: "u64 \<Rightarrow> bool" where
  "IA_IsZero ia \<longleftrightarrow> ia = 0"

definition IA_Equal :: "u64 \<Rightarrow> u64 \<Rightarrow> bool" where
  "IA_Equal ia other \<longleftrightarrow> ia = other"

definition IsWildcard :: "u64 \<Rightarrow> bool" where
  "IsWildcard ia \<longleftrightarrow> IA_ISD ia = 0 \<or> IA_AS ia = 0"

definition IA_String :: "u64 \<Rightarrow> string" where
  "IA_String ia = FormatUint (unat (IA_ISD ia)) 10 @ ''-'' @ AS_String (IA_AS ia)"

definition IA_MarshalText :: "u64 \<Rightarrow> string res" where
  "IA_MarshalText ia = Inr (IA_String ia)"

definition IA_UnmarshalText :: "string \<Rightarrow> u64 res" where
  "IA_UnmarshalText b = ParseIA b"

definition IA_Set :: "string \<Rightarrow> u64 res" where
  "IA_Set s = ParseIA s"

section \<open>Formatting with options (fmt.go)\<close>

record formatOptions =
  defaultPrefix :: bool
  separator :: string

definition applyFormatOptions :: "(formatOptions \<Rightarrow> formatOptions) list \<Rightarrow> formatOptions" where
  "applyFormatOptions opts =
     fold (\<lambda>opt o'. opt o') opts \<lparr>defaultPrefix = False, separator = '':''\<rparr>"

definition WithDefaultPrefix :: "formatOptions \<Rightarrow> formatOptions" where
  "WithDefaultPrefix o' = o'\<lparr>defaultPrefix := True\<rparr>"

definition WithSeparator :: "string \<Rightarrow> formatOptions \<Rightarrow> formatOptions" where
  "WithSeparator sep o' = o'\<lparr>separator := sep\<rparr>"

definition WithFileSeparator :: "formatOptions \<Rightarrow> formatOptions" where
  "WithFileSeparator = WithSeparator ''_''"

definition ParseFormattedISD :: "string \<Rightarrow> (formatOptions \<Rightarrow> formatOptions) list \<Rightarrow> u16 res" where
  "ParseFormattedISD isd opts = (let o' = applyFormatOptions opts in
     if defaultPrefix o' then
       (let trimmed = TrimPrefix isd ''ISD'' in
        if trimmed = isd then Inl (Err ''prefix is missing'') else ParseISD trimmed)
     else ParseISD isd)"

definition ParseFormattedAS :: "string \<Rightarrow> (formatOptions \<Rightarrow> formatOptions) list \<Rightarrow> u64 res" where
  "ParseFormattedAS as opts = (let o' = applyFormatOptions opts in
     if defaultPrefix o' then
       (let trimmed = TrimPrefix as ''AS'' in
        if trimmed = as then Inl (Err ''prefix is missing'') else parseAS trimmed (separator o'))
     else parseAS as (separator o'))"

definition ParseFormattedIA :: "string \<Rightarrow> (formatOptions \<Rightarrow> formatOptions) list \<Rightarrow> u64 res" where
  "ParseFormattedIA ia opts = (case strings_Split ia ''-'' of
       [p0, p1] \<Rightarrow>
         rbind (wrap_err ''parsing ISD part'' (ParseFormattedISD p0 opts)) (\<lambda>isd.
         rbind (wrap_err ''parsing AS part'' (ParseFormattedAS p1 opts)) (\<lambda>as.
         MustIAFrom isd as))
     | _ \<Rightarrow> Inl (Err ''invalid ISD-AS''))"

definition FormatIA :: "u64 \<Rightarrow> (formatOptions \<Rightarrow> formatOptions) list \<Rightarrow> string" where
  "FormatIA ia opts = (let o' = applyFormatOptions opts; as = fmtAS (IA_AS ia) (separator o') in
     if defaultPrefix o'
     then ''ISD'' @ FormatUint (unat (IA_ISD ia)) 10 @ ''-AS'' @ as
     else FormatUint (unat (IA_ISD ia)) 10 @ ''-'' @ as)"

definition FormatISD :: "u16 \<Rightarrow> (formatOptions \<Rightarrow> formatOptions) list \<Rightarrow> string" where
  "FormatISD isd opts = (let o' = applyFormatOptions opts in
     if defaultPrefix o' then ''ISD'' @ FormatUint (unat isd) 10 else FormatUint (unat isd) 10)"

definition FormatAS :: "u64 \<Rightarrow> (formatOptions \<Rightarrow> formatOptions) list \<Rightarrow> string" where
  "FormatAS as opts = (let o' = applyFormatOptions opts; s = fmtAS as (separator o') in
     if defaultPrefix o' then ''AS'' @ s else s)"

section \<open>Host addresses (host.go)\<close>

text \<open>\<open>HostAddrType\<close> is a \<open>uint8\<close> with four named values.\<close>

definition HostTypeNone :: u8 where "HostTypeNone = 0"
definition HostTypeIPv4 :: u8 where "HostTypeIPv4 = 1"
definition HostTypeIPv6 :: u8 where "HostTypeIPv6 = 2"
definition HostTypeSVC :: u8 where "HostTypeSVC = 3"

definition HostLenNone :: nat where "HostLenNone = 0"
definition HostLenIPv4 :: nat where "HostLenIPv4 = 4"
definition HostLenIPv6 :: nat where "HostLenIPv6 = 16"
definition HostLenSVC :: nat where "HostLenSVC = 2"

definition SvcDS :: u16 where "SvcDS = 0x0001"
definition SvcCS :: u16 where "SvcCS = 0x0002"
definition SvcCOL :: u16 where "SvcCOL = 0x0006"
definition SvcWildcard :: u16 where "SvcWildcard = 0x0010"
definition SvcNone :: u16 where "SvcNone = 0xffff"
definition SVCMcast :: u16 where "SVCMcast = 0x8000"

lemmas host_consts = HostTypeNone_def HostTypeIPv4_def HostTypeIPv6_def HostTypeSVC_def
  HostLenNone_def HostLenIPv4_def HostLenIPv6_def HostLenSVC_def
lemmas svc_consts = SvcDS_def SvcCS_def SvcCOL_def SvcWildcard_def SvcNone_def SVCMcast_def

definition HostAddrType_String :: "u8 \<Rightarrow> string" where
  "HostAddrType_String t =
     (if t = HostTypeNone then ''None''
      else if t = HostTypeIPv4 then ''IPv4''
      else if t = HostTypeIPv6 then ''IPv6''
      else if t = HostTypeSVC then ''SVC''
      else ''UNKNOWN ('' @ FormatUint (unat t) 10 @ '')'')"

text \<open>The interface \<open>HostAddr\<close> with its four implementations.\<close>

datatype host_addr = HostNone | HostIPv4 bytes | HostIPv6 bytes | HostSVC u16

fun Host_Size :: "host_addr \<Rightarrow> nat" where
  "Host_Size HostNone = HostLenNone"
| "Host_Size (HostIPv4 _) = HostLenIPv4"
| "Host_Size (HostIPv6 _) = HostLenIPv6"
| "Host_Size (HostSVC _) = HostLenSVC"

fun Host_Type :: "host_addr \<Rightarrow> u8" where
  "Host_Type HostNone = HostTypeNone"
| "Host_Type (HostIPv4 _) = HostTypeIPv4"
| "Host_Type (HostIPv6 _) = HostTypeIPv6"
| "Host_Type (HostSVC _) = HostTypeSVC"

text \<open>\<open>IP()\<close>; \<open>nil\<close> is the empty slice.\<close>

fun Host_IP :: "host_addr \<Rightarrow> bytes" where
  "Host_IP HostNone = []"
| "Host_IP (HostIPv4 h) = (case To4 h of Some ip \<Rightarrow> ip | None \<Rightarrow> [])"
| "Host_IP (HostIPv6 h) = h"
| "Host_IP (HostSVC _) = []"

fun Host_Pack :: "host_addr \<Rightarrow> bytes res" where
  "Host_Pack HostNone = Inr []"
| "Host_Pack (HostIPv4 h) = Inr (Host_IP (HostIPv4 h))"
| "Host_Pack (HostIPv6 h) = gslice 0 HostLenIPv6 h"
| "Host_Pack (HostSVC h) = Inr (put_at 0 (PutUint16 h) (replicate HostLenSVC 0))"

definition SVC_PackWithPad :: "u16 \<Rightarrow> nat \<Rightarrow> bytes" where
  "SVC_PackWithPad h pad = put_at 0 (PutUint16 h) (replicate (HostLenSVC + pad) 0)"

fun Host_Copy :: "host_addr \<Rightarrow> host_addr" where
  "Host_Copy HostNone = HostNone"
| "Host_Copy (HostIPv4 h) = HostIPv4 ([] @ h)"
| "Host_Copy (HostIPv6 h) = HostIPv6 ([] @ h)"
| "Host_Copy (HostSVC h) = HostSVC h"

fun Host_Equal :: "host_addr \<Rightarrow> host_addr \<Rightarrow> bool" where
  "Host_Equal HostNone o' = (case o' of HostNone \<Rightarrow> True | _ \<Rightarrow> False)"
| "Host_Equal (HostIPv4 h) o' = (case o' of HostIPv4 ha \<Rightarrow> IP_Equal h ha | _ \<Rightarrow> False)"
| "Host_Equal (HostIPv6 h) o' = (case o' of HostIPv6 ha \<Rightarrow> IP_Equal h ha | _ \<Rightarrow> False)"
| "Host_Equal (HostSVC h) o' = (case o' of HostSVC ha \<Rightarrow> h = ha | _ \<Rightarrow> False)"

definition HostSVCFromString :: "string \<Rightarrow> u16" where
  "HostSVCFromString str = (let
     (str, m) =
       (if HasSuffix str ''_A'' then (TrimSuffix str ''_A'', 0)
        else if HasSuffix str ''_M'' then (TrimSuffix str ''_M'', SVCMcast)
        else (str, 0))
   in if str = ''DS'' then SvcDS OR m
      else if str = ''CS'' then SvcCS OR m
      else if str = ''Wildcard'' then SvcWildcard OR m
      else SvcNone)"

definition SVC_IsMulticast :: "u16 \<Rightarrow> bool" where
  "SVC_IsMulticast h \<longleftrightarrow> h AND SVCMcast \<noteq> 0"

definition SVC_Base :: "u16 \<Rightarrow> u16" where
  "SVC_Base h = h AND NOT SVCMcast"

definition SVC_Multicast :: "u16 \<Rightarrow> u16" where
  "SVC_Multicast h = h OR SVCMcast"

definition SVC_BaseString :: "u16 \<Rightarrow> string" where
  "SVC_BaseString h = (let b = SVC_Base h in
     if b = SvcDS then ''DS''
     else if b = SvcCS then ''CS''
     else if b = SvcCOL then ''COL''
     else if b = SvcWildcard then ''Wildcard''
     else ''UNKNOWN'')"

text \<open>\<open>%04x\<close> of \<open>fmt\<close>.\<close>

definition fmt_04x :: "u16 \<Rightarrow> string" where
  "fmt_04x h = (let s = FormatUint (unat h) 16 in replicate (4 - length s) CHR ''0'' @ s)"

definition SVC_String :: "u16 \<Rightarrow> string" where
  "SVC_String h = SVC_BaseString h @ '' '' @ (if SVC_IsMulticast h then ''M'' else ''A'') @
     '' (0x'' @ fmt_04x h @ '')''"

definition HostFromRaw :: "bytes \<Rightarrow> u8 \<Rightarrow> host_addr res" where
  "HostFromRaw b htype =
     (if htype = HostTypeNone then Inr HostNone
      else if htype = HostTypeIPv4 then
        (if length b < HostLenIPv4 then Inl (Err ''malformed host address type'')
         else Inr (HostIPv4 (slice 0 HostLenIPv4 b)))
      else if htype = HostTypeIPv6 then
        (if length b < HostLenIPv6 then Inl (Err ''malformed host address type'')
         else Inr (HostIPv6 (slice 0 HostLenIPv6 b)))
      else if htype = HostTypeSVC then
        (if length b < HostLenSVC then Inl (Err ''malformed host address type'')
         else Inr (HostSVC (Uint16 b)))
      else Inl (Err ''unsupported host address type''))"

definition HostFromIP :: "bytes \<Rightarrow> host_addr" where
  "HostFromIP ip =
     (if length ip = 0 then HostNone
      else case To4 ip of Some ip4 \<Rightarrow> HostIPv4 ip4 | None \<Rightarrow> HostIPv6 ip)"

definition HostLen :: "u8 \<Rightarrow> u8 res" where
  "HostLen htype =
     (if htype = HostTypeNone then Inr (of_nat HostLenNone)
      else if htype = HostTypeIPv4 then Inr (of_nat HostLenIPv4)
      else if htype = HostTypeIPv6 then Inr (of_nat HostLenIPv6)
      else if htype = HostTypeSVC then Inr (of_nat HostLenSVC)
      else Inl (Err ''unsupported host address type''))"

definition HostTypeCheck :: "u8 \<Rightarrow> bool" where
  "HostTypeCheck t \<longleftrightarrow> t = HostTypeIPv6 \<or> t = HostTypeIPv4 \<or> t = HostTypeSVC"

section \<open>Numbers and their text\<close>

lemma digit_val_digit_char: "d < 16 \<Longrightarrow> digit_val (digit_char d) = Some d"
  by (auto simp: digit_val_def digit_char_def Let_def)

lemma parse_digits_append:
  "parse_digits base m n (xs @ ys) = rbind (parse_digits base m n xs) (\<lambda>k. parse_digits base m k ys)"
  by (induction xs arbitrary: n) (auto split: option.split)

lemma parse_FormatUint:
  assumes "2 \<le> base" "base \<le> 16" "n \<le> m"
  shows "parse_digits base m 0 (FormatUint n base) = Inr n"
  using assms
proof (induction n base rule: FormatUint.induct)
  case (1 n base)
  show ?case
  proof (cases "n < base")
    case True
    with 1 show ?thesis by (simp add: FormatUint.simps [of n] digit_val_digit_char)
  next
    case False
    then have "parse_digits base m 0 (FormatUint (n div base) base) = Inr (n div base)"
      using 1 by (meson div_le_dividend le_trans leD)
    moreover have "digit_val (digit_char (n mod base)) = Some (n mod base)"
      using 1 by (intro digit_val_digit_char) (simp add: less_le_trans [of _ base])
    moreover have "n mod base < base" using 1 by simp
    ultimately show ?thesis
      using 1 False by (simp add: FormatUint.simps [of n] parse_digits_append not_le)
  qed
qed

lemma FormatUint_nonempty [simp]: "FormatUint n base \<noteq> []"
  by (simp add: FormatUint.simps)

lemma ParseUint_FormatUint:
  "2 \<le> base \<Longrightarrow> base \<le> 16 \<Longrightarrow> n < 2 ^ bits \<Longrightarrow> ParseUint (FormatUint n base) base bits = Inr n"
  by (simp add: ParseUint_def parse_FormatUint)

text \<open>The characters a number is written with.\<close>

definition hex_chars :: "char set" where
  "hex_chars = digit_char ` {..<16}"

lemma FormatUint_chars: "2 \<le> base \<Longrightarrow> base \<le> 16 \<Longrightarrow> set (FormatUint n base) \<subseteq> hex_chars"
proof (induction n base rule: FormatUint.induct)
  case (1 n base)
  have "digit_char (n mod base) \<in> hex_chars"
    unfolding hex_chars_def using 1 by (intro imageI) (simp add: less_le_trans [of _ base])
  moreover have "n < base \<Longrightarrow> digit_char n \<in> hex_chars"
    unfolding hex_chars_def using 1 by (intro imageI) simp
  ultimately show ?case
    using 1 by (subst FormatUint.simps) auto
qed

lemma split_on_none:
  "sep \<noteq> [] \<Longrightarrow> set s \<inter> set sep = {} \<Longrightarrow> split_on sep cur s = [cur @ s]"
proof (induction s arbitrary: cur)
  case (Cons c s)
  then have "take (length sep) (c # s) \<noteq> sep" by (cases sep) auto
  with Cons show ?case by simp
qed simp

lemma split_on_sep:
  "sep \<noteq> [] \<Longrightarrow> set s \<inter> set sep = {} \<Longrightarrow>
   split_on sep cur (s @ sep @ t) = (cur @ s) # split_on sep [] t"
proof (induction s arbitrary: cur)
  case Nil
  then show ?case by (cases sep) auto
next
  case (Cons c s)
  then have "take (length sep) (c # s @ sep @ t) \<noteq> sep" by (cases sep) auto
  with Cons show ?case by simp
qed


lemma AS_inRange_iff: "AS_inRange as \<longleftrightarrow> take_bit 48 as = as"
proof -
  have "AS_inRange as \<longleftrightarrow> as < 2 ^ 48"
    by (auto simp: AS_inRange_def as_consts word_le_nat_alt word_less_nat_alt)
  then show ?thesis using word_less_power_iff [of 48 as] by simp
qed

lemma MaxBGPAS_iff: "as \<le> MaxBGPAS \<longleftrightarrow> unat as < 2 ^ 32"
  by (auto simp: as_consts word_le_nat_alt)

lemma and_MaxAS: "as AND MaxAS = take_bit 48 as"
  by (simp add: as_consts take_bit_eq_mask mask_eq_exp_minus_1)

lemma and_asPartMask: "x AND asPartMask = take_bit 16 x"
  by (simp add: as_consts take_bit_eq_mask mask_eq_exp_minus_1)

lemma as_parts_join:
  assumes "take_bit 48 (as :: u64) = as"
  shows "(push_bit 32 (take_bit 16 (drop_bit 32 as)) OR push_bit 16 (take_bit 16 (drop_bit 16 as))) OR
    take_bit 16 as = as"
proof -
  have "(push_bit 32 (take_bit 16 (drop_bit 32 as)) OR push_bit 16 (take_bit 16 (drop_bit 16 as))) OR
    take_bit 16 as = take_bit 48 as"
  proof (rule bit_word_eqI)
    fix n :: nat
    have "n < 16 \<or> 16 \<le> n \<and> n < 32 \<or> 32 \<le> n" by arith
    then show "bit ((push_bit 32 (take_bit 16 (drop_bit 32 as)) OR push_bit 16 (take_bit 16 (drop_bit 16 as))) OR
      take_bit 16 as) n = bit (take_bit 48 as) n"
      by (elim disjE) (auto simp: bit_simps)
  qed
  with assms show ?thesis by simp
qed

lemma unat_part_less: "unat (take_bit 16 (x :: u64)) < 65536"
proof -
  have "take_bit 16 x < 2 ^ 16" by (subst word_less_power_iff) auto
  then show ?thesis by (simp add: word_less_nat_alt)
qed

text \<open>A separator that can be told from the digits.\<close>

definition sep_ok :: "string \<Rightarrow> bool" where
  "sep_ok sep \<longleftrightarrow> sep \<noteq> [] \<and> (\<forall>c \<in> set sep. digit_val c = None)"

lemma sep_ok_disjoint: "sep_ok sep \<Longrightarrow> set sep \<inter> hex_chars = {}"
  by (auto simp: sep_ok_def hex_chars_def digit_val_digit_char)

lemma split_fmt: "sep_ok sep \<Longrightarrow> 2 \<le> base \<Longrightarrow> base \<le> 16 \<Longrightarrow>
    split_on sep cur (FormatUint n base) = [cur @ FormatUint n base]"
  using FormatUint_chars [of base n] sep_ok_disjoint [of sep]
  by (intro split_on_none) (auto simp: sep_ok_def)

lemma split_fmt_sep: "sep_ok sep \<Longrightarrow> 2 \<le> base \<Longrightarrow> base \<le> 16 \<Longrightarrow>
    split_on sep cur (FormatUint n base @ sep @ t) = (cur @ FormatUint n base) # split_on sep [] t"
  using FormatUint_chars [of base n] sep_ok_disjoint [of sep]
  by (intro split_on_sep) (auto simp: sep_ok_def)

lemma parseAS_fmtAS:
  assumes "AS_inRange as" "sep_ok sep"
  shows "parseAS (fmtAS as sep) sep = Inr as"
proof (cases "as \<le> MaxBGPAS")
  case True
  then have "ParseUint (FormatUint (unat as) 10) 10 32 = Inr (unat as)"
    by (intro ParseUint_FormatUint) (auto simp: MaxBGPAS_iff)
  with True assms show ?thesis
    by (simp add: parseAS_def fmtAS_def strings_Split_def split_fmt sep_ok_def asParseBGP_def BGPASBits_def)
next
  case False
  let ?p = "\<lambda>k. FormatUint (unat (take_bit 16 (drop_bit k as))) 16"
  have fmt: "fmtAS as sep = ?p 32 @ sep @ ?p 16 @ sep @ FormatUint (unat (take_bit 16 as)) 16"
    using False assms(1)
    by (simp add: fmtAS_def and_asPartMask asParts_def ASBits_def asPartBits_def asPartBase_def upt_rec)
  have "strings_Split (fmtAS as sep) sep = [?p 32, ?p 16, FormatUint (unat (take_bit 16 as)) 16]"
    using assms(2) by (simp add: fmt strings_Split_def split_fmt split_fmt_sep sep_ok_def)
  moreover have "ParseUint (FormatUint (unat (take_bit 16 x)) 16) 16 16 = Inr (unat (take_bit 16 (x :: u64)))" for x
    using unat_part_less by (intro ParseUint_FormatUint) auto
  moreover have "take_bit 48 as = as" using assms(1) by (simp add: AS_inRange_iff)
  ultimately show ?thesis
    using assms(1) by (simp add: parseAS_def as_consts as_parts_join)
qed

lemma parseAS_inRange:
  assumes "parseAS s sep = Inr as" shows "AS_inRange as"
proof (cases "length (strings_Split s sep) = 1")
  case True
  have pd: "parse_digits base m n cs = Inr k \<Longrightarrow> n \<le> m \<Longrightarrow> k \<le> m" for base m n cs k
    by (induction cs arbitrary: n) (auto split: option.splits if_splits)
  from True assms obtain k where "parse_digits 10 (2 ^ 32 - 1) 0 s = Inr k" "as = of_nat k"
    by (auto simp: parseAS_def asParseBGP_def ParseUint_def res_simps BGPASBits_def split: if_splits)
  with pd [of 10 "2 ^ 32 - 1" 0 s k] show ?thesis
    by (simp add: AS_inRange_def as_consts word_le_nat_alt unat_of_nat)
next
  case False
  with assms show ?thesis
    by (auto simp: parseAS_def res_simps Let_def split: if_splits)
qed


lemma ia_join: "push_bit 48 (ucast (ucast (drop_bit 48 ia) :: u16)) OR take_bit 48 ia = (ia :: u64)"
  by (rule bit_word_eqI) (auto simp: bit_simps)

lemma IA_AS_inRange [simp]: "AS_inRange (IA_AS ia)"
  by (simp add: IA_AS_def AS_inRange_iff and_MaxAS)

lemma MustIAFrom_parts [simp]: "MustIAFrom (IA_ISD ia) (IA_AS ia) = Inr ia"
  by (simp add: MustIAFrom_def IAFrom_def IA_AS_def IA_ISD_def and_MaxAS ASBits_def ia_join
    AS_inRange_iff)

lemma ParseISD_fmt [simp]: "ParseISD (FormatUint (unat isd) 10) = Inr isd"
proof -
  have "ParseUint (FormatUint (unat isd) 10) 10 16 = Inr (unat isd)"
    using unsigned_less [of isd] by (intro ParseUint_FormatUint) auto
  then show ?thesis by (simp add: ParseISD_def ISDBits_def)
qed

lemma dash_not_hex: "CHR ''-'' \<notin> hex_chars"
proof
  have none: "digit_val (CHR ''-'') = None" by (simp add: digit_val_def)
  assume "CHR ''-'' \<in> hex_chars"
  then obtain d where "d < 16" "CHR ''-'' = digit_char d" by (auto simp: hex_chars_def)
  with digit_val_digit_char [of d] none show False by simp
qed

lemma sep_ok_colon: "sep_ok '':''"
  by (simp add: sep_ok_def digit_val_def)

lemma fmtAS_chars: "AS_inRange as \<Longrightarrow> set (fmtAS as sep) \<subseteq> hex_chars \<union> set sep"
  using FormatUint_chars [of 16] FormatUint_chars [of 10]
  by (auto simp: fmtAS_def asPartBase_def split: if_splits)

lemma split_dash:
  assumes "CHR ''-'' \<notin> set s" "CHR ''-'' \<notin> set t"
  shows "strings_Split (s @ ''-'' @ t) ''-'' = [s, t]"
  using assms split_on_sep [of "''-''" s "[]" t] split_on_none [of "''-''" t "[]"]
  by (simp add: strings_Split_def)

lemma dash_fmt [simp]: "base = 10 \<or> base = 16 \<Longrightarrow> CHR ''-'' \<notin> set (FormatUint n base)"
  using FormatUint_chars [of base n] dash_not_hex by auto

lemma dash_fmtAS: "AS_inRange as \<Longrightarrow> CHR ''-'' \<notin> set sep \<Longrightarrow> CHR ''-'' \<notin> set (fmtAS as sep)"
  using fmtAS_chars [of as sep] dash_not_hex by auto

lemma ParseFormatted_parts:
  assumes "sep_ok (separator (applyFormatOptions opts))"
  shows "ParseFormattedISD (FormatISD isd opts) opts = Inr isd"
    "AS_inRange as \<Longrightarrow> ParseFormattedAS (FormatAS as opts) opts = Inr as"
  using assms
  by (auto simp: ParseFormattedISD_def FormatISD_def ParseFormattedAS_def FormatAS_def Let_def
    TrimPrefix_def parseAS_fmtAS)

lemma FormatIA_parts: "FormatIA ia opts = FormatISD (IA_ISD ia) opts @ ''-'' @ FormatAS (IA_AS ia) opts"
  by (simp add: FormatIA_def FormatISD_def FormatAS_def Let_def)

text \<open>Claim C33. Printing an ISD-AS number and parsing the text gives the number back, for every 64-bit
  value; with formatting options it does so when the separator is not empty, has no character that
  can be a digit and is not mistaken for the dash between ISD and AS.\<close>

theorem IA_text_roundtrip:
  "ParseIA (IA_String ia) = Inr ia \<and>
   (sep_ok (separator (applyFormatOptions opts)) \<and> CHR ''-'' \<notin> set (separator (applyFormatOptions opts)) \<longrightarrow>
     ParseFormattedIA (FormatIA ia opts) opts = Inr ia)"
proof (intro conjI impI)
  have "strings_Split (IA_String ia) ''-'' = [FormatUint (unat (IA_ISD ia)) 10, AS_String (IA_AS ia)]"
    unfolding IA_String_def by (intro split_dash) (auto simp: AS_String_def dash_fmtAS)
  then show "ParseIA (IA_String ia) = Inr ia"
    by (simp add: ParseIA_def ParseAS_def AS_String_def parseAS_fmtAS sep_ok_colon)
next
  let ?sep = "separator (applyFormatOptions opts)"
  assume s: "sep_ok ?sep \<and> CHR ''-'' \<notin> set ?sep"
  have "strings_Split (FormatIA ia opts) ''-'' = [FormatISD (IA_ISD ia) opts, FormatAS (IA_AS ia) opts]"
    unfolding FormatIA_parts using s
    by (intro split_dash) (auto simp: FormatISD_def FormatAS_def Let_def dash_fmtAS)
  then show "ParseFormattedIA (FormatIA ia opts) opts = Inr ia"
    using s by (simp add: ParseFormattedIA_def ParseFormatted_parts)
qed

theorem IA_text_roundtrip_witness:
  "ParseFormattedIA (FormatIA 0x0001ff0000000110 [WithDefaultPrefix, WithFileSeparator])
     [WithDefaultPrefix, WithFileSeparator] = Inr 0x0001ff0000000110"
proof -
  have "separator (applyFormatOptions [WithDefaultPrefix, WithFileSeparator]) = ''_''"
    by (simp add: applyFormatOptions_def WithDefaultPrefix_def WithFileSeparator_def WithSeparator_def)
  then show ?thesis
    using IA_text_roundtrip [of "0x0001ff0000000110" "[WithDefaultPrefix, WithFileSeparator]"]
    by (simp add: sep_ok_def digit_val_def)
qed

lemma MustIAFrom_ok: "AS_inRange as \<Longrightarrow> \<exists>ia. MustIAFrom isd as = Inr ia"
  by (simp add: MustIAFrom_def IAFrom_def)

lemma ParseUint_no_panic: "ParseUint s base bits = Inl e \<Longrightarrow> \<exists>m. e = Err m"
proof -
  have "parse_digits base m n cs = Inl e \<Longrightarrow> \<exists>m. e = Err m" for m n cs
    by (induction cs arbitrary: n) (auto split: option.splits if_splits)
  then show "ParseUint s base bits = Inl e \<Longrightarrow> \<exists>m. e = Err m"
    by (auto simp: ParseUint_def split: if_splits)
qed

lemma parseAS_soft: "parseAS s sep = Inl e \<Longrightarrow> soft_error e"
proof -
  have "parse_parts ps x = Inl e \<Longrightarrow> soft_error e" for ps x
    by (induction ps arbitrary: x) (auto simp: res_simps wrap_err_Inl)
  then show "parseAS s sep = Inl e \<Longrightarrow> soft_error e"
    by (auto simp: parseAS_def asParseBGP_def res_simps wrap_err_Inl Let_def split: if_splits)
qed

lemma parse_pair_safe:
  assumes "\<And>e. p = Inl e \<Longrightarrow> soft_error e" "\<And>e. q = Inl e \<Longrightarrow> soft_error e"
    "\<And>as. q = Inr as \<Longrightarrow> AS_inRange as"
  shows "\<not> is_panic (rbind p (\<lambda>isd. rbind q (\<lambda>as. MustIAFrom isd as)))"
  using assms MustIAFrom_ok by (cases p; cases q) (auto simp: is_panic_iff, metis Inl_Inr_False)

text \<open>No text makes the ISD-AS parsers panic, although they end in \<open>MustIAFrom\<close>, which
  panics exactly on an AS number of more than 48 bits; and a number assembled from parts in range
  has those parts.\<close>

lemma ParseIA_safe:
  "\<not> is_panic (ParseIA s) \<and> \<not> is_panic (ParseFormattedIA s opts) \<and>
   (is_panic (MustIAFrom isd as) \<longleftrightarrow> MaxAS < as) \<and>
   (as \<le> MaxAS \<longrightarrow> (\<exists>ia. IAFrom isd as = Inr ia \<and> IA_ISD ia = isd \<and> IA_AS ia = as))"
proof (intro conjI impI)
  have isd: "ParseISD t = Inl e \<Longrightarrow> soft_error e" for t e
    by (auto simp: ParseISD_def res_simps wrap_err_Inl)
  show "\<not> is_panic (ParseIA s)"
    using parse_pair_safe [OF isd parseAS_soft parseAS_inRange]
    by (auto simp: ParseIA_def ParseAS_def split: list.split)
  have "\<not> is_panic (rbind (wrap_err m q) (\<lambda>isd.
      rbind (wrap_err m' (ParseFormattedAS t opts)) (\<lambda>as. MustIAFrom isd as)))" for m q m' t
    using parseAS_inRange
    by (intro parse_pair_safe) (auto simp: wrap_err_Inl ParseFormattedAS_def Let_def split: if_splits)
  then show "\<not> is_panic (ParseFormattedIA s opts)"
    by (auto simp: ParseFormattedIA_def split: list.split)
  show "is_panic (MustIAFrom isd as) \<longleftrightarrow> MaxAS < as"
    by (auto simp: MustIAFrom_def IAFrom_def AS_inRange_def)
next
  assume "as \<le> MaxAS"
  then have r: "AS_inRange as" by (simp add: AS_inRange_def)
  let ?ia = "push_bit 48 (ucast isd) OR take_bit 48 as :: u64"
  have "ucast (drop_bit 48 ?ia) = isd" "take_bit 48 ?ia = take_bit 48 as"
    by (rule bit_word_eqI; auto simp: bit_simps dest: bit_imp_le_length)+
  with r show "\<exists>ia. IAFrom isd as = Inr ia \<and> IA_ISD ia = isd \<and> IA_AS ia = as"
    by (simp add: IAFrom_def IA_ISD_def IA_AS_def and_MaxAS ASBits_def AS_inRange_iff)
qed

lemma ParseIA_safe_example:
  "\<exists>ia. IAFrom 1 0xff0000000110 = Inr ia \<and> IA_ISD ia = 1 \<and> IA_AS ia = 0xff0000000110"
  using ParseIA_safe [of "[]" "[]" 1 "0xff0000000110"] by (simp add: as_consts)

section \<open>Host addresses: raw form and names\<close>

text \<open>The lengths the wire form relies on: an IPv4 address in its four-byte form.\<close>

fun host_wf :: "host_addr \<Rightarrow> bool" where
  "host_wf (HostIPv4 h) = (length h = HostLenIPv4)"
| "host_wf (HostIPv6 h) = (length h = HostLenIPv6)"
| "host_wf _ = True"

lemma Uint16_append: "length xs = 2 \<Longrightarrow> Uint16 (xs @ ys) = Uint16 xs"
  by (simp add: Uint16_def nth_append)

text \<open>A host address packs into as many bytes as its type says, and is recovered from them
  whatever follows; \<open>HostFromRaw\<close> refuses exactly the unknown types and the buffers too short
  for the type.\<close>

lemma HostFromRaw_Pack:
  assumes "host_wf h"
  shows "\<exists>b. Host_Pack h = Inr b \<and> length b = Host_Size h \<and>
       HostLen (Host_Type h) = Inr (of_nat (length b)) \<and> HostFromRaw (b @ ys) (Host_Type h) = Inr h \<and>
       (length c < Host_Size h \<longrightarrow> (\<exists>m. HostFromRaw c (Host_Type h) = Inl (Err m)))"
proof (cases h)
  case HostNone
  then show ?thesis by (simp add: HostFromRaw_def host_consts HostLen_def)
next
  case (HostIPv4 x)
  with assms have "length x = 4" by (simp add: host_consts)
  with HostIPv4 show ?thesis
    by (auto simp: HostFromRaw_def host_consts HostLen_def To4_def slice_def)
next
  case (HostIPv6 x)
  with assms have "length x = 16" by (simp add: host_consts)
  with HostIPv6 show ?thesis
    by (auto simp: HostFromRaw_def host_consts HostLen_def slice_def)
next
  case (HostSVC x)
  then show ?thesis
    by (auto simp: HostFromRaw_def host_consts HostLen_def put_at_0 Uint16_append)
qed

lemma HostFromRaw_Pack_example:
  "\<exists>b. Host_Pack (HostIPv4 [10, 0, 0, 1]) = Inr b \<and> length b = 4 \<and>
     HostFromRaw (b @ [7]) HostTypeIPv4 = Inr (HostIPv4 [10, 0, 0, 1])"
  using HostFromRaw_Pack [of "HostIPv4 [10, 0, 0, 1]" "[7]"] by (auto simp: host_consts)

definition svc_name :: "u16 \<Rightarrow> string" where
  "svc_name h = SVC_BaseString h @ (if SVC_IsMulticast h then ''_M'' else ''_A'')"

lemma bit_SVCMcast: "bit SVCMcast n \<longleftrightarrow> n = 15"
proof -
  have "SVCMcast = push_bit 15 1" by (simp add: SVCMcast_def)
  also have "bit (push_bit 15 (1 :: u16)) n \<longleftrightarrow> n = 15"
    by (subst bit_push_bit_iff) (auto simp: bit_1_iff)
  finally show ?thesis .
qed

lemma mcast_cases:
  "h = SVC_Base h \<and> \<not> SVC_IsMulticast h \<or> h = SVC_Base h OR SVCMcast \<and> SVC_IsMulticast h"
proof (cases "bit h 15")
  case True
  then have "h = (h AND NOT SVCMcast) OR SVCMcast"
    by (intro bit_word_eqI) (auto simp: bit_simps bit_SVCMcast)
  moreover have "bit (h AND SVCMcast) 15"
    using True by (simp add: bit_and_iff bit_SVCMcast)
  then have "h AND SVCMcast \<noteq> 0" by auto
  ultimately show ?thesis by (simp add: SVC_Base_def SVC_IsMulticast_def)
next
  case False
  then have "h = h AND NOT SVCMcast" "h AND SVCMcast = 0"
    by (intro bit_word_eqI; auto simp: bit_simps bit_SVCMcast)+
  then show ?thesis by (simp add: SVC_Base_def SVC_IsMulticast_def)
qed

text \<open>The name of a service with its anycast or multicast suffix is parsed back to the service
  address for the control, discovery and wildcard services, and to \<open>SvcNone\<close> for the COLIBRI
  service, which has a printed name but none \<open>HostSVCFromString\<close> knows.\<close>

lemma HostSVC_names:
  "(SVC_Base h \<in> {SvcDS, SvcCS, SvcWildcard} \<longrightarrow> HostSVCFromString (svc_name h) = h) \<and>
   (SVC_Base h = SvcCOL \<longrightarrow> SVC_BaseString h = ''COL'' \<and> HostSVCFromString (svc_name h) = SvcNone)"
  using mcast_cases [of h]
  by (auto simp: svc_name_def HostSVCFromString_def HasSuffix_def TrimSuffix_def SVC_BaseString_def
    svc_consts Let_def)

lemma HostSVC_names_example:
  "SVC_Base 0x8002 = SvcCS \<and> HostSVCFromString (svc_name 0x8002) = 0x8002 \<and>
   HostSVCFromString (svc_name SvcCOL) = SvcNone"
  using HostSVC_names [of "0x8002"] HostSVC_names [of SvcCOL] by (simp add: SVC_Base_def svc_consts)

end
