(* ===== verification/Scion_Header.thy ===== *)
theory Scion_Header
  imports Addr
begin

unbundle bit_operations_syntax

text \<open>
  The SCION header as a struct and the host addresses in it (go/lib/slayers/scion/scion.go), and the
  endpoints a COLIBRI path carries (go/lib/slayers/path/colibri/addr/addr.go). \<open>net.Addr\<close> is a
  datatype with one constructor per dynamic type the code distinguishes.
\<close>

section \<open>Addresses of the Go library\<close>

datatype net_addr =
    IPAddr bytes
  | UDPAddr bytes nat
  | TCPAddr bytes nat
  | IPNet bytes bytes
  | SVCAddr u16
  | OtherAddr

text \<open>\<open>net.IP.To16\<close>; \<open>nil\<close> is the empty slice.\<close>

definition To16 :: "bytes \<Rightarrow> bytes" where
  "To16 ip = (if length ip = 4 then v4InV6Prefix @ ip else if length ip = 16 then ip else [])"

section \<open>The header\<close>

definition AddrLen4 :: u8 where "AddrLen4 = 0"
definition AddrLen8 :: u8 where "AddrLen8 = 1"
definition AddrLen12 :: u8 where "AddrLen12 = 2"
definition AddrLen16 :: u8 where "AddrLen16 = 3"
definition T4Ip :: u8 where "T4Ip = 0"
definition T4Svc :: u8 where "T4Svc = 1"
definition T16Ip :: u8 where "T16Ip = 0"

lemmas addr_consts = AddrLen4_def AddrLen8_def AddrLen12_def AddrLen16_def T4Ip_def T4Svc_def T16Ip_def

record header =
  Version :: u8
  TrafficClass :: u8
  FlowID :: u32
  NextHdr :: u8
  HdrLen :: u8
  PayloadLen :: u16
  DstAddrType :: u8
  DstAddrLen :: u8
  SrcAddrType :: u8
  SrcAddrLen :: u8
  DstIA :: u64
  SrcIA :: u64
  RawDstAddr :: bytes
  RawSrcAddr :: bytes

definition parseAddr :: "u8 \<Rightarrow> u8 \<Rightarrow> bytes \<Rightarrow> net_addr res" where
  "parseAddr addrType addrLen raw =
     (if addrLen = AddrLen4 \<and> addrType = T4Ip then Inr (IPAddr raw)
      else if addrLen = AddrLen4 \<and> addrType = T4Svc
      then rbind (gslice 0 HostLenSVC raw) (\<lambda>w. Inr (SVCAddr (Uint16 w)))
      else if addrLen = AddrLen16 \<and> addrType = T16Ip then Inr (IPAddr raw)
      else Inl (Err ''unsupported address type/length combination''))"

definition packAddr :: "net_addr \<Rightarrow> (u8 \<times> u8 \<times> bytes) res" where
  "packAddr hostAddr = (case hostAddr of
       IPAddr ip \<Rightarrow> (case To4 ip of
           Some ip4 \<Rightarrow> Inr (AddrLen4, T4Ip, ip4)
         | None \<Rightarrow> Inr (AddrLen16, T16Ip, ip))
     | SVCAddr a \<Rightarrow> Inr (AddrLen4, T4Svc, SVC_PackWithPad a 2)
     | _ \<Rightarrow> Inl (Err ''unsupported address''))"

definition DstAddr :: "'a header_scheme \<Rightarrow> net_addr res" where
  "DstAddr s = parseAddr (DstAddrType s) (DstAddrLen s) (RawDstAddr s)"

definition SrcAddr :: "'a header_scheme \<Rightarrow> net_addr res" where
  "SrcAddr s = parseAddr (SrcAddrType s) (SrcAddrLen s) (RawSrcAddr s)"

text \<open>The setters assign the results of \<open>packAddr\<close> before they return its error, so a failure
  leaves the zero address behind.\<close>

definition SetDstAddr :: "'a header_scheme \<Rightarrow> net_addr \<Rightarrow> 'a header_scheme \<times> go_error option" where
  "SetDstAddr s dst = (case packAddr dst of
       Inr (l, t, raw) \<Rightarrow> (s\<lparr>DstAddrLen := l, DstAddrType := t, RawDstAddr := raw\<rparr>, None)
     | Inl e \<Rightarrow> (s\<lparr>DstAddrLen := 0, DstAddrType := 0, RawDstAddr := []\<rparr>, Some e))"

definition SetSrcAddr :: "'a header_scheme \<Rightarrow> net_addr \<Rightarrow> 'a header_scheme \<times> go_error option" where
  "SetSrcAddr s src = (case packAddr src of
       Inr (l, t, raw) \<Rightarrow> (s\<lparr>SrcAddrLen := l, SrcAddrType := t, RawSrcAddr := raw\<rparr>, None)
     | Inl e \<Rightarrow> (s\<lparr>SrcAddrLen := 0, SrcAddrType := 0, RawSrcAddr := []\<rparr>, Some e))"

section \<open>COLIBRI endpoints\<close>

record endpoint =
  EpIA :: u64
  host :: bytes
  hostType :: u8
  hostLen :: u8

definition NewEndpointWithIP :: "u64 \<Rightarrow> bytes \<Rightarrow> endpoint" where
  "NewEndpointWithIP ia ip = (case To4 ip of
       Some ip4 \<Rightarrow> \<lparr>EpIA = ia, host = ip4, hostType = T4Ip, hostLen = AddrLen4\<rparr>
     | None \<Rightarrow> \<lparr>EpIA = ia, host = To16 ip, hostType = T16Ip, hostLen = AddrLen16\<rparr>)"

definition NewEndpointWithAddr :: "u64 \<Rightarrow> net_addr \<Rightarrow> endpoint res" where
  "NewEndpointWithAddr ia hostAddr = (case hostAddr of
       SVCAddr a \<Rightarrow> Inr \<lparr>EpIA = ia, host = SVC_PackWithPad a 2, hostType = T4Svc, hostLen = AddrLen4\<rparr>
     | UDPAddr ip _ \<Rightarrow> Inr (NewEndpointWithIP ia ip)
     | TCPAddr ip _ \<Rightarrow> Inr (NewEndpointWithIP ia ip)
     | IPAddr ip \<Rightarrow> Inr (NewEndpointWithIP ia ip)
     | IPNet ip _ \<Rightarrow> Inr (NewEndpointWithIP ia ip)
     | OtherAddr \<Rightarrow> Inl (Panic ''unsupported type''))"

definition NewEndpointWithRaw :: "u64 \<Rightarrow> bytes \<Rightarrow> u8 \<Rightarrow> u8 \<Rightarrow> endpoint" where
  "NewEndpointWithRaw ia h t l = \<lparr>EpIA = ia, host = h, hostType = t, hostLen = l\<rparr>"

definition Endpoint_Addr :: "endpoint \<Rightarrow> u64 \<times> net_addr res" where
  "Endpoint_Addr ep = (EpIA ep, parseAddr (hostType ep) (hostLen ep) (host ep))"

text \<open>Methods with a nil case take \<open>endpoint option\<close>.\<close>

definition HostAsRaw :: "endpoint option \<Rightarrow> bytes \<times> u8 \<times> u8" where
  "HostAsRaw ep = (case ep of None \<Rightarrow> ([], 0, 0) | Some e \<Rightarrow> (host e, hostType e, hostLen e))"

definition Endpoint_Len :: "endpoint option \<Rightarrow> u8" where
  "Endpoint_Len ep = (case ep of None \<Rightarrow> 1 | Some e \<Rightarrow> 1 + 10 + 4 * (hostLen e + 1))"

definition Endpoint_SerializeTo :: "endpoint option \<Rightarrow> bytes \<Rightarrow> bytes res" where
  "Endpoint_SerializeTo ep buff =
     (if buff = [] then Inl (Panic ''index out of range'')
      else let buff = buff[0 := Endpoint_Len ep - 1] in
       (case ep of
          None \<Rightarrow> Inr buff
        | Some e \<Rightarrow>
            if length buff < 11 then Inl (Panic ''index out of range'')
            else let
              buff = put_at 1 (PutUint64 (EpIA e)) buff;
              buff = buff[9 := hostLen e];
              buff = buff[10 := hostType e]
            in Inr (take 11 buff @ go_copy (drop 11 buff) (host e))))"

definition Endpoint_Clone :: "endpoint \<Rightarrow> endpoint" where
  "Endpoint_Clone ep = \<lparr>EpIA = EpIA ep, host = [] @ host ep, hostType = hostType ep, hostLen = hostLen ep\<rparr>"

definition NewEndpointFromSerialized :: "bytes \<Rightarrow> endpoint option res" where
  "NewEndpointFromSerialized buff =
     (if buff = [] then Inl (Panic ''index out of range'')
      else if buff ! 0 = 0 then Inr None
      else if length buff < 11 then Inl (Panic ''index out of range'')
      else let l = unat ((buff ! 9 + 1) * 4) in
        rbind (gslice 11 (11 + l) buff) (\<lambda>w.
        Inr (Some \<lparr>EpIA = Uint64 (drop 1 buff), host = w, hostType = buff ! 10, hostLen = buff ! 9\<rparr>)))"

section \<open>Packing host addresses\<close>

text \<open>IP addresses of the two lengths there are, in their shortest form.\<close>

definition ip_norm :: "bytes \<Rightarrow> bytes" where
  "ip_norm ip = (case To4 ip of Some ip4 \<Rightarrow> ip4 | None \<Rightarrow> ip)"

lemma To4_Some_len: "To4 ip = Some x \<Longrightarrow> length x = 4"
  by (auto simp: To4_def split: if_splits)

lemma SVC_PackWithPad_2: "SVC_PackWithPad a 2 = PutUint16 a @ [0, 0]"
  by (simp add: SVC_PackWithPad_def host_consts put_at_0 eval_nat_numeral)

text \<open>Setting an IP or service address of a header and reading it back gives the address (an
  IP address in its shortest form), and the length field then says how many bytes the raw address
  has; an address of any other kind is refused and leaves the zero address.\<close>

lemma SetDstAddr_DstAddr:
  "(length ip \<in> {4, 16} \<longrightarrow> (\<exists>s'. SetDstAddr s (IPAddr ip) = (s', None) \<and>
      DstAddr s' = Inr (IPAddr (ip_norm ip)) \<and> length (RawDstAddr s') = 4 * (unat (DstAddrLen s') + 1))) \<and>
   (\<exists>s'. SetDstAddr s (SVCAddr svc) = (s', None) \<and> DstAddr s' = Inr (SVCAddr svc) \<and>
      length (RawDstAddr s') = 4 * (unat (DstAddrLen s') + 1)) \<and>
   (\<exists>s' e. SetDstAddr s OtherAddr = (s', Some e) \<and> RawDstAddr s' = [])"
proof (intro conjI impI)
  assume "length ip \<in> {4, 16}"
  then show "\<exists>s'. SetDstAddr s (IPAddr ip) = (s', None) \<and>
      DstAddr s' = Inr (IPAddr (ip_norm ip)) \<and> length (RawDstAddr s') = 4 * (unat (DstAddrLen s') + 1)"
    using To4_Some_len [of ip]
    by (cases "To4 ip") (auto simp: SetDstAddr_def packAddr_def DstAddr_def parseAddr_def addr_consts
      ip_norm_def, auto simp: To4_def)
next
  have "slice 0 2 (PutUint16 svc @ [0, 0]) = PutUint16 svc" by (simp add: slice_def)
  then show "\<exists>s'. SetDstAddr s (SVCAddr svc) = (s', None) \<and> DstAddr s' = Inr (SVCAddr svc) \<and>
      length (RawDstAddr s') = 4 * (unat (DstAddrLen s') + 1)"
    by (simp add: SetDstAddr_def packAddr_def DstAddr_def parseAddr_def addr_consts SVC_PackWithPad_2
      HostLenSVC_def)
qed (simp add: SetDstAddr_def packAddr_def)

lemma SetDstAddr_DstAddr_example:
  "\<exists>s'. SetDstAddr \<lparr>Version = 0, TrafficClass = 0, FlowID = 1, NextHdr = 17, HdrLen = 0, PayloadLen = 0,
       DstAddrType = 3, DstAddrLen = 3, SrcAddrType = 0, SrcAddrLen = 0, DstIA = 0, SrcIA = 0,
       RawDstAddr = [], RawSrcAddr = []\<rparr> (IPAddr (v4InV6Prefix @ [10, 0, 0, 1])) = (s', None) \<and>
     DstAddr s' = Inr (IPAddr [10, 0, 0, 1])"
proof -
  have "length (v4InV6Prefix @ [10, 0, 0, 1]) \<in> {4, 16}"
    "ip_norm (v4InV6Prefix @ [10, 0, 0, 1]) = [10, 0, 0, 1]"
    by (simp_all add: v4InV6Prefix_def ip_norm_def To4_def slice_def numeral_eq_Suc)
  then show ?thesis
    using SetDstAddr_DstAddr [of "v4InV6Prefix @ [10, 0, 0, 1]"] by fastforce
qed

section \<open>Endpoints as bytes\<close>

text \<open>An endpoint whose host has the length its length field says, one of the four wire lengths.\<close>

definition endpoint_wf :: "endpoint \<Rightarrow> bool" where
  "endpoint_wf ep \<longleftrightarrow> hostLen ep < 4 \<and> length (host ep) = 4 * (unat (hostLen ep) + 1)"

definition endpoint_bytes :: "endpoint option \<Rightarrow> bytes" where
  "endpoint_bytes ep = (case ep of
       None \<Rightarrow> [0]
     | Some e \<Rightarrow> (Endpoint_Len ep - 1) # PutUint64 (EpIA e) @ [hostLen e, hostType e] @ host e)"

lemma u8_less_4_cases: "(x :: u8) < 4 \<Longrightarrow> x = 0 \<or> x = 1 \<or> x = 2 \<or> x = 3"
proof -
  assume "x < 4"
  then have "unat x < 4" by (simp add: word_less_nat_alt)
  then have "unat x \<in> {0, 1, 2, 3}" by auto
  then have "word_of_nat (unat x) \<in> (word_of_nat ` {0, 1, 2, 3} :: u8 set)" by (rule imageI)
  then show ?thesis by simp
qed

lemma Endpoint_Len_bytes:
  assumes "\<And>e. ep = Some e \<Longrightarrow> endpoint_wf e"
  shows "length (endpoint_bytes ep) = unat (Endpoint_Len ep)"
proof (cases ep)
  case (Some e)
  with assms have "endpoint_wf e" by simp
  then show ?thesis
    using u8_less_4_cases [of "hostLen e"]
    by (auto simp: Some endpoint_bytes_def Endpoint_Len_def endpoint_wf_def)
qed (simp add: endpoint_bytes_def Endpoint_Len_def)

lemma length_ge_Cons: "Suc n \<le> length b \<Longrightarrow> \<exists>x xs. b = x # xs \<and> n \<le> length xs"
  by (cases b) auto

lemma Endpoint_SerializeTo_ok:
  assumes "length (endpoint_bytes ep) \<le> length b"
  shows "Endpoint_SerializeTo ep b = Inr (put_at 0 (endpoint_bytes ep) b)"
proof (cases ep)
  case None
  with assms show ?thesis
    by (cases b) (auto simp: Endpoint_SerializeTo_def endpoint_bytes_def Endpoint_Len_def put_at_def)
next
  case (Some e)
  then have l: "11 + length (host e) \<le> length b" using assms by (simp add: endpoint_bytes_def)
  then obtain xs ys where b: "b = xs @ ys" "length xs = 11"
    by (metis append_take_drop_id add_leD1 length_take min_absorb2)
  then have "length (host e) \<le> length ys" using l by simp
  then show ?thesis
    using b(2)
    by (auto simp: Some b(1) Endpoint_SerializeTo_def endpoint_bytes_def Let_def put_at_def go_copy_def
      length_Suc_conv numeral_eq_Suc PutUint64_def)
qed

lemma Uint64_append: "length xs = 8 \<Longrightarrow> Uint64 (xs @ ys) = Uint64 xs"
  by (simp add: Uint64_def nth_append)

lemma NewEndpointFromSerialized_bytes:
  assumes "\<And>e. ep = Some e \<Longrightarrow> endpoint_wf e"
  shows "NewEndpointFromSerialized (endpoint_bytes ep @ ys) = Inr ep"
proof (cases ep)
  case None
  then show ?thesis by (simp add: endpoint_bytes_def NewEndpointFromSerialized_def)
next
  case (Some e)
  with assms have wf: "endpoint_wf e" by simp
  let ?b = "endpoint_bytes ep @ ys"
  have nz: "Endpoint_Len ep - 1 \<noteq> 0" "unat ((hostLen e + 1) * 4) = length (host e)"
    using wf u8_less_4_cases [of "hostLen e"]
    by (auto simp: Some Endpoint_Len_def endpoint_wf_def)
  have "?b ! 0 = Endpoint_Len ep - 1" "?b ! 9 = hostLen e" "?b ! 10 = hostType e"
    "11 + length (host e) \<le> length ?b" "slice 11 (11 + length (host e)) ?b = host e"
    "Uint64 (drop 1 ?b) = EpIA e"
    by (simp_all add: Some endpoint_bytes_def nth_append slice_def Uint64_append)
  with nz show ?thesis
    by (cases e) (auto simp: NewEndpointFromSerialized_def Some)
qed

end
