(* ===== verification/Colibri_Path.thy ===== *)
theory Colibri_Path
  imports Wire Scion_Header
begin

unbundle bit_operations_syntax

text \<open>
  The COLIBRI path type (go/lib/slayers/path/colibri): info and hop fields, the full path and the
  minimal path the border router works on, which keeps the raw bytes and decodes only the current
  hop field. Pointer fields that may be nil are options; the elements of \<open>HopFields\<close> and the
  receivers of methods are not nil. A nil slice is the empty list. Logging is left out.
\<close>

section \<open>Info fields (infofield.go)\<close>

definition LenInfoField :: nat where "LenInfoField = 24"
definition LenSuffix :: nat where "LenSuffix = 12"

record col_info =
  ColC :: bool
  ColR :: bool
  ColS :: bool
  ColVer :: u8
  ColCurrHF :: u8
  HFCount :: u8
  ResIdSuffix :: bytes
  ExpTick :: u32
  BwCls :: u8
  Rlc :: u8
  OrigPayLen :: u16

definition ColInfo_DecodeFromBytes :: "bytes \<Rightarrow> col_info res" where
  "ColInfo_DecodeFromBytes b =
     (if length b < LenInfoField then Inl (Err ''raw colibri info field buffer too small'')
      else let flags = b ! 0 in
       Inr \<lparr>ColC = (flags AND push_bit 7 1 \<noteq> 0),
            ColR = (flags AND push_bit 6 1 \<noteq> 0),
            ColS = (flags AND push_bit 5 1 \<noteq> 0),
            ColVer = b ! 1 AND 0x0f,
            ColCurrHF = b ! 2,
            HFCount = b ! 3,
            ResIdSuffix = go_copy (replicate LenSuffix 0) (slice 4 16 b),
            ExpTick = Uint32 (slice 16 20 b),
            BwCls = b ! 20,
            Rlc = b ! 21,
            OrigPayLen = Uint16 (slice 22 24 b)\<rparr>)"

definition ColInfo_flags :: "col_info \<Rightarrow> u8" where
  "ColInfo_flags info =
     (if ColC info then push_bit 7 1 else 0) + (if ColR info then push_bit 6 1 else 0) +
     (if ColS info then push_bit 5 1 else 0)"

definition ColInfo_SerializeTo :: "col_info option \<Rightarrow> bytes \<Rightarrow> bytes res" where
  "ColInfo_SerializeTo inf' b = (case inf' of
       None \<Rightarrow> Inl (Err ''colibri info field must not be nil'')
     | Some info \<Rightarrow>
         if length b < LenInfoField then Inl (Err ''raw colibri info field buffer too small'')
         else if length (ResIdSuffix info) \<noteq> LenSuffix
         then Inl (Err ''colibri ResIdSuffix must be 12 bytes long'')
         else let
           b = b[0 := ColInfo_flags info];
           b = b[1 := ColVer info AND 0x0f];
           b = b[2 := ColCurrHF info];
           b = b[3 := HFCount info];
           b = put_at 4 (ResIdSuffix info) b;
           b = put_at 16 (PutUint32 (ExpTick info)) b;
           b = b[20 := BwCls info];
           b = b[21 := Rlc info];
           b = put_at 22 (PutUint16 (OrigPayLen info)) b
         in Inr b)"

definition ColInfo_Clone :: "col_info \<Rightarrow> col_info" where
  "ColInfo_Clone info =
     info\<lparr>ResIdSuffix := go_copy (replicate (length (ResIdSuffix info)) 0) (ResIdSuffix info)\<rparr>"

section \<open>Hop fields (hopfield.go)\<close>

definition LenHopField :: nat where "LenHopField = 8"

record col_hop =
  IngressId :: u16
  EgressId :: u16
  ColMac :: bytes

definition ColHop_DecodeFromBytes :: "bytes \<Rightarrow> col_hop res" where
  "ColHop_DecodeFromBytes b =
     (if length b < LenHopField then Inl (Err ''raw colibri hop field buffer too small'')
      else Inr \<lparr>IngressId = Uint16 (slice 0 2 b), EgressId = Uint16 (slice 2 4 b),
                ColMac = go_copy (replicate 4 0) (slice 4 8 b)\<rparr>)"

definition ColHop_SerializeTo :: "col_hop \<Rightarrow> bytes \<Rightarrow> bytes res" where
  "ColHop_SerializeTo hf b =
     (if length b < LenHopField then Inl (Err ''raw colibri hop field buffer too small'')
      else if length (ColMac hf) \<noteq> 4 then Inl (Err ''colibri mac must be 4 bytes long'')
      else let
        b = put_at 0 (PutUint16 (IngressId hf)) b;
        b = put_at 2 (PutUint16 (EgressId hf)) b;
        b = put_at 4 (ColMac hf) b
      in Inr b)"

definition ColHop_Clone :: "col_hop \<Rightarrow> col_hop" where
  "ColHop_Clone hf = \<lparr>IngressId = IngressId hf, EgressId = EgressId hf,
     ColMac = go_copy (replicate 4 0) (ColMac hf)\<rparr>"

definition SwapInEg :: "col_hop \<Rightarrow> col_hop" where
  "SwapInEg hf = hf\<lparr>IngressId := EgressId hf, EgressId := IngressId hf\<rparr>"

section \<open>Full paths (colibri.go)\<close>

definition LenMinColibri :: nat where "LenMinColibri = 8 + LenInfoField + 2 * LenHopField"

record colibri_path =
  PacketTimestamp :: bytes
  ColInfoField :: "col_info option"
  ColHopFields :: "col_hop list"
  ColSrc :: "endpoint option"
  ColDst :: "endpoint option"

definition ColibriPath_GetInfoField :: "colibri_path \<Rightarrow> col_info option" where
  "ColibriPath_GetInfoField c = ColInfoField c"

definition ColibriPath_GetCurrentHopField :: "colibri_path \<Rightarrow> col_hop res" where
  "ColibriPath_GetCurrentHopField c = (case ColInfoField c of
       None \<Rightarrow> Inl (Panic ''nil pointer dereference'')
     | Some info \<Rightarrow>
         if unat (ColCurrHF info) < length (ColHopFields c)
         then Inr (ColHopFields c ! unat (ColCurrHF info))
         else Inl (Panic ''index out of range''))"

definition ColibriPath_Len :: "colibri_path \<Rightarrow> nat" where
  "ColibriPath_Len c = 8 + LenInfoField + length (ColHopFields c) * LenHopField"

definition ColibriPath_SerializeTo :: "colibri_path \<Rightarrow> bytes \<Rightarrow> bytes res" where
  "ColibriPath_SerializeTo c b =
     (if ColInfoField c = None then Inl (Err ''the info field must not be nil'')
      else if length b < ColibriPath_Len c then Inl (Err ''buffer for ColibriPath too short'')
      else let b = put_at 0 (go_copy (slice 0 8 b) (PacketTimestamp c)) b in
        rbind (gslice 8 (8 + LenInfoField) b) (\<lambda>w.
        rbind (ColInfo_SerializeTo (ColInfoField c) w) (\<lambda>w'.
        write_fields ColHop_SerializeTo LenHopField (ColHopFields c) (8 + LenInfoField)
          (put_at 8 w' b))))"

definition ColibriPath_SyncWithScionHeader ::
  "colibri_path \<Rightarrow> 'a header_scheme \<Rightarrow> (colibri_path \<times> 'a header_scheme) res" where
  "ColibriPath_SyncWithScionHeader c scion = (case (ColInfoField c, ColSrc c, ColDst c) of
       (Some info, Some src, Some dst) \<Rightarrow>
         let c' = (if \<not> ColR info \<and> \<not> ColC info
                   then c\<lparr>ColInfoField := Some (info\<lparr>OrigPayLen := PayloadLen scion\<rparr>)\<rparr> else c);
             (raw, t, l) = HostAsRaw (Some dst)
         in Inr (c', scion\<lparr>SrcIA := EpIA src, DstIA := EpIA dst,
              RawDstAddr := raw, DstAddrType := t, DstAddrLen := l\<rparr>)
     | (None, _, _) \<Rightarrow> Inl (Panic ''nil pointer dereference'')
     | _ \<Rightarrow> Inl (Panic ''src is nil''))"

definition ColibriPath_DecodeFromBytes :: "colibri_path \<Rightarrow> bytes \<Rightarrow> colibri_path res" where
  "ColibriPath_DecodeFromBytes c b =
     (if length b < LenMinColibri then Inl (Err ''raw colibri path too short'')
      else
       rbind (gslice 8 (8 + LenInfoField) b) (\<lambda>w.
       rbind (ColInfo_DecodeFromBytes w) (\<lambda>info.
       let nrHopFields = unat (HFCount info) in
       if 8 + LenInfoField + nrHopFields * LenHopField > length b
       then Inl (Err ''raw colibri path is smaller than what is indicated by HFCount in the info field'')
       else
        rbind (decode_fields ColHop_DecodeFromBytes LenHopField nrHopFields (8 + LenInfoField) b) (\<lambda>hops.
        Inr (c\<lparr>PacketTimestamp := slice 0 8 b, ColInfoField := Some info, ColHopFields := hops\<rparr>)))))"

definition ColibriPath_BuildFromHeader ::
  "colibri_path \<Rightarrow> bytes \<Rightarrow> 'a header_scheme \<Rightarrow> colibri_path res" where
  "ColibriPath_BuildFromHeader c b sc =
     ColibriPath_DecodeFromBytes
       (c\<lparr>ColSrc := Some (NewEndpointWithRaw (SrcIA sc) (RawSrcAddr sc) (SrcAddrType sc) (SrcAddrLen sc)),
          ColDst := Some (NewEndpointWithRaw (DstIA sc) (RawDstAddr sc) (DstAddrType sc) (DstAddrLen sc))\<rparr>) b"

text \<open>\<open>for i := 0; i < hf/2; i++\<close>: swap the two hop fields, then the interfaces of both.\<close>

definition rev_hops_step :: "nat \<Rightarrow> nat \<Rightarrow> col_hop list \<Rightarrow> col_hop list" where
  "rev_hops_step hf i hs = (let
     hs = hs[i := hs ! (hf - i - 1), hf - i - 1 := hs ! i];
     hs = hs[i := SwapInEg (hs ! i)];
     hs = hs[hf - i - 1 := SwapInEg (hs ! (hf - i - 1))]
   in hs)"

definition ColibriPath_Reverse :: "colibri_path \<Rightarrow> colibri_path res" where
  "ColibriPath_Reverse c = (case ColInfoField c of
       None \<Rightarrow> Inl (Err ''the info field must not be nil'')
     | Some info \<Rightarrow>
         if ColCurrHF info \<ge> HFCount info then Inl (Err ''CurrHF >= HFCount'')
         else let
           info = info\<lparr>ColR := \<not> ColR info\<rparr>;
           info = info\<lparr>ColCurrHF := HFCount info - ColCurrHF info - 1\<rparr>;
           hf = length (ColHopFields c);
           hops = fold (rev_hops_step hf) [0..<hf div 2] (ColHopFields c);
           hops = (if hf mod 2 = 1 then hops[hf div 2 := SwapInEg (hops ! (hf div 2))] else hops)
         in Inr (c\<lparr>ColInfoField := Some info, ColHopFields := hops, ColSrc := ColDst c, ColDst := ColSrc c\<rparr>))"

definition ColibriPath_Clone :: "colibri_path \<Rightarrow> colibri_path res" where
  "ColibriPath_Clone c = (case ColInfoField c of
       None \<Rightarrow> Inl (Panic ''nil pointer dereference'')
     | Some info \<Rightarrow> Inr \<lparr>PacketTimestamp = PacketTimestamp c, ColInfoField = Some (ColInfo_Clone info),
         ColHopFields = map ColHop_Clone (ColHopFields c), ColSrc = None, ColDst = None\<rparr>)"

section \<open>Minimal paths (colibri\_minimal.go)\<close>

record colibri_min =
  MinTimestamp :: bytes
  MinInfoField :: "col_info option"
  CurrHopField :: "col_hop option"
  MinRaw :: bytes
  MinSrc :: "endpoint option"
  MinDst :: "endpoint option"

definition ColibriPath_ToMinimal :: "colibri_path \<Rightarrow> colibri_min res" where
  "ColibriPath_ToMinimal c = (case ColInfoField c of
       None \<Rightarrow> Inl (Panic ''nil pointer dereference'')
     | Some info \<Rightarrow>
         rbind (ColibriPath_GetCurrentHopField c) (\<lambda>hop.
         rbind (ColibriPath_SerializeTo c (replicate (ColibriPath_Len c) 0)) (\<lambda>raw.
         Inr \<lparr>MinTimestamp = PacketTimestamp c, MinInfoField = Some (ColInfo_Clone info),
              CurrHopField = Some (ColHop_Clone hop), MinRaw = raw,
              MinSrc = ColSrc c, MinDst = ColDst c\<rparr>)))"

definition ColibriMin_GetInfoField :: "colibri_min \<Rightarrow> col_info option" where
  "ColibriMin_GetInfoField c = MinInfoField c"

definition ColibriMin_GetCurrentHopField :: "colibri_min \<Rightarrow> col_hop option" where
  "ColibriMin_GetCurrentHopField c = CurrHopField c"

definition ColibriMin_Len :: "colibri_min \<Rightarrow> nat" where
  "ColibriMin_Len c = (case (MinInfoField c, CurrHopField c) of
       (Some info, Some _) \<Rightarrow> 8 + LenInfoField + unat (HFCount info) * LenHopField
     | _ \<Rightarrow> 0)"

definition ColibriMin_DecodeFromBytes :: "colibri_min \<Rightarrow> bytes \<Rightarrow> colibri_min res" where
  "ColibriMin_DecodeFromBytes c b =
     (if length b < LenMinColibri then Inl (Err ''raw colibri path too short'')
      else
       rbind (gslice 8 (8 + LenInfoField) b) (\<lambda>w.
       rbind (ColInfo_DecodeFromBytes w) (\<lambda>info.
       let nrHopFields = unat (HFCount info); currHF = unat (ColCurrHF info) in
       if 8 + LenInfoField + nrHopFields * LenHopField > length b
       then Inl (Err ''raw colibri path is smaller than what is indicated by HFCount in the info field'')
       else if currHF \<ge> nrHopFields then Inl (Err ''colibri currHF >= nrHopFields'')
       else let start = 8 + LenInfoField + currHF * LenHopField in
        rbind (gslice start (start + LenHopField) b) (\<lambda>w.
        rbind (ColHop_DecodeFromBytes w) (\<lambda>hop.
        let c' = c\<lparr>MinTimestamp := slice 0 8 b, MinInfoField := Some info, CurrHopField := Some hop\<rparr> in
        rbind (gslice 0 (ColibriMin_Len c') b) (\<lambda>raw.
        Inr (c'\<lparr>MinRaw := raw\<rparr>)))))))"

definition ColibriMin_BuildFromHeader :: "colibri_min \<Rightarrow> bytes \<Rightarrow> 'a header_scheme \<Rightarrow> colibri_min res" where
  "ColibriMin_BuildFromHeader c b sc =
     ColibriMin_DecodeFromBytes
       (c\<lparr>MinSrc := Some (NewEndpointWithRaw (SrcIA sc) (RawSrcAddr sc) (SrcAddrType sc) (SrcAddrLen sc)),
          MinDst := Some (NewEndpointWithRaw (DstIA sc) (RawDstAddr sc) (DstAddrType sc) (DstAddrLen sc))\<rparr>) b"

definition SerializeToInternal :: "colibri_min \<Rightarrow> colibri_min res" where
  "SerializeToInternal c = (case (MinInfoField c, CurrHopField c) of
       (None, _) \<Rightarrow> Inl (Err ''the colibri info field must not be nil'')
     | (_, None) \<Rightarrow> Inl (Err ''the colibri hop field must not be nil'')
     | (Some info, Some _) \<Rightarrow>
         if MinRaw c = [] then Inl (Err ''internal Raw buffer must not be nil'')
         else if HFCount info < 2 then Inl (Err ''a colibri path must have at least two hop fields'')
         else if length (MinRaw c) < ColibriMin_Len c
         then Inl (Err ''internal Raw buffer for ColibriPath too short'')
         else let raw = put_at 0 (go_copy (slice 0 8 (MinRaw c)) (MinTimestamp c)) (MinRaw c) in
          rbind (gslice 8 (8 + LenInfoField) raw) (\<lambda>w.
          rbind (ColInfo_SerializeTo (Some info) w) (\<lambda>w'.
          Inr (c\<lparr>MinRaw := put_at 8 w' raw\<rparr>))))"

definition ColibriMin_SerializeTo :: "colibri_min \<Rightarrow> bytes \<Rightarrow> (colibri_min \<times> bytes) res" where
  "ColibriMin_SerializeTo c b =
     (if length b < ColibriMin_Len c then Inl (Err ''buffer for ColibriPath too short'')
      else rbind (SerializeToInternal c) (\<lambda>c.
        Inr (c, put_at 0 (slice 0 (ColibriMin_Len c) (MinRaw c)) b)))"

definition ColibriMin_SyncWithScionHeader ::
  "colibri_min \<Rightarrow> 'a header_scheme \<Rightarrow> (colibri_min \<times> 'a header_scheme) res" where
  "ColibriMin_SyncWithScionHeader c scion = (case (MinInfoField c, MinSrc c, MinDst c) of
       (Some info, Some src, Some dst) \<Rightarrow>
         let c' = (if \<not> ColR info \<and> \<not> ColC info
                   then c\<lparr>MinInfoField := Some (info\<lparr>OrigPayLen := PayloadLen scion\<rparr>)\<rparr> else c);
             (raw, t, l) = HostAsRaw (Some dst)
         in Inr (c', scion\<lparr>SrcIA := EpIA src, DstIA := EpIA dst,
              RawDstAddr := raw, DstAddrType := t, DstAddrLen := l\<rparr>)
     | (None, _, _) \<Rightarrow> Inl (Panic ''nil pointer dereference'')
     | _ \<Rightarrow> Inl (Panic ''src is nil''))"

text \<open>The two windows \<open>buff[sLen:]\<close> and \<open>buff[sLen+dLen:]\<close> are parts of the buffer.\<close>

definition ColibriMin_ToBytes :: "colibri_min \<Rightarrow> (colibri_min \<times> bytes) res" where
  "ColibriMin_ToBytes c = (let
     sLen = unat (Endpoint_Len (MinSrc c));
     dLen = unat (Endpoint_Len (MinDst c))
   in rbind (Endpoint_SerializeTo (MinSrc c) (replicate (sLen + dLen + ColibriMin_Len c) 0)) (\<lambda>buff.
      rbind (Endpoint_SerializeTo (MinDst c) (drop sLen buff)) (\<lambda>w.
      let buff = put_at sLen w buff in
      rbind (ColibriMin_SerializeTo c (drop (sLen + dLen) buff)) (\<lambda>(c', w).
      Inr (c', put_at (sLen + dLen) w buff)))))"

definition ColibriMin_FromBytes :: "colibri_min \<Rightarrow> bytes \<Rightarrow> colibri_min res" where
  "ColibriMin_FromBytes c buff =
     rbind (NewEndpointFromSerialized buff) (\<lambda>src.
     let sLen = unat (Endpoint_Len src) in
     rbind (gslice sLen (length buff) buff) (\<lambda>w.
     rbind (NewEndpointFromSerialized w) (\<lambda>dst.
     let dLen = unat (Endpoint_Len dst) in
     rbind (gslice (sLen + dLen) (length buff) buff) (\<lambda>w.
     ColibriMin_DecodeFromBytes (c\<lparr>MinSrc := src, MinDst := dst\<rparr>) w))))"

definition colibri_path_zero :: colibri_path where
  "colibri_path_zero = \<lparr>PacketTimestamp = replicate 8 0, ColInfoField = None, ColHopFields = [],
     ColSrc = None, ColDst = None\<rparr>"

definition ToColibriPath :: "colibri_min \<Rightarrow> (colibri_min \<times> colibri_path) res" where
  "ToColibriPath c =
     rbind (SerializeToInternal c) (\<lambda>c.
     rbind (ColibriPath_DecodeFromBytes colibri_path_zero (MinRaw c)) (\<lambda>p.
     Inr (c, p\<lparr>ColSrc := MinSrc c, ColDst := MinDst c\<rparr>)))"

definition ColibriMin_Reverse :: "colibri_min \<Rightarrow> colibri_min res" where
  "ColibriMin_Reverse c =
     (if MinInfoField c = None then Inl (Err ''the colibri info field must not be nil'')
      else rbind (ToColibriPath c) (\<lambda>(_, colibriPath).
        rbind (ColibriPath_Reverse colibriPath) ColibriPath_ToMinimal))"

definition ReverseAsColibri :: "colibri_min option \<Rightarrow> colibri_min option res" where
  "ReverseAsColibri c = (case c of
       None \<Rightarrow> Inr None
     | Some c \<Rightarrow> rbind (ColibriMin_Reverse c) (\<lambda>p. Inr (Some p)))"

definition UpdateCurrHF :: "colibri_min \<Rightarrow> colibri_min res" where
  "UpdateCurrHF c = (case MinInfoField c of
       None \<Rightarrow> Inl (Err ''the colibri info field must not be nil'')
     | Some info \<Rightarrow>
         if ColCurrHF info + 1 \<ge> HFCount info then Inl (Err ''colibri path already at end'')
         else Inr (c\<lparr>MinInfoField := Some (info\<lparr>ColCurrHF := ColCurrHF info + 1\<rparr>)\<rparr>))"

definition ColibriMin_IsLastHop :: "colibri_min \<Rightarrow> bool res" where
  "ColibriMin_IsLastHop c = (case MinInfoField c of
       None \<Rightarrow> Inl (Panic ''nil pointer dereference'')
     | Some info \<Rightarrow> Inr (ColCurrHF info = HFCount info - 1))"

definition ColibriMin_Clone :: "colibri_min \<Rightarrow> colibri_min res" where
  "ColibriMin_Clone c = (case (MinInfoField c, CurrHopField c, MinSrc c, MinDst c) of
       (Some info, Some hop, Some src, Some dst) \<Rightarrow>
         Inr \<lparr>MinTimestamp = MinTimestamp c, MinInfoField = Some (ColInfo_Clone info),
              CurrHopField = Some (ColHop_Clone hop), MinRaw = [] @ MinRaw c,
              MinSrc = Some (Endpoint_Clone src), MinDst = Some (Endpoint_Clone dst)\<rparr>
     | _ \<Rightarrow> Inl (Panic ''nil pointer dereference''))"

lemmas col_len_defs = LenInfoField_def LenSuffix_def LenHopField_def LenMinColibri_def

section \<open>Wire formats\<close>

definition col_info_wf :: "col_info \<Rightarrow> bool" where
  "col_info_wf info \<longleftrightarrow> length (ResIdSuffix info) = LenSuffix \<and> ColVer info < 16"

definition col_info_bytes :: "col_info \<Rightarrow> bytes" where
  "col_info_bytes info = [ColInfo_flags info, ColVer info, ColCurrHF info, HFCount info] @
     ResIdSuffix info @ PutUint32 (ExpTick info) @ [BwCls info, Rlc info] @ PutUint16 (OrigPayLen info)"

definition col_hop_wf :: "col_hop \<Rightarrow> bool" where
  "col_hop_wf h \<longleftrightarrow> length (ColMac h) = 4"

definition col_hop_bytes :: "col_hop \<Rightarrow> bytes" where
  "col_hop_bytes h = PutUint16 (IngressId h) @ PutUint16 (EgressId h) @ ColMac h"

lemma length_col_bytes [simp]:
  "col_info_wf info \<Longrightarrow> length (col_info_bytes info) = LenInfoField"
  "col_hop_wf h \<Longrightarrow> length (col_hop_bytes h) = LenHopField"
  by (simp_all add: col_info_bytes_def col_info_wf_def col_hop_bytes_def col_hop_wf_def col_len_defs)

lemma ColInfo_flags_bits:
  "ColInfo_flags info AND 128 \<noteq> 0 \<longleftrightarrow> ColC info"
  "ColInfo_flags info AND 64 \<noteq> 0 \<longleftrightarrow> ColR info"
  "ColInfo_flags info AND 32 \<noteq> 0 \<longleftrightarrow> ColS info"
  by (cases "ColC info"; cases "ColR info"; cases "ColS info"; simp add: ColInfo_flags_def)+

lemma u8_and_0f: "(x :: u8) AND 0x0f = take_bit 4 x"
  by (simp add: take_bit_eq_mask mask_eq_exp_minus_1)

lemma u8_less_16: "(x :: u8) < 16 \<longleftrightarrow> take_bit 4 x = x"
  using word_less_power_iff [of 4 x] by simp

lemma ColInfo_SerializeTo_ok:
  assumes "col_info_wf info" "LenInfoField \<le> length b"
  shows "ColInfo_SerializeTo (Some info) b = Inr (put_at 0 (col_info_bytes info) b)"
proof -
  obtain xs ys where b: "b = xs @ ys" and xs: "length xs = 24"
    using assms(2) by (metis append_take_drop_id length_take min_absorb2 LenInfoField_def)
  have suf: "length (ResIdSuffix info) = 12" "ColVer info AND 0x0f = ColVer info"
    using assms(1) by (auto simp: col_info_wf_def col_len_defs u8_and_0f u8_less_16)
  have "\<not> length b < 24" using assms(2) by (simp add: col_len_defs)
  with xs suf show ?thesis
    by (auto simp: length_Suc_conv numeral_eq_Suc ColInfo_SerializeTo_def col_info_bytes_def b
      col_len_defs Let_def put_at_def PutUint16_def PutUint32_def)
qed


lemma go_copy_same [simp]: "length dst = length src \<Longrightarrow> go_copy dst src = src"
  by (simp add: go_copy_def)

lemma ColInfo_Decode_bytes:
  assumes "col_info_wf info"
  shows "ColInfo_DecodeFromBytes (col_info_bytes info @ ys) = Inr info"
proof -
  let ?b = "col_info_bytes info @ ys"
  obtain sx where sx: "ResIdSuffix info = sx" "length sx = 12" "take_bit 4 (ColVer info) = ColVer info"
    using assms by (simp add: col_info_wf_def col_len_defs u8_less_16)
  have "slice 4 16 ?b = ResIdSuffix info" "slice 16 20 ?b = PutUint32 (ExpTick info)"
    "slice 22 24 ?b = PutUint16 (OrigPayLen info)"
    "?b ! 0 = ColInfo_flags info" "?b ! 1 = ColVer info" "?b ! 2 = ColCurrHF info" "?b ! 3 = HFCount info"
    "?b ! 20 = BwCls info" "?b ! 21 = Rlc info"
    using sx by (simp_all add: col_info_bytes_def slice_def nth_append)
  then show ?thesis
    using sx by (simp add: ColInfo_DecodeFromBytes_def Let_def ColInfo_flags_bits u8_and_0f col_len_defs
      length_col_bytes(1) [OF assms])
qed

lemma ColInfo_Decode_wf: "ColInfo_DecodeFromBytes b = Inr info \<Longrightarrow> col_info_wf info"
  by (auto simp: ColInfo_DecodeFromBytes_def col_info_wf_def col_len_defs Let_def u8_and_0f u8_less_16
    split: if_splits)

lemma ColHop_SerializeTo_ok:
  assumes "col_hop_wf h" "LenHopField \<le> length b"
  shows "ColHop_SerializeTo h b = Inr (put_at 0 (col_hop_bytes h) b)"
proof -
  obtain xs ys where b: "b = xs @ ys" and xs: "length xs = 8"
    using assms(2) by (metis append_take_drop_id length_take min_absorb2 LenHopField_def)
  then show ?thesis
    using assms
    by (auto simp: length_Suc_conv numeral_eq_Suc ColHop_SerializeTo_def col_hop_bytes_def col_hop_wf_def
      col_len_defs Let_def put_at_def PutUint16_def)
qed

lemma ColHop_Decode_bytes:
  assumes "col_hop_wf h"
  shows "ColHop_DecodeFromBytes (col_hop_bytes h @ ys) = Inr h"
proof -
  let ?b = "col_hop_bytes h @ ys"
  have "slice 0 2 ?b = PutUint16 (IngressId h)" "slice 2 4 ?b = PutUint16 (EgressId h)"
    "slice 4 8 ?b = ColMac h"
    using assms by (simp_all add: col_hop_bytes_def col_hop_wf_def slice_def)
  then show ?thesis
    using assms by (simp add: ColHop_DecodeFromBytes_def col_hop_wf_def col_len_defs col_hop_bytes_def)
qed

lemma Col_Decode_total:
  "LenInfoField \<le> length b \<Longrightarrow> \<exists>x. ColInfo_DecodeFromBytes b = Inr x"
  "LenHopField \<le> length b \<Longrightarrow> \<exists>h. ColHop_DecodeFromBytes b = Inr h"
  by (auto simp: ColInfo_DecodeFromBytes_def ColHop_DecodeFromBytes_def Let_def)

lemma ColHop_Decode_wf: "ColHop_DecodeFromBytes b = Inr h \<Longrightarrow> col_hop_wf h"
  by (auto simp: ColHop_DecodeFromBytes_def col_hop_wf_def split: if_splits)

text \<open>Both COLIBRI fields keep the contract of a fixed-width wire field.\<close>

interpretation colinfow: wire_field col_info_wf col_info_bytes "\<lambda>i. ColInfo_SerializeTo (Some i)"
  ColInfo_DecodeFromBytes LenInfoField
  by unfold_locales
    (auto simp: ColInfo_SerializeTo_ok ColInfo_Decode_bytes dest!: Col_Decode_total(1) intro: ColInfo_Decode_wf)

interpretation colhopw: wire_field col_hop_wf col_hop_bytes ColHop_SerializeTo
  ColHop_DecodeFromBytes LenHopField
  by unfold_locales
    (auto simp: ColHop_SerializeTo_ok ColHop_Decode_bytes dest!: Col_Decode_total(2) intro: ColHop_Decode_wf)

section \<open>Full paths\<close>

definition colibri_wf :: "colibri_path \<Rightarrow> bool" where
  "colibri_wf c \<longleftrightarrow> length (PacketTimestamp c) = 8 \<and> list_all col_hop_wf (ColHopFields c) \<and>
     2 \<le> length (ColHopFields c) \<and>
     (\<exists>info. ColInfoField c = Some info \<and> col_info_wf info \<and>
       unat (HFCount info) = length (ColHopFields c))"

definition colibri_bytes :: "colibri_path \<Rightarrow> bytes" where
  "colibri_bytes c = PacketTimestamp c @ col_info_bytes (the (ColInfoField c)) @
     concat (map col_hop_bytes (ColHopFields c))"

lemma length_colibri_bytes: "colibri_wf c \<Longrightarrow> length (colibri_bytes c) = ColibriPath_Len c"
  by (auto simp: colibri_wf_def colibri_bytes_def ColibriPath_Len_def colhopw.concat_len)

lemma ColibriPath_Serialize_ok:
  assumes "colibri_wf c" "ColibriPath_Len c \<le> length b"
  shows "ColibriPath_SerializeTo c b = Inr (put_at 0 (colibri_bytes c) b)"
proof -
  from assms(1) obtain info where i: "ColInfoField c = Some info" "col_info_wf info"
    and t: "length (PacketTimestamp c) = 8" and h: "list_all col_hop_wf (ColHopFields c)"
    by (auto simp: colibri_wf_def)
  let ?b1 = "put_at 0 (PacketTimestamp c) b"
  have l: "8 + 24 + length (ColHopFields c) * 8 \<le> length b"
    using assms(2) by (simp add: ColibriPath_Len_def col_len_defs)
  have "ColInfo_SerializeTo (Some info) (slice 8 32 ?b1) = Inr (col_info_bytes info)"
    using i l t ColInfo_SerializeTo_ok [OF i(2), of "slice 8 32 ?b1"]
    by (simp add: put_at_0 col_len_defs length_col_bytes(1) [OF i(2)])
  moreover have "write_fields ColHop_SerializeTo LenHopField (ColHopFields c) 32
      (put_at 8 (col_info_bytes info) ?b1) =
    Inr (put_at 32 (concat (map col_hop_bytes (ColHopFields c))) (put_at 8 (col_info_bytes info) ?b1))"
    using l t i h by (intro colhopw.write_ok) (auto simp: col_len_defs)
  moreover have "put_at 32 (concat (map col_hop_bytes (ColHopFields c))) (put_at 8 (col_info_bytes info) ?b1) =
     put_at 0 (colibri_bytes c) b"
    using t i length_col_bytes(1) [OF i(2)] l
    by (simp add: put_at_def colibri_bytes_def col_len_defs add.commute)
  ultimately show ?thesis
    using assms i t l by (simp add: ColibriPath_SerializeTo_def Let_def col_len_defs)
qed

lemma ColibriPath_Decode_bytes:
  assumes "colibri_wf c"
  shows "ColibriPath_DecodeFromBytes c0 (colibri_bytes c @ ys) =
    Inr (c\<lparr>ColSrc := ColSrc c0, ColDst := ColDst c0\<rparr>)"
proof -
  from assms obtain info where i: "ColInfoField c = Some info" "col_info_wf info"
    and t: "length (PacketTimestamp c) = 8" and h: "list_all col_hop_wf (ColHopFields c)"
    "2 \<le> length (ColHopFields c)" and n: "unat (HFCount info) = length (ColHopFields c)"
    by (auto simp: colibri_wf_def)
  let ?b = "colibri_bytes c @ ys"
  have l: "length (colibri_bytes c) = 32 + length (ColHopFields c) * 8"
    using length_colibri_bytes [OF assms] by (simp add: ColibriPath_Len_def col_len_defs)
  have w: "slice 8 32 ?b = col_info_bytes info" "slice 0 8 ?b = PacketTimestamp c"
    using t i length_col_bytes(1) [OF i(2)] by (simp_all add: slice_def colibri_bytes_def col_len_defs)
  have d: "ColInfo_DecodeFromBytes (col_info_bytes info) = Inr info"
    using ColInfo_Decode_bytes [OF i(2), of "[]"] by simp
  have f: "decode_fields ColHop_DecodeFromBytes LenHopField (length (ColHopFields c)) 32 ?b =
      Inr (ColHopFields c)"
    using colhopw.decode_enc [OF h(1), of "PacketTimestamp c @ col_info_bytes info" 32 ys] t i
      length_col_bytes(1) [OF i(2)]
    by (simp add: colibri_bytes_def col_len_defs)
  show ?thesis
    using l w d f h(2) n i(1) by (simp add: ColibriPath_DecodeFromBytes_def col_len_defs Let_def)
qed

text \<open>The full path keeps the contract of a path type; the endpoints are not part of the bytes and
  stay those of the receiver.\<close>

interpretation colp: path_codec
  "\<lambda>c. colibri_wf c \<and> ColSrc c = ColSrc c0 \<and> ColDst c = ColDst c0"
  ColibriPath_Len ColibriPath_SerializeTo "ColibriPath_DecodeFromBytes c0" for c0
proof
  fix b :: bytes and p assume "length b < ColibriPath_Len p"
  then show "\<exists>m. ColibriPath_SerializeTo p b = Inl (Err m)"
    by (simp add: ColibriPath_SerializeTo_def)
next
  fix p and b :: bytes
  assume p: "colibri_wf p \<and> ColSrc p = ColSrc c0 \<and> ColDst p = ColDst c0" and l: "ColibriPath_Len p \<le> length b"
  let ?b = "put_at 0 (colibri_bytes p) b"
  have "take (ColibriPath_Len p) ?b = colibri_bytes p"
    using length_colibri_bytes [of p] p by (simp add: put_at_0)
  moreover have "drop (ColibriPath_Len p) ?b = drop (ColibriPath_Len p) b"
    using length_colibri_bytes [of p] p by (simp add: put_at_0)
  moreover have "ColibriPath_DecodeFromBytes c0 (colibri_bytes p) = Inr p"
    using p ColibriPath_Decode_bytes [of p c0 "[]"] by (cases p) simp
  ultimately show "\<exists>b'. ColibriPath_SerializeTo p b = Inr b' \<and> length b' = length b \<and>
      drop (ColibriPath_Len p) b' = drop (ColibriPath_Len p) b \<and>
      ColibriPath_DecodeFromBytes c0 (take (ColibriPath_Len p) b') = Inr p"
    using ColibriPath_Serialize_ok [of p b] p l length_colibri_bytes [of p] by simp
qed

section \<open>Reversing\<close>

lemma SwapInEg_twice [simp]: "SwapInEg (SwapInEg h) = h"
  by (simp add: SwapInEg_def)

lemma rev_hops_step_eq:
  assumes "i < n - Suc i" "length hs = n"
  shows "rev_hops_step n i hs = hs[i := SwapInEg (hs ! (n - Suc i)), n - Suc i := SwapInEg (hs ! i)]"
  using assms by (intro nth_equalityI) (auto simp: rev_hops_step_def Let_def nth_list_update)

lemma rev_hops_loop:
  assumes "k \<le> length hs div 2"
  shows "length (fold (rev_hops_step (length hs)) [0..<k] hs) = length hs \<and>
    (\<forall>j < length hs. fold (rev_hops_step (length hs)) [0..<k] hs ! j =
      (if j < k \<or> length hs - k \<le> j then SwapInEg (hs ! (length hs - Suc j)) else hs ! j))"
  using assms
proof (induction k)
  case (Suc k)
  let ?n = "length hs" and ?f = "fold (rev_hops_step (length hs)) [0..<k] hs"
  from Suc have l: "length ?f = ?n" and
    nth: "\<And>j. j < ?n \<Longrightarrow> ?f ! j = (if j < k \<or> ?n - k \<le> j then SwapInEg (hs ! (?n - Suc j)) else hs ! j)"
    by auto
  have k: "k < ?n - Suc k" "?n - Suc k < ?n" using Suc.prems by auto
  have "fold (rev_hops_step ?n) [0..<Suc k] hs =
      ?f[k := SwapInEg (?f ! (?n - Suc k)), ?n - Suc k := SwapInEg (?f ! k)]"
    using k l by (simp add: rev_hops_step_eq)
  then show ?case using k l nth by (auto simp: nth_list_update)
qed simp

lemma rev_hops_all:
  fixes hs :: "col_hop list"
  defines "hops \<equiv> fold (rev_hops_step (length hs)) [0..<length hs div 2] hs"
  shows "(if length hs mod 2 = Suc 0 then hops[length hs div 2 := SwapInEg (hops ! (length hs div 2))] else hops) =
    rev (map SwapInEg hs)"
proof -
  have l: "length hops = length hs" and
    nth: "\<And>j. j < length hs \<Longrightarrow> hops ! j = (if j < length hs div 2 \<or> length hs - length hs div 2 \<le> j
       then SwapInEg (hs ! (length hs - Suc j)) else hs ! j)"
    using rev_hops_loop [of "length hs div 2" hs] by (auto simp: hops_def)
  show ?thesis
  proof (rule nth_equalityI)
    fix j assume "j < length (if length hs mod 2 = Suc 0 then hops[length hs div 2 := SwapInEg (hops ! (length hs div 2))] else hops)"
    then have j: "j < length hs" using l by (auto split: if_splits)
    show "(if length hs mod 2 = Suc 0 then hops[length hs div 2 := SwapInEg (hops ! (length hs div 2))] else hops) ! j =
        rev (map SwapInEg hs) ! j"
    proof (cases "length hs mod 2 = Suc 0 \<and> j = length hs div 2")
      case True
      then have "length hs - Suc j = j" "length hs - length hs div 2 = Suc j" using j by presburger+
      with True j l nth [OF j] show ?thesis by (simp add: rev_nth)
    next
      case False
      then have "j < length hs div 2 \<or> length hs - length hs div 2 \<le> j" using j by presburger
      with False j l nth [OF j] show ?thesis by (auto simp: rev_nth)
    qed
  qed (use l in auto)
qed

definition rev_info :: "col_info \<Rightarrow> col_info" where
  "rev_info info = info\<lparr>ColR := \<not> ColR info, ColCurrHF := HFCount info - ColCurrHF info - 1\<rparr>"

definition rev_colibri :: "colibri_path \<Rightarrow> colibri_path" where
  "rev_colibri c = c\<lparr>ColInfoField := map_option rev_info (ColInfoField c),
     ColHopFields := rev (map SwapInEg (ColHopFields c)), ColSrc := ColDst c, ColDst := ColSrc c\<rparr>"

lemma ColibriPath_Reverse_eq:
  assumes "ColInfoField c = Some info" "ColCurrHF info < HFCount info"
  shows "ColibriPath_Reverse c = Inr (rev_colibri c)"
  using assms rev_hops_all [of "ColHopFields c"]
  by (simp add: ColibriPath_Reverse_def Let_def rev_colibri_def rev_info_def not_le)

lemma rev_info_cursor:
  assumes "ColCurrHF info < HFCount info"
  shows "unat (ColCurrHF (rev_info info)) = unat (HFCount info) - Suc (unat (ColCurrHF info))"
    "ColCurrHF (rev_info info) < HFCount (rev_info info)" "rev_info (rev_info info) = info"
proof -
  let ?n = "HFCount info" and ?i = "ColCurrHF info"
  have lt: "unat ?i < unat ?n" using assms by (simp add: word_less_nat_alt)
  have d: "unat (?n - ?i) = unat ?n - unat ?i" using assms by (simp add: unat_sub)
  then have "1 \<le> ?n - ?i" using lt by (simp add: word_le_nat_alt)
  then show c: "unat (ColCurrHF (rev_info info)) = unat ?n - Suc (unat ?i)"
    using d by (simp add: rev_info_def unat_sub)
  then show "ColCurrHF (rev_info info) < HFCount (rev_info info)"
    using lt by (simp add: word_less_nat_alt) (simp add: rev_info_def)
  show "rev_info (rev_info info) = info" by (cases info) (simp add: rev_info_def)
qed

lemma rev_colibri_wf: "colibri_wf c \<Longrightarrow> colibri_wf (rev_colibri c)"
  by (auto simp: colibri_wf_def rev_colibri_def rev_info_def col_info_wf_def list_all_iff col_hop_wf_def
    SwapInEg_def)

text \<open>Reversing a COLIBRI path succeeds exactly when the current hop is a hop of the path; then
  the hop fields come in opposite order with ingress and egress swapped, the R flag is toggled, source
  and destination change places, the path still points to the same hop, and reversing again gives the
  path back.\<close>

lemma ColibriPath_Reverse_correct:
  assumes "colibri_wf c" "ColInfoField c = Some info"
  shows "(if ColCurrHF info < HFCount info
      then \<exists>r. ColibriPath_Reverse c = Inr r \<and> colibri_wf r \<and> ColibriPath_Reverse r = Inr c \<and>
        ColHopFields r = rev (map SwapInEg (ColHopFields c)) \<and> ColSrc r = ColDst c \<and> ColDst r = ColSrc c \<and>
        (\<exists>h. ColibriPath_GetCurrentHopField c = Inr h \<and> ColibriPath_GetCurrentHopField r = Inr (SwapInEg h))
      else ColibriPath_Reverse c = Inl (Err ''CurrHF >= HFCount''))"
proof (cases "ColCurrHF info < HFCount info")
  case True
  let ?r = "rev_colibri c"
  have n: "unat (HFCount info) = length (ColHopFields c)" and lt: "unat (ColCurrHF info) < length (ColHopFields c)"
    using assms True by (auto simp: colibri_wf_def word_less_nat_alt)
  have ir: "ColInfoField ?r = Some (rev_info info)" using assms by (simp add: rev_colibri_def)
  have "ColibriPath_Reverse ?r = Inr (rev_colibri ?r)"
    using rev_info_cursor [OF True] by (intro ColibriPath_Reverse_eq [OF ir])
  moreover have "rev_colibri ?r = c"
    using assms rev_info_cursor(3) [OF True]
    by (cases c) (simp add: rev_colibri_def rev_map comp_def)
  moreover have "ColibriPath_GetCurrentHopField ?r = Inr (SwapInEg (ColHopFields c ! unat (ColCurrHF info)))"
    using lt n ir rev_info_cursor(1) [OF True]
    by (simp add: ColibriPath_GetCurrentHopField_def) (simp add: rev_colibri_def rev_nth)
  ultimately show ?thesis
    using True assms lt ColibriPath_Reverse_eq [OF assms(2) True] rev_colibri_wf [OF assms(1)]
    by (simp add: ColibriPath_GetCurrentHopField_def) (simp add: rev_colibri_def)
qed (use assms in \<open>simp add: ColibriPath_Reverse_def not_less\<close>)

definition demo_colibri :: colibri_path where
  "demo_colibri = \<lparr>PacketTimestamp = replicate 8 1,
     ColInfoField = Some \<lparr>ColC = False, ColR = False, ColS = True, ColVer = 3, ColCurrHF = 0, HFCount = 3,
       ResIdSuffix = replicate 12 7, ExpTick = 1000, BwCls = 5, Rlc = 2, OrigPayLen = 100\<rparr>,
     ColHopFields = [\<lparr>IngressId = 0, EgressId = 1, ColMac = [1, 2, 3, 4]\<rparr>,
       \<lparr>IngressId = 2, EgressId = 3, ColMac = [5, 6, 7, 8]\<rparr>, \<lparr>IngressId = 4, EgressId = 0, ColMac = [9, 9, 9, 9]\<rparr>],
     ColSrc = Some \<lparr>EpIA = 1, host = [10, 0, 0, 1], hostType = 0, hostLen = 0\<rparr>,
     ColDst = Some \<lparr>EpIA = 2, host = [0, 6, 0, 0], hostType = 1, hostLen = 0\<rparr>\<rparr>"

lemma demo_colibri_wf: "colibri_wf demo_colibri"
  by (simp add: demo_colibri_def colibri_wf_def col_info_wf_def col_hop_wf_def col_len_defs)

lemma ColibriPath_Reverse_correct_example:
  "\<exists>r. ColibriPath_Reverse demo_colibri = Inr r \<and> ColibriPath_Reverse r = Inr demo_colibri \<and>
     map IngressId (ColHopFields r) = [0, 3, 1]"
proof -
  obtain info where i: "ColInfoField demo_colibri = Some info" "ColCurrHF info < HFCount info"
    by (simp add: demo_colibri_def)
  show ?thesis
    using ColibriPath_Reverse_correct [OF demo_colibri_wf i(1)] i(2)
    by (fastforce simp: demo_colibri_def SwapInEg_def)
qed

section \<open>The minimal path refines the full path\<close>

text \<open>A minimal path stands for a full path when the decoded parts agree and the raw bytes behind the
  info field are the hop fields; the raw copy of timestamp and info field may be stale.\<close>

definition min_rep :: "colibri_min \<Rightarrow> colibri_path \<Rightarrow> bool" where
  "min_rep c p \<longleftrightarrow> MinTimestamp c = PacketTimestamp p \<and> MinInfoField c = ColInfoField p \<and>
     CurrHopField c \<noteq> None \<and> MinSrc c = ColSrc p \<and> MinDst c = ColDst p \<and>
     length (MinRaw c) = ColibriPath_Len p \<and>
     drop 32 (MinRaw c) = concat (map col_hop_bytes (ColHopFields p))"

lemma col_hop_bytes_Decode:
  assumes "length w = 8" "ColHop_DecodeFromBytes w = Inr h"
  shows "col_hop_bytes h = w"
proof -
  have "take 2 w @ slice 2 4 w @ slice 4 8 w = w"
    using assms(1) append_take_drop_id [of 2 "drop 2 w"] by (simp add: slice_def)
  with assms show ?thesis
    by (auto simp: ColHop_DecodeFromBytes_def col_len_defs col_hop_bytes_def PutUint16_Uint16 slice_def)
qed

lemma decode_hops_bytes:
  "decode_fields ColHop_DecodeFromBytes LenHopField n off data = Inr hs \<Longrightarrow> off + n * 8 \<le> length data \<Longrightarrow>
   concat (map col_hop_bytes hs) = slice off (off + n * 8) data"
proof (induction n arbitrary: off hs)
  case 0
  then show ?case by (simp add: slice_def)
next
  case (Suc n)
  from Suc.prems obtain h hs' where
    h: "ColHop_DecodeFromBytes (slice off (off + 8) data) = Inr h" and
    hs': "decode_fields ColHop_DecodeFromBytes LenHopField n (off + 8) data = Inr hs'" "hs = h # hs'"
    by (auto simp: res_simps gslice_def col_len_defs split: if_splits)
  have "col_hop_bytes h = slice off (off + 8) data"
    using h Suc.prems(2) by (intro col_hop_bytes_Decode) auto
  moreover have "concat (map col_hop_bytes hs') = slice (off + 8) (off + 8 + n * 8) data"
    using Suc.IH [OF hs'(1)] Suc.prems(2) by simp
  moreover have "slice off (off + 8) data @ slice (off + 8) (off + 8 + n * 8) data =
      slice off (off + Suc n * 8) data"
    by (simp add: slice_def take_add add.commute)
  ultimately show ?case by (simp add: hs'(2))
qed

lemma SerializeToInternal_rep:
  assumes "colibri_wf p" "min_rep c p"
  shows "SerializeToInternal c = Inr (c\<lparr>MinRaw := colibri_bytes p\<rparr>)"
proof -
  from assms obtain info hop where i: "MinInfoField c = Some info" "ColInfoField p = Some info" "col_info_wf info"
    and h: "CurrHopField c = Some hop" and n: "unat (HFCount info) = length (ColHopFields p)"
    "2 \<le> length (ColHopFields p)" and t: "MinTimestamp c = PacketTimestamp p" "length (PacketTimestamp p) = 8"
    by (auto simp: colibri_wf_def min_rep_def)
  let ?raw = "MinRaw c"
  have l: "length ?raw = 32 + length (ColHopFields p) * 8" and d: "drop 32 ?raw = concat (map col_hop_bytes (ColHopFields p))"
    using assms(2) by (auto simp: min_rep_def ColibriPath_Len_def col_len_defs)
  have "\<not> HFCount info < 2" using n by (simp add: word_less_nat_alt)
  moreover have "ColibriMin_Len c = length ?raw"
    using i h n l by (simp add: ColibriMin_Len_def col_len_defs)
  moreover have "ColInfo_SerializeTo (Some info) (slice 8 32 (put_at 0 (PacketTimestamp p) ?raw)) =
      Inr (col_info_bytes info)"
    using ColInfo_SerializeTo_ok [OF i(3), of "slice 8 32 (put_at 0 (PacketTimestamp p) ?raw)"] l t
      length_col_bytes(1) [OF i(3)]
    by (simp add: col_len_defs put_at_0)
  moreover have "put_at 8 (col_info_bytes info) (put_at 0 (PacketTimestamp p) ?raw) = colibri_bytes p"
    using d t length_col_bytes(1) [OF i(3)] i(2) by (simp add: put_at_def colibri_bytes_def col_len_defs)
  ultimately show ?thesis
    using i h l t by (auto simp: SerializeToInternal_def col_len_defs Let_def)
qed

lemma min_rep_synced:
  assumes "colibri_wf p" "min_rep c p"
  shows "min_rep (c\<lparr>MinRaw := colibri_bytes p\<rparr>) p"
proof -
  from assms(1) obtain info where "ColInfoField p = Some info" "col_info_wf info" "length (PacketTimestamp p) = 8"
    by (auto simp: colibri_wf_def)
  then show ?thesis
    using assms(2) length_colibri_bytes [OF assms(1)] length_col_bytes(1) [of info]
    by (simp add: min_rep_def colibri_bytes_def col_len_defs)
qed

lemma ToColibriPath_rep:
  assumes "colibri_wf p" "min_rep c p"
  shows "ToColibriPath c = Inr (c\<lparr>MinRaw := colibri_bytes p\<rparr>, p)"
  using SerializeToInternal_rep [OF assms] ColibriPath_Decode_bytes [OF assms(1), of colibri_path_zero "[]"]
    assms(2)
  by (cases p) (auto simp: ToColibriPath_def min_rep_def)

lemma ColHop_Clone_id: "col_hop_wf h \<Longrightarrow> ColHop_Clone h = h"
  by (simp add: ColHop_Clone_def col_hop_wf_def)

lemma ColInfo_Clone_id: "ColInfo_Clone info = info"
  by (simp add: ColInfo_Clone_def)

lemma ToMinimal_rep:
  assumes "colibri_wf p" "ColInfoField p = Some info" "ColCurrHF info < HFCount info"
  shows "\<exists>c. ColibriPath_ToMinimal p = Inr c \<and> min_rep c p \<and>
    CurrHopField c = Some (ColHopFields p ! unat (ColCurrHF info))"
proof -
  have lt: "unat (ColCurrHF info) < length (ColHopFields p)" "length (PacketTimestamp p) = 8" "col_info_wf info"
    "col_hop_wf (ColHopFields p ! unat (ColCurrHF info))"
    using assms by (auto simp: colibri_wf_def word_less_nat_alt list_all_length)
  let ?c = "\<lparr>MinTimestamp = PacketTimestamp p, MinInfoField = Some info,
     CurrHopField = Some (ColHopFields p ! unat (ColCurrHF info)), MinRaw = colibri_bytes p,
     MinSrc = ColSrc p, MinDst = ColDst p\<rparr>"
  have "ColibriPath_SerializeTo p (replicate (ColibriPath_Len p) 0) = Inr (colibri_bytes p)"
    using ColibriPath_Serialize_ok [OF assms(1)] length_colibri_bytes [OF assms(1)] by (simp add: put_at_0)
  then have "ColibriPath_ToMinimal p = Inr ?c"
    using assms lt by (simp add: ColibriPath_ToMinimal_def ColibriPath_GetCurrentHopField_def
      ColHop_Clone_id ColInfo_Clone_id)
  moreover have "min_rep ?c p"
    using assms lt length_colibri_bytes [OF assms(1)] length_col_bytes(1) [OF lt(3)]
    by (simp add: min_rep_def colibri_bytes_def col_len_defs)
  ultimately show ?thesis by (intro exI [of _ ?c]) simp
qed

lemma ColibriMin_Decode_rep:
  assumes "ColibriMin_DecodeFromBytes c0 b = Inr c"
  shows "\<exists>p info. ColibriPath_DecodeFromBytes (colibri_path_zero\<lparr>ColSrc := MinSrc c0, ColDst := MinDst c0\<rparr>) b = Inr p \<and>
     min_rep c p \<and> ColInfoField p = Some info \<and> ColCurrHF info < HFCount info \<and>
     CurrHopField c = Some (ColHopFields p ! unat (ColCurrHF info)) \<and> (2 \<le> HFCount info \<longrightarrow> colibri_wf p)"
proof -
  from assms obtain info hop where l: "48 \<le> length b" and
    i: "ColInfo_DecodeFromBytes (slice 8 32 b) = Inr info" and
    n: "32 + unat (HFCount info) * 8 \<le> length b" and lt: "unat (ColCurrHF info) < unat (HFCount info)" and
    h: "ColHop_DecodeFromBytes (slice (32 + unat (ColCurrHF info) * 8) (32 + unat (ColCurrHF info) * 8 + 8) b) = Inr hop" and
    c: "c = c0\<lparr>MinTimestamp := slice 0 8 b, MinInfoField := Some info, CurrHopField := Some hop,
       MinRaw := slice 0 (32 + unat (HFCount info) * 8) b\<rparr>"
    by (auto simp: ColibriMin_DecodeFromBytes_def res_simps Let_def col_len_defs ColibriMin_Len_def
      gslice_def split: if_splits)
  obtain hs where hs: "decode_fields ColHop_DecodeFromBytes LenHopField (unat (HFCount info)) 32 b = Inr hs"
    "length hs = unat (HFCount info)" "list_all col_hop_wf hs"
    using colhopw.decode_ok [of 32 "unat (HFCount info)" b] n by (auto simp: col_len_defs)
  have hop: "hs ! unat (ColCurrHF info) = hop"
    using colhopw.decode_nth [OF hs(1) lt] h by (simp add: col_len_defs)
  let ?p = "\<lparr>PacketTimestamp = slice 0 8 b, ColInfoField = Some info, ColHopFields = hs,
     ColSrc = MinSrc c0, ColDst = MinDst c0\<rparr>"
  have "ColibriPath_DecodeFromBytes (colibri_path_zero\<lparr>ColSrc := MinSrc c0, ColDst := MinDst c0\<rparr>) b = Inr ?p"
    using l i n hs by (simp add: ColibriPath_DecodeFromBytes_def col_len_defs colibri_path_zero_def)
  moreover have "min_rep c ?p"
    using decode_hops_bytes [OF hs(1)] n l hs(2)
    by (simp add: min_rep_def c ColibriPath_Len_def col_len_defs slice_def drop_take)
  moreover have "2 \<le> HFCount info \<longrightarrow> colibri_wf ?p"
    using hs ColInfo_Decode_wf [OF i] l by (simp add: colibri_wf_def word_le_nat_alt)
  ultimately show ?thesis using lt hop c by (intro exI [of _ ?p] exI [of _ info]) (simp add: word_less_nat_alt)
qed

lemma ColibriMin_Len_rep: "colibri_wf p \<Longrightarrow> min_rep c p \<Longrightarrow> ColibriMin_Len c = ColibriPath_Len p"
  by (auto simp: colibri_wf_def min_rep_def ColibriMin_Len_def ColibriPath_Len_def split: option.splits)

lemma ColibriMin_Serialize_rep:
  assumes "colibri_wf p" "min_rep c p" "ColibriPath_Len p \<le> length b"
  shows "ColibriMin_SerializeTo c b = Inr (c\<lparr>MinRaw := colibri_bytes p\<rparr>, put_at 0 (colibri_bytes p) b)"
  using SerializeToInternal_rep [OF assms(1,2)] ColibriMin_Len_rep [OF assms(1,2)] assms
    ColibriMin_Len_rep [OF assms(1) min_rep_synced [OF assms(1,2)]] length_colibri_bytes [OF assms(1)]
  by (simp add: ColibriMin_SerializeTo_def slice_def)

lemma UpdateCurrHF_rep:
  assumes "min_rep c p" "ColInfoField p = Some info" "ColCurrHF info < HFCount info"
  shows "if Suc (unat (ColCurrHF info)) < unat (HFCount info)
    then \<exists>c'. UpdateCurrHF c = Inr c' \<and>
      min_rep c' (p\<lparr>ColInfoField := Some (info\<lparr>ColCurrHF := ColCurrHF info + 1\<rparr>)\<rparr>)
    else UpdateCurrHF c = Inl (Err ''colibri path already at end'')"
proof -
  have "unat (ColCurrHF info) < unat (HFCount info)" using assms(3) by (simp add: word_less_nat_alt)
  then have "unat (ColCurrHF info) < 255" using unat_u8_less [of "HFCount info"] by simp
  then have "unat (ColCurrHF info + 1) = Suc (unat (ColCurrHF info))"
    by (simp add: unat_word_ariths(1))
  with assms(1,2) show ?thesis
    by (auto simp: UpdateCurrHF_def min_rep_def word_le_nat_alt ColibriPath_Len_def)
qed

text \<open>Claim C34. The minimal path of the border router implements the full path: from a minimal path that
  stands for a full one, serialising gives the same bytes, advancing advances the hop pointer (and
  fails exactly at the last hop), and reversing gives a minimal path that stands for the reversed
  full path, with the right current hop field.\<close>

theorem ColibriMin_refines:
  assumes "colibri_wf p" "min_rep c p" "ColInfoField p = Some info" "ColCurrHF info < HFCount info"
  shows "(ColibriPath_Len p \<le> length b \<longrightarrow>
       (\<exists>c' b'. ColibriMin_SerializeTo c b = Inr (c', b') \<and> ColibriPath_SerializeTo p b = Inr b' \<and> min_rep c' p)) \<and>
     (if Suc (unat (ColCurrHF info)) < unat (HFCount info)
      then \<exists>c'. UpdateCurrHF c = Inr c' \<and>
        min_rep c' (p\<lparr>ColInfoField := Some (info\<lparr>ColCurrHF := ColCurrHF info + 1\<rparr>)\<rparr>)
      else UpdateCurrHF c = Inl (Err ''colibri path already at end'')) \<and>
     (\<exists>c' r. ColibriMin_Reverse c = Inr c' \<and> ColibriPath_Reverse p = Inr r \<and> min_rep c' r \<and>
       CurrHopField c' = Some (SwapInEg (ColHopFields p ! unat (ColCurrHF info))))"
proof (intro conjI impI)
  assume "ColibriPath_Len p \<le> length b"
  then show "\<exists>c' b'. ColibriMin_SerializeTo c b = Inr (c', b') \<and> ColibriPath_SerializeTo p b = Inr b' \<and> min_rep c' p"
    using ColibriMin_Serialize_rep [OF assms(1,2)] ColibriPath_Serialize_ok [OF assms(1)]
      min_rep_synced [OF assms(1,2)] by blast
next
  let ?r = "rev_colibri p"
  have r: "colibri_wf ?r" "ColInfoField ?r = Some (rev_info info)"
    using rev_colibri_wf [OF assms(1)] assms(3) by (auto simp: rev_colibri_def)
  obtain c' where c': "ColibriPath_ToMinimal ?r = Inr c'" "min_rep c' ?r"
    "CurrHopField c' = Some (ColHopFields ?r ! unat (ColCurrHF (rev_info info)))"
    using ToMinimal_rep [OF r rev_info_cursor(2) [OF assms(4)]] by blast
  have lt: "unat (ColCurrHF info) < length (ColHopFields p)" "unat (HFCount info) = length (ColHopFields p)"
    using assms by (auto simp: colibri_wf_def word_less_nat_alt)
  have "ColHopFields ?r ! unat (ColCurrHF (rev_info info)) = SwapInEg (ColHopFields p ! unat (ColCurrHF info))"
    using lt rev_info_cursor(1) [OF assms(4)] by (simp add: rev_colibri_def rev_nth)
  moreover have "ColibriMin_Reverse c = Inr c'"
    using assms c'(1) ToColibriPath_rep [OF assms(1,2)] ColibriPath_Reverse_eq [OF assms(3,4)]
    by (simp add: ColibriMin_Reverse_def min_rep_def)
  ultimately show "\<exists>c' r. ColibriMin_Reverse c = Inr c' \<and> ColibriPath_Reverse p = Inr r \<and> min_rep c' r \<and>
       CurrHopField c' = Some (SwapInEg (ColHopFields p ! unat (ColCurrHF info)))"
    using c'(2,3) ColibriPath_Reverse_eq [OF assms(3,4)] by auto
qed (use UpdateCurrHF_rep [OF assms(2-4)] in simp)

theorem ColibriMin_refines_witness:
  "\<exists>c c'. ColibriPath_ToMinimal demo_colibri = Inr c \<and> ColibriMin_Reverse c = Inr c' \<and>
     CurrHopField c' = Some \<lparr>IngressId = 1, EgressId = 0, ColMac = [1, 2, 3, 4]\<rparr>"
proof -
  obtain info where i: "ColInfoField demo_colibri = Some info" "ColCurrHF info < HFCount info"
    "ColCurrHF info = 0"
    by (simp add: demo_colibri_def)
  obtain c where "ColibriPath_ToMinimal demo_colibri = Inr c" "min_rep c demo_colibri"
    using ToMinimal_rep [OF demo_colibri_wf i(1,2)] by blast
  with ColibriMin_refines [OF demo_colibri_wf this(2) i(1,2)] i(3) show ?thesis
    by (auto simp: demo_colibri_def SwapInEg_def)
qed

text \<open>The empty full path with the endpoints of a minimal one.\<close>

definition full_receiver :: "colibri_min \<Rightarrow> colibri_path" where
  "full_receiver c = colibri_path_zero\<lparr>ColSrc := MinSrc c, ColDst := MinDst c\<rparr>"

lemma ColibriMin_Decode_of_full:
  assumes "ColibriPath_DecodeFromBytes p0 b = Inr p" "ColInfoField p = Some info" "ColCurrHF info < HFCount info"
  shows "\<exists>c. ColibriMin_DecodeFromBytes c0 b = Inr c"
proof -
  from assms have "48 \<le> length b" "ColInfo_DecodeFromBytes (slice 8 32 b) = Inr info"
    "32 + unat (HFCount info) * 8 \<le> length b" "unat (ColCurrHF info) < unat (HFCount info)"
    by (auto simp: ColibriPath_DecodeFromBytes_def res_simps Let_def col_len_defs word_less_nat_alt
      split: if_splits)
  then show ?thesis
    using Col_Decode_total(2) [of "slice (32 + unat (ColCurrHF info) * 8) (40 + unat (ColCurrHF info) * 8) b"]
    by (auto simp: ColibriMin_DecodeFromBytes_def col_len_defs ColibriMin_Len_def)
qed

lemma ColibriMin_Decode_raw:
  assumes "ColibriMin_DecodeFromBytes c0 b = Inr c" "min_rep c p"
  shows "MinRaw c = take (ColibriPath_Len p) b"
proof -
  obtain n where n: "MinRaw c = take n b" "n \<le> length b"
    using assms(1) by (auto simp: ColibriMin_DecodeFromBytes_def res_simps Let_def gslice_def slice_def split: if_splits)
  then have "n = ColibriPath_Len p" using assms(2) by (simp add: min_rep_def)
  with n show ?thesis by simp
qed

text \<open>Decoding a minimal path is decoding the full path and keeping the current hop field: it
  succeeds exactly when the full path decodes and the hop pointer is within it, and then stands for
  the full path and holds its current hop field and its bytes.\<close>

lemma ColibriMin_Decode_iff:
  "((\<exists>c. ColibriMin_DecodeFromBytes c0 b = Inr c) \<longleftrightarrow>
      (\<exists>p info. ColibriPath_DecodeFromBytes (full_receiver c0) b = Inr p \<and> ColInfoField p = Some info \<and>
        ColCurrHF info < HFCount info)) \<and>
    (\<forall>c. ColibriMin_DecodeFromBytes c0 b = Inr c \<longrightarrow>
      (\<exists>p info. ColibriPath_DecodeFromBytes (full_receiver c0) b = Inr p \<and> ColInfoField p = Some info \<and> min_rep c p \<and>
        CurrHopField c = Some (ColHopFields p ! unat (ColCurrHF info)) \<and>
        MinRaw c = take (ColibriPath_Len p) b))"
proof (intro conjI iffI allI impI)
  fix c assume c: "ColibriMin_DecodeFromBytes c0 b = Inr c"
  from ColibriMin_Decode_rep [OF this] obtain p info where
    p: "ColibriPath_DecodeFromBytes (full_receiver c0) b = Inr p"
    "min_rep c p" "ColInfoField p = Some info"
    "CurrHopField c = Some (ColHopFields p ! unat (ColCurrHF info))" unfolding full_receiver_def by blast
  note n = ColibriMin_Decode_raw [OF c p(2)]
  with n p show "\<exists>p info. ColibriPath_DecodeFromBytes (full_receiver c0) b = Inr p \<and> ColInfoField p = Some info \<and> min_rep c p \<and>
        CurrHopField c = Some (ColHopFields p ! unat (ColCurrHF info)) \<and>
        MinRaw c = take (ColibriPath_Len p) b" by blast
next
  assume "\<exists>p info. ColibriPath_DecodeFromBytes (full_receiver c0) b = Inr p \<and> ColInfoField p = Some info \<and> ColCurrHF info < HFCount info"
  then show "\<exists>c. ColibriMin_DecodeFromBytes c0 b = Inr c" using ColibriMin_Decode_of_full by blast
qed (use ColibriMin_Decode_rep [of c0 b] in \<open>fastforce simp: full_receiver_def\<close>)

definition demo_min :: colibri_min where
  "demo_min = \<lparr>MinTimestamp = replicate 8 0, MinInfoField = None, CurrHopField = None, MinRaw = [],
     MinSrc = None, MinDst = None\<rparr>"

lemma ColibriMin_Decode_iff_example:
  "\<exists>c. ColibriMin_DecodeFromBytes demo_min (colibri_bytes demo_colibri) = Inr c \<and>
     CurrHopField c = Some \<lparr>IngressId = 0, EgressId = 1, ColMac = [1, 2, 3, 4]\<rparr>"
proof -
  obtain info where i: "ColInfoField demo_colibri = Some info" "ColCurrHF info < HFCount info" "ColCurrHF info = 0"
    by (simp add: demo_colibri_def)
  have f: "ColibriPath_DecodeFromBytes (full_receiver demo_min) (colibri_bytes demo_colibri) =
      Inr (demo_colibri\<lparr>ColSrc := None, ColDst := None\<rparr>)"
    using ColibriPath_Decode_bytes [OF demo_colibri_wf, of "full_receiver demo_min" "[]"]
    by (simp add: full_receiver_def demo_min_def)
  with ColibriMin_Decode_iff [of demo_min "colibri_bytes demo_colibri"] i
  obtain c where c: "ColibriMin_DecodeFromBytes demo_min (colibri_bytes demo_colibri) = Inr c" by auto
  with ColibriMin_Decode_iff [of demo_min "colibri_bytes demo_colibri"] f i
  have "CurrHopField c = Some (ColHopFields demo_colibri ! 0)" by auto
  with c show ?thesis by (simp add: demo_colibri_def)
qed

section \<open>Paths with their endpoints as bytes\<close>

text \<open>The byte form of a minimal path with its endpoints is the two endpoints, each behind its
  length, followed by the path; reading it back gives the path with its endpoints, nil ones included.\<close>

lemma ColibriMin_bytes_roundtrip:
  assumes "colibri_wf p" "min_rep c p" "ColInfoField p = Some info" "ColCurrHF info < HFCount info"
    "CurrHopField c = Some (ColHopFields p ! unat (ColCurrHF info))"
    "\<And>e. MinSrc c = Some e \<Longrightarrow> endpoint_wf e" "\<And>e. MinDst c = Some e \<Longrightarrow> endpoint_wf e"
  shows "\<exists>c'. ColibriMin_ToBytes c =
      Inr (c', endpoint_bytes (MinSrc c) @ endpoint_bytes (MinDst c) @ colibri_bytes p) \<and>
    ColibriMin_FromBytes c0 (endpoint_bytes (MinSrc c) @ endpoint_bytes (MinDst c) @ colibri_bytes p) = Inr c'"
proof -
  let ?s = "endpoint_bytes (MinSrc c)" and ?d = "endpoint_bytes (MinDst c)" and ?c = "c\<lparr>MinRaw := colibri_bytes p\<rparr>"
  have ls: "unat (Endpoint_Len (MinSrc c)) = length ?s" and ld: "unat (Endpoint_Len (MinDst c)) = length ?d"
    using Endpoint_Len_bytes assms(6,7) by metis+
  have lp: "ColibriMin_Len c = length (colibri_bytes p)" "ColibriPath_Len p = length (colibri_bytes p)"
    using ColibriMin_Len_rep [OF assms(1,2)] length_colibri_bytes [OF assms(1)] by auto
  have "ColibriMin_ToBytes c = Inr (?c, ?s @ ?d @ colibri_bytes p)"
    using ls ld lp Endpoint_SerializeTo_ok ColibriMin_Serialize_rep [OF assms(1,2)]
    by (simp add: ColibriMin_ToBytes_def Let_def put_at_0) (simp add: put_at_def)
  moreover have "ColibriMin_FromBytes c0 (?s @ ?d @ colibri_bytes p) =
      ColibriMin_DecodeFromBytes (c0\<lparr>MinSrc := MinSrc c, MinDst := MinDst c\<rparr>) (colibri_bytes p)"
    using NewEndpointFromSerialized_bytes [of "MinSrc c" "?d @ colibri_bytes p"] assms(6,7)
      NewEndpointFromSerialized_bytes [of "MinDst c" "colibri_bytes p"] ls ld
    by (simp add: ColibriMin_FromBytes_def slice_def)
  moreover have "ColibriMin_DecodeFromBytes (c0\<lparr>MinSrc := MinSrc c, MinDst := MinDst c\<rparr>) (colibri_bytes p) = Inr ?c"
  proof -
    let ?recv = "c0\<lparr>MinSrc := MinSrc c, MinDst := MinDst c\<rparr>"
    have f: "ColibriPath_DecodeFromBytes (full_receiver ?recv) (colibri_bytes p) = Inr p"
      using ColibriPath_Decode_bytes [OF assms(1), of "full_receiver ?recv" "[]"] assms(2)
      by (cases p) (simp add: full_receiver_def min_rep_def)
    obtain c' where c': "ColibriMin_DecodeFromBytes ?recv (colibri_bytes p) = Inr c'"
      using ColibriMin_Decode_of_full [OF f assms(3,4)] by blast
    with ColibriMin_Decode_rep [OF c'] f assms(3) have r: "min_rep c' p"
      "CurrHopField c' = Some (ColHopFields p ! unat (ColCurrHF info))"
      by (auto simp: full_receiver_def)
    have "MinRaw c' = colibri_bytes p"
      using ColibriMin_Decode_raw [OF c' r(1)] lp by simp
    then have "c' = ?c"
      using r assms(2,5) by (intro colibri_min.equality) (simp_all add: min_rep_def)
    with c' show ?thesis by simp
  qed
  ultimately show ?thesis by (intro exI [of _ ?c]) simp
qed

lemma ColibriMin_bytes_roundtrip_example:
  "\<exists>c c' bs. ColibriPath_ToMinimal demo_colibri = Inr c \<and> ColibriMin_ToBytes c = Inr (c', bs) \<and>
     ColibriMin_FromBytes demo_min bs = Inr c'"
proof -
  obtain info where i: "ColInfoField demo_colibri = Some info" "ColCurrHF info < HFCount info"
    by (simp add: demo_colibri_def)
  obtain c where c: "ColibriPath_ToMinimal demo_colibri = Inr c" "min_rep c demo_colibri"
    "CurrHopField c = Some (ColHopFields demo_colibri ! unat (ColCurrHF info))"
    using ToMinimal_rep [OF demo_colibri_wf i] by blast
  then have "MinSrc c = Some e \<Longrightarrow> endpoint_wf e" "MinDst c = Some e \<Longrightarrow> endpoint_wf e" for e
    by (auto simp: min_rep_def demo_colibri_def endpoint_wf_def)
  with ColibriMin_bytes_roundtrip [OF demo_colibri_wf c(2) i c(3), of demo_min] c(1) show ?thesis by blast
qed

end
