(* ===== verification/Path_Types.thy ===== *)
theory Path_Types
  imports Scion_Path Colibri_Path
begin

unbundle bit_operations_syntax

text \<open>
  The other path types (go/lib/slayers/path/{empty,onehop,epic}), the \<open>path.Path\<close> interface as a
  datatype with one constructor per implementation and a dispatching function per method, and the
  registry of path types (go/lib/slayers/path/path.go), a state of 256 entries and the strictness flag.
\<close>

section \<open>One-hop paths (onehop.go)\<close>

definition OneHop_PathLen :: nat where "OneHop_PathLen = InfoLen + 2 * HopLen"
definition OneHop_PathType :: u8 where "OneHop_PathType = 2"

record onehop_path =
  Info :: info_field
  FirstHop :: hop_field
  SecondHop :: hop_field

definition OneHop_DecodeFromBytes :: "bytes \<Rightarrow> onehop_path res" where
  "OneHop_DecodeFromBytes data =
     (if length data < OneHop_PathLen then Inl (Err ''buffer too short for OneHop path'')
      else
       rbind (gslice 0 InfoLen data) (\<lambda>w. rbind (InfoField_DecodeFromBytes w) (\<lambda>info.
       let offset = InfoLen in
       rbind (gslice offset (offset + HopLen) data) (\<lambda>w. rbind (HopField_DecodeFromBytes w) (\<lambda>h1.
       let offset = offset + HopLen in
       rbind (gslice offset (offset + HopLen) data) (\<lambda>w. rbind (HopField_DecodeFromBytes w) (\<lambda>h2.
       Inr \<lparr>Info = info, FirstHop = h1, SecondHop = h2\<rparr>)))))))"

definition OneHop_SerializeTo :: "onehop_path \<Rightarrow> bytes \<Rightarrow> bytes res" where
  "OneHop_SerializeTo o' b =
     (if length b < OneHop_PathLen then Inl (Err ''buffer too short for OneHop path'')
      else
       rbind (gslice 0 InfoLen b) (\<lambda>w. rbind (InfoField_SerializeTo (Info o') w) (\<lambda>w.
       let b = put_at 0 w b; offset = InfoLen in
       rbind (gslice offset (offset + HopLen) b) (\<lambda>w. rbind (HopField_SerializeTo (FirstHop o') w) (\<lambda>w.
       let b = put_at offset w b; offset = offset + HopLen in
       rbind (gslice offset (offset + HopLen) b) (\<lambda>w. rbind (HopField_SerializeTo (SecondHop o') w) (\<lambda>w.
       Inr (put_at offset w b))))))))"

definition ToSCIONDecoded :: "onehop_path \<Rightarrow> decoded_path res" where
  "ToSCIONDecoded o' =
     (if ConsIngress (SecondHop o') = 0 then Inl (Err ''incomplete path can't be converted'')
      else Inr \<lparr>
        PathMeta = \<lparr>CurrINF = 0, CurrHF = 0, SegLen = [2, 0, 0]\<rparr>, NumINF = 1, NumHops = 2,
        InfoFields = [\<lparr>Peer = False, ConsDir = True, SegID = SegID (Info o'), Timestamp = Timestamp (Info o')\<rparr>],
        HopFields = [
          \<lparr>IngressRouterAlert = IngressRouterAlert (FirstHop o'), EgressRouterAlert = EgressRouterAlert (FirstHop o'),
           ExpTime = ExpTime (FirstHop o'), ConsIngress = ConsIngress (FirstHop o'),
           ConsEgress = ConsEgress (FirstHop o'), Mac = Mac (FirstHop o')\<rparr>,
          \<lparr>IngressRouterAlert = IngressRouterAlert (SecondHop o'), EgressRouterAlert = EgressRouterAlert (SecondHop o'),
           ExpTime = ExpTime (SecondHop o'), ConsIngress = ConsIngress (SecondHop o'),
           ConsEgress = ConsEgress (SecondHop o'), Mac = Mac (SecondHop o')\<rparr>]\<rparr>)"

text \<open>\<open>None\<close> is the nil path \<open>Decoded.Reverse\<close> returns for an empty path.\<close>

definition OneHop_Reverse :: "onehop_path \<Rightarrow> decoded_path option res" where
  "OneHop_Reverse o' = (case ToSCIONDecoded o' of
       Inl e \<Rightarrow> Inl (WrapErr ''converting to scion path'' e)
     | Inr sp \<Rightarrow> (case Base_IncPath sp of
           (_, Some e) \<Rightarrow> Inl (WrapErr ''incrementing path'' e)
         | (sp', None) \<Rightarrow> Decoded_Reverse sp'))"

section \<open>EPIC paths (epic.go)\<close>

definition Epic_PathType :: u8 where "Epic_PathType = 3"
definition MetadataLen :: nat where "MetadataLen = 16"
definition PktIDLen :: nat where "PktIDLen = 8"
definition HVFLen :: nat where "HVFLen = 4"

record pkt_id =
  PktTimestamp :: u32
  PktCounter :: u32

definition PktID_DecodeFromBytes :: "bytes \<Rightarrow> pkt_id res" where
  "PktID_DecodeFromBytes raw =
     rbind (gslice 0 4 raw) (\<lambda>w1. rbind (gslice 4 8 raw) (\<lambda>w2.
     Inr \<lparr>PktTimestamp = Uint32 w1, PktCounter = Uint32 w2\<rparr>))"

definition PktID_SerializeTo :: "pkt_id \<Rightarrow> bytes \<Rightarrow> bytes res" where
  "PktID_SerializeTo i b =
     rbind (gslice 0 4 b) (\<lambda>_. rbind (gslice 4 8 b) (\<lambda>_.
     Inr (put_at 4 (PutUint32 (PktCounter i)) (put_at 0 (PutUint32 (PktTimestamp i)) b))))"

record epic_path =
  PktID :: pkt_id
  PHVF :: bytes
  LHVF :: bytes
  ScionPath :: "raw_path option"

definition Epic_Len :: "epic_path \<Rightarrow> nat" where
  "Epic_Len p = (case ScionPath p of None \<Rightarrow> MetadataLen | Some sp \<Rightarrow> MetadataLen + path_Len sp)"

definition Epic_SerializeTo :: "epic_path \<Rightarrow> bytes \<Rightarrow> (epic_path \<times> bytes) res" where
  "Epic_SerializeTo p b =
     (if length b < Epic_Len p then Inl (Err ''buffer too small to serialize path.'')
      else if length (PHVF p) \<noteq> HVFLen then Inl (Err ''invalid length of PHVF'')
      else if length (LHVF p) \<noteq> HVFLen then Inl (Err ''invalid length of LHVF'')
      else (case ScionPath p of
          None \<Rightarrow> Inl (Err ''SCION path is nil'')
        | Some sp \<Rightarrow>
            rbind (gslice 0 PktIDLen b) (\<lambda>w. rbind (PktID_SerializeTo (PktID p) w) (\<lambda>w.
            let b = put_at 0 w b;
                b = put_at PktIDLen (PHVF p) b;
                b = put_at (PktIDLen + HVFLen) (LHVF p) b
            in rbind (gslice MetadataLen (length b) b) (\<lambda>w. rbind (Raw_SerializeTo sp w) (\<lambda>(sp', w).
            Inr (p\<lparr>ScionPath := Some sp'\<rparr>, put_at MetadataLen w b)))))))"

definition Epic_DecodeFromBytes :: "bytes \<Rightarrow> epic_path res" where
  "Epic_DecodeFromBytes b =
     (if length b < MetadataLen then Inl (Err ''EPIC Path raw too short'')
      else
       rbind (gslice 0 PktIDLen b) (\<lambda>w. rbind (PktID_DecodeFromBytes w) (\<lambda>i.
       rbind (gslice MetadataLen (length b) b) (\<lambda>w. rbind (Raw_DecodeFromBytes w) (\<lambda>sp.
       Inr \<lparr>PktID = i,
            PHVF = go_copy (replicate HVFLen 0) (slice PktIDLen (PktIDLen + HVFLen) b),
            LHVF = go_copy (replicate HVFLen 0) (slice (PktIDLen + HVFLen) MetadataLen b),
            ScionPath = Some sp\<rparr>)))))"

definition Epic_Reverse :: "epic_path \<Rightarrow> epic_path res" where
  "Epic_Reverse p = (case ScionPath p of
       None \<Rightarrow> Inl (Err ''scion subpath must not be nil'')
     | Some sp \<Rightarrow> rbind (Raw_Reverse sp) (\<lambda>sp'. Inr (p\<lparr>ScionPath := Some sp'\<rparr>)))"

section \<open>Empty paths (empty.go)\<close>

definition Empty_PathLen :: nat where "Empty_PathLen = 0"
definition Empty_PathType :: u8 where "Empty_PathType = 0"

definition Empty_DecodeFromBytes :: "bytes \<Rightarrow> unit res" where
  "Empty_DecodeFromBytes r = (if length r \<noteq> 0 then Inl (Err ''decoding an empty path'') else Inr ())"

section \<open>The Path interface (path.go)\<close>

definition Scion_PathType :: u8 where "Scion_PathType = 1"
definition Colibri_PathType :: u8 where "Colibri_PathType = 4"

text \<open>Opaque paths of unknown types; \<open>NewPath\<close> leaves \<open>pathType\<close> zero.\<close>

record opaque_path =
  raw :: bytes
  pathType :: u8

datatype path_val =
    EmptyPath
  | ScionRaw raw_path
  | ScionDecoded decoded_path
  | OneHop onehop_path
  | Epic epic_path
  | Colibri colibri_path
  | ColibriMinimal colibri_min
  | OpaquePath opaque_path

fun Path_Len :: "path_val \<Rightarrow> nat" where
  "Path_Len EmptyPath = Empty_PathLen"
| "Path_Len (ScionRaw p) = path_Len p"
| "Path_Len (ScionDecoded p) = path_Len p"
| "Path_Len (OneHop p) = OneHop_PathLen"
| "Path_Len (Epic p) = Epic_Len p"
| "Path_Len (Colibri p) = ColibriPath_Len p"
| "Path_Len (ColibriMinimal p) = ColibriMin_Len p"
| "Path_Len (OpaquePath p) = length (raw p)"

fun Path_Type :: "path_val \<Rightarrow> u8" where
  "Path_Type EmptyPath = Empty_PathType"
| "Path_Type (ScionRaw p) = Scion_PathType"
| "Path_Type (ScionDecoded p) = Scion_PathType"
| "Path_Type (OneHop p) = OneHop_PathType"
| "Path_Type (Epic p) = Epic_PathType"
| "Path_Type (Colibri p) = Colibri_PathType"
| "Path_Type (ColibriMinimal p) = Colibri_PathType"
| "Path_Type (OpaquePath p) = pathType p"

text \<open>\<open>SerializeTo\<close> returns the path too: three types keep a raw copy that it updates.\<close>

fun Path_SerializeTo :: "path_val \<Rightarrow> bytes \<Rightarrow> (path_val \<times> bytes) res" where
  "Path_SerializeTo EmptyPath b = Inr (EmptyPath, b)"
| "Path_SerializeTo (ScionRaw p) b = rbind (Raw_SerializeTo p b) (\<lambda>(p', b'). Inr (ScionRaw p', b'))"
| "Path_SerializeTo (ScionDecoded p) b = rbind (Decoded_SerializeTo p b) (\<lambda>b'. Inr (ScionDecoded p, b'))"
| "Path_SerializeTo (OneHop p) b = rbind (OneHop_SerializeTo p b) (\<lambda>b'. Inr (OneHop p, b'))"
| "Path_SerializeTo (Epic p) b = rbind (Epic_SerializeTo p b) (\<lambda>(p', b'). Inr (Epic p', b'))"
| "Path_SerializeTo (Colibri p) b = rbind (ColibriPath_SerializeTo p b) (\<lambda>b'. Inr (Colibri p, b'))"
| "Path_SerializeTo (ColibriMinimal p) b =
     rbind (ColibriMin_SerializeTo p b) (\<lambda>(p', b'). Inr (ColibriMinimal p', b'))"
| "Path_SerializeTo (OpaquePath p) b = Inr (OpaquePath p, go_copy b (raw p))"

text \<open>\<open>BuildFromHeader\<close>: the COLIBRI types take their endpoints from the header, every other type
  only decodes the bytes.\<close>

fun Path_BuildFromHeader :: "path_val \<Rightarrow> bytes \<Rightarrow> 'a header_scheme \<Rightarrow> path_val res" where
  "Path_BuildFromHeader EmptyPath b sc = rbind (Empty_DecodeFromBytes b) (\<lambda>_. Inr EmptyPath)"
| "Path_BuildFromHeader (ScionRaw p) b sc = rbind (Raw_DecodeFromBytes b) (\<lambda>p. Inr (ScionRaw p))"
| "Path_BuildFromHeader (ScionDecoded p) b sc = rbind (Decoded_DecodeFromBytes b) (\<lambda>p. Inr (ScionDecoded p))"
| "Path_BuildFromHeader (OneHop p) b sc = rbind (OneHop_DecodeFromBytes b) (\<lambda>p. Inr (OneHop p))"
| "Path_BuildFromHeader (Epic p) b sc = rbind (Epic_DecodeFromBytes b) (\<lambda>p. Inr (Epic p))"
| "Path_BuildFromHeader (Colibri p) b sc = rbind (ColibriPath_BuildFromHeader p b sc) (\<lambda>p. Inr (Colibri p))"
| "Path_BuildFromHeader (ColibriMinimal p) b sc =
     rbind (ColibriMin_BuildFromHeader p b sc) (\<lambda>p. Inr (ColibriMinimal p))"
| "Path_BuildFromHeader (OpaquePath p) b sc = Inr (OpaquePath (p\<lparr>raw := b\<rparr>))"

fun Path_SyncWithScionHeader :: "path_val \<Rightarrow> 'a header_scheme \<Rightarrow> (path_val \<times> 'a header_scheme) res" where
  "Path_SyncWithScionHeader (Colibri p) h =
     rbind (ColibriPath_SyncWithScionHeader p h) (\<lambda>(p, h). Inr (Colibri p, h))"
| "Path_SyncWithScionHeader (ColibriMinimal p) h =
     rbind (ColibriMin_SyncWithScionHeader p h) (\<lambda>(p, h). Inr (ColibriMinimal p, h))"
| "Path_SyncWithScionHeader p h = Inr (p, h)"

text \<open>\<open>None\<close> is the nil path.\<close>

fun Path_Reverse :: "path_val \<Rightarrow> path_val option res" where
  "Path_Reverse EmptyPath = Inr (Some EmptyPath)"
| "Path_Reverse (ScionRaw p) = rbind (Raw_Reverse p) (\<lambda>p. Inr (Some (ScionRaw p)))"
| "Path_Reverse (ScionDecoded p) = rbind (Decoded_Reverse p) (\<lambda>p. Inr (map_option ScionDecoded p))"
| "Path_Reverse (OneHop p) = rbind (OneHop_Reverse p) (\<lambda>p. Inr (map_option ScionDecoded p))"
| "Path_Reverse (Epic p) = rbind (Epic_Reverse p) (\<lambda>p. Inr (Some (Epic p)))"
| "Path_Reverse (Colibri p) = rbind (ColibriPath_Reverse p) (\<lambda>p. Inr (Some (Colibri p)))"
| "Path_Reverse (ColibriMinimal p) = rbind (ColibriMin_Reverse p) (\<lambda>p. Inr (Some (ColibriMinimal p)))"
| "Path_Reverse (OpaquePath p) = Inl (Err ''not supported'')"

section \<open>The registry (path.go)\<close>

record path_metadata =
  MetaType :: u8
  Desc :: string
  New :: path_val

record path_registry =
  registeredPaths :: "u8 \<Rightarrow> path_metadata option"
  strictDecoding :: bool

definition registry_init :: path_registry where
  "registry_init = \<lparr>registeredPaths = (\<lambda>_. None), strictDecoding = True\<rparr>"

definition RegisterPath :: "path_metadata \<Rightarrow> path_registry \<Rightarrow> path_registry res" where
  "RegisterPath pathMeta r =
     (if registeredPaths r (MetaType pathMeta) \<noteq> None then Inl (Panic ''path type already registered'')
      else Inr (r\<lparr>registeredPaths := (registeredPaths r)(MetaType pathMeta := Some pathMeta)\<rparr>))"

definition StrictDecoding :: "bool \<Rightarrow> path_registry \<Rightarrow> path_registry" where
  "StrictDecoding strict r = r\<lparr>strictDecoding := strict\<rparr>"

definition NewPath :: "path_registry \<Rightarrow> u8 \<Rightarrow> path_val res" where
  "NewPath r t = (case registeredPaths r t of
       None \<Rightarrow> (if strictDecoding r then Inl (Err ''unsupported path'')
                else Inr (OpaquePath \<lparr>raw = [], pathType = 0\<rparr>))
     | Some pm \<Rightarrow> Inr (New pm))"

definition Type_String :: "path_registry \<Rightarrow> u8 \<Rightarrow> string" where
  "Type_String r t = (case registeredPaths r t of
       None \<Rightarrow> ''UNKNOWN ('' @ FormatUint (unat t) 10 @ '')''
     | Some pm \<Rightarrow> Desc pm @ '' ('' @ FormatUint (unat t) 10 @ '')'')"

text \<open>The zero values the constructors of the types start from, and their registrations.\<close>

definition raw_zero :: raw_path where
  "raw_zero = \<lparr>PathMeta = \<lparr>CurrINF = 0, CurrHF = 0, SegLen = [0, 0, 0]\<rparr>, NumINF = 0, NumHops = 0, Raw = []\<rparr>"

definition onehop_zero :: onehop_path where
  "onehop_zero = \<lparr>Info = info_zero, FirstHop = hop_zero, SecondHop = hop_zero\<rparr>"

definition epic_zero :: epic_path where
  "epic_zero = \<lparr>PktID = \<lparr>PktTimestamp = 0, PktCounter = 0\<rparr>, PHVF = [], LHVF = [], ScionPath = Some raw_zero\<rparr>"

definition colibri_min_zero :: colibri_min where
  "colibri_min_zero = \<lparr>MinTimestamp = replicate 8 0,
     MinInfoField = Some \<lparr>ColC = False, ColR = False, ColS = False, ColVer = 0, ColCurrHF = 0, HFCount = 0,
       ResIdSuffix = [], ExpTick = 0, BwCls = 0, Rlc = 0, OrigPayLen = 0\<rparr>,
     CurrHopField = Some \<lparr>IngressId = 0, EgressId = 0, ColMac = []\<rparr>,
     MinRaw = [], MinSrc = None, MinDst = None\<rparr>"

definition Empty_RegisterPath :: "path_registry \<Rightarrow> path_registry res" where
  "Empty_RegisterPath = RegisterPath \<lparr>MetaType = Empty_PathType, Desc = ''Empty'', New = EmptyPath\<rparr>"

definition Scion_RegisterPath :: "path_registry \<Rightarrow> path_registry res" where
  "Scion_RegisterPath = RegisterPath \<lparr>MetaType = Scion_PathType, Desc = ''SCION'', New = ScionRaw raw_zero\<rparr>"

definition OneHop_RegisterPath :: "path_registry \<Rightarrow> path_registry res" where
  "OneHop_RegisterPath = RegisterPath \<lparr>MetaType = OneHop_PathType, Desc = ''OneHop'', New = OneHop onehop_zero\<rparr>"

definition Epic_RegisterPath :: "path_registry \<Rightarrow> path_registry res" where
  "Epic_RegisterPath = RegisterPath \<lparr>MetaType = Epic_PathType, Desc = ''Epic'', New = Epic epic_zero\<rparr>"

definition Colibri_RegisterPath :: "path_registry \<Rightarrow> path_registry res" where
  "Colibri_RegisterPath =
     RegisterPath \<lparr>MetaType = Colibri_PathType, Desc = ''Colibri'', New = ColibriMinimal colibri_min_zero\<rparr>"

section \<open>One-hop paths\<close>

definition onehop_wf :: "onehop_path \<Rightarrow> bool" where
  "onehop_wf o' \<longleftrightarrow> hop_wf (FirstHop o') \<and> hop_wf (SecondHop o')"

definition onehop_bytes :: "onehop_path \<Rightarrow> bytes" where
  "onehop_bytes o' = info_bytes (Info o') @ hop_bytes (FirstHop o') @ hop_bytes (SecondHop o')"

lemma length_onehop_bytes [simp]: "onehop_wf o' \<Longrightarrow> length (onehop_bytes o') = OneHop_PathLen"
  by (simp add: onehop_bytes_def onehop_wf_def OneHop_PathLen_def)

lemma OneHop_Serialize_ok:
  assumes "onehop_wf o'" "OneHop_PathLen \<le> length b"
  shows "OneHop_SerializeTo o' b = Inr (put_at 0 (onehop_bytes o') b)"
proof -
  have l: "\<not> length b < OneHop_PathLen" "32 \<le> length b" "hop_wf (FirstHop o')" "hop_wf (SecondHop o')"
    "length (info_bytes (Info o')) = 8" "length (hop_bytes (FirstHop o')) = 12" "length (hop_bytes (SecondHop o')) = 12"
    using assms by (auto simp: OneHop_PathLen_def onehop_wf_def path_len_defs [symmetric])
      (auto simp: path_len_defs)
  have "put_at 20 (hop_bytes (SecondHop o')) (put_at 8 (hop_bytes (FirstHop o')) (put_at 0 (info_bytes (Info o')) b)) =
      put_at 0 (onehop_bytes o') b"
    using l by (simp add: put_at_def onehop_bytes_def path_len_defs)
  with l show ?thesis
    by (simp add: OneHop_SerializeTo_def Let_def infow.ser_ok hopw.ser_ok path_len_defs put_at_0)
qed

lemma OneHop_Decode_bytes:
  assumes "onehop_wf o'"
  shows "OneHop_DecodeFromBytes (onehop_bytes o' @ ys) = Inr o'"
proof -
  let ?b = "onehop_bytes o' @ ys"
  have l: "hop_wf (FirstHop o')" "hop_wf (SecondHop o')" "length (info_bytes (Info o')) = 8"
    "length (hop_bytes (FirstHop o')) = 12" "length (hop_bytes (SecondHop o')) = 12"
    using assms length_hop_bytes by (auto simp: onehop_wf_def path_len_defs)
  then have "slice 0 8 ?b = info_bytes (Info o')" "slice 8 20 ?b = hop_bytes (FirstHop o')"
    "slice 20 32 ?b = hop_bytes (SecondHop o')" "32 \<le> length ?b"
    by (simp_all add: slice_def onehop_bytes_def)
  then show ?thesis
    using l infow.dec_enc [of "Info o'" "[]"] hopw.dec_enc [of "FirstHop o'" "[]"] hopw.dec_enc [of "SecondHop o'" "[]"]
    by (simp add: OneHop_DecodeFromBytes_def OneHop_PathLen_def path_len_defs)
qed

interpretation onehopp: path_codec onehop_wf "\<lambda>_. OneHop_PathLen" OneHop_SerializeTo OneHop_DecodeFromBytes
proof
  fix p and b :: bytes assume "onehop_wf p" "OneHop_PathLen \<le> length b"
  then show "\<exists>b'. OneHop_SerializeTo p b = Inr b' \<and> length b' = length b \<and>
      drop OneHop_PathLen b' = drop OneHop_PathLen b \<and> OneHop_DecodeFromBytes (take OneHop_PathLen b') = Inr p"
    using OneHop_Decode_bytes [of p "[]"] by (simp add: OneHop_Serialize_ok put_at_0)
qed (simp add: OneHop_SerializeTo_def)

text \<open>Reversing a one-hop path at the receiver gives the SCION path of one segment with the two
  hop fields swapped and traversed against construction direction, positioned at its first hop; a
  path whose second hop has not been filled in is refused.\<close>

lemma OneHop_Reverse_correct:
  "OneHop_Reverse o' = (if ConsIngress (SecondHop o') = 0
     then Inl (WrapErr ''converting to scion path'' (Err ''incomplete path can't be converted''))
     else Inr (Some \<lparr>PathMeta = \<lparr>CurrINF = 0, CurrHF = 0, SegLen = [2, 0, 0]\<rparr>, NumINF = 1, NumHops = 2,
       InfoFields = [\<lparr>Peer = False, ConsDir = False, SegID = SegID (Info o'), Timestamp = Timestamp (Info o')\<rparr>],
       HopFields = [SecondHop o', FirstHop o']\<rparr>))"
  by (cases "ConsIngress (SecondHop o') = 0")
    (simp_all add: OneHop_Reverse_def ToSCIONDecoded_def Base_IncPath_def infIndexForHF_def Let_def
      Decoded_Reverse_def swap_range.simps flip_consdir_def numeral_2_eq_2 numeral_3_eq_3)

section \<open>Raw SCION paths as a path type\<close>

definition synced :: "raw_path \<Rightarrow> raw_path" where
  "synced r = r\<lparr>Raw := put_at 0 (PutUint32 (meta_line (PathMeta r))) (Raw r)\<rparr>"

definition raw_ok :: "raw_path \<Rightarrow> bool" where
  "raw_ok r \<longleftrightarrow> raw_wf r \<and> meta_wf (PathMeta r)"

lemma synced_facts:
  assumes "raw_ok r"
  shows "length (Raw (synced r)) = path_Len r" "raw_ok (synced r)" "path_Len (synced r) = path_Len r"
    "Raw_DecodeFromBytes (Raw (synced r)) = Inr (synced r)"
proof -
  have w: "raw_wf r" "meta_wf (PathMeta r)" using assms by (auto simp: raw_ok_def)
  show l: "length (Raw (synced r)) = path_Len r"
    using w raw_wf_MetaLen [OF w(1)] by (simp add: synced_def raw_wf_def MetaLen_def)
  show "path_Len (synced r) = path_Len r" by (simp add: synced_def)
  show "raw_ok (synced r)"
    using w raw_wf_Raw_update [OF w(1)] l by (auto simp: raw_ok_def synced_def raw_wf_def)
  show "Raw_DecodeFromBytes (Raw (synced r)) = Inr (synced r)"
    using Raw_Decode_synced [OF w] by (simp add: synced_def)
qed

lemma Raw_Serialize_ok:
  assumes "raw_ok r" "path_Len r \<le> length b"
  shows "Raw_SerializeTo r b = Inr (synced r, put_at 0 (Raw (synced r)) b)"
proof -
  have "Raw r \<noteq> []" using assms raw_wf_MetaLen [of r] by (auto simp: raw_ok_def MetaLen_def)
  moreover have "Raw_sync_meta r = Inr (synced r)"
    using assms Raw_sync_meta_ok [of r] by (simp add: raw_ok_def synced_def)
  ultimately show ?thesis
    using assms synced_facts(1) [OF assms(1)] by (simp add: Raw_SerializeTo_def go_copy_fits)
qed

section \<open>EPIC paths\<close>

definition epic_wf :: "epic_path \<Rightarrow> bool" where
  "epic_wf p \<longleftrightarrow> length (PHVF p) = HVFLen \<and> length (LHVF p) = HVFLen \<and>
     (\<exists>sp. ScionPath p = Some sp \<and> raw_ok sp)"

definition epic_synced :: "epic_path \<Rightarrow> epic_path" where
  "epic_synced p = p\<lparr>ScionPath := map_option synced (ScionPath p)\<rparr>"

definition epic_bytes :: "epic_path \<Rightarrow> bytes" where
  "epic_bytes p = PutUint32 (PktTimestamp (PktID p)) @ PutUint32 (PktCounter (PktID p)) @ PHVF p @ LHVF p @
     Raw (synced (the (ScionPath p)))"

lemmas epic_len_defs = MetadataLen_def PktIDLen_def HVFLen_def

lemma length_epic_bytes: "epic_wf p \<Longrightarrow> length (epic_bytes p) = Epic_Len p"
  by (auto simp: epic_wf_def epic_bytes_def Epic_Len_def epic_len_defs synced_facts)

lemma Epic_Serialize_ok:
  assumes "epic_wf p" "Epic_Len p \<le> length b"
  shows "Epic_SerializeTo p b = Inr (epic_synced p, put_at 0 (epic_bytes p) b)"
proof -
  from assms(1) obtain sp where sp: "ScionPath p = Some sp" "raw_ok sp" and
    h: "length (PHVF p) = 4" "length (LHVF p) = 4" by (auto simp: epic_wf_def epic_len_defs)
  have l: "16 + path_Len sp \<le> length b" using assms(2) sp by (simp add: Epic_Len_def epic_len_defs)
  let ?ids = "PutUint32 (PktTimestamp (PktID p)) @ PutUint32 (PktCounter (PktID p))"
  have ids: "PktID_SerializeTo (PktID p) (slice 0 8 b) = Inr ?ids"
    using l by (simp add: PktID_SerializeTo_def put_at_def)
  let ?b = "put_at 12 (LHVF p) (put_at 8 (PHVF p) (put_at 0 ?ids b))"
  have r: "Raw_SerializeTo sp (slice 16 (length b) ?b) =
      Inr (synced sp, put_at 0 (Raw (synced sp)) (slice 16 (length b) ?b))"
    using l h by (intro Raw_Serialize_ok [OF sp(2)]) simp
  have "put_at 16 (put_at 0 (Raw (synced sp)) (slice 16 (length b) ?b)) ?b = put_at 0 (epic_bytes p) b"
    using l h sp synced_facts(1) [OF sp(2)]
    by (simp add: put_at_def epic_bytes_def slice_def add.commute)
  with r ids h sp l show ?thesis
    by (simp add: Epic_SerializeTo_def epic_len_defs Epic_Len_def Let_def epic_synced_def)
qed

lemma Epic_Decode_bytes:
  assumes "epic_wf p"
  shows "Epic_DecodeFromBytes (epic_bytes p) = Inr (epic_synced p)"
proof -
  from assms obtain sp where sp: "ScionPath p = Some sp" "raw_ok sp" and
    h: "length (PHVF p) = 4" "length (LHVF p) = 4" by (auto simp: epic_wf_def epic_len_defs)
  let ?b = "epic_bytes p"
  have "slice 0 8 ?b = PutUint32 (PktTimestamp (PktID p)) @ PutUint32 (PktCounter (PktID p))"
    "slice 8 12 ?b = PHVF p" "slice 12 16 ?b = LHVF p" "slice 16 (length ?b) ?b = Raw (synced sp)"
    "16 \<le> length ?b"
    using h sp by (simp_all add: slice_def epic_bytes_def)
  moreover have "PktID_DecodeFromBytes (PutUint32 (PktTimestamp (PktID p)) @ PutUint32 (PktCounter (PktID p))) =
      Inr (PktID p)"
    by (simp add: PktID_DecodeFromBytes_def slice_def)
  ultimately show ?thesis
    using h sp synced_facts(4) [OF sp(2)] by (simp add: Epic_DecodeFromBytes_def epic_len_defs epic_synced_def)
qed


interpretation epicp: path_codec "\<lambda>p. epic_wf p \<and> epic_synced p = p" Epic_Len
  "\<lambda>p b. rbind (Epic_SerializeTo p b) (\<lambda>(_, b). Inr b)" Epic_DecodeFromBytes
proof
  fix p and b :: bytes assume p: "epic_wf p \<and> epic_synced p = p" "Epic_Len p \<le> length b"
  then show "\<exists>b'. rbind (Epic_SerializeTo p b) (\<lambda>(_, b). Inr b) = Inr b' \<and> length b' = length b \<and>
      drop (Epic_Len p) b' = drop (Epic_Len p) b \<and> Epic_DecodeFromBytes (take (Epic_Len p) b') = Inr p"
    using Epic_Decode_bytes [of p] length_epic_bytes [of p] by (simp add: Epic_Serialize_ok put_at_0)
qed (simp add: Epic_SerializeTo_def)

section \<open>Every path type\<close>

text \<open>The paths that can be put on the wire. A COLIBRI path must point to one of its hops.\<close>

fun path_wf :: "path_val \<Rightarrow> bool" where
  "path_wf EmptyPath = True"
| "path_wf (ScionRaw r) = raw_ok r"
| "path_wf (ScionDecoded d) = decoded_wf d"
| "path_wf (OneHop p) = onehop_wf p"
| "path_wf (Epic p) = epic_wf p"
| "path_wf (Colibri p) = (colibri_wf p \<and>
     (\<exists>info. ColInfoField p = Some info \<and> ColCurrHF info < HFCount info))"
| "path_wf (ColibriMinimal c) = (\<exists>p info. colibri_wf p \<and> min_rep c p \<and> ColInfoField p = Some info \<and>
     ColCurrHF info < HFCount info)"
| "path_wf (OpaquePath p) = True"

text \<open>What the receiver of a path sees: raw SCION paths and minimal COLIBRI paths, the latter with
  the endpoints of the header.\<close>

definition with_ends :: "'a header_scheme \<Rightarrow> colibri_path \<Rightarrow> colibri_path" where
  "with_ends sc p = p\<lparr>ColSrc := Some (NewEndpointWithRaw (SrcIA sc) (RawSrcAddr sc) (SrcAddrType sc) (SrcAddrLen sc)),
     ColDst := Some (NewEndpointWithRaw (DstIA sc) (RawDstAddr sc) (DstAddrType sc) (DstAddrLen sc))\<rparr>"

fun path_seen :: "'a header_scheme \<Rightarrow> path_val \<Rightarrow> path_val \<Rightarrow> bool" where
  "path_seen sc (ScionRaw r) q = (q = ScionRaw (synced r))"
| "path_seen sc (ScionDecoded d) q = (q = ScionRaw (raw_of d))"
| "path_seen sc (Epic p) q = (q = Epic (epic_synced p))"
| "path_seen sc (Colibri p) q = (\<exists>c. q = ColibriMinimal c \<and> min_rep c (with_ends sc p))"
| "path_seen sc (ColibriMinimal m) q =
     (\<exists>c p. q = ColibriMinimal c \<and> min_rep m p \<and> min_rep c (with_ends sc p))"
| "path_seen sc p q = (q = p)"

text \<open>The registry after the \<open>init\<close> function of slayers.\<close>

definition slayers_init :: "path_registry res" where
  "slayers_init =
     rbind (Empty_RegisterPath registry_init) (\<lambda>r.
     rbind (Scion_RegisterPath r) (\<lambda>r.
     rbind (OneHop_RegisterPath r) (\<lambda>r.
     rbind (Epic_RegisterPath r) Colibri_RegisterPath)))"

lemmas path_type_defs = Empty_PathType_def Scion_PathType_def OneHop_PathType_def Epic_PathType_def
  Colibri_PathType_def

lemma slayers_init_ok:
  "\<exists>r. slayers_init = Inr r \<and> strictDecoding r \<and>
     NewPath r 0 = Inr EmptyPath \<and> NewPath r 1 = Inr (ScionRaw raw_zero) \<and> NewPath r 2 = Inr (OneHop onehop_zero) \<and>
     NewPath r 3 = Inr (Epic epic_zero) \<and> NewPath r 4 = Inr (ColibriMinimal colibri_min_zero) \<and>
     (\<forall>t. t \<notin> {0, 1, 2, 3, 4} \<longrightarrow> registeredPaths r t = None)"
  by (simp add: slayers_init_def Empty_RegisterPath_def Scion_RegisterPath_def OneHop_RegisterPath_def
    Epic_RegisterPath_def Colibri_RegisterPath_def RegisterPath_def registry_init_def path_type_defs NewPath_def)

lemma slayers_new:
  assumes "slayers_init = Inr r"
  shows "NewPath r Empty_PathType = Inr EmptyPath" "NewPath r Scion_PathType = Inr (ScionRaw raw_zero)"
    "NewPath r OneHop_PathType = Inr (OneHop onehop_zero)" "NewPath r Epic_PathType = Inr (Epic epic_zero)"
    "NewPath r Colibri_PathType = Inr (ColibriMinimal colibri_min_zero)"
proof -
  from slayers_init_ok obtain r' where r': "slayers_init = Inr r'" "NewPath r' 0 = Inr EmptyPath"
    "NewPath r' 1 = Inr (ScionRaw raw_zero)" "NewPath r' 2 = Inr (OneHop onehop_zero)"
    "NewPath r' 3 = Inr (Epic epic_zero)" "NewPath r' 4 = Inr (ColibriMinimal colibri_min_zero)" by blast
  have "r' = r" using trans [OF sym [OF r'(1)] assms] by simp
  with r' show "NewPath r Empty_PathType = Inr EmptyPath" "NewPath r Scion_PathType = Inr (ScionRaw raw_zero)"
    "NewPath r OneHop_PathType = Inr (OneHop onehop_zero)" "NewPath r Epic_PathType = Inr (Epic epic_zero)"
    "NewPath r Colibri_PathType = Inr (ColibriMinimal colibri_min_zero)"
    by (simp_all add: path_type_defs)
qed

lemma colibri_seen:
  assumes "colibri_wf p" "ColInfoField p = Some info" "ColCurrHF info < HFCount info"
  shows "\<exists>c. ColibriMin_BuildFromHeader c0 (colibri_bytes p) sc = Inr c \<and> min_rep c (with_ends sc p)"
proof -
  let ?c = "c0\<lparr>MinSrc := ColSrc (with_ends sc p), MinDst := ColDst (with_ends sc p)\<rparr>"
  let ?r = "colibri_path_zero\<lparr>ColSrc := MinSrc ?c, ColDst := MinDst ?c\<rparr>"
  have f: "ColibriPath_DecodeFromBytes ?r (colibri_bytes p) = Inr (with_ends sc p)"
    using ColibriPath_Decode_bytes [OF assms(1), of ?r "[]"]
    by (simp add: with_ends_def)
  moreover have "ColInfoField (with_ends sc p) = Some info" using assms(2) by (simp add: with_ends_def)
  ultimately obtain c where "ColibriMin_DecodeFromBytes ?c (colibri_bytes p) = Inr c"
    using ColibriMin_Decode_of_full assms(3) by blast
  with ColibriMin_Decode_rep [of ?c "colibri_bytes p" c] f show ?thesis
    by (auto simp: ColibriMin_BuildFromHeader_def with_ends_def)
qed

lemma path_rt:
  assumes "path_wf p" "\<forall>q. p \<noteq> OpaquePath q" "length b = Path_Len p" "slayers_init = Inr r"
  shows "\<exists>p' b' q0 q. Path_SerializeTo p b = Inr (p', b') \<and> length b' = Path_Len p \<and>
     NewPath r (Path_Type p) = Inr q0 \<and> Path_BuildFromHeader q0 b' sc = Inr q \<and> path_seen sc p q"
proof -
  note new = slayers_new [OF assms(4)]
  show ?thesis
  proof (cases p)
    case EmptyPath
    with assms new show ?thesis by (auto simp: Empty_DecodeFromBytes_def Empty_PathLen_def)
  next
    case (ScionRaw x)
    with assms new synced_facts [of x] show ?thesis
      by (auto simp: Raw_Serialize_ok put_at_0)
  next
    case (ScionDecoded d)
    with assms new length_decoded_bytes [of d] Raw_Decode_bytes [of d] show ?thesis
      by (auto simp: Decoded_SerializeTo_eq put_at_0)
  next
    case (OneHop x)
    with assms new onehopp.exact_roundtrip [of x b] show ?thesis by auto
  next
    case (Epic x)
    with assms new length_epic_bytes [of x] show ?thesis
      by (auto simp: Epic_Serialize_ok put_at_0 Epic_Decode_bytes)
  next
    case (Colibri x)
    then obtain info where x: "colibri_wf x" "ColInfoField x = Some info" "ColCurrHF info < HFCount info"
      using assms(1) by auto
    obtain c where "ColibriMin_BuildFromHeader colibri_min_zero (colibri_bytes x) sc = Inr c"
      "min_rep c (with_ends sc x)" using colibri_seen [OF x] by blast
    with x Colibri assms(3) new length_colibri_bytes [OF x(1)] show ?thesis
      by (auto simp: ColibriPath_Serialize_ok put_at_0)
  next
    case (ColibriMinimal m)
    then obtain x info where x: "colibri_wf x" "min_rep m x" "ColInfoField x = Some info" "ColCurrHF info < HFCount info"
      using assms(1) by auto
    obtain c where c: "ColibriMin_BuildFromHeader colibri_min_zero (colibri_bytes x) sc = Inr c"
      "min_rep c (with_ends sc x)" using colibri_seen [OF x(1,3,4)] by blast
    have "ColibriMin_SerializeTo m b = Inr (m\<lparr>MinRaw := colibri_bytes x\<rparr>, colibri_bytes x)"
      using ColibriMin_Serialize_rep [OF x(1,2), of b] ColibriMin_Len_rep [OF x(1,2)] assms(3) ColibriMinimal
        length_colibri_bytes [OF x(1)] by (simp add: put_at_0)
    with c x assms(3,4) new ColibriMinimal ColibriMin_Len_rep [OF x(1,2)] length_colibri_bytes [OF x(1)]
    show ?thesis by auto
  qed (use assms in auto)
qed

text \<open>Claim C35. Every well-formed path, of whatever type, can be serialised into a buffer of exactly
  \<open>Len()\<close> bytes, and the constructor registered for its type rebuilds it from those bytes: the same
  path, or the raw or minimal form of it that the router works on.\<close>

theorem path_wire_roundtrip:
  assumes "path_wf p" "\<forall>q. p \<noteq> OpaquePath q" "length b = Path_Len p" "slayers_init = Inr r"
  shows "\<exists>p' b' q0 q. Path_SerializeTo p b = Inr (p', b') \<and> length b' = Path_Len p \<and>
     NewPath r (Path_Type p) = Inr q0 \<and> Path_BuildFromHeader q0 b' sc = Inr q \<and> path_seen sc p q"
  using path_rt [OF assms] .

theorem path_wire_roundtrip_witness:
  "\<exists>r p' b' q0 c. slayers_init = Inr r \<and>
     Path_SerializeTo (Colibri demo_colibri) (replicate 56 0) = Inr (p', b') \<and>
     NewPath r Colibri_PathType = Inr q0 \<and>
     Path_BuildFromHeader q0 b' \<lparr>Version = 0, TrafficClass = 0, FlowID = 1, NextHdr = 17, HdrLen = 0, PayloadLen = 0,
       DstAddrType = 0, DstAddrLen = 0, SrcAddrType = 0, SrcAddrLen = 0, DstIA = 1, SrcIA = 2,
       RawDstAddr = [1, 2, 3, 4], RawSrcAddr = [5, 6, 7, 8]\<rparr> = Inr (ColibriMinimal c)"
proof -
  obtain r where r: "slayers_init = Inr r" using slayers_init_ok by blast
  have "path_wf (Colibri demo_colibri)" using demo_colibri_wf by (simp add: demo_colibri_def)
  moreover have "Path_Len (Colibri demo_colibri) = 56"
    by (simp add: ColibriPath_Len_def demo_colibri_def col_len_defs)
  ultimately show ?thesis
    using path_wire_roundtrip [of "Colibri demo_colibri" "replicate 56 0", OF _ _ _ r] r by fastforce
qed

text \<open>Registering a path type twice panics and every other registration leaves the other types
  alone; the registrations of slayers succeed and make \<open>NewPath\<close> return a path of the requested
  type for each of the five types, and an error or an opaque path for every other one, depending on
  the strictness.\<close>

lemma path_registry_correct:
  "(registeredPaths r (MetaType m) \<noteq> None \<longleftrightarrow> is_panic (RegisterPath m r)) \<and>
   (registeredPaths r (MetaType m) = None \<longrightarrow> (\<exists>r'. RegisterPath m r = Inr r' \<and>
      NewPath r' (MetaType m) = Inr (New m) \<and> (\<forall>t. t \<noteq> MetaType m \<longrightarrow> NewPath r' t = NewPath r t))) \<and>
   (\<exists>s. slayers_init = Inr s \<and> (\<forall>t.
      (t \<le> 4 \<longrightarrow> (\<exists>p. NewPath s t = Inr p \<and> Path_Type p = t)) \<and>
      (4 < t \<longrightarrow> NewPath s t = Inl (Err ''unsupported path'') \<and>
         (\<exists>p. NewPath (StrictDecoding False s) t = Inr (OpaquePath p) \<and> raw p = []))))"
proof (intro conjI impI)
  obtain s where s: "slayers_init = Inr s" "strictDecoding s"
    "\<And>t. t \<notin> {0, 1, 2, 3, 4} \<Longrightarrow> registeredPaths s t = None"
    using slayers_init_ok by blast
  have "\<exists>p. NewPath s t = Inr p \<and> Path_Type p = t" if "t \<le> 4" for t
  proof -
    have "unat t \<in> {0, 1, 2, 3, 4}" using that by (auto simp: word_le_nat_alt)
    then have "word_of_nat (unat t) \<in> (word_of_nat ` {0, 1, 2, 3, 4} :: u8 set)" by (rule imageI)
    then have "t \<in> {Empty_PathType, Scion_PathType, OneHop_PathType, Epic_PathType, Colibri_PathType}"
      by (simp add: path_type_defs)
    with slayers_new [OF s(1)] show ?thesis by auto
  qed
  moreover have "NewPath s t = Inl (Err ''unsupported path'') \<and>
      (\<exists>p. NewPath (StrictDecoding False s) t = Inr (OpaquePath p) \<and> raw p = [])" if "4 < t" for t
  proof -
    have "t \<notin> {0, 1, 2, 3, 4}" using that by auto
    with s show ?thesis by (simp add: NewPath_def StrictDecoding_def)
  qed
  ultimately show "\<exists>s. slayers_init = Inr s \<and> (\<forall>t.
      (t \<le> 4 \<longrightarrow> (\<exists>p. NewPath s t = Inr p \<and> Path_Type p = t)) \<and>
      (4 < t \<longrightarrow> NewPath s t = Inl (Err ''unsupported path'') \<and>
         (\<exists>p. NewPath (StrictDecoding False s) t = Inr (OpaquePath p) \<and> raw p = [])))"
    using s(1) by blast
qed (auto simp: RegisterPath_def NewPath_def)

lemma path_registry_correct_example:
  "\<exists>s p. slayers_init = Inr s \<and> NewPath s 3 = Inr p \<and> Path_Type p = 3"
proof -
  have "(3 :: u8) \<le> 4" by simp
  with path_registry_correct [of registry_init undefined] show ?thesis by blast
qed

end
