(* ===== verification/Scion_Layer.thy ===== *)
theory Scion_Layer
  imports Path_Types
begin

unbundle bit_operations_syntax

text \<open>
  The SCION layer of a packet (go/lib/slayers/scion.go): serialisation and decoding of the common,
  address and path headers, the next-layer decisions and the checksum with the pseudo header.
  The buffer of gopacket is third-party code: \<open>PrependBytes(n)\<close> is the parameter \<open>alloc\<close>, which
  gives \<open>n\<close> bytes of any content in front of what the buffer holds.
\<close>

section \<open>Protocol numbers and layer types\<close>

definition L4UDP :: u8 where "L4UDP = 17"
definition L4SCMP :: u8 where "L4SCMP = 202"
definition L4BFD :: u8 where "L4BFD = 203"
definition HopByHopClass :: u8 where "HopByHopClass = 200"
definition End2EndClass :: u8 where "End2EndClass = 201"

lemmas l4_consts = L4UDP_def L4SCMP_def L4BFD_def HopByHopClass_def End2EndClass_def

datatype layer_type =
    LayerTypeHopByHopExtn
  | LayerTypeEndToEndExtn
  | LayerTypeSCIONUDP
  | LayerTypeSCMP
  | LayerTypeBFD
  | LayerTypePayload
  | LayerTypeDecodeFailure

definition scionNextLayerTypeL4 :: "u8 \<Rightarrow> layer_type" where
  "scionNextLayerTypeL4 t =
     (if t = L4UDP then LayerTypeSCIONUDP
      else if t = L4SCMP then LayerTypeSCMP
      else if t = L4BFD then LayerTypeBFD
      else LayerTypePayload)"

definition scionNextLayerType :: "u8 \<Rightarrow> layer_type" where
  "scionNextLayerType t =
     (if t = HopByHopClass then LayerTypeHopByHopExtn
      else if t = End2EndClass then LayerTypeEndToEndExtn
      else scionNextLayerTypeL4 t)"

definition scionNextLayerTypeAfterHBH :: "u8 \<Rightarrow> layer_type" where
  "scionNextLayerTypeAfterHBH t =
     (if t = HopByHopClass then LayerTypeDecodeFailure
      else if t = End2EndClass then LayerTypeEndToEndExtn
      else scionNextLayerTypeL4 t)"

definition scionNextLayerTypeAfterE2E :: "u8 \<Rightarrow> layer_type" where
  "scionNextLayerTypeAfterE2E t =
     (if t = HopByHopClass then LayerTypeDecodeFailure
      else if t = End2EndClass then LayerTypeDecodeFailure
      else scionNextLayerTypeL4 t)"

section \<open>The layer\<close>

definition LineLen :: nat where "LineLen = 4"
definition CmnHdrLen :: nat where "CmnHdrLen = 12"
definition SCIONVersion :: u8 where "SCIONVersion = 0"
definition IABytes :: nat where "IABytes = 8"

lemmas hdr_len_defs = LineLen_def CmnHdrLen_def IABytes_def

record scion = header +
  PathType :: u8
  SPath :: "path_val option"
  Contents :: bytes
  Payload :: bytes

definition NextLayerType :: "scion \<Rightarrow> layer_type" where
  "NextLayerType s = scionNextLayerType (NextHdr s)"

definition addrBytes :: "u8 \<Rightarrow> nat" where
  "addrBytes addrLen = (unat addrLen + 1) * LineLen"

definition AddrHdrLen :: "'a header_scheme \<Rightarrow> nat" where
  "AddrHdrLen s = 2 * IABytes + addrBytes (DstAddrLen s) + addrBytes (SrcAddrLen s)"

definition SerializeAddrHdr :: "'a header_scheme \<Rightarrow> bytes \<Rightarrow> bytes res" where
  "SerializeAddrHdr s buf =
     (if length buf < AddrHdrLen s then Inl (Err ''provided buffer is too small'')
      else let
        dstAddrBytes = addrBytes (DstAddrLen s);
        srcAddrBytes = addrBytes (SrcAddrLen s);
        offset = 0;
        buf = put_at offset (PutUint64 (DstIA s)) buf;
        offset = offset + IABytes;
        buf = put_at offset (PutUint64 (SrcIA s)) buf;
        offset = offset + IABytes;
        buf = put_at offset (go_copy (slice offset (offset + dstAddrBytes) buf) (RawDstAddr s)) buf;
        offset = offset + dstAddrBytes;
        buf = put_at offset (go_copy (slice offset (offset + srcAddrBytes) buf) (RawSrcAddr s)) buf
      in Inr buf)"

definition DecodeAddrHdr :: "'a header_scheme \<Rightarrow> bytes \<Rightarrow> 'a header_scheme res" where
  "DecodeAddrHdr s data =
     (if length data < AddrHdrLen s then Inl (Err ''provided buffer is too small'')
      else let
        offset = 0;
        dstIA = Uint64 (drop offset data);
        offset = offset + IABytes;
        srcIA = Uint64 (drop offset data);
        offset = offset + IABytes;
        dstAddrBytes = addrBytes (DstAddrLen s);
        srcAddrBytes = addrBytes (SrcAddrLen s);
        dst = slice offset (offset + dstAddrBytes) data;
        offset = offset + dstAddrBytes;
        src = slice offset (offset + srcAddrBytes) data
      in Inr (s\<lparr>DstIA := dstIA, SrcIA := srcIA, RawDstAddr := dst, RawSrcAddr := src\<rparr>))"

definition first_line :: "'a header_scheme \<Rightarrow> u32" where
  "first_line s = push_bit 28 (ucast (Version s AND 0xF)) OR push_bit 20 (ucast (TrafficClass s)) OR
     (FlowID s AND 0xFFFFF)"

definition addr_types :: "'a header_scheme \<Rightarrow> u8" where
  "addr_types s = push_bit 6 (DstAddrType s AND 3) OR push_bit 4 (DstAddrLen s AND 3) OR
     push_bit 2 (SrcAddrType s AND 3) OR (SrcAddrLen s AND 3)"

definition SCION_SerializeTo :: "(nat \<Rightarrow> bytes) \<Rightarrow> bool \<Rightarrow> scion \<Rightarrow> bytes \<Rightarrow> (scion \<times> bytes) res" where
  "SCION_SerializeTo alloc fixLengths s payload = (case SPath s of
       None \<Rightarrow> Inl (Panic ''nil pointer dereference'')
     | Some p \<Rightarrow> let
         scnLen = CmnHdrLen + AddrHdrLen s + Path_Len p;
         buf = alloc scnLen;
         s = (if fixLengths
              then s\<lparr>HdrLen := of_nat (scnLen div LineLen), PayloadLen := of_nat (length payload)\<rparr>
              else s)
       in rbind (Path_SyncWithScionHeader p s) (\<lambda>(p, s). let
         buf = put_at 0 (PutUint32 (first_line s)) buf;
         buf = buf[4 := NextHdr s];
         buf = buf[5 := HdrLen s];
         buf = put_at 6 (PutUint16 (PayloadLen s)) buf;
         buf = buf[8 := PathType s];
         buf = buf[9 := addr_types s];
         buf = put_at 10 (PutUint16 0) buf
       in rbind (gslice CmnHdrLen (length buf) buf) (\<lambda>w.
          rbind (SerializeAddrHdr s w) (\<lambda>w. let
            buf = put_at CmnHdrLen w buf;
            offset = CmnHdrLen + AddrHdrLen s
          in rbind (gslice offset (length buf) buf) (\<lambda>w.
             rbind (Path_SerializeTo p w) (\<lambda>(p, w).
             Inr (s\<lparr>SPath := Some p\<rparr>, put_at offset w buf @ payload)))))))"

definition SCION_DecodeFromBytes :: "path_registry \<Rightarrow> bytes \<Rightarrow> scion res" where
  "SCION_DecodeFromBytes reg data =
     (if length data < CmnHdrLen then Inl (Err ''packet is shorter than the common header length'')
      else let
        firstLine = Uint32 (slice 0 4 data);
        s = \<lparr>Version = ucast (drop_bit 28 firstLine),
             TrafficClass = ucast (drop_bit 20 firstLine AND 0xFF),
             FlowID = firstLine AND 0xFFFFF,
             NextHdr = data ! 4,
             HdrLen = data ! 5,
             PayloadLen = Uint16 (slice 6 8 data),
             DstAddrType = drop_bit 6 (data ! 9),
             DstAddrLen = drop_bit 4 (data ! 9) AND 3,
             SrcAddrType = drop_bit 2 (data ! 9) AND 3,
             SrcAddrLen = (data ! 9) AND 3,
             DstIA = 0, SrcIA = 0, RawDstAddr = [], RawSrcAddr = [],
             PathType = data ! 8, SPath = None, Contents = [], Payload = []\<rparr>
      in rbind (DecodeAddrHdr s (drop CmnHdrLen data)) (\<lambda>s. let
         addrHdrLen = AddrHdrLen s;
         offset = CmnHdrLen + addrHdrLen;
         hdrBytes = unat (HdrLen s) * LineLen
       in if hdrBytes < CmnHdrLen + addrHdrLen then Inl (Err ''invalid header, negative pathLen'')
          else let pathLen = hdrBytes - CmnHdrLen - addrHdrLen in
          if length data < offset + pathLen then Inl (Err ''provided buffer is too small'')
          else
           rbind (NewPath reg (PathType s)) (\<lambda>p.
           rbind (gslice offset (offset + pathLen) data) (\<lambda>w.
           rbind (Path_BuildFromHeader p w s) (\<lambda>p.
           Inr (s\<lparr>SPath := Some p, Contents := slice 0 hdrBytes data, Payload := drop hdrBytes data\<rparr>))))))"

section \<open>Checksum\<close>

text \<open>\<open>for i := 0; i < len(x); i += 2 { csum += uint32(x[i])<<8; csum += uint32(x[i+1]) }\<close>\<close>

fun sum_pairs :: "bytes \<Rightarrow> u32 \<Rightarrow> u32 res" where
  "sum_pairs [] csum = Inr csum"
| "sum_pairs [x] csum = Inl (Panic ''index out of range'')"
| "sum_pairs (x # y # xs) csum = sum_pairs xs (csum + push_bit 8 (ucast x) + ucast y)"

fun ia_pairs :: "nat list \<Rightarrow> bytes \<Rightarrow> bytes \<Rightarrow> u32 \<Rightarrow> u32" where
  "ia_pairs [] srcIA dstIA csum = csum"
| "ia_pairs (i # ks) srcIA dstIA csum = ia_pairs ks srcIA dstIA
     (csum + push_bit 8 (ucast (srcIA ! i)) + ucast (srcIA ! (i + 1)) +
      push_bit 8 (ucast (dstIA ! i)) + ucast (dstIA ! (i + 1)))"

definition pseudoHeaderChecksum :: "'a header_scheme \<Rightarrow> nat \<Rightarrow> u8 \<Rightarrow> u32 res" where
  "pseudoHeaderChecksum s len protocol =
     (if length (RawDstAddr s) = 0 then Inl (Err ''destination address missing'')
      else if length (RawSrcAddr s) = 0 then Inl (Err ''source address missing'')
      else let csum = ia_pairs [0, 2, 4, 6] (PutUint64 (SrcIA s)) (PutUint64 (DstIA s)) 0 in
       rbind (sum_pairs (RawSrcAddr s) csum) (\<lambda>csum.
       rbind (sum_pairs (RawDstAddr s) csum) (\<lambda>csum.
       let l = of_nat len :: u32 in
       Inr (csum + (drop_bit 16 l + (l AND 0xffff)) + ucast protocol))))"

fun upperLayerChecksum :: "bytes \<Rightarrow> u32 \<Rightarrow> u32" where
  "upperLayerChecksum [] csum = csum"
| "upperLayerChecksum [x] csum = csum + push_bit 8 (ucast x)"
| "upperLayerChecksum (x # y # xs) csum = upperLayerChecksum xs (csum + push_bit 8 (ucast x) + ucast y)"

lemma unat_fold:
  fixes csum :: u32
  shows "unat (drop_bit 16 csum + (csum AND 0xffff)) = unat csum div 65536 + unat csum mod 65536"
proof -
  have "csum AND 0xffff = take_bit 16 csum" by (simp add: take_bit_eq_mask mask_eq_exp_minus_1)
  moreover have "unat (drop_bit 16 csum) = unat csum div 65536" "unat (take_bit 16 csum) = unat csum mod 65536"
    by (simp_all add: drop_bit_eq_div take_bit_eq_mod unat_div_distrib unat_mod_distrib)
  moreover have "unat csum < 2 ^ LENGTH(32)" by (rule unsigned_less)
  then have "unat csum div 65536 + unat csum mod 65536 < 4294967296" by simp
  ultimately show ?thesis by (simp add: unat_word_ariths(1))
qed

function foldChecksum :: "u32 \<Rightarrow> u16" where
  "foldChecksum csum =
     (if csum > 0xffff then foldChecksum (drop_bit 16 csum + (csum AND 0xffff))
      else NOT (ucast csum))"
  by pat_completeness auto
termination
proof (relation "measure unat")
  fix csum :: u32 assume "0xffff < csum"
  then have "65535 < unat csum" by (simp add: word_less_nat_alt)
  then have "0 < unat csum div 65536" by (simp add: div_greater_zero_iff)
  moreover have "unat csum = 65536 * (unat csum div 65536) + unat csum mod 65536" by simp
  ultimately have "unat csum div 65536 + unat csum mod 65536 < unat csum" by linarith
  then show "(drop_bit 16 csum + (csum AND 0xffff), csum) \<in> measure unat"
    by (simp add: unat_fold)
qed simp

declare foldChecksum.simps [simp del]

definition computeChecksum :: "'a header_scheme \<Rightarrow> bytes \<Rightarrow> u8 \<Rightarrow> u16 res" where
  "computeChecksum s upperLayer protocol =
     rbind (pseudoHeaderChecksum s (length upperLayer) protocol) (\<lambda>csum.
     let csum = upperLayerChecksum upperLayer csum in
     Inr (foldChecksum csum))"

section \<open>The checksum\<close>

text \<open>The sum of the 16-bit big-endian words, an odd last byte being the high byte of a word.\<close>

fun pair_sum :: "bytes \<Rightarrow> nat" where
  "pair_sum [] = 0"
| "pair_sum [x] = 256 * unat x"
| "pair_sum (x # y # xs) = 256 * unat x + unat y + pair_sum xs"

lemma pair_sum_bound: "pair_sum xs \<le> 65535 * (length xs div 2 + length xs mod 2)"
proof (induction xs rule: pair_sum.induct)
  case (2 x)
  then show ?case using unat_u8_less [of x] by simp
next
  case (3 x y xs)
  then show ?case using unat_u8_less [of x] unat_u8_less [of y] by simp
qed simp

lemma upperLayerChecksum_sum: "upperLayerChecksum xs c = c + of_nat (pair_sum xs)"
  by (induction xs c rule: upperLayerChecksum.induct) (simp_all add: push_bit_eq_mult add_ac)

lemma sum_pairs_sum: "even (length xs) \<Longrightarrow> sum_pairs xs c = Inr (c + of_nat (pair_sum xs))"
  by (induction xs c rule: sum_pairs.induct) (simp_all add: push_bit_eq_mult add_ac)

lemma ia_pairs_sum:
  assumes "length a = 8" "length b = 8"
  shows "ia_pairs [0, 2, 4, 6] a b 0 = of_nat (pair_sum a + pair_sum b)"
  using assms by (auto simp: length_Suc_conv numeral_eq_Suc push_bit_eq_mult)

lemma foldChecksum_spec:
  "\<exists>r. foldChecksum c = NOT (of_nat r) \<and> r \<le> 65535 \<and> r mod 65535 = unat c mod 65535 \<and> (r = 0 \<longleftrightarrow> c = 0)"
proof (induction c rule: foldChecksum.induct)
  case (1 csum)
  show ?case
  proof (cases "csum > 0xffff")
    case True
    let ?c = "drop_bit 16 csum + (csum AND 0xffff)"
    have m: "unat ?c mod 65535 = unat csum mod 65535"
    proof -
      have "unat csum = unat csum div 65536 * 65535 + unat ?c" by (simp add: unat_fold)
      then have "unat csum mod 65535 = (unat csum div 65536 * 65535 + unat ?c) mod 65535"
        by (rule arg_cong)
      then show ?thesis by simp
    qed
    have "65535 < unat csum" using True by (simp add: word_less_nat_alt)
    then have "0 < unat csum div 65536" by (simp add: div_greater_zero_iff)
    then have "unat ?c \<noteq> 0" unfolding unat_fold by linarith
    then have "?c \<noteq> 0" "csum \<noteq> 0" using True by auto
    with 1 [OF True] m True show ?thesis by (simp add: foldChecksum.simps [of csum])
  next
    case False
    then have "unat csum \<le> 65535" by (simp add: word_less_nat_alt)
    moreover have "(ucast csum :: u16) = of_nat (unat csum)" by simp
    ultimately show ?thesis
      using False by (intro exI [of _ "unat csum"]) (simp add: foldChecksum.simps [of csum] unsigned_eq_0_iff)
  qed
qed

lemma foldChecksum_nat:
  assumes "N < 4294967296"
  shows "\<exists>r. foldChecksum (of_nat N) = NOT (of_nat r) \<and> r \<le> 65535 \<and> r mod 65535 = N mod 65535 \<and>
    (r = 0 \<longleftrightarrow> N = 0)"
proof -
  have u: "unat (of_nat N :: u32) = N" using assms by (simp add: unat_of_nat)
  have "(of_nat N :: u32) = 0 \<longleftrightarrow> N = 0"
  proof
    assume "(of_nat N :: u32) = 0"
    then have "unat (of_nat N :: u32) = 0" by simp
    with u show "N = 0" by simp
  qed simp
  with foldChecksum_spec [of "of_nat N"] u show ?thesis by simp
qed

lemma foldChecksum_zero:
  assumes "N < 4294967296" "0 < N" "N mod 65535 = 0"
  shows "foldChecksum (of_nat N) = 0"
proof -
  obtain r where r: "foldChecksum (of_nat N) = NOT (of_nat r)" "r \<le> 65535" "r mod 65535 = 0" "r \<noteq> 0"
    using foldChecksum_nat [OF assms(1)] assms(2,3) by auto
  then have "\<not> r < 65535" using mod_less [of r 65535] by force
  with r(2) have "r = 65535" by simp
  with r(1) show ?thesis by simp
qed

lemma unat_NOT_u16: "r \<le> 65535 \<Longrightarrow> unat (NOT (of_nat r :: u16)) = 65535 - r"
proof -
  assume "r \<le> 65535"
  then have r: "unat (of_nat r :: u16) = r" by (simp add: unat_of_nat)
  have "NOT (of_nat r :: u16) = 65535 - of_nat r" by (simp add: not_eq_complement)
  then show ?thesis using r \<open>r \<le> 65535\<close> by (simp add: unat_sub word_le_nat_alt)
qed

lemma pair_sum_put:
  "even i \<Longrightarrow> Suc i < length u \<Longrightarrow> u ! i = 0 \<Longrightarrow> u ! Suc i = 0 \<Longrightarrow>
   pair_sum (put_at i (PutUint16 c) u) = pair_sum u + unat c"
proof (induction u arbitrary: i rule: pair_sum.induct)
  case (3 x y xs)
  have c: "unat c = 256 * unat (ucast (drop_bit 8 c) :: u8) + unat (ucast c :: u8)"
  proof -
    have "unat c < 2 ^ LENGTH(16)" by (rule unsigned_less)
    then have "unat c div 256 < 256" by simp
    then have "unat (ucast (drop_bit 8 c) :: u8) = unat c div 256" "unat (ucast c :: u8) = unat c mod 256"
      by (simp_all add: unsigned_ucast_eq unat_drop_bit_eq take_bit_eq_mod drop_bit_eq_div unat_div_distrib)
    then show ?thesis by simp
  qed
  show ?case
  proof (cases i)
    case 0
    with 3 c show ?thesis by (simp add: put_at_def PutUint16_def)
  next
    case (Suc k)
    then obtain j where j: "i = Suc (Suc j)" using \<open>even i\<close> by (cases k) auto
    with 3 show ?thesis by (simp add: put_at_Cons)
  qed
qed simp_all


text \<open>The number the checksum of a packet is folded from.\<close>

definition csum_total :: "'a header_scheme \<Rightarrow> nat \<Rightarrow> u8 \<Rightarrow> nat" where
  "csum_total s len protocol = pair_sum (PutUint64 (SrcIA s)) + pair_sum (PutUint64 (DstIA s)) +
     pair_sum (RawSrcAddr s) + pair_sum (RawDstAddr s) + unat (of_nat len :: u32) div 65536 +
     unat (of_nat len :: u32) mod 65536 + unat protocol"

definition csum_addrs_ok :: "'a header_scheme \<Rightarrow> bool" where
  "csum_addrs_ok s \<longleftrightarrow> length (RawDstAddr s) \<in> {4, 8, 12, 16} \<and> length (RawSrcAddr s) \<in> {4, 8, 12, 16}"

lemma computeChecksum_total:
  assumes "csum_addrs_ok s"
  shows "computeChecksum s u protocol =
    Inr (foldChecksum (of_nat (csum_total s (length u) protocol + pair_sum u)))"
proof -
  let ?l = "of_nat (length u) :: u32"
  have e: "even (length (RawDstAddr s))" "even (length (RawSrcAddr s))" "RawDstAddr s \<noteq> []" "RawSrcAddr s \<noteq> []"
    using assms by (auto simp: csum_addrs_ok_def)
  have "drop_bit 16 ?l + (?l AND 0xffff) = of_nat (unat (drop_bit 16 ?l + (?l AND 0xffff)))" by simp
  then have l: "drop_bit 16 ?l + (?l AND 0xffff) = of_nat (unat ?l div 65536 + unat ?l mod 65536)"
    unfolding unat_fold .
  have p: "(ucast protocol :: u32) = of_nat (unat protocol)" by simp
  show ?thesis
    unfolding computeChecksum_def pseudoHeaderChecksum_def Let_def l p
      ia_pairs_sum [OF length_PutUint(3) length_PutUint(3)]
    using e by (simp add: sum_pairs_sum upperLayerChecksum_sum csum_total_def add_ac)
qed

lemma csum_total_bound:
  assumes "csum_addrs_ok s"
  shows "csum_total s len protocol \<le> 65535 * 30"
proof -
  have "pair_sum (PutUint64 (SrcIA s)) \<le> 65535 * 4" "pair_sum (PutUint64 (DstIA s)) \<le> 65535 * 4"
    using pair_sum_bound [of "PutUint64 (SrcIA s)"] pair_sum_bound [of "PutUint64 (DstIA s)"] by simp_all
  moreover have "pair_sum (RawSrcAddr s) \<le> 65535 * 8" "pair_sum (RawDstAddr s) \<le> 65535 * 8"
    using pair_sum_bound [of "RawSrcAddr s"] pair_sum_bound [of "RawDstAddr s"] assms
    by (auto simp: csum_addrs_ok_def)
  moreover have "unat (of_nat len :: u32) < 2 ^ LENGTH(32)" by (rule unsigned_less)
  then have "unat (of_nat len :: u32) div 65536 \<le> 65535" by simp
  moreover have "unat (of_nat len :: u32) mod 65536 \<le> 65535"
    using mod_less_divisor [of 65536 "unat (of_nat len :: u32)"] by simp
  moreover have "unat protocol \<le> 65535" using unat_u8_less [of protocol] by simp
  ultimately show ?thesis unfolding csum_total_def by linarith
qed

lemma checksum_rt:
  assumes "csum_addrs_ok s" "length u < 65536" "even i" "Suc i < length u" "u ! i = 0" "u ! Suc i = 0"
    "computeChecksum s u protocol = Inr c"
  shows "computeChecksum s (put_at i (PutUint16 c) u) protocol = Inr 0"
proof -
  let ?N = "csum_total s (length u) protocol + pair_sum u"
  have "pair_sum u \<le> 65535 * 32768"
  proof -
    have "length u div 2 + length u mod 2 \<le> 32768" using assms(2) by presburger
    then have "65535 * (length u div 2 + length u mod 2) \<le> 65535 * 32768" by (rule mult_le_mono2)
    with pair_sum_bound [of u] show ?thesis by (rule order_trans)
  qed
  with csum_total_bound [OF assms(1), of "length u" protocol] have N: "?N + 65535 < 4294967296" by linarith
  obtain r where r: "c = NOT (of_nat r)" "r \<le> 65535" "r mod 65535 = ?N mod 65535" "r = 0 \<longleftrightarrow> ?N = 0"
    using foldChecksum_nat [of ?N] assms(7) computeChecksum_total [OF assms(1), of u protocol] N
    by (metis add_lessD1 sum.inject(2))
  let ?N' = "?N + (65535 - r)"
  have new: "computeChecksum s (put_at i (PutUint16 c) u) protocol = Inr (foldChecksum (of_nat ?N'))"
    using computeChecksum_total [OF assms(1), of "put_at i (PutUint16 c) u" protocol] assms(3-6)
      pair_sum_put [OF assms(3-6), of c] unat_NOT_u16 [OF r(2)] r(1)
    by (simp add: add_ac)
  have u: "?N' < 4294967296" "0 < ?N'" using N r by auto
  have m: "?N' mod 65535 = 0"
  proof -
    have "?N' mod 65535 = (?N mod 65535 + (65535 - r)) mod 65535" by (simp add: mod_add_left_eq)
    also have "\<dots> = (r + (65535 - r)) mod 65535" unfolding r(3) [symmetric] by (simp add: mod_add_left_eq)
    finally show ?thesis using r(2) by simp
  qed
  show ?thesis using new foldChecksum_zero [OF u m] by simp
qed

text \<open>Claim C36. A packet whose checksum field holds the checksum that was computed with the field zero
  verifies: recomputing over the packet with the field filled in gives zero, wherever the field
  stands at an even offset of an upper layer of at most 64 KiB.\<close>

theorem computeChecksum_verifies:
  assumes "csum_addrs_ok s" "length u < 65536" "even i" "Suc i < length u" "u ! i = 0" "u ! Suc i = 0"
    "computeChecksum s u protocol = Inr c"
  shows "computeChecksum s (put_at i (PutUint16 c) u) protocol = Inr 0"
  using checksum_rt [OF assms] .

definition demo_header :: header where
  "demo_header = \<lparr>Version = 0, TrafficClass = 0, FlowID = 1, NextHdr = 17, HdrLen = 9, PayloadLen = 8,
     DstAddrType = 0, DstAddrLen = 0, SrcAddrType = 0, SrcAddrLen = 0, DstIA = 0x0001ff0000000110,
     SrcIA = 0x0002ff0000000220, RawDstAddr = [10, 0, 0, 1], RawSrcAddr = [10, 0, 0, 2]\<rparr>"

theorem computeChecksum_verifies_witness:
  "\<exists>c. computeChecksum demo_header [0, 80, 1, 187, 0, 0, 0, 0, 7] 17 = Inr c \<and>
     computeChecksum demo_header (put_at 6 (PutUint16 c) [0, 80, 1, 187, 0, 0, 0, 0, 7]) 17 = Inr 0"
proof -
  let ?u = "[0, 80, 1, 187, 0, 0, 0, 0, 7] :: bytes"
  have ok: "csum_addrs_ok demo_header" by (simp add: csum_addrs_ok_def demo_header_def)
  obtain c where c: "computeChecksum demo_header ?u 17 = Inr c"
    using computeChecksum_total [OF ok] by blast
  have "?u ! 6 = 0" "?u ! Suc 6 = 0" by (simp_all add: numeral_eq_Suc)
  with computeChecksum_verifies [OF ok, of ?u 6 17 c] c show ?thesis by auto
qed

section \<open>The header on the wire\<close>

definition hdr_wf :: "'a header_scheme \<Rightarrow> bool" where
  "hdr_wf s \<longleftrightarrow> Version s < 16 \<and> FlowID s < 2 ^ 20 \<and> DstAddrType s < 4 \<and> DstAddrLen s < 4 \<and>
     SrcAddrType s < 4 \<and> SrcAddrLen s < 4 \<and>
     length (RawDstAddr s) = addrBytes (DstAddrLen s) \<and> length (RawSrcAddr s) = addrBytes (SrcAddrLen s)"

definition cmn_bytes :: "scion \<Rightarrow> bytes" where
  "cmn_bytes s = PutUint32 (first_line s) @ [NextHdr s, HdrLen s] @ PutUint16 (PayloadLen s) @
     [PathType s, addr_types s, 0, 0]"

definition addr_hdr_bytes :: "'a header_scheme \<Rightarrow> bytes" where
  "addr_hdr_bytes s = PutUint64 (DstIA s) @ PutUint64 (SrcIA s) @ RawDstAddr s @ RawSrcAddr s"

lemma length_cmn_bytes [simp]: "length (cmn_bytes s) = 12"
  by (simp add: cmn_bytes_def)

lemma length_addr_hdr_bytes: "hdr_wf s \<Longrightarrow> length (addr_hdr_bytes s) = AddrHdrLen s"
  by (simp add: addr_hdr_bytes_def AddrHdrLen_def hdr_wf_def hdr_len_defs)

lemma SerializeAddrHdr_ok:
  assumes "hdr_wf s" "AddrHdrLen s \<le> length b"
  shows "SerializeAddrHdr s b = Inr (put_at 0 (addr_hdr_bytes s) b)"
proof -
  have l: "length (RawDstAddr s) = addrBytes (DstAddrLen s)" "length (RawSrcAddr s) = addrBytes (SrcAddrLen s)"
    "16 + length (RawDstAddr s) + length (RawSrcAddr s) \<le> length b"
    using assms by (auto simp: hdr_wf_def AddrHdrLen_def hdr_len_defs)
  let ?d = "addrBytes (DstAddrLen s)"
  have "put_at (16 + ?d) (RawSrcAddr s) (put_at 16 (RawDstAddr s)
      (put_at 8 (PutUint64 (SrcIA s)) (put_at 0 (PutUint64 (DstIA s)) b))) = put_at 0 (addr_hdr_bytes s) b"
    using l by (simp add: put_at_def addr_hdr_bytes_def add_ac)
  then show ?thesis
    using assms(2) l by (simp add: SerializeAddrHdr_def Let_def IABytes_def)
qed

lemma DecodeAddrHdr_bytes:
  assumes "hdr_wf s" "DstAddrLen r = DstAddrLen s" "SrcAddrLen r = SrcAddrLen s"
  shows "DecodeAddrHdr r (addr_hdr_bytes s @ ys) =
    Inr (r\<lparr>DstIA := DstIA s, SrcIA := SrcIA s, RawDstAddr := RawDstAddr s, RawSrcAddr := RawSrcAddr s\<rparr>)"
proof -
  have l: "length (RawDstAddr s) = addrBytes (DstAddrLen s)" "length (RawSrcAddr s) = addrBytes (SrcAddrLen s)"
    "AddrHdrLen r = AddrHdrLen s"
    using assms by (auto simp: hdr_wf_def AddrHdrLen_def)
  have "Uint64 (addr_hdr_bytes s @ ys) = DstIA s" "Uint64 (drop 8 (addr_hdr_bytes s @ ys)) = SrcIA s"
    "slice 16 (16 + addrBytes (DstAddrLen s)) (addr_hdr_bytes s @ ys) = RawDstAddr s"
    "slice (16 + addrBytes (DstAddrLen s)) (16 + addrBytes (DstAddrLen s) + addrBytes (SrcAddrLen s))
      (addr_hdr_bytes s @ ys) = RawSrcAddr s"
    using l by (simp_all add: addr_hdr_bytes_def Uint64_append slice_def)
  then show ?thesis
    using l assms(2,3) length_addr_hdr_bytes [OF assms(1)] by (simp add: DecodeAddrHdr_def Let_def IABytes_def)
qed

lemma first_line_fields:
  assumes "Version s < 16" "FlowID s < 2 ^ 20"
  shows "ucast (drop_bit 28 (first_line s)) = Version s"
    "ucast (drop_bit 20 (first_line s) AND 0xFF) = TrafficClass s"
    "first_line s AND 0xFFFFF = FlowID s"
proof -
  have v: "Version s AND 0xF = Version s" "FlowID s AND 0xFFFFF = FlowID s"
    "take_bit 4 (Version s) = Version s" "take_bit 20 (FlowID s) = FlowID s"
    using assms word_less_power_iff [of 20 "FlowID s"]
    by (simp_all add: u8_and_0f u8_less_16) (simp add: take_bit_eq_mask mask_eq_exp_minus_1)
  have m: "x AND 0xFF = take_bit 8 x" "x AND 0xFFFFF = take_bit 20 x" for x :: u32
    by (simp_all add: take_bit_eq_mask mask_eq_exp_minus_1)
  have b: "bit (FlowID s) n \<Longrightarrow> n < 20" "bit (Version s) n \<Longrightarrow> n < 4" for n
    using v(3,4) by (metis bit_take_bit_iff)+
  show "ucast (drop_bit 28 (first_line s)) = Version s"
    "ucast (drop_bit 20 (first_line s) AND 0xFF) = TrafficClass s"
    "first_line s AND 0xFFFFF = FlowID s"
    unfolding first_line_def v(1,2) m
    by (rule bit_word_eqI; auto simp: bit_simps dest: b)+
qed

lemma addr_types_fields:
  assumes "DstAddrType s < 4" "DstAddrLen s < 4" "SrcAddrType s < 4" "SrcAddrLen s < 4"
  shows "drop_bit 6 (addr_types s) = DstAddrType s" "drop_bit 4 (addr_types s) AND 3 = DstAddrLen s"
    "drop_bit 2 (addr_types s) AND 3 = SrcAddrType s" "addr_types s AND 3 = SrcAddrLen s"
proof -
  have m: "x AND 3 = take_bit 2 x" for x :: u8
    by (simp add: take_bit_eq_mask mask_eq_exp_minus_1)
  have t: "take_bit 2 (DstAddrType s) = DstAddrType s" "take_bit 2 (DstAddrLen s) = DstAddrLen s"
    "take_bit 2 (SrcAddrType s) = SrcAddrType s" "take_bit 2 (SrcAddrLen s) = SrcAddrLen s"
    using assms by (simp_all add: u8_less_4)
  then have b: "bit (DstAddrType s) n \<Longrightarrow> n < 2" "bit (DstAddrLen s) n \<Longrightarrow> n < 2"
    "bit (SrcAddrType s) n \<Longrightarrow> n < 2" "bit (SrcAddrLen s) n \<Longrightarrow> n < 2" for n
    by (metis bit_take_bit_iff)+
  show "drop_bit 6 (addr_types s) = DstAddrType s" "drop_bit 4 (addr_types s) AND 3 = DstAddrLen s"
    "drop_bit 2 (addr_types s) AND 3 = SrcAddrType s" "addr_types s AND 3 = SrcAddrLen s"
    unfolding addr_types_def m t
    by (rule bit_word_eqI; auto simp: bit_simps dest: b)+
qed

lemma cmn_written:
  assumes "12 \<le> length buf"
  shows "put_at 10 (PutUint16 0) ((put_at 6 (PutUint16 (PayloadLen s))
      ((put_at 0 (PutUint32 (first_line s)) buf)[4 := NextHdr s, 5 := HdrLen s]))[8 := PathType s, 9 := addr_types s]) =
    cmn_bytes s @ drop 12 buf"
proof -
  obtain xs ys where b: "buf = xs @ ys" "length xs = 12"
    using assms by (metis append_take_drop_id length_take min_absorb2)
  then show ?thesis
    by (auto simp: length_Suc_conv numeral_eq_Suc put_at_def cmn_bytes_def PutUint16_def PutUint32_def)
qed

text \<open>Paths that do not change the header when they are serialised: all but COLIBRI.\<close>

fun plain_path :: "path_val \<Rightarrow> bool" where
  "plain_path (Colibri _) = False"
| "plain_path (ColibriMinimal _) = False"
| "plain_path (OpaquePath _) = False"
| "plain_path _ = True"

lemma plain_sync: "plain_path p \<Longrightarrow> Path_SyncWithScionHeader p h = Inr (p, h)"
  by (cases p) auto

lemma plain_not_opaque: "plain_path p \<Longrightarrow> \<forall>q. p \<noteq> OpaquePath q"
  by auto

lemma plain_len: "plain_path p \<Longrightarrow> 4 dvd Path_Len p"
  by (cases p) (auto simp: Empty_PathLen_def path_Len_def OneHop_PathLen_def Epic_Len_def MetadataLen_def
    MetaLen_def path_len_defs split: option.split)

lemma addr_hdr_dvd: "4 dvd AddrHdrLen s"
  by (simp add: AddrHdrLen_def addrBytes_def hdr_len_defs)

definition fix_lengths :: "scion \<Rightarrow> path_val \<Rightarrow> bytes \<Rightarrow> scion" where
  "fix_lengths s p payload = s\<lparr>HdrLen := of_nat ((CmnHdrLen + AddrHdrLen s + Path_Len p) div LineLen),
     PayloadLen := of_nat (length payload)\<rparr>"

lemma hdr_wf_fix [simp]: "hdr_wf (fix_lengths s p x) = hdr_wf s" "AddrHdrLen (fix_lengths s p x) = AddrHdrLen s"
  "addr_hdr_bytes (fix_lengths s p x) = addr_hdr_bytes s" "SPath (fix_lengths s p x) = SPath s"
  "PathType (fix_lengths s p x) = PathType s"
  by (simp_all add: fix_lengths_def hdr_wf_def AddrHdrLen_def addr_hdr_bytes_def)

lemma SCION_SerializeTo_plain:
  assumes "hdr_wf s" "SPath s = Some p" "plain_path p" "\<And>n. length (alloc n) = n"
    and "\<And>b. length b = Path_Len p \<Longrightarrow> \<exists>p' b'. Path_SerializeTo p b = Inr (p', b') \<and> length b' = Path_Len p \<and> Q p' b'"
  shows "\<exists>p' pb. SCION_SerializeTo alloc True s payload = Inr ((fix_lengths s p payload)\<lparr>SPath := Some p'\<rparr>,
      cmn_bytes (fix_lengths s p payload) @ addr_hdr_bytes s @ pb @ payload) \<and> length pb = Path_Len p \<and> Q p' pb"
proof -
  let ?s = "fix_lengths s p payload" and ?n = "CmnHdrLen + AddrHdrLen s + Path_Len p"
  let ?b = "alloc ?n"
  have s: "?s = s\<lparr>HdrLen := of_nat (?n div LineLen), PayloadLen := of_nat (length payload)\<rparr>"
    by (simp add: fix_lengths_def)
  have lb: "length ?b = 12 + AddrHdrLen s + Path_Len p" using assms(4) by (simp add: CmnHdrLen_def)
  let ?c = "cmn_bytes ?s @ drop 12 ?b"
  have w: "SerializeAddrHdr ?s (drop 12 ?b) = Inr (put_at 0 (addr_hdr_bytes s) (drop 12 ?b))"
    using SerializeAddrHdr_ok [of ?s "drop 12 ?b"] assms(1) lb by simp
  let ?d = "put_at 12 (put_at 0 (addr_hdr_bytes s) (drop 12 ?b)) ?c"
  have d: "?d = cmn_bytes ?s @ addr_hdr_bytes s @ drop (12 + AddrHdrLen s) ?b"
    using lb length_addr_hdr_bytes [OF assms(1)] by (simp add: put_at_def add.commute)
  obtain p' pb where pb: "Path_SerializeTo p (drop (12 + AddrHdrLen s) ?b) = Inr (p', pb)" "length pb = Path_Len p" "Q p' pb"
    using assms(5) [of "drop (12 + AddrHdrLen s) ?b"] lb by auto
  have "put_at (12 + AddrHdrLen s) pb ?d = cmn_bytes ?s @ addr_hdr_bytes s @ pb"
    using pb(2) lb length_addr_hdr_bytes [OF assms(1)] unfolding d by (simp add: put_at_def)
  moreover have "SCION_SerializeTo alloc True s payload =
      rbind (SerializeAddrHdr ?s (slice 12 (length ?c) ?c)) (\<lambda>w. let
            buf = put_at CmnHdrLen w ?c;
            offset = CmnHdrLen + AddrHdrLen ?s
          in rbind (gslice offset (length buf) buf) (\<lambda>w.
             rbind (Path_SerializeTo p w) (\<lambda>(p, w).
             Inr (?s\<lparr>SPath := Some p\<rparr>, put_at offset w buf @ payload))))"
  proof -
    have le: "12 \<le> length ?b" "CmnHdrLen \<le> length ?c" using lb by (auto simp: CmnHdrLen_def)
    show ?thesis
      unfolding SCION_SerializeTo_def assms(2) option.case if_True Let_def s [symmetric]
        plain_sync [OF assms(3)] rbind_Inr prod.case cmn_written [OF le(1)]
      using le(2) by (simp add: CmnHdrLen_def)
  qed
  moreover have "slice 12 (length ?c) ?c = drop 12 ?b" by (simp add: slice_def)
  moreover have "slice (12 + AddrHdrLen s) (length ?d) ?d = drop (12 + AddrHdrLen s) ?b"
    using length_addr_hdr_bytes [OF assms(1)] unfolding d by (simp add: slice_def)
  moreover have "12 + AddrHdrLen s \<le> length ?d" using length_addr_hdr_bytes [OF assms(1)] unfolding d by simp
  ultimately have "SCION_SerializeTo alloc True s payload =
      Inr (?s\<lparr>SPath := Some p'\<rparr>, cmn_bytes ?s @ addr_hdr_bytes s @ pb @ payload)"
    using w pb by (simp add: CmnHdrLen_def Let_def)
  with pb show ?thesis by blast
qed


lemma cmn_fields:
  assumes "hdr_wf s"
  shows "Uint32 (slice 0 4 (cmn_bytes s @ ys)) = first_line s" "(cmn_bytes s @ ys) ! 4 = NextHdr s"
    "(cmn_bytes s @ ys) ! 5 = HdrLen s" "Uint16 (slice 6 8 (cmn_bytes s @ ys)) = PayloadLen s"
    "(cmn_bytes s @ ys) ! 8 = PathType s" "(cmn_bytes s @ ys) ! 9 = addr_types s"
    "drop 12 (cmn_bytes s @ ys) = ys"
  by (simp_all add: cmn_bytes_def slice_def nth_append)

text \<open>The fields of the header that travel on the wire.\<close>

definition same_header :: "scion \<Rightarrow> scion \<Rightarrow> bool" where
  "same_header s r \<longleftrightarrow> Version r = Version s \<and> TrafficClass r = TrafficClass s \<and> FlowID r = FlowID s \<and>
     NextHdr r = NextHdr s \<and> HdrLen r = HdrLen s \<and> PayloadLen r = PayloadLen s \<and>
     DstAddrType r = DstAddrType s \<and> DstAddrLen r = DstAddrLen s \<and> SrcAddrType r = SrcAddrType s \<and>
     SrcAddrLen r = SrcAddrLen s \<and> DstIA r = DstIA s \<and> SrcIA r = SrcIA s \<and>
     RawDstAddr r = RawDstAddr s \<and> RawSrcAddr r = RawSrcAddr s \<and> PathType r = PathType s"

lemma SCION_Decode_parts:
  assumes "hdr_wf s" "unat (HdrLen s) * 4 = 12 + AddrHdrLen s + length pb" "NewPath reg (PathType s) = Inr q0"
    and "\<And>sc :: scion. \<exists>q. Path_BuildFromHeader q0 pb sc = Inr q \<and> P sc q"
  shows "\<exists>r q sc. SCION_DecodeFromBytes reg (cmn_bytes s @ addr_hdr_bytes s @ pb @ payload) = Inr r \<and>
     same_header s r \<and> SPath r = Some q \<and> P sc q \<and> Payload r = payload"
proof -
  let ?data = "cmn_bytes s @ addr_hdr_bytes s @ pb @ payload"
  note w = assms(1) [unfolded hdr_wf_def]
  note f = cmn_fields [OF assms(1), of "addr_hdr_bytes s @ pb @ payload"]
  have g: "ucast (drop_bit 28 (first_line s)) = Version s"
    "ucast (drop_bit 20 (first_line s) AND 0xFF) = TrafficClass s" "first_line s AND 0xFFFFF = FlowID s"
    "drop_bit 6 (addr_types s) = DstAddrType s" "drop_bit 4 (addr_types s) AND 3 = DstAddrLen s"
    "drop_bit 2 (addr_types s) AND 3 = SrcAddrType s" "addr_types s AND 3 = SrcAddrLen s"
    using w first_line_fields [of s] addr_types_fields [of s] by blast+
  let ?r0 = "\<lparr>Version = Version s, TrafficClass = TrafficClass s, FlowID = FlowID s, NextHdr = NextHdr s,
    HdrLen = HdrLen s, PayloadLen = PayloadLen s, DstAddrType = DstAddrType s, DstAddrLen = DstAddrLen s,
    SrcAddrType = SrcAddrType s, SrcAddrLen = SrcAddrLen s, DstIA = 0, SrcIA = 0, RawDstAddr = [], RawSrcAddr = [],
    PathType = PathType s, SPath = None, Contents = [], Payload = []\<rparr> :: scion"
  let ?r1 = "?r0\<lparr>DstIA := DstIA s, SrcIA := SrcIA s, RawDstAddr := RawDstAddr s, RawSrcAddr := RawSrcAddr s\<rparr>"
  have a: "DecodeAddrHdr ?r0 (drop CmnHdrLen ?data) = Inr ?r1"
    using DecodeAddrHdr_bytes [OF assms(1), of ?r0 "pb @ payload"] f(7) by (simp add: CmnHdrLen_def)
  have la: "length (addr_hdr_bytes s) = AddrHdrLen s" "AddrHdrLen ?r1 = AddrHdrLen s"
    using length_addr_hdr_bytes [OF assms(1)] by (simp_all add: AddrHdrLen_def)
  obtain q where q: "Path_BuildFromHeader q0 pb ?r1 = Inr q" "P ?r1 q" using assms(4) by blast
  have sl: "slice (12 + AddrHdrLen s) (12 + AddrHdrLen s + length pb) ?data = pb"
    "drop (unat (HdrLen s) * 4) ?data = payload"
    using la(1) assms(2) by (simp_all add: slice_def)
  let ?r = "?r1\<lparr>SPath := Some q, Contents := slice 0 (unat (HdrLen s) * LineLen) ?data, Payload := payload\<rparr>"
  have "SCION_DecodeFromBytes reg ?data = Inr ?r"
    unfolding SCION_DecodeFromBytes_def Let_def f(1-6) g a rbind_Inr la(2)
    using la(1) assms(2,3) q(1) sl by (simp add: hdr_len_defs)
  then show ?thesis using q(2) by (intro exI [of _ ?r] exI [of _ q] exI [of _ ?r1]) (simp add: same_header_def)
qed


text \<open>Claim C37. A packet serialised with fixed lengths decodes to the same header, with its payload and its
  path as the receiver sees it, for every path type but COLIBRI and opaque paths, whatever the fresh buffer contained,
  provided the header is at most 1020 bytes long, which is what its eight-bit length field can say, and the payload below 65536 bytes.\<close>

theorem SCION_roundtrip:
  assumes "hdr_wf s" "SPath s = Some p" "plain_path p" "path_wf p" "PathType s = Path_Type p"
    "\<And>n. length (alloc n) = n" "CmnHdrLen + AddrHdrLen s + Path_Len p \<le> 1020"
    "length payload < 65536" "slayers_init = Inr reg"
  shows "\<exists>s' pkt r q. SCION_SerializeTo alloc True s payload = Inr (s', pkt) \<and>
     SCION_DecodeFromBytes reg pkt = Inr r \<and> same_header s' r \<and> Payload r = payload \<and>
     SPath r = Some q \<and> path_seen s p q \<and>
     unat (HdrLen r) * LineLen = CmnHdrLen + AddrHdrLen s + Path_Len p \<and> unat (PayloadLen r) = length payload"
proof -
  let ?Q = "\<lambda>p' b'. \<exists>q0. NewPath reg (Path_Type p) = Inr q0 \<and>
    (\<forall>sc :: scion. \<exists>q. Path_BuildFromHeader q0 b' sc = Inr q \<and> path_seen s p q)"
  have seen: "path_seen sc p q \<longleftrightarrow> path_seen s p q" for sc :: scion and q
    using assms(3) by (cases p) auto
  have Q: "\<exists>p' b'. Path_SerializeTo p b = Inr (p', b') \<and> length b' = Path_Len p \<and> ?Q p' b'"
    if len: "length b = Path_Len p" for b
  proof -
    note rt = path_rt [OF assms(4) plain_not_opaque [OF assms(3)] len assms(9)]
    obtain p' b' q0 where p': "Path_SerializeTo p b = Inr (p', b')" "length b' = Path_Len p"
      "NewPath reg (Path_Type p) = Inr q0"
      using rt [of s] by blast
    have "\<exists>q. Path_BuildFromHeader q0 b' sc = Inr q \<and> path_seen s p q" for sc :: scion
      using rt [of sc] p' seen by auto
    with p' show ?thesis by blast
  qed
  let ?s = "fix_lengths s p payload"
  obtain p' pb where pb: "SCION_SerializeTo alloc True s payload =
      Inr (?s\<lparr>SPath := Some p'\<rparr>, cmn_bytes ?s @ addr_hdr_bytes s @ pb @ payload)" "length pb = Path_Len p" "?Q p' pb"
    using SCION_SerializeTo_plain [where Q = ?Q, OF assms(1-3,6) Q] by blast
  then obtain q0 where q0: "NewPath reg (Path_Type p) = Inr q0"
    "\<And>sc :: scion. \<exists>q. Path_BuildFromHeader q0 pb sc = Inr q \<and> path_seen s p q" by blast
  let ?n = "CmnHdrLen + AddrHdrLen s + Path_Len p"
  have "4 dvd ?n" using addr_hdr_dvd [of s] plain_len [OF assms(3)] by (simp add: CmnHdrLen_def)
  moreover have "?n div 4 < 256" using assms(7) by simp
  ultimately have h: "unat (HdrLen ?s) * 4 = 12 + AddrHdrLen ?s + length pb"
    using pb(2) by (simp add: fix_lengths_def unat_of_nat LineLen_def) (simp add: CmnHdrLen_def AddrHdrLen_def)
  obtain r q where r: "SCION_DecodeFromBytes reg (cmn_bytes ?s @ addr_hdr_bytes s @ pb @ payload) = Inr r"
    "same_header ?s r" "SPath r = Some q" "path_seen s p q" "Payload r = payload"
    using SCION_Decode_parts [where P = "\<lambda>_. path_seen s p", of ?s pb reg q0 payload] assms(1,5) h q0 by auto
  moreover have "unat (PayloadLen ?s) = length payload"
    using assms(8) by (simp add: fix_lengths_def unat_of_nat)
  ultimately show ?thesis
    using pb h by (auto simp: same_header_def hdr_len_defs)
qed

definition demo_scion :: scion where
  "demo_scion = \<lparr>Version = 0, TrafficClass = 0xb8, FlowID = 1, NextHdr = 17, HdrLen = 0, PayloadLen = 0,
     DstAddrType = 0, DstAddrLen = 0, SrcAddrType = 0, SrcAddrLen = 0, DstIA = 0x0001ff0000000110,
     SrcIA = 0x0002ff0000000220, RawDstAddr = [10, 0, 0, 1], RawSrcAddr = [10, 0, 0, 2],
     PathType = 1, SPath = Some (ScionDecoded demo_path), Contents = [], Payload = []\<rparr>"

theorem SCION_roundtrip_witness:
  "\<exists>reg s' pkt r. slayers_init = Inr reg \<and>
     SCION_SerializeTo (\<lambda>n. replicate n 255) True demo_scion [1, 2, 3] = Inr (s', pkt) \<and>
     SCION_DecodeFromBytes reg pkt = Inr r \<and> Payload r = [1, 2, 3] \<and> SPath r = Some (ScionRaw (raw_of demo_path))"
proof -
  obtain reg where reg: "slayers_init = Inr reg" using slayers_init_ok by blast
  have "hdr_wf demo_scion" "SPath demo_scion = Some (ScionDecoded demo_path)"
    "PathType demo_scion = Path_Type (ScionDecoded demo_path)" "path_wf (ScionDecoded demo_path)"
    "CmnHdrLen + AddrHdrLen demo_scion + Path_Len (ScionDecoded demo_path) \<le> 1020"
    using demo_path_wf(1)
    by (simp_all add: demo_scion_def hdr_wf_def addrBytes_def hdr_len_defs AddrHdrLen_def path_type_defs path_Len_def
      MetaLen_def path_len_defs demo_path_def)
  then show ?thesis
    using SCION_roundtrip [of demo_scion "ScionDecoded demo_path" "\<lambda>n. replicate n 255" "[1, 2, 3]" reg] reg
    by auto
qed

end
