(* ===== verification/Scmp.thy ===== *)
theory Scmp
  imports Scion_Layer
begin

unbundle bit_operations_syntax

text \<open>
  SCMP (go/lib/slayers/scmp.go, scmp\_typecode.go, scmp\_msg.go): type codes, the SCMP header with its
  checksum and the seven messages. A decoder returns the message with the contents and the payload
  of its base layer. As in the SCION layer, \<open>alloc n\<close> is what \<open>PrependBytes(n)\<close> of gopacket returns.
\<close>

section \<open>Type codes (scmp\_typecode.go)\<close>

definition SCMPTypeDestinationUnreachable :: u8 where "SCMPTypeDestinationUnreachable = 1"
definition SCMPTypePacketTooBig :: u8 where "SCMPTypePacketTooBig = 2"
definition SCMPTypeParameterProblem :: u8 where "SCMPTypeParameterProblem = 4"
definition SCMPTypeExternalInterfaceDown :: u8 where "SCMPTypeExternalInterfaceDown = 5"
definition SCMPTypeInternalConnectivityDown :: u8 where "SCMPTypeInternalConnectivityDown = 6"
definition SCMPTypeEchoRequest :: u8 where "SCMPTypeEchoRequest = 128"
definition SCMPTypeEchoReply :: u8 where "SCMPTypeEchoReply = 129"
definition SCMPTypeTracerouteRequest :: u8 where "SCMPTypeTracerouteRequest = 130"
definition SCMPTypeTracerouteReply :: u8 where "SCMPTypeTracerouteReply = 131"

definition SCMPCodeNoRoute :: u8 where "SCMPCodeNoRoute = 0"
definition SCMPCodeInvalidPacketSize :: u8 where "SCMPCodeInvalidPacketSize = 19"
definition SCMPCodeUnknownHopFieldIngress :: u8 where "SCMPCodeUnknownHopFieldIngress = 49"
definition SCMPCodeUnknownHopFieldEgress :: u8 where "SCMPCodeUnknownHopFieldEgress = 50"
definition SCMPCodeInvalidHopFieldMAC :: u8 where "SCMPCodeInvalidHopFieldMAC = 51"
definition SCMPCodePathExpired :: u8 where "SCMPCodePathExpired = 52"
definition SCMPCodeInvalidSegmentChange :: u8 where "SCMPCodeInvalidSegmentChange = 53"

lemmas scmp_type_defs = SCMPTypeDestinationUnreachable_def SCMPTypePacketTooBig_def
  SCMPTypeParameterProblem_def SCMPTypeExternalInterfaceDown_def SCMPTypeInternalConnectivityDown_def
  SCMPTypeEchoRequest_def SCMPTypeEchoReply_def SCMPTypeTracerouteRequest_def SCMPTypeTracerouteReply_def

definition TypeCode_Type :: "u16 \<Rightarrow> u8" where
  "TypeCode_Type a = ucast (drop_bit 8 a)"

definition TypeCode_Code :: "u16 \<Rightarrow> u8" where
  "TypeCode_Code a = ucast a"

definition InfoMsg :: "u16 \<Rightarrow> bool" where
  "InfoMsg a \<longleftrightarrow> TypeCode_Type a > 127"

definition TypeCode_SerializeTo :: "u16 \<Rightarrow> bytes \<Rightarrow> bytes" where
  "TypeCode_SerializeTo a b = put_at 0 (PutUint16 a) b"

definition CreateSCMPTypeCode :: "u8 \<Rightarrow> u8 \<Rightarrow> u16" where
  "CreateSCMPTypeCode typ code = Uint16 [typ, code]"

section \<open>The SCMP header (scmp.go)\<close>

definition MaxSCMPPacketLen :: nat where "MaxSCMPPacketLen = 1232"

record scmp =
  TypeCode :: u16
  Checksum :: u16
  ScmpScn :: "scion option"
  ScmpContents :: bytes
  ScmpPayload :: bytes

datatype scmp_layer_type =
    LayerTypeSCMPDestinationUnreachable
  | LayerTypeSCMPPacketTooBig
  | LayerTypeSCMPParameterProblem
  | LayerTypeSCMPExternalInterfaceDown
  | LayerTypeSCMPInternalConnectivityDown
  | LayerTypeSCMPEcho
  | LayerTypeSCMPTraceroute
  | LayerTypeSCMPPayload

definition SCMP_NextLayerType :: "scmp \<Rightarrow> scmp_layer_type" where
  "SCMP_NextLayerType s = (let t = TypeCode_Type (TypeCode s) in
     if t = SCMPTypeDestinationUnreachable then LayerTypeSCMPDestinationUnreachable
     else if t = SCMPTypePacketTooBig then LayerTypeSCMPPacketTooBig
     else if t = SCMPTypeParameterProblem then LayerTypeSCMPParameterProblem
     else if t = SCMPTypeExternalInterfaceDown then LayerTypeSCMPExternalInterfaceDown
     else if t = SCMPTypeInternalConnectivityDown then LayerTypeSCMPInternalConnectivityDown
     else if t = SCMPTypeEchoRequest \<or> t = SCMPTypeEchoReply then LayerTypeSCMPEcho
     else if t = SCMPTypeTracerouteRequest \<or> t = SCMPTypeTracerouteReply then LayerTypeSCMPTraceroute
     else LayerTypeSCMPPayload)"

text \<open>The checksum covers the new header and everything behind it, with the checksum bytes zero.\<close>

definition SCMP_SerializeTo :: "(nat \<Rightarrow> bytes) \<Rightarrow> bool \<Rightarrow> scmp \<Rightarrow> bytes \<Rightarrow> (scmp \<times> bytes) res" where
  "SCMP_SerializeTo alloc computeChecksums s b = (let
     bs = TypeCode_SerializeTo (TypeCode s) (alloc 4)
   in if computeChecksums then
       (case ScmpScn s of
          None \<Rightarrow> Inl (Err ''can not calculate checksum without SCION header'')
        | Some scn \<Rightarrow> let bs = bs[2 := 0, 3 := 0] in
            rbind (computeChecksum scn (bs @ b) L4SCMP) (\<lambda>c.
            Inr (s\<lparr>Checksum := c\<rparr>, put_at 2 (PutUint16 c) bs @ b)))
      else Inr (s, put_at 2 (PutUint16 (Checksum s)) bs @ b))"

definition SCMP_DecodeFromBytes :: "scmp \<Rightarrow> bytes \<Rightarrow> scmp res" where
  "SCMP_DecodeFromBytes s data =
     (if length data < 4 then Inl (Err ''SCMP layer length is less then 4 bytes'')
      else Inr (s\<lparr>TypeCode := CreateSCMPTypeCode (data ! 0) (data ! 1), Checksum := Uint16 (slice 2 4 data),
        ScmpContents := slice 0 4 data, ScmpPayload := drop 4 data\<rparr>))"

definition scmp_zero :: scmp where
  "scmp_zero = \<lparr>TypeCode = 0, Checksum = 0, ScmpScn = None, ScmpContents = [], ScmpPayload = []\<rparr>"

section \<open>The messages (scmp\_msg.go)\<close>

definition scmpRawInterfaceLen :: nat where "scmpRawInterfaceLen = 8"

datatype scmp_msg =
    SCMPExternalInterfaceDown u64 u64
  | SCMPInternalConnectivityDown u64 u64 u64
  | SCMPEcho u16 u16
  | SCMPParameterProblem u16
  | SCMPTraceroute u16 u16 u64 u64
  | SCMPDestinationUnreachable
  | SCMPPacketTooBig u16

definition ExternalInterfaceDown_DecodeFromBytes :: "bytes \<Rightarrow> (scmp_msg \<times> bytes \<times> bytes) res" where
  "ExternalInterfaceDown_DecodeFromBytes data = (let minLength = IABytes + scmpRawInterfaceLen in
     if length data < minLength then Inl (Err ''buffer too short'')
     else let
       offset = 0;
       ia = Uint64 (drop offset data);
       offset = offset + IABytes;
       ifID = Uint64 (slice offset (offset + scmpRawInterfaceLen) data);
       offset = offset + scmpRawInterfaceLen
     in Inr (SCMPExternalInterfaceDown ia ifID, slice 0 offset data, drop offset data))"

definition ExternalInterfaceDown_SerializeTo :: "(nat \<Rightarrow> bytes) \<Rightarrow> u64 \<Rightarrow> u64 \<Rightarrow> bytes \<Rightarrow> bytes" where
  "ExternalInterfaceDown_SerializeTo alloc ia ifID b = (let
     buf = alloc (IABytes + scmpRawInterfaceLen);
     offset = 0;
     buf = put_at offset (PutUint64 ia) buf;
     offset = offset + IABytes;
     buf = put_at offset (PutUint64 ifID) buf
   in buf @ b)"

definition InternalConnectivityDown_DecodeFromBytes :: "bytes \<Rightarrow> (scmp_msg \<times> bytes \<times> bytes) res" where
  "InternalConnectivityDown_DecodeFromBytes data = (let minLength = IABytes + 2 * scmpRawInterfaceLen in
     if length data < minLength then Inl (Err ''buffer too short'')
     else let
       offset = 0;
       ia = Uint64 (drop offset data);
       offset = offset + IABytes;
       ingress = Uint64 (slice offset (offset + scmpRawInterfaceLen) data);
       offset = offset + scmpRawInterfaceLen;
       egress = Uint64 (slice offset (offset + scmpRawInterfaceLen) data);
       offset = offset + scmpRawInterfaceLen
     in Inr (SCMPInternalConnectivityDown ia ingress egress, slice 0 offset data, drop offset data))"

definition InternalConnectivityDown_SerializeTo ::
  "(nat \<Rightarrow> bytes) \<Rightarrow> u64 \<Rightarrow> u64 \<Rightarrow> u64 \<Rightarrow> bytes \<Rightarrow> bytes" where
  "InternalConnectivityDown_SerializeTo alloc ia ingress egress b = (let
     buf = alloc (IABytes + 2 * scmpRawInterfaceLen);
     offset = 0;
     buf = put_at offset (PutUint64 ia) buf;
     offset = offset + IABytes;
     buf = put_at offset (PutUint64 ingress) buf;
     offset = offset + scmpRawInterfaceLen;
     buf = put_at offset (PutUint64 egress) buf
   in buf @ b)"

definition Echo_DecodeFromBytes :: "bytes \<Rightarrow> (scmp_msg \<times> bytes \<times> bytes) res" where
  "Echo_DecodeFromBytes data =
     (if length data < 4 then Inl (Err ''buffer too short'')
      else let
        identifier = Uint16 (slice 0 2 data);
        offset = 2;
        seqNumber = Uint16 (slice offset (offset + 2) data);
        offset = offset + 2
      in Inr (SCMPEcho identifier seqNumber, slice 0 offset data, drop offset data))"

definition Echo_SerializeTo :: "(nat \<Rightarrow> bytes) \<Rightarrow> u16 \<Rightarrow> u16 \<Rightarrow> bytes \<Rightarrow> bytes" where
  "Echo_SerializeTo alloc identifier seqNumber b = (let
     buf = alloc 4;
     buf = put_at 0 (PutUint16 identifier) buf;
     buf = put_at 2 (PutUint16 seqNumber) buf
   in buf @ b)"

definition ParameterProblem_DecodeFromBytes :: "bytes \<Rightarrow> (scmp_msg \<times> bytes \<times> bytes) res" where
  "ParameterProblem_DecodeFromBytes data =
     (if length data < 2 + 2 then Inl (Err ''buffer too short'')
      else Inr (SCMPParameterProblem (Uint16 (slice 2 4 data)), slice 0 4 data, drop 4 data))"

definition ParameterProblem_SerializeTo :: "(nat \<Rightarrow> bytes) \<Rightarrow> u16 \<Rightarrow> bytes \<Rightarrow> bytes" where
  "ParameterProblem_SerializeTo alloc pointer b = (let
     buf = alloc (2 + 2);
     buf = put_at 0 (PutUint16 0) buf;
     buf = put_at 2 (PutUint16 pointer) buf
   in buf @ b)"

definition Traceroute_DecodeFromBytes :: "bytes \<Rightarrow> (scmp_msg \<times> bytes \<times> bytes) res" where
  "Traceroute_DecodeFromBytes data = (let minLength = 2 + 2 + IABytes + scmpRawInterfaceLen in
     if length data < minLength then Inl (Err ''buffer too short'')
     else let
       offset = 0;
       identifier = Uint16 (slice offset (offset + 2) data);
       offset = offset + 2;
       sequence = Uint16 (slice offset (offset + 2) data);
       offset = offset + 2;
       ia = Uint64 (slice offset (offset + IABytes) data);
       offset = offset + IABytes;
       interface = Uint64 (slice offset (offset + scmpRawInterfaceLen) data);
       offset = offset + scmpRawInterfaceLen
     in Inr (SCMPTraceroute identifier sequence ia interface, slice 0 offset data, drop offset data))"

definition Traceroute_SerializeTo ::
  "(nat \<Rightarrow> bytes) \<Rightarrow> u16 \<Rightarrow> u16 \<Rightarrow> u64 \<Rightarrow> u64 \<Rightarrow> bytes \<Rightarrow> bytes" where
  "Traceroute_SerializeTo alloc identifier sequence ia interface b = (let
     buf = alloc (2 + 2 + IABytes + scmpRawInterfaceLen);
     offset = 0;
     buf = put_at offset (PutUint16 identifier) buf;
     offset = offset + 2;
     buf = put_at offset (PutUint16 sequence) buf;
     offset = offset + 2;
     buf = put_at offset (PutUint64 ia) buf;
     offset = offset + IABytes;
     buf = put_at offset (PutUint64 interface) buf
   in buf @ b)"

definition DestinationUnreachable_DecodeFromBytes :: "bytes \<Rightarrow> (scmp_msg \<times> bytes \<times> bytes) res" where
  "DestinationUnreachable_DecodeFromBytes data = (let minLength = 4 in
     if length data < minLength then Inl (Err ''buffer too short'')
     else Inr (SCMPDestinationUnreachable, slice 0 minLength data, drop minLength data))"

definition DestinationUnreachable_SerializeTo :: "(nat \<Rightarrow> bytes) \<Rightarrow> bytes \<Rightarrow> bytes" where
  "DestinationUnreachable_SerializeTo alloc b = go_copy (alloc 4) (replicate 4 0) @ b"

definition PacketTooBig_DecodeFromBytes :: "bytes \<Rightarrow> (scmp_msg \<times> bytes \<times> bytes) res" where
  "PacketTooBig_DecodeFromBytes data =
     (if length data < 2 + 2 then Inl (Err ''buffer too short'')
      else Inr (SCMPPacketTooBig (Uint16 (slice 2 4 data)), slice 0 4 data, drop 4 data))"

definition PacketTooBig_SerializeTo :: "(nat \<Rightarrow> bytes) \<Rightarrow> u16 \<Rightarrow> bytes \<Rightarrow> bytes" where
  "PacketTooBig_SerializeTo alloc mtu b = (let
     buf = alloc (2 + 2);
     buf = put_at 0 (PutUint16 0) buf;
     buf = put_at 2 (PutUint16 mtu) buf
   in buf @ b)"

text \<open>Dispatch over the dynamic type of a message, and over the layer type a decoder is chosen by.\<close>

fun Msg_SerializeTo :: "(nat \<Rightarrow> bytes) \<Rightarrow> scmp_msg \<Rightarrow> bytes \<Rightarrow> bytes" where
  "Msg_SerializeTo alloc (SCMPExternalInterfaceDown ia i) b = ExternalInterfaceDown_SerializeTo alloc ia i b"
| "Msg_SerializeTo alloc (SCMPInternalConnectivityDown ia i e) b = InternalConnectivityDown_SerializeTo alloc ia i e b"
| "Msg_SerializeTo alloc (SCMPEcho i s) b = Echo_SerializeTo alloc i s b"
| "Msg_SerializeTo alloc (SCMPParameterProblem p) b = ParameterProblem_SerializeTo alloc p b"
| "Msg_SerializeTo alloc (SCMPTraceroute i s ia f) b = Traceroute_SerializeTo alloc i s ia f b"
| "Msg_SerializeTo alloc SCMPDestinationUnreachable b = DestinationUnreachable_SerializeTo alloc b"
| "Msg_SerializeTo alloc (SCMPPacketTooBig m) b = PacketTooBig_SerializeTo alloc m b"

fun Msg_DecodeFromBytes :: "scmp_layer_type \<Rightarrow> bytes \<Rightarrow> (scmp_msg \<times> bytes \<times> bytes) res" where
  "Msg_DecodeFromBytes LayerTypeSCMPExternalInterfaceDown d = ExternalInterfaceDown_DecodeFromBytes d"
| "Msg_DecodeFromBytes LayerTypeSCMPInternalConnectivityDown d = InternalConnectivityDown_DecodeFromBytes d"
| "Msg_DecodeFromBytes LayerTypeSCMPEcho d = Echo_DecodeFromBytes d"
| "Msg_DecodeFromBytes LayerTypeSCMPParameterProblem d = ParameterProblem_DecodeFromBytes d"
| "Msg_DecodeFromBytes LayerTypeSCMPTraceroute d = Traceroute_DecodeFromBytes d"
| "Msg_DecodeFromBytes LayerTypeSCMPDestinationUnreachable d = DestinationUnreachable_DecodeFromBytes d"
| "Msg_DecodeFromBytes LayerTypeSCMPPacketTooBig d = PacketTooBig_DecodeFromBytes d"
| "Msg_DecodeFromBytes LayerTypeSCMPPayload d = Inl (Err ''no decoder'')"

section \<open>Round trips\<close>

text \<open>The layer type of a message and the types of the SCMP header it belongs to.\<close>

fun msg_layer :: "scmp_msg \<Rightarrow> scmp_layer_type" where
  "msg_layer (SCMPExternalInterfaceDown _ _) = LayerTypeSCMPExternalInterfaceDown"
| "msg_layer (SCMPInternalConnectivityDown _ _ _) = LayerTypeSCMPInternalConnectivityDown"
| "msg_layer (SCMPEcho _ _) = LayerTypeSCMPEcho"
| "msg_layer (SCMPParameterProblem _) = LayerTypeSCMPParameterProblem"
| "msg_layer (SCMPTraceroute _ _ _ _) = LayerTypeSCMPTraceroute"
| "msg_layer SCMPDestinationUnreachable = LayerTypeSCMPDestinationUnreachable"
| "msg_layer (SCMPPacketTooBig _) = LayerTypeSCMPPacketTooBig"

fun msg_bytes :: "scmp_msg \<Rightarrow> bytes" where
  "msg_bytes (SCMPExternalInterfaceDown ia i) = PutUint64 ia @ PutUint64 i"
| "msg_bytes (SCMPInternalConnectivityDown ia i e) = PutUint64 ia @ PutUint64 i @ PutUint64 e"
| "msg_bytes (SCMPEcho i s) = PutUint16 i @ PutUint16 s"
| "msg_bytes (SCMPParameterProblem p) = PutUint16 0 @ PutUint16 p"
| "msg_bytes (SCMPTraceroute i s ia f) = PutUint16 i @ PutUint16 s @ PutUint64 ia @ PutUint64 f"
| "msg_bytes SCMPDestinationUnreachable = replicate 4 0"
| "msg_bytes (SCMPPacketTooBig m) = PutUint16 0 @ PutUint16 m"

lemmas msg_ser_defs = ExternalInterfaceDown_SerializeTo_def InternalConnectivityDown_SerializeTo_def
  Echo_SerializeTo_def ParameterProblem_SerializeTo_def Traceroute_SerializeTo_def
  DestinationUnreachable_SerializeTo_def PacketTooBig_SerializeTo_def

lemmas msg_dec_defs = ExternalInterfaceDown_DecodeFromBytes_def InternalConnectivityDown_DecodeFromBytes_def
  Echo_DecodeFromBytes_def ParameterProblem_DecodeFromBytes_def Traceroute_DecodeFromBytes_def
  DestinationUnreachable_DecodeFromBytes_def PacketTooBig_DecodeFromBytes_def

lemma Msg_SerializeTo_bytes:
  assumes "\<And>n. length (alloc n) = n"
  shows "Msg_SerializeTo alloc msg b = msg_bytes msg @ b"
  by (cases msg) (simp_all add: msg_ser_defs Let_def put_at_def IABytes_def scmpRawInterfaceLen_def assms go_copy_def)

lemma Msg_Decode_bytes:
  "Msg_DecodeFromBytes (msg_layer msg) (msg_bytes msg @ b) = Inr (msg, msg_bytes msg, b)"
  by (cases msg) (simp_all add: msg_dec_defs Let_def slice_def IABytes_def scmpRawInterfaceLen_def Uint64_append)

lemma CreateSCMPTypeCode_parts [simp]:
  "TypeCode_Type (CreateSCMPTypeCode t c) = t" "TypeCode_Code (CreateSCMPTypeCode t c) = c"
  by (rule bit_word_eqI; auto simp: TypeCode_Type_def TypeCode_Code_def CreateSCMPTypeCode_def Uint16_def bit_simps)+

lemma CreateSCMPTypeCode_join: "CreateSCMPTypeCode (PutUint16 a ! 0) (PutUint16 a ! 1) = a"
  using Uint16_PutUint16 [of a] by (simp add: CreateSCMPTypeCode_def PutUint16_def)

lemma SCMP_Serialize_ok:
  assumes "\<And>n. length (alloc n) = n" "ScmpScn s = Some scn" "csum_addrs_ok scn" "length b < 65500"
  shows "\<exists>c. SCMP_SerializeTo alloc True s b = Inr (s\<lparr>Checksum := c\<rparr>, PutUint16 (TypeCode s) @ PutUint16 c @ b) \<and>
    computeChecksum scn (PutUint16 (TypeCode s) @ PutUint16 c @ b) L4SCMP = Inr 0"
proof -
  let ?u = "PutUint16 (TypeCode s) @ [0, 0] @ b"
  obtain w x y z where al: "alloc 4 = [w, x, y, z]"
    using assms(1) [of 4] by (auto simp: length_Suc_conv eval_nat_numeral)
  have bs: "(TypeCode_SerializeTo (TypeCode s) (alloc 4))[2 := 0, 3 := 0] = PutUint16 (TypeCode s) @ [0, 0]"
    unfolding TypeCode_SerializeTo_def al by (simp add: put_at_def PutUint16_def numeral_eq_Suc)
  obtain c where c: "computeChecksum scn ?u L4SCMP = Inr c"
    using computeChecksum_total [OF assms(3)] by blast
  have p: "put_at 2 (PutUint16 c) ?u = PutUint16 (TypeCode s) @ PutUint16 c @ b"
    "put_at 2 (PutUint16 c) (PutUint16 (TypeCode s) @ [0, 0]) = PutUint16 (TypeCode s) @ PutUint16 c"
    by (simp_all add: put_at_def)
  have "?u ! 2 = 0" "?u ! Suc 2 = 0" by (simp_all add: nth_append)
  then have "computeChecksum scn (put_at 2 (PutUint16 c) ?u) L4SCMP = Inr 0"
    using checksum_rt [OF assms(3), of ?u 2 L4SCMP c] c assms(4) by simp
  moreover have "SCMP_SerializeTo alloc True s b = Inr (s\<lparr>Checksum := c\<rparr>, PutUint16 (TypeCode s) @ PutUint16 c @ b)"
    using c p(2) assms(2) unfolding SCMP_SerializeTo_def Let_def bs by simp
  ultimately show ?thesis using p(1) by auto
qed

lemma SCMP_Decode_bytes:
  "SCMP_DecodeFromBytes s (PutUint16 tc @ PutUint16 c @ b) =
    Inr (s\<lparr>TypeCode := tc, Checksum := c, ScmpContents := PutUint16 tc @ PutUint16 c, ScmpPayload := b\<rparr>)"
  using CreateSCMPTypeCode_join [of tc] by (simp add: SCMP_DecodeFromBytes_def slice_def nth_append)

text \<open>Claim C38. An SCMP message serialised with checksums verifies, and is decoded back with its type code,
  checksum, message fields and payload, by the decoder its type selects; the type code keeps type and
  code apart.\<close>

theorem SCMP_roundtrip:
  assumes "\<And>n. length (alloc n) = n" "ScmpScn s = Some scn" "csum_addrs_ok scn" "length payload < 65000"
    "SCMP_NextLayerType s = msg_layer msg"
  shows "(\<exists>s' bs r. SCMP_SerializeTo alloc True s (Msg_SerializeTo alloc msg payload) = Inr (s', bs) \<and>
      computeChecksum scn bs L4SCMP = Inr 0 \<and>
      SCMP_DecodeFromBytes scmp_zero bs = Inr r \<and> TypeCode r = TypeCode s \<and> Checksum r = Checksum s' \<and>
      Msg_DecodeFromBytes (SCMP_NextLayerType r) (ScmpPayload r) = Inr (msg, msg_bytes msg, payload)) \<and>
    TypeCode_Type (CreateSCMPTypeCode t c) = t \<and> TypeCode_Code (CreateSCMPTypeCode t c) = c"
proof -
  have "length (msg_bytes msg @ payload) < 65500"
    using assms(4) by (cases msg) auto
  then obtain c where c: "SCMP_SerializeTo alloc True s (msg_bytes msg @ payload) =
      Inr (s\<lparr>Checksum := c\<rparr>, PutUint16 (TypeCode s) @ PutUint16 c @ msg_bytes msg @ payload)"
    "computeChecksum scn (PutUint16 (TypeCode s) @ PutUint16 c @ msg_bytes msg @ payload) L4SCMP = Inr 0"
    using SCMP_Serialize_ok [OF assms(1-3)] by blast
  moreover have "SCMP_NextLayerType r = SCMP_NextLayerType s" if "TypeCode r = TypeCode s" for r
    using that by (simp add: SCMP_NextLayerType_def)
  ultimately show ?thesis
    using Msg_Decode_bytes [of msg payload] assms(5)
    by (auto simp: Msg_SerializeTo_bytes [OF assms(1)] SCMP_Decode_bytes)
qed

theorem SCMP_roundtrip_witness:
  "\<exists>s' bs r. SCMP_SerializeTo (\<lambda>n. replicate n 9) True
       (scmp_zero\<lparr>TypeCode := CreateSCMPTypeCode SCMPTypeParameterProblem SCMPCodePathExpired, ScmpScn := Some demo_scion\<rparr>)
       (Msg_SerializeTo (\<lambda>n. replicate n 9) (SCMPParameterProblem 44) [1, 2, 3]) = Inr (s', bs) \<and>
     computeChecksum demo_scion bs L4SCMP = Inr 0 \<and> SCMP_DecodeFromBytes scmp_zero bs = Inr r \<and>
     Msg_DecodeFromBytes (SCMP_NextLayerType r) (ScmpPayload r) =
       Inr (SCMPParameterProblem 44, msg_bytes (SCMPParameterProblem 44), [1, 2, 3])"
proof -
  let ?s = "scmp_zero\<lparr>TypeCode := CreateSCMPTypeCode SCMPTypeParameterProblem SCMPCodePathExpired, ScmpScn := Some demo_scion\<rparr>"
  have "csum_addrs_ok demo_scion" by (simp add: csum_addrs_ok_def demo_scion_def)
  moreover have "SCMP_NextLayerType ?s = msg_layer (SCMPParameterProblem 44)"
    by (simp add: SCMP_NextLayerType_def scmp_type_defs Let_def)
  ultimately show ?thesis
    using SCMP_roundtrip [of "\<lambda>n. replicate n 9" ?s demo_scion "[1, 2, 3]" "SCMPParameterProblem 44"] by auto
qed

end
