(* ===== verification/Extn.thy ===== *)
theory Extn
  imports Scion_Layer
begin

unbundle bit_operations_syntax

text \<open>
  Extension headers (go/lib/slayers/extn.go): TLV options with their alignment padding, the hop-by-hop
  and end-to-end extensions, the two skippers the border router uses, and the packet authenticator
  option. A nil buffer, which makes the serialisation a dry run, is \<open>None\<close>; an index out of the
  buffer is a panic. \<open>alloc n\<close> is what \<open>PrependBytes(n)\<close> of gopacket returns.
\<close>

section \<open>TLV options\<close>

definition OptTypePad1 :: u8 where "OptTypePad1 = 0"
definition OptTypePadN :: u8 where "OptTypePadN = 1"
definition OptTypeAuthenticator :: u8 where "OptTypeAuthenticator = 2"

lemmas opt_type_defs = OptTypePad1_def OptTypePadN_def OptTypeAuthenticator_def

record tlv_option =
  OptType :: u8
  OptDataLen :: u8
  ActualLength :: nat
  OptData :: bytes
  OptAlign :: "u8 \<times> u8"

definition tlv_length :: "tlv_option \<Rightarrow> bool \<Rightarrow> nat" where
  "tlv_length o' fixLengths =
     (if OptType o' = OptTypePad1 then 1
      else if fixLengths then length (OptData o') + 2
      else unat (OptDataLen o') + 2)"

definition tlv_serializeTo :: "tlv_option \<Rightarrow> bytes option \<Rightarrow> bool \<Rightarrow> (tlv_option \<times> bytes option) res" where
  "tlv_serializeTo o' data fixLengths =
     (if OptType o' = OptTypePad1 then
       (case data of
          None \<Rightarrow> Inr (o', None)
        | Some d \<Rightarrow> if d = [] then Inl (Panic ''index out of range'') else Inr (o', Some (d[0 := 0])))
      else let o' = (if fixLengths then o'\<lparr>OptDataLen := of_nat (length (OptData o'))\<rparr> else o') in
       (case data of
          None \<Rightarrow> Inr (o', None)
        | Some d \<Rightarrow>
            if length d < 2 then Inl (Panic ''index out of range'')
            else let d = d[0 := OptType o', 1 := OptDataLen o'] in
              Inr (o', Some (take 2 d @ go_copy (drop 2 d) (OptData o')))))"

definition decodeTLVOption :: "bytes \<Rightarrow> tlv_option res" where
  "decodeTLVOption data =
     (if data = [] then Inl (Panic ''index out of range'')
      else let o' = \<lparr>OptType = data ! 0, OptDataLen = 0, ActualLength = 0, OptData = [], OptAlign = (0, 0)\<rparr> in
       if data ! 0 = OptTypePad1 then Inr (o'\<lparr>ActualLength := 1\<rparr>)
       else if length data < 2 then Inl (Err ''buffer too short'')
       else let
         o' = o'\<lparr>OptDataLen := data ! 1\<rparr>;
         o' = o'\<lparr>ActualLength := unat (OptDataLen o') + 2\<rparr>
       in if length data < ActualLength o' then Inl (Err ''buffer too short'')
          else Inr (o'\<lparr>OptData := slice 2 (ActualLength o') data\<rparr>))"

definition serializeTLVOptionPadding :: "bytes \<Rightarrow> nat \<Rightarrow> bytes res" where
  "serializeTLVOptionPadding data padLength =
     (if padLength \<le> 0 then Inr data
      else if padLength = 1 then
        (if data = [] then Inl (Panic ''index out of range'') else Inr (data[0 := 0]))
      else let
        dataLen = of_nat padLength - 2 :: u8;
        padN = \<lparr>OptType = OptTypePadN, OptDataLen = dataLen, ActualLength = 0,
                OptData = replicate (unat dataLen) 0, OptAlign = (0, 0)\<rparr>
      in rbind (tlv_serializeTo padN (Some data) False) (\<lambda>(_, d).
         case d of Some d \<Rightarrow> Inr d | None \<Rightarrow> Inr data))"

text \<open>A write through the window \<open>buf[i:]\<close>.\<close>

definition write_window :: "nat \<Rightarrow> bytes option \<Rightarrow> (bytes \<Rightarrow> bytes res) \<Rightarrow> bytes option res" where
  "write_window i buf f = (case buf of
       None \<Rightarrow> Inr None
     | Some b \<Rightarrow> rbind (gslice i (length b) b) (\<lambda>w. rbind (f w) (\<lambda>w. Inr (Some (put_at i w b)))))"

text \<open>The padding in front of an option: \<open>length\<close> counts the two bytes of the extension header.\<close>

definition align_pad :: "u8 \<times> u8 \<Rightarrow> nat \<Rightarrow> nat" where
  "align_pad al len = (let x = unat (fst al); y = unat (snd al) in
     if x = 0 then 0
     else let n = len div x; offset = x * n + y; offset = (if offset < len then offset + x else offset)
     in offset - len)"

fun tlv_loop :: "tlv_option list \<Rightarrow> bool \<Rightarrow> nat \<Rightarrow> bytes option \<Rightarrow> (tlv_option list \<times> nat \<times> bytes option) res" where
  "tlv_loop [] fixLengths len buf = Inr ([], len, buf)"
| "tlv_loop (opt # opts) fixLengths len buf = (let
     pad = (if fixLengths then align_pad (OptAlign opt) len else 0)
   in rbind (if pad = 0 then Inr buf
             else write_window (len - 2) buf (\<lambda>w. serializeTLVOptionPadding w pad)) (\<lambda>buf.
      let len = len + pad in
      rbind (case buf of
          None \<Rightarrow> Inr (opt, None)
        | Some b \<Rightarrow>
            rbind (gslice (len - 2) (length b) b) (\<lambda>w.
            rbind (tlv_serializeTo opt (Some w) fixLengths) (\<lambda>(opt, w).
            case w of Some w \<Rightarrow> Inr (opt, Some (put_at (len - 2) w b)) | None \<Rightarrow> Inr (opt, buf)))) (\<lambda>(opt, buf).
      rbind (tlv_loop opts fixLengths (len + tlv_length opt fixLengths) buf) (\<lambda>(opts, len, buf).
      Inr (opt # opts, len, buf)))))"

definition serializeTLVOptions ::
  "bytes option \<Rightarrow> tlv_option list \<Rightarrow> bool \<Rightarrow> (tlv_option list \<times> nat \<times> bytes option) res" where
  "serializeTLVOptions buf options fixLengths =
     rbind (tlv_loop options fixLengths 2 buf) (\<lambda>(options, len, buf).
     let p = len mod LineLen in
     if fixLengths \<and> p \<noteq> 0 then
       (let pad = LineLen - p in
        rbind (write_window (len - 2) buf (\<lambda>w. serializeTLVOptionPadding w pad)) (\<lambda>buf.
        Inr (options, len + pad - 2, buf)))
     else Inr (options, len - 2, buf))"

section \<open>Extension headers\<close>

record extn_base =
  ExtNextHdr :: u8
  ExtLen :: u8
  ActualLen :: nat
  ExtContents :: bytes
  ExtPayload :: bytes

definition extn_base_zero :: extn_base where
  "extn_base_zero = \<lparr>ExtNextHdr = 0, ExtLen = 0, ActualLen = 0, ExtContents = [], ExtPayload = []\<rparr>"

definition serializeToWithTLVOptions ::
  "(nat \<Rightarrow> bytes) \<Rightarrow> bool \<Rightarrow> 'a extn_base_scheme \<Rightarrow> tlv_option list \<Rightarrow> bytes \<Rightarrow> ('a extn_base_scheme \<times> bytes) res" where
  "serializeToWithTLVOptions alloc fixLengths e tlvOptions b =
     rbind (serializeTLVOptions None tlvOptions fixLengths) (\<lambda>(tlvOptions, l, _).
     rbind (serializeTLVOptions (Some (alloc l)) tlvOptions fixLengths) (\<lambda>(_, _, buf).
     case buf of None \<Rightarrow> Inl (Panic ''nil buffer'') | Some bs \<Rightarrow>
     let len = length bs + 2 in
     if len mod LineLen \<noteq> 0 then Inl (Err ''SCION extension actual length must be multiple of 4'')
     else let
       hdr = alloc 2;
       hdr = hdr[0 := ExtNextHdr e];
       e = (if fixLengths then e\<lparr>ExtLen := of_nat (len div LineLen - 1)\<rparr> else e);
       hdr = hdr[1 := ExtLen e]
     in Inr (e, hdr @ bs @ b)))"

definition decodeExtnBase :: "bytes \<Rightarrow> extn_base res" where
  "decodeExtnBase data =
     (if length data < 2 then Inl (Err ''invalid extension header. Length less than 2'')
      else let actualLen = (unat (data ! 1) + 1) * LineLen in
       if length data < actualLen then Inl (Err ''invalid extension header. Length less than specified length'')
       else Inr \<lparr>ExtNextHdr = data ! 0, ExtLen = data ! 1, ActualLen = actualLen,
                 ExtContents = slice 0 actualLen data, ExtPayload = drop actualLen data\<rparr>)"

definition checkHopByHopExtnNextHdr :: "u8 \<Rightarrow> unit res" where
  "checkHopByHopExtnNextHdr t =
     (if t = HopByHopClass then Inl (Err ''hbh extension must not be repeated'') else Inr ())"

definition checkEndToEndExtnNextHdr :: "u8 \<Rightarrow> unit res" where
  "checkEndToEndExtnNextHdr t =
     (if t = HopByHopClass then Inl (Err ''e2e extension must not come before the HBH extension'')
      else if t = End2EndClass then Inl (Err ''e2e extension must not be repeated'')
      else Inr ())"

record extn = extn_base +
  Options :: "tlv_option list"

lemma decodeTLVOption_pos: "decodeTLVOption w = Inr opt \<Longrightarrow> 0 < ActualLength opt"
  by (auto simp: decodeTLVOption_def Let_def split: if_splits)

text \<open>\<open>for offset < ActualLen { opt := decodeTLVOption(data[offset:ActualLen]); offset += opt.ActualLength }\<close>\<close>

function decode_options :: "bytes \<Rightarrow> nat \<Rightarrow> nat \<Rightarrow> tlv_option list res" where
  "decode_options data offset actualLen =
     (if offset < actualLen then
       rbind (gslice offset actualLen data) (\<lambda>w.
       case decodeTLVOption w of
         Inl e \<Rightarrow> Inl e
       | Inr opt \<Rightarrow> rbind (decode_options data (offset + ActualLength opt) actualLen) (\<lambda>opts. Inr (opt # opts)))
      else Inr [])"
  by pat_completeness auto

termination
  by (relation "measure (\<lambda>(data, offset, n). n - offset)") (auto dest: decodeTLVOption_pos)

declare decode_options.simps [simp del]

text \<open>Decoding appends to the options the receiver already holds.\<close>

definition HopByHopExtn_DecodeFromBytes :: "extn \<Rightarrow> bytes \<Rightarrow> extn res" where
  "HopByHopExtn_DecodeFromBytes h data =
     rbind (decodeExtnBase data) (\<lambda>e.
     rbind (checkHopByHopExtnNextHdr (ExtNextHdr e)) (\<lambda>_.
     rbind (decode_options data 2 (ActualLen e)) (\<lambda>opts.
     Inr (h\<lparr>ExtNextHdr := ExtNextHdr e, ExtLen := ExtLen e, ActualLen := ActualLen e,
       ExtContents := ExtContents e, ExtPayload := ExtPayload e, Options := Options h @ opts\<rparr>))))"

definition EndToEndExtn_DecodeFromBytes :: "extn \<Rightarrow> bytes \<Rightarrow> extn res" where
  "EndToEndExtn_DecodeFromBytes h data =
     rbind (decodeExtnBase data) (\<lambda>e.
     rbind (checkEndToEndExtnNextHdr (ExtNextHdr e)) (\<lambda>_.
     rbind (decode_options data 2 (ActualLen e)) (\<lambda>opts.
     Inr (h\<lparr>ExtNextHdr := ExtNextHdr e, ExtLen := ExtLen e, ActualLen := ActualLen e,
       ExtContents := ExtContents e, ExtPayload := ExtPayload e, Options := Options h @ opts\<rparr>))))"

definition HopByHopExtn_SerializeTo :: "(nat \<Rightarrow> bytes) \<Rightarrow> bool \<Rightarrow> extn \<Rightarrow> bytes \<Rightarrow> (extn \<times> bytes) res" where
  "HopByHopExtn_SerializeTo alloc fixLengths h b =
     rbind (checkHopByHopExtnNextHdr (ExtNextHdr h)) (\<lambda>_.
     serializeToWithTLVOptions alloc fixLengths h (Options h) b)"

definition EndToEndExtn_SerializeTo :: "(nat \<Rightarrow> bytes) \<Rightarrow> bool \<Rightarrow> extn \<Rightarrow> bytes \<Rightarrow> (extn \<times> bytes) res" where
  "EndToEndExtn_SerializeTo alloc fixLengths h b =
     rbind (checkEndToEndExtnNextHdr (ExtNextHdr h)) (\<lambda>_.
     serializeToWithTLVOptions alloc fixLengths h (Options h) b)"

fun FindOption :: "tlv_option list \<Rightarrow> u8 \<Rightarrow> tlv_option res" where
  "FindOption [] typ = Inl (Err ''Option not found'')"
| "FindOption (o' # os) typ = (if OptType o' = typ then Inr o' else FindOption os typ)"

definition HopByHopExtnSkipper_DecodeFromBytes :: "bytes \<Rightarrow> extn_base res" where
  "HopByHopExtnSkipper_DecodeFromBytes data =
     rbind (decodeExtnBase data) (\<lambda>e. rbind (checkHopByHopExtnNextHdr (ExtNextHdr e)) (\<lambda>_. Inr e))"

definition EndToEndExtnSkipper_DecodeFromBytes :: "bytes \<Rightarrow> extn_base res" where
  "EndToEndExtnSkipper_DecodeFromBytes data =
     rbind (decodeExtnBase data) (\<lambda>e. rbind (checkEndToEndExtnNextHdr (ExtNextHdr e)) (\<lambda>_. Inr e))"

definition HopByHopExtn_NextLayerType :: "'a extn_base_scheme \<Rightarrow> layer_type" where
  "HopByHopExtn_NextLayerType h = scionNextLayerTypeAfterHBH (ExtNextHdr h)"

definition EndToEndExtn_NextLayerType :: "'a extn_base_scheme \<Rightarrow> layer_type" where
  "EndToEndExtn_NextLayerType h = scionNextLayerTypeAfterE2E (ExtNextHdr h)"

section \<open>The packet authenticator option\<close>

definition PacketAuthCMAC :: u8 where "PacketAuthCMAC = 0"

definition Auth_Reset :: "u8 \<Rightarrow> bytes \<Rightarrow> tlv_option" where
  "Auth_Reset alg data = \<lparr>OptType = OptTypeAuthenticator, OptDataLen = 0, ActualLength = 0,
     OptData = alg # data, OptAlign = (4, 1)\<rparr>"

definition NewPacketAuthenticatorOption :: "u8 \<Rightarrow> bytes \<Rightarrow> tlv_option" where
  "NewPacketAuthenticatorOption alg data = Auth_Reset alg data"

definition ParsePacketAuthenticatorOption :: "tlv_option \<Rightarrow> tlv_option res" where
  "ParsePacketAuthenticatorOption o' =
     (if OptType o' \<noteq> OptTypeAuthenticator then Inl (Err ''wrong option type'')
      else if length (OptData o') < 2 then Inl (Err ''buffer too short'')
      else Inr o')"

definition Auth_Algorithm :: "tlv_option \<Rightarrow> u8 res" where
  "Auth_Algorithm o' =
     (if OptData o' = [] then Inl (Panic ''index out of range'') else Inr (OptData o' ! 0))"

definition Auth_Authenticator :: "tlv_option \<Rightarrow> bytes res" where
  "Auth_Authenticator o' = gslice 1 (length (OptData o')) (OptData o')"

section \<open>The options on the wire\<close>

text \<open>The reference: the options with explicit padding options between them, each encoded on its own.
  \<open>aligned\<close> says that every option starts at an offset that fits its \<open>OptAlign\<close> and that the whole
  header is a multiple of the line length.\<close>

definition opt_bytes :: "tlv_option \<Rightarrow> bytes" where
  "opt_bytes o' = (if OptType o' = OptTypePad1 then [0]
     else OptType o' # of_nat (length (OptData o')) # OptData o')"

definition opt_seen :: "tlv_option \<Rightarrow> tlv_option" where
  "opt_seen o' = (if OptType o' = OptTypePad1
     then \<lparr>OptType = OptType o', OptDataLen = 0, ActualLength = 1, OptData = [], OptAlign = (0, 0)\<rparr>
     else \<lparr>OptType = OptType o', OptDataLen = of_nat (length (OptData o')), ActualLength = length (OptData o') + 2,
       OptData = OptData o', OptAlign = (0, 0)\<rparr>)"

definition pad_opts :: "nat \<Rightarrow> tlv_option list" where
  "pad_opts n = (if n = 0 then [] else
     [\<lparr>OptType = (if n = 1 then OptTypePad1 else OptTypePadN), OptDataLen = 0, ActualLength = 0,
       OptData = replicate (n - 2) 0, OptAlign = (0, 0)\<rparr>])"

fun padded :: "tlv_option list \<Rightarrow> nat \<Rightarrow> tlv_option list" where
  "padded [] len = []"
| "padded (o' # os) len = (let pad = align_pad (OptAlign o') len in
     pad_opts pad @ o' # padded os (len + pad + length (opt_bytes o')))"

definition is_pad :: "tlv_option \<Rightarrow> bool" where
  "is_pad o' \<longleftrightarrow> OptType o' = OptTypePad1 \<or> OptType o' = OptTypePadN"

definition opt_aligned :: "tlv_option \<Rightarrow> nat \<Rightarrow> bool" where
  "opt_aligned o' off \<longleftrightarrow> (let x = unat (fst (OptAlign o')); y = unat (snd (OptAlign o')) in x \<noteq> 0 \<longrightarrow> off mod x = y)"

fun aligned :: "nat \<Rightarrow> tlv_option list \<Rightarrow> bool" where
  "aligned off [] \<longleftrightarrow> off mod LineLen = 0"
| "aligned off (o' # os) \<longleftrightarrow> opt_aligned o' off \<and> aligned (off + length (opt_bytes o')) os"

definition opt_wf :: "tlv_option \<Rightarrow> bool" where
  "opt_wf o' \<longleftrightarrow> length (OptData o') < 256 \<and> (OptType o' = OptTypePad1 \<longrightarrow> OptData o' = []) \<and>
     (fst (OptAlign o') \<noteq> 0 \<longrightarrow> snd (OptAlign o') < fst (OptAlign o'))"

definition opts_bytes :: "tlv_option list \<Rightarrow> bytes" where
  "opts_bytes os = concat (map opt_bytes os)"

lemma opts_bytes_simps [simp]:
  "opts_bytes [] = []" "opts_bytes (o' # os) = opt_bytes o' @ opts_bytes os"
  "opts_bytes (os @ ps) = opts_bytes os @ opts_bytes ps"
  by (simp_all add: opts_bytes_def)

lemma length_opt_bytes: "length (opt_bytes o') = tlv_length o' True"
  by (simp add: opt_bytes_def tlv_length_def)

lemma opt_bytes_pos: "0 < length (opt_bytes o')"
  by (simp add: opt_bytes_def)

lemma length_pad_opts [simp]: "length (opts_bytes (pad_opts n)) = n"
  by (auto simp: pad_opts_def opt_bytes_def opt_type_defs)

lemma align_pad_correct:
  fixes x :: nat
  assumes "y < x" "0 < x"
  shows "(len + (let offset = x * (len div x) + y; offset = if offset < len then offset + x else offset in offset - len)) mod x = y \<and>
    (let offset = x * (len div x) + y; offset = if offset < len then offset + x else offset in offset - len) < x"
proof -
  have l: "len = x * (len div x) + len mod x" using mult_div_mod_eq [of x len] by simp
  have m: "len mod x < x" using assms(2) by simp
  show ?thesis
  proof (cases "y < len mod x")
    case True
    then have "x * (len div x) + y < len" using l by linarith
    moreover have "len \<le> x * (len div x) + y + x" using l m by linarith
    moreover have "len + (x * (len div x) + y + x - len) = x * (len div x + 1) + y" using calculation(2) by simp
    moreover have "x * (len div x) + y + x - len < x" using \<open>x * (len div x) + y < len\<close> assms(2) by linarith
    moreover have "(x * (len div x + 1) + y) mod x = y" unfolding mod_mult_self4 using assms by simp
    ultimately show ?thesis by (simp only: Let_def if_True)
  next
    case False
    then have "\<not> x * (len div x) + y < len" using l by linarith
    moreover have "len + (x * (len div x) + y - len) = x * (len div x) + y" using calculation by linarith
    moreover have "x * (len div x) + y - len < x" using assms l by linarith
    ultimately show ?thesis using assms by (simp only: Let_def if_False) simp
  qed
qed

lemma align_pad_aligned:
  assumes "opt_wf o'"
  shows "opt_aligned o' (len + align_pad (OptAlign o') len)" "align_pad (OptAlign o') len < 256"
proof -
  let ?x = "unat (fst (OptAlign o'))" and ?y = "unat (snd (OptAlign o'))"
  have yx: "?y < ?x" if "?x \<noteq> 0"
    using assms that by (auto simp: opt_wf_def word_less_nat_alt unsigned_eq_0_iff)
  show "opt_aligned o' (len + align_pad (OptAlign o') len)"
    using align_pad_correct [OF yx, of len] unfolding opt_aligned_def align_pad_def Let_def by auto
  show "align_pad (OptAlign o') len < 256"
  proof (cases "?x = 0")
    case True then show ?thesis by (simp add: align_pad_def)
  next
    case False
    have "align_pad (OptAlign o') len < ?x"
      using align_pad_correct [OF yx [OF False], of len] False unfolding align_pad_def Let_def by simp
    then show ?thesis using unat_u8_less [of "fst (OptAlign o')"] by linarith
  qed
qed

text \<open>Writing one padding and one option through the window.\<close>

lemma take_put_at: "i \<le> length b \<Longrightarrow> take i (put_at i w b) = take i b"
  by (simp add: put_at_def)

lemma put_at_append:
  "i + length xs \<le> length b \<Longrightarrow> put_at (i + length xs) ys (put_at i xs b) = put_at i (xs @ ys) b"
  by (simp add: put_at_def ac_simps)

lemma put_at_window:
  "i + length xs \<le> length b \<Longrightarrow> put_at i (put_at 0 xs (drop i b)) b = put_at i xs b"
  by (simp add: put_at_def add.commute)

lemma tlv_serializeTo_bytes:
  assumes "opt_wf o'" "length (opt_bytes o') \<le> length d"
  shows "\<exists>n. tlv_serializeTo o' (Some d) True = Inr (o'\<lparr>OptDataLen := n\<rparr>, Some (put_at 0 (opt_bytes o') d))"
proof (cases "OptType o' = OptTypePad1")
  case True
  then show ?thesis using assms
    by (intro exI [of _ "OptDataLen o'"])
      (cases d; auto simp: tlv_serializeTo_def opt_bytes_def put_at_def)
next
  case False
  then obtain a c r where d: "d = a # c # r"
    using assms(2) by (cases d; cases "tl d") (auto simp: opt_bytes_def)
  show ?thesis using False assms(2)
    by (auto simp: tlv_serializeTo_def opt_bytes_def d Let_def put_at_def go_copy_def)
qed

lemma serializeTLVOptionPadding_bytes:
  assumes "n < 258" "n \<le> length d"
  shows "serializeTLVOptionPadding d n = Inr (put_at 0 (opts_bytes (pad_opts n)) d)"
proof -
  consider "n = 0" | "n = 1" | "2 \<le> n" by linarith
  then show ?thesis
  proof cases
    case 3
    obtain a c r where d: "d = a # c # r" using 3 assms(2) by (cases d; cases "tl d") auto
    have "(of_nat n - 2 :: u8) = of_nat (n - 2)" using 3 by (simp add: of_nat_diff)
    moreover have "unat (of_nat (n - 2) :: u8) = n - 2" using assms(1) by (simp add: unat_of_nat take_bit_nat_eq_self_iff)
    ultimately show ?thesis using 3 assms(2)
      by (simp add: serializeTLVOptionPadding_def tlv_serializeTo_def opt_type_defs Let_def d put_at_def
          pad_opts_def opt_bytes_def go_copy_def)
  next
    case 2
    then show ?thesis using assms by (cases d) (auto simp: serializeTLVOptionPadding_def put_at_def pad_opts_def opt_bytes_def opt_type_defs)
  qed (use assms in \<open>auto simp: serializeTLVOptionPadding_def put_at_def pad_opts_def opt_bytes_def opt_type_defs\<close>)
qed
lemma write_pad:
  assumes "2 \<le> len" "n < 258" "len - 2 + n \<le> length b"
  shows "write_window (len - 2) (Some b) (\<lambda>w. serializeTLVOptionPadding w n) =
    Inr (Some (put_at (len - 2) (opts_bytes (pad_opts n)) b))"
  using assms
  by (simp add: write_window_def slice_def serializeTLVOptionPadding_bytes put_at_window)

lemma tlv_step_bytes:
  assumes "opt_wf o'" "i + length (opt_bytes o') \<le> length b"
  shows "\<exists>n. tlv_serializeTo o' (Some (slice i (length b) b)) True =
     Inr (o'\<lparr>OptDataLen := n\<rparr>, Some (put_at 0 (opt_bytes o') (drop i b)))"
  using tlv_serializeTo_bytes [OF assms(1), of "drop i b"] assms(2) by (simp add: slice_def)

lemma tlv_loop_bytes:
  assumes "list_all opt_wf os" "2 \<le> len" "len - 2 + length (opts_bytes (padded os len)) \<le> length b"
  shows "\<exists>os'. tlv_loop os True len (Some b) =
     Inr (os', len + length (opts_bytes (padded os len)), Some (put_at (len - 2) (opts_bytes (padded os len)) b))"
  using assms
proof (induction os arbitrary: len b)
  case Nil
  then show ?case by (simp add: put_at_def)
next
  case (Cons o' os)
  let ?p = "align_pad (OptAlign o') len"
  let ?pb = "opts_bytes (pad_opts ?p)" and ?ob = "opt_bytes o'" and ?len = "len + ?p + length (opt_bytes o')"
  let ?b = "put_at (len - 2) ?pb b" and ?r = "opts_bytes (padded os ?len)"
  have wf: "opt_wf o'" "list_all opt_wf os" and p: "?p < 256"
    using Cons.prems align_pad_aligned(2) by auto
  have fit: "len - 2 + ?p + length ?ob + length ?r \<le> length b"
    using Cons.prems(3) by (simp add: Let_def)
  have pad: "(if ?p = 0 then Inr (Some b) else write_window (len - 2) (Some b) (\<lambda>w. serializeTLVOptionPadding w ?p)) = Inr (Some ?b)"
    using write_pad [OF Cons.prems(2), of ?p b] p fit by (auto simp: put_at_def pad_opts_def)
  have lb: "length ?b = length b" using fit by simp
  obtain n where n: "tlv_serializeTo o' (Some (slice (len - 2 + ?p) (length b) ?b)) True =
     Inr (o'\<lparr>OptDataLen := n\<rparr>, Some (put_at 0 ?ob (drop (len - 2 + ?p) ?b)))"
    using tlv_step_bytes [OF wf(1), of "len - 2 + ?p" ?b] fit lb by auto
  let ?c = "put_at (len - 2 + ?p) ?ob ?b"
  have c: "?c = put_at (len - 2) (?pb @ ?ob) b"
    using put_at_append [of "len - 2" ?pb b ?ob] fit by simp
  have lc: "length ?c = length b" using fit lb by simp
  have d: "put_at (len - 2 + ?p) (put_at 0 ?ob (drop (len - 2 + ?p) ?b)) ?b = ?c"
    by (rule put_at_window) (use fit lb in simp)
  have tl: "tlv_length (o'\<lparr>OptDataLen := n\<rparr>) True = length ?ob"
    by (simp add: length_opt_bytes tlv_length_def)
  obtain os' where os': "tlv_loop os True ?len (Some ?c) = Inr (os', ?len + length ?r, Some (put_at (?len - 2) ?r ?c))"
    using Cons.IH [OF wf(2), of ?len ?c] Cons.prems(2) fit lc by auto
  have "?len - 2 = len - 2 + length (?pb @ ?ob)" using Cons.prems(2) by simp
  then have e: "put_at (?len - 2) ?r ?c = put_at (len - 2) ((?pb @ ?ob) @ ?r) b"
    unfolding c using put_at_append [of "len - 2" "?pb @ ?ob" b ?r] fit by simp
  have i: "len + ?p - 2 = len - 2 + ?p" using Cons.prems(2) by simp
  show ?case
    using pad n d os' tl e lb fit
    by (simp add: Let_def i)
qed

lemma tlv_loop_dry:
  "tlv_loop os True len None = Inr (os, len + length (opts_bytes (padded os len)), None)"
  by (induction os arbitrary: len) (simp_all add: Let_def write_window_def length_opt_bytes add.assoc)

definition padded_all :: "tlv_option list \<Rightarrow> tlv_option list" where
  "padded_all os = (let ps = padded os 2; p = (2 + length (opts_bytes ps)) mod LineLen
     in ps @ (if p = 0 then [] else pad_opts (LineLen - p)))"

lemma padded_all_length:
  "length (opts_bytes (padded_all os)) = length (opts_bytes (padded os 2)) +
     (let p = (2 + length (opts_bytes (padded os 2))) mod LineLen in if p = 0 then 0 else LineLen - p)"
  by (simp add: padded_all_def Let_def)

lemma serializeTLVOptions_dry:
  "serializeTLVOptions None os True = Inr (os, length (opts_bytes (padded_all os)), None)"
  by (simp add: serializeTLVOptions_def tlv_loop_dry padded_all_length Let_def write_window_def)

lemma serializeTLVOptions_bytes:
  assumes "list_all opt_wf os" "length b = length (opts_bytes (padded_all os))"
  shows "\<exists>os'. serializeTLVOptions (Some b) os True = Inr (os', length b, Some (opts_bytes (padded_all os)))"
proof -
  let ?ps = "opts_bytes (padded os 2)" and ?p = "(2 + length (opts_bytes (padded os 2))) mod LineLen"
  have l: "length b = length ?ps + (if ?p = 0 then 0 else LineLen - ?p)"
    using assms(2) by (simp only: padded_all_length Let_def)
  obtain os' where os': "tlv_loop os True 2 (Some b) = Inr (os', 2 + length ?ps, Some (put_at 0 ?ps b))"
    using tlv_loop_bytes [OF assms(1), of 2 b] l by auto
  show ?thesis
  proof (cases "?p = 0")
    case True
    then show ?thesis using os' l by (simp add: serializeTLVOptions_def put_at_def padded_all_def Let_def)
  next
    case False
    let ?n = "LineLen - ?p"
    have "?n < 258" by (simp add: LineLen_def)
    moreover have "length (put_at 0 ?ps b) = length b" using l by simp
    ultimately have "write_window (2 + length ?ps - 2) (Some (put_at 0 ?ps b)) (\<lambda>w. serializeTLVOptionPadding w ?n) =
       Inr (Some (put_at (length ?ps) (opts_bytes (pad_opts ?n)) (put_at 0 ?ps b)))"
      using write_pad [of "2 + length ?ps" ?n "put_at 0 ?ps b"] l False by simp
    moreover have "put_at (length ?ps) (opts_bytes (pad_opts ?n)) (put_at 0 ?ps b) = ?ps @ opts_bytes (pad_opts ?n)"
      using l False by (simp add: put_at_def)
    ultimately show ?thesis using os' False l
      by (simp add: serializeTLVOptions_def padded_all_def Let_def)
  qed
qed
lemma pad_opts_wf: "n < 258 \<Longrightarrow> list_all opt_wf (pad_opts n)"
  by (auto simp: pad_opts_def opt_wf_def opt_type_defs)

lemma padded_wf: "list_all opt_wf os \<Longrightarrow> list_all opt_wf (padded os len)"
proof (induction os arbitrary: len)
  case (Cons o' os)
  then have "align_pad (OptAlign o') len < 258" using align_pad_aligned(2) [of o' len] by simp
  then show ?case using Cons pad_opts_wf by (simp add: Let_def)
qed simp

lemma padded_all_wf: "list_all opt_wf os \<Longrightarrow> list_all opt_wf (padded_all os)"
  using padded_wf pad_opts_wf by (auto simp: padded_all_def Let_def LineLen_def)

lemma filter_pad_opts [simp]: "filter (\<lambda>o'. \<not> is_pad o') (pad_opts n) = []"
  by (simp add: pad_opts_def is_pad_def)

lemma padded_filter: "filter (\<lambda>o'. \<not> is_pad o') (padded os len) = filter (\<lambda>o'. \<not> is_pad o') os"
  by (induction os arbitrary: len) (simp_all add: Let_def)

lemma padded_all_filter: "filter (\<lambda>o'. \<not> is_pad o') (padded_all os) = filter (\<lambda>o'. \<not> is_pad o') os"
  by (simp add: padded_all_def Let_def padded_filter)

lemma aligned_pad_opts: "aligned off (pad_opts n @ os) \<longleftrightarrow> aligned (off + n) os"
proof (cases "n < 2")
  case False
  then have "Suc (Suc (off + n - 2)) = off + n" by simp
  with False show ?thesis by (simp add: pad_opts_def opt_aligned_def opt_bytes_def opt_type_defs)
qed (auto simp: less_2_cases_iff pad_opts_def opt_aligned_def opt_bytes_def opt_type_defs)

lemma padded_aligned:
  "list_all opt_wf os \<Longrightarrow> aligned (len + length (opts_bytes (padded os len))) ps \<Longrightarrow> aligned len (padded os len @ ps)"
  by (induction os arbitrary: len) (simp_all add: Let_def aligned_pad_opts align_pad_aligned(1) add.assoc)

lemma padded_all_aligned:
  assumes "list_all opt_wf os" shows "aligned 2 (padded_all os)"
proof -
  let ?l = "2 + length (opts_bytes (padded os 2))"
  have "(?l + (LineLen - ?l mod LineLen)) mod LineLen = 0"
    unfolding LineLen_def by presburger
  then have "aligned ?l (if ?l mod LineLen = 0 then [] else pad_opts (LineLen - ?l mod LineLen))"
    using aligned_pad_opts [of ?l "LineLen - ?l mod LineLen" "[]"] by simp
  then show ?thesis
    unfolding padded_all_def Let_def using padded_aligned [OF assms, of 2] by blast
qed

lemma aligned_length: "aligned off os \<Longrightarrow> (off + length (opts_bytes os)) mod LineLen = 0"
  by (induction os arbitrary: off) (simp, force simp: add.assoc [symmetric])

lemma decodeTLVOption_bytes:
  assumes "opt_wf o'"
  shows "decodeTLVOption (opt_bytes o' @ r) = Inr (opt_seen o')" "ActualLength (opt_seen o') = length (opt_bytes o')"
proof -
  have "unat (of_nat (length (OptData o')) :: u8) = length (OptData o')"
    using assms by (simp add: opt_wf_def unat_of_nat take_bit_nat_eq_self_iff)
  then show "decodeTLVOption (opt_bytes o' @ r) = Inr (opt_seen o')"
    by (simp add: decodeTLVOption_def opt_bytes_def opt_seen_def opt_type_defs slice_def)
qed (simp add: opt_seen_def opt_bytes_def)

lemma decode_options_bytes:
  assumes "list_all opt_wf os"
  shows "decode_options (pre @ opts_bytes os @ post) (length pre) (length pre + length (opts_bytes os)) = Inr (map opt_seen os)"
  using assms
proof (induction os arbitrary: pre)
  case Nil
  then show ?case by (simp add: decode_options.simps)
next
  case (Cons o' os)
  have "0 < length (opt_bytes o')" by (rule opt_bytes_pos)
  moreover have "slice (length pre) (length pre + (length (opt_bytes o') + length (opts_bytes os)))
      (pre @ opt_bytes o' @ opts_bytes os @ post) = opt_bytes o' @ opts_bytes os"
    by (simp add: slice_def)
  ultimately show ?case
    using Cons.IH [of "pre @ opt_bytes o'"] Cons.prems decodeTLVOption_bytes [of o']
    by (subst decode_options.simps) (simp add: add.assoc)
qed

text \<open>The shape shared by the two extension headers: a check of the next header, then the common
  serialisation; a common decoding, then the check. The round trip is proved once.\<close>

locale extn_layer =
  fixes ser :: "(nat \<Rightarrow> bytes) \<Rightarrow> bool \<Rightarrow> extn \<Rightarrow> bytes \<Rightarrow> (extn \<times> bytes) res"
    and dec :: "extn \<Rightarrow> bytes \<Rightarrow> extn res"
    and check :: "u8 \<Rightarrow> unit res"
  assumes ser_eq: "ser alloc fix h b = rbind (check (ExtNextHdr h)) (\<lambda>_.
      serializeToWithTLVOptions alloc fix h (Options h) b)"
    and dec_eq: "dec h data = rbind (decodeExtnBase data) (\<lambda>e. rbind (check (ExtNextHdr e)) (\<lambda>_.
      rbind (decode_options data 2 (ActualLen e)) (\<lambda>opts.
      Inr (h\<lparr>ExtNextHdr := ExtNextHdr e, ExtLen := ExtLen e, ActualLen := ActualLen e,
        ExtContents := ExtContents e, ExtPayload := ExtPayload e, Options := Options h @ opts\<rparr>))))"
begin

lemma roundtrip:
  assumes al: "\<And>n. length (alloc n) = n" and wf: "list_all opt_wf (Options h)"
    and ck: "check (ExtNextHdr h) = Inr ()"
    and dry: "serializeTLVOptions None (Options h) True = Inr (os, l, nb)" "l < 1024"
  shows "\<exists>h' bs r ps. ser alloc True h b = Inr (h', bs) \<and> length bs = l + 2 + length b \<and>
      dec g bs = Inr r \<and> ExtNextHdr r = ExtNextHdr h \<and> ExtLen r = ExtLen h' \<and> ExtPayload r = b \<and>
      ActualLen r = l + 2 \<and> Options r = Options g @ map opt_seen ps \<and>
      filter (\<lambda>o'. \<not> is_pad o') ps = filter (\<lambda>o'. \<not> is_pad o') (Options h) \<and> aligned 2 ps"
proof -
  let ?ps = "padded_all (Options h)"
  let ?bs = "opts_bytes ?ps"
  have l: "os = Options h" "l = length ?bs" using dry(1) by (auto simp: serializeTLVOptions_dry)
  obtain os' where os': "serializeTLVOptions (Some (alloc l)) (Options h) True = Inr (os', l, Some ?bs)"
    using serializeTLVOptions_bytes [OF wf, of "alloc l"] al l(2) by auto
  have m: "(l + 2) mod LineLen = 0"
    using aligned_length [OF padded_all_aligned [OF wf]] l(2) by (simp add: add.commute)
  obtain x y where a2: "alloc 2 = [x, y]" using al [of 2] by (auto simp: length_Suc_conv numeral_2_eq_2)
  let ?n = "(l + 2) div LineLen - 1"
  let ?h = "h\<lparr>ExtLen := of_nat ?n\<rparr>" and ?p = "ExtNextHdr h # of_nat ?n # ?bs @ b"
  have s: "ser alloc True h b = Inr (?h, ?p)"
    using os' m ck l by (simp add: ser_eq serializeToWithTLVOptions_def serializeTLVOptions_dry Let_def a2)
  have d4: "4 dvd l + 2" using m by (simp add: LineLen_def mod_eq_0_iff_dvd)
  have "?n < 256" using dry(2) d4 by (auto simp: LineLen_def elim!: dvdE)
  then have "unat (of_nat ?n :: u8) = ?n" by (simp add: unat_of_nat take_bit_nat_eq_self_iff)
  then have len: "(unat (of_nat ?n :: u8) + 1) * LineLen = l + 2"
    using d4 by (auto simp: LineLen_def elim!: dvdE)
  then have b: "decodeExtnBase ?p = Inr \<lparr>ExtNextHdr = ExtNextHdr h, ExtLen = of_nat ?n, ActualLen = l + 2,
      ExtContents = slice 0 (l + 2) ?p, ExtPayload = b\<rparr>"
    using l(2) by (simp add: decodeExtnBase_def Let_def)
  have o': "decode_options ?p 2 (l + 2) = Inr (map opt_seen ?ps)"
    using decode_options_bytes [OF padded_all_wf [OF wf], of "[ExtNextHdr h, of_nat ?n]" b] l(2)
    by (simp add: numeral_2_eq_2)
  have "dec g ?p = Inr (g\<lparr>ExtNextHdr := ExtNextHdr h, ExtLen := of_nat ?n, ActualLen := l + 2,
      ExtContents := slice 0 (l + 2) ?p, ExtPayload := b, Options := Options g @ map opt_seen ?ps\<rparr>)"
    using o' unfolding dec_eq b by (simp add: ck)
  with s show ?thesis
    using padded_all_filter padded_all_aligned [OF wf] l(2) by (intro exI conjI) (assumption | simp)+
qed

end

interpretation hbh: extn_layer HopByHopExtn_SerializeTo HopByHopExtn_DecodeFromBytes checkHopByHopExtnNextHdr
  by unfold_locales (simp_all add: HopByHopExtn_SerializeTo_def HopByHopExtn_DecodeFromBytes_def)

interpretation e2e: extn_layer EndToEndExtn_SerializeTo EndToEndExtn_DecodeFromBytes checkEndToEndExtnNextHdr
  by unfold_locales (simp_all add: EndToEndExtn_SerializeTo_def EndToEndExtn_DecodeFromBytes_def)

lemma opt_seen_fields: "opt_wf o' \<Longrightarrow> OptType (opt_seen o') = OptType o' \<and> OptData (opt_seen o') = OptData o'"
  by (simp add: opt_seen_def opt_wf_def)

text \<open>Hop-by-hop and end-to-end extension headers are decoded back after serialisation with fixed
  lengths: next header and payload are kept, the decoded options are the serialised ones in their order with
  only padding options added, every option starts at an offset that satisfies its alignment, and the
  header is a multiple of four bytes of exactly the length the dry run announced. This holds up to the 1024
  bytes the length field can express.\<close>

lemma extn_roundtrip:
  assumes "\<And>n. length (alloc n) = n" "list_all opt_wf (Options h)"
    "serializeTLVOptions None (Options h) True = Inr (os, l, nb)" "l < 1024"
  shows "(checkHopByHopExtnNextHdr (ExtNextHdr h) = Inr () \<longrightarrow>
      (\<exists>h' bs r ps. HopByHopExtn_SerializeTo alloc True h b = Inr (h', bs) \<and> length bs = l + 2 + length b \<and>
        HopByHopExtn_DecodeFromBytes g bs = Inr r \<and> ExtNextHdr r = ExtNextHdr h \<and> ExtLen r = ExtLen h' \<and>
        ExtPayload r = b \<and> ActualLen r = l + 2 \<and> Options r = Options g @ map opt_seen ps \<and>
        filter (\<lambda>o'. \<not> is_pad o') ps = filter (\<lambda>o'. \<not> is_pad o') (Options h) \<and> aligned 2 ps)) \<and>
    (checkEndToEndExtnNextHdr (ExtNextHdr h) = Inr () \<longrightarrow>
      (\<exists>h' bs r ps. EndToEndExtn_SerializeTo alloc True h b = Inr (h', bs) \<and> length bs = l + 2 + length b \<and>
        EndToEndExtn_DecodeFromBytes g bs = Inr r \<and> ExtNextHdr r = ExtNextHdr h \<and> ExtLen r = ExtLen h' \<and>
        ExtPayload r = b \<and> ActualLen r = l + 2 \<and> Options r = Options g @ map opt_seen ps \<and>
        filter (\<lambda>o'. \<not> is_pad o') ps = filter (\<lambda>o'. \<not> is_pad o') (Options h) \<and> aligned 2 ps))"
  using hbh.roundtrip [OF assms(1,2) _ assms(3,4)] e2e.roundtrip [OF assms(1,2) _ assms(3,4)] by blast

definition demo_extn :: extn where
  "demo_extn = \<lparr>ExtNextHdr = L4UDP, ExtLen = 0, ActualLen = 0, ExtContents = [], ExtPayload = [],
     Options = [NewPacketAuthenticatorOption PacketAuthCMAC [7, 8, 9]]\<rparr>"

lemma extn_roundtrip_example:
  "\<exists>h' bs r ps. EndToEndExtn_SerializeTo (\<lambda>n. replicate n 0xFF) True demo_extn [1, 2] = Inr (h', bs) \<and>
     EndToEndExtn_DecodeFromBytes (demo_extn\<lparr>Options := []\<rparr>) bs = Inr r \<and> ExtPayload r = [1, 2] \<and>
     Options r = map opt_seen ps \<and> aligned 2 ps \<and>
     filter (\<lambda>o'. \<not> is_pad o') ps = [NewPacketAuthenticatorOption PacketAuthCMAC [7, 8, 9]]"
proof -
  have "list_all opt_wf (Options demo_extn)"
    by (simp add: demo_extn_def NewPacketAuthenticatorOption_def Auth_Reset_def opt_wf_def opt_type_defs)
  moreover have "serializeTLVOptions None (Options demo_extn) True = Inr (Options demo_extn, 10, None)"
    by (simp add: serializeTLVOptions_dry demo_extn_def padded_all_def NewPacketAuthenticatorOption_def Auth_Reset_def
        opt_bytes_def opt_type_defs align_pad_def LineLen_def pad_opts_def Let_def)
  moreover have "checkEndToEndExtnNextHdr (ExtNextHdr demo_extn) = Inr ()"
    by (simp add: demo_extn_def checkEndToEndExtnNextHdr_def l4_consts)
  moreover have "filter (\<lambda>o'. \<not> is_pad o') (Options demo_extn) = [NewPacketAuthenticatorOption PacketAuthCMAC [7, 8, 9]]"
    by (simp add: demo_extn_def is_pad_def NewPacketAuthenticatorOption_def Auth_Reset_def opt_type_defs)
  ultimately show ?thesis
    using extn_roundtrip [of "\<lambda>n. replicate n 0xFF" demo_extn "Options demo_extn" 10 None "[1, 2]" "demo_extn\<lparr>Options := []\<rparr>"]
    by auto
qed

end
