(* ===== verification/Cbc.thy ===== *)
theory Cbc
  imports Scion_Layer
begin

unbundle bit_operations_syntax

text \<open>
  What the EPIC and COLIBRI code uses of Go's \<open>crypto\<close> and \<open>time\<close> packages. The block cipher (AES) is a
  parameter, a function from a key and a 16-byte block to a block; the CBC mode on top of it is defined
  here. A \<open>time.Time\<close> is a count of nanoseconds since the Unix epoch.
\<close>

definition BlockSize :: nat where "BlockSize = 16"

definition zeroInitVector :: bytes where "zeroInitVector = replicate 16 0"

text \<open>\<open>aes.NewCipher\<close>: keys of 16, 24 and 32 bytes are accepted.\<close>

definition NewCipher :: "(bytes \<Rightarrow> bytes \<Rightarrow> bytes) \<Rightarrow> bytes \<Rightarrow> (bytes \<Rightarrow> bytes) res" where
  "NewCipher aes key =
     (if length key \<in> {16, 24, 32} then Inr (aes key) else Inl (Err ''crypto/aes: invalid key size''))"

definition xor_block :: "bytes \<Rightarrow> bytes \<Rightarrow> bytes" where
  "xor_block a b = map2 (XOR) a b"

function cbc :: "(bytes \<Rightarrow> bytes) \<Rightarrow> bytes \<Rightarrow> bytes \<Rightarrow> bytes" where
  "cbc E iv src =
     (if length src < BlockSize then []
      else let c = E (xor_block iv (take BlockSize src)) in c @ cbc E c (drop BlockSize src))"
  by pat_completeness auto
termination
  by (relation "measure (\<lambda>(E, iv, src). length src)") (auto simp: BlockSize_def)

declare cbc.simps [simp del]

text \<open>\<open>CryptBlocks\<close> of a CBC encrypter with the zero initialisation vector.\<close>

definition CryptBlocks :: "(bytes \<Rightarrow> bytes) \<Rightarrow> bytes \<Rightarrow> bytes res" where
  "CryptBlocks E src =
     (if length src mod BlockSize \<noteq> 0 then Inl (Panic ''crypto/cipher: input not full blocks'')
      else Inr (cbc E zeroInitVector src))"

definition cipher_ok :: "(bytes \<Rightarrow> bytes) \<Rightarrow> bool" where
  "cipher_ok E \<longleftrightarrow> (\<forall>b. length (E b) = BlockSize)"

lemma length_cbc: "cipher_ok E \<Longrightarrow> length src mod BlockSize = 0 \<Longrightarrow> length (cbc E iv src) = length src"
proof (induction E iv src rule: cbc.induct)
  case (1 E iv src)
  show ?case
  proof (cases "length src < BlockSize")
    case True
    then show ?thesis using 1 by (auto simp: cbc.simps [of E iv "[]"] BlockSize_def)
  next
    case False
    then have "(length src - BlockSize) mod BlockSize = 0"
      using 1(3) by (simp add: le_mod_geq)
    then show ?thesis
      using 1 False by (simp add: cbc.simps [of E iv src] Let_def cipher_ok_def)
  qed
qed

text \<open>Filling a buffer from the left.\<close>

lemma slice_fill: "length pre = off \<Longrightarrow> slice off n (pre @ rest) = take (n - off) rest"
  by (simp add: slice_def)

lemma put_at_fill:
  "length pre = off \<Longrightarrow> put_at off w (pre @ rest) = pre @ w @ drop (length w) rest"
  by (simp add: put_at_def)

lemma PutUint_inj [simp]:
  "PutUint16 a = PutUint16 a' \<longleftrightarrow> a = a'" "PutUint32 b = PutUint32 b' \<longleftrightarrow> b = b'" "PutUint64 c = PutUint64 c' \<longleftrightarrow> c = c'"
  by (metis Uint16_PutUint16, metis Uint32_PutUint32, metis Uint64_PutUint64)

text \<open>A concrete cipher for the examples.\<close>

definition demo_aes :: "bytes \<Rightarrow> bytes \<Rightarrow> bytes" where
  "demo_aes key b = map2 (XOR) (take 16 (key @ replicate 16 0)) (take 16 (b @ replicate 16 0))"

lemma demo_aes_ok: "cipher_ok (demo_aes key)"
  by (simp add: cipher_ok_def demo_aes_def BlockSize_def)

section \<open>Time\<close>

definition microsecond_ns :: int where "microsecond_ns = 1000"

definition SecsToTime :: "u32 \<Rightarrow> int" where
  "SecsToTime t = uint t * second_ns"

definition TimeToSecs :: "int \<Rightarrow> u32" where
  "TimeToSecs t = word_of_int (t div second_ns)"

lemma TimeToSecs_SecsToTime [simp]: "TimeToSecs (SecsToTime t) = t"
  by (simp add: TimeToSecs_def SecsToTime_def second_ns_def)

end
