(* ===== verification/Epic.thy ===== *)
theory Epic
  imports Cbc
begin

unbundle bit_operations_syntax

text \<open>
  The EPIC library (go/lib/epic/epic.go): creation and verification of packet timestamps, the hop validation
  fields and the packet counters. Times are nanoseconds since the Unix epoch, the AES block cipher is
  the parameter \<open>aes\<close>.
\<close>

section \<open>Constants\<close>

definition AuthLen :: nat where "AuthLen = 16"
definition MaxPacketLifetime :: int where "MaxPacketLifetime = 2 * second_ns"
definition MaxClockSkew :: int where "MaxClockSkew = second_ns"
definition EpicTimestampResolution :: int where "EpicTimestampResolution = 21 * microsecond_ns"
definition EpicMACBufferSize :: nat where "EpicMACBufferSize = 48"

lemmas epic_time_defs = MaxPacketLifetime_def MaxClockSkew_def EpicTimestampResolution_def second_ns_def
  microsecond_ns_def

section \<open>Timestamps\<close>

text \<open>\<open>now.Sub(input)\<close> saturates at 2^63 - 1 ns; such a difference is refused either way.\<close>

definition CreateTimestamp :: "int \<Rightarrow> int \<Rightarrow> u32 res" where
  "CreateTimestamp input now =
     (if input > now then Inl (Err ''provided input timestamp is in the future'')
      else let
        epicTS = (now - input) div EpicTimestampResolution - 1;
        epicTS = (if epicTS < 0 then 0 else epicTS)
      in if epicTS \<ge> 2 ^ 32 then Inl (Err ''diff between input and now >1d63min'')
         else Inr (word_of_int epicTS))"

definition Epic_VerifyTimestamp :: "int \<Rightarrow> u32 \<Rightarrow> int \<Rightarrow> unit res" where
  "Epic_VerifyTimestamp timestamp epicTS now = (let
     diff = (uint epicTS + 1) * EpicTimestampResolution;
     tsSender = timestamp + diff
   in if tsSender > now + MaxClockSkew then Inl (Err ''epic timestamp is in the future'')
      else if now > tsSender + MaxPacketLifetime + MaxClockSkew then Inl (Err ''epic timestamp expired'')
      else Inr ())"

section \<open>Hop validation fields\<close>

definition initEpicMac :: "(bytes \<Rightarrow> bytes \<Rightarrow> bytes) \<Rightarrow> bytes \<Rightarrow> (bytes \<Rightarrow> bytes) res" where
  "initEpicMac aes key = (case NewCipher aes key of
       Inl _ \<Rightarrow> Inl (Err ''Unable to initialize AES cipher'')
     | Inr block \<Rightarrow> Inr block)"

text \<open>Every write is through a window \<open>inputBuffer[offset:]\<close>; a window that is too short panics, and
  \<open>copy\<close> fills what there is.\<close>

definition put_window :: "nat \<Rightarrow> bytes \<Rightarrow> bytes \<Rightarrow> bytes res" where
  "put_window off bs b =
     (if off + length bs \<le> length b then Inr (put_at off bs b) else Inl (Panic ''index out of range''))"

definition prepareMacInput :: "pkt_id \<Rightarrow> 'a header_scheme \<Rightarrow> u32 \<Rightarrow> bytes \<Rightarrow> (nat \<times> bytes) res" where
  "prepareMacInput pktID s timestamp inputBuffer = (let
     srcAddr = RawSrcAddr s;
     l = length srcAddr;
     nrBlocks = (23 + l + 15) div 16;
     inputLength = 16 * nrBlocks;
     offset = 0
   in rbind (put_window offset [SrcAddrLen s] inputBuffer) (\<lambda>b. let offset = offset + 1 in
      rbind (put_window offset (PutUint32 timestamp) b) (\<lambda>b. let offset = offset + 4 in
      rbind (gslice offset (length b) b) (\<lambda>w.
      rbind (PktID_SerializeTo pktID w) (\<lambda>w. let b = put_at offset w b; offset = offset + PktIDLen in
      rbind (put_window offset (PutUint64 (SrcIA s)) b) (\<lambda>b. let offset = offset + IABytes in
      rbind (gslice offset (length b) b) (\<lambda>w. let b = put_at offset (go_copy w srcAddr) b; offset = offset + l in
      rbind (put_window offset (PutUint16 (PayloadLen s)) b) (\<lambda>b. let offset = offset + 2 in
      rbind (gslice offset inputLength b) (\<lambda>w. let b = put_at offset (go_copy w zeroInitVector) b in
      Inr (inputLength, b))))))))))"

definition CalcMac :: "(bytes \<Rightarrow> bytes \<Rightarrow> bytes) \<Rightarrow> bytes \<Rightarrow> pkt_id \<Rightarrow> 'a header_scheme \<Rightarrow> u32 \<Rightarrow> bytes \<Rightarrow> bytes res" where
  "CalcMac aes auth pktID s timestamp buffer = (let
     buffer = (if length buffer < EpicMACBufferSize then replicate EpicMACBufferSize 0 else buffer)
   in rbind (initEpicMac aes auth) (\<lambda>f.
      rbind (prepareMacInput pktID s timestamp buffer) (\<lambda>(inputLength, buffer).
      rbind (gslice 0 inputLength buffer) (\<lambda>input.
      rbind (CryptBlocks f input) (\<lambda>input.
      gslice (length input - BlockSize) (length input - BlockSize + 4) input)))))"

definition VerifyHVF :: "(bytes \<Rightarrow> bytes \<Rightarrow> bytes) \<Rightarrow> bytes \<Rightarrow> pkt_id \<Rightarrow> 'a header_scheme \<Rightarrow> u32 \<Rightarrow> bytes \<Rightarrow> bytes \<Rightarrow> unit res" where
  "VerifyHVF aes auth pktID s timestamp hvf buffer =
     (if length auth \<noteq> AuthLen then Inl (Err ''invalid input'')
      else rbind (CalcMac aes auth pktID s timestamp buffer) (\<lambda>mac.
        if hvf \<noteq> mac then Inl (Err ''epic hop validation field verification failed'') else Inr ()))"

definition PktCounterFromCore :: "u8 \<Rightarrow> u32 \<Rightarrow> u32" where
  "PktCounterFromCore coreID coreCounter = push_bit 24 (ucast coreID) OR (coreCounter AND 0x00FFFFFF)"

definition CoreFromPktCounter :: "u32 \<Rightarrow> u8 \<times> u32" where
  "CoreFromPktCounter counter = (ucast (drop_bit 24 counter), counter AND 0x00FFFFFF)"

section \<open>Freshness\<close>

text \<open>A packet stamped by \<open>CreateTimestamp\<close> is fresh for every verifier whose clock is at most one
  second behind and until three seconds later (less one unit of the timestamp), and no longer
  than that (plus one unit): early and late packets are refused. Stamping fails exactly when the input lies in the
  future or too far in the past.\<close>

lemma epic_timestamp_fresh:
  assumes "CreateTimestamp input now = Inr ts"
  shows "(now - MaxClockSkew + EpicTimestampResolution \<le> now' \<and>
      now' \<le> now + MaxPacketLifetime + MaxClockSkew - EpicTimestampResolution \<longrightarrow>
        Epic_VerifyTimestamp input ts now' = Inr ()) \<and>
    (now' < now - MaxClockSkew - EpicTimestampResolution \<longrightarrow>
      Epic_VerifyTimestamp input ts now' = Inl (Err ''epic timestamp is in the future'')) \<and>
    (now + MaxPacketLifetime + MaxClockSkew + EpicTimestampResolution < now' \<longrightarrow>
      Epic_VerifyTimestamp input ts now' = Inl (Err ''epic timestamp expired''))"
proof -
  define d where "d = (now - input) div 21000"
  have le: "input \<le> now" and ts: "ts = word_of_int (if d - 1 < 0 then 0 else d - 1)"
    and b: "(if d - 1 < 0 then 0 else d - 1) < 2 ^ 32"
    using assms by (auto simp: CreateTimestamp_def Let_def epic_time_defs d_def split: if_splits)
  have d0: "0 \<le> d" using le by (simp add: d_def pos_imp_zdiv_nonneg_iff)
  have "uint ts = (if d - 1 < 0 then 0 else d - 1)"
    unfolding ts using b d0 by (simp add: uint_word_of_int take_bit_int_eq_self_iff split: if_splits)
  moreover have "now - input = 21000 * d + (now - input) mod 21000"
    using mult_div_mod_eq [of 21000 "now - input"] by (simp add: d_def)
  moreover have "0 \<le> (now - input) mod 21000" "(now - input) mod 21000 < 21000" by simp_all
  ultimately have "\<bar>input + (uint ts + 1) * 21000 - now\<bar> \<le> 21000"
    using d0 le by (auto simp: abs_if)
  then show ?thesis
    unfolding Epic_VerifyTimestamp_def Let_def epic_time_defs by auto
qed

lemma epic_timestamp_fresh_example:
  "CreateTimestamp 0 (10 * second_ns) = Inr 476189 \<and> Epic_VerifyTimestamp 0 476189 (11 * second_ns) = Inr () \<and>
   Epic_VerifyTimestamp 0 476189 (14 * second_ns) = Inl (Err ''epic timestamp expired'')"
proof -
  have c: "CreateTimestamp 0 (10 * second_ns) = Inr 476189"
    by (simp add: CreateTimestamp_def epic_time_defs)
  show ?thesis
    using c epic_timestamp_fresh [OF c, of "11 * second_ns"] epic_timestamp_fresh [OF c, of "14 * second_ns"]
    by (simp add: epic_time_defs)
qed

section \<open>What the validation field authenticates\<close>

definition epic_block :: "pkt_id \<Rightarrow> 'a header_scheme \<Rightarrow> u32 \<Rightarrow> bytes" where
  "epic_block pktID s timestamp =
     [SrcAddrLen s] @ PutUint32 timestamp @ (PutUint32 (PktTimestamp pktID) @ PutUint32 (PktCounter pktID)) @
     PutUint64 (SrcIA s) @ RawSrcAddr s @ PutUint16 (PayloadLen s) @
     replicate (16 * ((38 + length (RawSrcAddr s)) div 16) - 23 - length (RawSrcAddr s)) 0"

definition epic_mac :: "(bytes \<Rightarrow> bytes \<Rightarrow> bytes) \<Rightarrow> bytes \<Rightarrow> pkt_id \<Rightarrow> 'a header_scheme \<Rightarrow> u32 \<Rightarrow> bytes" where
  "epic_mac aes auth pktID s timestamp = (let c = cbc (aes auth) zeroInitVector (epic_block pktID s timestamp)
     in take 4 (drop (length c - 16) c))"

lemma put_window_fill:
  "length pre = off \<Longrightarrow> length xs \<le> length rest \<Longrightarrow>
   put_window off xs (pre @ rest) = Inr ((pre @ xs) @ drop (length xs) rest)"
  by (simp add: put_window_def put_at_def)

lemma PktID_SerializeTo_fill:
  "8 \<le> length w \<Longrightarrow> PktID_SerializeTo i w = Inr ((PutUint32 (PktTimestamp i) @ PutUint32 (PktCounter i)) @ drop 8 w)"
  by (simp add: PktID_SerializeTo_def put_at_def)

lemma epic_pad_bounds:
  "23 + l \<le> 16 * ((38 + l) div 16)" "16 * ((38 + l) div 16) - 23 - l < 16" "16 * ((38 + l) div 16) \<le> 38 + l"
  for l :: nat
  by presburger+

lemma length_epic_block: "length (epic_block pktID s ts) = 16 * ((38 + length (RawSrcAddr s)) div 16)"
  using epic_pad_bounds(1) [of "length (RawSrcAddr s)"] by (simp add: epic_block_def)

lemma mac_input_head:
  fixes s :: "'a header_scheme"
  assumes "48 \<le> length buf" and h_def: "h = [SrcAddrLen s] @ PutUint32 ts @ (PutUint32 (PktTimestamp i) @ PutUint32 (PktCounter i)) @ PutUint64 (SrcIA s)"
  shows "rbind (put_window 0 [SrcAddrLen s] buf) (\<lambda>b. rbind (put_window 1 (PutUint32 ts) b) (\<lambda>b.
      rbind (gslice 5 (length b) b) (\<lambda>w. rbind (PktID_SerializeTo i w) (\<lambda>w.
      rbind (put_window 13 (PutUint64 (SrcIA s)) (put_at 5 w b)) k)))) = k (h @ drop 21 buf)"
proof -
  let ?a = "[SrcAddrLen s]" and ?b = "PutUint32 ts" and ?c = "PutUint32 (PktTimestamp i) @ PutUint32 (PktCounter i)"
  define x y z where "x = ?a @ drop 1 buf" and "y = (?a @ ?b) @ drop 5 buf" and "z = (?a @ ?b @ ?c) @ drop 13 buf"
  have "put_window 0 ?a buf = Inr x" "put_window 1 ?b x = Inr y"
    using put_window_fill [of "[]" 0 ?a buf] put_window_fill [of ?a 1 ?b "drop 1 buf"] assms(1)
    by (simp_all add: x_def y_def)
  moreover have "gslice 5 (length y) y = Inr (drop 5 buf)" using assms(1) by (simp add: y_def slice_def)
  moreover have "PktID_SerializeTo i (drop 5 buf) = Inr (?c @ drop 13 buf)"
    using PktID_SerializeTo_fill [of "drop 5 buf" i] assms(1) by simp
  moreover have "put_at 5 (?c @ drop 13 buf) y = z"
    using put_at_fill [of "?a @ ?b" 5 "?c @ drop 13 buf" "drop 5 buf"] assms(1) by (simp add: y_def z_def)
  moreover have "put_window 13 (PutUint64 (SrcIA s)) z = Inr (h @ drop 21 buf)"
    using put_window_fill [of "?a @ ?b @ ?c" 13 "PutUint64 (SrcIA s)" "drop 13 buf"] assms(1) by (simp add: z_def h_def)
  ultimately show ?thesis by (simp only: rbind_Inr)
qed

lemma mac_input_tail:
  assumes "48 \<le> length buf" "length h = 21" "length e \<le> 16" and n: "n = 16 * ((38 + length e) div 16)"
  shows "rbind (gslice 21 (length (h @ drop 21 buf)) (h @ drop 21 buf)) (\<lambda>w.
      rbind (put_window (21 + length e) (PutUint16 p) (put_at 21 (go_copy w e) (h @ drop 21 buf))) (\<lambda>b.
      rbind (gslice (23 + length e) n b) (\<lambda>w. k (put_at (23 + length e) (go_copy w zeroInitVector) b)))) =
    k ((h @ e @ PutUint16 p @ replicate (n - 23 - length e) 0) @ drop n buf)"
proof -
  let ?l = "length e"
  have b: "23 + ?l \<le> n" "n - 23 - ?l < 16" "n \<le> 48"
    using epic_pad_bounds [of ?l] div_le_mono [of "38 + ?l" 54 16] assms(3) n by auto
  define x y where "x = (h @ e) @ drop (21 + ?l) buf" and "y = (h @ e @ PutUint16 p) @ drop (23 + ?l) buf"
  have "gslice 21 (length (h @ drop 21 buf)) (h @ drop 21 buf) = Inr (drop 21 buf)"
    using assms(1,2) by (simp add: slice_def)
  moreover have "put_at 21 (go_copy (drop 21 buf) e) (h @ drop 21 buf) = x"
    using put_at_fill [of h 21 "go_copy (drop 21 buf) e" "drop 21 buf"] assms(1-3)
    by (simp add: go_copy_def x_def add.commute)
  moreover have "put_window (21 + ?l) (PutUint16 p) x = Inr y"
    using put_window_fill [of "h @ e" "21 + ?l" "PutUint16 p" "drop (21 + ?l) buf"] assms(1-3)
    by (simp add: x_def y_def)
  moreover have "gslice (23 + ?l) n y = Inr (take (n - (23 + ?l)) (drop (23 + ?l) buf))"
    using slice_fill [of "h @ e @ PutUint16 p" "23 + ?l" n "drop (23 + ?l) buf"] assms(1,2) b
    by (simp add: y_def)
  moreover have "go_copy (take (n - (23 + ?l)) (drop (23 + ?l) buf)) zeroInitVector = replicate (n - 23 - ?l) 0"
    using b assms(1) by (simp add: go_copy_def zeroInitVector_def)
  moreover have "put_at (23 + ?l) (replicate (n - 23 - ?l) 0) y =
      (h @ e @ PutUint16 p @ replicate (n - 23 - ?l) 0) @ drop n buf"
    using put_at_fill [of "h @ e @ PutUint16 p" "23 + ?l" "replicate (n - 23 - ?l) 0" "drop (23 + ?l) buf"] assms(2) b
    by (simp add: y_def)
  ultimately show ?thesis by (simp only: rbind_Inr)
qed

lemma prepareMacInput_block:
  assumes "length buf \<ge> EpicMACBufferSize" "length (RawSrcAddr s) \<le> 16"
  shows "\<exists>rest. prepareMacInput pktID s ts buf =
    Inr (length (epic_block pktID s ts), epic_block pktID s ts @ rest)"
proof -
  let ?l = "length (RawSrcAddr s)"
  have 1: "1 + 4 = (5::nat)" "5 + PktIDLen = 13" "13 + IABytes = 21" "21 + ?l + 2 = 23 + ?l" "23 + ?l + 15 = 38 + ?l"
    "0 + 1 = (1 :: nat)"
    by (simp_all add: PktIDLen_def IABytes_def)
  have b: "48 \<le> length buf" using assms(1) by (simp add: EpicMACBufferSize_def)
  show ?thesis
    unfolding prepareMacInput_def Let_def 1 mac_input_head [OF b refl]
    by (subst mac_input_tail [OF b _ assms(2)]) (auto simp: epic_block_def length_epic_block)
qed

lemma CalcMac_block:
  assumes "cipher_ok (aes auth)" "length auth = AuthLen" "length (RawSrcAddr s) \<le> 16"
  shows "CalcMac aes auth pktID s ts buf = Inr (epic_mac aes auth pktID s ts)"
proof -
  let ?b = "if length buf < EpicMACBufferSize then replicate EpicMACBufferSize 0 else buf"
  let ?e = "epic_block pktID s ts"
  obtain rest where p: "prepareMacInput pktID s ts ?b = Inr (length ?e, ?e @ rest)"
    using prepareMacInput_block [of ?b s pktID ts] assms(3) by fastforce
  have k: "initEpicMac aes auth = Inr (aes auth)"
    using assms(2) by (simp add: initEpicMac_def NewCipher_def AuthLen_def)
  have m: "length ?e mod BlockSize = 0" by (simp add: length_epic_block BlockSize_def)
  then have l: "length (cbc (aes auth) zeroInitVector ?e) = length ?e"
    using length_cbc [OF assms(1)] by simp
  moreover have "16 \<le> length ?e"
    unfolding length_epic_block using div_le_mono [of 38 "38 + length (RawSrcAddr s)" 16] by simp
  ultimately have "gslice (length (cbc (aes auth) zeroInitVector ?e) - BlockSize)
      (length (cbc (aes auth) zeroInitVector ?e) - BlockSize + 4) (cbc (aes auth) zeroInitVector ?e) =
    Inr (epic_mac aes auth pktID s ts)"
    by (simp add: epic_mac_def Let_def slice_def BlockSize_def)
  then show ?thesis
    using p m l by (simp add: CalcMac_def Let_def k CryptBlocks_def slice_def)
qed

lemma epic_block_inj:
  assumes "epic_block i s ts = epic_block i' s' ts'"
    "length (RawSrcAddr s) = addrBytes (SrcAddrLen s)" "length (RawSrcAddr s') = addrBytes (SrcAddrLen s')"
  shows "i = i' \<and> ts = ts' \<and> SrcIA s = SrcIA s' \<and> RawSrcAddr s = RawSrcAddr s' \<and> PayloadLen s = PayloadLen s'"
proof -
  have "SrcAddrLen s = SrcAddrLen s'" using assms(1) by (simp add: epic_block_def)
  then have "length (RawSrcAddr s) = length (RawSrcAddr s')" using assms(2,3) by simp
  with assms(1) show ?thesis
    by (simp add: epic_block_def pkt_id.equality)
qed

text \<open>Claim C39. The hop validation field of an EPIC packet is the first four bytes of the last CBC block over the source
  address length, the timestamps, the packet counter, the source and the payload length, whatever the
  reused buffer contained: verification accepts exactly that field. Headers and packet identifiers with different
  values of these fields are authenticated by different inputs.\<close>

theorem epic_hvf_correct:
  assumes "cipher_ok (aes auth)" "length auth = AuthLen" "length (RawSrcAddr s) \<le> 16"
  shows "CalcMac aes auth i s ts buf = Inr (epic_mac aes auth i s ts) \<and>
    (VerifyHVF aes auth i s ts hvf buf = Inr () \<longleftrightarrow> hvf = epic_mac aes auth i s ts) \<and>
    (length auth' \<noteq> AuthLen \<longrightarrow> VerifyHVF aes auth' i s ts hvf buf = Inl (Err ''invalid input'')) \<and>
    (length (RawSrcAddr s) = addrBytes (SrcAddrLen s) \<and> length (RawSrcAddr s') = addrBytes (SrcAddrLen s') \<and>
      epic_block i s ts = epic_block i' s' ts' \<longrightarrow>
      i = i' \<and> ts = ts' \<and> SrcIA s = SrcIA s' \<and> RawSrcAddr s = RawSrcAddr s' \<and> PayloadLen s = PayloadLen s')"
  using CalcMac_block [of aes auth, OF assms] assms(2) epic_block_inj [of i s ts i' s' ts']
  by (auto simp: VerifyHVF_def)

theorem epic_hvf_correct_witness:
  "VerifyHVF demo_aes (replicate 16 7) \<lparr>PktTimestamp = 1, PktCounter = 2\<rparr> demo_scion 5
     (epic_mac demo_aes (replicate 16 7) \<lparr>PktTimestamp = 1, PktCounter = 2\<rparr> demo_scion 5) (replicate 60 9) = Inr ()"
proof -
  have "length (replicate 16 (7 :: u8)) = AuthLen" "length (RawSrcAddr demo_scion) \<le> 16"
    by (simp_all add: demo_scion_def AuthLen_def)
  from epic_hvf_correct [of demo_aes, OF demo_aes_ok this, THEN conjunct2, THEN conjunct1] show ?thesis by simp
qed

text \<open>The core identifier and the low 24 bits of the core counter are read back from a packet counter, and every
  packet counter is made of what is read from it.\<close>

theorem PktCounter_roundtrip:
  "CoreFromPktCounter (PktCounterFromCore coreID coreCounter) = (coreID, take_bit 24 coreCounter) \<and>
   (case CoreFromPktCounter counter of (core, cc) \<Rightarrow> PktCounterFromCore core cc = counter)"
proof -
  have m: "x AND 0x00FFFFFF = take_bit 24 x" for x :: u32 by (simp add: take_bit_eq_mask mask_eq_exp_minus_1)
  have "ucast (drop_bit 24 (push_bit 24 (ucast coreID) OR take_bit 24 coreCounter :: u32)) = coreID"
    by (rule bit_word_eqI) (auto simp: bit_simps)
  moreover have "take_bit 24 (push_bit 24 (ucast coreID) OR take_bit 24 coreCounter :: u32) = take_bit 24 coreCounter"
    by (rule bit_word_eqI) (auto simp: bit_simps)
  moreover have "push_bit 24 (ucast (ucast (drop_bit 24 counter) :: u8)) OR take_bit 24 counter = counter"
    by (rule bit_word_eqI) (auto simp: bit_simps)
  ultimately show ?thesis
    by (simp add: CoreFromPktCounter_def PktCounterFromCore_def m)
qed

end
