(* ===== verification/Colibri_Dataplane.thy ===== *)
theory Colibri_Dataplane
  imports Cbc
begin

unbundle bit_operations_syntax

text \<open>
  The COLIBRI data plane library (go/lib/colibri/dataplane/colibri.go): packet timestamps, expiration and
  freshness, the static, sigma and end-to-end MACs. Times are nanoseconds since the Unix epoch, the AES
  block cipher is the parameter \<open>aes\<close>; a \<open>cipher.Block\<close> is a function on blocks. Logging is left out.
\<close>

section \<open>Constants\<close>

definition SecsPerTick :: int where "SecsPerTick = 4"
definition TicksInE2ERsv :: int where "TicksInE2ERsv = 4"
definition packetLifetime :: int where "packetLifetime = 2 * second_ns"
definition clockSkew :: int where "clockSkew = second_ns"
definition ColTimestampResolution :: int where "ColTimestampResolution = 4"
definition TickDuration :: int where "TickDuration = SecsPerTick"
definition ExpirationOffset :: int where "ExpirationOffset = TicksInE2ERsv * SecsPerTick * second_ns"
definition LengthInputData :: nat where "LengthInputData = 30"
definition LengthInputDataRound16 :: nat where
  "LengthInputDataRound16 = ((LengthInputData - 1) div 16 + 1) * 16"

lemmas col_time_defs = SecsPerTick_def TicksInE2ERsv_def packetLifetime_def clockSkew_def
  ColTimestampResolution_def TickDuration_def ExpirationOffset_def second_ns_def

section \<open>Timestamps\<close>

definition CreateColibriTimestampCustom :: "u32 \<Rightarrow> u32 \<Rightarrow> bytes" where
  "CreateColibriTimestampCustom tsRel pktId = (let
     ts = replicate 8 0;
     ts = put_at 0 (PutUint32 tsRel) ts
   in put_at 4 (PutUint32 pktId) ts)"

definition CreateColibriTimestamp :: "u32 \<Rightarrow> u8 \<Rightarrow> u32 \<Rightarrow> bytes" where
  "CreateColibriTimestamp tsRel coreID coreCounter = (let
     pktId = push_bit 24 (ucast coreID) OR coreCounter
   in CreateColibriTimestampCustom tsRel pktId)"

definition ParseColibriTimestampCustom :: "bytes \<Rightarrow> u32 \<times> u32" where
  "ParseColibriTimestampCustom ts = (let bothParts = Uint64 ts in
     (ucast (drop_bit 32 bothParts), ucast (bothParts AND 0x00000000ffffffff)))"

definition ParseColibriTimestamp :: "bytes \<Rightarrow> u32 \<times> u8 \<times> u32" where
  "ParseColibriTimestamp ts = (let (tsRel, pktId) = ParseColibriTimestampCustom ts in
     (tsRel, ucast (drop_bit 24 pktId), pktId AND 0x00ffffff))"

text \<open>\<open>TickDuration * expirationTick\<close> is a \<open>uint32\<close> product here and an \<open>int64\<close> product in
  \<open>VerifyExpirationTick\<close>.\<close>

definition CreateTsRel :: "u32 \<Rightarrow> int \<Rightarrow> u32 res" where
  "CreateTsRel expirationTick now = (let
     expiration = SecsToTime (word_of_int TickDuration * expirationTick);
     timestamp = expiration - ExpirationOffset
   in if now > expiration then Inl (Err ''provided packet expiration time is in the past'')
      else if now < timestamp then Inl (Err ''provided packet expiration time is too far in the future'')
      else let diff = now - timestamp in Inr (word_of_int (diff div ColTimestampResolution)))"

definition VerifyExpirationTick :: "int \<Rightarrow> u32 \<Rightarrow> bool" where
  "VerifyExpirationTick now expirationTick \<longleftrightarrow> (let
     expTime = TickDuration * uint expirationTick;
     now = now div second_ns
   in now \<le> expTime)"

definition Colibri_VerifyTimestamp :: "u32 \<Rightarrow> bytes \<Rightarrow> int \<Rightarrow> bool" where
  "Colibri_VerifyTimestamp expirationTick ts now = (let
     (tsRel, _, _) = ParseColibriTimestamp ts;
     expiration = SecsToTime (word_of_int TickDuration * expirationTick);
     diff = uint tsRel * ColTimestampResolution;
     tsSender = expiration - ExpirationOffset + diff
   in if now < tsSender - clockSkew \<or> now > tsSender + packetLifetime + clockSkew then False else True)"

section \<open>MACs\<close>

definition MACInputStatic ::
  "bytes \<Rightarrow> bytes \<Rightarrow> u32 \<Rightarrow> u8 \<Rightarrow> u8 \<Rightarrow> bool \<Rightarrow> bool \<Rightarrow> u8 \<Rightarrow> u64 \<Rightarrow> u64 \<Rightarrow> u16 \<Rightarrow> u16 \<Rightarrow> bytes res" where
  "MACInputStatic buffer suffix expTick bwCls rlc controlFlag reverseFlag idx srcAS dstAS ingress egress =
     (if length buffer < LengthInputData then Inl (Panic ''index out of range'')
      else let
        b = put_at 0 (go_copy (slice 0 12 buffer) (replicate 12 0)) buffer;
        b = put_at 0 (go_copy (slice 0 12 b) suffix) b;
        b = put_at 12 (PutUint32 expTick) b;
        b = b[16 := bwCls];
        b = b[17 := rlc];
        b = b[18 := 0];
        flags = (if controlFlag then push_bit 3 1 else 0) OR push_bit 4 idx;
        b = b[19 := flags];
        (srcAS, ingress, egress) = (if reverseFlag then (dstAS, egress, ingress) else (srcAS, ingress, egress));
        b = put_at 22 (PutUint64 srcAS) b;
        b = put_at 20 (PutUint16 ingress) b;
        b = put_at 22 (PutUint16 egress) b
      in Inr b)"

definition InitColibriKey :: "(bytes \<Rightarrow> bytes \<Rightarrow> bytes) \<Rightarrow> bytes \<Rightarrow> (bytes \<Rightarrow> bytes) res" where
  "InitColibriKey aes key = (case NewCipher aes key of
       Inl _ \<Rightarrow> Inl (Err ''Unable to initialize AES cipher'')
     | Inr block \<Rightarrow> Inr block)"

definition initColibriMac :: "(bytes \<Rightarrow> bytes) \<Rightarrow> (bytes \<Rightarrow> bytes res) res" where
  "initColibriMac key = Inr (CryptBlocks key)"

text \<open>\<open>CryptBlocks\<close> panics when the input does not fit the 32 bytes of \<open>mac\<close>; what it leaves of \<open>mac\<close> stays
  zero.\<close>

definition MACStaticFromInput :: "bytes \<Rightarrow> (bytes \<Rightarrow> bytes) \<Rightarrow> bytes \<Rightarrow> bytes res" where
  "MACStaticFromInput buffer key input =
     (if length buffer < 4 then Inl (Panic ''index out of range'')
      else rbind (initColibriMac key) (\<lambda>f.
        if length input > LengthInputDataRound16 then Inl (Panic ''crypto/cipher: output smaller than input'')
        else rbind (f input) (\<lambda>out. let
          mac = go_copy (replicate LengthInputDataRound16 0) out
        in Inr (go_copy buffer (slice (length mac - BlockSize) (length mac - BlockSize + 4) mac)))))"

definition MACStatic :: "bytes \<Rightarrow> (bytes \<Rightarrow> bytes) \<Rightarrow> col_info \<Rightarrow> col_hop \<Rightarrow> u64 \<Rightarrow> u64 \<Rightarrow> bytes res" where
  "MACStatic buffer privateKey info currHop srcAS dstAS =
     rbind (MACInputStatic (replicate LengthInputDataRound16 0) (ResIdSuffix info) (ExpTick info) (BwCls info)
       (Rlc info) (ColC info) (ColR info) (ColVer info) srcAS dstAS (IngressId currHop) (EgressId currHop)) (\<lambda>input.
     MACStaticFromInput buffer privateKey input)"

definition VerifyMAC :: "(bytes \<Rightarrow> bytes) \<Rightarrow> bytes \<Rightarrow> col_info \<Rightarrow> col_hop \<Rightarrow> 'a header_scheme \<Rightarrow> unit res" where
  "VerifyMAC privateKey ts info currHop s = (let mac = replicate 4 0 in
     rbind (if ColC info
            then MACStatic mac privateKey info currHop (IA_AS (SrcIA s)) (IA_AS (DstIA s))
            else MACStatic mac privateKey info currHop (IA_AS (SrcIA s)) (IA_AS (DstIA s))) (\<lambda>mac.
     rbind (gslice 0 4 (ColMac currHop)) (\<lambda>m.
     if slice 0 4 mac \<noteq> m then Inl (Err ''colibri mac verification failed'') else Inr ())))"

definition MACInputSigma :: "bytes \<Rightarrow> 'a header_scheme \<Rightarrow> col_info \<Rightarrow> col_hop \<Rightarrow> (nat \<times> bytes) res" where
  "MACInputSigma buffer s info hop =
     (if length buffer < 64 then Inl (Panic ''index out of range'')
      else let
        (srcAddrType, dstAddrType) = (if ColR info then (DstAddrType s, SrcAddrType s) else (SrcAddrType s, DstAddrType s));
        (srcAddrLen, dstAddrLen) = (if ColR info then (DstAddrLen s, SrcAddrLen s) else (SrcAddrLen s, DstAddrLen s));
        (rawSrcAddr, rawDstAddr) = (if ColR info then (RawDstAddr s, RawSrcAddr s) else (RawSrcAddr s, RawDstAddr s));
        srcLen = length rawSrcAddr;
        dstLen = length rawDstAddr
      in if \<not> (4 * (unat dstAddrLen + 1) = dstLen \<and> 4 * (unat srcAddrLen + 1) = srcLen)
         then Inl (Panic ''SL/DL not consistent with actual address lengths'')
         else let
           flags = push_bit 6 (dstAddrType AND 3) OR push_bit 4 (dstAddrLen AND 3) OR
             push_bit 2 (srcAddrType AND 3) OR (srcAddrLen AND 3);
           bufLen = LengthInputData + 1 + srcLen + dstLen;
           nrBlocks = (bufLen - 1) div BlockSize + 1;
           inputLen = BlockSize * nrBlocks
         in rbind (MACInputStatic buffer (ResIdSuffix info) (ExpTick info) (BwCls info) (Rlc info) (ColC info)
              (ColR info) (ColVer info) (IA_AS (SrcIA s)) (IA_AS (DstIA s)) (IngressId hop) (EgressId hop)) (\<lambda>b.
            let b = b[LengthInputData := flags] in
            rbind (gslice (LengthInputData + 1) (length b) b) (\<lambda>w.
            let b = put_at (LengthInputData + 1) (go_copy w rawSrcAddr) b in
            rbind (gslice (LengthInputData + 1 + srcLen) (length b) b) (\<lambda>w.
            let b = put_at (LengthInputData + 1 + srcLen) (go_copy w rawDstAddr) b in
            Inr (inputLen, b)))))"

definition MACSigma :: "bytes \<Rightarrow> (bytes \<Rightarrow> bytes) \<Rightarrow> col_info \<Rightarrow> col_hop \<Rightarrow> 'a header_scheme \<Rightarrow> bytes res" where
  "MACSigma buffer privateKey info currHop s =
     (if length buffer < 16 then Inl (Panic ''index out of range'')
      else rbind (initColibriMac privateKey) (\<lambda>f.
        rbind (MACInputSigma (replicate 64 0) s info currHop) (\<lambda>(inLen, input).
        rbind (gslice 0 inLen input) (\<lambda>w.
        rbind (f w) (\<lambda>mac.
        Inr (go_copy buffer (drop (inLen - BlockSize) mac)))))))"

definition MACInputE2E :: "bytes \<Rightarrow> bytes \<Rightarrow> col_info \<Rightarrow> 'a header_scheme \<Rightarrow> bytes res" where
  "MACInputE2E buffer ts info s =
     (if length buffer < 16 then Inl (Panic ''index out of range'')
      else let
        b = put_at 0 (go_copy (slice 0 8 buffer) ts) buffer;
        baseHdrLen = CmnHdrLen + AddrHdrLen s;
        hfcount = unat (HFCount info);
        colHdrLen = 32 + hfcount * 8;
        payloadLen = unat (OrigPayLen info);
        total64 = baseHdrLen + colHdrLen + payloadLen
      in if total64 > 2 ^ 16 then Inl (Err ''total packet length bigger than 2^16'')
         else Inr (put_at 8 (PutUint16 (of_nat total64)) b))"

definition MACE2EFromSigma :: "bytes \<Rightarrow> (bytes \<Rightarrow> bytes) \<Rightarrow> col_info \<Rightarrow> bytes \<Rightarrow> 'a header_scheme \<Rightarrow> bytes res" where
  "MACE2EFromSigma buffer sigma info ts s =
     rbind (initColibriMac sigma) (\<lambda>f.
     rbind (MACInputE2E (replicate 16 0) ts info s) (\<lambda>input.
     rbind (f input) (\<lambda>mac.
     rbind (gslice 0 4 buffer) (\<lambda>w.
     Inr (put_at 0 (go_copy w (slice (length mac - BlockSize) (length mac - 12) mac)) buffer)))))"

definition MACE2E ::
  "(bytes \<Rightarrow> bytes \<Rightarrow> bytes) \<Rightarrow> bytes \<Rightarrow> (bytes \<Rightarrow> bytes) \<Rightarrow> col_info \<Rightarrow> bytes \<Rightarrow> col_hop \<Rightarrow> 'a header_scheme \<Rightarrow> bytes res" where
  "MACE2E aes buffer privateKey info ts currHop s =
     rbind (MACSigma (replicate 16 0) privateKey info currHop s) (\<lambda>sigma.
     rbind (InitColibriKey aes sigma) (\<lambda>keySigma.
     MACE2EFromSigma buffer keySigma info ts s))"

section \<open>Freshness\<close>

lemma PutUint64_two: "PutUint64 (push_bit 32 (ucast t) OR ucast p) = PutUint32 t @ PutUint32 p" (is "PutUint64 ?x = _")
proof -
  have "(ucast (drop_bit 56 ?x) :: u8) = ucast (drop_bit 24 t)" "(ucast (drop_bit 48 ?x) :: u8) = ucast (drop_bit 16 t)"
    "(ucast (drop_bit 40 ?x) :: u8) = ucast (drop_bit 8 t)" "(ucast (drop_bit 32 ?x) :: u8) = ucast t"
    "(ucast (drop_bit 24 ?x) :: u8) = ucast (drop_bit 24 p)" "(ucast (drop_bit 16 ?x) :: u8) = ucast (drop_bit 16 p)"
    "(ucast (drop_bit 8 ?x) :: u8) = ucast (drop_bit 8 p)" "(ucast ?x :: u8) = ucast p"
    by (rule bit_word_eqI; auto simp: bit_simps dest: bit_imp_le_length)+
  then show ?thesis by (simp add: PutUint64_def PutUint32_def)
qed

lemma colibri_timestamp_parse:
  "ParseColibriTimestampCustom (CreateColibriTimestampCustom tsRel pktId) = (tsRel, pktId)"
proof -
  have c: "CreateColibriTimestampCustom tsRel pktId = PutUint32 tsRel @ PutUint32 pktId"
    by (simp add: CreateColibriTimestampCustom_def put_at_def)
  have m: "x AND 0xffffffff = take_bit 32 x" for x :: u64 by (simp add: take_bit_eq_mask mask_eq_exp_minus_1)
  have "ucast (drop_bit 32 (push_bit 32 (ucast tsRel) OR ucast pktId :: u64)) = tsRel"
    by (rule bit_word_eqI) (auto simp: bit_simps dest: bit_imp_le_length)
  moreover have "ucast (take_bit 32 (push_bit 32 (ucast tsRel) OR ucast pktId :: u64)) = pktId"
    by (rule bit_word_eqI) (auto simp: bit_simps dest: bit_imp_le_length)
  ultimately show ?thesis
    using Uint64_PutUint64 [of "push_bit 32 (ucast tsRel) OR ucast pktId"]
    by (simp add: ParseColibriTimestampCustom_def Let_def c PutUint64_two m)
qed

text \<open>A COLIBRI packet stamped at \<open>now\<close> is fresh for a verifier whose clock is at most one second behind,
  and until three seconds later less one unit of four nanoseconds; before and after it is refused. Stamping
  succeeds exactly in the sixteen seconds before the expiration the code computes, and the packet
  identifier is carried unchanged.\<close>

lemma colibri_timestamp_fresh:
  assumes "CreateTsRel tick now = Inr tsRel"
  shows "(now - clockSkew \<le> now' \<and> now' \<le> now + packetLifetime + clockSkew - ColTimestampResolution \<longrightarrow>
      Colibri_VerifyTimestamp tick (CreateColibriTimestampCustom tsRel pktId) now') \<and>
    (now' < now - clockSkew - ColTimestampResolution \<or> now + packetLifetime + clockSkew < now' \<longrightarrow>
      \<not> Colibri_VerifyTimestamp tick (CreateColibriTimestampCustom tsRel pktId) now') \<and>
    (SecsToTime (4 * tick) - ExpirationOffset \<le> now \<and> now \<le> SecsToTime (4 * tick)) \<and>
    ParseColibriTimestampCustom (CreateColibriTimestampCustom tsRel pktId) = (tsRel, pktId)"
proof -
  define e where "e = SecsToTime (4 * tick)"
  have r: "e - 16000000000 \<le> now" "now \<le> e"
    and ts: "tsRel = word_of_int ((now - (e - 16000000000)) div 4)"
    using assms by (auto simp: CreateTsRel_def Let_def col_time_defs e_def split: if_splits)
  let ?d = "(now - (e - 16000000000)) div 4"
  have d: "0 \<le> ?d" "?d < 2 ^ 32" "4 * ?d \<le> now - (e - 16000000000)" "now - (e - 16000000000) < 4 * ?d + 4"
    using r by auto
  have u: "uint tsRel = ?d"
    unfolding ts using d by (simp add: uint_word_of_int take_bit_int_eq_self_iff)
  have "Colibri_VerifyTimestamp tick (CreateColibriTimestampCustom tsRel pktId) now' \<longleftrightarrow>
    \<not> (now' < e - 16000000000 + ?d * 4 - 1000000000 \<or> now' > e - 16000000000 + ?d * 4 + 3000000000)"
    using u by (simp add: Colibri_VerifyTimestamp_def ParseColibriTimestamp_def colibri_timestamp_parse Let_def
        col_time_defs e_def)
  then show ?thesis
    using r d colibri_timestamp_parse by (auto simp: col_time_defs e_def)
qed

lemma colibri_timestamp_fresh_example:
  "CreateTsRel 100 (390 * second_ns) = Inr 1500000000 \<and>
   Colibri_VerifyTimestamp 100 (CreateColibriTimestampCustom 1500000000 7) (391 * second_ns) \<and>
   \<not> Colibri_VerifyTimestamp 100 (CreateColibriTimestampCustom 1500000000 7) (394 * second_ns)"
proof -
  have c: "CreateTsRel 100 (390 * second_ns) = Inr 1500000000"
    by (simp add: CreateTsRel_def SecsToTime_def col_time_defs)
  show ?thesis
    using c colibri_timestamp_fresh [OF c, of "391 * second_ns" 7] colibri_timestamp_fresh [OF c, of "394 * second_ns" 7]
    by (simp add: col_time_defs)
qed

section \<open>The static MAC\<close>

definition col_flags :: "bool \<Rightarrow> u8 \<Rightarrow> u8" where
  "col_flags c v = (if c then push_bit 3 1 else 0) OR push_bit 4 v"

definition static_block :: "col_info \<Rightarrow> col_hop \<Rightarrow> u64 \<Rightarrow> u64 \<Rightarrow> bytes" where
  "static_block info hop srcAS dstAS = (let
     (as, ig, eg) = (if ColR info then (dstAS, EgressId hop, IngressId hop) else (srcAS, IngressId hop, EgressId hop))
   in ResIdSuffix info @ PutUint32 (ExpTick info) @
      [BwCls info, Rlc info, 0, col_flags (ColC info) (ColVer info)] @
      PutUint16 ig @ PutUint16 eg @ drop 2 (PutUint64 as) @ [0, 0])"

definition static_mac :: "(bytes \<Rightarrow> bytes) \<Rightarrow> col_info \<Rightarrow> col_hop \<Rightarrow> u64 \<Rightarrow> u64 \<Rightarrow> bytes" where
  "static_mac E info hop srcAS dstAS = take 4 (drop 16 (cbc E zeroInitVector (static_block info hop srcAS dstAS)))"

lemma static_tail:
  assumes "length h = 20" "length as = 8"
  shows "put_at 22 (PutUint16 eg) (put_at 20 (PutUint16 ig) (put_at 22 as (h @ replicate 12 0))) =
    h @ PutUint16 ig @ PutUint16 eg @ drop 2 as @ [0, 0 :: u8]"
proof -
  have "h @ replicate 12 0 = (h @ [0, 0]) @ replicate 10 (0 :: u8)" by (simp add: numeral_eq_Suc)
  then have "put_at 22 as (h @ replicate 12 0) = (h @ [0, 0]) @ as @ replicate 2 0"
    using put_at_fill [of "h @ [0, 0]" 22 as "replicate 10 0"] assms by simp
  then have "put_at 20 (PutUint16 ig) (put_at 22 as (h @ replicate 12 0)) = h @ PutUint16 ig @ as @ replicate 2 0"
    using put_at_fill [of h 20 "PutUint16 ig" "[0, 0] @ as @ replicate 2 0"] assms by simp
  then show ?thesis
    using put_at_fill [of "h @ PutUint16 ig" 22 "PutUint16 eg" "as @ replicate 2 0"] assms
    by (simp add: numeral_2_eq_2)
qed

lemma static_flags:
  assumes "length suf = 12" "length e = 4"
  shows "((suf @ e) @ replicate 16 0)[16 := bw, 17 := rl, 18 := 0, 19 := fl] = (suf @ e @ [bw, rl, 0, fl]) @ replicate 12 (0 :: u8)"
  using assms by (simp add: list_update_append numeral_eq_Suc)

lemma static_suffix:
  assumes "length suf = 12" "length e = 4"
  shows "put_at 12 e (put_at 0 (go_copy (slice 0 12 (put_at 0 (go_copy (slice 0 12 (replicate 32 0)) (replicate 12 0)) (replicate 32 0))) suf)
      (put_at 0 (go_copy (slice 0 12 (replicate 32 0)) (replicate 12 0)) (replicate 32 0))) = (suf @ e) @ replicate 16 (0 :: u8)"
proof -
  have "put_at 0 (go_copy (slice 0 12 (replicate 32 0)) (replicate 12 0)) (replicate 32 0) = replicate 32 (0 :: u8)"
    by (simp add: put_at_def go_copy_def slice_def flip: replicate_add)
  moreover have "put_at 0 (go_copy (slice 0 12 (replicate 32 0)) suf) (replicate 32 0) = suf @ replicate 20 (0 :: u8)"
    using assms by (simp add: put_at_def go_copy_def slice_def)
  ultimately show ?thesis using put_at_fill [of suf 12 e "replicate 20 0"] assms by simp
qed

lemma MACInputStatic_block:
  assumes "length (ResIdSuffix info) = LenSuffix"
  shows "MACInputStatic (replicate LengthInputDataRound16 0) (ResIdSuffix info) (ExpTick info) (BwCls info)
       (Rlc info) (ColC info) (ColR info) (ColVer info) srcAS dstAS (IngressId hop) (EgressId hop) =
    Inr (static_block info hop srcAS dstAS)"
proof -
  have n: "LengthInputDataRound16 = 32" by (simp add: LengthInputDataRound16_def LengthInputData_def)
  have s: "length (ResIdSuffix info) = 12" using assms by (simp add: LenSuffix_def)
  have h: "length (ResIdSuffix info @ PutUint32 (ExpTick info) @ [BwCls info, Rlc info, 0, fl]) = 20" for fl using s by simp
  show ?thesis
    unfolding MACInputStatic_def Let_def n static_suffix [OF s length_PutUint(2)] static_flags [OF s length_PutUint(2)]
    by (simp add: LengthInputData_def static_block_def Let_def col_flags_def static_tail [OF h length_PutUint(3)] del: append_assoc)
qed

lemma length_static_block: "length (ResIdSuffix info) = LenSuffix \<Longrightarrow> length (static_block info hop srcAS dstAS) = 32"
  by (simp add: static_block_def LenSuffix_def)

lemma MACStatic_block:
  assumes "cipher_ok E" "length (ResIdSuffix info) = LenSuffix"
  shows "MACStatic (replicate 4 0) E info hop srcAS dstAS = Inr (static_mac E info hop srcAS dstAS)"
proof -
  let ?b = "static_block info hop srcAS dstAS"
  have l: "length ?b = 32" using length_static_block [OF assms(2)] by simp
  then have c: "length (cbc E zeroInitVector ?b) = 32"
    using length_cbc [OF assms(1), of ?b] by (simp add: BlockSize_def)
  have n: "LengthInputDataRound16 = 32" by (simp add: LengthInputDataRound16_def LengthInputData_def)
  have g: "go_copy (replicate LengthInputDataRound16 0) (cbc E zeroInitVector ?b) = cbc E zeroInitVector ?b"
    using c by (simp add: go_copy_def n)
  show ?thesis
    unfolding MACStatic_def MACInputStatic_block [OF assms(2)] MACStaticFromInput_def initColibriMac_def rbind_Inr
      CryptBlocks_def
    using l c by (simp add: Let_def g n BlockSize_def) (simp add: go_copy_def slice_def static_mac_def)
qed

lemma IA_AS_bytes: "PutUint64 (IA_AS ia) = [0, 0] @ drop 2 (PutUint64 (IA_AS ia))"
proof -
  have m: "IA_AS ia = take_bit 48 ia"
    by (simp add: IA_AS_def MaxAS_def ASBits_def take_bit_eq_mask mask_eq_exp_minus_1)
  have "(ucast (drop_bit 56 (take_bit 48 ia)) :: u8) = 0" "(ucast (drop_bit 48 (take_bit 48 ia)) :: u8) = 0"
    by (rule bit_word_eqI; auto simp: bit_simps)+
  then show ?thesis by (simp add: m PutUint64_def)
qed

lemma flags_inj:
  assumes "col_flags c v = col_flags c' v'" "v < 16" "v' < 16"
  shows "c = c' \<and> v = v'"
proof -
  have "bit (8 :: u8) m \<longleftrightarrow> m = 3" for m using bit_exp_iff [where 'a = u8, of 3 m] by (auto simp: possible_bit_def)
  then have b: "bit (col_flags c v) n \<longleftrightarrow> c \<and> n = 3 \<or> 4 \<le> n \<and> n < 8 \<and> bit v (n - 4)" for c v n
    by (auto simp: col_flags_def bit_simps)
  have e: "bit (col_flags c v) n = bit (col_flags c' v') n" for n using assms(1) by simp
  have "c = c'" using e [of 3] by (simp add: b)
  moreover have "take_bit 4 v = v" "take_bit 4 v' = v'"
    using assms(2,3) word_less_power_iff [of 4 v] word_less_power_iff [of 4 v'] by simp_all
  moreover have "take_bit 4 v = take_bit 4 v'"
  proof (rule bit_word_eqI)
    fix n assume "n < LENGTH(8)"
    show "bit (take_bit 4 v) n = bit (take_bit 4 v') n"
      using e [of "n + 4"] by (simp add: b bit_take_bit_iff)
  qed
  ultimately show ?thesis by metis
qed

text \<open>The values a hop field MAC is bound to: for packets against the reservation direction the roles of source and destination
  and of ingress and egress are exchanged.\<close>

definition col_bound :: "col_info \<Rightarrow> col_hop \<Rightarrow> 'a header_scheme \<Rightarrow> u64 \<times> u16 \<times> u16" where
  "col_bound info hop s = (if ColR info then (IA_AS (DstIA s), EgressId hop, IngressId hop)
     else (IA_AS (SrcIA s), IngressId hop, EgressId hop))"

lemma static_block_inj:
  assumes "static_block info hop (IA_AS (SrcIA s)) (IA_AS (DstIA s)) = static_block info' hop' (IA_AS (SrcIA s')) (IA_AS (DstIA s'))"
    "length (ResIdSuffix info) = LenSuffix" "length (ResIdSuffix info') = LenSuffix" "ColVer info < 16" "ColVer info' < 16"
  shows "ResIdSuffix info = ResIdSuffix info' \<and> ExpTick info = ExpTick info' \<and> BwCls info = BwCls info' \<and>
    Rlc info = Rlc info' \<and> ColC info = ColC info' \<and> ColVer info = ColVer info' \<and>
    col_bound info hop s = col_bound info' hop' s'"
proof -
  have as: "drop 2 (PutUint64 (IA_AS x)) = drop 2 (PutUint64 (IA_AS y)) \<Longrightarrow> IA_AS x = IA_AS y" for x y
    using IA_AS_bytes [of x] IA_AS_bytes [of y] PutUint_inj(3) by metis
  have l: "length (ResIdSuffix info) = length (ResIdSuffix info')" using assms(2,3) by simp
  show ?thesis
    using assms(1) l flags_inj [OF _ assms(4,5)] as
    by (auto simp: static_block_def Let_def col_bound_def split: if_splits)
qed

text \<open>Claim C40. Verification of a COLIBRI hop field accepts exactly the first four bytes of the CBC-MAC over the
  reservation, the flags, the AS of the reservation's source and the two interfaces. The input of the MAC determines all of
  these, and a hop field authenticated for a packet is authenticated for the reply: the packet with the R flag
  flipped, the addresses exchanged and the interfaces of the hop field swapped.\<close>

theorem colibri_mac_correct:
  assumes "cipher_ok E" "length (ResIdSuffix info) = LenSuffix" "length (ColMac hop) = 4"
  shows "(VerifyMAC E ts info hop s = Inr () \<longleftrightarrow>
      ColMac hop = static_mac E info hop (IA_AS (SrcIA s)) (IA_AS (DstIA s))) \<and>
    VerifyMAC E ts' (info\<lparr>ColR := \<not> ColR info, ColCurrHF := h\<rparr>) (SwapInEg hop) (s\<lparr>SrcIA := DstIA s, DstIA := SrcIA s\<rparr>) =
      VerifyMAC E ts info hop s \<and>
    (length (ResIdSuffix info') = LenSuffix \<and> ColVer info < 16 \<and> ColVer info' < 16 \<and>
      static_block info hop (IA_AS (SrcIA s)) (IA_AS (DstIA s)) = static_block info' hop' (IA_AS (SrcIA s')) (IA_AS (DstIA s')) \<longrightarrow>
      ResIdSuffix info = ResIdSuffix info' \<and> ExpTick info = ExpTick info' \<and> BwCls info = BwCls info' \<and>
      Rlc info = Rlc info' \<and> ColC info = ColC info' \<and> ColVer info = ColVer info' \<and>
      col_bound info hop s = col_bound info' hop' s')"
proof -
  have l: "length (static_mac E i k a b) = 4" if "length (ResIdSuffix i) = LenSuffix" for i k a b
    using length_cbc [OF assms(1), of "static_block i k a b"] length_static_block [OF that]
    by (simp add: static_mac_def BlockSize_def)
  have v: "VerifyMAC E t i k sc = (if ColMac k = static_mac E i k (IA_AS (SrcIA sc)) (IA_AS (DstIA sc)) then Inr ()
      else Inl (Err ''colibri mac verification failed''))"
    if "length (ResIdSuffix i) = LenSuffix" "length (ColMac k) = 4" for t i k and sc :: "'a header_scheme"
    using MACStatic_block [OF assms(1) that(1)] l [OF that(1)] that(2) by (auto simp: VerifyMAC_def Let_def slice_def)
  have "static_mac E (info\<lparr>ColR := \<not> ColR info, ColCurrHF := h\<rparr>) (SwapInEg hop) b a = static_mac E info hop a b" for a b
    by (simp add: static_mac_def static_block_def SwapInEg_def)
  then show ?thesis
    using v assms(2,3) static_block_inj [of info hop s info' hop' s'] by (auto simp: SwapInEg_def)
qed

definition demo_col_info :: col_info where
  "demo_col_info = \<lparr>ColC = False, ColR = False, ColS = False, ColVer = 1, ColCurrHF = 0, HFCount = 2,
     ResIdSuffix = replicate 12 5, ExpTick = 100, BwCls = 3, Rlc = 4, OrigPayLen = 3\<rparr>"

definition demo_col_hop :: col_hop where
  "demo_col_hop = (let h = \<lparr>IngressId = 0, EgressId = 7, ColMac = replicate 4 0\<rparr> in
     h\<lparr>ColMac := static_mac (demo_aes (replicate 16 9)) demo_col_info h (IA_AS (SrcIA demo_scion)) (IA_AS (DstIA demo_scion))\<rparr>)"

lemma demo_col_ok: "length (ResIdSuffix demo_col_info) = LenSuffix" "length (ColMac demo_col_hop) = 4"
proof -
  show r: "length (ResIdSuffix demo_col_info) = LenSuffix" by (simp add: demo_col_info_def LenSuffix_def)
  have "length (static_mac (demo_aes k) demo_col_info h a b) = 4" for k h a b
    using length_cbc [OF demo_aes_ok, of "static_block demo_col_info h a b" k] length_static_block [OF r]
    by (simp add: static_mac_def BlockSize_def)
  then show "length (ColMac demo_col_hop) = 4" by (simp add: demo_col_hop_def Let_def)
qed

theorem colibri_mac_correct_witness:
  "VerifyMAC (demo_aes (replicate 16 9)) (replicate 8 0) demo_col_info demo_col_hop demo_scion = Inr () \<and>
   VerifyMAC (demo_aes (replicate 16 9)) (replicate 8 1) (demo_col_info\<lparr>ColR := True, ColCurrHF := 1\<rparr>) (SwapInEg demo_col_hop)
     (demo_scion\<lparr>SrcIA := DstIA demo_scion, DstIA := SrcIA demo_scion\<rparr>) = Inr ()"
proof -
  have "ColMac demo_col_hop = static_mac (demo_aes (replicate 16 9)) demo_col_info demo_col_hop (IA_AS (SrcIA demo_scion)) (IA_AS (DstIA demo_scion))"
    by (simp add: demo_col_hop_def Let_def static_mac_def static_block_def)
  moreover have "\<not> ColR demo_col_info" by (simp add: demo_col_info_def)
  ultimately show ?thesis
    using colibri_mac_correct [OF demo_aes_ok demo_col_ok, of "replicate 16 9" "replicate 8 0" demo_scion "replicate 8 1" 1
      demo_col_info demo_col_hop demo_scion]
    by simp
qed

end
