(* ===== verification/Router_Config.thy ===== *)
theory Router_Config
  imports Scion_Layer Colibri_Dataplane "HOL-Library.AList"
begin

unbundle bit_operations_syntax

text \<open>
  The configuration of the border router (go/pkg/router/svc.go and the setters of go/pkg/router/dataplane.go):
  the services, the interfaces, keys and BFD sessions of a data plane, and the resolution of local destinations.
  A Go map is an association list that holds a key once; a connection (\<open>BatchConn\<close>) is a number that identifies
  it; a BFD session is identified by its fields. The mutexes serialise the operations, which are the functions
  below; metrics are left out.
\<close>

section \<open>Services (svc.go)\<close>

record udp_addr =
  IP :: bytes
  Port :: nat

type_synonym services = "u16 \<Rightarrow> udp_addr list"

definition newServices :: services where
  "newServices = (\<lambda>_. [])"

fun svc_index :: "udp_addr \<Rightarrow> udp_addr list \<Rightarrow> nat \<Rightarrow> nat option" where
  "svc_index a [] i = None"
| "svc_index a (o' # addrs) i =
     (if IP_Equal (IP a) (IP o') \<and> Port a = Port o' then Some i else svc_index a addrs (Suc i))"

definition services_AddSvc :: "services \<Rightarrow> u16 \<Rightarrow> udp_addr \<Rightarrow> services" where
  "services_AddSvc s svc a = (let addrs = s svc in
     case svc_index a addrs 0 of Some _ \<Rightarrow> s | None \<Rightarrow> s(svc := addrs @ [a]))"

text \<open>The last address takes the place of the deleted one.\<close>

definition services_DelSvc :: "services \<Rightarrow> u16 \<Rightarrow> udp_addr \<Rightarrow> services" where
  "services_DelSvc s svc a = (let addrs = s svc in
     case svc_index a addrs 0 of
       None \<Rightarrow> s
     | Some index \<Rightarrow>
         let addrs = addrs[index := addrs ! (length addrs - 1)] in
         s(svc := take (length addrs - 1) addrs))"

text \<open>\<open>intn n\<close> is what \<open>mrand.Intn(n)\<close> returns.\<close>

definition services_Any :: "(nat \<Rightarrow> nat) \<Rightarrow> services \<Rightarrow> u16 \<Rightarrow> udp_addr option" where
  "services_Any intn s svc = (let addrs = s svc in
     if length addrs = 0 then None else Some (addrs ! intn (length addrs)))"

section \<open>The data plane (dataplane.go)\<close>

datatype link_type = Unset | Core | Parent | Child | Peer

record bfd_cfg =
  Disable :: bool
  CfgDetectMult :: u8
  CfgDesiredMinTxInterval :: int
  CfgRequiredMinRxInterval :: int

record link_end =
  LinkIA :: u64
  LinkAddr :: udp_addr

record bfd_send =
  SendConn :: "nat option"
  srcAddr :: udp_addr
  dstAddr :: udp_addr
  srcIA :: u64
  dstIA :: u64
  SendMac :: "bytes \<Rightarrow> bytes"
  ifID :: u16

record bfd_session =
  Sender :: bfd_send
  DetectMult :: u8
  DesiredMinTxInterval :: int
  RequiredMinRxInterval :: int
  LocalDiscriminator :: u32
  ReceiveQueueSize :: nat

record dataplane =
  external :: "(u16 \<times> nat) list"
  linkTypes :: "(u16 \<times> link_type) list"
  neighborIAs :: "(u16 \<times> u64) list"
  internal :: "nat option"
  internalIP :: bytes
  internalNextHops :: "(u16 \<times> udp_addr) list"
  svc :: "services option"
  macFactory :: "(bytes \<Rightarrow> bytes) option"
  colibriKey :: "(bytes \<Rightarrow> bytes) option"
  bfdSessions :: "(u16 \<times> bfd_session) list"
  localIA :: u64
  running :: bool

definition alreadySet :: go_error where "alreadySet = Err ''already set''"
definition cannotRoute :: go_error where "cannotRoute = Err ''cannot route, dropping pkt''"
definition emptyValue :: go_error where "emptyValue = Err ''empty value''"
definition malformedPath :: go_error where "malformedPath = Err ''malformed path content''"
definition modifyExisting :: go_error where "modifyExisting = Err ''modifying a running dataplane is not allowed''"
definition noSVCBackend :: go_error where "noSVCBackend = Err ''cannot find internal IP for the SVC''"
definition unsupportedPathType :: go_error where "unsupportedPathType = Err ''unsupported path type''"
definition unsupportedPathTypeNextHeader :: go_error where "unsupportedPathTypeNextHeader = Err ''unsupported combination''"
definition noBFDSessionFound :: go_error where "noBFDSessionFound = Err ''no BFD sessions was found''"
definition noBFDSessionConfigured :: go_error where "noBFDSessionConfigured = Err ''no BFD sessions have been configured''"
definition errBFDDisabled :: go_error where "errBFDDisabled = Err ''BFD is disabled''"

lemmas router_error_defs = alreadySet_def cannotRoute_def emptyValue_def malformedPath_def modifyExisting_def
  noSVCBackend_def unsupportedPathType_def unsupportedPathTypeNextHeader_def noBFDSessionFound_def
  noBFDSessionConfigured_def errBFDDisabled_def

definition SetIA :: "u64 \<Rightarrow> dataplane \<Rightarrow> dataplane res" where
  "SetIA ia d =
     (if running d then Inl modifyExisting
      else if IA_IsZero ia then Inl emptyValue
      else if \<not> IA_IsZero (localIA d) then Inl alreadySet
      else Inr (d\<lparr>localIA := ia\<rparr>))"

text \<open>\<open>InitMac\<close> (AES-CMAC, third-party) is a parameter: a key gives a keyed hash or an error.\<close>

definition SetKey :: "(bytes \<Rightarrow> (bytes \<Rightarrow> bytes) res) \<Rightarrow> bytes \<Rightarrow> dataplane \<Rightarrow> dataplane res" where
  "SetKey InitMac key d =
     (if running d then Inl modifyExisting
      else if length key = 0 then Inl emptyValue
      else if macFactory d \<noteq> None then Inl alreadySet
      else rbind (InitMac key) (\<lambda>mac. Inr (d\<lparr>macFactory := Some mac\<rparr>)))"

definition SetColibriKey :: "(bytes \<Rightarrow> bytes \<Rightarrow> bytes) \<Rightarrow> bytes \<Rightarrow> dataplane \<Rightarrow> dataplane res" where
  "SetColibriKey aes key d =
     (if running d then Inl modifyExisting
      else if colibriKey d \<noteq> None then Inl alreadySet
      else rbind (InitColibriKey aes key) (\<lambda>k. Inr (d\<lparr>colibriKey := Some k\<rparr>)))"

definition AddInternalInterface :: "nat option \<Rightarrow> bytes \<Rightarrow> dataplane \<Rightarrow> dataplane res" where
  "AddInternalInterface conn ip d =
     (if running d then Inl modifyExisting
      else if conn = None then Inl emptyValue
      else if internal d \<noteq> None then Inl alreadySet
      else Inr (d\<lparr>internal := conn, internalIP := ip\<rparr>))"

definition AddExternalInterface :: "u16 \<Rightarrow> nat option \<Rightarrow> dataplane \<Rightarrow> dataplane res" where
  "AddExternalInterface k conn d =
     (if running d then Inl modifyExisting
      else case conn of None \<Rightarrow> Inl emptyValue | Some c \<Rightarrow>
        if map_of (external d) k \<noteq> None then Inl alreadySet
        else Inr (d\<lparr>external := AList.update k c (external d)\<rparr>))"

definition AddNeighborIA :: "u16 \<Rightarrow> u64 \<Rightarrow> dataplane \<Rightarrow> dataplane res" where
  "AddNeighborIA k remote d =
     (if running d then Inl modifyExisting
      else if IA_IsZero remote then Inl emptyValue
      else if map_of (neighborIAs d) k \<noteq> None then Inl alreadySet
      else Inr (d\<lparr>neighborIAs := AList.update k remote (neighborIAs d)\<rparr>))"

definition AddLinkType :: "u16 \<Rightarrow> link_type \<Rightarrow> dataplane \<Rightarrow> dataplane res" where
  "AddLinkType k linkTo d =
     (if map_of (linkTypes d) k \<noteq> None then Inl alreadySet
      else Inr (d\<lparr>linkTypes := AList.update k linkTo (linkTypes d)\<rparr>))"

text \<open>\<open>discInt\<close> is the random number below 0xfffffffe.\<close>

definition addBFDController :: "nat \<Rightarrow> u16 \<Rightarrow> bfd_send \<Rightarrow> bfd_cfg \<Rightarrow> dataplane \<Rightarrow> dataplane res" where
  "addBFDController discInt k s cfg d =
     (if Disable cfg then Inl errBFDDisabled
      else let
        disc = of_nat discInt + 1;
        session = \<lparr>Sender = s, DetectMult = CfgDetectMult cfg, DesiredMinTxInterval = CfgDesiredMinTxInterval cfg,
          RequiredMinRxInterval = CfgRequiredMinRxInterval cfg, LocalDiscriminator = disc, ReceiveQueueSize = 10\<rparr>
      in Inr (d\<lparr>bfdSessions := AList.update k session (bfdSessions d)\<rparr>))"

definition AddExternalInterfaceBFD ::
  "nat \<Rightarrow> u16 \<Rightarrow> nat option \<Rightarrow> link_end \<Rightarrow> link_end \<Rightarrow> bfd_cfg \<Rightarrow> dataplane \<Rightarrow> dataplane res" where
  "AddExternalInterfaceBFD discInt k conn src dst cfg d =
     (if running d then Inl modifyExisting
      else case conn of None \<Rightarrow> Inl emptyValue | Some c \<Rightarrow>
        (case macFactory d of None \<Rightarrow> Inl (Panic ''nil pointer dereference'') | Some mac \<Rightarrow>
          addBFDController discInt k \<lparr>SendConn = Some c, srcAddr = LinkAddr src, dstAddr = LinkAddr dst,
            srcIA = LinkIA src, dstIA = LinkIA dst, SendMac = mac, ifID = k\<rparr> cfg d))"

definition getInterfaceState :: "(bfd_session \<Rightarrow> bool) \<Rightarrow> u16 \<Rightarrow> dataplane \<Rightarrow> bool" where
  "getInterfaceState isUp k d = (case map_of (bfdSessions d) k of
       Some s \<Rightarrow> (if \<not> isUp s then False else True)
     | None \<Rightarrow> True)"

definition AddSvc :: "u16 \<Rightarrow> udp_addr option \<Rightarrow> dataplane \<Rightarrow> dataplane res" where
  "AddSvc sv a d = (case a of None \<Rightarrow> Inl emptyValue | Some a \<Rightarrow>
     let s = (case svc d of None \<Rightarrow> newServices | Some s \<Rightarrow> s) in
     Inr (d\<lparr>svc := Some (services_AddSvc s sv a)\<rparr>))"

definition DelSvc :: "u16 \<Rightarrow> udp_addr option \<Rightarrow> dataplane \<Rightarrow> dataplane res" where
  "DelSvc sv a d = (case a of None \<Rightarrow> Inl emptyValue | Some a \<Rightarrow>
     (case svc d of None \<Rightarrow> Inr d | Some s \<Rightarrow> Inr (d\<lparr>svc := Some (services_DelSvc s sv a)\<rparr>)))"

definition AddNextHop :: "u16 \<Rightarrow> udp_addr option \<Rightarrow> dataplane \<Rightarrow> dataplane res" where
  "AddNextHop k a d =
     (if running d then Inl modifyExisting
      else case a of None \<Rightarrow> Inl emptyValue | Some a \<Rightarrow>
        if map_of (internalNextHops d) k \<noteq> None then Inl alreadySet
        else Inr (d\<lparr>internalNextHops := AList.update k a (internalNextHops d)\<rparr>))"

text \<open>Two UDP addresses print the same when their addresses in shortest form and their ports agree.
  \<open>hops\<close> are the next hops in the order in which the loop visits them, which Go leaves open.\<close>

definition udp_same :: "udp_addr \<Rightarrow> udp_addr \<Rightarrow> bool" where
  "udp_same a b \<longleftrightarrow> ip_norm (IP a) = ip_norm (IP b) \<and> Port a = Port b"

fun shared_session :: "(u16 \<times> udp_addr) list \<Rightarrow> udp_addr \<Rightarrow> (u16 \<times> bfd_session) list \<Rightarrow> bfd_session option" where
  "shared_session [] dst sessions = None"
| "shared_session ((k, v) # hops) dst sessions =
     (if udp_same v dst then
       (case map_of sessions k of Some c \<Rightarrow> Some c | None \<Rightarrow> shared_session hops dst sessions)
      else shared_session hops dst sessions)"

definition AddNextHopBFD ::
  "((u16 \<times> udp_addr) list \<Rightarrow> (u16 \<times> udp_addr) list) \<Rightarrow> nat \<Rightarrow> u16 \<Rightarrow> udp_addr \<Rightarrow> udp_addr option \<Rightarrow> bfd_cfg \<Rightarrow>
   dataplane \<Rightarrow> dataplane res" where
  "AddNextHopBFD order discInt k src dst cfg d =
     (if running d then Inl modifyExisting
      else case dst of None \<Rightarrow> Inl emptyValue | Some dst \<Rightarrow>
        (case shared_session (order (internalNextHops d)) dst (bfdSessions d) of
           Some c \<Rightarrow> Inr (d\<lparr>bfdSessions := AList.update k c (bfdSessions d)\<rparr>)
         | None \<Rightarrow>
            (case macFactory d of None \<Rightarrow> Inl (Panic ''nil pointer dereference'') | Some mac \<Rightarrow>
              addBFDController discInt k \<lparr>SendConn = internal d, srcAddr = src, dstAddr = dst,
                srcIA = localIA d, dstIA = localIA d, SendMac = mac, ifID = 0\<rparr> cfg d)))"

text \<open>\<open>Run\<close> marks the data plane as running before it starts the readers and sessions.\<close>

definition Run :: "dataplane \<Rightarrow> dataplane" where
  "Run d = d\<lparr>running := True\<rparr>"

section \<open>Local destinations\<close>

definition EndhostPort :: nat where "EndhostPort = 30041"

definition addEndhostPort :: "bytes \<Rightarrow> udp_addr" where
  "addEndhostPort ip = \<lparr>IP = ip, Port = EndhostPort\<rparr>"

definition resolveLocalDst :: "(nat \<Rightarrow> nat) \<Rightarrow> dataplane \<Rightarrow> 'a header_scheme \<Rightarrow> udp_addr res" where
  "resolveLocalDst intn d s = rbind (DstAddr s) (\<lambda>dst. case dst of
       SVCAddr v \<Rightarrow> (case svc d of
           None \<Rightarrow> Inl (Panic ''nil pointer dereference'')
         | Some sv \<Rightarrow> (case services_Any intn sv (SVC_Base v) of
             None \<Rightarrow> Inl noSVCBackend
           | Some a \<Rightarrow> Inr a))
     | IPAddr v \<Rightarrow> Inr (addEndhostPort v)
     | _ \<Rightarrow> Inl (Panic ''unexpected address type returned from DstAddr''))"

section \<open>Services as sets\<close>

text \<open>Two addresses are the same service address when this key agrees (\<open>net.IP.Equal\<close> and equal ports).\<close>

definition addr_key :: "udp_addr \<Rightarrow> bytes \<times> nat" where
  "addr_key a = (if length (IP a) = 4 then v4InV6Prefix @ IP a else IP a, Port a)"

lemma length_v4InV6Prefix [simp]: "length v4InV6Prefix = 12"
  by (simp add: v4InV6Prefix_def)

lemma v4_mapped: "length y = 4 \<Longrightarrow> v4InV6Prefix @ y = x \<longleftrightarrow> length x = 16 \<and> take 12 x = v4InV6Prefix \<and> drop 12 x = y"
  by (auto simp: append_eq_conv_conj)

lemma IP_Equal_key: "IP_Equal (IP a) (IP b) \<and> Port a = Port b \<longleftrightarrow> addr_key a = addr_key b"
  using v4_mapped [of "IP a" "IP b"] v4_mapped [of "IP b" "IP a"]
  by (auto simp: IP_Equal_def addr_key_def eq_commute [of "v4InV6Prefix @ IP b"] simp del: append_same_eq split: if_splits)

lemma svc_index_None: "svc_index a addrs i = None \<longleftrightarrow> addr_key a \<notin> addr_key ` set addrs"
  by (induction addrs arbitrary: i) (auto simp: IP_Equal_key)

lemma svc_index_Some:
  "svc_index a addrs i = Some j \<Longrightarrow> i \<le> j \<and> j - i < length addrs \<and> addr_key (addrs ! (j - i)) = addr_key a"
proof (induction addrs arbitrary: i)
  case (Cons o' addrs)
  show ?case
  proof (cases "addr_key a = addr_key o'")
    case True
    with Cons.prems show ?thesis by (simp add: IP_Equal_key)
  next
    case False
    with Cons.prems have "svc_index a addrs (Suc i) = Some j" by (simp add: IP_Equal_key)
    with Cons.IH [of "Suc i"] show ?thesis
      by (auto simp: Suc_diff_le Suc_le_eq nth_Cons' diff_Suc split: nat.splits)
  qed
qed simp

definition svc_inv :: "services \<Rightarrow> bool" where
  "svc_inv s \<longleftrightarrow> (\<forall>k. distinct (map addr_key (s k)))"

definition svc_members :: "services \<Rightarrow> u16 \<Rightarrow> (bytes \<times> nat) set" where
  "svc_members s k = addr_key ` set (s k)"

lemma swap_out:
  assumes "distinct xs" "j < length xs"
  shows "distinct (take (length xs - 1) (xs[j := xs ! (length xs - 1)])) \<and>
    set (take (length xs - 1) (xs[j := xs ! (length xs - 1)])) = set xs - {xs ! j}"
proof -
  obtain zs l where xs: "xs = zs @ [l]" using assms(2) by (cases xs rule: rev_cases) auto
  show ?thesis
  proof (cases "j = length zs")
    case True
    then show ?thesis using assms(1) by (simp add: xs list_update_append)
  next
    case False
    then have j: "j < length zs" using assms(2) by (simp add: xs)
    then have "set (zs[j := l]) = insert l (set zs - {zs ! j})" using assms(1) by (simp add: xs set_update_distinct)
    moreover have "zs ! j \<noteq> l" using assms(1) j by (auto simp: xs)
    ultimately show ?thesis using assms(1) j by (auto simp: xs list_update_append nth_append intro!: distinct_list_update)
  qed
qed

lemma swap_out_set:
  assumes "distinct (map f xs)" "j < length xs"
  defines "ys \<equiv> take (length xs - 1) (xs[j := xs ! (length xs - 1)])"
  shows "distinct (map f ys)" "f ` set ys = f ` set xs - {f (xs ! j)}"
proof -
  have "map f ys = take (length (map f xs) - 1) ((map f xs)[j := map f xs ! (length (map f xs) - 1)])"
    using assms(2) by (simp add: ys_def map_update flip: take_map)
  then show "distinct (map f ys)" "f ` set ys = f ` set xs - {f (xs ! j)}"
    using swap_out [OF assms(1), of j] assms(2) by (simp_all flip: set_map)
qed

lemma services_AddSvc_spec:
  assumes "svc_inv s"
  shows "svc_inv (services_AddSvc s k a)"
    "svc_members (services_AddSvc s k a) k' = (if k' = k then insert (addr_key a) (svc_members s k) else svc_members s k')"
proof -
  have n: "svc_index a (s k) 0 = None \<longleftrightarrow> addr_key a \<notin> svc_members s k"
    by (simp add: svc_index_None svc_members_def)
  show "svc_inv (services_AddSvc s k a)"
    using assms n by (auto simp: services_AddSvc_def svc_inv_def Let_def svc_members_def split: option.split)
  show "svc_members (services_AddSvc s k a) k' = (if k' = k then insert (addr_key a) (svc_members s k) else svc_members s k')"
    using n by (cases "svc_index a (s k) 0") (auto simp: services_AddSvc_def svc_members_def)
qed

lemma services_DelSvc_spec:
  assumes "svc_inv s"
  shows "svc_inv (services_DelSvc s k a)"
    "svc_members (services_DelSvc s k a) k' = (if k' = k then svc_members s k - {addr_key a} else svc_members s k')"
proof -
  have "svc_inv (services_DelSvc s k a) \<and>
    svc_members (services_DelSvc s k a) k' = (if k' = k then svc_members s k - {addr_key a} else svc_members s k')"
  proof (cases "svc_index a (s k) 0")
    case None
    then have "services_DelSvc s k a = s" by (simp add: services_DelSvc_def)
    then show ?thesis using assms None by (auto simp: svc_index_None svc_members_def)
  next
    case (Some j)
    have d: "distinct (map addr_key (s k))" using assms by (simp add: svc_inv_def)
    from svc_index_Some [OF Some] have j: "j < length (s k)" "addr_key (s k ! j) = addr_key a" by auto
    show ?thesis
      using swap_out_set [OF d j(1)] assms j(2) Some
      by (auto simp: services_DelSvc_def svc_inv_def svc_members_def Let_def)
  qed
  then show "svc_inv (services_DelSvc s k a)"
    "svc_members (services_DelSvc s k a) k' = (if k' = k then svc_members s k - {addr_key a} else svc_members s k')" by auto
qed

lemma services_Any_spec:
  assumes "\<And>n. 0 < n \<Longrightarrow> intn n < n"
  shows "(case services_Any intn s k of None \<Rightarrow> svc_members s k = {} | Some a \<Rightarrow> addr_key a \<in> svc_members s k)"
  using assms by (auto simp: services_Any_def svc_members_def Let_def)

text \<open>The contract of a registry that is changed by additions and deletions: an address is registered exactly when
  the last operation that concerns it added it.\<close>

locale svc_registry =
  fixes add del :: "'s \<Rightarrow> u16 \<Rightarrow> udp_addr \<Rightarrow> 's"
    and members :: "'s \<Rightarrow> u16 \<Rightarrow> (bytes \<times> nat) set"
    and inv :: "'s \<Rightarrow> bool"
  assumes inv_add: "inv s \<Longrightarrow> inv (add s k a)"
    and inv_del: "inv s \<Longrightarrow> inv (del s k a)"
    and members_add: "inv s \<Longrightarrow> members (add s k a) k' = (if k' = k then insert (addr_key a) (members s k) else members s k')"
    and members_del: "inv s \<Longrightarrow> members (del s k a) k' = (if k' = k then members s k - {addr_key a} else members s k')"
begin

lemma inv_ops: "inv s \<Longrightarrow> inv (fold (\<lambda>(b, k, a) s. if b then add s k a else del s k a) ops s)"
  by (induction ops arbitrary: s) (auto simp: inv_add inv_del split: prod.split)

lemma members_op:
  "inv s \<Longrightarrow> x \<in> members ((if b then add s k a else del s k a)) k' \<longleftrightarrow> (if k = k' \<and> addr_key a = x then b else x \<in> members s k')"
  by (auto simp: members_add members_del)

lemma members_history:
  assumes "inv s"
  shows "x \<in> members (fold (\<lambda>(b, k, a) s. if b then add s k a else del s k a) ops s) k \<longleftrightarrow>
    (case filter (\<lambda>(b, k', a). k' = k \<and> addr_key a = x) (rev ops) of
       [] \<Rightarrow> x \<in> members s k | (b, _) # _ \<Rightarrow> b)"
proof (induction ops rule: rev_induct)
  case (snoc op' ops)
  obtain b k' a where o': "op' = (b, k', a)" by (cases op')
  show ?case
    using snoc members_op [OF inv_ops [OF assms, of ops], of x b k' a k] by (simp add: o')
qed simp

end

interpretation svcs: svc_registry services_AddSvc services_DelSvc svc_members svc_inv
  by unfold_locales (auto simp: services_AddSvc_spec services_DelSvc_spec)

definition svc_op :: "bool \<times> u16 \<times> udp_addr \<Rightarrow> services \<Rightarrow> services" where
  "svc_op = (\<lambda>(b, k, a) s. if b then services_AddSvc s k a else services_DelSvc s k a)"

text \<open>The service registry keeps every address once, an address is registered exactly when the last operation on it
  added it (IPv4 addresses and their IPv6-mapped forms being the same), and a lookup returns a registered address
  whenever there is one.\<close>

lemma services_history:
  assumes "\<And>n. 0 < n \<Longrightarrow> intn n < n"
  shows "svc_inv (fold svc_op ops newServices) \<and>
    (x \<in> svc_members (fold svc_op ops newServices) k \<longleftrightarrow>
      (case filter (\<lambda>(b, k', a). k' = k \<and> addr_key a = x) (rev ops) of [] \<Rightarrow> False | (b, _) # _ \<Rightarrow> b)) \<and>
    (case services_Any intn (fold svc_op ops newServices) k of
       None \<Rightarrow> svc_members (fold svc_op ops newServices) k = {}
     | Some a \<Rightarrow> addr_key a \<in> svc_members (fold svc_op ops newServices) k)"
proof -
  have "svc_inv newServices" "svc_members newServices k = {}"
    by (simp_all add: svc_inv_def newServices_def svc_members_def)
  then show ?thesis
    using svcs.inv_ops [of newServices ops] svcs.members_history [of newServices x ops k]
      services_Any_spec [of intn "fold svc_op ops newServices" k, OF assms] unfolding svc_op_def
    by (auto split: list.splits)
qed

lemma services_history_example:
  "\<exists>a. services_Any (\<lambda>n. n - 1) (fold svc_op [(True, SvcCS, \<lparr>IP = [10, 0, 0, 1], Port = 30252\<rparr>),
     (True, SvcCS, \<lparr>IP = v4InV6Prefix @ [10, 0, 0, 2], Port = 30252\<rparr>),
     (False, SvcCS, \<lparr>IP = [10, 0, 0, 2], Port = 30252\<rparr>)] newServices) SvcCS = Some a \<and>
     addr_key a = (v4InV6Prefix @ [10, 0, 0, 1], 30252)"
proof -
  let ?ops = "[(True, SvcCS, \<lparr>IP = [10, 0, 0, 1], Port = 30252\<rparr>),
     (True, SvcCS, \<lparr>IP = v4InV6Prefix @ [10, 0, 0, 2], Port = 30252\<rparr>),
     (False, SvcCS, \<lparr>IP = [10, 0, 0, 2], Port = 30252\<rparr>)]"
  let ?s = "fold svc_op ?ops newServices"
  have i: "\<And>n. 0 < n \<Longrightarrow> n - 1 < (n :: nat)" by simp
  note h = services_history [of "\<lambda>n. n - 1" ?ops _ SvcCS, OF i]
  have k: "addr_key \<lparr>IP = [10, 0, 0, 1], Port = 30252\<rparr> = (v4InV6Prefix @ [10, 0, 0, 1], 30252)"
    "addr_key \<lparr>IP = v4InV6Prefix @ [10, 0, 0, 2], Port = 30252\<rparr> = (v4InV6Prefix @ [10, 0, 0, 2], 30252)"
    "addr_key \<lparr>IP = [10, 0, 0, 2], Port = 30252\<rparr> = (v4InV6Prefix @ [10, 0, 0, 2], 30252)"
    by (simp_all add: addr_key_def)
  have m: "x \<in> svc_members ?s SvcCS \<longleftrightarrow> x = (v4InV6Prefix @ [10, 0, 0, 1], 30252)" for x
    using h [of x] by (auto simp: k split: if_splits)
  then show ?thesis
    using h [of "(v4InV6Prefix @ [10, 0, 0, 1], 30252)"]
    by (cases "services_Any (\<lambda>n. n - 1) ?s SvcCS") auto
qed

section \<open>Configuration over time\<close>

text \<open>Any sequence of successful configuration calls, in any order and with any arguments; \<open>Run\<close> may come at any
  point.\<close>

inductive config_step :: "dataplane \<Rightarrow> dataplane \<Rightarrow> bool" where
  ia: "SetIA ia d = Inr d' \<Longrightarrow> config_step d d'"
| key: "SetKey InitMac key d = Inr d' \<Longrightarrow> config_step d d'"
| colibri: "SetColibriKey aes key d = Inr d' \<Longrightarrow> config_step d d'"
| intf: "AddInternalInterface conn ip d = Inr d' \<Longrightarrow> config_step d d'"
| extf: "AddExternalInterface k conn d = Inr d' \<Longrightarrow> config_step d d'"
| neighbor: "AddNeighborIA k remote d = Inr d' \<Longrightarrow> config_step d d'"
| link: "AddLinkType k l d = Inr d' \<Longrightarrow> config_step d d'"
| extbfd: "AddExternalInterfaceBFD n k conn src dst cfg d = Inr d' \<Longrightarrow> n < 0xfffffffe \<Longrightarrow> config_step d d'"
| addsvc: "AddSvc sv a d = Inr d' \<Longrightarrow> config_step d d'"
| delsvc: "DelSvc sv a d = Inr d' \<Longrightarrow> config_step d d'"
| nexthop: "AddNextHop k a d = Inr d' \<Longrightarrow> config_step d d'"
| nexthopbfd: "AddNextHopBFD order n k src' dst' cfg d = Inr d' \<Longrightarrow> n < 0xfffffffe \<Longrightarrow> config_step d d'"
| run: "config_step d (Run d)"

lemmas config_op_defs = SetIA_def SetKey_def SetColibriKey_def AddInternalInterface_def AddExternalInterface_def
  AddNeighborIA_def AddLinkType_def AddExternalInterfaceBFD_def AddSvc_def DelSvc_def AddNextHop_def AddNextHopBFD_def
  addBFDController_def Run_def

text \<open>What a later state keeps of an earlier one: every value that was set, and everything but services and link types
  once the data plane runs.\<close>

definition config_frozen :: "dataplane \<Rightarrow> dataplane \<Rightarrow> bool" where
  "config_frozen d d' \<longleftrightarrow> d'\<lparr>svc := svc d, linkTypes := linkTypes d\<rparr> = d"

lemma config_frozen_refl [simp]: "config_frozen d d"
  by (simp add: config_frozen_def)

lemma config_frozen_fields: "config_frozen d d' \<longleftrightarrow> external d' = external d \<and> neighborIAs d' = neighborIAs d \<and>
    internal d' = internal d \<and> internalIP d' = internalIP d \<and> internalNextHops d' = internalNextHops d \<and>
    macFactory d' = macFactory d \<and> colibriKey d' = colibriKey d \<and> bfdSessions d' = bfdSessions d \<and>
    localIA d' = localIA d \<and> running d' = running d"
  unfolding config_frozen_def by (cases d; cases d') auto

definition config_kept :: "dataplane \<Rightarrow> dataplane \<Rightarrow> bool" where
  "config_kept d d' \<longleftrightarrow> map_of (external d) \<subseteq>\<^sub>m map_of (external d') \<and> map_of (neighborIAs d) \<subseteq>\<^sub>m map_of (neighborIAs d') \<and>
     map_of (internalNextHops d) \<subseteq>\<^sub>m map_of (internalNextHops d') \<and> map_of (linkTypes d) \<subseteq>\<^sub>m map_of (linkTypes d') \<and>
     dom (map_of (bfdSessions d)) \<subseteq> dom (map_of (bfdSessions d')) \<and>
     (internal d \<noteq> None \<longrightarrow> internal d' = internal d \<and> internalIP d' = internalIP d) \<and>
     (macFactory d \<noteq> None \<longrightarrow> macFactory d' = macFactory d) \<and>
     (colibriKey d \<noteq> None \<longrightarrow> colibriKey d' = colibriKey d) \<and>
     (\<not> IA_IsZero (localIA d) \<longrightarrow> localIA d' = localIA d) \<and>
     (running d \<longrightarrow> config_frozen d d')"

lemma config_kept_refl [simp]: "config_kept d d"
  by (simp add: config_kept_def)

lemma config_kept_trans: "config_kept d d' \<Longrightarrow> config_kept d' d'' \<Longrightarrow> config_kept d d''"
  unfolding config_kept_def config_frozen_fields
  by (elim conjE, intro conjI; (erule (1) map_le_trans | erule (1) order_trans | force))

lemma map_le_update: "map_of xs k = None \<Longrightarrow> map_of xs \<subseteq>\<^sub>m map_of (AList.update k v xs)"
  by (auto simp: map_le_def update_conv)

lemma config_step_kept: "config_step d d' \<Longrightarrow> config_kept d d'"
  by (induction rule: config_step.induct)
    (auto simp: config_op_defs config_kept_def config_frozen_fields map_le_update update_conv Let_def res_simps split: if_splits option.splits)

lemma of_nat_Suc_nonzero: "n < 0xfffffffe \<Longrightarrow> (of_nat n + 1 :: u32) \<noteq> 0"
proof
  assume n: "n < 0xfffffffe" and z: "(of_nat n + 1 :: u32) = 0"
  have "unat (of_nat (n + 1) :: u32) = n + 1" using n by (simp only: unat_of_nat) (simp add: take_bit_nat_eq_self_iff)
  with z show False by (simp add: add.commute)
qed

definition discs_ok :: "dataplane \<Rightarrow> bool" where
  "discs_ok d \<longleftrightarrow> (\<forall>s \<in> ran (map_of (bfdSessions d)). LocalDiscriminator s \<noteq> 0)"

lemma shared_session_ran: "shared_session hops dst ss = Some c \<Longrightarrow> c \<in> ran (map_of ss)"
  by (induction hops dst ss rule: shared_session.induct) (auto split: if_splits option.splits intro: ranI)

lemma discs_ok_update:
  "discs_ok d \<Longrightarrow> LocalDiscriminator s \<noteq> 0 \<Longrightarrow> discs_ok (d\<lparr>bfdSessions := AList.update k s (bfdSessions d)\<rparr>)"
  by (auto simp: discs_ok_def update_conv ran_def split: if_splits)

lemma discs_ok_other: "bfdSessions d' = bfdSessions d \<Longrightarrow> discs_ok d \<Longrightarrow> discs_ok d'"
  by (simp add: discs_ok_def)

lemma addBFDController_discs:
  "addBFDController n k s cfg d = Inr d' \<Longrightarrow> n < 0xfffffffe \<Longrightarrow> discs_ok d \<Longrightarrow> discs_ok d'"
  by (auto simp: addBFDController_def Let_def of_nat_Suc_nonzero intro!: discs_ok_update split: if_splits)

lemma config_step_discs: "config_step d d' \<Longrightarrow> discs_ok d \<Longrightarrow> discs_ok d'"
proof (induction rule: config_step.induct)
  case (extbfd n k conn src dst cfg d d')
  then show ?case
    by (auto simp: AddExternalInterfaceBFD_def intro: addBFDController_discs split: if_splits option.splits)
next
  case (nexthopbfd order n k src' dst' cfg d d')
  then show ?case
    using discs_ok_update [OF nexthopbfd.prems]
    by (auto simp: AddNextHopBFD_def intro: addBFDController_discs dest!: shared_session_ran
        split: if_splits option.splits) (auto simp: discs_ok_def)
qed (auto simp: config_op_defs Let_def res_simps intro: discs_ok_other split: if_splits option.splits)

text \<open>Configuration is set once: in every sequence of successful configuration calls a value that was set keeps
  its value, the discriminators of all BFD sessions are non-zero, and after \<open>Run\<close> nothing but the services and the link types can
  change; a second setting of a value and any setting on a running data plane are errors.\<close>

lemma config_set_once:
  assumes "config_step\<^sup>*\<^sup>* d d'"
  shows "config_kept d d' \<and> (discs_ok d \<longrightarrow> discs_ok d') \<and>
    (running d \<longrightarrow> SetIA ia d' = Inl modifyExisting \<and> AddExternalInterface k c d' = Inl modifyExisting \<and>
      AddNeighborIA k ia d' = Inl modifyExisting \<and> AddNextHop k a d' = Inl modifyExisting) \<and>
    (map_of (linkTypes d) k \<noteq> None \<longrightarrow> AddLinkType k l d' = Inl alreadySet) \<and>
    (\<not> running d' \<and> map_of (external d) k \<noteq> None \<longrightarrow> AddExternalInterface k (Some n) d' = Inl alreadySet)"
proof -
  have k: "config_kept d d'" using assms
    by (induction rule: rtranclp_induct) (auto intro: config_kept_trans config_step_kept)
  moreover have "discs_ok d \<longrightarrow> discs_ok d'" using assms
    by (induction rule: rtranclp_induct) (auto intro: config_step_discs)
  moreover have "map_of (linkTypes d) k \<noteq> None \<Longrightarrow> map_of (linkTypes d') k \<noteq> None"
    "map_of (external d) k \<noteq> None \<Longrightarrow> map_of (external d') k \<noteq> None"
    "running d \<Longrightarrow> running d'"
    using k by (auto simp: config_kept_def config_frozen_fields map_le_def dom_def)
  ultimately show ?thesis by (auto simp: config_op_defs)
qed

definition demo_dataplane :: dataplane where
  "demo_dataplane = \<lparr>external = [], linkTypes = [], neighborIAs = [], internal = None, internalIP = [],
     internalNextHops = [], svc = None, macFactory = None, colibriKey = None, bfdSessions = [], localIA = 0, running = False\<rparr>"

lemma config_set_once_example:
  "\<exists>d d'. SetIA 5 demo_dataplane = Inr d \<and> AddExternalInterface 1 (Some 4) d = Inr d' \<and> localIA (Run d') = 5 \<and>
     SetIA 6 (Run d') = Inl modifyExisting \<and> config_kept d (Run d')"
proof -
  have a: "SetIA 5 demo_dataplane = Inr (demo_dataplane\<lparr>localIA := 5\<rparr>)"
    by (simp add: SetIA_def demo_dataplane_def IA_IsZero_def)
  let ?d = "demo_dataplane\<lparr>localIA := 5\<rparr>"
  have b: "AddExternalInterface 1 (Some 4) ?d = Inr (?d\<lparr>external := [(1, 4)]\<rparr>)"
    by (simp add: AddExternalInterface_def demo_dataplane_def)
  let ?e = "Run (?d\<lparr>external := [(1, 4)]\<rparr>)"
  have s: "config_step\<^sup>*\<^sup>* ?d ?e" "config_step\<^sup>*\<^sup>* ?e ?e"
    using extf [OF b] config_step.run by (auto intro: rtranclp.rtrancl_into_rtrancl)
  have "running ?e" by (simp add: Run_def)
  then show ?thesis
    using a b config_set_once [OF s(1)] config_set_once [OF s(2), of 6] by (auto simp: Run_def)
qed

end
