(* ===== verification/Router.thy ===== *)
theory Router
  imports Router_Config Scmp Extn Epic
begin

unbundle bit_operations_syntax

text \<open>
  Packet processing of the border router (go/pkg/router/dataplane.go): the per-packet processor, the checks and
  updates of SCION, EPIC and one-hop packets and the SCMP replies. A method returns the changed processor with its
  \<open>processResult\<close> and error; \<open>andThen\<close> is the early return on an error. The error type keeps \<open>scmpError\<close>
  apart, which the read loop turns into a reply. The clock is read once per packet. Logging and metrics are left out.
\<close>

section \<open>Processors and results\<close>

text \<open>What one packet sees of the world: the clock, the random choice of a service, the state of the BFD sessions, the
  buffers of gopacket and of the MAC computations, and the AES cipher of EPIC.\<close>

record env =
  Now :: int
  Intn :: "nat \<Rightarrow> nat"
  IsUp :: "bfd_session \<Rightarrow> bool"
  PrependBytes :: "nat \<Rightarrow> bytes"
  Aes :: "bytes \<Rightarrow> bytes \<Rightarrow> bytes"
  scionInput :: bytes
  epicInput :: bytes

datatype last_layer = LastSCION scion | LastHBH extn_base | LastE2E extn_base

fun LastPayload :: "last_layer \<Rightarrow> bytes" where
  "LastPayload (LastSCION s) = Payload s"
| "LastPayload (LastHBH e) = ExtPayload e"
| "LastPayload (LastE2E e) = ExtPayload e"

fun LastNextLayerType :: "last_layer \<Rightarrow> layer_type" where
  "LastNextLayerType (LastSCION s) = NextLayerType s"
| "LastNextLayerType (LastHBH e) = HopByHopExtn_NextLayerType e"
| "LastNextLayerType (LastE2E e) = EndToEndExtn_NextLayerType e"

record process_result =
  EgressID :: u16
  OutConn :: "nat option"
  OutAddr :: "udp_addr option"
  OutPkt :: bytes

definition result_zero :: process_result where
  "result_zero = \<lparr>EgressID = 0, OutConn = None, OutAddr = None, OutPkt = []\<rparr>"

datatype proc_error = PErr go_error | ScmpError u16 "go_error option"

text \<open>\<open>ppath\<close> is nil until the path is parsed; \<open>ppath.Raw\<close> is the part of \<open>rawPkt\<close> at \<open>pathOff\<close>.\<close>

record processor =
  dp :: dataplane
  ingressID :: u16
  rawPkt :: bytes
  pmac :: "bytes \<Rightarrow> bytes"
  scionLayer :: scion
  lastLayer :: last_layer
  ppath :: raw_path
  pathOff :: nat
  hopField :: hop_field
  infoField :: info_field
  segmentChange :: bool
  cachedMac :: bytes

type_synonym outcome = "processor \<times> process_result \<times> proc_error option"

definition proc_ok :: "processor \<Rightarrow> outcome" where
  "proc_ok p = (p, result_zero, None)"

definition proc_fail :: "go_error \<Rightarrow> processor \<Rightarrow> outcome" where
  "proc_fail e p = (p, result_zero, Some (PErr e))"

definition andThen :: "outcome \<Rightarrow> (processor \<Rightarrow> outcome) \<Rightarrow> outcome" where
  "andThen m g = (case m of (p, r, Some e) \<Rightarrow> (p, r, Some e) | (p, r, None) \<Rightarrow> g p)"

text \<open>A write to the path reaches the packet and the SCION layer, which hold the same bytes and the same object.\<close>

definition alias_path :: "path_val option \<Rightarrow> raw_path \<Rightarrow> path_val option" where
  "alias_path sp r = (case sp of
       Some (ScionRaw _) \<Rightarrow> Some (ScionRaw r)
     | Some (Epic e) \<Rightarrow> Some (Epic (e\<lparr>ScionPath := Some r\<rparr>))
     | _ \<Rightarrow> sp)"

definition store_path :: "processor \<Rightarrow> raw_path \<Rightarrow> processor" where
  "store_path p r = p\<lparr>ppath := r, rawPkt := put_at (pathOff p) (Raw r) (rawPkt p),
     scionLayer := (scionLayer p)\<lparr>SPath := alias_path (SPath (scionLayer p)) r\<rparr>\<rparr>"

section \<open>SCMP replies\<close>

definition scion_zero :: scion where
  "scion_zero = \<lparr>Version = 0, TrafficClass = 0, FlowID = 0, NextHdr = 0, HdrLen = 0, PayloadLen = 0,
     DstAddrType = 0, DstAddrLen = 0, SrcAddrType = 0, SrcAddrLen = 0, DstIA = 0, SrcIA = 0,
     RawDstAddr = [], RawSrcAddr = [], PathType = 0, SPath = None, Contents = [], Payload = []\<rparr>"

definition cr_wrap :: "'a res \<Rightarrow> 'a res" where
  "cr_wrap m = wrap_err ''cannot route, dropping pkt'' m"

definition inc_decoded :: "decoded_path \<Rightarrow> decoded_path res" where
  "inc_decoded q = (case Base_IncPath q of (q', None) \<Rightarrow> Inr q' | (_, Some e) \<Rightarrow> Inl e)"

text \<open>The reply path of \<open>prepareSCMP\<close>: reversed, a segment switch of the processing undone, and advanced when the
  reply leaves through the external interface the packet came in by.\<close>

definition scmp_rev_path :: "dataplane \<Rightarrow> u16 \<Rightarrow> decoded_path \<Rightarrow> decoded_path res" where
  "scmp_rev_path dpl ing decPath =
     rbind (cr_wrap (Decoded_Reverse decPath)) (\<lambda>revPathTmp. case revPathTmp of
       None \<Rightarrow> Inl (Panic ''interface conversion'')
     | Some revPath \<Rightarrow>
       rbind (if IsXover revPath then cr_wrap (inc_decoded revPath) else Inr revPath) (\<lambda>revPath.
       if map_of (external dpl) ing \<noteq> None then
         (let i = unat (CurrINF (PathMeta revPath)); h = unat (CurrHF (PathMeta revPath)) in
          if length (InfoFields revPath) \<le> i then Inl (Panic ''index out of range'')
          else let info = InfoFields revPath ! i in
            rbind (if ConsDir info then
                     (if length (HopFields revPath) \<le> h then Inl (Panic ''index out of range'')
                      else Inr (revPath\<lparr>InfoFields := (InfoFields revPath)[i := UpdateSegID info (Mac (HopFields revPath ! h))]\<rparr>))
                   else Inr revPath) (\<lambda>revPath. cr_wrap (inc_decoded revPath)))
       else Inr revPath))"

text \<open>The header of the reply.\<close>

definition scmp_scion :: "dataplane \<Rightarrow> scion \<Rightarrow> decoded_path \<Rightarrow> scion res" where
  "scmp_scion dpl sl revPath = (let
     scionL = scion_zero\<lparr>FlowID := FlowID sl, TrafficClass := TrafficClass sl, PathType := Scion_PathType,
       SPath := Some (ScionDecoded revPath), DstIA := SrcIA sl, SrcIA := localIA dpl\<rparr>
   in rbind (cr_wrap (SrcAddr sl)) (\<lambda>srcA. case SetDstAddr scionL srcA of
        (_, Some e) \<Rightarrow> Inl (WrapErr ''cannot route, dropping pkt'' e)
      | (scionL, None) \<Rightarrow> (case SetSrcAddr scionL (IPAddr (internalIP dpl)) of
          (_, Some e) \<Rightarrow> Inl (WrapErr ''cannot route, dropping pkt'' e)
        | (scionL, None) \<Rightarrow> Inr (scionL\<lparr>NextHdr := L4SCMP\<rparr>))))"

text \<open>The quote of the offending packet, cut so that the reply stays within \<open>MaxSCMPPacketLen\<close>.\<close>

definition scmp_quote :: "scion \<Rightarrow> decoded_path \<Rightarrow> u16 \<Rightarrow> bytes \<Rightarrow> bytes res" where
  "scmp_quote scionL revPath typeCode pkt = (let
     hdrLen = CmnHdrLen + AddrHdrLen scionL + path_Len revPath;
     hdrLen = hdrLen + (if TypeCode_Type typeCode = SCMPTypeExternalInterfaceDown then 20
       else if TypeCode_Type typeCode = SCMPTypeInternalConnectivityDown then 28 else 8);
     maxQuoteLen = int MaxSCMPPacketLen - int hdrLen
   in if int (length pkt) > maxQuoteLen then
        (if maxQuoteLen < 0 then Inl (Panic ''slice bounds out of range'') else Inr (take (nat maxQuoteLen) pkt))
      else Inr pkt)"

definition scmp_packet :: "env \<Rightarrow> processor \<Rightarrow> decoded_path \<Rightarrow> u16 \<Rightarrow> scmp_msg \<Rightarrow> go_error option \<Rightarrow> bytes res" where
  "scmp_packet env p decPath typeCode scmpP cause =
     rbind (scmp_rev_path (dp p) (ingressID p) decPath) (\<lambda>revPath.
     rbind (scmp_scion (dp p) (scionLayer p) revPath) (\<lambda>scionL.
     rbind (if cause \<noteq> None then scmp_quote scionL revPath typeCode (rawPkt p) else Inr []) (\<lambda>quote.
     cr_wrap (
       let b = Msg_SerializeTo (PrependBytes env) scmpP quote in
       rbind (SCMP_SerializeTo (PrependBytes env) True (scmp_zero\<lparr>TypeCode := typeCode, ScmpScn := Some scionL\<rparr>) b) (\<lambda>(_, b).
       rbind (SCION_SerializeTo (PrependBytes env) True scionL b) (\<lambda>(_, b). Inr b))))))"

definition prepareSCMP :: "env \<Rightarrow> processor \<Rightarrow> u16 \<Rightarrow> scmp_msg \<Rightarrow> go_error option \<Rightarrow> processor \<times> bytes \<times> proc_error" where
  "prepareSCMP env p typeCode scmpP cause = (case SPath (scionLayer p) of
       Some (ScionRaw path) \<Rightarrow> (case Raw_ToDecoded path of
           Inl e \<Rightarrow> (p, [], PErr (WrapErr ''cannot route, dropping pkt'' e))
         | Inr (path, decPath) \<Rightarrow> (let p = store_path p path in
             case scmp_packet env p decPath typeCode scmpP cause of
               Inl e \<Rightarrow> (p, [], PErr e)
             | Inr pkt \<Rightarrow> (p, pkt, ScmpError typeCode cause)))
     | Some _ \<Rightarrow> (p, [], PErr cannotRoute)
     | None \<Rightarrow> (p, [], PErr (Panic ''nil pointer dereference'')))"

definition packSCMP :: "env \<Rightarrow> u16 \<Rightarrow> scmp_msg \<Rightarrow> go_error option \<Rightarrow> processor \<Rightarrow> outcome" where
  "packSCMP env typeCode scmpP cause p = (let
     send = (\<lambda>_. case prepareSCMP env p typeCode scmpP cause of
       (p, rawSCMP, e) \<Rightarrow> (p, result_zero\<lparr>OutPkt := rawSCMP\<rparr>, Some e))
   in if LastNextLayerType (lastLayer p) = LayerTypeSCMP then
        (case SCMP_DecodeFromBytes scmp_zero (LastPayload (lastLayer p)) of
           Inl e \<Rightarrow> proc_fail (WrapErr ''decoding SCMP layer'' e) p
         | Inr scmpLayer \<Rightarrow>
             if \<not> InfoMsg (TypeCode scmpLayer)
             then proc_fail (case cause of None \<Rightarrow> Err ''SCMP error for SCMP error pkt -> DROP''
                             | Some c \<Rightarrow> WrapErr ''SCMP error for SCMP error pkt -> DROP'' c) p
             else send ())
      else send ())"

section \<open>SCION packets\<close>

definition currentInfoPointer :: "processor \<Rightarrow> u16" where
  "currentInfoPointer p = of_nat (CmnHdrLen + AddrHdrLen (scionLayer p) + MetaLen +
     InfoLen * unat (CurrINF (PathMeta (ppath p))))"

definition currentHopPointer :: "processor \<Rightarrow> u16" where
  "currentHopPointer p = of_nat (CmnHdrLen + AddrHdrLen (scionLayer p) + MetaLen +
     InfoLen * NumINF (ppath p) + HopLen * unat (CurrHF (PathMeta (ppath p))))"

definition paramProblem :: "env \<Rightarrow> u8 \<Rightarrow> u16 \<Rightarrow> go_error \<Rightarrow> processor \<Rightarrow> outcome" where
  "paramProblem env code ptr cause p =
     packSCMP env (CreateSCMPTypeCode SCMPTypeParameterProblem code) (SCMPParameterProblem ptr) (Some cause) p"

definition validateHopExpiry :: "env \<Rightarrow> processor \<Rightarrow> outcome" where
  "validateHopExpiry env p = (let
     expiration = SecsToTime (Timestamp (infoField p)) + ExpTimeToDuration (ExpTime (hopField p));
     expired = expiration < Now env
   in if \<not> expired then proc_ok p
      else paramProblem env SCMPCodePathExpired (currentHopPointer p) (Err ''expired hop'') p)"

definition validateIngressID :: "env \<Rightarrow> processor \<Rightarrow> outcome" where
  "validateIngressID env p = (let
     (pktIngressID, errCode) = (if \<not> ConsDir (infoField p)
       then (ConsEgress (hopField p), SCMPCodeUnknownHopFieldEgress)
       else (ConsIngress (hopField p), SCMPCodeUnknownHopFieldIngress))
   in if ingressID p \<noteq> 0 \<and> ingressID p \<noteq> pktIngressID
      then paramProblem env errCode (currentHopPointer p) (Err ''ingress interface invalid'') p
      else proc_ok p)"

definition parsePath :: "env \<Rightarrow> processor \<Rightarrow> outcome" where
  "parsePath env p = (case GetCurrentHopField (ppath p) of
       Inl e \<Rightarrow> proc_fail e p
     | Inr hf \<Rightarrow> let p = p\<lparr>hopField := hf\<rparr> in (case GetCurrentInfoField (ppath p) of
         Inl e \<Rightarrow> proc_fail e p
       | Inr info \<Rightarrow> let p = p\<lparr>infoField := info\<rparr> in
           andThen (validateHopExpiry env p) (\<lambda>p. validateIngressID env p)))"

definition egressInterface :: "processor \<Rightarrow> u16" where
  "egressInterface p = (if ConsDir (infoField p) then ConsEgress (hopField p) else ConsIngress (hopField p))"

text \<open>A lookup in a Go map of an absent key gives the zero value, here \<open>Unset\<close>.\<close>

definition linkType :: "dataplane \<Rightarrow> u16 \<Rightarrow> link_type" where
  "linkType d k = (case map_of (linkTypes d) k of None \<Rightarrow> Unset | Some l \<Rightarrow> l)"

definition validateEgressID :: "env \<Rightarrow> processor \<Rightarrow> outcome" where
  "validateEgressID env p = (let
     pktEgressID = egressInterface p;
     ih = (map_of (internalNextHops (dp p)) pktEgressID \<noteq> None);
     eh = (map_of (external (dp p)) pktEgressID \<noteq> None)
   in if \<not> ih \<and> \<not> eh then
        paramProblem env (if \<not> ConsDir (infoField p) then SCMPCodeUnknownHopFieldIngress else SCMPCodeUnknownHopFieldEgress)
          (currentHopPointer p) cannotRoute p
      else if \<not> segmentChange p then proc_ok p
      else let ingress = linkType (dp p) (ingressID p); egress = linkType (dp p) pktEgressID in
        if ingress = Core \<and> egress = Child then proc_ok p
        else if ingress = Child \<and> egress = Core then proc_ok p
        else if ingress = Child \<and> egress = Child then proc_ok p
        else paramProblem env SCMPCodeInvalidSegmentChange (currentInfoPointer p) cannotRoute p)"

definition set_info :: "processor \<Rightarrow> outcome" where
  "set_info p = (case SetInfoField (ppath p) (infoField p) (unat (CurrINF (PathMeta (ppath p)))) of
       Inl e \<Rightarrow> proc_fail (WrapErr ''update info field'' e) p
     | Inr r \<Rightarrow> proc_ok (store_path p r))"

definition updateNonConsDirIngressSegID :: "processor \<Rightarrow> outcome" where
  "updateNonConsDirIngressSegID p =
     (if \<not> ConsDir (infoField p) \<and> ingressID p \<noteq> 0
      then set_info (p\<lparr>infoField := UpdateSegID (infoField p) (Mac (hopField p))\<rparr>)
      else proc_ok p)"

definition verifyCurrentMAC :: "env \<Rightarrow> processor \<Rightarrow> outcome" where
  "verifyCurrentMAC env p = (let fullMac = FullMAC (pmac p) (infoField p) (hopField p) (scionInput env) in
     if slice 0 MacLen (Mac (hopField p)) \<noteq> slice 0 MacLen fullMac
     then paramProblem env SCMPCodeInvalidHopFieldMAC (currentHopPointer p) (Err ''MAC verification failed'') p
     else proc_ok (p\<lparr>cachedMac := fullMac\<rparr>))"

text \<open>Any error of \<open>resolveLocalDst\<close> but \<open>noSVCBackend\<close> is dropped and gives a nil address.\<close>

definition resolveInbound :: "env \<Rightarrow> processor \<Rightarrow> (udp_addr option \<times> outcome)" where
  "resolveInbound env p = (case resolveLocalDst (Intn env) (dp p) (scionLayer p) of
       Inl e \<Rightarrow>
         if e = noSVCBackend
         then (None, packSCMP env (CreateSCMPTypeCode SCMPTypeDestinationUnreachable SCMPCodeNoRoute)
                SCMPDestinationUnreachable (Some e) p)
         else if \<not> soft_error e then (None, proc_fail e p)
         else (None, proc_ok p)
     | Inr a \<Rightarrow> (Some a, proc_ok p))"

definition inc_path :: "processor \<Rightarrow> outcome" where
  "inc_path p = (case Raw_IncPath (ppath p) of
       Inl e \<Rightarrow> proc_fail (WrapErr ''incrementing path'' e) p
     | Inr r \<Rightarrow> proc_ok (store_path p r))"

definition processEgress :: "processor \<Rightarrow> outcome" where
  "processEgress p = andThen
     (if ConsDir (infoField p)
      then set_info (p\<lparr>infoField := UpdateSegID (infoField p) (Mac (hopField p))\<rparr>)
      else proc_ok p)
     inc_path"

definition doXover :: "env \<Rightarrow> processor \<Rightarrow> outcome" where
  "doXover env p = andThen (inc_path (p\<lparr>segmentChange := True\<rparr>)) (\<lambda>p.
     case GetCurrentHopField (ppath p) of
       Inl e \<Rightarrow> proc_fail e p
     | Inr hf \<Rightarrow> let p = p\<lparr>hopField := hf\<rparr> in (case GetCurrentInfoField (ppath p) of
         Inl e \<Rightarrow> proc_fail e p
       | Inr info \<Rightarrow> let p = p\<lparr>infoField := info\<rparr> in
           andThen (validateHopExpiry env p) (\<lambda>p. verifyCurrentMAC env p)))"

definition validateEgressUp :: "env \<Rightarrow> processor \<Rightarrow> outcome" where
  "validateEgressUp env p = (let egress = egressInterface p in
     case map_of (bfdSessions (dp p)) egress of
       None \<Rightarrow> proc_ok p
     | Some v \<Rightarrow>
         if \<not> IsUp env v then
           (if map_of (external (dp p)) egress = None
            then packSCMP env (CreateSCMPTypeCode SCMPTypeInternalConnectivityDown 0)
              (SCMPInternalConnectivityDown (localIA (dp p)) (ucast (ingressID p)) (ucast egress)) (Some (Err ''bfd session down'')) p
            else packSCMP env (CreateSCMPTypeCode SCMPTypeExternalInterfaceDown 0)
              (SCMPExternalInterfaceDown (localIA (dp p)) (ucast egress)) (Some (Err ''bfd session down'')) p)
         else proc_ok p)"

definition handleSCMPTraceRouteRequest :: "env \<Rightarrow> u16 \<Rightarrow> processor \<Rightarrow> outcome" where
  "handleSCMPTraceRouteRequest env interfaceID p =
     (if LastNextLayerType (lastLayer p) \<noteq> LayerTypeSCMP then proc_ok p
      else (case SCMP_DecodeFromBytes scmp_zero (LastPayload (lastLayer p)) of
          Inl _ \<Rightarrow> proc_ok p
        | Inr scmpH \<Rightarrow>
            if TypeCode scmpH \<noteq> CreateSCMPTypeCode SCMPTypeTracerouteRequest 0 then proc_ok p
            else (case Traceroute_DecodeFromBytes (ScmpPayload scmpH) of
                Inr (SCMPTraceroute i s _ _, _) \<Rightarrow>
                  packSCMP env (CreateSCMPTypeCode SCMPTypeTracerouteReply 0)
                    (SCMPTraceroute i s (localIA (dp p)) (ucast interfaceID)) None p
              | _ \<Rightarrow> proc_ok p)))"

definition set_hop :: "processor \<Rightarrow> outcome" where
  "set_hop p = (case SetHopField (ppath p) (hopField p) (unat (CurrHF (PathMeta (ppath p)))) of
       Inl e \<Rightarrow> proc_fail (WrapErr ''update hop field'' e) p
     | Inr r \<Rightarrow> proc_ok (store_path p r))"

definition ingressRouterAlertFlag :: "processor \<Rightarrow> bool" where
  "ingressRouterAlertFlag p =
     (if \<not> ConsDir (infoField p) then EgressRouterAlert (hopField p) else IngressRouterAlert (hopField p))"

definition egressRouterAlertFlag :: "processor \<Rightarrow> bool" where
  "egressRouterAlertFlag p =
     (if \<not> ConsDir (infoField p) then IngressRouterAlert (hopField p) else EgressRouterAlert (hopField p))"

definition clear_ingress_alert :: "processor \<Rightarrow> processor" where
  "clear_ingress_alert p = p\<lparr>hopField := (if \<not> ConsDir (infoField p)
     then (hopField p)\<lparr>EgressRouterAlert := False\<rparr> else (hopField p)\<lparr>IngressRouterAlert := False\<rparr>)\<rparr>"

definition clear_egress_alert :: "processor \<Rightarrow> processor" where
  "clear_egress_alert p = p\<lparr>hopField := (if \<not> ConsDir (infoField p)
     then (hopField p)\<lparr>IngressRouterAlert := False\<rparr> else (hopField p)\<lparr>EgressRouterAlert := False\<rparr>)\<rparr>"

definition handleIngressRouterAlert :: "env \<Rightarrow> processor \<Rightarrow> outcome" where
  "handleIngressRouterAlert env p =
     (if ingressID p = 0 then proc_ok p
      else if \<not> ingressRouterAlertFlag p then proc_ok p
      else andThen (set_hop (clear_ingress_alert p)) (\<lambda>p. handleSCMPTraceRouteRequest env (ingressID p) p))"

definition handleEgressRouterAlert :: "env \<Rightarrow> processor \<Rightarrow> outcome" where
  "handleEgressRouterAlert env p =
     (if \<not> egressRouterAlertFlag p then proc_ok p
      else let egress = egressInterface p in
        if map_of (external (dp p)) egress = None then proc_ok p
        else andThen (set_hop (clear_egress_alert p)) (\<lambda>p. handleSCMPTraceRouteRequest env egress p))"

definition validatePktLen :: "env \<Rightarrow> processor \<Rightarrow> outcome" where
  "validatePktLen env p =
     (if unat (PayloadLen (scionLayer p)) = length (Payload (scionLayer p)) then proc_ok p
      else paramProblem env SCMPCodeInvalidPacketSize 0 (Err ''bad packet size'') p)"

text \<open>The second half of \<open>process\<close>: packets that leave the router for another AS or another router of this one.\<close>

definition process_outbound :: "env \<Rightarrow> processor \<Rightarrow> outcome" where
  "process_outbound env p =
     andThen (if IsXover (ppath p) then doXover env p else proc_ok p) (\<lambda>p.
     andThen (validateEgressID env p) (\<lambda>p.
     andThen (handleEgressRouterAlert env p) (\<lambda>p.
     andThen (validateEgressUp env p) (\<lambda>p.
     let egress = egressInterface p in
     case map_of (external (dp p)) egress of
       Some c \<Rightarrow> andThen (processEgress p) (\<lambda>p.
         (p, \<lparr>EgressID = egress, OutConn = Some c, OutAddr = None, OutPkt = rawPkt p\<rparr>, None))
     | None \<Rightarrow> (case map_of (internalNextHops (dp p)) egress of
         Some a \<Rightarrow> (p, \<lparr>EgressID = 0, OutConn = internal (dp p), OutAddr = Some a, OutPkt = rawPkt p\<rparr>, None)
       | None \<Rightarrow> paramProblem env
           (if \<not> ConsDir (infoField p) then SCMPCodeUnknownHopFieldIngress else SCMPCodeUnknownHopFieldEgress)
           (currentHopPointer p) cannotRoute p)))))"

definition process :: "env \<Rightarrow> processor \<Rightarrow> outcome" where
  "process env p =
     andThen (parsePath env p) (\<lambda>p.
     andThen (validatePktLen env p) (\<lambda>p.
     andThen (updateNonConsDirIngressSegID p) (\<lambda>p.
     andThen (verifyCurrentMAC env p) (\<lambda>p.
     andThen (handleIngressRouterAlert env p) (\<lambda>p.
     if IA_Equal (DstIA (scionLayer p)) (localIA (dp p)) \<and> unat (CurrHF (PathMeta (ppath p))) + 1 = NumHops (ppath p)
     then (case resolveInbound env p of (a, out) \<Rightarrow> andThen out (\<lambda>p.
       (p, \<lparr>EgressID = 0, OutConn = internal (dp p), OutAddr = a, OutPkt = rawPkt p\<rparr>, None)))
     else process_outbound env p)))))"

section \<open>Entry points by path type\<close>

definition path_offset :: "scion \<Rightarrow> nat" where
  "path_offset s = CmnHdrLen + AddrHdrLen s"

definition processSCION :: "env \<Rightarrow> processor \<Rightarrow> outcome" where
  "processSCION env p = (case SPath (scionLayer p) of
       Some (ScionRaw r) \<Rightarrow> process env (p\<lparr>ppath := r, pathOff := path_offset (scionLayer p)\<rparr>)
     | _ \<Rightarrow> proc_fail malformedPath p)"

text \<open>The EPIC checks, which follow \<open>process\<close> and see the path as it is then.\<close>

definition epic_verify :: "env \<Rightarrow> epic_path \<Rightarrow> info_field \<Rightarrow> processor \<Rightarrow> process_result \<Rightarrow> outcome" where
  "epic_verify env epicPath info p result = (let
     isPenultimate = IsPenultimateHop (ppath p);
     isLast = IsLastHop (ppath p)
   in if isPenultimate \<or> isLast then
     (case Epic_VerifyTimestamp (SecsToTime (Timestamp info)) (PktTimestamp (PktID epicPath)) (Now env) of
        Inl e \<Rightarrow> proc_fail e p
      | Inr _ \<Rightarrow> let HVF = (if isLast then LHVF epicPath else PHVF epicPath) in
        (case VerifyHVF (Aes env) (cachedMac p) (PktID epicPath) (scionLayer p) (Timestamp info) HVF (epicInput env) of
           Inl e \<Rightarrow> proc_fail e p
         | Inr _ \<Rightarrow> (p, result, None)))
   else (p, result, None))"

definition processEPIC :: "env \<Rightarrow> processor \<Rightarrow> outcome" where
  "processEPIC env p = (case SPath (scionLayer p) of
       Some (Epic epicPath) \<Rightarrow> (case ScionPath epicPath of
         None \<Rightarrow> proc_fail malformedPath p
       | Some r \<Rightarrow> let p = p\<lparr>ppath := r, pathOff := path_offset (scionLayer p) + MetadataLen\<rparr> in
         (case GetCurrentInfoField (ppath p) of
            Inl e \<Rightarrow> proc_fail e p
          | Inr info \<Rightarrow> (case process env p of
              (p, r, Some e) \<Rightarrow> (p, result_zero, Some e)
            | (p, result, None) \<Rightarrow> epic_verify env epicPath info p result)))
     | _ \<Rightarrow> proc_fail malformedPath p)"

text \<open>Serialise the layer without changing its lengths and overwrite the front of the packet.\<close>

definition updateSCIONLayer :: "env \<Rightarrow> bytes \<Rightarrow> scion \<Rightarrow> bytes res" where
  "updateSCIONLayer env pkt s =
     rbind (SCION_SerializeTo (PrependBytes env) False s []) (\<lambda>(_, rawContents).
     rbind (gslice 0 (length rawContents) pkt) (\<lambda>_. Inr (put_at 0 rawContents pkt)))"

definition processOHP_out :: "env \<Rightarrow> onehop_path \<Rightarrow> processor \<Rightarrow> outcome" where
  "processOHP_out env ohp p = (let s = scionLayer p; d = dp p in
     if \<not> IA_Equal (localIA d) (SrcIA s) then proc_fail (WrapErr ''bad source IA'' cannotRoute) p
     else (case map_of (neighborIAs d) (ConsEgress (FirstHop ohp)) of
         None \<Rightarrow> proc_fail cannotRoute p
       | Some neighborIA \<Rightarrow>
           if \<not> IA_Equal neighborIA (DstIA s) then proc_fail (WrapErr ''bad destination IA'' cannotRoute) p
           else if Mac (FirstHop ohp) \<noteq> MAC (pmac p) (Info ohp) (FirstHop ohp) (scionInput env) then proc_fail (Err ''MAC'') p
           else let
             ohp = ohp\<lparr>Info := UpdateSegID (Info ohp) (Mac (FirstHop ohp))\<rparr>;
             p = p\<lparr>scionLayer := s\<lparr>SPath := Some (OneHop ohp)\<rparr>\<rparr>
           in (case updateSCIONLayer env (rawPkt p) (scionLayer p) of
               Inl e \<Rightarrow> proc_fail e p
             | Inr pkt \<Rightarrow> let p = p\<lparr>rawPkt := pkt\<rparr> in
                 (case map_of (external d) (ConsEgress (FirstHop ohp)) of
                    Some c \<Rightarrow> (p, \<lparr>EgressID = ConsEgress (FirstHop ohp), OutConn = Some c, OutAddr = None, OutPkt = rawPkt p\<rparr>, None)
                  | None \<Rightarrow> proc_fail cannotRoute p))))"

definition processOHP_in :: "env \<Rightarrow> onehop_path \<Rightarrow> processor \<Rightarrow> outcome" where
  "processOHP_in env ohp p = (let s = scionLayer p; d = dp p in
     if \<not> IA_Equal (localIA d) (DstIA s) then proc_fail (WrapErr ''bad destination IA'' cannotRoute) p
     else let neighborIA = (case map_of (neighborIAs d) (ingressID p) of None \<Rightarrow> 0 | Some ia \<Rightarrow> ia) in
       if \<not> IA_Equal neighborIA (SrcIA s) then proc_fail (WrapErr ''bad source IA'' cannotRoute) p
       else let
         second = hop_zero\<lparr>ConsIngress := ingressID p, ExpTime := ExpTime (FirstHop ohp)\<rparr>;
         second = second\<lparr>Mac := MAC (pmac p) (Info ohp) second (scionInput env)\<rparr>;
         ohp = ohp\<lparr>SecondHop := second\<rparr>;
         p = p\<lparr>scionLayer := s\<lparr>SPath := Some (OneHop ohp)\<rparr>\<rparr>
       in (case updateSCIONLayer env (rawPkt p) (scionLayer p) of
           Inl e \<Rightarrow> proc_fail e p
         | Inr pkt \<Rightarrow> let p = p\<lparr>rawPkt := pkt\<rparr> in
             (case resolveLocalDst (Intn env) d (scionLayer p) of
                Inl e \<Rightarrow> proc_fail e p
              | Inr a \<Rightarrow> (p, \<lparr>EgressID = 0, OutConn = internal d, OutAddr = Some a, OutPkt = rawPkt p\<rparr>, None))))"

definition processOHP :: "env \<Rightarrow> processor \<Rightarrow> outcome" where
  "processOHP env p = (case SPath (scionLayer p) of
       Some (OneHop ohp) \<Rightarrow>
         if \<not> ConsDir (Info ohp)
         then proc_fail (WrapErr ''OneHop path in reverse construction direction is not allowed'' malformedPath) p
         else if ingressID p = 0 then processOHP_out env ohp p
         else processOHP_in env ohp p
     | _ \<Rightarrow> proc_fail malformedPath p)"

section \<open>BFD packets\<close>

text \<open>\<open>decodeBFD\<close> is gopacket's decoder; the result is the session the message is queued to. \<open>order\<close> is the
  order in which the loop over the next hops visits them.\<close>

definition processInterBFD :: "(bytes \<Rightarrow> 'b res) \<Rightarrow> dataplane \<Rightarrow> u16 \<Rightarrow> bytes \<Rightarrow> (bfd_session \<times> 'b) res" where
  "processInterBFD decodeBFD d ingress data =
     (if bfdSessions d = [] then Inl noBFDSessionConfigured
      else rbind (decodeBFD data) (\<lambda>bfd.
        case map_of (bfdSessions d) ingress of Some v \<Rightarrow> Inr (v, bfd) | None \<Rightarrow> Inl noBFDSessionFound))"

fun intra_ifid :: "(u16 \<times> udp_addr) list \<Rightarrow> udp_addr \<Rightarrow> u16" where
  "intra_ifid [] src = 0"
| "intra_ifid ((k, v) # hops) src = (if IP v = IP src \<and> Port v = Port src then k else intra_ifid hops src)"

definition processIntraBFD ::
  "(bytes \<Rightarrow> 'b res) \<Rightarrow> ((u16 \<times> udp_addr) list \<Rightarrow> (u16 \<times> udp_addr) list) \<Rightarrow> dataplane \<Rightarrow> udp_addr \<Rightarrow> bytes \<Rightarrow> (bfd_session \<times> 'b) res" where
  "processIntraBFD decodeBFD order d src data =
     (if bfdSessions d = [] then Inl noBFDSessionConfigured
      else rbind (decodeBFD data) (\<lambda>bfd.
        case map_of (bfdSessions d) (intra_ifid (order (internalNextHops d)) src) of
          Some v \<Rightarrow> Inr (v, bfd) | None \<Rightarrow> Inl noBFDSessionFound))"

section \<open>Layers\<close>

definition decodeLayers :: "path_registry \<Rightarrow> bytes \<Rightarrow> (scion \<times> last_layer) res" where
  "decodeLayers reg data =
     rbind (SCION_DecodeFromBytes reg data) (\<lambda>s.
     rbind (if LastNextLayerType (LastSCION s) = LayerTypeHopByHopExtn
            then rbind (HopByHopExtnSkipper_DecodeFromBytes (LastPayload (LastSCION s))) (\<lambda>e. Inr (LastHBH e))
            else Inr (LastSCION s)) (\<lambda>last'.
     rbind (if LastNextLayerType last' = LayerTypeEndToEndExtn
            then rbind (EndToEndExtnSkipper_DecodeFromBytes (LastPayload last')) (\<lambda>e. Inr (LastE2E e))
            else Inr last') (\<lambda>last'.
     Inr (s, last'))))"

definition newPacketProcessor :: "dataplane \<Rightarrow> u16 \<Rightarrow> processor res" where
  "newPacketProcessor d ingress = (case macFactory d of
       None \<Rightarrow> Inl (Panic ''nil pointer dereference'')
     | Some mac \<Rightarrow> Inr \<lparr>dp = d, ingressID = ingress, rawPkt = [], pmac = mac, scionLayer = scion_zero,
         lastLayer = LastSCION scion_zero, ppath = raw_zero, pathOff = 0, hopField = hop_zero, infoField = info_zero,
         segmentChange = False, cachedMac = []\<rparr>)"

text \<open>The SCION layer is not reset; decoding overwrites it.\<close>

definition proc_reset :: "processor \<Rightarrow> processor" where
  "proc_reset p = p\<lparr>rawPkt := [], ppath := raw_zero, hopField := hop_zero, infoField := info_zero,
     segmentChange := False, cachedMac := []\<rparr>"

end
