(* ===== verification/Router_Colibri.thy ===== *)
theory Router_Colibri
  imports Router
begin

unbundle bit_operations_syntax

text \<open>
  COLIBRI packets at the border router (go/pkg/router/colibri\_processing.go), the dispatch over all path types
  (\<open>processPkt\<close>) and the body of the read loop of \<open>Run\<close> (go/pkg/router/dataplane.go).
\<close>

section \<open>COLIBRI packets (colibri\_processing.go)\<close>

text \<open>\<open>colibriPathMinimal.Raw\<close> is the part of \<open>rawPkt\<close> behind the address header.\<close>

record col_processor =
  cdp :: dataplane
  cIngressID :: u16
  cRawPkt :: bytes
  cScionLayer :: scion
  cMin :: colibri_min

type_synonym col_outcome = "col_processor \<times> process_result \<times> proc_error option"

definition store_min :: "col_processor \<Rightarrow> colibri_min \<Rightarrow> col_processor" where
  "store_min c m = c\<lparr>cMin := m, cRawPkt := put_at (path_offset (cScionLayer c)) (MinRaw m) (cRawPkt c),
     cScionLayer := (cScionLayer c)\<lparr>SPath := Some (ColibriMinimal m)\<rparr>\<rparr>"

definition col_fail :: "go_error \<Rightarrow> col_processor \<Rightarrow> col_outcome" where
  "col_fail e c = (c, result_zero, Some (PErr e))"

definition col_ok :: "col_processor \<Rightarrow> col_outcome" where
  "col_ok c = (c, result_zero, None)"

definition colThen :: "col_outcome \<Rightarrow> (col_processor \<Rightarrow> col_outcome) \<Rightarrow> col_outcome" where
  "colThen m g = (case m of (c, r, Some e) \<Rightarrow> (c, r, Some e) | (c, r, None) \<Rightarrow> g c)"

definition col_getPath :: "col_processor \<Rightarrow> col_outcome" where
  "col_getPath c = (case SPath (cScionLayer c) of
       Some (ColibriMinimal m) \<Rightarrow> col_ok (c\<lparr>cMin := m\<rparr>)
     | _ \<Rightarrow> col_fail (Err ''getting minimal colibri path information failed'') c)"

text \<open>The dump of the path that \<open>basicValidation\<close> starts with: its errors are panics, and serialising writes the
  info field back into the packet.\<close>

definition col_dump :: "col_processor \<Rightarrow> col_outcome" where
  "col_dump c = (case ColibriMin_SerializeTo (cMin c) (replicate (ColibriMin_Len (cMin c)) 0) of
       Inl e \<Rightarrow> col_fail (Panic ''SerializeTo'') c
     | Inr (m, buff) \<Rightarrow> (case ColibriPath_DecodeFromBytes colibri_path_zero buff of
         Inl e \<Rightarrow> col_fail (Panic ''DecodeFromBytes'') c
       | Inr _ \<Rightarrow> col_ok (store_min c m)))"

definition basicValidation :: "env \<Rightarrow> col_processor \<Rightarrow> col_outcome" where
  "basicValidation env c = colThen (col_dump c) (\<lambda>c.
     case (MinInfoField (cMin c), CurrHopField (cMin c)) of
       (Some info, Some hop) \<Rightarrow>
         if ColS info \<and> \<not> ColC info then col_fail (Err ''invalid flags'') c
         else if cIngressID c \<noteq> 0 \<and> cIngressID c \<noteq> IngressId hop then col_fail (Err ''invalid ingress identifier'') c
         else if \<not> ColR info \<and> \<not> ColC info \<and> PayloadLen (cScionLayer c) \<noteq> OrigPayLen info \<or>
                 unat (PayloadLen (cScionLayer c)) \<noteq> length (Payload (cScionLayer c))
         then col_fail (Err ''packet length validation failed'') c
         else if HFCount info < 2 then col_fail (Err ''colibri path needs to have at least 2 hop fields'') c
         else if ColCurrHF info \<ge> HFCount info then col_fail (Err ''invalid current hop field index'') c
         else if \<not> VerifyExpirationTick (Now env) (ExpTick info) then col_fail (Err ''packet expired'') c
         else if \<not> ColC info \<and> \<not> Colibri_VerifyTimestamp (ExpTick info) (MinTimestamp (cMin c)) (Now env)
         then col_fail (Err ''verification of packet timestamp failed'') c
         else (case ColibriMin_IsLastHop (cMin c) of
             Inl e \<Rightarrow> col_fail e c
           | Inr isLastHop \<Rightarrow> let isLocal = (EgressId hop = 0) in
               if isLocal \<noteq> isLastHop \<or> isLocal \<noteq> IA_Equal (DstIA (cScionLayer c)) (localIA (cdp c))
               then col_fail (Err ''inconsistent packet'') c
               else col_ok c)
     | _ \<Rightarrow> col_fail (Panic ''nil pointer dereference'') c)"

definition cryptographicValidation :: "col_processor \<Rightarrow> col_outcome" where
  "cryptographicValidation c = (case (colibriKey (cdp c), MinInfoField (cMin c), CurrHopField (cMin c)) of
       (Some privateKey, Some info, Some hop) \<Rightarrow>
         (case VerifyMAC privateKey (MinTimestamp (cMin c)) info hop (cScionLayer c) of
            Inl e \<Rightarrow> col_fail e c
          | Inr _ \<Rightarrow> col_ok c)
     | _ \<Rightarrow> col_fail (Panic ''nil pointer dereference'') c)"

definition canForwardLocally :: "u16 \<Rightarrow> col_processor \<Rightarrow> nat option" where
  "canForwardLocally egressId c = map_of (external (cdp c)) egressId"

definition forwardToLocalEgress :: "u16 \<Rightarrow> nat \<Rightarrow> col_processor \<Rightarrow> col_outcome" where
  "forwardToLocalEgress egressId conn c = (case UpdateCurrHF (cMin c) of
       Inl e \<Rightarrow> col_fail e c
     | Inr m \<Rightarrow> (case SerializeToInternal m of
         Inl e \<Rightarrow> col_fail e c
       | Inr m \<Rightarrow> let c = store_min c m in
           (c, \<lparr>EgressID = egressId, OutConn = Some conn, OutAddr = None, OutPkt = cRawPkt c\<rparr>, None)))"

definition forwardToRemoteEgress :: "u16 \<Rightarrow> col_processor \<Rightarrow> col_outcome" where
  "forwardToRemoteEgress egressId c = (case map_of (internalNextHops (cdp c)) egressId of
       Some a \<Rightarrow> (c, \<lparr>EgressID = 0, OutConn = internal (cdp c), OutAddr = Some a, OutPkt = cRawPkt c\<rparr>, None)
     | None \<Rightarrow> col_fail (Err ''no remote border router with this egress id'') c)"

definition forwardToLocalAS :: "env \<Rightarrow> col_processor \<Rightarrow> col_outcome" where
  "forwardToLocalAS env c = (case resolveLocalDst (Intn env) (cdp c) (cScionLayer c) of
       Inl e \<Rightarrow> col_fail e c
     | Inr a \<Rightarrow> (c, \<lparr>EgressID = 0, OutConn = internal (cdp c), OutAddr = Some a, OutPkt = cRawPkt c\<rparr>, None))"

definition forwardToColibriSvc :: "env \<Rightarrow> col_processor \<Rightarrow> col_outcome" where
  "forwardToColibriSvc env c = (case svc (cdp c) of
       None \<Rightarrow> col_fail (Panic ''nil pointer dereference'') c
     | Some sv \<Rightarrow> (case services_Any (Intn env) sv (SVC_Base SvcCOL) of
         None \<Rightarrow> col_fail (Err ''no colibri service registered at border router'') c
       | Some a \<Rightarrow>
           (case SerializeToInternal ((cMin c)\<lparr>MinTimestamp := PutUint64 (localIA (cdp c))\<rparr>) of
              Inl e \<Rightarrow> col_fail e c
            | Inr m \<Rightarrow> let c = store_min c m in
                (c, \<lparr>EgressID = 0, OutConn = internal (cdp c), OutAddr = Some a, OutPkt = cRawPkt c\<rparr>, None))))"

definition col_forward :: "env \<Rightarrow> col_processor \<Rightarrow> col_outcome" where
  "col_forward env c = (case (MinInfoField (cMin c), CurrHopField (cMin c)) of
       (Some info, Some hop) \<Rightarrow> (let egressId = EgressId hop in
         if cIngressID c = 0 then
           (case canForwardLocally egressId c of
              Some conn \<Rightarrow> forwardToLocalEgress egressId conn c
            | None \<Rightarrow> col_fail (Err ''received packet from local AS but the packet should go to different border router'') c)
         else if ColC info then forwardToColibriSvc env c
         else if egressId = 0 then forwardToLocalAS env c
         else (case canForwardLocally egressId c of
              Some conn \<Rightarrow> forwardToLocalEgress egressId conn c
            | None \<Rightarrow> forwardToRemoteEgress egressId c))
     | _ \<Rightarrow> col_fail (Panic ''nil pointer dereference'') c)"

definition col_process :: "env \<Rightarrow> col_processor \<Rightarrow> col_outcome" where
  "col_process env c =
     colThen (col_getPath c) (\<lambda>c.
     colThen (basicValidation env c) (\<lambda>c.
     colThen (cryptographicValidation c) (\<lambda>c.
     col_forward env c)))"

definition processCOLIBRI :: "env \<Rightarrow> processor \<Rightarrow> process_result \<times> proc_error option" where
  "processCOLIBRI env p = (case col_process env \<lparr>cdp = dp p, cIngressID = ingressID p, cRawPkt = rawPkt p,
       cScionLayer = scionLayer p, cMin = colibri_min_zero\<rparr> of (c, r, e) \<Rightarrow> (r, e))"

section \<open>All packets\<close>

datatype 'b pkt_effect = PktResult process_result "proc_error option" | PktBFD bfd_session 'b

fun bfd_effect :: "(bfd_session \<times> 'b) res \<Rightarrow> 'b pkt_effect" where
  "bfd_effect (Inl e) = PktResult result_zero (Some (PErr e))"
| "bfd_effect (Inr (v, m)) = PktBFD v m"

definition effect_of :: "outcome \<Rightarrow> 'b pkt_effect" where
  "effect_of out = (case out of (p, r, e) \<Rightarrow> PktResult r e)"

definition processPkt ::
  "path_registry \<Rightarrow> (bytes \<Rightarrow> 'b res) \<Rightarrow> ((u16 \<times> udp_addr) list \<Rightarrow> (u16 \<times> udp_addr) list) \<Rightarrow> env \<Rightarrow>
   processor \<Rightarrow> bytes \<Rightarrow> udp_addr \<Rightarrow> 'b pkt_effect" where
  "processPkt reg decodeBFD order env p pkt src = (let p = (proc_reset p)\<lparr>rawPkt := pkt\<rparr> in
     case decodeLayers reg pkt of
       Inl e \<Rightarrow> PktResult result_zero (Some (PErr e))
     | Inr (s, last') \<Rightarrow> (let
         p = p\<lparr>scionLayer := s, lastLayer := last'\<rparr>;
         pld = LastPayload (lastLayer p);
         bfd = (LastNextLayerType (lastLayer p) = LayerTypeBFD)
       in if PathType s = Empty_PathType then
            (if bfd then bfd_effect (processIntraBFD decodeBFD order (dp p) src pld)
             else PktResult result_zero (Some (PErr unsupportedPathTypeNextHeader)))
          else if PathType s = OneHop_PathType then
            (if bfd then
               (case SPath s of
                  Some (OneHop ohp) \<Rightarrow> bfd_effect (processInterBFD decodeBFD (dp p) (ingressID p) pld)
                | _ \<Rightarrow> PktResult result_zero (Some (PErr malformedPath)))
             else effect_of (processOHP env p))
          else if PathType s = Scion_PathType then effect_of (processSCION env p)
          else if PathType s = Epic_PathType then effect_of (processEPIC env p)
          else if PathType s = Colibri_PathType then (case processCOLIBRI env p of (r, e) \<Rightarrow> PktResult r e)
          else PktResult result_zero (Some (PErr unsupportedPathType))))"

text \<open>The body of the read loop of \<open>Run\<close>: what is written for a packet read from \<open>rd\<close>, if anything.\<close>

definition read_write :: "nat \<Rightarrow> udp_addr \<Rightarrow> 'b pkt_effect \<Rightarrow> (nat \<times> udp_addr option \<times> bytes) option" where
  "read_write rd src eff = (case eff of
       PktBFD _ _ \<Rightarrow> None
     | PktResult result err \<Rightarrow>
         (case err of
            None \<Rightarrow> (case OutConn result of None \<Rightarrow> None | Some c \<Rightarrow> Some (c, OutAddr result, OutPkt result))
          | Some (ScmpError _ _) \<Rightarrow> Some (rd, Some src, OutPkt result)
          | Some (PErr _) \<Rightarrow> None))"

end
