(* ===== verification/Router_Forwarding.thy ===== *)
theory Router_Forwarding
  imports Router
begin

unbundle bit_operations_syntax

text \<open>
  Forwarding of SCION packets at the border router: exactly which packets \<open>process\<close> forwards, to where, and with which
  changes to the path. The conditions and the path updates are stated over the fields of the path as received; the
  theorems relate them to the sequence of checks and in-place updates of go/pkg/router/dataplane.go.
\<close>

section \<open>Successful steps\<close>

lemma andThen_None: "andThen m g = (p', r, None) \<longleftrightarrow> (\<exists>q r'. m = (q, r', None) \<and> g q = (p', r, None))"
  by (cases m; cases "snd (snd m)") (auto simp: andThen_def)

lemma proc_ok_None [simp]: "proc_ok p = (p', r, None) \<longleftrightarrow> p' = p \<and> r = result_zero"
  by (auto simp: proc_ok_def)

lemma proc_fail_None [simp]: "proc_fail e p \<noteq> (p', r, None)"
  by (simp add: proc_fail_def)

lemma packSCMP_None [simp]: "packSCMP env t m c p \<noteq> (p', r, None)"
  by (auto simp: packSCMP_def Let_def proc_fail_def split: sum.split prod.split)

lemma paramProblem_None [simp]: "paramProblem env t m c p \<noteq> (p', r, None)"
  by (simp add: paramProblem_def)

text \<open>The conditions the checks establish.\<close>

definition hop_expired :: "env \<Rightarrow> info_field \<Rightarrow> hop_field \<Rightarrow> bool" where
  "hop_expired env info hop \<longleftrightarrow> SecsToTime (Timestamp info) + ExpTimeToDuration (ExpTime hop) < Now env"

definition hop_ingress :: "info_field \<Rightarrow> hop_field \<Rightarrow> u16" where
  "hop_ingress info hop = (if ConsDir info then ConsIngress hop else ConsEgress hop)"

definition hop_egress :: "info_field \<Rightarrow> hop_field \<Rightarrow> u16" where
  "hop_egress info hop = (if ConsDir info then ConsEgress hop else ConsIngress hop)"

definition mac_ok :: "(bytes \<Rightarrow> bytes) \<Rightarrow> info_field \<Rightarrow> hop_field \<Rightarrow> bool" where
  "mac_ok h info hop \<longleftrightarrow> take MacLen (Mac hop) = take MacLen (h (mac_block info hop))"

definition xover_ok :: "link_type \<Rightarrow> link_type \<Rightarrow> bool" where
  "xover_ok i e \<longleftrightarrow> (i, e) \<in> {(Core, Child), (Child, Core), (Child, Child)}"

lemma validateHopExpiry_None:
  "validateHopExpiry env p = (p', r, None) \<longleftrightarrow> p' = p \<and> r = result_zero \<and> \<not> hop_expired env (infoField p) (hopField p)"
  by (auto simp: validateHopExpiry_def Let_def hop_expired_def)

lemma validateIngressID_None:
  "validateIngressID env p = (p', r, None) \<longleftrightarrow> p' = p \<and> r = result_zero \<and>
     (ingressID p = 0 \<or> ingressID p = hop_ingress (infoField p) (hopField p))"
  by (auto simp: validateIngressID_def Let_def hop_ingress_def split: if_splits)

lemma parsePath_None:
  "parsePath env p = (p', r, None) \<longleftrightarrow> r = result_zero \<and> (\<exists>hf info.
     GetCurrentHopField (ppath p) = Inr hf \<and> GetCurrentInfoField (ppath p) = Inr info \<and>
     p' = p\<lparr>hopField := hf, infoField := info\<rparr> \<and> \<not> hop_expired env info hf \<and>
     (ingressID p = 0 \<or> ingressID p = hop_ingress info hf))"
  by (auto simp: parsePath_def andThen_None Let_def validateHopExpiry_None validateIngressID_None split: sum.split)

lemma validatePktLen_None:
  "validatePktLen env p = (p', r, None) \<longleftrightarrow> p' = p \<and> r = result_zero \<and>
     unat (PayloadLen (scionLayer p)) = length (Payload (scionLayer p))"
  by (auto simp: validatePktLen_def)

lemma verifyCurrentMAC_None:
  assumes "length (scionInput env) = MACBufferSize"
  shows "verifyCurrentMAC env p = (p', r, None) \<longleftrightarrow> r = result_zero \<and>
     mac_ok (pmac p) (infoField p) (hopField p) \<and> p' = p\<lparr>cachedMac := take 16 (pmac p (mac_block (infoField p) (hopField p)))\<rparr>"
  using assms FullMAC_mac_block [of "scionInput env" "pmac p" "infoField p" "hopField p"]
  by (auto simp: verifyCurrentMAC_def Let_def mac_ok_def slice_def MacLen_def MACBufferSize_def min_def)

lemma validateEgressID_None:
  "validateEgressID env p = (p', r, None) \<longleftrightarrow> p' = p \<and> r = result_zero \<and>
     (map_of (internalNextHops (dp p)) (egressInterface p) \<noteq> None \<or> map_of (external (dp p)) (egressInterface p) \<noteq> None) \<and>
     (segmentChange p \<longrightarrow> xover_ok (linkType (dp p) (ingressID p)) (linkType (dp p) (egressInterface p)))"
  by (auto simp: validateEgressID_def Let_def xover_ok_def)

lemma validateEgressUp_None:
  "validateEgressUp env p = (p', r, None) \<longleftrightarrow> p' = p \<and> r = result_zero \<and>
     (\<forall>v. map_of (bfdSessions (dp p)) (egressInterface p) = Some v \<longrightarrow> IsUp env v)"
  by (auto simp: validateEgressUp_def Let_def split: option.split)

section \<open>Path updates\<close>

definition with_info :: "raw_path \<Rightarrow> nat \<Rightarrow> info_field \<Rightarrow> raw_path" where
  "with_info r i info = r\<lparr>Raw := put_at (MetaLen + i * InfoLen) (info_bytes info) (Raw r)\<rparr>"

definition with_hop :: "raw_path \<Rightarrow> nat \<Rightarrow> hop_field \<Rightarrow> raw_path" where
  "with_hop r i hop = r\<lparr>Raw := put_at (hop_offset r i) (hop_bytes hop) (Raw r)\<rparr>"

definition advanced :: "raw_path \<Rightarrow> raw_path" where
  "advanced r = r\<lparr>PathMeta := inc_meta r, Raw := put_at 0 (PutUint32 (meta_line (inc_meta r))) (Raw r)\<rparr>"

abbreviation cur_hf :: "raw_path \<Rightarrow> nat" where "cur_hf r \<equiv> unat (CurrHF (PathMeta r))"
abbreviation cur_inf :: "raw_path \<Rightarrow> nat" where "cur_inf r \<equiv> unat (CurrINF (PathMeta r))"

lemma with_info_ok:
  assumes "raw_wf r" "i < NumINF r"
  shows "SetInfoField r info i = Inr (with_info r i info)" "raw_wf (with_info r i info)"
    "GetInfoField (with_info r i info) j = (if j = i then Inr info else GetInfoField r j)"
    "GetHopField (with_info r i info) j = GetHopField r j"
  using SetInfoField_correct [OF assms, of info] SetInfoField_ok [OF assms, of info]
  by (auto simp: with_info_def)

lemma with_hop_ok:
  assumes "raw_wf r" "i < NumHops r" "hop_wf hop"
  shows "SetHopField r hop i = Inr (with_hop r i hop)" "raw_wf (with_hop r i hop)"
    "GetHopField (with_hop r i hop) j = (if j = i then Inr hop else GetHopField r j)"
    "GetInfoField (with_hop r i hop) j = GetInfoField r j"
  using SetHopField_correct [OF assms] SetHopField_ok [OF assms]
  by (auto simp: with_hop_def)

lemma with_same [simp]:
  "PathMeta (with_info r i info) = PathMeta r" "PathMeta (with_hop r k hop) = PathMeta r"
  "NumINF (with_info r i info) = NumINF r" "NumINF (with_hop r k hop) = NumINF r"
  "NumHops (with_info r i info) = NumHops r" "NumHops (with_hop r k hop) = NumHops r"
  "NumINF (advanced r) = NumINF r" "NumHops (advanced r) = NumHops r" "PathMeta (advanced r) = inc_meta r"
  by (simp_all add: with_info_def with_hop_def advanced_def)

lemma with_same_base [simp]:
  "IsXover (with_info r i info) = IsXover r" "IsXover (with_hop r k hop) = IsXover r"
  "inc_meta (with_info r i info) = inc_meta r" "inc_meta (with_hop r k hop) = inc_meta r"
  "cursor_ok (with_info r i info) = cursor_ok r" "cursor_ok (with_hop r k hop) = cursor_ok r"
  by (simp_all add: with_info_def with_hop_def IsXover_def inc_meta_def infIndexForHF_def cursor_ok_def split: option.split)

lemma advanced_ok:
  assumes "raw_wf r" "cursor_ok r" "Suc (cur_hf r) < NumHops r"
  shows "Raw_IncPath r = Inr (advanced r)" "raw_wf (advanced r)" "cursor_sync (advanced r)"
    "cur_hf (advanced r) = Suc (cur_hf r)" "length (Raw (advanced r)) = length (Raw r)"
proof -
  have sh: "base_shape r" using assms(1) by (simp add: raw_wf_def)
  show "Raw_IncPath r = Inr (advanced r)" using Raw_IncPath_ok [OF assms] by (simp add: advanced_def)
  show "raw_wf (advanced r)" "length (Raw (advanced r)) = length (Raw r)"
    using assms(1) raw_wf_MetaLen [OF assms(1)]
    by (simp_all add: raw_wf_def advanced_def base_shape_def inc_meta_def path_Len_def MetaLen_def)
  show "cur_hf (advanced r) = Suc (cur_hf r)" using unat_Suc_hf [OF sh assms(2)] by (simp add: inc_meta_def)
  have "cursor_sync (r\<lparr>PathMeta := inc_meta r\<rparr>)" by (rule Base_IncPath_sync [OF sh assms(2,3)])
  then have "cursor_sync (r\<lparr>PathMeta := inc_meta r, Raw := Raw (advanced r)\<rparr>)" by simp
  then show "cursor_sync (advanced r)" by (simp add: advanced_def)
qed

lemma Raw_IncPath_Inr:
  assumes "raw_wf r" "cursor_ok r"
  shows "Raw_IncPath r = Inr r' \<longleftrightarrow> r' = advanced r \<and> Suc (cur_hf r) < NumHops r"
proof (cases "Suc (cur_hf r) < NumHops r")
  case False
  then show ?thesis using assms(2) by (simp add: Raw_IncPath_def Base_IncPath_def cursor_ok_def split: prod.split)
qed (use advanced_ok [OF assms] in auto)

lemma advanced_get:
  assumes "raw_wf r" "cursor_ok r" "Suc (cur_hf r) < NumHops r"
  shows "GetInfoField (advanced r) j = GetInfoField r j" "GetHopField (advanced r) j = GetHopField r j"
proof -
  let ?b = "put_at 0 (PutUint32 (meta_line (inc_meta r))) (Raw r)"
  note off = raw_offsets [OF assms(1)] and wf = advanced_ok(2) [OF assms]
  have len: "4 \<le> length (Raw r)" using raw_wf_MetaLen [OF assms(1)] by (simp add: MetaLen_def)
  show "GetInfoField (advanced r) j = GetInfoField r j"
  proof (cases "j < NumINF r")
    case True
    have "slice (MetaLen + j * InfoLen) (MetaLen + j * InfoLen + InfoLen) ?b =
        slice (MetaLen + j * InfoLen) (MetaLen + j * InfoLen + InfoLen) (Raw r)"
      using len off(1) [OF True] off(4) by (intro slice_put_at_disjoint) (auto simp: MetaLen_def)
    then show ?thesis
      using True GetInfoField_ok(1) [OF wf, of j] GetInfoField_ok(1) [OF assms(1), of j] by (simp add: advanced_def)
  qed (simp add: GetInfoField_def)
  show "GetHopField (advanced r) j = GetHopField r j"
  proof (cases "j < NumHops r")
    case True
    have "slice (hop_offset r j) (hop_offset r j + HopLen) ?b = slice (hop_offset r j) (hop_offset r j + HopLen) (Raw r)"
      using len off(2) [OF True] by (intro slice_put_at_disjoint) (auto simp: MetaLen_def hop_offset_def)
    moreover have "hop_offset (advanced r) j = hop_offset r j" by (simp add: hop_offset_def)
    ultimately show ?thesis
      using True GetHopField_ok(1) [OF wf, of j] GetHopField_ok(1) [OF assms(1), of j] by (simp add: advanced_def)
  qed (simp add: GetHopField_def)
qed

section \<open>Processor states during forwarding\<close>

text \<open>The processor holds the path three times: as a struct, inside the packet and inside the SCION layer.\<close>

definition path_synced :: "processor \<Rightarrow> bool" where
  "path_synced p \<longleftrightarrow> raw_wf (ppath p) \<and> pathOff p + path_Len (ppath p) \<le> length (rawPkt p) \<and>
     slice (pathOff p) (pathOff p + path_Len (ppath p)) (rawPkt p) = Raw (ppath p) \<and>
     alias_path (SPath (scionLayer p)) (ppath p) = SPath (scionLayer p)"

text \<open>The processor for packet \<open>p\<close> after the path became \<open>r\<close>.\<close>

definition at_path :: "processor \<Rightarrow> raw_path \<Rightarrow> info_field \<Rightarrow> hop_field \<Rightarrow> bool \<Rightarrow> bytes \<Rightarrow> processor" where
  "at_path p r info hop sc mac =
     (store_path p r)\<lparr>infoField := info, hopField := hop, segmentChange := sc, cachedMac := mac\<rparr>"

lemma alias_path_twice [simp]: "alias_path (alias_path sp r) r' = alias_path sp r'"
  by (auto simp: alias_path_def split: option.split path_val.split)

lemma at_path_sel [simp]:
  "dp (at_path p r i h s m) = dp p" "ingressID (at_path p r i h s m) = ingressID p"
  "rawPkt (at_path p r i h s m) = put_at (pathOff p) (Raw r) (rawPkt p)"
  "pmac (at_path p r i h s m) = pmac p" "lastLayer (at_path p r i h s m) = lastLayer p"
  "scionLayer (at_path p r i h s m) = (scionLayer p)\<lparr>SPath := alias_path (SPath (scionLayer p)) r\<rparr>"
  "ppath (at_path p r i h s m) = r" "pathOff (at_path p r i h s m) = pathOff p"
  "infoField (at_path p r i h s m) = i" "hopField (at_path p r i h s m) = h"
  "segmentChange (at_path p r i h s m) = s" "cachedMac (at_path p r i h s m) = m"
  by (simp_all add: at_path_def store_path_def)

lemma at_path_upd [simp]:
  "(at_path p r i h s m)\<lparr>infoField := i'\<rparr> = at_path p r i' h s m"
  "(at_path p r i h s m)\<lparr>hopField := h'\<rparr> = at_path p r i h' s m"
  "(at_path p r i h s m)\<lparr>segmentChange := s'\<rparr> = at_path p r i h s' m"
  "(at_path p r i h s m)\<lparr>cachedMac := m'\<rparr> = at_path p r i h s m'"
  by (simp_all add: at_path_def)

definition path_fits :: "processor \<Rightarrow> raw_path \<Rightarrow> bool" where
  "path_fits p r \<longleftrightarrow> raw_wf r \<and> path_Len r = path_Len (ppath p) \<and> pathOff p + path_Len (ppath p) \<le> length (rawPkt p)"

lemma path_fits_wf: "path_fits p r \<Longrightarrow> raw_wf r"
  by (simp add: path_fits_def)

lemma at_path_store [simp]:
  assumes "path_fits p r" "path_fits p r'"
  shows "store_path (at_path p r i h s m) r' = at_path p r' i h s m"
proof -
  have "length (Raw r) = length (Raw r')" "pathOff p + length (Raw r) \<le> length (rawPkt p)"
    using assms by (simp_all add: path_fits_def raw_wf_def)
  then show ?thesis by (simp add: at_path_def store_path_def put_at_put_at_same)
qed

lemma at_path_start:
  assumes "path_synced p"
  shows "at_path p (ppath p) (infoField p) (hopField p) (segmentChange p) (cachedMac p) = p"
    and "path_fits p (ppath p)"
  using assms put_at_slice_id [of "pathOff p" "path_Len (ppath p)" "rawPkt p"]
  by (simp_all add: path_synced_def at_path_def store_path_def path_fits_def)

lemma path_fits_with:
  assumes "path_fits p r"
  shows "i < NumINF r \<Longrightarrow> path_fits p (with_info r i info)"
    and "k < NumHops r \<Longrightarrow> hop_wf hop \<Longrightarrow> path_fits p (with_hop r k hop)"
    and "cursor_ok r \<Longrightarrow> Suc (cur_hf r) < NumHops r \<Longrightarrow> path_fits p (advanced r)"
  using assms with_info_ok(2) with_hop_ok(2) advanced_ok(2)
  by (auto simp: path_fits_def path_Len_def)

lemma set_info_None:
  assumes "path_fits p r" "cursor_ok r"
  shows "set_info (at_path p r i h s m) = (p', res, None) \<longleftrightarrow>
    p' = at_path p (with_info r (cur_inf r) i) i h s m \<and> res = result_zero"
  using assms with_info_ok(1) [OF path_fits_wf [OF assms(1)], of "cur_inf r"] path_fits_with(1) [OF assms(1), of "cur_inf r"]
  by (simp add: set_info_def cursor_ok_def)

lemma set_hop_None:
  assumes "path_fits p r" "cursor_ok r" "hop_wf h"
  shows "set_hop (at_path p r i h s m) = (p', res, None) \<longleftrightarrow>
    p' = at_path p (with_hop r (cur_hf r) h) i h s m \<and> res = result_zero"
  using assms with_hop_ok(1) [OF path_fits_wf [OF assms(1)], of "cur_hf r"] path_fits_with(2) [OF assms(1), of "cur_hf r"]
  by (simp add: set_hop_def cursor_ok_def)

lemma inc_path_None:
  assumes "path_fits p r" "cursor_ok r"
  shows "inc_path (at_path p r i h s m) = (p', res, None) \<longleftrightarrow>
    Suc (cur_hf r) < NumHops r \<and> p' = at_path p (advanced r) i h s m \<and> res = result_zero"
proof (cases "Raw_IncPath r")
  case (Inl e)
  then show ?thesis using Raw_IncPath_Inr [OF path_fits_wf [OF assms(1)] assms(2), of "advanced r"] by (simp add: inc_path_def)
next
  case (Inr r')
  then show ?thesis
    using Raw_IncPath_Inr [OF path_fits_wf [OF assms(1)] assms(2), of r'] path_fits_with(3) [OF assms] assms(1)
    by (auto simp: inc_path_def)
qed

section \<open>The steps of forwarding\<close>

text \<open>What the router does to the fields of the current hop.\<close>

definition seg_in :: "u16 \<Rightarrow> info_field \<Rightarrow> hop_field \<Rightarrow> info_field" where
  "seg_in ing info hop = (if \<not> ConsDir info \<and> ing \<noteq> 0 then UpdateSegID info (Mac hop) else info)"

definition seg_out :: "info_field \<Rightarrow> hop_field \<Rightarrow> info_field" where
  "seg_out info hop = (if ConsDir info then UpdateSegID info (Mac hop) else info)"

definition ingress_alert :: "info_field \<Rightarrow> hop_field \<Rightarrow> bool" where
  "ingress_alert info hop = (if ConsDir info then IngressRouterAlert hop else EgressRouterAlert hop)"

definition egress_alert :: "info_field \<Rightarrow> hop_field \<Rightarrow> bool" where
  "egress_alert info hop = (if ConsDir info then EgressRouterAlert hop else IngressRouterAlert hop)"

definition no_ingress_alert :: "info_field \<Rightarrow> hop_field \<Rightarrow> hop_field" where
  "no_ingress_alert info hop = (if ConsDir info then hop\<lparr>IngressRouterAlert := False\<rparr> else hop\<lparr>EgressRouterAlert := False\<rparr>)"

definition no_egress_alert :: "info_field \<Rightarrow> hop_field \<Rightarrow> hop_field" where
  "no_egress_alert info hop = (if ConsDir info then hop\<lparr>EgressRouterAlert := False\<rparr> else hop\<lparr>IngressRouterAlert := False\<rparr>)"

text \<open>A packet whose first upper layer is an SCMP traceroute request that decodes.\<close>

definition traceroute_request :: "last_layer \<Rightarrow> bool" where
  "traceroute_request l \<longleftrightarrow> LastNextLayerType l = LayerTypeSCMP \<and>
     (case SCMP_DecodeFromBytes scmp_zero (LastPayload l) of
        Inl _ \<Rightarrow> False
      | Inr s \<Rightarrow> TypeCode s = CreateSCMPTypeCode SCMPTypeTracerouteRequest 0 \<and>
          (\<exists>m b. Traceroute_DecodeFromBytes (ScmpPayload s) = Inr (m, b)))"

lemma Traceroute_Decode_shape:
  "Traceroute_DecodeFromBytes d = Inr (m, b) \<Longrightarrow> \<exists>i s ia f. m = SCMPTraceroute i s ia f"
  by (auto simp: Traceroute_DecodeFromBytes_def Let_def res_simps split: if_splits)

lemma handleSCMPTraceRouteRequest_None_iff:
  "handleSCMPTraceRouteRequest env i p = (p', r, None) \<longleftrightarrow> p' = p \<and> r = result_zero \<and> \<not> traceroute_request (lastLayer p)"
  by (auto simp: handleSCMPTraceRouteRequest_def traceroute_request_def dest: Traceroute_Decode_shape
        split: sum.split scmp_msg.split)

definition hop_in :: "u16 \<Rightarrow> info_field \<Rightarrow> hop_field \<Rightarrow> hop_field" where
  "hop_in ing info hop = (if ing \<noteq> 0 \<and> ingress_alert info hop then no_ingress_alert info hop else hop)"

definition ingress_path :: "u16 \<Rightarrow> info_field \<Rightarrow> hop_field \<Rightarrow> raw_path \<Rightarrow> raw_path" where
  "ingress_path ing info hop r = (let
     r = (if \<not> ConsDir info \<and> ing \<noteq> 0 then with_info r (cur_inf r) (seg_in ing info hop) else r)
   in if ing \<noteq> 0 \<and> ingress_alert info hop then with_hop r (cur_hf r) (no_ingress_alert info hop) else r)"

definition hop_out :: "dataplane \<Rightarrow> info_field \<Rightarrow> hop_field \<Rightarrow> hop_field" where
  "hop_out d info hop = (if egress_alert info hop \<and> map_of (external d) (hop_egress info hop) \<noteq> None
     then no_egress_alert info hop else hop)"

definition egress_path :: "dataplane \<Rightarrow> info_field \<Rightarrow> hop_field \<Rightarrow> raw_path \<Rightarrow> raw_path" where
  "egress_path d info hop r = (if egress_alert info hop \<and> map_of (external d) (hop_egress info hop) \<noteq> None
     then with_hop r (cur_hf r) (no_egress_alert info hop) else r)"

definition leave_path :: "info_field \<Rightarrow> hop_field \<Rightarrow> raw_path \<Rightarrow> raw_path" where
  "leave_path info hop r = advanced (if ConsDir info then with_info r (cur_inf r) (seg_out info hop) else r)"

lemma UpdateSegID_ConsDir [simp]: "ConsDir (UpdateSegID info mac) = ConsDir info"
  by (simp add: UpdateSegID_def)

lemma seg_in_ConsDir [simp]: "ConsDir (seg_in ing info hop) = ConsDir info"
  by (simp add: seg_in_def)

lemma alert_cleared [simp]:
  "Mac (no_ingress_alert i h) = Mac h" "Mac (no_egress_alert i h) = Mac h" "Mac (hop_in g i h) = Mac h" "Mac (hop_out d i h) = Mac h"
  "hop_egress j (no_ingress_alert i h) = hop_egress j h" "hop_egress j (no_egress_alert i h) = hop_egress j h"
  "hop_egress j (hop_in g i h) = hop_egress j h" "hop_egress j (hop_out d i h) = hop_egress j h"
  "hop_egress (seg_in g i k) h = hop_egress i h"
  "hop_wf (no_ingress_alert i h) = hop_wf h" "hop_wf (no_egress_alert i h) = hop_wf h" "hop_wf (hop_in g i h) = hop_wf h"
  "hop_wf (hop_out d i h) = hop_wf h"
  by (simp_all add: no_ingress_alert_def no_egress_alert_def hop_in_def hop_out_def hop_egress_def hop_wf_def)

lemma alert_flags [simp]:
  "ingressRouterAlertFlag p = ingress_alert (infoField p) (hopField p)"
  "egressRouterAlertFlag p = egress_alert (infoField p) (hopField p)"
  "egressInterface p = hop_egress (infoField p) (hopField p)"
  by (simp_all add: ingressRouterAlertFlag_def egressRouterAlertFlag_def ingress_alert_def egress_alert_def
      egressInterface_def hop_egress_def)

lemma clear_alert_at [simp]:
  "clear_ingress_alert (at_path p r i h s m) = at_path p r i (no_ingress_alert i h) s m"
  "clear_egress_alert (at_path p r i h s m) = at_path p r i (no_egress_alert i h) s m"
  by (simp_all add: clear_ingress_alert_def clear_egress_alert_def no_ingress_alert_def no_egress_alert_def)

lemma path_fits_phases:
  assumes "path_fits p r" "cursor_ok r" "hop_wf hop"
  shows "path_fits p (ingress_path ing info hop r)" "path_fits p (egress_path d info hop r)"
    "cursor_ok (ingress_path ing info hop r)" "cursor_ok (egress_path d info hop r)"
    "PathMeta (ingress_path ing info hop r) = PathMeta r" "PathMeta (egress_path d info hop r) = PathMeta r"
    "NumHops (ingress_path ing info hop r) = NumHops r" "NumHops (egress_path d info hop r) = NumHops r"
    "IsXover (ingress_path ing info hop r) = IsXover r" "IsXover (egress_path d info hop r) = IsXover r"
  using assms by (auto simp: ingress_path_def egress_path_def Let_def cursor_ok_def intro!: path_fits_with)

lemma updateNonConsDirIngressSegID_None:
  assumes "path_fits p r" "cursor_ok r"
  shows "updateNonConsDirIngressSegID (at_path p r i h s m) = (p', res, None) \<longleftrightarrow> res = result_zero \<and>
    p' = at_path p (if \<not> ConsDir i \<and> ingressID p \<noteq> 0 then with_info r (cur_inf r) (seg_in (ingressID p) i h) else r)
      (seg_in (ingressID p) i h) h s m"
  using set_info_None [OF assms] by (auto simp: updateNonConsDirIngressSegID_def seg_in_def)

lemma handleIngressRouterAlert_None:
  assumes "path_fits p r" "cursor_ok r" "hop_wf h"
  shows "handleIngressRouterAlert env (at_path p r i h s m) = (p', res, None) \<longleftrightarrow> res = result_zero \<and>
    (ingressID p \<noteq> 0 \<and> ingress_alert i h \<longrightarrow> \<not> traceroute_request (lastLayer p)) \<and>
    p' = at_path p (if ingressID p \<noteq> 0 \<and> ingress_alert i h then with_hop r (cur_hf r) (no_ingress_alert i h) else r)
      i (hop_in (ingressID p) i h) s m"
  using set_hop_None [OF assms(1,2), of "no_ingress_alert i h"] assms(3)
  by (auto simp: handleIngressRouterAlert_def andThen_None handleSCMPTraceRouteRequest_None_iff hop_in_def)

lemma handleEgressRouterAlert_None:
  assumes "path_fits p r" "cursor_ok r" "hop_wf h"
  shows "handleEgressRouterAlert env (at_path p r i h s m) = (p', res, None) \<longleftrightarrow> res = result_zero \<and>
    (egress_alert i h \<and> map_of (external (dp p)) (hop_egress i h) \<noteq> None \<longrightarrow> \<not> traceroute_request (lastLayer p)) \<and>
    p' = at_path p (egress_path (dp p) i h r) i (hop_out (dp p) i h) s m"
  using set_hop_None [OF assms(1,2), of "no_egress_alert i h"] assms(3)
  by (auto simp: handleEgressRouterAlert_def andThen_None handleSCMPTraceRouteRequest_None_iff hop_out_def egress_path_def Let_def)

lemma processEgress_None:
  assumes "path_fits p r" "cursor_ok r"
  shows "processEgress (at_path p r i h s m) = (p', res, None) \<longleftrightarrow> res = result_zero \<and> Suc (cur_hf r) < NumHops r \<and>
    p' = at_path p (leave_path i h r) (seg_out i h) h s m"
  using set_info_None [OF assms] inc_path_None [OF assms]
    inc_path_None [OF path_fits_with(1) [OF assms(1), of "cur_inf r" "seg_out i h"], of "seg_out i h"] assms(2)
  by (auto simp: processEgress_def andThen_None seg_out_def leave_path_def cursor_ok_def)

lemma doXover_None:
  assumes "path_fits p r" "cursor_ok r" "length (scionInput env) = MACBufferSize"
  shows "doXover env (at_path p r i h s m) = (p', res, None) \<longleftrightarrow> res = result_zero \<and> Suc (cur_hf r) < NumHops r \<and>
    (\<exists>i' h'. GetCurrentInfoField (advanced r) = Inr i' \<and> GetCurrentHopField (advanced r) = Inr h' \<and>
      \<not> hop_expired env i' h' \<and> mac_ok (pmac p) i' h' \<and>
      p' = at_path p (advanced r) i' h' True (take 16 (pmac p (mac_block i' h'))))"
  using inc_path_None [OF assms(1,2)] 
  by (auto simp: doXover_def andThen_None Let_def validateHopExpiry_None verifyCurrentMAC_None [OF assms(3)] split: sum.splits)

section \<open>What is forwarded\<close>

text \<open>The ingress checks, on the fields of the current hop as received.\<close>

definition accepts :: "env \<Rightarrow> processor \<Rightarrow> info_field \<Rightarrow> hop_field \<Rightarrow> bool" where
  "accepts env p info hop \<longleftrightarrow> \<not> hop_expired env info hop \<and>
     (ingressID p = 0 \<or> ingressID p = hop_ingress info hop) \<and>
     unat (PayloadLen (scionLayer p)) = length (Payload (scionLayer p)) \<and>
     mac_ok (pmac p) (seg_in (ingressID p) info hop) hop \<and>
     (ingressID p \<noteq> 0 \<and> ingress_alert info hop \<longrightarrow> \<not> traceroute_request (lastLayer p))"

definition at_destination :: "processor \<Rightarrow> bool" where
  "at_destination p \<longleftrightarrow> IA_Equal (DstIA (scionLayer p)) (localIA (dp p)) \<and> Suc (cur_hf (ppath p)) = NumHops (ppath p)"

text \<open>Delivery inside the AS. Any resolution error but a missing service backend leaves the address nil.\<close>

definition delivers :: "env \<Rightarrow> processor \<Rightarrow> raw_path \<Rightarrow> process_result \<Rightarrow> bool" where
  "delivers env p r res \<longleftrightarrow> (\<exists>a. res = \<lparr>EgressID = 0, OutConn = internal (dp p), OutAddr = a,
       OutPkt = put_at (pathOff p) (Raw r) (rawPkt p)\<rparr> \<and>
     (case resolveLocalDst (Intn env) (dp p) (scionLayer p) of
        Inr x \<Rightarrow> a = Some x | Inl e \<Rightarrow> a = None \<and> e \<noteq> noSVCBackend \<and> soft_error e))"

text \<open>The hop the packet leaves by: the current one, or at the end of a segment the first one of the next segment,
  which has to be valid on its own.\<close>

definition switches :: "env \<Rightarrow> processor \<Rightarrow> info_field \<Rightarrow> hop_field \<Rightarrow> info_field \<Rightarrow> hop_field \<Rightarrow> bool" where
  "switches env p info hop info' hop' \<longleftrightarrow> (let r = ppath p in
     if IsXover r
     then Suc (cur_hf r) < NumHops r \<and> GetInfoField r (unat (CurrINF (inc_meta r))) = Inr info' \<and>
       GetHopField r (Suc (cur_hf r)) = Inr hop' \<and> \<not> hop_expired env info' hop' \<and> mac_ok (pmac p) info' hop'
     else info' = seg_in (ingressID p) info hop \<and> hop' = hop_in (ingressID p) info hop)"

text \<open>The egress checks.\<close>

definition may_leave :: "env \<Rightarrow> processor \<Rightarrow> info_field \<Rightarrow> hop_field \<Rightarrow> bool" where
  "may_leave env p info hop \<longleftrightarrow> (let d = dp p; egress = hop_egress info hop in
     (map_of (internalNextHops d) egress \<noteq> None \<or> map_of (external d) egress \<noteq> None) \<and>
     (IsXover (ppath p) \<longrightarrow> xover_ok (linkType d (ingressID p)) (linkType d egress)) \<and>
     (egress_alert info hop \<and> map_of (external d) egress \<noteq> None \<longrightarrow> \<not> traceroute_request (lastLayer p)) \<and>
     (\<forall>v. map_of (bfdSessions d) egress = Some v \<longrightarrow> IsUp env v))"

text \<open>Where it goes, with which path.\<close>

definition sends :: "processor \<Rightarrow> info_field \<Rightarrow> hop_field \<Rightarrow> raw_path \<Rightarrow> process_result \<Rightarrow> bool" where
  "sends p info hop r res \<longleftrightarrow> (let d = dp p; egress = hop_egress info hop; r' = egress_path d info hop r in
     case map_of (external d) egress of
       Some c \<Rightarrow> Suc (cur_hf r') < NumHops r' \<and>
         res = \<lparr>EgressID = egress, OutConn = Some c, OutAddr = None,
           OutPkt = put_at (pathOff p) (Raw (leave_path info hop r')) (rawPkt p)\<rparr>
     | None \<Rightarrow> \<exists>a. map_of (internalNextHops d) egress = Some a \<and>
         res = \<lparr>EgressID = 0, OutConn = internal d, OutAddr = Some a, OutPkt = put_at (pathOff p) (Raw r') (rawPkt p)\<rparr>)"

definition forwards :: "env \<Rightarrow> processor \<Rightarrow> process_result \<Rightarrow> bool" where
  "forwards env p res \<longleftrightarrow> (\<exists>info hop.
     GetCurrentInfoField (ppath p) = Inr info \<and> GetCurrentHopField (ppath p) = Inr hop \<and> accepts env p info hop \<and>
     (let r = ingress_path (ingressID p) info hop (ppath p) in
      if at_destination p then delivers env p r res
      else \<exists>info' hop'. switches env p info hop info' hop' \<and> may_leave env p info' hop' \<and>
        sends p info' hop' (if IsXover (ppath p) then advanced r else r) res))"

lemma current_fields_cursor:
  assumes "GetCurrentInfoField r = Inr info" "GetCurrentHopField r = Inr hop"
  shows "cursor_ok r"
  using assms by (auto simp: GetCurrentInfoField_def GetCurrentHopField_def GetInfoField_def GetHopField_def cursor_ok_def
      split: if_splits)

lemma current_hop_wf:
  assumes "raw_wf r" "GetHopField r k = Inr hop"
  shows "hop_wf hop"
proof -
  have "k < NumHops r" using assms(2) by (simp add: GetHopField_def split: if_splits)
  from GetHopField_ok(2) [OF assms(1) this] assms(2) show ?thesis by simp
qed

lemma ingress_path_get:
  assumes "raw_wf r" "cursor_ok r" "hop_wf hop"
  shows "GetInfoField (ingress_path ing info hop r) j =
      (if j = cur_inf r \<and> \<not> ConsDir info \<and> ing \<noteq> 0 then Inr (seg_in ing info hop) else GetInfoField r j)"
    "GetHopField (ingress_path ing info hop r) j =
      (if j = cur_hf r \<and> ing \<noteq> 0 \<and> ingress_alert info hop then Inr (no_ingress_alert info hop) else GetHopField r j)"
proof -
  let ?r = "if \<not> ConsDir info \<and> ing \<noteq> 0 then with_info r (cur_inf r) (seg_in ing info hop) else r"
  have c: "cur_inf r < NumINF r" "cur_hf r < NumHops r" using assms(2) by (simp_all add: cursor_ok_def)
  note i = with_info_ok [OF assms(1) c(1), of "seg_in ing info hop"]
  have wf: "raw_wf ?r" "cur_hf r < NumHops ?r" using i(2) assms(1) c(2) by simp_all
  note h = with_hop_ok [OF wf, of "no_ingress_alert info hop"]
  show "GetInfoField (ingress_path ing info hop r) j =
      (if j = cur_inf r \<and> \<not> ConsDir info \<and> ing \<noteq> 0 then Inr (seg_in ing info hop) else GetInfoField r j)"
    "GetHopField (ingress_path ing info hop r) j =
      (if j = cur_hf r \<and> ing \<noteq> 0 \<and> ingress_alert info hop then Inr (no_ingress_alert info hop) else GetHopField r j)"
    using h(3,4) i(3,4) assms(3)
    by (cases "\<not> ConsDir info \<and> ing \<noteq> 0"; auto simp: ingress_path_def Let_def)+
qed

lemma xover_get:
  assumes "raw_wf r" "cursor_ok r" "hop_wf hop" "IsXover r" "Suc (cur_hf r) < NumHops r"
    "r' = ingress_path ing info hop r"
  shows "GetCurrentInfoField (advanced r') = GetInfoField r (unat (CurrINF (inc_meta r)))"
    "GetCurrentHopField (advanced r') = GetHopField r (Suc (cur_hf r))"
proof -
  have fits: "raw_wf r'" "cursor_ok r'" "Suc (cur_hf r') < NumHops r'" "PathMeta r' = PathMeta r" "inc_meta r' = inc_meta r"
    using assms by (auto simp: ingress_path_def Let_def cursor_ok_def with_info_ok with_hop_ok)
  have hf: "unat (CurrHF (inc_meta r)) = Suc (cur_hf r)"
    using advanced_ok(4) [OF assms(1,2,5)] by simp
  have inf: "unat (CurrINF (inc_meta r)) \<noteq> cur_inf r"
    using assms(4) by (simp add: IsXover_def inc_meta_def word_unat_eq_iff)
  show "GetCurrentInfoField (advanced r') = GetInfoField r (unat (CurrINF (inc_meta r)))"
    "GetCurrentHopField (advanced r') = GetHopField r (Suc (cur_hf r))"
    using advanced_get [OF fits(1-3)] ingress_path_get [OF assms(1-3)] hf inf assms(6) fits(5)
    by (simp_all add: GetCurrentInfoField_def GetCurrentHopField_def)
qed

lemma resolveLocalDst_SPath [simp]: "resolveLocalDst f d (s\<lparr>SPath := x\<rparr>) = resolveLocalDst f d s"
  by (simp add: resolveLocalDst_def DstAddr_def)

lemma inbound_None:
  "(case resolveInbound env (at_path p r i h s m) of (a, out) \<Rightarrow> andThen out (\<lambda>p.
     (p, \<lparr>EgressID = 0, OutConn = internal (dp p), OutAddr = a, OutPkt = rawPkt p\<rparr>, None))) = (p', res, None) \<longleftrightarrow>
   p' = at_path p r i h s m \<and> delivers env p r res"
  by (auto simp: resolveInbound_def andThen_None delivers_def split: sum.splits)

lemma leave_path_hop_out [simp]: "leave_path i (hop_out d i h) r = leave_path i h r"
  by (simp add: leave_path_def seg_out_def)

text \<open>Once the hop to leave by is known.\<close>

definition egress_part :: "env \<Rightarrow> processor \<Rightarrow> outcome" where
  "egress_part env p =
     andThen (validateEgressID env p) (\<lambda>p.
     andThen (handleEgressRouterAlert env p) (\<lambda>p.
     andThen (validateEgressUp env p) (\<lambda>p.
     let egress = egressInterface p in
     case map_of (external (dp p)) egress of
       Some c \<Rightarrow> andThen (processEgress p) (\<lambda>p.
         (p, \<lparr>EgressID = egress, OutConn = Some c, OutAddr = None, OutPkt = rawPkt p\<rparr>, None))
     | None \<Rightarrow> (case map_of (internalNextHops (dp p)) egress of
         Some a \<Rightarrow> (p, \<lparr>EgressID = 0, OutConn = internal (dp p), OutAddr = Some a, OutPkt = rawPkt p\<rparr>, None)
       | None \<Rightarrow> paramProblem env
           (if \<not> ConsDir (infoField p) then SCMPCodeUnknownHopFieldIngress else SCMPCodeUnknownHopFieldEgress)
           (currentHopPointer p) cannotRoute p))))"

lemma process_outbound_parts:
  "process_outbound env p = andThen (if IsXover (ppath p) then doXover env p else proc_ok p) (egress_part env)"
  unfolding process_outbound_def egress_part_def by (rule refl)

lemma egress_part_None:
  assumes "path_fits p r" "cursor_ok r" "hop_wf h" "s = IsXover (ppath p)"
  shows "(\<exists>p'. egress_part env (at_path p r i h s m) = (p', res, None)) \<longleftrightarrow> may_leave env p i h \<and> sends p i h r res"
  using assms path_fits_phases [OF assms(1-3)]
  by (auto simp: egress_part_def andThen_None validateEgressID_None handleEgressRouterAlert_None [OF assms(1-3)]
      validateEgressUp_None Let_def may_leave_def sends_def processEgress_None split: option.splits)

lemma process_outbound_iff:
  assumes "path_fits p (ppath p)" "cursor_ok (ppath p)" "hop_wf hop" "length (scionInput env) = MACBufferSize"
    and r: "r = ingress_path (ingressID p) info hop (ppath p)"
  shows "(\<exists>p'. process_outbound env (at_path p r (seg_in (ingressID p) info hop) (hop_in (ingressID p) info hop) False m) = (p', res, None)) \<longleftrightarrow>
    (\<exists>info' hop'. switches env p info hop info' hop' \<and> may_leave env p info' hop' \<and>
        sends p info' hop' (if IsXover (ppath p) then advanced r else r) res)"
proof -
  let ?q = "ppath p"
  have wf: "raw_wf ?q" using assms(1) by (rule path_fits_wf)
  have f: "path_fits p r" "cursor_ok r" "IsXover r = IsXover ?q" "NumHops r = NumHops ?q" "PathMeta r = PathMeta ?q"
    using path_fits_phases [OF assms(1-3)] r by simp_all
  show ?thesis
  proof (cases "IsXover ?q")
    case False
    then show ?thesis
      using egress_part_None [OF f(1,2), of "hop_in (ingressID p) info hop" False env "seg_in (ingressID p) info hop" m res] assms(3) f(3)
      by (simp add: process_outbound_parts andThen_None switches_def Let_def)
  next
    case True
    show ?thesis
    proof (cases "Suc (cur_hf ?q) < NumHops ?q")
      case lt: True
      note g = xover_get [OF wf assms(2,3) True lt r]
      obtain h' where h': "GetHopField ?q (Suc (cur_hf ?q)) = Inr h'" "hop_wf h'"
        using GetHopField_ok(2) [OF wf lt] by auto
      have fa: "path_fits p (advanced r)" "cursor_ok (advanced r)"
        using path_fits_with(3) [OF f(1,2)] advanced_ok(3) [OF path_fits_wf [OF f(1)] f(2)] lt f(4,5)
        by (simp_all add: cursor_sync_def)
      show ?thesis
        using egress_part_None [OF fa h'(2), of True] True lt f(3-5) h'(1) g
        by (auto simp: process_outbound_parts andThen_None switches_def Let_def doXover_None [OF f(1,2) assms(4)]) blast+
    next
      case False
      then show ?thesis
        using True f(3-5) by (auto simp: process_outbound_parts andThen_None switches_def Let_def doXover_None [OF f(1,2) assms(4)])
    qed
  qed
qed

text \<open>The steps before the decision where the packet goes.\<close>

definition ingress_part :: "env \<Rightarrow> processor \<Rightarrow> outcome" where
  "ingress_part env p =
     andThen (parsePath env p) (\<lambda>p.
     andThen (validatePktLen env p) (\<lambda>p.
     andThen (updateNonConsDirIngressSegID p) (\<lambda>p.
     andThen (verifyCurrentMAC env p) (handleIngressRouterAlert env))))"

definition decide :: "env \<Rightarrow> processor \<Rightarrow> outcome" where
  "decide env p = (if IA_Equal (DstIA (scionLayer p)) (localIA (dp p)) \<and> unat (CurrHF (PathMeta (ppath p))) + 1 = NumHops (ppath p)
     then (case resolveInbound env p of (a, out) \<Rightarrow> andThen out (\<lambda>p.
       (p, \<lparr>EgressID = 0, OutConn = internal (dp p), OutAddr = a, OutPkt = rawPkt p\<rparr>, None)))
     else process_outbound env p)"

lemma andThen_assoc: "andThen (andThen m f) g = andThen m (\<lambda>p. andThen (f p) g)"
  by (auto simp: andThen_def split: prod.split option.split)

lemma process_parts: "process env p = andThen (ingress_part env p) (decide env)"
  by (simp add: ingress_part_def andThen_assoc process_def decide_def [abs_def])

lemma ingress_part_None:
  assumes sync: "path_synced p" and len: "length (scionInput env) = MACBufferSize" and "\<not> segmentChange p"
    and g: "GetCurrentInfoField (ppath p) = Inr info" "GetCurrentHopField (ppath p) = Inr hop"
  shows "ingress_part env p = (p', res, None) \<longleftrightarrow> res = result_zero \<and> accepts env p info hop \<and>
    p' = at_path p (ingress_path (ingressID p) info hop (ppath p)) (seg_in (ingressID p) info hop)
      (hop_in (ingressID p) info hop) False (take 16 (pmac p (mac_block (seg_in (ingressID p) info hop) hop)))"
proof -
  let ?ing = "ingressID p" and ?r = "ppath p"
  note fits = at_path_start(2) [OF sync] and cur = current_fields_cursor [OF g]
  note hop = current_hop_wf [OF path_fits_wf [OF fits] g(2) [unfolded GetCurrentHopField_def]]
  let ?p = "at_path p ?r info hop False (cachedMac p)"
  let ?r' = "if \<not> ConsDir info \<and> ?ing \<noteq> 0 then with_info ?r (cur_inf ?r) (seg_in ?ing info hop) else ?r"
  have p: "p\<lparr>hopField := hop, infoField := info\<rparr> = ?p"
    using arg_cong [OF at_path_start(1) [OF sync], of "\<lambda>p. p\<lparr>hopField := hop, infoField := info\<rparr>"] assms(3) by simp
  have r': "path_fits p ?r'" "cursor_ok ?r'" "PathMeta ?r' = PathMeta ?r"
    using path_fits_with(1) [OF fits] fits cur by (auto simp: cursor_ok_def)
  have al: "ingress_alert (seg_in ?ing info hop) hop = ingress_alert info hop"
    "no_ingress_alert (seg_in ?ing info hop) hop = no_ingress_alert info hop"
    "hop_in ?ing (seg_in ?ing info hop) hop = hop_in ?ing info hop"
    by (simp_all add: ingress_alert_def no_ingress_alert_def hop_in_def)
  show ?thesis
    using handleIngressRouterAlert_None [OF r'(1,2) hop] g
    by (auto simp: ingress_part_def andThen_None parsePath_None p validatePktLen_None accepts_def
        updateNonConsDirIngressSegID_None [OF fits cur] verifyCurrentMAC_None [OF len] al ingress_path_def Let_def r'(3))
qed

lemma process_iff:
  assumes sync: "path_synced p" and len: "length (scionInput env) = MACBufferSize" and sc: "\<not> segmentChange p"
  shows "(\<exists>p'. process env p = (p', res, None)) \<longleftrightarrow> forwards env p res"
proof (cases "\<exists>info hop. GetCurrentInfoField (ppath p) = Inr info \<and> GetCurrentHopField (ppath p) = Inr hop")
  case False
  then show ?thesis by (auto simp: process_def andThen_None parsePath_None forwards_def)
next
  case True
  then obtain info hop where g: "GetCurrentInfoField (ppath p) = Inr info" "GetCurrentHopField (ppath p) = Inr hop"
    by auto
  let ?ing = "ingressID p" and ?r = "ingress_path (ingressID p) info hop (ppath p)"
  note fits = at_path_start(2) [OF sync] and cur = current_fields_cursor [OF g]
  note hop = current_hop_wf [OF path_fits_wf [OF fits] g(2) [unfolded GetCurrentHopField_def]]
  note ph = path_fits_phases [OF fits cur hop]
  have "(\<exists>p'. decide env (at_path p ?r (seg_in ?ing info hop) (hop_in ?ing info hop) False m) = (p', res, None)) \<longleftrightarrow>
     (if at_destination p then delivers env p ?r res
      else \<exists>info' hop'. switches env p info hop info' hop' \<and> may_leave env p info' hop' \<and>
        sends p info' hop' (if IsXover (ppath p) then advanced ?r else ?r) res)" for m
    using process_outbound_iff [OF fits cur hop len refl, of info m res]
    by (simp add: decide_def inbound_None ph at_destination_def)
  then show ?thesis
    using g ingress_part_None [OF sync len sc g] by (auto simp: forwards_def process_parts andThen_None Let_def)
qed

section \<open>What stays the same\<close>

text \<open>Router alert flags are only ever cleared, and of an info field only the segment identifier changes.\<close>

definition hop_kept :: "hop_field \<Rightarrow> hop_field \<Rightarrow> bool" where
  "hop_kept h h' \<longleftrightarrow> (\<exists>a b. h' = h\<lparr>IngressRouterAlert := a, EgressRouterAlert := b\<rparr> \<and>
     (a \<longrightarrow> IngressRouterAlert h) \<and> (b \<longrightarrow> EgressRouterAlert h))"

definition info_kept :: "info_field \<Rightarrow> info_field \<Rightarrow> bool" where
  "info_kept i i' \<longleftrightarrow> (\<exists>s. i' = i\<lparr>SegID := s\<rparr>)"

text \<open>The bytes of a path decode to its struct.\<close>

definition on_wire :: "raw_path \<Rightarrow> bool" where
  "on_wire r \<longleftrightarrow> Raw_DecodeFromBytes (Raw r) = Inr r"

lemma MetaHdr_Decode_prefix:
  assumes "4 \<le> length b" "length b' = length b" "take 4 b' = take 4 b"
  shows "MetaHdr_DecodeFromBytes b' = MetaHdr_DecodeFromBytes b"
proof -
  have "Uint32 b' = Uint32 b"
    using Uint32_append [of "take 4 b"] assms by (metis append_take_drop_id length_take min.absorb2)
  then show ?thesis using assms(1,2) by (simp add: MetaHdr_DecodeFromBytes_def)
qed

lemma on_wire_prefix:
  assumes "on_wire r" "raw_wf r" "length b = length (Raw r)" "take 4 b = take 4 (Raw r)"
  shows "on_wire (r\<lparr>Raw := b\<rparr>)"
proof -
  have l: "4 \<le> length (Raw r)" using raw_wf_MetaLen [OF assms(2)] by (simp add: MetaLen_def)
  have B: "Base_DecodeFromBytes b = Base_DecodeFromBytes (Raw r)"
    using MetaHdr_Decode_prefix [OF l assms(3,4)] by (simp add: Base_DecodeFromBytes_def)
  from assms(1) obtain s where s: "Base_DecodeFromBytes (Raw r) = Inr s" "path_Len s \<le> length (Raw r)"
    and r: "r = \<lparr>PathMeta = PathMeta s, NumINF = NumINF s, NumHops = NumHops s, Raw = slice 0 (path_Len s) (Raw r)\<rparr>"
    by (auto simp: on_wire_def Raw_DecodeFromBytes_def res_simps split: if_splits)
  have r': "PathMeta r = PathMeta s" "NumINF r = NumINF s" "NumHops r = NumHops s"
    by (subst r, simp)+
  then have "path_Len s = length b" using assms(2,3) by (simp add: raw_wf_def path_Len_def)
  then show ?thesis
    using s B r' assms(3) by (simp add: on_wire_def Raw_DecodeFromBytes_def slice_def)
qed

definition path_kept :: "raw_path \<Rightarrow> raw_path \<Rightarrow> bool" where
  "path_kept r r' \<longleftrightarrow> raw_wf r' \<and> NumINF r' = NumINF r \<and> NumHops r' = NumHops r \<and>
     SegLen (PathMeta r') = SegLen (PathMeta r) \<and> cur_hf r \<le> cur_hf r' \<and>
     (on_wire r \<and> NumHops r \<le> MaxHops \<longrightarrow> on_wire r') \<and>
     (\<forall>j i. GetInfoField r j = Inr i \<longrightarrow> (\<exists>i'. GetInfoField r' j = Inr i' \<and> info_kept i i')) \<and>
     (\<forall>j h. GetHopField r j = Inr h \<longrightarrow> (\<exists>h'. GetHopField r' j = Inr h' \<and> hop_kept h h'))"

lemma kept_refl [simp]: "hop_kept h h" "info_kept i i"
proof -
  have "h = h\<lparr>IngressRouterAlert := IngressRouterAlert h, EgressRouterAlert := EgressRouterAlert h\<rparr>"
    "i = i\<lparr>SegID := SegID i\<rparr>" by simp_all
  then show "hop_kept h h" "info_kept i i" unfolding hop_kept_def info_kept_def by blast+
qed

lemma info_kept_updates [simp]:
  "info_kept i (UpdateSegID i m)" "info_kept i (seg_in g i h)" "info_kept i (seg_out i h)"
proof -
  show 1: "info_kept i (UpdateSegID i m)" for i m by (auto simp: info_kept_def UpdateSegID_def)
  show "info_kept i (seg_in g i h)" "info_kept i (seg_out i h)" by (simp_all add: seg_in_def seg_out_def 1)
qed

lemma hop_kept_updates [simp]:
  "hop_kept h (no_ingress_alert i h)" "hop_kept h (no_egress_alert i h)"
proof -
  have "h\<lparr>IngressRouterAlert := False\<rparr> = h\<lparr>IngressRouterAlert := False, EgressRouterAlert := EgressRouterAlert h\<rparr>"
    "h\<lparr>EgressRouterAlert := False\<rparr> = h\<lparr>IngressRouterAlert := IngressRouterAlert h, EgressRouterAlert := False\<rparr>"
    by simp_all
  then have "hop_kept h (h\<lparr>IngressRouterAlert := False\<rparr>)" "hop_kept h (h\<lparr>EgressRouterAlert := False\<rparr>)"
    unfolding hop_kept_def by blast+
  then show "hop_kept h (no_ingress_alert i h)" "hop_kept h (no_egress_alert i h)"
    by (simp_all add: no_ingress_alert_def no_egress_alert_def)
qed

lemma kept_trans: "hop_kept h h' \<Longrightarrow> hop_kept h' h'' \<Longrightarrow> hop_kept h h''" "info_kept i i' \<Longrightarrow> info_kept i' i'' \<Longrightarrow> info_kept i i''"
proof -
  assume "hop_kept h h'" "hop_kept h' h''"
  then obtain a b c d where "h' = h\<lparr>IngressRouterAlert := a, EgressRouterAlert := b\<rparr>"
    "h'' = h'\<lparr>IngressRouterAlert := c, EgressRouterAlert := d\<rparr>" "a \<longrightarrow> IngressRouterAlert h" "b \<longrightarrow> EgressRouterAlert h"
    "c \<longrightarrow> IngressRouterAlert h'" "d \<longrightarrow> EgressRouterAlert h'" unfolding hop_kept_def by blast
  then have "h'' = h\<lparr>IngressRouterAlert := c, EgressRouterAlert := d\<rparr>" "c \<longrightarrow> IngressRouterAlert h" "d \<longrightarrow> EgressRouterAlert h"
    by simp_all
  then show "hop_kept h h''" unfolding hop_kept_def by blast
qed (auto simp: info_kept_def)

lemma path_kept_refl: "raw_wf r \<Longrightarrow> path_kept r r"
  by (simp add: path_kept_def)

lemma path_kept_trans: "path_kept r r' \<Longrightarrow> path_kept r' r'' \<Longrightarrow> path_kept r r''"
  unfolding path_kept_def by (auto; meson kept_trans)

lemma take_put_at_low: "n \<le> i \<Longrightarrow> n \<le> length b \<Longrightarrow> take n (put_at i bs b) = take n b"
  by (simp add: put_at_def)

lemma path_kept_with_info:
  assumes "raw_wf r" "GetInfoField r k = Inr i" "info_kept i i'"
  shows "path_kept r (with_info r k i')"
proof -
  have "k < NumINF r" using assms(2) by (simp add: GetInfoField_def split: if_splits)
  moreover have "on_wire (with_info r k i')" if "on_wire r"
    using on_wire_prefix [OF that assms(1), of "Raw (with_info r k i')"] with_info_ok(2) [OF assms(1) calculation, of i'] assms(1) raw_wf_MetaLen [OF assms(1)]
    by (simp add: with_info_def raw_wf_def take_put_at_low MetaLen_def)
  ultimately show ?thesis using with_info_ok [OF assms(1)] assms by (auto simp: path_kept_def)
qed

lemma path_kept_with_hop:
  assumes "raw_wf r" "GetHopField r k = Inr h" "hop_kept h h'"
  shows "path_kept r (with_hop r k h')"
proof -
  have "k < NumHops r" using assms(2) by (simp add: GetHopField_def split: if_splits)
  moreover have "hop_wf h'"
    using current_hop_wf [OF assms(1,2)] assms(3) by (auto simp: hop_kept_def hop_wf_def)
  moreover have "on_wire (with_hop r k h')" if "on_wire r"
    using on_wire_prefix [OF that assms(1), of "Raw (with_hop r k h')"] with_hop_ok(2) [OF assms(1) calculation] assms(1) raw_wf_MetaLen [OF assms(1)]
    by (simp add: with_hop_def raw_wf_def take_put_at_low hop_offset_def MetaLen_def)
  ultimately show ?thesis using with_hop_ok [OF assms(1)] assms by (auto simp: path_kept_def)
qed

lemma path_kept_advanced:
  assumes "raw_wf r" "cursor_ok r" "Suc (cur_hf r) < NumHops r"
  shows "path_kept r (advanced r)"
proof -
  have "on_wire (advanced r)" if w: "on_wire r" "NumHops r \<le> MaxHops"
  proof -
    have wf: "raw_wf (r\<lparr>PathMeta := inc_meta r\<rparr>)" "base_shape r"
      using assms(1) by (simp_all add: raw_wf_def base_shape_def path_Len_def inc_meta_def)
    have "meta_wf (PathMeta r)" using Raw_Decode_wf(2) w(1) by (simp add: on_wire_def)
    from inc_meta_wf [OF wf(2) this assms(2,3) w(2)] Raw_Decode_synced [OF wf(1)] show ?thesis
      by (simp add: on_wire_def advanced_def)
  qed
  then show ?thesis
    using advanced_ok [OF assms] advanced_get [OF assms] by (simp add: path_kept_def) (simp add: inc_meta_def)
qed

lemma path_kept_ingress:
  assumes "raw_wf r" "GetCurrentInfoField r = Inr info" "GetCurrentHopField r = Inr hop"
  shows "path_kept r (ingress_path g info hop r)"
proof -
  note c = current_fields_cursor [OF assms(2,3)]
  let ?r = "if \<not> ConsDir info \<and> g \<noteq> 0 then with_info r (cur_inf r) (seg_in g info hop) else r"
  have 1: "path_kept r ?r"
    using path_kept_with_info [OF assms(1) assms(2) [unfolded GetCurrentInfoField_def]] path_kept_refl [OF assms(1)] by simp
  moreover have "GetHopField ?r (cur_hf r) = Inr hop"
    using with_info_ok(4) [OF assms(1)] assms(3) c by (simp add: GetCurrentHopField_def cursor_ok_def)
  then have "path_kept ?r (with_hop ?r (cur_hf r) (no_ingress_alert info hop))"
    using 1 by (intro path_kept_with_hop [of _ _ hop]) (simp_all add: path_kept_def)
  moreover have "PathMeta ?r = PathMeta r" by simp
  ultimately show ?thesis unfolding ingress_path_def Let_def by (auto intro: path_kept_trans)
qed

lemma path_kept_egress:
  assumes "raw_wf r" "GetCurrentHopField r = Inr hop"
  shows "path_kept r (egress_path d info hop r)"
  using path_kept_with_hop [OF assms(1) assms(2) [unfolded GetCurrentHopField_def], of "no_egress_alert info hop"]
    path_kept_refl [OF assms(1)]
  by (simp add: egress_path_def)

lemma path_kept_leave:
  assumes "raw_wf r" "cursor_ok r" "Suc (cur_hf r) < NumHops r" "GetCurrentInfoField r = Inr info"
  shows "path_kept r (leave_path info hop r)" "cur_hf (leave_path info hop r) = Suc (cur_hf r)"
proof -
  let ?r = "if ConsDir info then with_info r (cur_inf r) (seg_out info hop) else r"
  have k: "path_kept r ?r"
    using path_kept_with_info [OF assms(1) assms(4) [unfolded GetCurrentInfoField_def], of "seg_out info hop"]
      path_kept_refl [OF assms(1)] by simp
  have r: "raw_wf ?r" "cursor_ok ?r" "Suc (cur_hf ?r) < NumHops ?r" using k assms by (simp_all add: path_kept_def)
  have m: "PathMeta ?r = PathMeta r" by simp
  show "path_kept r (leave_path info hop r)"
    unfolding leave_path_def by (rule path_kept_trans [OF k path_kept_advanced [OF r]])
  show "cur_hf (leave_path info hop r) = Suc (cur_hf r)"
    unfolding leave_path_def advanced_ok(4) [OF r] m by (rule refl)
qed

text \<open>The path at the time the packet leaves, and that the fields the egress steps work on are its current ones.\<close>

lemma switches_path:
  assumes "raw_wf (ppath p)" and g: "GetCurrentInfoField (ppath p) = Inr info" "GetCurrentHopField (ppath p) = Inr hop"
    and "switches env p info hop info' hop'"
    and r: "r = ingress_path (ingressID p) info hop (ppath p)" "r' = (if IsXover (ppath p) then advanced r else r)"
  shows "path_kept (ppath p) r'" "cursor_ok r'" "GetCurrentInfoField r' = Inr info'" "GetCurrentHopField r' = Inr hop'"
proof -
  let ?q = "ppath p" and ?ing = "ingressID p"
  note c = current_fields_cursor [OF g]
  note hop = current_hop_wf [OF assms(1) g(2) [unfolded GetCurrentHopField_def]]
  have k: "path_kept ?q r" unfolding r(1) by (rule path_kept_ingress [OF assms(1) g])
  have m: "PathMeta r = PathMeta ?q" "NumHops r = NumHops ?q" "cursor_ok r"
    using c by (simp_all add: r(1) ingress_path_def Let_def)
  have "path_kept ?q r' \<and> cursor_ok r' \<and> GetCurrentInfoField r' = Inr info' \<and> GetCurrentHopField r' = Inr hop'"
  proof (cases "IsXover ?q")
    case True
    then have s: "Suc (cur_hf ?q) < NumHops ?q" "GetInfoField ?q (unat (CurrINF (inc_meta ?q))) = Inr info'"
      "GetHopField ?q (Suc (cur_hf ?q)) = Inr hop'"
      using assms(4) by (simp_all add: switches_def Let_def)
    have r': "raw_wf r" "cursor_ok r" "Suc (cur_hf r) < NumHops r" using k m s(1) by (simp_all add: path_kept_def)
    then have "cursor_ok (advanced r)" using advanced_ok(3) by (simp add: cursor_sync_def)
    with True path_kept_trans [OF k path_kept_advanced [OF r']] xover_get [OF assms(1) c hop True s(1) r(1)] s r(2)
    show ?thesis by simp
  next
    case False
    then have s: "info' = seg_in ?ing info hop" "hop' = hop_in ?ing info hop"
      using assms(4) by (simp_all add: switches_def)
    have "GetCurrentInfoField r = Inr info'" "GetCurrentHopField r = Inr hop'"
      using ingress_path_get [OF assms(1) c hop] g s m(1)
      by (auto simp: GetCurrentInfoField_def GetCurrentHopField_def r(1) seg_in_def hop_in_def)
    with False k m(3) r(2) show ?thesis by simp
  qed
  then show "path_kept ?q r'" "cursor_ok r'" "GetCurrentInfoField r' = Inr info'" "GetCurrentHopField r' = Inr hop'"
    by simp_all
qed

lemma sends_path:
  assumes "raw_wf r" "cursor_ok r" "GetCurrentInfoField r = Inr info" "GetCurrentHopField r = Inr hop" "sends p info hop r res"
  shows "\<exists>r'. path_kept r r' \<and> OutPkt res = put_at (pathOff p) (Raw r') (rawPkt p) \<and>
    (OutAddr res = None \<longrightarrow> cur_hf r' = Suc (cur_hf r) \<and> Suc (cur_hf r) < NumHops r)"
proof -
  let ?e = "egress_path (dp p) info hop r"
  have k: "path_kept r ?e" by (rule path_kept_egress [OF assms(1,4)])
  have hop: "hop_wf hop" by (rule current_hop_wf [OF assms(1) assms(4) [unfolded GetCurrentHopField_def]])
  have e: "PathMeta ?e = PathMeta r" "NumHops ?e = NumHops r" "cursor_ok ?e" "raw_wf ?e"
    using assms(2) k by (simp_all add: egress_path_def path_kept_def)
  show ?thesis
  proof (cases "map_of (external (dp p)) (hop_egress info hop)")
    case None
    then show ?thesis using assms(5) k by (auto simp: sends_def Let_def)
  next
    case (Some c)
    then have s: "Suc (cur_hf ?e) < NumHops ?e" "OutPkt res = put_at (pathOff p) (Raw (leave_path info hop ?e)) (rawPkt p)"
      using assms(5) by (simp_all add: sends_def Let_def)
    have "GetCurrentInfoField ?e = Inr info"
      using with_hop_ok(4) [OF assms(1), of "cur_hf r" "no_egress_alert info hop"] assms(2,3) hop
      by (auto simp: egress_path_def GetCurrentInfoField_def cursor_ok_def)
    from path_kept_leave [OF e(4,3) s(1) this, of hop] k s(2) s(1) e show ?thesis
      by (auto intro: path_kept_trans)
  qed
qed

lemma forwards_path:
  assumes "raw_wf (ppath p)" "forwards env p res"
  shows "\<exists>r'. path_kept (ppath p) r' \<and> OutPkt res = put_at (pathOff p) (Raw r') (rawPkt p) \<and>
    (\<not> at_destination p \<and> OutAddr res = None \<longrightarrow> cur_hf (ppath p) < cur_hf r' \<and> cur_hf r' < NumHops (ppath p))"
proof -
  from assms(2) obtain info hop where g: "GetCurrentInfoField (ppath p) = Inr info" "GetCurrentHopField (ppath p) = Inr hop"
    and f: "let r = ingress_path (ingressID p) info hop (ppath p) in
      if at_destination p then delivers env p r res
      else \<exists>info' hop'. switches env p info hop info' hop' \<and> may_leave env p info' hop' \<and>
        sends p info' hop' (if IsXover (ppath p) then advanced r else r) res"
    by (auto simp: forwards_def)
  let ?r = "ingress_path (ingressID p) info hop (ppath p)"
  let ?r' = "if IsXover (ppath p) then advanced ?r else ?r"
  show ?thesis
  proof (cases "at_destination p")
    case True
    then show ?thesis
      using f path_kept_ingress [OF assms(1) g] by (intro exI [of _ ?r]) (auto simp: delivers_def Let_def)
  next
    case False
    then obtain info' hop' where s: "switches env p info hop info' hop'" "sends p info' hop' ?r' res"
      using f by (auto simp: Let_def)
    define q where "q = ?r'"
    note k = switches_path [OF assms(1) g s(1) refl q_def]
    have "raw_wf q" using k(1) by (simp add: path_kept_def)
    from sends_path [OF this k(2-4) s(2) [folded q_def]] obtain r' where r': "path_kept q r'"
      "OutPkt res = put_at (pathOff p) (Raw r') (rawPkt p)"
      "OutAddr res = None \<longrightarrow> cur_hf r' = Suc (cur_hf q) \<and> Suc (cur_hf q) < NumHops q" by (elim exE conjE) (rule that)
    have "cur_hf (ppath p) \<le> cur_hf q" "NumHops q = NumHops (ppath p)" using k(1) by (simp_all add: path_kept_def)
    then show ?thesis
      using r'(2,3) path_kept_trans [OF k(1) r'(1)] by (intro exI [of _ r']) simp
  qed
qed

end
