(* ===== verification/Router_Packets.thy ===== *)
theory Router_Packets
  imports Router_Colibri Router_Forwarding
begin

unbundle bit_operations_syntax

text \<open>
  Properties of \<open>processPkt\<close> (go/pkg/router/dataplane.go) on the bytes of a packet: what is forwarded, what the forwarded
  bytes are and that they decode again, progress along the path, the SCMP replies, and the COLIBRI checks.
\<close>

section \<open>Decoded packets\<close>

lemma DecodeAddrHdr_Inr:
  assumes "DecodeAddrHdr s data = Inr s'"
  shows "AddrHdrLen s' = AddrHdrLen s" "HdrLen s' = HdrLen s" "PathType s' = PathType s" "PayloadLen s' = PayloadLen s"
    "AddrHdrLen s \<le> length data"
  using assms by (auto simp: DecodeAddrHdr_def Let_def AddrHdrLen_def split: if_splits)

text \<open>The header fields come from the bytes in front of the path.\<close>

definition common_hdr :: "bytes \<Rightarrow> scion" where
  "common_hdr data = (let firstLine = Uint32 (slice 0 4 data) in
     \<lparr>Version = ucast (drop_bit 28 firstLine), TrafficClass = ucast (drop_bit 20 firstLine AND 0xFF),
      FlowID = firstLine AND 0xFFFFF, NextHdr = data ! 4, HdrLen = data ! 5, PayloadLen = Uint16 (slice 6 8 data),
      DstAddrType = drop_bit 6 (data ! 9), DstAddrLen = drop_bit 4 (data ! 9) AND 3,
      SrcAddrType = drop_bit 2 (data ! 9) AND 3, SrcAddrLen = (data ! 9) AND 3,
      DstIA = 0, SrcIA = 0, RawDstAddr = [], RawSrcAddr = [],
      PathType = data ! 8, SPath = None, Contents = [], Payload = []\<rparr>)"

lemma SCION_Decode_iff:
  "SCION_DecodeFromBytes reg pkt = Inr s \<longleftrightarrow> CmnHdrLen \<le> length pkt \<and> (\<exists>s1 q0 q.
     DecodeAddrHdr (common_hdr pkt) (drop CmnHdrLen pkt) = Inr s1 \<and>
     path_offset s1 \<le> unat (HdrLen s1) * LineLen \<and> unat (HdrLen s1) * LineLen \<le> length pkt \<and>
     NewPath reg (PathType s1) = Inr q0 \<and>
     Path_BuildFromHeader q0 (slice (path_offset s1) (unat (HdrLen s1) * LineLen) pkt) s1 = Inr q \<and>
     s = s1\<lparr>SPath := Some q, Contents := take (unat (HdrLen s1) * LineLen) pkt, Payload := drop (unat (HdrLen s1) * LineLen) pkt\<rparr>)"
proof -
  have sl: "slice 0 n b = take n b" for n and b :: bytes by (simp add: slice_def)
  show ?thesis
    unfolding SCION_DecodeFromBytes_def Let_def common_hdr_def [unfolded Let_def, symmetric]
    by (auto simp: res_simps path_offset_def sl not_less)
qed

lemma Uint64_prefix: "take 8 b' = take 8 b \<Longrightarrow> 8 \<le> length b \<Longrightarrow> 8 \<le> length b' \<Longrightarrow> Uint64 b' = Uint64 b"
  using Uint64_append [of "take 8 b"] by (metis append_take_drop_id length_take min.absorb2)

lemma take_drop_prefix: "take (k + n) b' = take (k + n) b \<Longrightarrow> take n (drop k b') = take n (drop k b)"
  by (metis add.commute take_drop)

lemma slice_prefix:
  assumes "take n b' = take n b" "j \<le> n"
  shows "slice i j b' = slice i j b"
proof -
  have "take j b' = take j b"
    using arg_cong [OF assms(1), of "take j"] assms(2) by (simp add: min_absorb1)
  then show ?thesis by (cases "i \<le> j") (simp_all add: slice_def take_drop)
qed

lemma DecodeAddrHdr_prefix:
  assumes "length b' = length b" "take (AddrHdrLen s) b' = take (AddrHdrLen s) b"
  shows "DecodeAddrHdr s b' = DecodeAddrHdr s b"
proof (cases "length b < AddrHdrLen s")
  case True
  then show ?thesis using assms(1) by (simp add: DecodeAddrHdr_def)
next
  case False
  have p: "take n b' = take n b" if "n \<le> AddrHdrLen s" for n
    using arg_cong [OF assms(2), of "take n"] that by (simp add: min_absorb1)
  have l: "16 \<le> AddrHdrLen s" by (simp add: AddrHdrLen_def hdr_len_defs)
  have u: "Uint64 b' = Uint64 b" "Uint64 (drop 8 b') = Uint64 (drop 8 b)"
    using p [of 8] take_drop_prefix [of 8 8 b' b] p [of 16] l False assms(1) by (auto intro!: Uint64_prefix)
  have s: "slice i j b' = slice i j b" if "j \<le> AddrHdrLen s" for i j
    by (rule slice_prefix [OF p [OF order_refl] that])
  show ?thesis
    using False assms(1) u s
    by (simp add: DecodeAddrHdr_def Let_def hdr_len_defs) (simp add: AddrHdrLen_def hdr_len_defs)
qed

lemma common_hdr_prefix:
  assumes "take 12 b' = take 12 b" 
  shows "common_hdr b' = common_hdr b"
proof -
  have "b' ! i = b ! i" if "i < 12" for i
    using arg_cong [OF assms, of "\<lambda>x. x ! i"] that by simp
  moreover have "slice i j b' = slice i j b" if "j \<le> 12" for i j
    by (rule slice_prefix [OF assms that])
  ultimately show ?thesis by (simp add: common_hdr_def Let_def)
qed

text \<open>Writing a path over the path of a packet and decoding the packet again.\<close>

lemma SCION_Decode_put:
  assumes "SCION_DecodeFromBytes reg pkt = Inr s" "NewPath reg (PathType s) = Inr q0"
    "path_offset s \<le> off" "off + length b \<le> unat (HdrLen s) * LineLen"
    "pkt' = put_at off b pkt"
    "\<And>s0 :: scion. Path_BuildFromHeader q0 (slice (path_offset s) (unat (HdrLen s) * LineLen) pkt') s0 = Inr q"
  shows "SCION_DecodeFromBytes reg pkt' = Inr (s\<lparr>SPath := Some q, Contents := take (unat (HdrLen s) * LineLen) pkt'\<rparr>)"
proof -
  from assms(1) [unfolded SCION_Decode_iff] obtain s1 q1 where l: "CmnHdrLen \<le> length pkt"
    and d: "DecodeAddrHdr (common_hdr pkt) (drop CmnHdrLen pkt) = Inr s1"
    and ol: "path_offset s1 \<le> unat (HdrLen s1) * LineLen" "unat (HdrLen s1) * LineLen \<le> length pkt"
    and s: "s = s1\<lparr>SPath := Some q1, Contents := take (unat (HdrLen s1) * LineLen) pkt, Payload := drop (unat (HdrLen s1) * LineLen) pkt\<rparr>"
    by auto
  have e: "path_offset s = path_offset s1" "HdrLen s = HdrLen s1" "PathType s = PathType s1"
    by (simp_all add: s path_offset_def AddrHdrLen_def)
  have len: "length pkt' = length pkt" using assms(4,5) ol(2) e by simp
  have pre: "take (path_offset s1) pkt' = take (path_offset s1) pkt"
    using assms(3,5) ol e by (simp add: take_put_at_low)
  have post: "drop (unat (HdrLen s1) * LineLen) pkt' = drop (unat (HdrLen s1) * LineLen) pkt"
    using assms(4,5) ol e by (simp add: put_at_def)
  have "take 12 pkt' = take 12 pkt"
    using arg_cong [OF pre, of "take 12"] by (simp add: path_offset_def CmnHdrLen_def min_absorb1)
  then have c: "common_hdr pkt' = common_hdr pkt" by (rule common_hdr_prefix)
  have "take (AddrHdrLen (common_hdr pkt)) (drop CmnHdrLen pkt') = take (AddrHdrLen (common_hdr pkt)) (drop CmnHdrLen pkt)"
    using pre DecodeAddrHdr_Inr(1) [OF d] by (intro take_drop_prefix) (simp add: path_offset_def)
  then have d': "DecodeAddrHdr (common_hdr pkt') (drop CmnHdrLen pkt') = Inr s1"
    using DecodeAddrHdr_prefix [of "drop CmnHdrLen pkt'" "drop CmnHdrLen pkt" "common_hdr pkt"] c d len by simp
  have q: "Path_BuildFromHeader q0 (slice (path_offset s1) (unat (HdrLen s1) * LineLen) pkt') s1 = Inr q"
    using assms(6) [of s1] unfolding e .
  have n: "NewPath reg (PathType s1) = Inr q0" using assms(2) unfolding e .
  show ?thesis
    unfolding SCION_Decode_iff
    by (intro conjI exI [of _ s1] exI [of _ q0] exI [of _ q]) (use l len d' ol n q post in \<open>simp_all add: s\<close>)
qed

text \<open>The processor as \<open>processSCION\<close> starts on a packet.\<close>

definition scion_start :: "processor \<Rightarrow> bytes \<Rightarrow> scion \<Rightarrow> last_layer \<Rightarrow> raw_path \<Rightarrow> processor" where
  "scion_start p pkt s l r = (proc_reset p)\<lparr>rawPkt := pkt, scionLayer := s, lastLayer := l, ppath := r, pathOff := path_offset s\<rparr>"

lemma scion_start_sel [simp]:
  "ppath (scion_start p pkt s l r) = r" "rawPkt (scion_start p pkt s l r) = pkt"
  "pathOff (scion_start p pkt s l r) = path_offset s" "scionLayer (scion_start p pkt s l r) = s"
  "lastLayer (scion_start p pkt s l r) = l" "segmentChange (scion_start p pkt s l r) = False"
  "dp (scion_start p pkt s l r) = dp p" "ingressID (scion_start p pkt s l r) = ingressID p" "pmac (scion_start p pkt s l r) = pmac p"
  by (simp_all add: scion_start_def proc_reset_def)

lemma Base_Decode_take:
  assumes "4 \<le> n" "n \<le> length b"
  shows "Base_DecodeFromBytes (take n b) = Base_DecodeFromBytes b"
proof -
  have "Uint32 (take n b) = Uint32 b" using assms by (simp add: Uint32_def)
  then show ?thesis using assms by (simp add: Base_DecodeFromBytes_def MetaHdr_DecodeFromBytes_def MetaLen_def)
qed

lemma Raw_Decode_on_wire:
  assumes "Raw_DecodeFromBytes b = Inr r"
  shows "on_wire r" "raw_wf r" "Raw r = take (path_Len r) b" "path_Len r \<le> length b"
proof -
  note wf = Raw_Decode_wf [OF assms]
  from assms obtain s where s: "Base_DecodeFromBytes b = Inr s" "path_Len s \<le> length b"
    and r: "r = \<lparr>PathMeta = PathMeta s, NumINF = NumINF s, NumHops = NumHops s, Raw = slice 0 (path_Len s) b\<rparr>"
    by (auto simp: Raw_DecodeFromBytes_def res_simps split: if_splits)
  have p: "path_Len r = path_Len s" "4 \<le> path_Len s" by (simp_all add: r path_Len_def MetaLen_def)
  then have "Raw_DecodeFromBytes (take (path_Len s) b) = Inr r"
    using s Base_Decode_take [of "path_Len s" b] by (simp add: Raw_DecodeFromBytes_def r slice_def)
  then show "on_wire r" "raw_wf r" "Raw r = take (path_Len r) b" "path_Len r \<le> length b"
    using wf p s by (simp_all add: on_wire_def)
qed

lemma Raw_Decode_longer:
  assumes "on_wire r" "take (path_Len r) b = Raw r" "path_Len r \<le> length b"
  shows "Raw_DecodeFromBytes b = Inr r"
proof -
  from assms(1) obtain s where s: "Base_DecodeFromBytes (Raw r) = Inr s" "path_Len s \<le> length (Raw r)"
    and r: "r = \<lparr>PathMeta = PathMeta s, NumINF = NumINF s, NumHops = NumHops s, Raw = slice 0 (path_Len s) (Raw r)\<rparr>"
    by (auto simp: on_wire_def Raw_DecodeFromBytes_def res_simps split: if_splits)
  have p: "PathMeta r = PathMeta s" "NumINF r = NumINF s" "NumHops r = NumHops s" by (subst r, simp)+
  then have l: "path_Len r = path_Len s" "4 \<le> path_Len s" by (simp_all add: path_Len_def MetaLen_def)
  then have "Base_DecodeFromBytes b = Inr s" using Base_Decode_take [of "path_Len r" b] assms(2,3) s by simp
  then show ?thesis using l assms(2,3) p by (simp add: Raw_DecodeFromBytes_def slice_def)
qed

lemma decoded_scion:
  assumes reg: "slayers_init = Inr reg" and d: "SCION_DecodeFromBytes reg pkt = Inr s" and t: "PathType s = Scion_PathType"
  shows "\<exists>r. SPath s = Some (ScionRaw r) \<and> on_wire r \<and> raw_wf r \<and> path_offset s + path_Len r \<le> unat (HdrLen s) * LineLen \<and>
    unat (HdrLen s) * LineLen \<le> length pkt \<and> slice (path_offset s) (path_offset s + path_Len r) pkt = Raw r"
proof -
  let ?h = "unat (HdrLen s) * LineLen"
  from d [unfolded SCION_Decode_iff] obtain s1 q0 q where p: "path_offset s1 \<le> unat (HdrLen s1) * LineLen"
      "unat (HdrLen s1) * LineLen \<le> length pkt" "NewPath reg (PathType s1) = Inr q0"
      "Path_BuildFromHeader q0 (slice (path_offset s1) (unat (HdrLen s1) * LineLen) pkt) s1 = Inr q"
    and s: "s = s1\<lparr>SPath := Some q, Contents := take (unat (HdrLen s1) * LineLen) pkt, Payload := drop (unat (HdrLen s1) * LineLen) pkt\<rparr>"
    by auto
  have e: "path_offset s1 = path_offset s" "HdrLen s1 = HdrLen s" "PathType s1 = PathType s" "SPath s = Some q"
    by (simp_all add: s path_offset_def AddrHdrLen_def)
  have "q0 = ScionRaw raw_zero" using p(3) slayers_new(2) [OF reg] t e(3) by simp
  then obtain r where r: "Raw_DecodeFromBytes (slice (path_offset s) ?h pkt) = Inr r" "q = ScionRaw r"
    using p(4) e by (auto simp: res_simps)
  note w = Raw_Decode_on_wire [OF r(1)]
  have "slice (path_offset s) (path_offset s + path_Len r) pkt = Raw r"
    using w(3,4) p(1,2) e by (simp add: slice_def)
  then show ?thesis using w p(1,2) e r(2) by (intro exI [of _ r]) (auto simp: min_def split: if_splits)
qed

lemma scion_start_synced:
  assumes "slayers_init = Inr reg" "SCION_DecodeFromBytes reg pkt = Inr s" "PathType s = Scion_PathType" "SPath s = Some (ScionRaw r)"
  shows "path_synced (scion_start p pkt s l r)"
  using decoded_scion [OF assms(1-3)] assms(4) by (auto simp: path_synced_def alias_path_def)

lemma decodeLayers_scion: "decodeLayers reg pkt = Inr (s, l) \<Longrightarrow> SCION_DecodeFromBytes reg pkt = Inr s"
  by (auto simp: decodeLayers_def res_simps)

lemma processPkt_scion:
  assumes "decodeLayers reg pkt = Inr (s, l)" "PathType s = Scion_PathType" "SPath s = Some (ScionRaw r)"
  shows "processPkt reg dec order env p pkt src = effect_of (process env (scion_start p pkt s l r))"
  using assms by (simp add: processPkt_def Let_def processSCION_def scion_start_def path_type_defs)

lemma effect_of_None: "effect_of out = PktResult res None \<longleftrightarrow> (\<exists>p'. out = (p', res, None))"
  by (cases out) (simp add: effect_of_def)

lemma processPkt_forwards:
  assumes "slayers_init = Inr reg" "decodeLayers reg pkt = Inr (s, l)" "PathType s = Scion_PathType"
    "length (scionInput env) = MACBufferSize"
  shows "processPkt reg dec order env p pkt src = PktResult res None \<longleftrightarrow>
    (\<exists>r. SPath s = Some (ScionRaw r) \<and> forwards env (scion_start p pkt s l r) res)"
proof -
  note d = decodeLayers_scion [OF assms(2)]
  obtain r where r: "SPath s = Some (ScionRaw r)" using decoded_scion [OF assms(1) d assms(3)] by auto
  show ?thesis
    using process_iff [OF scion_start_synced [OF assms(1) d assms(3) r] assms(4), of p l res] r
    by (simp add: effect_of_None processPkt_scion [OF assms(2,3) r])
qed

lemma decodeLayers_same_payload:
  assumes "decodeLayers reg pkt = Inr (s, l)" "SCION_DecodeFromBytes reg pkt' = Inr s'"
    "NextHdr s' = NextHdr s" "Payload s' = Payload s"
  shows "\<exists>l'. decodeLayers reg pkt' = Inr (s', l') \<and> LastPayload l' = LastPayload l \<and> LastNextLayerType l' = LastNextLayerType l"
  using assms by (auto simp: decodeLayers_def res_simps NextLayerType_def split: if_splits)

section \<open>Forwarded packets\<close>

lemma forwards_leaving:
  assumes "forwards env p res" "EgressID res \<noteq> 0"
  shows "\<not> at_destination p" "OutAddr res = None"
  using assms by (auto simp: forwards_def delivers_def sends_def Let_def split: if_splits option.splits)

lemma forwarded_packet:
  assumes reg: "slayers_init = Inr reg" and d: "SCION_DecodeFromBytes reg pkt = Inr s" and t: "PathType s = Scion_PathType"
    and r: "SPath s = Some (ScionRaw r)" and f: "forwards env (scion_start p pkt s l r) res"
  shows "\<exists>r'. path_kept r r' \<and> OutPkt res = put_at (path_offset s) (Raw r') pkt \<and> length (OutPkt res) = length pkt \<and>
    (NumHops r \<le> MaxHops \<longrightarrow> SCION_DecodeFromBytes reg (OutPkt res) =
      Inr (s\<lparr>SPath := Some (ScionRaw r'), Contents := take (unat (HdrLen s) * LineLen) (OutPkt res)\<rparr>)) \<and>
    (EgressID res \<noteq> 0 \<longrightarrow> cur_hf r < cur_hf r' \<and> cur_hf r' < NumHops r)"
proof -
  let ?h = "unat (HdrLen s) * LineLen" and ?o = "path_offset s"
  from decoded_scion [OF reg d t] r have w: "on_wire r" "raw_wf r" "?o + path_Len r \<le> ?h" "?h \<le> length pkt"
    "slice ?o (?o + path_Len r) pkt = Raw r" by auto
  from forwards_path [OF _ f] w(2) obtain r' where k: "path_kept r r'" and p: "OutPkt res = put_at ?o (Raw r') pkt"
    and l: "\<not> at_destination (scion_start p pkt s l r) \<and> OutAddr res = None \<longrightarrow> cur_hf r < cur_hf r' \<and> cur_hf r' < NumHops r"
    by auto
  have len: "length (Raw r') = path_Len r" using k by (simp add: path_kept_def raw_wf_def path_Len_def)
  have q: "Path_BuildFromHeader (ScionRaw raw_zero) (slice ?o ?h (OutPkt res)) s0 = Inr (ScionRaw r')"
    if "NumHops r \<le> MaxHops" for s0 :: scion
  proof -
    have "on_wire r'" using k w(1) that by (simp add: path_kept_def)
    moreover have "take (path_Len r) (slice ?o ?h (OutPkt res)) = Raw r'"
      using w(3,4) len by (simp add: p slice_def put_at_def)
    moreover have "path_Len r' = path_Len r" using k by (simp add: path_kept_def path_Len_def)
    moreover have "path_Len r \<le> length (slice ?o ?h (OutPkt res))" using w(3,4) len by (simp add: p)
    ultimately have "Raw_DecodeFromBytes (slice ?o ?h (OutPkt res)) = Inr r'"
      by (intro Raw_Decode_longer) simp_all
    then show ?thesis by simp
  qed
  have dec: "SCION_DecodeFromBytes reg (OutPkt res) = Inr (s\<lparr>SPath := Some (ScionRaw r'), Contents := take ?h (OutPkt res)\<rparr>)"
    if "NumHops r \<le> MaxHops"
  proof (rule SCION_Decode_put [OF d _ _ _ p q [OF that]])
    show "NewPath reg (PathType s) = Inr (ScionRaw raw_zero)" using slayers_new(2) [OF reg] t by simp
  qed (use len w(3) in simp_all)
  show ?thesis
    using k p len w(3,4) dec l forwards_leaving [OF f] by (intro exI [of _ r']) simp
qed

section \<open>A small router and packet\<close>

definition demo_env :: env where
  "demo_env = \<lparr>Now = 1000000000, Intn = (\<lambda>_. 0), IsUp = (\<lambda>_. True), PrependBytes = (\<lambda>n. replicate n 0), Aes = demo_aes,
     scionInput = replicate 16 0, epicInput = []\<rparr>"

definition demo_config :: dataplane where
  "demo_config = demo_dataplane\<lparr>external := [(2, 7)], internal := Some 1, localIA := 5\<rparr>"

definition demo_router :: processor where
  "demo_router = \<lparr>dp = demo_config, ingressID = 0, rawPkt = [], pmac = (\<lambda>b. replicate 16 0), scionLayer = scion_zero,
     lastLayer = LastSCION scion_zero, ppath = raw_zero, pathOff = 0, hopField = hop_zero, infoField = info_zero,
     segmentChange = False, cachedMac = []\<rparr>"

text \<open>One segment of two hops in construction direction, leaving this AS by interface 2.\<close>

definition demo_hdr :: bytes where
  "demo_hdr = [0, 0, 0, 1, 17, 18, 0, 4, 1, 0, 0, 0] @ PutUint64 9 @ PutUint64 5 @ [10, 0, 0, 1] @ [10, 0, 0, 2]"

definition demo_scion_path :: bytes where
  "demo_scion_path = [0, 0, 0x20, 0] @ [1, 0, 0, 0, 0, 0, 0, 0] @
     [0, 63, 0, 0, 0, 2, 0, 0, 0, 0, 0, 0] @ [0, 63, 0, 3, 0, 0, 0, 0, 0, 0, 0, 0]"

definition demo_pkt :: bytes where
  "demo_pkt = demo_hdr @ demo_scion_path @ [1, 2, 3, 4]"

definition demo_reg :: path_registry where
  "demo_reg = (case slayers_init of Inr r \<Rightarrow> r)"

definition demo_effect :: "unit pkt_effect" where
  "demo_effect = processPkt demo_reg (\<lambda>_. Inr ()) id demo_env demo_router demo_pkt \<lparr>IP = [], Port = 0\<rparr>"

lemma demo_reg_ok: "slayers_init = Inr demo_reg"
proof -
  obtain r where r: "slayers_init = Inr r" using slayers_init_ok by blast
  show ?thesis unfolding demo_reg_def r by simp
qed

lemma demo_decodes:
  "\<exists>s l r. decodeLayers demo_reg demo_pkt = Inr (s, l) \<and> PathType s = Scion_PathType \<and> SPath s = Some (ScionRaw r) \<and> NumHops r = 2 \<and> cur_hf r = 0"
proof -
  have "case decodeLayers demo_reg demo_pkt of Inl _ \<Rightarrow> False | Inr (s, l) \<Rightarrow> PathType s = Scion_PathType \<and>
    (case SPath s of Some (ScionRaw r) \<Rightarrow> NumHops r = 2 \<and> unat (CurrHF (PathMeta r)) = 0 | _ \<Rightarrow> False)"
    by code_simp
  then obtain s l q where "decodeLayers demo_reg demo_pkt = Inr (s, l)" "PathType s = Scion_PathType" "SPath s = Some q"
    "case q of ScionRaw r \<Rightarrow> NumHops r = 2 \<and> unat (CurrHF (PathMeta r)) = 0 | _ \<Rightarrow> False"
    by (auto split: sum.splits option.splits)
  then show ?thesis by (cases q) auto
qed

lemma demo_forwards: "\<exists>res. demo_effect = PktResult res None \<and> EgressID res = 2"
proof -
  have "case demo_effect of PktResult r None \<Rightarrow> EgressID r = 2 | _ \<Rightarrow> False" by code_simp
  then show ?thesis by (auto split: pkt_effect.splits option.splits)
qed

lemma demo_env_buf: "length (scionInput demo_env) = MACBufferSize"
  by (simp add: demo_env_def MACBufferSize_def)

section \<open>Correctness of SCION forwarding\<close>

text \<open>Claim C1. On a packet that decodes with a SCION path, the router forwards exactly when the specification of
  forwarding over the received header and path fields says so, to the interface, address and with the bytes it gives.\<close>

theorem scion_forwarding_iff:
  assumes "slayers_init = Inr reg" "decodeLayers reg pkt = Inr (s, l)" "PathType s = Scion_PathType"
    "length (scionInput env) = MACBufferSize"
  shows "processPkt reg dec order env p pkt src = PktResult res None \<longleftrightarrow>
    (\<exists>r. SPath s = Some (ScionRaw r) \<and> forwards env (scion_start p pkt s l r) res)"
  by (rule processPkt_forwards [OF assms])

theorem scion_forwarding_iff_witness:
  "\<exists>s l r res. decodeLayers demo_reg demo_pkt = Inr (s, l) \<and> PathType s = Scion_PathType \<and> SPath s = Some (ScionRaw r) \<and>
     forwards demo_env (scion_start demo_router demo_pkt s l r) res \<and> EgressID res = 2"
proof -
  obtain s l where d: "decodeLayers demo_reg demo_pkt = Inr (s, l)" "PathType s = Scion_PathType" using demo_decodes by blast
  obtain res where r: "demo_effect = PktResult res None" "EgressID res = 2" using demo_forwards by blast
  from scion_forwarding_iff [OF demo_reg_ok d demo_env_buf, THEN iffD1, OF r(1) [unfolded demo_effect_def]] d r(2)
  show ?thesis by blast
qed

text \<open>The hop a packet leaves by: the current one, or at the end of a segment the first one of the next.\<close>

definition leaving_hop :: "raw_path \<Rightarrow> nat \<times> nat" where
  "leaving_hop r = (if IsXover r then (unat (CurrINF (inc_meta r)), Suc (cur_hf r)) else (cur_inf r, cur_hf r))"

lemma forwards_authorised:
  assumes "forwards env p res"
  shows "\<exists>info hop. GetCurrentInfoField (ppath p) = Inr info \<and> GetCurrentHopField (ppath p) = Inr hop \<and>
     accepts env p info hop \<and>
     (EgressID res \<noteq> 0 \<longrightarrow> (\<exists>info' hop'. GetInfoField (ppath p) (fst (leaving_hop (ppath p))) = Inr info' \<and>
        GetHopField (ppath p) (snd (leaving_hop (ppath p))) = Inr hop' \<and> \<not> hop_expired env info' hop' \<and>
        (IsXover (ppath p) \<longrightarrow> mac_ok (pmac p) info' hop' \<and>
           xover_ok (linkType (dp p) (ingressID p)) (linkType (dp p) (EgressID res))) \<and>
        EgressID res = hop_egress info' hop' \<and> OutConn res = map_of (external (dp p)) (EgressID res) \<and> OutConn res \<noteq> None \<and>
        (\<forall>v. map_of (bfdSessions (dp p)) (EgressID res) = Some v \<longrightarrow> IsUp env v)))"
proof -
  from assms obtain info hop where g: "GetCurrentInfoField (ppath p) = Inr info" "GetCurrentHopField (ppath p) = Inr hop"
    and a: "accepts env p info hop"
    and f: "let r = ingress_path (ingressID p) info hop (ppath p) in
      if at_destination p then delivers env p r res
      else \<exists>info' hop'. switches env p info hop info' hop' \<and> may_leave env p info' hop' \<and>
        sends p info' hop' (if IsXover (ppath p) then advanced r else r) res"
    by (auto simp: forwards_def)
  have "\<exists>info' hop'. GetInfoField (ppath p) (fst (leaving_hop (ppath p))) = Inr info' \<and>
        GetHopField (ppath p) (snd (leaving_hop (ppath p))) = Inr hop' \<and> \<not> hop_expired env info' hop' \<and>
        (IsXover (ppath p) \<longrightarrow> mac_ok (pmac p) info' hop' \<and>
           xover_ok (linkType (dp p) (ingressID p)) (linkType (dp p) (EgressID res))) \<and>
        EgressID res = hop_egress info' hop' \<and> OutConn res = map_of (external (dp p)) (EgressID res) \<and> OutConn res \<noteq> None \<and>
        (\<forall>v. map_of (bfdSessions (dp p)) (EgressID res) = Some v \<longrightarrow> IsUp env v)" if ne: "EgressID res \<noteq> 0"
  proof -
    have "\<not> at_destination p" by (rule forwards_leaving(1) [OF assms ne])
    then obtain info' hop' r where s: "switches env p info hop info' hop'" "may_leave env p info' hop'" "sends p info' hop' r res"
      using f by (auto simp: Let_def)
    from s(3) ne have e: "EgressID res = hop_egress info' hop'" "OutConn res = map_of (external (dp p)) (EgressID res)" "OutConn res \<noteq> None"
      by (auto simp: sends_def Let_def split: option.splits)
    show ?thesis
    proof (cases "IsXover (ppath p)")
      case True
      then show ?thesis
        using s(1,2) e by (intro exI [of _ info'] exI [of _ hop']) (auto simp: switches_def may_leave_def leaving_hop_def Let_def)
    next
      case False
      then have "hop_egress info' hop' = hop_egress info hop" using s(1) by (simp add: switches_def Let_def)
      with False show ?thesis
        using s(2) e a g by (intro exI [of _ info] exI [of _ hop])
          (simp add: may_leave_def leaving_hop_def accepts_def GetCurrentInfoField_def GetCurrentHopField_def Let_def)
    qed
  qed
  with g a show ?thesis by blast
qed

text \<open>Claim C2. Whatever the router forwards has a current hop field that is not expired, belongs to the interface the
  packet came in by and carries a MAC under the router's key; if it leaves the AS, then by the interface of a hop field
  that is not expired, verified on its own after a legal segment change, and whose BFD session is up.\<close>

theorem forwarded_is_authorised:
  assumes "slayers_init = Inr reg" "decodeLayers reg pkt = Inr (s, l)" "PathType s = Scion_PathType"
    "length (scionInput env) = MACBufferSize" "processPkt reg dec order env p pkt src = PktResult res None"
  shows "\<exists>r info hop. SPath s = Some (ScionRaw r) \<and> GetCurrentInfoField r = Inr info \<and> GetCurrentHopField r = Inr hop \<and>
     \<not> hop_expired env info hop \<and> (ingressID p = 0 \<or> ingressID p = hop_ingress info hop) \<and>
     unat (PayloadLen s) = length (Payload s) \<and> mac_ok (pmac p) (seg_in (ingressID p) info hop) hop \<and>
     (EgressID res \<noteq> 0 \<longrightarrow> (\<exists>info' hop'. GetInfoField r (fst (leaving_hop r)) = Inr info' \<and>
        GetHopField r (snd (leaving_hop r)) = Inr hop' \<and> \<not> hop_expired env info' hop' \<and>
        (IsXover r \<longrightarrow> mac_ok (pmac p) info' hop' \<and>
           xover_ok (linkType (dp p) (ingressID p)) (linkType (dp p) (EgressID res))) \<and>
        EgressID res = hop_egress info' hop' \<and> OutConn res = map_of (external (dp p)) (EgressID res) \<and> OutConn res \<noteq> None \<and>
        (\<forall>v. map_of (bfdSessions (dp p)) (EgressID res) = Some v \<longrightarrow> IsUp env v)))"
proof -
  obtain r where r: "SPath s = Some (ScionRaw r)" "forwards env (scion_start p pkt s l r) res"
    using processPkt_forwards [OF assms(1-4), THEN iffD1, OF assms(5)] by blast
  from forwards_authorised [OF r(2)] r(1) show ?thesis unfolding accepts_def scion_start_sel by blast
qed

theorem forwarded_is_authorised_witness:
  "\<exists>s l r res hop'. decodeLayers demo_reg demo_pkt = Inr (s, l) \<and> SPath s = Some (ScionRaw r) \<and> demo_effect = PktResult res None \<and> EgressID res = 2 \<and>
     GetHopField r (snd (leaving_hop r)) = Inr hop' \<and> OutConn res = Some 7"
proof -
  obtain s l where d: "decodeLayers demo_reg demo_pkt = Inr (s, l)" "PathType s = Scion_PathType" using demo_decodes by blast
  obtain res where r: "demo_effect = PktResult res None" "EgressID res = 2" using demo_forwards by blast
  have c: "map_of (external (dp demo_router)) 2 = Some 7" by (simp add: demo_router_def demo_config_def)
  from forwarded_is_authorised [OF demo_reg_ok d demo_env_buf r(1) [unfolded demo_effect_def]] obtain r' hop' where
    "SPath s = Some (ScionRaw r')" "GetHopField r' (snd (leaving_hop r')) = Inr hop'" "OutConn res = map_of (external (dp demo_router)) 2"
    unfolding r(2) by fastforce
  with r c d(1) show ?thesis by metis
qed

text \<open>Claim C4. A forwarded SCION packet is the received one with a new path in place: the length and every byte
  outside the path are kept, no hop field changes but for cleared router alerts, no info field but for its segment
  identifier, and up to \<open>MaxHops\<close> hops the result decodes to the same header with the new path.\<close>

theorem forwarded_bytes:
  assumes "slayers_init = Inr reg" "decodeLayers reg pkt = Inr (s, l)" "PathType s = Scion_PathType"
    "length (scionInput env) = MACBufferSize" "processPkt reg dec order env p pkt src = PktResult res None"
  shows "\<exists>r r'. SPath s = Some (ScionRaw r) \<and> path_kept r r' \<and> length (OutPkt res) = length pkt \<and>
     take (path_offset s) (OutPkt res) = take (path_offset s) pkt \<and>
     drop (path_offset s + path_Len r) (OutPkt res) = drop (path_offset s + path_Len r) pkt \<and>
     slice (path_offset s) (path_offset s + path_Len r) (OutPkt res) = Raw r' \<and>
     (NumHops r \<le> MaxHops \<longrightarrow> SCION_DecodeFromBytes reg (OutPkt res) =
       Inr (s\<lparr>SPath := Some (ScionRaw r'), Contents := take (unat (HdrLen s) * LineLen) (OutPkt res)\<rparr>))"
proof -
  note d = decodeLayers_scion [OF assms(2)]
  obtain r where r: "SPath s = Some (ScionRaw r)" "forwards env (scion_start p pkt s l r) res"
    using processPkt_forwards [OF assms(1-4), THEN iffD1, OF assms(5)] by blast
  from decoded_scion [OF assms(1) d assms(3)] r(1) have o': "path_offset s + path_Len r \<le> length pkt" by auto
  from forwarded_packet [OF assms(1) d assms(3) r] obtain r' where r': "path_kept r r'" "OutPkt res = put_at (path_offset s) (Raw r') pkt"
    "length (OutPkt res) = length pkt" "NumHops r \<le> MaxHops \<longrightarrow> SCION_DecodeFromBytes reg (OutPkt res) =
      Inr (s\<lparr>SPath := Some (ScionRaw r'), Contents := take (unat (HdrLen s) * LineLen) (OutPkt res)\<rparr>)" by blast
  have len: "length (Raw r') = path_Len r" using r'(1) by (simp add: path_kept_def raw_wf_def path_Len_def)
  have "take (path_offset s) (OutPkt res) = take (path_offset s) pkt"
    "drop (path_offset s + path_Len r) (OutPkt res) = drop (path_offset s + path_Len r) pkt"
    "slice (path_offset s) (path_offset s + path_Len r) (OutPkt res) = Raw r'"
    using len o' by (simp_all add: r'(2) take_put_at_low) (simp add: put_at_def)
  with r(1) r'(1,3,4) show ?thesis by blast
qed

theorem forwarded_bytes_witness:
  "\<exists>s r r' res. SPath s = Some (ScionRaw r) \<and> demo_effect = PktResult res None \<and> path_kept r r' \<and> length (OutPkt res) = length demo_pkt \<and>
     SCION_DecodeFromBytes demo_reg (OutPkt res) =
       Inr (s\<lparr>SPath := Some (ScionRaw r'), Contents := take (unat (HdrLen s) * LineLen) (OutPkt res)\<rparr>)"
proof -
  obtain s l r where d: "decodeLayers demo_reg demo_pkt = Inr (s, l)" "PathType s = Scion_PathType"
    and r: "SPath s = Some (ScionRaw r)" "NumHops r = 2" using demo_decodes by blast
  obtain res where res: "demo_effect = PktResult res None" using demo_forwards by blast
  from forwarded_bytes [OF demo_reg_ok d demo_env_buf res [unfolded demo_effect_def]] r res show ?thesis
    by (auto simp: MaxHops_def)
qed

section \<open>Progress between ASes\<close>

text \<open>A packet on its way through any routers, each with its own configuration and state: \<open>n\<close> counts how often it left
  an AS, steps from router to router inside an AS and deliveries are free.\<close>

inductive travels :: "path_registry \<Rightarrow> bytes \<Rightarrow> nat \<Rightarrow> bytes \<Rightarrow> bool" for reg pkt where
  start: "travels reg pkt 0 pkt"
| inside: "travels reg pkt n pkt' \<Longrightarrow> length (scionInput env) = MACBufferSize \<Longrightarrow>
    processPkt reg (\<lambda>_. Inr ()) id env p pkt' src = PktResult res None \<Longrightarrow> EgressID res = 0 \<Longrightarrow>
    travels reg pkt n (OutPkt res)"
| leave: "travels reg pkt n pkt' \<Longrightarrow> length (scionInput env) = MACBufferSize \<Longrightarrow>
    processPkt reg (\<lambda>_. Inr ()) id env p pkt' src = PktResult res None \<Longrightarrow> EgressID res \<noteq> 0 \<Longrightarrow>
    travels reg pkt (Suc n) (OutPkt res)"

definition scion_packet :: "path_registry \<Rightarrow> bytes \<Rightarrow> raw_path \<Rightarrow> bool" where
  "scion_packet reg pkt r \<longleftrightarrow> (\<exists>s l. decodeLayers reg pkt = Inr (s, l) \<and> PathType s = Scion_PathType \<and> SPath s = Some (ScionRaw r))"

lemma scion_packet_step:
  assumes reg: "slayers_init = Inr reg" and w: "scion_packet reg pkt r" and len: "length (scionInput env) = MACBufferSize"
    and f: "processPkt reg dec order env p pkt src = PktResult res None" and h: "NumHops r \<le> MaxHops"
  shows "\<exists>r'. scion_packet reg (OutPkt res) r' \<and> path_kept r r' \<and>
    (EgressID res \<noteq> 0 \<longrightarrow> cur_hf r < cur_hf r' \<and> cur_hf r' < NumHops r)"
proof -
  from w obtain s l where d: "decodeLayers reg pkt = Inr (s, l)" "PathType s = Scion_PathType" "SPath s = Some (ScionRaw r)"
    by (auto simp: scion_packet_def)
  have "forwards env (scion_start p pkt s l r) res"
    using processPkt_forwards [OF reg d(1,2) len, THEN iffD1, OF f] d(3) by auto
  from forwarded_packet [OF reg decodeLayers_scion [OF d(1)] d(2,3) this] h obtain r' where r': "path_kept r r'"
    "SCION_DecodeFromBytes reg (OutPkt res) =
      Inr (s\<lparr>SPath := Some (ScionRaw r'), Contents := take (unat (HdrLen s) * LineLen) (OutPkt res)\<rparr>)"
    "EgressID res \<noteq> 0 \<longrightarrow> cur_hf r < cur_hf r' \<and> cur_hf r' < NumHops r" by blast
  from decodeLayers_same_payload [OF d(1) r'(2)] d(2) have "scion_packet reg (OutPkt res) r'"
    by (auto simp: scion_packet_def)
  with r' show ?thesis by blast
qed

lemma travels_progress:
  assumes "travels reg pkt n pkt'" "slayers_init = Inr reg" "scion_packet reg pkt r" "NumHops r \<le> MaxHops"
  shows "\<exists>r'. scion_packet reg pkt' r' \<and> path_kept r r' \<and> cur_hf r + n \<le> cur_hf r' \<and> (0 < n \<longrightarrow> cur_hf r + n < NumHops r)"
  using assms(1)
proof (induction rule: travels.induct)
  case start
  from assms(3) obtain s l where d: "decodeLayers reg pkt = Inr (s, l)" "PathType s = Scion_PathType" "SPath s = Some (ScionRaw r)"
    by (auto simp: scion_packet_def)
  have "raw_wf r" using decoded_scion [OF assms(2) decodeLayers_scion [OF d(1)] d(2)] d(3) by auto
  then show ?case using assms(3) path_kept_refl by (intro exI [of _ r]) simp
next
  case (inside n pkt' env p src res)
  then obtain r' where r': "scion_packet reg pkt' r'" "path_kept r r'" "cur_hf r + n \<le> cur_hf r'" "0 < n \<longrightarrow> cur_hf r + n < NumHops r"
    by blast
  have "NumHops r' \<le> MaxHops" using r'(2) assms(4) by (simp add: path_kept_def)
  from scion_packet_step [OF assms(2) r'(1) inside.hyps(2,3) this] obtain q where q: "scion_packet reg (OutPkt res) q" "path_kept r' q"
    by blast
  then have "cur_hf r' \<le> cur_hf q" by (simp add: path_kept_def)
  with q r' path_kept_trans [OF r'(2) q(2)] show ?case by (intro exI [of _ q]) auto
next
  case (leave n pkt' env p src res)
  then obtain r' where r': "scion_packet reg pkt' r'" "path_kept r r'" "cur_hf r + n \<le> cur_hf r'"
    by blast
  have h: "NumHops r' = NumHops r" using r'(2) by (simp add: path_kept_def)
  then have "NumHops r' \<le> MaxHops" using assms(4) by simp
  from scion_packet_step [OF assms(2) r'(1) leave.hyps(2,3) this] leave.hyps(4) obtain q where q: "scion_packet reg (OutPkt res) q" "path_kept r' q"
    "cur_hf r' < cur_hf q" "cur_hf q < NumHops r'" by blast
  with r' h path_kept_trans [OF r'(2) q(2)] show ?case by (intro exI [of _ q]) auto
qed

text \<open>Claim C3. A SCION packet of at most \<open>MaxHops\<close> hops leaves an AS fewer times than its path has hops left,
  through whatever routers it passes: each time its hop pointer moves on, and never back.\<close>

theorem inter_as_progress:
  assumes "travels reg pkt n pkt'" "slayers_init = Inr reg" "scion_packet reg pkt r" "NumHops r \<le> MaxHops" "0 < n"
  shows "cur_hf r + n < NumHops r \<and> (\<exists>r'. scion_packet reg pkt' r' \<and> path_kept r r' \<and> cur_hf r + n \<le> cur_hf r')"
  using travels_progress [OF assms(1-4)] assms(5) by blast

theorem inter_as_progress_witness:
  "\<exists>pkt' r r'. travels demo_reg demo_pkt 1 pkt' \<and> scion_packet demo_reg demo_pkt r \<and> scion_packet demo_reg pkt' r' \<and> 1 \<le> cur_hf r'"
proof -
  obtain r where r: "scion_packet demo_reg demo_pkt r" "NumHops r = 2" "cur_hf r = 0"
    using demo_decodes unfolding scion_packet_def by blast
  obtain res where res: "demo_effect = PktResult res None" "EgressID res = 2" using demo_forwards by blast
  have t: "travels demo_reg demo_pkt 1 (OutPkt res)"
    using travels.leave [OF travels.start demo_env_buf res(1) [unfolded demo_effect_def]] res(2) by simp
  from inter_as_progress [OF t demo_reg_ok r(1)] r(2) obtain r' where
    "scion_packet demo_reg (OutPkt res) r'" "cur_hf r + 1 \<le> cur_hf r'" by (auto simp: MaxHops_def)
  then show ?thesis using t r by auto
qed

end
