(* ===== verification/Router_Replies.thy ===== *)
theory Router_Replies
  imports Router_Packets
begin

unbundle bit_operations_syntax

text \<open>
  The SCMP messages of the border router (\<open>packSCMP\<close>, \<open>prepareSCMP\<close> of go/pkg/router/dataplane.go): when it answers
  a packet, how long the answer is and to whom it goes. What holds for every reply \<open>packSCMP\<close> makes holds for
  every answer of the router; the locale carries such a property through all steps of packet processing.
\<close>

section \<open>Properties of all replies\<close>

text \<open>The SCMP messages the router sends, with the type code and the cause it gives.\<close>

inductive scmp_sent :: "u16 \<Rightarrow> scmp_msg \<Rightarrow> go_error option \<Rightarrow> bool" where
  problem: "scmp_sent (CreateSCMPTypeCode SCMPTypeParameterProblem code) (SCMPParameterProblem ptr) (Some e)"
| unreachable: "scmp_sent (CreateSCMPTypeCode SCMPTypeDestinationUnreachable SCMPCodeNoRoute) SCMPDestinationUnreachable (Some e)"
| external_down: "scmp_sent (CreateSCMPTypeCode SCMPTypeExternalInterfaceDown 0) (SCMPExternalInterfaceDown ia i) (Some e)"
| internal_down: "scmp_sent (CreateSCMPTypeCode SCMPTypeInternalConnectivityDown 0) (SCMPInternalConnectivityDown ia i j) (Some e)"
| traceroute: "scmp_sent (CreateSCMPTypeCode SCMPTypeTracerouteReply 0) (SCMPTraceroute a b ia i) None"

lemma lastLayer_store [simp]: "lastLayer (store_path p r) = lastLayer p"
  by (simp add: store_path_def)

lemma lastLayer_clear [simp]: "lastLayer (clear_ingress_alert p) = lastLayer p" "lastLayer (clear_egress_alert p) = lastLayer p"
  by (simp_all add: clear_ingress_alert_def clear_egress_alert_def)

lemma lastLayer_packSCMP: "lastLayer (fst (packSCMP env t m c p)) = lastLayer p"
  by (simp add: packSCMP_def prepareSCMP_def proc_fail_def Let_def split: sum.split prod.split option.split path_val.split)

locale reply_property =
  fixes env :: env and keep :: "last_layer \<Rightarrow> bool" and good :: "process_result \<Rightarrow> proc_error option \<Rightarrow> bool"
  assumes good_done: "good r None" and good_fail: "good r (Some (PErr e))"
    and good_reply: "keep (lastLayer p) \<Longrightarrow> scmp_sent t m c \<Longrightarrow> packSCMP env t m c p = (q, r, err) \<Longrightarrow> good r err"
begin

definition fine :: "outcome \<Rightarrow> bool" where
  "fine out \<longleftrightarrow> keep (lastLayer (fst out)) \<and> good (fst (snd out)) (snd (snd out))"

lemma fine_basic [simp]:
  "fine (proc_ok p) = keep (lastLayer p)" "fine (proc_fail e p) = keep (lastLayer p)"
  "fine (p, r, None) = keep (lastLayer p)" "fine (p, r, Some (PErr e)) = keep (lastLayer p)"
  by (simp_all add: fine_def proc_ok_def proc_fail_def good_done good_fail)

lemma fine_andThen:
  assumes "fine m" "\<And>q. keep (lastLayer q) \<Longrightarrow> fine (g q)"
  shows "fine (andThen m g)"
  using assms by (cases m; cases "snd (snd m)") (auto simp: andThen_def fine_def)

lemma fine_packSCMP [simp]: "keep (lastLayer p) \<Longrightarrow> scmp_sent t m c \<Longrightarrow> fine (packSCMP env t m c p)"
  using good_reply [of p t m c] lastLayer_packSCMP [of env t m c p]
  by (cases "packSCMP env t m c p") (auto simp: fine_def)

lemma fine_paramProblem [simp]: "keep (lastLayer p) \<Longrightarrow> fine (paramProblem env code ptr c p)"
  by (simp add: paramProblem_def scmp_sent.problem)

lemma fine_writes [simp]:
  assumes "keep (lastLayer p)"
  shows "fine (set_info p)" "fine (set_hop p)" "fine (inc_path p)"
  using assms by (simp_all add: set_info_def set_hop_def inc_path_def split: sum.split)

lemma fine_update [simp]:
  assumes "keep (lastLayer p)"
  shows "fine (updateNonConsDirIngressSegID p)" "fine (processEgress p)"
  using assms by (auto simp: updateNonConsDirIngressSegID_def processEgress_def intro!: fine_andThen)

lemma fine_checks [simp]:
  assumes "keep (lastLayer p)"
  shows "fine (validateHopExpiry env p)" "fine (validateIngressID env p)" "fine (validatePktLen env p)"
    "fine (verifyCurrentMAC env p)" "fine (validateEgressID env p)" "fine (validateEgressUp env p)"
    "fine (handleSCMPTraceRouteRequest env i p)" "fine (snd (resolveInbound env p))"
  using assms
  by (auto simp: validateHopExpiry_def validateIngressID_def validatePktLen_def verifyCurrentMAC_def validateEgressID_def
      validateEgressUp_def handleSCMPTraceRouteRequest_def resolveInbound_def Let_def
      scmp_sent.intros split: option.split sum.split prod.split scmp_msg.split)

lemma fine_steps [simp]:
  assumes "keep (lastLayer p)"
  shows "fine (handleIngressRouterAlert env p)" "fine (handleEgressRouterAlert env p)"
    "fine (parsePath env p)" "fine (doXover env p)"
  using assms by (auto simp: handleIngressRouterAlert_def handleEgressRouterAlert_def parsePath_def doXover_def Let_def
      split: sum.split intro!: fine_andThen)

lemma fine_process:
  assumes "keep (lastLayer p)"
  shows "fine (process env p)"
proof -
  have "fine (process_outbound env q)" if "keep (lastLayer q)" for q
    using that by (auto simp: process_outbound_def Let_def split: option.split intro!: fine_andThen)
  moreover have "fine (case resolveInbound env q of (a, out) \<Rightarrow> andThen out (\<lambda>p.
       (p, \<lparr>EgressID = 0, OutConn = internal (dp p), OutAddr = a, OutPkt = rawPkt p\<rparr>, None)))" if "keep (lastLayer q)" for q
    using fine_checks(8) [OF that] by (auto split: prod.split intro!: fine_andThen)
  ultimately show ?thesis
    using assms by (auto simp: process_def simp del: split_paired_All intro!: fine_andThen)
qed

lemma fine_entry:
  assumes "keep (lastLayer p)" "\<And>r r' e. good r e \<Longrightarrow> OutPkt r' = [] \<Longrightarrow> good r' e"
  shows "fine (processSCION env p)" "fine (processEPIC env p)" "fine (processOHP env p)"
proof -
  show "fine (processSCION env p)"
    using assms(1) by (simp add: processSCION_def fine_process split: option.split path_val.split)
  have v: "fine (epic_verify env e i q res)" if "keep (lastLayer q)" for e i q res
    using that by (simp add: epic_verify_def Let_def split: sum.split unit.split)
  have "fine (case process env (p\<lparr>ppath := r, pathOff := n\<rparr>) of
      (p, r, Some e) \<Rightarrow> (p, result_zero, Some e) | (p, result, None) \<Rightarrow> epic_verify env e i p result)" for r n e i
  proof (cases "process env (p\<lparr>ppath := r, pathOff := n\<rparr>)")
    case (fields q res err)
    then have "fine (q, res, err)"
      using fine_process [of "p\<lparr>ppath := r, pathOff := n\<rparr>"] assms(1) by simp
    then show ?thesis using v fields assms(2) [of res err result_zero]
      by (cases err) (auto simp: fine_def result_zero_def)
  qed
  then show "fine (processEPIC env p)"
    using assms(1) unfolding processEPIC_def Let_def by (simp split: option.split path_val.split sum.split)
  have "fine (processOHP_out env ohp p)" "fine (processOHP_in env ohp p)" for ohp
    using assms(1) by (simp_all add: processOHP_out_def processOHP_in_def Let_def split: option.split sum.split)
  then show "fine (processOHP env p)"
    using assms(1) by (simp add: processOHP_def split: option.split path_val.split)
qed

end

section \<open>No answers to SCMP errors\<close>

definition scmp_error_layer :: "last_layer \<Rightarrow> bool" where
  "scmp_error_layer l \<longleftrightarrow> LastNextLayerType l = LayerTypeSCMP \<and>
     (case SCMP_DecodeFromBytes scmp_zero (LastPayload l) of Inl _ \<Rightarrow> True | Inr s \<Rightarrow> \<not> InfoMsg (TypeCode s))"

definition no_reply :: "process_result \<Rightarrow> proc_error option \<Rightarrow> bool" where
  "no_reply r e \<longleftrightarrow> (\<forall>t c. e \<noteq> Some (ScmpError t c))"

interpretation answers_none: reply_property env scmp_error_layer no_reply for env
proof
  fix p t m c q r err
  assume "scmp_error_layer (lastLayer p)" "packSCMP env t m c p = (q, r, err)"
  then show "no_reply r err"
    by (auto simp: no_reply_def packSCMP_def scmp_error_layer_def proc_fail_def Let_def split: sum.splits)
qed (simp_all add: no_reply_def)

lemma no_reply_result: "no_reply r e \<Longrightarrow> no_reply r' e"
  by (simp add: no_reply_def)

lemma answers_none_effect: "answers_none.fine out \<Longrightarrow> effect_of out \<noteq> PktResult res (Some (ScmpError t c))"
  by (cases out) (auto simp: effect_of_def answers_none.fine_def no_reply_def)

text \<open>COLIBRI processing never answers.\<close>

definition col_silent :: "col_outcome \<Rightarrow> bool" where
  "col_silent out \<longleftrightarrow> (\<forall>t c. snd (snd out) \<noteq> Some (ScmpError t c))"

lemma col_silent_basic [simp]: "col_silent (col_ok c)" "col_silent (col_fail e c)" "col_silent (c, r, None)"
  by (simp_all add: col_silent_def col_ok_def col_fail_def)

lemma col_silent_then: "col_silent m \<Longrightarrow> (\<And>q. col_silent (g q)) \<Longrightarrow> col_silent (colThen m g)"
  by (cases m; cases "snd (snd m)") (auto simp: colThen_def col_silent_def)

lemma col_silent_checks [simp]:
  "col_silent (col_getPath c)" "col_silent (col_dump c)" "col_silent (cryptographicValidation c)"
  by (simp_all add: col_getPath_def col_dump_def cryptographicValidation_def split: option.split path_val.split sum.split prod.split unit.split)

lemma col_silent_basicValidation [simp]: "col_silent (basicValidation env c)"
  unfolding basicValidation_def
  by (rule col_silent_then) (simp_all add: Let_def split: option.split sum.split)

lemma col_silent_forward [simp]: "col_silent (col_forward env c)"
  by (simp add: col_forward_def Let_def forwardToLocalEgress_def forwardToRemoteEgress_def forwardToLocalAS_def
      forwardToColibriSvc_def split: option.split sum.split)

lemma col_silent_process: "col_silent (col_process env c)"
  by (simp add: col_process_def col_silent_then)

lemma processCOLIBRI_silent: "processCOLIBRI env p \<noteq> (r, Some (ScmpError t c))"
  using col_silent_process [of env "\<lparr>cdp = dp p, cIngressID = ingressID p, cRawPkt = rawPkt p,
       cScionLayer = scionLayer p, cMin = colibri_min_zero\<rparr>"]
  by (auto simp: processCOLIBRI_def col_silent_def split: prod.splits)

lemma colibri_effect_silent: "(case processCOLIBRI env p of (r, e) \<Rightarrow> PktResult r e) \<noteq> PktResult res (Some (ScmpError t c))"
  using processCOLIBRI_silent [of env p] by (cases "processCOLIBRI env p") auto

lemma bfd_effect_silent: "bfd_effect m \<noteq> PktResult res (Some (ScmpError t c))"
  by (cases m rule: bfd_effect.cases) simp_all

lemma no_answer_to_error:
  assumes "decodeLayers reg pkt = Inr (s, l)" "scmp_error_layer l"
  shows "processPkt reg dec order env p pkt src \<noteq> PktResult res (Some (ScmpError t c))"
proof -
  define q where "q = (proc_reset p)\<lparr>rawPkt := pkt, scionLayer := s, lastLayer := l\<rparr>"
  have l: "scmp_error_layer (lastLayer q)" using assms(2) by (simp add: q_def)
  have sel: "lastLayer q = l" by (simp add: q_def)
  note e = answers_none.fine_entry [OF l no_reply_result, THEN answers_none_effect]
  show ?thesis
    unfolding processPkt_def assms(1) Let_def sum.case prod.case q_def [symmetric]
    by (simp add: e colibri_effect_silent bfd_effect_silent split: option.split path_val.split)
qed

text \<open>Claim C10. A packet that carries an SCMP error message, or an SCMP layer that does not decode, is never
  answered with an SCMP message, whatever its path type and whatever is wrong with it.\<close>

theorem no_scmp_for_scmp_error:
  assumes "decodeLayers reg pkt = Inr (s, l)" "LastNextLayerType l = LayerTypeSCMP"
    "\<forall>sc. SCMP_DecodeFromBytes scmp_zero (LastPayload l) = Inr sc \<longrightarrow> \<not> InfoMsg (TypeCode sc)"
  shows "processPkt reg dec order env p pkt src \<noteq> PktResult res (Some (ScmpError t c))"
  using assms by (intro no_answer_to_error [OF assms(1)]) (auto simp: scmp_error_layer_def split: sum.split)

text \<open>A packet with a bad MAC, with an upper layer of type \<open>nh\<close>.\<close>

definition bad_mac_pkt :: "u8 \<Rightarrow> bytes" where
  "bad_mac_pkt nh = [0, 0, 0, 1, nh, 18, 0, 8, 1, 0, 0, 0] @ PutUint64 9 @ PutUint64 5 @ [10, 0, 0, 1] @ [10, 0, 0, 2] @
     [0, 0, 0x20, 0] @ [1, 0, 0, 0, 0, 0, 0, 0] @
     [0, 63, 0, 0, 0, 2, 9, 9, 9, 9, 9, 9] @ [0, 63, 0, 3, 0, 0, 0, 0, 0, 0, 0, 0] @ [1, 0, 0, 0, 0, 0, 0, 0]"

definition bad_mac_effect :: "u8 \<Rightarrow> unit pkt_effect" where
  "bad_mac_effect nh = processPkt demo_reg (\<lambda>_. Inr ()) id demo_env
     (demo_router\<lparr>dp := demo_config\<lparr>internalIP := [10, 0, 0, 3]\<rparr>\<rparr>) (bad_mac_pkt nh) \<lparr>IP = [], Port = 0\<rparr>"

lemma bad_mac_answered:
  "case bad_mac_effect 17 of PktResult r (Some (ScmpError t c)) \<Rightarrow> t = CreateSCMPTypeCode SCMPTypeParameterProblem SCMPCodeInvalidHopFieldMAC | _ \<Rightarrow> False"
  by code_simp

theorem no_scmp_for_scmp_error_witness:
  "\<exists>s l. decodeLayers demo_reg (bad_mac_pkt L4SCMP) = Inr (s, l) \<and> LastNextLayerType l = LayerTypeSCMP \<and>
     (\<forall>res t c. bad_mac_effect L4SCMP \<noteq> PktResult res (Some (ScmpError t c)))"
proof -
  have "case decodeLayers demo_reg (bad_mac_pkt L4SCMP) of Inl _ \<Rightarrow> False | Inr (s, l) \<Rightarrow> LastNextLayerType l = LayerTypeSCMP \<and>
    (case SCMP_DecodeFromBytes scmp_zero (LastPayload l) of Inr sc \<Rightarrow> \<not> InfoMsg (TypeCode sc) | Inl _ \<Rightarrow> True)"
    by code_simp
  then obtain s l where d: "decodeLayers demo_reg (bad_mac_pkt L4SCMP) = Inr (s, l)" "LastNextLayerType l = LayerTypeSCMP"
    "case SCMP_DecodeFromBytes scmp_zero (LastPayload l) of Inr sc \<Rightarrow> \<not> InfoMsg (TypeCode sc) | Inl _ \<Rightarrow> True"
    by (cases "decodeLayers demo_reg (bad_mac_pkt L4SCMP)") auto
  then have "\<forall>sc. SCMP_DecodeFromBytes scmp_zero (LastPayload l) = Inr sc \<longrightarrow> \<not> InfoMsg (TypeCode sc)"
    by (auto split: sum.splits)
  from no_scmp_for_scmp_error [OF d(1,2) this] d(1,2) show ?thesis unfolding bad_mac_effect_def by blast
qed

section \<open>Length of the replies\<close>

lemma write_fields_length:
  assumes "\<forall>x \<in> set xs. \<forall>w w'. ser x w = Inr w' \<and> length w = len \<longrightarrow> length w' = len"
    "write_fields ser len xs off b = Inr b'"
  shows "length b' = length b"
  using assms
proof (induction xs arbitrary: off b)
  case (Cons x xs)
  from Cons.prems(2) obtain w' where w: "off + len \<le> length b" "ser x (slice off (off + len) b) = Inr w'"
    "write_fields ser len xs (off + len) (put_at off w' b) = Inr b'"
    by (cases "off + len \<le> length b"; cases "ser x (slice off (off + len) b)") (simp_all add: gslice_def)
  then have "length (slice off (off + len) b) = len" by simp
  then have "length w' = len" using Cons.prems(1) w(2) by (meson list.set_intros(1))
  moreover have "length b' = length (put_at off w' b)"
    by (rule Cons.IH [OF _ w(3)]) (meson Cons.prems(1) list.set_intros(2))
  ultimately show ?case using w(1) by simp
qed simp

lemma Decoded_SerializeTo_length:
  assumes "list_all hop_wf (HopFields d)" "Decoded_SerializeTo d b = Inr b'"
  shows "length b' = length b"
proof -
  from assms(2) obtain w b1 where "MetaLen \<le> length b" "w = put_at 0 (PutUint32 (meta_line (PathMeta d))) (slice 0 MetaLen b)"
    "write_fields InfoField_SerializeTo InfoLen (InfoFields d) MetaLen (put_at 0 w b) = Inr b1"
    "write_fields HopField_SerializeTo HopLen (HopFields d) (MetaLen + length (InfoFields d) * InfoLen) b1 = Inr b'"
    by (auto simp: Decoded_SerializeTo_def MetaHdr_SerializeTo_def gslice_def res_simps split: if_splits)
  note w = this
  have "length (put_at 0 w b) = length b" using w(1,2) by (simp add: MetaLen_def)
  moreover have "length b1 = length (put_at 0 w b)"
    by (rule write_fields_length [OF _ w(3)]) (auto simp: InfoField_SerializeTo_eq split: if_splits)
  moreover have "length b' = length b1"
    using assms(1) by (intro write_fields_length [OF _ w(4)]) (auto simp: HopField_SerializeTo_eq list_all_iff split: if_splits)
  ultimately show ?thesis by simp
qed

lemma length_put_copy [simp]: "i + n \<le> length b \<Longrightarrow> length (put_at i (go_copy (slice i (i + n) b) x) b) = length b"
  by (rule length_put_at) simp

lemma SerializeAddrHdr_length:
  assumes "SerializeAddrHdr s b = Inr b'"
  shows "length b' = length b"
proof -
  have l: "AddrHdrLen s \<le> length b"
  proof (rule ccontr)
    assume "\<not> AddrHdrLen s \<le> length b"
    then have "SerializeAddrHdr s b = Inl (Err ''provided buffer is too small'')" unfolding SerializeAddrHdr_def by simp
    with assms show False by simp
  qed
  let ?m = "addrBytes (DstAddrLen s)" and ?n = "addrBytes (SrcAddrLen s)"
  define b2 where "b2 = put_at 8 (PutUint64 (SrcIA s)) (put_at 0 (PutUint64 (DstIA s)) b)"
  define b3 where "b3 = put_at 16 (go_copy (slice 16 (16 + ?m) b2) (RawDstAddr s)) b2"
  have n: "16 + ?m + ?n \<le> length b" using l by (simp add: AddrHdrLen_def IABytes_def)
  have e: "0 + (8 :: nat) = 8" "(8 :: nat) + 8 = 16" by simp_all
  have "b' = put_at (16 + ?m) (go_copy (slice (16 + ?m) (16 + ?m + ?n) b3) (RawSrcAddr s)) b3"
    using assms l unfolding SerializeAddrHdr_def Let_def IABytes_def e b2_def [symmetric] b3_def [symmetric]
    by (simp only: not_less [symmetric] if_False sum.inject)
  moreover have "length b2 = length b" using n by (simp add: b2_def)
  moreover from this have "length b3 = length b" using n by (simp add: b3_def)
  ultimately show ?thesis using n by simp
qed

lemma SCION_SerializeTo_length:
  assumes "SPath s = Some (ScionDecoded d)" "list_all hop_wf (HopFields d)" "\<forall>n. length (alloc n) = n"
    "SCION_SerializeTo alloc fixl s b = Inr (s', b')"
  shows "length b' = CmnHdrLen + AddrHdrLen s + path_Len d + length b"
proof -
  let ?n = "CmnHdrLen + AddrHdrLen s + path_Len d"
  define s1 where "s1 = (if fixl then s\<lparr>HdrLen := of_nat (?n div LineLen), PayloadLen := of_nat (length b)\<rparr> else s)"
  define c where "c = cmn_bytes s1 @ drop 12 (alloc ?n)"
  have a: "AddrHdrLen s1 = AddrHdrLen s" by (simp add: s1_def AddrHdrLen_def)
  have le: "12 \<le> length (alloc ?n)" "length c = ?n" using assms(3) by (simp_all add: c_def CmnHdrLen_def)
  have "rbind (SerializeAddrHdr s1 (slice CmnHdrLen ?n c)) (\<lambda>w.
      rbind (gslice (CmnHdrLen + AddrHdrLen s) (length (put_at CmnHdrLen w c)) (put_at CmnHdrLen w c)) (\<lambda>w'.
      rbind (Path_SerializeTo (ScionDecoded d) w') (\<lambda>(p, w').
      Inr (s1\<lparr>SPath := Some p\<rparr>, put_at (CmnHdrLen + AddrHdrLen s) w' (put_at CmnHdrLen w c) @ b)))) = Inr (s', b')"
    using assms(4) le
    unfolding SCION_SerializeTo_def assms(1) option.case Let_def Path_Len.simps s1_def [symmetric]
      plain_sync [of "ScionDecoded d", simplified] rbind_Inr prod.case cmn_written [OF le(1)] c_def [symmetric] a
    by (simp add: CmnHdrLen_def c_def a assms(3) add.assoc)
  then obtain w w2 where w: "SerializeAddrHdr s1 (slice CmnHdrLen ?n c) = Inr w"
    "Decoded_SerializeTo d (slice (CmnHdrLen + AddrHdrLen s) (length (put_at CmnHdrLen w c)) (put_at CmnHdrLen w c)) = Inr w2"
    "b' = put_at (CmnHdrLen + AddrHdrLen s) w2 (put_at CmnHdrLen w c) @ b"
    by (auto simp: res_simps gslice_def split: if_splits)
  have "length w = AddrHdrLen s + path_Len d" using SerializeAddrHdr_length [OF w(1)] le(2) by simp
  then have l: "length (put_at CmnHdrLen w c) = ?n" using le(2) by simp
  moreover have "length w2 = path_Len d" using Decoded_SerializeTo_length [OF assms(2) w(2)] l by simp
  ultimately show ?thesis using w(3) by simp
qed

lemma Decoded_Decode_wf:
  assumes "Decoded_DecodeFromBytes b = Inr d"
  shows "decoded_wf d"
proof -
  from assms obtain s infs hs where s: "Base_DecodeFromBytes b = Inr s" "path_Len s \<le> length b"
    "decode_fields InfoField_DecodeFromBytes InfoLen (NumINF s) MetaLen b = Inr infs"
    "decode_fields HopField_DecodeFromBytes HopLen (NumHops s) (MetaLen + NumINF s * InfoLen) b = Inr hs"
    and d: "d = \<lparr>PathMeta = PathMeta s, NumINF = NumINF s, NumHops = NumHops s, InfoFields = infs, HopFields = hs\<rparr>"
    by (auto simp: Decoded_DecodeFromBytes_def res_simps not_less split: if_splits)
  have "length infs = NumINF s"
    using infow.decode_ok [of MetaLen "NumINF s" b] s(2,3) by (auto simp: path_Len_def)
  moreover have "length hs = NumHops s" "list_all hop_wf hs"
    using hopw.decode_ok [of "MetaLen + NumINF s * InfoLen" "NumHops s" b] s(2,4) by (auto simp: path_Len_def)
  ultimately show ?thesis
    using Base_Decode_shape [OF s(1)] by (simp add: d decoded_wf_def base_shape_def)
qed

lemma Base_IncPath_HopFields: "Base_IncPath (q :: decoded_path) = (q', e) \<Longrightarrow> HopFields q' = HopFields q"
  by (auto simp: Base_IncPath_def Let_def split: if_splits)

lemma inc_decoded_HopFields: "inc_decoded q = Inr q' \<Longrightarrow> HopFields q' = HopFields q"
  using Base_IncPath_HopFields [of q] by (auto simp: inc_decoded_def split: prod.splits option.splits)

lemma scmp_rev_path_hops:
  assumes "decoded_wf d" "scmp_rev_path dpl ing d = Inr q"
  shows "list_all hop_wf (HopFields q)"
proof -
  from assms(2) obtain r where r: "Decoded_Reverse d = Inr (Some r)"
    by (auto simp: scmp_rev_path_def cr_wrap_def res_simps split: option.splits)
  have "0 < NumINF d" using r by (auto simp: Decoded_Reverse_def split: if_splits)
  then have "HopFields r = rev (HopFields d)" using r Decoded_Reverse_eq [OF assms(1)] by (auto simp: rev_decoded_def)
  moreover have "HopFields q = HopFields r"
    using assms(2) r by (auto simp: scmp_rev_path_def cr_wrap_def res_simps Let_def dest!: inc_decoded_HopFields split: if_splits)
  ultimately show ?thesis using assms(1) by (simp add: decoded_wf_def list_all_iff)
qed

text \<open>What a message adds to the SCMP header, and what the quote leaves room for.\<close>

fun msg_len :: "scmp_msg \<Rightarrow> nat" where
  "msg_len (SCMPExternalInterfaceDown _ _) = 16"
| "msg_len (SCMPInternalConnectivityDown _ _ _) = 24"
| "msg_len (SCMPTraceroute _ _ _ _) = 20"
| "msg_len _ = 4"

lemma Msg_SerializeTo_length:
  assumes "\<forall>n. length (alloc n) = n" "scmp_sent t m c"
  shows "length (Msg_SerializeTo alloc m b) = msg_len m + length b"
  using assms(2,1)
  by (cases rule: scmp_sent.cases)
    (simp_all add: ParameterProblem_SerializeTo_def DestinationUnreachable_SerializeTo_def ExternalInterfaceDown_SerializeTo_def
      InternalConnectivityDown_SerializeTo_def Traceroute_SerializeTo_def Let_def IABytes_def scmpRawInterfaceLen_def)

lemma SCMP_SerializeTo_length:
  assumes "\<forall>n. length (alloc n) = n" "SCMP_SerializeTo alloc cs s b = Inr (s', b')"
  shows "length b' = 4 + length b"
  using assms by (auto simp: SCMP_SerializeTo_def TypeCode_SerializeTo_def Let_def res_simps split: option.splits if_splits)

lemma scmp_quote_room:
  assumes "scmp_quote scionL revPath t pkt = Inr quote" "scmp_sent t m (Some e)"
  shows "CmnHdrLen + AddrHdrLen scionL + path_Len revPath + 4 + msg_len m + length quote \<le> MaxSCMPPacketLen"
proof -
  have k: "(if TypeCode_Type t = SCMPTypeExternalInterfaceDown then 20
       else if TypeCode_Type t = SCMPTypeInternalConnectivityDown then 28 else 8) = 4 + msg_len m"
    using assms(2) by (cases rule: scmp_sent.cases) (simp_all add: scmp_type_defs)
  show ?thesis
    using assms(1) unfolding scmp_quote_def Let_def k
    by (auto simp: MaxSCMPPacketLen_def split: if_splits)
qed

lemma SetAddr_SPath:
  "SetDstAddr (s :: scion) a = (s', e) \<Longrightarrow> SPath s' = SPath s" "SetSrcAddr (s :: scion) a = (s', e) \<Longrightarrow> SPath s' = SPath s"
  by (cases "packAddr a"; auto simp: SetDstAddr_def SetSrcAddr_def)+

lemma scmp_scion_SPath:
  assumes "scmp_scion dpl sl r = Inr s"
  shows "SPath s = Some (ScionDecoded r)"
proof -
  define s0 where "s0 = scion_zero\<lparr>FlowID := FlowID sl, TrafficClass := TrafficClass sl, PathType := Scion_PathType,
       SPath := Some (ScionDecoded r), DstIA := SrcIA sl, SrcIA := localIA dpl\<rparr>"
  from assms obtain a where k: "(case SetDstAddr s0 a of
        (_, Some e) \<Rightarrow> Inl (WrapErr ''cannot route, dropping pkt'' e)
      | (scionL, None) \<Rightarrow> (case SetSrcAddr scionL (IPAddr (internalIP dpl)) of
          (_, Some e) \<Rightarrow> Inl (WrapErr ''cannot route, dropping pkt'' e)
        | (scionL, None) \<Rightarrow> Inr (scionL\<lparr>NextHdr := L4SCMP\<rparr>))) = Inr s"
    unfolding scmp_scion_def Let_def s0_def [symmetric] by (elim rbind_eq_Inr [THEN iffD1, elim_format]) blast
  obtain s1 e1 where 1: "SetDstAddr s0 a = (s1, e1)" by fastforce
  obtain s2 e2 where 2: "SetSrcAddr s1 (IPAddr (internalIP dpl)) = (s2, e2)" by fastforce
  have "SPath s2 = Some (ScionDecoded r)" using SetAddr_SPath(1) [OF 1] SetAddr_SPath(2) [OF 2] by (simp add: s0_def)
  with k 1 2 show ?thesis by (cases e1; cases e2) auto
qed

lemma scmp_packet_bound:
  assumes a: "\<forall>n. length (PrependBytes env n) = n" and d: "decoded_wf d" and s: "scmp_sent t m (Some e)"
    and p: "scmp_packet env p d t m (Some e) = Inr pkt"
  shows "length pkt \<le> MaxSCMPPacketLen"
proof -
  from p obtain r sl quote sc b s' where r: "scmp_rev_path (dp p) (ingressID p) d = Inr r"
    and sl: "scmp_scion (dp p) (scionLayer p) r = Inr sl" and q: "scmp_quote sl r t (rawPkt p) = Inr quote"
    and c: "SCMP_SerializeTo (PrependBytes env) True (scmp_zero\<lparr>TypeCode := t, ScmpScn := Some sl\<rparr>)
        (Msg_SerializeTo (PrependBytes env) m quote) = Inr (sc, b)"
    and l: "SCION_SerializeTo (PrependBytes env) True sl b = Inr (s', pkt)"
    by (auto simp: scmp_packet_def cr_wrap_def res_simps)
  have "SPath sl = Some (ScionDecoded r)"
    by (rule scmp_scion_SPath [OF sl])
  from SCION_SerializeTo_length [OF this scmp_rev_path_hops [OF d r] a l]
    SCMP_SerializeTo_length [OF a c] Msg_SerializeTo_length [OF a s] scmp_quote_room [OF q s]
  show ?thesis by simp
qed

definition short_reply :: "env \<Rightarrow> process_result \<Rightarrow> proc_error option \<Rightarrow> bool" where
  "short_reply env r e \<longleftrightarrow> (\<forall>t c. e = Some (ScmpError t (Some c)) \<and> (\<forall>n. length (PrependBytes env n) = n) \<longrightarrow>
     length (OutPkt r) \<le> MaxSCMPPacketLen)"

lemma prepareSCMP_short:
  assumes "scmp_sent t m c" "prepareSCMP env p t m c = (q, pkt, e)"
  shows "short_reply env (result_zero\<lparr>OutPkt := pkt\<rparr>) (Some e)"
proof -
  have "length pkt \<le> MaxSCMPPacketLen" if e: "e = ScmpError t' (Some c')" "\<forall>n. length (PrependBytes env n) = n" for t' c'
  proof -
    from assms(2) e(1) obtain path path' d where d: "Raw_ToDecoded path = Inr (path', d)"
      and p: "scmp_packet env (store_path p path') d t m c = Inr pkt" "c = Some c'"
      by (auto simp: prepareSCMP_def Let_def split: option.splits path_val.splits sum.splits)
    have "decoded_wf d" using d Decoded_Decode_wf by (auto simp: Raw_ToDecoded_def res_simps)
    from scmp_packet_bound [OF e(2) this, of t m c'] assms(1) p show ?thesis by simp
  qed
  then show ?thesis by (auto simp: short_reply_def)
qed

interpretation answers_short: reply_property env "\<lambda>_. True" "short_reply env" for env
proof
  fix p t m c q r err
  assume s: "scmp_sent t m c" and p: "packSCMP env t m c p = (q, r, err)"
  show "short_reply env r err"
    using p prepareSCMP_short [OF s, of env p]
    by (cases "prepareSCMP env p t m c")
      (auto simp: packSCMP_def proc_fail_def Let_def short_reply_def [of env result_zero] split: sum.splits if_splits)
qed (simp_all add: short_reply_def)

lemma short_reply_empty: "OutPkt r' = [] \<Longrightarrow> short_reply env r' e"
  by (simp add: short_reply_def)

lemma short_effect:
  assumes "answers_short.fine env out" "\<forall>n. length (PrependBytes env n) = n" "effect_of out = PktResult res (Some (ScmpError t (Some c)))"
  shows "length (OutPkt res) \<le> MaxSCMPPacketLen"
  using assms by (cases out) (auto simp: effect_of_def answers_short.fine_def short_reply_def)

text \<open>Claim C11. An SCMP error reply, quote included, is at most \<open>MaxSCMPPacketLen\<close> bytes long, whatever packet
  caused it, when the serialisation buffer hands out as many bytes as it is asked for.\<close>

theorem scmp_reply_bounded:
  assumes "\<forall>n. length (PrependBytes env n) = n"
    "processPkt reg dec order env p pkt src = PktResult res (Some (ScmpError t (Some c)))"
  shows "length (OutPkt res) \<le> MaxSCMPPacketLen"
proof (cases "decodeLayers reg pkt")
  case (Inl e)
  then show ?thesis using assms(2) by (simp add: processPkt_def Let_def)
next
  case (Inr x)
  obtain s l where x: "x = (s, l)" by (cases x)
  define q where "q = (proc_reset p)\<lparr>rawPkt := pkt, scionLayer := s, lastLayer := l\<rparr>"
  have f: "answers_short.fine env (processSCION env q)" "answers_short.fine env (processEPIC env q)"
    "answers_short.fine env (processOHP env q)"
    by (auto intro!: answers_short.fine_entry short_reply_empty)
  note e = f [THEN short_effect, OF assms(1)]
  from assms(2) show ?thesis
    unfolding processPkt_def Inr x Let_def sum.case prod.case q_def [symmetric]
    by (simp_all add: colibri_effect_silent bfd_effect_silent split: if_split_asm option.split_asm path_val.split_asm) (erule e)+
qed

theorem scmp_reply_bounded_witness:
  "\<exists>res t c. bad_mac_effect 17 = PktResult res (Some (ScmpError t (Some c))) \<and> length (OutPkt res) \<le> MaxSCMPPacketLen"
proof -
  have "case bad_mac_effect 17 of PktResult r (Some (ScmpError t (Some c))) \<Rightarrow> True | _ \<Rightarrow> False" by code_simp
  then obtain res t c where r: "bad_mac_effect 17 = PktResult res (Some (ScmpError t (Some c)))"
    by (auto split: pkt_effect.splits option.splits proc_error.splits)
  have "\<forall>n. length (PrependBytes demo_env n) = n" by (simp add: demo_env_def)
  from scmp_reply_bounded [OF this r [unfolded bad_mac_effect_def]] r show ?thesis by blast
qed

end
