(* ===== verification/Router_Reservations.thy ===== *)
theory Router_Reservations
  imports Router_Packets
begin

unbundle bit_operations_syntax

text \<open>
  Properties of COLIBRI packet processing at the border router (go/pkg/router/colibri\_processing.go): what the checks
  establish for a forwarded packet, and which packets make the processing panic.
\<close>

section \<open>Inversion of the checks\<close>

lemma colThen_None: "colThen m g = (c', r, None) \<longleftrightarrow> (\<exists>q r'. m = (q, r', None) \<and> g q = (c', r, None))"
  by (cases m; cases "snd (snd m)") (auto simp: colThen_def)

lemma col_ok_None [simp]: "col_ok c = (c', r, None) \<longleftrightarrow> c' = c \<and> r = result_zero"
  by (auto simp: col_ok_def)

lemma col_fail_None [simp]: "col_fail e c \<noteq> (c', r, None)"
  by (simp add: col_fail_def)

lemma SerializeToInternal_fields:
  assumes "SerializeToInternal m = Inr m'"
  shows "MinInfoField m' = MinInfoField m" "CurrHopField m' = CurrHopField m" "MinTimestamp m' = MinTimestamp m"
  using assms by (auto simp: SerializeToInternal_def Let_def res_simps split: option.splits if_splits)

lemma col_dump_None:
  assumes "col_dump c = (c', r, None)"
  shows "MinInfoField (cMin c') = MinInfoField (cMin c)" "CurrHopField (cMin c') = CurrHopField (cMin c)"
    "MinTimestamp (cMin c') = MinTimestamp (cMin c)" "cdp c' = cdp c" "cIngressID c' = cIngressID c"
    "\<exists>x. cScionLayer c' = (cScionLayer c)\<lparr>SPath := x\<rparr>"
proof -
  from assms obtain m buff where m: "ColibriMin_SerializeTo (cMin c) (replicate (ColibriMin_Len (cMin c)) 0) = Inr (m, buff)"
    and c': "c' = store_min c m"
    by (auto simp: col_dump_def split: sum.splits prod.splits)
  from m have "SerializeToInternal (cMin c) = Inr m" by (auto simp: ColibriMin_SerializeTo_def res_simps split: if_splits)
  note f = SerializeToInternal_fields [OF this]
  show "MinInfoField (cMin c') = MinInfoField (cMin c)" "CurrHopField (cMin c') = CurrHopField (cMin c)"
    "MinTimestamp (cMin c') = MinTimestamp (cMin c)" "cdp c' = cdp c" "cIngressID c' = cIngressID c"
    "\<exists>x. cScionLayer c' = (cScionLayer c)\<lparr>SPath := x\<rparr>"
    using f by (auto simp: c' store_min_def)
qed

lemma VerifyMAC_SPath [simp]: "VerifyMAC k ts info hop (s\<lparr>SPath := x\<rparr>) = VerifyMAC k ts info hop s"
  by (simp add: VerifyMAC_def)

text \<open>What a packet has to satisfy, over the header and the path as received.\<close>

definition col_accepts :: "env \<Rightarrow> dataplane \<Rightarrow> u16 \<Rightarrow> scion \<Rightarrow> colibri_min \<Rightarrow> col_info \<Rightarrow> col_hop \<Rightarrow> bool" where
  "col_accepts env d ing s m info hop \<longleftrightarrow> (ColS info \<longrightarrow> ColC info) \<and> (ing = 0 \<or> ing = IngressId hop) \<and>
     unat (PayloadLen s) = length (Payload s) \<and> (\<not> ColR info \<and> \<not> ColC info \<longrightarrow> PayloadLen s = OrigPayLen info) \<and>
     2 \<le> HFCount info \<and> ColCurrHF info < HFCount info \<and> VerifyExpirationTick (Now env) (ExpTick info) \<and>
     (\<not> ColC info \<longrightarrow> Colibri_VerifyTimestamp (ExpTick info) (MinTimestamp m) (Now env)) \<and>
     (EgressId hop = 0) = (ColCurrHF info = HFCount info - 1) \<and> (EgressId hop = 0) = IA_Equal (DstIA s) (localIA d) \<and>
     (\<exists>k. colibriKey d = Some k \<and> VerifyMAC k (MinTimestamp m) info hop s = Inr ())"

lemma basicValidation_None:
  assumes "basicValidation env c = (c', r, None)"
  obtains info hop r0 where "MinInfoField (cMin c) = Some info" "CurrHopField (cMin c) = Some hop"
    "col_dump c = (c', r0, None)" "ColS info \<longrightarrow> ColC info" "cIngressID c = 0 \<or> cIngressID c = IngressId hop"
    "unat (PayloadLen (cScionLayer c)) = length (Payload (cScionLayer c))"
    "\<not> ColR info \<and> \<not> ColC info \<longrightarrow> PayloadLen (cScionLayer c) = OrigPayLen info"
    "2 \<le> HFCount info" "ColCurrHF info < HFCount info" "VerifyExpirationTick (Now env) (ExpTick info)"
    "\<not> ColC info \<longrightarrow> Colibri_VerifyTimestamp (ExpTick info) (MinTimestamp (cMin c)) (Now env)"
    "(EgressId hop = 0) = (ColCurrHF info = HFCount info - 1)"
    "(EgressId hop = 0) = IA_Equal (DstIA (cScionLayer c)) (localIA (cdp c))"
proof -
  from assms obtain c1 r1 where d: "col_dump c = (c1, r1, None)" unfolding basicValidation_def colThen_None by blast
  note f = col_dump_None [OF d]
  obtain x where x: "cScionLayer c1 = (cScionLayer c)\<lparr>SPath := x\<rparr>" using f(6) by blast
  obtain info where i: "MinInfoField (cMin c) = Some info"
    using assms d f(1,2) by (cases "MinInfoField (cMin c)") (auto simp: basicValidation_def colThen_None)
  obtain hop where h: "CurrHopField (cMin c) = Some hop"
    using assms d f(1,2) i by (cases "CurrHopField (cMin c)") (auto simp: basicValidation_def colThen_None)
  have "c' = c1 \<and> (ColS info \<longrightarrow> ColC info) \<and> (cIngressID c = 0 \<or> cIngressID c = IngressId hop) \<and>
    unat (PayloadLen (cScionLayer c)) = length (Payload (cScionLayer c)) \<and>
    (\<not> ColR info \<and> \<not> ColC info \<longrightarrow> PayloadLen (cScionLayer c) = OrigPayLen info) \<and>
    2 \<le> HFCount info \<and> ColCurrHF info < HFCount info \<and> VerifyExpirationTick (Now env) (ExpTick info) \<and>
    (\<not> ColC info \<longrightarrow> Colibri_VerifyTimestamp (ExpTick info) (MinTimestamp (cMin c)) (Now env)) \<and>
    (EgressId hop = 0) = (ColCurrHF info = HFCount info - 1) \<and>
    (EgressId hop = 0) = IA_Equal (DstIA (cScionLayer c)) (localIA (cdp c))"
    using assms d i h unfolding basicValidation_def colThen_None
    by (auto simp: f x i h Let_def not_less not_le ColibriMin_IsLastHop_def split: if_split_asm)
  with that i h d show thesis by blast
qed

lemma cryptographicValidation_None:
  assumes "cryptographicValidation c = (c', r, None)" "MinInfoField (cMin c) = Some info" "CurrHopField (cMin c) = Some hop"
  shows "c' = c \<and> (\<exists>k. colibriKey (cdp c) = Some k \<and> VerifyMAC k (MinTimestamp (cMin c)) info hop (cScionLayer c) = Inr ())"
proof (cases "colibriKey (cdp c)")
  case None
  then show ?thesis using assms by (simp add: cryptographicValidation_def)
next
  case (Some k)
  then show ?thesis
    using assms by (cases "VerifyMAC k (MinTimestamp (cMin c)) info hop (cScionLayer c)") (simp_all add: cryptographicValidation_def)
qed

lemma col_process_None:
  assumes "col_process env c = (c', res, None)"
  obtains m info hop c1 where "SPath (cScionLayer c) = Some (ColibriMinimal m)" "MinInfoField m = Some info" "CurrHopField m = Some hop"
    "col_accepts env (cdp c) (cIngressID c) (cScionLayer c) m info hop"
    "col_forward env c1 = (c', res, None)" "MinInfoField (cMin c1) = Some info" "CurrHopField (cMin c1) = Some hop"
    "cdp c1 = cdp c" "cIngressID c1 = cIngressID c" "\<exists>x. cScionLayer c1 = (cScionLayer c)\<lparr>SPath := x\<rparr>"
proof -
  from assms obtain c0 c1 r0 r1 r2 c2 where g: "col_getPath c = (c0, r0, None)" and b: "basicValidation env c0 = (c1, r1, None)"
    and v: "cryptographicValidation c1 = (c2, r2, None)" and fw: "col_forward env c2 = (c', res, None)"
    unfolding col_process_def colThen_None by blast
  from g obtain m where m: "SPath (cScionLayer c) = Some (ColibriMinimal m)" "c0 = c\<lparr>cMin := m\<rparr>"
    by (auto simp: col_getPath_def split: option.splits path_val.splits)
  from b show thesis
  proof (rule basicValidation_None)
    fix info hop rr
    assume i: "MinInfoField (cMin c0) = Some info" and h: "CurrHopField (cMin c0) = Some hop" and d: "col_dump c0 = (c1, rr, None)"
      and rest: "ColS info \<longrightarrow> ColC info" "cIngressID c0 = 0 \<or> cIngressID c0 = IngressId hop"
      "unat (PayloadLen (cScionLayer c0)) = length (Payload (cScionLayer c0))"
      "\<not> ColR info \<and> \<not> ColC info \<longrightarrow> PayloadLen (cScionLayer c0) = OrigPayLen info"
      "2 \<le> HFCount info" "ColCurrHF info < HFCount info" "VerifyExpirationTick (Now env) (ExpTick info)"
      "\<not> ColC info \<longrightarrow> Colibri_VerifyTimestamp (ExpTick info) (MinTimestamp (cMin c0)) (Now env)"
      "(EgressId hop = 0) = (ColCurrHF info = HFCount info - 1)"
      "(EgressId hop = 0) = IA_Equal (DstIA (cScionLayer c0)) (localIA (cdp c0))"
    note f = col_dump_None [OF d]
    obtain x where x: "cScionLayer c1 = (cScionLayer c0)\<lparr>SPath := x\<rparr>" using f(6) by blast
    have c2: "c2 = c1 \<and> (\<exists>k. colibriKey (cdp c1) = Some k \<and> VerifyMAC k (MinTimestamp (cMin c1)) info hop (cScionLayer c1) = Inr ())"
      using cryptographicValidation_None [OF v] f(1,2) i h by simp
    show thesis
    proof (rule that [of m info hop c1])
      show "col_accepts env (cdp c) (cIngressID c) (cScionLayer c) m info hop"
        unfolding col_accepts_def using rest c2 f(3-5) x m(2) by simp
    qed (use m i h f c2 fw x in auto)
  qed
qed

lemma colibri_sound:
  assumes "col_process env c = (c', res, None)"
  shows "\<exists>m info hop. SPath (cScionLayer c) = Some (ColibriMinimal m) \<and> MinInfoField m = Some info \<and> CurrHopField m = Some hop \<and>
    col_accepts env (cdp c) (cIngressID c) (cScionLayer c) m info hop \<and>
    (EgressID res \<noteq> 0 \<longrightarrow> EgressID res = EgressId hop \<and> OutConn res = map_of (external (cdp c)) (EgressId hop) \<and> OutConn res \<noteq> None) \<and>
    (EgressID res = 0 \<longrightarrow> OutAddr res \<noteq> None \<or> EgressId hop = 0) \<and>
    (cIngressID c = 0 \<longrightarrow> map_of (external (cdp c)) (EgressId hop) \<noteq> None) \<and>
    (ColC info \<and> cIngressID c \<noteq> 0 \<longrightarrow> (\<exists>sv. svc (cdp c) = Some sv \<and> OutAddr res = services_Any (Intn env) sv (SVC_Base SvcCOL)))"
  using assms
proof (rule col_process_None)
  fix m info hop c1
  assume "SPath (cScionLayer c) = Some (ColibriMinimal m)" "MinInfoField m = Some info" "CurrHopField m = Some hop"
    "col_accepts env (cdp c) (cIngressID c) (cScionLayer c) m info hop"
  moreover assume f: "col_forward env c1 = (c', res, None)" "MinInfoField (cMin c1) = Some info" "CurrHopField (cMin c1) = Some hop"
    "cdp c1 = cdp c" "cIngressID c1 = cIngressID c"
  have "(EgressID res \<noteq> 0 \<longrightarrow> EgressID res = EgressId hop \<and> OutConn res = map_of (external (cdp c)) (EgressId hop) \<and> OutConn res \<noteq> None) \<and>
    (EgressID res = 0 \<longrightarrow> OutAddr res \<noteq> None \<or> EgressId hop = 0) \<and>
    (cIngressID c = 0 \<longrightarrow> map_of (external (cdp c)) (EgressId hop) \<noteq> None) \<and>
    (ColC info \<and> cIngressID c \<noteq> 0 \<longrightarrow> (\<exists>sv. svc (cdp c) = Some sv \<and> OutAddr res = services_Any (Intn env) sv (SVC_Base SvcCOL)))"
    using f(1) unfolding col_forward_def f(2,3) Let_def
    by (auto simp: f canForwardLocally_def forwardToLocalEgress_def forwardToRemoteEgress_def forwardToLocalAS_def
        forwardToColibriSvc_def store_min_def Let_def split: if_split_asm option.split_asm sum.split_asm)
  ultimately show ?thesis by blast
qed

section \<open>Packets\<close>

lemma processPkt_colibri:
  assumes "decodeLayers reg pkt = Inr (s, l)" "PathType s = Colibri_PathType"
  shows "processPkt reg dec order env p pkt src = (case col_process env \<lparr>cdp = dp p, cIngressID = ingressID p, cRawPkt = pkt,
       cScionLayer = s, cMin = colibri_min_zero\<rparr> of (c, r, e) \<Rightarrow> PktResult r e)"
  using assms by (simp add: processPkt_def Let_def processCOLIBRI_def path_type_defs proc_reset_def split: prod.split)

text \<open>Claim C7. A COLIBRI packet that is forwarded carries a hop field MAC under the router's key, is within its
  reservation's lifetime and, without the control flag, within its own, came in by the interface of its current hop field, has the length it states, and
  ends here exactly when its hop field says so; it leaves the AS only by the interface of that hop field, and with the
  control flag it goes to the COLIBRI service first when it comes from outside the AS.\<close>

theorem colibri_forwarding_sound:
  assumes "decodeLayers reg pkt = Inr (s, l)" "PathType s = Colibri_PathType"
    "processPkt reg dec order env p pkt src = PktResult res None"
  shows "\<exists>m info hop. SPath s = Some (ColibriMinimal m) \<and> MinInfoField m = Some info \<and> CurrHopField m = Some hop \<and>
    col_accepts env (dp p) (ingressID p) s m info hop \<and>
    (EgressID res \<noteq> 0 \<longrightarrow> EgressID res = EgressId hop \<and> OutConn res = map_of (external (dp p)) (EgressId hop) \<and> OutConn res \<noteq> None) \<and>
    (EgressID res = 0 \<longrightarrow> OutAddr res \<noteq> None \<or> EgressId hop = 0) \<and>
    (ingressID p = 0 \<longrightarrow> map_of (external (dp p)) (EgressId hop) \<noteq> None) \<and>
    (ColC info \<and> ingressID p \<noteq> 0 \<longrightarrow> (\<exists>sv. svc (dp p) = Some sv \<and> OutAddr res = services_Any (Intn env) sv (SVC_Base SvcCOL)))"
proof -
  let ?c = "\<lparr>cdp = dp p, cIngressID = ingressID p, cRawPkt = pkt, cScionLayer = s, cMin = colibri_min_zero\<rparr>"
  obtain c' where "col_process env ?c = (c', res, None)"
    using assms(3) by (auto simp: processPkt_colibri [OF assms(1,2)] split: prod.splits)
  from colibri_sound [OF this] show ?thesis by simp
qed

text \<open>Claim C8. A COLIBRI packet with fewer than two hop fields makes the router panic, before any MAC is checked and
  whatever its configuration, although such a packet passes decoding.\<close>

theorem colibri_short_path_panics:
  assumes "decodeLayers reg pkt = Inr (s, l)" "PathType s = Colibri_PathType" "SPath s = Some (ColibriMinimal m)"
    "MinInfoField m = Some info" "HFCount info < 2"
  shows "processPkt reg dec order env p pkt src = PktResult result_zero (Some (PErr (Panic ''SerializeTo'')))"
proof -
  have "\<exists>e. SerializeToInternal m = Inl e"
    using assms(4,5) by (cases "CurrHopField m") (auto simp: SerializeToInternal_def)
  then obtain e where e: "ColibriMin_SerializeTo m (replicate (ColibriMin_Len m) 0) = Inl e"
    by (auto simp: ColibriMin_SerializeTo_def)
  show ?thesis
    unfolding processPkt_colibri [OF assms(1,2)] col_process_def
    by (simp add: col_getPath_def assms(3) colThen_def col_ok_def basicValidation_def col_dump_def e col_fail_def)
qed

text \<open>A control packet with \<open>n\<close> hop fields, and a router that has a COLIBRI key.\<close>

definition colibri_pkt :: "u8 \<Rightarrow> bytes" where
  "colibri_pkt n = [0, 0, 0, 1, 17, 21, 0, 0, 4, 0, 0, 0] @ PutUint64 9 @ PutUint64 5 @ [10, 0, 0, 1] @ [10, 0, 0, 2] @
     replicate 8 0 @ ([0x80, 0, 0, n] @ replicate 12 0 @ [0, 0, 1, 0, 0, 0, 0, 0]) @ [0, 0, 0, 2, 0, 0, 0, 0] @ [0, 3, 0, 0, 0, 0, 0, 0]"

definition colibri_router :: processor where
  "colibri_router = demo_router\<lparr>dp := demo_config\<lparr>colibriKey := Some (\<lambda>b. replicate 16 0)\<rparr>\<rparr>"

definition colibri_effect :: "u8 \<Rightarrow> unit pkt_effect" where
  "colibri_effect n = processPkt demo_reg (\<lambda>_. Inr ()) id demo_env colibri_router (colibri_pkt n) \<lparr>IP = [], Port = 0\<rparr>"

lemma colibri_pkt_decodes:
  "\<exists>s l m info. decodeLayers demo_reg (colibri_pkt n) = Inr (s, l) \<and> PathType s = Colibri_PathType \<and>
     SPath s = Some (ColibriMinimal m) \<and> MinInfoField m = Some info \<and> HFCount info = n" if "n = 1 \<or> n = 2"
proof -
  have "case decodeLayers demo_reg (colibri_pkt n) of Inl _ \<Rightarrow> False | Inr (s, l) \<Rightarrow> PathType s = Colibri_PathType \<and>
    (case SPath s of Some (ColibriMinimal m) \<Rightarrow> (case MinInfoField m of Some info \<Rightarrow> HFCount info = n | None \<Rightarrow> False) | _ \<Rightarrow> False)"
    using that by (elim disjE ssubst) code_simp+
  then obtain s l where d: "decodeLayers demo_reg (colibri_pkt n) = Inr (s, l)" "PathType s = Colibri_PathType"
    "case SPath s of Some (ColibriMinimal m) \<Rightarrow> (case MinInfoField m of Some info \<Rightarrow> HFCount info = n | None \<Rightarrow> False) | _ \<Rightarrow> False"
    by (cases "decodeLayers demo_reg (colibri_pkt n)") auto
  from d(3) obtain m info where "SPath s = Some (ColibriMinimal m)" "MinInfoField m = Some info" "HFCount info = n"
    by (cases "SPath s"; cases "the (SPath s)") (auto split: option.split_asm)
  with d(1,2) show ?thesis by blast
qed

theorem colibri_short_path_panics_witness:
  "\<exists>s l. decodeLayers demo_reg (colibri_pkt 1) = Inr (s, l) \<and>
     colibri_effect 1 = PktResult result_zero (Some (PErr (Panic ''SerializeTo'')))"
proof -
  obtain s l m info where d: "decodeLayers demo_reg (colibri_pkt 1) = Inr (s, l)" "PathType s = Colibri_PathType"
    "SPath s = Some (ColibriMinimal m)" "MinInfoField m = Some info" "HFCount info = 1"
    using colibri_pkt_decodes [of 1] by blast
  from colibri_short_path_panics [OF d(1-4)] d(1,5) show ?thesis by (simp add: colibri_effect_def)
qed

theorem colibri_forwarding_sound_witness:
  "\<exists>s l m info hop res. decodeLayers demo_reg (colibri_pkt 2) = Inr (s, l) \<and> SPath s = Some (ColibriMinimal m) \<and>
     colibri_effect 2 = PktResult res None \<and> col_accepts demo_env (dp colibri_router) 0 s m info hop \<and>
     EgressId hop = 2 \<and> OutConn res = Some 7"
proof -
  have "case colibri_effect 2 of PktResult r None \<Rightarrow> EgressID r = 2 | _ \<Rightarrow> False" by code_simp
  then obtain res where r: "colibri_effect 2 = PktResult res None" "EgressID res = 2"
    by (auto split: pkt_effect.splits option.splits)
  obtain s l where d: "decodeLayers demo_reg (colibri_pkt 2) = Inr (s, l)" "PathType s = Colibri_PathType"
    using colibri_pkt_decodes [of 2] by blast
  have c: "map_of (external (dp colibri_router)) 2 = Some 7" "ingressID colibri_router = 0"
    by (simp_all add: colibri_router_def demo_router_def demo_config_def)
  from colibri_forwarding_sound [OF d r(1) [unfolded colibri_effect_def]] obtain m info hop where
    "SPath s = Some (ColibriMinimal m)" "col_accepts demo_env (dp colibri_router) 0 s m info hop" "EgressId hop = 2"
    "OutConn res = map_of (external (dp colibri_router)) 2"
    unfolding r(2) c(2) by fastforce
  with r(1) d(1) c(1) show ?thesis by metis
qed

end
