(* ===== verification/Router_Entry.thy ===== *)
theory Router_Entry
  imports Router_Packets
begin

unbundle bit_operations_syntax

text \<open>
  More properties of the entry points of the packet processor (go/pkg/router/dataplane.go): the fields of the processor that
  \<open>reset\<close> does not clear carry nothing from one packet to the next, and what the EPIC checks of \<open>processEPIC\<close> look at.
\<close>

section \<open>Packets are independent\<close>

lemma pathOff_unused:
  "effect_of (processSCION env (p\<lparr>pathOff := n\<rparr>)) = effect_of (processSCION env p)"
  "effect_of (processEPIC env (p\<lparr>pathOff := n\<rparr>)) = effect_of (processEPIC env p)"
  "effect_of (processOHP env (p\<lparr>pathOff := n\<rparr>)) = effect_of (processOHP env p)"
  "processCOLIBRI env (p\<lparr>pathOff := n\<rparr>) = processCOLIBRI env p"
proof -
  show "effect_of (processSCION env (p\<lparr>pathOff := n\<rparr>)) = effect_of (processSCION env p)"
    by (simp add: processSCION_def proc_fail_def effect_of_def split: option.split path_val.split)
  show "effect_of (processEPIC env (p\<lparr>pathOff := n\<rparr>)) = effect_of (processEPIC env p)"
    by (simp add: processEPIC_def proc_fail_def effect_of_def Let_def split: option.split path_val.split sum.split)
  show "effect_of (processOHP env (p\<lparr>pathOff := n\<rparr>)) = effect_of (processOHP env p)"
    by (simp add: processOHP_def processOHP_in_def processOHP_out_def proc_fail_def effect_of_def Let_def
        split: option.split path_val.split sum.split)
  show "processCOLIBRI env (p\<lparr>pathOff := n\<rparr>) = processCOLIBRI env p"
    by (simp add: processCOLIBRI_def)
qed

text \<open>What a processor does with a packet does not depend on what an earlier packet left in the fields of its record. The MAC and serialisation
  buffers are in \<open>env\<close> and the layers are decoded afresh, so that nothing is said of those.\<close>

lemma packet_isolation:
  assumes "dp p = dp p'" "ingressID p = ingressID p'" "pmac p = pmac p'"
  shows "processPkt reg dec order env p pkt src = processPkt reg dec order env p' pkt src"
proof -
  have e: "(proc_reset p)\<lparr>rawPkt := pkt, scionLayer := s, lastLayer := l\<rparr> =
      ((proc_reset p')\<lparr>rawPkt := pkt, scionLayer := s, lastLayer := l\<rparr>)\<lparr>pathOff := pathOff p\<rparr>" for s l
    using assms by (simp add: proc_reset_def)
  show ?thesis
    unfolding processPkt_def Let_def e pathOff_unused
    by (simp add: proc_reset_def split: sum.split option.split path_val.split)
qed

lemma packet_isolation_example:
  "demo_effect = processPkt demo_reg (\<lambda>_. Inr ()) id demo_env
     (demo_router\<lparr>rawPkt := [1, 2, 3], segmentChange := True, cachedMac := [9], pathOff := 40\<rparr>) demo_pkt \<lparr>IP = [], Port = 0\<rparr>"
  unfolding demo_effect_def by (rule packet_isolation) simp_all

section \<open>EPIC\<close>

lemma egress_part_state:
  assumes "path_fits p r" "cursor_ok r" "hop_wf h" "egress_part env (at_path p r i h s m) = (p', res, None)" "EgressID res \<noteq> 0"
  shows "\<exists>r' i' h'. p' = at_path p r' i' h' s m \<and> cur_hf r' = Suc (cur_hf r) \<and> NumHops r' = NumHops r"
proof -
  let ?e = "egress_path (dp p) i h r"
  note ph = path_fits_phases [OF assms(1-3)]
  from assms(4,5) obtain c where "Suc (cur_hf ?e) < NumHops ?e"
    "p' = at_path p (leave_path i h ?e) (seg_out i (hop_out (dp p) i h)) (hop_out (dp p) i h) s m"
    by (auto simp: egress_part_def andThen_None validateEgressID_None handleEgressRouterAlert_None [OF assms(1-3)]
        validateEgressUp_None Let_def processEgress_None ph split: option.splits)
  moreover have "cur_hf (leave_path i h ?e) = Suc (cur_hf r)" "NumHops (leave_path i h ?e) = NumHops r"
  proof -
    let ?r = "if ConsDir i then with_info ?e (cur_inf ?e) (seg_out i h) else ?e"
    have r: "PathMeta ?r = PathMeta r" "cursor_ok ?r" "NumHops ?r = NumHops r" using ph assms(2) by simp_all
    have "base_shape r" using path_fits_wf [OF assms(1)] by (simp add: raw_wf_def)
    from unat_Suc_hf [OF this assms(2)] show "cur_hf (leave_path i h ?e) = Suc (cur_hf r)"
      unfolding leave_path_def with_same by (simp add: inc_meta_def r)
    show "NumHops (leave_path i h ?e) = NumHops r" unfolding leave_path_def with_same using r(3) .
  qed
  ultimately show ?thesis by blast
qed

lemma process_leave_state:
  assumes sync: "path_synced p" and len: "length (scionInput env) = MACBufferSize" and sc: "\<not> segmentChange p"
    and x: "\<not> IsXover (ppath p)" and f: "process env p = (p', res, None)" and ne: "EgressID res \<noteq> 0"
  shows "\<exists>info hop r' i' h'. GetCurrentInfoField (ppath p) = Inr info \<and> GetCurrentHopField (ppath p) = Inr hop \<and>
    p' = at_path p r' i' h' False (take 16 (pmac p (mac_block (seg_in (ingressID p) info hop) hop))) \<and>
    cur_hf r' = Suc (cur_hf (ppath p)) \<and> NumHops r' = NumHops (ppath p)"
proof -
  from f obtain q r0 where "parsePath env p = (q, r0, None)" by (auto simp: process_def andThen_None)
  then obtain info hop where g: "GetCurrentInfoField (ppath p) = Inr info" "GetCurrentHopField (ppath p) = Inr hop"
    by (auto simp: parsePath_None)
  let ?ing = "ingressID p" and ?r = "ingress_path (ingressID p) info hop (ppath p)"
  let ?m = "take 16 (pmac p (mac_block (seg_in ?ing info hop) hop))"
  let ?q = "at_path p ?r (seg_in ?ing info hop) (hop_in ?ing info hop) False ?m"
  note fits = at_path_start(2) [OF sync] and cur = current_fields_cursor [OF g]
  note hop = current_hop_wf [OF path_fits_wf [OF fits] g(2) [unfolded GetCurrentHopField_def]]
  note ph = path_fits_phases [OF fits cur hop]
  have d: "decide env ?q = (p', res, None)"
    using f ingress_part_None [OF sync len sc g] by (auto simp: process_parts andThen_None)
  have "\<exists>p''. process env p = (p'', res, None)" using f by blast
  then have "forwards env p res" using process_iff [OF sync len sc] by simp
  from forwards_leaving(1) [OF this ne] have "egress_part env ?q = (p', res, None)"
    using d x by (simp add: decide_def at_destination_def ph process_outbound_parts andThen_None split: if_split_asm)
  from egress_part_state [OF ph(1,3) _ this ne] hop obtain r' i' h' where
    "p' = at_path p r' i' h' False ?m" "cur_hf r' = Suc (cur_hf ?r)" "NumHops r' = NumHops ?r" by auto
  with g ph show ?thesis by auto
qed

lemma VerifyHVF_SPath [simp]: "VerifyHVF aes auth i (s\<lparr>SPath := x\<rparr>) t h b = VerifyHVF aes auth i s t h b"
  by (simp add: VerifyHVF_def CalcMac_def prepareMacInput_def)

definition epic_start :: "processor \<Rightarrow> bytes \<Rightarrow> scion \<Rightarrow> last_layer \<Rightarrow> raw_path \<Rightarrow> processor" where
  "epic_start p pkt s l r = (scion_start p pkt s l r)\<lparr>pathOff := path_offset s + MetadataLen\<rparr>"

lemma epic_start_sel [simp]:
  "ppath (epic_start p pkt s l r) = r" "rawPkt (epic_start p pkt s l r) = pkt" "pathOff (epic_start p pkt s l r) = path_offset s + MetadataLen"
  "scionLayer (epic_start p pkt s l r) = s" "segmentChange (epic_start p pkt s l r) = False"
  "pmac (epic_start p pkt s l r) = pmac p" "ingressID (epic_start p pkt s l r) = ingressID p"
  by (simp_all add: epic_start_def)

lemma Epic_Decode_Inr:
  assumes "Epic_DecodeFromBytes b = Inr e"
  shows "\<exists>r. ScionPath e = Some r \<and> Raw_DecodeFromBytes (drop MetadataLen b) = Inr r \<and> MetadataLen \<le> length b"
  using assms by (auto simp: Epic_DecodeFromBytes_def Let_def res_simps gslice_def slice_def MetadataLen_def PktIDLen_def HVFLen_def
      split: if_splits)

lemma epic_start_synced:
  assumes reg: "slayers_init = Inr reg" and d: "SCION_DecodeFromBytes reg pkt = Inr s" and t: "PathType s = Epic_PathType"
    and e: "SPath s = Some (Epic e)" and r: "ScionPath e = Some r"
  shows "path_synced (epic_start p pkt s l r)"
proof -
  let ?h = "unat (HdrLen s) * LineLen"
  from d [unfolded SCION_Decode_iff] obtain s1 q0 q where p: "path_offset s1 \<le> unat (HdrLen s1) * LineLen"
      "unat (HdrLen s1) * LineLen \<le> length pkt" "NewPath reg (PathType s1) = Inr q0"
      "Path_BuildFromHeader q0 (slice (path_offset s1) (unat (HdrLen s1) * LineLen) pkt) s1 = Inr q"
    and s: "s = s1\<lparr>SPath := Some q, Contents := take (unat (HdrLen s1) * LineLen) pkt, Payload := drop (unat (HdrLen s1) * LineLen) pkt\<rparr>"
    by auto
  have eq: "path_offset s1 = path_offset s" "HdrLen s1 = HdrLen s" "PathType s1 = PathType s" "q = Epic e"
    using e by (simp_all add: s path_offset_def AddrHdrLen_def)
  have "q0 = Epic epic_zero" using p(3) slayers_new(4) [OF reg] t eq(3) by simp
  then have "Epic_DecodeFromBytes (slice (path_offset s) ?h pkt) = Inr e" using p(4) eq by (auto simp: res_simps)
  from Epic_Decode_Inr [OF this] r have w: "Raw_DecodeFromBytes (drop MetadataLen (slice (path_offset s) ?h pkt)) = Inr r"
    "MetadataLen \<le> length (slice (path_offset s) ?h pkt)" by auto
  note on = Raw_Decode_on_wire [OF w(1)]
  have le: "path_offset s + MetadataLen + path_Len r \<le> ?h" "?h \<le> length pkt" using on(4) w(2) p(1,2) eq by (simp_all add: min_def split: if_splits)
  then have "slice (path_offset s + MetadataLen) (path_offset s + MetadataLen + path_Len r) pkt = Raw r"
    using on(3) by (simp add: slice_def drop_take min_def add.commute)
  with on(2) le e r show ?thesis by (simp add: path_synced_def alias_path_def)
qed

lemma processEPIC_None:
  assumes d: "decodeLayers reg pkt = Inr (s, l)" and t: "PathType s = Epic_PathType"
    and e: "SPath s = Some (Epic e)" "ScionPath e = Some r" and f: "processPkt reg dec order env p pkt src = PktResult res None"
  shows "\<exists>info p'. GetCurrentInfoField r = Inr info \<and> process env (epic_start p pkt s l r) = (p', res, None) \<and>
    (\<exists>p''. epic_verify env e info p' res = (p'', res, None))"
proof -
  let ?p = "(proc_reset p)\<lparr>rawPkt := pkt, scionLayer := s, lastLayer := l\<rparr>"
  have p: "?p\<lparr>ppath := r, pathOff := path_offset s + MetadataLen\<rparr> = epic_start p pkt s l r"
    by (simp add: epic_start_def scion_start_def)
  have f': "effect_of (processEPIC env ?p) = (PktResult res None :: 'a pkt_effect)"
    using f d t by (simp add: processPkt_def Let_def path_type_defs)
  obtain info where i: "GetCurrentInfoField r = Inr info"
    using f' e by (cases "GetCurrentInfoField r") (auto simp: processEPIC_def Let_def effect_of_def proc_fail_def)
  obtain p' res' err where q: "process env (epic_start p pkt s l r) = (p', res', err)" by (cases "process env (epic_start p pkt s l r)")
  have "err = None \<and> (\<exists>p''. epic_verify env e info p' res' = (p'', res, None))"
    using f' e i q p by (cases err) (auto simp: processEPIC_def Let_def effect_of_None)
  moreover from this have "res' = res" by (auto simp: epic_verify_def Let_def split: if_splits sum.splits)
  ultimately show ?thesis using i q by auto
qed

text \<open>Claim C9. An EPIC packet that is forwarded passes all checks of a SCION packet. At the penultimate hop, where the
  path is advanced before the EPIC checks look at it, it leaves the AS only if its last-hop validation field
  verifies under the MAC of the penultimate hop; its penultimate-hop validation field is not looked at.\<close>

theorem epic_penultimate_hop:
  assumes "slayers_init = Inr reg" "decodeLayers reg pkt = Inr (s, l)" "PathType s = Epic_PathType"
    "SPath s = Some (Epic e)" "ScionPath e = Some r" "length (scionInput env) = MACBufferSize"
    "processPkt reg dec order env p pkt src = PktResult res None"
  shows "forwards env (epic_start p pkt s l r) res \<and>
    (cur_hf r + 2 = NumHops r \<and> \<not> IsXover r \<and> EgressID res \<noteq> 0 \<longrightarrow> (\<exists>info hop.
       GetCurrentInfoField r = Inr info \<and> GetCurrentHopField r = Inr hop \<and>
       VerifyHVF (Aes env) (take 16 (pmac p (mac_block (seg_in (ingressID p) info hop) hop))) (PktID e) s (Timestamp info)
         (LHVF e) (epicInput env) = Inr ()))"
proof -
  note d = decodeLayers_scion [OF assms(2)]
  note sync = epic_start_synced [OF assms(1) d assms(3-5)]
  from processEPIC_None [OF assms(2-5,7)] obtain info p' p'' where i: "GetCurrentInfoField r = Inr info"
    and q: "process env (epic_start p pkt s l r) = (p', res, None)" and v: "epic_verify env e info p' res = (p'', res, None)" by blast
  have "\<exists>x. process env (epic_start p pkt s l r) = (x, res, None)" using q by blast
  then have fw: "forwards env (epic_start p pkt s l r) res" using process_iff [OF sync assms(6)] by simp
  moreover have "\<exists>info hop. GetCurrentInfoField r = Inr info \<and> GetCurrentHopField r = Inr hop \<and>
       VerifyHVF (Aes env) (take 16 (pmac p (mac_block (seg_in (ingressID p) info hop) hop))) (PktID e) s (Timestamp info)
         (LHVF e) (epicInput env) = Inr ()" if c: "cur_hf r + 2 = NumHops r" "\<not> IsXover r" "EgressID res \<noteq> 0"
  proof -
    from process_leave_state [OF sync assms(6) _ _ q c(3)] c(2) obtain info' hop r' i' h' where g: "GetCurrentInfoField r = Inr info'"
      "GetCurrentHopField r = Inr hop" and p': "p' = at_path (epic_start p pkt s l r) r' i' h' False
        (take 16 (pmac p (mac_block (seg_in (ingressID p) info' hop) hop)))" and h: "cur_hf r' = Suc (cur_hf r)" "NumHops r' = NumHops r"
      by auto
    have "IsLastHop (ppath p')" unfolding IsLastHop_def p' at_path_sel h(2) of_nat_eq_iff [symmetric, where 'a = int] using h(1) c(1) by linarith
    then have "VerifyHVF (Aes env) (cachedMac p') (PktID e) (scionLayer p') (Timestamp info) (LHVF e) (epicInput env) = Inr ()"
      using v by (auto simp: epic_verify_def Let_def split: sum.splits)
    with g i show ?thesis by (simp add: p')
  qed
  ultimately show ?thesis by blast
qed

text \<open>A router at the penultimate hop and a packet whose validation fields are \<open>phvf\<close> and \<open>lhvf\<close>.\<close>

definition epic_pkt :: "bytes \<Rightarrow> bytes \<Rightarrow> bytes" where
  "epic_pkt phvf lhvf = [0, 0, 0, 1, 17, 22, 0, 4, 3, 0, 0, 0] @ PutUint64 9 @ PutUint64 5 @ [10, 0, 0, 1] @ [10, 0, 0, 2] @
     (PutUint32 47000 @ PutUint32 0 @ phvf @ lhvf) @ demo_scion_path @ [1, 2, 3, 4]"

definition epic_effect :: "bytes \<Rightarrow> bytes \<Rightarrow> unit pkt_effect" where
  "epic_effect phvf lhvf = processPkt demo_reg (\<lambda>_. Inr ()) id demo_env demo_router (epic_pkt phvf lhvf) \<lparr>IP = [], Port = 0\<rparr>"

theorem epic_penultimate_hop_witness:
  "\<exists>s l e r res info hop. decodeLayers demo_reg (epic_pkt [1, 2, 3, 4] [0, 0, 0, 0]) = Inr (s, l) \<and> SPath s = Some (Epic e) \<and>
     ScionPath e = Some r \<and> epic_effect [1, 2, 3, 4] [0, 0, 0, 0] = PktResult res None \<and>
     VerifyHVF demo_aes (take 16 (pmac demo_router (mac_block (seg_in 0 info hop) hop))) (PktID e) s (Timestamp info) (LHVF e) [] = Inr ()"
proof -
  let ?pkt = "epic_pkt [1, 2, 3, 4] [0, 0, 0, 0]"
  have "case decodeLayers demo_reg ?pkt of Inl _ \<Rightarrow> False | Inr (s, l) \<Rightarrow> PathType s = Epic_PathType \<and> (case SPath s of Some (Epic e) \<Rightarrow>
    (case ScionPath e of Some r \<Rightarrow> cur_hf r + 2 = NumHops r \<and> \<not> IsXover r | None \<Rightarrow> False) | _ \<Rightarrow> False)"
    by code_simp
  then obtain s l where d: "decodeLayers demo_reg ?pkt = Inr (s, l)" "PathType s = Epic_PathType" and q: "case SPath s of Some (Epic e) \<Rightarrow>
    (case ScionPath e of Some r \<Rightarrow> cur_hf r + 2 = NumHops r \<and> \<not> IsXover r | None \<Rightarrow> False) | _ \<Rightarrow> False"
    by (cases "decodeLayers demo_reg ?pkt") auto
  from q obtain e r where e: "SPath s = Some (Epic e)" "ScionPath e = Some r" "cur_hf r + 2 = NumHops r" "\<not> IsXover r"
    by (cases "SPath s"; cases "the (SPath s)") (auto split: option.split_asm)
  have "case epic_effect [1, 2, 3, 4] [0, 0, 0, 0] of PktResult r None \<Rightarrow> EgressID r = 2 | _ \<Rightarrow> False" by code_simp
  then obtain res where res: "epic_effect [1, 2, 3, 4] [0, 0, 0, 0] = PktResult res None" "EgressID res = 2"
    by (auto split: pkt_effect.splits option.splits)
  have c: "Aes demo_env = demo_aes" "epicInput demo_env = []" "ingressID demo_router = 0" by (simp_all add: demo_env_def demo_router_def)
  have "EgressID res \<noteq> 0" using res(2) by simp
  with epic_penultimate_hop [OF demo_reg_ok d e(1,2) demo_env_buf res(1) [unfolded epic_effect_def]] e(3,4) d(1) e(1,2) res(1) c
  show ?thesis by metis
qed

end
