(* ===== verification/Bfd.thy ===== *)
theory Bfd
  imports Router_Config
begin

text \<open>
  Bidirectional forwarding detection at the border router (go/pkg/router/bfd): the state machine (fsm.go), the jitter of
  the send interval (jitter.go), the session with its main loop (session.go) and the controller (controller.go).
  A turn of the main loop is one function per branch of its \<open>select\<close>. A timer is the duration it was last reset to; when
  it fires is up to the environment. Durations are nanoseconds. States and events have the numbers of RFC 5880, as in
  gopacket's \<open>layers.BFDState\<close>. Logging, metrics and locks are left out.
\<close>

section \<open>The state machine (fsm.go)\<close>

definition stateAdminDown :: u8 where "stateAdminDown = 0"
definition stateDown :: u8 where "stateDown = 1"
definition stateInit :: u8 where "stateInit = 2"
definition stateUp :: u8 where "stateUp = 3"

definition eventAdminDown :: int where "eventAdminDown = 0"
definition eventDown :: int where "eventDown = 1"
definition eventInit :: int where "eventInit = 2"
definition eventUp :: int where "eventUp = 3"
definition eventTimer :: int where "eventTimer = 4"
definition eventAdminUp :: int where "eventAdminUp = 5"

lemmas bfd_states = stateAdminDown_def stateDown_def stateInit_def stateUp_def
lemmas bfd_events = eventAdminDown_def eventDown_def eventInit_def eventUp_def eventTimer_def eventAdminUp_def

definition fsm_transition :: "u8 \<Rightarrow> int \<Rightarrow> u8 res" where
  "fsm_transition currState e =
     (if currState = stateAdminDown then
        (if e = eventAdminUp then Inr stateDown
         else if e \<in> {eventInit, eventUp, eventDown, eventTimer, eventAdminDown} then Inr stateAdminDown
         else Inl (Panic ''unknown event''))
      else if currState = stateDown then
        (if e = eventInit then Inr stateUp
         else if e = eventDown then Inr stateInit
         else if e \<in> {eventUp, eventTimer, eventAdminUp} then Inr stateDown
         else if e = eventAdminDown then Inr stateAdminDown
         else Inl (Panic ''unknown event''))
      else if currState = stateInit then
        (if e \<in> {eventInit, eventUp} then Inr stateUp
         else if e = eventTimer then Inr stateDown
         else if e \<in> {eventDown, eventAdminUp} then Inr stateInit
         else if e = eventAdminDown then Inr stateAdminDown
         else Inl (Panic ''unknown event''))
      else if currState = stateUp then
        (if e \<in> {eventInit, eventUp, eventAdminUp} then Inr stateUp
         else if e \<in> {eventTimer, eventDown} then Inr stateDown
         else if e = eventAdminDown then Inr stateAdminDown
         else Inl (Panic ''unknown event''))
      else Inl (Panic ''unknown state''))"

section \<open>Jitter (jitter.go)\<close>

definition minJitter :: nat where "minJitter = 0"
definition minJitterDetectMult1 :: nat where "minJitterDetectMult1 = 10"
definition maxJitter :: nat where "maxJitter = 25"

text \<open>\<open>intn\<close> is \<open>rand.Intn\<close> or the \<open>Intn\<close> of a configured source.\<close>

definition Generate :: "(nat \<Rightarrow> nat) \<Rightarrow> nat \<Rightarrow> nat \<Rightarrow> nat res" where
  "Generate intn x y = (if y \<le> x then Inl (Panic ''bad integer range'') else Inr (intn (y - x) + x))"

definition computeInterval :: "(nat \<Rightarrow> nat) \<Rightarrow> int \<Rightarrow> u8 \<Rightarrow> int res" where
  "computeInterval intn transmitInterval detectMult =
     (if transmitInterval \<le> 0 then Inl (Panic ''transmission interval must be > 0'')
      else if detectMult = 0 then Inl (Panic ''detection multiplier must be > 0'')
      else rbind (Generate intn (if detectMult = 1 then minJitterDetectMult1 else minJitter) maxJitter) (\<lambda>jitterPercent.
        Inr ((transmitInterval * (100 - int jitterPercent)) div 100)))"

section \<open>Intervals (session.go)\<close>

definition Microsecond :: int where "Microsecond = 1000"
definition defaultTransmissionInterval :: int where "defaultTransmissionInterval = 1000000000"
definition defaultDetectionTimeout :: int where "defaultDetectionTimeout = 60 * 1000000000"

definition durationToBFDInterval :: "int \<Rightarrow> u32 res" where
  "durationToBFDInterval d =
     (if d < 0 then Inl (Err ''duration cannot be negative'')
      else let i = d div Microsecond in
        if i > 2 ^ 32 - 1 then Inl (Err ''number of microseconds overflows uint32'') else Inr (word_of_int i))"

definition bfdIntervalToDuration :: "u32 \<Rightarrow> int" where
  "bfdIntervalToDuration x = uint x * Microsecond"

section \<open>Messages and sessions (session.go)\<close>

text \<open>The fields of gopacket's \<open>layers.BFD\<close> that the session reads or sets; \<open>AuthTypeSet\<close> says that there is an
  authentication header with a type other than none.\<close>

record bfd_msg =
  BVersion :: u8
  BState :: u8
  Poll :: bool
  Final :: bool
  AuthPresent :: bool
  Demand :: bool
  Multipoint :: bool
  DetectMultiplier :: u8
  MyDiscriminator :: u32
  YourDiscriminator :: u32
  BDesiredMinTx :: u32
  BRequiredMinRx :: u32
  BRequiredMinEchoRx :: u32
  AuthTypeSet :: bool

record session = bfd_session +
  RemoteDiscriminator :: u32
  remoteDiscriminator :: u32
  localState :: u8
  runMarker :: bool
  desiredMinTXInterval :: int
  remoteState :: u8
  remoteMinRxInterval :: int
  detectionTimer :: int
  sendTimer :: int

text \<open>\<open>length\<close> is gopacket's \<open>BFD.Length\<close>.\<close>

definition shouldDiscard :: "(bfd_msg \<Rightarrow> nat) \<Rightarrow> u8 \<Rightarrow> bfd_msg \<Rightarrow> bool \<times> string" where
  "shouldDiscard len st pkt =
     (if BVersion pkt \<noteq> 1 then (True, [])
      else if \<not> AuthPresent pkt \<and> len pkt < 24 then (True, [])
      else if AuthPresent pkt \<and> len pkt < 26 then (True, [])
      else if DetectMultiplier pkt = 0 then (True, [])
      else if Multipoint pkt then (True, [])
      else if MyDiscriminator pkt = 0 then (True, [])
      else if YourDiscriminator pkt = 0 \<and> \<not> (st = stateAdminDown \<or> st = stateDown) then (True, [])
      else if \<not> AuthPresent pkt \<and> AuthTypeSet pkt then (True, [])
      else if AuthPresent pkt then (True, ''Received authenticated packet, but authentication is not supported. Packet will be discarded.'')
      else if Poll pkt then (True, ''Received Poll packet, but poll mechanism is not supported.'')
      else if Final pkt then (True, ''Received Final packet, but poll mechanism is not supported.'')
      else if BRequiredMinEchoRx pkt \<noteq> 0 then (True, ''Received request for Echo packets, but echo mechanism is not supported.'')
      else if Demand pkt then (True, ''Received Demand mode request, but Demand mode is not supported.'')
      else (False, []))"

definition session_transition :: "int \<Rightarrow> 'a session_scheme \<Rightarrow> 'a session_scheme res" where
  "session_transition e s = rbind (fsm_transition (localState s) e) (\<lambda>newState.
     Inr (if newState \<noteq> localState s then s\<lparr>localState := newState\<rparr> else s))"

definition computeNextSendInterval :: "(nat \<Rightarrow> nat) \<Rightarrow> 'a session_scheme \<Rightarrow> int res" where
  "computeNextSendInterval intn s = (let nextInterval = max (desiredMinTXInterval s) (remoteMinRxInterval s) in
     computeInterval intn nextInterval (DetectMult s))"

definition Session_IsUp :: "'a session_scheme \<Rightarrow> bool" where
  "Session_IsUp s \<longleftrightarrow> localState s = stateUp"

definition runOnceCheck :: "'a session_scheme \<Rightarrow> 'a session_scheme res" where
  "runOnceCheck s = (if runMarker s then Inl (Err ''is running'') else Inr (s\<lparr>runMarker := True\<rparr>))"

text \<open>The sender of a session is never nil in the router.\<close>

definition validateParameters :: "'a session_scheme \<Rightarrow> unit res" where
  "validateParameters s =
     (if DetectMult s = 0 then Inl (Err ''detection multiplier must be > 0'')
      else rbind (wrap_err ''bad desired minimum transmission interval'' (durationToBFDInterval (DesiredMinTxInterval s))) (\<lambda>tx.
      if tx = 0 then Inl (Err ''desired minimum transmission interval must be > 0'')
      else rbind (wrap_err ''bad required minimum receive interval'' (durationToBFDInterval (RequiredMinRxInterval s))) (\<lambda>rx.
      if rx = 0 then Inl (Err ''required minimum receive interval must be > 0'')
      else if LocalDiscriminator s = 0 then Inl (Err ''local discriminator must be > 0'')
      else Inr ())))"

text \<open>\<open>Run\<close> up to its loop.\<close>

definition Session_start :: "'a session_scheme \<Rightarrow> 'a session_scheme res" where
  "Session_start s =
     rbind (runOnceCheck s) (\<lambda>s.
     rbind (validateParameters s) (\<lambda>_. let
       s = (if RemoteDiscriminator s \<noteq> 0 then s\<lparr>remoteDiscriminator := RemoteDiscriminator s\<rparr> else s);
       s = s\<lparr>detectionTimer := defaultDetectionTimeout\<rparr>;
       s = s\<lparr>localState := stateDown\<rparr>;
       s = s\<lparr>desiredMinTXInterval := defaultTransmissionInterval\<rparr>
     in Inr (s\<lparr>sendTimer := desiredMinTXInterval s\<rparr>)))"

text \<open>The branches of the loop: a message, the send timer, the detection timer.\<close>

definition recv_msg :: "(bfd_msg \<Rightarrow> nat) \<Rightarrow> (nat \<Rightarrow> nat) \<Rightarrow> bfd_msg \<Rightarrow> 'a session_scheme \<Rightarrow> 'a session_scheme res" where
  "recv_msg len intn msg s =
     (if fst (shouldDiscard len (localState s) msg) then Inr s
      else let
        detectionTime = uint (DetectMultiplier msg) * max (RequiredMinRxInterval s) (bfdIntervalToDuration (BDesiredMinTx msg));
        s = s\<lparr>detectionTimer := detectionTime, remoteState := BState msg,
              remoteMinRxInterval := bfdIntervalToDuration (BRequiredMinRx msg)\<rparr>;
        s = (if remoteDiscriminator s = 0 then s\<lparr>remoteDiscriminator := MyDiscriminator msg\<rparr> else s);
        oldState = localState s
      in rbind (session_transition (uint (remoteState s)) s) (\<lambda>s.
         if oldState = stateDown \<and> localState s \<noteq> stateDown then
           let s = s\<lparr>desiredMinTXInterval := DesiredMinTxInterval s\<rparr> in
           rbind (computeNextSendInterval intn s) (\<lambda>d. Inr (s\<lparr>sendTimer := d\<rparr>))
         else Inr s))"

definition interval_or_zero :: "int \<Rightarrow> u32" where
  "interval_or_zero d = (case durationToBFDInterval d of Inr i \<Rightarrow> i | Inl _ \<Rightarrow> 0)"

definition send_tick :: "(nat \<Rightarrow> nat) \<Rightarrow> 'a session_scheme \<Rightarrow> ('a session_scheme \<times> bfd_msg) res" where
  "send_tick intn s = rbind (computeNextSendInterval intn s) (\<lambda>d. let s = s\<lparr>sendTimer := d\<rparr> in
     Inr (s, \<lparr>BVersion = 1, BState = localState s, Poll = False, Final = False, AuthPresent = False, Demand = False,
       Multipoint = False, DetectMultiplier = DetectMult s, MyDiscriminator = LocalDiscriminator s,
       YourDiscriminator = remoteDiscriminator s, BDesiredMinTx = interval_or_zero (desiredMinTXInterval s),
       BRequiredMinRx = interval_or_zero (RequiredMinRxInterval s), BRequiredMinEchoRx = 0, AuthTypeSet = False\<rparr>))"

definition detect_tick :: "'a session_scheme \<Rightarrow> 'a session_scheme res" where
  "detect_tick s = (let s = s\<lparr>detectionTimer := defaultDetectionTimeout\<rparr> in
     rbind (session_transition eventTimer s) (\<lambda>s. let s = s\<lparr>remoteDiscriminator := 0\<rparr> in
     Inr (if localState s = stateDown then s\<lparr>desiredMinTXInterval := defaultTransmissionInterval\<rparr> else s)))"

section \<open>The controller (controller.go)\<close>

text \<open>A nil session is \<open>None\<close>. The sessions map is an association list.\<close>

fun initSessions :: "'a session_scheme option list \<Rightarrow> (u32 \<times> 'a session_scheme) list \<Rightarrow> (u32 \<times> 'a session_scheme) list res" where
  "initSessions [] sessions = Inr sessions"
| "initSessions (None # ss) sessions = Inl (Err ''session must not be nil'')"
| "initSessions (Some s # ss) sessions =
     (if LocalDiscriminator s = 0 then Inl (Err ''local discriminator must not be 0'')
      else if map_of sessions (LocalDiscriminator s) \<noteq> None then Inl (Err ''duplicate local discriminator'')
      else initSessions ss ((LocalDiscriminator s, s) # sessions))"

definition getSession :: "(u32 \<times> 'a session_scheme) list \<Rightarrow> u32 \<Rightarrow> 'a session_scheme option" where
  "getSession sessions disc = map_of sessions disc"

definition Controller_IsUp :: "(u32 \<times> 'a session_scheme) list \<Rightarrow> u32 \<Rightarrow> bool" where
  "Controller_IsUp sessions disc = (case getSession sessions disc of None \<Rightarrow> False | Some s \<Rightarrow> Session_IsUp s)"

text \<open>The session a message is queued to, if any; \<open>ready\<close> says whose queue takes a message right now.\<close>

definition controller_route :: "(u32 \<times> 'a session_scheme) list \<Rightarrow> (u32 \<Rightarrow> bool) \<Rightarrow> bfd_msg \<Rightarrow> u32 option" where
  "controller_route sessions ready msg = (let localDiscriminator = YourDiscriminator msg in
     case getSession sessions localDiscriminator of
       None \<Rightarrow> None
     | Some s \<Rightarrow> if ready localDiscriminator then Some localDiscriminator else None)"

section \<open>Sessions that run\<close>

text \<open>The turns of the loop; messages come from the wire, where a state has two bits, and \<open>intn n\<close> is below \<open>n\<close>.\<close>

abbreviation random :: "(nat \<Rightarrow> nat) \<Rightarrow> bool" where
  "random intn \<equiv> \<forall>n. 0 < n \<longrightarrow> intn n < n"

inductive session_step :: "(bfd_msg \<Rightarrow> nat) \<Rightarrow> session \<Rightarrow> session \<Rightarrow> bool" for len where
  recv: "BState msg < 4 \<Longrightarrow> random intn \<Longrightarrow> recv_msg len intn msg s = Inr s' \<Longrightarrow> session_step len s s'"
| send: "random intn \<Longrightarrow> send_tick intn s = Inr (s', pkt) \<Longrightarrow> session_step len s s'"
| detect: "detect_tick s = Inr s' \<Longrightarrow> session_step len s s'"

inductive runs :: "(bfd_msg \<Rightarrow> nat) \<Rightarrow> session \<Rightarrow> bool" for len where
  start: "Session_start s0 = Inr s \<Longrightarrow> remoteMinRxInterval s0 = 0 \<Longrightarrow> runs len s"
| step: "runs len s \<Longrightarrow> session_step len s s' \<Longrightarrow> runs len s'"

definition params_ok :: "'a session_scheme \<Rightarrow> bool" where
  "params_ok s \<longleftrightarrow> DetectMult s \<noteq> 0 \<and> LocalDiscriminator s \<noteq> 0 \<and>
     Microsecond \<le> DesiredMinTxInterval s \<and> DesiredMinTxInterval s < 2 ^ 32 * Microsecond \<and>
     Microsecond \<le> RequiredMinRxInterval s \<and> RequiredMinRxInterval s < 2 ^ 32 * Microsecond"

text \<open>What holds of a session between two turns; no duration leaves the 63 bits Go has for it.\<close>

definition session_inv :: "'a session_scheme \<Rightarrow> bool" where
  "session_inv s \<longleftrightarrow> params_ok s \<and> localState s \<in> {stateAdminDown, stateDown, stateInit, stateUp} \<and>
     desiredMinTXInterval s \<in> {defaultTransmissionInterval, DesiredMinTxInterval s} \<and>
     0 \<le> remoteMinRxInterval s \<and> remoteMinRxInterval s < 2 ^ 32 * Microsecond \<and>
     0 < detectionTimer s \<and> detectionTimer s < 2 ^ 63 \<and> 0 < sendTimer s \<and> sendTimer s < 2 ^ 63 \<and>
     (localState s = stateInit \<longrightarrow> remoteState s = stateDown) \<and>
     (localState s = stateUp \<longrightarrow> remoteState s \<in> {stateInit, stateUp}) \<and>
     (localState s \<in> {stateInit, stateUp} \<longrightarrow> remoteDiscriminator s \<noteq> 0)"

lemma durationToBFDInterval_pos:
  "durationToBFDInterval d = Inr i \<Longrightarrow> i \<noteq> 0 \<Longrightarrow> Microsecond \<le> d \<and> d < 2 ^ 32 * Microsecond"
  by (cases "d div Microsecond = 0") (auto simp: durationToBFDInterval_def Let_def Microsecond_def split: if_splits)

lemma validateParameters_ok: "validateParameters s = Inr u \<Longrightarrow> params_ok s"
  by (auto simp: validateParameters_def params_ok_def res_simps split: if_splits dest!: durationToBFDInterval_pos)

lemma start_inv:
  assumes "Session_start s0 = Inr s" "remoteMinRxInterval s0 = 0"
  shows "session_inv s \<and> localState s = stateDown"
proof -
  from assms obtain u s1 where v: "validateParameters (s0\<lparr>runMarker := True\<rparr>) = Inr u"
    by (auto simp: Session_start_def runOnceCheck_def res_simps split: if_splits)
  from validateParameters_ok [OF v] assms show ?thesis
    by (auto simp: Session_start_def runOnceCheck_def res_simps session_inv_def params_ok_def Let_def bfd_states
        defaultDetectionTimeout_def defaultTransmissionInterval_def Microsecond_def split: if_splits)
qed

lemma computeInterval_bounds:
  assumes "random intn" "0 < t" "mult \<noteq> 0"
  shows "\<exists>d. computeInterval intn t mult = Inr d \<and> 76 * t div 100 \<le> d \<and> d \<le> (if mult = 1 then 90 else 100) * t div 100"
proof -
  define lo where "lo = (if mult = 1 then 10 else 0 :: nat)"
  have i: "intn (25 - lo) + lo \<le> 24" using assms(1) [rule_format, of "25 - lo"] by (auto simp: lo_def)
  define j where "j = int (intn (25 - lo) + lo)"
  have j: "int lo \<le> j" "j \<le> 24" using i by (auto simp: j_def)
  have e: "computeInterval intn t mult = Inr ((t * (100 - j)) div 100)" using assms(2,3)
    by (auto simp: computeInterval_def Generate_def minJitterDetectMult1_def minJitter_def maxJitter_def j_def lo_def)
  have "76 * t \<le> t * (100 - j)" using j assms(2) by (auto simp: algebra_simps)
  moreover have "t * (100 - j) \<le> (100 - int lo) * t" using j assms(2) by (auto simp: algebra_simps)
  ultimately have "76 * t div 100 \<le> t * (100 - j) div 100" "t * (100 - j) div 100 \<le> (100 - int lo) * t div 100"
    by (auto intro: zdiv_mono1 simp del: div_mult_mult1)
  with e show ?thesis by (auto simp: lo_def)
qed

lemma next_interval:
  assumes "session_inv s" "random intn"
  shows "\<exists>d. computeNextSendInterval intn s = Inr d \<and> 0 < d \<and> d < 2 ^ 63 \<and>
    76 * max (desiredMinTXInterval s) (remoteMinRxInterval s) div 100 \<le> d \<and>
    d \<le> (if DetectMult s = 1 then 90 else 100) * max (desiredMinTXInterval s) (remoteMinRxInterval s) div 100"
proof -
  define t where "t = max (desiredMinTXInterval s) (remoteMinRxInterval s)"
  have t: "1000 \<le> t" "t < 2 ^ 32 * 1000" "DetectMult s \<noteq> 0" using assms(1)
    by (auto simp: t_def session_inv_def params_ok_def Microsecond_def defaultTransmissionInterval_def)
  then obtain d where d: "computeInterval intn t (DetectMult s) = Inr d" "76 * t div 100 \<le> d" 
    "d \<le> (if DetectMult s = 1 then 90 else 100) * t div 100"
    using computeInterval_bounds [OF assms(2), of t "DetectMult s"] by auto
  have "0 < d" "d < 2 ^ 63" using d(2,3) t(1,2) by (auto split: if_splits)
  with d show ?thesis by (auto simp: computeNextSendInterval_def Let_def t_def)
qed

text \<open>What a message that is not discarded does to a session.\<close>

lemma not_discarded:
  "\<not> fst (shouldDiscard len st msg) \<Longrightarrow>
     MyDiscriminator msg \<noteq> 0 \<and> DetectMultiplier msg \<noteq> 0 \<and> (YourDiscriminator msg = 0 \<longrightarrow> st \<in> {stateAdminDown, stateDown})"
  by (auto simp: shouldDiscard_def split: if_splits)

lemma bfdIntervalToDuration_range: "0 \<le> bfdIntervalToDuration x \<and> bfdIntervalToDuration x < 2 ^ 32 * Microsecond"
  using uint_lt2p [of x] uint_ge_0 [of x] by (simp add: bfdIntervalToDuration_def Microsecond_def)

lemma detection_time:
  assumes "params_ok s" "m \<noteq> (0::u8)"
  shows "0 < uint m * max (RequiredMinRxInterval s) (bfdIntervalToDuration x)"
    "uint m * max (RequiredMinRxInterval s) (bfdIntervalToDuration x) < 2 ^ 63"
proof -
  have m: "0 < uint m" "uint m < 256" using assms(2) uint_lt2p [of m] by (auto simp: word_neq_0_conv word_less_def)
  define t where "t = max (RequiredMinRxInterval s) (bfdIntervalToDuration x)"
  have t: "0 < t" "t \<le> 2 ^ 32 * 1000" using assms(1) bfdIntervalToDuration_range [of x]
    by (auto simp: t_def params_ok_def Microsecond_def)
  have "uint m * t \<le> 255 * (2 ^ 32 * 1000)" by (rule mult_mono) (use m t in auto)
  then show "0 < uint m * max (RequiredMinRxInterval s) (bfdIntervalToDuration x)"
    "uint m * max (RequiredMinRxInterval s) (bfdIntervalToDuration x) < 2 ^ 63"
    using m t by (simp_all add: t_def [symmetric])
qed

text \<open>The state machine on the events of the loop.\<close>

lemma two_bits: "(x :: u8) < 4 \<Longrightarrow> x \<in> {0, 1, 2, 3}"
  using word_less_nat_alt [of x 4] by (auto simp: word_unat_eq_iff)

definition next_state :: "u8 \<Rightarrow> u8 \<Rightarrow> u8" where
  "next_state st m =
     (if st = stateAdminDown \<or> m = stateAdminDown then stateAdminDown
      else if st = stateDown then (if m = stateDown then stateInit else if m = stateInit then stateUp else stateDown)
      else if st = stateInit then (if m = stateDown then stateInit else stateUp)
      else if m = stateDown then stateDown else stateUp)"

lemma transition_msg:
  assumes "st \<in> {stateAdminDown, stateDown, stateInit, stateUp}" "m < 4"
  shows "fsm_transition st (uint m) = Inr (next_state st m)"
  using assms(1) two_bits [OF assms(2)]
  by (auto simp: fsm_transition_def next_state_def bfd_states bfd_events)

lemma transition_timer:
  assumes "st \<in> {stateAdminDown, stateDown, stateInit, stateUp}"
  shows "fsm_transition st eventTimer = Inr (if st = stateAdminDown then st else stateDown)"
  using assms by (auto simp: fsm_transition_def bfd_states bfd_events)

lemma bfd_states_distinct:
  "stateAdminDown \<noteq> stateDown" "stateAdminDown \<noteq> stateInit" "stateAdminDown \<noteq> stateUp"
  "stateDown \<noteq> stateAdminDown" "stateDown \<noteq> stateInit" "stateDown \<noteq> stateUp"
  "stateInit \<noteq> stateAdminDown" "stateInit \<noteq> stateDown" "stateInit \<noteq> stateUp"
  "stateUp \<noteq> stateAdminDown" "stateUp \<noteq> stateDown" "stateUp \<noteq> stateInit"
  by (simp_all add: bfd_states)

lemma next_state_Init: "next_state st m = stateInit \<Longrightarrow> m = stateDown"
  unfolding next_state_def using bfd_states_distinct by metis

lemma next_state_Up: "next_state st m = stateUp \<Longrightarrow> m < 4 \<Longrightarrow> m \<in> {stateInit, stateUp}"
  using two_bits [of m] unfolding next_state_def bfd_states [symmetric] using bfd_states_distinct by (metis insert_iff empty_iff)

lemma next_state_range: "next_state st m \<in> {stateAdminDown, stateDown, stateInit, stateUp}"
  by (simp add: next_state_def)

lemma session_transition_eq:
  "fsm_transition (localState s) e = Inr n \<Longrightarrow> session_transition e s = Inr (s\<lparr>localState := n\<rparr>)"
  by (simp add: session_transition_def)

text \<open>A turn never panics and keeps the invariant.\<close>

lemma recv_accepted:
  assumes "session_inv s" "BState msg < 4" "random intn" "\<not> fst (shouldDiscard len (localState s) msg)"
  obtains s' where "recv_msg len intn msg s = Inr s'" "session_inv s'"
    "localState s' = next_state (localState s) (BState msg)"
    "remoteDiscriminator s' = (if remoteDiscriminator s = 0 then MyDiscriminator msg else remoteDiscriminator s)"
    "LocalDiscriminator s' = LocalDiscriminator s"
proof -
  define s1 where "s1 = s\<lparr>detectionTimer := uint (DetectMultiplier msg) *
      max (RequiredMinRxInterval s) (bfdIntervalToDuration (BDesiredMinTx msg)), remoteState := BState msg,
    remoteMinRxInterval := bfdIntervalToDuration (BRequiredMinRx msg),
    remoteDiscriminator := (if remoteDiscriminator s = 0 then MyDiscriminator msg else remoteDiscriminator s),
    localState := next_state (localState s) (BState msg)\<rparr>"
  note d = not_discarded [OF assms(4)]
  have st: "localState s \<in> {stateAdminDown, stateDown, stateInit, stateUp}" and ok: "params_ok s"
    using assms(1) by (auto simp: session_inv_def)
  note n = next_state_range [of "localState s" "BState msg"] next_state_Init [of "localState s" "BState msg"]
    next_state_Up [OF _ assms(2), of "localState s"]
  have i1: "session_inv s1" using assms(1) detection_time [OF ok] d n bfdIntervalToDuration_range
    unfolding session_inv_def s1_def by (simp add: params_ok_def)
  have e: "recv_msg len intn msg s = (if localState s = stateDown \<and> localState s1 \<noteq> stateDown
      then let s2 = s1\<lparr>desiredMinTXInterval := DesiredMinTxInterval s1\<rparr> in
        rbind (computeNextSendInterval intn s2) (\<lambda>d. Inr (s2\<lparr>sendTimer := d\<rparr>)) else Inr s1)"
    using assms(4) transition_msg [OF st assms(2)]
    by (cases "remoteDiscriminator s = 0"; cases "localState s = stateDown") (simp_all add: recv_msg_def session_transition_eq s1_def Let_def)
  show thesis
  proof (cases "localState s = stateDown \<and> localState s1 \<noteq> stateDown")
    case True
    define s2 where "s2 = s1\<lparr>desiredMinTXInterval := DesiredMinTxInterval s1\<rparr>"
    have i2: "session_inv s2" using i1 by (simp add: session_inv_def params_ok_def s2_def)
    then obtain d where d: "computeNextSendInterval intn s2 = Inr d" "0 < d" "d < 2 ^ 63"
      using next_interval [OF _ assms(3)] by blast
    show thesis
    proof (rule that)
      show "recv_msg len intn msg s = Inr (s2\<lparr>sendTimer := d\<rparr>)" using e True d by (simp add: Let_def s2_def)
      show "session_inv (s2\<lparr>sendTimer := d\<rparr>)" using i2 d by (simp add: session_inv_def params_ok_def)
    qed (simp_all add: s1_def s2_def)
  next
    case False
    with e have "recv_msg len intn msg s = Inr s1" by simp
    from that [OF this i1] show thesis by (simp add: s1_def)
  qed
qed

lemma send_tick_ok:
  assumes "session_inv s" "random intn"
  obtains s' pkt where "send_tick intn s = Inr (s', pkt)" "session_inv s'" "s' = s\<lparr>sendTimer := sendTimer s'\<rparr>"
    "76 * max (desiredMinTXInterval s) (remoteMinRxInterval s) div 100 \<le> sendTimer s'"
    "sendTimer s' \<le> (if DetectMult s = 1 then 90 else 100) * max (desiredMinTXInterval s) (remoteMinRxInterval s) div 100"
  using next_interval [OF assms] assms(1)
  by (fastforce simp: send_tick_def session_inv_def params_ok_def Let_def)

lemma detect_tick_ok:
  assumes "session_inv s"
  obtains s' where "detect_tick s = Inr s'" "session_inv s'" "remoteDiscriminator s' = 0"
    "localState s' = (if localState s = stateAdminDown then stateAdminDown else stateDown)"
    "LocalDiscriminator s' = LocalDiscriminator s"
proof -
  have "localState s \<in> {stateAdminDown, stateDown, stateInit, stateUp}"
    using assms by (auto simp: session_inv_def)
  from transition_timer [OF this] assms that show thesis
    by (auto simp: detect_tick_def session_transition_eq session_inv_def params_ok_def Let_def bfd_states
        defaultDetectionTimeout_def split: if_splits)
qed

lemma step_inv: "session_step len s s' \<Longrightarrow> session_inv s \<Longrightarrow> session_inv s'"
proof (induction rule: session_step.induct)
  case (recv msg intn s s')
  show ?case
  proof (cases "fst (shouldDiscard len (localState s) msg)")
    case True
    with recv show ?thesis by (simp add: recv_msg_def)
  next
    case False
    from recv_accepted [OF recv(4,1,2) False] recv(3) show ?thesis by auto
  qed
next
  case (send intn s s' pkt)
  with send_tick_ok [OF send(3,1)] show ?case by (metis Inr_inject prod.inject)
next
  case (detect s s')
  with detect_tick_ok [OF detect(2)] show ?case by (metis Inr_inject)
qed

lemma runs_inv: "runs len s \<Longrightarrow> session_inv s"
  by (induction rule: runs.induct) (simp_all add: start_inv step_inv)

lemma recv_total:
  assumes "session_inv s" "BState msg < 4" "random intn"
  shows "\<exists>s'. recv_msg len intn msg s = Inr s'"
proof (cases "fst (shouldDiscard len (localState s) msg)")
  case True
  then show ?thesis by (simp add: recv_msg_def)
next
  case False
  from recv_accepted [OF assms False] show ?thesis by blast
qed

lemma accepted_plain:
  assumes "\<forall>m. \<not> AuthPresent m \<longrightarrow> len m = 24" "send_tick intn s = Inr (s', pkt)" "params_ok s"
    "remoteDiscriminator s \<noteq> 0 \<or> st = stateDown"
  shows "\<not> fst (shouldDiscard len st pkt)" "BState pkt = localState s"
    "MyDiscriminator pkt = LocalDiscriminator s"
  using assms by (auto simp: send_tick_def shouldDiscard_def params_ok_def res_simps Let_def)

text \<open>One control packet from \<open>a\<close> to \<open>b\<close>, and the three packets of a handshake.\<close>

definition deliver :: "(bfd_msg \<Rightarrow> nat) \<Rightarrow> (nat \<Rightarrow> nat) \<Rightarrow> session \<times> session \<Rightarrow> (session \<times> session) res" where
  "deliver len intn ab = rbind (send_tick intn (fst ab)) (\<lambda>(a, pkt). rbind (recv_msg len intn pkt (snd ab)) (\<lambda>b. Inr (a, b)))"

definition handshake :: "(bfd_msg \<Rightarrow> nat) \<Rightarrow> (nat \<Rightarrow> nat) \<Rightarrow> session \<times> session \<Rightarrow> (session \<times> session) res" where
  "handshake len intn ab = rbind (deliver len intn ab) (\<lambda>(a, b). rbind (deliver len intn (b, a)) (\<lambda>(b, a). deliver len intn (a, b)))"

lemma deliver_ok:
  assumes "\<forall>m. \<not> AuthPresent m \<longrightarrow> len m = 24" "random intn" "session_inv a" "session_inv b" "localState a \<noteq> stateAdminDown"
    "remoteDiscriminator a \<noteq> 0 \<or> localState b = stateDown"
  obtains a' b' where "deliver len intn (a, b) = Inr (a', b')" "session_inv a'" "session_inv b'" "localState a' = localState a"
    "remoteDiscriminator a' = remoteDiscriminator a" "LocalDiscriminator a' = LocalDiscriminator a"
    "localState b' = next_state (localState b) (localState a)" "LocalDiscriminator b' = LocalDiscriminator b"
    "remoteDiscriminator b' = (if remoteDiscriminator b = 0 then LocalDiscriminator a else remoteDiscriminator b)"
proof -
  obtain a' pkt where a: "send_tick intn a = Inr (a', pkt)" "session_inv a'" "a' = a\<lparr>sendTimer := sendTimer a'\<rparr>"
    using send_tick_ok [OF assms(3,2)] by blast
  have ok: "params_ok a" and four: "localState a < 4" using assms(3) by (auto simp: session_inv_def bfd_states)
  note p = accepted_plain [OF assms(1) a(1) ok assms(6)]
  have "BState pkt < 4" using p(2) four by simp
  from recv_accepted [OF assms(4) this assms(2) p(1)] obtain b' where b: "recv_msg len intn pkt b = Inr b'" "session_inv b'"
    "localState b' = next_state (localState b) (BState pkt)"
    "remoteDiscriminator b' = (if remoteDiscriminator b = 0 then MyDiscriminator pkt else remoteDiscriminator b)"
    "LocalDiscriminator b' = LocalDiscriminator b" by blast
  have "localState a' = localState a \<and> remoteDiscriminator a' = remoteDiscriminator a \<and> LocalDiscriminator a' = LocalDiscriminator a"
    using arg_cong [OF a(3), of localState] arg_cong [OF a(3), of remoteDiscriminator] arg_cong [OF a(3), of LocalDiscriminator]
    by simp
  with that [of a' b'] a b p show thesis by (simp add: deliver_def)
qed

lemma next_state_eqs:
  "next_state stateDown stateDown = stateInit" "next_state stateDown stateInit = stateUp" "next_state stateInit stateUp = stateUp"
  by (simp_all add: next_state_def bfd_states_distinct)

lemma handshake_ok:
  assumes len: "\<forall>m. \<not> AuthPresent m \<longrightarrow> len m = 24" and intn: "random intn"
    and a: "session_inv a" "localState a = stateDown" and b: "session_inv b" "localState b = stateDown"
  obtains a' b' where "handshake len intn (a, b) = Inr (a', b')" "Session_IsUp a'" "Session_IsUp b'"
    "remoteDiscriminator a' = (if remoteDiscriminator a = 0 then LocalDiscriminator b else remoteDiscriminator a)"
    "remoteDiscriminator b' = (if remoteDiscriminator b = 0 then LocalDiscriminator a else remoteDiscriminator b)"
proof -
  obtain a1 b1 where 1: "deliver len intn (a, b) = Inr (a1, b1)" "session_inv a1" "session_inv b1" "localState a1 = stateDown"
    "remoteDiscriminator a1 = remoteDiscriminator a" "LocalDiscriminator a1 = LocalDiscriminator a"
    "localState b1 = stateInit" "LocalDiscriminator b1 = LocalDiscriminator b"
    "remoteDiscriminator b1 = (if remoteDiscriminator b = 0 then LocalDiscriminator a else remoteDiscriminator b)"
    by (rule deliver_ok [OF len intn a(1) b(1)]) (auto simp: a b next_state_eqs bfd_states_distinct)
  have r: "remoteDiscriminator b1 \<noteq> 0" using 1(3,7) by (simp add: session_inv_def)
  obtain b2 a2 where 2: "deliver len intn (b1, a1) = Inr (b2, a2)" "session_inv b2" "session_inv a2" "localState b2 = stateInit"
    "remoteDiscriminator b2 = remoteDiscriminator b1" "localState a2 = stateUp"
    "remoteDiscriminator a2 = (if remoteDiscriminator a1 = 0 then LocalDiscriminator b1 else remoteDiscriminator a1)"
    by (rule deliver_ok [OF len intn 1(3) 1(2)]) (auto simp: 1(4,7) next_state_eqs bfd_states_distinct)
  have r2: "remoteDiscriminator a2 \<noteq> 0" using 2(3,6) by (simp add: session_inv_def)
  obtain a3 b3 where 3: "deliver len intn (a2, b2) = Inr (a3, b3)" "localState a3 = stateUp" "localState b3 = stateUp"
    "remoteDiscriminator a3 = remoteDiscriminator a2"
    "remoteDiscriminator b3 = (if remoteDiscriminator b2 = 0 then LocalDiscriminator a2 else remoteDiscriminator b2)"
    by (rule deliver_ok [OF len intn 2(3) 2(2)]) (auto simp: 2(4,6) r2 next_state_eqs bfd_states_distinct)
  show thesis
    by (rule that [of a3 b3]) (use 1 2 3 r in \<open>simp_all add: handshake_def Session_IsUp_def\<close>)
qed

text \<open>A configured session of the router.\<close>

definition demo_session :: "u32 \<Rightarrow> session" where
  "demo_session d = \<lparr>Sender = \<lparr>SendConn = None, srcAddr = \<lparr>IP = [], Port = 0\<rparr>, dstAddr = \<lparr>IP = [], Port = 0\<rparr>, srcIA = 0, dstIA = 0,
     SendMac = (\<lambda>x. x), ifID = 0\<rparr>,
     DetectMult = 3, DesiredMinTxInterval = 200000000, RequiredMinRxInterval = 200000000, LocalDiscriminator = d,
     ReceiveQueueSize = 10, RemoteDiscriminator = 0, remoteDiscriminator = 0, localState = 0, runMarker = False,
     desiredMinTXInterval = 0, remoteState = 0, remoteMinRxInterval = 0, detectionTimer = 0, sendTimer = 0\<rparr>"

definition demo_started :: "u32 \<Rightarrow> session" where
  "demo_started d = (demo_session d)\<lparr>runMarker := True, localState := stateDown, desiredMinTXInterval := defaultTransmissionInterval,
     detectionTimer := defaultDetectionTimeout, sendTimer := defaultTransmissionInterval\<rparr>"

lemma demo_start: "d \<noteq> 0 \<Longrightarrow> Session_start (demo_session d) = Inr (demo_started d)"
  by (simp add: Session_start_def demo_session_def demo_started_def runOnceCheck_def validateParameters_def durationToBFDInterval_def
      Microsecond_def Let_def)

lemma demo_runs: "d \<noteq> 0 \<Longrightarrow> runs len (demo_started d)"
  by (rule runs.start [OF demo_start]) (simp_all add: demo_session_def)

lemma demo_down: "localState (demo_started d) = stateDown"
  by (simp add: demo_started_def)

text \<open>Claim C21. In every state a session can reach after it started, whatever messages with a two-bit state arrive and
  however its timers fire: its invariant holds (a session is up only when the other end last reported Init or Up and its
  discriminator is known, every timer is positive and fits an int64), no turn of the loop panics, and the next send
  interval is between 76 and 100 percent of the negotiated interval (90 percent when one lost packet is enough for a
  timeout).\<close>

theorem session_never_panics:
  assumes "runs len s" "BState msg < 4" "random intn"
  shows "session_inv s \<and> (\<exists>s'. recv_msg len intn msg s = Inr s') \<and> (\<exists>s'. detect_tick s = Inr s') \<and>
    (\<exists>s' pkt. send_tick intn s = Inr (s', pkt) \<and>
      76 * max (desiredMinTXInterval s) (remoteMinRxInterval s) div 100 \<le> sendTimer s' \<and>
      sendTimer s' \<le> (if DetectMult s = 1 then 90 else 100) * max (desiredMinTXInterval s) (remoteMinRxInterval s) div 100)"
proof -
  note s = runs_inv [OF assms(1)]
  obtain s1 where "detect_tick s = Inr s1" by (rule detect_tick_ok [OF s])
  moreover obtain s2 where "recv_msg len intn msg s = Inr s2" using recv_total [OF s assms(2,3)] by (rule exE)
  moreover obtain s3 pkt where "send_tick intn s = Inr (s3, pkt)"
    "76 * max (desiredMinTXInterval s) (remoteMinRxInterval s) div 100 \<le> sendTimer s3"
    "sendTimer s3 \<le> (if DetectMult s = 1 then 90 else 100) * max (desiredMinTXInterval s) (remoteMinRxInterval s) div 100"
    by (rule send_tick_ok [OF s assms(3)])
  ultimately show ?thesis using s by (intro conjI exI)
qed

definition demo_bfd :: "u8 \<Rightarrow> bfd_msg" where
  "demo_bfd st = \<lparr>BVersion = 1, BState = st, Poll = False, Final = False, AuthPresent = False, Demand = False, Multipoint = False,
     DetectMultiplier = 3, MyDiscriminator = 7, YourDiscriminator = 0, BDesiredMinTx = 1000000, BRequiredMinRx = 200000,
     BRequiredMinEchoRx = 0, AuthTypeSet = False\<rparr>"

theorem session_never_panics_witness:
  "runs (\<lambda>_. 24) (demo_started 5) \<and> (\<exists>s'. recv_msg (\<lambda>_. 24) (\<lambda>_. 0) (demo_bfd stateInit) (demo_started 5) = Inr s')"
  using session_never_panics [OF demo_runs [of 5 "\<lambda>_. 24"], of "demo_bfd stateInit" "\<lambda>_. 0"] demo_runs [of 5 "\<lambda>_. 24"]
  by (simp add: demo_bfd_def bfd_states)

text \<open>Claim C22. A link that failed comes back: when two running sessions, neither in AdminDown, have both noticed the
  failure (their detection timers fired, so that neither reports the link as up), three control packets, the first from
  either side, bring both up, and each has learned the discriminator of the other. \<open>len\<close> is the length gopacket computes
  for a control packet, 24 bytes without authentication.\<close>

theorem link_recovers:
  assumes "\<forall>m. \<not> AuthPresent m \<longrightarrow> len m = 24" "random intn" "runs len a" "runs len b"
    "localState a \<noteq> stateAdminDown" "localState b \<noteq> stateAdminDown"
  shows "\<exists>a1 b1 a2 b2. detect_tick a = Inr a1 \<and> detect_tick b = Inr b1 \<and> \<not> Session_IsUp a1 \<and> \<not> Session_IsUp b1 \<and>
    handshake len intn (a1, b1) = Inr (a2, b2) \<and> Session_IsUp a2 \<and> Session_IsUp b2 \<and>
    remoteDiscriminator a2 = LocalDiscriminator b \<and> remoteDiscriminator b2 = LocalDiscriminator a"
proof -
  obtain a1 where a: "detect_tick a = Inr a1" "session_inv a1" "remoteDiscriminator a1 = 0" "localState a1 = stateDown"
    "LocalDiscriminator a1 = LocalDiscriminator a"
    by (rule detect_tick_ok [OF runs_inv [OF assms(3)]]) (use assms(5) in auto)
  obtain b1 where b: "detect_tick b = Inr b1" "session_inv b1" "remoteDiscriminator b1 = 0" "localState b1 = stateDown"
    "LocalDiscriminator b1 = LocalDiscriminator b"
    by (rule detect_tick_ok [OF runs_inv [OF assms(4)]]) (use assms(6) in auto)
  obtain a2 b2 where h: "handshake len intn (a1, b1) = Inr (a2, b2)" "Session_IsUp a2" "Session_IsUp b2"
    "remoteDiscriminator a2 = LocalDiscriminator b1" "remoteDiscriminator b2 = LocalDiscriminator a1"
    by (rule handshake_ok [OF assms(1,2) a(2,4) b(2,4)]) (use a(3) b(3) in auto)
  show ?thesis using a b h by (simp add: Session_IsUp_def bfd_states_distinct)
qed

theorem link_recovers_witness:
  "\<exists>a1 b1 a2 b2. detect_tick (demo_started 5) = Inr a1 \<and> detect_tick (demo_started 6) = Inr b1 \<and>
    handshake (\<lambda>_. 24) (\<lambda>_. 0) (a1, b1) = Inr (a2, b2) \<and> Session_IsUp a2 \<and> Session_IsUp b2 \<and>
    remoteDiscriminator a2 = 6 \<and> remoteDiscriminator b2 = 5"
  using link_recovers [of "\<lambda>_. 24" "\<lambda>_. 0" "demo_started 5" "demo_started 6"] demo_runs [of 5 "\<lambda>_. 24"] demo_runs [of 6 "\<lambda>_. 24"]
  by (fastforce simp: demo_down bfd_states_distinct demo_started_def demo_session_def)

lemma step_admin_down: "session_step len s s' \<Longrightarrow> session_inv s \<Longrightarrow> localState s = stateAdminDown \<Longrightarrow> localState s' = stateAdminDown"
proof (induction rule: session_step.induct)
  case (recv msg intn s s')
  show ?case
  proof (cases "fst (shouldDiscard len (localState s) msg)")
    case True
    with recv show ?thesis by (simp add: recv_msg_def)
  next
    case False
    from recv_accepted [OF recv(4,1,2) False] recv(3,5) show ?thesis by (auto simp: next_state_def)
  qed
next
  case (send intn s s' pkt)
  then show ?case by (auto simp: send_tick_def res_simps Let_def)
next
  case (detect s s')
  with detect_tick_ok [OF detect(2)] show ?case by (metis Inr_inject)
qed

text \<open>Claim C20. A single accepted message with state AdminDown ends a session for good: whatever happens afterwards it
  stays in AdminDown, is reported as down, and sends packets with state 0. RFC 5880 and the diagram in fsm.go let the
  session go to Down, from where it would come up again, and the documentation of Session says that such packets are
  never sent.\<close>

theorem admin_down_is_final:
  assumes "runs len s" "random intn" "BState msg = stateAdminDown" "\<not> fst (shouldDiscard len (localState s) msg)"
  shows "\<exists>s1. recv_msg len intn msg s = Inr s1 \<and> (\<forall>s2. (session_step len)\<^sup>*\<^sup>* s1 s2 \<longrightarrow>
    \<not> Session_IsUp s2 \<and> (\<exists>s3 pkt. send_tick intn s2 = Inr (s3, pkt) \<and> BState pkt = 0))"
proof -
  have "BState msg < 4" using assms(3) by (simp add: bfd_states)
  from recv_accepted [OF runs_inv [OF assms(1)] this assms(2,4)] obtain s1 where
    s1: "recv_msg len intn msg s = Inr s1" "session_inv s1" "localState s1 = stateAdminDown"
    using assms(3) by (auto simp: next_state_def)
  have "session_inv s2 \<and> localState s2 = stateAdminDown" if "(session_step len)\<^sup>*\<^sup>* s1 s2" for s2
    using that by (induction rule: rtranclp_induct) (use s1 in \<open>auto dest: step_inv step_admin_down\<close>)
  moreover have "\<exists>s3 pkt. send_tick intn s2 = Inr (s3, pkt) \<and> BState pkt = 0"
    if "session_inv s2" "localState s2 = stateAdminDown" for s2 :: session
    using next_interval [OF that(1) assms(2)] that(2) by (auto simp: send_tick_def Let_def stateAdminDown_def)
  ultimately show ?thesis using s1(1) by (force simp: Session_IsUp_def bfd_states_distinct)
qed

theorem admin_down_is_final_witness:
  "\<exists>s1. recv_msg (\<lambda>_. 24) (\<lambda>_. 0) (demo_bfd stateAdminDown) (demo_started 5) = Inr s1 \<and>
    (\<forall>s2. (session_step (\<lambda>_. 24))\<^sup>*\<^sup>* s1 s2 \<longrightarrow> \<not> Session_IsUp s2)"
  using admin_down_is_final [OF demo_runs [of 5 "\<lambda>_. 24"], of "\<lambda>_. 0" "demo_bfd stateAdminDown"]
  by (fastforce simp: demo_bfd_def shouldDiscard_def demo_down)

end
