(* ===== verification/Ringbuf.thy ===== *)
theory Ringbuf
  imports Prelude
begin

text \<open>
  The ring buffer (go/lib/ringbuf/ringbuf.go) and the packet ring of the gateway on top of it
  (go/pkg/gateway/dataplane/pktring.go), with the contract of a bounded queue that both keep (locale \<open>bounded_queue\<close>).
  The mutex makes every call atomic. A call that waits on a condition variable is \<open>None\<close>: it runs when another call
  has changed the ring. Metrics, and the second result that says whether a call waited, are left out.
\<close>

section \<open>Ring (ringbuf.go)\<close>

text \<open>An entry is nil (\<open>None\<close>) or a reference.\<close>

record 'a ring =
  entries :: "'a option list"
  writeIndex :: nat
  readIndex :: nat
  writable :: nat
  readable :: nat
  closed :: bool

definition ring_New :: "nat \<Rightarrow> 'a list option \<Rightarrow> 'a ring" where
  "ring_New count newf = (case newf of
       Some es \<Rightarrow> \<lparr>entries = map Some es, writeIndex = 0, readIndex = 0, writable = 0, readable = count, closed = False\<rparr>
     | None \<Rightarrow> \<lparr>entries = replicate count None, writeIndex = 0, readIndex = 0, writable = count, readable = 0, closed = False\<rparr>)"

definition ring_write :: "'a list \<Rightarrow> 'a ring \<Rightarrow> 'a ring" where
  "ring_write es r = (let
     n = min (length (entries r) - writeIndex r) (length es);
     r = r\<lparr>entries := put_at (writeIndex r) (map Some (take n es)) (entries r), writeIndex := writeIndex r + n\<rparr>
   in if n < length es then let
        m = min (length (entries r)) (length es - n)
      in r\<lparr>entries := put_at 0 (map Some (take m (drop n es))) (entries r), writeIndex := m\<rparr>
      else r)"

text \<open>\<open>read\<close> into a slice of length \<open>k\<close>, which no call makes longer than what is readable.\<close>

definition ring_read :: "nat \<Rightarrow> 'a ring \<Rightarrow> 'a ring \<times> 'a option list" where
  "ring_read k r = (let
     n = min k (length (entries r) - readIndex r);
     out = take n (drop (readIndex r) (entries r));
     r = r\<lparr>entries := put_at (readIndex r) (replicate n None) (entries r), readIndex := readIndex r + n\<rparr>
   in if n < k then let
        m = min (k - n) (length (entries r));
        out = out @ take m (entries r)
      in (r\<lparr>entries := put_at 0 (replicate m None) (entries r), readIndex := m\<rparr>, out)
      else (r, out))"

definition ring_Write :: "'a list \<Rightarrow> bool \<Rightarrow> 'a ring \<Rightarrow> ('a ring \<times> int) option" where
  "ring_Write es block r =
     (if es \<noteq> [] \<and> writable r = 0 \<and> \<not> closed r then (if \<not> block then Some (r, 0) else None)
      else if closed r then Some (r, -1)
      else let
        n = min (writable r) (length es);
        r = ring_write (take n es) r
      in Some (r\<lparr>writable := writable r - n, readable := readable r + n\<rparr>, int n))"

definition ring_Read :: "nat \<Rightarrow> bool \<Rightarrow> 'a ring \<Rightarrow> ('a ring \<times> 'a option list \<times> int) option" where
  "ring_Read k block r =
     (if 0 < k \<and> readable r = 0 \<and> \<not> closed r then (if \<not> block then Some (r, [], 0) else None)
      else if closed r \<and> readable r = 0 then Some (r, [], -1)
      else let
        n = min (readable r) k;
        (r, out) = ring_read n r
      in Some (r\<lparr>readable := readable r - n, writable := writable r + n\<rparr>, out, int n))"

definition ring_Close :: "'a ring \<Rightarrow> 'a ring" where
  "ring_Close r = r\<lparr>closed := True\<rparr>"

section \<open>pktRing (pktring.go)\<close>

definition batchSize :: nat where "batchSize = 32"
definition ringSize :: nat where "ringSize = 64"

record 'a pkt_ring =
  pring :: "'a ring"
  pentries :: "'a option list"

definition newPktRing :: "'a pkt_ring" where
  "newPktRing = \<lparr>pring = ring_New ringSize None, pentries = []\<rparr>"

definition pktRing_Write :: "'a \<Rightarrow> bool \<Rightarrow> 'a pkt_ring \<Rightarrow> ('a pkt_ring \<times> int) option" where
  "pktRing_Write pkt block pr = (case ring_Write [pkt] block (pring pr) of
       None \<Rightarrow> None
     | Some (r, n) \<Rightarrow> Some (pr\<lparr>pring := r\<rparr>, n))"

text \<open>The type assertion on an entry panics when the entry is nil; \<open>Inl\<close> is that panic.\<close>

definition pktRing_pop :: "'a pkt_ring \<Rightarrow> ('a pkt_ring \<times> 'a option \<times> int) res" where
  "pktRing_pop pr = (case pentries pr of
       Some pkt # es \<Rightarrow> Inr (pr\<lparr>pentries := es\<rparr>, Some pkt, 1)
     | None # es \<Rightarrow> Inl (Panic ''interface conversion'')
     | [] \<Rightarrow> Inl (Panic ''index out of range''))"

definition pktRing_Read :: "bool \<Rightarrow> 'a pkt_ring \<Rightarrow> ('a pkt_ring \<times> 'a option \<times> int) res option" where
  "pktRing_Read block pr =
     (if pentries pr = [] then
        (case ring_Read batchSize block (pring pr) of
           None \<Rightarrow> None
         | Some (r, out, n) \<Rightarrow>
             if n = -1 \<or> n = 0 then Some (Inr (pr\<lparr>pring := r, pentries := []\<rparr>, None, n))
             else Some (pktRing_pop (pr\<lparr>pring := r, pentries := out\<rparr>)))
      else Some (pktRing_pop pr))"

definition pktRing_Close :: "'a pkt_ring \<Rightarrow> 'a pkt_ring" where
  "pktRing_Close pr = pr\<lparr>pring := ring_Close (pring pr)\<rparr>"

section \<open>The contract of a bounded queue\<close>

text \<open>\<open>holds q xs\<close>: the queue holds the elements \<open>xs\<close>, oldest first. \<open>put\<close> returns how many elements it
  took, \<open>get\<close> the elements it removed.\<close>

locale bounded_queue =
  fixes put :: "'a list \<Rightarrow> 'q \<Rightarrow> 'q \<times> nat"
    and get :: "nat \<Rightarrow> 'q \<Rightarrow> 'q \<times> 'a list"
    and close :: "'q \<Rightarrow> 'q"
    and holds :: "'q \<Rightarrow> 'a list \<Rightarrow> bool"
    and cap :: nat
  assumes put_takes: "holds q xs \<Longrightarrow> put es q = (q', n) \<Longrightarrow> n \<le> length es \<and> holds q' (xs @ take n es)"
    and get_gives: "holds q xs \<Longrightarrow> get m q = (q', ys) \<Longrightarrow> length ys \<le> m \<and> (\<exists>zs. xs = ys @ zs \<and> holds q' zs)"
    and get_some: "holds q xs \<Longrightarrow> get m q = (q', ys) \<Longrightarrow> 0 < m \<Longrightarrow> xs \<noteq> [] \<Longrightarrow> ys \<noteq> []"
    and close_keeps: "holds q xs \<Longrightarrow> holds (close q) xs"
    and bounded: "holds q xs \<Longrightarrow> length xs \<le> cap"

datatype 'a queue_op = Put "'a list" | Get nat | CloseQ

text \<open>A history of calls, with what the queue took and what it gave.\<close>

fun queue_run :: "('a list \<Rightarrow> 'q \<Rightarrow> 'q \<times> nat) \<Rightarrow> (nat \<Rightarrow> 'q \<Rightarrow> 'q \<times> 'a list) \<Rightarrow> ('q \<Rightarrow> 'q) \<Rightarrow> 'a queue_op list \<Rightarrow> 'q
    \<Rightarrow> 'q \<times> 'a list \<times> 'a list" where
  "queue_run put get close [] q = (q, [], [])"
| "queue_run put get close (Put es # ops) q = (case put es q of (q, n) \<Rightarrow>
     case queue_run put get close ops q of (q, ins, outs) \<Rightarrow> (q, take n es @ ins, outs))"
| "queue_run put get close (Get m # ops) q = (case get m q of (q, ys) \<Rightarrow>
     case queue_run put get close ops q of (q, ins, outs) \<Rightarrow> (q, ins, ys @ outs))"
| "queue_run put get close (CloseQ # ops) q = queue_run put get close ops (close q)"

context bounded_queue
begin

lemma fifo:
  "holds q xs \<Longrightarrow> queue_run put get close ops q = (q', ins, outs) \<Longrightarrow> \<exists>ys. holds q' ys \<and> xs @ ins = outs @ ys \<and> length ys \<le> cap"
proof (induction ops arbitrary: q xs ins outs)
  case Nil
  then show ?case using bounded by auto
next
  case (Cons op ops)
  show ?case
  proof (cases op)
    case (Put es)
    obtain q1 n where p: "put es q = (q1, n)" by fastforce
    obtain i1 where r: "queue_run put get close ops q1 = (q', i1, outs)" "ins = take n es @ i1"
      using Cons.prems(2) p by (auto simp: Put split: prod.splits)
    from Cons.IH [OF _ r(1)] put_takes [OF Cons.prems(1) p] r(2) show ?thesis by fastforce
  next
    case (Get m)
    obtain q1 ys where g: "get m q = (q1, ys)" by fastforce
    obtain o1 where r: "queue_run put get close ops q1 = (q', ins, o1)" "outs = ys @ o1"
      using Cons.prems(2) g by (auto simp: Get split: prod.splits)
    from get_gives [OF Cons.prems(1) g] obtain zs where z: "xs = ys @ zs" "holds q1 zs" by blast
    from Cons.IH [OF z(2) r(1)] z(1) r(2) show ?thesis by auto
  next
    case CloseQ
    with Cons.IH [OF close_keeps [OF Cons.prems(1)]] Cons.prems(2) show ?thesis by simp
  qed
qed

end

section \<open>The ring is a bounded queue\<close>

text \<open>The elements are one stretch of the array, or wrap around its end.\<close>

definition ring_holds :: "'a ring \<Rightarrow> 'a list \<Rightarrow> bool" where
  "ring_holds r xs \<longleftrightarrow> readable r = length xs \<and> length xs + writable r = length (entries r) \<and>
     ((\<exists>P F. entries r = P @ map Some xs @ F \<and> readIndex r = length P \<and> writeIndex r = length P + length xs) \<or>
      (\<exists>F xs1 xs2. xs = xs1 @ xs2 \<and> entries r = map Some xs2 @ F @ map Some xs1 \<and> writeIndex r = length xs2 \<and>
         readIndex r = length xs2 + length F))"

lemma ring_New_holds:
  "ring_holds (ring_New count None) []" "ring_holds (ring_New (length es) (Some es)) es"
  by (auto simp: ring_holds_def ring_New_def)

lemma ring_write_straight:
  assumes "entries r = P @ map Some xs @ F" "writeIndex r = length P + length xs" "length es \<le> length F"
  shows "ring_write es r = r\<lparr>entries := P @ map Some xs @ map Some es @ drop (length es) F, writeIndex := writeIndex r + length es\<rparr>"
  using assms by (simp add: ring_write_def Let_def put_at_def min_def)

lemma ring_write_wraps:
  assumes "entries r = P @ map Some xs @ F" "writeIndex r = length P + length xs" "length F < length es"
    "length es \<le> length F + length P"
  shows "ring_write es r = r\<lparr>entries := map Some (drop (length F) es) @ drop (length es - length F) P @ map Some xs @ map Some (take (length F) es),
    writeIndex := length es - length F\<rparr>"
proof -
  have m: "min (length P + (length xs + length F)) (length es - length F) = length es - length F" "min (length F) (length es) = length F"
    using assms(3,4) by auto
  show ?thesis using assms m by (simp add: ring_write_def Let_def put_at_def)
qed

lemma ring_write_low:
  assumes "entries r = map Some xs2 @ F @ map Some xs1" "writeIndex r = length xs2" "length es \<le> length F"
  shows "ring_write es r = r\<lparr>entries := map Some (xs2 @ es) @ drop (length es) F @ map Some xs1, writeIndex := writeIndex r + length es\<rparr>"
  using assms by (simp add: ring_write_def Let_def put_at_def min_def)


lemma ring_write_holds:
  assumes "ring_holds r xs" "length es \<le> writable r"
  shows "ring_holds ((ring_write es r)\<lparr>writable := writable r - length es, readable := readable r + length es\<rparr>) (xs @ es)"
proof -
  note c = assms(1)[unfolded ring_holds_def]
  from c consider
      (straight) P F where "entries r = P @ map Some xs @ F" "readIndex r = length P" "writeIndex r = length P + length xs"
    | (wrapped) F xs1 xs2 where "xs = xs1 @ xs2" "entries r = map Some xs2 @ F @ map Some xs1" "writeIndex r = length xs2"
        "readIndex r = length xs2 + length F"
    by blast
  then show ?thesis
  proof cases
    case straight
    show ?thesis
    proof (cases "length es \<le> length F")
      case True
      note w = ring_write_straight [OF straight(1,3) True]
      show ?thesis unfolding ring_holds_def w using c straight(1,2,3) True assms(2)
        by (intro conjI disjI1 exI [of _ P] exI [of _ "drop (length es) F"]) auto
    next
      case False
      then have le: "length F < length es" "length es \<le> length F + length P" using c straight(1) assms(2) by auto
      note w = ring_write_wraps [OF straight(1,3) le]
      show ?thesis unfolding ring_holds_def w using c straight(1,2,3) le assms(2)
        by (intro conjI disjI2 exI [of _ "xs @ take (length F) es"] exI [of _ "drop (length F) es"]
            exI [of _ "drop (length es - length F) P"]) auto
    qed
  next
    case wrapped
    have le: "length es \<le> length F" using c wrapped(1,2) assms(2) by auto
    note w = ring_write_low [OF wrapped(2,3) le]
    show ?thesis unfolding ring_holds_def w using c wrapped le assms(2)
      by (intro conjI disjI2 exI [of _ "xs1"] exI [of _ "xs2 @ es"] exI [of _ "drop (length es) F"]) auto
  qed
qed

lemma ring_read_straight:
  assumes "entries r = P @ xs @ F" "readIndex r = length P" "k \<le> length xs"
  shows "ring_read k r = (r\<lparr>entries := P @ replicate k None @ drop k xs @ F, readIndex := readIndex r + k\<rparr>, take k xs)"
  using assms by (simp add: ring_read_def Let_def put_at_def min_def)

lemma ring_read_wraps:
  assumes "entries r = xs2 @ F @ xs1" "readIndex r = length xs2 + length F" "length xs1 < k" "k \<le> length xs1 + length xs2"
  shows "ring_read k r = (r\<lparr>entries := replicate (k - length xs1) None @ drop (k - length xs1) xs2 @ F @ replicate (length xs1) None,
    readIndex := k - length xs1\<rparr>, xs1 @ take (k - length xs1) xs2)"
proof -
  have m: "min k (length xs1) = length xs1" "min (k - length xs1) (length xs2 + (length F + length xs1)) = k - length xs1"
    using assms(3,4) by auto
  show ?thesis using assms m by (simp add: ring_read_def Let_def put_at_def)
qed

lemma ring_read_holds:
  assumes "ring_holds r xs" "k \<le> length xs"
  obtains r' where "ring_read k r = (r', map Some (take k xs))"
    "ring_holds (r'\<lparr>readable := readable r - k, writable := writable r + k\<rparr>) (drop k xs)"
proof -
  note c = assms(1)[unfolded ring_holds_def]
  from c consider
      (straight) P F where "entries r = P @ map Some xs @ F" "readIndex r = length P" "writeIndex r = length P + length xs"
    | (wrapped) F xs1 xs2 where "xs = xs1 @ xs2" "entries r = map Some xs2 @ F @ map Some xs1" "writeIndex r = length xs2"
        "readIndex r = length xs2 + length F"
    by blast
  then show thesis
  proof cases
    case straight
    have k: "k \<le> length (map Some xs)" using assms(2) by simp
    show thesis
    proof (rule that)
      show "ring_read k r = (r\<lparr>entries := P @ replicate k None @ drop k (map Some xs) @ F, readIndex := readIndex r + k\<rparr>, map Some (take k xs))"
        using ring_read_straight [OF straight(1,2) k] by (simp add: take_map)
      show "ring_holds ((r\<lparr>entries := P @ replicate k None @ drop k (map Some xs) @ F, readIndex := readIndex r + k\<rparr>)
        \<lparr>readable := readable r - k, writable := writable r + k\<rparr>) (drop k xs)"
        unfolding ring_holds_def using c straight assms(2)
        by (intro conjI disjI1 exI [of _ "P @ replicate k None"] exI [of _ F]) (auto simp: drop_map)
    qed
  next
    case wrapped
    show thesis
    proof (cases "k \<le> length xs1")
      case True
      then have k: "k \<le> length (map Some xs1)" by simp
      have e: "entries r = (map Some xs2 @ F) @ map Some xs1 @ []" using wrapped(2) by simp
      have rd: "ring_read k r = (r\<lparr>entries := map Some xs2 @ F @ replicate k None @ drop k (map Some xs1), readIndex := readIndex r + k\<rparr>, map Some (take k xs))"
        using ring_read_straight [OF e _ k] wrapped True by (simp add: take_map)
      show thesis
      proof (rule that [OF rd])
        show "ring_holds ((r\<lparr>entries := map Some xs2 @ F @ replicate k None @ drop k (map Some xs1), readIndex := readIndex r + k\<rparr>)
          \<lparr>readable := readable r - k, writable := writable r + k\<rparr>) (drop k xs)"
          unfolding ring_holds_def using c wrapped True
          by (intro conjI disjI2 exI [of _ "drop k xs1"] exI [of _ xs2] exI [of _ "F @ replicate k None"]) (auto simp: drop_map)
      qed
    next
      case False
      define j where "j = k - length xs1"
      have le: "length (map Some xs1) < k" "k \<le> length (map Some xs1) + length (map Some xs2)" using False assms(2) wrapped(1) by auto
      have rd: "ring_read k r = (r\<lparr>entries := replicate j None @ drop j (map Some xs2) @ F @ replicate (length xs1) None, readIndex := j\<rparr>, map Some (take k xs))"
        using ring_read_wraps [OF wrapped(2) _ le] wrapped False by (simp add: take_map j_def)
      show thesis
      proof (rule that [OF rd])
        show "ring_holds ((r\<lparr>entries := replicate j None @ drop j (map Some xs2) @ F @ replicate (length xs1) None, readIndex := j\<rparr>)
          \<lparr>readable := readable r - k, writable := writable r + k\<rparr>) (drop k xs)"
          unfolding ring_holds_def using c wrapped False assms(2)
          by (intro conjI disjI1 exI [of _ "replicate j None"] exI [of _ "F @ replicate (length xs1) None"]) (auto simp: drop_map j_def)
      qed
    qed
  qed
qed


lemma ring_write_fields [simp]:
  "closed (ring_write es r) = closed r" "writable (ring_write es r) = writable r" "readable (ring_write es r) = readable r"
  by (simp_all add: ring_write_def Let_def)

lemma ring_read_fields:
  "ring_read k r = (r', out) \<Longrightarrow> closed r' = closed r \<and> writable r' = writable r \<and> readable r' = readable r"
  by (auto simp: ring_read_def Let_def split: if_splits)

lemma ring_Write_holds:
  assumes "ring_holds r xs" "ring_Write es block r = Some (r', n)"
  shows "nat n \<le> length es \<and> ring_holds r' (xs @ take (nat n) es) \<and> closed r' = closed r \<and> (n = -1 \<longleftrightarrow> closed r)"
proof -
  define k where "k = min (writable r) (length es)"
  have k: "length (take k es) = k" "length (take k es) \<le> writable r" by (auto simp: k_def)
  note w = ring_write_holds [OF assms(1) k(2)]
  show ?thesis using assms w k(1)
    by (auto simp: ring_Write_def Let_def k_def [symmetric] split: if_splits)
qed

lemma ring_Read_holds:
  assumes "ring_holds r xs" "ring_Read m block r = Some (r', out, n)"
  shows "\<exists>ys zs. out = map Some ys \<and> xs = ys @ zs \<and> ring_holds r' zs \<and> nat n = length ys \<and> length ys \<le> m \<and>
    closed r' = closed r \<and> (0 < m \<and> xs \<noteq> [] \<longrightarrow> 0 < n) \<and> (n = -1 \<longleftrightarrow> closed r \<and> xs = []) \<and> (block \<and> 0 < m \<longrightarrow> n \<noteq> 0)"
proof (cases "xs = []")
  case True
  with assms show ?thesis by (auto simp: ring_Read_def ring_holds_def ring_read_def Let_def put_at_def split: if_splits)
next
  case False
  define k where "k = min (readable r) m"
  have rd: "readable r = length xs" using assms(1) by (simp add: ring_holds_def)
  have "k \<le> length xs" by (simp add: k_def rd)
  from ring_read_holds [OF assms(1) this] obtain r1 where
    r1: "ring_read k r = (r1, map Some (take k xs))" "ring_holds (r1\<lparr>readable := readable r - k, writable := writable r + k\<rparr>) (drop k xs)"
    by blast
  have same: "closed r1 = closed r" "readable r1 = readable r" "writable r1 = writable r"
    using ring_read_fields [OF r1(1)] by auto
  have e: "r' = r1\<lparr>readable := readable r - k, writable := writable r + k\<rparr>" "out = map Some (take k xs)" "n = int k"
    using assms(2) r1(1) same False rd k_def by (auto simp: ring_Read_def Let_def)
  show ?thesis unfolding e using r1(2) same False rd
    by (intro exI [of _ "take k xs"] exI [of _ "drop k xs"]) (auto simp: k_def)
qed

lemma ring_holds_bounded: "ring_holds r xs \<Longrightarrow> length xs \<le> length (entries r)"
  by (auto simp: ring_holds_def)

text \<open>A call without \<open>block\<close> always returns.\<close>

definition ring_put :: "'a list \<Rightarrow> 'a ring \<Rightarrow> 'a ring \<times> nat" where
  "ring_put es r = (case ring_Write es False r of Some (r, n) \<Rightarrow> (r, nat n) | None \<Rightarrow> (r, 0))"

definition ring_get :: "nat \<Rightarrow> 'a ring \<Rightarrow> 'a ring \<times> 'a list" where
  "ring_get m r = (case ring_Read m False r of Some (r, out, n) \<Rightarrow> (r, map the out) | None \<Rightarrow> (r, []))"

lemma ring_size: "ring_holds r xs \<Longrightarrow> length (entries r) = readable r + writable r"
  by (auto simp: ring_holds_def)

lemma ring_Write_counts: "ring_Write es block r = Some (r', n) \<Longrightarrow> readable r' + writable r' = readable r + writable r"
  by (auto simp: ring_Write_def Let_def split: if_splits)

lemma ring_Read_counts: "ring_Read m block r = Some (r', out, n) \<Longrightarrow> readable r' + writable r' = readable r + writable r"
proof -
  assume r: "ring_Read m block r = Some (r', out, n)"
  define k where "k = min (readable r) m"
  have k: "k \<le> readable r" by (simp add: k_def)
  obtain r1 o1 where e: "ring_read k r = (r1, o1)" by fastforce
  from r show ?thesis
    using ring_read_fields [OF e] e k by (auto simp: ring_Read_def Let_def k_def [symmetric] split: if_splits)
qed

lemma nonblocking_returns: "\<exists>x. ring_Write es False r = Some x" "\<exists>x. ring_Read m False r = Some x"
  by (auto simp: ring_Write_def ring_Read_def Let_def split: prod.splits)

text \<open>A ring of \<open>c\<close> slots.\<close>

definition ring_of :: "nat \<Rightarrow> 'a ring \<Rightarrow> 'a list \<Rightarrow> bool" where
  "ring_of c r xs \<longleftrightarrow> ring_holds r xs \<and> readable r + writable r = c"

interpretation ring_queue: bounded_queue ring_put ring_get ring_Close "ring_of c" c
proof unfold_locales
  fix q q' :: "'a ring" and xs es n
  assume "ring_of c q xs" "ring_put es q = (q', n)"
  then obtain k where "ring_Write es False q = Some (q', k)" "n = nat k"
    using nonblocking_returns(1) [of es q] by (auto simp: ring_put_def)
  with \<open>ring_of c q xs\<close> show "n \<le> length es \<and> ring_of c q' (xs @ take n es)"
    using ring_Write_holds ring_Write_counts by (fastforce simp: ring_of_def)
next
  fix q q' :: "'a ring" and xs ys m
  assume "ring_of c q xs" "ring_get m q = (q', ys)"
  then obtain out k where r: "ring_Read m False q = Some (q', out, k)" "ys = map the out"
    using nonblocking_returns(2) [of m q] by (auto simp: ring_get_def)
  obtain ys' zs where y: "out = map Some ys'" "xs = ys' @ zs" "ring_holds q' zs" "length ys' \<le> m" "0 < m \<and> xs \<noteq> [] \<longrightarrow> 0 < k" "nat k = length ys'"
    using ring_Read_holds [OF _ r(1), of xs] \<open>ring_of c q xs\<close> unfolding ring_of_def by blast
  have ys: "ys = ys'" using r(2) y(1) by (simp add: comp_def)
  show "length ys \<le> m \<and> (\<exists>zs. xs = ys @ zs \<and> ring_of c q' zs)"
    using y ys ring_Read_counts [OF r(1)] \<open>ring_of c q xs\<close> by (auto simp: ring_of_def)
  show "ys \<noteq> []" if "0 < m" "xs \<noteq> []" using that y ys by auto
next
  show "ring_of c (ring_Close q) xs" if "ring_of c q xs" for q :: "'a ring" and xs
    using that by (simp add: ring_of_def ring_holds_def ring_Close_def)
  show "length xs \<le> c" if "ring_of c q xs" for q :: "'a ring" and xs
    using that by (auto simp: ring_of_def ring_holds_def)
qed


section \<open>The packet ring is a bounded queue\<close>

definition pkt_ring_of :: "nat \<Rightarrow> 'a pkt_ring \<Rightarrow> 'a list \<Rightarrow> bool" where
  "pkt_ring_of c pr xs \<longleftrightarrow> (\<exists>ys zs. pentries pr = map Some ys \<and> length ys \<le> batchSize \<and> ring_of c (pring pr) zs \<and> xs = ys @ zs)"

lemma newPktRing_of: "pkt_ring_of ringSize newPktRing []"
  by (simp add: pkt_ring_of_def newPktRing_def ring_of_def ring_New_holds) (simp add: ring_New_def)

lemma pktRing_Write_of:
  assumes "pkt_ring_of c pr xs" "pktRing_Write pkt block pr = Some (pr', n)"
  shows "nat n \<le> 1 \<and> pkt_ring_of c pr' (xs @ take (nat n) [pkt])"
proof -
  from assms(2) obtain r where r: "ring_Write [pkt] block (pring pr) = Some (r, n)" "pr' = pr\<lparr>pring := r\<rparr>"
    by (auto simp: pktRing_Write_def split: option.splits)
  from assms(1) obtain ys zs where z: "pentries pr = map Some ys" "length ys \<le> batchSize" "ring_of c (pring pr) zs" "xs = ys @ zs"
    by (auto simp: pkt_ring_of_def)
  have "nat n \<le> 1 \<and> ring_of c r (zs @ take (nat n) [pkt])"
    using ring_Write_holds [OF _ r(1), of zs] ring_Write_counts [OF r(1)] z(3) by (auto simp: ring_of_def)
  with z r(2) show ?thesis by (auto simp: pkt_ring_of_def)
qed

text \<open>Reading never panics. A packet comes out whenever there is one, and -1 only from a ring that is closed and empty;
  a blocking call does not return 0.\<close>

lemma pktRing_Read_of:
  assumes "pkt_ring_of c pr xs" "pktRing_Read block pr = Some x"
  shows "(\<exists>y zs pr'. x = Inr (pr', Some y, 1) \<and> xs = y # zs \<and> pkt_ring_of c pr' zs) \<or>
    (\<exists>pr' n. x = Inr (pr', None, n) \<and> xs = [] \<and> pkt_ring_of c pr' [] \<and> (n = -1 \<and> closed (pring pr) \<or> n = 0 \<and> \<not> block))"
proof -
  from assms(1) obtain ys zs where z: "pentries pr = map Some ys" "length ys \<le> batchSize" "ring_of c (pring pr) zs" "xs = ys @ zs"
    by (auto simp: pkt_ring_of_def)
  show ?thesis
  proof (cases ys)
    case (Cons y ys')
    with z assms(2) show ?thesis by (fastforce simp: pktRing_Read_def pktRing_pop_def pkt_ring_of_def)
  next
    case Nil
    with z assms(2) obtain r out n where rd: "ring_Read batchSize block (pring pr) = Some (r, out, n)"
      by (auto simp: pktRing_Read_def split: option.splits)
    have "ring_holds (pring pr) zs" "readable (pring pr) + writable (pring pr) = c" using z(3) by (auto simp: ring_of_def)
    then obtain ps qs where o: "out = map Some ps" "zs = ps @ qs" "ring_holds r qs" "nat n = length ps" "length ps \<le> batchSize"
      "0 < batchSize \<and> zs \<noteq> [] \<longrightarrow> 0 < n" "(n = -1) = (closed (pring pr) \<and> zs = [])" "block \<and> 0 < batchSize \<longrightarrow> n \<noteq> 0"
      using ring_Read_holds [OF _ rd] by blast
    have r: "ring_of c r qs" using o(3) ring_Read_counts [OF rd] z(3) by (simp add: ring_of_def)
    show ?thesis
    proof (cases ps)
      case (Cons p ps')
      with Nil z rd o(1,2,4,5) r assms(2) show ?thesis
        by (fastforce simp: pktRing_Read_def pktRing_pop_def pkt_ring_of_def split: if_splits)
    next
      case Nil': Nil
      have "zs = []" using o(4,6) Nil' by (cases "zs = []") (auto simp: batchSize_def)
      moreover have "n = -1 \<or> n = 0" 
        using o(4) Nil' rd by (auto simp: ring_Read_def Let_def split: if_splits prod.splits)
      ultimately show ?thesis using Nil z rd o Nil' r assms(2)
        by (auto simp: pktRing_Read_def pkt_ring_of_def batchSize_def)
    qed
  qed
qed


text \<open>One packet per call, as the encoder uses it; a panic would lose the packet.\<close>

definition pkt_put :: "'a list \<Rightarrow> 'a pkt_ring \<Rightarrow> 'a pkt_ring \<times> nat" where
  "pkt_put es pr = (case es of [] \<Rightarrow> (pr, 0) | pkt # _ \<Rightarrow>
     (case pktRing_Write pkt False pr of Some (pr, n) \<Rightarrow> (pr, nat n) | None \<Rightarrow> (pr, 0)))"

definition pkt_get :: "nat \<Rightarrow> 'a pkt_ring \<Rightarrow> 'a pkt_ring \<times> 'a list" where
  "pkt_get m pr = (if m = 0 then (pr, []) else case pktRing_Read False pr of
       Some (Inr (pr, Some pkt, n)) \<Rightarrow> (pr, [pkt])
     | Some (Inr (pr, None, n)) \<Rightarrow> (pr, [])
     | _ \<Rightarrow> (pr, []))"

lemma pktRing_returns: "\<exists>x. pktRing_Write pkt False pr = Some x" "\<exists>x. pktRing_Read False pr = Some x"
  using nonblocking_returns(1) [of "[pkt]" "pring pr"] nonblocking_returns(2) [of batchSize "pring pr"]
  by (auto simp: pktRing_Write_def pktRing_Read_def)

interpretation pkt_queue: bounded_queue pkt_put pkt_get pktRing_Close "pkt_ring_of c" "batchSize + c"
proof unfold_locales
  fix q q' :: "'a pkt_ring" and xs es n
  assume q: "pkt_ring_of c q xs" "pkt_put es q = (q', n)"
  show "n \<le> length es \<and> pkt_ring_of c q' (xs @ take n es)"
  proof (cases es)
    case Nil
    with q show ?thesis by (simp add: pkt_put_def)
  next
    case (Cons e es')
    obtain k where "pktRing_Write e False q = Some (q', k)" "n = nat k"
      using q(2) pktRing_returns(1) [of e q] by (auto simp: pkt_put_def Cons)
    with pktRing_Write_of [OF q(1)] show ?thesis by (cases n) (fastforce simp: Cons)+
  qed
next
  fix q q' :: "'a pkt_ring" and xs ys m
  assume q: "pkt_ring_of c q xs" "pkt_get m q = (q', ys)"
  obtain x where x: "pktRing_Read False q = Some x" using pktRing_returns(2) by blast
  from pktRing_Read_of [OF q(1) x] q show "length ys \<le> m \<and> (\<exists>zs. xs = ys @ zs \<and> pkt_ring_of c q' zs)"
    by (cases "m = 0") (auto simp: pkt_get_def x)
  from pktRing_Read_of [OF q(1) x] q show "ys \<noteq> []" if "0 < m" "xs \<noteq> []"
    using that by (auto simp: pkt_get_def x)
next
  show "pkt_ring_of c (pktRing_Close q) xs" if "pkt_ring_of c q xs" for q :: "'a pkt_ring" and xs
    using that ring_queue.close_keeps by (fastforce simp: pkt_ring_of_def pktRing_Close_def)
  show "length xs \<le> batchSize + c" if "pkt_ring_of c q xs" for q :: "'a pkt_ring" and xs
    using that by (auto simp: pkt_ring_of_def dest!: ring_queue.bounded)
qed

section \<open>Properties\<close>

text \<open>Claim C24. First in, first out: in any history of writes, reads and closings of a fresh ring buffer with
  \<open>count\<close> slots, and likewise of a packet ring, what was read is exactly the beginning of what the writes took, in
  order and without loss or duplication; the rest is still in the buffer, at most its capacity.\<close>

theorem ring_fifo:
  "(case queue_run ring_put ring_get ring_Close ops (ring_New count None) of (r, ins, outs) \<Rightarrow>
      \<exists>rest. ins = outs @ rest \<and> ring_of count r rest \<and> length rest \<le> count) \<and>
   (case queue_run pkt_put pkt_get pktRing_Close ops newPktRing of (pr, ins, outs) \<Rightarrow>
      \<exists>rest. ins = outs @ rest \<and> pkt_ring_of ringSize pr rest \<and> length rest \<le> batchSize + ringSize)"
proof -
  have "ring_of count (ring_New count None) []" by (simp add: ring_of_def ring_New_holds) (simp add: ring_New_def)
  from ring_queue.fifo [OF this] pkt_queue.fifo [OF newPktRing_of] show ?thesis
    by (fastforce split: prod.splits)
qed

end
