(* ===== verification/Gateway_Frames.thy ===== *)
theory Gateway_Frames
  imports Ringbuf "HOL-Library.AList"
begin

text \<open>
  The data plane of the IP gateway (go/pkg/gateway/dataplane): IP packets are packed into frames by the encoder
  (encoder.go), sent over SCION, and unpacked by the ingress server (ingressserver.go), a worker per remote session
  (worker.go), frame buffers (framebuf.go) and reassembly lists (rlist.go). A packet handed to \<open>send\<close> and a frame handed
  to \<open>Release\<close> are results of the functions below; errors of the tunnel device, which are only logged, metrics and
  logging are left out.
\<close>

section \<open>Encoder (encoder.go)\<close>

definition hdrLen :: nat where "hdrLen = 16"
definition versionPos :: nat where "versionPos = 0"
definition sessPos :: nat where "sessPos = 1"
definition indexPos :: nat where "indexPos = 2"
definition streamPos :: nat where "streamPos = 4"
definition seqPos :: nat where "seqPos = 8"

unbundle bit_operations_syntax

text \<open>\<open>frame\<close> holds the bytes up to the length of the slice, \<open>frameCap\<close> is its capacity. The ring is read through
  the list of results its successive \<open>Read\<close> calls return, so that writers may run in between.\<close>

record encoder =
  sessionID :: u8
  streamID :: u32
  eseq :: u64
  epkt :: bytes
  frame :: bytes
  frameCap :: nat

datatype ring_result = Packet bytes | Empty | RingClosed

definition newEncoder :: "u8 \<Rightarrow> u32 \<Rightarrow> u16 \<Rightarrow> encoder" where
  "newEncoder sid strm mtu = \<lparr>sessionID = sid, streamID = strm, eseq = 0, epkt = [], frame = [], frameCap = unat mtu\<rparr>"

definition copyToFrame :: "encoder \<Rightarrow> encoder \<times> nat" where
  "copyToFrame e = (let
     toCopy = frameCap e - length (frame e);
     toCopy = (if length (epkt e) < toCopy then length (epkt e) else toCopy)
   in (e\<lparr>frame := frame e @ take toCopy (epkt e), epkt := drop toCopy (epkt e)\<rparr>, toCopy))"

text \<open>The check that a packet is a whole IPv4 or IPv6 packet.\<close>

definition pkt_valid :: "bytes \<Rightarrow> bool" where
  "pkt_valid p =
     (if p = [] then False
      else let ipVersion = drop_bit 4 (p ! 0) in
        if ipVersion = 4 then \<not> length p < 20 \<and> unat (Uint16 (slice 2 4 p)) = length p
        else if ipVersion = 6 then \<not> length p < 40 \<and> 40 + unat (Uint16 (slice 4 6 p)) = length p
        else False)"

text \<open>The loop of \<open>Read\<close>. \<open>None\<close>: still waiting for the ring.\<close>

fun read_loop :: "encoder \<Rightarrow> nat \<Rightarrow> bool \<Rightarrow> ring_result list \<Rightarrow> (bytes option \<times> encoder \<times> ring_result list) option" where
  "read_loop e pos indexSet [] = (if frameCap e - pos < 40 then Some (Some (take pos (frame e)), e, []) else None)"
| "read_loop e pos indexSet (r # rs) =
     (if frameCap e - pos < 40 then Some (Some (take pos (frame e)), e, r # rs)
      else case r of
        Empty \<Rightarrow> Some (Some (take pos (frame e)), e\<lparr>epkt := []\<rparr>, rs)
      | RingClosed \<Rightarrow> Some (if pos = hdrLen then None else Some (take pos (frame e)), e\<lparr>epkt := []\<rparr>, rs)
      | Packet p \<Rightarrow> let e = e\<lparr>epkt := p\<rparr> in
          if \<not> pkt_valid p then read_loop e pos indexSet rs
          else let
            e = (if \<not> indexSet then e\<lparr>frame := put_at indexPos (PutUint16 (of_nat (pos - hdrLen))) (frame e)\<rparr> else e);
            (e, n) = copyToFrame e;
            pos = pos + n
          in if epkt e \<noteq> [] then Some (Some (take pos (frame e)), e, rs)
             else read_loop e pos True rs)"

definition frame_header :: "encoder \<Rightarrow> bytes" where
  "frame_header e = [0, sessionID e] @ PutUint16 0xffff @ PutUint32 (streamID e AND 0xfffff) @ PutUint64 (eseq e)"

definition encoder_Read :: "encoder \<Rightarrow> ring_result list \<Rightarrow> (bytes option \<times> encoder \<times> ring_result list) res option" where
  "encoder_Read e rs =
     (if frameCap e < hdrLen then Some (Inl (Panic ''slice bounds out of range''))
      else let
        e = e\<lparr>frame := frame_header e\<rparr>;
        e = e\<lparr>eseq := eseq e + 1\<rparr>;
        pos = hdrLen
      in if epkt e \<noteq> [] then let
           (e, n) = copyToFrame e;
           pos = pos + n
         in if epkt e \<noteq> [] then Some (Inr (Some (take pos (frame e)), e, rs))
            else map_option Inr (read_loop e pos False rs)
         else map_option Inr (read_loop e pos False rs))"

section \<open>Frame buffers (framebuf.go)\<close>

definition frameBufCap :: nat where "frameBufCap = 65535"
definition freeFramesCap :: nat where "freeFramesCap = 1024"
definition sigHdrSize :: nat where "sigHdrSize = 16"

record frame_buf =
  sessId :: u8
  seqNr :: u64
  findex :: int
  frameLen :: nat
  frag0Start :: nat
  frag0Processed :: bool
  fragNProcessed :: bool
  completePktsProcessed :: bool
  pktLen :: nat
  raw :: bytes

definition frame_Reset :: "frame_buf \<Rightarrow> frame_buf" where
  "frame_Reset fb = fb\<lparr>sessId := 0, seqNr := 0xffffffffffffffff, findex := -1, frameLen := 0, frag0Start := 0,
     frag0Processed := False, fragNProcessed := False, completePktsProcessed := False, pktLen := 0\<rparr>"

definition newFrameBuf :: "frame_buf" where
  "newFrameBuf = frame_Reset \<lparr>sessId = 0, seqNr = 0, findex = 0, frameLen = 0, frag0Start = 0, frag0Processed = False,
     fragNProcessed = False, completePktsProcessed = False, pktLen = 0, raw = replicate frameBufCap 0\<rparr>"

definition go_index :: "nat \<Rightarrow> 'a list \<Rightarrow> 'a res" where
  "go_index i b = (if i < length b then Inr (b ! i) else Inl (Panic ''index out of range''))"

text \<open>The length a packet header at \<open>offset\<close> announces; \<open>None\<close> where the header is cut off or not IP.\<close>

definition header_len :: "bytes \<Rightarrow> nat \<Rightarrow> nat \<Rightarrow> nat option res" where
  "header_len b flen offset = rbind (go_index offset b) (\<lambda>x. let ipVersion = drop_bit 4 x in
     if ipVersion = 4 then
       (if flen - offset < 20 then Inr None
        else rbind (gslice (offset + 2) (offset + 4) b) (\<lambda>w. let l = unat (Uint16 w) in
          Inr (if l < 20 then None else Some l)))
     else if ipVersion = 6 then
       (if flen - offset < 40 then Inr None
        else rbind (gslice (offset + 4) (offset + 6) b) (\<lambda>w. Inr (Some (unat (Uint16 w) + 40))))
     else Inr None)"

lemma header_len_pos: "header_len b flen offset = Inr (Some l) \<Longrightarrow> 20 \<le> l"
  by (auto simp: header_len_def res_simps Let_def split: if_splits)

text \<open>The loop of \<open>ProcessCompletePkts\<close>: whether it returned early, the offset and packet length it stopped with, and
  the packets it sent.\<close>

function complete_loop :: "bytes \<Rightarrow> nat \<Rightarrow> nat \<Rightarrow> nat \<Rightarrow> (bool \<times> nat \<times> nat \<times> bytes list) res" where
  "complete_loop b flen offset plen =
     (if offset < flen then
        rbind (header_len b flen offset) (\<lambda>h. case h of
          None \<Rightarrow> Inr (True, offset, plen, [])
        | Some plen \<Rightarrow> rbind (gslice offset flen b) (\<lambda>rawPkt.
            if length rawPkt < plen then Inr (False, offset, plen, [])
            else rbind (complete_loop b flen (offset + plen) plen) (\<lambda>(bad, offset, plen', sent).
              Inr (bad, offset, plen', take plen rawPkt # sent))))
      else Inr (False, offset, plen, []))"
  by pat_completeness auto
termination
  by (relation "measure (\<lambda>(b, flen, offset, plen). flen - offset)") (auto dest: header_len_pos)

declare complete_loop.simps [simp del]

definition ProcessCompletePkts :: "frame_buf \<Rightarrow> (frame_buf \<times> bytes list) res" where
  "ProcessCompletePkts fb =
     (if completePktsProcessed fb \<or> findex fb = 0xffff then Inr (fb\<lparr>completePktsProcessed := True\<rparr>, [])
      else rbind (complete_loop (raw fb) (frameLen fb) (nat (findex fb + int sigHdrSize)) 0) (\<lambda>(bad, offset, plen, sent).
        if bad then Inr (fb\<lparr>completePktsProcessed := True\<rparr>, sent)
        else let
          fb = (if offset < frameLen fb then fb\<lparr>frag0Start := offset, pktLen := plen\<rparr> else fb);
          fb = fb\<lparr>completePktsProcessed := True\<rparr>
        in Inr (fb\<lparr>frag0Processed := (frag0Start fb = 0)\<rparr>, sent)))"

definition Processed :: "frame_buf \<Rightarrow> bool" where
  "Processed fb \<longleftrightarrow> completePktsProcessed fb \<and> fragNProcessed fb \<and> (frag0Start fb = 0 \<or> frag0Processed fb)"

definition SetProcessed :: "frame_buf \<Rightarrow> frame_buf" where
  "SetProcessed fb = fb\<lparr>completePktsProcessed := True, fragNProcessed := True, frag0Processed := True\<rparr>"

section \<open>Reassembly lists (rlist.go)\<close>

text \<open>The reassembly buffer is reset before every use and is local here. An operation returns the list, the packets
  sent and the frames released.\<close>

record rlist =
  epoch :: nat
  capacity :: nat
  markedForDeletion :: bool
  rentries :: "frame_buf list"

type_synonym rlist_result = "(rlist \<times> bytes list \<times> frame_buf list) res"

definition newReassemblyList :: "nat \<Rightarrow> nat \<Rightarrow> rlist" where
  "newReassemblyList ep cap = \<lparr>epoch = ep, capacity = cap, markedForDeletion = False, rentries = []\<rparr>"

definition insertFirst :: "rlist \<Rightarrow> frame_buf \<Rightarrow> rlist_result" where
  "insertFirst l fb = rbind (ProcessCompletePkts fb) (\<lambda>(fb, sent).
     Inr (if frag0Start fb \<noteq> 0 then (l\<lparr>rentries := rentries l @ [fb]\<rparr>, sent, []) else (l, sent, [fb])))"

definition removeAll :: "rlist \<Rightarrow> rlist \<times> frame_buf list" where
  "removeAll l = (l\<lparr>rentries := []\<rparr>, rentries l)"

text \<open>\<open>removeBefore(l.entries.Back())\<close>\<close>

definition removeBeforeBack :: "rlist \<Rightarrow> rlist \<times> frame_buf list" where
  "removeBeforeBack l = (l\<lparr>rentries := [last (rentries l)]\<rparr>, butlast (rentries l))"

definition removeProcessed :: "rlist \<Rightarrow> rlist \<times> frame_buf list" where
  "removeProcessed l = (l\<lparr>rentries := filter (\<lambda>f. \<not> Processed f) (rentries l)\<rparr>, filter Processed (rentries l))"

text \<open>The loop of \<open>collectAndWrite\<close>: the buffer, the frames it visited and the others.\<close>

fun collect_loop :: "nat \<Rightarrow> bytes \<Rightarrow> frame_buf list \<Rightarrow> (bytes \<times> frame_buf list \<times> frame_buf list) res" where
  "collect_loop plen buf [] = Inr (buf, [], [])"
| "collect_loop plen buf (f # fs) =
     (if length buf < plen then let missingBytes = plen - length buf in
        rbind (gslice sigHdrSize (min (missingBytes + sigHdrSize) (frameLen f)) (raw f)) (\<lambda>w.
        rbind (collect_loop plen (buf @ w) fs) (\<lambda>(buf, visited, rest).
        Inr (buf, f\<lparr>fragNProcessed := True\<rparr> # visited, rest)))
      else Inr (buf, [], f # fs))"

definition collectAndWrite :: "rlist \<Rightarrow> rlist_result" where
  "collectAndWrite l = (case rentries l of
       [] \<Rightarrow> Inl (Panic ''nil pointer dereference'')
     | startFrame # fs \<Rightarrow>
         rbind (gslice (frag0Start startFrame) (frameLen startFrame) (raw startFrame)) (\<lambda>buf.
         rbind (collect_loop (pktLen startFrame) buf fs) (\<lambda>(buf, visited, rest).
         if visited = [] then Inl (Panic ''nil pointer dereference'')
         else rbind (ProcessCompletePkts (last visited)) (\<lambda>(fb, sent2).
           let sent1 = (if length buf \<noteq> pktLen startFrame then [] else [buf]);
               (l, released) = removeProcessed (l\<lparr>rentries := SetProcessed startFrame # butlast visited @ [fb] @ rest\<rparr>)
           in Inr (l, sent1 @ sent2, released)))))"

datatype scan_result = CanReassemble | FramingError | NotYet

fun scan_loop :: "nat \<Rightarrow> int \<Rightarrow> frame_buf list \<Rightarrow> scan_result" where
  "scan_loop plen n [] = NotYet"
| "scan_loop plen n (currFrame # fs) = (let n = n + (int (frameLen currFrame) - int sigHdrSize) in
     if n \<ge> int plen then CanReassemble
     else if findex currFrame \<noteq> 0xffff then FramingError
     else scan_loop plen n fs)"

definition tryReassemble :: "rlist \<Rightarrow> rlist_result" where
  "tryReassemble l = (case rentries l of
       startFrame # f # fs \<Rightarrow>
         if frag0Start startFrame = 0 then (case removeAll l of (l, released) \<Rightarrow> Inr (l, [], released))
         else (case scan_loop (pktLen startFrame) (int (frameLen startFrame) - int (frag0Start startFrame)) (f # fs) of
             CanReassemble \<Rightarrow> collectAndWrite l
           | FramingError \<Rightarrow> (case removeBeforeBack l of (l, released) \<Rightarrow> Inr (l, [], released))
           | NotYet \<Rightarrow> Inr (l, [], []))
     | _ \<Rightarrow> Inr (l, [], []))"

definition insert_after_removal :: "rlist \<Rightarrow> frame_buf \<Rightarrow> rlist_result" where
  "insert_after_removal l fb = (case removeAll l of (l, released) \<Rightarrow>
     rbind (insertFirst l fb) (\<lambda>(l, sent, released'). Inr (l, sent, released @ released')))"

definition rlist_Insert :: "rlist \<Rightarrow> frame_buf \<Rightarrow> rlist_result" where
  "rlist_Insert l fb =
     (if rentries l = [] then insertFirst l fb
      else let firstFrame = hd (rentries l); lastFrame = last (rentries l) in
        if seqNr fb < seqNr firstFrame then Inr (l, [], [fb])
        else if seqNr fb \<ge> seqNr firstFrame \<and> seqNr fb \<le> seqNr lastFrame then Inr (l, [], [fb])
        else if seqNr fb > seqNr lastFrame + 1 then insert_after_removal l fb
        else if length (rentries l) = capacity l then insert_after_removal l fb
        else tryReassemble (l\<lparr>rentries := rentries l @ [fb]\<rparr>))"

section \<open>Workers (worker.go)\<close>

definition reassemblyListCap :: nat where "reassemblyListCap = 100"

record worker =
  wring :: "frame_buf ring"
  rlists :: "(nat \<times> rlist) list"
  markedForCleanup :: bool

definition newWorker :: worker where
  "newWorker = \<lparr>wring = ring_New 64 None, rlists = [], markedForCleanup = False\<rparr>"

definition getRlist :: "worker \<Rightarrow> nat \<Rightarrow> rlist" where
  "getRlist w ep = (case map_of (rlists w) ep of
       Some l \<Rightarrow> l\<lparr>markedForDeletion := False\<rparr>
     | None \<Rightarrow> (newReassemblyList ep reassemblyListCap)\<lparr>markedForDeletion := False\<rparr>)"

definition read_header :: "frame_buf \<Rightarrow> (nat \<times> frame_buf) res" where
  "read_header fb =
     rbind (gslice 2 4 (raw fb)) (\<lambda>a. rbind (gslice 4 8 (raw fb)) (\<lambda>b. rbind (gslice 8 16 (raw fb)) (\<lambda>c.
     let index = unat (Uint16 a); ep = unat (Uint32 b AND 0xfffff); seq = Uint64 c in
     Inr (ep, fb\<lparr>seqNr := seq, findex := int index, fragNProcessed := (index = 0), completePktsProcessed := (index = 0xffff)\<rparr>))))"

definition processFrame :: "worker \<Rightarrow> frame_buf \<Rightarrow> (worker \<times> bytes list \<times> frame_buf list) res" where
  "processFrame w fb = rbind (read_header fb) (\<lambda>(ep, fb).
     rbind (rlist_Insert (getRlist w ep) fb) (\<lambda>(l, sent, released).
     Inr (w\<lparr>rlists := AList.update ep l (rlists w)\<rparr>, sent, released)))"

text \<open>One round of the loop of \<open>Run\<close>: the frames read from the ring are processed in order. The cleanup between
  rounds is a step of its own. \<open>None\<close>: waiting, or stopped.\<close>

fun process_frames :: "worker \<Rightarrow> frame_buf list \<Rightarrow> (worker \<times> bytes list \<times> frame_buf list) res" where
  "process_frames w [] = Inr (w, [], [])"
| "process_frames w (f # fs) = rbind (processFrame w f) (\<lambda>(w, sent, released).
     rbind (process_frames w fs) (\<lambda>(w, sent', released'). Inr (w, sent @ sent', released @ released')))"

definition worker_round :: "worker \<Rightarrow> (worker \<times> bytes list \<times> frame_buf list) res option" where
  "worker_round w = (case ring_Read 64 True (wring w) of
       None \<Rightarrow> None
     | Some (r, out, n) \<Rightarrow>
         if n < 0 then None
         else if None \<in> set out then Some (Inl (Panic ''interface conversion''))
         else Some (process_frames (w\<lparr>wring := r\<rparr>) (map the out)))"

definition worker_cleanup :: "worker \<Rightarrow> worker \<times> frame_buf list" where
  "worker_cleanup w =
     (w\<lparr>rlists := map (\<lambda>(ep, l). (ep, l\<lparr>markedForDeletion := True\<rparr>)) (filter (\<lambda>(ep, l). \<not> markedForDeletion l) (rlists w))\<rparr>,
      concat (map (\<lambda>(ep, l). rentries l) (filter (\<lambda>(ep, l). markedForDeletion l) (rlists w))))"

section \<open>The ingress server (ingressserver.go)\<close>

text \<open>The pool of frame buffers is a ring that starts full. \<open>newFrameBufs\<close> takes what it finds, at most 64 buffers, and waits when there
  is none (\<open>None\<close>); \<open>Release\<close> gives a buffer back.\<close>

definition initFreeFrames :: "frame_buf ring" where
  "initFreeFrames = ring_New freeFramesCap (Some (replicate freeFramesCap newFrameBuf))"

definition newFrameBufs :: "frame_buf ring \<Rightarrow> (frame_buf ring \<times> frame_buf option list) option" where
  "newFrameBufs pool = map_option (\<lambda>(r, out, n). (r, out)) (ring_Read 64 True pool)"

definition frame_Release :: "frame_buf \<Rightarrow> frame_buf ring \<Rightarrow> frame_buf ring option" where
  "frame_Release fb pool = map_option fst (ring_Write [frame_Reset fb] True pool)"

fun release_all :: "frame_buf list \<Rightarrow> frame_buf ring \<Rightarrow> frame_buf ring option" where
  "release_all [] pool = Some pool"
| "release_all (f # fs) pool = Option.bind (frame_Release f pool) (release_all fs)"

text \<open>A worker is found by the remote ISD-AS, its host address and the session.\<close>

type_synonym worker_key = "u64 \<times> (bytes \<times> nat) \<times> u8"

text \<open>The server with its workers and the pool: \<open>srvFrames\<close> are the buffers of the current batch that are not used yet, \<open>srvStopping\<close> the
  workers that were removed and drain their closed ring, \<open>srvErr\<close> the error with which \<open>Run\<close> has returned, or the panic of a
  worker, which ends the process.\<close>

record server =
  srvPool :: "frame_buf ring"
  srvFrames :: "frame_buf option list"
  srvWorkers :: "(worker_key \<times> worker) list"
  srvStopping :: "worker list"
  srvErr :: "go_error option"

definition newServer :: server where
  "newServer = \<lparr>srvPool = initFreeFrames, srvFrames = [], srvWorkers = [], srvStopping = [], srvErr = None\<rparr>"

text \<open>\<open>device\<close> says for which ISD-AS the device manager has a handle. A dispatched frame waits while the ring of its
  worker is full (\<open>None\<close>).\<close>

definition dispatch :: "(u64 \<Rightarrow> bool) \<Rightarrow> frame_buf \<Rightarrow> u64 \<times> (bytes \<times> nat) \<Rightarrow> server \<Rightarrow> server option" where
  "dispatch device fb src s = (let key = (fst src, snd src, sessId fb);
     enqueue = (\<lambda>w. map_option (\<lambda>(r, n). s\<lparr>srvWorkers := AList.update key (w\<lparr>markedForCleanup := False, wring := r\<rparr>) (srvWorkers s)\<rparr>)
       (ring_Write [fb] True (wring w)))
   in case map_of (srvWorkers s) key of
        Some w \<Rightarrow> enqueue w
      | None \<Rightarrow> if \<not> device (fst src) then Some s else enqueue newWorker)"

datatype read_result =
    ReadError bool
  | ReadFrame bytes "(u64 \<times> (bytes \<times> nat)) option"

text \<open>A read into a frame buffer: \<open>ReadError True\<close> is an error of the dispatcher; a source of \<open>None\<close> is not a SCION
  address. \<open>Inl\<close>: the server returns with that error.\<close>

definition server_read :: "(u64 \<Rightarrow> bool) \<Rightarrow> frame_buf \<Rightarrow> read_result \<Rightarrow> server \<Rightarrow> server res option" where
  "server_read device fb r s = (case r of
       ReadError disp \<Rightarrow>
         if disp then Some (Inl (Err ''problems speaking to dispatcher''))
         else map_option (\<lambda>p. Inr (s\<lparr>srvPool := p\<rparr>)) (frame_Release fb (srvPool s))
     | ReadFrame data src \<Rightarrow> (let fb = fb\<lparr>raw := go_copy (raw fb) data\<rparr>; n = min (length (raw fb)) (length data) in
         case src of
           None \<Rightarrow> Some (Inl (Err ''not a valid snet address''))
         | Some v \<Rightarrow>
             if n < sigHdrSize then Some (Inl (Err ''frame too short''))
             else if raw fb ! 0 \<noteq> 0 then Some (Inl (Err ''unsupported SIG protocol version''))
             else map_option Inr (dispatch device (fb\<lparr>frameLen := n, sessId := raw fb ! 1\<rparr>) v s)))"

text \<open>One turn of the inner loop of \<open>read\<close>, with a new batch of buffers when the last one is used up.\<close>

definition server_turn :: "(u64 \<Rightarrow> bool) \<Rightarrow> read_result \<Rightarrow> server \<Rightarrow> server option" where
  "server_turn device r s =
     (if srvErr s \<noteq> None then None
      else Option.bind (if srvFrames s \<noteq> [] then Some (srvPool s, srvFrames s) else newFrameBufs (srvPool s)) (\<lambda>(pool, frames).
        case frames of
          [] \<Rightarrow> None
        | None # _ \<Rightarrow> Some (s\<lparr>srvErr := Some (Panic ''interface conversion'')\<rparr>)
        | Some fb # fs \<Rightarrow> let s = s\<lparr>srvPool := pool, srvFrames := fs\<rparr> in
            map_option (\<lambda>res. case res of Inl e \<Rightarrow> s\<lparr>srvErr := Some e\<rparr> | Inr s \<Rightarrow> s) (server_read device fb r s)))"

text \<open>A round of a worker: the frames it releases go back to the pool.\<close>

definition worker_turn :: "worker \<Rightarrow> (worker \<Rightarrow> server \<Rightarrow> server) \<Rightarrow> server \<Rightarrow> server option" where
  "worker_turn w put s = Option.bind (worker_round w) (\<lambda>res. case res of
       Inl e \<Rightarrow> Some (s\<lparr>srvErr := Some e\<rparr>)
     | Inr (w, sent, released) \<Rightarrow> map_option (\<lambda>p. put w (s\<lparr>srvPool := p\<rparr>)) (release_all released (srvPool s)))"

text \<open>\<open>cleanup\<close> closes the ring of a removed worker, which then returns when its ring is empty.\<close>

definition server_cleanup :: "server \<Rightarrow> server" where
  "server_cleanup s = s\<lparr>
     srvWorkers := map (\<lambda>(k, w). (k, w\<lparr>markedForCleanup := True\<rparr>)) (filter (\<lambda>(k, w). \<not> markedForCleanup w) (srvWorkers s)),
     srvStopping := srvStopping s @ map (\<lambda>(k, w). w\<lparr>wring := ring_Close (wring w)\<rparr>) (filter (\<lambda>(k, w). markedForCleanup w) (srvWorkers s))\<rparr>"

text \<open>The goroutines of the ingress side take turns. \<open>None\<close>: the goroutine that is to take the turn waits or has ended.\<close>

datatype ingress_event =
    Read read_result
  | Round worker_key
  | Lists worker_key
  | Cleanup
  | Drain nat

definition put_worker :: "worker_key \<Rightarrow> worker \<Rightarrow> server \<Rightarrow> server" where
  "put_worker k w s = s\<lparr>srvWorkers := AList.update k w (srvWorkers s)\<rparr>"

fun ingress_step :: "(u64 \<Rightarrow> bool) \<Rightarrow> ingress_event \<Rightarrow> server \<Rightarrow> server option" where
  "ingress_step device (Read r) s = server_turn device r s"
| "ingress_step device (Round k) s = Option.bind (map_of (srvWorkers s) k) (\<lambda>w. worker_turn w (put_worker k) s)"
| "ingress_step device (Lists k) s = Option.bind (map_of (srvWorkers s) k) (\<lambda>w. case worker_cleanup w of
     (w, released) \<Rightarrow> map_option (\<lambda>p. put_worker k w (s\<lparr>srvPool := p\<rparr>)) (release_all released (srvPool s)))"
| "ingress_step device Cleanup s = (if srvErr s \<noteq> None \<or> srvFrames s \<noteq> [] then None else Some (server_cleanup s))"
| "ingress_step device (Drain i) s = (if i < length (srvStopping s)
     then worker_turn (srvStopping s ! i) (\<lambda>w s. s\<lparr>srvStopping := (srvStopping s)[i := w]\<rparr>) s else None)"

fun ingress_run :: "(u64 \<Rightarrow> bool) \<Rightarrow> ingress_event list \<Rightarrow> server \<Rightarrow> server option" where
  "ingress_run device [] s = Some s"
| "ingress_run device (e # es) s = Option.bind (ingress_step device e s) (ingress_run device es)"

end
