(* ===== verification/Gateway_Reassembly.thy ===== *)
theory Gateway_Reassembly
  imports Gateway_Frames
begin

unbundle bit_operations_syntax

text \<open>
  What the frames of the gateway mean. \<open>carries r d idx ps r'\<close> describes the payload \<open>d\<close> of a frame with header index
  \<open>idx\<close>: it starts with (a piece of) the rest \<open>r\<close> of an earlier packet, then come the packets \<open>ps\<close>, the last of them
  possibly cut, with \<open>r'\<close> still to come. The encoder produces such frames, and the reassembly list turns any of them
  that arrive back into packets.
\<close>

section \<open>Frames and what they carry\<close>

definition cut :: "bytes list \<Rightarrow> bytes \<Rightarrow> bytes \<Rightarrow> bool" where
  "cut ps t r' \<longleftrightarrow> t = concat ps \<and> r' = [] \<or> (\<exists>qs p k. ps = qs @ [p] \<and> t = concat qs @ take k p \<and> r' = drop k p \<and> 40 \<le> k \<and> k < length p)"

definition carries :: "bytes \<Rightarrow> bytes \<Rightarrow> nat \<Rightarrow> bytes list \<Rightarrow> bytes \<Rightarrow> bool" where
  "carries r d idx ps r' \<longleftrightarrow> list_all pkt_valid ps \<and>
     (idx = 0xffff \<and> r = d @ r' \<and> ps = [] \<or>
      idx = length r \<and> idx < 0xffff \<and> ps \<noteq> [] \<and> (\<exists>t. d = r @ t \<and> cut ps t r'))"

definition header :: "u8 \<Rightarrow> u32 \<Rightarrow> u64 \<Rightarrow> nat \<Rightarrow> bytes" where
  "header sid strm seq idx = [0, sid] @ PutUint16 (of_nat idx) @ PutUint32 (strm AND 0xfffff) @ PutUint64 seq"

lemma header_length [simp]: "length (header sid strm seq idx) = 16"
  by (simp add: header_def)

fun valid_packets :: "ring_result list \<Rightarrow> bytes list" where
  "valid_packets [] = []"
| "valid_packets (Packet p # rs) = (if pkt_valid p then p # valid_packets rs else valid_packets rs)"
| "valid_packets (_ # rs) = valid_packets rs"

lemma valid_packets_append [simp]: "valid_packets (rs @ rs') = valid_packets rs @ valid_packets rs'"
  by (induction rs rule: valid_packets.induct) auto

section \<open>The encoder\<close>

definition ids_kept :: "encoder \<Rightarrow> encoder \<Rightarrow> bool" where
  "ids_kept e e' \<longleftrightarrow> sessionID e' = sessionID e \<and> streamID e' = streamID e \<and> frameCap e' = frameCap e"

text \<open>What a call of \<open>Read\<close> that started with \<open>r\<close> still to send returns, after \<open>ps\<close> packets were packed.\<close>

definition read_post :: "encoder \<Rightarrow> u64 \<Rightarrow> bytes \<Rightarrow> bytes list \<Rightarrow> bytes option \<Rightarrow> encoder \<Rightarrow> bool" where
  "read_post e seq r ps out e' \<longleftrightarrow> ids_kept e e' \<and> eseq e' = eseq e \<and> (case out of
       None \<Rightarrow> r = [] \<and> ps = [] \<and> epkt e' = []
     | Some f \<Rightarrow> \<exists>d idx. f = header (sessionID e) (streamID e) seq idx @ d \<and> length f \<le> frameCap e \<and> carries r d idx ps (epkt e') \<and>
         (epkt e' \<noteq> [] \<longrightarrow> length f = frameCap e))"

lemma put_index:
  "put_at indexPos (PutUint16 (of_nat n)) (header sid strm seq idx @ d) = header sid strm seq n @ d"
  by (simp add: put_at_def indexPos_def header_def PutUint16_def)

text \<open>A valid packet is put into the frame as far as it fits; a packet that is cut has at least 40 bytes in the frame.\<close>

lemma read_loop_packet:
  assumes "frame e = header (sessionID e) (streamID e) seq idx @ r @ concat ps" "pos = length (frame e)" "40 \<le> frameCap e - pos"
    "if st then idx = length r \<and> ps \<noteq> [] else idx = 0xffff \<and> ps = []" "pkt_valid p"
  obtains e2 n where "ids_kept e e2" "eseq e2 = eseq e" "epkt e2 = drop n p"
    "frame e2 = header (sessionID e) (streamID e) seq (length r) @ r @ concat ps @ take n p" "length (frame e2) \<le> frameCap e"
    "if n < length p then 40 \<le> n \<and> length (frame e2) = frameCap e \<and> read_loop e pos st (Packet p # rs) = Some (Some (frame e2), e2, rs)
     else read_loop e pos st (Packet p # rs) = read_loop e2 (length (frame e2)) True rs"
proof -
  define e1 where "e1 = e\<lparr>epkt := p, frame := header (sessionID e) (streamID e) seq (length r) @ r @ concat ps\<rparr>"
  define n where "n = (if length p < frameCap e - pos then length p else frameCap e - pos)"
  have e1: "(if \<not> st then e\<lparr>epkt := p, frame := put_at indexPos (PutUint16 (of_nat (pos - hdrLen))) (frame e)\<rparr> else e\<lparr>epkt := p\<rparr>) = e1"
    using assms(1,2,4) by (cases st) (simp_all add: e1_def put_index hdrLen_def)
  have copy: "copyToFrame e1 = (e1\<lparr>frame := frame e1 @ take n p, epkt := drop n p\<rparr>, n)"
    using assms(1,2) by (simp add: copyToFrame_def Let_def e1_def n_def)
  define e2 where "e2 = e1\<lparr>frame := frame e1 @ take n p, epkt := drop n p\<rparr>"
  have step: "read_loop e pos st (Packet p # rs) =
      (if epkt e2 \<noteq> [] then Some (Some (take (pos + n) (frame e2)), e2, rs) else read_loop e2 (pos + n) True rs)"
    using assms(3,5) e1 copy by (simp add: e2_def Let_def cong: if_cong)
  have same: "frame e2 = header (sessionID e) (streamID e) seq (length r) @ r @ concat ps @ take n p" "epkt e2 = drop n p"
    "ids_kept e e2" "eseq e2 = eseq e"
    by (simp_all add: e2_def e1_def ids_kept_def)
  have len: "length (frame e2) = pos + n" "pos + n \<le> frameCap e" using same(1) assms(1,2,3) by (auto simp: n_def)
  show thesis
    by (rule that [OF same(3,4,2,1)]) (use step len same(2) assms(3) in \<open>auto simp: n_def\<close>)
qed

lemma read_loop_post:
  assumes "read_loop e pos st rs = Some (out, e', rs')" "frame e = header (sessionID e) (streamID e) seq idx @ r @ concat ps"
    "pos = length (frame e)" "pos \<le> frameCap e" "frameCap e \<le> 65535" "list_all pkt_valid ps"
    "if st then idx = length r \<and> ps \<noteq> [] else idx = 0xffff \<and> ps = []" "epkt e = [] \<or> 40 \<le> frameCap e - pos"
  shows "\<exists>used. rs = used @ rs' \<and> read_post e seq r (ps @ valid_packets used) out e'"
  using assms
proof (induction rs arbitrary: e pos st idx ps)
  case Nil
  have idx: "st \<Longrightarrow> length r < 0xffff" using Nil.prems(2,3,4,5) by simp
  show ?case using Nil.prems idx
    by (cases st) (auto simp: read_post_def ids_kept_def carries_def cut_def split: if_splits)
next
  case (Cons x rs)
  have idx: "length r < 0xffff" using Cons.prems(2,3,4,5) by simp
  have full: "Some f = Some (take pos (frame e)) \<Longrightarrow> epkt e2 = [] \<Longrightarrow> ids_kept e e2 \<Longrightarrow> eseq e2 = eseq e \<Longrightarrow> read_post e seq r ps (Some f) e2" for f e2
    using Cons.prems(2-7) idx by (cases st) (auto simp: read_post_def carries_def cut_def)
  show ?case
  proof (cases "frameCap e - pos < 40")
    case True
    with Cons.prems(1,8) full show ?thesis by (intro exI [of _ "[]"]) (auto simp: ids_kept_def)
  next
    case False
    show ?thesis
    proof (cases x)
      case Empty
      with Cons.prems(1) False full show ?thesis by (intro exI [of _ "[x]"]) (auto simp: ids_kept_def)
    next
      case RingClosed
      show ?thesis
      proof (cases "pos = hdrLen")
        case True
        then have "r = []" "concat ps = []" using Cons.prems(2,3) by (auto simp: hdrLen_def)
        moreover have "ps = []" using \<open>concat ps = []\<close> Cons.prems(6) by (cases ps) (auto simp: pkt_valid_def)
        ultimately show ?thesis using RingClosed Cons.prems(1) False True
          by (intro exI [of _ "[x]"]) (auto simp: read_post_def ids_kept_def)
      next
        case f: False
        with RingClosed Cons.prems(1) False full show ?thesis by (intro exI [of _ "[x]"]) (auto simp: ids_kept_def)
      qed
    next
      case (Packet p)
      show ?thesis
      proof (cases "pkt_valid p")
        case bad: False
        then have "read_loop (e\<lparr>epkt := p\<rparr>) pos st rs = Some (out, e', rs')" using Cons.prems(1) False Packet by simp
        from Cons.IH [OF this, of idx ps] Cons.prems False obtain used where
          "rs = used @ rs'" "read_post (e\<lparr>epkt := p\<rparr>) seq r (ps @ valid_packets used) out e'" by auto
        then show ?thesis using bad Packet by (intro exI [of _ "x # used"]) (auto simp: read_post_def ids_kept_def cong: option.case_cong)
      next
        case ok: True
        have room: "40 \<le> frameCap e - pos" using False by simp
        obtain e2 n where e2: "ids_kept e e2" "eseq e2 = eseq e" "epkt e2 = drop n p"
          "frame e2 = header (sessionID e) (streamID e) seq (length r) @ r @ concat ps @ take n p" "length (frame e2) \<le> frameCap e"
          "if n < length p then 40 \<le> n \<and> length (frame e2) = frameCap e \<and> read_loop e pos st (Packet p # rs) = Some (Some (frame e2), e2, rs)
           else read_loop e pos st (Packet p # rs) = read_loop e2 (length (frame e2)) True rs"
          by (rule read_loop_packet [OF Cons.prems(2,3) room Cons.prems(7) ok])
        show ?thesis
        proof (cases "n < length p")
          case True
          with e2(6) have n: "40 \<le> n" and full: "length (frame e2) = frameCap e" and out: "out = Some (frame e2)" "e' = e2" "rs' = rs" using Cons.prems(1)
            by (auto simp: Packet simp del: read_loop.simps)
          have "cut (ps @ [p]) (concat ps @ take n p) (drop n p)" using n True by (auto simp: cut_def)
          then have "carries r (r @ concat ps @ take n p) (length r) (ps @ [p]) (drop n p)"
            using Cons.prems(6) ok idx by (auto simp: carries_def)
          then have "read_post e seq r (ps @ [p]) out e'" using e2 out full unfolding read_post_def by auto
          then show ?thesis using Packet ok out(3) by (intro exI [of _ "[x]"]) simp
        next
          case full: False
          have loop: "read_loop e2 (length (frame e2)) True rs = Some (out, e', rs')" using e2(6) full Cons.prems(1)
            by (simp add: Packet del: read_loop.simps)
          have "frame e2 = header (sessionID e2) (streamID e2) seq (length r) @ r @ concat (ps @ [p])" using e2 full by (simp add: ids_kept_def)
          from Cons.IH [OF loop this] obtain used where "rs = used @ rs'" "read_post e2 seq r ((ps @ [p]) @ valid_packets used) out e'"
            using e2 full Cons.prems(5,6) ok by (auto simp: ids_kept_def)
          then show ?thesis using Packet ok e2(1,2)
            by (intro exI [of _ "x # used"]) (auto simp: read_post_def ids_kept_def cong: option.case_cong)
        qed
      qed
    qed
  qed
qed


lemma copyToFrame_eq:
  "copyToFrame e = (let n = min (frameCap e - length (frame e)) (length (epkt e)) in
     (e\<lparr>frame := frame e @ take n (epkt e), epkt := drop n (epkt e)\<rparr>, n))"
  by (simp add: copyToFrame_def Let_def min_def)

lemma frame_header_eq: "frame_header e = header (sessionID e) (streamID e) (eseq e) 0xffff"
  by (simp add: frame_header_def header_def)

text \<open>A frame returned by \<open>Read\<close> carries the rest of the current packet and the valid packets read, and leaves the rest
  of the last one.\<close>

lemma encoder_Read_post:
  assumes "encoder_Read e rs = Some (Inr (out, e', rs'))" "57 \<le> frameCap e" "frameCap e \<le> 65535"
  shows "\<exists>used. rs = used @ rs' \<and> ids_kept e e' \<and> eseq e' = eseq e + 1 \<and> (case out of
       None \<Rightarrow> epkt e = [] \<and> valid_packets used = [] \<and> epkt e' = []
     | Some f \<Rightarrow> \<exists>d idx. f = header (sessionID e) (streamID e) (eseq e) idx @ d \<and> length f \<le> frameCap e \<and>
         carries (epkt e) d idx (valid_packets used) (epkt e') \<and> (epkt e' \<noteq> [] \<longrightarrow> length f = frameCap e))"
proof -
  define n where "n = min (frameCap e - 16) (length (epkt e))"
  define e1 where "e1 = e\<lparr>frame := header (sessionID e) (streamID e) (eseq e) 0xffff @ take n (epkt e), eseq := eseq e + 1, epkt := drop n (epkt e)\<rparr>"
  have n: "16 + n \<le> frameCap e" "drop n (epkt e) \<noteq> [] \<Longrightarrow> n = frameCap e - 16" using assms(2) by (auto simp: n_def)
  have eq: "encoder_Read e rs = (if drop n (epkt e) \<noteq> [] then Some (Inr (Some (frame e1), e1, rs)) else map_option Inr (read_loop e1 (16 + n) False rs))"
  proof (cases "epkt e = []")
    case True
    then have "e1 = e\<lparr>frame := frame_header e, eseq := eseq e + 1\<rparr>" by (simp add: e1_def frame_header_eq)
    with True assms(2) show ?thesis by (simp add: encoder_Read_def Let_def hdrLen_def n_def)
  next
    case False
    have "copyToFrame (e\<lparr>frame := frame_header e, eseq := eseq e + 1\<rparr>) = (e1, n)"
      by (simp add: copyToFrame_eq e1_def n_def frame_header_eq Let_def)
    moreover have "take (16 + n) (frame e1) = frame e1" by (simp add: e1_def)
    moreover have "epkt e1 = drop n (epkt e)" by (simp add: e1_def)
    ultimately show ?thesis using False assms(2) by (simp add: encoder_Read_def Let_def hdrLen_def)
  qed
  show ?thesis
  proof (cases "drop n (epkt e) = []")
    case False
    with assms(1) eq have o: "out = Some (frame e1)" "e' = e1" "rs' = rs" by auto
    have "carries (epkt e) (take n (epkt e)) 0xffff [] (epkt e1)" by (simp add: carries_def e1_def)
    moreover have "length (frame e1) = frameCap e" using n False assms(2) by (auto simp: e1_def)
    ultimately show ?thesis unfolding o by (intro exI [of _ "[]"]) (auto simp: e1_def ids_kept_def)
  next
    case True
    then have l: "read_loop e1 (16 + n) False rs = Some (out, e', rs')" using assms(1) eq by auto
    have "n \<le> length (epkt e)" "length (epkt e) \<le> n" using True by (auto simp: n_def)
    then have r: "take n (epkt e) = epkt e" "length (epkt e) = n" by auto
    have "\<exists>used. rs = used @ rs' \<and> read_post e1 (eseq e) (epkt e) ([] @ valid_packets used) out e'"
      by (rule read_loop_post [OF l, where idx = "0xffff"]) (use r n assms(3) in \<open>auto simp: e1_def\<close>)
    then show ?thesis using r by (auto simp: read_post_def ids_kept_def e1_def cong: option.case_cong)
  qed
qed

section \<open>Complete packets of a frame\<close>

lemma slice_suffix: "slice i j b = x @ y \<Longrightarrow> slice (i + length x) j b = y"
proof -
  assume e: "slice i j b = x @ y"
  have "slice (i + length x) j b = drop (length x) (slice i j b)" by (simp add: slice_def drop_take add.commute)
  then show ?thesis by (simp add: e)
qed

text \<open>The header of a valid packet announces its length; the first 40 bytes are enough to see it.\<close>

lemma header_len_valid:
  assumes "pkt_valid p" "slice off flen b = t @ u" "flen \<le> length b" "off < flen" "t = take k p" "min 40 (length p) \<le> length t"
  shows "header_len b flen off = Inr (Some (length p))"
proof -
  have len: "flen - off = length t + length u" using arg_cong [OF assms(2), of length] assms(3,4) by simp
  have nth: "b ! (off + i) = p ! i" if "i < length t" for i
  proof -
    have "b ! (off + i) = slice off flen b ! i" using that len assms(3,4) by (simp add: slice_def)
    also have "\<dots> = p ! i" using that assms(5) by (simp add: assms(2) nth_append)
    finally show ?thesis .
  qed
  have w: "slice (off + i) (off + j) b = slice i j p" if "i < j" "j \<le> length t" for i j
  proof (rule nth_equalityI)
    show "length (slice (off + i) (off + j) b) = length (slice i j p)" using that len assms(3,4,5) by auto
    fix m assume "m < length (slice (off + i) (off + j) b)"
    then have m: "i + m < j" "m < j - i" by auto
    then have "off + (i + m) < length b" using that len assms(3,4,5) by linarith
    then show "slice (off + i) (off + j) b ! m = slice i j p ! m"
      using m that nth [of "i + m"] len assms(3,4,5) by (simp add: add.assoc)
  qed
  have p: "p \<noteq> []" "20 \<le> length p" "20 \<le> length t" using assms(1,6) by (auto simp: pkt_valid_def Let_def split: if_splits)
  have "b ! off = p ! 0" using nth [of 0] p(3) by (cases t) auto
  then show ?thesis using assms(1,3,4,6) p len w [of 2 4] w [of 4 6]
    by (auto simp: header_len_def go_index_def pkt_valid_def Let_def split: if_splits)
qed


lemma complete_loop_packets:
  assumes "slice off flen b = concat qs @ t" "flen \<le> length b" "off \<le> flen" "list_all pkt_valid qs"
    "t \<noteq> [] \<Longrightarrow> pkt_valid p \<and> t = take k p \<and> 40 \<le> k \<and> k < length p"
  shows "\<exists>pl'. complete_loop b flen off pl = Inr (False, off + length (concat qs), pl', qs) \<and> (t \<noteq> [] \<longrightarrow> pl' = length p)"
  using assms(1,3,4)
proof (induction qs arbitrary: off pl)
  case Nil
  show ?case
  proof (cases "t = []")
    case True
    then have "off = flen" using arg_cong [OF Nil(1), of length] assms(2) Nil(2) by simp
    with True show ?thesis by (subst complete_loop.simps) simp
  next
    case False
    note p = assms(5) [OF False]
    have off: "off < flen" and len: "flen - off = length t"
      using arg_cong [OF Nil(1), of length] assms(2) False by (cases "off < flen"; auto)+
    have "header_len b flen off = Inr (Some (length p))"
      by (rule header_len_valid [of p off flen b t "[]" k]) (use p Nil(1) assms(2) off in auto)
    then show ?thesis using p len off assms(2) by (subst complete_loop.simps) simp
  qed
next
  case (Cons q qs)
  have len: "flen - off = length q + length (concat qs @ t)" using arg_cong [OF Cons.prems(1), of length] assms(2) by simp
  have q: "pkt_valid q" "20 \<le> length q" using Cons.prems(3) by (auto simp: pkt_valid_def Let_def split: if_splits)
  then have off: "off < flen" using len by simp
  have h: "header_len b flen off = Inr (Some (length q))"
    by (rule header_len_valid [of q off flen b q "concat qs @ t" "length q"]) (use q Cons.prems(1) assms(2) off in auto)
  have rest: "slice (off + length q) flen b = concat qs @ t"
    by (rule slice_suffix) (use Cons.prems(1) in simp)
  have le: "off + length q \<le> flen" using len off by linarith
  obtain pl' where "complete_loop b flen (off + length q) (length q) = Inr (False, off + length q + length (concat qs), pl', qs)"
    "t \<noteq> [] \<longrightarrow> pl' = length p" using Cons.IH [OF rest _, of "length q"] Cons.prems(3) le by auto
  moreover have "take (length q) (slice off flen b) = q" using Cons.prems(1) by simp
  ultimately show ?case using h len off assms(2) by (subst complete_loop.simps) (simp add: add.assoc)
qed

text \<open>A frame as it was received, before it is inserted.\<close>

definition arrived :: "frame_buf \<Rightarrow> u64 \<Rightarrow> nat \<Rightarrow> bytes \<Rightarrow> bool" where
  "arrived fb seq idx d \<longleftrightarrow> seqNr fb = seq \<and> findex fb = int idx \<and> frameLen fb = 16 + length d \<and> frameLen fb \<le> length (raw fb) \<and>
     slice 16 (frameLen fb) (raw fb) = d \<and> frag0Start fb = 0 \<and> completePktsProcessed fb = (idx = 0xffff)"

text \<open>Processing the complete packets of a frame.\<close>

lemma ProcessCompletePkts_arrived:
  assumes "arrived fb seq idx d" "carries r d idx ps r'" "idx \<noteq> 0xffff"
  obtains fb' where "ProcessCompletePkts fb = Inr (fb', if r' = [] then ps else butlast ps)"
    "fb' = fb\<lparr>completePktsProcessed := True, frag0Processed := (r' = []), frag0Start := frag0Start fb', pktLen := pktLen fb'\<rparr>"
    "if r' = [] then frag0Start fb' = 0 else 0 < frag0Start fb' \<and> frag0Start fb' < frameLen fb' \<and> 
       pktLen fb' = length (last ps) \<and> slice (frag0Start fb') (frameLen fb') (raw fb') @ r' = last ps"
proof -
  from assms(2,3) obtain t where v: "list_all pkt_valid ps" "idx = length r" "ps \<noteq> []" "d = r @ t" "cut ps t r'"
    by (auto simp: carries_def)
  have sl: "slice (16 + length r) (frameLen fb) (raw fb) = t"
    by (rule slice_suffix) (use assms(1) v(4) in \<open>auto simp: arrived_def\<close>)
  have fb: "nat (findex fb + int sigHdrSize) = 16 + length r" "findex fb \<noteq> 0xffff" "\<not> completePktsProcessed fb" "frag0Start fb = 0"
    "frameLen fb = 16 + length r + length t" "frameLen fb \<le> length (raw fb)"
    using assms(1,3) v(2,4) by (auto simp: arrived_def sigHdrSize_def)
  show thesis
  proof (cases "r' = []")
    case True
    then have t: "t = concat ps" using v(5) by (auto simp: cut_def)
    obtain pl where "complete_loop (raw fb) (frameLen fb) (16 + length r) 0 = Inr (False, 16 + length r + length (concat ps), pl, ps)"
      using complete_loop_packets [of "16 + length r" "frameLen fb" "raw fb" ps "[]" "[]" 0 0] sl fb v(1) t by auto
    with fb t that [of "fb\<lparr>completePktsProcessed := True, frag0Processed := True\<rparr>"] True show thesis
      by (simp add: ProcessCompletePkts_def)
  next
    case False
    then obtain qs p k where c: "ps = qs @ [p]" "t = concat qs @ take k p" "r' = drop k p" "40 \<le> k" "k < length p"
      using v(5) by (auto simp: cut_def)
    define off where "off = 16 + length r + length (concat qs)"
    have "complete_loop (raw fb) (frameLen fb) (16 + length r) 0 = Inr (False, off, length p, qs)"
      using complete_loop_packets [of "16 + length r" "frameLen fb" "raw fb" qs "take k p" p k 0] sl fb v(1) c
      by (auto simp: off_def)
    moreover have "off < frameLen fb" using fb(5) c by (auto simp: off_def)
    moreover have "slice off (frameLen fb) (raw fb) = take k p"
      unfolding off_def by (rule slice_suffix) (use sl c(2) in simp)
    ultimately show thesis using that [of "fb\<lparr>completePktsProcessed := True, frag0Processed := False, frag0Start := off, pktLen := length p\<rparr>"]
      fb False c by (simp add: ProcessCompletePkts_def Let_def off_def)
  qed
qed

section \<open>A packet spread over frames\<close>

text \<open>Frame \<open>k\<close> of a stream has payload \<open>D k\<close>, index \<open>X k\<close> and carries \<open>PS k\<close>; \<open>R k\<close> is what was left to send before it. A
  frame that leaves something to send is full.\<close>

definition stream :: "nat \<Rightarrow> nat \<Rightarrow> (nat \<Rightarrow> bytes) \<Rightarrow> (nat \<Rightarrow> nat) \<Rightarrow> (nat \<Rightarrow> bytes list) \<Rightarrow> (nat \<Rightarrow> bytes) \<Rightarrow> bool" where
  "stream n M D X PS R \<longleftrightarrow> n < 2 ^ 64 \<and> R 0 = [] \<and>
     (\<forall>k<n. carries (R k) (D k) (X k) (PS k) (R (Suc k)) \<and> (R (Suc k) \<noteq> [] \<longrightarrow> length (D k) = M))"

text \<open>The frame in which the packet starts that is being reassembled, and the frames after it with nothing but a piece of
  it.\<close>

definition starts :: "frame_buf \<Rightarrow> nat \<Rightarrow> bytes \<Rightarrow> bytes \<Rightarrow> bool" where
  "starts f i p rest \<longleftrightarrow> seqNr f = of_nat i \<and> 0 < frag0Start f \<and> frag0Start f \<le> frameLen f \<and> frameLen f \<le> length (raw f) \<and>
     pktLen f = length p \<and> slice (frag0Start f) (frameLen f) (raw f) @ rest = p \<and> rest \<noteq> []"

fun pending :: "(nat \<Rightarrow> bytes) \<Rightarrow> (nat \<Rightarrow> bytes) \<Rightarrow> nat \<Rightarrow> frame_buf list \<Rightarrow> bool" where
  "pending D R k [] = True"
| "pending D R k (f # fs) \<longleftrightarrow> arrived f (of_nat k) 0xffff (D k) \<and> R k = D k @ R (Suc k) \<and> R (Suc k) \<noteq> [] \<and> pending D R (Suc k) fs"

lemma pending_append: "pending D R k (fs @ gs) \<longleftrightarrow> pending D R k fs \<and> pending D R (k + length fs) gs"
  by (induction fs arbitrary: k) auto

lemma scan_pending:
  "pending D R k fs \<Longrightarrow> scan_loop pl (int pl - int (length (R k))) (fs @ gs) = scan_loop pl (int pl - int (length (R (k + length fs)))) gs"
proof (induction fs arbitrary: k)
  case (Cons f fs)
  from Cons.prems have f: "arrived f (of_nat k) 0xffff (D k)" "R k = D k @ R (Suc k)" "R (Suc k) \<noteq> []" by auto
  have "int (frameLen f) - int sigHdrSize = int (length (D k))" "length (R k) = length (D k) + length (R (Suc k))"
    "findex f = 0xffff" "0 < length (R (Suc k))"
    using f by (auto simp: arrived_def sigHdrSize_def)
  then have "scan_loop pl (int pl - int (length (R k))) ((f # fs) @ gs) = scan_loop pl (int pl - int (length (R (Suc k)))) (fs @ gs)"
    by (simp add: Let_def)
  also have "\<dots> = scan_loop pl (int pl - int (length (R (k + length (f # fs))))) gs" using Cons.IH [of "Suc k"] Cons.prems by simp
  finally show ?case .
qed simp

lemma collect_pending:
  assumes "pending D R k fs" "buf @ R k = p" "R k \<noteq> []"
  shows "\<exists>buf'. buf' @ R (k + length fs) = p \<and> collect_loop (length p) buf (fs @ gs) =
    rbind (collect_loop (length p) buf' gs) (\<lambda>(b, v, r). Inr (b, map (\<lambda>f. f\<lparr>fragNProcessed := True\<rparr>) fs @ v, r))"
  using assms
proof (induction fs arbitrary: k buf)
  case Nil
  then show ?case by (cases "collect_loop (length p) buf gs") auto
next
  case (Cons f fs)
  from Cons.prems have f: "arrived f (of_nat k) 0xffff (D k)" "R k = D k @ R (Suc k)" "R (Suc k) \<noteq> []" "pending D R (Suc k) fs" by auto
  have "length p = length buf + length (R k)" using Cons.prems(2) by auto
  moreover have "min (length (R k) + sigHdrSize) (frameLen f) = frameLen f" using f(1,2) by (simp add: arrived_def sigHdrSize_def)
  moreover have "gslice sigHdrSize (frameLen f) (raw f) = Inr (D k)" using f(1) by (auto simp: arrived_def sigHdrSize_def)
  moreover have "0 < length (R k)" using Cons.prems(3) by simp
  ultimately have e: "collect_loop (length p) buf ((f # fs) @ gs) =
      rbind (collect_loop (length p) (buf @ D k) (fs @ gs)) (\<lambda>(b, v, r). Inr (b, f\<lparr>fragNProcessed := True\<rparr> # v, r))"
    by (simp add: Let_def)
  obtain buf' where "buf' @ R (Suc k + length fs) = p" "collect_loop (length p) (buf @ D k) (fs @ gs) =
      rbind (collect_loop (length p) buf' gs) (\<lambda>(b, v, r). Inr (b, map (\<lambda>f. f\<lparr>fragNProcessed := True\<rparr>) fs @ v, r))"
    using Cons.IH [OF f(4), of "buf @ D k"] Cons.prems(2) f(2,3) by auto
  then show ?case unfolding e by (cases "collect_loop (length p) buf' gs") auto
qed

text \<open>The frame that completes the packet.\<close>

lemma collect_last:
  assumes "arrived g seq idx d" "carries r d idx ps r'" "r \<noteq> []" "idx = 0xffff \<Longrightarrow> r' = []" "buf @ r = p"
  shows "collect_loop (length p) buf [g] = Inr (p, [g\<lparr>fragNProcessed := True\<rparr>], [])"
proof -
  obtain t where t: "d = r @ t" using assms(2,4) by (auto simp: carries_def)
  have fl: "frameLen g = 16 + length d" "frameLen g \<le> length (raw g)" "slice 16 (frameLen g) (raw g) = d"
    using assms(1) by (auto simp: arrived_def)
  have "slice 16 (16 + length r) (raw g) = take (length r) (slice 16 (frameLen g) (raw g))"
    using fl(1) t by (simp add: slice_def)
  then have "slice 16 (16 + length r) (raw g) = r" using fl(3) t by simp
  moreover have "length p = length buf + length r" using assms(5) by auto
  ultimately show ?thesis using assms(3,5) fl(1,2) t by (simp add: Let_def sigHdrSize_def add.commute)
qed

lemma pending_rest: "pending D R k fs \<Longrightarrow> R k \<noteq> [] \<Longrightarrow> R (k + length fs) \<noteq> []"
proof (induction fs arbitrary: k)
  case (Cons f fs)
  with Cons.IH [of "Suc k"] show ?case by simp
qed simp

lemma pending_processed: "pending D R k fs \<Longrightarrow> list_all Processed (map (\<lambda>f. f\<lparr>fragNProcessed := True\<rparr>) fs)"
  by (induction fs arbitrary: k) (auto simp: Processed_def arrived_def)

text \<open>What a frame contributes on its own: the packets that are complete in it, and a frame to keep when its last packet is
  cut.\<close>

definition whole :: "nat \<Rightarrow> bytes list \<Rightarrow> bytes \<Rightarrow> bytes list" where
  "whole idx ps r' = (if idx = 0xffff then [] else if r' = [] then ps else butlast ps)"

lemma ProcessCompletePkts_starts:
  assumes "arrived fb (of_nat k) idx d" "carries r d idx ps r'"
  obtains fb' where "ProcessCompletePkts fb = Inr (fb', whole idx ps r')" "fragNProcessed fb' = fragNProcessed fb" "completePktsProcessed fb'"
    "if idx \<noteq> 0xffff \<and> r' \<noteq> [] then starts fb' k (last ps) r' \<and> \<not> frag0Processed fb' else frag0Start fb' = 0"
proof (cases "idx = 0xffff")
  case True
  with assms(1) have "ProcessCompletePkts fb = Inr (fb\<lparr>completePktsProcessed := True\<rparr>, [])" "frag0Start fb = 0"
    by (auto simp: ProcessCompletePkts_def arrived_def)
  with True that show thesis by (simp add: whole_def)
next
  case False
  obtain fb' where f: "ProcessCompletePkts fb = Inr (fb', if r' = [] then ps else butlast ps)"
    "fb' = fb\<lparr>completePktsProcessed := True, frag0Processed := (r' = []), frag0Start := frag0Start fb', pktLen := pktLen fb'\<rparr>"
    "if r' = [] then frag0Start fb' = 0 else 0 < frag0Start fb' \<and> frag0Start fb' < frameLen fb' \<and>
       pktLen fb' = length (last ps) \<and> slice (frag0Start fb') (frameLen fb') (raw fb') @ r' = last ps"
    by (rule ProcessCompletePkts_arrived [OF assms False])
  have "seqNr fb' = seqNr fb" "frameLen fb' = frameLen fb" "raw fb' = raw fb" "fragNProcessed fb' = fragNProcessed fb"
    "frag0Processed fb' = (r' = [])" "completePktsProcessed fb'"
    using arg_cong [OF f(2), of seqNr] arg_cong [OF f(2), of frameLen] arg_cong [OF f(2), of raw] arg_cong [OF f(2), of fragNProcessed]
      arg_cong [OF f(2), of frag0Processed] arg_cong [OF f(2), of completePktsProcessed] by simp_all
  with f(1,3) that [of fb'] assms(1) False show thesis by (auto simp: whole_def starts_def arrived_def)
qed

lemma insertFirst_stream:
  assumes "rentries l = []" "arrived fb (of_nat k) idx d" "carries r d idx ps r'"
  obtains es rel where "insertFirst l fb = Inr (l\<lparr>rentries := es\<rparr>, whole idx ps r', rel)" "length es + length rel = 1"
    "if idx \<noteq> 0xffff \<and> r' \<noteq> [] then \<exists>f. es = [f] \<and> starts f k (last ps) r' else es = []"
proof -
  obtain fb' where f: "ProcessCompletePkts fb = Inr (fb', whole idx ps r')"
    "if idx \<noteq> 0xffff \<and> r' \<noteq> [] then starts fb' k (last ps) r' else frag0Start fb' = 0"
    by (rule ProcessCompletePkts_starts [OF assms(2,3)]) (auto split: if_splits)
  show thesis
  proof (cases "idx \<noteq> 0xffff \<and> r' \<noteq> []")
    case True
    with f that [of "[fb']" "[]"] assms(1) show thesis by (auto simp: insertFirst_def starts_def)
  next
    case False
    with f(2) have "frag0Start fb' = 0" by (simp split: if_splits)
    with f(1) that [of "[]" "[fb']"] False assms(1) show thesis by (simp add: insertFirst_def)
  qed
qed

lemma starts_scan:
  assumes "starts f i p rest"
  shows "int (frameLen f) - int (frag0Start f) = int (pktLen f) - int (length rest)" "pktLen f = length p"
    "gslice (frag0Start f) (frameLen f) (raw f) = Inr (slice (frag0Start f) (frameLen f) (raw f))"
proof -
  from assms have s: "frag0Start f \<le> frameLen f" "frameLen f \<le> length (raw f)" "pktLen f = length p"
    "slice (frag0Start f) (frameLen f) (raw f) @ rest = p" by (auto simp: starts_def)
  show "int (frameLen f) - int (frag0Start f) = int (pktLen f) - int (length rest)"
    using arg_cong [OF s(4), of length] s(1-3) by simp
  show "pktLen f = length p" by (rule s(3))
  show "gslice (frag0Start f) (frameLen f) (raw f) = Inr (slice (frag0Start f) (frameLen f) (raw f))" using s(1,2) by simp
qed


text \<open>The frame that completes a packet: the packet is sent, then what the frame contributes on its own.\<close>

lemma collectAndWrite_stream:
  assumes es: "rentries l = f # fs @ [g]" and f: "starts f i p (R (Suc i))" and fs: "pending D R (Suc i) fs"
    and g: "arrived g (of_nat (Suc i + length fs)) idx d" "carries (R (Suc i + length fs)) d idx ps r'" and fin: "idx = 0xffff \<Longrightarrow> r' = []"
  obtains es' rel where "collectAndWrite l = Inr (l\<lparr>rentries := es'\<rparr>, p # whole idx ps r', rel)"
    "length es' + length rel = length (rentries l)"
    "if r' \<noteq> [] then \<exists>f. es' = [f] \<and> starts f (Suc i + length fs) (last ps) r' else es' = []"
proof -
  define k where "k = Suc i + length fs"
  have r: "R (Suc i) \<noteq> []" "R k \<noteq> []" using f pending_rest [OF fs] by (auto simp: starts_def k_def)
  obtain buf where buf: "buf @ R k = p" "collect_loop (length p) (slice (frag0Start f) (frameLen f) (raw f)) (fs @ [g]) =
      rbind (collect_loop (length p) buf [g]) (\<lambda>(b, v, r). Inr (b, map (\<lambda>f. f\<lparr>fragNProcessed := True\<rparr>) fs @ v, r))"
    using collect_pending [OF fs _ r(1), of "slice (frag0Start f) (frameLen f) (raw f)" p "[g]"] f by (auto simp: starts_def k_def)
  have col: "collect_loop (length p) buf [g] = Inr (p, [g\<lparr>fragNProcessed := True\<rparr>], [])"
    by (rule collect_last [OF g [folded k_def] r(2) fin buf(1)])
  have "arrived (g\<lparr>fragNProcessed := True\<rparr>) (of_nat k) idx d" using g(1) by (auto simp: arrived_def k_def)
  then obtain g' where g': "ProcessCompletePkts (g\<lparr>fragNProcessed := True\<rparr>) = Inr (g', whole idx ps r')" "fragNProcessed g'" "completePktsProcessed g'"
    "if idx \<noteq> 0xffff \<and> r' \<noteq> [] then starts g' k (last ps) r' \<and> \<not> frag0Processed g' else frag0Start g' = 0"
    by (rule ProcessCompletePkts_starts [OF _ g(2)]) auto
  define kept where "kept = (if r' \<noteq> [] then [g'] else [])"
  have pg: "Processed g' \<longleftrightarrow> r' = []" using g'(2-4) fin by (auto simp: Processed_def starts_def split: if_splits)
  have all: "\<forall>x \<in> set fs. Processed (x\<lparr>fragNProcessed := True\<rparr>)" using pending_processed [OF fs] by (auto simp: list_all_iff)
  have "Processed (SetProcessed f)" by (simp add: Processed_def SetProcessed_def)
  then have cw: "collectAndWrite l = Inr (l\<lparr>rentries := kept\<rparr>, p # whole idx ps r',
      SetProcessed f # map (\<lambda>f. f\<lparr>fragNProcessed := True\<rparr>) fs @ (if r' = [] then [g'] else []))"
    using starts_scan(2,3) [OF f] buf(2) col g'(1) pg all
    by (simp add: collectAndWrite_def es removeProcessed_def Let_def kept_def filter_empty_conv)
  have st: "starts g' k (last ps) r'" if "r' \<noteq> []" using that g'(4) fin by (cases "idx = 0xffff") auto
  show thesis
  proof (rule that [OF cw])
    show "if r' \<noteq> [] then \<exists>f. kept = [f] \<and> starts f (Suc i + length fs) (last ps) r' else kept = []"
      using st by (simp add: kept_def k_def)
  qed (simp add: kept_def es)
qed

text \<open>The next frame of a packet that is being reassembled; a piece that does not complete it is kept.\<close>

lemma tryReassemble_stream:
  assumes es: "rentries l = f # fs @ [g]" and f: "starts f i p (R (Suc i))" and fs: "pending D R (Suc i) fs"
    and g: "arrived g (of_nat (Suc i + length fs)) idx d" "carries (R (Suc i + length fs)) d idx ps r'"
  obtains es' rel where "tryReassemble l = Inr (l\<lparr>rentries := es'\<rparr>, (if idx = 0xffff \<and> r' \<noteq> [] then [] else p # whole idx ps r'), rel)"
    "length es' + length rel = length (rentries l)"
    "if idx = 0xffff \<and> r' \<noteq> [] then es' = rentries l
     else if r' \<noteq> [] then \<exists>f. es' = [f] \<and> starts f (Suc i + length fs) (last ps) r' else es' = []"
proof -
  define k where "k = Suc i + length fs"
  have fl: "frameLen g = 16 + length d" "findex g = int idx" using g(1) by (auto simp: arrived_def)
  have scan: "scan_loop (pktLen f) (int (frameLen f) - int (frag0Start f)) (fs @ [g]) =
      (if length (R k) \<le> length d then CanReassemble else if idx \<noteq> 0xffff then FramingError else NotYet)"
    unfolding starts_scan(1) [OF f] scan_pending [OF fs] k_def [symmetric] using fl by (auto simp: Let_def sigHdrSize_def)
  have "0 < frag0Start f" using f by (simp add: starts_def)
  then have tr: "tryReassemble l = (if length (R k) \<le> length d then collectAndWrite l
      else if idx \<noteq> 0xffff then (case removeBeforeBack l of (l, released) \<Rightarrow> Inr (l, [], released)) else Inr (l, [], []))"
    using scan by (cases fs) (simp_all add: tryReassemble_def es del: scan_loop.simps)
  show thesis
  proof (cases "idx = 0xffff \<and> r' \<noteq> []")
    case True
    then have "R k = d @ r'" "0 < length r'" using g(2) by (auto simp: carries_def k_def)
    then have "tryReassemble l = Inr (l, [], [])" using tr True by simp
    with that [of "rentries l" "[]"] True show thesis by simp
  next
    case False
    then have fin: "length (R k) \<le> length d" "idx = 0xffff \<Longrightarrow> r' = []" using g(2) by (auto simp: carries_def k_def)
    obtain es' rel where c: "collectAndWrite l = Inr (l\<lparr>rentries := es'\<rparr>, p # whole idx ps r', rel)"
      "length es' + length rel = length (rentries l)"
      "if r' \<noteq> [] then \<exists>f. es' = [f] \<and> starts f (Suc i + length fs) (last ps) r' else es' = []"
      by (rule collectAndWrite_stream [OF es f fs g fin(2)])
    show thesis by (rule that [OF _ c(2)]) (use tr fin(1) c(1,3) in \<open>simp_all only: if_not_P [OF False] if_P refl\<close>)
  qed
qed

section \<open>Reassembling a stream\<close>

text \<open>The list is empty, or it holds the frames \<open>i\<close> up to \<open>j\<close>, where a packet starts at the end of frame \<open>i\<close> and is not
  complete with frame \<open>j\<close>.\<close>

definition assembling :: "(nat \<Rightarrow> bytes) \<Rightarrow> (nat \<Rightarrow> bytes list) \<Rightarrow> (nat \<Rightarrow> bytes) \<Rightarrow> frame_buf list \<Rightarrow> nat \<Rightarrow> nat \<Rightarrow> bool" where
  "assembling D PS R es i j \<longleftrightarrow> (\<exists>f fs. es = f # fs \<and> starts f i (last (PS i)) (R (Suc i)) \<and> pending D R (Suc i) fs \<and>
     j = i + length fs \<and> PS i \<noteq> [])"

lemma assembling_seq:
  assumes "assembling D PS R es i j"
  shows "es \<noteq> [] \<and> seqNr (hd es) = of_nat i \<and> seqNr (last es) = of_nat j \<and> i \<le> j \<and> R (Suc j) \<noteq> [] \<and> length es = Suc (j - i)"
proof -
  from assms obtain f fs where es: "es = f # fs" "starts f i (last (PS i)) (R (Suc i))" "pending D R (Suc i) fs" "j = i + length fs"
    by (auto simp: assembling_def)
  have "R (Suc i + length fs) \<noteq> []" by (rule pending_rest [OF es(3)]) (use es(2) in \<open>simp add: starts_def\<close>)
  moreover have "seqNr (last es) = of_nat j"
  proof (cases fs rule: rev_cases)
    case Nil
    with es show ?thesis by (simp add: starts_def)
  next
    case (snoc gs g)
    with es(3,4) show ?thesis using es(1) by (simp add: pending_append arrived_def)
  qed
  ultimately show ?thesis using es by (auto simp: starts_def)
qed

lemma assembling_append:
  assumes "assembling D PS R es i j" "arrived g (of_nat (Suc j)) 0xffff (D (Suc j))" "R (Suc j) = D (Suc j) @ R (Suc (Suc j))" "R (Suc (Suc j)) \<noteq> []"
  shows "assembling D PS R (es @ [g]) i (Suc j)"
proof -
  from assms(1) obtain f fs where es: "es = f # fs" "starts f i (last (PS i)) (R (Suc i))" "pending D R (Suc i) fs" "j = i + length fs" "PS i \<noteq> []"
    by (auto simp: assembling_def)
  have "pending D R (Suc i) (fs @ [g])" unfolding pending_append using es(3,4) assms(2-4) by simp
  then show ?thesis unfolding assembling_def using es by (intro exI [of _ f] exI [of _ "fs @ [g]"]) simp
qed

lemma assembling_single: "starts f k (last (PS k)) (R (Suc k)) \<Longrightarrow> PS k \<noteq> [] \<Longrightarrow> assembling D PS R [f] k k"
  by (auto simp: assembling_def)

lemma stream_frame:
  assumes "stream n M D X PS R" "k < n"
  shows "carries (R k) (D k) (X k) (PS k) (R (Suc k))" "X k \<noteq> 0xffff \<Longrightarrow> PS k \<noteq> []" "X k = 0xffff \<Longrightarrow> PS k = [] \<and> R k = D k @ R (Suc k)"
    "R (Suc k) \<noteq> [] \<Longrightarrow> length (D k) = M"
  using assms by (auto simp: stream_def carries_def)

text \<open>What inserting frame \<open>k\<close> into an empty list does, and into one that waits for frame \<open>k\<close>.\<close>

lemma insert_empty:
  assumes "stream n M D X PS R" "k < n" "arrived fb (of_nat k) (X k) (D k)" "rentries l = []"
  obtains es rel where "insertFirst l fb = Inr (l\<lparr>rentries := es\<rparr>, whole (X k) (PS k) (R (Suc k)), rel)" "length es + length rel = 1"
    "es = [] \<and> (X k = 0xffff \<or> R (Suc k) = []) \<or> assembling D PS R es k k"
proof -
  obtain es rel where i: "insertFirst l fb = Inr (l\<lparr>rentries := es\<rparr>, whole (X k) (PS k) (R (Suc k)), rel)" "length es + length rel = 1"
    "if X k \<noteq> 0xffff \<and> R (Suc k) \<noteq> [] then \<exists>f. es = [f] \<and> starts f k (last (PS k)) (R (Suc k)) else es = []"
    by (rule insertFirst_stream [OF assms(4,3) stream_frame(1) [OF assms(1,2)]])
  show thesis
  proof (rule that [OF i(1,2)])
    show "es = [] \<and> (X k = 0xffff \<or> R (Suc k) = []) \<or> assembling D PS R es k k"
      using i(3) stream_frame(2) [OF assms(1,2)] assembling_single [of _ k PS R D] by (cases "X k \<noteq> 0xffff \<and> R (Suc k) \<noteq> []") auto
  qed
qed

lemma insert_next:
  assumes st: "stream n M D X PS R" "Suc j < n" and fb: "arrived fb (of_nat (Suc j)) (X (Suc j)) (D (Suc j))" and l: "assembling D PS R (rentries l) i j"
  obtains es rel where "tryReassemble (l\<lparr>rentries := rentries l @ [fb]\<rparr>) = Inr (l\<lparr>rentries := es\<rparr>,
      (if X (Suc j) = 0xffff \<and> R (Suc (Suc j)) \<noteq> [] then [] else last (PS i) # whole (X (Suc j)) (PS (Suc j)) (R (Suc (Suc j)))), rel)"
    "length es + length rel = Suc (length (rentries l))"
    "if X (Suc j) = 0xffff \<and> R (Suc (Suc j)) \<noteq> [] then assembling D PS R es i (Suc j)
     else if R (Suc (Suc j)) \<noteq> [] then assembling D PS R es (Suc j) (Suc j) else es = []"
proof -
  from l obtain f fs where es: "rentries l = f # fs" "starts f i (last (PS i)) (R (Suc i))" "pending D R (Suc i) fs" "j = i + length fs"
    by (auto simp: assembling_def)
  have k: "Suc i + length fs = Suc j" by (simp add: es(4))
  obtain es' rel where t: "tryReassemble (l\<lparr>rentries := f # fs @ [fb]\<rparr>) = Inr (l\<lparr>rentries := f # fs @ [fb]\<rparr>\<lparr>rentries := es'\<rparr>,
      (if X (Suc j) = 0xffff \<and> R (Suc (Suc j)) \<noteq> [] then [] else last (PS i) # whole (X (Suc j)) (PS (Suc j)) (R (Suc (Suc j)))), rel)"
    "length es' + length rel = length (rentries (l\<lparr>rentries := f # fs @ [fb]\<rparr>))"
    "if X (Suc j) = 0xffff \<and> R (Suc (Suc j)) \<noteq> [] then es' = rentries (l\<lparr>rentries := f # fs @ [fb]\<rparr>)
     else if R (Suc (Suc j)) \<noteq> [] then \<exists>f. es' = [f] \<and> starts f (Suc i + length fs) (last (PS (Suc j))) (R (Suc (Suc j))) else es' = []"
    by (rule tryReassemble_stream [of "l\<lparr>rentries := f # fs @ [fb]\<rparr>" f fs fb i "last (PS i)" R D "X (Suc j)" "D (Suc j)" "PS (Suc j)" "R (Suc (Suc j))"])
      (use es fb stream_frame(1) [OF st] k in simp_all)
  show thesis
  proof (rule that)
    show "if X (Suc j) = 0xffff \<and> R (Suc (Suc j)) \<noteq> [] then assembling D PS R es' i (Suc j)
     else if R (Suc (Suc j)) \<noteq> [] then assembling D PS R es' (Suc j) (Suc j) else es' = []"
    proof (cases "X (Suc j) = 0xffff \<and> R (Suc (Suc j)) \<noteq> []")
      case True
      then show ?thesis using t(3) assembling_append [OF l, of fb] fb stream_frame(3) [OF st] es(1) by simp
    next
      case False
      then show ?thesis using t(3) stream_frame(2) [OF st] assembling_single [of _ "Suc j" PS R D] k by (auto split: if_splits)
    qed
  qed (use t es in simp_all)
qed

text \<open>Whatever frame of the stream arrives next, only packets of the stream are sent.\<close>

definition list_state :: "nat \<Rightarrow> (nat \<Rightarrow> bytes) \<Rightarrow> (nat \<Rightarrow> bytes list) \<Rightarrow> (nat \<Rightarrow> bytes) \<Rightarrow> rlist \<Rightarrow> bool" where
  "list_state n D PS R l \<longleftrightarrow> rentries l = [] \<or> (\<exists>i j. assembling D PS R (rentries l) i j \<and> j < n)"

definition packets :: "nat \<Rightarrow> (nat \<Rightarrow> bytes list) \<Rightarrow> bytes list" where
  "packets n PS = concat (map PS [0..<n])"

lemma packets_Suc [simp]: "packets 0 PS = []" "packets (Suc n) PS = packets n PS @ PS n"
  by (simp_all add: packets_def)

lemma set_packets: "set (packets n PS) = (\<Union>k<n. set (PS k))"
  by (auto simp: packets_def)

lemma whole_packets: "k < n \<Longrightarrow> set (whole idx (PS k) r) \<subseteq> set (packets n PS)"
  by (auto simp: whole_def set_packets dest: in_set_butlastD)

lemma last_packets: "assembling D PS R es i j \<Longrightarrow> j < n \<Longrightarrow> last (PS i) \<in> set (packets n PS)"
  by (auto simp: set_packets assembling_def intro!: bexI [of _ i])

lemma of_nat_u64:
  "i < 2 ^ 64 \<Longrightarrow> j < 2 ^ 64 \<Longrightarrow> (of_nat i :: u64) < of_nat j \<longleftrightarrow> i < j"
  "i < 2 ^ 64 \<Longrightarrow> j < 2 ^ 64 \<Longrightarrow> (of_nat i :: u64) \<le> of_nat j \<longleftrightarrow> i \<le> j"
  by (simp_all add: word_less_nat_alt word_le_nat_alt unat_of_nat)

lemma Insert_seq:
  assumes a: "assembling D PS R (rentries l) i j" and lt: "Suc j < 2 ^ 64" "k < 2 ^ 64" and seq: "seqNr fb = of_nat k"
  shows "rlist_Insert l fb = (if k \<le> j then Inr (l, [], [fb])
    else if Suc j < k \<or> length (rentries l) = capacity l then insert_after_removal l fb
    else tryReassemble (l\<lparr>rentries := rentries l @ [fb]\<rparr>))"
proof -
  note s = assembling_seq [OF a]
  have b: "i < 2 ^ 64" "j < 2 ^ 64" using s lt by auto
  have suc: "(of_nat j + 1 :: u64) = of_nat (Suc j)" by simp
  show ?thesis using s b lt seq by (auto simp: rlist_Insert_def Let_def of_nat_u64 suc simp del: of_nat_Suc)
qed

lemma insert_any:
  assumes st: "stream n M D X PS R" "k < n" and fb: "arrived fb (of_nat k) (X k) (D k)" and l: "list_state n D PS R l"
  shows "\<exists>es sent rel. rlist_Insert l fb = Inr (l\<lparr>rentries := es\<rparr>, sent, rel) \<and> list_state n D PS R (l\<lparr>rentries := es\<rparr>) \<and>
    set sent \<subseteq> set (packets n PS)"
proof -
  have n: "n < 2 ^ 64" using st(1) by (simp add: stream_def)
  have first: "\<exists>es sent rel. insertFirst l0 fb = Inr (l0\<lparr>rentries := es\<rparr>, sent, rel) \<and> list_state n D PS R (l0\<lparr>rentries := es\<rparr>) \<and>
      set sent \<subseteq> set (packets n PS)" if "rentries l0 = []" for l0
    by (rule insert_empty [OF st fb that]) (use st(2) whole_packets in \<open>fastforce simp: list_state_def\<close>)
  show ?thesis
  proof (cases "rentries l = []")
    case True
    with first [OF True] show ?thesis by (simp add: rlist_Insert_def)
  next
    case False
    then obtain i j where a: "assembling D PS R (rentries l) i j" "j < n" using l by (auto simp: list_state_def)
    have ins: "rlist_Insert l fb = (if k \<le> j then Inr (l, [], [fb])
        else if Suc j < k \<or> length (rentries l) = capacity l then insert_after_removal l fb
        else tryReassemble (l\<lparr>rentries := rentries l @ [fb]\<rparr>))"
      by (rule Insert_seq [OF a(1)]) (use a(2) st(2) n fb in \<open>auto simp: arrived_def\<close>)
    have removal: "\<exists>es sent rel. insert_after_removal l fb = Inr (l\<lparr>rentries := es\<rparr>, sent, rel) \<and>
        list_state n D PS R (l\<lparr>rentries := es\<rparr>) \<and> set sent \<subseteq> set (packets n PS)"
      using first [of "l\<lparr>rentries := []\<rparr>"] by (auto simp: insert_after_removal_def removeAll_def)
    show ?thesis
    proof (cases "k = Suc j")
      case True
      obtain es rel where t: "tryReassemble (l\<lparr>rentries := rentries l @ [fb]\<rparr>) = Inr (l\<lparr>rentries := es\<rparr>,
          (if X (Suc j) = 0xffff \<and> R (Suc (Suc j)) \<noteq> [] then [] else last (PS i) # whole (X (Suc j)) (PS (Suc j)) (R (Suc (Suc j)))), rel)"
        "if X (Suc j) = 0xffff \<and> R (Suc (Suc j)) \<noteq> [] then assembling D PS R es i (Suc j)
         else if R (Suc (Suc j)) \<noteq> [] then assembling D PS R es (Suc j) (Suc j) else es = []"
        by (rule insert_next [OF st(1) _ _ a(1), of fb]) (use st(2) fb True in simp_all)
      have "list_state n D PS R (l\<lparr>rentries := es\<rparr>)" using t(2) st(2) True by (auto simp: list_state_def split: if_splits)
      moreover have "set (if X (Suc j) = 0xffff \<and> R (Suc (Suc j)) \<noteq> [] then [] else last (PS i) # whole (X (Suc j)) (PS (Suc j)) (R (Suc (Suc j))))
          \<subseteq> set (packets n PS)" using last_packets [OF a] whole_packets [of "Suc j" n] st(2) True by auto
      ultimately show ?thesis using ins t(1) removal True by auto
    next
      case k: False
      then show ?thesis using ins removal l by (cases "k \<le> j") (auto intro!: exI [of _ "rentries l"])
    qed
  qed
qed

text \<open>When the frames arrive in order and the list is large enough, nothing is lost.\<close>

lemma pending_length:
  "stream n M D X PS R \<Longrightarrow> pending D R k fs \<Longrightarrow> k + length fs \<le> n \<Longrightarrow> R k \<noteq> [] \<Longrightarrow> length fs * M < length (R k)"
proof (induction fs arbitrary: k)
  case (Cons f fs)
  from Cons.prems(2) have f: "R k = D k @ R (Suc k)" "R (Suc k) \<noteq> []" "pending D R (Suc k) fs" by auto
  have "length (D k) = M" using stream_frame(4) [OF Cons.prems(1), of k] f(2) Cons.prems(3) by simp
  then show ?case using f Cons.IH [OF Cons.prems(1) f(3)] Cons.prems(3) by simp
qed simp

text \<open>What has been sent once the frames before \<open>k\<close> have arrived, and the state of the list then.\<close>

definition delivered :: "(nat \<Rightarrow> bytes list) \<Rightarrow> (nat \<Rightarrow> bytes) \<Rightarrow> nat \<Rightarrow> bytes list" where
  "delivered PS R k = (if R k = [] then packets k PS else butlast (packets k PS))"

definition in_order :: "(nat \<Rightarrow> bytes) \<Rightarrow> (nat \<Rightarrow> bytes list) \<Rightarrow> (nat \<Rightarrow> bytes) \<Rightarrow> rlist \<Rightarrow> nat \<Rightarrow> bool" where
  "in_order D PS R l k \<longleftrightarrow> (if R k = [] then rentries l = []
     else \<exists>i j. assembling D PS R (rentries l) i j \<and> k = Suc j \<and> packets k PS \<noteq> [] \<and> last (packets k PS) = last (PS i))"


lemma whole_delivered:
  assumes "stream n M D X PS R" "k < n" "X k \<noteq> 0xffff \<or> R (Suc k) = []"
  shows "packets k PS @ whole (X k) (PS k) (R (Suc k)) = delivered PS R (Suc k)"
  using assms stream_frame(2,3) [OF assms(1,2)] by (auto simp: whole_def delivered_def butlast_append)

lemma assembling_room:
  assumes "stream n M D X PS R" "assembling D PS R es i j" "j < n" "length (last (PS i)) \<le> (c - 1) * M"
  shows "length es < c"
proof -
  obtain f fs where es: "es = f # fs" "starts f i (last (PS i)) (R (Suc i))" "pending D R (Suc i) fs" "j = i + length fs"
    using assms(2) by (auto simp: assembling_def)
  have "length fs * M < length (R (Suc i))" by (rule pending_length [OF assms(1) es(3)]) (use es assms(3) in \<open>auto simp: starts_def\<close>)
  moreover have "slice (frag0Start f) (frameLen f) (raw f) @ R (Suc i) = last (PS i)" using es(2) by (simp add: starts_def)
  from arg_cong [OF this, of length] have "length (R (Suc i)) \<le> length (last (PS i))" by simp
  ultimately have "length fs * M < (c - 1) * M" using assms(4) by linarith
  then show ?thesis using es(1) by (simp add: less_diff_conv)
qed

lemma insert_in_order:
  assumes st: "stream n M D X PS R" "k < n" and fb: "arrived fb (of_nat k) (X k) (D k)" and l: "in_order D PS R l k"
    and cap: "\<forall>p \<in> set (packets n PS). length p \<le> (capacity l - 1) * M"
  shows "\<exists>es sent rel. rlist_Insert l fb = Inr (l\<lparr>rentries := es\<rparr>, sent, rel) \<and> in_order D PS R (l\<lparr>rentries := es\<rparr>) (Suc k) \<and>
    delivered PS R k @ sent = delivered PS R (Suc k)"
proof (cases "R k = []")
  case True
  then have e: "rentries l = []" using l by (simp add: in_order_def)
  have end_of: "X k = 0xffff \<longrightarrow> R (Suc k) = []" using stream_frame(3) [OF st] True by auto
  obtain es rel where i: "insertFirst l fb = Inr (l\<lparr>rentries := es\<rparr>, whole (X k) (PS k) (R (Suc k)), rel)"
    "es = [] \<and> (X k = 0xffff \<or> R (Suc k) = []) \<or> assembling D PS R es k k" by (rule insert_empty [OF st fb e])
  have "in_order D PS R (l\<lparr>rentries := es\<rparr>) (Suc k)"
    using i(2) end_of by (auto simp: in_order_def assembling_def starts_def)
  moreover have "delivered PS R k @ whole (X k) (PS k) (R (Suc k)) = delivered PS R (Suc k)"
    using whole_delivered [OF st] end_of True by (auto simp: delivered_def)
  ultimately show ?thesis using i(1) e by (auto simp: rlist_Insert_def)
next
  case False
  then obtain i j where a: "assembling D PS R (rentries l) i j" "k = Suc j" "packets k PS \<noteq> []" "last (packets k PS) = last (PS i)"
    using l by (auto simp: in_order_def)
  have n: "n < 2 ^ 64" using st(1) by (simp add: stream_def)
  have p: "length (last (PS i)) \<le> (capacity l - 1) * M" using cap last_packets [OF a(1), of n] st(2) a(2) by simp
  have room: "length (rentries l) < capacity l" by (rule assembling_room [OF st(1) a(1) _ p]) (use st(2) a(2) in simp)
  have ins: "rlist_Insert l fb = tryReassemble (l\<lparr>rentries := rentries l @ [fb]\<rparr>)"
    using Insert_seq [OF a(1), of k fb] room a(2) st(2) n fb by (simp add: arrived_def)
  obtain es' rel where t: "tryReassemble (l\<lparr>rentries := rentries l @ [fb]\<rparr>) = Inr (l\<lparr>rentries := es'\<rparr>,
      (if X k = 0xffff \<and> R (Suc k) \<noteq> [] then [] else last (PS i) # whole (X k) (PS k) (R (Suc k))), rel)"
    "if X k = 0xffff \<and> R (Suc k) \<noteq> [] then assembling D PS R es' i k
     else if R (Suc k) \<noteq> [] then assembling D PS R es' k k else es' = []"
    by (rule insert_next [OF st(1), of j fb l i, folded a(2), OF st(2) fb a(1)])
  have last: "delivered PS R k @ [last (PS i)] = packets k PS" using append_butlast_last_id [OF a(3)] a(4) False by (simp add: delivered_def)
  show ?thesis
  proof (cases "X k = 0xffff \<and> R (Suc k) \<noteq> []")
    case True
    then have "PS k = []" using stream_frame(3) [OF st] by simp
    then have "in_order D PS R (l\<lparr>rentries := es'\<rparr>) (Suc k)" "delivered PS R k = delivered PS R (Suc k)"
      using True t(2) a(3,4) False by (auto simp: in_order_def delivered_def)
    then show ?thesis using ins t(1) True by (intro exI [of _ es'] exI [of _ "[]"] exI [of _ rel]) simp
  next
    case open_end: False
    then have "delivered PS R k @ last (PS i) # whole (X k) (PS k) (R (Suc k)) = delivered PS R (Suc k)"
      using whole_delivered [OF st] last by (metis append.assoc append_Cons append_Nil)
    moreover have "in_order D PS R (l\<lparr>rentries := es'\<rparr>) (Suc k)"
      using t(2) open_end by (auto simp: in_order_def assembling_def starts_def split: if_splits)
    ultimately show ?thesis using ins t(1) open_end
      by (intro exI [of _ es'] exI [of _ "last (PS i) # whole (X k) (PS k) (R (Suc k))"] exI [of _ rel]) simp
  qed
qed

section \<open>From the encoder to the worker\<close>

text \<open>The frame buffer the ingress server hands to a worker, and the header the worker reads from it.\<close>

definition filled :: "frame_buf \<Rightarrow> bytes \<Rightarrow> frame_buf" where
  "filled b data = (frame_Reset b)\<lparr>raw := go_copy (raw b) data, frameLen := length data, sessId := data ! 1\<rparr>"

lemma server_read_filled:
  assumes "length (raw b) = frameBufCap" "sigHdrSize \<le> length data" "length data \<le> frameBufCap" "data ! 0 = 0"
  shows "server_read device (frame_Reset b) (ReadFrame data (Some src)) workers = map_option Inr (dispatch device (filled b data) src workers)"
proof -
  have "go_copy (raw b) data ! 0 = data ! 0" "go_copy (raw b) data ! 1 = data ! 1"
    using assms(1,2,3) by (auto simp: go_copy_def nth_append sigHdrSize_def)
  then show ?thesis using assms by (simp add: server_read_def filled_def frame_Reset_def Let_def)
qed

lemma header_slices:
  "slice 2 4 (header sid strm seq idx @ x) = PutUint16 (of_nat idx)"
  "slice 4 8 (header sid strm seq idx @ x) = PutUint32 (strm AND 0xfffff)"
  "slice 8 16 (header sid strm seq idx @ x) = PutUint64 seq"
  by (simp_all add: header_def slice_def PutUint16_def PutUint32_def PutUint64_def)

lemma read_header_filled:
  assumes "length (raw b) = frameBufCap" "f = header sid strm (of_nat k) idx @ d" "length f \<le> frameBufCap" "idx \<le> 0xffff"
  obtains fb where "read_header (filled b f) = Inr (unat (strm AND 0xfffff), fb)" "arrived fb (of_nat k) idx d"
proof -
  define junk where "junk = drop (length f) (raw b)"
  have r: "raw (filled b f) = header sid strm (of_nat k) idx @ d @ junk" "frameLen (filled b f) = 16 + length d"
    using assms(1,2,3) by (auto simp: filled_def go_copy_def junk_def)
  have idx: "unat (of_nat idx :: u16) = idx" using assms(4) by (simp add: unat_of_nat)
  have uidx: "uint (of_nat idx :: u16) = int idx" using idx by (metis of_nat_unat)
  have m: "strm AND 0xfffff AND 0xfffff = strm AND 0xfffff" by (simp add: and.assoc)
  define fb where "fb = (filled b f)\<lparr>seqNr := of_nat k, findex := int idx, fragNProcessed := (idx = 0), completePktsProcessed := (idx = 0xffff)\<rparr>"
  have "read_header (filled b f) = Inr (unat (strm AND 0xfffff), fb)"
    unfolding read_header_def using r by (simp add: header_slices idx uidx m fb_def Let_def)
  moreover have "arrived fb (of_nat k) idx d"
    using r by (simp add: arrived_def fb_def) (simp add: slice_def filled_def frame_Reset_def)
  ultimately show thesis using that by blast
qed

lemma processFrame_list:
  assumes "read_header fb = Inr (ep, fb')" "rlist_Insert (getRlist w ep) fb' = Inr (l, sent, rel)"
  shows "processFrame w fb = Inr (w\<lparr>rlists := AList.update ep l (rlists w)\<rparr>, sent, rel)"
    "getRlist (w\<lparr>rlists := AList.update ep l (rlists w)\<rparr>) ep = l\<lparr>markedForDeletion := False\<rparr>"
  using assms by (simp_all add: processFrame_def getRlist_def update_conv')

text \<open>The frames that successive calls of \<open>Read\<close> return.\<close>

inductive encodes :: "encoder \<Rightarrow> ring_result list \<Rightarrow> bytes list \<Rightarrow> encoder \<Rightarrow> ring_result list \<Rightarrow> bool" where
  start: "encodes e rs [] e rs"
| more: "encodes e rs fs e1 rs1 \<Longrightarrow> encoder_Read e1 rs1 = Some (Inr (Some f, e2, rs2)) \<Longrightarrow> encodes e rs (fs @ [f]) e2 rs2"

definition frames_of :: "u8 \<Rightarrow> u32 \<Rightarrow> bytes list \<Rightarrow> (nat \<Rightarrow> bytes) \<Rightarrow> (nat \<Rightarrow> nat) \<Rightarrow> bool" where
  "frames_of sid strm fs D X \<longleftrightarrow>
     (\<forall>k<length fs. fs ! k = header sid strm (of_nat k) (X k) @ D k \<and> length (fs ! k) \<le> frameBufCap \<and> X k \<le> 0xffff)"

lemma encodes_stream:
  assumes "encodes e rs fs e' rs'" "e = newEncoder sid strm mtu" "57 \<le> unat mtu" "length fs < 2 ^ 64"
  shows "\<exists>D X PS R used. stream (length fs) (unat mtu - 16) D X PS R \<and> frames_of sid strm fs D X \<and> R (length fs) = epkt e' \<and>
    rs = used @ rs' \<and> packets (length fs) PS = valid_packets used \<and> eseq e' = of_nat (length fs) \<and> ids_kept e e'"
  using assms
proof (induction rule: encodes.induct)
  case (start e rs)
  then show ?case
    by (intro exI [of _ "\<lambda>_. []"] exI [of _ "\<lambda>_. 0"] exI) (auto simp: stream_def frames_of_def newEncoder_def ids_kept_def)
next
  case (more e rs fs e1 rs1 f e2 rs2)
  define n where "n = length fs"
  from more.IH more.prems obtain D X PS R used where
    ih: "stream n (unat mtu - 16) D X PS R" "frames_of sid strm fs D X" "R n = epkt e1" "rs = used @ rs1" "packets n PS = valid_packets used"
      "eseq e1 = of_nat n" "ids_kept e e1" by (auto simp: n_def)
  have cap: "frameCap e1 = unat mtu" "sessionID e1 = sid" "streamID e1 = strm" using ih(7) more.prems(1) by (auto simp: ids_kept_def newEncoder_def)
  have "unat mtu < 2 ^ LENGTH(16)" by (rule unsigned_less)
  then have mtu: "unat mtu \<le> 65535" by simp
  obtain u d idx where p: "rs1 = u @ rs2" "ids_kept e1 e2" "eseq e2 = of_nat n + 1" "f = header sid strm (of_nat n) idx @ d" "length f \<le> unat mtu"
    "carries (epkt e1) d idx (valid_packets u) (epkt e2)" "epkt e2 \<noteq> [] \<longrightarrow> length f = unat mtu"
    using encoder_Read_post [OF more.hyps(2), unfolded cap ih(6) option.case, OF more.prems(2) mtu] by blast
  have idx: "idx \<le> 0xffff" using p(6) by (auto simp: carries_def)
  define D' X' PS' R' where "D' = D(n := d)" and "X' = X(n := idx)" and "PS' = PS(n := valid_packets u)" and "R' = R(Suc n := epkt e2)"
  have "stream (Suc n) (unat mtu - 16) D' X' PS' R'"
    using ih(1,3) p(4-7) more.prems(3) by (auto simp: stream_def less_Suc_eq D'_def X'_def PS'_def R'_def n_def)
  moreover have "frames_of sid strm (fs @ [f]) D' X'"
    using ih(2) p(4,5) mtu idx by (auto simp: frames_of_def less_Suc_eq nth_append D'_def X'_def n_def frameBufCap_def)
  moreover have "packets n PS' = packets n PS" by (auto simp: packets_def PS'_def intro!: arg_cong [of _ _ concat])
  then have "packets (Suc n) PS' = valid_packets (used @ u)" using ih(5) by (simp add: PS'_def)
  moreover have "R' (Suc n) = epkt e2" "length (fs @ [f]) = Suc n" by (simp_all add: R'_def n_def)
  ultimately show ?case using ih(4,6,7) p(1,2,3)
    by - (rule exI [of _ D'], rule exI [of _ X'], rule exI [of _ PS'], rule exI [of _ R'], rule exI [of _ "used @ u"],
      auto simp: ids_kept_def)
qed


lemma frame_arrives:
  assumes "frames_of sid strm fs D X" "k < length fs" "length (raw b) = frameBufCap"
  obtains fb where "read_header (filled b (fs ! k)) = Inr (unat (strm AND 0xfffff), fb)" "arrived fb (of_nat k) (X k) (D k)"
proof -
  have "fs ! k = header sid strm (of_nat k) (X k) @ D k" "length (fs ! k) \<le> frameBufCap" "X k \<le> 0xffff"
    using assms(1,2) unfolding frames_of_def by blast+
  from read_header_filled [OF assms(3) this] that show thesis by blast
qed

text \<open>Frames of one stream, in any order, lost or repeated.\<close>

lemma process_any:
  assumes st: "stream n M D X PS R" and fs: "frames_of sid strm fs D X" "length fs = n" and ks: "\<forall>k \<in> set ks. k < n"
    and bufs: "length bufs = length ks" "\<forall>b \<in> set bufs. length (raw b) = frameBufCap"
    and l: "list_state n D PS R (getRlist w (unat (strm AND 0xfffff)))"
  shows "\<exists>w' sent rel. process_frames w (map2 filled bufs (map ((!) fs) ks)) = Inr (w', sent, rel) \<and> set sent \<subseteq> set (packets n PS)"
  using ks bufs l
proof (induction ks arbitrary: bufs w)
  case Nil
  then show ?case by simp
next
  case (Cons k ks)
  then obtain b bs where b: "bufs = b # bs" "length (raw b) = frameBufCap" "length bs = length ks" "\<forall>b \<in> set bs. length (raw b) = frameBufCap"
    by (cases bufs) auto
  define ep where "ep = unat (strm AND 0xfffff)"
  have k: "k < n" using Cons.prems(1) by simp
  obtain fb where fb: "read_header (filled b (fs ! k)) = Inr (ep, fb)" "arrived fb (of_nat k) (X k) (D k)"
    using frame_arrives [OF fs(1) _ b(2)] fs(2) k unfolding ep_def by blast
  obtain es s1 r1 where i: "rlist_Insert (getRlist w ep) fb = Inr ((getRlist w ep)\<lparr>rentries := es\<rparr>, s1, r1)"
    "list_state n D PS R ((getRlist w ep)\<lparr>rentries := es\<rparr>)" "set s1 \<subseteq> set (packets n PS)"
    using insert_any [OF st k fb(2) Cons.prems(4) [folded ep_def]] by blast
  define w1 where "w1 = w\<lparr>rlists := AList.update ep ((getRlist w ep)\<lparr>rentries := es\<rparr>) (rlists w)\<rparr>"
  note p = processFrame_list [OF fb(1) i(1), folded w1_def]
  have "list_state n D PS R (getRlist w1 ep)" using i(2) p(2) by (simp add: list_state_def)
  with Cons.IH [of bs w1] Cons.prems(1) b(3,4) obtain w2 s2 r2 where
    "process_frames w1 (map2 filled bs (map ((!) fs) ks)) = Inr (w2, s2, r2)" "set s2 \<subseteq> set (packets n PS)" by (auto simp: ep_def)
  then show ?case using p(1) b(1) i(3) by simp
qed

lemma in_order_cong: "rentries l = rentries l' \<Longrightarrow> in_order D PS R l k = in_order D PS R l' k"
  by (simp add: in_order_def)

text \<open>All frames of a stream, in order.\<close>

lemma process_in_order:
  assumes st: "stream n M D X PS R" and fs: "frames_of sid strm fs D X" "length fs = n"
    and bufs: "length bufs = n" "\<forall>b \<in> set bufs. length (raw b) = frameBufCap"
    and w: "rentries (getRlist w (unat (strm AND 0xfffff))) = []" "capacity (getRlist w (unat (strm AND 0xfffff))) = c"
    and cap: "\<forall>p \<in> set (packets n PS). length p \<le> (c - 1) * M"
  shows "\<exists>w' rel. process_frames w (map2 filled bufs fs) = Inr (w', delivered PS R n, rel)"
proof -
  define ep where "ep = unat (strm AND 0xfffff)"
  have "\<exists>w' sent rel. process_frames w1 (map2 filled (drop k bufs) (drop k fs)) = Inr (w', sent, rel) \<and> delivered PS R k @ sent = delivered PS R n"
    if "k \<le> n" "in_order D PS R (getRlist w1 ep) k" "capacity (getRlist w1 ep) = c" for k w1
    using that
  proof (induction "n - k" arbitrary: k w1)
    case 0
    then show ?case using fs(2) bufs(1) by simp
  next
    case (Suc m)
    then have k: "k < n" and m: "m = n - Suc k" by simp_all
    have d: "drop k fs = fs ! k # drop (Suc k) fs" "drop k bufs = bufs ! k # drop (Suc k) bufs" using k fs(2) bufs(1) by (simp_all add: Cons_nth_drop_Suc)
    have b: "length (raw (bufs ! k)) = frameBufCap" using bufs k by simp
    obtain fb where fb: "read_header (filled (bufs ! k) (fs ! k)) = Inr (ep, fb)" "arrived fb (of_nat k) (X k) (D k)"
      using frame_arrives [OF fs(1) _ b] fs(2) k unfolding ep_def by blast
    obtain es s1 r1 where i: "rlist_Insert (getRlist w1 ep) fb = Inr ((getRlist w1 ep)\<lparr>rentries := es\<rparr>, s1, r1)"
      "in_order D PS R ((getRlist w1 ep)\<lparr>rentries := es\<rparr>) (Suc k)" "delivered PS R k @ s1 = delivered PS R (Suc k)"
      using insert_in_order [OF st k fb(2) Suc.prems(2)] cap Suc.prems(3) by auto
    define w2 where "w2 = w1\<lparr>rlists := AList.update ep ((getRlist w1 ep)\<lparr>rentries := es\<rparr>) (rlists w1)\<rparr>"
    note p = processFrame_list [OF fb(1) i(1), folded w2_def]
    have "in_order D PS R (getRlist w2 ep) (Suc k)" "capacity (getRlist w2 ep) = c" 
      using i(2) p(2) Suc.prems(3) in_order_cong [of "getRlist w2 ep" "(getRlist w1 ep)\<lparr>rentries := es\<rparr>"] by simp_all
    with Suc.hyps(1) [OF m, of w2] k obtain w3 s2 r2 where
      "process_frames w2 (map2 filled (drop (Suc k) bufs) (drop (Suc k) fs)) = Inr (w3, s2, r2)" "delivered PS R (Suc k) @ s2 = delivered PS R n" by auto
    then show ?case using p(1) i(3) d by (auto simp flip: append_assoc)
  qed
  from this [of 0 w] show ?thesis using st w by (auto simp: in_order_def stream_def delivered_def ep_def)
qed

section \<open>Properties\<close>

text \<open>Claim C12. What goes into one gateway comes out of the other: when the frames that an encoder returned, from packets written
  in any interleaving with the reads, reach the worker of the other gateway in order, it sends exactly the valid IP
  packets that were written, each once and in order; only the last one may still be on its way when the encoder has not
  returned its end. The packets must fit the 100 frames a reassembly list holds, \<open>mtu\<close> must be at least the \<open>minMTU\<close> that
  the sender asks for, and \<open>bufs\<close> are frame buffers from the pool, whatever they contained.\<close>

theorem gateway_roundtrip:
  assumes "57 \<le> unat mtu" "encodes (newEncoder sid strm mtu) (used @ rs) fs e rs" "length fs < 2 ^ 64"
    "length bufs = length fs" "\<forall>b \<in> set bufs. length (raw b) = frameBufCap"
    "\<forall>p \<in> set (valid_packets used). length p \<le> 99 * (unat mtu - 16)"
  shows "\<exists>w released. process_frames newWorker (map2 filled bufs fs) =
    Inr (w, if epkt e = [] then valid_packets used else butlast (valid_packets used), released)"
proof -
  obtain D X PS R where s: "stream (length fs) (unat mtu - 16) D X PS R" "frames_of sid strm fs D X" "R (length fs) = epkt e"
    "packets (length fs) PS = valid_packets used"
    using encodes_stream [OF assms(2) refl assms(1,3)] by auto
  have d: "delivered PS R (length fs) = (if epkt e = [] then valid_packets used else butlast (valid_packets used))"
    by (simp add: delivered_def s(3,4))
  have "\<exists>w rel. process_frames newWorker (map2 filled bufs fs) = Inr (w, delivered PS R (length fs), rel)"
    by (rule process_in_order [OF s(1,2) refl assms(4,5), where c = 100])
      (use s(4) assms(6) in \<open>simp_all add: getRlist_def newWorker_def newReassemblyList_def reassemblyListCap_def\<close>)
  then show ?thesis unfolding d .
qed

text \<open>Claim C16. No corrupted packet: when frames of an encoder are lost, repeated or reordered on the way (\<open>ks\<close> lists the frames
  in the order in which they arrive), the worker of the other gateway does not fail, and every packet it sends is one that was
  written.\<close>

theorem gateway_no_corruption:
  assumes "57 \<le> unat mtu" "encodes (newEncoder sid strm mtu) (used @ rs) fs e rs" "length fs < 2 ^ 64"
    "\<forall>k \<in> set ks. k < length fs" "length bufs = length ks" "\<forall>b \<in> set bufs. length (raw b) = frameBufCap"
  shows "\<exists>w sent released. process_frames newWorker (map2 filled bufs (map ((!) fs) ks)) = Inr (w, sent, released) \<and>
    set sent \<subseteq> set (valid_packets used)"
proof -
  obtain D X PS R where s: "stream (length fs) (unat mtu - 16) D X PS R" "frames_of sid strm fs D X"
    "packets (length fs) PS = valid_packets used"
    using encodes_stream [OF assms(2) refl assms(1,3)] by auto
  have "list_state (length fs) D PS R (getRlist newWorker (unat (strm AND 0xfffff)))"
    by (simp add: list_state_def getRlist_def newWorker_def newReassemblyList_def)
  from process_any [OF s(1,2) refl assms(4-6) this] s(3) show ?thesis by simp
qed

text \<open>A packet of 60 bytes sent in two frames of at most 57.\<close>

definition demo_ip :: bytes where
  "demo_ip = [0x45, 0, 0, 60] @ replicate 56 7"

definition demo_frames :: "bytes list" where
  "demo_frames = [header 1 9 0 0 @ take 41 demo_ip, header 1 9 1 0xffff @ drop 41 demo_ip]"

lemma demo_ip_valid: "pkt_valid demo_ip"
  by (simp add: pkt_valid_def demo_ip_def slice_def Uint16_def)

lemma demo_sizes: "length demo_ip = 60" "length demo_frames = 2" "length (raw newFrameBuf) = frameBufCap"
  by (simp_all add: demo_ip_def demo_frames_def newFrameBuf_def frame_Reset_def)

lemma demo_reads:
  "encoder_Read (newEncoder 1 9 57) [Packet demo_ip] = Some (Inr (Some (demo_frames ! 0), (newEncoder 1 9 57)\<lparr>eseq := 1, epkt := drop 41 demo_ip, frame := demo_frames ! 0\<rparr>, []))"
  "encoder_Read ((newEncoder 1 9 57)\<lparr>eseq := 1, epkt := drop 41 demo_ip, frame := demo_frames ! 0\<rparr>) [] =
    Some (Inr (Some (demo_frames ! 1), (newEncoder 1 9 57)\<lparr>eseq := 2, epkt := [], frame := demo_frames ! 1\<rparr>, []))"
  by (simp_all add: encoder_Read_def newEncoder_def demo_frames_def demo_ip_def frame_header_eq copyToFrame_eq Let_def hdrLen_def
      put_index [of 0 _ _ _ _ "[]", simplified] demo_ip_valid [unfolded demo_ip_def, simplified])

lemma demo_encodes: "encodes (newEncoder 1 9 57) ([Packet demo_ip] @ []) demo_frames ((newEncoder 1 9 57)\<lparr>eseq := 2, epkt := [], frame := demo_frames ! 1\<rparr>) []"
  using encodes.more [OF encodes.more [OF encodes.start demo_reads(1)] demo_reads(2)] by (simp add: demo_frames_def)

lemma demo_valid: "valid_packets [Packet demo_ip] = [demo_ip]"
  by (simp add: demo_ip_valid)

theorem gateway_roundtrip_witness:
  "\<exists>w released. process_frames newWorker (map2 filled [newFrameBuf, newFrameBuf] demo_frames) = Inr (w, [demo_ip], released)"
  using gateway_roundtrip [OF _ demo_encodes, of "[newFrameBuf, newFrameBuf]", unfolded demo_valid] by (simp add: demo_sizes)

theorem gateway_no_corruption_witness:
  "\<exists>w sent released. process_frames newWorker (map2 filled [newFrameBuf, newFrameBuf, newFrameBuf] (map ((!) demo_frames) [1, 0, 0])) =
     Inr (w, sent, released) \<and> set sent \<subseteq> {demo_ip}"
  using gateway_no_corruption [OF _ demo_encodes, of "[1, 0, 0]" "[newFrameBuf, newFrameBuf, newFrameBuf]", unfolded demo_valid]
  by (simp add: demo_sizes del: process_frames.simps list.map)

end
