(* ===== verification/Gateway_Ingress.thy ===== *)
theory Gateway_Ingress
  imports Gateway_Reassembly "HOL-Library.Multiset"
begin

text \<open>
  The ingress side of the gateway against arbitrary frames: nothing a remote sends makes a worker panic, the
  reassembly lists stay within their capacity and every frame buffer is held or released exactly once. The server, its workers and the
  pool of buffers as they take turns: the buffers are conserved except those of frames without a device, and one short frame stops the server.
\<close>

section \<open>Arbitrary frames\<close>

definition frame_ok :: "frame_buf \<Rightarrow> bool" where
  "frame_ok f \<longleftrightarrow> 16 \<le> frameLen f \<and> frameLen f \<le> length (raw f) \<and> frag0Start f \<le> frameLen f \<and> 0 \<le> findex f \<and>
     (frag0Start f \<noteq> 0 \<longrightarrow> frameLen f - frag0Start f < pktLen f)"

lemma frame_ok_flags [simp]: "frame_ok (f\<lparr>fragNProcessed := x\<rparr>) = frame_ok f" "frame_ok (SetProcessed f) = frame_ok f"
  by (simp_all add: frame_ok_def SetProcessed_def)

lemma header_len_total: "off < flen \<Longrightarrow> flen \<le> length b \<Longrightarrow> \<exists>h. header_len b flen off = Inr h"
  by (simp add: header_len_def go_index_def Let_def)

lemma complete_loop_total:
  "flen \<le> length b \<Longrightarrow> \<exists>bad off' pl' sent. complete_loop b flen off pl = Inr (bad, off', pl', sent) \<and>
     (\<not> bad \<and> off' < flen \<longrightarrow> flen - off' < pl')"
proof (induction b flen off pl rule: complete_loop.induct)
  case (1 b flen off pl)
  show ?case
  proof (cases "off < flen")
    case False
    then show ?thesis by (subst complete_loop.simps) auto
  next
    case True
    obtain h where h: "header_len b flen off = Inr h" using header_len_total [OF True 1(2)] by blast
    show ?thesis
    proof (cases h)
      case None
      with h True show ?thesis by (subst complete_loop.simps) auto
    next
      case (Some l)
      have "length (slice off flen b) = flen - off" using True 1(2) by simp
      then show ?thesis using h Some True 1(2) 1(1) [OF True h Some, of "slice off flen b"]
        by (subst complete_loop.simps) (cases "flen - off < l"; auto)
    qed
  qed
qed

lemma ProcessCompletePkts_total:
  assumes "frame_ok f"
  obtains f' sent where "ProcessCompletePkts f = Inr (f', sent)" "frame_ok f'" "raw f' = raw f"
proof (cases "completePktsProcessed f \<or> findex f = 0xffff")
  case True
  with that [of "f\<lparr>completePktsProcessed := True\<rparr>" "[]"] assms show thesis by (simp add: ProcessCompletePkts_def frame_ok_def)
next
  case False
  obtain bad off' pl' sent where c: "complete_loop (raw f) (frameLen f) (nat (findex f + int sigHdrSize)) 0 = Inr (bad, off', pl', sent)"
    "\<not> bad \<and> off' < frameLen f \<longrightarrow> frameLen f - off' < pl'"
    using complete_loop_total [of "frameLen f" "raw f" "nat (findex f + int sigHdrSize)" 0] assms by (auto simp: frame_ok_def)
  define f' where "f' = (if bad then f\<lparr>completePktsProcessed := True\<rparr> else
    let f = (if off' < frameLen f then f\<lparr>frag0Start := off', pktLen := pl'\<rparr> else f); f = f\<lparr>completePktsProcessed := True\<rparr>
    in f\<lparr>frag0Processed := (frag0Start f = 0)\<rparr>)"
  have "ProcessCompletePkts f = Inr (f', sent)" using False c(1) by (simp add: ProcessCompletePkts_def f'_def Let_def)
  moreover have "frame_ok f'" "raw f' = raw f" using assms c(2) by (auto simp: f'_def frame_ok_def Let_def)
  ultimately show thesis by (rule that)
qed

lemma collect_loop_total:
  assumes "list_all frame_ok fs"
  shows "\<exists>buf' vis rest. collect_loop pl buf fs = Inr (buf', vis, rest) \<and> map raw (vis @ rest) = map raw fs \<and>
    list_all frame_ok (vis @ rest) \<and> (fs \<noteq> [] \<and> length buf < pl \<longrightarrow> vis \<noteq> [])"
  using assms
proof (induction fs arbitrary: buf)
  case (Cons f fs)
  show ?case
  proof (cases "length buf < pl")
    case True
    define hi where "hi = min (pl - length buf + sigHdrSize) (frameLen f)"
    have g: "gslice sigHdrSize hi (raw f) = Inr (slice sigHdrSize hi (raw f))"
      using Cons.prems by (intro gslice_ok) (auto simp: hi_def frame_ok_def sigHdrSize_def)
    obtain buf' vis rest where "collect_loop pl (buf @ slice sigHdrSize hi (raw f)) fs = Inr (buf', vis, rest)"
      "map raw (vis @ rest) = map raw fs" "list_all frame_ok (vis @ rest)"
      using Cons.IH [of "buf @ slice sigHdrSize hi (raw f)"] Cons.prems by auto
    with g True Cons.prems show ?thesis by (auto simp: Let_def hi_def)
  next
    case False
    with Cons.prems show ?thesis by simp
  qed
qed simp

definition rlist_inv :: "rlist \<Rightarrow> bool" where
  "rlist_inv l \<longleftrightarrow> list_all frame_ok (rentries l) \<and> length (rentries l) \<le> capacity l \<and> 0 < capacity l"

text \<open>The buffers of frames, by their contents, which no operation changes.\<close>

definition bufs_of :: "frame_buf list \<Rightarrow> bytes multiset" where
  "bufs_of fs = mset (map raw fs)"

lemma bufs_of_simps [simp]: "bufs_of [] = {#}" "bufs_of (f # fs) = add_mset (raw f) (bufs_of fs)" "bufs_of (fs @ gs) = bufs_of fs + bufs_of gs"
  by (simp_all add: bufs_of_def)

lemma bufs_of_filter: "bufs_of (filter (\<lambda>f. \<not> P f) fs) + bufs_of (filter P fs) = bufs_of fs"
  by (induction fs) auto

lemma size_bufs_of: "size (bufs_of fs) = length fs"
  by (simp add: bufs_of_def)

lemma mset_shift: "A' + X = A + L \<Longrightarrow> L + R = add_mset x X \<Longrightarrow> A' + R = add_mset x (A :: 'a multiset)"
proof -
  assume a: "A' + X = A + L" "L + R = add_mset x X"
  have "(A' + R) + X = A + (L + R)" using a(1) by (metis add.assoc add.commute)
  also have "\<dots> = add_mset x A + X" using a(2) by simp
  finally show ?thesis by (rule add_right_imp_eq)
qed

text \<open>An operation on a list returns without a panic, keeps the invariant, and accounts for every frame: those it was given
  are in the list or released.\<close>

definition accounts :: "rlist \<Rightarrow> frame_buf list \<Rightarrow> rlist_result \<Rightarrow> bool" where
  "accounts l fs res \<longleftrightarrow> (\<exists>l' sent rel. res = Inr (l', sent, rel) \<and> rlist_inv l' \<and> capacity l' = capacity l \<and>
     bufs_of (rentries l' @ rel) = bufs_of fs)"

lemma insertFirst_accounts:
  assumes "rentries l = []" "0 < capacity l" "frame_ok f"
  shows "accounts l [f] (insertFirst l f)"
proof -
  obtain f' sent where "ProcessCompletePkts f = Inr (f', sent)" "frame_ok f'" "raw f' = raw f" by (rule ProcessCompletePkts_total [OF assms(3)])
  with assms show ?thesis by (simp add: insertFirst_def accounts_def rlist_inv_def)
qed

lemma removal_accounts:
  assumes "rlist_inv l" "frame_ok f"
  shows "accounts l (rentries l @ [f]) (insert_after_removal l f)"
proof -
  have "accounts (l\<lparr>rentries := []\<rparr>) [f] (insertFirst (l\<lparr>rentries := []\<rparr>) f)"
    by (rule insertFirst_accounts) (use assms in \<open>auto simp: rlist_inv_def\<close>)
  then show ?thesis by (auto simp: accounts_def insert_after_removal_def removeAll_def)
qed

lemma collectAndWrite_accounts:
  assumes "rlist_inv l" "rentries l = s # f # fs" "frag0Start s \<noteq> 0"
  shows "accounts l (rentries l) (collectAndWrite l)"
proof -
  have s: "frame_ok s" "list_all frame_ok (f # fs)" using assms(1,2) by (auto simp: rlist_inv_def)
  have g: "gslice (frag0Start s) (frameLen s) (raw s) = Inr (slice (frag0Start s) (frameLen s) (raw s))"
    "length (slice (frag0Start s) (frameLen s) (raw s)) < pktLen s" using s(1) assms(3) by (auto simp: frame_ok_def)
  obtain buf vis rest where c: "collect_loop (pktLen s) (slice (frag0Start s) (frameLen s) (raw s)) (f # fs) = Inr (buf, vis, rest)"
    "map raw (vis @ rest) = map raw (f # fs)" "list_all frame_ok (vis @ rest)" "vis \<noteq> []"
    using collect_loop_total [OF s(2), of "pktLen s" "slice (frag0Start s) (frameLen s) (raw s)"] g(2) by blast
  have "frame_ok (last vis)" using c(3,4) by (auto simp: list_all_iff)
  then obtain v sent where v: "ProcessCompletePkts (last vis) = Inr (v, sent)" "frame_ok v" "raw v = raw (last vis)" by (rule ProcessCompletePkts_total)
  define es where "es = SetProcessed s # butlast vis @ [v] @ rest"
  have r: "map raw es = map raw (rentries l)"
    using c(2,4) assms(2) v(3) by (cases vis rule: rev_cases) (auto simp: es_def SetProcessed_def)
  have es: "bufs_of es = bufs_of (rentries l)" "length es = length (rentries l)"
    using r by (simp add: bufs_of_def del: mset_map) (rule map_eq_imp_length_eq [OF r])
  have ok: "list_all frame_ok es" using c(3,4) s(1) v(2) by (cases vis rule: rev_cases) (auto simp: es_def list_all_iff)
  have "collectAndWrite l = Inr (l\<lparr>rentries := filter (\<lambda>f. \<not> Processed f) es\<rparr>, (if length buf \<noteq> pktLen s then [] else [buf]) @ sent, filter Processed es)"
    using assms(2) g(1) c(1,4) v(1) by (simp add: collectAndWrite_def removeProcessed_def es_def Let_def del: collect_loop.simps)
  moreover have "length (filter (\<lambda>f. \<not> Processed f) es) \<le> capacity l" using es(2) assms(1) length_filter_le [of "\<lambda>f. \<not> Processed f" es] by (simp add: rlist_inv_def)
  ultimately show ?thesis using es ok bufs_of_filter [of Processed es] assms(1) unfolding accounts_def rlist_inv_def by (auto simp: list_all_iff)
qed

lemma tryReassemble_accounts:
  assumes "rlist_inv l"
  shows "accounts l (rentries l) (tryReassemble l)"
proof -
  have same: "accounts l (rentries l) (Inr (l, [], []))" using assms by (simp add: accounts_def)
  show ?thesis
  proof (cases "\<exists>s f fs. rentries l = s # f # fs")
    case True
    then obtain s f fs where e: "rentries l = s # f # fs" by blast
    have lst: "frame_ok (last (rentries l))" using assms e by (auto simp: rlist_inv_def list_all_iff)
    have "bufs_of ([last (rentries l)] @ butlast (rentries l)) = bufs_of (butlast (rentries l) @ [last (rentries l)])" by simp
    also have "\<dots> = bufs_of (rentries l)" using e by (simp only: append_butlast_last_id list.distinct not_False_eq_True)
    finally have bl: "bufs_of ([last (rentries l)] @ butlast (rentries l)) = bufs_of (rentries l)" .
    show ?thesis using collectAndWrite_accounts [OF assms e] same assms lst bl
      by (cases "frag0Start s = 0"; cases "scan_loop (pktLen s) (int (frameLen s) - int (frag0Start s)) (f # fs)")
        (auto simp: tryReassemble_def e accounts_def rlist_inv_def removeAll_def removeBeforeBack_def simp del: scan_loop.simps)
  next
    case False
    then have "tryReassemble l = Inr (l, [], [])" by (auto simp: tryReassemble_def split: list.splits)
    with same show ?thesis by simp
  qed
qed

lemma rlist_Insert_accounts:
  assumes "rlist_inv l" "frame_ok f"
  shows "accounts l (rentries l @ [f]) (rlist_Insert l f)"
proof (cases "rentries l = []")
  case True
  then show ?thesis using insertFirst_accounts [OF True _ assms(2)] assms(1) by (simp add: rlist_Insert_def rlist_inv_def)
next
  case False
  have "accounts (l\<lparr>rentries := rentries l @ [f]\<rparr>) (rentries l @ [f]) (tryReassemble (l\<lparr>rentries := rentries l @ [f]\<rparr>))"
    if "length (rentries l) \<noteq> capacity l"
    using tryReassemble_accounts [of "l\<lparr>rentries := rentries l @ [f]\<rparr>"] assms that by (simp add: rlist_inv_def)
  then show ?thesis using False removal_accounts [OF assms] assms by (auto simp: rlist_Insert_def Let_def accounts_def)
qed


section \<open>Workers\<close>

text \<open>The frames in the reassembly lists of a worker.\<close>

definition held :: "worker \<Rightarrow> frame_buf list" where
  "held w = concat (map (\<lambda>(ep, l). rentries l) (rlists w))"

definition worker_inv :: "worker \<Rightarrow> bool" where
  "worker_inv w \<longleftrightarrow> distinct (map fst (rlists w)) \<and>
     (\<forall>(ep, l) \<in> set (rlists w). rlist_inv l \<and> capacity l = reassemblyListCap)"

lemma held_update:
  assumes "distinct (map fst al)"
  shows "bufs_of (concat (map (\<lambda>(ep, l). rentries l) (AList.update k v al))) + bufs_of (case map_of al k of None \<Rightarrow> [] | Some l \<Rightarrow> rentries l) =
    bufs_of (concat (map (\<lambda>(ep, l). rentries l) al)) + bufs_of (rentries v)"
  using assms
proof (induction al)
  case (Cons x al)
  then show ?case by (cases x; cases "fst x = k") (auto split: option.splits dest: map_of_SomeD)
qed simp

lemma in_set_update: "x \<in> set (AList.update k v al) \<Longrightarrow> x = (k, v) \<or> x \<in> set al"
  by (induction al) (auto split: if_splits)

lemma getRlist_inv:
  assumes "worker_inv w"
  shows "rlist_inv (getRlist w ep) \<and> capacity (getRlist w ep) = reassemblyListCap \<and>
    rentries (getRlist w ep) = (case map_of (rlists w) ep of None \<Rightarrow> [] | Some l \<Rightarrow> rentries l)"
  using assms by (fastforce simp: worker_inv_def getRlist_def newReassemblyList_def rlist_inv_def reassemblyListCap_def
      split: option.splits dest: map_of_SomeD)

text \<open>A frame as the server hands it over.\<close>

definition fresh :: "frame_buf \<Rightarrow> bool" where
  "fresh f \<longleftrightarrow> 16 \<le> frameLen f \<and> frameLen f \<le> length (raw f) \<and> frag0Start f = 0"

lemma read_header_total:
  assumes "fresh f"
  obtains ep f' where "read_header f = Inr (ep, f')" "frame_ok f'" "raw f' = raw f"
  using that assms by (simp add: read_header_def frame_ok_def fresh_def Let_def)

lemma processFrame_total:
  assumes "worker_inv w" "fresh f"
  shows "\<exists>w' sent rel. processFrame w f = Inr (w', sent, rel) \<and> worker_inv w' \<and> wring w' = wring w \<and>
    bufs_of (held w' @ rel) = bufs_of (f # held w)"
proof -
  obtain ep f' where f': "read_header f = Inr (ep, f')" "frame_ok f'" "raw f' = raw f" by (rule read_header_total [OF assms(2)])
  note g = getRlist_inv [OF assms(1), of ep]
  from rlist_Insert_accounts [OF _ f'(2), of "getRlist w ep"] g obtain l sent rel where
    l: "rlist_Insert (getRlist w ep) f' = Inr (l, sent, rel)" "rlist_inv l" "capacity l = reassemblyListCap"
      "bufs_of (rentries l @ rel) = bufs_of (rentries (getRlist w ep) @ [f'])" by (auto simp: accounts_def)
  define w' where "w' = w\<lparr>rlists := AList.update ep l (rlists w)\<rparr>"
  have d: "distinct (map fst (rlists w))" using assms(1) by (simp add: worker_inv_def)
  have "processFrame w f = Inr (w', sent, rel)" "wring w' = wring w" using f' l(1) by (simp_all add: processFrame_def w'_def)
  moreover have "worker_inv w'"
    using assms(1) l(2,3) d unfolding worker_inv_def w'_def by (auto simp: distinct_update dest!: in_set_update)
  moreover have "bufs_of (held w' @ rel) = bufs_of (f # held w)"
    using mset_shift [of "bufs_of (held w')" "bufs_of (rentries (getRlist w ep))" "bufs_of (held w)" "bufs_of (rentries l)" "bufs_of rel" "raw f"]
      held_update [OF d, of ep l] l(4) g f'(3) by (simp add: held_def w'_def)
  ultimately show ?thesis by blast
qed

lemma process_frames_total:
  assumes "worker_inv w" "list_all fresh fs"
  shows "\<exists>w' sent rel. process_frames w fs = Inr (w', sent, rel) \<and> worker_inv w' \<and> wring w' = wring w \<and> bufs_of (held w' @ rel) = bufs_of (held w @ fs)"
  using assms
proof (induction fs arbitrary: w)
  case (Cons f fs)
  obtain w1 s1 r1 where 1: "processFrame w f = Inr (w1, s1, r1)" "worker_inv w1" "wring w1 = wring w" "bufs_of (held w1 @ r1) = bufs_of (f # held w)"
    using processFrame_total [OF Cons.prems(1), of f] Cons.prems(2) by auto
  obtain w2 s2 r2 where 2: "process_frames w1 fs = Inr (w2, s2, r2)" "worker_inv w2" "wring w2 = wring w1" "bufs_of (held w2 @ r2) = bufs_of (held w1 @ fs)"
    using Cons.IH [OF 1(2)] Cons.prems(2) by auto
  then have "bufs_of (held w2 @ r1 @ r2) = bufs_of (held w @ f # fs)" using 1(4) by (auto simp: ac_simps)
  with 1 2 show ?case by auto
qed simp

section \<open>The server, its workers and the pool of buffers\<close>

text \<open>The buffers that are somewhere: in the pool, in the current batch, or with a worker, on its ring or in its lists.\<close>

definition worker_bufs :: "worker \<Rightarrow> nat" where
  "worker_bufs w = readable (wring w) + length (held w)"

definition buffers :: "server \<Rightarrow> nat" where
  "buffers s = readable (srvPool s) + length (srvFrames s) + sum_list (map (\<lambda>(k, w). worker_bufs w) (srvWorkers s)) + sum_list (map worker_bufs (srvStopping s))"

text \<open>A frame of an ISD-AS for which there is no device handle.\<close>

fun undeliverable :: "(u64 \<Rightarrow> bool) \<Rightarrow> ingress_event \<Rightarrow> bool" where
  "undeliverable device (Read (ReadFrame data (Some src))) \<longleftrightarrow> sigHdrSize \<le> length data \<and> data ! 0 = 0 \<and> \<not> device (fst src)"
| "undeliverable device _ \<longleftrightarrow> False"

definition full_size :: "frame_buf \<Rightarrow> bool" where
  "full_size f \<longleftrightarrow> length (raw f) = frameBufCap"

definition unused :: "frame_buf \<Rightarrow> bool" where
  "unused f \<longleftrightarrow> full_size f \<and> frag0Start f = 0"

definition ring_all :: "(frame_buf \<Rightarrow> bool) \<Rightarrow> frame_buf ring \<Rightarrow> bool" where
  "ring_all P r \<longleftrightarrow> (\<exists>xs. ring_holds r xs \<and> list_all P xs)"

definition worker_ok :: "worker \<Rightarrow> bool" where
  "worker_ok w \<longleftrightarrow> worker_inv w \<and> ring_all (\<lambda>f. fresh f \<and> full_size f) (wring w) \<and> list_all full_size (held w)"

definition server_inv :: "(u64 \<Rightarrow> bool) \<Rightarrow> server \<Rightarrow> bool" where
  "server_inv device s \<longleftrightarrow> ring_all unused (srvPool s) \<and> \<not> closed (srvPool s) \<and> (\<exists>bs. srvFrames s = map Some bs \<and> list_all unused bs) \<and>
     distinct (map fst (srvWorkers s)) \<and> (\<forall>(k, w) \<in> set (srvWorkers s). worker_ok w \<and> \<not> closed (wring w) \<and> device (fst k)) \<and>
     (\<forall>w \<in> set (srvStopping s). worker_ok w) \<and> (\<forall>m. srvErr s \<noteq> Some (Panic m))"

lemma ring_Write_one:
  assumes "ring_all P r" "P x" "\<not> closed r" "ring_Write [x] True r = Some (r', n)"
  shows "ring_all P r' \<and> \<not> closed r' \<and> readable r' = readable r + 1"
proof -
  obtain xs where xs: "ring_holds r xs" "list_all P xs" using assms(1) by (auto simp: ring_all_def)
  have n: "n = 1" using assms(3,4) by (auto simp: ring_Write_def Let_def split: if_splits)
  have "ring_holds r' (xs @ [x])" "\<not> closed r'" using ring_Write_holds [OF xs(1) assms(4)] assms(3) n by auto
  moreover have "readable r' = length (xs @ [x])" "readable r = length xs" using calculation xs(1) by (simp_all only: ring_holds_def)
  ultimately show ?thesis using xs(2) assms(2) by (auto simp: ring_all_def)
qed

lemma ring_Read_all:
  assumes "ring_all P r" "ring_Read m True r = Some (r', out, n)"
  obtains ys where "out = map Some ys" "list_all P ys" "ring_all P r'" "closed r' = closed r" "readable r = readable r' + length ys"
    "0 < m \<and> \<not> closed r \<Longrightarrow> ys \<noteq> []"
proof -
  obtain xs where xs: "ring_holds r xs" "list_all P xs" using assms(1) by (auto simp: ring_all_def)
  then obtain ys zs where y: "out = map Some ys" "xs = ys @ zs" "ring_holds r' zs" "closed r' = closed r" "nat n = length ys" "n = -1 \<longleftrightarrow> closed r \<and> xs = []" 
      "0 < m \<longrightarrow> n \<noteq> 0" "0 < m \<and> xs \<noteq> [] \<longrightarrow> 0 < n"
    using ring_Read_holds [OF xs(1) assms(2)] by blast
  have "readable r = length xs" "readable r' = length zs" using xs(1) y(3) by (simp_all only: ring_holds_def)
  moreover have "ys \<noteq> []" if "0 < m \<and> \<not> closed r"
  proof (cases "xs = []")
    case True
    then have "ring_Read m True r = None" using that calculation by (simp add: ring_Read_def)
    then show ?thesis using assms(2) by simp
  qed (use y that in auto)
  ultimately show thesis using that y xs(2) by (auto simp: ring_all_def)
qed

lemma unused_Reset: "full_size f \<Longrightarrow> unused (frame_Reset f)"
  by (simp add: unused_def full_size_def frame_Reset_def)

lemma release_all_pool:
  assumes "ring_all unused pool" "\<not> closed pool" "list_all full_size fs" "release_all fs pool = Some p"
  shows "ring_all unused p \<and> \<not> closed p \<and> readable p = readable pool + length fs"
  using assms
proof (induction fs arbitrary: pool)
  case (Cons f fs)
  then obtain q n where q: "ring_Write [frame_Reset f] True pool = Some (q, n)" "release_all fs q = Some p"
    by (auto simp: frame_Release_def bind_eq_Some_conv)
  have "ring_all unused q \<and> \<not> closed q \<and> readable q = readable pool + 1"
    by (rule ring_Write_one [OF Cons.prems(1) _ Cons.prems(2) q(1)]) (use Cons.prems(3) unused_Reset in simp)
  with Cons.IH [OF _ _ _ q(2)] Cons.prems(3) show ?case by simp
qed simp

lemma bufs_of_full: "bufs_of fs = bufs_of gs \<Longrightarrow> list_all full_size fs \<longleftrightarrow> list_all full_size gs"
proof -
  have "list_all full_size xs \<longleftrightarrow> (\<forall>b\<in>#bufs_of xs. length b = frameBufCap)" for xs
    by (auto simp: bufs_of_def list_all_iff full_size_def)
  then show "bufs_of fs = bufs_of gs \<Longrightarrow> ?thesis" by simp
qed

lemma worker_round_ok:
  assumes "worker_ok w" "worker_round w = Some res"
  shows "\<exists>w' sent rel. res = Inr (w', sent, rel) \<and> worker_ok w' \<and> closed (wring w') = closed (wring w) \<and> list_all full_size rel \<and>
    worker_bufs w' + length rel = worker_bufs w"
proof -
  have w: "worker_inv w" "ring_all (\<lambda>f. fresh f \<and> full_size f) (wring w)" "list_all full_size (held w)" using assms(1) by (simp_all add: worker_ok_def)
  obtain r out n where r: "ring_Read 64 True (wring w) = Some (r, out, n)" "\<not> n < 0" using assms(2) by (auto simp: worker_round_def split: option.splits if_splits)
  obtain ys where y: "out = map Some ys" "list_all (\<lambda>f. fresh f \<and> full_size f) ys" "ring_all (\<lambda>f. fresh f \<and> full_size f) r" "closed r = closed (wring w)"
    "readable (wring w) = readable r + length ys" by (rule ring_Read_all [OF w(2) r(1)])
  let ?w = "w\<lparr>wring := r\<rparr>"
  have res: "res = process_frames ?w ys" using assms(2) r y(1) by (auto simp: worker_round_def)
  have i: "worker_inv ?w" "held ?w = held w" using w(1) by (simp_all add: worker_inv_def held_def)
  obtain w' sent rel where p: "process_frames ?w ys = Inr (w', sent, rel)" "worker_inv w'" "wring w' = r" "bufs_of (held w' @ rel) = bufs_of (held w @ ys)"
    using process_frames_total [OF i(1), of ys] y(2) i(2) by (auto simp: list_all_iff)
  have "list_all full_size (held w' @ rel)" using bufs_of_full [OF p(4)] w(3) y(2) by (auto simp: list_all_iff)
  moreover have "length (held w' @ rel) = length (held w @ ys)" using arg_cong [OF p(4), of size] by (simp only: size_bufs_of)
  ultimately show ?thesis using p y res by (simp add: worker_ok_def worker_bufs_def)
qed

lemma worker_cleanup_ok:
  assumes "worker_ok w" "worker_cleanup w = (w', rel)"
  shows "worker_ok w' \<and> wring w' = wring w \<and> list_all full_size rel \<and> worker_bufs w' + length rel = worker_bufs w"
proof -
  have l: "concat (map (\<lambda>(ep, l). rentries l) (map (\<lambda>(ep, l). (ep, l\<lparr>markedForDeletion := True\<rparr>)) ls)) = concat (map (\<lambda>(ep, l). rentries l) ls)" for ls
    by (induction ls) auto
  have h: "held w' = concat (map (\<lambda>(ep, l). rentries l) (filter (\<lambda>(ep, l). \<not> markedForDeletion l) (rlists w)))"
    "rel = concat (map (\<lambda>(ep, l). rentries l) (filter (\<lambda>(ep, l). markedForDeletion l) (rlists w)))" "wring w' = wring w"
    using assms(2) unfolding worker_cleanup_def by (auto simp: held_def l simp del: map_map)
  have "length (concat (map (\<lambda>(ep, l). rentries l) (filter (\<lambda>(ep, l). \<not> markedForDeletion l) ls))) +
      length (concat (map (\<lambda>(ep, l). rentries l) (filter (\<lambda>(ep, l). markedForDeletion l) ls))) = length (concat (map (\<lambda>(ep, l). rentries l) ls))" for ls :: "(nat \<times> rlist) list"
    by (induction ls) auto
  then have "length (held w') + length rel = length (held w)" unfolding h by (simp add: held_def)
  moreover have "list_all full_size (held w')" "list_all full_size rel"
    using assms(1) unfolding h worker_ok_def by (fastforce simp: list_all_iff held_def)+
  moreover have "worker_inv w'"
  proof -
    have i: "distinct (map fst (rlists w))" "\<And>ep l. (ep, l) \<in> set (rlists w) \<Longrightarrow> rlist_inv l \<and> capacity l = reassemblyListCap"
      using assms(1) by (auto simp: worker_ok_def worker_inv_def)
    have w': "rlists w' = map (\<lambda>(ep, l). (ep, l\<lparr>markedForDeletion := True\<rparr>)) (filter (\<lambda>(ep, l). \<not> markedForDeletion l) (rlists w))"
      using assms(2) by (auto simp: worker_cleanup_def)
    show ?thesis unfolding worker_inv_def w' using i by (auto simp: rlist_inv_def comp_def case_prod_beta distinct_map_filter)
  qed
  ultimately show ?thesis using assms(1) h(3) by (simp add: worker_ok_def worker_bufs_def)
qed

lemma sum_update:
  fixes f :: "'w \<Rightarrow> nat"
  assumes "distinct (map fst al)"
  shows "sum_list (map (\<lambda>(k, w). f w) (AList.update k v al)) + (case map_of al k of None \<Rightarrow> 0 | Some w \<Rightarrow> f w) = sum_list (map (\<lambda>(k, w). f w) al) + f v"
  using assms
proof (induction al)
  case (Cons x al)
  then show ?case by (cases x; cases "fst x = k") (auto split: option.splits dest: map_of_SomeD)
qed simp

lemma put_worker_ok:
  assumes "server_inv device s" "map_of (srvWorkers s) k = Some w" "worker_ok w'" "closed (wring w') = closed (wring w)"
    "ring_all unused p" "\<not> closed p" "readable p + worker_bufs w' = readable (srvPool s) + worker_bufs w"
  shows "server_inv device (put_worker k w' (s\<lparr>srvPool := p\<rparr>)) \<and> buffers (put_worker k w' (s\<lparr>srvPool := p\<rparr>)) = buffers s"
proof -
  have d: "distinct (map fst (srvWorkers s))" using assms(1) by (simp add: server_inv_def)
  have "(k, w) \<in> set (srvWorkers s)" using assms(2) by (rule map_of_SomeD)
  then have "\<not> closed (wring w) \<and> device (fst k)" using assms(1) by (fastforce simp: server_inv_def)
  then have "server_inv device (put_worker k w' (s\<lparr>srvPool := p\<rparr>))"
    using assms by (auto simp: server_inv_def put_worker_def distinct_update dest!: in_set_update)
  moreover have "buffers (put_worker k w' (s\<lparr>srvPool := p\<rparr>)) = buffers s"
    using sum_update [OF d, of worker_bufs k w'] assms(2,7) by (simp add: buffers_def put_worker_def)
  ultimately show ?thesis ..
qed

lemma Round_ok:
  assumes "server_inv device s" "ingress_step device (Round k) s = Some s'"
  shows "server_inv device s' \<and> buffers s' = buffers s \<and> srvErr s' = srvErr s"
proof -
  obtain w where w: "map_of (srvWorkers s) k = Some w" "worker_turn w (put_worker k) s = Some s'" using assms(2) by (auto simp: bind_eq_Some_conv)
  have i: "ring_all unused (srvPool s)" "\<not> closed (srvPool s)" "worker_ok w" using assms(1) map_of_SomeD [OF w(1)] by (auto simp: server_inv_def)
  obtain res where res: "worker_round w = Some res" using w(2) by (auto simp: worker_turn_def bind_eq_Some_conv)
  obtain w' sent rel where r: "res = Inr (w', sent, rel)" "worker_ok w'" "closed (wring w') = closed (wring w)" "list_all full_size rel"
    "worker_bufs w' + length rel = worker_bufs w" using worker_round_ok [OF i(3) res] by blast
  obtain p where p: "release_all rel (srvPool s) = Some p" "s' = put_worker k w' (s\<lparr>srvPool := p\<rparr>)" using w(2) res r(1) by (auto simp: worker_turn_def)
  note q = release_all_pool [OF i(1,2) r(4) p(1)]
  show ?thesis using put_worker_ok [OF assms(1) w(1) r(2,3), of p] q r(5) p(2) by (simp add: put_worker_def)
qed

lemma Lists_ok:
  assumes "server_inv device s" "ingress_step device (Lists k) s = Some s'"
  shows "server_inv device s' \<and> buffers s' = buffers s \<and> srvErr s' = srvErr s"
proof -
  obtain w where w: "map_of (srvWorkers s) k = Some w" using assms(2) by (auto simp: bind_eq_Some_conv)
  obtain w' rel where c: "worker_cleanup w = (w', rel)" by fastforce
  obtain p where p: "release_all rel (srvPool s) = Some p" "s' = put_worker k w' (s\<lparr>srvPool := p\<rparr>)" using assms(2) w c by auto
  have i: "ring_all unused (srvPool s)" "\<not> closed (srvPool s)" "worker_ok w" using assms(1) map_of_SomeD [OF w] by (auto simp: server_inv_def)
  note r = worker_cleanup_ok [OF i(3) c]
  have q: "ring_all unused p \<and> \<not> closed p \<and> readable p = readable (srvPool s) + length rel" by (rule release_all_pool [OF i(1,2) _ p(1)]) (use r in simp)
  show ?thesis using put_worker_ok [OF assms(1) w, of w' p] q r p(2) by (simp add: put_worker_def)
qed

lemma Drain_ok:
  assumes "server_inv device s" "ingress_step device (Drain i) s = Some s'"
  shows "server_inv device s' \<and> buffers s' = buffers s \<and> srvErr s' = srvErr s"
proof -
  let ?w = "srvStopping s ! i"
  have w: "i < length (srvStopping s)" "worker_turn ?w (\<lambda>w s. s\<lparr>srvStopping := (srvStopping s)[i := w]\<rparr>) s = Some s'" using assms(2) by (auto split: if_splits)
  have ok: "ring_all unused (srvPool s)" "\<not> closed (srvPool s)" "worker_ok ?w" using assms(1) w(1) by (auto simp: server_inv_def)
  obtain res where res: "worker_round ?w = Some res" using w(2) by (auto simp: worker_turn_def bind_eq_Some_conv)
  obtain w' sent rel where r: "res = Inr (w', sent, rel)" "worker_ok w'" "list_all full_size rel"
    "worker_bufs w' + length rel = worker_bufs ?w" using worker_round_ok [OF ok(3) res] by blast
  obtain p where p: "release_all rel (srvPool s) = Some p" "s' = s\<lparr>srvPool := p, srvStopping := (srvStopping s)[i := w']\<rparr>"
    using w(2) res r(1) by (auto simp: worker_turn_def)
  note q = release_all_pool [OF ok(1,2) r(3) p(1)]
  have "sum_list (map worker_bufs ((srvStopping s)[i := w'])) + worker_bufs ?w = sum_list (map worker_bufs (srvStopping s)) + worker_bufs w'"
    using w(1) member_le_sum_list [of "worker_bufs ?w" "map worker_bufs (srvStopping s)"] by (simp add: map_update sum_list_update)
  then have "buffers s' = buffers s" using q r(4) by (simp add: p(2) buffers_def)
  moreover have "server_inv device s'" using assms(1) q r(2) by (auto simp: p(2) server_inv_def dest!: set_update_subset_insert [THEN subsetD])
  ultimately show ?thesis by (simp add: p(2))
qed

lemma ring_Close_ok: "worker_ok w \<Longrightarrow> worker_ok (w\<lparr>wring := ring_Close (wring w)\<rparr>)" "worker_bufs (w\<lparr>wring := ring_Close (wring w)\<rparr>) = worker_bufs w"
  by (simp_all add: worker_ok_def worker_inv_def ring_all_def ring_holds_def ring_Close_def held_def worker_bufs_def)

lemma marked_ok [simp]: "worker_ok (w\<lparr>markedForCleanup := b\<rparr>) = worker_ok w" "worker_bufs (w\<lparr>markedForCleanup := b\<rparr>) = worker_bufs w"
  by (simp_all add: worker_ok_def worker_inv_def held_def worker_bufs_def)

lemma Cleanup_ok:
  assumes "server_inv device s" "ingress_step device Cleanup s = Some s'"
  shows "server_inv device s' \<and> buffers s' = buffers s \<and> srvErr s' = srvErr s"
proof -
  have s': "s' = server_cleanup s" using assms(2) by (auto split: if_splits)
  have "sum_list (map (\<lambda>(k, w). worker_bufs w) (map (\<lambda>(k, w). (k, w\<lparr>markedForCleanup := True\<rparr>)) (filter (\<lambda>(k, w). \<not> markedForCleanup w) ws))) +
      sum_list (map worker_bufs (map (\<lambda>(k, w). w\<lparr>wring := ring_Close (wring w)\<rparr>) (filter (\<lambda>(k, w). markedForCleanup w) ws))) =
      sum_list (map (\<lambda>(k, w). worker_bufs w) ws)" for ws :: "(worker_key \<times> worker) list"
    by (induction ws) (auto simp: ring_Close_ok(2))
  then have "buffers s' = buffers s" by (simp add: s' buffers_def server_cleanup_def del: map_map)
  moreover have "server_inv device s'"
    using assms(1) unfolding s' server_inv_def server_cleanup_def
    by (fastforce simp: comp_def case_prod_beta distinct_map_filter ring_Close_ok(1))
  ultimately show ?thesis by (simp add: s' server_cleanup_def)
qed

lemma newWorker_ok: "worker_ok newWorker" "worker_bufs newWorker = 0" "\<not> closed (wring newWorker)"
  by (auto simp: worker_ok_def worker_inv_def newWorker_def ring_all_def held_def worker_bufs_def ring_New_holds intro!: exI [of _ "[]"]) (simp_all add: ring_New_def)

lemma dispatch_ok:
  assumes "server_inv device s" "fresh fb" "full_size fb" "dispatch device fb src s = Some s'"
  shows "server_inv device s' \<and> srvErr s' = srvErr s \<and> buffers s' = buffers s + (if device (fst src) then 1 else 0)"
proof -
  define k where "k = (fst src, snd src, sessId fb)"
  define w where "w = (case map_of (srvWorkers s) k of Some w \<Rightarrow> w | None \<Rightarrow> newWorker)"
  have known: "worker_ok w' \<and> \<not> closed (wring w') \<and> device (fst src)" if "map_of (srvWorkers s) k = Some w'" for w'
    using assms(1) map_of_SomeD [OF that] by (auto simp: server_inv_def k_def)
  show ?thesis
  proof (cases "map_of (srvWorkers s) k = None \<and> \<not> device (fst src)")
    case True
    then have "s' = s" using assms(4) by (simp add: dispatch_def k_def)
    with True assms(1) show ?thesis by simp
  next
    case False
    then have d: "device (fst src)" "worker_ok w" "\<not> closed (wring w)" "worker_bufs w = (case map_of (srvWorkers s) k of None \<Rightarrow> 0 | Some w \<Rightarrow> worker_bufs w)"
      using known newWorker_ok by (auto simp: w_def split: option.splits)
    from False obtain r n where r: "ring_Write [fb] True (wring w) = Some (r, n)"
      "s' = s\<lparr>srvWorkers := AList.update k (w\<lparr>markedForCleanup := False, wring := r\<rparr>) (srvWorkers s)\<rparr>"
      using assms(4) by (auto simp: dispatch_def Let_def w_def k_def split: option.splits if_splits)
    let ?w = "w\<lparr>markedForCleanup := False, wring := r\<rparr>"
    have q: "ring_all (\<lambda>f. fresh f \<and> full_size f) r \<and> \<not> closed r \<and> readable r = readable (wring w) + 1"
      by (rule ring_Write_one [OF _ _ d(3) r(1)]) (use d(2) assms(2,3) in \<open>simp_all add: worker_ok_def\<close>)
    then have w': "worker_ok ?w" "worker_bufs ?w = worker_bufs w + 1" "\<not> closed (wring ?w)"
      using d(2) by (simp_all add: worker_ok_def worker_bufs_def worker_inv_def held_def)
    have dist: "distinct (map fst (srvWorkers s))" using assms(1) by (simp add: server_inv_def)
    have "server_inv device s'" using assms(1) w' d(1) unfolding r(2) by (auto simp: server_inv_def distinct_update k_def dest!: in_set_update)
    moreover have "buffers s' = buffers s + 1" using sum_update [OF dist, of worker_bufs k ?w] w'(2) d(4) by (simp add: r(2) buffers_def)
    ultimately show ?thesis using d(1) r(2) by simp
  qed
qed

lemma server_read_ok:
  assumes "server_inv device s" "unused fb" "server_read device fb r s = Some res"
  shows "case res of
      Inl e \<Rightarrow> (\<exists>m. e = Err m) \<and> \<not> undeliverable device (Read r)
    | Inr s' \<Rightarrow> server_inv device s' \<and> srvErr s' = srvErr s \<and> buffers s' + (if undeliverable device (Read r) then 1 else 0) = buffers s + 1"
proof (cases r)
  case (ReadError disp)
  show ?thesis
  proof (cases disp)
    case True
    then show ?thesis using assms(3) ReadError by (auto simp: server_read_def)
  next
    case False
    then obtain p n where p: "ring_Write [frame_Reset fb] True (srvPool s) = Some (p, n)" "res = Inr (s\<lparr>srvPool := p\<rparr>)"
      using assms(3) ReadError by (auto simp: server_read_def frame_Release_def)
    have "ring_all unused p \<and> \<not> closed p \<and> readable p = readable (srvPool s) + 1"
      by (rule ring_Write_one [OF _ _ _ p(1)]) (use assms(1,2) unused_Reset in \<open>simp_all add: server_inv_def unused_def\<close>)
    then show ?thesis using p(2) assms(1) ReadError by (auto simp: server_inv_def buffers_def)
  qed
next
  case (ReadFrame data src)
  let ?raw = "go_copy (raw fb) data" and ?n = "min (length (raw fb)) (length data)"
  have l: "length ?raw = frameBufCap" "length (raw fb) = frameBufCap" using assms(2) by (simp_all add: unused_def full_size_def)
  have n: "sigHdrSize \<le> ?n \<longleftrightarrow> sigHdrSize \<le> length data" "?n \<le> frameBufCap" "min frameBufCap (length data) < sigHdrSize \<longleftrightarrow> length data < sigHdrSize"
    unfolding l by (auto simp: sigHdrSize_def frameBufCap_def)
  have z: "?raw ! 0 = data ! 0" if "sigHdrSize \<le> length data"
    using that l(2) by (cases data) (simp_all add: go_copy_def nth_append sigHdrSize_def frameBufCap_def)
  show ?thesis
  proof (cases src)
    case None
    then show ?thesis using assms(3) ReadFrame by (auto simp: server_read_def Let_def)
  next
    case (Some v)
    let ?fb = "fb\<lparr>raw := ?raw, frameLen := ?n, sessId := ?raw ! 1\<rparr>"
    show ?thesis
    proof (cases "sigHdrSize \<le> length data \<and> data ! 0 = 0")
      case True
      then obtain s' where s': "res = Inr s'" "dispatch device ?fb v s = Some s'"
        using assms(3) ReadFrame Some n(3) z l by (auto simp: server_read_def Let_def)
      have "fresh ?fb" "full_size ?fb" using True l n assms(2) by (simp_all add: fresh_def full_size_def unused_def sigHdrSize_def)
      from dispatch_ok [OF assms(1) this s'(2)] s'(1) True ReadFrame Some show ?thesis by auto
    next
      case False
      then show ?thesis using assms(3) ReadFrame Some n(3) z l by (auto simp: server_read_def Let_def split: if_splits)
    qed
  qed
qed

text \<open>The server has a buffer to read into, or gets one.\<close>

definition reading :: "server \<Rightarrow> bool" where
  "reading s \<longleftrightarrow> srvErr s = None \<and> (srvFrames s \<noteq> [] \<or> 0 < readable (srvPool s))"

lemma server_turn_reading: "server_turn device r s = Some s' \<Longrightarrow> server_inv device s \<Longrightarrow> reading s"
  by (auto simp: server_turn_def reading_def newFrameBufs_def ring_Read_def server_inv_def split: if_splits)

lemma server_turn_eq:
  assumes "server_inv device s" "reading s"
  obtains pool fb fs where "server_turn device r s = map_option (\<lambda>res. case res of Inl e \<Rightarrow> s\<lparr>srvPool := pool, srvFrames := map Some fs, srvErr := Some e\<rparr> | Inr s \<Rightarrow> s)
      (server_read device fb r (s\<lparr>srvPool := pool, srvFrames := map Some fs\<rparr>))" "unused fb"
    "server_inv device (s\<lparr>srvPool := pool, srvFrames := map Some fs\<rparr>)" "readable pool + length fs + 1 = readable (srvPool s) + length (srvFrames s)"
proof -
  obtain bs where bs: "srvFrames s = map Some bs" "list_all unused bs" using assms(1) by (auto simp: server_inv_def)
  have "\<exists>pool fb fs. (if srvFrames s \<noteq> [] then Some (srvPool s, srvFrames s) else newFrameBufs (srvPool s)) = Some (pool, map Some (fb # fs)) \<and> list_all unused (fb # fs) \<and>
    ring_all unused pool \<and> \<not> closed pool \<and> readable pool + length fs + 1 = readable (srvPool s) + length (srvFrames s)"
  proof (cases bs)
    case Nil
    have i: "ring_all unused (srvPool s)" "\<not> closed (srvPool s)" "0 < readable (srvPool s)" using assms Nil bs by (auto simp: server_inv_def reading_def)
    then obtain pool out n where r: "ring_Read 64 True (srvPool s) = Some (pool, out, n)" 
      by (cases "ring_read (min (readable (srvPool s)) 64) (srvPool s)") (auto simp: ring_Read_def Let_def)
    obtain ys where y: "out = map Some ys" "list_all unused ys" "ring_all unused pool" "closed pool = closed (srvPool s)" "readable (srvPool s) = readable pool + length ys"
      "0 < (64 :: nat) \<and> \<not> closed (srvPool s) \<Longrightarrow> ys \<noteq> []" using ring_Read_all [OF i(1) r] by metis
    from y(6) i(2) obtain fb fs where "ys = fb # fs" by (cases ys) auto
    then show ?thesis using r y i(2) Nil bs by (intro exI [of _ pool] exI [of _ fb] exI [of _ fs]) (auto simp: newFrameBufs_def)
  next
    case (Cons fb fs)
    then show ?thesis using bs assms(1) by (intro exI [of _ "srvPool s"] exI [of _ fb] exI [of _ fs]) (auto simp: server_inv_def)
  qed
  then obtain pool fb fs where f: "(if srvFrames s \<noteq> [] then Some (srvPool s, srvFrames s) else newFrameBufs (srvPool s)) = Some (pool, map Some (fb # fs))"
    "list_all unused (fb # fs)" "ring_all unused pool" "\<not> closed pool" "readable pool + length fs + 1 = readable (srvPool s) + length (srvFrames s)" by blast
  show thesis
  proof (rule that)
    show "server_turn device r s = map_option (\<lambda>res. case res of Inl e \<Rightarrow> s\<lparr>srvPool := pool, srvFrames := map Some fs, srvErr := Some e\<rparr> | Inr s \<Rightarrow> s)
      (server_read device fb r (s\<lparr>srvPool := pool, srvFrames := map Some fs\<rparr>))"
      using assms(2) f(1) by (simp add: server_turn_def reading_def Let_def cong: sum.case_cong)
  qed (use f assms(1) in \<open>auto simp: server_inv_def\<close>)
qed

lemma Read_ok:
  assumes "server_inv device s" "ingress_step device (Read r) s = Some s'"
  shows "server_inv device s' \<and> srvErr s = None \<and>
    buffers s' + (if undeliverable device (Read r) then 1 else 0) + (if srvErr s' = None then 0 else 1) = buffers s"
proof -
  have rd: "reading s" using server_turn_reading assms by simp
  then have n: "srvErr s = None" by (simp add: reading_def)
  obtain pool fb fs where t: "server_turn device r s = map_option (\<lambda>res. case res of Inl e \<Rightarrow> s\<lparr>srvPool := pool, srvFrames := map Some fs, srvErr := Some e\<rparr> | Inr s \<Rightarrow> s)
      (server_read device fb r (s\<lparr>srvPool := pool, srvFrames := map Some fs\<rparr>))" "unused fb"
    "server_inv device (s\<lparr>srvPool := pool, srvFrames := map Some fs\<rparr>)" "readable pool + length fs + 1 = readable (srvPool s) + length (srvFrames s)"
    by (rule server_turn_eq [OF assms(1) rd])
  let ?s = "s\<lparr>srvPool := pool, srvFrames := map Some fs\<rparr>"
  obtain res where res: "server_read device fb r ?s = Some res" "s' = (case res of Inl e \<Rightarrow> ?s\<lparr>srvErr := Some e\<rparr> | Inr s \<Rightarrow> s)"
    using assms(2) t(1) by auto
  have b: "buffers ?s + 1 = buffers s" using t(4) by (simp add: buffers_def)
  show ?thesis
  proof (cases res)
    case (Inl e)
    then show ?thesis using server_read_ok [OF t(3,2) res(1)] res(2) b n t(3) by (auto simp: buffers_def server_inv_def)
  next
    case (Inr x)
    then show ?thesis using server_read_ok [OF t(3,2) res(1)] res(2) b n by simp
  qed
qed

lemma ingress_step_ok:
  assumes "server_inv device s" "ingress_step device e s = Some s'"
  shows "server_inv device s' \<and> (srvErr s \<noteq> None \<longrightarrow> srvErr s' = srvErr s) \<and>
    buffers s' + (if undeliverable device e then 1 else 0) + (if srvErr s' = None then 0 else 1) = buffers s + (if srvErr s = None then 0 else 1)"
proof (cases e)
  case (Read r)
  then show ?thesis using Read_ok [OF assms(1), of r s'] assms(2) by (simp del: ingress_step.simps)
next
  case (Round k)
  then show ?thesis using Round_ok [OF assms(1), of k s'] assms(2) by (simp del: ingress_step.simps)
next
  case (Lists k)
  then show ?thesis using Lists_ok [OF assms(1), of k s'] assms(2) by (simp del: ingress_step.simps)
next
  case Cleanup
  then show ?thesis using Cleanup_ok [OF assms(1), of s'] assms(2) by (simp del: ingress_step.simps)
next
  case (Drain i)
  then show ?thesis using Drain_ok [OF assms(1), of i s'] assms(2) by (simp del: ingress_step.simps)
qed

lemma ingress_run_ok:
  assumes "server_inv device s" "ingress_run device evs s = Some s'"
  shows "server_inv device s' \<and> (srvErr s \<noteq> None \<longrightarrow> srvErr s' = srvErr s) \<and>
    buffers s' + length (filter (undeliverable device) evs) + (if srvErr s' = None then 0 else 1) = buffers s + (if srvErr s = None then 0 else 1)"
  using assms
proof (induction evs arbitrary: s)
  case (Cons e evs)
  then obtain s1 where s1: "ingress_step device e s = Some s1" "ingress_run device evs s1 = Some s'" by (auto simp: bind_eq_Some_conv)
  note a = ingress_step_ok [OF Cons.prems(1) s1(1)]
  from Cons.IH [OF _ s1(2)] a show ?case by (auto split: if_splits)
qed simp

lemma ingress_run_append: "ingress_run device (es @ fs) s = Option.bind (ingress_run device es s) (ingress_run device fs)"
proof (induction es arbitrary: s)
  case (Cons e es)
  then show ?case by (cases "ingress_step device e s") simp_all
qed simp

lemma newServer_ok: "server_inv device newServer" "buffers newServer = freeFramesCap" "srvErr newServer = None" "readable (srvPool newServer) = freeFramesCap"
proof -
  have "ring_holds initFreeFrames (replicate freeFramesCap newFrameBuf)"
    using ring_New_holds(2) [of "replicate freeFramesCap newFrameBuf"] unfolding initFreeFrames_def length_replicate .
  moreover have "list_all unused (replicate freeFramesCap newFrameBuf)" by (simp add: list_all_iff unused_def full_size_def newFrameBuf_def frame_Reset_def)
  ultimately show "server_inv device newServer" by (auto simp: server_inv_def newServer_def ring_all_def) (simp add: initFreeFrames_def ring_New_def)
  show r: "readable (srvPool newServer) = freeFramesCap" by (simp add: newServer_def initFreeFrames_def ring_New_def)
  then show "buffers newServer = freeFramesCap" by (simp add: buffers_def) (simp add: newServer_def)
  show "srvErr newServer = None" by (simp add: newServer_def)
qed



lemma no_read: "server_inv device s \<Longrightarrow> \<not> reading s \<Longrightarrow> ingress_step device (Read r) s = None"
  using server_turn_reading [of device r s] by (cases "server_turn device r s") auto

text \<open>What ends the server: an error of the dispatcher, a source that is no SCION address, a short frame and a frame of another version.\<close>

fun fatal :: "read_result \<Rightarrow> string option" where
  "fatal (ReadError disp) = (if disp then Some ''problems speaking to dispatcher'' else None)"
| "fatal (ReadFrame data None) = Some ''not a valid snet address''"
| "fatal (ReadFrame data (Some src)) = (if length data < sigHdrSize then Some ''frame too short''
     else if data ! 0 \<noteq> 0 then Some ''unsupported SIG protocol version'' else None)"

lemma server_read_fatal:
  assumes "unused fb"
  shows "fatal r = Some m \<Longrightarrow> server_read device fb r s = Some (Inl (Err m))"
    and "fatal r = None \<Longrightarrow> server_read device fb r s = Some res \<Longrightarrow> \<exists>s'. res = Inr s'"
proof -
  have l: "length (raw fb) = frameBufCap" using assms by (simp add: unused_def full_size_def)
  have n: "min frameBufCap (length data) < sigHdrSize \<longleftrightarrow> length data < sigHdrSize" for data :: bytes by (auto simp: sigHdrSize_def frameBufCap_def)
  have z: "go_copy (raw fb) data ! 0 = data ! 0" if "\<not> length data < sigHdrSize" for data
    using that l by (cases data) (simp_all add: go_copy_def nth_append sigHdrSize_def frameBufCap_def)
  show "fatal r = Some m \<Longrightarrow> server_read device fb r s = Some (Inl (Err m))"
    by (cases r rule: fatal.cases) (auto simp: server_read_def Let_def l n z split: if_splits)
  show "fatal r = None \<Longrightarrow> server_read device fb r s = Some res \<Longrightarrow> \<exists>s'. res = Inr s'"
    by (cases r rule: fatal.cases) (auto simp: server_read_def Let_def l n z split: if_splits)
qed

lemma no_reads:
  assumes "server_inv device s" "\<And>es s'. ingress_run device es s = Some s' \<Longrightarrow> \<not> reading s'"
  shows "ingress_run device (es @ [Read r]) s = None"
proof (cases "ingress_run device es s")
  case (Some s')
  have "ingress_step device (Read r) s' = None" by (rule no_read) (use ingress_run_ok [OF assms(1) Some] assms(2) [OF Some] in auto)
  then show ?thesis by (simp add: ingress_run_append Some del: ingress_step.simps)
qed (simp add: ingress_run_append)

section \<open>Properties\<close>

text \<open>Claim C17. Whatever bytes arrive in frames with at least a header, in whatever order: the worker returns without a
  panic, no reassembly list ever holds more than its 100 frames, and every frame buffer that it was given is either held in a list or was
  released, exactly once: the buffers held and released are, with their contents, those that were given.\<close>

theorem ingress_worker_total:
  assumes "\<forall>d \<in> set datas. sigHdrSize \<le> length d \<and> length d \<le> frameBufCap" "length bufs = length datas"
    "\<forall>b \<in> set bufs. length (raw b) = frameBufCap"
  shows "\<exists>w sent released. process_frames newWorker (map2 filled bufs datas) = Inr (w, sent, released) \<and>
    (\<forall>(ep, l) \<in> set (rlists w). length (rentries l) \<le> reassemblyListCap) \<and>
    mset (map raw (held w)) + mset (map raw released) = mset (map raw (map2 filled bufs datas))"
proof -
  have "fresh (filled b d)" if "b \<in> set bufs" "d \<in> set datas" for b d
    using that assms(1,3) by (auto simp: fresh_def filled_def frame_Reset_def sigHdrSize_def)
  then have "list_all fresh (map2 filled bufs datas)" by (auto simp: list_all_iff dest: set_zip_leftD set_zip_rightD)
  moreover have "worker_inv newWorker" "held newWorker = []" by (simp_all add: worker_inv_def newWorker_def held_def)
  ultimately obtain w sent rel where w: "process_frames newWorker (map2 filled bufs datas) = Inr (w, sent, rel)" "worker_inv w"
    "bufs_of (held w @ rel) = bufs_of (map2 filled bufs datas)" 
    using process_frames_total [of newWorker "map2 filled bufs datas"] by auto
  have "length (rentries l) \<le> reassemblyListCap" if "(ep, l) \<in> set (rlists w)" for ep l
    using w(2) that by (auto simp: worker_inv_def rlist_inv_def)
  with w(1,3) show ?thesis by (auto simp: bufs_of_def)
qed

theorem ingress_worker_total_witness:
  "\<exists>w sent released. process_frames newWorker (map2 filled [newFrameBuf, newFrameBuf] [replicate 16 255, replicate 30 0]) = Inr (w, sent, released) \<and>
    length (held w) + length released = 2"
proof -
  have d: "\<forall>d \<in> set [replicate 16 255, replicate 30 (0 :: u8)]. sigHdrSize \<le> length d \<and> length d \<le> frameBufCap" by (simp add: sigHdrSize_def frameBufCap_def)
  have b: "\<forall>b \<in> set [newFrameBuf, newFrameBuf]. length (raw b) = frameBufCap" by (simp add: demo_sizes(3))
  from ingress_worker_total [OF d _ b] obtain w sent rel where
    w: "process_frames newWorker (map2 filled [newFrameBuf, newFrameBuf] [replicate 16 255, replicate 30 0]) = Inr (w, sent, rel)"
    and m: "mset (map raw (held w)) + mset (map raw rel) = mset (map raw (map2 filled [newFrameBuf, newFrameBuf] [replicate 16 255, replicate 30 0]))"
    by (auto simp del: process_frames.simps)
  have "size (mset (map raw (held w)) + mset (map raw rel)) = 2" unfolding m by simp
  then show ?thesis using w by auto
qed

text \<open>Claim C18. Whatever happened before, one read ends the ingress server: the frame of any remote that is shorter than its header or of
  another version. From then on nothing is read any more, for no remote, although the workers go on. Apart from such frames only an error of
  the dispatcher and a source that is not a SCION address end it.\<close>

theorem ingress_server_stops:
  assumes "ingress_run device evs newServer = Some s" "reading s"
  shows "case fatal r of
      Some m \<Rightarrow> \<exists>s'. ingress_step device (Read r) s = Some s' \<and> srvErr s' = Some (Err m) \<and> srvWorkers s' = srvWorkers s \<and>
        (\<forall>es s''. ingress_run device es s' = Some s'' \<longrightarrow> srvErr s'' = Some (Err m)) \<and> (\<forall>es r'. ingress_run device (es @ [Read r']) s' = None)
    | None \<Rightarrow> \<forall>s'. ingress_step device (Read r) s = Some s' \<longrightarrow> srvErr s' = None"
proof -
  have i: "server_inv device s" using ingress_run_ok [OF newServer_ok(1) assms(1)] by blast
  obtain pool fb fs where t: "server_turn device r s = map_option (\<lambda>res. case res of Inl e \<Rightarrow> s\<lparr>srvPool := pool, srvFrames := map Some fs, srvErr := Some e\<rparr> | Inr s \<Rightarrow> s)
      (server_read device fb r (s\<lparr>srvPool := pool, srvFrames := map Some fs\<rparr>))" "unused fb"
    "server_inv device (s\<lparr>srvPool := pool, srvFrames := map Some fs\<rparr>)"
    by (rule server_turn_eq [OF i assms(2)])
  show ?thesis
  proof (cases "fatal r")
    case (Some m)
    let ?s = "s\<lparr>srvPool := pool, srvFrames := map Some fs, srvErr := Some (Err m)\<rparr>"
    have st: "ingress_step device (Read r) s = Some ?s" using t(1) server_read_fatal(1) [OF t(2) Some] by simp
    have i': "server_inv device ?s" using ingress_step_ok [OF i st] by blast
    have e: "srvErr s'' = Some (Err m)" if "ingress_run device es ?s = Some s''" for es s'' using ingress_run_ok [OF i' that] by simp
    have "ingress_run device (es @ [Read r']) ?s = None" for es r' by (rule no_reads [OF i']) (simp add: reading_def e)
    then show ?thesis using st e Some by (auto simp del: ingress_step.simps)
  next
    case None
    have "srvErr s' = None" if st: "ingress_step device (Read r) s = Some s'" for s'
    proof -
      obtain res where res: "server_read device fb r (s\<lparr>srvPool := pool, srvFrames := map Some fs\<rparr>) = Some res" using st t(1) by auto
      obtain x where x: "res = Inr x" using server_read_fatal(2) [OF t(2) None res] by blast
      have "srvErr x = srvErr s" using server_read_ok [OF t(3,2) res] x by simp
      then show ?thesis using st t(1) res x assms(2) by (simp add: reading_def)
    qed
    then show ?thesis using None by simp
  qed
qed

lemma newServer_reading: "reading newServer"
  using newServer_ok(3,4) by (simp add: reading_def freeFramesCap_def)

theorem ingress_server_stops_witness:
  "(\<exists>s'. ingress_step (\<lambda>_. True) (Read (ReadFrame [0, 1] (Some (1, [10, 0, 0, 1], 30256)))) newServer = Some s' \<and>
     srvErr s' = Some (Err ''frame too short'') \<and> (\<forall>es r'. ingress_run (\<lambda>_. True) (es @ [Read r']) s' = None)) \<and>
   (\<exists>s'. ingress_step (\<lambda>_. True) (Read (ReadFrame (replicate 16 1) (Some (1, [10, 0, 0, 1], 30256)))) newServer = Some s' \<and>
     srvErr s' = Some (Err ''unsupported SIG protocol version'') \<and> (\<forall>es r'. ingress_run (\<lambda>_. True) (es @ [Read r']) s' = None))"
proof -
  have r: "ingress_run (\<lambda>_. True) [] newServer = Some newServer" by simp
  have f: "fatal (ReadFrame [0, 1] (Some (1, [10, 0, 0, 1], 30256))) = Some ''frame too short''"
    "fatal (ReadFrame (replicate 16 1) (Some (1, [10, 0, 0, 1], 30256))) = Some ''unsupported SIG protocol version''"
    by (simp_all add: sigHdrSize_def)
  note w = ingress_server_stops [OF r newServer_reading]
  show ?thesis using w [of "ReadFrame [0, 1] (Some (1, [10, 0, 0, 1], 30256))", unfolded f option.case]
      w [of "ReadFrame (replicate 16 1) (Some (1, [10, 0, 0, 1], 30256))", unfolded f option.case] by blast
qed



end
