(* ===== verification/Colibri_Tokens.thy ===== *)
theory Colibri_Tokens
  imports Colibri_Dataplane "HOL-Library.Signed_Division"
begin

unbundle bit_operations_syntax

text \<open>
  The values COLIBRI reservations are made of (go/lib/colibri/reservation/types.go): reservation IDs,
  ticks, bandwidth classes, index numbers, path types, end properties, and the info field, hop field and
  token with their wire formats. Lengths that Go checks at run time are checked here in the same order. A
  \<open>nil\<close> slice is the empty list; where \<open>nil\<close> is told from an empty slice (\<open>TokenFromRaw\<close>) the argument is an
  option. \<open>ToKbps\<close> and \<open>BWClsFromBW\<close> compute with floats in Go; they are given by the integers these
  computations round to. \<open>SplitCls\<close> with its two float ratios, the JSON forms and the diagnostic strings of
  tokens are left out.
\<close>

section \<open>Reservation IDs\<close>

record rsv_id =
  ASID :: u64
  Suffix :: bytes

definition IDSuffixSegLen :: nat where "IDSuffixSegLen = 4"
definition IDSuffixE2ELen :: nat where "IDSuffixE2ELen = 12"

definition NewID :: "u64 \<Rightarrow> bytes \<Rightarrow> rsv_id res" where
  "NewID as suffix =
     (if length suffix \<noteq> IDSuffixSegLen \<and> length suffix \<noteq> IDSuffixE2ELen
      then Inl (Err ''wrong suffix length, should be 4 or 12'')
      else Inr \<lparr>ASID = as, Suffix = suffix\<rparr>)"

definition IDFromRawBuffers :: "bytes \<Rightarrow> bytes \<Rightarrow> rsv_id res" where
  "IDFromRawBuffers asid suffix =
     (if length asid < 6 then Inl (Err ''buffers too small'')
      else NewID (Uint64 ([0, 0] @ slice 0 6 asid)) suffix)"

definition IDFromRaw :: "bytes \<Rightarrow> rsv_id res" where
  "IDFromRaw rawb =
     (if length rawb < 6 then Inl (Err ''buffer too small'')
      else IDFromRawBuffers (slice 0 6 rawb) (drop 6 rawb))"

text \<open>\<open>hex.DecodeString\<close> and the verb \<open>%x\<close> on a byte slice.\<close>

fun hex_DecodeString :: "string \<Rightarrow> bytes res" where
  "hex_DecodeString [] = Inr []"
| "hex_DecodeString [c] = (case digit_val c of
       None \<Rightarrow> Inl (Err ''encoding/hex: invalid byte'')
     | Some d \<Rightarrow> if d < 16 then Inl (Err ''encoding/hex: odd length hex string'')
                else Inl (Err ''encoding/hex: invalid byte''))"
| "hex_DecodeString (c # d # s) = (case (digit_val c, digit_val d) of
       (Some h, Some l) \<Rightarrow>
         if h < 16 \<and> l < 16 then rbind (hex_DecodeString s) (\<lambda>bs. Inr (of_nat (h * 16 + l) # bs))
         else Inl (Err ''encoding/hex: invalid byte'')
     | _ \<Rightarrow> Inl (Err ''encoding/hex: invalid byte''))"

definition fmt_x :: "bytes \<Rightarrow> string" where
  "fmt_x bs = concat (map (\<lambda>b. [digit_char (unat b div 16), digit_char (unat b mod 16)]) bs)"

definition IDFromString :: "string \<Rightarrow> rsv_id res" where
  "IDFromString str = (case strings_Split str ''-'' of
       [p0, p1] \<Rightarrow>
         rbind (wrap_err ''bad colibri id'' (ParseAS p0)) (\<lambda>as.
         rbind (wrap_err ''bad colibri id'' (hex_DecodeString p1)) (\<lambda>suffix.
         Inr \<lparr>ASID = as, Suffix = suffix\<rparr>))
     | _ \<Rightarrow> Inl (Err ''bad colibri id''))"

definition ID_String :: "rsv_id \<Rightarrow> string" where
  "ID_String i = AS_String (ASID i) @ ''-'' @ fmt_x (Suffix i)"

text \<open>An empty suffix here is the \<open>nil\<close> one, for which a buffer is made; \<open>PutUint32\<close> panics on fewer than
  four bytes.\<close>

definition SetSegmentSuffix :: "rsv_id \<Rightarrow> int \<Rightarrow> rsv_id res" where
  "SetSegmentSuffix i suffix = (let
     buf = (if Suffix i = [] then replicate 4 0 else Suffix i)
   in if length buf < 4 then Inl (Panic ''index out of range'')
      else Inr (i\<lparr>Suffix := put_at 0 (PutUint32 (word_of_int suffix)) buf\<rparr>))"

definition ID_Len :: "rsv_id \<Rightarrow> nat" where
  "ID_Len i = 6 + length (Suffix i)"

definition ID_Equal :: "rsv_id \<Rightarrow> rsv_id \<Rightarrow> bool" where
  "ID_Equal i other \<longleftrightarrow> ASID i = ASID other \<and> Suffix i = Suffix other"

definition ID_Validate :: "rsv_id \<Rightarrow> unit res" where
  "ID_Validate i =
     (if length (Suffix i) \<noteq> IDSuffixSegLen \<and> length (Suffix i) \<noteq> IDSuffixE2ELen
      then Inl (Err ''bad suffix'') else Inr ())"

definition IsSegmentID :: "rsv_id \<Rightarrow> bool" where
  "IsSegmentID i \<longleftrightarrow> length (Suffix i) = IDSuffixSegLen"

definition IsE2EID :: "rsv_id \<Rightarrow> bool" where
  "IsE2EID i \<longleftrightarrow> length (Suffix i) = IDSuffixE2ELen"

definition ID_Read :: "rsv_id \<Rightarrow> bytes \<Rightarrow> (nat \<times> bytes) res" where
  "ID_Read i rawb =
     (if length rawb < ID_Len i then Inl (Err ''buffer too small'')
      else let
        auxBuff = put_at 0 (PutUint64 (ASID i)) (replicate 8 0);
        rawb = go_copy rawb (slice 2 8 auxBuff);
        rawb = put_at 6 (go_copy (drop 6 rawb) (Suffix i)) rawb
      in Inr (ID_Len i, rawb))"

definition ID_ToRaw :: "rsv_id \<Rightarrow> bytes" where
  "ID_ToRaw i = (let buf = replicate (ID_Len i) 0 in
     case ID_Read i buf of Inl _ \<Rightarrow> buf | Inr (_, buf) \<Rightarrow> buf)"

definition IsEmptySuffix :: "rsv_id \<Rightarrow> bool" where
  "IsEmptySuffix i \<longleftrightarrow> Suffix i = [0, 0, 0, 0]"

definition ID_IsEmpty :: "rsv_id \<Rightarrow> bool" where
  "ID_IsEmpty i \<longleftrightarrow> ASID i = 0 \<and> IsEmptySuffix i"

section \<open>Ticks\<close>

text \<open>A \<open>time.Duration\<close> is an \<open>int64\<close> of nanoseconds.\<close>

definition int64 :: "int \<Rightarrow> int" where
  "int64 x = sint (word_of_int x :: u64)"

definition DurationPerTick :: int where "DurationPerTick = SecsPerTick * second_ns"
definition TicksInSegmentRsv :: int where "TicksInSegmentRsv = 80"
definition SegRsvDuration :: int where "SegRsvDuration = TicksInSegmentRsv * DurationPerTick"
definition E2ERsvDuration :: int where "E2ERsvDuration = TicksInE2ERsv * DurationPerTick"

definition TickFromTime :: "int \<Rightarrow> u32" where
  "TickFromTime t = TimeToSecs t div word_of_int SecsPerTick"

definition TicksFromDuration :: "int \<Rightarrow> u32" where
  "TicksFromDuration dur = (let
     d = int64 (dur + DurationPerTick - 1);
     secsDur = d - d smod DurationPerTick;
     seconds = (secsDur sdiv 1000000) sdiv 1000
   in word_of_int (seconds sdiv SecsPerTick))"

definition Tick_ToTime :: "u32 \<Rightarrow> int" where
  "Tick_ToTime t = SecsToTime (t * word_of_int SecsPerTick)"

definition Tick_ToDuration :: "u32 \<Rightarrow> int" where
  "Tick_ToDuration t = int64 (uint t * DurationPerTick)"

section \<open>Classes and index numbers\<close>

text \<open>\<open>uint64(16 * math.Sqrt(math.Pow(2, b - 1)))\<close>: the square root of \<open>2 ^ (b + 7)\<close> rounded down. Beyond
  class 63 the result of the conversion is left to the implementation of Go: the argument \<open>conv\<close>.\<close>

fun isqrt :: "nat \<Rightarrow> nat" where
  "isqrt n = (if n = 0 then 0
     else let r = 2 * isqrt (n div 4) in if (r + 1) * (r + 1) \<le> n then r + 1 else r)"

declare isqrt.simps [simp del]

definition ToKbps :: "(u8 \<Rightarrow> u64) \<Rightarrow> u8 \<Rightarrow> u64" where
  "ToKbps conv b =
     (if b = 0 then 0 else if b \<le> 63 then of_nat (isqrt (2 ^ (unat b + 7))) else conv b)"

text \<open>\<open>math.Floor\<close> of \<open>2 * log2(bw / 16) + 1\<close> between 0 and 63: the number of classes from 1 to 63 whose
  bandwidth is not above \<open>bw\<close>.\<close>

fun bw_cls :: "nat \<Rightarrow> nat \<Rightarrow> nat" where
  "bw_cls 0 bw = 0"
| "bw_cls (Suc c) bw = (if 2 ^ (Suc c + 7) \<le> bw * bw then Suc c else bw_cls c bw)"

definition BWClsFromBW :: "u64 \<Rightarrow> u8" where
  "BWClsFromBW bwKbps = of_nat (bw_cls 63 (unat bwKbps))"

definition BWCls_Validate :: "u8 \<Rightarrow> unit res" where
  "BWCls_Validate b = (if b > 63 then Inl (Err ''invalid BWClass value'') else Inr ())"

definition MaxBWCls :: "u8 \<Rightarrow> u8 \<Rightarrow> u8" where "MaxBWCls a b = (if a > b then a else b)"
definition MinBWCls :: "u8 \<Rightarrow> u8 \<Rightarrow> u8" where "MinBWCls a b = (if a < b then a else b)"

definition RLC_Validate :: "u8 \<Rightarrow> unit res" where
  "RLC_Validate c = (if c > 63 then Inl (Err ''invalid BWClass'') else Inr ())"

definition NewIndexNumber :: "int \<Rightarrow> u8" where
  "NewIndexNumber value = word_of_int (value smod 16)"

definition Index_Validate :: "u8 \<Rightarrow> unit res" where
  "Index_Validate i = (if i \<ge> push_bit 4 1 then Inl (Err ''invalid IndexNumber'') else Inr ())"

definition Index_Add :: "u8 \<Rightarrow> u8 \<Rightarrow> u8" where "Index_Add i other = (i + other) mod 16"
definition Index_Sub :: "u8 \<Rightarrow> u8 \<Rightarrow> u8" where "Index_Sub i other = (i - other) mod 16"

section \<open>Path types and end properties\<close>

definition UnknownPath :: u8 where "UnknownPath = 0"
definition CorePath :: u8 where "CorePath = 1"
definition DownPath :: u8 where "DownPath = 2"
definition UpPath :: u8 where "UpPath = 3"
definition PeeringDownPath :: u8 where "PeeringDownPath = 4"
definition PeeringUpPath :: u8 where "PeeringUpPath = 5"
definition E2EPath :: u8 where "E2EPath = 6"
definition lastvaluePath :: u8 where "lastvaluePath = 7"

lemmas path_type_defs = UnknownPath_def CorePath_def DownPath_def UpPath_def PeeringDownPath_def
  PeeringUpPath_def E2EPath_def lastvaluePath_def

definition PathType_Validate :: "u8 \<Rightarrow> unit res" where
  "PathType_Validate pt =
     (if pt = UnknownPath \<or> pt \<ge> lastvaluePath then Inl (Err ''invalid path type'') else Inr ())"

definition PathType_String :: "u8 \<Rightarrow> string" where
  "PathType_String pt =
     (if pt = CorePath then ''core'' else if pt = DownPath then ''down'' else if pt = UpPath then ''up''
      else if pt = PeeringDownPath then ''peer_down'' else if pt = PeeringUpPath then ''peer_up''
      else if pt = E2EPath then ''e2e'' else ''unknown path_type '' @ FormatUint (unat pt) 10)"

text \<open>The switch of \<open>UnmarshalJSON\<close> over the decoded text.\<close>

definition PathType_FromText :: "string \<Rightarrow> u8 res" where
  "PathType_FromText text =
     (if text = ''core'' then Inr CorePath else if text = ''down'' then Inr DownPath
      else if text = ''up'' then Inr UpPath else if text = ''peer_down'' then Inr PeeringDownPath
      else if text = ''peer_up'' then Inr PeeringUpPath else if text = ''e2e'' then Inr E2EPath
      else Inl (Err ''unknown path_type description''))"

definition StartLocal :: u8 where "StartLocal = 0x10"
definition StartTransfer :: u8 where "StartTransfer = 0x20"
definition EndLocal :: u8 where "EndLocal = 0x01"
definition EndTransfer :: u8 where "EndTransfer = 0x02"

lemmas end_prop_defs = StartLocal_def StartTransfer_def EndLocal_def EndTransfer_def

definition PathEndProps_Validate :: "u8 \<Rightarrow> unit res" where
  "PathEndProps_Validate pep =
     (if pep AND 0x0F > 0x03 then Inl (Err ''invalid path end properties (@End)'')
      else if drop_bit 4 pep > 0x03 then Inl (Err ''invalid path end properties (@Start)'')
      else Inr ())"

definition ValidateWithPathType :: "u8 \<Rightarrow> u8 \<Rightarrow> unit res" where
  "ValidateWithPathType pep pt =
     rbind (PathEndProps_Validate pep) (\<lambda>_. let
       s = pep AND 0xF0; e = pep AND 0x0F;
       invalid =
         (if pt = CorePath then s = 0
          else if pt = UpPath then s \<noteq> StartLocal
          else if pt = DownPath then e \<noteq> EndLocal
          else if pt = PeeringUpPath then s \<noteq> StartLocal \<or> e = 0
          else if pt = PeeringDownPath then e \<noteq> EndLocal \<or> s = 0
          else False)
     in if invalid then Inl (Err ''invalid combination of path end properties and path type'') else Inr ())"

definition has_StartLocal :: "u8 \<Rightarrow> bool" where "has_StartLocal pep \<longleftrightarrow> pep AND StartLocal \<noteq> 0"
definition has_StartTransfer :: "u8 \<Rightarrow> bool" where "has_StartTransfer pep \<longleftrightarrow> pep AND StartTransfer \<noteq> 0"
definition has_EndLocal :: "u8 \<Rightarrow> bool" where "has_EndLocal pep \<longleftrightarrow> pep AND EndLocal \<noteq> 0"
definition has_EndTransfer :: "u8 \<Rightarrow> bool" where "has_EndTransfer pep \<longleftrightarrow> pep AND EndTransfer \<noteq> 0"

definition NewPathEndProps :: "bool \<Rightarrow> bool \<Rightarrow> bool \<Rightarrow> bool \<Rightarrow> u8" where
  "NewPathEndProps startLocal startTransfer endLocal endTransfer = (let
     props = 0;
     props = (if startLocal then props OR StartLocal else props);
     props = (if startTransfer then props OR StartTransfer else props);
     props = (if endLocal then props OR EndLocal else props)
   in if endTransfer then props OR EndTransfer else props)"

section \<open>Allocation beads\<close>

record bead =
  BeadAllocBW :: u8
  BeadMaxBW :: u8

fun minmax_loop :: "bead list \<Rightarrow> u8 \<Rightarrow> u8" where
  "minmax_loop [] m = m"
| "minmax_loop (b # bs) m = minmax_loop bs (if BeadMaxBW b < m then BeadMaxBW b else m)"

definition MinMax :: "bead list \<Rightarrow> u8" where
  "MinMax bs = (if bs = [] then 0 else minmax_loop bs 255)"

section \<open>Info field, hop field and token\<close>

record rsv_info =
  ExpirationTick :: u32
  InfIdx :: u8
  InfBWCls :: u8
  InfPathType :: u8
  InfRLC :: u8

definition InfoFieldLen :: nat where "InfoFieldLen = 8"

definition RsvInfo_Validate :: "'a rsv_info_scheme \<Rightarrow> unit res" where
  "RsvInfo_Validate f =
     rbind (BWCls_Validate (InfBWCls f)) (\<lambda>_.
     rbind (RLC_Validate (InfRLC f)) (\<lambda>_.
     rbind (Index_Validate (InfIdx f)) (\<lambda>_.
     rbind (PathType_Validate (InfPathType f)) (\<lambda>_.
     Inr ()))))"

definition InfoFieldFromRaw :: "bytes \<Rightarrow> rsv_info res" where
  "InfoFieldFromRaw rawb =
     (if length rawb < InfoFieldLen then Inl (Err ''buffer too small'')
      else let
        info = \<lparr>ExpirationTick = Uint32 (slice 0 4 rawb), InfIdx = drop_bit 4 (rawb ! 6),
                InfBWCls = rawb ! 4, InfPathType = rawb ! 6 AND 0x7, InfRLC = rawb ! 5\<rparr>
      in rbind (RsvInfo_Validate info) (\<lambda>_. Inr info))"

definition RsvInfo_Read :: "'a rsv_info_scheme \<Rightarrow> bytes \<Rightarrow> bytes res" where
  "RsvInfo_Read f b =
     (if length b < InfoFieldLen then Inl (Err ''buffer too small'')
      else let
        b = put_at 0 (PutUint32 (ExpirationTick f)) b;
        b = b[4 := InfBWCls f];
        b = b[5 := InfRLC f];
        b = b[6 := push_bit 4 (InfIdx f) OR InfPathType f]
      in Inr (b[7 := 0]))"

definition RsvInfo_ToRaw :: "'a rsv_info_scheme option \<Rightarrow> bytes" where
  "RsvInfo_ToRaw f = (case f of
       None \<Rightarrow> []
     | Some f \<Rightarrow> let buff = replicate InfoFieldLen 0 in
         (case RsvInfo_Read f buff of Inl _ \<Rightarrow> buff | Inr buff \<Rightarrow> buff))"

record rsv_hop =
  HopIngress :: u16
  HopEgress :: u16
  HopMac :: bytes

definition HopFieldLen :: nat where "HopFieldLen = 8"

definition HopFieldFromRaw :: "bytes \<Rightarrow> rsv_hop res" where
  "HopFieldFromRaw rawb =
     (if length rawb < HopFieldLen then Inl (Err ''buffer too small for HopField'')
      else Inr \<lparr>HopIngress = Uint16 (slice 0 2 rawb), HopEgress = Uint16 (slice 2 4 rawb),
                HopMac = go_copy (replicate 4 0) (slice 4 8 rawb)\<rparr>)"

definition RsvHop_Read :: "rsv_hop \<Rightarrow> bytes \<Rightarrow> bytes res" where
  "RsvHop_Read hf b =
     (if length b < HopFieldLen then Inl (Err ''buffer too small for HopField'')
      else let
        b = put_at 0 (PutUint16 (HopIngress hf)) b;
        b = put_at 2 (PutUint16 (HopEgress hf)) b
      in Inr (put_at 4 (go_copy (drop 4 b) (HopMac hf)) b))"

definition RsvHop_ToRaw :: "rsv_hop \<Rightarrow> bytes" where
  "RsvHop_ToRaw hf = (let buff = replicate HopFieldLen 0 in
     case RsvHop_Read hf buff of Inl _ \<Rightarrow> buff | Inr buff \<Rightarrow> buff)"

text \<open>\<open>Token\<close> embeds the info field.\<close>

record token = rsv_info +
  TokHopFields :: "rsv_hop list"

definition Token_Validate :: "token \<Rightarrow> unit res" where
  "Token_Validate t =
     (if TokHopFields t = [] then Inl (Err ''token without hop fields'') else RsvInfo_Validate t)"

definition TokenFromRaw :: "bytes option \<Rightarrow> token option res" where
  "TokenFromRaw rawb = (case rawb of
       None \<Rightarrow> Inr None
     | Some rawb \<Rightarrow> let rawHFs = int (length rawb) - int InfoFieldLen in
         if rawHFs < 0 \<or> rawHFs mod int HopFieldLen \<noteq> 0 then Inl (Err ''buffer too small for Token'')
         else let numHFs = nat rawHFs div HopFieldLen in
           rbind (InfoFieldFromRaw (slice 0 InfoFieldLen rawb)) (\<lambda>inf.
           rbind (decode_fields HopFieldFromRaw HopFieldLen numHFs InfoFieldLen rawb) (\<lambda>hfs.
           Inr (Some (rsv_info.extend inf \<lparr>TokHopFields = hfs\<rparr>)))))"

definition Token_Len :: "token option \<Rightarrow> nat" where
  "Token_Len t = (case t of None \<Rightarrow> 0 | Some t \<Rightarrow> InfoFieldLen + length (TokHopFields t) * HopFieldLen)"

text \<open>The hop fields are read into windows of the buffer; what \<open>HopField.Read\<close> returns is ignored, and an error
  leaves the window as it is.\<close>

definition hop_into :: "rsv_hop \<Rightarrow> bytes \<Rightarrow> bytes res" where
  "hop_into hf w = Inr (case RsvHop_Read hf w of Inl _ \<Rightarrow> w | Inr w' \<Rightarrow> w')"

definition Token_Read :: "token \<Rightarrow> bytes \<Rightarrow> (nat \<times> bytes) res" where
  "Token_Read t b = (let len = Token_Len (Some t) in
     if length b < len then Inl (Err ''buffer too small'')
     else rbind (RsvInfo_Read t (slice 0 InfoFieldLen b)) (\<lambda>w.
       rbind (write_fields hop_into HopFieldLen (TokHopFields t) InfoFieldLen (put_at 0 w b)) (\<lambda>b.
       Inr (InfoFieldLen + length (TokHopFields t) * HopFieldLen, b))))"

definition Token_ToRaw :: "token option \<Rightarrow> bytes option" where
  "Token_ToRaw t = (case t of
       None \<Rightarrow> None
     | Some tk \<Rightarrow> let buff = replicate (Token_Len t) 0 in
         Some (case Token_Read tk buff of Inl _ \<Rightarrow> buff | Inr (_, buff) \<Rightarrow> buff))"

text \<open>The position of the new hop field is returned beside the token, for the pointer to it.\<close>

definition AddNewHopField :: "token \<Rightarrow> rsv_hop \<Rightarrow> (token \<times> nat) res" where
  "AddNewHopField t hf =
     (if InfPathType t = DownPath
      then Inr (t\<lparr>TokHopFields := TokHopFields t @ [hf]\<rparr>, length (TokHopFields t))
      else if InfPathType t = UpPath \<or> InfPathType t = CorePath \<or> InfPathType t = E2EPath
      then Inr (t\<lparr>TokHopFields := hf # TokHopFields t\<rparr>, 0)
      else Inl (Panic ''unknown path type''))"

definition GetFirstNHopFields :: "token option \<Rightarrow> int \<Rightarrow> rsv_hop list res" where
  "GetFirstNHopFields t n = (case t of
       None \<Rightarrow> Inr []
     | Some t \<Rightarrow> let hfs = TokHopFields t in
         if hfs = [] \<or> n \<le> 0 then Inr []
         else let n = min (nat n) (length hfs) in
           if InfPathType t = DownPath then Inr (slice 0 n hfs)
           else if InfPathType t = UpPath \<or> InfPathType t = CorePath \<or> InfPathType t = E2EPath
           then Inr (slice (length hfs - n) (length hfs) hfs)
           else Inl (Panic ''unknown path type''))"

section \<open>IDs\<close>

lemma hex_digit_pair:
  "b < 256 \<Longrightarrow> hex_DecodeString (digit_char (b div 16) # digit_char (b mod 16) # s) =
     rbind (hex_DecodeString s) (\<lambda>bs. Inr (of_nat b # bs))"
proof -
  assume b: "b < 256"
  have "b div 16 < 16" "b mod 16 < 16" using b by (auto intro: less_mult_imp_div_less)
  moreover have "(b div 16) * 16 + b mod 16 = b" by simp
  ultimately show ?thesis by (simp add: digit_val_digit_char del: of_nat_add of_nat_mult)
qed

lemma hex_DecodeString_fmt_x [simp]: "hex_DecodeString (fmt_x bs) = Inr bs"
proof (induction bs)
  case Nil
  show ?case by (simp add: fmt_x_def)
next
  case (Cons b bs)
  have "fmt_x (b # bs) = digit_char (unat b div 16) # digit_char (unat b mod 16) # fmt_x bs"
    by (simp add: fmt_x_def)
  then show ?case using Cons hex_digit_pair [OF unat_u8_less [of b]] by simp
qed

lemma dash_fmt_x: "CHR ''-'' \<notin> set (fmt_x bs)"
proof
  assume "CHR ''-'' \<in> set (fmt_x bs)"
  then obtain b :: u8 where "CHR ''-'' = digit_char (unat b div 16) \<or> CHR ''-'' = digit_char (unat b mod 16)"
    by (auto simp: fmt_x_def)
  moreover have "unat b div 16 < 16" using unat_u8_less [of b] by simp
  ultimately have "CHR ''-'' \<in> hex_chars" by (auto simp: hex_chars_def)
  then show False using dash_not_hex by simp
qed

lemma ID_text_roundtrip:
  assumes "AS_inRange (ASID i)"
  shows "IDFromString (ID_String i) = Inr i"
proof -
  have "strings_Split (ID_String i) ''-'' = [AS_String (ASID i), fmt_x (Suffix i)]"
    unfolding ID_String_def AS_String_def
    using assms by (intro split_dash dash_fmtAS dash_fmt_x) auto
  then show ?thesis
    using assms parseAS_fmtAS [OF assms sep_ok_colon]
    by (simp add: IDFromString_def ParseAS_def AS_String_def)
qed

lemma AS_bytes:
  assumes "AS_inRange as"
  shows "[0, 0] @ drop 2 (PutUint64 as) = PutUint64 as"
proof -
  have "drop_bit 48 as = 0" using assms
    by (metis AS_inRange_iff drop_bit_take_bit diff_self_eq_0 take_bit_0)
  then have "ucast (drop_bit 56 as) = (0 :: u8)" "ucast (drop_bit 48 as) = (0 :: u8)"
    using drop_bit_drop_bit [of 8 48 as] by auto
  then show ?thesis by (simp add: PutUint64_def)
qed

lemma ID_ToRaw_bytes: "ID_ToRaw i = drop 2 (PutUint64 (ASID i)) @ Suffix i"
  by (simp add: ID_ToRaw_def ID_Read_def ID_Len_def Let_def put_at_def go_copy_def slice_def PutUint64_def
    replicate_add numeral_eq_Suc)

lemma ID_raw_roundtrip:
  assumes "AS_inRange (ASID i)" "ID_Validate i = Inr ()"
  shows "IDFromRaw (ID_ToRaw i) = Inr i"
  using assms AS_bytes [OF assms(1)]
  by (auto simp: IDFromRaw_def IDFromRawBuffers_def ID_ToRaw_bytes slice_def NewID_def ID_Validate_def
    split: if_splits)

section \<open>Ticks and index numbers\<close>

lemma TickFromTime_ToTime: "TickFromTime (Tick_ToTime t) = t \<longleftrightarrow> uint t < 2 ^ 30"
proof -
  have "TickFromTime (Tick_ToTime t) = (t * 4) div 4"
    by (simp add: TickFromTime_def Tick_ToTime_def TimeToSecs_def SecsToTime_def SecsPerTick_def second_ns_def)
  moreover have "uint ((t * 4) div 4) = (uint t * 4 mod 2 ^ 32) div 4"
    by (simp add: uint_div_distrib uint_word_ariths)
  moreover have "(x * 4 mod 2 ^ 32) div 4 = x mod 2 ^ 30" for x :: int
    using mod_mult_mult2 [of x 4 "2 ^ 30"] by simp
  ultimately have "uint (TickFromTime (Tick_ToTime t)) = uint t mod 2 ^ 30" by simp
  then show ?thesis
    using uint_ge_0 [of t] by (metis mod_pos_pos_trivial pos_mod_bound word_uint_eq_iff zero_less_power zero_less_numeral)
qed

lemma index_uint:
  "uint (Index_Sub a b) = (uint a - uint b) mod 16"
  "uint (Index_Add a b) = (uint a + uint b) mod 16"
  by (simp_all add: Index_Sub_def Index_Add_def uint_mod_distrib uint_word_ariths mod_mod_cancel)

lemma index_less_16 [simp]: "Index_Sub a b < 16" "Index_Add a b < 16"
  by (simp_all add: word_less_def index_uint)

lemma Index_Sub_self [simp]: "Index_Sub a a = 0"
  by (simp add: word_uint_eq_iff index_uint)

lemma Index_Add_Sub: "Index_Add (Index_Sub a b) b = a mod 16" "Index_Sub (Index_Add a b) b = a mod 16"
  by (simp_all add: word_uint_eq_iff index_uint uint_mod_distrib mod_simps)

section \<open>Wire formats\<close>

lemmas rsv_len_defs = InfoFieldLen_def HopFieldLen_def

definition rsv_hop_wf :: "rsv_hop \<Rightarrow> bool" where
  "rsv_hop_wf h \<longleftrightarrow> length (HopMac h) = 4"

definition rsv_hop_bytes :: "rsv_hop \<Rightarrow> bytes" where
  "rsv_hop_bytes h = PutUint16 (HopIngress h) @ PutUint16 (HopEgress h) @ HopMac h"

definition rsv_info_bytes :: "'a rsv_info_scheme \<Rightarrow> bytes" where
  "rsv_info_bytes f = PutUint32 (ExpirationTick f) @
     [InfBWCls f, InfRLC f, push_bit 4 (InfIdx f) OR InfPathType f, 0]"

definition token_bytes :: "token \<Rightarrow> bytes" where
  "token_bytes t = rsv_info_bytes t @ concat (map rsv_hop_bytes (TokHopFields t))"

lemma length_rsv_bytes [simp]:
  "length (rsv_info_bytes f) = InfoFieldLen"
  "rsv_hop_wf h \<Longrightarrow> length (rsv_hop_bytes h) = HopFieldLen"
  by (simp_all add: rsv_info_bytes_def rsv_hop_wf_def rsv_hop_bytes_def rsv_len_defs)

lemma RsvInfo_Read_ok:
  assumes "InfoFieldLen \<le> length b"
  shows "RsvInfo_Read f b = Inr (put_at 0 (rsv_info_bytes f) b)"
proof -
  obtain xs ys where b: "b = xs @ ys" and xs: "length xs = 8"
    using assms by (metis append_take_drop_id length_take min_absorb2 InfoFieldLen_def)
  then show ?thesis
    by (auto simp: length_Suc_conv numeral_eq_Suc RsvInfo_Read_def rsv_info_bytes_def
      rsv_len_defs Let_def put_at_def PutUint32_def)
qed

lemma hop_into_ok:
  assumes "rsv_hop_wf h" "HopFieldLen \<le> length b"
  shows "hop_into h b = Inr (put_at 0 (rsv_hop_bytes h) b)"
proof -
  obtain xs ys where b: "b = xs @ ys" and xs: "length xs = 8"
    using assms(2) by (metis append_take_drop_id length_take min_absorb2 HopFieldLen_def)
  then show ?thesis
    using assms
    by (auto simp: length_Suc_conv numeral_eq_Suc hop_into_def RsvHop_Read_def rsv_hop_bytes_def rsv_hop_wf_def
      rsv_len_defs Let_def put_at_def PutUint16_def go_copy_def)
qed

lemma HopFieldFromRaw_bytes:
  assumes "rsv_hop_wf h"
  shows "HopFieldFromRaw (rsv_hop_bytes h @ ys) = Inr h"
proof -
  let ?b = "rsv_hop_bytes h @ ys"
  have "slice 0 2 ?b = PutUint16 (HopIngress h)" "slice 2 4 ?b = PutUint16 (HopEgress h)" "slice 4 8 ?b = HopMac h"
    using assms by (simp_all add: rsv_hop_bytes_def rsv_hop_wf_def slice_def)
  then show ?thesis
    using assms by (simp add: HopFieldFromRaw_def rsv_hop_wf_def rsv_len_defs rsv_hop_bytes_def)
qed

interpretation rsvhopw: wire_field rsv_hop_wf rsv_hop_bytes hop_into HopFieldFromRaw HopFieldLen
  by unfold_locales
    (auto simp: hop_into_ok HopFieldFromRaw_bytes, auto simp: HopFieldFromRaw_def rsv_hop_wf_def)

lemma info_nibbles:
  assumes "idx < 16" "pt < (8 :: u8)"
  shows "drop_bit 4 (push_bit 4 idx OR pt) = idx" "(push_bit 4 idx OR pt) AND 7 = pt"
proof -
  have t: "take_bit 4 idx = idx" "take_bit 3 pt = pt" "take_bit 4 pt = pt"
    using assms word_less_power_iff [of 4 idx] word_less_power_iff [of 3 pt] word_less_power_iff [of 4 pt]
    by (auto simp: word_less_def)
  have i: "bit idx n \<Longrightarrow> n < 4" and p: "bit pt n \<Longrightarrow> n < 3" for n
    using t by (metis bit_take_bit_iff)+
  show "drop_bit 4 (push_bit 4 idx OR pt) = idx"
    using i p by (intro bit_word_eqI) (force simp: bit_simps)
  have "(push_bit 4 idx OR pt) AND 7 = take_bit 3 (push_bit 4 idx OR pt)"
    by (simp add: take_bit_eq_mask mask_eq_exp_minus_1)
  also have "\<dots> = pt"
    using i p by (intro bit_word_eqI) (force simp: bit_simps)
  finally show "(push_bit 4 idx OR pt) AND 7 = pt" .
qed

lemma RsvInfo_Validate_iff:
  "RsvInfo_Validate f = Inr () \<longleftrightarrow> InfBWCls f \<le> 63 \<and> InfRLC f \<le> 63 \<and> InfIdx f < 16 \<and>
     InfPathType f \<noteq> UnknownPath \<and> InfPathType f < lastvaluePath"
  by (auto simp: RsvInfo_Validate_def BWCls_Validate_def RLC_Validate_def Index_Validate_def PathType_Validate_def
    res_simps not_le not_less split: if_splits)

lemma InfoFieldFromRaw_bytes:
  assumes "RsvInfo_Validate f = Inr ()"
  shows "InfoFieldFromRaw (rsv_info_bytes f @ ys) = Inr (rsv_info.truncate f)"
proof -
  have "InfPathType f < 8" using assms by (auto simp: RsvInfo_Validate_iff lastvaluePath_def word_less_def)
  define x where "x = push_bit 4 (InfIdx f) OR InfPathType f"
  have n: "drop_bit 4 x = InfIdx f" "x AND 7 = InfPathType f"
    unfolding x_def using assms \<open>InfPathType f < 8\<close> by (auto simp: RsvInfo_Validate_iff info_nibbles simp del: drop_bit_or)
  let ?b = "rsv_info_bytes f @ ys"
  have "slice 0 4 ?b = PutUint32 (ExpirationTick f)" "?b ! 4 = InfBWCls f" "?b ! 5 = InfRLC f"
    "?b ! 6 = x" "\<not> length ?b < InfoFieldLen"
    by (simp_all add: rsv_info_bytes_def slice_def nth_append rsv_len_defs x_def)
  moreover have "RsvInfo_Validate (rsv_info.truncate f) = Inr ()"
    using assms by (simp add: RsvInfo_Validate_iff rsv_info.defs)
  ultimately show ?thesis
    using n by (simp add: InfoFieldFromRaw_def Let_def rsv_info.defs)
qed

lemma Token_Read_ok:
  assumes "list_all rsv_hop_wf (TokHopFields t)" "Token_Len (Some t) \<le> length b"
  shows "Token_Read t b = Inr (Token_Len (Some t), put_at 0 (token_bytes t) b)"
proof -
  let ?hs = "concat (map rsv_hop_bytes (TokHopFields t))"
  have l: "length ?hs = length (TokHopFields t) * HopFieldLen" using assms(1) by (rule rsvhopw.concat_len)
  have "RsvInfo_Read t (slice 0 InfoFieldLen b) = Inr (rsv_info_bytes t)"
    using assms(2) by (simp add: RsvInfo_Read_ok Token_Len_def put_at_0)
  moreover have "write_fields hop_into HopFieldLen (TokHopFields t) InfoFieldLen (put_at 0 (rsv_info_bytes t) b) =
      Inr (put_at InfoFieldLen ?hs (put_at 0 (rsv_info_bytes t) b))"
    using assms by (intro rsvhopw.write_ok) (auto simp: Token_Len_def)
  moreover have "put_at InfoFieldLen ?hs (put_at 0 (rsv_info_bytes t) b) = put_at 0 (token_bytes t) b"
    using assms(2) l by (simp add: put_at_def token_bytes_def Token_Len_def add.commute)
  ultimately show ?thesis
    using assms(2) by (simp add: Token_Read_def Let_def Token_Len_def)
qed

lemma Token_ToRaw_bytes:
  "list_all rsv_hop_wf (TokHopFields t) \<Longrightarrow> Token_ToRaw (Some t) = Some (token_bytes t)"
  using Token_Read_ok [of t "replicate (Token_Len (Some t)) 0"] rsvhopw.concat_len [of "TokHopFields t"]
  by (simp add: Token_ToRaw_def put_at_0 token_bytes_def Token_Len_def)

lemma token_of_parts: "rsv_info.extend (rsv_info.truncate t) \<lparr>TokHopFields = TokHopFields t\<rparr> = (t :: token)"
  by (cases t) (simp add: rsv_info.defs)

lemma TokenFromRaw_ToRaw:
  assumes "RsvInfo_Validate t = Inr ()" "list_all rsv_hop_wf (TokHopFields t)"
  shows "TokenFromRaw (Token_ToRaw (Some t)) = Inr (Some t)"
proof -
  let ?hs = "concat (map rsv_hop_bytes (TokHopFields t))"
  have l: "length (token_bytes t) = InfoFieldLen + length (TokHopFields t) * HopFieldLen"
    using rsvhopw.concat_len [OF assms(2)] by (simp add: token_bytes_def)
  have s: "slice 0 InfoFieldLen (token_bytes t) = rsv_info_bytes t"
    by (simp add: slice_def token_bytes_def)
  have d: "decode_fields HopFieldFromRaw HopFieldLen (length (TokHopFields t)) InfoFieldLen (token_bytes t) =
      Inr (TokHopFields t)"
    using rsvhopw.decode_enc [OF assms(2), of "rsv_info_bytes t" InfoFieldLen "[]"] by (simp add: token_bytes_def)
  have n: "nat (int (length (token_bytes t)) - int InfoFieldLen) div HopFieldLen = length (TokHopFields t)"
    by (simp add: l rsv_len_defs)
  show ?thesis
    using InfoFieldFromRaw_bytes [OF assms(1), of "[]"] l s d n
    by (simp add: TokenFromRaw_def Token_ToRaw_bytes [OF assms(2)] Let_def token_of_parts not_less)
qed

text \<open>A token read from the wire is valid, and its bytes are those read but for the unused ones.\<close>

lemma TokenFromRaw_valid:
  assumes "TokenFromRaw (Some b) = Inr (Some t)"
  shows "RsvInfo_Validate t = Inr ()" "list_all rsv_hop_wf (TokHopFields t)" "length b = Token_Len (Some t)"
proof -
  define n where "n = nat (int (length b) - int InfoFieldLen) div HopFieldLen"
  from assms obtain inf hfs where
    c: "\<not> (int (length b) - int InfoFieldLen < 0 \<or> (int (length b) - int InfoFieldLen) mod int HopFieldLen \<noteq> 0)" and
    i: "InfoFieldFromRaw (slice 0 InfoFieldLen b) = Inr inf" and
    h: "decode_fields HopFieldFromRaw HopFieldLen n InfoFieldLen b = Inr hfs" and
    t: "t = rsv_info.extend inf \<lparr>TokHopFields = hfs\<rparr>"
    by (auto simp: TokenFromRaw_def Let_def res_simps n_def split: if_splits)
  have len: "length b = InfoFieldLen + n * HopFieldLen"
  proof -
    have "8 \<le> length b" "int (length b mod 8) = 0"
      using c by (auto simp: rsv_len_defs zmod_int)
    moreover have "nat (int (length b) - 8) = length b - 8" by simp
    moreover have "m = 8 + (m - 8) div 8 * 8" if "8 \<le> m" "m mod 8 = 0" for m :: nat
      using that by presburger
    ultimately show ?thesis by (simp add: n_def rsv_len_defs)
  qed
  obtain hfs' where "decode_fields HopFieldFromRaw HopFieldLen n InfoFieldLen b = Inr hfs'" "length hfs' = n"
    "list_all rsv_hop_wf hfs'"
    using rsvhopw.decode_ok [of InfoFieldLen n b] len by auto
  with h have hfs: "length hfs = n" "list_all rsv_hop_wf hfs" by auto
  from i have "RsvInfo_Validate inf = Inr ()"
    by (auto simp: InfoFieldFromRaw_def Let_def res_simps split: if_splits)
  then show "RsvInfo_Validate t = Inr ()" by (simp add: t rsv_info.defs RsvInfo_Validate_iff)
  show "list_all rsv_hop_wf (TokHopFields t)" "length b = Token_Len (Some t)"
    using hfs len by (simp_all add: t rsv_info.defs Token_Len_def)
qed

section \<open>Bandwidth classes\<close>

lemma isqrt_spec: "isqrt n * isqrt n \<le> n \<and> n < (isqrt n + 1) * (isqrt n + 1)"
proof (induction n rule: isqrt.induct)
  case (1 n)
  show ?case
  proof (cases "n = 0")
    case True
    then show ?thesis by (simp add: isqrt.simps)
  next
    case False
    define q where "q = isqrt (n div 4)"
    have q: "q * q \<le> n div 4" "n div 4 < (q + 1) * (q + 1)" using 1 False by (auto simp: q_def)
    then have b: "(2 * q) * (2 * q) \<le> n" "n < (2 * q + 2) * (2 * q + 2)" by (auto simp: algebra_simps)
    have i: "isqrt n = (if (2 * q + 1) * (2 * q + 1) \<le> n then 2 * q + 1 else 2 * q)"
      using False by (simp add: isqrt.simps [of n] q_def Let_def)
    show ?thesis using b by (cases "(2 * q + 1) * (2 * q + 1) \<le> n") (auto simp: i algebra_simps)
  qed
qed

lemma bw_cls_spec: "bw_cls m bw \<le> m \<and> (bw_cls m bw \<noteq> 0 \<longrightarrow> 2 ^ (bw_cls m bw + 7) \<le> bw * bw) \<and>
    (\<forall>c. bw_cls m bw < c \<and> c \<le> m \<longrightarrow> bw * bw < 2 ^ (c + 7))"
proof (induction m)
  case 0
  show ?case by simp
next
  case (Suc m)
  then show ?case by (cases "2 ^ (Suc m + 7) \<le> bw * bw") (auto simp: le_Suc_eq)
qed

end
