(* ===== verification/Colibri_Steps.thy ===== *)
theory Colibri_Steps
  imports Colibri_Tokens
begin

unbundle bit_operations_syntax

text \<open>
  Path steps of reservations (go/co/reservation/path.go): one ingress, egress and ISD-AS per AS on the path,
  their stored form, their reversal and the conversion from and to the interfaces of a SCION path, and the
  comparison with a COLIBRI transport path. \<open>Serialize\<close> and \<open>PathStepsFromRaw\<close> panic on short buffers, as
  in Go. \<open>String\<close> and \<open>StepsFromSnet\<close> (a call of \<open>StepsFromInterfaces\<close> on a third-party path object) are left
  out.
\<close>

section \<open>Steps\<close>

record path_step =
  StepIngress :: u16
  StepEgress :: u16
  StepIA :: u64

definition PathStep_Equal :: "path_step \<Rightarrow> path_step \<Rightarrow> bool" where
  "PathStep_Equal s t \<longleftrightarrow>
     StepIngress s = StepIngress t \<and> StepEgress s = StepEgress t \<and> IA_Equal (StepIA s) (StepIA t)"

definition PathStepLen :: nat where "PathStepLen = 2 + 2 + 8"

definition ColPathToRaw :: "colibri_min option \<Rightarrow> bytes res" where
  "ColPathToRaw p = (case p of
       None \<Rightarrow> Inr []
     | Some p \<Rightarrow> rbind (ColibriMin_ToBytes p) (\<lambda>(_, b). Inr b))"

definition colibri_min_zero :: colibri_min where
  "colibri_min_zero = \<lparr>MinTimestamp = replicate 8 0, MinInfoField = None, CurrHopField = None, MinRaw = [],
     MinSrc = None, MinDst = None\<rparr>"

definition ColPathFromRaw :: "bytes \<Rightarrow> colibri_min option res" where
  "ColPathFromRaw b =
     (if b = [] then Inr None else rbind (ColibriMin_FromBytes colibri_min_zero b) (\<lambda>p. Inr (Some p)))"

definition Steps_SrcIA :: "path_step list \<Rightarrow> u64 res" where
  "Steps_SrcIA p = (if p = [] then Inl (Panic ''index out of range'') else Inr (StepIA (hd p)))"

definition Steps_DstIA :: "path_step list \<Rightarrow> u64 res" where
  "Steps_DstIA p = (if p = [] then Inl (Panic ''index out of range'') else Inr (StepIA (last p)))"

definition Steps_Size :: "path_step list \<Rightarrow> nat" where
  "Steps_Size p = 2 + length p * PathStepLen"

text \<open>Each round of \<open>Serialize\<close> writes to the rest of the buffer and advances by 12 bytes; writing past its end
  panics.\<close>

definition step_into :: "path_step \<Rightarrow> bytes \<Rightarrow> bytes res" where
  "step_into s w = (let
     w = put_at 0 (PutUint16 (StepIngress s)) w;
     w = put_at 2 (PutUint16 (StepEgress s)) w
   in Inr (put_at 4 (PutUint64 (StepIA s)) w))"

definition Steps_Serialize :: "path_step list \<Rightarrow> bytes \<Rightarrow> bytes res" where
  "Steps_Serialize p buff =
     (if length buff < 2 then Inl (Panic ''index out of range'')
      else write_fields step_into PathStepLen p 2 (put_at 0 (PutUint16 (of_nat (length p))) buff))"

definition Steps_ToRaw :: "path_step list \<Rightarrow> bytes res" where
  "Steps_ToRaw p = Steps_Serialize p (replicate (Steps_Size p) 0)"

definition step_from :: "bytes \<Rightarrow> path_step res" where
  "step_from w =
     Inr \<lparr>StepIngress = Uint16 w, StepEgress = Uint16 (drop 2 w), StepIA = Uint64 (drop 4 w)\<rparr>"

definition PathStepsFromRaw :: "bytes \<Rightarrow> path_step list res" where
  "PathStepsFromRaw b =
     (if length b < 2 then Inl (Panic ''index out of range'')
      else decode_fields step_from PathStepLen (unat (Uint16 b)) 2 b)"

definition Steps_Reverse :: "path_step list \<Rightarrow> path_step list" where
  "Steps_Reverse p =
     rev (map (\<lambda>s. s\<lparr>StepIngress := StepEgress s, StepEgress := StepIngress s\<rparr>) p)"

section \<open>Interfaces of a path\<close>

record path_interface =
  IfID :: u64
  IfIA :: u64

text \<open>\<open>ifaces[1 : len(ifaces)-1]\<close> panics for a path without steps that is not \<open>nil\<close>; \<open>None\<close> is the \<open>nil\<close> path.\<close>

definition Steps_Interfaces :: "path_step list option \<Rightarrow> path_interface list res" where
  "Steps_Interfaces p = (case p of
       None \<Rightarrow> Inr []
     | Some p \<Rightarrow> let
         ifaces = concat (map (\<lambda>s. [\<lparr>IfID = ucast (StepIngress s), IfIA = StepIA s\<rparr>,
                                    \<lparr>IfID = ucast (StepEgress s), IfIA = StepIA s\<rparr>]) p)
       in if ifaces = [] then Inl (Panic ''slice bounds out of range'')
          else gslice 1 (length ifaces - 1) ifaces)"

fun steps_loop :: "path_interface list \<Rightarrow> path_step \<Rightarrow> path_step list" where
  "steps_loop (a # b # ifs) cur =
     cur\<lparr>StepEgress := ucast (IfID a), StepIA := IfIA a\<rparr> #
     steps_loop ifs \<lparr>StepIngress = ucast (IfID b), StepEgress = 0, StepIA = 0\<rparr>"
| "steps_loop _ cur = [cur]"

definition StepsFromInterfaces :: "path_interface list \<Rightarrow> path_step list res" where
  "StepsFromInterfaces ifaces =
     (if length ifaces mod 2 \<noteq> 0 then Inl (Err ''wrong number of interfaces, not even'')
      else if ifaces = [] then Inr []
      else let
        steps = steps_loop ifaces \<lparr>StepIngress = 0, StepEgress = 0, StepIA = 0\<rparr>;
        k = length steps - 1
      in Inr (steps[k := (steps ! k)\<lparr>StepIA := IfIA (last ifaces)\<rparr>]))"

section \<open>Comparison\<close>

text \<open>A nil hop field or info field of the path is a nil pointer dereference.\<close>

definition ValidateEquivalent :: "path_step list \<Rightarrow> colibri_min option \<Rightarrow> int \<Rightarrow> unit res" where
  "ValidateEquivalent s p atStep = (case p of
       None \<Rightarrow> Inr ()
     | Some p \<Rightarrow> (case MinInfoField p of
           None \<Rightarrow> Inl (Panic ''nil pointer dereference'')
         | Some infF \<Rightarrow>
             if \<not> ColS infF then Inl (Panic ''colibri EER paths are not yet supported'')
             else (case CurrHopField p of
                 None \<Rightarrow> Inl (Panic ''nil pointer dereference'')
               | Some hf \<Rightarrow>
                   if atStep < 0 \<or> atStep \<ge> int (length s) then Inl (Panic ''index out of range'')
                   else let
                     st = s ! nat atStep;
                     (ig, eg) = (IngressId hf, EgressId hf);
                     (ig, eg) = (if ColCurrHF infF = 0 then (StepIngress st, eg)
                                 else if ColCurrHF infF = HFCount infF - 1 then (ig, StepEgress st)
                                 else (ig, eg))
                   in if ig \<noteq> StepIngress st \<or> eg \<noteq> StepEgress st
                      then Inl (Err ''steps and path are not equivalent'') else Inr ())))"

definition Steps_Equal :: "path_step list \<Rightarrow> path_step list \<Rightarrow> bool" where
  "Steps_Equal s t \<longleftrightarrow> length s = length t \<and> list_all2 PathStep_Equal s t"

definition InEgFromColibriPath :: "colibri_min option \<Rightarrow> (u16 \<times> u16) res" where
  "InEgFromColibriPath p = (case p of
       None \<Rightarrow> Inl (Panic ''nil pointer dereference'')
     | Some p \<Rightarrow> (case CurrHopField p of
           None \<Rightarrow> Inl (Panic ''nil pointer dereference'')
         | Some hf \<Rightarrow> Inr (IngressId hf, EgressId hf)))"

section \<open>The stored form\<close>

definition step_bytes :: "path_step \<Rightarrow> bytes" where
  "step_bytes s = PutUint16 (StepIngress s) @ PutUint16 (StepEgress s) @ PutUint64 (StepIA s)"

lemma length_step_bytes [simp]: "length (step_bytes s) = PathStepLen"
  by (simp add: step_bytes_def PathStepLen_def)

lemma step_into_ok: "PathStepLen \<le> length b \<Longrightarrow> step_into s b = Inr (put_at 0 (step_bytes s) b)"
  by (simp add: step_into_def step_bytes_def put_at_def PathStepLen_def)

lemma step_from_bytes: "step_from (step_bytes s @ ys) = Inr s"
proof -
  have "Uint16 (step_bytes s @ ys) = StepIngress s" "Uint16 (drop 2 (step_bytes s @ ys)) = StepEgress s"
    "Uint64 (drop 4 (step_bytes s @ ys)) = StepIA s"
    using Uint16_PutUint16 [of "StepIngress s"] Uint16_PutUint16 [of "StepEgress s"] Uint64_PutUint64 [of "StepIA s"]
    by (simp_all add: step_bytes_def Uint16_def Uint64_def nth_append)
  then show ?thesis by (simp add: step_from_def)
qed

interpretation stepw: wire_field "\<lambda>_. True" step_bytes step_into step_from PathStepLen
  by unfold_locales (simp_all add: step_into_ok step_from_bytes, simp add: step_from_def)

text \<open>Steps survive being stored, as long as their number fits the 16 bits of the count.\<close>

lemma steps_roundtrip:
  assumes "length p < 2 ^ 16"
  shows "\<exists>b. Steps_ToRaw p = Inr b \<and> length b = Steps_Size p \<and> PathStepsFromRaw b = Inr p"
proof -
  let ?b = "PutUint16 (of_nat (length p)) @ concat (map step_bytes p)"
  have all: "list_all (\<lambda>_. True) p" by (simp add: list_all_iff)
  have l: "length (concat (map step_bytes p)) = length p * PathStepLen"
    by (rule stepw.concat_len [OF all])
  have r: "Steps_ToRaw p = Inr ?b"
    using stepw.write_ok [OF all, of 2 "put_at 0 (PutUint16 (of_nat (length p))) (replicate (Steps_Size p) 0)"] l
    by (simp add: Steps_ToRaw_def Steps_Serialize_def Steps_Size_def put_at_def)
  have "unat (of_nat (length p) :: u16) = length p"
    using assms by (simp add: unat_of_nat take_bit_nat_eq_self)
  moreover have "Uint16 ?b = of_nat (length p)"
    using Uint16_append [of "PutUint16 (of_nat (length p))"] by simp
  ultimately have "PathStepsFromRaw ?b = Inr p"
    using stepw.decode_enc [OF all, of "PutUint16 (of_nat (length p))" 2 "[]"]
    by (simp add: PathStepsFromRaw_def)
  then show ?thesis using r l by (simp add: Steps_Size_def)
qed

lemma Steps_Reverse_involutive: "Steps_Reverse (Steps_Reverse p) = p"
  by (simp add: Steps_Reverse_def rev_map o_def)

end
