(* ===== verification/Colibri_Indices.thy ===== *)
theory Colibri_Indices
  imports Colibri_Steps
begin

text \<open>
  Indices of reservations (go/co/reservation/index.go) and the reservations that hold them: segment reservations
  (go/co/reservation/segment) and end-to-end reservations (go/co/reservation/e2e). \<open>base_index\<close> has the parts of an
  index that \<open>IndicesInterface\<close> gives access to; a segment index extends it. An operation on a reservation
  returns the reservation as it leaves it. A pointer to an index is its position. \<open>time.Time\<close> is an \<open>int\<close> of
  nanoseconds since the Unix epoch. The diagnostic output of \<open>deriveColibriPath\<close> and the \<open>String\<close> methods are left
  out.
\<close>

section \<open>Indices\<close>

record base_index =
  Idx :: u8
  Expiration :: int
  AllocBW :: u8
  IdxToken :: "token option"

definition token_consistent :: "'a base_index_scheme \<Rightarrow> unit res" where
  "token_consistent ix = (case IdxToken ix of
       None \<Rightarrow> Inr ()
     | Some token \<Rightarrow>
         if InfIdx token \<noteq> Idx ix then Inl (Err ''inconsistent token'')
         else if ExpirationTick token \<noteq> TickFromTime (Expiration ix) then Inl (Err ''inconsistent token'')
         else if InfBWCls token \<noteq> AllocBW ix then Inl (Err ''inconsistent token'')
         else Inr ())"

fun validate_loop :: "'a base_index_scheme list \<Rightarrow> int \<Rightarrow> u8 \<Rightarrow> nat \<Rightarrow> unit res" where
  "validate_loop [] lastExpiration lastIndexNumber indicesPerExpTime = Inr ()"
| "validate_loop (ix # ixs) lastExpiration lastIndexNumber indicesPerExpTime =
     (if Expiration ix < lastExpiration then Inl (Err ''index expires before than a previous one'')
      else if Expiration ix = lastExpiration \<and> indicesPerExpTime + 1 > 3
      then Inl (Err ''more than three indices per expiration time'')
      else if Index_Sub (Idx ix) lastIndexNumber \<noteq> 1 then Inl (Err ''non consecutive indices'')
      else rbind (token_consistent ix) (\<lambda>_.
        validate_loop ixs (Expiration ix) (Idx ix)
          (if Expiration ix = lastExpiration then indicesPerExpTime + 1 else 1)))"

definition ValidateIndices :: "'a base_index_scheme list \<Rightarrow> unit res" where
  "ValidateIndices indices =
     (if indices \<noteq> [] \<and> length indices > 16 then Inl (Err ''too many indices'')
      else validate_loop indices (SecsToTime 0)
        (if indices = [] then Index_Sub 0 1 else Index_Sub (Idx (hd indices)) 1) 0)"

definition FindIndex :: "'a base_index_scheme list \<Rightarrow> u8 \<Rightarrow> nat res" where
  "FindIndex indices idx = (let
     firstIdx = (if indices = [] then 0 else Idx (hd indices));
     sliceIndex = unat (Index_Sub idx firstIdx)
   in if int sliceIndex > int (length indices) - 1 then Inl (Err ''index not found in this reservation'')
      else Inr sliceIndex)"

section \<open>Segment indices (segment/index.go)\<close>

datatype index_state = IndexTemporary | IndexPending | IndexActive

record seg_index = base_index +
  State :: index_state
  MinBW :: u8
  MaxBW :: u8

definition seg_NewIndex :: "u8 \<Rightarrow> int \<Rightarrow> index_state \<Rightarrow> u8 \<Rightarrow> u8 \<Rightarrow> u8 \<Rightarrow> token option \<Rightarrow> seg_index" where
  "seg_NewIndex idx expiration state minBW maxBW allocBW token =
     \<lparr>Idx = idx, Expiration = expiration, AllocBW = allocBW, IdxToken = token,
      State = state, MinBW = minBW, MaxBW = maxBW\<rparr>"

text \<open>\<open>time.Time{}\<close> is the first of January of the year 1.\<close>

definition zero_time :: int where "zero_time = - 62135596800 * second_ns"

definition OldestExp :: "seg_index list \<Rightarrow> int" where
  "OldestExp idxs = (case idxs of
       [] \<Rightarrow> zero_time
     | ix # ixs \<Rightarrow> foldl (\<lambda>e i. if Expiration i < e then Expiration i else e) (Expiration ix) ixs)"

definition NewestExp :: "seg_index list \<Rightarrow> int" where
  "NewestExp idxs = (case idxs of
       [] \<Rightarrow> zero_time
     | ix # ixs \<Rightarrow> foldl (\<lambda>e i. if Expiration i > e then Expiration i else e) (Expiration ix) ixs)"

fun compliant :: "(seg_index \<Rightarrow> bool) list \<Rightarrow> seg_index \<Rightarrow> bool" where
  "compliant [] index = True"
| "compliant (f # fs) index = (if f index then compliant fs index else False)"

definition Indices_Filter :: "seg_index list \<Rightarrow> (seg_index \<Rightarrow> bool) list \<Rightarrow> seg_index list" where
  "Indices_Filter idxs filters = filter (compliant filters) idxs"

definition ByExpiration :: "int \<Rightarrow> seg_index \<Rightarrow> bool" where
  "ByExpiration atLeastUntil index \<longleftrightarrow> Expiration index > atLeastUntil"

definition ByMinBW :: "u8 \<Rightarrow> seg_index \<Rightarrow> bool" where
  "ByMinBW minBW index \<longleftrightarrow> MinBW index \<ge> minBW"

definition ByMaxBW :: "u8 \<Rightarrow> seg_index \<Rightarrow> bool" where
  "ByMaxBW maxBW index \<longleftrightarrow> MaxBW index \<le> maxBW"

definition NotConfirmed :: "seg_index \<Rightarrow> bool" where
  "NotConfirmed index \<longleftrightarrow> State index = IndexActive \<or> State index = IndexPending"

definition NotActive :: "seg_index \<Rightarrow> bool" where
  "NotActive index \<longleftrightarrow> State index = IndexActive"

definition heatDeathOfTheUniverse :: int where
  "heatDeathOfTheUniverse = (2 ^ 63 - 62135596801) * second_ns + 999999999"

definition NotSwitchableFrom :: "seg_index option \<Rightarrow> seg_index \<Rightarrow> bool" where
  "NotSwitchableFrom index ind = (let
     atLeastUntil = (case index of None \<Rightarrow> heatDeathOfTheUniverse | Some i \<Rightarrow> Expiration i - 1)
   in NotConfirmed ind \<and> ByExpiration atLeastUntil ind)"

section \<open>Segment reservations (segment/reservation.go)\<close>

record seg_rsv =
  RsvID :: rsv_id
  Indices :: "seg_index list"
  activeIndex :: int
  RsvPathType :: u8
  RsvEndProps :: u8
  TrafficSplit :: u8
  RsvSteps :: "path_step list"
  CurrentStep :: int
  TransportPath :: "colibri_min option"

definition NewReservation :: "u64 \<Rightarrow> seg_rsv" where
  "NewReservation asid = \<lparr>RsvID = \<lparr>ASID = asid, Suffix = replicate IDSuffixSegLen 0\<rparr>, Indices = [],
     activeIndex = -1, RsvPathType = 0, RsvEndProps = 0, TrafficSplit = 0, RsvSteps = [], CurrentStep = 0,
     TransportPath = None\<rparr>"

text \<open>Indexing a Go slice with an \<open>int\<close>.\<close>

definition go_nth :: "'a list \<Rightarrow> int \<Rightarrow> 'a res" where
  "go_nth xs i = (if i < 0 \<or> i \<ge> int (length xs) then Inl (Panic ''index out of range'') else Inr (xs ! nat i))"

definition Rsv_Ingress :: "seg_rsv \<Rightarrow> u16 res" where
  "Rsv_Ingress r = rbind (go_nth (RsvSteps r) (CurrentStep r)) (\<lambda>s. Inr (StepIngress s))"

definition Rsv_Egress :: "seg_rsv \<Rightarrow> u16 res" where
  "Rsv_Egress r = rbind (go_nth (RsvSteps r) (CurrentStep r)) (\<lambda>s. Inr (StepEgress s))"

definition ActiveIndex :: "seg_rsv \<Rightarrow> seg_index option res" where
  "ActiveIndex r =
     (if activeIndex r = -1 then Inr None
      else rbind (go_nth (Indices r) (activeIndex r)) (\<lambda>ix. Inr (Some ix)))"

text \<open>The position of the only active index, or the error for a second one.\<close>

fun active_loop :: "seg_index list \<Rightarrow> int \<Rightarrow> int \<Rightarrow> int res" where
  "active_loop [] i active = Inr active"
| "active_loop (ix # ixs) i active =
     (if State ix = IndexActive
      then if active \<noteq> -1 then Inl (Err ''more than one active index'') else active_loop ixs (i + 1) i
      else active_loop ixs (i + 1) active)"

definition Rsv_Validate :: "seg_rsv option \<Rightarrow> unit res" where
  "Rsv_Validate ro = (case ro of
       None \<Rightarrow> Inr ()
     | Some r \<Rightarrow>
         if ASID (RsvID r) = 0 then Inl (Err ''Reservation ID not set'')
         else rbind (ValidateIndices (Indices r)) (\<lambda>_.
         if activeIndex r < -1 \<or> activeIndex r > 0 \<or> activeIndex r \<ge> int (length (Indices r))
         then Inl (Err ''invalid active index'')
         else rbind (active_loop (Indices r) 0 (-1)) (\<lambda>_.
         if length (RsvSteps r) < 2 then Inl (Err ''Wrong steps state'')
         else if StepIngress (hd (RsvSteps r)) \<noteq> 0 then Inl (Err ''Wrong interface for srcIA ingress'')
         else if StepEgress (last (RsvSteps r)) \<noteq> 0 then Inl (Err ''Wrong interface for dstIA egress'')
         else rbind (InEgFromColibriPath (TransportPath r)) (\<lambda>(ig, eg).
         rbind (Rsv_Ingress r) (\<lambda>ringress.
         rbind (Rsv_Egress r) (\<lambda>regress.
         if ig \<noteq> ringress \<or> eg \<noteq> regress
         then Inl (Err ''Inconsistent ingress/egress from dataplane and reservation'')
         else wrap_err ''validating reservation, end properties failed''
           (PathEndProps_Validate (RsvEndProps r))))))))"

definition addIndex :: "seg_rsv \<Rightarrow> seg_index \<Rightarrow> (seg_rsv \<times> u8) res" where
  "addIndex r index = (let newIndices = Indices r @ [index] in
     rbind (ValidateIndices newIndices) (\<lambda>_. Inr (r\<lparr>Indices := newIndices\<rparr>, Idx index)))"

definition Rsv_NewIndex :: "seg_rsv \<Rightarrow> u8 \<Rightarrow> int \<Rightarrow> u8 \<Rightarrow> u8 \<Rightarrow> u8 \<Rightarrow> u8 \<Rightarrow> u8 \<Rightarrow> (seg_rsv \<times> u8) res" where
  "Rsv_NewIndex r idx expTime minBW maxBW allocBW rlc pt = (let
     tok = \<lparr>ExpirationTick = TickFromTime expTime, InfIdx = idx, InfBWCls = allocBW, InfPathType = pt,
            InfRLC = rlc, TokHopFields = []\<rparr>;
     index = seg_NewIndex idx expTime IndexTemporary minBW maxBW allocBW (Some tok)
   in addIndex r index)"

definition Rsv_Index :: "seg_rsv \<Rightarrow> u8 \<Rightarrow> nat option" where
  "Rsv_Index r idx = (case FindIndex (Indices r) idx of Inl _ \<Rightarrow> None | Inr sliceIndex \<Rightarrow> Some sliceIndex)"

definition NextIndexToRenew :: "seg_rsv \<Rightarrow> u8" where
  "NextIndexToRenew r =
     Index_Add (if Indices r = [] then Index_Sub 0 1 else Idx (last (Indices r))) 1"

definition NextIndexToActivate :: "seg_rsv \<Rightarrow> seg_index option res" where
  "NextIndexToActivate r =
     (if Indices r = [] then Inr None
      else if activeIndex r < 0 then Inr (Some (last (Indices r)))
      else if activeIndex r + 1 < int (length (Indices r))
      then rbind (go_nth (Indices r) (activeIndex r + 1)) (\<lambda>ix. Inr (Some ix))
      else Inr None)"

definition set_state :: "nat \<Rightarrow> index_state \<Rightarrow> seg_index list \<Rightarrow> seg_index list" where
  "set_state i st idxs = idxs[i := (idxs ! i)\<lparr>State := st\<rparr>]"

definition SetIndexConfirmed :: "seg_rsv \<Rightarrow> u8 \<Rightarrow> seg_rsv res" where
  "SetIndexConfirmed r idx =
     rbind (FindIndex (Indices r) idx) (\<lambda>sliceIndex.
     if State (Indices r ! sliceIndex) = IndexActive then Inl (Err ''cannot confirm an already active index'')
     else Inr (r\<lparr>Indices := set_state sliceIndex IndexPending (Indices r)\<rparr>))"

definition SetIndexActive :: "seg_rsv \<Rightarrow> u8 \<Rightarrow> seg_rsv res" where
  "SetIndexActive r idx =
     rbind (FindIndex (Indices r) idx) (\<lambda>sliceIndex.
     if activeIndex r = int sliceIndex then Inr r
     else if State (Indices r ! sliceIndex) \<noteq> IndexPending \<and> State (Indices r ! sliceIndex) \<noteq> IndexActive
     then Inl (Err ''attempt to activate a non confirmed index'')
     else if activeIndex r > -1 \<and> activeIndex r > int sliceIndex then Inl (Err ''activating a past index'')
     else Inr (r\<lparr>Indices := set_state 0 IndexActive (drop sliceIndex (Indices r)), activeIndex := 0\<rparr>))"

definition SetIndexInactive :: "seg_rsv \<Rightarrow> seg_rsv res" where
  "SetIndexInactive r =
     (if activeIndex r = 0
      then if Indices r = [] then Inl (Panic ''index out of range'')
           else Inr (r\<lparr>Indices := set_state 0 IndexPending (Indices r), activeIndex := -1\<rparr>)
      else Inr r)"

definition Rsv_RemoveIndex :: "seg_rsv \<Rightarrow> u8 \<Rightarrow> seg_rsv res" where
  "Rsv_RemoveIndex r idx =
     rbind (FindIndex (Indices r) idx) (\<lambda>sliceIndex.
     Inr (r\<lparr>Indices := drop (sliceIndex + 1) (Indices r),
            activeIndex := (if activeIndex r > int sliceIndex then activeIndex r - (int sliceIndex + 1) else -1)\<rparr>))"

definition max_bw :: "('a \<Rightarrow> u8) \<Rightarrow> 'a list \<Rightarrow> u8" where
  "max_bw bw idxs = foldl (\<lambda>m idx. MaxBWCls m (bw idx)) 0 idxs"

definition MaxBlockedBW :: "(u8 \<Rightarrow> u64) \<Rightarrow> seg_rsv \<Rightarrow> u64" where
  "MaxBlockedBW conv r = (if Indices r = [] then 0 else ToKbps conv (max_bw AllocBW (Indices r)))"

definition MaxRequestedBW :: "(u8 \<Rightarrow> u64) \<Rightarrow> seg_rsv \<Rightarrow> u64" where
  "MaxRequestedBW conv r = (if Indices r = [] then 0 else ToKbps conv (max_bw MaxBW (Indices r)))"

section \<open>Data plane paths of a segment reservation\<close>

definition deriveInfoField :: "seg_rsv \<Rightarrow> bool \<Rightarrow> col_info option res" where
  "deriveInfoField r reverse =
     rbind (ActiveIndex r) (\<lambda>index. case index of
         None \<Rightarrow> Inr None
       | Some index \<Rightarrow> (case IdxToken index of
             None \<Rightarrow> Inl (Panic ''nil pointer dereference'')
           | Some token \<Rightarrow> let
               hfCount = of_nat (length (TokHopFields token)) :: u8;
               currHF = (if reverse then hfCount - 1 else 0)
             in Inr (Some \<lparr>ColC = True, ColR = False, ColS = True, ColVer = Idx index, ColCurrHF = currHF,
                  HFCount = hfCount, ResIdSuffix = Suffix (RsvID r) @ replicate (LenSuffix - IDSuffixSegLen) 0,
                  ExpTick = ExpirationTick token, BwCls = AllocBW index, Rlc = InfRLC token, OrigPayLen = 0\<rparr>)))"

definition col_hop_of :: "rsv_hop \<Rightarrow> col_hop" where
  "col_hop_of hf = \<lparr>IngressId = HopIngress hf, EgressId = HopEgress hf, ColMac = HopMac hf\<rparr>"

text \<open>The exchange of the loop \<open>for i := 0; i < hfc/2; i++\<close>.\<close>

definition swap_ends :: "nat \<Rightarrow> nat \<Rightarrow> 'a list \<Rightarrow> 'a list" where
  "swap_ends n i xs = xs[i := xs ! (n - i - 1), n - i - 1 := xs ! i]"

text \<open>An error of \<open>Reverse\<close> or \<open>ToMinimal\<close> gives \<open>nil\<close>.\<close>

definition nil_on_error :: "'a res \<Rightarrow> 'a option res" where
  "nil_on_error r = (case r of
       Inr x \<Rightarrow> Inr (Some x)
     | Inl (Panic m) \<Rightarrow> Inl (Panic m)
     | Inl _ \<Rightarrow> Inr None)"

definition deriveColibriPath :: "seg_rsv \<Rightarrow> bool \<Rightarrow> colibri_min option res" where
  "deriveColibriPath r reverse =
     rbind (ActiveIndex r) (\<lambda>index. case index of
         None \<Rightarrow> Inr None
       | Some index \<Rightarrow>
           rbind (deriveInfoField r reverse) (\<lambda>info.
           case IdxToken index of
             None \<Rightarrow> Inl (Panic ''nil pointer dereference'')
           | Some token \<Rightarrow> let
               hops = map col_hop_of (TokHopFields token);
               p = colibri_path_zero\<lparr>ColInfoField := info, ColHopFields := hops\<rparr>;
               hfc = length hops
             in rbind (if reverse
                  then nil_on_error (ColibriPath_Reverse
                         (p\<lparr>ColHopFields := fold (swap_ends hfc) [0..<hfc div 2] hops\<rparr>))
                  else Inr (Some p)) (\<lambda>p. case p of
                None \<Rightarrow> Inr None
              | Some p \<Rightarrow> let steps = (if reverse then Steps_Reverse (RsvSteps r) else RsvSteps r) in
                  rbind (Steps_SrcIA steps) (\<lambda>srcIA.
                  rbind (NewEndpointWithAddr srcIA (SVCAddr (SVC_Base SvcCOL))) (\<lambda>src.
                  rbind (Steps_DstIA steps) (\<lambda>dstIA.
                  rbind (NewEndpointWithAddr dstIA (SVCAddr (SVC_Base SvcCOL))) (\<lambda>dst.
                  nil_on_error (ColibriPath_ToMinimal (p\<lparr>ColSrc := Some src, ColDst := Some dst\<rparr>)))))))))"

definition DeriveColibriPathAtSource :: "seg_rsv \<Rightarrow> colibri_min option res" where
  "DeriveColibriPathAtSource r = deriveColibriPath r False"

definition DeriveColibriPathAtDestination :: "seg_rsv \<Rightarrow> colibri_min option res" where
  "DeriveColibriPathAtDestination r = deriveColibriPath r True"

section \<open>End-to-end reservations (e2e/reservation.go)\<close>

record e2e_rsv =
  E2EID :: rsv_id
  E2ESteps :: "path_step list"
  E2ECurrentStep :: int
  SegmentReservations :: "seg_rsv option list"
  E2EIndices :: "base_index list"

definition E2E_Ingress :: "e2e_rsv \<Rightarrow> u16 res" where
  "E2E_Ingress r = rbind (go_nth (E2ESteps r) (E2ECurrentStep r)) (\<lambda>s. Inr (StepIngress s))"

definition E2E_Egress :: "e2e_rsv \<Rightarrow> u16 res" where
  "E2E_Egress r = rbind (go_nth (E2ESteps r) (E2ECurrentStep r)) (\<lambda>s. Inr (StepEgress s))"

definition IsFirstAS :: "e2e_rsv \<Rightarrow> bool" where
  "IsFirstAS r \<longleftrightarrow> E2ECurrentStep r = 0"

definition IsLastAS :: "e2e_rsv \<Rightarrow> bool" where
  "IsLastAS r \<longleftrightarrow> E2ECurrentStep r = int (length (E2ESteps r)) - 1"

definition seg_steps :: "seg_rsv option \<Rightarrow> path_step list res" where
  "seg_steps s = (case s of None \<Rightarrow> Inl (Panic ''nil pointer dereference'') | Some s \<Rightarrow> Inr (RsvSteps s))"

definition IsStitchPoint :: "e2e_rsv \<Rightarrow> u64 \<Rightarrow> bool res" where
  "IsStitchPoint r ia = (case SegmentReservations r of
       [a, b] \<Rightarrow>
         rbind (rbind (seg_steps a) Steps_DstIA) (\<lambda>dst.
         if dst \<noteq> ia then Inr False
         else rbind (rbind (seg_steps b) Steps_SrcIA) (\<lambda>src. Inr (src = ia)))
     | _ \<Rightarrow> Inr False)"

fun seg_loop :: "seg_rsv option list \<Rightarrow> unit res" where
  "seg_loop [] = Inr ()"
| "seg_loop (None # rs) = Inl (Err ''invalid segment reservation referenced by e2e, is nil'')"
| "seg_loop (Some rsv # rs) = (case Rsv_Validate (Some rsv) of
       Inl (Panic m) \<Rightarrow> Inl (Panic m)
     | Inl _ \<Rightarrow> Inl (Err ''invalid segment reservation referenced by e2e one'')
     | Inr _ \<Rightarrow> seg_loop rs)"

definition E2E_Validate :: "e2e_rsv \<Rightarrow> unit res" where
  "E2E_Validate r =
     rbind (ValidateIndices (E2EIndices r)) (\<lambda>_.
     if length (SegmentReservations r) < 1 \<or> length (SegmentReservations r) > 2
     then Inl (Err ''wrong number of segment reservations referenced in E2E reservation'')
     else seg_loop (SegmentReservations r))"

definition E2E_NewIndex :: "e2e_rsv \<Rightarrow> int \<Rightarrow> u8 \<Rightarrow> (e2e_rsv \<times> u8) res" where
  "E2E_NewIndex r expTime bw = (let
     idx = (if E2EIndices r = [] then 0 else Index_Add (Idx (last (E2EIndices r))) 1);
     tok = \<lparr>ExpirationTick = TickFromTime expTime, InfIdx = idx, InfBWCls = bw, InfPathType = E2EPath, InfRLC = 0,
            TokHopFields = []\<rparr>;
     newIndices = E2EIndices r @ [\<lparr>Idx = idx, Expiration = expTime, AllocBW = bw, IdxToken = Some tok\<rparr>]
   in rbind (ValidateIndices newIndices) (\<lambda>_. Inr (r\<lparr>E2EIndices := newIndices\<rparr>, idx)))"

definition E2E_RemoveIndex :: "e2e_rsv \<Rightarrow> u8 \<Rightarrow> e2e_rsv res" where
  "E2E_RemoveIndex r idx =
     rbind (FindIndex (E2EIndices r) idx) (\<lambda>sliceIndex.
     Inr (r\<lparr>E2EIndices := drop (sliceIndex + 1) (E2EIndices r)\<rparr>))"

definition E2E_Index :: "e2e_rsv option \<Rightarrow> u8 \<Rightarrow> nat option" where
  "E2E_Index ro idx = (case ro of
       None \<Rightarrow> None
     | Some r \<Rightarrow> (case FindIndex (E2EIndices r) idx of Inl _ \<Rightarrow> None | Inr sliceIndex \<Rightarrow> Some sliceIndex))"

definition AllocResv :: "(u8 \<Rightarrow> u64) \<Rightarrow> e2e_rsv \<Rightarrow> u64" where
  "AllocResv conv r = (let idxs = E2EIndices r; n = length idxs in
     if n = 0 then 0
     else ToKbps conv
       (if n = 1 then AllocBW (idxs ! (n - 1)) else MaxBWCls (AllocBW (idxs ! (n - 1))) (AllocBW (idxs ! (n - 2)))))"

definition E2E_DstIA :: "e2e_rsv \<Rightarrow> u64 res" where
  "E2E_DstIA r =
     (if SegmentReservations r = [] then Inr 0
      else rbind (seg_steps (last (SegmentReservations r))) Steps_DstIA)"

definition GetLastSegmentPathSteps :: "e2e_rsv \<Rightarrow> path_step list res" where
  "GetLastSegmentPathSteps r =
     (if SegmentReservations r = [] then Inl (Panic ''index out of range'')
      else seg_steps (last (SegmentReservations r)))"

definition e2e_DeriveColibriPath :: "rsv_id \<Rightarrow> u64 \<Rightarrow> bytes \<Rightarrow> u64 \<Rightarrow> bytes \<Rightarrow> token \<Rightarrow> colibri_path" where
  "e2e_DeriveColibriPath i srcIA srcHost dstIA dstHost tok =
     colibri_path_zero\<lparr>
       ColInfoField := Some \<lparr>ColC = False, ColR = False, ColS = False, ColVer = InfIdx tok, ColCurrHF = 0,
         HFCount = of_nat (length (TokHopFields tok)), ResIdSuffix = go_copy (replicate 12 0) (Suffix i),
         ExpTick = ExpirationTick tok, BwCls = InfBWCls tok, Rlc = InfRLC tok, OrigPayLen = 0\<rparr>,
       ColHopFields := map col_hop_of (TokHopFields tok),
       ColSrc := Some (NewEndpointWithIP srcIA srcHost),
       ColDst := Some (NewEndpointWithIP dstIA dstHost)\<rparr>"

section \<open>What \<open>ValidateIndices\<close> accepts\<close>

definition indices_wf :: "'a base_index_scheme list \<Rightarrow> bool" where
  "indices_wf ixs \<longleftrightarrow> length ixs \<le> 16 \<and>
     sorted (map Expiration ixs) \<and> (\<forall>e \<in> set (map Expiration ixs). 0 \<le> e) \<and>
     successively (\<lambda>a b. Index_Sub b a = 1) (map Idx ixs) \<and>
     (\<forall>t. count_list (map Expiration ixs) t \<le> 3)"

definition token_ok :: "'a base_index_scheme \<Rightarrow> bool" where
  "token_ok ix \<longleftrightarrow> (case IdxToken ix of
       None \<Rightarrow> True
     | Some t \<Rightarrow> InfIdx t = Idx ix \<and> ExpirationTick t = TickFromTime (Expiration ix) \<and> InfBWCls t = AllocBW ix)"

lemma token_consistent_iff: "token_consistent ix = Inr () \<longleftrightarrow> token_ok ix"
  by (auto simp: token_consistent_def token_ok_def split: option.splits)

lemma token_consistent_Err: "token_consistent ix = Inl e \<Longrightarrow> \<exists>m. e = Err m"
  by (auto simp: token_consistent_def split: option.splits if_splits)

lemma validate_loop_iff:
  "c \<le> 3 \<Longrightarrow> validate_loop ixs e n c = Inr () \<longleftrightarrow>
     sorted (e # map Expiration ixs) \<and> successively (\<lambda>a b. Index_Sub b a = 1) (n # map Idx ixs) \<and>
     (\<forall>t. count_list (map Expiration ixs) t + (if t = e then c else 0) \<le> 3) \<and> list_all token_ok ixs"
proof (induction ixs arbitrary: e n c)
  case Nil
  then show ?case by simp
next
  case (Cons ix ixs)
  let ?x = "Expiration ix"
  consider "?x < e" | "?x = e" | "e < ?x" by linarith
  then show ?case
  proof cases
    case 1
    then show ?thesis by auto
  next
    case 2
    then have "validate_loop (ix # ixs) e n c = Inr () \<longleftrightarrow>
        c + 1 \<le> 3 \<and> Index_Sub (Idx ix) n = 1 \<and> token_ok ix \<and> validate_loop ixs e (Idx ix) (c + 1) = Inr ()"
      by (auto simp: res_simps token_consistent_iff)
    moreover have "(\<forall>t. count_list (map Expiration (ix # ixs)) t + (if t = e then c else 0) \<le> 3) \<longleftrightarrow>
        c + 1 \<le> 3 \<and> (\<forall>t. count_list (map Expiration ixs) t + (if t = e then c + 1 else 0) \<le> 3)"
      using 2 by (auto dest: spec [of _ e])
    moreover have "sorted (e # map Expiration (ix # ixs)) \<longleftrightarrow> sorted (e # map Expiration ixs)"
      using 2 by auto
    moreover have "successively (\<lambda>a b. Index_Sub b a = 1) (n # map Idx (ix # ixs)) \<longleftrightarrow>
        Index_Sub (Idx ix) n = 1 \<and> successively (\<lambda>a b. Index_Sub b a = 1) (Idx ix # map Idx ixs)" by simp
    moreover have "list_all token_ok (ix # ixs) \<longleftrightarrow> token_ok ix \<and> list_all token_ok ixs" by simp
    ultimately show ?thesis
      using Cons.IH [of "c + 1" e "Idx ix"] by argo
  next
    case 3
    then have *: "validate_loop (ix # ixs) e n c = Inr () \<longleftrightarrow>
        Index_Sub (Idx ix) n = 1 \<and> token_ok ix \<and> validate_loop ixs ?x (Idx ix) 1 = Inr ()"
      by (auto simp: res_simps token_consistent_iff)
    have "count_list (map Expiration ixs) e = 0" if "sorted (?x # map Expiration ixs)"
      using that 3 by (auto simp: count_list_0_iff)
    then have "sorted (?x # map Expiration ixs) \<Longrightarrow>
        count_list (map Expiration (ix # ixs)) t + (if t = e then c else 0) \<le> 3 \<longleftrightarrow>
        count_list (map Expiration ixs) t + (if t = ?x then 1 else 0) \<le> 3" for t
      using 3 Cons.prems by (cases "t = e") auto
    then have "sorted (?x # map Expiration ixs) \<Longrightarrow>
        (\<forall>t. count_list (map Expiration (ix # ixs)) t + (if t = e then c else 0) \<le> 3) \<longleftrightarrow>
        (\<forall>t. count_list (map Expiration ixs) t + (if t = ?x then 1 else 0) \<le> 3)" by simp
    moreover have "sorted (e # map Expiration (ix # ixs)) \<longleftrightarrow> sorted (?x # map Expiration ixs)"
      using 3 by auto
    moreover have "successively (\<lambda>a b. Index_Sub b a = 1) (n # map Idx (ix # ixs)) \<longleftrightarrow>
        Index_Sub (Idx ix) n = 1 \<and> successively (\<lambda>a b. Index_Sub b a = 1) (Idx ix # map Idx ixs)" by simp
    moreover have "list_all token_ok (ix # ixs) \<longleftrightarrow> token_ok ix \<and> list_all token_ok ixs" by simp
    moreover have "(1 :: nat) \<le> 3" by simp
    ultimately show ?thesis
      using * Cons.IH [of 1 ?x "Idx ix"] by argo
  qed
qed

lemma Index_Sub_pred: "Index_Sub a (Index_Sub a 1) = 1"
  by (simp add: word_uint_eq_iff index_uint mod_simps)

lemma ValidateIndices_iff':
  "ValidateIndices ixs = Inr () \<longleftrightarrow> indices_wf ixs \<and> list_all token_ok ixs"
proof (cases "ixs = []")
  case True
  then show ?thesis by (simp add: ValidateIndices_def indices_wf_def)
next
  case False
  then obtain x xs where "ixs = x # xs" by (cases ixs) auto
  then show ?thesis
    using validate_loop_iff [of 0 ixs 0 "Index_Sub (Idx x) 1"]
    by (auto simp: ValidateIndices_def indices_wf_def SecsToTime_def Index_Sub_pred)
qed

lemma ValidateIndices_Err: "ValidateIndices ixs = Inl e \<Longrightarrow> \<exists>m. e = Err m"
proof -
  have "validate_loop xs a n c = Inl e \<Longrightarrow> \<exists>m. e = Err m" for xs :: "'a base_index_scheme list" and a n c
    by (induction xs a n c rule: validate_loop.induct)
      (auto simp: res_simps dest: token_consistent_Err split: if_splits)
  then show "ValidateIndices ixs = Inl e \<Longrightarrow> \<exists>m. e = Err m"
    by (auto simp: ValidateIndices_def split: if_splits)
qed

section \<open>Looking up an index number\<close>

lemma mod16_shift:
  assumes "(a - b) mod 16 = (1 :: int)" "b mod 16 = (c + k) mod 16"
  shows "a mod 16 = (c + (1 + k)) mod 16"
proof -
  have "a mod 16 = ((a - b) mod 16 + b mod 16) mod 16" by (simp add: mod_simps)
  then show ?thesis using assms by (simp add: mod_simps algebra_simps)
qed

lemma wf_nth_Idx:
  assumes "indices_wf ixs" "i < length ixs"
  shows "uint (Idx (ixs ! i)) mod 16 = (uint (Idx (ixs ! 0)) + int i) mod 16"
  using assms(2)
proof (induction i)
  case 0
  then show ?case by simp
next
  case (Suc i)
  have "Index_Sub (Idx (ixs ! Suc i)) (Idx (ixs ! i)) = 1"
    using assms(1) Suc.prems by (simp add: indices_wf_def successively_conv_nth)
  then have "(uint (Idx (ixs ! Suc i)) - uint (Idx (ixs ! i))) mod 16 = 1"
    using index_uint(1) [of "Idx (ixs ! Suc i)" "Idx (ixs ! i)"] by simp
  moreover have "uint (Idx (ixs ! i)) mod 16 = (uint (Idx (ixs ! 0)) + int i) mod 16"
    using Suc by simp
  ultimately show ?case
    using mod16_shift [of "uint (Idx (ixs ! Suc i))" "uint (Idx (ixs ! i))" "uint (Idx (ixs ! 0))" "int i"]
    by (simp only: of_nat_Suc)
qed

lemma FindIndex_eq:
  "FindIndex ixs idx = (let k = unat (Index_Sub idx (if ixs = [] then 0 else Idx (hd ixs))) in
     if k < length ixs then Inr k else Inl (Err ''index not found in this reservation''))"
proof -
  have "int k > int n - 1 \<longleftrightarrow> \<not> k < n" for k n :: nat by linarith
  then show ?thesis unfolding FindIndex_def Let_def by (simp only: if_not_P split: if_split) blast
qed

lemma FindIndex_iff:
  assumes "indices_wf ixs"
  shows "FindIndex ixs idx = Inr i \<longleftrightarrow> i < length ixs \<and> Idx (ixs ! i) mod 16 = idx mod 16"
proof (cases "ixs = []")
  case True
  then show ?thesis by (simp add: FindIndex_def)
next
  case False
  define k where "k = unat (Index_Sub idx (Idx (ixs ! 0)))"
  have k: "int k = (uint idx - uint (Idx (ixs ! 0))) mod 16"
    by (simp add: k_def index_uint)
  have F: "FindIndex ixs idx = Inr i \<longleftrightarrow> k = i \<and> i < length ixs"
    using False by (auto simp: FindIndex_eq Let_def k_def hd_conv_nth)
  have "k = i \<longleftrightarrow> Idx (ixs ! i) mod 16 = idx mod 16" if i: "i < length ixs"
  proof -
    have "i < 16" using i assms by (simp add: indices_wf_def)
    have "Idx (ixs ! i) mod 16 = idx mod 16 \<longleftrightarrow> (uint (Idx (ixs ! 0)) + int i) mod 16 = uint idx mod 16"
      using wf_nth_Idx [OF assms i] by (simp add: word_uint_eq_iff uint_mod_distrib)
    also have "\<dots> \<longleftrightarrow> int i mod 16 = (uint idx - uint (Idx (ixs ! 0))) mod 16"
      by (simp add: mod_eq_dvd_iff algebra_simps)
    also have "\<dots> \<longleftrightarrow> i = k" using k \<open>i < 16\<close> by auto
    finally show ?thesis by auto
  qed
  then show ?thesis using F by auto
qed

lemma FindIndex_None:
  assumes "indices_wf ixs" "\<forall>i < length ixs. Idx (ixs ! i) mod 16 \<noteq> idx mod 16"
  shows "\<exists>m. FindIndex ixs idx = Inl (Err m)"
proof (cases "FindIndex ixs idx")
  case (Inr i)
  then show ?thesis using FindIndex_iff [OF assms(1)] assms(2) by blast
next
  case (Inl e)
  then show ?thesis by (auto simp: FindIndex_eq Let_def split: if_splits)
qed

lemma FindIndex_bound: "FindIndex ixs idx = Inr i \<Longrightarrow> i < length ixs"
  by (auto simp: FindIndex_eq Let_def split: if_splits)

lemma indices_wf_drop: "indices_wf ixs \<Longrightarrow> indices_wf (drop k ixs)"
proof -
  assume w: "indices_wf ixs"
  have "count_list (map Expiration (drop k ixs)) t \<le> count_list (map Expiration ixs) t" for t
    by (metis append_take_drop_id count_list_append drop_map le_add2)
  moreover have "successively (\<lambda>a b. Index_Sub b a = 1) (map Idx (drop k ixs))"
    using w by (metis (no_types, lifting) append_take_drop_id drop_map indices_wf_def successively_append_iff)
  moreover have "sorted (map Expiration (drop k ixs))"
    using w sorted_wrt_drop [of "(\<le>)" "map Expiration ixs" k] by (simp add: indices_wf_def drop_map)
  ultimately show ?thesis
    using w by (auto simp: indices_wf_def intro: order_trans dest: in_set_dropD)
qed

lemma indices_wf_cong:
  "map Idx xs = map Idx ys \<Longrightarrow> map Expiration xs = map Expiration ys \<Longrightarrow> indices_wf xs \<longleftrightarrow> indices_wf ys"
  unfolding indices_wf_def by (metis length_map)

section \<open>Holders of indices\<close>

text \<open>What a reservation relies on when it adds and removes indices; segment and end-to-end reservations keep
  their indices in the same way.\<close>

locale index_holder =
  fixes idxs :: "'r \<Rightarrow> 'i base_index_scheme list"
    and upd :: "'i base_index_scheme list \<Rightarrow> 'r \<Rightarrow> 'r"
  assumes idxs_upd: "idxs (upd xs r) = xs"
begin

lemma add_wf:
  assumes "ValidateIndices (idxs r @ [ix]) = Inr ()"
  shows "indices_wf (idxs (upd (idxs r @ [ix]) r))"
    "FindIndex (idxs (upd (idxs r @ [ix]) r)) (Idx ix) = Inr (length (idxs r))"
proof -
  have w: "indices_wf (idxs r @ [ix])" using assms by (simp add: ValidateIndices_iff')
  then show "indices_wf (idxs (upd (idxs r @ [ix]) r))" by (simp add: idxs_upd)
  show "FindIndex (idxs (upd (idxs r @ [ix]) r)) (Idx ix) = Inr (length (idxs r))"
    using FindIndex_iff [OF w] by (simp add: idxs_upd)
qed

lemma remove_wf:
  assumes "indices_wf (idxs r)" "FindIndex (idxs r) idx = Inr k"
  shows "indices_wf (idxs (upd (drop (k + 1) (idxs r)) r))"
    "\<exists>m. FindIndex (idxs (upd (drop (k + 1) (idxs r)) r)) idx = Inl (Err m)"
proof -
  let ?d = "drop (k + 1) (idxs r)"
  have w: "indices_wf ?d" using assms(1) by (rule indices_wf_drop)
  then show "indices_wf (idxs (upd ?d r))" by (simp add: idxs_upd)
  have "Idx (?d ! i) mod 16 \<noteq> idx mod 16" if "i < length ?d" for i
  proof
    assume "Idx (?d ! i) mod 16 = idx mod 16"
    then have "FindIndex (idxs r) idx = Inr (k + 1 + i)"
      using that FindIndex_iff [OF assms(1), of idx "k + 1 + i"] by (simp add: add.assoc)
    then show False using assms(2) by simp
  qed
  then show "\<exists>m. FindIndex (idxs (upd ?d r)) idx = Inl (Err m)"
    using FindIndex_None [OF w] by (simp add: idxs_upd)
qed

end

interpretation segh: index_holder Indices "\<lambda>xs. Indices_update (\<lambda>_. xs)"
  by unfold_locales simp

interpretation e2eh: index_holder E2EIndices "\<lambda>xs. E2EIndices_update (\<lambda>_. xs)"
  by unfold_locales simp

section \<open>The life of a segment reservation\<close>

text \<open>The confirmation of an index by the manager (\<open>SetupRequest\<close> of manager.go): when the other ASes do not
  confirm it, the index is temporary again.\<close>

definition confirm_or_rollback :: "seg_rsv \<Rightarrow> u8 \<Rightarrow> bool \<Rightarrow> seg_rsv \<times> unit res" where
  "confirm_or_rollback r idx confirmed = (case SetIndexConfirmed r idx of
       Inl e \<Rightarrow> (r, Inl e)
     | Inr r \<Rightarrow>
         if confirmed then (r, Inr ())
         else (case FindIndex (Indices r) idx of
             Inl _ \<Rightarrow> (r, Inl (Err ''failed to confirm the index''))
           | Inr i \<Rightarrow> (r\<lparr>Indices := set_state i IndexTemporary (Indices r)\<rparr>,
                       Inl (Err ''failed to confirm the index''))))"

text \<open>The token of the response replaces that of the index (store.go); an index that is not there is a nil
  pointer.\<close>

definition store_token :: "seg_rsv \<Rightarrow> u8 \<Rightarrow> token \<Rightarrow> seg_rsv res" where
  "store_token r idx tok = (case Rsv_Index r idx of
       None \<Rightarrow> Inl (Panic ''nil pointer dereference'')
     | Some i \<Rightarrow> Inr (r\<lparr>Indices := (Indices r)[i := (Indices r ! i)\<lparr>IdxToken := Some tok, AllocBW := InfBWCls tok\<rparr>]\<rparr>))"

inductive rsv_step :: "seg_rsv \<Rightarrow> seg_rsv \<Rightarrow> bool" where
  new_index: "Rsv_NewIndex r idx e mn mx al rl pt = Inr (r', i) \<Longrightarrow> rsv_step r r'"
| confirm: "confirm_or_rollback r idx ok = (r', res) \<Longrightarrow> rsv_step r r'"
| activate: "SetIndexActive r idx = Inr r' \<Longrightarrow> rsv_step r r'"
| deactivate: "SetIndexInactive r = Inr r' \<Longrightarrow> rsv_step r r'"
| remove: "Rsv_RemoveIndex r idx = Inr r' \<Longrightarrow> rsv_step r r'"
| token: "store_token r idx tok = Inr r' \<Longrightarrow> rsv_step r r'"
| fields: "Indices r' = Indices r \<Longrightarrow> activeIndex r' = activeIndex r \<Longrightarrow> rsv_step r r'"

text \<open>Reservations as the service builds them: from an empty one, by any sequence of these operations.\<close>

inductive rsv_reachable :: "seg_rsv \<Rightarrow> bool" where
  init: "rsv_reachable (NewReservation asid)"
| step: "rsv_reachable r \<Longrightarrow> rsv_step r r' \<Longrightarrow> rsv_reachable r'"

definition rsv_inv :: "seg_rsv \<Rightarrow> bool" where
  "rsv_inv r \<longleftrightarrow> indices_wf (Indices r) \<and>
     (activeIndex r = -1 \<or> activeIndex r = 0 \<and> Indices r \<noteq> []) \<and>
     (\<forall>i < length (Indices r). State (Indices r ! i) = IndexActive \<longleftrightarrow> int i = activeIndex r)"

lemma map_upd_same: "f y = f (xs ! i) \<Longrightarrow> map f (xs[i := y]) = map f xs"
  by (metis linorder_not_less list_update_beyond list_update_id map_update nth_map)

lemma length_set_state [simp]: "length (set_state i st ixs) = length ixs"
  by (simp add: set_state_def)

lemma set_state_Nil [simp]: "set_state i st ixs = [] \<longleftrightarrow> ixs = []"
  by (simp add: set_state_def)

lemma set_state_wf [simp]: "indices_wf (set_state i st ixs) \<longleftrightarrow> indices_wf ixs"
proof (rule indices_wf_cong)
  show "map Idx (set_state i st ixs) = map Idx ixs" "map Expiration (set_state i st ixs) = map Expiration ixs"
    by (simp_all add: set_state_def map_upd_same)
qed

lemma State_set_state: "j < length ixs \<Longrightarrow> State (set_state i st ixs ! j) = (if i = j then st else State (ixs ! j))"
  by (simp add: set_state_def nth_list_update)

lemma FindIndex_cong: "map Idx xs = map Idx ys \<Longrightarrow> FindIndex xs idx = FindIndex ys idx"
  by (cases xs; cases ys) (auto simp: FindIndex_def dest: map_eq_imp_length_eq)

lemma FindIndex_set_state [simp]: "FindIndex (set_state i st ixs) idx = FindIndex ixs idx"
  by (rule FindIndex_cong) (simp add: set_state_def map_upd_same)

lemma inv_new_index: "rsv_inv r \<Longrightarrow> Rsv_NewIndex r idx e mn mx al rl pt = Inr (r', i) \<Longrightarrow> rsv_inv r'"
  by (auto simp: rsv_inv_def Rsv_NewIndex_def addIndex_def Let_def res_simps ValidateIndices_iff' seg_NewIndex_def
    nth_append less_Suc_eq)

lemma inv_confirm: "rsv_inv r \<Longrightarrow> confirm_or_rollback r idx ok = (r', res) \<Longrightarrow> rsv_inv r'"
proof -
  assume i: "rsv_inv r" and c: "confirm_or_rollback r idx ok = (r', res)"
  show ?thesis
  proof (cases "SetIndexConfirmed r idx")
    case (Inl e)
    then show ?thesis using i c by (simp add: confirm_or_rollback_def)
  next
    case (Inr r1)
    then obtain k where k: "FindIndex (Indices r) idx = Inr k" "k < length (Indices r)"
        "State (Indices r ! k) \<noteq> IndexActive" and
      r1: "r1 = r\<lparr>Indices := set_state k IndexPending (Indices r)\<rparr>"
      by (auto simp: SetIndexConfirmed_def res_simps dest: FindIndex_bound split: if_splits)
    have "r' = r\<lparr>Indices := set_state k IndexPending (Indices r)\<rparr> \<or>
        r' = r\<lparr>Indices := set_state k IndexTemporary (set_state k IndexPending (Indices r))\<rparr>"
      using c k(1) by (auto simp: confirm_or_rollback_def Inr r1 split: if_splits)
    then show ?thesis using i k(2,3) by (auto simp: rsv_inv_def State_set_state split: if_splits)
  qed
qed

lemma inv_activate:
  assumes "rsv_inv r" "SetIndexActive r idx = Inr r'"
  shows "rsv_inv r'"
proof -
  from assms(2) obtain k where k: "FindIndex (Indices r) idx = Inr k" "k < length (Indices r)"
    by (auto simp: SetIndexActive_def res_simps dest: FindIndex_bound)
  show ?thesis
  proof (cases "activeIndex r = int k")
    case True
    then show ?thesis using assms k by (simp add: SetIndexActive_def)
  next
    case False
    then have r': "r' = r\<lparr>Indices := set_state 0 IndexActive (drop k (Indices r)), activeIndex := 0\<rparr>"
      using assms(2) k by (auto simp: SetIndexActive_def split: if_splits)
    have "State (Indices r ! (k + i)) \<noteq> IndexActive" if "0 < i" "k + i < length (Indices r)" for i
      using assms(1) that by (auto simp: rsv_inv_def)
    then show ?thesis
      using assms(1) k by (auto simp: rsv_inv_def r' indices_wf_drop State_set_state)
  qed
qed

lemma inv_deactivate: "rsv_inv r \<Longrightarrow> SetIndexInactive r = Inr r' \<Longrightarrow> rsv_inv r'"
  by (auto simp: rsv_inv_def SetIndexInactive_def State_set_state split: if_splits)

lemma inv_remove:
  assumes "rsv_inv r" "Rsv_RemoveIndex r idx = Inr r'"
  shows "rsv_inv r'"
proof -
  from assms(2) obtain k where k: "FindIndex (Indices r) idx = Inr k" "k < length (Indices r)" and
    r': "r' = r\<lparr>Indices := drop (k + 1) (Indices r),
      activeIndex := (if activeIndex r > int k then activeIndex r - (int k + 1) else -1)\<rparr>"
    by (auto simp: Rsv_RemoveIndex_def res_simps dest: FindIndex_bound)
  have "\<not> activeIndex r > int k" using assms(1) by (auto simp: rsv_inv_def)
  then show ?thesis
    using assms(1) by (auto simp: rsv_inv_def r' indices_wf_drop)
qed

lemma inv_token:
  assumes "rsv_inv r" "store_token r idx tok = Inr r'"
  shows "rsv_inv r'"
proof -
  from assms(2) obtain i where
    r': "r' = r\<lparr>Indices := (Indices r)[i := (Indices r ! i)\<lparr>IdxToken := Some tok, AllocBW := InfBWCls tok\<rparr>]\<rparr>"
    by (auto simp: store_token_def split: option.splits)
  have "indices_wf (Indices r') \<longleftrightarrow> indices_wf (Indices r)"
    by (rule indices_wf_cong) (simp_all add: r' map_upd_same)
  moreover have "State (Indices r' ! j) = State (Indices r ! j)" if "j < length (Indices r)" for j
    using that by (cases "i = j") (simp_all add: r')
  ultimately show ?thesis using assms(1) by (simp add: rsv_inv_def r')
qed

lemma inv_fields: "rsv_inv r \<Longrightarrow> Indices r' = Indices r \<Longrightarrow> activeIndex r' = activeIndex r \<Longrightarrow> rsv_inv r'"
  by (simp add: rsv_inv_def)

lemmas inv_ops = inv_new_index inv_confirm inv_activate inv_deactivate inv_remove inv_token inv_fields

lemma rsv_inv_step: "rsv_inv r \<Longrightarrow> rsv_step r r' \<Longrightarrow> rsv_inv r'"
  by (erule rsv_step.cases) (blast intro: inv_ops)+

lemma rsv_inv_reachable: "rsv_reachable r \<Longrightarrow> rsv_inv r"
proof (induction rule: rsv_reachable.induct)
  case (init asid)
  show ?case by (simp add: rsv_inv_def NewReservation_def indices_wf_def)
next
  case (step r r')
  then show ?case by (blast intro: rsv_inv_step)
qed

section \<open>Properties\<close>

text \<open>\<open>ValidateIndices\<close> is a loop with four running variables. It accepts exactly the lists of at most 16
  indices whose numbers are consecutive modulo 16, whose expiration times do not decrease and do not lie before
  the epoch, of which no four have the same expiration time (wherever they stand in the list), and whose tokens agree
  with the index in number, expiration tick and bandwidth; everything else is an error, never a panic.\<close>

lemma ValidateIndices_iff:
  "(ValidateIndices ixs = Inr () \<longleftrightarrow>
      length ixs \<le> 16 \<and> sorted (map Expiration ixs) \<and> list_all (\<lambda>e. 0 \<le> e) (map Expiration ixs) \<and>
      successively (\<lambda>a b. Index_Sub b a = 1) (map Idx ixs) \<and>
      (\<forall>t. count_list (map Expiration ixs) t \<le> 3) \<and> list_all token_ok ixs) \<and>
   (ValidateIndices ixs = Inr () \<or> (\<exists>m. ValidateIndices ixs = Inl (Err m)))"
proof
  show "ValidateIndices ixs = Inr () \<longleftrightarrow>
      length ixs \<le> 16 \<and> sorted (map Expiration ixs) \<and> list_all (\<lambda>e. 0 \<le> e) (map Expiration ixs) \<and>
      successively (\<lambda>a b. Index_Sub b a = 1) (map Idx ixs) \<and>
      (\<forall>t. count_list (map Expiration ixs) t \<le> 3) \<and> list_all token_ok ixs"
    unfolding ValidateIndices_iff' indices_wf_def list_all_iff by blast
  show "ValidateIndices ixs = Inr () \<or> (\<exists>m. ValidateIndices ixs = Inl (Err m))"
    using ValidateIndices_Err [of ixs] by (cases "ValidateIndices ixs") auto
qed

text \<open>The active index comes first, so it expires no later than any other.\<close>

lemma active_first:
  assumes "rsv_inv r" "activeIndex r = 0"
  shows "ActiveIndex r = Inr (Some (hd (Indices r)))"
    "ix \<in> set (Indices r) \<Longrightarrow> Expiration (hd (Indices r)) \<le> Expiration ix"
proof -
  obtain x xs where i: "Indices r = x # xs" using assms by (cases "Indices r") (auto simp: rsv_inv_def)
  then show "ActiveIndex r = Inr (Some (hd (Indices r)))" using assms(2) by (simp add: ActiveIndex_def go_nth_def)
  have "sorted (map Expiration (x # xs))" using assms(1) i by (simp add: rsv_inv_def indices_wf_def)
  then show "ix \<in> set (Indices r) \<Longrightarrow> Expiration (hd (Indices r)) \<le> Expiration ix" using i by auto
qed

lemma no_past_index: "rsv_inv r \<Longrightarrow> SetIndexActive r idx \<noteq> Inl (Err ''activating a past index'')"
  by (auto simp: SetIndexActive_def rbind_def FindIndex_eq rsv_inv_def Let_def split: sum.splits if_splits)

text \<open>Claim C26. Whatever sequence of operations made a segment reservation, its indices are numbered consecutively
  modulo 16 and ordered by expiration, at most one of them is active, that one is the first, and
  \<open>activeIndex\<close> says which it is: \<open>ActiveIndex\<close> does not panic, an index number finds exactly the index that
  has it, the index that was just added is found at the end, and \<open>SetIndexActive\<close> never takes its branch for a past
  index.\<close>

theorem reservation_invariant:
  assumes "rsv_reachable r"
  shows "successively (\<lambda>a b. Index_Sub b a = 1) (map Idx (Indices r)) \<and> length (Indices r) \<le> 16 \<and>
    sorted (map Expiration (Indices r)) \<and>
    (activeIndex r = -1 \<or> activeIndex r = 0) \<and>
    (\<forall>i < length (Indices r). State (Indices r ! i) = IndexActive \<longleftrightarrow> int i = activeIndex r) \<and>
    ActiveIndex r = Inr (if activeIndex r = 0 then Some (hd (Indices r)) else None) \<and>
    (\<forall>idx i. FindIndex (Indices r) idx = Inr i \<longleftrightarrow> i < length (Indices r) \<and> Idx (Indices r ! i) mod 16 = idx mod 16) \<and>
    (\<forall>idx e mn mx al rl pt r' n. Rsv_NewIndex r idx e mn mx al rl pt = Inr (r', n) \<longrightarrow>
       Rsv_Index r' n = Some (length (Indices r))) \<and>
    (\<forall>idx. SetIndexActive r idx \<noteq> Inl (Err ''activating a past index''))"
proof -
  have inv: "rsv_inv r" using assms by (rule rsv_inv_reachable)
  then have wf: "indices_wf (Indices r)" by (simp add: rsv_inv_def)
  have "ActiveIndex r = Inr (if activeIndex r = 0 then Some (hd (Indices r)) else None)"
    using inv active_first(1) [OF inv] by (auto simp: rsv_inv_def ActiveIndex_def)
  moreover have "Rsv_Index r' n = Some (length (Indices r))" if "Rsv_NewIndex r idx e mn mx al rl pt = Inr (r', n)"
    for idx e mn mx al rl pt r' n
  proof -
    from that obtain ix where "ValidateIndices (Indices r @ [ix]) = Inr ()" "r' = r\<lparr>Indices := Indices r @ [ix]\<rparr>" "n = Idx ix"
      by (auto simp: Rsv_NewIndex_def addIndex_def Let_def res_simps seg_NewIndex_def)
    then show ?thesis using segh.add_wf(2) [of r ix] by (simp add: Rsv_Index_def)
  qed
  ultimately show ?thesis
    using inv wf FindIndex_iff [OF wf] no_past_index [OF inv] by (auto simp: rsv_inv_def indices_wf_def)
qed

definition demo_rsv :: seg_rsv where
  "demo_rsv = (NewReservation 5)\<lparr>Indices := [seg_NewIndex 15 8000000000 IndexTemporary 1 9 7 (Some
     \<lparr>ExpirationTick = 2, InfIdx = 15, InfBWCls = 7, InfPathType = 1, InfRLC = 3, TokHopFields = []\<rparr>)]\<rparr>"

lemma demo_rsv_reachable: "rsv_reachable demo_rsv"
proof -
  have "ValidateIndices (Indices demo_rsv) = Inr ()"
    unfolding ValidateIndices_iff'
    by (simp add: demo_rsv_def seg_NewIndex_def indices_wf_def token_ok_def TickFromTime_def TimeToSecs_def
      second_ns_def SecsPerTick_def)
  then have "Rsv_NewIndex (NewReservation 5) 15 8000000000 1 9 7 3 1 = Inr (demo_rsv, 15)"
    by (simp add: Rsv_NewIndex_def addIndex_def NewReservation_def demo_rsv_def seg_NewIndex_def Let_def
      TickFromTime_def TimeToSecs_def second_ns_def SecsPerTick_def)
  then show ?thesis using rsv_reachable.init new_index by (metis rsv_reachable.step)
qed

theorem reservation_invariant_witness:
  "FindIndex (Indices demo_rsv) 15 = Inr 0 \<and> ActiveIndex demo_rsv = Inr None"
  using reservation_invariant [OF demo_rsv_reachable]
  by (simp add: demo_rsv_def NewReservation_def seg_NewIndex_def)

end
