(* ===== verification/Colibri_Keeper.thy ===== *)
theory Colibri_Keeper
  imports Colibri_Indices
begin

text \<open>
  The keeper of segment reservations (go/co/reservationstore/keeper.go) with the requests it makes
  (go/co/reservation/request\_response.go, go/co/reservation/segment/request.go). The service behind the
  interface \<open>ServiceFacilitator\<close> is the parameter \<open>provider\<close>: a request is answered by a function of it, and the
  requests a service changes are returned changed. Paths come from the SCION path lookup, of which the keeper uses the
  interfaces; the path predicate of a configuration is a parameter. The successive readings of the clock are
  the function \<open>clk\<close>. Logging is left out.
\<close>

section \<open>Requests\<close>

record msg_request =
  ReqID :: rsv_id
  ReqIndex :: u8
  ReqTimestamp :: int
  Authenticators :: "bytes list"

definition NewRequest :: "int \<Rightarrow> rsv_id \<Rightarrow> u8 \<Rightarrow> int \<Rightarrow> msg_request" where
  "NewRequest ts i idx lenSteps =
     \<lparr>ReqID = i, ReqIndex = idx, ReqTimestamp = ts,
      Authenticators = (if lenSteps > 0 then replicate (nat (lenSteps - 1)) [] else [])\<rparr>"

definition Request_Validate :: "'a msg_request_scheme \<Rightarrow> path_step list \<Rightarrow> unit res" where
  "Request_Validate r steps =
     (if int (length (Authenticators r)) \<noteq> int (length steps) - 1
      then Inl (Err ''inconsistent number of authenticators'')
      else if ASID (ReqID r) = 0 then Inl (Err ''bad AS id in request'') else Inr ())"

record setup_req = msg_request +
  ExpirationTime :: int
  ReqRLC :: u8
  ReqPathType :: u8
  ReqMinBW :: u8
  ReqMaxBW :: u8
  ReqSplitCls :: u8
  PathProps :: u8
  AllocTrail :: "bead list"
  ReverseTraveling :: bool
  Reservation :: "seg_rsv option"
  ReqSteps :: "path_step list"
  ReqCurrentStep :: int
  ReqTransport :: "colibri_min option"

definition Req_Ingress :: "setup_req \<Rightarrow> u16 res" where
  "Req_Ingress r = rbind (go_nth (ReqSteps r) (ReqCurrentStep r)) (\<lambda>s. Inr (StepIngress s))"

definition Req_Egress :: "setup_req \<Rightarrow> u16 res" where
  "Req_Egress r = rbind (go_nth (ReqSteps r) (ReqCurrentStep r)) (\<lambda>s. Inr (StepEgress s))"

definition SetupReq_Validate :: "setup_req \<Rightarrow> (u16 \<Rightarrow> u64) \<Rightarrow> unit res" where
  "SetupReq_Validate r getNeighborIA = (let steps = ReqSteps r; cur = ReqCurrentStep r in
     rbind (Request_Validate r steps) (\<lambda>_.
     if length (AllocTrail r) > length steps then Inl (Err ''inconsistent trail and setup path'')
     else case ValidateWithPathType (PathProps r) (ReqPathType r) of
       Inl _ \<Rightarrow> Inl (Err ''incompatible path type and props'')
     | Inr _ \<Rightarrow>
     if length steps < 2 then Inl (Err ''Wrong steps state'')
     else if cur < 0 \<or> cur \<ge> int (length steps) then Inl (Err ''invalid current step for the given steps'')
     else if StepIngress (hd steps) \<noteq> 0 then Inl (Err ''Wrong interface for srcIA ingress'')
     else if StepEgress (last steps) \<noteq> 0 then Inl (Err ''Wrong interface for dstIA egress'')
     else rbind (wrap_err ''invalid steps/raw path'' (ValidateEquivalent steps (ReqTransport r) cur)) (\<lambda>_.
     let st = steps ! nat cur in
     if cur > 0 \<and> getNeighborIA (StepIngress st) \<noteq> StepIA (steps ! nat (cur - 1))
     then Inl (Err ''previous IA according to steps and topology not same'')
     else if StepIA st \<noteq> getNeighborIA 0 then Inl (Err ''current IA according to steps not same as local'')
     else if cur + 1 < int (length steps) \<and> getNeighborIA (StepEgress st) \<noteq> StepIA (steps ! nat (cur + 1))
     then Inl (Err ''next IA according to steps and topology not same'')
     else Inr ())))"

definition ValidateForReservation :: "setup_req \<Rightarrow> seg_rsv \<Rightarrow> unit res" where
  "ValidateForReservation r rsv =
     (if ReqPathType r \<noteq> RsvPathType rsv then Inl (Err ''different path type'')
      else if PathProps r \<noteq> RsvEndProps rsv then Inl (Err ''different path end props.'')
      else Inr ())"

definition TakeStep :: "setup_req \<Rightarrow> setup_req" where
  "TakeStep r = r\<lparr>ReqCurrentStep := ReqCurrentStep r + (if ReverseTraveling r then -1 else 1)\<rparr>"

definition PrevBW :: "(u8 \<Rightarrow> u64) \<Rightarrow> setup_req \<Rightarrow> u64" where
  "PrevBW conv r =
     (if AllocTrail r = [] then ToKbps conv (ReqMaxBW r) else ToKbps conv (MinMax (AllocTrail r)))"

section \<open>The keeper\<close>

definition minute_ns :: int where "minute_ns = 60 * second_ns"
definition sleepAtLeast :: int where "sleepAtLeast = 4 * second_ns"
definition sleepAtMost :: int where "sleepAtMost = 5 * minute_ns"
definition minDuration :: int where "minDuration = 2 * sleepAtMost"
definition newIndexMinDuration :: int where "newIndexMinDuration = 2 * minDuration"

record provider =
  PathsTo :: "u64 \<Rightarrow> path_interface list list res"
  SetupRequest :: "setup_req \<Rightarrow> setup_req \<times> unit res"
  ActivateRequest :: "msg_request \<Rightarrow> path_step list \<Rightarrow> colibri_min option \<Rightarrow> bool \<Rightarrow> unit res"

record configuration =
  conf_dst :: u64
  conf_pathType :: u8
  conf_EvalInterfaces :: "path_interface list \<Rightarrow> bool"
  conf_Eval :: "path_interface list list \<Rightarrow> path_interface list list"
  conf_minBW :: u8
  conf_maxBW :: u8
  conf_splitCls :: u8
  conf_endProps :: u8

record entry =
  entry_conf :: configuration
  entry_rsv :: "seg_rsv option"

datatype compliance_status = NeedsIndices | NeedsActivation | Compliant

definition compliance :: "entry \<Rightarrow> int \<Rightarrow> compliance_status res" where
  "compliance e until = (case entry_rsv e of
       None \<Rightarrow> Inl (Panic ''nil pointer dereference'')
     | Some r \<Rightarrow> let
         c = entry_conf e;
         idxs = Indices_Filter (Indices r)
           [ByMinBW (conf_minBW c), ByMaxBW (conf_maxBW c), NotConfirmed, ByExpiration until]
       in if idxs = [] then Inr NeedsIndices
          else rbind (ActiveIndex r) (\<lambda>active.
            if Indices_Filter idxs [NotSwitchableFrom active] = [] then Inr NeedsActivation else Inr Compliant))"

definition PrepareSetupRequest :: "entry \<Rightarrow> int \<Rightarrow> int \<Rightarrow> u64 \<Rightarrow> path_interface list \<Rightarrow> setup_req res" where
  "PrepareSetupRequest e now expTime localAS p = (case StepsFromInterfaces p of
       Inl _ \<Rightarrow> Inl (Panic ''error in SCION path, cannot convert to steps'')
     | Inr steps \<Rightarrow> let
         c = entry_conf e;
         (steps, currentStep) =
           (if conf_pathType c = DownPath then (Steps_Reverse steps, int (length steps) - 1) else (steps, 0));
         i = \<lparr>ASID = localAS, Suffix = replicate IDSuffixSegLen 0\<rparr>
       in Inr (msg_request.extend (NewRequest now i 0 (int (length steps)))
            \<lparr>ExpirationTime = expTime, ReqRLC = 0, ReqPathType = conf_pathType c, ReqMinBW = conf_minBW c,
             ReqMaxBW = conf_maxBW c, ReqSplitCls = conf_splitCls c, PathProps = conf_endProps c, AllocTrail = [],
             ReverseTraveling = False, Reservation = None, ReqSteps = steps, ReqCurrentStep = currentStep,
             ReqTransport = None\<rparr>))"

definition PrepareRenewalRequest :: "configuration \<Rightarrow> seg_rsv \<Rightarrow> int \<Rightarrow> int \<Rightarrow> setup_req" where
  "PrepareRenewalRequest c r now expTime =
     msg_request.extend (NewRequest now (RsvID r) (NextIndexToRenew r) (int (length (RsvSteps r))))
       \<lparr>ExpirationTime = expTime, ReqRLC = 0, ReqPathType = conf_pathType c, ReqMinBW = conf_minBW c,
        ReqMaxBW = conf_maxBW c, ReqSplitCls = TrafficSplit r, PathProps = RsvEndProps r, AllocTrail = [],
        ReverseTraveling = False, Reservation = Some r, ReqSteps = RsvSteps r, ReqCurrentStep = CurrentStep r,
        ReqTransport = TransportPath r\<rparr>"

text \<open>\<open>NextIndexToActivate().Idx\<close> dereferences \<open>nil\<close> when there is no such index.\<close>

definition activateIndex :: "provider \<Rightarrow> int \<Rightarrow> seg_rsv \<Rightarrow> seg_rsv res" where
  "activateIndex k now r =
     rbind (NextIndexToActivate r) (\<lambda>next. case next of
         None \<Rightarrow> Inl (Panic ''nil pointer dereference'')
       | Some ix \<Rightarrow> let
           req = NewRequest now (RsvID r) (Idx ix) (int (length (RsvSteps r)));
           inReverse = (RsvPathType r = DownPath)
         in rbind (ActivateRequest k req (RsvSteps r) (TransportPath r) inReverse) (\<lambda>_.
            SetIndexActive r (ReqIndex req)))"

definition askNewIndices :: "provider \<Rightarrow> int \<Rightarrow> configuration \<Rightarrow> seg_rsv \<Rightarrow> seg_rsv res" where
  "askNewIndices k now c r = (let
     (req, res) = SetupRequest k (PrepareRenewalRequest c r now (now + newIndexMinDuration))
   in rbind res (\<lambda>_. case Reservation req of
         None \<Rightarrow> Inl (Panic ''nil pointer dereference'')
       | Some r' \<Rightarrow> Inr (r\<lparr>Indices := Indices r'\<rparr>)))"

text \<open>The reservation is kept even when the request that made it failed afterwards.\<close>

fun ask_loop :: "provider \<Rightarrow> entry \<Rightarrow> int \<Rightarrow> u64 \<Rightarrow> path_interface list list \<Rightarrow> seg_rsv option \<times> unit res" where
  "ask_loop k e now localAS [] = (None, Inl (Err ''no more best effort paths to create reservation''))"
| "ask_loop k e now localAS (p # ps) = (case PrepareSetupRequest e now (now + newIndexMinDuration) localAS p of
       Inl err \<Rightarrow> (None, Inl err)
     | Inr req \<Rightarrow> (case SetupRequest k req of (req, res) \<Rightarrow>
         (case Reservation req of
            Some r \<Rightarrow> (Some r, res)
          | None \<Rightarrow> (case res of
                Inr _ \<Rightarrow> (None, Inl (Panic ''logic error, reservation after new request is empty''))
              | Inl (Panic m) \<Rightarrow> (None, Inl (Panic m))
              | Inl _ \<Rightarrow> ask_loop k e now localAS ps))))"

definition askNewReservation :: "provider \<Rightarrow> int \<Rightarrow> u64 \<Rightarrow> entry \<Rightarrow> seg_rsv option \<times> unit res" where
  "askNewReservation k now localAS e = (case PathsTo k (conf_dst (entry_conf e)) of
       Inl err \<Rightarrow> (None, Inl err)
     | Inr paths \<Rightarrow> ask_loop k e now localAS (conf_Eval (entry_conf e) paths))"

definition keep_existing :: "provider \<Rightarrow> (nat \<Rightarrow> int) \<Rightarrow> entry \<Rightarrow> entry \<times> int res" where
  "keep_existing k clk e = (case entry_rsv e of
       None \<Rightarrow> (e, Inl (Panic ''nil pointer dereference''))
     | Some r \<Rightarrow>
         (case rbind (compliance e (clk 2 + minDuration)) (\<lambda>c. case c of
              Compliant \<Rightarrow> Inr r
            | NeedsIndices \<Rightarrow> askNewIndices k (clk 3) (entry_conf e) r
            | NeedsActivation \<Rightarrow> activateIndex k (clk 3) r) of
            Inl err \<Rightarrow> (e, Inl err)
          | Inr r' \<Rightarrow> (e\<lparr>entry_rsv := Some r'\<rparr>, Inr (clk 0 + newIndexMinDuration))))"

definition keepReservation :: "provider \<Rightarrow> (nat \<Rightarrow> int) \<Rightarrow> u64 \<Rightarrow> entry \<Rightarrow> entry \<times> int res" where
  "keepReservation k clk localAS e =
     (if entry_rsv e = None
      then case askNewReservation k (clk 1) localAS e of
          (rsv, Inl err) \<Rightarrow> (e\<lparr>entry_rsv := rsv\<rparr>, Inl err)
        | (rsv, Inr _) \<Rightarrow> keep_existing k clk (e\<lparr>entry_rsv := rsv\<rparr>)
      else keep_existing k clk e)"

text \<open>\<open>OneShot\<close> keeps every entry in a goroutine of its own; the entries share nothing. \<open>clks i\<close> is the clock as
  entry \<open>i\<close> reads it, \<open>n0\<close>, \<open>n1\<close> and \<open>n2\<close> the readings after all are done.\<close>

definition OneShot :: "provider \<Rightarrow> (nat \<Rightarrow> nat \<Rightarrow> int) \<Rightarrow> int \<Rightarrow> int \<Rightarrow> int \<Rightarrow> u64 \<Rightarrow> entry list \<Rightarrow>
    entry list \<times> int \<times> unit res" where
  "OneShot k clks n0 n1 n2 localAS es = (let
     rs = map (\<lambda>(i, e). keepReservation k (clks i) localAS e) (enumerate 0 es);
     es' = map fst rs
   in if list_ex (\<lambda>r. isl (snd r)) rs then (es', n0 + sleepAtLeast, Inl (Err ''error while keeping''))
      else let
        wakeup = foldl (\<lambda>w r. case snd r of Inl _ \<Rightarrow> w | Inr t \<Rightarrow> if t < w then t else w) (n0 + sleepAtMost) rs;
        wakeup = (if wakeup - n1 < sleepAtLeast then n2 + sleepAtLeast else wakeup)
      in (es', wakeup, Inr ()))"

fun find_compatible :: "seg_rsv \<Rightarrow> configuration list \<Rightarrow> nat \<Rightarrow> int res" where
  "find_compatible r [] i = Inr (-1)"
| "find_compatible r (c # cs) i =
     rbind (Steps_DstIA (RsvSteps r)) (\<lambda>dst.
     if dst \<noteq> conf_dst c then find_compatible r cs (i + 1)
     else if RsvPathType r \<noteq> conf_pathType c then find_compatible r cs (i + 1)
     else if TrafficSplit r \<noteq> conf_splitCls c then find_compatible r cs (i + 1)
     else if RsvEndProps r \<noteq> conf_endProps c then find_compatible r cs (i + 1)
     else rbind (Steps_Interfaces (Some (RsvSteps r))) (\<lambda>ifs.
       if \<not> conf_EvalInterfaces c ifs then find_compatible r cs (i + 1) else Inr (int i)))"

definition findCompatibleConfiguration :: "seg_rsv \<Rightarrow> configuration list \<Rightarrow> int res" where
  "findCompatibleConfiguration r conf = find_compatible r conf 0"

fun match_loop :: "seg_rsv list \<Rightarrow> configuration list \<Rightarrow> entry list res" where
  "match_loop [] conf = Inr (map (\<lambda>c. \<lparr>entry_conf = c, entry_rsv = None\<rparr>) conf)"
| "match_loop (r # rs) conf =
     rbind (findCompatibleConfiguration r conf) (\<lambda>i.
     if i < 0 then match_loop rs conf
     else rbind (match_loop rs (take (nat i) conf @ drop (nat i + 1) conf)) (\<lambda>es.
       Inr (\<lparr>entry_conf = conf ! nat i, entry_rsv = Some r\<rparr> # es)))"

definition matchRsvsWithConfiguration :: "seg_rsv list \<Rightarrow> configuration list \<Rightarrow> entry list res" where
  "matchRsvsWithConfiguration rsvs conf = match_loop rsvs conf"

section \<open>Which indices the keeper looks for\<close>

definition fits :: "configuration \<Rightarrow> int \<Rightarrow> seg_index \<Rightarrow> bool" where
  "fits c until ix \<longleftrightarrow> conf_minBW c \<le> MinBW ix \<and> MaxBW ix \<le> conf_maxBW c \<and> State ix \<noteq> IndexTemporary \<and>
     until < Expiration ix"

lemma NotConfirmed_iff: "NotConfirmed ix \<longleftrightarrow> State ix \<noteq> IndexTemporary"
  by (cases "State ix") (simp_all add: NotConfirmed_def)

lemma Filter_fits:
  "Indices_Filter ixs [ByMinBW (conf_minBW c), ByMaxBW (conf_maxBW c), NotConfirmed, ByExpiration until] =
     filter (fits c until) ixs"
  by (auto simp: Indices_Filter_def fits_def ByMinBW_def ByMaxBW_def ByExpiration_def NotConfirmed_iff
    split: if_splits intro!: filter_cong)

lemma switchable_from_active:
  assumes "rsv_inv r" "activeIndex r = 0" "ix \<in> set (Indices r)" "State ix \<noteq> IndexTemporary"
  shows "NotSwitchableFrom (Some (hd (Indices r))) ix"
  using assms active_first(2) [OF assms(1-3)] by (auto simp: NotSwitchableFrom_def ByExpiration_def NotConfirmed_iff)

lemma compliance_active:
  assumes "rsv_inv r" "activeIndex r = 0" "entry_rsv e = Some r"
  shows "compliance e until =
    Inr (if \<exists>ix \<in> set (Indices r). fits (entry_conf e) until ix then Compliant else NeedsIndices)"
proof (cases "\<exists>ix \<in> set (Indices r). fits (entry_conf e) until ix")
  case True
  then obtain ix where ix: "ix \<in> set (Indices r)" "fits (entry_conf e) until ix" by blast
  have "NotSwitchableFrom (Some (hd (Indices r))) ix"
    using ix assms by (intro switchable_from_active) (auto simp: fits_def)
  then have "Indices_Filter (filter (fits (entry_conf e) until) (Indices r))
      [NotSwitchableFrom (Some (hd (Indices r)))] \<noteq> []"
    using ix by (auto simp: Indices_Filter_def filter_empty_conv)
  moreover have "filter (fits (entry_conf e) until) (Indices r) \<noteq> []"
    using ix by (auto simp: filter_empty_conv)
  ultimately show ?thesis
    using True assms(3) active_first(1) [OF assms(1,2)] by (simp add: compliance_def Filter_fits Let_def)
next
  case False
  then have "filter (fits (entry_conf e) until) (Indices r) = []" by (auto simp: filter_empty_conv)
  with False assms(3) show ?thesis by (simp add: compliance_def Filter_fits Let_def)
qed

lemma compliance_inactive:
  assumes "activeIndex r = -1" "entry_rsv e = Some r" "ix \<in> set (Indices r)" "fits (entry_conf e) until ix"
    "\<forall>ix \<in> set (Indices r). Expiration ix \<le> heatDeathOfTheUniverse"
  shows "compliance e until = Inr NeedsActivation"
proof -
  have "filter (fits (entry_conf e) until) (Indices r) \<noteq> []"
    using assms(3,4) by (auto simp: filter_empty_conv)
  moreover have "Indices_Filter (filter (fits (entry_conf e) until) (Indices r)) [NotSwitchableFrom None] = []"
    using assms(5) by (auto simp: Indices_Filter_def filter_empty_conv NotSwitchableFrom_def ByExpiration_def)
  ultimately show ?thesis
    using assms(1,2) by (simp add: compliance_def Filter_fits Let_def ActiveIndex_def)
qed

text \<open>Claim C27. The keeper is to activate a renewed index before the active one runs out, but it never does: for a
  reservation that has an active index \<open>compliance\<close> is never \<open>NeedsActivation\<close>. As soon as any confirmed
  index satisfies the configuration past the required time, the keeper reports success and leaves the reservation as it
  is, even when the active index has a bandwidth outside the configuration or has expired already; and
  \<open>ActivateRequest\<close> plays no part in what it does.\<close>

theorem keeper_never_switches:
  assumes "rsv_reachable r" "activeIndex r = 0" "entry_rsv e = Some r"
  shows "compliance e until \<noteq> Inr NeedsActivation \<and>
    (\<forall>ix clk k. ix \<in> set (Indices r) \<and> conf_minBW (entry_conf e) \<le> MinBW ix \<and> MaxBW ix \<le> conf_maxBW (entry_conf e) \<and>
       State ix \<noteq> IndexTemporary \<and> clk 2 + minDuration < Expiration ix \<longrightarrow>
       keepReservation k clk localAS e = (e, Inr (clk 0 + newIndexMinDuration))) \<and>
    (\<forall>k act clk. keepReservation (k\<lparr>ActivateRequest := act\<rparr>) clk localAS e = keepReservation k clk localAS e)"
proof -
  have inv: "rsv_inv r" using assms(1) by (rule rsv_inv_reachable)
  note comp = compliance_active [OF inv assms(2,3)]
  have keep: "keepReservation k clk localAS e = keep_existing k clk e" for k clk
    using assms(3) by (simp add: keepReservation_def)
  have "keepReservation k clk localAS e = (e, Inr (clk 0 + newIndexMinDuration))"
    if "ix \<in> set (Indices r)" "conf_minBW (entry_conf e) \<le> MinBW ix" "MaxBW ix \<le> conf_maxBW (entry_conf e)"
       "State ix \<noteq> IndexTemporary" "clk 2 + minDuration < Expiration ix" for ix clk k
  proof -
    have "compliance e (clk 2 + minDuration) = Inr Compliant"
      using that comp [of "clk 2 + minDuration"] by (auto simp: fits_def)
    then show ?thesis using assms(3) by (simp add: keep keep_existing_def)
  qed
  moreover have "keepReservation (k\<lparr>ActivateRequest := act\<rparr>) clk localAS e = keepReservation k clk localAS e"
    for k act clk
    using assms(3) comp [of "clk 2 + minDuration"]
    by (simp add: keep keep_existing_def askNewIndices_def)
  ultimately show ?thesis using comp [of until] by auto
qed

text \<open>A reservation whose active index, number 15, expired at second 8, and whose index 0 is confirmed.\<close>

definition demo_index :: "u8 \<Rightarrow> int \<Rightarrow> index_state \<Rightarrow> seg_index" where
  "demo_index i secs st = seg_NewIndex i (secs * 1000000000) st 1 9 7 (Some
     \<lparr>ExpirationTick = word_of_int (secs div 4), InfIdx = i, InfBWCls = 7, InfPathType = 1, InfRLC = 3, TokHopFields = []\<rparr>)"

definition demo_kept :: seg_rsv where
  "demo_kept = (NewReservation 5)\<lparr>Indices := [demo_index 15 8 IndexActive, demo_index 0 4000 IndexPending], activeIndex := 0\<rparr>"

lemma demo_kept_reachable: "rsv_reachable demo_kept"
proof -
  let ?r = "\<lambda>ixs a. (NewReservation 5)\<lparr>Indices := ixs, activeIndex := a\<rparr>"
  note defs = NewReservation_def demo_index_def seg_NewIndex_def set_state_def FindIndex_def Index_Sub_def Let_def
  have d: "demo_rsv = ?r [demo_index 15 8 IndexTemporary] (-1)"
    by (simp add: demo_rsv_def defs)
  have "confirm_or_rollback demo_rsv 15 True = (?r [demo_index 15 8 IndexPending] (-1), Inr ())"
    by (simp add: d confirm_or_rollback_def SetIndexConfirmed_def defs)
  then have 1: "rsv_reachable (?r [demo_index 15 8 IndexPending] (-1))"
    using demo_rsv_reachable confirm by (metis rsv_reachable.step)
  have "SetIndexActive (?r [demo_index 15 8 IndexPending] (-1)) 15 = Inr (?r [demo_index 15 8 IndexActive] 0)"
    by (simp add: SetIndexActive_def defs)
  then have 2: "rsv_reachable (?r [demo_index 15 8 IndexActive] 0)"
    using 1 activate by (metis rsv_reachable.step)
  have v: "ValidateIndices [demo_index 15 8 IndexActive, demo_index 0 4000 IndexTemporary] = Inr ()"
    unfolding ValidateIndices_iff'
    by (simp add: indices_wf_def token_ok_def TickFromTime_def TimeToSecs_def second_ns_def SecsPerTick_def defs)
  have "demo_index 0 4000 IndexTemporary = seg_NewIndex 0 4000000000000 IndexTemporary 1 9 7 (Some
     \<lparr>ExpirationTick = TickFromTime 4000000000000, InfIdx = 0, InfBWCls = 7, InfPathType = 1, InfRLC = 3, TokHopFields = []\<rparr>)"
    by (simp add: demo_index_def TickFromTime_def TimeToSecs_def second_ns_def SecsPerTick_def)
  then have "Rsv_NewIndex (?r [demo_index 15 8 IndexActive] 0) 0 4000000000000 1 9 7 3 1 =
      Inr (?r [demo_index 15 8 IndexActive, demo_index 0 4000 IndexTemporary] 0, 0)"
    using v by (simp add: Rsv_NewIndex_def addIndex_def Let_def seg_NewIndex_def)
  then have 3: "rsv_reachable (?r [demo_index 15 8 IndexActive, demo_index 0 4000 IndexTemporary] 0)"
    using 2 new_index by (metis rsv_reachable.step)
  have "confirm_or_rollback (?r [demo_index 15 8 IndexActive, demo_index 0 4000 IndexTemporary] 0) 0 True =
      (demo_kept, Inr ())"
    by (simp add: confirm_or_rollback_def SetIndexConfirmed_def demo_kept_def defs)
  then show ?thesis using 3 confirm by (metis rsv_reachable.step)
qed

definition demo_conf :: configuration where
  "demo_conf = \<lparr>conf_dst = 7, conf_pathType = CorePath, conf_EvalInterfaces = (\<lambda>_. True), conf_Eval = (\<lambda>ps. ps),
     conf_minBW = 1, conf_maxBW = 9, conf_splitCls = 0, conf_endProps = 0\<rparr>"

definition demo_provider :: provider where
  "demo_provider = \<lparr>PathsTo = (\<lambda>_. Inr []), SetupRequest = (\<lambda>req. (req, Inr ())),
     ActivateRequest = (\<lambda>_ _ _ _. Inr ())\<rparr>"

theorem keeper_never_switches_witness:
  "keepReservation demo_provider (\<lambda>_. 100 * second_ns) 5 \<lparr>entry_conf = demo_conf, entry_rsv = Some demo_kept\<rparr> =
     (\<lparr>entry_conf = demo_conf, entry_rsv = Some demo_kept\<rparr>, Inr (100 * second_ns + newIndexMinDuration)) \<and>
   Expiration (hd (Indices demo_kept)) < 100 * second_ns"
proof
  let ?e = "\<lparr>entry_conf = demo_conf, entry_rsv = Some demo_kept\<rparr>" and ?ix = "demo_index 0 4000 IndexPending"
  have a: "activeIndex demo_kept = 0" "entry_rsv ?e = Some demo_kept" by (simp_all add: demo_kept_def)
  have "?ix \<in> set (Indices demo_kept) \<and> conf_minBW (entry_conf ?e) \<le> MinBW ?ix \<and> MaxBW ?ix \<le> conf_maxBW (entry_conf ?e) \<and>
      State ?ix \<noteq> IndexTemporary \<and> 100 * second_ns + minDuration < Expiration ?ix"
    by (simp add: demo_kept_def demo_index_def seg_NewIndex_def minDuration_def sleepAtMost_def minute_ns_def
      second_ns_def demo_conf_def)
  then show "keepReservation demo_provider (\<lambda>_. 100 * second_ns) 5 ?e = (?e, Inr (100 * second_ns + newIndexMinDuration))"
    by (rule keeper_never_switches [OF demo_kept_reachable a, of 0 5, THEN conjunct2, THEN conjunct1, rule_format])
  show "Expiration (hd (Indices demo_kept)) < 100 * second_ns"
    by (simp add: demo_kept_def demo_index_def seg_NewIndex_def second_ns_def)
qed

end
