(* ===== verification/Colibri_Stitching.thy ===== *)
theory Colibri_Stitching
  imports Colibri_Indices
begin

text \<open>
  Stitching of segment reservations into full trips (go/lib/colibri/listing.go, go/lib/colibri/stitching.go).
  \<open>shortcutSteps\<close> works in place: the slice it returns shares its backing array with the one it is given, and the loop of
  \<open>ShortcutSteps\<close> goes on over the array it has changed. The array and the length of the current slice are
  therefore separate here. A failed assertion panics. The ratios \<open>Split\<close> and \<open>BW\<close>, which are floats, and the
  strings are left out.
\<close>

section \<open>Segments and trips\<close>

record segr_details =
  SegId :: rsv_id
  SegSrcIA :: u64
  SegDstIA :: u64
  SegExpirationTime :: int
  SegMinBW :: u8
  SegMaxBW :: u8
  SegAllocBW :: u8
  SegSplit :: u8
  SegSteps :: "path_step list"

record stitchable =
  StSrcIA :: u64
  StDstIA :: u64
  StUp :: "segr_details list"
  StCore :: "segr_details list"
  StDown :: "segr_details list"

type_synonym full_trip = "segr_details list"

definition Trip_Validate :: "full_trip \<Rightarrow> unit res" where
  "Trip_Validate t =
     (if length t < 1 \<or> length t > 3 then Inl (Err ''bad reservation full trip'') else Inr ())"

definition Trip_Segments :: "full_trip \<Rightarrow> rsv_id list" where
  "Trip_Segments t = map SegId t"

definition go_assert :: "bool \<Rightarrow> unit res" where
  "go_assert c = (if c then Inr () else Inl (Panic ''assertion failed''))"

fun path_steps_loop :: "full_trip \<Rightarrow> path_step list \<Rightarrow> path_step list res" where
  "path_steps_loop [] steps = Inr steps"
| "path_steps_loop (s # t) steps = (let segment = SegSteps s in
     rbind (go_assert (length segment > 0)) (\<lambda>_.
     rbind (go_assert (StepIngress (hd segment) = 0)) (\<lambda>_.
     rbind (go_assert (StepEgress (last segment) = 0)) (\<lambda>_.
     if steps = [] then Inl (Panic ''index out of range'')
     else rbind (go_assert (IA_Equal (StepIA (last steps)) (StepIA (hd segment)))) (\<lambda>_.
       path_steps_loop t
         (butlast steps @ [(last steps)\<lparr>StepEgress := StepEgress (hd segment)\<rparr>] @ tl segment))))))"

definition PathSteps :: "full_trip \<Rightarrow> path_step list res" where
  "PathSteps t = (case t of [] \<Rightarrow> Inr [] | s # t \<Rightarrow> path_steps_loop t (SegSteps s))"

section \<open>Shortcuts\<close>

fun find_ia :: "u64 \<Rightarrow> path_step list \<Rightarrow> nat \<Rightarrow> nat option" where
  "find_ia ia [] i = None"
| "find_ia ia (s # ss) i = (if StepIA s = ia then Some i else find_ia ia ss (i + 1))"

text \<open>The backing array \<open>a\<close> and the length \<open>k\<close> of the slice. \<open>from\<close> and \<open>to\<close> are 0 when nothing is found. The new slice
  is \<open>steps[:from+1]\<close> with the rest appended in place.\<close>

definition shortcutSteps :: "path_step list \<Rightarrow> nat \<Rightarrow> u64 \<Rightarrow> path_step list \<times> nat" where
  "shortcutSteps a k ia = (let
     from = (case find_ia ia (take k a) 0 of None \<Rightarrow> 0 | Some i \<Rightarrow> i);
     to = (case find_ia ia (drop (from + 1) (take k a)) (from + 1) of None \<Rightarrow> 0 | Some i \<Rightarrow> i)
   in if to = 0 then (a, k)
      else let
        a = a[from := (a ! from)\<lparr>StepEgress := StepEgress (a ! to)\<rparr>];
        rest = slice (to + 1) k a
      in (put_at (from + 1) rest a, from + 1 + length rest))"

definition shortcut_round :: "u64 list \<Rightarrow> nat \<Rightarrow> path_step list \<times> nat \<Rightarrow> path_step list \<times> nat" where
  "shortcut_round stitchPoints i = (\<lambda>(a, k).
     if StepIA (a ! i) \<in> set stitchPoints then (a, k) else shortcutSteps a k (StepIA (a ! i)))"

fun stitch_points :: "path_step list \<Rightarrow> full_trip \<Rightarrow> u64 list res" where
  "stitch_points prev [] = Inr []"
| "stitch_points prev (s # t) =
     rbind (Steps_DstIA prev) (\<lambda>dst.
     rbind (Steps_SrcIA (SegSteps s)) (\<lambda>src.
     rbind (go_assert (dst = src)) (\<lambda>_.
     rbind (stitch_points (SegSteps s) t) (\<lambda>ps.
     Inr (src # ps)))))"

definition ShortcutSteps :: "full_trip \<Rightarrow> path_step list res" where
  "ShortcutSteps t = (case t of
       [] \<Rightarrow> Inr []
     | s # ss \<Rightarrow>
         rbind (stitch_points (SegSteps s) ss) (\<lambda>stitchPoints.
         rbind (PathSteps t) (\<lambda>steps.
         let (a, k) = fold (shortcut_round stitchPoints) [0..<length steps] (steps, length steps)
         in Inr (take k a))))"

section \<open>Properties of a trip\<close>

definition MaxFutureTime :: int where
  "MaxFutureTime = -2208988800 * second_ns + (2 ^ 63 - 1)"

definition Trip_ExpirationTime :: "full_trip \<Rightarrow> int" where
  "Trip_ExpirationTime t =
     (if t = [] then zero_time
      else foldl (\<lambda>m l. if SegExpirationTime l < m then SegExpirationTime l else m) MaxFutureTime t)"

definition lowest :: "(segr_details \<Rightarrow> u8) \<Rightarrow> full_trip \<Rightarrow> u8" where
  "lowest bw t = (if t = [] then 0 else foldl (\<lambda>m l. if bw l < m then bw l else m) 255 t)"

definition Trip_MinBW :: "full_trip \<Rightarrow> u8" where "Trip_MinBW t = lowest SegMinBW t"
definition Trip_MaxBW :: "full_trip \<Rightarrow> u8" where "Trip_MaxBW t = lowest SegMaxBW t"
definition Trip_AllocBW :: "full_trip \<Rightarrow> u8" where "Trip_AllocBW t = lowest SegAllocBW t"

definition NumberOfASes :: "full_trip \<Rightarrow> int" where
  "NumberOfASes t = foldl (\<lambda>n l. n + int (length (SegSteps l))) 0 t - (int (length t) - 1)"

definition Trip_SrcIA :: "full_trip \<Rightarrow> u64 res" where
  "Trip_SrcIA t = (if t = [] then Inl (Panic ''index out of range'') else Inr (SegSrcIA (hd t)))"

definition Trip_DstIA :: "full_trip \<Rightarrow> u64 res" where
  "Trip_DstIA t = (if t = [] then Inl (Panic ''index out of range'') else Inr (SegDstIA (last t)))"

section \<open>Combining segments\<close>

definition segmentsToMap :: "segr_details list \<Rightarrow> u64 \<Rightarrow> segr_details list option" where
  "segmentsToMap sgmts =
     foldl (\<lambda>m r. m(SegSrcIA r \<mapsto> (case m (SegSrcIA r) of None \<Rightarrow> [] | Some rs \<Rightarrow> rs) @ [r])) Map.empty sgmts"

definition segs_at :: "(u64 \<Rightarrow> segr_details list option) \<Rightarrow> u64 \<Rightarrow> segr_details list" where
  "segs_at m ia = (case m ia of None \<Rightarrow> [] | Some segs \<Rightarrow> segs)"

text \<open>\<open>append(*trip, down)\<close> allocates: the capacity of a trip is its length.\<close>

definition combineAll :: "stitchable option \<Rightarrow> full_trip list res" where
  "combineAll so = (case so of
       None \<Rightarrow> Inr []
     | Some s \<Rightarrow> let
         fulltrips = map (\<lambda>u. [u]) (filter (\<lambda>u. SegDstIA u = StDstIA s) (StUp s));
         ups = filter (\<lambda>u. SegDstIA u \<noteq> StDstIA s) (StUp s)
       in if ups = [] \<and> StUp s \<noteq> [] then Inr fulltrips
          else let
            cores = segmentsToMap (StCore s);
            downs = segmentsToMap (StDown s);
            fulltrips = fulltrips @
              (if IA_ISD (StSrcIA s) = IA_ISD (StDstIA s)
               then concat (map (\<lambda>up. map (\<lambda>down. [up, down]) (segs_at downs (SegDstIA up))) ups) else []);
            tempTrips = (if ups = [] then map (\<lambda>core. [core]) (segs_at cores (StSrcIA s)) else []) @
              concat (map (\<lambda>up. map (\<lambda>core. [up, core]) (segs_at cores (SegDstIA up))) ups);
            dstLooksLikeCoreAS = list_ex (\<lambda>t. SegDstIA (last t) = StDstIA s) tempTrips
          in if dstLooksLikeCoreAS
             then rbind (go_assert (list_all (\<lambda>t. SegSrcIA (hd t) = StSrcIA s) tempTrips)) (\<lambda>_.
               Inr (fulltrips @ filter (\<lambda>t. SegDstIA (last t) = StDstIA s) tempTrips))
             else Inr (fulltrips @ map (\<lambda>down. [down]) (segs_at downs (StSrcIA s)) @
               concat (map (\<lambda>t. map (\<lambda>down. t @ [down]) (segs_at downs (SegDstIA (last t)))) tempTrips)))"

fun assert_trips :: "stitchable \<Rightarrow> full_trip list \<Rightarrow> unit res" where
  "assert_trips s [] = Inr ()"
| "assert_trips s (t # ts) =
     rbind (Trip_SrcIA t) (\<lambda>src.
     rbind (go_assert (src = StSrcIA s)) (\<lambda>_.
     rbind (Trip_DstIA t) (\<lambda>dst.
     rbind (go_assert (dst = StDstIA s)) (\<lambda>_.
     rbind (go_assert (Trip_Validate t = Inr ())) (\<lambda>_.
     assert_trips s ts)))))"

text \<open>For \<open>nil\<close> there are no trips, and so no dereference of \<open>stitchable\<close>.\<close>

definition CombineAll :: "stitchable option \<Rightarrow> full_trip list res" where
  "CombineAll so =
     rbind (combineAll so) (\<lambda>fullTrips. case so of
         None \<Rightarrow> Inr fullTrips
       | Some s \<Rightarrow> rbind (assert_trips s fullTrips) (\<lambda>_. Inr fullTrips))"

section \<open>Trips from source to destination\<close>

lemma segs_at_segmentsToMap: "segs_at (segmentsToMap l) ia = filter (\<lambda>r. SegSrcIA r = ia) l"
proof (induction l rule: rev_induct)
  case Nil
  show ?case by (simp add: segs_at_def segmentsToMap_def)
next
  case (snoc r l)
  have "segmentsToMap (l @ [r]) =
      (segmentsToMap l)(SegSrcIA r \<mapsto> segs_at (segmentsToMap l) (SegSrcIA r) @ [r])"
    by (simp add: segmentsToMap_def segs_at_def)
  then show ?case using snoc by (simp add: segs_at_def)
qed

definition connects :: "stitchable \<Rightarrow> full_trip \<Rightarrow> bool" where
  "connects s t \<longleftrightarrow> t \<noteq> [] \<and> length t \<le> 3 \<and> SegSrcIA (hd t) = StSrcIA s \<and> SegDstIA (last t) = StDstIA s \<and>
     successively (\<lambda>a b. SegDstIA a = SegSrcIA b) t \<and> set t \<subseteq> set (StUp s) \<union> set (StCore s) \<union> set (StDown s)"

definition stitchable_wf :: "stitchable \<Rightarrow> bool" where
  "stitchable_wf s \<longleftrightarrow> (\<forall>u \<in> set (StUp s). SegSrcIA u = StSrcIA s) \<and> (\<forall>d \<in> set (StDown s). SegDstIA d = StDstIA s)"

lemma assert_trips_ok: "\<forall>t \<in> set ts. connects s t \<Longrightarrow> assert_trips s ts = Inr ()"
proof (induction ts)
  case Nil
  show ?case by simp
next
  case (Cons t ts)
  then have t: "t \<noteq> []" "length t \<le> 3" "SegSrcIA (hd t) = StSrcIA s" "SegDstIA (last t) = StDstIA s"
    by (simp_all add: connects_def)
  then have "Trip_Validate t = Inr ()" by (cases t) (auto simp: Trip_Validate_def)
  then show ?case using Cons t by (simp add: Trip_SrcIA_def Trip_DstIA_def go_assert_def)
qed

text \<open>The parts of \<open>combineAll\<close>: up segments that do not reach the destination, and the trips that end in a core
  segment.\<close>

definition partial_ups :: "stitchable \<Rightarrow> segr_details list" where
  "partial_ups s = filter (\<lambda>u. SegDstIA u \<noteq> StDstIA s) (StUp s)"

definition core_trips :: "stitchable \<Rightarrow> full_trip list" where
  "core_trips s = (if partial_ups s = [] then map (\<lambda>c. [c]) (filter (\<lambda>c. SegSrcIA c = StSrcIA s) (StCore s)) else []) @
     concat (map (\<lambda>u. map (\<lambda>c. [u, c]) (filter (\<lambda>c. SegSrcIA c = SegDstIA u) (StCore s))) (partial_ups s))"

lemma core_trips_iff:
  "t \<in> set (core_trips s) \<longleftrightarrow>
     (partial_ups s = [] \<and> (\<exists>c \<in> set (StCore s). SegSrcIA c = StSrcIA s \<and> t = [c])) \<or>
     (\<exists>u \<in> set (StUp s). \<exists>c \<in> set (StCore s). SegDstIA u \<noteq> StDstIA s \<and> SegSrcIA c = SegDstIA u \<and> t = [u, c])"
  by (auto simp: core_trips_def partial_ups_def)

lemma core_trips_src: "stitchable_wf s \<Longrightarrow> t \<in> set (core_trips s) \<Longrightarrow> SegSrcIA (hd t) = StSrcIA s \<and> t \<noteq> []"
  by (auto simp: core_trips_iff stitchable_wf_def)

definition reaches_core :: "stitchable \<Rightarrow> bool" where
  "reaches_core s \<longleftrightarrow> (\<exists>t \<in> set (core_trips s). SegDstIA (last t) = StDstIA s)"

definition direct_trips :: "stitchable \<Rightarrow> full_trip list" where
  "direct_trips s = map (\<lambda>u. [u]) (filter (\<lambda>u. SegDstIA u = StDstIA s) (StUp s))"

definition updown_trips :: "stitchable \<Rightarrow> full_trip list" where
  "updown_trips s = (if IA_ISD (StSrcIA s) = IA_ISD (StDstIA s)
     then concat (map (\<lambda>u. map (\<lambda>d. [u, d]) (filter (\<lambda>d. SegSrcIA d = SegDstIA u) (StDown s))) (partial_ups s)) else [])"

definition down_trips :: "stitchable \<Rightarrow> full_trip list" where
  "down_trips s = map (\<lambda>d. [d]) (filter (\<lambda>d. SegSrcIA d = StSrcIA s) (StDown s)) @
     concat (map (\<lambda>t. map (\<lambda>d. t @ [d]) (filter (\<lambda>d. SegSrcIA d = SegDstIA (last t)) (StDown s))) (core_trips s))"

lemma combineAll_eq:
  assumes "stitchable_wf s"
  shows "combineAll (Some s) = Inr (direct_trips s @
    (if partial_ups s = [] \<and> StUp s \<noteq> [] then []
     else updown_trips s @ (if reaches_core s then filter (\<lambda>t. SegDstIA (last t) = StDstIA s) (core_trips s)
       else down_trips s)))"
proof -
  have a: "go_assert (list_all (\<lambda>t. SegSrcIA (hd t) = StSrcIA s) (core_trips s)) = Inr ()"
    using core_trips_src [OF assms] by (simp add: go_assert_def list_all_iff)
  have r: "list_ex (\<lambda>t. SegDstIA (last t) = StDstIA s) (core_trips s) = reaches_core s"
    by (auto simp: reaches_core_def list_ex_iff)
  have p: "filter (\<lambda>u. SegDstIA u \<noteq> StDstIA s) (StUp s) = partial_ups s" by (simp add: partial_ups_def)
  show ?thesis
    unfolding combineAll_def option.case Let_def p segs_at_segmentsToMap core_trips_def [symmetric]
      direct_trips_def [symmetric] r a
    by (simp add: updown_trips_def down_trips_def)
qed

lemma direct_connects: "stitchable_wf s \<Longrightarrow> t \<in> set (direct_trips s) \<Longrightarrow> connects s t"
  by (auto simp: direct_trips_def connects_def stitchable_wf_def)

lemma updown_connects: "stitchable_wf s \<Longrightarrow> t \<in> set (updown_trips s) \<Longrightarrow> connects s t"
  by (auto simp: updown_trips_def partial_ups_def connects_def stitchable_wf_def split: if_splits)

lemma core_connects:
  "stitchable_wf s \<Longrightarrow> t \<in> set (core_trips s) \<Longrightarrow> SegDstIA (last t) = StDstIA s \<Longrightarrow> connects s t"
  by (auto simp: core_trips_iff connects_def stitchable_wf_def)

lemma down_connects: "stitchable_wf s \<Longrightarrow> t \<in> set (down_trips s) \<Longrightarrow> connects s t"
  by (auto simp: down_trips_def core_trips_iff connects_def stitchable_wf_def)

lemma CombineAll_eq:
  assumes "stitchable_wf s"
  shows "CombineAll (Some s) = combineAll (Some s)"
    "combineAll (Some s) = Inr trips \<Longrightarrow> t \<in> set trips \<Longrightarrow> connects s t"
proof -
  show c: "combineAll (Some s) = Inr trips \<Longrightarrow> t \<in> set trips \<Longrightarrow> connects s t" for trips t
    unfolding combineAll_eq [OF assms]
    using direct_connects [OF assms] updown_connects [OF assms] core_connects [OF assms] down_connects [OF assms]
    by (auto split: if_splits)
  obtain trips where t: "combineAll (Some s) = Inr trips" using combineAll_eq [OF assms] by blast
  then have "assert_trips s trips = Inr ()" using c assert_trips_ok by blast
  then show "CombineAll (Some s) = combineAll (Some s)" by (simp add: CombineAll_def t)
qed

text \<open>The trips from the source that end in a core segment: a core segment alone when there are no up segments (the source is a core AS),
  or after an up segment that does not end in the destination.\<close>

definition core_leg :: "stitchable \<Rightarrow> full_trip \<Rightarrow> bool" where
  "core_leg s t \<longleftrightarrow> (\<exists>c \<in> set (StCore s). (StUp s = [] \<and> SegSrcIA c = StSrcIA s \<and> t = [c]) \<or>
     (\<exists>u \<in> set (StUp s). SegDstIA u \<noteq> StDstIA s \<and> SegDstIA u = SegSrcIA c \<and> t = [u, c]))"

text \<open>The trips that are wanted: an up segment to the destination; and, unless all up segments end there, an up and a down segment that meet, within an
  ISD; a core leg to the destination; and when there is none (the destination is not a core AS) a down segment from the source, or after a core leg.\<close>

definition wanted :: "stitchable \<Rightarrow> full_trip \<Rightarrow> bool" where
  "wanted s t \<longleftrightarrow> (\<exists>u \<in> set (StUp s). SegDstIA u = StDstIA s \<and> t = [u]) \<or>
     (StUp s = [] \<or> (\<exists>u \<in> set (StUp s). SegDstIA u \<noteq> StDstIA s)) \<and>
     ((\<exists>u \<in> set (StUp s). \<exists>d \<in> set (StDown s). SegDstIA u \<noteq> StDstIA s \<and> SegDstIA u = SegSrcIA d \<and>
         IA_ISD (StSrcIA s) = IA_ISD (StDstIA s) \<and> t = [u, d]) \<or>
      core_leg s t \<and> SegDstIA (last t) = StDstIA s \<or>
      (\<nexists>t'. core_leg s t' \<and> SegDstIA (last t') = StDstIA s) \<and>
        (\<exists>d \<in> set (StDown s). SegSrcIA d = StSrcIA s \<and> t = [d] \<or> (\<exists>t'. core_leg s t' \<and> SegDstIA (last t') = SegSrcIA d \<and> t = t' @ [d])))"

lemma core_trips_leg:
  assumes "\<not> (partial_ups s = [] \<and> StUp s \<noteq> [])"
  shows "t \<in> set (core_trips s) \<longleftrightarrow> core_leg s t"
proof -
  have "partial_ups s = [] \<longleftrightarrow> StUp s = []" using assms by (auto simp: partial_ups_def)
  then show ?thesis unfolding core_trips_iff core_leg_def by auto
qed

lemma wanted_trips:
  "t \<in> set (direct_trips s @ (if partial_ups s = [] \<and> StUp s \<noteq> [] then []
     else updown_trips s @ (if reaches_core s then filter (\<lambda>t. SegDstIA (last t) = StDstIA s) (core_trips s) else down_trips s))) \<longleftrightarrow> wanted s t"
proof (cases "partial_ups s = [] \<and> StUp s \<noteq> []")
  case True
  then have "\<not> (StUp s = [] \<or> (\<exists>u \<in> set (StUp s). SegDstIA u \<noteq> StDstIA s))" by (auto simp: partial_ups_def filter_empty_conv)
  then show ?thesis using True by (auto simp: direct_trips_def wanted_def)
next
  case False
  note leg = core_trips_leg [OF False]
  have p: "StUp s = [] \<or> (\<exists>u \<in> set (StUp s). SegDstIA u \<noteq> StDstIA s)" using False by (auto simp: partial_ups_def filter_empty_conv)
  have d: "t \<in> set (direct_trips s) \<longleftrightarrow> (\<exists>u \<in> set (StUp s). SegDstIA u = StDstIA s \<and> t = [u])" by (auto simp: direct_trips_def)
  have ud: "t \<in> set (updown_trips s) \<longleftrightarrow> (\<exists>u \<in> set (StUp s). \<exists>d \<in> set (StDown s). SegDstIA u \<noteq> StDstIA s \<and> SegDstIA u = SegSrcIA d \<and>
      IA_ISD (StSrcIA s) = IA_ISD (StDstIA s) \<and> t = [u, d])" by (auto simp: updown_trips_def partial_ups_def)
  have r: "reaches_core s \<longleftrightarrow> (\<exists>t'. core_leg s t' \<and> SegDstIA (last t') = StDstIA s)" by (auto simp: reaches_core_def leg)
  have dn: "t \<in> set (down_trips s) \<longleftrightarrow> (\<exists>d \<in> set (StDown s). SegSrcIA d = StSrcIA s \<and> t = [d] \<or>
      (\<exists>t'. core_leg s t' \<and> SegDstIA (last t') = SegSrcIA d \<and> t = t' @ [d]))"
  proof -
    have "t \<in> set (map (\<lambda>d. [d]) (filter (\<lambda>d. SegSrcIA d = StSrcIA s) (StDown s))) \<longleftrightarrow> (\<exists>d \<in> set (StDown s). SegSrcIA d = StSrcIA s \<and> t = [d])"
      by auto
    moreover have "t \<in> set (concat (map (\<lambda>t. map (\<lambda>d. t @ [d]) (filter (\<lambda>d. SegSrcIA d = SegDstIA (last t)) (StDown s))) ts)) \<longleftrightarrow>
        (\<exists>d \<in> set (StDown s). \<exists>t'. t' \<in> set ts \<and> SegDstIA (last t') = SegSrcIA d \<and> t = t' @ [d])" for ts
      by (induction ts) auto
    ultimately show ?thesis unfolding down_trips_def leg [symmetric] set_append by blast
  qed
  show ?thesis
  proof (cases "reaches_core s")
    case True
    then show ?thesis using False p r by (simp add: wanted_def d ud leg) blast
  next
    case nr: False
    then show ?thesis using False p r by (simp add: wanted_def d ud dn) blast
  qed
qed

text \<open>Claim C28. Given up segments that start at the source and down segments that end at the destination,
  \<open>CombineAll\<close> never panics. The trips it returns are exactly the wanted ones, and each is made of one to three of the given segments, each starting in the AS
  where the one before ends, from the source to the destination.\<close>

theorem combine_correct:
  assumes "\<forall>u \<in> set (StUp s). SegSrcIA u = StSrcIA s" "\<forall>d \<in> set (StDown s). SegDstIA d = StDstIA s"
  shows "\<exists>trips. CombineAll (Some s) = Inr trips \<and> set trips = {t. wanted s t} \<and>
    (\<forall>t \<in> set trips. t \<noteq> [] \<and> length t \<le> 3 \<and> SegSrcIA (hd t) = StSrcIA s \<and> SegDstIA (last t) = StDstIA s \<and>
       successively (\<lambda>a b. SegDstIA a = SegSrcIA b) t \<and> set t \<subseteq> set (StUp s) \<union> set (StCore s) \<union> set (StDown s))"
proof -
  have wf: "stitchable_wf s" using assms by (simp add: stitchable_wf_def)
  obtain trips where t: "combineAll (Some s) = Inr trips" using combineAll_eq [OF wf] by blast
  then have "t \<in> set trips \<longleftrightarrow> wanted s t" for t
    using combineAll_eq [OF wf] wanted_trips [of t s] by simp
  then show ?thesis using t CombineAll_eq [OF wf] by (intro exI [of _ trips]) (auto simp: connects_def)
qed

definition demo_seg :: "u64 \<Rightarrow> u64 \<Rightarrow> segr_details" where
  "demo_seg a b = \<lparr>SegId = \<lparr>ASID = 1, Suffix = [0, 0, 0, 1]\<rparr>, SegSrcIA = a, SegDstIA = b, SegExpirationTime = 0,
     SegMinBW = 1, SegMaxBW = 9, SegAllocBW = 5, SegSplit = 0,
     SegSteps = [\<lparr>StepIngress = 0, StepEgress = 1, StepIA = a\<rparr>, \<lparr>StepIngress = 2, StepEgress = 0, StepIA = b\<rparr>]\<rparr>"

definition demo_stitchable :: stitchable where
  "demo_stitchable = \<lparr>StSrcIA = 1, StDstIA = 4, StUp = [demo_seg 1 2], StCore = [demo_seg 2 3], StDown = [demo_seg 3 4]\<rparr>"

definition demo_core_stitchable :: stitchable where
  "demo_core_stitchable = \<lparr>StSrcIA = 2, StDstIA = 4, StUp = [], StCore = [demo_seg 2 3], StDown = [demo_seg 3 4, demo_seg 2 4]\<rparr>"

lemma demo_wanted:
  "wanted demo_stitchable [demo_seg 1 2, demo_seg 2 3, demo_seg 3 4]"
  "wanted demo_core_stitchable [demo_seg 2 3, demo_seg 3 4]" "wanted demo_core_stitchable [demo_seg 2 4]"
  by (auto simp: wanted_def core_leg_def demo_stitchable_def demo_core_stitchable_def demo_seg_def)

theorem combine_correct_witness:
  "(\<exists>trips. CombineAll (Some demo_stitchable) = Inr trips \<and> [demo_seg 1 2, demo_seg 2 3, demo_seg 3 4] \<in> set trips) \<and>
   (\<exists>trips. CombineAll (Some demo_core_stitchable) = Inr trips \<and> [demo_seg 2 3, demo_seg 3 4] \<in> set trips \<and> [demo_seg 2 4] \<in> set trips)"
proof
  have "\<forall>u \<in> set (StUp demo_stitchable). SegSrcIA u = StSrcIA demo_stitchable"
    "\<forall>d \<in> set (StDown demo_stitchable). SegDstIA d = StDstIA demo_stitchable"
    by (simp_all add: demo_stitchable_def demo_seg_def)
  from combine_correct [OF this] show "\<exists>trips. CombineAll (Some demo_stitchable) = Inr trips \<and> [demo_seg 1 2, demo_seg 2 3, demo_seg 3 4] \<in> set trips"
    using demo_wanted(1) by blast
  have "\<forall>u \<in> set (StUp demo_core_stitchable). SegSrcIA u = StSrcIA demo_core_stitchable"
    "\<forall>d \<in> set (StDown demo_core_stitchable). SegDstIA d = StDstIA demo_core_stitchable"
    by (simp_all add: demo_core_stitchable_def demo_seg_def)
  from combine_correct [OF this] show "\<exists>trips. CombineAll (Some demo_core_stitchable) = Inr trips \<and> [demo_seg 2 3, demo_seg 3 4] \<in> set trips \<and> [demo_seg 2 4] \<in> set trips"
    using demo_wanted(2,3) by blast
qed

section \<open>Shortcuts\<close>

lemma find_ia_Some:
  "find_ia ia xs i = Some j \<Longrightarrow>
     i \<le> j \<and> j < i + length xs \<and> StepIA (xs ! (j - i)) = ia \<and> (\<forall>m < j - i. StepIA (xs ! m) \<noteq> ia)"
proof (induction xs arbitrary: i)
  case Nil
  then show ?case by simp
next
  case (Cons x xs)
  show ?case
  proof (cases "StepIA x = ia")
    case True
    then show ?thesis using Cons.prems by simp
  next
    case False
    then have "find_ia ia xs (i + 1) = Some j" using Cons.prems by simp
    note ih = Cons.IH [OF this]
    then obtain d where d: "j - i = Suc d" "j - (i + 1) = d" by (metis Suc_diff_Suc Suc_eq_plus1 Suc_le_lessD)
    then have "m < Suc d \<Longrightarrow> StepIA ((x # xs) ! m) \<noteq> ia" for m
      using ih False by (cases m) auto
    then show ?thesis using ih d by auto
  qed
qed

lemma find_ia_None: "find_ia ia xs i = None \<longleftrightarrow> (\<forall>n < length xs. StepIA (xs ! n) \<noteq> ia)"
  by (induction xs arbitrary: i) (auto simp: nth_Cons less_Suc_eq_0_disj split: nat.splits)

text \<open>The list that a shortcut between positions \<open>f\<close> and \<open>t\<close> leaves.\<close>

definition cut :: "nat \<Rightarrow> nat \<Rightarrow> path_step list \<Rightarrow> path_step list" where
  "cut f t xs = take f xs @ (xs ! f)\<lparr>StepEgress := StepEgress (xs ! t)\<rparr> # drop (t + 1) xs"

lemma take_put_at_end: "i \<le> length b \<Longrightarrow> take (i + length bs) (put_at i bs b) = take i b @ bs"
  by (simp add: put_at_def)

lemma shortcutSteps_cases:
  assumes "k \<le> length a" "shortcutSteps a k ia = (a', k')"
  defines "xs \<equiv> take k a"
  shows "(a' = a \<and> k' = k \<and> (\<forall>f t. f < t \<and> t < k \<and> StepIA (xs ! f) = ia \<longrightarrow> StepIA (xs ! t) \<noteq> ia)) \<or>
    (\<exists>f t. f < t \<and> t < k \<and> StepIA (xs ! f) = ia \<and> StepIA (xs ! t) = ia \<and>
      (\<forall>j < t. StepIA (xs ! j) = ia \<longrightarrow> j = f) \<and>
      length a' = length a \<and> k' = k - (t - f) \<and> take k' a' = cut f t xs)"
proof (cases "find_ia ia xs 0")
  case None
  then have n: "StepIA (xs ! n) \<noteq> ia" if "n < k" for n
    using that assms(1) by (simp add: find_ia_None xs_def)
  have "find_ia ia (drop (0 + 1) xs) (0 + 1) = None"
    unfolding find_ia_None using n assms(1) by (auto simp: xs_def)
  then have "shortcutSteps a k ia = (a, k)"
    using None unfolding shortcutSteps_def xs_def [symmetric] by simp
  then show ?thesis using n assms(2) by auto
next
  case (Some f)
  have lx: "length xs = k" using assms(1) by (simp add: xs_def)
  have f: "f < k" "StepIA (xs ! f) = ia" "\<forall>m < f. StepIA (xs ! m) \<noteq> ia"
    using find_ia_Some [OF Some] lx by auto
  show ?thesis
  proof (cases "find_ia ia (drop (f + 1) xs) (f + 1)")
    case None
    have "StepIA (xs ! n) \<noteq> ia" if "f < n" "n < k" for n
      using None that lx unfolding find_ia_None by (auto dest: spec [of _ "n - (f + 1)"])
    moreover have "shortcutSteps a k ia = (a, k)"
      using Some None unfolding shortcutSteps_def xs_def [symmetric] by simp
    ultimately show ?thesis using f assms(2) by (metis linorder_neqE_nat order.strict_trans prod.inject)
  next
    case t: (Some t)
    note ft = find_ia_Some [OF t]
    have t1: "f < t" "t < k" "StepIA (xs ! t) = ia" using ft lx f(1) by auto
    have between: "StepIA (xs ! j) \<noteq> ia" if "f < j" "j < t" for j
    proof -
      have "j - (f + 1) < t - (f + 1)" "f + 1 + (j - (f + 1)) = j" "f + 1 \<le> length xs" using that lx f(1) by auto
      then show ?thesis using ft by (metis nth_drop)
    qed
    have only: "\<forall>j < t. StepIA (xs ! j) = ia \<longrightarrow> j = f"
      using between f(3) by (metis linorder_neqE_nat)
    define a1 where "a1 = a[f := (a ! f)\<lparr>StepEgress := StepEgress (a ! t)\<rparr>]"
    have "shortcutSteps a k ia = (put_at (f + 1) (slice (t + 1) k a1) a1, f + 1 + length (slice (t + 1) k a1))"
      using Some t t1(1) unfolding shortcutSteps_def xs_def [symmetric] by (simp add: Let_def a1_def)
    then have r: "a' = put_at (f + 1) (slice (t + 1) k a1) a1" "k' = f + 1 + (k - (t + 1))"
      using assms(1,2) by (auto simp: a1_def)
    have sl: "slice (t + 1) k a1 = drop (t + 1) xs"
      using t1 assms(1) by (simp add: slice_def a1_def xs_def drop_update_swap drop_take)
    have "take (f + 1) a1 = take f xs @ [(xs ! f)\<lparr>StepEgress := StepEgress (xs ! t)\<rparr>]"
      using f(1) t1 assms(1) by (simp add: a1_def xs_def take_Suc_conv_app_nth min_def)
    moreover have "take k' a' = take (f + 1) a1 @ drop (t + 1) xs"
    proof -
      have "f + 1 \<le> length a1" "k' = f + 1 + length (drop (t + 1) xs)" using f(1) assms(1) by (auto simp: a1_def r lx)
      then show ?thesis using take_put_at_end [of "f + 1" a1 "drop (t + 1) xs"] by (simp only: r(1) sl)
    qed
    ultimately have "take k' a' = cut f t xs" by (simp add: cut_def)
    moreover have "length a' = length a" "k' = k - (t - f)"
      using f(1) t1 assms(1) by (auto simp: r sl a1_def lx)
    ultimately show ?thesis using t1 f(2) only by blast
  qed
qed

text \<open>The inter-domain links that a sequence of steps takes: the AS and interface left, the AS and interface entered.\<close>

definition links :: "path_step list \<Rightarrow> ((u64 \<times> u16) \<times> (u64 \<times> u16)) set" where
  "links xs = {((StepIA (xs ! j), StepEgress (xs ! j)), (StepIA (xs ! Suc j), StepIngress (xs ! Suc j))) | j.
     Suc j < length xs}"

definition keeps_path :: "path_step list \<Rightarrow> path_step list \<Rightarrow> bool" where
  "keeps_path xs ys \<longleftrightarrow> (ys = [] \<longleftrightarrow> xs = []) \<and> links ys \<subseteq> links xs \<and>
     (xs \<noteq> [] \<longrightarrow> StepIA (hd ys) = StepIA (hd xs) \<and> StepIngress (hd ys) = StepIngress (hd xs) \<and>
       StepIA (last ys) = StepIA (last xs) \<and> StepEgress (last ys) = StepEgress (last xs))"

lemma keeps_path_refl [simp]: "keeps_path xs xs"
  by (simp add: keeps_path_def)

lemma keeps_path_trans: "keeps_path xs ys \<Longrightarrow> keeps_path ys zs \<Longrightarrow> keeps_path xs zs"
  by (auto simp: keeps_path_def)

lemma length_cut [simp]: "f < t \<Longrightarrow> t < length xs \<Longrightarrow> length (cut f t xs) = length xs - (t - f)"
  by (simp add: cut_def)

lemma nth_cut:
  assumes "f < t" "t < length xs" "j < length xs - (t - f)"
  shows "cut f t xs ! j = (if j < f then xs ! j
    else if j = f then (xs ! f)\<lparr>StepEgress := StepEgress (xs ! t)\<rparr> else xs ! (t + (j - f)))"
  using assms by (auto simp: cut_def nth_append nth_Cons min_def add_ac split: nat.splits intro!: arg_cong [of _ _ "nth xs"])

lemma cut_keeps_path:
  assumes "f < t" "t < length xs" "StepIA (xs ! f) = StepIA (xs ! t)"
  shows "keeps_path xs (cut f t xs)"
proof -
  have len: "length (cut f t xs) = length xs - (t - f)" using assms by simp
  have ne: "cut f t xs \<noteq> []" "xs \<noteq> []" using assms by (auto simp: cut_def)
  have "links (cut f t xs) \<subseteq> links xs"
  proof
    fix l assume "l \<in> links (cut f t xs)"
    then obtain j where j: "Suc j < length xs - (t - f)" and
      l: "l = ((StepIA (cut f t xs ! j), StepEgress (cut f t xs ! j)),
               (StepIA (cut f t xs ! Suc j), StepIngress (cut f t xs ! Suc j)))"
      unfolding links_def len by blast
    define i where "i = (if j < f then j else t + (j - f))"
    have "Suc i < length xs" using j assms by (auto simp: i_def)
    moreover have "l = ((StepIA (xs ! i), StepEgress (xs ! i)), (StepIA (xs ! Suc i), StepIngress (xs ! Suc i)))"
    proof -
      consider "Suc j < f" | "Suc j = f" | "f = j" | "f < j" by linarith
      then show ?thesis
        using j assms nth_cut [OF assms(1,2), of j] nth_cut [OF assms(1,2), of "Suc j"]
        by cases (auto simp: l i_def Suc_diff_le)
    qed
    ultimately show "l \<in> links xs" unfolding links_def by blast
  qed
  moreover have "hd (cut f t xs) = cut f t xs ! 0" "hd xs = xs ! 0" using ne by (simp_all add: hd_conv_nth)
  moreover have "last (cut f t xs) = cut f t xs ! (length xs - (t - f) - 1)" "last xs = xs ! (length xs - 1)"
    using ne len by (simp_all add: last_conv_nth)
  moreover have "StepIA (cut f t xs ! 0) = StepIA (xs ! 0)" "StepIngress (cut f t xs ! 0) = StepIngress (xs ! 0)"
    using assms by (auto simp: nth_cut)
  moreover have "StepIA (cut f t xs ! (length xs - (t - f) - 1)) = StepIA (xs ! (length xs - 1)) \<and>
      StepEgress (cut f t xs ! (length xs - (t - f) - 1)) = StepEgress (xs ! (length xs - 1))"
  proof (cases "length xs - (t - f) - 1 = f")
    case True
    then have "length xs - 1 = t" using assms by auto
    then show ?thesis using assms True by (simp add: nth_cut)
  next
    case False
    then have "f < length xs - (t - f) - 1" "t + (length xs - (t - f) - 1 - f) = length xs - 1" using assms by auto
    then show ?thesis using assms by (simp add: nth_cut)
  qed
  ultimately show ?thesis using ne by (simp add: keeps_path_def)
qed

lemma map_IA_cut:
  "f < t \<Longrightarrow> t < length xs \<Longrightarrow>
   map StepIA (cut f t xs) = take (f + 1) (map StepIA xs) @ drop (t + 1) (map StepIA xs)"
  by (simp add: cut_def take_map drop_map take_Suc_conv_app_nth)

lemma count_cut:
  assumes "f < t" "t < length xs"
  shows "count_list (map StepIA (cut f t xs)) ia \<le> count_list (map StepIA xs) ia"
proof -
  let ?m = "map StepIA xs"
  have "?m = take (f + 1) ?m @ drop (f + 1) ?m" by simp
  then have "count_list ?m ia = count_list (take (f + 1) ?m) ia + count_list (drop (f + 1) ?m) ia"
    by (metis count_list_append)
  moreover have "drop (t + 1) ?m = drop (t - f) (drop (f + 1) ?m)" using assms by simp
  then have "drop (f + 1) ?m = take (t - f) (drop (f + 1) ?m) @ drop (t + 1) ?m" by (simp only: append_take_drop_id)
  then have "count_list (drop (f + 1) ?m) ia \<ge> count_list (drop (t + 1) ?m) ia"
    by (metis count_list_append le_add2)
  ultimately show ?thesis using map_IA_cut [OF assms] by simp
qed

lemma count_list_card: "count_list ys v = card {j. j < length ys \<and> ys ! j = v}"
proof -
  have "count_list ys v = length (filter ((=) v) ys)" by (simp add: count_list_eq_length_filter)
  also have "\<dots> = card {j. j < length ys \<and> v = ys ! j}" by (simp add: length_filter_conv_card)
  finally show ?thesis by (simp add: eq_commute)
qed

lemma no_third:
  assumes "count_list (map StepIA xs) ia \<le> 2" "f < t" "t < q" "q < length xs" "StepIA (xs ! f) = ia" "StepIA (xs ! t) = ia"
  shows "StepIA (xs ! q) \<noteq> ia"
proof
  assume "StepIA (xs ! q) = ia"
  then have "{f, t, q} \<subseteq> {j. j < length (map StepIA xs) \<and> map StepIA xs ! j = ia}" using assms by auto
  then have "card {f, t, q} \<le> count_list (map StepIA xs) ia" unfolding count_list_card by (intro card_mono) auto
  then show False using assms(1-3) by simp
qed

section \<open>The loop of \<open>ShortcutSteps\<close>\<close>

definition shortcut_inv :: "path_step list \<Rightarrow> u64 list \<Rightarrow> nat \<Rightarrow> path_step list \<times> nat \<Rightarrow> bool" where
  "shortcut_inv orig sps i = (\<lambda>(a, k). length a = length orig \<and> k \<le> length a \<and> keeps_path orig (take k a) \<and>
     (\<forall>ia. ia \<notin> set sps \<longrightarrow> count_list (map StepIA (take k a)) ia \<le> 2) \<and>
     (\<forall>p q. p < i \<and> p < q \<and> q < k \<and> StepIA (a ! p) \<notin> set sps \<longrightarrow> StepIA (a ! q) \<noteq> StepIA (a ! p)))"

lemma shortcut_round_inv:
  assumes "shortcut_inv orig sps i (a, k)"
  shows "shortcut_inv orig sps (Suc i) (shortcut_round sps i (a, k))"
proof (cases "StepIA (a ! i) \<in> set sps")
  case True
  then show ?thesis using assms by (auto simp: shortcut_inv_def shortcut_round_def less_Suc_eq)
next
  case False
  define ia xs where "ia = StepIA (a ! i)" and "xs = take k a"
  have k: "k \<le> length a" "length xs = k" and two: "\<And>ia. ia \<notin> set sps \<Longrightarrow> count_list (map StepIA xs) ia \<le> 2"
    and kept: "keeps_path orig xs" and dn: "\<And>p q. p < i \<Longrightarrow> p < q \<Longrightarrow> q < k \<Longrightarrow> StepIA (xs ! p) \<notin> set sps \<Longrightarrow>
      StepIA (xs ! q) \<noteq> StepIA (xs ! p)"
    using assms by (auto simp: shortcut_inv_def xs_def)
  obtain a' k' where r: "shortcutSteps a k ia = (a', k')" by (cases "shortcutSteps a k ia") auto
  have round: "shortcut_round sps i (a, k) = (a', k')" using False r by (simp add: shortcut_round_def ia_def)
  from shortcutSteps_cases [OF k(1) r, folded xs_def]
  show ?thesis
  proof (elim disjE exE conjE)
    assume e: "a' = a" "k' = k" and "\<forall>f t. f < t \<and> t < k \<and> StepIA (xs ! f) = ia \<longrightarrow> StepIA (xs ! t) \<noteq> ia"
    then have n: "StepIA (a ! q) \<noteq> StepIA (a ! i)" if "i < q" "q < k" for q
      using that by (auto simp: xs_def ia_def dest: spec [of _ i])
    show ?thesis
      using assms n unfolding round e shortcut_inv_def prod.case by (metis less_Suc_eq)
  next
    fix f t
    assume ft: "f < t" "t < k" "StepIA (xs ! f) = ia" "StepIA (xs ! t) = ia"
      and only: "\<forall>j < t. StepIA (xs ! j) = ia \<longrightarrow> j = f"
      and res: "length a' = length a" "k' = k - (t - f)" "take k' a' = cut f t xs"
    have nf: "\<not> f < i" using dn [of f t] ft False by (auto simp: ia_def)
    then have "i < k" using ft by linarith
    then have "StepIA (xs ! i) = ia" by (simp add: xs_def ia_def)
    then have f: "f = i" using only nf ft(1) by (metis linorder_neqE_nat order.strict_trans)
    have c: "f < t" "t < length xs" using ft k(2) by auto
    have nth: "a' ! j = cut f t xs ! j" if "j < k'" for j using that res(3) by (metis nth_take)
    have IA: "StepIA (a' ! j) = StepIA (xs ! (if j \<le> f then j else t + (j - f)))" if "j < k'" for j
      using that nth nth_cut [OF c, of j] res(2) k(2) by (auto simp: le_less)
    have later: "StepIA (a' ! q) \<noteq> StepIA (a' ! p)"
      if "p < Suc i" "p < q" "q < k'" "StepIA (a' ! p) \<notin> set sps" for p q
    proof (cases "p = i")
      case True
      then have q: "t < t + (q - f)" "t + (q - f) < length xs" using that f res(2) k(2) c by auto
      have "StepIA (xs ! (t + (q - f))) \<noteq> ia"
        using no_third [OF two c(1) q(1) q(2) ft(3,4)] False by (simp add: ia_def)
      then show ?thesis using IA [of p] IA [of q] that True f ft(3) by simp
    next
      case less: False
      define q' where "q' = (if q \<le> f then q else t + (q - f))"
      have "p < i" "p < q'" "q' < k" using less that f res(2) c k(2) by (auto simp: q'_def)
      moreover have "StepIA (a' ! p) = StepIA (xs ! p)" "StepIA (a' ! q) = StepIA (xs ! q')"
        using IA [of p] IA [of q] that less f by (auto simp: q'_def)
      ultimately show ?thesis using dn [of p q'] that(4) by simp
    qed
    have "count_list (map StepIA (take k' a')) x \<le> 2" if "x \<notin> set sps" for x
      using count_cut [OF c, of x] two [OF that] res(3) by simp
    moreover have "keeps_path orig (take k' a')"
      using keeps_path_trans [OF kept cut_keeps_path [OF c]] ft res(3) by simp
    ultimately show ?thesis
      using later res k(1) assms by (auto simp: round shortcut_inv_def)
  qed
qed

lemma shortcut_loop_inv:
  assumes "shortcut_inv orig sps 0 s"
  shows "shortcut_inv orig sps n (fold (shortcut_round sps) [0..<n] s)"
proof (induction n)
  case 0
  then show ?case using assms by simp
next
  case (Suc n)
  then show ?case
    using shortcut_round_inv [of orig sps n "fst (fold (shortcut_round sps) [0..<n] s)" "snd (fold (shortcut_round sps) [0..<n] s)"]
    by simp
qed

lemma shortcut_inv_end:
  assumes "shortcut_inv orig sps (length orig) (a, k)" "ia \<notin> set sps"
  shows "count_list (map StepIA (take k a)) ia \<le> 1"
proof -
  let ?S = "{j. j < length (map StepIA (take k a)) \<and> map StepIA (take k a) ! j = ia}"
  have k: "k \<le> length a" "k \<le> length orig" using assms(1) by (auto simp: shortcut_inv_def)
  have n: "StepIA (a ! q) \<noteq> StepIA (a ! p)" if "p < length orig" "p < q" "q < k" "StepIA (a ! p) \<notin> set sps" for p q
    using assms(1) that by (auto simp: shortcut_inv_def)
  have "\<not> p < q" if "p \<in> ?S" "q \<in> ?S" for p q
    using n [of p q] that k assms by (auto simp: shortcut_inv_def)
  then have "p = q" if "p \<in> ?S" "q \<in> ?S" for p q using that by (meson linorder_neqE_nat)
  then have "card ?S \<le> Suc 0" by (auto simp: card_le_Suc0_iff_eq)
  then show ?thesis unfolding count_list_card by simp
qed

text \<open>Claim C29. The shortcut of a trip is computed in place, in the array the loop runs over. When every AS that is not a
  stitch point is on the stitched path at most twice (once in the up and once in the down segment), the result is a
  path between the same ends (same first ISD-AS and ingress, same last ISD-AS and egress) that takes only links of the
  stitched path and on which no such AS is repeated.\<close>

theorem shortcut_correct:
  assumes "t \<noteq> []" "PathSteps t = Inr steps" "stitch_points (SegSteps (hd t)) (tl t) = Inr sps"
    "\<forall>ia. ia \<notin> set sps \<longrightarrow> count_list (map StepIA steps) ia \<le> 2" "steps \<noteq> []"
  shows "\<exists>sc. ShortcutSteps t = Inr sc \<and> sc \<noteq> [] \<and>
    (\<forall>ia. ia \<notin> set sps \<longrightarrow> count_list (map StepIA sc) ia \<le> 1) \<and> links sc \<subseteq> links steps \<and>
    StepIA (hd sc) = StepIA (hd steps) \<and> StepIngress (hd sc) = StepIngress (hd steps) \<and>
    StepIA (last sc) = StepIA (last steps) \<and> StepEgress (last sc) = StepEgress (last steps)"
proof -
  obtain a k where r: "fold (shortcut_round sps) [0..<length steps] (steps, length steps) = (a, k)"
    by (cases "fold (shortcut_round sps) [0..<length steps] (steps, length steps)") auto
  have "shortcut_inv steps sps 0 (steps, length steps)" using assms(4) by (simp add: shortcut_inv_def)
  from shortcut_loop_inv [OF this, of "length steps"]
  have inv: "shortcut_inv steps sps (length steps) (a, k)" by (simp add: r)
  then have k: "keeps_path steps (take k a)" by (simp add: shortcut_inv_def)
  have "ShortcutSteps t = Inr (take k a)"
    using assms(1-3) r by (cases t) (simp_all add: ShortcutSteps_def)
  moreover have "\<forall>ia. ia \<notin> set sps \<longrightarrow> count_list (map StepIA (take k a)) ia \<le> 1"
    using shortcut_inv_end [OF inv] by blast
  ultimately show ?thesis
    using k assms(5) unfolding keeps_path_def by (intro exI [of _ "take k a"]) auto
qed

definition demo_step :: "u64 \<Rightarrow> u16 \<Rightarrow> u16 \<Rightarrow> path_step" where
  "demo_step ia i e = \<lparr>StepIngress = i, StepEgress = e, StepIA = ia\<rparr>"

text \<open>Up from 1 over 2 to 3, and down from 3 over 2 to 4: the shortcut is at 2.\<close>

definition demo_trip :: full_trip where
  "demo_trip = [(demo_seg 1 3)\<lparr>SegSteps := [demo_step 1 0 11, demo_step 2 12 13, demo_step 3 14 0]\<rparr>,
     (demo_seg 3 4)\<lparr>SegSteps := [demo_step 3 0 14, demo_step 2 13 15, demo_step 4 16 0]\<rparr>]"

lemma demo_trip_facts:
  "PathSteps demo_trip = Inr [demo_step 1 0 11, demo_step 2 12 13, demo_step 3 14 14, demo_step 2 13 15, demo_step 4 16 0]"
  "stitch_points (SegSteps (hd demo_trip)) (tl demo_trip) = Inr [3]"
  by (simp_all add: demo_trip_def PathSteps_def demo_step_def go_assert_def IA_Equal_def Steps_DstIA_def Steps_SrcIA_def)

lemma demo_trip_shortcut: "ShortcutSteps demo_trip = Inr [demo_step 1 0 11, demo_step 2 12 15, demo_step 4 16 0]"
  by code_simp

theorem shortcut_correct_witness:
  "\<exists>sc. ShortcutSteps demo_trip = Inr sc \<and> (\<forall>ia. ia \<notin> {3} \<longrightarrow> count_list (map StepIA sc) ia \<le> 1) \<and>
     sc = [demo_step 1 0 11, demo_step 2 12 15, demo_step 4 16 0]"
proof -
  have "demo_trip \<noteq> []" by (simp add: demo_trip_def)
  moreover have "\<forall>ia. ia \<notin> set [3] \<longrightarrow> count_list (map StepIA [demo_step 1 0 11, demo_step 2 12 13, demo_step 3 14 14,
      demo_step 2 13 15, demo_step 4 16 0]) ia \<le> 2"
    by (simp add: demo_step_def)
  ultimately show ?thesis
    using shortcut_correct [OF _ demo_trip_facts(1,2)] demo_trip_shortcut by auto
qed

end
