(* ===== verification/Colibri_Derive.thy ===== *)
theory Colibri_Derive
  imports Colibri_Indices
begin

text \<open>
  From the token of a segment reservation to packets on the wire: the hop fields that the COLIBRI services add to a
  token on its way back (go/co/reservationstore/store.go, \<open>admitSegmentReservation\<close>, \<open>addHopFieldToColibriPath\<close>,
  \<open>computeMAC\<close>), and the paths that \<open>DeriveColibriPathAtSource\<close> and \<open>DeriveColibriPathAtDestination\<close> make of it are
  accepted hop by hop by \<open>VerifyMAC\<close> of the router's COLIBRI library.
\<close>

section \<open>Adding hop fields\<close>

definition computeMAC ::
  "bytes \<Rightarrow> (bytes \<Rightarrow> bytes) \<Rightarrow> bytes \<Rightarrow> token \<Rightarrow> rsv_hop \<Rightarrow> u64 \<Rightarrow> u64 \<Rightarrow> bool \<Rightarrow> bytes res" where
  "computeMAC buff key suffix tok hf srcAS dstAS isE2E =
     rbind (MACInputStatic (replicate LengthInputDataRound16 0) suffix (ExpirationTick tok) (InfBWCls tok)
       (InfRLC tok) (\<not> isE2E) False (InfIdx tok) srcAS dstAS (HopIngress hf) (HopEgress hf)) (\<lambda>input.
     MACStaticFromInput buff key input)"

definition addHopFieldToColibriPath ::
  "(bytes \<Rightarrow> bytes) \<Rightarrow> bytes \<Rightarrow> token \<Rightarrow> u64 \<Rightarrow> u64 \<Rightarrow> u16 \<Rightarrow> u16 \<Rightarrow> token res" where
  "addHopFieldToColibriPath key suffix tok srcAS dstAS ingress egress =
     rbind (AddNewHopField tok \<lparr>HopIngress = ingress, HopEgress = egress, HopMac = replicate 4 0\<rparr>) (\<lambda>(tok, i). let
       hf = TokHopFields tok ! i;
       isE2E = (InfPathType tok = E2EPath)
     in rbind (computeMAC (HopMac hf) key suffix tok hf srcAS dstAS isE2E) (\<lambda>mac.
       Inr (tok\<lparr>TokHopFields := (TokHopFields tok)[i := hf\<lparr>HopMac := mac\<rparr>]\<rparr>)))"

text \<open>The token on its way back: the last AS starts from the token of its new index, every other AS takes the token of the
  AS after it, and each adds its hop field. An AS is its key, ingress and egress.\<close>

fun admitted_token ::
  "bytes \<Rightarrow> u64 \<Rightarrow> u64 \<Rightarrow> ((bytes \<Rightarrow> bytes) \<times> u16 \<times> u16) list \<Rightarrow> token \<Rightarrow> token res" where
  "admitted_token suffix srcAS dstAS [] tok = Inr tok"
| "admitted_token suffix srcAS dstAS ((key, ingress, egress) # ases) tok =
     rbind (admitted_token suffix srcAS dstAS ases tok) (\<lambda>tok.
     addHopFieldToColibriPath key suffix tok srcAS dstAS ingress egress)"

section \<open>The MACs of a token\<close>

definition tok_info :: "bytes \<Rightarrow> token \<Rightarrow> col_info" where
  "tok_info suffix tok = \<lparr>ColC = True, ColR = False, ColS = True, ColVer = InfIdx tok, ColCurrHF = 0,
     HFCount = of_nat (length (TokHopFields tok)), ResIdSuffix = suffix @ replicate 8 0,
     ExpTick = ExpirationTick tok, BwCls = InfBWCls tok, Rlc = InfRLC tok, OrigPayLen = 0\<rparr>"

definition tok_mac :: "bytes \<Rightarrow> u64 \<Rightarrow> u64 \<Rightarrow> token \<Rightarrow> (bytes \<Rightarrow> bytes) \<times> u16 \<times> u16 \<Rightarrow> bytes" where
  "tok_mac suffix srcAS dstAS tok = (\<lambda>(key, ig, eg).
     static_mac key (tok_info suffix tok) \<lparr>IngressId = ig, EgressId = eg, ColMac = []\<rparr> srcAS dstAS)"

definition tok_hop :: "bytes \<Rightarrow> u64 \<Rightarrow> u64 \<Rightarrow> token \<Rightarrow> (bytes \<Rightarrow> bytes) \<times> u16 \<times> u16 \<Rightarrow> rsv_hop" where
  "tok_hop suffix srcAS dstAS tok = (\<lambda>(key, ig, eg).
     \<lparr>HopIngress = ig, HopEgress = eg, HopMac = tok_mac suffix srcAS dstAS tok (key, ig, eg)\<rparr>)"

lemma short_suffix:
  assumes "length suffix = 4"
  shows "MACInputStatic (replicate LengthInputDataRound16 0) suffix e b r c R i src dst ig eg =
    MACInputStatic (replicate LengthInputDataRound16 0) (suffix @ replicate 8 0) e b r c R i src dst ig eg"
proof -
  have n: "LengthInputDataRound16 = 32" by (simp add: LengthInputDataRound16_def LengthInputData_def)
  have z: "put_at 0 (go_copy (slice 0 12 (replicate 32 0)) (replicate 12 0)) (replicate 32 0) = replicate 32 (0 :: u8)"
    by (simp add: put_at_def go_copy_def slice_def flip: replicate_add)
  have "put_at 0 (go_copy (slice 0 12 (replicate 32 0)) suffix) (replicate 32 0) =
      put_at 0 (go_copy (slice 0 12 (replicate 32 0)) (suffix @ replicate 8 0)) (replicate 32 (0 :: u8))"
    using assms by (simp add: put_at_def go_copy_def slice_def)
  then show ?thesis unfolding MACInputStatic_def Let_def n z by simp
qed

lemma length_static_mac:
  assumes "cipher_ok E" "length (ResIdSuffix i) = LenSuffix"
  shows "length (static_mac E i k a b) = 4"
  using length_cbc [OF assms(1), of "static_block i k a b"] length_static_block [OF assms(2)]
  by (simp add: static_mac_def BlockSize_def)

lemma seg_info_suffix: "length suffix = 4 \<Longrightarrow> length (ResIdSuffix (tok_info suffix tok)) = LenSuffix"
  by (simp add: tok_info_def LenSuffix_def)

lemma computeMAC_seg:
  assumes "cipher_ok key" "length suffix = 4"
  shows "computeMAC (replicate 4 0) key suffix tok hf srcAS dstAS False =
    Inr (tok_mac suffix srcAS dstAS tok (key, HopIngress hf, HopEgress hf))"
  using MACStatic_block [OF assms(1) seg_info_suffix [OF assms(2)],
      of tok "\<lparr>IngressId = HopIngress hf, EgressId = HopEgress hf, ColMac = []\<rparr>" srcAS dstAS]
  by (simp add: computeMAC_def MACStatic_def short_suffix [OF assms(2)] tok_mac_def tok_info_def)

lemma seg_mac_cong:
  "rsv_info.truncate tok = rsv_info.truncate tok' \<Longrightarrow> tok_mac suffix srcAS dstAS tok = tok_mac suffix srcAS dstAS tok'"
  by (cases tok; cases tok') (auto simp: tok_mac_def tok_info_def static_mac_def static_block_def rsv_info.defs)

lemma addHop_seg:
  assumes "cipher_ok key" "length suffix = 4" "InfPathType tok \<in> {UpPath, CorePath, DownPath}"
  shows "addHopFieldToColibriPath key suffix tok srcAS dstAS ig eg = Inr (tok\<lparr>TokHopFields :=
    (if InfPathType tok = DownPath then TokHopFields tok @ [tok_hop suffix srcAS dstAS tok (key, ig, eg)]
     else tok_hop suffix srcAS dstAS tok (key, ig, eg) # TokHopFields tok)\<rparr>)"
proof -
  have d: "DownPath \<noteq> UpPath" "DownPath \<noteq> CorePath" "UpPath \<noteq> E2EPath" "CorePath \<noteq> E2EPath" "DownPath \<noteq> E2EPath"
    by (simp_all add: path_type_defs)
  have m: "tok_mac suffix srcAS dstAS (tok\<lparr>TokHopFields := hs\<rparr>) = tok_mac suffix srcAS dstAS tok" for hs
    by (rule seg_mac_cong) (simp add: rsv_info.defs)
  have f: "InfPathType tok \<noteq> E2EPath" using assms(3) d by auto
  show ?thesis
    using assms(3) d f computeMAC_seg [OF assms(1,2)]
    by (auto simp: addHopFieldToColibriPath_def AddNewHopField_def Let_def tok_hop_def m list_update_append)
qed

lemma admitted_token_seg:
  assumes "\<forall>a \<in> set ases. cipher_ok (fst a)" "length suffix = 4" "InfPathType tok \<in> {UpPath, CorePath, DownPath}"
    "TokHopFields tok = []"
  shows "admitted_token suffix srcAS dstAS ases tok = Inr (tok\<lparr>TokHopFields :=
    map (tok_hop suffix srcAS dstAS tok) (if InfPathType tok = DownPath then rev ases else ases)\<rparr>)"
  using assms(1)
proof (induction ases)
  case Nil
  then show ?case using assms(4) by (cases tok) simp
next
  case (Cons a ases)
  obtain key ig eg where a: "a = (key, ig, eg)" by (cases a)
  have h: "tok_hop suffix srcAS dstAS (tok\<lparr>TokHopFields := hs\<rparr>) = tok_hop suffix srcAS dstAS tok" for hs
    using seg_mac_cong [of "tok\<lparr>TokHopFields := hs\<rparr>" tok] by (simp add: tok_hop_def rsv_info.defs)
  show ?case
    using Cons assms(2,3) addHop_seg [of key suffix "tok\<lparr>TokHopFields :=
      map (tok_hop suffix srcAS dstAS tok) (if InfPathType tok = DownPath then rev ases else ases)\<rparr>"]
    by (simp add: a h)
qed

section \<open>Derived paths\<close>

lemma swap_ends_loop:
  assumes "k \<le> length xs div 2"
  shows "length (fold (swap_ends (length xs)) [0..<k] xs) = length xs \<and>
    (\<forall>j < length xs. fold (swap_ends (length xs)) [0..<k] xs ! j =
      (if j < k \<or> length xs - k \<le> j then xs ! (length xs - Suc j) else xs ! j))"
  using assms
proof (induction k)
  case (Suc k)
  let ?n = "length xs"
  define g where "g = fold (swap_ends ?n) [0..<k] xs"
  have l: "length g = ?n" using Suc by (simp add: g_def)
  have nth: "g ! j = (if j < k \<or> ?n - k \<le> j then xs ! (?n - Suc j) else xs ! j)" if "j < ?n" for j
    using Suc that by (auto simp: g_def)
  have k: "k < ?n - Suc k" "?n - Suc k < ?n" using Suc.prems by auto
  have e: "fold (swap_ends ?n) [0..<Suc k] xs = g[k := g ! (?n - Suc k), ?n - Suc k := g ! k]"
    by (simp add: swap_ends_def g_def)
  have "g[k := g ! (?n - Suc k), ?n - Suc k := g ! k] ! j =
      (if j < Suc k \<or> ?n - Suc k \<le> j then xs ! (?n - Suc j) else xs ! j)" if j: "j < ?n" for j
  proof -
    consider "j = k" | "j = ?n - Suc k" | "j \<noteq> k" "j \<noteq> ?n - Suc k" by blast
    then show ?thesis
    proof cases
      case 1
      then show ?thesis using k l nth [OF k(2)] by simp
    next
      case 2
      moreover have "\<not> ?n - k \<le> k" using k by linarith
      then have "g ! k = xs ! k" using nth [of k] k by simp
      ultimately show ?thesis using k l by simp
    next
      case 3
      then show ?thesis using nth [OF j] l by auto
    qed
  qed
  then show ?case using l unfolding e by simp
qed simp

lemma swap_ends_rev: "fold (swap_ends (length xs)) [0..<length xs div 2] xs = rev xs"
proof (rule nth_equalityI)
  note loop = swap_ends_loop [OF order_refl, of xs]
  show "length (fold (swap_ends (length xs)) [0..<length xs div 2] xs) = length (rev xs)" using loop by simp
  fix j assume "j < length (fold (swap_ends (length xs)) [0..<length xs div 2] xs)"
  then have j: "j < length xs" using loop by simp
  show "fold (swap_ends (length xs)) [0..<length xs div 2] xs ! j = rev xs ! j"
  proof (cases "j < length xs div 2 \<or> length xs - length xs div 2 \<le> j")
    case True
    then show ?thesis using loop j by (auto simp: rev_nth)
  next
    case False
    then have "length xs - Suc j = j" using j by presburger
    then show ?thesis using False loop j by (auto simp: rev_nth)
  qed
qed

lemma deriveInfoField_seg:
  assumes "ActiveIndex r = Inr (Some ix)" "IdxToken ix = Some tok" "Idx ix = InfIdx tok" "AllocBW ix = InfBWCls tok"
  shows "deriveInfoField r rv = Inr (Some ((tok_info (Suffix (RsvID r)) tok)\<lparr>ColCurrHF :=
    (if rv then of_nat (length (TokHopFields tok)) - 1 else 0)\<rparr>))"
  using assms by (simp add: deriveInfoField_def tok_info_def Let_def LenSuffix_def IDSuffixSegLen_def)

lemma SVC_endpoint: "\<exists>e. NewEndpointWithAddr ia (SVCAddr a) = Inr e"
  by (simp add: NewEndpointWithAddr_def)

text \<open>The path as it is before it is made minimal: the hop fields of the token, swapped and with the R flag when it is
  derived at the destination.\<close>

definition derived_hops :: "bool \<Rightarrow> token \<Rightarrow> col_hop list" where
  "derived_hops rv tok = map (\<lambda>h. if rv then SwapInEg (col_hop_of h) else col_hop_of h) (TokHopFields tok)"

lemma deriveColibriPath_rep:
  assumes "ActiveIndex r = Inr (Some ix)" "IdxToken ix = Some tok" "Idx ix = InfIdx tok" "AllocBW ix = InfBWCls tok"
    and wf: "length (Suffix (RsvID r)) = 4" "RsvSteps r \<noteq> []" "InfIdx tok < 16"
    and hops: "2 \<le> length (TokHopFields tok)" "length (TokHopFields tok) \<le> 255" "list_all rsv_hop_wf (TokHopFields tok)"
  shows "\<exists>m p. deriveColibriPath r rv = Inr (Some m) \<and> min_rep m p \<and>
    ColInfoField p = Some ((tok_info (Suffix (RsvID r)) tok)\<lparr>ColR := rv\<rparr>) \<and> ColHopFields p = derived_hops rv tok"
proof -
  let ?hs = "map col_hop_of (TokHopFields tok)" and ?n = "of_nat (length (TokHopFields tok)) :: u8"
  let ?i = "tok_info (Suffix (RsvID r)) tok"
  define steps where "steps = (if rv then Steps_Reverse (RsvSteps r) else RsvSteps r)"
  have n: "unat ?n = length (TokHopFields tok)"
    using hops(2) by (simp add: unat_of_nat take_bit_nat_eq_self)
  have i: "col_info_wf (?i\<lparr>ColR := R, ColCurrHF := c\<rparr>)" for R c
    using wf by (simp add: col_info_wf_def tok_info_def LenSuffix_def)
  have steps: "steps \<noteq> []" using wf(2) by (auto simp: steps_def Steps_Reverse_def)
  obtain src where src: "NewEndpointWithAddr (StepIA (hd steps)) (SVCAddr (SVC_Base SvcCOL)) = Inr src"
    using SVC_endpoint by blast
  obtain dst where dst: "NewEndpointWithAddr (StepIA (last steps)) (SVCAddr (SVC_Base SvcCOL)) = Inr dst"
    using SVC_endpoint by blast
  define p where "p = colibri_path_zero\<lparr>ColInfoField := Some (?i\<lparr>ColR := rv\<rparr>),
    ColHopFields := derived_hops rv tok, ColSrc := Some src, ColDst := Some dst\<rparr>"
  have rev: "(if rv then nil_on_error (ColibriPath_Reverse (colibri_path_zero\<lparr>ColInfoField := Some (?i\<lparr>ColCurrHF := ?n - 1\<rparr>),
        ColHopFields := rev ?hs\<rparr>)) else Inr (Some (colibri_path_zero\<lparr>ColInfoField := Some (?i\<lparr>ColCurrHF := 0\<rparr>), ColHopFields := ?hs\<rparr>))) =
      Inr (Some (p\<lparr>ColSrc := None, ColDst := None\<rparr>))"
  proof (cases rv)
    case True
    have "?n \<noteq> 0" using n hops(1) by (metis not_numeral_le_zero unat_0)
    then have "?n - 1 < ?n" using measure_unat [of ?n] by (metis word_less_nat_alt)
    then have "ColibriPath_Reverse (colibri_path_zero\<lparr>ColInfoField := Some (?i\<lparr>ColCurrHF := ?n - 1\<rparr>), ColHopFields := rev ?hs\<rparr>) =
        Inr (rev_colibri (colibri_path_zero\<lparr>ColInfoField := Some (?i\<lparr>ColCurrHF := ?n - 1\<rparr>), ColHopFields := rev ?hs\<rparr>))"
      by (intro ColibriPath_Reverse_eq) (auto simp: tok_info_def)
    then show ?thesis
      using True by (simp add: nil_on_error_def p_def rev_colibri_def rev_info_def derived_hops_def rev_map o_def
        tok_info_def colibri_path_zero_def)
  next
    case False
    then show ?thesis by (simp add: p_def derived_hops_def tok_info_def colibri_path_zero_def)
  qed
  have hfc: "fold (swap_ends (length ?hs)) [0..<length ?hs div 2] ?hs = rev ?hs" by (rule swap_ends_rev)
  have pp: "(p\<lparr>ColSrc := None, ColDst := None\<rparr>)\<lparr>ColSrc := Some src, ColDst := Some dst\<rparr> = p" by (simp add: p_def)
  have sd: "Steps_SrcIA steps = Inr (StepIA (hd steps))" "Steps_DstIA steps = Inr (StepIA (last steps))"
    using steps by (simp_all add: Steps_SrcIA_def Steps_DstIA_def)
  have "deriveColibriPath r rv = nil_on_error (ColibriPath_ToMinimal p)"
    unfolding deriveColibriPath_def assms(1) rbind_Inr option.case deriveInfoField_seg [OF assms(1-4)] assms(2) Let_def
      hfc steps_def [symmetric]
    using rev src dst pp sd by (cases rv) simp_all
  moreover have "colibri_wf p"
    using hops n i [where R = rv and c = 0] by (auto simp: p_def colibri_wf_def derived_hops_def colibri_path_zero_def list_all_iff
      col_hop_wf_def col_hop_of_def rsv_hop_wf_def SwapInEg_def tok_info_def)
  moreover have "ColInfoField p = Some (?i\<lparr>ColR := rv\<rparr>)" "ColCurrHF (?i\<lparr>ColR := rv\<rparr>) < HFCount (?i\<lparr>ColR := rv\<rparr>)"
    using n hops(1) by (auto simp: p_def tok_info_def word_less_nat_alt)
  ultimately show ?thesis
    using ToMinimal_rep [of p] by (force simp: nil_on_error_def p_def)
qed

lemma VerifyMAC_ok:
  assumes "cipher_ok E" "length (ResIdSuffix info) = LenSuffix"
    "ColMac hop = static_mac E info hop (IA_AS (SrcIA s)) (IA_AS (DstIA s))"
  shows "VerifyMAC E ts info hop s = Inr ()"
  using MACStatic_block [OF assms(1,2)] length_static_mac [OF assms(1,2)] assms(3)
  by (simp add: VerifyMAC_def Let_def slice_def)

lemma seg_hop_verifies:
  assumes "cipher_ok key" "length suffix = 4" "rsv_info.truncate tok = rsv_info.truncate tok0"
  shows "IA_AS (SrcIA s) = srcAS \<Longrightarrow> VerifyMAC key ts ((tok_info suffix tok)\<lparr>ColR := False\<rparr>)
      (col_hop_of (tok_hop suffix srcAS dstAS tok0 (key, ig, eg))) s = Inr ()"
    and "IA_AS (DstIA s) = srcAS \<Longrightarrow> VerifyMAC key ts ((tok_info suffix tok)\<lparr>ColR := True\<rparr>)
      (SwapInEg (col_hop_of (tok_hop suffix srcAS dstAS tok0 (key, ig, eg)))) s = Inr ()"
proof -
  have m: "ExpirationTick tok = ExpirationTick tok0" "InfIdx tok = InfIdx tok0" "InfBWCls tok = InfBWCls tok0"
    "InfRLC tok = InfRLC tok0"
    using assms(3) by (cases tok; cases tok0; simp add: rsv_info.defs)+
  have l: "length (ResIdSuffix ((tok_info suffix tok)\<lparr>ColR := b\<rparr>)) = LenSuffix" for b
    using seg_info_suffix [OF assms(2)] by simp
  show "IA_AS (SrcIA s) = srcAS \<Longrightarrow> VerifyMAC key ts ((tok_info suffix tok)\<lparr>ColR := False\<rparr>)
      (col_hop_of (tok_hop suffix srcAS dstAS tok0 (key, ig, eg))) s = Inr ()"
    using assms(1) l
    by (intro VerifyMAC_ok) (auto simp: col_hop_of_def tok_hop_def m tok_mac_def static_mac_def static_block_def tok_info_def)
  show "IA_AS (DstIA s) = srcAS \<Longrightarrow> VerifyMAC key ts ((tok_info suffix tok)\<lparr>ColR := True\<rparr>)
      (SwapInEg (col_hop_of (tok_hop suffix srcAS dstAS tok0 (key, ig, eg)))) s = Inr ()"
    using assms(1) l
    by (intro VerifyMAC_ok) (auto simp: col_hop_of_def tok_hop_def m tok_mac_def static_mac_def static_block_def tok_info_def
      SwapInEg_def)
qed

text \<open>A derived path in either direction: \<open>rv\<close> is the reverse flag.\<close>

lemma derived_path_verifies:
  assumes "\<forall>a \<in> set ases. cipher_ok (fst a)" "2 \<le> length ases" "length ases \<le> 255"
    "InfPathType tok0 \<in> {UpPath, CorePath, DownPath}" "TokHopFields tok0 = []" "InfIdx tok0 < 16"
    "admitted_token (Suffix (RsvID r)) srcAS dstAS ases tok0 = Inr tok"
    "length (Suffix (RsvID r)) = 4" "RsvSteps r \<noteq> []"
    "ActiveIndex r = Inr (Some ix)" "IdxToken ix = Some tok" "Idx ix = InfIdx tok" "AllocBW ix = InfBWCls tok"
    "order = (if InfPathType tok0 = DownPath then rev ases else ases)"
  shows "\<exists>m p info. deriveColibriPath r rv = Inr (Some m) \<and> min_rep m p \<and> ColInfoField p = Some info \<and>
      ColCurrHF info = 0 \<and> ColR info = rv \<and> length (ColHopFields p) = length ases \<and>
      (\<forall>i key ig eg ts. i < length ases \<and> order ! i = (key, ig, eg) \<longrightarrow>
        IngressId (ColHopFields p ! i) = (if rv then eg else ig) \<and> EgressId (ColHopFields p ! i) = (if rv then ig else eg) \<and>
        (\<forall>s :: header. IA_AS (if rv then DstIA s else SrcIA s) = srcAS \<longrightarrow> VerifyMAC key ts info (ColHopFields p ! i) s = Inr ()))"
proof -
  let ?suf = "Suffix (RsvID r)"
  let ?hop = "tok_hop ?suf srcAS dstAS tok0" and ?info = "(tok_info (Suffix (RsvID r)) tok)\<lparr>ColR := rv\<rparr>"
  have tok: "tok = tok0\<lparr>TokHopFields := map ?hop order\<rparr>"
    using admitted_token_seg [OF assms(1,8,4,5), of srcAS dstAS] assms(7,14) by simp
  have t: "rsv_info.truncate tok = rsv_info.truncate tok0" "length order = length ases" "InfIdx tok < 16"
    using assms(6,14) by (simp_all add: tok rsv_info.defs)
  have ok: "cipher_ok (fst a)" if "a \<in> set order" for a using assms(1,14) that by (auto split: if_splits)
  then have "length (tok_mac ?suf srcAS dstAS tok0 a) = 4" if "a \<in> set order" for a
    using that length_static_mac seg_info_suffix [OF assms(8)] by (cases a) (auto simp: tok_mac_def)
  then have wf: "list_all rsv_hop_wf (TokHopFields tok)"
    by (auto simp: tok list_all_iff rsv_hop_wf_def tok_hop_def)
  have "\<exists>m p. deriveColibriPath r rv = Inr (Some m) \<and> min_rep m p \<and> ColInfoField p = Some ?info \<and> ColHopFields p = derived_hops rv tok"
    using assms(2,3) t by (intro deriveColibriPath_rep [OF assms(10-13,8,9) t(3) _ _ wf]) (simp_all add: tok)
  then obtain m p where p: "deriveColibriPath r rv = Inr (Some m)" "min_rep m p" "ColInfoField p = Some ?info" "ColHopFields p = derived_hops rv tok"
    by blast
  have hop: "IngressId (derived_hops rv tok ! i) = (if rv then eg else ig) \<and> EgressId (derived_hops rv tok ! i) = (if rv then ig else eg) \<and>
      (\<forall>s :: header. IA_AS (if rv then DstIA s else SrcIA s) = srcAS \<longrightarrow> VerifyMAC k ts ?info (derived_hops rv tok ! i) s = Inr ())"
    if i: "i < length ases \<and> order ! i = (k, ig, eg)" for i k ig eg ts
  proof -
    have k: "cipher_ok k" using ok [of "order ! i"] i t(2) by (metis fst_conv nth_mem)
    have h: "derived_hops rv tok ! i = (if rv then SwapInEg (col_hop_of (?hop (k, ig, eg))) else col_hop_of (?hop (k, ig, eg)))"
      using i t(2) by (simp add: derived_hops_def tok)
    have v: "VerifyMAC k ts ?info (derived_hops rv tok ! i) s = Inr ()" if "IA_AS (if rv then DstIA s else SrcIA s) = srcAS" for s :: header
      unfolding h using that by (cases rv) (auto intro!: seg_hop_verifies [OF k assms(8) t(1)])
    show ?thesis using v by (simp only: h) (simp add: SwapInEg_def col_hop_of_def tok_hop_def)
  qed
  show ?thesis
  proof (intro exI conjI)
    show "deriveColibriPath r rv = Inr (Some m)" "min_rep m p" "ColInfoField p = Some ?info" by (fact p)+
    show "ColCurrHF ?info = 0" "ColR ?info = rv" by (simp_all add: tok_info_def)
    show "length (ColHopFields p) = length ases" using t(2) by (simp add: p(4) derived_hops_def tok)
    show "\<forall>i key ig eg ts. i < length ases \<and> order ! i = (key, ig, eg) \<longrightarrow>
        IngressId (ColHopFields p ! i) = (if rv then eg else ig) \<and> EgressId (ColHopFields p ! i) = (if rv then ig else eg) \<and>
        (\<forall>s :: header. IA_AS (if rv then DstIA s else SrcIA s) = srcAS \<longrightarrow> VerifyMAC key ts ?info (ColHopFields p ! i) s = Inr ())"
      unfolding p(4) using hop by blast
  qed
qed

text \<open>The way of a packet that the initiator of a reservation sends on it: the source of an up or core segment sends along the
  segment; for a down segment, whose initiator is its destination, against it. An AS is its key and the interfaces by which such a packet enters and leaves.\<close>

definition initiator_way :: "token \<Rightarrow> ((bytes \<Rightarrow> bytes) \<times> u16 \<times> u16) list \<Rightarrow> ((bytes \<Rightarrow> bytes) \<times> u16 \<times> u16) list" where
  "initiator_way tok ases = (if InfPathType tok = DownPath then map (\<lambda>(key, ig, eg). (key, eg, ig)) (rev ases) else ases)"

text \<open>Claim C25. Take the token that the ASes of a segment have built, each adding its hop field under its own key, and a
  reservation with that token in its active index. The path that the initiator derives (at the source for up and core segments, at the destination
  for down segments) has one hop field per AS in the order of its way, starting with its own, with the interfaces
  by which the packet enters and leaves, and with a MAC that the router of that AS verifies. The path derived at the other end consists of the same
  hop fields in the same order with the interfaces swapped, which verify too for packets in that direction; so it starts with the hop field of the AS at the far end and
  ends with that of the AS that derives it.\<close>

theorem derived_paths_authentic:
  assumes "\<forall>a \<in> set ases. cipher_ok (fst a)" "2 \<le> length ases" "length ases \<le> 255"
    "InfPathType tok0 \<in> {UpPath, CorePath, DownPath}" "TokHopFields tok0 = []" "InfIdx tok0 < 16"
    "admitted_token (Suffix (RsvID r)) srcAS dstAS ases tok0 = Inr tok"
    "length (Suffix (RsvID r)) = 4" "RsvSteps r \<noteq> []"
    "ActiveIndex r = Inr (Some ix)" "IdxToken ix = Some tok" "Idx ix = InfIdx tok" "AllocBW ix = InfBWCls tok"
  shows "let down = (InfPathType tok0 = DownPath); way = initiator_way tok0 ases in
    (\<exists>m p info. (if down then DeriveColibriPathAtDestination r else DeriveColibriPathAtSource r) = Inr (Some m) \<and>
      min_rep m p \<and> ColInfoField p = Some info \<and> ColCurrHF info = 0 \<and> ColR info = down \<and>
      map (\<lambda>h. (IngressId h, EgressId h)) (ColHopFields p) = map snd way \<and>
      (\<forall>i ts. i < length way \<longrightarrow> (\<forall>s :: header. IA_AS (if down then DstIA s else SrcIA s) = srcAS \<longrightarrow>
        VerifyMAC (fst (way ! i)) ts info (ColHopFields p ! i) s = Inr ()))) \<and>
    (\<exists>m p info. (if down then DeriveColibriPathAtSource r else DeriveColibriPathAtDestination r) = Inr (Some m) \<and>
      min_rep m p \<and> ColInfoField p = Some info \<and> ColCurrHF info = 0 \<and> ColR info = (\<not> down) \<and>
      map (\<lambda>h. (EgressId h, IngressId h)) (ColHopFields p) = map snd way \<and>
      (\<forall>i ts. i < length way \<longrightarrow> (\<forall>s :: header. IA_AS (if down then SrcIA s else DstIA s) = srcAS \<longrightarrow>
        VerifyMAC (fst (way ! i)) ts info (ColHopFields p ! i) s = Inr ())))"
proof -
  let ?down = "InfPathType tok0 = DownPath" and ?way = "initiator_way tok0 ases"
  define order where "order = (if ?down then rev ases else ases)"
  have way: "?way ! i = (let (key, ig, eg) = order ! i in if ?down then (key, eg, ig) else (key, ig, eg))" "length ?way = length ases" if "i < length ases" for i
    using that by (auto simp: initiator_way_def order_def split: prod.splits)
  have len: "length ?way = length ases" by (simp add: initiator_way_def)
  have path: "\<exists>m p info. deriveColibriPath r rv = Inr (Some m) \<and> min_rep m p \<and> ColInfoField p = Some info \<and> ColCurrHF info = 0 \<and> ColR info = rv \<and>
      map (\<lambda>h. if rv = ?down then (IngressId h, EgressId h) else (EgressId h, IngressId h)) (ColHopFields p) = map snd ?way \<and>
      (\<forall>i ts. i < length ?way \<longrightarrow> (\<forall>s :: header. IA_AS (if rv then DstIA s else SrcIA s) = srcAS \<longrightarrow>
        VerifyMAC (fst (?way ! i)) ts info (ColHopFields p ! i) s = Inr ()))" for rv
  proof -
    from derived_path_verifies [OF assms order_def, of rv] obtain m p info where
      p: "deriveColibriPath r rv = Inr (Some m)" "min_rep m p" "ColInfoField p = Some info" "ColCurrHF info = 0" "ColR info = rv"
        "length (ColHopFields p) = length ases"
      and hop: "\<And>i key ig eg ts. i < length ases \<Longrightarrow> order ! i = (key, ig, eg) \<Longrightarrow>
        IngressId (ColHopFields p ! i) = (if rv then eg else ig) \<and> EgressId (ColHopFields p ! i) = (if rv then ig else eg) \<and>
        (\<forall>s :: header. IA_AS (if rv then DstIA s else SrcIA s) = srcAS \<longrightarrow> VerifyMAC key ts info (ColHopFields p ! i) s = Inr ())"
      by blast
    have "map (\<lambda>h. if rv = ?down then (IngressId h, EgressId h) else (EgressId h, IngressId h)) (ColHopFields p) = map snd ?way"
    proof (rule nth_equalityI)
      fix i assume "i < length (map (\<lambda>h. if rv = ?down then (IngressId h, EgressId h) else (EgressId h, IngressId h)) (ColHopFields p))"
      then have i: "i < length ases" using p(6) by simp
      obtain key ig eg where o: "order ! i = (key, ig, eg)" by (cases "order ! i")
      show "map (\<lambda>h. if rv = ?down then (IngressId h, EgressId h) else (EgressId h, IngressId h)) (ColHopFields p) ! i = map snd ?way ! i"
        using i p(6) len way(1) [OF i] hop [OF i o] o by auto
    qed (simp add: p(6) len)
    moreover have "VerifyMAC (fst (?way ! i)) ts info (ColHopFields p ! i) s = Inr ()"
      if "i < length ?way" "IA_AS (if rv then DstIA s else SrcIA s) = srcAS" for i ts and s :: header
    proof -
      have i: "i < length ases" using that(1) len by simp
      obtain key ig eg where o: "order ! i = (key, ig, eg)" by (cases "order ! i")
      have "fst (?way ! i) = key" using way(1) [OF i] o by simp
      then show ?thesis using hop [OF i o] that(2) by blast
    qed
    ultimately show ?thesis using p by blast
  qed
  show ?thesis
    using path [of ?down] path [of "\<not> ?down"]
    by (cases ?down) (simp_all add: Let_def DeriveColibriPathAtSource_def DeriveColibriPathAtDestination_def)
qed

definition demo_ases :: "((bytes \<Rightarrow> bytes) \<times> u16 \<times> u16) list" where
  "demo_ases = [(demo_aes (replicate 16 1), 0, 7), (demo_aes (replicate 16 2), 8, 0)]"

definition demo_tok0 :: token where
  "demo_tok0 = \<lparr>ExpirationTick = 2, InfIdx = 15, InfBWCls = 7, InfPathType = UpPath, InfRLC = 3, TokHopFields = []\<rparr>"

definition demo_active :: seg_rsv where
  "demo_active = (NewReservation 5)\<lparr>Indices := [seg_NewIndex 15 8000000000 IndexActive 1 9 7 (Some
      (demo_tok0\<lparr>TokHopFields := map (tok_hop (replicate 4 0) 5 6 demo_tok0) demo_ases\<rparr>))], activeIndex := 0,
    RsvSteps := [\<lparr>StepIngress = 0, StepEgress = 7, StepIA = 5\<rparr>, \<lparr>StepIngress = 8, StepEgress = 0, StepIA = 6\<rparr>]\<rparr>"

theorem derived_paths_authentic_witness:
  "\<exists>m p. DeriveColibriPathAtSource demo_active = Inr (Some m) \<and> min_rep m p \<and>
     map (\<lambda>h. (IngressId h, EgressId h)) (ColHopFields p) = [(0, 7), (8, 0)]"
proof -
  let ?tok = "demo_tok0\<lparr>TokHopFields := map (tok_hop (replicate 4 0) 5 6 demo_tok0) demo_ases\<rparr>"
  have k: "\<forall>a \<in> set demo_ases. cipher_ok (fst a)" by (simp add: demo_ases_def demo_aes_ok)
  have pt: "InfPathType demo_tok0 \<in> {UpPath, CorePath, DownPath}" "InfPathType demo_tok0 \<noteq> DownPath"
    by (simp_all add: demo_tok0_def path_type_defs)
  have suf: "Suffix (RsvID demo_active) = replicate 4 0" by (simp add: demo_active_def NewReservation_def IDSuffixSegLen_def)
  have a: "admitted_token (Suffix (RsvID demo_active)) 5 6 demo_ases demo_tok0 = Inr ?tok"
    using admitted_token_seg [OF k _ pt(1), of "replicate 4 0" 5 6] pt(2) suf by (simp add: demo_tok0_def)
  have act: "ActiveIndex demo_active = Inr (Some (hd (Indices demo_active)))"
    by (simp add: demo_active_def ActiveIndex_def go_nth_def)
  have n: "2 \<le> length demo_ases" "length demo_ases \<le> 255" "TokHopFields demo_tok0 = []" "InfIdx demo_tok0 < 16"
    "length (Suffix (RsvID demo_active)) = 4" "RsvSteps demo_active \<noteq> []"
    "IdxToken (hd (Indices demo_active)) = Some ?tok" "Idx (hd (Indices demo_active)) = InfIdx ?tok"
    "AllocBW (hd (Indices demo_active)) = InfBWCls ?tok"
    by (simp_all add: demo_ases_def demo_tok0_def suf) (simp_all add: demo_active_def seg_NewIndex_def demo_tok0_def demo_ases_def)
  have w: "map snd (initiator_way demo_tok0 demo_ases) = [(0, 7), (8, 0)]" using pt(2) by (simp add: initiator_way_def demo_ases_def)
  from derived_paths_authentic [OF k n(1,2) pt(1) n(3,4) a n(5,6) act n(7-9)] pt(2) w show ?thesis
    by (simp only: Let_def if_False) (elim conjE exE, intro exI conjI, assumption+)
qed

end
