(* ===== verification/Segments.thy ===== *)
theory Segments
  imports Addr Path_Fields Cbc
begin

unbundle bit_operations_syntax

text \<open>
  Path segments of the control plane (go/lib/ctrl/seg): the segment with its AS entries, hop entries
  and peer entries, their protobuf form, validation, expiry and signatures, and the EPIC and
  digest extensions (go/lib/ctrl/seg/extensions). The encoding of protobuf messages and the
  signature scheme are outside: \<open>proto\<close> holds the (un)marshalling functions the code calls, and a
  signer is a function. A nil pointer is \<open>None\<close>. The static info extension (latencies, locations and
  notes of a link) is left out: nothing here but its own conversion reads it.
\<close>

section \<open>Data\<close>

record seg_hop =
  SExpTime :: u8
  SConsIngress :: u16
  SConsEgress :: u16
  SMAC :: bytes

record hop_entry =
  EntryHop :: seg_hop
  IngressMTU :: int

record peer_entry =
  PeerHop :: seg_hop
  PeerIA :: u64
  PeerInterface :: u16
  PeerMTU :: int

record detached =
  AuthHopEntry :: bytes
  AuthPeerEntries :: "bytes list"

record seg_extensions =
  IsHidden :: bool
  Digests :: "bytes option"

record signed_message =
  HeaderAndBody :: bytes
  Signature :: bytes

record as_entry =
  Signed :: "signed_message option"
  ASLocal :: u64
  ASNext :: u64
  HopEntry :: hop_entry
  PeerEntries :: "peer_entry list"
  ASMTU :: int
  Extensions :: seg_extensions
  EpicDetached :: "detached option"

record seg_info =
  InfoRaw :: bytes
  InfoTimestamp :: int
  SegmentID :: u16

record path_segment =
  SInfo :: seg_info
  ASEntries :: "as_entry list"

text \<open>The Go type \<open>[MacLen]byte\<close> fixes the length of a MAC.\<close>

definition seg_hop_wf :: "seg_hop \<Rightarrow> bool" where
  "seg_hop_wf h \<longleftrightarrow> length (SMAC h) = MacLen"

definition as_entry_wf :: "as_entry \<Rightarrow> bool" where
  "as_entry_wf e \<longleftrightarrow> seg_hop_wf (EntryHop (HopEntry e)) \<and> list_all (\<lambda>p. seg_hop_wf (PeerHop p)) (PeerEntries e)"

section \<open>Protobuf messages\<close>

record pb_hop_field =
  PbIngress :: u64
  PbEgress :: u64
  PbExpTime :: u32
  PbMac :: bytes

record pb_hop_entry =
  PbHopField :: "pb_hop_field option"
  PbIngressMtu :: u32

record pb_peer_entry =
  PbPeerIsdAs :: u64
  PbPeerInterface :: u64
  PbPeerMtu :: u32
  PbPeerHopField :: "pb_hop_field option"

text \<open>A digest extension holds a pointer to a digest; the inner option is that pointer.\<close>

record pb_extensions =
  PbHiddenPath :: "bool option"
  PbDigests :: "bytes option option"

record pb_body =
  PbIsdAs :: u64
  PbNextIsdAs :: u64
  PbHopEntry :: "pb_hop_entry option"
  PbPeerEntries :: "pb_peer_entry option list"
  PbMtu :: u32
  PbExtensions :: "pb_extensions option"

record pb_as_entry =
  PbSigned :: "signed_message option"
  PbUnsigned :: "detached option option"

record pb_segment =
  PbSegmentInfo :: bytes
  PbAsEntries :: "pb_as_entry option list"

text \<open>The library functions on these messages: \<open>proto.Marshal\<close> and \<open>proto.Unmarshal\<close> at the types used, a
  segment information being a timestamp and an identifier, and \<open>ptypes.Timestamp\<close>.\<close>

record proto =
  MarshalBody :: "pb_body \<Rightarrow> bytes res"
  UnmarshalBody :: "bytes \<Rightarrow> pb_body res"
  MarshalInfo :: "int \<times> u32 \<Rightarrow> bytes res"
  UnmarshalInfo :: "bytes \<Rightarrow> (int \<times> u32) res"
  UnmarshalHeaderAndBody :: "bytes \<Rightarrow> (bytes \<times> bytes) res"
  UnmarshalHeader :: "bytes \<Rightarrow> (int \<times> int) option res"
  PtypesTimestamp :: "int \<times> int \<Rightarrow> int res"

text \<open>What the code relies on: a message that was marshalled unmarshals to itself.\<close>

definition proto_ok :: "proto \<Rightarrow> bool" where
  "proto_ok c \<longleftrightarrow> (\<forall>m b. MarshalBody c m = Inr b \<longrightarrow> UnmarshalBody c b = Inr m) \<and>
     (\<forall>m b. MarshalInfo c m = Inr b \<longrightarrow> UnmarshalInfo c b = Inr m)"

section \<open>Signed messages (lib/scrypto/signed/msg.go)\<close>

definition extractHeaderAndBody :: "proto \<Rightarrow> signed_message option \<Rightarrow> (int option \<times> bytes) res" where
  "extractHeaderAndBody c msg = (case msg of
       None \<Rightarrow> Inl (Err ''nil message'')
     | Some m \<Rightarrow>
         rbind (UnmarshalHeaderAndBody c (HeaderAndBody m)) (\<lambda>(rawHdr, body).
         rbind (UnmarshalHeader c rawHdr) (\<lambda>hdrTimestamp.
         rbind (case hdrTimestamp of None \<Rightarrow> Inr None | Some t \<Rightarrow> rbind (PtypesTimestamp c t) (\<lambda>ts. Inr (Some ts))) (\<lambda>ts.
         Inr (ts, body)))))"

definition ExtractUnverifiedBody :: "proto \<Rightarrow> signed_message option \<Rightarrow> bytes res" where
  "ExtractUnverifiedBody c msg = rbind (extractHeaderAndBody c msg) (\<lambda>(_, body). Inr body)"

section \<open>Digests and detached EPIC authenticators (lib/ctrl/seg/extensions)\<close>

definition DigestLength :: nat where "DigestLength = 16"

text \<open>\<open>copy\<close> into a fresh array of a given length.\<close>

definition copy_into :: "nat \<Rightarrow> bytes \<Rightarrow> bytes" where
  "copy_into n b = take n b @ replicate (n - length b) 0"

definition DigestExtensionFromPB :: "bytes option option \<Rightarrow> bytes option" where
  "DigestExtensionFromPB d = (case d of
       None \<Rightarrow> None
     | Some None \<Rightarrow> Some []
     | Some (Some digest) \<Rightarrow> Some (copy_into DigestLength digest))"

definition DigestExtensionToPB :: "bytes option \<Rightarrow> bytes option option" where
  "DigestExtensionToPB d = (case d of None \<Rightarrow> None | Some digest \<Rightarrow> Some (Some (copy_into DigestLength digest)))"

definition calculateDigest :: "(bytes \<Rightarrow> bytes) \<Rightarrow> bytes \<Rightarrow> bytes" where
  "calculateDigest sha256 input = slice 0 DigestLength (sha256 input)"

definition Digest_Validate :: "(bytes \<Rightarrow> bytes) \<Rightarrow> bytes \<Rightarrow> bytes \<Rightarrow> unit res" where
  "Digest_Validate sha256 digest input =
     (if calculateDigest sha256 input \<noteq> digest then Inl (Err ''digest validation failed'') else Inr ())"

definition AuthLen :: nat where "AuthLen = 10"

definition DetachedFromPB :: "detached option \<Rightarrow> detached option" where
  "DetachedFromPB ext = map_option (\<lambda>d.
     \<lparr>AuthHopEntry = copy_into AuthLen (AuthHopEntry d), AuthPeerEntries = map (copy_into AuthLen) (AuthPeerEntries d)\<rparr>) ext"

definition DetachedToPB :: "detached option \<Rightarrow> detached option" where
  "DetachedToPB ed = (case ed of
       None \<Rightarrow> None
     | Some d \<Rightarrow>
         if length (AuthHopEntry d) \<noteq> AuthLen then None
         else if list_ex (\<lambda>p. length p \<noteq> AuthLen) (AuthPeerEntries d) then None
         else Some \<lparr>AuthHopEntry = copy_into AuthLen (AuthHopEntry d),
                    AuthPeerEntries = map (copy_into AuthLen) (AuthPeerEntries d)\<rparr>)"

fun peer_auths :: "bytes list \<Rightarrow> bytes res" where
  "peer_auths [] = Inr []"
| "peer_auths (peer # peers) =
     (if length peer \<noteq> AuthLen then Inl (Err ''peer entry authenticator of wrong length'')
      else rbind (peer_auths peers) (\<lambda>b. Inr (peer @ b)))"

definition DigestInput :: "detached option \<Rightarrow> bytes res" where
  "DigestInput ed = (case ed of
       None \<Rightarrow> Inl (Err ''struct Detached pointer must not be nil'')
     | Some d \<Rightarrow> let totalLen = word_of_nat (1 + length (AuthPeerEntries d)) :: u16 in
         if length (AuthHopEntry d) \<noteq> AuthLen then Inl (Err ''hop entry authenticator of wrong length'')
         else rbind (peer_auths (AuthPeerEntries d)) (\<lambda>peers. Inr (PutUint16 totalLen @ AuthHopEntry d @ peers)))"

definition checkUnsignedExtensions :: "(bytes \<Rightarrow> bytes) \<Rightarrow> detached option \<Rightarrow> seg_extensions \<Rightarrow> unit res" where
  "checkUnsignedExtensions sha256 ue e = (let
     epicDetached = (ue \<noteq> None);
     epicDigest = (case Digests e of None \<Rightarrow> False | Some d \<Rightarrow> d \<noteq> [])
   in if epicDetached \<and> \<not> epicDigest then Inl (Err ''epic authenticators present, but hash is not'')
      else if epicDetached \<and> epicDigest then
        rbind (DigestInput ue) (\<lambda>input.
        case Digests e of None \<Rightarrow> Inl (Panic ''nil pointer dereference'') | Some d \<Rightarrow> Digest_Validate sha256 d input)
      else Inr ())"

section \<open>Extensions (extensions.go, unsigned.go)\<close>

definition extensionsFromPB :: "pb_extensions option \<Rightarrow> seg_extensions" where
  "extensionsFromPB pb = (case pb of
       None \<Rightarrow> \<lparr>IsHidden = False, Digests = None\<rparr>
     | Some p \<Rightarrow> \<lparr>IsHidden = (PbHiddenPath p = Some True), Digests = DigestExtensionFromPB (PbDigests p)\<rparr>)"

definition extensionsToPB :: "seg_extensions \<Rightarrow> pb_extensions option" where
  "extensionsToPB ext = (let
     hiddenPath = (if IsHidden ext then Some True else None);
     digest = DigestExtensionToPB (Digests ext)
   in if hiddenPath \<noteq> None \<or> digest \<noteq> None then Some \<lparr>PbHiddenPath = hiddenPath, PbDigests = digest\<rparr> else None)"

definition UnsignedExtensionsFromPB :: "detached option option \<Rightarrow> detached option" where
  "UnsignedExtensionsFromPB ue = (case ue of None \<Rightarrow> None | Some e \<Rightarrow> DetachedFromPB e)"

definition UnsignedExtensionsToPB :: "detached option \<Rightarrow> detached option option" where
  "UnsignedExtensionsToPB ue = (if ue = None then None else Some (DetachedToPB ue))"

section \<open>Hop entries (hop.go)\<close>

definition MaxInt32 :: u32 where "MaxInt32 = 2147483647"
definition MaxUint16_64 :: u64 where "MaxUint16_64 = 65535"

definition hopFieldFromPB :: "pb_hop_field \<Rightarrow> seg_hop res" where
  "hopFieldFromPB pb =
     (if PbIngress pb > MaxUint16_64 then Inl (Err ''ingress exceeds 65535'')
      else if PbEgress pb > MaxUint16_64 then Inl (Err ''egress exceeds 65535'')
      else if PbExpTime pb > 255 then Inl (Err ''exp_time exceeds 255'')
      else if length (PbMac pb) \<noteq> 6 then Inl (Err ''MAC must be 6 bytes'')
      else Inr \<lparr>SExpTime = ucast (PbExpTime pb), SConsIngress = ucast (PbIngress pb),
        SConsEgress = ucast (PbEgress pb), SMAC = PbMac pb\<rparr>)"

definition hopEntryFromPB :: "pb_hop_entry option \<Rightarrow> hop_entry res" where
  "hopEntryFromPB pbo = (case pbo of
       None \<Rightarrow> Inl (Err ''nil hop entry'')
     | Some pb \<Rightarrow> (case PbHopField pb of
         None \<Rightarrow> Inl (Err ''hop field is nil'')
       | Some hf \<Rightarrow>
           if PbIngressMtu pb > MaxInt32 then Inl (Err ''MTU too big'')
           else rbind (wrap_err ''parsing hop field'' (hopFieldFromPB hf)) (\<lambda>hop.
             Inr \<lparr>EntryHop = hop, IngressMTU = uint (PbIngressMtu pb)\<rparr>)))"

definition peerEntryFromPB :: "pb_peer_entry \<Rightarrow> peer_entry res" where
  "peerEntryFromPB pb = (case PbPeerHopField pb of
       None \<Rightarrow> Inl (Err ''hop field is nil'')
     | Some hf \<Rightarrow>
         if IsWildcard (PbPeerIsdAs pb) then Inl (Err ''wildcard peer'')
         else if PbPeerInterface pb > MaxUint16_64 then Inl (Err ''peer interface exceeds 65535'')
         else if PbPeerMtu pb > MaxInt32 then Inl (Err ''MTU too big'')
         else rbind (wrap_err ''parsing hop field'' (hopFieldFromPB hf)) (\<lambda>hop.
           Inr \<lparr>PeerHop = hop, PeerIA = PbPeerIsdAs pb, PeerInterface = ucast (PbPeerInterface pb),
             PeerMTU = uint (PbPeerMtu pb)\<rparr>))"

section \<open>AS entries (as.go)\<close>

text \<open>Peer entries that are nil are skipped.\<close>

fun peerEntriesFromPB :: "pb_peer_entry option list \<Rightarrow> peer_entry list res" where
  "peerEntriesFromPB [] = Inr []"
| "peerEntriesFromPB (None # ps) = peerEntriesFromPB ps"
| "peerEntriesFromPB (Some p # ps) =
     rbind (wrap_err ''parsing peer entry'' (peerEntryFromPB p)) (\<lambda>e.
     rbind (peerEntriesFromPB ps) (\<lambda>es. Inr (e # es)))"

definition ASEntryFromPB :: "proto \<Rightarrow> pb_as_entry option \<Rightarrow> as_entry res" where
  "ASEntryFromPB c pbo = (case pbo of
       None \<Rightarrow> Inl (Err ''nil entry'')
     | Some pb \<Rightarrow>
         rbind (ExtractUnverifiedBody c (PbSigned pb)) (\<lambda>unverifiedBody.
         rbind (UnmarshalBody c unverifiedBody) (\<lambda>entry.
         if IsWildcard (PbIsdAs entry) then Inl (Err ''wildcard local ISD-AS'')
         else if PbMtu entry > MaxInt32 then Inl (Err ''MTU too big'')
         else
           rbind (wrap_err ''parsing hop entry'' (hopEntryFromPB (PbHopEntry entry))) (\<lambda>hopEntry.
           rbind (peerEntriesFromPB (PbPeerEntries entry)) (\<lambda>peerEntries.
           Inr \<lparr>Signed = PbSigned pb, ASLocal = PbIsdAs entry, ASNext = PbNextIsdAs entry, HopEntry = hopEntry,
             PeerEntries = peerEntries, ASMTU = uint (PbMtu entry), Extensions = extensionsFromPB (PbExtensions entry),
             EpicDetached = UnsignedExtensionsFromPB (PbUnsigned pb)\<rparr>)))))"

section \<open>Segment information (info.go)\<close>

definition infoFromRaw :: "proto \<Rightarrow> bytes \<Rightarrow> seg_info res" where
  "infoFromRaw c rawInfo =
     rbind (UnmarshalInfo c rawInfo) (\<lambda>(timestamp, segmentId).
     if segmentId > 65535 then Inl (Err ''segment ID overflows uint16'')
     else Inr \<lparr>InfoRaw = rawInfo, InfoTimestamp = timestamp * second_ns, SegmentID = ucast segmentId\<rparr>)"

definition NewInfo :: "proto \<Rightarrow> int \<Rightarrow> u16 \<Rightarrow> seg_info res" where
  "NewInfo c timestamp segmentID = (let unix = timestamp div second_ns in
     rbind (MarshalInfo c (unix, ucast segmentID)) (\<lambda>rawInfo.
     Inr \<lparr>InfoRaw = rawInfo, InfoTimestamp = unix * second_ns, SegmentID = segmentID\<rparr>))"

section \<open>Path segments (seg.go)\<close>

definition CreateSegment :: "proto \<Rightarrow> int \<Rightarrow> u16 \<Rightarrow> path_segment res" where
  "CreateSegment c timestamp segID =
     rbind (NewInfo c timestamp segID) (\<lambda>info. Inr \<lparr>SInfo = info, ASEntries = []\<rparr>)"

fun asEntriesFromPB :: "proto \<Rightarrow> pb_as_entry option list \<Rightarrow> as_entry list res" where
  "asEntriesFromPB c [] = Inr []"
| "asEntriesFromPB c (e # es) =
     rbind (wrap_err ''parsing AS entry'' (ASEntryFromPB c e)) (\<lambda>as.
     rbind (asEntriesFromPB c es) (\<lambda>rest. Inr (as # rest)))"

definition segmentFromPB :: "proto \<Rightarrow> pb_segment \<Rightarrow> path_segment res" where
  "segmentFromPB c pb =
     rbind (wrap_err ''parsing segment info'' (infoFromRaw c (PbSegmentInfo pb))) (\<lambda>info.
     rbind (asEntriesFromPB c (PbAsEntries pb)) (\<lambda>asEntries.
     Inr \<lparr>SInfo = info, ASEntries = asEntries\<rparr>))"

definition hash_input :: "bool \<Rightarrow> as_entry \<Rightarrow> bytes" where
  "hash_input hopOnly ase =
     PutUint64 (ASLocal ase) @ PutUint16 (SConsIngress (EntryHop (HopEntry ase))) @
     PutUint16 (SConsEgress (EntryHop (HopEntry ase))) @
     (if hopOnly then [] else concat (map (\<lambda>peer.
        PutUint64 (PeerIA peer) @ PutUint16 (SConsIngress (PeerHop peer)) @ PutUint16 (SConsEgress (PeerHop peer)))
        (PeerEntries ase)))"

definition calculateHash :: "(bytes \<Rightarrow> bytes) \<Rightarrow> path_segment \<Rightarrow> bool \<Rightarrow> bytes" where
  "calculateHash sha256 ps hopOnly = sha256 (concat (map (hash_input hopOnly) (ASEntries ps)))"

definition Seg_ID :: "(bytes \<Rightarrow> bytes) \<Rightarrow> path_segment \<Rightarrow> bytes" where
  "Seg_ID sha256 ps = calculateHash sha256 ps True"

definition Seg_FullID :: "(bytes \<Rightarrow> bytes) \<Rightarrow> path_segment \<Rightarrow> bytes" where
  "Seg_FullID sha256 ps = calculateHash sha256 ps False"

text \<open>The loop of \<open>Validate\<close> over the AS entries; \<open>vb\<close> is \<open>ValidateBeacon\<close>.\<close>

definition validate_next :: "bool \<Rightarrow> as_entry \<Rightarrow> as_entry list \<Rightarrow> unit res" where
  "validate_next vb e rest = (case rest of
       e' # _ \<Rightarrow> if \<not> IA_Equal (ASNext e) (ASLocal e') then Inl (Err ''next AS entry has inconsistent ISD-AS'') else Inr ()
     | [] \<Rightarrow>
         if vb then
           if IsWildcard (ASNext e) then Inl (Err ''next ISD-AS of the last AS entry in a beacon must not be empty'')
           else if SConsEgress (EntryHop (HopEntry e)) = 0 then Inl (Err ''last hop in beacon with zero egress interface'')
           else Inr ()
         else
           if \<not> IA_IsZero (ASNext e) then Inl (Err ''next ISD-AS of last AS entry in a segment must be empty'')
           else if SConsEgress (EntryHop (HopEntry e)) \<noteq> 0 then Inl (Err ''last hop in segment with non-zero egress interface'')
           else Inr ())"

definition validate_peers :: "as_entry \<Rightarrow> unit res" where
  "validate_peers e =
     (if list_ex (\<lambda>peer. SConsEgress (PeerHop peer) \<noteq> SConsEgress (EntryHop (HopEntry e))) (PeerEntries e)
      then Inl (Err ''egress interface of peer entry does not match hop entry'') else Inr ())"

fun validate_entries :: "(bytes \<Rightarrow> bytes) \<Rightarrow> bool \<Rightarrow> as_entry list \<Rightarrow> unit res" where
  "validate_entries sha256 vb [] = Inr ()"
| "validate_entries sha256 vb (e # rest) =
     rbind (validate_next vb e rest) (\<lambda>_.
     rbind (validate_peers e) (\<lambda>_.
     rbind (checkUnsignedExtensions sha256 (EpicDetached e) (Extensions e)) (\<lambda>_.
     validate_entries sha256 vb rest)))"

definition Seg_Validate :: "(bytes \<Rightarrow> bytes) \<Rightarrow> path_segment \<Rightarrow> bool \<Rightarrow> unit res" where
  "Seg_Validate sha256 ps vb = (case ASEntries ps of
       [] \<Rightarrow> Inl (Err ''no AS entries'')
     | e # _ \<Rightarrow>
         if SConsIngress (EntryHop (HopEntry e)) \<noteq> 0 then Inl (Err ''first hop with non-zero ingress interface'')
         else validate_entries sha256 vb (ASEntries ps))"

definition SegmentFromPB :: "(bytes \<Rightarrow> bytes) \<Rightarrow> proto \<Rightarrow> pb_segment \<Rightarrow> path_segment res" where
  "SegmentFromPB sha256 c pb =
     rbind (segmentFromPB c pb) (\<lambda>seg. rbind (Seg_Validate sha256 seg False) (\<lambda>_. Inr seg))"

definition BeaconFromPB :: "(bytes \<Rightarrow> bytes) \<Rightarrow> proto \<Rightarrow> pb_segment \<Rightarrow> path_segment res" where
  "BeaconFromPB sha256 c pb =
     rbind (segmentFromPB c pb) (\<lambda>seg. rbind (Seg_Validate sha256 seg True) (\<lambda>_. Inr seg))"

definition hop_ttls :: "as_entry \<Rightarrow> int list" where
  "hop_ttls e = ExpTimeToDuration (SExpTime (EntryHop (HopEntry e))) #
     map (\<lambda>peer. ExpTimeToDuration (SExpTime (PeerHop peer))) (PeerEntries e)"

definition seg_expiry :: "path_segment \<Rightarrow> int \<Rightarrow> (int \<Rightarrow> int \<Rightarrow> bool) \<Rightarrow> int" where
  "seg_expiry ps initTTL compare = InfoTimestamp (SInfo ps) +
     foldl (\<lambda>ttl hfTTL. if compare hfTTL ttl then hfTTL else ttl) initTTL (concat (map hop_ttls (ASEntries ps)))"

definition MaxExpiry :: "path_segment \<Rightarrow> int" where
  "MaxExpiry ps = seg_expiry ps 0 (\<lambda>hfTtl ttl. hfTtl > ttl)"

definition MinExpiry :: "path_segment \<Rightarrow> int" where
  "MinExpiry ps = seg_expiry ps (MaxTTL * second_ns) (\<lambda>hfTtl ttl. hfTtl < ttl)"

definition FirstIA :: "path_segment \<Rightarrow> u64 res" where
  "FirstIA ps = (case ASEntries ps of [] \<Rightarrow> Inl (Panic ''index out of range'') | e # _ \<Rightarrow> Inr (ASLocal e))"

definition LastIA :: "path_segment \<Rightarrow> u64 res" where
  "LastIA ps = (if ASEntries ps = [] then Inl (Panic ''index out of range'') else Inr (ASLocal (last (ASEntries ps))))"

text \<open>The data a signature covers besides the entry: the segment information and the entries before it.\<close>

fun signed_parts :: "as_entry list \<Rightarrow> bytes list res" where
  "signed_parts [] = Inr []"
| "signed_parts (e # es) = (case Signed e of
       None \<Rightarrow> Inl (Panic ''nil pointer dereference'')
     | Some m \<Rightarrow> rbind (signed_parts es) (\<lambda>ps. Inr (HeaderAndBody m # Signature m # ps)))"

definition associatedData :: "path_segment \<Rightarrow> nat \<Rightarrow> bytes list res" where
  "associatedData ps idx = rbind (signed_parts (take idx (ASEntries ps))) (\<lambda>parts. Inr (InfoRaw (SInfo ps) # parts))"

definition hopFieldToPB :: "seg_hop \<Rightarrow> pb_hop_field" where
  "hopFieldToPB h = \<lparr>PbIngress = ucast (SConsIngress h), PbEgress = ucast (SConsEgress h),
     PbExpTime = ucast (SExpTime h), PbMac = SMAC h\<rparr>"

definition asEntryBody :: "as_entry \<Rightarrow> pb_body" where
  "asEntryBody e = \<lparr>PbIsdAs = ASLocal e, PbNextIsdAs = ASNext e,
     PbHopEntry = Some \<lparr>PbHopField = Some (hopFieldToPB (EntryHop (HopEntry e))),
       PbIngressMtu = word_of_int (IngressMTU (HopEntry e))\<rparr>,
     PbPeerEntries = map (\<lambda>peer. Some \<lparr>PbPeerIsdAs = PeerIA peer, PbPeerInterface = ucast (PeerInterface peer),
       PbPeerMtu = word_of_int (PeerMTU peer), PbPeerHopField = Some (hopFieldToPB (PeerHop peer))\<rparr>) (PeerEntries e),
     PbMtu = word_of_int (ASMTU e), PbExtensions = extensionsToPB (Extensions e)\<rparr>"

type_synonym signer = "bytes \<Rightarrow> bytes list \<Rightarrow> signed_message res"

definition AddASEntry :: "proto \<Rightarrow> signer \<Rightarrow> path_segment \<Rightarrow> as_entry \<Rightarrow> path_segment res" where
  "AddASEntry c sign ps asEntry =
     rbind (wrap_err ''packing AS entry'' (MarshalBody c (asEntryBody asEntry))) (\<lambda>rawASEntry.
     rbind (associatedData ps (length (ASEntries ps))) (\<lambda>ad.
     rbind (wrap_err ''signing AS entry'' (sign rawASEntry ad)) (\<lambda>signedMsg.
     Inr (ps\<lparr>ASEntries := ASEntries ps @ [asEntry\<lparr>Signed := Some signedMsg\<rparr>]\<rparr>))))"

definition MaxIdx :: "path_segment \<Rightarrow> int" where
  "MaxIdx ps = int (length (ASEntries ps)) - 1"

definition validateIdx :: "path_segment \<Rightarrow> int \<Rightarrow> unit res" where
  "validateIdx ps idx = (if idx < 0 \<or> idx > MaxIdx ps then Inl (Err ''index is out of range'') else Inr ())"

type_synonym verifier = "signed_message option \<Rightarrow> bytes list \<Rightarrow> unit res"

definition VerifyASEntry :: "verifier \<Rightarrow> path_segment \<Rightarrow> int \<Rightarrow> unit res" where
  "VerifyASEntry verify ps idx =
     rbind (validateIdx ps idx) (\<lambda>_.
     rbind (associatedData ps (nat idx)) (\<lambda>ad.
     verify (Signed (ASEntries ps ! nat idx)) ad))"

fun verify_from :: "verifier \<Rightarrow> path_segment \<Rightarrow> nat \<Rightarrow> nat \<Rightarrow> unit res" where
  "verify_from verify ps i 0 = Inr ()"
| "verify_from verify ps i (Suc n) =
     rbind (wrap_err ''verifying AS entry'' (VerifyASEntry verify ps (int i))) (\<lambda>_. verify_from verify ps (Suc i) n)"

definition Seg_Verify :: "verifier \<Rightarrow> path_segment \<Rightarrow> unit res" where
  "Seg_Verify verify ps = verify_from verify ps 0 (length (ASEntries ps))"

definition PathSegmentToPB :: "path_segment option \<Rightarrow> pb_segment res" where
  "PathSegmentToPB pso = (case pso of
       None \<Rightarrow> Inl (Panic ''path segment must not be nil'')
     | Some ps \<Rightarrow> Inr \<lparr>PbSegmentInfo = InfoRaw (SInfo ps),
         PbAsEntries = map (\<lambda>e. Some \<lparr>PbSigned = Signed e, PbUnsigned = UnsignedExtensionsToPB (EpicDetached e)\<rparr>)
           (ASEntries ps)\<rparr>)"

section \<open>Lists of segments (segs.go)\<close>

fun FilterSegs :: "(path_segment \<Rightarrow> bool res) \<Rightarrow> path_segment list \<Rightarrow> (path_segment list \<times> nat) res" where
  "FilterSegs keep [] = Inr ([], 0)"
| "FilterSegs keep (s # segs) =
     rbind (keep s) (\<lambda>k.
     rbind (FilterSegs keep segs) (\<lambda>(kept, n). Inr (if k then (s # kept, n) else (kept, Suc n))))"

fun extractIAs :: "(path_segment \<Rightarrow> u64 res) \<Rightarrow> u64 list \<Rightarrow> path_segment list \<Rightarrow> u64 list res" where
  "extractIAs extract addrs [] = Inr []"
| "extractIAs extract addrs (s # segs) =
     rbind (extract s) (\<lambda>ia.
     if ia \<in> set addrs then extractIAs extract addrs segs
     else rbind (extractIAs extract (ia # addrs) segs) (\<lambda>ias. Inr (ia # ias)))"

definition FirstIAs :: "path_segment list \<Rightarrow> u64 list res" where
  "FirstIAs segs = extractIAs FirstIA [] segs"

definition LastIAs :: "path_segment list \<Rightarrow> u64 list res" where
  "LastIAs segs = extractIAs LastIA [] segs"

section \<open>Protobuf round trip\<close>

lemma copy_into_id [simp]: "length b = n \<Longrightarrow> copy_into n b = b"
  by (simp add: copy_into_def)

lemma length_copy_into [simp]: "length (copy_into n b) = n"
  by (simp add: copy_into_def)

lemma hopFieldFromPB_ToPB: "seg_hop_wf h \<Longrightarrow> hopFieldFromPB (hopFieldToPB h) = Inr h"
proof -
  assume wf: "seg_hop_wf h"
  have le: "(ucast (x :: u16) :: u64) \<le> MaxUint16_64" for x
    using uint_lt2p [of x] by (simp add: word_le_def MaxUint16_64_def unsigned_ucast_eq take_bit_int_eq_self)
  have e: "(ucast (x :: u8) :: u32) \<le> 255" for x
    using uint_lt2p [of x] by (simp add: word_le_def unsigned_ucast_eq take_bit_int_eq_self)
  show ?thesis using wf le e
    by (simp add: hopFieldFromPB_def hopFieldToPB_def seg_hop_wf_def MacLen_def not_less ucast_down_ucast_id is_down)
qed

text \<open>An MTU that survives the conversion to \<open>uint32\<close> and back.\<close>

definition mtu_wf :: "int \<Rightarrow> bool" where
  "mtu_wf m \<longleftrightarrow> 0 \<le> m \<and> m \<le> 2147483647"

lemma mtu_word [simp]: "mtu_wf m \<Longrightarrow> uint (word_of_int m :: u32) = m" "mtu_wf m \<Longrightarrow> \<not> MaxInt32 < (word_of_int m :: u32)"
proof -
  assume "mtu_wf m"
  then show u: "uint (word_of_int m :: u32) = m"
    by (simp add: mtu_wf_def unsigned_of_int take_bit_int_eq_self)
  then show "\<not> MaxInt32 < (word_of_int m :: u32)"
    using \<open>mtu_wf m\<close> by (simp add: word_less_def MaxInt32_def mtu_wf_def del: word_of_int_less_iff)
qed

definition peer_sendable :: "peer_entry \<Rightarrow> bool" where
  "peer_sendable p \<longleftrightarrow> seg_hop_wf (PeerHop p) \<and> \<not> IsWildcard (PeerIA p) \<and> mtu_wf (PeerMTU p)"

definition entry_sendable :: "as_entry \<Rightarrow> bool" where
  "entry_sendable e \<longleftrightarrow> \<not> IsWildcard (ASLocal e) \<and> mtu_wf (ASMTU e) \<and>
     seg_hop_wf (EntryHop (HopEntry e)) \<and> mtu_wf (IngressMTU (HopEntry e)) \<and>
     list_all peer_sendable (PeerEntries e) \<and>
     (\<forall>d. Digests (Extensions e) = Some d \<longrightarrow> length d = DigestLength) \<and>
     (\<forall>d. EpicDetached e = Some d \<longrightarrow> length (AuthHopEntry d) = AuthLen \<and> list_all (\<lambda>p. length p = AuthLen) (AuthPeerEntries d))"

lemma extensionsFromPB_ToPB:
  "(\<And>d. Digests e = Some d \<Longrightarrow> length d = DigestLength) \<Longrightarrow> extensionsFromPB (extensionsToPB e) = e"
  by (cases e; cases "Digests e")
    (auto simp: extensionsFromPB_def extensionsToPB_def DigestExtensionFromPB_def DigestExtensionToPB_def)

lemma map_copy_into: "list_all (\<lambda>p. length p = n) xs \<Longrightarrow> map (copy_into n) xs = xs"
  by (induction xs) auto

lemma UnsignedExtensions_FromPB_ToPB:
  assumes "\<And>d. ue = Some d \<Longrightarrow> length (AuthHopEntry d) = AuthLen \<and> list_all (\<lambda>p. length p = AuthLen) (AuthPeerEntries d)"
  shows "UnsignedExtensionsFromPB (UnsignedExtensionsToPB ue) = ue"
proof (cases ue)
  case (Some d)
  with assms have "length (AuthHopEntry d) = AuthLen" "list_all (\<lambda>p. length p = AuthLen) (AuthPeerEntries d)" by auto
  then show ?thesis using Some
    by (auto simp: UnsignedExtensionsFromPB_def UnsignedExtensionsToPB_def DetachedFromPB_def DetachedToPB_def
        map_copy_into list_all_iff list_ex_iff)
qed (simp add: UnsignedExtensionsFromPB_def UnsignedExtensionsToPB_def)

lemma peerEntriesFromPB_ToPB:
  "list_all peer_sendable ps \<Longrightarrow> peerEntriesFromPB (map (\<lambda>peer. Some \<lparr>PbPeerIsdAs = PeerIA peer, PbPeerInterface = ucast (PeerInterface peer),
       PbPeerMtu = word_of_int (PeerMTU peer), PbPeerHopField = Some (hopFieldToPB (PeerHop peer))\<rparr>) ps) = Inr ps"
proof (induction ps)
  case (Cons p ps)
  have le: "\<not> MaxUint16_64 < (ucast (PeerInterface p) :: u64)"
    using uint_lt2p [of "PeerInterface p"] by (simp add: word_less_def MaxUint16_64_def unsigned_ucast_eq take_bit_int_eq_self)
  from Cons show ?case using le
    by (simp add: peerEntryFromPB_def peer_sendable_def hopFieldFromPB_ToPB ucast_down_ucast_id is_down)
qed simp

text \<open>An entry as \<open>AddASEntry\<close> leaves it: the signed message holds the entry.\<close>

definition entry_signed :: "proto \<Rightarrow> as_entry \<Rightarrow> bool" where
  "entry_signed c e \<longleftrightarrow> (\<exists>m rawBody. Signed e = Some m \<and> ExtractUnverifiedBody c (Some m) = Inr rawBody \<and>
     UnmarshalBody c rawBody = Inr (asEntryBody e))"

lemma ASEntryFromPB_ToPB:
  assumes "entry_sendable e" "entry_signed c e"
  shows "ASEntryFromPB c (Some \<lparr>PbSigned = Signed e, PbUnsigned = UnsignedExtensionsToPB (EpicDetached e)\<rparr>) = Inr e"
proof -
  have x: "extensionsFromPB (extensionsToPB (Extensions e)) = Extensions e"
    "UnsignedExtensionsFromPB (UnsignedExtensionsToPB (EpicDetached e)) = EpicDetached e"
    using assms(1) by (auto simp: entry_sendable_def intro!: extensionsFromPB_ToPB UnsignedExtensions_FromPB_ToPB)
  show ?thesis using assms
    by (auto simp: ASEntryFromPB_def entry_signed_def asEntryBody_def entry_sendable_def hopEntryFromPB_def
        hopFieldFromPB_ToPB peerEntriesFromPB_ToPB x)
qed

lemma asEntriesFromPB_ToPB:
  "list_all (\<lambda>e. entry_sendable e \<and> entry_signed c e) es \<Longrightarrow>
   asEntriesFromPB c (map (\<lambda>e. Some \<lparr>PbSigned = Signed e, PbUnsigned = UnsignedExtensionsToPB (EpicDetached e)\<rparr>) es) = Inr es"
  by (induction es) (simp_all add: ASEntryFromPB_ToPB)

definition info_wf :: "proto \<Rightarrow> seg_info \<Rightarrow> bool" where
  "info_wf c info \<longleftrightarrow> (\<exists>secs. InfoTimestamp info = secs * second_ns \<and>
     UnmarshalInfo c (InfoRaw info) = Inr (secs, ucast (SegmentID info)))"

definition segment_sendable :: "proto \<Rightarrow> path_segment \<Rightarrow> bool" where
  "segment_sendable c ps \<longleftrightarrow> info_wf c (SInfo ps) \<and> list_all (\<lambda>e. entry_sendable e \<and> entry_signed c e) (ASEntries ps)"

lemma segmentFromPB_ToPB:
  assumes "segment_sendable c ps"
  shows "rbind (PathSegmentToPB (Some ps)) (segmentFromPB c) = Inr ps"
proof -
  have "\<not> 65535 < (ucast (SegmentID (SInfo ps)) :: u32)"
    using uint_lt2p [of "SegmentID (SInfo ps)"]
    by (simp add: word_less_def unsigned_ucast_eq take_bit_int_eq_self)
  then show ?thesis using assms
    by (auto simp: PathSegmentToPB_def segmentFromPB_def segment_sendable_def info_wf_def infoFromRaw_def
        asEntriesFromPB_ToPB ucast_down_ucast_id is_down)
qed

section \<open>Validation\<close>

text \<open>What \<open>Validate\<close> establishes, as a predicate over the entries.\<close>

definition entry_consistent :: "(bytes \<Rightarrow> bytes) \<Rightarrow> as_entry \<Rightarrow> bool" where
  "entry_consistent sha256 e \<longleftrightarrow>
     (\<forall>p\<in>set (PeerEntries e). SConsEgress (PeerHop p) = SConsEgress (EntryHop (HopEntry e))) \<and>
     (\<forall>d. EpicDetached e = Some d \<longrightarrow> (\<exists>input dg. DigestInput (Some d) = Inr input \<and> Digests (Extensions e) = Some dg \<and>
        dg \<noteq> [] \<and> dg = calculateDigest sha256 input))"

definition chained :: "as_entry list \<Rightarrow> bool" where
  "chained es \<longleftrightarrow> (\<forall>i. Suc i < length es \<longrightarrow> ASNext (es ! i) = ASLocal (es ! Suc i))"

definition last_ok :: "bool \<Rightarrow> as_entry \<Rightarrow> bool" where
  "last_ok vb e \<longleftrightarrow> (if vb then \<not> IsWildcard (ASNext e) \<and> SConsEgress (EntryHop (HopEntry e)) \<noteq> 0
     else ASNext e = 0 \<and> SConsEgress (EntryHop (HopEntry e)) = 0)"

lemma chained_Cons: "chained (e # es) \<longleftrightarrow> (case es of [] \<Rightarrow> True | e' # _ \<Rightarrow> ASNext e = ASLocal e') \<and> chained es"
  by (cases es) (auto simp: chained_def nth_Cons split: nat.splits)

lemma checkUnsignedExtensions_iff:
  "checkUnsignedExtensions sha256 ue e = Inr () \<longleftrightarrow>
   (\<forall>d. ue = Some d \<longrightarrow> (\<exists>input dg. DigestInput (Some d) = Inr input \<and> Digests e = Some dg \<and> dg \<noteq> [] \<and> dg = calculateDigest sha256 input))"
  by (auto simp: checkUnsignedExtensions_def Digest_Validate_def Let_def res_simps split: option.splits if_splits)

lemma validate_entries_iff:
  "validate_entries sha256 vb es = Inr () \<longleftrightarrow>
   chained es \<and> (es \<noteq> [] \<longrightarrow> last_ok vb (last es)) \<and> list_all (entry_consistent sha256) es"
proof (induction es)
  case (Cons e es)
  have n: "validate_next vb e es = Inr () \<longleftrightarrow> (case es of [] \<Rightarrow> last_ok vb e | e' # _ \<Rightarrow> ASNext e = ASLocal e')"
    by (auto simp: validate_next_def last_ok_def IA_Equal_def IA_IsZero_def split: list.splits)
  have p: "validate_peers e = Inr () \<longleftrightarrow> (\<forall>p\<in>set (PeerEntries e). SConsEgress (PeerHop p) = SConsEgress (EntryHop (HopEntry e)))"
    by (auto simp: validate_peers_def list_ex_iff)
  show ?case using Cons.IH n p
    by (cases es) (auto simp: res_simps chained_Cons entry_consistent_def checkUnsignedExtensions_iff)
qed (simp add: chained_def)

lemma Seg_Validate_iff:
  "Seg_Validate sha256 ps vb = Inr () \<longleftrightarrow> ASEntries ps \<noteq> [] \<and>
   SConsIngress (EntryHop (HopEntry (hd (ASEntries ps)))) = 0 \<and> chained (ASEntries ps) \<and>
   last_ok vb (last (ASEntries ps)) \<and> list_all (entry_consistent sha256) (ASEntries ps)"
  by (cases "ASEntries ps") (auto simp: Seg_Validate_def validate_entries_iff simp del: validate_entries.simps)

section \<open>Expiry\<close>

lemma foldl_min:
  fixes xs :: "int list"
  shows "foldl (\<lambda>m x. if x < m then x else m) a xs \<le> y \<longleftrightarrow> (\<exists>x\<in>insert a (set xs). x \<le> y)"
proof (induction xs arbitrary: a)
  case (Cons x xs)
  show ?case by (auto simp: Cons)
qed simp

lemma foldl_max:
  fixes xs :: "int list"
  shows "y \<le> foldl (\<lambda>m x. if x > m then x else m) a xs \<longleftrightarrow> (\<exists>x\<in>insert a (set xs). y \<le> x)"
proof (induction xs arbitrary: a)
  case (Cons x xs)
  show ?case by (auto simp: Cons)
qed simp

definition seg_hops :: "path_segment \<Rightarrow> seg_hop set" where
  "seg_hops ps = (\<Union>e\<in>set (ASEntries ps). insert (EntryHop (HopEntry e)) (PeerHop ` set (PeerEntries e)))"

lemma hop_ttls_set: "set (concat (map hop_ttls (ASEntries ps))) = (\<lambda>h. ExpTimeToDuration (SExpTime h)) ` seg_hops ps"
  by (auto simp: hop_ttls_def seg_hops_def)

text \<open>The minimal expiry is reached exactly when some hop field of the segment expires, the maximal one when the last does.\<close>

lemma MinExpiry_le_iff:
  assumes "seg_hops ps \<noteq> {}"
  shows "MinExpiry ps \<le> t \<longleftrightarrow> (\<exists>h\<in>seg_hops ps. InfoTimestamp (SInfo ps) + ExpTimeToDuration (SExpTime h) \<le> t)"
proof -
  obtain h where h: "h \<in> seg_hops ps" using assms by blast
  have "ExpTimeToDuration (SExpTime h) \<le> MaxTTL * second_ns" using ExpTimeToDuration_bounds [of "SExpTime h"] by blast
  then have "(\<exists>x\<in>insert (MaxTTL * second_ns) ((\<lambda>h. ExpTimeToDuration (SExpTime h)) ` seg_hops ps). x \<le> y) \<longleftrightarrow>
     (\<exists>h\<in>seg_hops ps. ExpTimeToDuration (SExpTime h) \<le> y)" for y
    using h by (auto intro: order_trans)
  then show ?thesis
    using foldl_min [of "MaxTTL * second_ns" "concat (map hop_ttls (ASEntries ps))" "t - InfoTimestamp (SInfo ps)"]
    by (simp add: MinExpiry_def seg_expiry_def hop_ttls_set del: set_concat) (auto simp: algebra_simps)
qed

lemma MaxExpiry_ge_iff:
  assumes "seg_hops ps \<noteq> {}"
  shows "t \<le> MaxExpiry ps \<longleftrightarrow> (\<exists>h\<in>seg_hops ps. t \<le> InfoTimestamp (SInfo ps) + ExpTimeToDuration (SExpTime h))"
proof -
  obtain h where h: "h \<in> seg_hops ps" using assms by blast
  have "0 \<le> ExpTimeToDuration (SExpTime h)" using ExpTimeToDuration_bounds [of "SExpTime h" 0] by linarith
  then have e: "(\<exists>x\<in>insert 0 ((\<lambda>h. ExpTimeToDuration (SExpTime h)) ` seg_hops ps). y \<le> x) \<longleftrightarrow>
     (\<exists>h\<in>seg_hops ps. y \<le> ExpTimeToDuration (SExpTime h))" for y
    using h by (auto intro: order_trans)
  show ?thesis
    using foldl_max [of "t - InfoTimestamp (SInfo ps)" 0 "concat (map hop_ttls (ASEntries ps))"]
    by (simp only: MaxExpiry_def seg_expiry_def hop_ttls_set e) (simp add: diff_le_eq add.commute)
qed

section \<open>Signatures\<close>

lemma verify_from_iff:
  "verify_from verify ps i n = Inr () \<longleftrightarrow> (\<forall>k. i \<le> k \<and> k < i + n \<longrightarrow> VerifyASEntry verify ps (int k) = Inr ())"
proof (induction n arbitrary: i)
  case (Suc n)
  have "(\<forall>k. i \<le> k \<and> k < i + Suc n \<longrightarrow> P k) \<longleftrightarrow> P i \<and> (\<forall>k. Suc i \<le> k \<and> k < Suc i + n \<longrightarrow> P k)" for P
    by (auto simp: less_Suc_eq_le Suc_le_eq) (metis le_neq_implies_less)
  then show ?case by (simp add: res_simps Suc)
qed auto

lemma Seg_Verify_iff:
  "Seg_Verify verify ps = Inr () \<longleftrightarrow> (\<forall>k < length (ASEntries ps). \<exists>ad. associatedData ps k = Inr ad \<and>
     verify (Signed (ASEntries ps ! k)) ad = Inr ())"
  by (auto simp: Seg_Verify_def verify_from_iff VerifyASEntry_def validateIdx_def MaxIdx_def res_simps)

end
