(* ===== verification/Beacon_Store.thy ===== *)
theory Beacon_Store
  imports Segments
begin

unbundle bit_operations_syntax

text \<open>
  The beacon store of the control service (go/cs/beacon): loop filters and policies (policy.go), the selection of
  the best beacons (selection\_algo.go, beacon.go) and the stores of core and other ASes (store.go, db.go). The
  database behind a store is a record of its operations. The values of the policy files are
  arguments; parsing them is left out. Where the code looks into a segment that is nil it panics.
\<close>

section \<open>Beacons (beacon.go)\<close>

record beacon =
  BSegment :: "path_segment option"
  InIfId :: u16

definition beacon_entries :: "beacon \<Rightarrow> as_entry list res" where
  "beacon_entries b = (case BSegment b of None \<Rightarrow> Inl (Panic ''nil pointer dereference'') | Some s \<Rightarrow> Inr (ASEntries s))"

definition as_link :: "as_entry \<Rightarrow> u64 \<times> u16" where
  "as_link e = (ASLocal e, SConsIngress (EntryHop (HopEntry e)))"

definition Diversity :: "beacon \<Rightarrow> beacon \<Rightarrow> nat" where
  "Diversity b other = (case (BSegment b, BSegment other) of
       (Some s, Some t) \<Rightarrow> length (filter (\<lambda>asEntry. \<not> list_ex (\<lambda>otherEntry. as_link asEntry = as_link otherEntry) (ASEntries t)) (ASEntries s))
     | _ \<Rightarrow> 0)"

section \<open>Loops (policy.go)\<close>

fun as_loop :: "u64 list \<Rightarrow> u64 list \<Rightarrow> u64" where
  "as_loop seen [] = 0"
| "as_loop seen (ia # hops) = (if ia \<in> set seen then ia else as_loop (ia # seen) hops)"

definition filterAsLoop :: "u64 list \<Rightarrow> u64" where
  "filterAsLoop hops = as_loop [] hops"

fun isd_loop :: "u16 list \<Rightarrow> u16 \<Rightarrow> u64 list \<Rightarrow> u16" where
  "isd_loop seen lst [] = 0"
| "isd_loop seen lst (ia # hops) =
     (if lst = IA_ISD ia then isd_loop seen lst hops
      else if IA_ISD ia \<in> set seen then IA_ISD ia
      else isd_loop (IA_ISD ia # seen) (IA_ISD ia) hops)"

definition filterIsdLoop :: "u64 list \<Rightarrow> u16" where
  "filterIsdLoop hops = isd_loop [] 0 hops"

definition filterLoops :: "u64 list \<Rightarrow> bool \<Rightarrow> unit res" where
  "filterLoops hops allowIsdLoop =
     (if \<not> IA_IsZero (filterAsLoop hops) then Inl (Err ''AS loop'')
      else if allowIsdLoop then Inr ()
      else if filterIsdLoop hops \<noteq> 0 then Inl (Err ''ISD loop'')
      else Inr ())"

definition buildHops :: "beacon \<Rightarrow> u64 list res" where
  "buildHops b = rbind (beacon_entries b) (\<lambda>es. Inr (map ASLocal es))"

definition FilterLoop :: "beacon \<Rightarrow> u64 \<Rightarrow> bool \<Rightarrow> unit res" where
  "FilterLoop b nxt allowIsdLoop =
     rbind (buildHops b) (\<lambda>hops. filterLoops (if \<not> IA_IsZero nxt then hops @ [nxt] else hops) allowIsdLoop)"

section \<open>Policies (policy.go)\<close>

record bfilter =
  MaxHopsLength :: int
  AsBlackList :: "u64 list"
  IsdBlackList :: "u16 list"
  AllowIsdLoop :: "bool option"

record policy =
  BestSetSize :: int
  CandidateSetSize :: int
  PolMaxExpTime :: "u8 option"
  PolFilter :: bfilter
  PolType :: string

record policies =
  Prop :: policy
  UpReg :: policy
  DownReg :: policy

record core_policies =
  CProp :: policy
  CoreReg :: policy

definition PropPolicy :: string where "PropPolicy = ''Propagation''"
definition UpRegPolicy :: string where "UpRegPolicy = ''UpSegmentRegistration''"
definition DownRegPolicy :: string where "DownRegPolicy = ''DownSegmentRegistration''"
definition CoreRegPolicy :: string where "CoreRegPolicy = ''CoreSegmentRegistration''"

definition DefaultBestSetSize :: int where "DefaultBestSetSize = 20"
definition DefaultCandidateSetSize :: int where "DefaultCandidateSetSize = 100"
definition DefaultMaxHopsLength :: int where "DefaultMaxHopsLength = 10"
definition DefaultMaxExpTime :: u8 where "DefaultMaxExpTime = 63"

definition Filter_InitDefaults :: "bfilter \<Rightarrow> bfilter" where
  "Filter_InitDefaults f = f\<lparr>MaxHopsLength := (if MaxHopsLength f = 0 then DefaultMaxHopsLength else MaxHopsLength f),
     AllowIsdLoop := (if AllowIsdLoop f = None then Some True else AllowIsdLoop f)\<rparr>"

definition Policy_InitDefaults :: "policy \<Rightarrow> policy" where
  "Policy_InitDefaults p = p\<lparr>BestSetSize := (if BestSetSize p = 0 then DefaultBestSetSize else BestSetSize p),
     CandidateSetSize := (if CandidateSetSize p = 0 then DefaultCandidateSetSize else CandidateSetSize p),
     PolMaxExpTime := (if PolMaxExpTime p = None then Some DefaultMaxExpTime else PolMaxExpTime p),
     PolFilter := Filter_InitDefaults (PolFilter p)\<rparr>"

text \<open>The type is set unless another one is given; the callers ignore the error.\<close>

definition initDefaults :: "policy \<Rightarrow> string \<Rightarrow> policy \<times> unit res" where
  "initDefaults p t = (let p = Policy_InitDefaults p in
     if PolType p \<noteq> [] \<and> PolType p \<noteq> t then (p, Inl (Err ''Specified policy type does not match''))
     else (p\<lparr>PolType := t\<rparr>, Inr ()))"

definition Policies_InitDefaults :: "policies \<Rightarrow> policies" where
  "Policies_InitDefaults p = p\<lparr>Prop := fst (initDefaults (Prop p) PropPolicy), UpReg := fst (initDefaults (UpReg p) UpRegPolicy),
     DownReg := fst (initDefaults (DownReg p) DownRegPolicy)\<rparr>"

definition Policies_Validate :: "policies \<Rightarrow> unit res" where
  "Policies_Validate p =
     (if PolType (Prop p) \<noteq> PropPolicy then Inl (Err ''Invalid policy type'')
      else if PolType (UpReg p) \<noteq> UpRegPolicy then Inl (Err ''Invalid policy type'')
      else if PolType (DownReg p) \<noteq> DownRegPolicy then Inl (Err ''Invalid policy type'')
      else Inr ())"

definition CorePolicies_InitDefaults :: "core_policies \<Rightarrow> core_policies" where
  "CorePolicies_InitDefaults p = p\<lparr>CProp := fst (initDefaults (CProp p) PropPolicy),
     CoreReg := fst (initDefaults (CoreReg p) CoreRegPolicy)\<rparr>"

definition CorePolicies_Validate :: "core_policies \<Rightarrow> unit res" where
  "CorePolicies_Validate p =
     (if PolType (CProp p) \<noteq> PropPolicy then Inl (Err ''Invalid policy type'')
      else if PolType (CoreReg p) \<noteq> CoreRegPolicy then Inl (Err ''Invalid policy type'')
      else Inr ())"

fun blacklisted :: "u64 list \<Rightarrow> u16 list \<Rightarrow> u64 list \<Rightarrow> unit res" where
  "blacklisted asBlackList isdBlackList [] = Inr ()"
| "blacklisted asBlackList isdBlackList (ia # hops) =
     (if IA_AS ia \<in> set asBlackList then Inl (Err ''contains blocked AS'')
      else if IA_ISD ia \<in> set isdBlackList then Inl (Err ''contains blocked ISD'')
      else blacklisted asBlackList isdBlackList hops)"

definition Filter_Apply :: "bfilter \<Rightarrow> beacon \<Rightarrow> unit res" where
  "Filter_Apply f b =
     rbind (beacon_entries b) (\<lambda>es.
     if int (length es) > MaxHopsLength f then Inl (Err ''MaxHopsLength exceeded'')
     else rbind (buildHops b) (\<lambda>hops. case AllowIsdLoop f of
       None \<Rightarrow> Inl (Panic ''nil pointer dereference'')
     | Some allow \<Rightarrow> rbind (filterLoops hops allow) (\<lambda>_. blacklisted (AsBlackList f) (IsdBlackList f) hops)))"

text \<open>Whether a filter lets a beacon pass; a panic is passed on.\<close>

definition passes :: "bfilter \<Rightarrow> beacon \<Rightarrow> bool res" where
  "passes f b = (case Filter_Apply f b of Inr _ \<Rightarrow> Inr True | Inl (Panic s) \<Rightarrow> Inl (Panic s) | Inl _ \<Rightarrow> Inr False)"

definition Policies_Filter :: "policies \<Rightarrow> beacon \<Rightarrow> unit res" where
  "Policies_Filter p b =
     rbind (passes (PolFilter (Prop p)) b) (\<lambda>prop.
     rbind (passes (PolFilter (UpReg p)) b) (\<lambda>up.
     rbind (passes (PolFilter (DownReg p)) b) (\<lambda>down.
     if \<not> prop \<and> \<not> up \<and> \<not> down then Inl (Err ''Filtered by all policies'') else Inr ())))"

definition CorePolicies_Filter :: "core_policies \<Rightarrow> beacon \<Rightarrow> unit res" where
  "CorePolicies_Filter p b =
     rbind (passes (PolFilter (CProp p)) b) (\<lambda>prop.
     rbind (passes (PolFilter (CoreReg p)) b) (\<lambda>core.
     if \<not> prop \<and> \<not> core then Inl (Err ''Filtered by all policies'') else Inr ()))"

section \<open>Usages (db.go)\<close>

definition UsageUpReg :: int where "UsageUpReg = 1"
definition UsageDownReg :: int where "UsageDownReg = 2"
definition UsageCoreReg :: int where "UsageCoreReg = 4"
definition UsageProp :: int where "UsageProp = 8"

definition UsageFromPolicyType :: "string \<Rightarrow> int res" where
  "UsageFromPolicyType policyType =
     (if policyType = UpRegPolicy then Inr UsageUpReg
      else if policyType = DownRegPolicy then Inr UsageDownReg
      else if policyType = CoreRegPolicy then Inr UsageCoreReg
      else if policyType = PropPolicy then Inr UsageProp
      else Inl (Panic ''Invalid policyType''))"

definition Usage_None :: "int \<Rightarrow> bool" where
  "Usage_None u \<longleftrightarrow> u AND 15 = 0"

definition Policies_Usage :: "policies \<Rightarrow> beacon \<Rightarrow> int res" where
  "Policies_Usage p b =
     rbind (passes (PolFilter (Prop p)) b) (\<lambda>prop.
     rbind (passes (PolFilter (UpReg p)) b) (\<lambda>up.
     rbind (passes (PolFilter (DownReg p)) b) (\<lambda>down.
     Inr ((if prop then UsageProp else 0) OR (if up then UsageUpReg else 0) OR (if down then UsageDownReg else 0)))))"

definition CorePolicies_Usage :: "core_policies \<Rightarrow> beacon \<Rightarrow> int res" where
  "CorePolicies_Usage p b =
     rbind (passes (PolFilter (CProp p)) b) (\<lambda>prop.
     rbind (passes (PolFilter (CoreReg p)) b) (\<lambda>core.
     Inr ((if prop then UsageProp else 0) OR (if core then UsageCoreReg else 0))))"

section \<open>Selection (selection\_algo.go)\<close>

definition MaxUint16_int :: int where "MaxUint16_int = 65535"

text \<open>The state of the loop: the most diverse beacon so far, its length and its diversity.\<close>

fun most_diverse :: "beacon \<Rightarrow> beacon list \<Rightarrow> beacon \<times> int \<times> int \<Rightarrow> (beacon \<times> int \<times> int) res" where
  "most_diverse best [] st = Inr st"
| "most_diverse best (b # bs) (diverse, minLen, maxDiversity) = (let diversity = int (Diversity best b) in
     rbind (beacon_entries b) (\<lambda>es. let l = int (length es) in
     most_diverse best bs (if diversity > maxDiversity \<or> diversity = maxDiversity \<and> minLen > l
       then (b, l, diversity) else (diverse, minLen, maxDiversity))))"

definition beacon_zero :: beacon where
  "beacon_zero = \<lparr>BSegment = None, InIfId = 0\<rparr>"

definition selectMostDiverse :: "beacon list \<Rightarrow> beacon \<Rightarrow> (beacon \<times> int) res" where
  "selectMostDiverse beacons best =
     (if beacons = [] then Inr (beacon_zero, -1)
      else rbind (most_diverse best beacons (beacon_zero, MaxUint16_int, -1)) (\<lambda>(diverse, _, maxDiversity).
        Inr (diverse, maxDiversity)))"

definition SelectBeacons :: "beacon list \<Rightarrow> int \<Rightarrow> beacon list res" where
  "SelectBeacons beacons resultSize =
     (if int (length beacons) \<le> resultSize then Inr beacons
      else if resultSize - 1 < 0 then Inl (Panic ''makeslice: len out of range'')
      else let k = nat (resultSize - 1); result = take k beacons in
        case result of
          [] \<Rightarrow> Inl (Panic ''index out of range'')
        | best # _ \<Rightarrow>
            rbind (selectMostDiverse result best) (\<lambda>(_, diversity).
            rbind (selectMostDiverse (drop k beacons) best) (\<lambda>(mostDiverseRest, diversityRest).
            Inr (result @ [if diversityRest > diversity then mostDiverseRest else beacons ! k]))))"

section \<open>Stores (store.go)\<close>

record 'd beacon_db =
  CandidateBeacons :: "'d \<Rightarrow> int \<Rightarrow> int \<Rightarrow> u64 \<Rightarrow> beacon list res"
  BeaconSources :: "'d \<Rightarrow> u64 list res"
  InsertBeacon :: "'d \<Rightarrow> beacon \<Rightarrow> int \<Rightarrow> 'd \<times> (int \<times> int \<times> int) res"

definition NewBeaconStore :: "policies \<Rightarrow> policies res" where
  "NewBeaconStore p = (let p = Policies_InitDefaults p in rbind (Policies_Validate p) (\<lambda>_. Inr p))"

definition NewCoreBeaconStore :: "core_policies \<Rightarrow> core_policies res" where
  "NewCoreBeaconStore p = (let p = CorePolicies_InitDefaults p in rbind (CorePolicies_Validate p) (\<lambda>_. Inr p))"

definition Store_getBeacons :: "'d beacon_db \<Rightarrow> 'd \<Rightarrow> policy \<Rightarrow> beacon list res" where
  "Store_getBeacons ops d pol =
     rbind (UsageFromPolicyType (PolType pol)) (\<lambda>usage.
     rbind (CandidateBeacons ops d (CandidateSetSize pol) usage 0) (\<lambda>beacons.
     SelectBeacons beacons (BestSetSize pol)))"

datatype seg_type = TypeUp | TypeDown | TypeCore | TypeOther int

definition Store_SegmentsToRegister :: "'d beacon_db \<Rightarrow> 'd \<Rightarrow> policies \<Rightarrow> seg_type \<Rightarrow> beacon list res" where
  "Store_SegmentsToRegister ops d p segType = (case segType of
       TypeDown \<Rightarrow> Store_getBeacons ops d (DownReg p)
     | TypeUp \<Rightarrow> Store_getBeacons ops d (UpReg p)
     | _ \<Rightarrow> Inl (Err ''Unsupported segment type''))"

definition Store_BeaconsToPropagate :: "'d beacon_db \<Rightarrow> 'd \<Rightarrow> policies \<Rightarrow> beacon list res" where
  "Store_BeaconsToPropagate ops d p = Store_getBeacons ops d (Prop p)"

definition Store_MaxExpTime :: "policies \<Rightarrow> string \<Rightarrow> u8 res" where
  "Store_MaxExpTime p policyType = (let deref = (\<lambda>e. case e of None \<Rightarrow> Inl (Panic ''nil pointer dereference'') | Some x \<Rightarrow> Inr x) in
     if policyType = UpRegPolicy then deref (PolMaxExpTime (UpReg p))
     else if policyType = DownRegPolicy then deref (PolMaxExpTime (DownReg p))
     else if policyType = PropPolicy then deref (PolMaxExpTime (Prop p))
     else Inr DefaultMaxExpTime)"

text \<open>In a core AS the beacons of every origin are selected on their own; an origin whose beacons cannot be read is skipped.\<close>

fun core_beacons :: "'d beacon_db \<Rightarrow> 'd \<Rightarrow> policy \<Rightarrow> int \<Rightarrow> u64 list \<Rightarrow> beacon list res" where
  "core_beacons ops d pol usage [] = Inr []"
| "core_beacons ops d pol usage (src # srcs) = (case CandidateBeacons ops d (CandidateSetSize pol) usage src of
       Inl (Panic s) \<Rightarrow> Inl (Panic s)
     | Inl _ \<Rightarrow> core_beacons ops d pol usage srcs
     | Inr candidates \<Rightarrow>
         rbind (SelectBeacons candidates (BestSetSize pol)) (\<lambda>sel.
         rbind (core_beacons ops d pol usage srcs) (\<lambda>rest. Inr (sel @ rest))))"

definition CoreStore_getBeacons :: "'d beacon_db \<Rightarrow> 'd \<Rightarrow> policy \<Rightarrow> beacon list res" where
  "CoreStore_getBeacons ops d pol =
     rbind (BeaconSources ops d) (\<lambda>srcs. if srcs = [] then Inr [] else
     rbind (UsageFromPolicyType (PolType pol)) (\<lambda>usage. core_beacons ops d pol usage srcs))"

definition CoreStore_SegmentsToRegister :: "'d beacon_db \<Rightarrow> 'd \<Rightarrow> core_policies \<Rightarrow> seg_type \<Rightarrow> beacon list res" where
  "CoreStore_SegmentsToRegister ops d p segType =
     (if segType \<noteq> TypeCore then Inl (Err ''Unsupported segment type'') else CoreStore_getBeacons ops d (CoreReg p))"

definition CoreStore_BeaconsToPropagate :: "'d beacon_db \<Rightarrow> 'd \<Rightarrow> core_policies \<Rightarrow> beacon list res" where
  "CoreStore_BeaconsToPropagate ops d p = CoreStore_getBeacons ops d (CProp p)"

definition CoreStore_MaxExpTime :: "core_policies \<Rightarrow> string \<Rightarrow> u8 res" where
  "CoreStore_MaxExpTime p policyType = (let deref = (\<lambda>e. case e of None \<Rightarrow> Inl (Panic ''nil pointer dereference'') | Some x \<Rightarrow> Inr x) in
     if policyType = CoreRegPolicy then deref (PolMaxExpTime (CoreReg p))
     else if policyType = PropPolicy then deref (PolMaxExpTime (CProp p))
     else Inr DefaultMaxExpTime)"

text \<open>The operations both stores share; \<open>filt\<close> and \<open>usg\<close> are those of the policies.\<close>

definition PreFilter :: "(beacon \<Rightarrow> unit res) \<Rightarrow> beacon \<Rightarrow> unit res" where
  "PreFilter filt b = filt b"

definition Store_InsertBeacon ::
  "'d beacon_db \<Rightarrow> (beacon \<Rightarrow> int res) \<Rightarrow> 'd \<Rightarrow> beacon \<Rightarrow> 'd \<times> (int \<times> int \<times> int) res" where
  "Store_InsertBeacon ops usg d b = (case usg b of
       Inl e \<Rightarrow> (d, Inl e)
     | Inr usage \<Rightarrow> if Usage_None usage then (d, Inr (0, 0, 1)) else InsertBeacon ops d b usage)"

section \<open>What the loop filter finds\<close>

lemma as_loop_iff: "0 \<notin> set hops \<Longrightarrow> as_loop seen hops = 0 \<longleftrightarrow> distinct hops \<and> set hops \<inter> set seen = {}"
  by (induction hops arbitrary: seen) auto

lemma isd_loop_iff:
  "0 \<notin> IA_ISD ` set hops \<Longrightarrow> isd_loop seen lst hops = 0 \<longleftrightarrow>
   (let r = remdups_adj (dropWhile (\<lambda>isd. isd = lst) (map IA_ISD hops)) in distinct r \<and> set r \<inter> set seen = {})"
  by (induction hops arbitrary: seen lst) (auto simp: remdups_adj_Cons' Let_def simp del: remdups_adj_set)

lemma dropWhile_absent: "x \<notin> set xs \<Longrightarrow> dropWhile (\<lambda>y. y = x) xs = xs"
  by (cases xs) auto

lemma filterLoops_iff:
  assumes "0 \<notin> set hops" "0 \<notin> IA_ISD ` set hops"
  shows "filterLoops hops allow = Inr () \<longleftrightarrow> distinct hops \<and> (allow \<or> distinct (remdups_adj (map IA_ISD hops)))"
  using assms as_loop_iff [OF assms(1), of "[]"] isd_loop_iff [OF assms(2), of "[]" 0]
    dropWhile_absent [of 0 "map IA_ISD hops"]
  by (auto simp: filterLoops_def filterAsLoop_def filterIsdLoop_def IA_IsZero_def)

section \<open>Selection\<close>

lemma most_diverse_ok:
  assumes "list_all (\<lambda>b. BSegment b \<noteq> None) bs"
  shows "\<exists>d l m. most_diverse best bs st = Inr (d, l, m) \<and> snd (snd st) \<le> m \<and>
    (\<forall>b\<in>set bs. int (Diversity best b) \<le> m) \<and>
    (d = fst st \<and> m = snd (snd st) \<or> d \<in> set bs \<and> m = int (Diversity best d))"
  using assms
proof (induction bs arbitrary: st)
  case Nil
  then show ?case by (cases st) simp
next
  case (Cons b bs)
  obtain d0 l0 m0 where st: "st = (d0, l0, m0)" by (cases st)
  obtain s where s: "BSegment b = Some s" using Cons.prems by auto
  define st' where "st' = (if int (Diversity best b) > m0 \<or> int (Diversity best b) = m0 \<and> l0 > int (length (ASEntries s))
    then (b, int (length (ASEntries s)), int (Diversity best b)) else (d0, l0, m0))"
  have e: "most_diverse best (b # bs) st = most_diverse best bs st'"
    by (simp add: st s beacon_entries_def st'_def Let_def)
  from Cons.IH [of st'] Cons.prems obtain d l m where r: "most_diverse best bs st' = Inr (d, l, m)" "snd (snd st') \<le> m"
    "\<forall>b\<in>set bs. int (Diversity best b) \<le> m" "d = fst st' \<and> m = snd (snd st') \<or> d \<in> set bs \<and> m = int (Diversity best d)"
    by auto
  have "int (Diversity best b) \<le> snd (snd st')" "m0 \<le> snd (snd st')"
    "fst st' = b \<and> snd (snd st') = int (Diversity best b) \<or> fst st' = d0 \<and> snd (snd st') = m0"
    by (auto simp: st'_def)
  moreover have "fst st = d0" "snd (snd st) = m0" by (simp_all add: st)
  ultimately show ?case unfolding e using r
    by (intro exI [of _ d] exI [of _ l] exI [of _ m]) auto
qed

lemma selectMostDiverse_ok:
  assumes "list_all (\<lambda>b. BSegment b \<noteq> None) bs" "bs \<noteq> []"
  obtains d m where "selectMostDiverse bs best = Inr (d, m)" "d \<in> set bs" "m = int (Diversity best d)"
    "\<forall>b\<in>set bs. int (Diversity best b) \<le> m"
proof -
  from most_diverse_ok [OF assms(1), of best "(beacon_zero, MaxUint16_int, -1)"] obtain d l m where
    r: "most_diverse best bs (beacon_zero, MaxUint16_int, -1) = Inr (d, l, m)" "\<forall>b\<in>set bs. int (Diversity best b) \<le> m"
    "d = beacon_zero \<and> m = -1 \<or> d \<in> set bs \<and> m = int (Diversity best d)" by auto
  obtain b where "b \<in> set bs" using assms(2) by (cases bs) auto
  with r(2) have "0 \<le> m" by (metis of_nat_0_le_iff order_trans)
  with r assms(2) that show ?thesis by (auto simp: selectMostDiverse_def)
qed

text \<open>The best beacons are the first ones of the list, which is sorted by length, but for the last place: it goes to a beacon
  of the rest that has more links the best one lacks than all selected ones have, when there is one.\<close>

lemma SelectBeacons_ok:
  assumes "list_all (\<lambda>b. BSegment b \<noteq> None) bs" "2 \<le> n" "n < length bs"
  shows "\<exists>b. SelectBeacons bs (int n) = Inr (take (n - 1) bs @ [b]) \<and> b \<in> set (drop (n - 1) bs) \<and>
    (let d = Diversity (hd bs) in
     if \<exists>c\<in>set (drop (n - 1) bs). \<forall>a\<in>set (take (n - 1) bs). d a < d c
     then \<forall>c\<in>set (drop (n - 1) bs). d c \<le> d b else b = bs ! (n - 1))"
proof -
  define k where "k = n - 1"
  have k: "nat (int n - 1) = k" "0 < k" "k < length bs" "\<not> int n - 1 < 0" "\<not> int (length bs) \<le> int n"
    using assms(2,3) by (auto simp: k_def)
  obtain best tl where t: "take k bs = best # tl" using k by (cases bs; cases k) auto
  then have best: "hd bs = best" by (cases bs; cases k) auto
  have "list_all (\<lambda>b. BSegment b \<noteq> None) (take k bs)" "list_all (\<lambda>b. BSegment b \<noteq> None) (drop k bs)"
    using assms(1) by (auto simp: list_all_iff dest: in_set_takeD in_set_dropD)
  moreover have "take k bs \<noteq> []" "drop k bs \<noteq> []" using k by auto
  ultimately obtain d1 m1 d2 m2 where
    s1: "selectMostDiverse (take k bs) best = Inr (d1, m1)" "d1 \<in> set (take k bs)" "m1 = int (Diversity best d1)"
      "\<forall>b\<in>set (take k bs). int (Diversity best b) \<le> m1" and
    s2: "selectMostDiverse (drop k bs) best = Inr (d2, m2)" "d2 \<in> set (drop k bs)" "m2 = int (Diversity best d2)"
      "\<forall>b\<in>set (drop k bs). int (Diversity best b) \<le> m2"
    by (metis selectMostDiverse_ok)
  have sel: "SelectBeacons bs (int n) = Inr (take k bs @ [if m2 > m1 then d2 else bs ! k])"
    using k(4,5) s1(1) s2(1) by (simp add: SelectBeacons_def Let_def k(1) t)
  have "bs ! k \<in> set (drop k bs)" using k(3) by (auto simp: in_set_conv_nth intro!: exI [of _ 0])
  moreover have "(\<exists>c\<in>set (drop k bs). \<forall>a\<in>set (take k bs). Diversity best a < Diversity best c) \<longleftrightarrow> m1 < m2"
  proof
    assume "\<exists>c\<in>set (drop k bs). \<forall>a\<in>set (take k bs). Diversity best a < Diversity best c"
    then obtain c where "c \<in> set (drop k bs)" "Diversity best d1 < Diversity best c" using s1(2) by blast
    then show "m1 < m2" using s1(3) s2(4) by force
  next
    assume "m1 < m2"
    then have "\<forall>a\<in>set (take k bs). Diversity best a < Diversity best d2" using s1(4) s2(3) by force
    then show "\<exists>c\<in>set (drop k bs). \<forall>a\<in>set (take k bs). Diversity best a < Diversity best c" using s2(2) by blast
  qed
  moreover have "\<forall>c\<in>set (drop k bs). Diversity best c \<le> Diversity best d2" using s2(3,4) by force
  ultimately show ?thesis using sel s2(2) by (auto simp: best k_def Let_def)
qed

section \<open>Filters and usages agree\<close>

lemma Policies_Usage_Filter:
  assumes "Policies_Usage p b = Inr u"
  shows "Usage_None u \<longleftrightarrow> Policies_Filter p b \<noteq> Inr ()"
proof -
  from assms obtain pp up down where "passes (PolFilter (Prop p)) b = Inr pp" "passes (PolFilter (UpReg p)) b = Inr up"
    "passes (PolFilter (DownReg p)) b = Inr down"
    "u = (if pp then UsageProp else 0) OR (if up then UsageUpReg else 0) OR (if down then UsageDownReg else 0)"
    by (auto simp: Policies_Usage_def res_simps)
  then show ?thesis
    by (cases pp; cases up; cases down)
      (simp_all add: Policies_Filter_def Usage_None_def UsageProp_def UsageUpReg_def UsageDownReg_def)
qed

lemma CorePolicies_Usage_Filter:
  assumes "CorePolicies_Usage p b = Inr u"
  shows "Usage_None u \<longleftrightarrow> CorePolicies_Filter p b \<noteq> Inr ()"
proof -
  from assms obtain pp core where "passes (PolFilter (CProp p)) b = Inr pp" "passes (PolFilter (CoreReg p)) b = Inr core"
    "u = (if pp then UsageProp else 0) OR (if core then UsageCoreReg else 0)"
    by (auto simp: CorePolicies_Usage_def res_simps)
  then show ?thesis
    by (cases pp; cases core)
      (simp_all add: CorePolicies_Filter_def Usage_None_def UsageProp_def UsageCoreReg_def)
qed

end
