(* ===== verification/Beaconing.thy ===== *)
theory Beaconing
  imports Beacon_Store Router_Config
begin

unbundle bit_operations_syntax

text \<open>
  Beaconing (go/cs/beaconing) with the interfaces of an AS (go/cs/ifstate): the period of the tasks
  (tick.go), the extension of a beacon by the entry of the local AS (extender.go), origination (originator.go),
  propagation (propagator.go), and the handling of a received beacon (handler.go) with the verification of
  its signatures (go/lib/infra/modules/segverifier). The random segment identifier, the connections to the
  neighbours and the beacon database are arguments. The goroutines of a task work on different beacons and
  interfaces and are run one after the other. An interface is known by its number; internal addresses and the
  static info extension are left out.
\<close>

section \<open>Interfaces (ifstate.go)\<close>

record intf_info =
  IfID :: u16
  IfIA :: u64
  IfLinkType :: link_type
  IfRemoteID :: u16
  IfMTU :: u16

record iface =
  topoInfo :: intf_info
  lastOriginate :: int
  lastPropagate :: int

type_synonym ifaces = "(u16 \<times> iface) list"

text \<open>The zero value of \<open>time.Time\<close>, in nanoseconds since the Unix epoch.\<close>

definition unset_time :: int where "unset_time = - 62135596800 * second_ns"

text \<open>An interface that is kept keeps the remote interface number it has.\<close>

definition updateTopoInfo :: "iface \<Rightarrow> intf_info \<Rightarrow> iface" where
  "updateTopoInfo i info = i\<lparr>topoInfo := info\<lparr>IfRemoteID := IfRemoteID (topoInfo i)\<rparr>\<rparr>"

definition Ifaces_Update :: "ifaces \<Rightarrow> (u16 \<times> intf_info) list \<Rightarrow> ifaces" where
  "Ifaces_Update intfs infos = map (\<lambda>(ifid, info). (ifid, case map_of intfs ifid of
       Some i \<Rightarrow> updateTopoInfo i info
     | None \<Rightarrow> \<lparr>topoInfo = info, lastOriginate = unset_time, lastPropagate = unset_time\<rparr>)) infos"

definition NewInterfaces :: "(u16 \<times> intf_info) list \<Rightarrow> ifaces" where
  "NewInterfaces infos = Ifaces_Update [] infos"

definition Ifaces_Filtered :: "ifaces \<Rightarrow> (iface \<Rightarrow> bool) \<Rightarrow> iface list" where
  "Ifaces_Filtered intfs f = filter f (map snd intfs)"

definition Ifaces_Reset :: "ifaces \<Rightarrow> ifaces" where
  "Ifaces_Reset intfs = map (\<lambda>(k, i). (k, i\<lparr>lastOriginate := unset_time, lastPropagate := unset_time\<rparr>)) intfs"

definition Ifaces_Get :: "ifaces \<Rightarrow> u16 \<Rightarrow> iface option" where
  "Ifaces_Get intfs ifid = map_of intfs ifid"

definition Iface_Activate :: "iface \<Rightarrow> u16 \<Rightarrow> iface" where
  "Iface_Activate i remote = i\<lparr>topoInfo := (topoInfo i)\<lparr>IfRemoteID := remote\<rparr>\<rparr>"

definition Iface_Originate :: "iface \<Rightarrow> int \<Rightarrow> iface" where
  "Iface_Originate i t = i\<lparr>lastOriginate := t\<rparr>"

definition Iface_Propagate :: "iface \<Rightarrow> int \<Rightarrow> iface" where
  "Iface_Propagate i t = i\<lparr>lastPropagate := t\<rparr>"

definition sortedIntfs :: "ifaces \<Rightarrow> link_type \<Rightarrow> u16 list" where
  "sortedIntfs intfs linkType = sort (map fst (filter (\<lambda>(_, i). IfLinkType (topoInfo i) = linkType) intfs))"

section \<open>Periods (tick.go)\<close>

text \<open>The difference of two times is a \<open>time.Duration\<close>, which saturates.\<close>

definition time_Sub :: "int \<Rightarrow> int \<Rightarrow> int" where
  "time_Sub t u = max (- (2 ^ 63)) (min (2 ^ 63 - 1) (t - u))"

record tick =
  tickNow :: int
  tickLast :: int
  tickPeriod :: int

definition NewTick :: "int \<Rightarrow> tick" where
  "NewTick period = \<lparr>tickNow = unset_time, tickLast = unset_time, tickPeriod = period\<rparr>"

definition Tick_SetNow :: "tick \<Rightarrow> int \<Rightarrow> tick" where
  "Tick_SetNow t now = t\<lparr>tickNow := now\<rparr>"

definition Tick_Overdue :: "tick \<Rightarrow> int \<Rightarrow> bool" where
  "Tick_Overdue t timestamp \<longleftrightarrow> time_Sub (tickNow t) timestamp > tickPeriod t"

definition Tick_Passed :: "tick \<Rightarrow> bool" where
  "Tick_Passed t \<longleftrightarrow> time_Sub (tickNow t) (tickLast t) \<ge> tickPeriod t"

definition Tick_UpdateLast :: "tick \<Rightarrow> tick" where
  "Tick_UpdateLast t = (if Tick_Passed t then t\<lparr>tickLast := tickNow t\<rparr> else t)"

section \<open>Extending a beacon (extender.go)\<close>

record extender =
  ExtIA :: u64
  ExtSigner :: signer
  ExtMAC :: "bytes \<Rightarrow> bytes"
  ExtIntfs :: ifaces
  ExtMTU :: u16
  ExtMaxExpTime :: u8
  ExtEPIC :: bool

definition extractBeta :: "path_segment \<Rightarrow> u16" where
  "extractBeta pseg = foldl (\<lambda>beta entry. beta XOR Uint16 (slice 0 2 (SMAC (EntryHop (HopEntry entry)))))
     (SegmentID (SInfo pseg)) (ASEntries pseg)"

definition createHopF :: "extender \<Rightarrow> u16 \<Rightarrow> u16 \<Rightarrow> int \<Rightarrow> u16 \<Rightarrow> seg_hop \<times> bytes" where
  "createHopF s ingress egress ts beta = (let
     expTime = ExtMaxExpTime s;
     input = MACInput beta (TimeToSecs ts) expTime ingress egress (replicate MACBufferSize 0);
     fullMAC = ExtMAC s input
   in (\<lparr>SExpTime = expTime, SConsIngress = ingress, SConsEgress = egress, SMAC = slice 0 MacLen fullMAC\<rparr>, drop MacLen fullMAC))"

definition remoteIA :: "extender \<Rightarrow> u16 \<Rightarrow> u64 res" where
  "remoteIA s ifid =
     (if ifid = 0 then Inr 0
      else case Ifaces_Get (ExtIntfs s) ifid of
        None \<Rightarrow> Inl (Err ''interface not found'')
      | Some intf \<Rightarrow>
          if IsWildcard (IfIA (topoInfo intf)) then Inl (Err ''remote is wildcard'') else Inr (IfIA (topoInfo intf)))"

definition remoteMTU :: "extender \<Rightarrow> u16 \<Rightarrow> u16 res" where
  "remoteMTU s ifid =
     (if ifid = 0 then Inr 0
      else case Ifaces_Get (ExtIntfs s) ifid of
        None \<Rightarrow> Inl (Err ''interface not found'')
      | Some intf \<Rightarrow> Inr (IfMTU (topoInfo intf)))"

definition remoteInfo :: "extender \<Rightarrow> u16 \<Rightarrow> (u64 \<times> u16 \<times> u16) res" where
  "remoteInfo s ifid =
     (if ifid = 0 then Inr (0, 0, 0)
      else case Ifaces_Get (ExtIntfs s) ifid of
        None \<Rightarrow> Inl (Err ''interface not found'')
      | Some intf \<Rightarrow>
          if IfRemoteID (topoInfo intf) = 0 then Inl (Err ''remote interface ID is not set'')
          else if IsWildcard (IfIA (topoInfo intf)) then Inl (Err ''remote ISD-AS is wildcard'')
          else Inr (IfIA (topoInfo intf), IfRemoteID (topoInfo intf), IfMTU (topoInfo intf)))"

definition createHopEntry :: "extender \<Rightarrow> u16 \<Rightarrow> u16 \<Rightarrow> int \<Rightarrow> u16 \<Rightarrow> (hop_entry \<times> bytes) res" where
  "createHopEntry s ingress egress ts beta =
     rbind (wrap_err ''checking remote ingress interface (mtu)'' (remoteMTU s ingress)) (\<lambda>remoteInMTU.
     let (hopF, epicMac) = createHopF s ingress egress ts beta in
     Inr (\<lparr>EntryHop = hopF, IngressMTU = uint remoteInMTU\<rparr>, epicMac))"

definition createPeerEntry :: "extender \<Rightarrow> u16 \<Rightarrow> u16 \<Rightarrow> int \<Rightarrow> u16 \<Rightarrow> (peer_entry \<times> bytes) res" where
  "createPeerEntry s ingress egress ts beta =
     rbind (wrap_err ''checking remote ingress interface'' (remoteInfo s ingress)) (\<lambda>(remoteInIA, remoteInIfID, remoteInMTU).
     let (hopF, epicMac) = createHopF s ingress egress ts beta in
     Inr (\<lparr>PeerHop = hopF, PeerIA = remoteInIA, PeerInterface = remoteInIfID, PeerMTU = uint remoteInMTU\<rparr>, epicMac))"

text \<open>A peer interface that gives an error is left out.\<close>

fun createPeerEntries :: "extender \<Rightarrow> u16 \<Rightarrow> u16 list \<Rightarrow> int \<Rightarrow> u16 \<Rightarrow> (peer_entry \<times> bytes) list" where
  "createPeerEntries s egress [] ts beta = []"
| "createPeerEntries s egress (peer # peers) ts beta = (case createPeerEntry s peer egress ts beta of
       Inl _ \<Rightarrow> createPeerEntries s egress peers ts beta
     | Inr p \<Rightarrow> p # createPeerEntries s egress peers ts beta)"

text \<open>The EPIC authenticators of an entry and their digest.\<close>

definition addEpic :: "(bytes \<Rightarrow> bytes) \<Rightarrow> extender \<Rightarrow> bytes \<Rightarrow> bytes list \<Rightarrow> as_entry \<Rightarrow> as_entry res" where
  "addEpic sha256 s epicHopMac epicPeerMacs asEntry =
     (if ExtEPIC s then let e = Some \<lparr>AuthHopEntry = epicHopMac, AuthPeerEntries = epicPeerMacs\<rparr> in
        rbind (DigestInput e) (\<lambda>input.
        Inr (asEntry\<lparr>EpicDetached := e, Extensions := (Extensions asEntry)\<lparr>Digests := Some (calculateDigest sha256 input)\<rparr>\<rparr>))
      else Inr asEntry)"

definition newASEntry :: "(bytes \<Rightarrow> bytes) \<Rightarrow> extender \<Rightarrow> path_segment \<Rightarrow> u16 \<Rightarrow> u16 \<Rightarrow> u16 list \<Rightarrow> as_entry res" where
  "newASEntry sha256 s pseg ingress egress peers = (let
     firstHop = MaxIdx pseg < 0; ts = InfoTimestamp (SInfo pseg) in
     if ExtMTU s = 0 then Inl (Err ''MTU not set'')
     else if ingress = 0 \<and> \<not> firstHop then Inl (Err ''ingress must only be zero in first hop'')
     else if ingress \<noteq> 0 \<and> firstHop then Inl (Err ''ingress must be zero in first hop'')
     else if ingress = 0 \<and> egress = 0 then Inl (Err ''ingress and egress must not be both 0'')
     else rbind (wrap_err ''creating hop entry'' (createHopEntry s ingress egress ts (extractBeta pseg))) (\<lambda>(hopEntry, epicHopMac). let
       peerBeta = extractBeta pseg XOR Uint16 (slice 0 2 (SMAC (EntryHop hopEntry)));
       peerEntries = createPeerEntries s egress peers ts peerBeta in
       rbind (remoteIA s egress) (\<lambda>nxt.
       addEpic sha256 s epicHopMac (map snd peerEntries)
         \<lparr>Signed = None, ASLocal = ExtIA s, ASNext = nxt, HopEntry = hopEntry, PeerEntries = map fst peerEntries,
          ASMTU = uint (ExtMTU s), Extensions = \<lparr>IsHidden = False, Digests = None\<rparr>, EpicDetached = None\<rparr>)))"

text \<open>The segment is changed in place, also when its validation fails afterwards.\<close>

definition Extend ::
  "proto \<Rightarrow> (bytes \<Rightarrow> bytes) \<Rightarrow> extender \<Rightarrow> path_segment \<Rightarrow> u16 \<Rightarrow> u16 \<Rightarrow> u16 list \<Rightarrow> path_segment \<times> unit res" where
  "Extend c sha256 s pseg ingress egress peers = (case newASEntry sha256 s pseg ingress egress peers of
       Inl e \<Rightarrow> (pseg, Inl e)
     | Inr asEntry \<Rightarrow> (case AddASEntry c (ExtSigner s) pseg asEntry of
         Inl e \<Rightarrow> (pseg, Inl e)
       | Inr pseg' \<Rightarrow> (pseg', Seg_Validate sha256 pseg' (egress \<noteq> 0))))"

section \<open>Origination (originator.go)\<close>

definition createBeacon :: "proto \<Rightarrow> (bytes \<Rightarrow> bytes) \<Rightarrow> extender \<Rightarrow> u16 \<Rightarrow> int \<Rightarrow> iface \<Rightarrow> path_segment res" where
  "createBeacon c sha256 ext segID timestamp intf =
     rbind (wrap_err ''creating segment'' (CreateSegment c timestamp segID)) (\<lambda>beacon.
     case Extend c sha256 ext beacon 0 (IfID (topoInfo intf)) [] of
       (_, Inl e) \<Rightarrow> Inl (WrapErr ''extending segment'' e)
     | (beacon, Inr _) \<Rightarrow> Inr beacon)"

text \<open>The connection to the neighbour, \<open>NewSender\<close> and \<open>Send\<close>.\<close>

record sender =
  NewSender :: "u64 \<Rightarrow> u16 \<Rightarrow> unit res"
  SendBeacon :: "u16 \<Rightarrow> path_segment \<Rightarrow> unit res"

text \<open>The changed interface, the beacon that was sent, and the error.\<close>

definition originateBeacon ::
  "proto \<Rightarrow> (bytes \<Rightarrow> bytes) \<Rightarrow> extender \<Rightarrow> sender \<Rightarrow> tick \<Rightarrow> u16 \<Rightarrow> iface \<Rightarrow> iface \<times> path_segment option \<times> unit res" where
  "originateBeacon c sha256 ext net t segID intf = (case createBeacon c sha256 ext segID (tickNow t) intf of
       Inl e \<Rightarrow> (intf, None, Inl (WrapErr ''creating beacon'' e))
     | Inr beacon \<Rightarrow> (case NewSender net (IfIA (topoInfo intf)) (IfID (topoInfo intf)) of
         Inl e \<Rightarrow> (intf, None, Inl (WrapErr ''getting beacon sender'' e))
       | Inr _ \<Rightarrow> (case SendBeacon net (IfID (topoInfo intf)) beacon of
           Inl e \<Rightarrow> (intf, None, Inl (WrapErr ''sending beacon'' e))
         | Inr _ \<Rightarrow> (Iface_Originate intf (tickNow t), Some beacon, Inr ()))))"

definition needBeacon :: "tick \<Rightarrow> iface list \<Rightarrow> iface list" where
  "needBeacon t active = (if Tick_Passed t then active else filter (\<lambda>intf. Tick_Overdue t (lastOriginate intf)) active)"

definition originateBeacons ::
  "proto \<Rightarrow> (bytes \<Rightarrow> bytes) \<Rightarrow> extender \<Rightarrow> sender \<Rightarrow> tick \<Rightarrow> (u16 \<Rightarrow> u16) \<Rightarrow> iface list \<Rightarrow>
   (iface \<times> path_segment option \<times> unit res) list" where
  "originateBeacons c sha256 ext net t rand intfs =
     map (\<lambda>intf. originateBeacon c sha256 ext net t (rand (IfID (topoInfo intf))) intf)
       (sort_key (\<lambda>intf. IfID (topoInfo intf)) (needBeacon t intfs))"

section \<open>Propagation (propagator.go)\<close>

definition needsBeacons :: "tick \<Rightarrow> iface list \<Rightarrow> iface list" where
  "needsBeacons t intfs = (let intfs = sort_key (\<lambda>intf. IfID (topoInfo intf)) intfs in
     if Tick_Passed t then intfs else filter (\<lambda>intf. Tick_Overdue t (lastPropagate intf)) intfs)"

definition shouldIgnore :: "bool \<Rightarrow> beacon \<Rightarrow> iface \<Rightarrow> bool res" where
  "shouldIgnore allowIsdLoop b intf = (case FilterLoop b (IfIA (topoInfo intf)) allowIsdLoop of
       Inr _ \<Rightarrow> Inr False | Inl (Panic s) \<Rightarrow> Inl (Panic s) | Inl _ \<Rightarrow> Inr True)"

fun toPropagate :: "proto \<Rightarrow> (bytes \<Rightarrow> bytes) \<Rightarrow> bool \<Rightarrow> iface \<Rightarrow> beacon list \<Rightarrow> beacon list res" where
  "toPropagate c sha256 allowIsdLoop intf [] = Inr []"
| "toPropagate c sha256 allowIsdLoop intf (b # bs) =
     rbind (shouldIgnore allowIsdLoop b intf) (\<lambda>ignore.
     if ignore then toPropagate c sha256 allowIsdLoop intf bs
     else
       rbind (PathSegmentToPB (BSegment b)) (\<lambda>pb.
       rbind (BeaconFromPB sha256 c pb) (\<lambda>ps.
       rbind (toPropagate c sha256 allowIsdLoop intf bs) (\<lambda>rest.
       Inr (\<lparr>BSegment = Some ps, InIfId = InIfId b\<rparr> # rest)))))"

fun perInterface :: "proto \<Rightarrow> (bytes \<Rightarrow> bytes) \<Rightarrow> bool \<Rightarrow> beacon list \<Rightarrow> iface list \<Rightarrow> (iface \<times> beacon list) list res" where
  "perInterface c sha256 allowIsdLoop beacons [] = Inr []"
| "perInterface c sha256 allowIsdLoop beacons (intf # intfs) =
     rbind (toPropagate c sha256 allowIsdLoop intf beacons) (\<lambda>bs.
     rbind (perInterface c sha256 allowIsdLoop beacons intfs) (\<lambda>r. Inr ((intf, bs) # r)))"

definition beaconsPerInterface ::
  "proto \<Rightarrow> (bytes \<Rightarrow> bytes) \<Rightarrow> bool \<Rightarrow> ifaces \<Rightarrow> beacon list res \<Rightarrow> iface list \<Rightarrow> (iface \<times> beacon list) list res" where
  "beaconsPerInterface c sha256 allowIsdLoop allIntfs provided intfs =
     rbind (wrap_err ''fetching beacons to propagate'' provided) (\<lambda>allBeacons.
     perInterface c sha256 allowIsdLoop (filter (\<lambda>b. Ifaces_Get allIntfs (InIfId b) \<noteq> None) allBeacons) intfs)"

text \<open>One beacon on one interface: the beacon as it was sent, or nothing. The beacons of \<open>toPropagate\<close> have a segment.\<close>

definition propagateOne ::
  "proto \<Rightarrow> (bytes \<Rightarrow> bytes) \<Rightarrow> extender \<Rightarrow> sender \<Rightarrow> u16 \<Rightarrow> u16 list \<Rightarrow> beacon \<Rightarrow> path_segment option" where
  "propagateOne c sha256 ext net egress peers b = (case BSegment b of
       None \<Rightarrow> None
     | Some pseg \<Rightarrow> (case Extend c sha256 ext pseg (InIfId b) egress peers of
         (_, Inl _) \<Rightarrow> None
       | (pseg', Inr _) \<Rightarrow> (case SendBeacon net egress pseg' of Inl _ \<Rightarrow> None | Inr _ \<Rightarrow> Some pseg')))"

definition Propagate ::
  "proto \<Rightarrow> (bytes \<Rightarrow> bytes) \<Rightarrow> extender \<Rightarrow> sender \<Rightarrow> int \<Rightarrow> u16 list \<Rightarrow> iface \<Rightarrow> beacon list \<Rightarrow>
   iface \<times> path_segment list \<times> unit res" where
  "Propagate c sha256 ext net now peers intf beacons = (let egress = IfID (topoInfo intf) in
     case NewSender net (IfIA (topoInfo intf)) egress of
       Inl e \<Rightarrow> (intf, [], Inl (WrapErr ''getting beacon sender'' e))
     | Inr _ \<Rightarrow> let sent = List.map_filter (propagateOne c sha256 ext net egress peers) beacons in
         if sent = [] then (intf, [], Inl (Err ''no beacons propagated''))
         else (Iface_Propagate intf now, sent, Inr ()))"

text \<open>A run of the propagator: for every interface that needs beacons, the interface and what was sent on it.\<close>

definition Propagator_run ::
  "proto \<Rightarrow> (bytes \<Rightarrow> bytes) \<Rightarrow> extender \<Rightarrow> sender \<Rightarrow> bool \<Rightarrow> ifaces \<Rightarrow> tick \<Rightarrow> beacon list res \<Rightarrow> iface list \<Rightarrow>
   (iface \<times> path_segment list \<times> unit res) list res" where
  "Propagator_run c sha256 ext net allowIsdLoop allIntfs t provided propIntfs = (let intfs = needsBeacons t propIntfs in
     if intfs = [] then Inr []
     else let peers = sortedIntfs allIntfs link_type.Peer in
       rbind (beaconsPerInterface c sha256 allowIsdLoop allIntfs provided intfs) (\<lambda>beacons.
       Inr (map (\<lambda>(intf, bs). Propagate c sha256 ext net (tickNow t) peers intf bs) (filter (\<lambda>(_, bs). bs \<noteq> []) beacons))))"

section \<open>Verification and handling (segverifier.go, handler.go)\<close>

text \<open>A verifier is bound to the AS whose entry it checks.\<close>

fun verify_bound :: "(u64 \<Rightarrow> verifier) \<Rightarrow> path_segment \<Rightarrow> nat \<Rightarrow> as_entry list \<Rightarrow> unit res" where
  "verify_bound verifierFor segment i [] = Inr ()"
| "verify_bound verifierFor segment i (asEntry # es) =
     rbind (wrap_err ''segment verification error'' (VerifyASEntry (verifierFor (ASLocal asEntry)) segment (int i))) (\<lambda>_.
     verify_bound verifierFor segment (Suc i) es)"

definition VerifySegment :: "(u64 \<Rightarrow> verifier) \<Rightarrow> path_segment \<Rightarrow> unit res" where
  "VerifySegment verifierFor segment = verify_bound verifierFor segment 0 (ASEntries segment)"

definition validateASEntry :: "u64 \<Rightarrow> beacon \<Rightarrow> iface \<Rightarrow> unit res" where
  "validateASEntry ownIA b intf =
     (if IfLinkType (topoInfo intf) \<noteq> Parent \<and> IfLinkType (topoInfo intf) \<noteq> Core
      then Inl (Err ''beacon received on invalid link'')
      else rbind (beacon_entries b) (\<lambda>es.
        if es = [] then Inl (Panic ''index out of range'')
        else let asEntry = last es in
          if \<not> IA_Equal (ASLocal asEntry) (IfIA (topoInfo intf)) then Inl (Err ''invalid upstream ISD-AS'')
          else if \<not> IA_Equal (ASNext asEntry) ownIA
          then Inl (Err ''next ISD-AS of upstream AS entry does not match local ISD-AS'')
          else Inr ()))"

text \<open>\<open>peerPath\<close> is the result of \<open>peer.GetPath\<close>.\<close>

definition verifySegment :: "(u64 \<Rightarrow> verifier) \<Rightarrow> unit res \<Rightarrow> beacon \<Rightarrow> unit res" where
  "verifySegment verifierFor peerPath b =
     rbind peerPath (\<lambda>_. case BSegment b of
       None \<Rightarrow> Inl (Panic ''nil pointer dereference'') | Some seg \<Rightarrow> VerifySegment verifierFor seg)"

definition HandleBeacon ::
  "'d beacon_db \<Rightarrow> (beacon \<Rightarrow> unit res) \<Rightarrow> (beacon \<Rightarrow> int res) \<Rightarrow> (u64 \<Rightarrow> verifier) \<Rightarrow> unit res \<Rightarrow> u64 \<Rightarrow> ifaces \<Rightarrow>
   'd \<Rightarrow> beacon \<Rightarrow> 'd \<times> unit res" where
  "HandleBeacon ops filt usg verifierFor peerPath ownIA intfs d b = (case Ifaces_Get intfs (InIfId b) of
       None \<Rightarrow> (d, Inl (Err ''received beacon on non-existent interface''))
     | Some intf \<Rightarrow> (case PreFilter filt b of
         Inl e \<Rightarrow> (d, Inl e)
       | Inr _ \<Rightarrow> (case validateASEntry ownIA b intf of
           Inl e \<Rightarrow> (d, Inl e)
         | Inr _ \<Rightarrow> (case verifySegment verifierFor peerPath b of
             Inl e \<Rightarrow> (d, Inl (WrapErr ''verifying beacon'' e))
           | Inr _ \<Rightarrow> (case Store_InsertBeacon ops usg d b of
               (d', Inl e) \<Rightarrow> (d', Inl (WrapErr ''inserting beacon'' e))
             | (d', Inr _) \<Rightarrow> (d', Inr ()))))))"

section \<open>Authentic segments\<close>

text \<open>The accumulator that the MAC of entry \<open>i\<close> is computed with.\<close>

definition seg_beta :: "path_segment \<Rightarrow> nat \<Rightarrow> u16" where
  "seg_beta ps i = foldl (\<lambda>beta entry. beta XOR Uint16 (slice 0 2 (SMAC (EntryHop (HopEntry entry)))))
     (SegmentID (SInfo ps)) (take i (ASEntries ps))"

definition hop_authentic :: "(bytes \<Rightarrow> bytes) \<Rightarrow> int \<Rightarrow> u16 \<Rightarrow> seg_hop \<Rightarrow> bool" where
  "hop_authentic mac ts beta h \<longleftrightarrow> SMAC h = slice 0 MacLen (mac (MACInput beta (TimeToSecs ts) (SExpTime h)
     (SConsIngress h) (SConsEgress h) (replicate MACBufferSize 0)))"

text \<open>Every hop field of the segment carries the MAC of the AS it belongs to, under the accumulator of its place.\<close>

definition authentic :: "(u64 \<Rightarrow> bytes \<Rightarrow> bytes) \<Rightarrow> path_segment \<Rightarrow> bool" where
  "authentic K ps \<longleftrightarrow> (\<forall>i<length (ASEntries ps). let e = ASEntries ps ! i; ts = InfoTimestamp (SInfo ps) in
     hop_authentic (K (ASLocal e)) ts (seg_beta ps i) (EntryHop (HopEntry e)) \<and>
     (\<forall>p\<in>set (PeerEntries e). hop_authentic (K (ASLocal e)) ts (seg_beta ps (Suc i)) (PeerHop p)))"

lemma seg_beta_Suc:
  "i < length (ASEntries ps) \<Longrightarrow>
   seg_beta ps (Suc i) = seg_beta ps i XOR Uint16 (slice 0 2 (SMAC (EntryHop (HopEntry (ASEntries ps ! i)))))"
  by (simp add: seg_beta_def take_Suc_conv_app_nth)

lemma extractBeta_eq: "extractBeta ps = seg_beta ps (length (ASEntries ps))"
  by (simp add: extractBeta_def seg_beta_def)

lemma seg_beta_append:
  "i \<le> length (ASEntries ps) \<Longrightarrow> seg_beta (ps\<lparr>ASEntries := ASEntries ps @ es\<rparr>) i = seg_beta ps i"
  by (simp add: seg_beta_def)

text \<open>An AS of the network: its extender uses its key, and the signature it makes holds what was signed.\<close>

definition as_ok :: "proto \<Rightarrow> (u64 \<Rightarrow> bytes \<Rightarrow> bytes) \<Rightarrow> extender \<Rightarrow> bool" where
  "as_ok c K s \<longleftrightarrow> ExtMAC s = K (ExtIA s) \<and> \<not> IsWildcard (ExtIA s) \<and>
     (\<forall>b. length (ExtMAC s b) = 16) \<and>
     (\<forall>b ad m. ExtSigner s b ad = Inr m \<longrightarrow> ExtractUnverifiedBody c (Some m) = Inr b)"

text \<open>The entry a run of the extender adds.\<close>

lemma createHopF_ok:
  assumes "\<forall>b. length (ExtMAC s b) = 16" "createHopF s ingress egress ts beta = (h, epic)"
  shows "hop_authentic (ExtMAC s) ts beta h" "seg_hop_wf h" "length epic = AuthLen"
    "SConsIngress h = ingress" "SConsEgress h = egress"
  using assms by (auto simp: createHopF_def hop_authentic_def seg_hop_wf_def Let_def slice_def MacLen_def AuthLen_def)

lemma u16_mtu [simp]: "mtu_wf (uint (m :: u16))"
  using uint_lt2p [of m] by (simp add: mtu_wf_def)

lemma createPeerEntries_ok:
  assumes "\<forall>b. length (ExtMAC s b) = 16" "0 \<notin> set peers" "(p, epic) \<in> set (createPeerEntries s egress peers ts beta)"
  shows "hop_authentic (ExtMAC s) ts beta (PeerHop p)" "peer_sendable p" "length epic = AuthLen"
    "SConsEgress (PeerHop p) = egress"
proof -
  have "\<exists>ing\<in>set peers. createPeerEntry s ing egress ts beta = Inr (p, epic)"
    using assms(3) by (induction peers) (auto split: sum.splits)
  then obtain ing where i: "ing \<in> set peers" "createPeerEntry s ing egress ts beta = Inr (p, epic)" by blast
  obtain h e where h: "createHopF s ing egress ts beta = (h, e)" by fastforce
  from i h obtain ia rid mtu where r: "remoteInfo s ing = Inr (ia, rid, mtu)"
    "p = \<lparr>PeerHop = h, PeerIA = ia, PeerInterface = rid, PeerMTU = uint mtu\<rparr>" "epic = e"
    by (auto simp: createPeerEntry_def res_simps)
  have "ing \<noteq> 0" using i(1) assms(2) by auto
  then have "\<not> IsWildcard ia" using r(1) by (auto simp: remoteInfo_def split: option.splits if_splits)
  then show "hop_authentic (ExtMAC s) ts beta (PeerHop p)" "peer_sendable p" "length epic = AuthLen"
    "SConsEgress (PeerHop p) = egress"
    using r createHopF_ok [OF assms(1) h] by (simp_all add: peer_sendable_def)
qed

lemma peer_auths_ok: "list_all (\<lambda>p. length p = AuthLen) ps \<Longrightarrow> peer_auths ps = Inr (concat ps)"
  by (induction ps) auto

lemma createHopEntry_ok:
  assumes "\<forall>b. length (ExtMAC s b) = 16" "createHopEntry s ingress egress ts beta = Inr (he, epic)"
  shows "hop_authentic (ExtMAC s) ts beta (EntryHop he)" "seg_hop_wf (EntryHop he)" "length epic = AuthLen"
    "SConsIngress (EntryHop he) = ingress" "SConsEgress (EntryHop he) = egress" "mtu_wf (IngressMTU he)"
proof -
  obtain h e where h: "createHopF s ingress egress ts beta = (h, e)" by fastforce
  with assms(2) obtain m where "he = \<lparr>EntryHop = h, IngressMTU = uint (m :: u16)\<rparr>" "epic = e"
    by (auto simp: createHopEntry_def res_simps)
  then show "hop_authentic (ExtMAC s) ts beta (EntryHop he)" "seg_hop_wf (EntryHop he)" "length epic = AuthLen"
    "SConsIngress (EntryHop he) = ingress" "SConsEgress (EntryHop he) = egress" "mtu_wf (IngressMTU he)"
    using createHopF_ok [OF assms(1) h] by simp_all
qed

text \<open>The EPIC extension leaves the rest of an entry alone and is consistent with its digest.\<close>

lemma addEpic_ok:
  assumes "addEpic sha256 s epic auths e0 = Inr e" "EpicDetached e0 = None" "Digests (Extensions e0) = None"
  shows "ASLocal e = ASLocal e0" "ASNext e = ASNext e0" "HopEntry e = HopEntry e0" "PeerEntries e = PeerEntries e0" "ASMTU e = ASMTU e0"
    "EpicDetached e = None \<and> Digests (Extensions e) = None \<or>
     (\<exists>input. EpicDetached e = Some \<lparr>AuthHopEntry = epic, AuthPeerEntries = auths\<rparr> \<and>
        DigestInput (EpicDetached e) = Inr input \<and> Digests (Extensions e) = Some (calculateDigest sha256 input))"
  using assms by (auto simp: addEpic_def Let_def res_simps split: if_splits)

definition peers_of :: "extender \<Rightarrow> path_segment \<Rightarrow> u16 \<Rightarrow> u16 list \<Rightarrow> hop_entry \<Rightarrow> (peer_entry \<times> bytes) list" where
  "peers_of s ps egress peers he = createPeerEntries s egress peers (InfoTimestamp (SInfo ps))
     (extractBeta ps XOR Uint16 (slice 0 2 (SMAC (EntryHop he))))"

lemma newASEntry_parts:
  assumes "newASEntry sha256 s ps ingress egress peers = Inr e"
  obtains he epic where
    "createHopEntry s ingress egress (InfoTimestamp (SInfo ps)) (extractBeta ps) = Inr (he, epic)"
    "remoteIA s egress = Inr (ASNext e)" "ingress = 0 \<longleftrightarrow> ASEntries ps = []"
    "ASLocal e = ExtIA s" "HopEntry e = he" "PeerEntries e = map fst (peers_of s ps egress peers he)" "ASMTU e = uint (ExtMTU s)"
    "EpicDetached e = None \<and> Digests (Extensions e) = None \<or>
     (\<exists>input. EpicDetached e = Some \<lparr>AuthHopEntry = epic, AuthPeerEntries = map snd (peers_of s ps egress peers he)\<rparr> \<and>
        DigestInput (EpicDetached e) = Inr input \<and> Digests (Extensions e) = Some (calculateDigest sha256 input))"
proof -
  from assms obtain he epic nxt where
    he: "createHopEntry s ingress egress (InfoTimestamp (SInfo ps)) (extractBeta ps) = Inr (he, epic)"
      "remoteIA s egress = Inr nxt" "ingress = 0 \<longleftrightarrow> MaxIdx ps < 0" and
    e: "addEpic sha256 s epic (map snd (peers_of s ps egress peers he))
      \<lparr>Signed = None, ASLocal = ExtIA s, ASNext = nxt, HopEntry = he, PeerEntries = map fst (peers_of s ps egress peers he),
        ASMTU = uint (ExtMTU s), Extensions = \<lparr>IsHidden = False, Digests = None\<rparr>, EpicDetached = None\<rparr> = Inr e"
    by (auto simp: newASEntry_def peers_of_def Let_def res_simps split: if_splits)
  show ?thesis
  proof (rule that [OF he(1)])
    show "ingress = 0 \<longleftrightarrow> ASEntries ps = []" using he(3) by (simp add: MaxIdx_def)
  qed (use addEpic_ok [OF e] he(2) in simp_all)
qed

lemma newASEntry_ok:
  assumes "newASEntry sha256 s ps ingress egress peers = Inr e" "as_ok c K s" "0 \<notin> set peers" "\<forall>b. DigestLength \<le> length (sha256 b)"
  shows "hop_authentic (K (ASLocal e)) (InfoTimestamp (SInfo ps)) (extractBeta ps) (EntryHop (HopEntry e))"
    "p \<in> set (PeerEntries e) \<Longrightarrow> hop_authentic (K (ASLocal e)) (InfoTimestamp (SInfo ps))
       (extractBeta ps XOR Uint16 (slice 0 2 (SMAC (EntryHop (HopEntry e))))) (PeerHop p)"
    "entry_sendable e" "entry_consistent sha256 e" "ASLocal e = ExtIA s" "remoteIA s egress = Inr (ASNext e)"
    "SConsIngress (EntryHop (HopEntry e)) = ingress" "SConsEgress (EntryHop (HopEntry e)) = egress"
    "ingress = 0 \<longleftrightarrow> ASEntries ps = []"
proof -
  from assms(2) have mac: "ExtMAC s = K (ExtIA s)" "\<forall>b. length (ExtMAC s b) = 16" "\<not> IsWildcard (ExtIA s)"
    by (auto simp: as_ok_def)
  from newASEntry_parts [OF assms(1)] obtain he epic where
    he: "createHopEntry s ingress egress (InfoTimestamp (SInfo ps)) (extractBeta ps) = Inr (he, epic)" and
    parts: "remoteIA s egress = Inr (ASNext e)" "ingress = 0 \<longleftrightarrow> ASEntries ps = []"
    "ASLocal e = ExtIA s" "HopEntry e = he" "PeerEntries e = map fst (peers_of s ps egress peers he)" "ASMTU e = uint (ExtMTU s)" and
    ext: "EpicDetached e = None \<and> Digests (Extensions e) = None \<or>
     (\<exists>input. EpicDetached e = Some \<lparr>AuthHopEntry = epic, AuthPeerEntries = map snd (peers_of s ps egress peers he)\<rparr> \<and>
        DigestInput (EpicDetached e) = Inr input \<and> Digests (Extensions e) = Some (calculateDigest sha256 input))"
    by metis
  note hop = createHopEntry_ok [OF mac(2) he]
  have pok: "hop_authentic (ExtMAC s) (InfoTimestamp (SInfo ps)) (extractBeta ps XOR Uint16 (slice 0 2 (SMAC (EntryHop he)))) (PeerHop p)"
    "peer_sendable p" "SConsEgress (PeerHop p) = egress" if "p \<in> fst ` set (peers_of s ps egress peers he)" for p
    using that createPeerEntries_ok [OF mac(2) assms(3)] by (auto simp: peers_of_def)
  have auths: "list_all (\<lambda>p. length p = AuthLen) (map snd (peers_of s ps egress peers he))"
    using createPeerEntries_ok(3) [OF mac(2) assms(3)] by (auto simp: peers_of_def list_all_iff)
  have dl: "length (calculateDigest sha256 b) = DigestLength" "calculateDigest sha256 b \<noteq> []" for b
    using assms(4) by (auto simp: calculateDigest_def slice_def DigestLength_def) (metis le_zero_eq list.size(3) rel_simps(76))
  show "hop_authentic (K (ASLocal e)) (InfoTimestamp (SInfo ps)) (extractBeta ps) (EntryHop (HopEntry e))"
    "ASLocal e = ExtIA s" "remoteIA s egress = Inr (ASNext e)" "ingress = 0 \<longleftrightarrow> ASEntries ps = []"
    "SConsIngress (EntryHop (HopEntry e)) = ingress" "SConsEgress (EntryHop (HopEntry e)) = egress"
    using hop parts by (simp_all add: mac(1) [symmetric])
  show "p \<in> set (PeerEntries e) \<Longrightarrow> hop_authentic (K (ASLocal e)) (InfoTimestamp (SInfo ps))
       (extractBeta ps XOR Uint16 (slice 0 2 (SMAC (EntryHop (HopEntry e))))) (PeerHop p)"
    using pok(1) by (auto simp: parts mac(1) [symmetric])
  show "entry_sendable e"
    using ext hop pok(2) auths mac(3) dl by (auto simp: entry_sendable_def parts list_all_iff)
  show "entry_consistent sha256 e"
    using ext hop pok(3) dl by (auto simp: entry_consistent_def parts)
qed

lemma Extend_cases:
  assumes "Extend c sha256 s ps ingress egress peers = (ps', r)"
  obtains (failed) x where "ps' = ps" "r = Inl x"
    | (added) e m where "newASEntry sha256 s ps ingress egress peers = Inr e"
        "ps' = ps\<lparr>ASEntries := ASEntries ps @ [e\<lparr>Signed := Some m\<rparr>]\<rparr>" "r = Seg_Validate sha256 ps' (egress \<noteq> 0)"
        "\<exists>b ad. MarshalBody c (asEntryBody e) = Inr b \<and> ExtSigner s b ad = Inr m"
proof (cases "newASEntry sha256 s ps ingress egress peers")
  case (Inl x)
  then show ?thesis using assms failed by (auto simp: Extend_def)
next
  case (Inr e)
  show ?thesis
  proof (cases "AddASEntry c (ExtSigner s) ps e")
    case (Inl x)
    then show ?thesis using assms failed Inr by (auto simp: Extend_def)
  next
    case (Inr ps'')
    then obtain b ad m where "MarshalBody c (asEntryBody e) = Inr b" "ExtSigner s b ad = Inr m"
      "ps'' = ps\<lparr>ASEntries := ASEntries ps @ [e\<lparr>Signed := Some m\<rparr>]\<rparr>"
      by (auto simp: AddASEntry_def res_simps)
    then show ?thesis using assms added Inr \<open>newASEntry _ _ _ _ _ _ = Inr e\<close> by (auto simp: Extend_def)
  qed
qed

lemma entry_consistent_signed [simp]: "entry_consistent sha256 (e\<lparr>Signed := m\<rparr>) = entry_consistent sha256 e"
  by (simp add: entry_consistent_def)

lemma entry_sendable_signed [simp]: "entry_sendable (e\<lparr>Signed := m\<rparr>) = entry_sendable e"
  by (simp add: entry_sendable_def)

lemma asEntryBody_signed [simp]: "asEntryBody (e\<lparr>Signed := m\<rparr>) = asEntryBody e"
  by (simp add: asEntryBody_def)

lemma authentic_append:
  assumes "authentic K ps" "SMAC (EntryHop (HopEntry e')) = SMAC (EntryHop (HopEntry e))"
    "hop_authentic (K (ASLocal e')) (InfoTimestamp (SInfo ps)) (extractBeta ps) (EntryHop (HopEntry e'))"
    "\<And>p. p \<in> set (PeerEntries e') \<Longrightarrow> hop_authentic (K (ASLocal e')) (InfoTimestamp (SInfo ps))
       (extractBeta ps XOR Uint16 (slice 0 2 (SMAC (EntryHop (HopEntry e))))) (PeerHop p)"
  shows "authentic K (ps\<lparr>ASEntries := ASEntries ps @ [e']\<rparr>)"
proof -
  let ?ps = "ps\<lparr>ASEntries := ASEntries ps @ [e']\<rparr>" and ?n = "length (ASEntries ps)"
  have n: "seg_beta ?ps ?n = extractBeta ps" "seg_beta ?ps (Suc ?n) = extractBeta ps XOR Uint16 (slice 0 2 (SMAC (EntryHop (HopEntry e'))))"
    using seg_beta_append [of ?n ps "[e']"] seg_beta_Suc [of ?n ?ps] by (simp_all add: extractBeta_eq)
  show ?thesis unfolding authentic_def
  proof (intro allI impI)
    fix i assume "i < length (ASEntries ?ps)"
    then consider "i < ?n" | "i = ?n" by fastforce
    then show "let e = ASEntries ?ps ! i; ts = InfoTimestamp (SInfo ?ps) in
        hop_authentic (K (ASLocal e)) ts (seg_beta ?ps i) (EntryHop (HopEntry e)) \<and>
        (\<forall>p\<in>set (PeerEntries e). hop_authentic (K (ASLocal e)) ts (seg_beta ?ps (Suc i)) (PeerHop p))"
    proof cases
      case 1
      then show ?thesis using assms(1) seg_beta_append [of i ps "[e']"] seg_beta_append [of "Suc i" ps "[e']"]
        by (simp add: authentic_def nth_append Let_def)
    next
      case 2
      then show ?thesis using assms(2-4) n by (simp add: Let_def)
    qed
  qed
qed

text \<open>Extending a segment keeps it authentic and fit for sending, whether or not its validation succeeds.\<close>

lemma Extend_keeps:
  assumes "Extend c sha256 s ps ingress egress peers = (ps', r)" "as_ok c K s" "proto_ok c" "0 \<notin> set peers"
    "\<forall>b. DigestLength \<le> length (sha256 b)" "authentic K ps" "segment_sendable c ps"
  shows "authentic K ps' \<and> segment_sendable c ps'"
  using assms(1)
proof (cases rule: Extend_cases)
  case failed
  then show ?thesis using assms(6,7) by simp
next
  case (added e m)
  note ok = newASEntry_ok [OF added(1) assms(2,4,5)]
  have "authentic K ps'" unfolding added(2)
    by (rule authentic_append [of _ _ _ e]) (use assms(6) ok in simp_all)
  moreover have "entry_signed c (e\<lparr>Signed := Some m\<rparr>)"
    using added(4) assms(2,3) by (auto simp: entry_signed_def as_ok_def proto_ok_def)
  ultimately show ?thesis using assms(7) ok(3) by (simp add: segment_sendable_def added(2))
qed

section \<open>Beacons on their way through the network\<close>

text \<open>A beacon is created, extended by the ASes it passes, and encoded and decoded between them.\<close>

inductive beaconed :: "proto \<Rightarrow> (bytes \<Rightarrow> bytes) \<Rightarrow> (u64 \<Rightarrow> bytes \<Rightarrow> bytes) \<Rightarrow> path_segment \<Rightarrow> bool" for c sha256 K where
  created: "CreateSegment c ts segID = Inr ps \<Longrightarrow> beaconed c sha256 K ps"
| extended: "beaconed c sha256 K ps \<Longrightarrow> as_ok c K s \<Longrightarrow> 0 \<notin> set peers \<Longrightarrow>
    Extend c sha256 s ps ingress egress peers = (ps', r) \<Longrightarrow> beaconed c sha256 K ps'"
| received: "beaconed c sha256 K ps \<Longrightarrow> PathSegmentToPB (Some ps) = Inr pb \<Longrightarrow> segmentFromPB c pb = Inr ps' \<Longrightarrow>
    beaconed c sha256 K ps'"

lemma beaconed_ok:
  assumes "beaconed c sha256 K ps" "proto_ok c" "\<forall>b. DigestLength \<le> length (sha256 b)"
  shows "authentic K ps \<and> segment_sendable c ps"
  using assms(1)
proof (induction rule: beaconed.induct)
  case (created ts segID ps)
  then show ?case using assms(2)
    by (auto simp: CreateSegment_def NewInfo_def res_simps authentic_def segment_sendable_def info_wf_def proto_ok_def Let_def)
next
  case (extended ps s peers ingress egress ps' r)
  then show ?case using Extend_keeps assms(2,3) by blast
next
  case (received ps pb ps')
  then have "ps' = ps" using segmentFromPB_ToPB [of c ps] by (auto simp: res_simps)
  with received show ?case by simp
qed

section \<open>What the propagator sends\<close>

lemma BeaconFromPB_sendable:
  assumes "segment_sendable c ps" "PathSegmentToPB (Some ps) = Inr pb" "BeaconFromPB sha256 c pb = Inr ps'"
  shows "ps' = ps"
  using segmentFromPB_ToPB [OF assms(1)] assms(2,3) by (auto simp: BeaconFromPB_def res_simps)

lemma toPropagate_ok:
  assumes "toPropagate c sha256 allow intf bs = Inr out" "b' \<in> set out"
    "\<And>b seg. b \<in> set bs \<Longrightarrow> BSegment b = Some seg \<Longrightarrow> segment_sendable c seg"
  shows "b' \<in> set bs \<and> BSegment b' \<noteq> None \<and> FilterLoop b' (IfIA (topoInfo intf)) allow = Inr ()"
  using assms
proof (induction bs arbitrary: out)
  case (Cons b bs)
  from Cons.prems(1) obtain ig where ig: "shouldIgnore allow b intf = Inr ig" by (auto simp: res_simps)
  show ?case
  proof (cases ig)
    case True
    then show ?thesis using Cons ig by auto
  next
    case False
    with Cons.prems(1) ig obtain pb ps rest where r: "PathSegmentToPB (BSegment b) = Inr pb" "BeaconFromPB sha256 c pb = Inr ps"
      "toPropagate c sha256 allow intf bs = Inr rest" "out = \<lparr>BSegment = Some ps, InIfId = InIfId b\<rparr> # rest"
      by (auto simp: res_simps)
    obtain seg where seg: "BSegment b = Some seg" using r(1) by (auto simp: PathSegmentToPB_def split: option.splits)
    then have "segment_sendable c seg" using Cons.prems(3) [of b] by simp
    then have "ps = seg" using BeaconFromPB_sendable [of c seg pb sha256 ps] r(1,2) seg by simp
    then have "\<lparr>BSegment = Some ps, InIfId = InIfId b\<rparr> = b" using seg by simp
    moreover have "FilterLoop b (IfIA (topoInfo intf)) allow = Inr ()"
      using ig False by (auto simp: shouldIgnore_def split: sum.splits go_error.splits)
    ultimately show ?thesis using Cons.IH [OF r(3)] Cons.prems(2,3) r(4) seg by auto
  qed
qed simp

lemma perInterface_ok:
  "perInterface c sha256 allow bs intfs = Inr r \<Longrightarrow> (intf, out) \<in> set r \<Longrightarrow>
   intf \<in> set intfs \<and> toPropagate c sha256 allow intf bs = Inr out"
  by (induction intfs arbitrary: r) (auto simp: res_simps)

lemma Propagate_sent:
  assumes "Propagate c sha256 ext net now peers intf bs = (intf', sent, res)" "ps' \<in> set sent"
  shows "topoInfo intf' = topoInfo intf \<and> (\<exists>b\<in>set bs. \<exists>seg. BSegment b = Some seg \<and>
     Extend c sha256 ext seg (InIfId b) (IfID (topoInfo intf)) peers = (ps', Inr ()))"
proof -
  let ?one = "propagateOne c sha256 ext net (IfID (topoInfo intf)) peers"
  have p: "topoInfo intf' = topoInfo intf" "set sent \<subseteq> set (List.map_filter ?one bs)"
    using assms(1) by (auto simp: Propagate_def Let_def Iface_Propagate_def split: sum.splits if_splits)
  then obtain b where b: "b \<in> set bs" "?one b = Some ps'" using assms(2) by (auto simp: map_filter_def)
  then have "\<exists>seg. BSegment b = Some seg \<and> Extend c sha256 ext seg (InIfId b) (IfID (topoInfo intf)) peers = (ps', Inr ())"
    by (auto simp: propagateOne_def split: option.splits sum.splits prod.splits)
  with p(1) b(1) show ?thesis by blast
qed

lemma Propagator_run_sent:
  assumes "Propagator_run c sha256 ext net allow allIntfs t provided intfs = Inr runs" "(intf', sent, res) \<in> set runs" "ps' \<in> set sent"
    "\<And>b seg bs. provided = Inr bs \<Longrightarrow> b \<in> set bs \<Longrightarrow> BSegment b = Some seg \<Longrightarrow> segment_sendable c seg"
  shows "\<exists>intf\<in>set intfs. topoInfo intf' = topoInfo intf \<and> (\<exists>bs. provided = Inr bs \<and> (\<exists>b\<in>set bs. \<exists>seg. BSegment b = Some seg \<and>
     Extend c sha256 ext seg (InIfId b) (IfID (topoInfo intf)) (sortedIntfs allIntfs link_type.Peer) = (ps', Inr ()) \<and>
     FilterLoop b (IfIA (topoInfo intf)) allow = Inr ()))"
proof -
  define peers where "peers = sortedIntfs allIntfs link_type.Peer"
  from assms(1,2) obtain bs r intf out where p: "provided = Inr bs"
    "perInterface c sha256 allow (filter (\<lambda>b. Ifaces_Get allIntfs (InIfId b) \<noteq> None) bs) (needsBeacons t intfs) = Inr r"
    "(intf, out) \<in> set r" "Propagate c sha256 ext net (tickNow t) peers intf out = (intf', sent, res)"
    by (force simp: Propagator_run_def beaconsPerInterface_def peers_def Let_def res_simps split: if_splits)
  from perInterface_ok [OF p(2,3)] have i: "intf \<in> set (needsBeacons t intfs)"
    "toPropagate c sha256 allow intf (filter (\<lambda>b. Ifaces_Get allIntfs (InIfId b) \<noteq> None) bs) = Inr out" by auto
  from Propagate_sent [OF p(4) assms(3)] obtain b seg where b: "topoInfo intf' = topoInfo intf" "b \<in> set out" "BSegment b = Some seg"
    "Extend c sha256 ext seg (InIfId b) (IfID (topoInfo intf)) peers = (ps', Inr ())" by blast
  have "b \<in> set bs \<and> FilterLoop b (IfIA (topoInfo intf)) allow = Inr ()"
    using toPropagate_ok [OF i(2) b(2)] assms(4) [OF p(1)] by auto
  moreover have "intf \<in> set intfs" using i(1) by (auto simp: needsBeacons_def Let_def split: if_splits)
  ultimately show ?thesis using p(1) b unfolding peers_def by blast
qed

section \<open>Correctness of beaconing\<close>

lemma filterLoops_distinct:
  "filterLoops (xs @ [y]) allow = Inr () \<Longrightarrow> list_all (\<lambda>ia. \<not> IsWildcard ia) (xs @ [y]) \<Longrightarrow> distinct (xs @ [y])"
proof -
  assume f: "filterLoops (xs @ [y]) allow = Inr ()" and w: "list_all (\<lambda>ia. \<not> IsWildcard ia) (xs @ [y])"
  have "0 \<notin> set (xs @ [y])" using w by (auto simp: list_all_iff IsWildcard_def IA_ISD_def)
  moreover have "0 \<notin> IA_ISD ` set (xs @ [y])" using w by (auto simp: list_all_iff IsWildcard_def)
  ultimately show ?thesis using f filterLoops_iff by blast
qed

lemma FilterLoop_distinct:
  assumes "FilterLoop b ia allow = Inr ()" "BSegment b = Some seg" "segment_sendable c seg" "\<not> IsWildcard ia"
  shows "distinct (map ASLocal (ASEntries seg) @ [ia])"
proof -
  have z: "ia \<noteq> 0" using assms(4) by (auto simp: IsWildcard_def IA_ISD_def)
  have w: "list_all (\<lambda>ia. \<not> IsWildcard ia) (map ASLocal (ASEntries seg) @ [ia])"
    using assms(3,4) by (auto simp: segment_sendable_def list_all_iff entry_sendable_def)
  have "filterLoops (map ASLocal (ASEntries seg) @ [ia]) allow = Inr ()"
    using assms(1,2) z by (simp add: FilterLoop_def buildHops_def beacon_entries_def IA_IsZero_def)
  then show ?thesis using w by (rule filterLoops_distinct)
qed

text \<open>Claim C6. Whatever way a beacon takes through the network, every hop field in it, of the entries as well as of the
  peer entries, carries the MAC of its AS under the accumulator of its place, and the segment survives
  encoding and decoding unchanged.\<close>

theorem beacon_authentic:
  assumes "beaconed c sha256 K ps" "proto_ok c" "\<forall>b. DigestLength \<le> length (sha256 b)"
  shows "authentic K ps \<and> rbind (PathSegmentToPB (Some ps)) (segmentFromPB c) = Inr ps"
  using beaconed_ok [OF assms] segmentFromPB_ToPB by blast

text \<open>Claim C14. A beacon the propagator sends on an interface is a stored beacon with one entry of the local AS added, that
  names the neighbour as next AS, is valid, and visits no AS twice on the way to the neighbour, provided that the local AS
  was not on the stored beacon already.\<close>

theorem propagated_beacons:
  assumes "Propagator_run c sha256 ext net allow allIntfs t (Inr bs) intfs = Inr runs" "(intf, sent, res) \<in> set runs" "ps \<in> set sent"
    "\<forall>b\<in>set bs. \<forall>seg. BSegment b = Some seg \<longrightarrow> segment_sendable c seg \<and> ExtIA ext \<notin> ASLocal ` set (ASEntries seg)"
    "\<forall>i\<in>set intfs. map_of (ExtIntfs ext) (IfID (topoInfo i)) = Some i \<and> IfID (topoInfo i) \<noteq> 0 \<and> IfIA (topoInfo i) \<noteq> ExtIA ext"
  shows "\<exists>b\<in>set bs. \<exists>seg e. BSegment b = Some seg \<and> ASEntries ps = ASEntries seg @ [e] \<and> ASLocal e = ExtIA ext \<and>
    ASNext e = IfIA (topoInfo intf) \<and> distinct (map ASLocal (ASEntries ps) @ [ASNext e]) \<and> Seg_Validate sha256 ps True = Inr ()"
proof -
  from Propagator_run_sent [OF assms(1-3)] assms(4) obtain i b seg where
    i: "i \<in> set intfs" "topoInfo intf = topoInfo i" and b: "b \<in> set bs" "BSegment b = Some seg" "segment_sendable c seg"
      "ExtIA ext \<notin> ASLocal ` set (ASEntries seg)" and
    x: "Extend c sha256 ext seg (InIfId b) (IfID (topoInfo i)) (sortedIntfs allIntfs link_type.Peer) = (ps, Inr ())" and
    loop: "FilterLoop b (IfIA (topoInfo i)) allow = Inr ()"
    by blast
  from x obtain e m where e: "newASEntry sha256 ext seg (InIfId b) (IfID (topoInfo i)) (sortedIntfs allIntfs link_type.Peer) = Inr e"
    "ps = seg\<lparr>ASEntries := ASEntries seg @ [e\<lparr>Signed := Some m\<rparr>]\<rparr>" "Seg_Validate sha256 ps (IfID (topoInfo i) \<noteq> 0) = Inr ()"
    by (cases rule: Extend_cases) auto
  from newASEntry_parts [OF e(1)] have l: "ASLocal e = ExtIA ext" "remoteIA ext (IfID (topoInfo i)) = Inr (ASNext e)" by auto
  have n: "ASNext e = IfIA (topoInfo i)" "\<not> IsWildcard (IfIA (topoInfo i))" "IfID (topoInfo i) \<noteq> 0" "IfIA (topoInfo i) \<noteq> ExtIA ext"
    using l(2) assms(5) i(1) by (auto simp: remoteIA_def Ifaces_Get_def split: if_splits)
  have "distinct (map ASLocal (ASEntries seg) @ [IfIA (topoInfo i)])"
    by (rule FilterLoop_distinct [OF loop b(2,3) n(2)])
  then have "distinct (map ASLocal (ASEntries ps) @ [IfIA (topoInfo i)])"
    using b(4) n(4) by (auto simp: e(2) l(1))
  then show ?thesis using b(1,2) e(2,3) l(1) n i(2) by (intro bexI [of _ b] exI [of _ seg] exI [of _ "e\<lparr>Signed := Some m\<rparr>"]) auto
qed

section \<open>A concrete network\<close>

definition demo_mac :: "u64 \<Rightarrow> bytes \<Rightarrow> bytes" where
  "demo_mac ia b = replicate 16 (foldl (\<lambda>x y. 3 * x + y) (ucast ia) b)"

definition demo_intf :: "u16 \<Rightarrow> u64 \<Rightarrow> link_type \<Rightarrow> u16 \<times> iface" where
  "demo_intf k ia lt = (k, \<lparr>topoInfo = \<lparr>IfID = k, IfIA = ia, IfLinkType = lt, IfRemoteID = k + 10, IfMTU = 1400\<rparr>,
     lastOriginate = unset_time, lastPropagate = unset_time\<rparr>)"

definition demo_ext :: "u64 \<Rightarrow> ifaces \<Rightarrow> extender" where
  "demo_ext ia intfs = \<lparr>ExtIA = ia, ExtSigner = (\<lambda>b ad. Inr \<lparr>HeaderAndBody = b, Signature = []\<rparr>), ExtMAC = demo_mac ia,
     ExtIntfs = intfs, ExtMTU = 1472, ExtMaxExpTime = 63, ExtEPIC = True\<rparr>"

definition demo_ia :: "u64 \<Rightarrow> u64" where "demo_ia n = 281474976710656 + n"

definition demo_as1 :: extender where "demo_as1 = demo_ext (demo_ia 1) [demo_intf 1 (demo_ia 2) Child]"
definition demo_as2 :: extender where
  "demo_as2 = demo_ext (demo_ia 2) [demo_intf 2 (demo_ia 1) Parent, demo_intf 3 (demo_ia 3) Child, demo_intf 4 (demo_ia 9) link_type.Peer]"

definition demo_sha :: "bytes \<Rightarrow> bytes" where "demo_sha b = replicate 32 (fold (+) b 1)"

definition demo_seg0 :: path_segment where
  "demo_seg0 = \<lparr>SInfo = \<lparr>InfoRaw = [7], InfoTimestamp = 1000 * second_ns, SegmentID = 5\<rparr>, ASEntries = []\<rparr>"

definition demo_entry1 :: as_entry where
  "demo_entry1 = (case newASEntry demo_sha demo_as1 demo_seg0 0 1 [] of Inr e \<Rightarrow> e\<lparr>Signed := Some \<lparr>HeaderAndBody = [1], Signature = []\<rparr>\<rparr>)"

definition demo_seg1 :: path_segment where "demo_seg1 = demo_seg0\<lparr>ASEntries := [demo_entry1]\<rparr>"

definition demo_entry2 :: as_entry where
  "demo_entry2 = (case newASEntry demo_sha demo_as2 demo_seg1 2 3 [4] of Inr e \<Rightarrow> e\<lparr>Signed := Some \<lparr>HeaderAndBody = [2], Signature = []\<rparr>\<rparr>)"

definition demo_seg2 :: path_segment where "demo_seg2 = demo_seg0\<lparr>ASEntries := [demo_entry1, demo_entry2]\<rparr>"

definition demo_proto :: proto where
  "demo_proto = (let b1 = asEntryBody demo_entry1; b2 = asEntryBody demo_entry2 in
    \<lparr>MarshalBody = (\<lambda>m. if m = b1 then Inr [1] else if m = b2 then Inr [2] else Inl (Err [])),
     UnmarshalBody = (\<lambda>b. if b = [1] then Inr b1 else if b = [2] then Inr b2 else Inl (Err [])),
     MarshalInfo = (\<lambda>m. if m = (1000, 5) then Inr [7] else Inl (Err [])),
     UnmarshalInfo = (\<lambda>b. if b = [7] then Inr (1000, 5) else Inl (Err [])),
     UnmarshalHeaderAndBody = (\<lambda>b. Inr ([], b)), UnmarshalHeader = (\<lambda>b. Inr None), PtypesTimestamp = (\<lambda>t. Inr 0)\<rparr>)"

lemma demo_proto_ok: "proto_ok demo_proto"
  by (auto simp: proto_ok_def demo_proto_def Let_def split: if_splits)

lemma demo_as_ok: "as_ok demo_proto demo_mac demo_as1" "as_ok demo_proto demo_mac demo_as2"
  by (simp_all add: as_ok_def demo_as1_def demo_as2_def demo_ext_def demo_mac_def IsWildcard_def IA_ISD_def IA_AS_def demo_ia_def
      ASBits_def MaxAS_def ExtractUnverifiedBody_def extractHeaderAndBody_def demo_proto_def Let_def)

lemma demo_create: "CreateSegment demo_proto (1000 * second_ns) 5 = Inr demo_seg0"
  by (simp add: CreateSegment_def NewInfo_def demo_proto_def demo_seg0_def second_ns_def Let_def)

lemma demo_extend1: "Extend demo_proto demo_sha demo_as1 demo_seg0 0 1 [] = (demo_seg1, Inr ())"
  by code_simp

lemma demo_extend2: "Extend demo_proto demo_sha demo_as2 demo_seg1 2 3 [4] = (demo_seg2, Inr ())"
  by code_simp

lemma demo_beaconed: "beaconed demo_proto demo_sha demo_mac demo_seg1" "beaconed demo_proto demo_sha demo_mac demo_seg2"
proof -
  have "beaconed demo_proto demo_sha demo_mac demo_seg0" by (rule beaconed.created [OF demo_create])
  then show s1: "beaconed demo_proto demo_sha demo_mac demo_seg1"
    by (rule beaconed.extended [OF _ demo_as_ok(1) _ demo_extend1]) simp
  then show "beaconed demo_proto demo_sha demo_mac demo_seg2"
    by (rule beaconed.extended [OF _ demo_as_ok(2) _ demo_extend2]) simp
qed

lemma demo_sha_len: "\<forall>b. DigestLength \<le> length (demo_sha b)"
  by (simp add: DigestLength_def demo_sha_def)

lemma demo_seg2_shape: "map ASLocal (ASEntries demo_seg2) = [demo_ia 1, demo_ia 2]"
  "map (\<lambda>e. length (PeerEntries e)) (ASEntries demo_seg2) = [0, 1]"
  by code_simp+

theorem beacon_authentic_witness:
  "authentic demo_mac demo_seg2 \<and> rbind (PathSegmentToPB (Some demo_seg2)) (segmentFromPB demo_proto) = Inr demo_seg2 \<and>
   map ASLocal (ASEntries demo_seg2) = [demo_ia 1, demo_ia 2] \<and> map (\<lambda>e. length (PeerEntries e)) (ASEntries demo_seg2) = [0, 1]"
  using beacon_authentic [OF demo_beaconed(2) demo_proto_ok demo_sha_len] demo_seg2_shape by simp

definition demo_net :: sender where
  "demo_net = \<lparr>NewSender = (\<lambda>ia k. Inr ()), SendBeacon = (\<lambda>k s. Inr ())\<rparr>"

definition demo_tick :: tick where "demo_tick = Tick_SetNow (NewTick second_ns) (1005 * second_ns)"

lemma demo_run:
  "Propagator_run demo_proto demo_sha demo_as2 demo_net True (ExtIntfs demo_as2) demo_tick
     (Inr [\<lparr>BSegment = Some demo_seg1, InIfId = 2\<rparr>]) [snd (demo_intf 3 (demo_ia 3) Child)] =
   Inr [(Iface_Propagate (snd (demo_intf 3 (demo_ia 3) Child)) (1005 * second_ns), [demo_seg2], Inr ())]"
  by code_simp

lemma demo_seg1_locals: "ASLocal ` set (ASEntries demo_seg1) = {demo_ia 1}"
  using demo_seg2_shape(1) by (simp add: demo_seg1_def demo_seg2_def)

theorem propagated_beacons_witness:
  "\<exists>b\<in>set [\<lparr>BSegment = Some demo_seg1, InIfId = 2\<rparr>]. \<exists>seg e. BSegment b = Some seg \<and> ASEntries demo_seg2 = ASEntries seg @ [e] \<and>
     ASLocal e = ExtIA demo_as2 \<and> ASNext e = demo_ia 3 \<and> distinct (map ASLocal (ASEntries demo_seg2) @ [ASNext e]) \<and>
     Seg_Validate demo_sha demo_seg2 True = Inr ()"
proof -
  have "segment_sendable demo_proto demo_seg1"
    using beaconed_ok [OF demo_beaconed(1) demo_proto_ok demo_sha_len] by blast
  then have s: "\<forall>b\<in>set [\<lparr>BSegment = Some demo_seg1, InIfId = 2\<rparr>]. \<forall>seg. BSegment b = Some seg \<longrightarrow>
      segment_sendable demo_proto seg \<and> ExtIA demo_as2 \<notin> ASLocal ` set (ASEntries seg)"
    using demo_seg1_locals by (simp add: demo_as2_def demo_ext_def demo_ia_def)
  have i: "\<forall>i\<in>set [snd (demo_intf 3 (demo_ia 3) Child)]. map_of (ExtIntfs demo_as2) (IfID (topoInfo i)) = Some i \<and>
      IfID (topoInfo i) \<noteq> 0 \<and> IfIA (topoInfo i) \<noteq> ExtIA demo_as2"
    by (simp add: demo_as2_def demo_ext_def demo_intf_def demo_ia_def)
  show ?thesis
    using propagated_beacons [OF demo_run _ _ s i] by (simp add: Iface_Propagate_def demo_intf_def)
qed

section \<open>What the handler admits\<close>

lemma verify_bound_iff:
  "verify_bound verifierFor seg i es = Inr () \<longleftrightarrow>
   (\<forall>k<length es. VerifyASEntry (verifierFor (ASLocal (es ! k))) seg (int (i + k)) = Inr ())"
  by (induction es arbitrary: i) (auto simp: res_simps All_less_Suc2 add.assoc add.left_commute)

text \<open>The database changes only for a beacon that came from the parent or core neighbour that its last entry names, was meant for
  the local AS, is signed by every AS on it over all entries before, and is admitted by a policy.\<close>

lemma HandleBeacon_admits:
  assumes "HandleBeacon ops filt usg verifierFor peerPath ownIA intfs d b = (d', r)" "d' \<noteq> d"
  shows "\<exists>intf seg usage. map_of intfs (InIfId b) = Some intf \<and> BSegment b = Some seg \<and> filt b = Inr () \<and>
    IfLinkType (topoInfo intf) \<in> {Parent, Core} \<and> ASEntries seg \<noteq> [] \<and>
    ASLocal (last (ASEntries seg)) = IfIA (topoInfo intf) \<and> ASNext (last (ASEntries seg)) = ownIA \<and>
    (\<forall>k<length (ASEntries seg). \<exists>ad. associatedData seg k = Inr ad \<and>
       verifierFor (ASLocal (ASEntries seg ! k)) (Signed (ASEntries seg ! k)) ad = Inr ()) \<and>
    usg b = Inr usage \<and> \<not> Usage_None usage \<and> d' = fst (InsertBeacon ops d b usage)"
proof -
  from assms obtain intf where i: "map_of intfs (InIfId b) = Some intf" "filt b = Inr ()" "validateASEntry ownIA b intf = Inr ()"
    "verifySegment verifierFor peerPath b = Inr ()" "d' = fst (Store_InsertBeacon ops usg d b)"
    by (auto simp: HandleBeacon_def Ifaces_Get_def PreFilter_def split: option.splits sum.splits prod.splits)
  then obtain usage where u: "usg b = Inr usage" "\<not> Usage_None usage" "d' = fst (InsertBeacon ops d b usage)"
    using assms(2) by (auto simp: Store_InsertBeacon_def split: sum.splits if_splits)
  from i(4) obtain seg where seg: "BSegment b = Some seg" "VerifySegment verifierFor seg = Inr ()"
    by (auto simp: verifySegment_def res_simps split: option.splits)
  have "IfLinkType (topoInfo intf) \<in> {Parent, Core}" "ASEntries seg \<noteq> []" "ASLocal (last (ASEntries seg)) = IfIA (topoInfo intf)"
    "ASNext (last (ASEntries seg)) = ownIA"
    using i(3) seg(1) by (auto simp: validateASEntry_def beacon_entries_def res_simps IA_Equal_def Let_def split: if_splits)
  moreover have "\<forall>k<length (ASEntries seg). \<exists>ad. associatedData seg k = Inr ad \<and>
       verifierFor (ASLocal (ASEntries seg ! k)) (Signed (ASEntries seg ! k)) ad = Inr ()"
    using seg(2) by (auto simp: VerifySegment_def verify_bound_iff VerifyASEntry_def res_simps)
  ultimately show ?thesis using i(1,2) seg(1) u by blast
qed

end
