(* ===== verification/Combinator.thy ===== *)
theory Combinator
  imports Beaconing Scion_Path "HOL-Library.AList" "HOL-Library.Multiset" "HOL-Library.List_Lexorder"
    "HOL-Library.Product_Lexorder"
begin

unbundle bit_operations_syntax

text \<open>
  The path combinator (go/lib/infra/modules/combinator): the multigraph of up, core and down segments with
  shortcuts and peering links, the search for all paths of up to three segments, and the
  forwarding path with its interfaces, MTU and expiry that a solution stands for. An input segment
  is identified by a number, where the code uses its pointer. A Go map is an association list, and its order is the order of
  iteration. \<open>sort.Sort\<close> is an insertion sort; no property depends on its order of equal elements.
  The metadata of the static info extension is left out.
\<close>

section \<open>The graph (graph.go)\<close>

datatype pseg_type = PathSegUp | PathSegCore | PathSegDown

record input_segment =
  ISPtr :: nat
  ISSeg :: path_segment
  ISType :: pseg_type

definition IsDownSeg :: "input_segment \<Rightarrow> bool" where
  "IsDownSeg s \<longleftrightarrow> ISType s = PathSegDown"

record vertex =
  VIA :: u64
  VUpIA :: u64
  VUpIFID :: u64
  VDownIA :: u64
  VDownIFID :: u64

definition vertexFromIA :: "u64 \<Rightarrow> vertex" where
  "vertexFromIA ia = \<lparr>VIA = ia, VUpIA = 0, VUpIFID = 0, VDownIA = 0, VDownIFID = 0\<rparr>"

definition vertexFromPeering :: "u64 \<Rightarrow> u64 \<Rightarrow> u64 \<Rightarrow> u64 \<Rightarrow> vertex" where
  "vertexFromPeering upIA upIFID downIA downIFID =
     \<lparr>VIA = 0, VUpIA = upIA, VUpIFID = upIFID, VDownIA = downIA, VDownIFID = downIFID\<rparr>"

definition vertex_Reverse :: "vertex \<Rightarrow> vertex" where
  "vertex_Reverse v = \<lparr>VIA = VIA v, VUpIA = VDownIA v, VUpIFID = VDownIFID v, VDownIA = VUpIA v, VDownIFID = VUpIFID v\<rparr>"

record edge =
  EWeight :: nat
  EShortcut :: nat
  EPeer :: nat

type_synonym dmg = "(vertex \<times> (vertex \<times> (input_segment \<times> edge) list) list) list"

definition get_default :: "'a \<Rightarrow> ('a \<times> 'b list) list \<Rightarrow> 'b list" where
  "get_default k m = (case map_of m k of None \<Rightarrow> [] | Some v \<Rightarrow> v)"

definition AddEdge :: "dmg \<Rightarrow> vertex \<Rightarrow> vertex \<Rightarrow> input_segment \<Rightarrow> edge \<Rightarrow> dmg" where
  "AddEdge g src dst segment e = (let
     g = (if map_of g src = None then AList.update src [] g else g);
     g = (if map_of g dst = None then AList.update dst [] g else g);
     neighborMap = get_default src g
   in AList.update src (AList.update dst (AList.update segment e (get_default dst neighborMap)) neighborMap) g)"

text \<open>The edges of one AS entry of an up or down segment: to the AS itself, unless it is the last one, and to its peering links.\<close>

definition entry_tuples :: "as_entry list \<Rightarrow> nat \<Rightarrow> (vertex \<times> vertex \<times> nat) list" where
  "entry_tuples asEntries i = (let
     pinned = vertexFromIA (ASLocal (last asEntries)); e = asEntries ! i; currentIA = ASLocal e in
     (if i \<noteq> length asEntries - 1 then [(pinned, vertexFromIA currentIA, 0)] else []) @
     map (\<lambda>(k, peer). (pinned, vertexFromPeering currentIA (ucast (SConsIngress (PeerHop peer))) (PeerIA peer) (ucast (PeerInterface peer)), k + 1))
       (enumerate 0 (PeerEntries e)))"

definition tuple_edge :: "pseg_type \<Rightarrow> nat \<Rightarrow> nat \<Rightarrow> vertex \<times> vertex \<times> nat \<Rightarrow> vertex \<times> vertex \<times> edge" where
  "tuple_edge ty n i = (\<lambda>(src, dst, peer). let weight = n - 1 - i in
     if ty = PathSegDown
     then (vertex_Reverse dst, src, \<lparr>EWeight = (if peer \<noteq> 0 then weight + 1 else weight), EShortcut = i, EPeer = peer\<rparr>)
     else (src, dst, \<lparr>EWeight = weight, EShortcut = i, EPeer = peer\<rparr>))"

text \<open>The edges of a segment, in the order they are added.\<close>

definition segment_edges :: "input_segment \<Rightarrow> (vertex \<times> vertex \<times> edge) list res" where
  "segment_edges segment = (let asEntries = ASEntries (ISSeg segment); n = length asEntries in
     if asEntries = [] then Inl (Panic ''index out of range'')
     else if ISType segment = PathSegCore then
       Inr [(vertexFromIA (ASLocal (last asEntries)), vertexFromIA (ASLocal (hd asEntries)),
         \<lparr>EWeight = n - 1, EShortcut = 0, EPeer = 0\<rparr>)]
     else Inr (concat (map (\<lambda>i. map (tuple_edge (ISType segment) n i) (entry_tuples asEntries i)) (rev [0..<n]))))"

definition traverseSegment :: "input_segment \<Rightarrow> dmg \<Rightarrow> dmg res" where
  "traverseSegment segment g =
     rbind (segment_edges segment) (\<lambda>es. Inr (foldl (\<lambda>g (src, dst, e). AddEdge g src dst segment e) g es))"

fun traverse_all :: "input_segment list \<Rightarrow> dmg \<Rightarrow> dmg res" where
  "traverse_all [] g = Inr g"
| "traverse_all (s # ss) g = rbind (traverseSegment s g) (\<lambda>g. traverse_all ss g)"

definition input_segments :: "path_segment list \<Rightarrow> path_segment list \<Rightarrow> path_segment list \<Rightarrow> input_segment list" where
  "input_segments ups cores downs = map (\<lambda>(k, s, ty). \<lparr>ISPtr = k, ISSeg = s, ISType = ty\<rparr>)
     (enumerate 0 (map (\<lambda>s. (s, PathSegUp)) ups @ map (\<lambda>s. (s, PathSegCore)) cores @ map (\<lambda>s. (s, PathSegDown)) downs))"

definition newDMG :: "path_segment list \<Rightarrow> path_segment list \<Rightarrow> path_segment list \<Rightarrow> dmg res" where
  "newDMG ups cores downs = traverse_all (input_segments ups cores downs) []"

section \<open>The search (graph.go)\<close>

record solution_edge =
  SolEdge :: edge
  SolSrc :: vertex
  SolDst :: vertex
  SolSegment :: input_segment

record path_solution =
  SolEdges :: "solution_edge list"
  currentVertex :: vertex
  currentSeg :: "input_segment option"
  cost :: nat

definition validNextSeg :: "input_segment option \<Rightarrow> input_segment \<Rightarrow> bool" where
  "validNextSeg currSeg nextSeg = (case currSeg of
       None \<Rightarrow> True
     | Some s \<Rightarrow> (case ISType s of
         PathSegUp \<Rightarrow> ISType nextSeg = PathSegCore \<or> ISType nextSeg = PathSegDown
       | PathSegCore \<Rightarrow> ISType nextSeg = PathSegDown
       | PathSegDown \<Rightarrow> False))"

definition extend_solution :: "path_solution \<Rightarrow> vertex \<Rightarrow> input_segment \<Rightarrow> edge \<Rightarrow> path_solution" where
  "extend_solution s nextVertex segment e = \<lparr>SolEdges = SolEdges s @ [\<lparr>SolEdge = e, SolSrc = currentVertex s, SolDst = nextVertex,
       SolSegment = segment\<rparr>], currentVertex = nextVertex, currentSeg = Some segment, cost = cost s + EWeight e\<rparr>"

text \<open>The solutions that one turn of the loop makes of the first one in the queue.\<close>

definition successors :: "dmg \<Rightarrow> path_solution \<Rightarrow> path_solution list" where
  "successors g s = concat (map (\<lambda>(nextVertex, edgeList).
     map (\<lambda>(segment, e). extend_solution s nextVertex segment e) (filter (\<lambda>(segment, e). validNextSeg (currentSeg s) segment) edgeList))
     (get_default (currentVertex s) g))"

text \<open>How many segments can still follow.\<close>

definition seg_rank :: "path_solution \<Rightarrow> nat" where
  "seg_rank s = (case currentSeg s of None \<Rightarrow> 3 | Some seg \<Rightarrow>
     (case ISType seg of PathSegUp \<Rightarrow> 2 | PathSegCore \<Rightarrow> 1 | PathSegDown \<Rightarrow> 0))"

lemma successors_rank: "s' \<in> set (successors g s) \<Longrightarrow> seg_rank s' < seg_rank s"
  by (auto simp: successors_def extend_solution_def seg_rank_def validNextSeg_def split: option.splits pseg_type.splits)

function search_loop :: "dmg \<Rightarrow> vertex \<Rightarrow> path_solution list \<Rightarrow> path_solution list \<Rightarrow> path_solution list" where
  "search_loop g dst [] solutions = solutions"
| "search_loop g dst (s # queue) solutions = (let new = successors g s in
     search_loop g dst (queue @ filter (\<lambda>s'. currentVertex s' \<noteq> dst) new) (solutions @ filter (\<lambda>s'. currentVertex s' = dst) new))"
  by pat_completeness auto
termination
proof (relation "inv_image (mult less_than) (\<lambda>(g, dst, queue, solutions). mset (map seg_rank queue))")
  show "wf (inv_image (mult less_than) (\<lambda>(g, dst, queue, solutions). mset (map seg_rank queue)))"
    by (simp add: wf_mult)
next
  fix g :: dmg and dst :: vertex and s queue solutions new
  assume new: "new = successors g s"
  let ?K = "mset (map seg_rank (filter (\<lambda>s'. currentVertex s' \<noteq> dst) new))"
  have "(mset (map seg_rank queue) + ?K, mset (map seg_rank queue) + {#seg_rank s#}) \<in> mult less_than"
    by (rule one_step_implies_mult) (auto simp: new successors_rank)
  then show "((g, dst, queue @ filter (\<lambda>s'. currentVertex s' \<noteq> dst) new, solutions @ filter (\<lambda>s'. currentVertex s' = dst) new),
      (g, dst, s # queue, solutions)) \<in> inv_image (mult less_than) (\<lambda>(g, dst, queue, solutions). mset (map seg_rank queue))"
    by (simp add: add.commute)
qed

text \<open>\<open>bytes.Compare\<close>.\<close>

fun bytes_Compare :: "bytes \<Rightarrow> bytes \<Rightarrow> int" where
  "bytes_Compare [] [] = 0"
| "bytes_Compare [] (y # ys) = -1"
| "bytes_Compare (x # xs) [] = 1"
| "bytes_Compare (x # xs) (y # ys) = (if x < y then -1 else if y < x then 1 else bytes_Compare xs ys)"

fun trail_Less :: "(bytes \<Rightarrow> bytes) \<Rightarrow> (solution_edge \<times> solution_edge) list \<Rightarrow> bool" where
  "trail_Less sha256 [] = False"
| "trail_Less sha256 ((a, b) # rest) = (let
     idcmp = bytes_Compare (Seg_ID sha256 (ISSeg (SolSegment a))) (Seg_ID sha256 (ISSeg (SolSegment b))) in
     if idcmp \<noteq> 0 then idcmp = -1
     else if EShortcut (SolEdge a) \<noteq> EShortcut (SolEdge b) then EShortcut (SolEdge a) < EShortcut (SolEdge b)
     else if EPeer (SolEdge a) \<noteq> EPeer (SolEdge b) then EPeer (SolEdge a) < EPeer (SolEdge b)
     else trail_Less sha256 rest)"

definition solution_Less :: "(bytes \<Rightarrow> bytes) \<Rightarrow> path_solution \<Rightarrow> path_solution \<Rightarrow> bool" where
  "solution_Less sha256 a b =
     (if cost a \<noteq> cost b then cost a < cost b
      else if length (SolEdges a) \<noteq> length (SolEdges b) then length (SolEdges a) < length (SolEdges b)
      else trail_Less sha256 (zip (SolEdges a) (SolEdges b)))"

fun insert_by :: "('a \<Rightarrow> 'a \<Rightarrow> bool) \<Rightarrow> 'a \<Rightarrow> 'a list \<Rightarrow> 'a list" where
  "insert_by lt x [] = [x]"
| "insert_by lt x (y # ys) = (if lt y x then y # insert_by lt x ys else x # y # ys)"

definition sort_by :: "('a \<Rightarrow> 'a \<Rightarrow> bool) \<Rightarrow> 'a list \<Rightarrow> 'a list" where
  "sort_by lt xs = foldr (insert_by lt) xs []"

definition GetPaths :: "(bytes \<Rightarrow> bytes) \<Rightarrow> dmg \<Rightarrow> vertex \<Rightarrow> vertex \<Rightarrow> path_solution list" where
  "GetPaths sha256 g src dst = sort_by (solution_Less sha256)
     (search_loop g dst [\<lparr>SolEdges = [], currentVertex = src, currentSeg = None, cost = 0\<rparr>] [])"

section \<open>The forwarding path of a solution (graph.go)\<close>

type_synonym comb_intf = "u64 \<times> u64"

record comb_segment =
  CInfo :: info_field
  CHops :: "hop_field list"
  CIntfs :: "comb_intf list"

definition hop_of :: "seg_hop \<Rightarrow> hop_field" where
  "hop_of h = \<lparr>IngressRouterAlert = False, EgressRouterAlert = False, ExpTime = SExpTime h, ConsIngress = SConsIngress h,
     ConsEgress = SConsEgress h, Mac = SMAC h\<rparr>"

definition minUint16 :: "u16 \<Rightarrow> u16 \<Rightarrow> u16" where
  "minUint16 x y = (if x < y then x else y)"

definition calculateBeta :: "solution_edge \<Rightarrow> u16 res" where
  "calculateBeta se = (let
     seg = ISSeg (SolSegment se); es = ASEntries seg;
     index = (if IsDownSeg (SolSegment se)
       then EShortcut (SolEdge se) + (if EPeer (SolEdge se) \<noteq> 0 then 1 else 0) else length es - 1)
   in if length es < index then Inl (Panic ''index out of range'')
      else Inr (foldl (\<lambda>beta e. beta XOR Uint16 (slice 0 2 (SMAC (EntryHop (HopEntry e))))) (SegmentID (SInfo seg)) (take index es)))"

text \<open>The hop field an AS entry contributes and the MTU of the link it names.\<close>

definition entry_hop :: "solution_edge \<Rightarrow> nat \<Rightarrow> (hop_field \<times> int) res" where
  "entry_hop se i = (let
     asEntry = ASEntries (ISSeg (SolSegment se)) ! i;
     isPeer = (i = EShortcut (SolEdge se) \<and> EPeer (SolEdge se) \<noteq> 0)
   in if \<not> isPeer then Inr (hop_of (EntryHop (HopEntry asEntry)), IngressMTU (HopEntry asEntry))
      else if length (PeerEntries asEntry) < EPeer (SolEdge se) then Inl (Panic ''index out of range'')
      else let peer = PeerEntries asEntry ! (EPeer (SolEdge se) - 1) in Inr (hop_of (PeerHop peer), PeerMTU peer))"

definition entry_intfs :: "solution_edge \<Rightarrow> nat \<Rightarrow> hop_field \<Rightarrow> comb_intf list" where
  "entry_intfs se i hopField = (let
     ia = ASLocal (ASEntries (ISSeg (SolSegment se)) ! i);
     isShortcut = (i = EShortcut (SolEdge se) \<and> EShortcut (SolEdge se) \<noteq> 0);
     isPeer = (i = EShortcut (SolEdge se) \<and> EPeer (SolEdge se) \<noteq> 0)
   in (if ConsEgress hopField \<noteq> 0 then [(ia, ucast (ConsEgress hopField))] else []) @
      (if ConsIngress hopField \<noteq> 0 \<and> (\<not> isShortcut \<or> isPeer) then [(ia, ucast (ConsIngress hopField))] else []))"

fun entries_loop :: "solution_edge \<Rightarrow> nat list \<Rightarrow> u16 \<Rightarrow> (hop_field list \<times> comb_intf list \<times> u16) res" where
  "entries_loop se [] mtu = Inr ([], [], mtu)"
| "entries_loop se (i # is) mtu =
     rbind (entry_hop se i) (\<lambda>(hopField, forwardingLinkMtu). let
       mtu = minUint16 mtu (word_of_int (ASMTU (ASEntries (ISSeg (SolSegment se)) ! i)));
       mtu = (if forwardingLinkMtu \<noteq> 0 then minUint16 mtu (word_of_int forwardingLinkMtu) else mtu) in
       rbind (entries_loop se is mtu) (\<lambda>(hops, intfs, mtu). Inr (hopField # hops, entry_intfs se i hopField @ intfs, mtu)))"

definition edge_segment :: "solution_edge \<Rightarrow> u16 \<Rightarrow> (comb_segment \<times> u16) res" where
  "edge_segment se mtu = (let seg = ISSeg (SolSegment se); n = length (ASEntries seg) in
     rbind (entries_loop se (rev [EShortcut (SolEdge se)..<n]) mtu) (\<lambda>(hops, intfs, mtu).
     rbind (calculateBeta se) (\<lambda>beta. let down = (ISType (SolSegment se) = PathSegDown) in
     Inr (\<lparr>CInfo = \<lparr>info_field.Peer = (EPeer (SolEdge se) \<noteq> 0), ConsDir = IsDownSeg (SolSegment se), SegID = beta,
         Timestamp = TimeToSecs (InfoTimestamp (SInfo seg))\<rparr>,
       CHops = (if down then rev hops else hops), CIntfs = (if down then rev intfs else intfs)\<rparr>, mtu))))"

fun edge_segments :: "solution_edge list \<Rightarrow> u16 \<Rightarrow> (comb_segment list \<times> u16) res" where
  "edge_segments [] mtu = Inr ([], mtu)"
| "edge_segments (se # ses) mtu =
     rbind (edge_segment se mtu) (\<lambda>(s, mtu). rbind (edge_segments ses mtu) (\<lambda>(ss, mtu). Inr (s # ss, mtu)))"

definition computeHopFieldsTTL :: "comb_segment \<Rightarrow> int" where
  "computeHopFieldsTTL s = foldl (\<lambda>minTTL hf. let offset = ExpTimeToDuration (ExpTime hf) in if minTTL > offset then offset else minTTL)
     (MaxTTL * second_ns) (CHops s)"

definition seg_ComputeExpTime :: "comb_segment \<Rightarrow> int" where
  "seg_ComputeExpTime s = SecsToTime (Timestamp (CInfo s)) + computeHopFieldsTTL s"

definition maxExpirationTime :: int where
  "maxExpirationTime = SecsToTime 4294967295 + ExpTimeToDuration 255"

definition list_ComputeExpTime :: "comb_segment list \<Rightarrow> int" where
  "list_ComputeExpTime ss = foldl (\<lambda>minTimestamp s. let expTime = seg_ComputeExpTime s in
     if minTimestamp > expTime then expTime else minTimestamp) maxExpirationTime ss"

definition list_decoded :: "comb_segment list \<Rightarrow> decoded_path" where
  "list_decoded ss = \<lparr>PathMeta = \<lparr>CurrINF = 0, CurrHF = 0,
       SegLen = map (\<lambda>s. word_of_nat (length (CHops s))) ss @ replicate (3 - length ss) 0\<rparr>,
     NumINF = length ss, NumHops = length (concat (map CHops ss)),
     InfoFields = map CInfo ss, HopFields = concat (map CHops ss)\<rparr>"

text \<open>The array \<open>SegLen\<close> has three places; an error of the serialisation is a panic.\<close>

definition ScionPath_raw :: "comb_segment list \<Rightarrow> bytes res" where
  "ScionPath_raw ss =
     (if length ss > 3 then Inl (Panic ''index out of range'')
      else let sp = list_decoded ss in
        case Decoded_SerializeTo sp (replicate (path_Len sp) 0) of Inl e \<Rightarrow> Inl (Panic ''serialize'') | Inr b \<Rightarrow> Inr b)"

record comb_path =
  CSCIONPath :: bytes
  CInterfaces :: "comb_intf list"
  CMTU :: u16
  CExpiry :: int
  CWeight :: nat

definition solution_Path :: "path_solution \<Rightarrow> comb_path res" where
  "solution_Path s =
     rbind (edge_segments (SolEdges s) 65535) (\<lambda>(segments, mtu).
     rbind (ScionPath_raw segments) (\<lambda>bytes.
     Inr \<lparr>CSCIONPath = bytes, CInterfaces = concat (map CIntfs segments), CMTU = mtu, CExpiry = list_ComputeExpTime segments,
       CWeight = cost s\<rparr>))"

section \<open>Combination (combinator.go)\<close>

fun too_long :: "u64 list \<Rightarrow> u64 list \<Rightarrow> bool" where
  "too_long seen [] = False"
| "too_long seen (ia # ias) = (if count_list (ia # seen) ia > 2 then True else too_long (ia # seen) ias)"

definition filterLongPaths :: "comb_path list \<Rightarrow> comb_path list" where
  "filterLongPaths paths = filter (\<lambda>p. \<not> too_long [] (map fst (CInterfaces p))) paths"

definition fingerprint :: "(bytes \<Rightarrow> bytes) \<Rightarrow> comb_intf list \<Rightarrow> bytes" where
  "fingerprint sha256 interfaces = sha256 (concat (map (\<lambda>(ia, ifid). PutUint64 ia @ PutUint64 ifid) interfaces))"

text \<open>The loop over the paths with the map from fingerprints to indices.\<close>

fun unique_loop :: "(bytes \<Rightarrow> bytes) \<Rightarrow> comb_path list \<Rightarrow> nat \<Rightarrow> comb_path list \<Rightarrow> (bytes \<times> nat) list \<Rightarrow> (bytes \<times> nat) list" where
  "unique_loop sha256 paths i [] uniquePaths = uniquePaths"
| "unique_loop sha256 paths i (p # ps) uniquePaths = (let key = fingerprint sha256 (CInterfaces p) in
     unique_loop sha256 paths (Suc i) ps (case map_of uniquePaths key of
       None \<Rightarrow> AList.update key i uniquePaths
     | Some prev \<Rightarrow> if CExpiry p > CExpiry (paths ! prev) then AList.update key i uniquePaths else uniquePaths))"

definition filterDuplicates :: "(bytes \<Rightarrow> bytes) \<Rightarrow> comb_path list \<Rightarrow> comb_path list" where
  "filterDuplicates sha256 paths = map (\<lambda>i. paths ! i) (sort (map snd (unique_loop sha256 paths 0 paths [])))"

fun solution_paths :: "path_solution list \<Rightarrow> comb_path list res" where
  "solution_paths [] = Inr []"
| "solution_paths (s # ss) = rbind (solution_Path s) (\<lambda>p. rbind (solution_paths ss) (\<lambda>ps. Inr (p # ps)))"

definition Combine ::
  "(bytes \<Rightarrow> bytes) \<Rightarrow> u64 \<Rightarrow> u64 \<Rightarrow> path_segment list \<Rightarrow> path_segment list \<Rightarrow> path_segment list \<Rightarrow> bool \<Rightarrow> comb_path list res" where
  "Combine sha256 src dst ups cores downs findAllIdentical =
     rbind (newDMG ups cores downs) (\<lambda>g.
     rbind (solution_paths (GetPaths sha256 g (vertexFromIA src) (vertexFromIA dst))) (\<lambda>paths.
     let paths = filterLongPaths paths in
     Inr (if findAllIdentical then paths else filterDuplicates sha256 paths)))"

section \<open>Edges of the graph\<close>

text \<open>No map holds a key twice.\<close>

definition graph_wf :: "dmg \<Rightarrow> bool" where
  "graph_wf g \<longleftrightarrow> distinct (map fst g) \<and> (\<forall>(v, nm)\<in>set g. distinct (map fst nm) \<and> (\<forall>(w, em)\<in>set nm. distinct (map fst em)))"

definition edge_in :: "dmg \<Rightarrow> vertex \<Rightarrow> vertex \<Rightarrow> input_segment \<Rightarrow> edge \<Rightarrow> bool" where
  "edge_in g src dst segment e \<longleftrightarrow> map_of (get_default dst (get_default src g)) segment = Some e"

lemma set_update_cases: "x \<in> set (AList.update k v al) \<Longrightarrow> x = (k, v) \<or> x \<in> set al"
  by (induction al) (auto split: if_splits)

lemma get_default_update: "get_default k' (AList.update k v m) = (if k' = k then v else get_default k' m)"
  by (simp add: get_default_def update_conv')

lemma distinct_get_default:
  assumes "graph_wf g"
  shows "distinct (map fst (get_default v g))" "distinct (map fst (get_default w (get_default v g)))"
proof -
  have "(v, get_default v g) \<in> set g \<or> get_default v g = []"
    by (auto simp: get_default_def split: option.splits dest: map_of_SomeD)
  then have v: "distinct (map fst (get_default v g)) \<and> (\<forall>(w, em)\<in>set (get_default v g). distinct (map fst em))"
    using assms by (auto simp: graph_wf_def)
  have "(w, get_default w (get_default v g)) \<in> set (get_default v g) \<or> get_default w (get_default v g) = []"
    by (auto simp: get_default_def [of w] split: option.splits dest: map_of_SomeD)
  with v show "distinct (map fst (get_default v g))" "distinct (map fst (get_default w (get_default v g)))" by auto
qed

lemma graph_wf_update:
  assumes "graph_wf g" "distinct (map fst nm)" "\<forall>(w, em)\<in>set nm. distinct (map fst em)"
  shows "graph_wf (AList.update v nm g)"
  using assms by (auto simp: graph_wf_def distinct_update dest!: set_update_cases)

lemma get_default_ensure [simp]:
  "get_default k (if map_of g k' = None then AList.update k' [] g else g) = get_default k g"
  by (auto simp: get_default_def update_conv')

lemma AddEdge_wf: assumes "graph_wf g" shows "graph_wf (AddEdge g src dst segment e)"
proof -
  define g1 where "g1 = (if map_of g src = None then AList.update src [] g else g)"
  define g2 where "g2 = (if map_of g1 dst = None then AList.update dst [] g1 else g1)"
  have get_default_g: "get_default k g1 = get_default k g" "get_default k g2 = get_default k g" for k
    by (simp_all only: g1_def g2_def get_default_ensure)
  have "graph_wf g1" using assms by (auto simp: g1_def intro: graph_wf_update)
  then have g2: "graph_wf g2" by (auto simp: g2_def intro: graph_wf_update)
  have "(w, em) \<in> set (get_default src g) \<Longrightarrow> distinct (map fst em)" for w em
    using assms by (fastforce simp: get_default_def graph_wf_def split: option.splits dest: map_of_SomeD)
  then show ?thesis
    using g2 distinct_get_default [OF assms]
    by (auto simp: AddEdge_def Let_def g1_def [symmetric] g2_def [symmetric] get_default_g intro!: graph_wf_update distinct_update
        dest!: set_update_cases)
qed

lemma edge_in_AddEdge:
  "edge_in (AddEdge g src dst segment e) src' dst' segment' e' \<longleftrightarrow>
   (if src' = src \<and> dst' = dst \<and> segment' = segment then e' = e else edge_in g src' dst' segment' e')"
  by (auto simp: edge_in_def AddEdge_def Let_def get_default_update update_conv')

text \<open>An edge of a segment replaces an earlier one of the same segment between the same vertices.\<close>

definition keyed :: "(vertex \<times> vertex \<times> edge) list \<Rightarrow> ((vertex \<times> vertex) \<times> edge) list" where
  "keyed es = map (\<lambda>(src, dst, e). ((src, dst), e)) es"

lemma keyed_SomeD: "map_of (rev (keyed es)) (v, w) = Some e \<Longrightarrow> (v, w, e) \<in> set es"
  by (auto simp: keyed_def dest!: map_of_SomeD)

lemma keyed_ex: "(v, w, e) \<in> set es \<Longrightarrow> \<exists>e'. map_of (rev (keyed es)) (v, w) = Some e' \<and> (v, w, e') \<in> set es"
proof -
  assume "(v, w, e) \<in> set es"
  then have "(v, w) \<in> fst ` set (rev (keyed es))" by (force simp: keyed_def)
  then obtain e' where "map_of (rev (keyed es)) (v, w) = Some e'" by (metis map_of_eq_None_iff option.exhaust)
  then show ?thesis using keyed_SomeD by blast
qed

lemma edge_in_foldl:
  "edge_in (foldl (\<lambda>g (src, dst, e). AddEdge g src dst segment e) g es) v w s e \<longleftrightarrow>
   (if s = segment then (case map_of (rev (keyed es)) (v, w) of
      Some e' \<Rightarrow> e = e' | None \<Rightarrow> edge_in g v w s e) else edge_in g v w s e)"
proof (induction es arbitrary: g)
  case (Cons x es)
  obtain a b e0 where x: "x = (a, b, e0)" by (cases x)
  show ?case by (auto simp: x Cons.IH edge_in_AddEdge keyed_def map_add_def split: option.splits)
qed (simp add: keyed_def)

lemma traverse_all_edges:
  assumes "traverse_all segs g = Inr g'"
  shows "edge_in g' v w s e \<Longrightarrow> edge_in g v w s e \<or> s \<in> set segs \<and> (\<exists>es. segment_edges s = Inr es \<and> (v, w, e) \<in> set es)"
    "s \<in> set segs \<Longrightarrow> segment_edges s = Inr es \<Longrightarrow> (v, w, e) \<in> set es \<Longrightarrow> \<exists>e'. edge_in g' v w s e' \<and> (v, w, e') \<in> set es"
    "graph_wf g \<Longrightarrow> graph_wf g'"
proof -
  have all: "(edge_in g' v w s e \<longrightarrow> edge_in g v w s e \<or> s \<in> set segs \<and> (\<exists>es. segment_edges s = Inr es \<and> (v, w, e) \<in> set es)) \<and>
    ((s \<in> set segs \<or> (\<exists>e'. edge_in g v w s e' \<and> (v, w, e') \<in> set es)) \<and> segment_edges s = Inr es \<and> (v, w, e) \<in> set es \<longrightarrow>
       (\<exists>e'. edge_in g' v w s e' \<and> (v, w, e') \<in> set es)) \<and> (graph_wf g \<longrightarrow> graph_wf g')" for v w s e es
    using assms
  proof (induction segs arbitrary: g)
    case (Cons s0 segs)
    then obtain es0 where es0: "segment_edges s0 = Inr es0"
      "traverse_all segs (foldl (\<lambda>g (src, dst, e). AddEdge g src dst s0 e) g es0) = Inr g'"
      by (auto simp: traverseSegment_def res_simps)
    have wf: "graph_wf g \<Longrightarrow> graph_wf (foldl (\<lambda>g (src, dst, e). AddEdge g src dst s0 e) g es')" for es'
      by (induction es' arbitrary: g) (auto simp: AddEdge_wf)
    show ?case using Cons.IH [OF es0(2)] es0(1) wf keyed_ex [of v w e es0]
      by (auto simp: edge_in_foldl split: if_splits option.splits dest: keyed_SomeD)
  qed simp
  show "edge_in g' v w s e \<Longrightarrow> edge_in g v w s e \<or> s \<in> set segs \<and> (\<exists>es. segment_edges s = Inr es \<and> (v, w, e) \<in> set es)"
    "s \<in> set segs \<Longrightarrow> segment_edges s = Inr es \<Longrightarrow> (v, w, e) \<in> set es \<Longrightarrow> \<exists>e'. edge_in g' v w s e' \<and> (v, w, e') \<in> set es"
    "graph_wf g \<Longrightarrow> graph_wf g'"
    using all by blast+
qed

section \<open>The search finds exactly the routes\<close>

text \<open>A route: edges of the graph that follow each other from \<open>v\<close> to \<open>dst\<close>, with segments in the order up, core, down, that
  does not pass \<open>dst\<close> before its end.\<close>

fun route :: "dmg \<Rightarrow> vertex \<Rightarrow> input_segment option \<Rightarrow> vertex \<Rightarrow> solution_edge list \<Rightarrow> bool" where
  "route g v cs dst [] = False"
| "route g v cs dst (se # ses) \<longleftrightarrow> SolSrc se = v \<and> edge_in g v (SolDst se) (SolSegment se) (SolEdge se) \<and>
     validNextSeg cs (SolSegment se) \<and>
     (if ses = [] then SolDst se = dst
      else SolDst se \<noteq> dst \<and> route g (SolDst se) (Some (SolSegment se)) dst ses)"

inductive leads :: "dmg \<Rightarrow> vertex \<Rightarrow> path_solution \<Rightarrow> path_solution \<Rightarrow> bool" for g dst where
  found: "s' \<in> set (successors g s) \<Longrightarrow> currentVertex s' = dst \<Longrightarrow> leads g dst s s'"
| further: "s1 \<in> set (successors g s) \<Longrightarrow> currentVertex s1 \<noteq> dst \<Longrightarrow> leads g dst s1 s' \<Longrightarrow> leads g dst s s'"

lemma leads_iff: "leads g dst s s' \<longleftrightarrow> (\<exists>s1\<in>set (successors g s). if currentVertex s1 = dst then s1 = s' else leads g dst s1 s')"
proof
  show "leads g dst s s' \<Longrightarrow> \<exists>s1\<in>set (successors g s). if currentVertex s1 = dst then s1 = s' else leads g dst s1 s'"
    by (erule leads.cases) fastforce+
qed (auto intro: leads.intros split: if_splits)

lemma search_loop_set:
  "set (search_loop g dst queue solutions) = set solutions \<union> {s'. \<exists>s\<in>set queue. leads g dst s s'}"
proof (induction g dst queue solutions rule: search_loop.induct)
  case (2 g dst s queue solutions)
  have "leads g dst s s' \<longleftrightarrow> (\<exists>s1\<in>set (successors g s). if currentVertex s1 = dst then s1 = s' else leads g dst s1 s')" for s'
    by (rule leads_iff)
  then show ?case using 2 [OF refl] by (auto simp: Let_def split: if_splits)
qed simp

lemma successors_iff:
  assumes "graph_wf g"
  shows "s' \<in> set (successors g s) \<longleftrightarrow> (\<exists>w seg e. edge_in g (currentVertex s) w seg e \<and> validNextSeg (currentSeg s) seg \<and>
     s' = extend_solution s w seg e)"
proof -
  let ?nm = "get_default (currentVertex s) g"
  have d: "distinct (map fst ?nm)" "distinct (map fst (get_default w ?nm))" for w
    by (rule distinct_get_default [OF assms])+
  have "(\<exists>em. (w, em) \<in> set ?nm \<and> (seg, e) \<in> set em) \<longleftrightarrow> edge_in g (currentVertex s) w seg e" for w seg e
  proof
    assume "\<exists>em. (w, em) \<in> set ?nm \<and> (seg, e) \<in> set em"
    then obtain em where em: "(w, em) \<in> set ?nm" "(seg, e) \<in> set em" by blast
    have "get_default w ?nm = em" using map_of_is_SomeI [OF d(1) em(1)] by (simp add: get_default_def [of w])
    then show "edge_in g (currentVertex s) w seg e" using map_of_is_SomeI [OF d(2) [of w]] em(2) by (simp add: edge_in_def)
  next
    assume e: "edge_in g (currentVertex s) w seg e"
    then have "(seg, e) \<in> set (get_default w ?nm)" by (simp add: edge_in_def map_of_SomeD)
    moreover from e have "(w, get_default w ?nm) \<in> set ?nm"
      by (auto simp: edge_in_def get_default_def [of w] split: option.splits dest: map_of_SomeD)
    ultimately show "\<exists>em. (w, em) \<in> set ?nm \<and> (seg, e) \<in> set em" by blast
  qed
  then show ?thesis by (auto simp: successors_def) blast+
qed

text \<open>The solution that a list of edges stands for.\<close>

definition add_edges :: "path_solution \<Rightarrow> solution_edge list \<Rightarrow> path_solution" where
  "add_edges s ses = foldl (\<lambda>s se. extend_solution s (SolDst se) (SolSegment se) (SolEdge se)) s ses"

lemma leads_route:
  assumes "graph_wf g"
  shows "leads g dst s s' \<longleftrightarrow> (\<exists>ses. route g (currentVertex s) (currentSeg s) dst ses \<and> s' = add_edges s ses)"
proof
  assume "leads g dst s s'"
  then show "\<exists>ses. route g (currentVertex s) (currentSeg s) dst ses \<and> s' = add_edges s ses"
  proof induction
    case (found s' s)
    then obtain w seg e where "edge_in g (currentVertex s) w seg e" "validNextSeg (currentSeg s) seg" "s' = extend_solution s w seg e"
      by (auto simp: successors_iff [OF assms])
    with found(2) show ?case
      by (intro exI [of _ "[\<lparr>SolEdge = e, SolSrc = currentVertex s, SolDst = w, SolSegment = seg\<rparr>]"])
        (auto simp: add_edges_def extend_solution_def)
  next
    case (further s1 s s')
    then obtain w seg e ses where w: "edge_in g (currentVertex s) w seg e" "validNextSeg (currentSeg s) seg" "s1 = extend_solution s w seg e"
      "route g (currentVertex s1) (currentSeg s1) dst ses" "s' = add_edges s1 ses"
      by (auto simp: successors_iff [OF assms])
    moreover have "ses \<noteq> []" using w(4) by auto
    ultimately show ?case using further(2)
      by (intro exI [of _ "\<lparr>SolEdge = e, SolSrc = currentVertex s, SolDst = w, SolSegment = seg\<rparr> # ses"])
        (auto simp: add_edges_def extend_solution_def)
  qed
next
  have "route g (currentVertex s) (currentSeg s) dst ses \<Longrightarrow> leads g dst s (add_edges s ses)" for ses
  proof (induction ses arbitrary: s)
    case (Cons se ses)
    let ?s1 = "extend_solution s (SolDst se) (SolSegment se) (SolEdge se)"
    have s1: "?s1 \<in> set (successors g s)" "currentVertex ?s1 = SolDst se" "currentSeg ?s1 = Some (SolSegment se)"
      using Cons.prems by (auto simp: successors_iff [OF assms] extend_solution_def)
    show ?case
    proof (cases "ses = []")
      case True
      then show ?thesis using Cons.prems s1 by (auto simp: add_edges_def intro: leads.found)
    next
      case False
      then show ?thesis using Cons.prems s1 Cons.IH [of ?s1] by (auto simp: add_edges_def intro: leads.further)
    qed
  qed simp
  then show "\<exists>ses. route g (currentVertex s) (currentSeg s) dst ses \<and> s' = add_edges s ses \<Longrightarrow> leads g dst s s'" by blast
qed

lemma route_srcs: "route g v cs dst ses \<Longrightarrow> SolEdges (add_edges s ses) = SolEdges s @ ses \<or> currentVertex s \<noteq> v"
proof (induction ses arbitrary: v cs s)
  case (Cons se ses)
  let ?s1 = "extend_solution s (SolDst se) (SolSegment se) (SolEdge se)"
  have "currentVertex s = v \<Longrightarrow> SolEdges ?s1 = SolEdges s @ [se]" "currentVertex ?s1 = SolDst se"
    using Cons.prems by (auto simp: extend_solution_def)
  then show ?case using Cons.prems Cons.IH [of "SolDst se" "Some (SolSegment se)" ?s1]
    by (auto simp: add_edges_def split: if_splits)
qed simp

lemma cost_add_edges: "cost (add_edges s ses) = cost s + sum_list (map (\<lambda>se. EWeight (SolEdge se)) ses)"
  by (induction ses arbitrary: s) (simp_all add: add_edges_def extend_solution_def)

section \<open>The order of the solutions\<close>

text \<open>What \<open>Less\<close> compares, as a key in the lexicographic order.\<close>

definition edge_key :: "(bytes \<Rightarrow> bytes) \<Rightarrow> solution_edge \<Rightarrow> bytes \<times> nat \<times> nat" where
  "edge_key sha256 se = (Seg_ID sha256 (ISSeg (SolSegment se)), EShortcut (SolEdge se), EPeer (SolEdge se))"

definition sol_key :: "(bytes \<Rightarrow> bytes) \<Rightarrow> path_solution \<Rightarrow> nat \<times> nat \<times> (bytes \<times> nat \<times> nat) list" where
  "sol_key sha256 s = (cost s, length (SolEdges s), map (edge_key sha256) (SolEdges s))"

lemma bytes_Compare_eq: "bytes_Compare a b = (if a < b then -1 else if b < a then 1 else 0)"
  by (induction a b rule: bytes_Compare.induct) auto

lemma trail_Less_iff:
  "length xs = length ys \<Longrightarrow> trail_Less sha256 (zip xs ys) \<longleftrightarrow> map (edge_key sha256) xs < map (edge_key sha256) ys"
  by (induction xs ys rule: list_induct2) (auto simp: bytes_Compare_eq edge_key_def Let_def)

lemma solution_Less_iff: "solution_Less sha256 a b \<longleftrightarrow> sol_key sha256 a < sol_key sha256 b"
  by (auto simp: solution_Less_def sol_key_def trail_Less_iff)

lemma mset_insert_by: "mset (insert_by lt x xs) = add_mset x (mset xs)"
  by (induction xs) auto

lemma mset_sort_by: "mset (sort_by lt xs) = mset xs"
  by (induction xs) (auto simp: sort_by_def mset_insert_by)

lemma set_sort_by [simp]: "set (sort_by lt xs) = set xs"
  using mset_sort_by [of lt xs] by (metis set_mset_mset)

lemma sorted_insert_by:
  fixes f :: "'a \<Rightarrow> 'b::linorder"
  shows "sorted (map f xs) \<Longrightarrow> sorted (map f (insert_by (\<lambda>a b. f a < f b) x xs))"
proof (induction xs)
  case (Cons y ys)
  have "set (insert_by (\<lambda>a b. f a < f b) x ys) = insert x (set ys)"
    using mset_insert_by [of "\<lambda>a b. f a < f b" x ys] by (metis set_mset_add_mset_insert set_mset_mset)
  with Cons show ?case by auto
qed simp

lemma sorted_sort_by:
  fixes f :: "'a \<Rightarrow> 'b::linorder"
  shows "sorted (map f (sort_by (\<lambda>a b. f a < f b) xs))"
  by (induction xs) (simp_all add: sort_by_def sorted_insert_by)

lemma GetPaths_routes:
  assumes "graph_wf g"
  shows "set (GetPaths sha256 g src dst) =
      {add_edges \<lparr>SolEdges = [], currentVertex = src, currentSeg = None, cost = 0\<rparr> ses | ses. route g src None dst ses}"
    "s \<in> set (GetPaths sha256 g src dst) \<Longrightarrow> route g src None dst (SolEdges s) \<and> cost s = sum_list (map (\<lambda>se. EWeight (SolEdge se)) (SolEdges s))"
proof -
  let ?s0 = "\<lparr>SolEdges = [], currentVertex = src, currentSeg = None, cost = 0\<rparr>"
  show eq: "set (GetPaths sha256 g src dst) = {add_edges ?s0 ses | ses. route g src None dst ses}"
    by (auto simp: GetPaths_def search_loop_set leads_route [OF assms] simp del: search_loop.simps)
  show "s \<in> set (GetPaths sha256 g src dst) \<Longrightarrow> route g src None dst (SolEdges s) \<and> cost s = sum_list (map (\<lambda>se. EWeight (SolEdge se)) (SolEdges s))"
    using route_srcs [of g src None dst _ ?s0] by (auto simp: eq cost_add_edges)
qed

lemma newDMG_wf:
  assumes "newDMG ups cores downs = Inr g"
  shows "graph_wf g"
  using assms traverse_all_edges(3) [of "input_segments ups cores downs" "[]" g] by (simp add: newDMG_def graph_wf_def)

lemma newDMG_edge:
  assumes "newDMG ups cores downs = Inr g" "edge_in g v w s e"
  shows "s \<in> set (input_segments ups cores downs)" "\<exists>es. segment_edges s = Inr es \<and> (v, w, e) \<in> set es"
  using traverse_all_edges(1) [of "input_segments ups cores downs" "[]" g v w s e] assms
  by (auto simp: newDMG_def edge_in_def get_default_def)

end
