(* ===== verification/Combinator_Paths.thy ===== *)
theory Combinator_Paths
  imports Combinator Router_Forwarding
begin

unbundle bit_operations_syntax

text \<open>
  The paths of the combinator at the border routers: the control plane (beacons, segments, combination) composed with the
  checks of the data plane. \<open>walk_ok\<close> follows a packet over one segment of a path, with the updates of the
  segment identifier that the routers make, and asks every router to verify the hop field of its AS.
\<close>

section \<open>Verification along a segment\<close>

text \<open>The first hop is verified as it is, both at the source and after a segment switch; later ones are entered over a link.\<close>

fun walk_ok :: "(u64 \<Rightarrow> bytes \<Rightarrow> bytes) \<Rightarrow> u16 \<Rightarrow> info_field \<Rightarrow> (u64 \<times> hop_field) list \<Rightarrow> bool" where
  "walk_ok K ing info [] = True"
| "walk_ok K ing info ((ia, h) # hs) = (let i = seg_in ing info h in
     mac_ok (K ia) i h \<and> walk_ok K 1 (seg_out i h) hs)"

definition as_hop :: "path_segment \<Rightarrow> nat \<Rightarrow> u64 \<times> hop_field" where
  "as_hop ps i = (ASLocal (ASEntries ps ! i), hop_of (EntryHop (HopEntry (ASEntries ps ! i))))"

lemma hop_authentic_mac_ok:
  assumes "hop_authentic mac ts (SegID info) h" "Timestamp info = TimeToSecs ts"
  shows "mac_ok mac info (hop_of h)"
proof -
  have "MACInput (SegID info) (TimeToSecs ts) (SExpTime h) (SConsIngress h) (SConsEgress h) (replicate MACBufferSize 0) =
      mac_block info (hop_of h)"
    using MACInput_mac_block [of "replicate MACBufferSize 0" info "hop_of h"] assms(2) by (simp add: hop_of_def MACBufferSize_def)
  then have m: "SMAC h = take MacLen (mac (mac_block info (hop_of h)))" using assms(1) by (simp add: hop_authentic_def slice_def)
  have "Mac (hop_of h) = SMAC h" by (simp add: hop_of_def)
  then show ?thesis unfolding mac_ok_def using arg_cong [OF m, of "take MacLen"] by simp
qed

lemma as_hop_mac_ok:
  assumes "authentic K ps" "i < length (ASEntries ps)" "SegID info = seg_beta ps i"
    "Timestamp info = TimeToSecs (InfoTimestamp (SInfo ps))"
  shows "mac_ok (K (fst (as_hop ps i))) info (snd (as_hop ps i))"
  using assms hop_authentic_mac_ok [of "K (ASLocal (ASEntries ps ! i))" "InfoTimestamp (SInfo ps)" info]
  by (simp add: authentic_def as_hop_def Let_def)

lemma SegID_UpdateSegID:
  assumes "i < length (ASEntries ps)"
  shows "SegID info = seg_beta ps i \<Longrightarrow> SegID (UpdateSegID info (Mac (snd (as_hop ps i)))) = seg_beta ps (Suc i)"
    "SegID info = seg_beta ps (Suc i) \<Longrightarrow> SegID (UpdateSegID info (Mac (snd (as_hop ps i)))) = seg_beta ps i"
  using assms by (auto simp: UpdateSegID_def as_hop_def hop_of_def seg_beta_Suc xor.assoc)

lemma walk_down:
  assumes "authentic K ps" "ConsDir info" "SegID info = seg_beta ps i" "Timestamp info = TimeToSecs (InfoTimestamp (SInfo ps))"
    "i \<le> n" "n \<le> length (ASEntries ps)"
  shows "walk_ok K ing info (map (as_hop ps) [i..<n])"
  using assms(2-5)
proof (induction "n - i" arbitrary: i info ing)
  case (Suc k)
  then have i: "i < n" "i < length (ASEntries ps)" "[i..<n] = i # [Suc i..<n]" using assms(6) by (auto simp: upt_conv_Cons)
  obtain ia h where a: "as_hop ps i = (ia, h)" by (cases "as_hop ps i")
  have m: "mac_ok (K ia) info h" using as_hop_mac_ok [OF assms(1) i(2) Suc.prems(2,3)] a by simp
  have "walk_ok K 1 (UpdateSegID info (Mac h)) (map (as_hop ps) [Suc i..<n])"
    using Suc.hyps(1) [of "Suc i" "UpdateSegID info (Mac h)" 1] Suc.hyps(2) Suc.prems i SegID_UpdateSegID(1) [OF i(2), of info] a by simp
  then show ?case using m Suc.prems(1) by (simp add: i(3) a seg_in_def seg_out_def Let_def)
qed simp

lemma walk_up:
  assumes "authentic K ps" "\<not> ConsDir info" "SegID info = seg_beta ps j" "Timestamp info = TimeToSecs (InfoTimestamp (SInfo ps))"
    "j \<le> length (ASEntries ps)"
  shows "walk_ok K 1 info (map (as_hop ps) (rev [i..<j]))"
  using assms(2-5)
proof (induction j arbitrary: info)
  case (Suc j)
  show ?case
  proof (cases "i \<le> j")
    case True
    have j: "j < length (ASEntries ps)" using Suc.prems(4) by simp
    obtain ia h where a: "as_hop ps j = (ia, h)" by (cases "as_hop ps j")
    let ?info = "UpdateSegID info (Mac h)"
    have s: "SegID ?info = seg_beta ps j" using SegID_UpdateSegID(2) [OF j Suc.prems(2)] a by simp
    have "mac_ok (K ia) ?info h" using as_hop_mac_ok [OF assms(1) j s] Suc.prems(3) a by simp
    moreover have "walk_ok K 1 ?info (map (as_hop ps) (rev [i..<j]))" using Suc.IH [of ?info] Suc.prems s j by simp
    ultimately show ?thesis using True Suc.prems(1) by (simp add: a seg_in_def seg_out_def Let_def)
  qed simp
qed simp

lemma walk_up_first:
  assumes "authentic K ps" "\<not> ConsDir info" "SegID info = seg_beta ps (length (ASEntries ps) - 1)"
    "Timestamp info = TimeToSecs (InfoTimestamp (SInfo ps))" "i < length (ASEntries ps)"
  shows "walk_ok K 0 info (map (as_hop ps) (rev [i..<length (ASEntries ps)]))"
proof -
  define j where "j = length (ASEntries ps) - 1"
  have j: "length (ASEntries ps) = Suc j" "i \<le> j" "j < length (ASEntries ps)" using assms(5) by (auto simp: j_def)
  obtain ia h where a: "as_hop ps j = (ia, h)" by (cases "as_hop ps j")
  have "mac_ok (K ia) info h" using as_hop_mac_ok [OF assms(1) j(3) _ assms(4)] assms(3) a by (simp add: j_def)
  moreover have "walk_ok K 1 info (map (as_hop ps) (rev [i..<j]))"
    using walk_up [OF assms(1,2) _ assms(4), of j] assms(3) by (simp add: j_def)
  ultimately show ?thesis using assms(2) j by (simp add: a seg_in_def seg_out_def Let_def)
qed

section \<open>The segments of a solution\<close>

text \<open>Where an edge of a segment begins and ends, and that it points into the segment.\<close>

definition edge_ok :: "solution_edge \<Rightarrow> bool" where
  "edge_ok se \<longleftrightarrow> (let es = ASEntries (ISSeg (SolSegment se)); e = SolEdge se in
     EShortcut e < length es \<and> EPeer e \<le> length (PeerEntries (es ! EShortcut e)) \<and>
     (EPeer e = 0 \<longrightarrow>
       (if ISType (SolSegment se) = PathSegDown
        then SolSrc se = vertexFromIA (ASLocal (es ! EShortcut e)) \<and> SolDst se = vertexFromIA (ASLocal (last es))
        else SolSrc se = vertexFromIA (ASLocal (last es)) \<and> SolDst se = vertexFromIA (ASLocal (es ! EShortcut e)))))"

lemma vertex_Reverse_IA [simp]: "vertex_Reverse (vertexFromIA ia) = vertexFromIA ia"
  by (simp add: vertex_Reverse_def vertexFromIA_def)

lemma vertexFromIA_inject [simp]: "vertexFromIA a = vertexFromIA b \<longleftrightarrow> a = b"
  by (simp add: vertexFromIA_def)

lemma entry_tuples_shape:
  assumes "(a, b, k) \<in> set (entry_tuples es i)"
  shows "a = vertexFromIA (ASLocal (last es))" "k \<le> length (PeerEntries (es ! i))" "k = 0 \<Longrightarrow> b = vertexFromIA (ASLocal (es ! i))"
  using assms by (auto simp: entry_tuples_def Let_def in_set_enumerate_eq split: if_splits)

lemma segment_edges_ok:
  assumes "segment_edges (SolSegment se) = Inr es" "(SolSrc se, SolDst se, SolEdge se) \<in> set es"
  shows "edge_ok se"
proof (cases "ISType (SolSegment se) = PathSegCore")
  case True
  then show ?thesis using assms by (auto simp: segment_edges_def edge_ok_def Let_def hd_conv_nth split: if_splits)
next
  case False
  let ?es = "ASEntries (ISSeg (SolSegment se))"
  from assms False obtain i a b k where i: "i < length ?es" "(a, b, k) \<in> set (entry_tuples ?es i)"
    "(SolSrc se, SolDst se, SolEdge se) = tuple_edge (ISType (SolSegment se)) (length ?es) i (a, b, k)"
    by (auto simp: segment_edges_def Let_def split: if_splits)
  then show ?thesis using entry_tuples_shape [OF i(2)] by (auto simp: edge_ok_def tuple_edge_def Let_def split: if_splits)
qed

definition hop_at :: "solution_edge \<Rightarrow> nat \<Rightarrow> hop_field" where
  "hop_at se i = (let e = ASEntries (ISSeg (SolSegment se)) ! i in
     if i = EShortcut (SolEdge se) \<and> EPeer (SolEdge se) \<noteq> 0 then hop_of (PeerHop (PeerEntries e ! (EPeer (SolEdge se) - 1)))
     else hop_of (EntryHop (HopEntry e)))"

lemma entry_hop_ok:
  assumes "edge_ok se"
  shows "\<exists>m. entry_hop se i = Inr (hop_at se i, m)"
  using assms by (auto simp: entry_hop_def hop_at_def edge_ok_def Let_def)

lemma entries_loop_ok:
  assumes "edge_ok se"
  shows "\<exists>intfs m. entries_loop se is mtu = Inr (map (hop_at se) is, intfs, m)"
proof (induction "is" arbitrary: mtu)
  case (Cons i "is")
  obtain l where "entry_hop se i = Inr (hop_at se i, l)" using entry_hop_ok [OF assms] by blast
  moreover define mtu' where "mtu' = (let mtu = minUint16 mtu (word_of_int (ASMTU (ASEntries (ISSeg (SolSegment se)) ! i))) in
      if l \<noteq> 0 then minUint16 mtu (word_of_int l) else mtu)"
  moreover obtain intfs m where "entries_loop se is mtu' = Inr (map (hop_at se) is, intfs, m)" using Cons by blast
  ultimately show ?case by (simp add: Let_def)
qed simp

text \<open>The part of a segment an edge uses, in the direction of travel.\<close>

definition used_entries :: "solution_edge \<Rightarrow> nat list" where
  "used_entries se = (let r = [EShortcut (SolEdge se)..<length (ASEntries (ISSeg (SolSegment se)))] in
     if ISType (SolSegment se) = PathSegDown then r else rev r)"

definition edge_info :: "solution_edge \<Rightarrow> info_field" where
  "edge_info se = (let ps = ISSeg (SolSegment se) in
     \<lparr>info_field.Peer = (EPeer (SolEdge se) \<noteq> 0), ConsDir = IsDownSeg (SolSegment se),
      SegID = seg_beta ps (if IsDownSeg (SolSegment se)
        then EShortcut (SolEdge se) + (if EPeer (SolEdge se) \<noteq> 0 then 1 else 0) else length (ASEntries ps) - 1),
      Timestamp = TimeToSecs (InfoTimestamp (SInfo ps))\<rparr>)"

lemma edge_segment_ok:
  assumes "edge_ok se"
  shows "\<exists>s m. edge_segment se mtu = Inr (s, m) \<and> CInfo s = edge_info se \<and> CHops s = map (hop_at se) (used_entries se)"
proof -
  let ?ps = "ISSeg (SolSegment se)"
  obtain intfs m where e: "entries_loop se (rev [EShortcut (SolEdge se)..<length (ASEntries ?ps)]) mtu =
      Inr (map (hop_at se) (rev [EShortcut (SolEdge se)..<length (ASEntries ?ps)]), intfs, m)"
    using entries_loop_ok [OF assms] by blast
  have "calculateBeta se = Inr (SegID (edge_info se))"
    using assms by (auto simp: calculateBeta_def edge_info_def seg_beta_def edge_ok_def Let_def)
  then show ?thesis using e
    by (auto simp: edge_segment_def edge_info_def used_entries_def IsDownSeg_def Let_def rev_map)
qed

lemma edge_segments_ok:
  assumes "list_all edge_ok ses" "edge_segments ses mtu = Inr (ss, m)"
  shows "map CInfo ss = map edge_info ses \<and> map CHops ss = map (\<lambda>se. map (hop_at se) (used_entries se)) ses"
  using assms
proof (induction ses arbitrary: ss mtu)
  case (Cons se ses)
  from edge_segment_ok [of se mtu] Cons.prems obtain s m' where s: "edge_segment se mtu = Inr (s, m')" "CInfo s = edge_info se"
    "CHops s = map (hop_at se) (used_entries se)" by auto
  with Cons.prems obtain ss' where "edge_segments ses m' = Inr (ss', m)" "ss = s # ss'" by (auto simp: res_simps)
  with Cons s show ?case by auto
qed simp

text \<open>Without a peering link, every router on the way verifies the hop field of its AS.\<close>

lemma edge_walk:
  assumes "edge_ok se" "EPeer (SolEdge se) = 0" "authentic K (ISSeg (SolSegment se))"
  shows "walk_ok K 0 (edge_info se) (zip (map (\<lambda>i. ASLocal (ASEntries (ISSeg (SolSegment se)) ! i)) (used_entries se))
      (map (hop_at se) (used_entries se)))"
proof -
  let ?ps = "ISSeg (SolSegment se)"
  have z: "zip (map (\<lambda>i. ASLocal (ASEntries ?ps ! i)) (used_entries se)) (map (hop_at se) (used_entries se)) =
      map (as_hop ?ps) (used_entries se)"
    using assms(2) by (simp add: zip_map_map zip_same_conv_map as_hop_def hop_at_def Let_def comp_def)
  have sc: "EShortcut (SolEdge se) < length (ASEntries ?ps)" using assms(1) by (simp add: edge_ok_def Let_def)
  show ?thesis unfolding z
  proof (cases "ISType (SolSegment se) = PathSegDown")
    case True
    then show "walk_ok K 0 (edge_info se) (map (as_hop ?ps) (used_entries se))" using walk_down [OF assms(3), of "edge_info se" "EShortcut (SolEdge se)" "length (ASEntries ?ps)"] sc assms(2)
      by (simp add: used_entries_def edge_info_def IsDownSeg_def Let_def)
  next
    case False
    then show "walk_ok K 0 (edge_info se) (map (as_hop ?ps) (used_entries se))" using walk_up_first [OF assms(3), of "edge_info se"] sc
      by (simp add: used_entries_def edge_info_def IsDownSeg_def Let_def)
  qed
qed

section \<open>Routes\<close>

text \<open>A path over the given segments from AS \<open>a\<close> to AS \<open>b\<close>: each segment starts in the AS where the one before ended,
  and all routers on it verify.\<close>

fun crosses :: "(u64 \<Rightarrow> bytes \<Rightarrow> bytes) \<Rightarrow> u64 \<Rightarrow> comb_segment list \<Rightarrow> u64 \<Rightarrow> bool" where
  "crosses K a [] b \<longleftrightarrow> a = b"
| "crosses K a (s # ss) b \<longleftrightarrow> (\<exists>ias. ias \<noteq> [] \<and> length ias = length (CHops s) \<and> hd ias = a \<and>
     walk_ok K 0 (CInfo s) (zip ias (CHops s)) \<and> crosses K (last ias) ss b)"

lemma route_edges:
  assumes "newDMG ups cores downs = Inr g" "route g v cs dst ses"
  shows "list_all edge_ok ses" "\<forall>se\<in>set ses. ISSeg (SolSegment se) \<in> set (ups @ cores @ downs)"
proof -
  have e: "edge_ok se \<and> ISSeg (SolSegment se) \<in> set (ups @ cores @ downs)"
    if "edge_in g (SolSrc se) (SolDst se) (SolSegment se) (SolEdge se)" for se
    using newDMG_edge [OF assms(1) that] segment_edges_ok [of se]
    by (auto simp: input_segments_def in_set_enumerate_eq nth_append split: if_splits)
  have "\<forall>se\<in>set ses. edge_in g (SolSrc se) (SolDst se) (SolSegment se) (SolEdge se)"
    using assms(2) by (induction ses arbitrary: v cs) (auto split: if_splits)
  with e show "list_all edge_ok ses" "\<forall>se\<in>set ses. ISSeg (SolSegment se) \<in> set (ups @ cores @ downs)"
    by (auto simp: list_all_iff)
qed

lemma route_length:
  "route g v cs dst ses \<Longrightarrow> length ses \<le> (case cs of None \<Rightarrow> 3 | Some s \<Rightarrow>
     (case ISType s of PathSegUp \<Rightarrow> 2 | PathSegCore \<Rightarrow> 1 | PathSegDown \<Rightarrow> 0))"
proof (induction ses arbitrary: v cs)
  case (Cons se ses)
  show ?case
  proof (cases "ses = []")
    case True
    then show ?thesis using Cons.prems by (auto simp: validNextSeg_def split: option.splits pseg_type.splits)
  next
    case False
    then show ?thesis using Cons.IH [of "SolDst se" "Some (SolSegment se)"] Cons.prems
      by (auto simp: validNextSeg_def split: option.splits pseg_type.splits)
  qed
qed simp

lemma used_entries_ends:
  assumes "edge_ok se" "EPeer (SolEdge se) = 0"
  shows "used_entries se \<noteq> []"
    "vertexFromIA (ASLocal (ASEntries (ISSeg (SolSegment se)) ! hd (used_entries se))) = SolSrc se"
    "vertexFromIA (ASLocal (ASEntries (ISSeg (SolSegment se)) ! last (used_entries se))) = SolDst se"
proof -
  let ?es = "ASEntries (ISSeg (SolSegment se))" and ?k = "EShortcut (SolEdge se)"
  have k1: "?k < length ?es" using assms(1) by (simp add: edge_ok_def Let_def)
  then have "?es \<noteq> []" by auto
  then have k: "?k < length ?es" "last ?es = ?es ! (length ?es - 1)" using k1 by (simp_all add: last_conv_nth)
  then have "hd [?k..<length ?es] = ?k" "last [?k..<length ?es] = length ?es - 1" "[?k..<length ?es] \<noteq> []" by auto
  then show "used_entries se \<noteq> []" "vertexFromIA (ASLocal (?es ! hd (used_entries se))) = SolSrc se"
    "vertexFromIA (ASLocal (?es ! last (used_entries se))) = SolDst se"
    using assms k(2) by (auto simp: used_entries_def edge_ok_def Let_def hd_rev last_rev split: if_splits)
qed

lemma route_crosses:
  assumes "route g (vertexFromIA a) cs (vertexFromIA b) ses" "list_all edge_ok ses" "\<forall>se\<in>set ses. EPeer (SolEdge se) = 0"
    "\<forall>se\<in>set ses. authentic K (ISSeg (SolSegment se))"
    "map CInfo ss = map edge_info ses" "map CHops ss = map (\<lambda>se. map (hop_at se) (used_entries se)) ses"
  shows "crosses K a ss b"
  using assms
proof (induction ses arbitrary: a cs ss)
  case (Cons se ses)
  obtain s ss' where ss: "ss = s # ss'" "CInfo s = edge_info se" "CHops s = map (hop_at se) (used_entries se)"
    "map CInfo ss' = map edge_info ses" "map CHops ss' = map (\<lambda>se. map (hop_at se) (used_entries se)) ses"
    using Cons.prems(5,6) by (cases ss) auto
  have se: "edge_ok se" "EPeer (SolEdge se) = 0" "authentic K (ISSeg (SolSegment se))" using Cons.prems(2-4) by auto
  define ias where "ias = map (\<lambda>i. ASLocal (ASEntries (ISSeg (SolSegment se)) ! i)) (used_entries se)"
  note ends = used_entries_ends [OF se(1,2)]
  have i: "ias \<noteq> []" "length ias = length (CHops s)" "vertexFromIA (hd ias) = SolSrc se" "vertexFromIA (last ias) = SolDst se"
    using ends by (simp_all add: ias_def ss(3) hd_map last_map)
  have "hd ias = a" using i(3) Cons.prems(1) by auto
  moreover have "walk_ok K 0 (CInfo s) (zip ias (CHops s))" using edge_walk [OF se] by (simp add: ias_def ss(2,3))
  moreover have "crosses K (last ias) ss' b"
  proof (cases "ses = []")
    case True
    then have "SolDst se = vertexFromIA b" "ss' = []" using Cons.prems(1) ss(4) by simp_all
    then show ?thesis using i(4) by simp
  next
    case False
    then have "route g (vertexFromIA (last ias)) (Some (SolSegment se)) (vertexFromIA b) ses" using Cons.prems(1) i(4) by simp
    then show ?thesis using Cons.IH [OF _ _ _ _ ss(4,5)] Cons.prems(2-4) by auto
  qed
  ultimately show ?case using i(1,2) ss(1) by auto
qed simp

section \<open>Expiry and wire format\<close>

lemma computeHopFieldsTTL_le: "h \<in> set (CHops s) \<Longrightarrow> computeHopFieldsTTL s \<le> ExpTimeToDuration (ExpTime h)"
proof -
  have "foldl (\<lambda>m hf. let t = ExpTimeToDuration (ExpTime hf) in if m > t then t else m) a hs \<le> a \<and>
    (\<forall>h\<in>set hs. foldl (\<lambda>m hf. let t = ExpTimeToDuration (ExpTime hf) in if m > t then t else m) a hs \<le> ExpTimeToDuration (ExpTime h))"
    for a hs
  proof (induction hs arbitrary: a)
    case (Cons x hs)
    let ?b = "let t = ExpTimeToDuration (ExpTime x) in if a > t then t else a"
    have "?b \<le> a" "?b \<le> ExpTimeToDuration (ExpTime x)" by (auto simp: Let_def)
    with Cons [of ?b] show ?case by (auto simp del: Let_def intro: order_trans)
  qed simp
  then show "h \<in> set (CHops s) \<Longrightarrow> computeHopFieldsTTL s \<le> ExpTimeToDuration (ExpTime h)"
    unfolding computeHopFieldsTTL_def by blast
qed

lemma list_ComputeExpTime_le: "s \<in> set ss \<Longrightarrow> list_ComputeExpTime ss \<le> seg_ComputeExpTime s"
proof -
  have "foldl (\<lambda>m s. let t = seg_ComputeExpTime s in if m > t then t else m) a ss \<le> a \<and>
    (\<forall>s\<in>set ss. foldl (\<lambda>m s. let t = seg_ComputeExpTime s in if m > t then t else m) a ss \<le> seg_ComputeExpTime s)" for a ss
  proof (induction ss arbitrary: a)
    case (Cons x ss)
    let ?b = "let t = seg_ComputeExpTime x in if a > t then t else a"
    have "?b \<le> a" "?b \<le> seg_ComputeExpTime x" by (auto simp: Let_def)
    with Cons [of ?b] show ?case by (auto simp del: Let_def intro: order_trans)
  qed simp
  then show "s \<in> set ss \<Longrightarrow> list_ComputeExpTime ss \<le> seg_ComputeExpTime s"
    unfolding list_ComputeExpTime_def by blast
qed

lemma list_decoded_wf:
  assumes "length ss \<le> 3" "\<forall>s\<in>set ss. CHops s \<noteq> [] \<and> length (CHops s) < 64 \<and> list_all hop_wf (CHops s)"
  shows "decoded_wf (list_decoded ss)"
proof -
  have w: "(word_of_nat (length (CHops s)) :: u8) < 64" "(word_of_nat (length (CHops s)) :: u8) \<noteq> 0"
    "unat (word_of_nat (length (CHops s)) :: u8) = length (CHops s)" if "s \<in> set ss" for s
  proof -
    have l: "0 < length (CHops s)" "length (CHops s) < 64" using that assms(2) by auto
    show u: "unat (word_of_nat (length (CHops s)) :: u8) = length (CHops s)"
      using l by (simp add: unat_of_nat)
    show "(word_of_nat (length (CHops s)) :: u8) < 64" using u l by (simp add: word_less_nat_alt)
    show "(word_of_nat (length (CHops s)) :: u8) \<noteq> 0" using u l by (metis unat_0 less_irrefl)
  qed
  let ?ls = "map (\<lambda>s. word_of_nat (length (CHops s))) ss @ replicate (3 - length ss) (0 :: u8)"
  have "length ?ls = 3" using assms(1) by simp
  moreover have "\<forall>l\<in>set ?ls. l < 64" using w(1) by auto
  moreover have "\<forall>i<length ?ls. ?ls ! i = 0 \<longleftrightarrow> length ss \<le> i" using w(2) by (auto simp: nth_append)
  moreover have "length (concat (map CHops ss)) = sum_list (map unat ?ls)"
  proof -
    have m: "map unat (map (\<lambda>s. word_of_nat (length (CHops s)) :: u8) ss) = map (length \<circ> CHops) ss" using w(3) by simp
    show ?thesis by (simp only: map_append sum_list_append m) (simp add: length_concat sum_list_replicate)
  qed
  ultimately have b: "base_shape (list_decoded ss)" "meta_wf (PathMeta (list_decoded ss))"
    using assms(1) by (simp_all add: base_shape_def segs_ok_def meta_wf_def list_decoded_def)
  show ?thesis using b assms(2) by (auto simp: decoded_wf_def list_decoded_def list_all_iff)
qed

lemma ScionPath_raw_decodes:
  assumes "length ss \<le> 3" "\<forall>s\<in>set ss. CHops s \<noteq> [] \<and> length (CHops s) < 64 \<and> list_all hop_wf (CHops s)"
    "ScionPath_raw ss = Inr b"
  shows "Decoded_DecodeFromBytes b = Inr (list_decoded ss)"
proof -
  note wf = list_decoded_wf [OF assms(1,2)]
  have "Decoded_SerializeTo (list_decoded ss) (replicate (path_Len (list_decoded ss)) 0) = Inr b"
    using assms(1,3) by (auto simp: ScionPath_raw_def Let_def split: if_splits sum.splits)
  then have "b = decoded_bytes (list_decoded ss)"
    using Decoded_SerializeTo_eq [OF wf, of "replicate (path_Len (list_decoded ss)) 0"] length_decoded_bytes [OF wf]
    by (auto simp: put_at_0)
  then show ?thesis using Decoded_Decode_bytes [OF wf, of "[]"] by simp
qed

section \<open>Filters\<close>

lemma unique_loop_bound:
  assumes "\<forall>(k, j)\<in>set u. j < i" "(k, j) \<in> set (unique_loop sha256 paths i ps u)"
  shows "j < i + length ps"
  using assms
proof (induction ps arbitrary: i u)
  case (Cons p ps)
  let ?u = "case map_of u (fingerprint sha256 (CInterfaces p)) of
       None \<Rightarrow> AList.update (fingerprint sha256 (CInterfaces p)) i u
     | Some prev \<Rightarrow> if CExpiry p > CExpiry (paths ! prev) then AList.update (fingerprint sha256 (CInterfaces p)) i u else u"
  have "\<forall>(k, j)\<in>set ?u. j < Suc i"
    using Cons.prems(1) by (auto split: option.splits dest!: set_update_cases)
  then show ?case using Cons.IH [of ?u "Suc i"] Cons.prems(2) by (simp add: Let_def)
qed auto

lemma filterDuplicates_subset: "set (filterDuplicates sha256 paths) \<subseteq> set paths"
  using unique_loop_bound [of "[]" 0 _ _ sha256 paths paths] by (auto simp: filterDuplicates_def)

lemma solution_paths_set: "solution_paths ss = Inr ps \<Longrightarrow> p \<in> set ps \<Longrightarrow> \<exists>s\<in>set ss. solution_Path s = Inr p"
  by (induction ss arbitrary: ps) (auto simp: res_simps)

lemma Combine_from:
  assumes "Combine sha256 src dst ups cores downs allIdentical = Inr paths" "p \<in> set paths"
  obtains g s where "newDMG ups cores downs = Inr g" "route g (vertexFromIA src) None (vertexFromIA dst) (SolEdges s)"
    "solution_Path s = Inr p" "cost s = sum_list (map (\<lambda>se. EWeight (SolEdge se)) (SolEdges s))"
proof -
  from assms obtain g ps where g: "newDMG ups cores downs = Inr g"
    "solution_paths (GetPaths sha256 g (vertexFromIA src) (vertexFromIA dst)) = Inr ps" "p \<in> set ps"
    using filterDuplicates_subset [of sha256 "filterLongPaths ps"]
    by (auto simp: Combine_def Let_def res_simps filterLongPaths_def split: if_splits dest!: filterDuplicates_subset [THEN subsetD])
  with solution_paths_set [OF g(2,3)] GetPaths_routes(2) [OF newDMG_wf [OF g(1)], of _ sha256] that show ?thesis by blast
qed

section \<open>From beacons to routers\<close>

lemma hop_at_wf:
  assumes "edge_ok se" "list_all as_entry_wf (ASEntries (ISSeg (SolSegment se)))" "i \<in> set (used_entries se)"
  shows "hop_wf (hop_at se i)"
proof -
  let ?e = "ASEntries (ISSeg (SolSegment se)) ! i"
  have "i < length (ASEntries (ISSeg (SolSegment se)))" using assms(3) by (auto simp: used_entries_def Let_def split: if_splits)
  then have e: "as_entry_wf ?e" using assms(2) by (simp add: list_all_length)
  show ?thesis
  proof (cases "i = EShortcut (SolEdge se) \<and> EPeer (SolEdge se) \<noteq> 0")
    case True
    then have "EPeer (SolEdge se) - 1 < length (PeerEntries ?e)" using assms(1) by (auto simp: edge_ok_def Let_def)
    then show ?thesis using True e
      by (auto simp: hop_at_def hop_of_def hop_wf_def as_entry_wf_def seg_hop_wf_def list_all_length Let_def)
  qed (use e in \<open>auto simp: hop_at_def hop_of_def hop_wf_def as_entry_wf_def seg_hop_wf_def Let_def\<close>)
qed

lemma solution_Path_decodes:
  assumes "newDMG ups cores downs = Inr g" "route g (vertexFromIA src) None dst (SolEdges s)" "solution_Path s = Inr p"
    "\<forall>ps\<in>set (ups @ cores @ downs). length (ASEntries ps) < 64 \<and> list_all as_entry_wf (ASEntries ps)"
  obtains ss where "map CInfo ss = map edge_info (SolEdges s)"
    "map CHops ss = map (\<lambda>se. map (hop_at se) (used_entries se)) (SolEdges s)"
    "Decoded_DecodeFromBytes (CSCIONPath p) = Inr (list_decoded ss)" "ss \<noteq> []" "length ss \<le> 3" "CExpiry p = list_ComputeExpTime ss"
proof -
  note edges = route_edges [OF assms(1,2)]
  from assms(3) obtain ss mtu b where ss: "edge_segments (SolEdges s) 65535 = Inr (ss, mtu)" "ScionPath_raw ss = Inr b"
    "CSCIONPath p = b" "CExpiry p = list_ComputeExpTime ss"
    by (auto simp: solution_Path_def res_simps)
  note m = edge_segments_ok [OF edges(1) ss(1)]
  have l: "length ss = length (SolEdges s)" using m map_eq_imp_length_eq by blast
  have n: "SolEdges s \<noteq> []" "length ss \<le> 3" using assms(2) route_length [OF assms(2)] l by auto
  have "\<forall>hs\<in>set (map CHops ss). hs \<noteq> [] \<and> length hs < 64 \<and> list_all hop_wf hs"
  proof (subst m [THEN conjunct2], intro ballI)
    fix hs assume "hs \<in> set (map (\<lambda>se. map (hop_at se) (used_entries se)) (SolEdges s))"
    then obtain se where se: "se \<in> set (SolEdges s)" "hs = map (hop_at se) (used_entries se)" by auto
    then have ok: "edge_ok se" "length (ASEntries (ISSeg (SolSegment se))) < 64" "list_all as_entry_wf (ASEntries (ISSeg (SolSegment se)))"
      using edges assms(4) by (auto simp: list_all_iff)
    have "hop_wf (hop_at se i)" if "i \<in> set (used_entries se)" for i by (rule hop_at_wf [OF ok(1,3) that])
    moreover have "used_entries se \<noteq> []" "length (used_entries se) < 64"
      using ok(1,2) by (auto simp: used_entries_def edge_ok_def Let_def)
    ultimately show "hs \<noteq> [] \<and> length hs < 64 \<and> list_all hop_wf hs" by (simp add: se(2) list_all_iff)
  qed
  then have "Decoded_DecodeFromBytes b = Inr (list_decoded ss)" by (intro ScionPath_raw_decodes n(2) ss(2)) auto
  moreover have "ss \<noteq> []" using n(1) l by auto
  ultimately show ?thesis using that [of ss] m ss(3,4) n(2) by auto
qed

lemma sendable_wf: "segment_sendable c ps \<Longrightarrow> list_all as_entry_wf (ASEntries ps)"
  by (auto simp: segment_sendable_def list_all_iff entry_sendable_def as_entry_wf_def peer_sendable_def)

text \<open>Claim C5. A path that the combinator builds from segments that beaconing has made is decoded by the routers as a SCION path of
  one to three segments; no hop field of it has expired before the expiry of the path; and if it uses no peering link it
  leads from the source to the destination AS, each segment starting where the one before ended, and every router on it
  verifies the MAC of its hop field, with the segment identifiers updated on the way as the routers do.\<close>

theorem combined_paths_verify:
  assumes "Combine sha256 src dst ups cores downs allIdentical = Inr paths" "p \<in> set paths"
    "\<forall>ps\<in>set (ups @ cores @ downs). beaconed c sha256 K ps \<and> length (ASEntries ps) < 64"
    "proto_ok c" "\<forall>b. DigestLength \<le> length (sha256 b)"
  shows "\<exists>ss. Decoded_DecodeFromBytes (CSCIONPath p) = Inr (list_decoded ss) \<and> ss \<noteq> [] \<and> length ss \<le> 3 \<and>
    (\<forall>s\<in>set ss. \<forall>h\<in>set (CHops s). \<forall>env. Now env \<le> CExpiry p \<longrightarrow> \<not> hop_expired env (CInfo s) h) \<and>
    ((\<forall>s\<in>set ss. \<not> info_field.Peer (CInfo s)) \<longrightarrow> crosses K src ss dst)"
proof -
  obtain g s where g: "newDMG ups cores downs = Inr g" "route g (vertexFromIA src) None (vertexFromIA dst) (SolEdges s)"
    "solution_Path s = Inr p" by (rule Combine_from [OF assms(1,2)])
  have ok: "\<forall>ps\<in>set (ups @ cores @ downs). authentic K ps \<and> length (ASEntries ps) < 64 \<and> list_all as_entry_wf (ASEntries ps)"
    using assms(3) beaconed_ok [OF _ assms(4,5)] sendable_wf by blast
  then obtain ss where ss: "map CInfo ss = map edge_info (SolEdges s)"
    "map CHops ss = map (\<lambda>se. map (hop_at se) (used_entries se)) (SolEdges s)"
    "Decoded_DecodeFromBytes (CSCIONPath p) = Inr (list_decoded ss)" "ss \<noteq> []" "length ss \<le> 3" "CExpiry p = list_ComputeExpTime ss"
    using solution_Path_decodes [OF g] by blast
  have "\<not> hop_expired env (CInfo x) h" if "x \<in> set ss" "h \<in> set (CHops x)" "Now env \<le> CExpiry p" for env x h
    using list_ComputeExpTime_le [OF that(1)] computeHopFieldsTTL_le [OF that(2)] that(3) ss(6)
    by (simp add: hop_expired_def seg_ComputeExpTime_def)
  moreover have "crosses K src ss dst" if "\<forall>x\<in>set ss. \<not> info_field.Peer (CInfo x)"
  proof -
    have "\<forall>i\<in>set (map CInfo ss). \<not> info_field.Peer i" using that by simp
    then have "\<forall>se\<in>set (SolEdges s). EPeer (SolEdge se) = 0" unfolding ss(1) by (simp add: edge_info_def Let_def)
    then show ?thesis using route_crosses [OF g(2) _ _ _ ss(1,2)] route_edges [OF g(1,2)] ok by blast
  qed
  ultimately show ?thesis using ss(3-5) by blast
qed

section \<open>A concrete combination\<close>

text \<open>A core AS with two children: the path between them is an up segment followed by a down segment.\<close>

definition demo_core :: extender where
  "demo_core = demo_ext (demo_ia 1) [demo_intf 1 (demo_ia 2) Child, demo_intf 5 (demo_ia 3) Child]"
definition demo_left :: extender where "demo_left = demo_ext (demo_ia 2) [demo_intf 2 (demo_ia 1) Parent]"
definition demo_right :: extender where "demo_right = demo_ext (demo_ia 3) [demo_intf 6 (demo_ia 1) Parent]"

definition demo_new :: "u8 \<Rightarrow> extender \<Rightarrow> path_segment \<Rightarrow> u16 \<Rightarrow> u16 \<Rightarrow> as_entry" where
  "demo_new k s ps ingress egress = (case newASEntry demo_sha s ps ingress egress [] of
     Inr e \<Rightarrow> e\<lparr>Signed := Some \<lparr>HeaderAndBody = [k], Signature = []\<rparr>\<rparr>)"

definition demo_e1 :: as_entry where "demo_e1 = demo_new 1 demo_core demo_seg0 0 1"
definition demo_e2 :: as_entry where "demo_e2 = demo_new 2 demo_left (demo_seg0\<lparr>ASEntries := [demo_e1]\<rparr>) 2 0"
definition demo_e3 :: as_entry where "demo_e3 = demo_new 3 demo_core demo_seg0 0 5"
definition demo_e4 :: as_entry where "demo_e4 = demo_new 4 demo_right (demo_seg0\<lparr>ASEntries := [demo_e3]\<rparr>) 6 0"

definition demo_up :: path_segment where "demo_up = demo_seg0\<lparr>ASEntries := [demo_e1, demo_e2]\<rparr>"
definition demo_down :: path_segment where "demo_down = demo_seg0\<lparr>ASEntries := [demo_e3, demo_e4]\<rparr>"

definition demo_codec :: proto where
  "demo_codec = (let bs = map asEntryBody [demo_e1, demo_e2, demo_e3, demo_e4] in
    \<lparr>MarshalBody = (\<lambda>m. if m = bs ! 0 then Inr [1] else if m = bs ! 1 then Inr [2] else if m = bs ! 2 then Inr [3]
        else if m = bs ! 3 then Inr [4] else Inl (Err [])),
     UnmarshalBody = (\<lambda>b. if b = [1] then Inr (bs ! 0) else if b = [2] then Inr (bs ! 1) else if b = [3] then Inr (bs ! 2)
        else if b = [4] then Inr (bs ! 3) else Inl (Err [])),
     MarshalInfo = (\<lambda>m. if m = (1000, 5) then Inr [7] else Inl (Err [])),
     UnmarshalInfo = (\<lambda>b. if b = [7] then Inr (1000, 5) else Inl (Err [])),
     UnmarshalHeaderAndBody = (\<lambda>b. Inr ([], b)), UnmarshalHeader = (\<lambda>b. Inr None), PtypesTimestamp = (\<lambda>t. Inr 0)\<rparr>)"

lemma demo_codec_ok: "proto_ok demo_codec"
  unfolding proto_ok_def demo_codec_def Let_def by (auto split: if_splits)

lemma demo_codec_as_ok:
  "as_ok demo_codec demo_mac demo_core" "as_ok demo_codec demo_mac demo_left" "as_ok demo_codec demo_mac demo_right"
  by (simp_all add: as_ok_def demo_core_def demo_left_def demo_right_def demo_ext_def demo_mac_def IsWildcard_def IA_ISD_def IA_AS_def
      demo_ia_def ASBits_def MaxAS_def ExtractUnverifiedBody_def extractHeaderAndBody_def demo_codec_def Let_def)

lemma demo_codec_extend:
  "Extend demo_codec demo_sha demo_core demo_seg0 0 1 [] = (demo_seg0\<lparr>ASEntries := [demo_e1]\<rparr>, Inr ())"
  "Extend demo_codec demo_sha demo_left (demo_seg0\<lparr>ASEntries := [demo_e1]\<rparr>) 2 0 [] = (demo_up, Inr ())"
  "Extend demo_codec demo_sha demo_core demo_seg0 0 5 [] = (demo_seg0\<lparr>ASEntries := [demo_e3]\<rparr>, Inr ())"
  "Extend demo_codec demo_sha demo_right (demo_seg0\<lparr>ASEntries := [demo_e3]\<rparr>) 6 0 [] = (demo_down, Inr ())"
  by code_simp+

lemma demo_segs_beaconed:
  "beaconed demo_codec demo_sha demo_mac demo_up" "beaconed demo_codec demo_sha demo_mac demo_down"
proof -
  have "CreateSegment demo_codec (1000 * second_ns) 5 = Inr demo_seg0"
    by (simp add: CreateSegment_def NewInfo_def demo_codec_def demo_seg0_def second_ns_def Let_def)
  then have s: "beaconed demo_codec demo_sha demo_mac demo_seg0" by (rule beaconed.created)
  have "beaconed demo_codec demo_sha demo_mac (demo_seg0\<lparr>ASEntries := [demo_e1]\<rparr>)"
    by (rule beaconed.extended [OF s demo_codec_as_ok(1) _ demo_codec_extend(1)]) simp
  then show "beaconed demo_codec demo_sha demo_mac demo_up"
    by (rule beaconed.extended [OF _ demo_codec_as_ok(2) _ demo_codec_extend(2)]) simp
  have "beaconed demo_codec demo_sha demo_mac (demo_seg0\<lparr>ASEntries := [demo_e3]\<rparr>)"
    by (rule beaconed.extended [OF s demo_codec_as_ok(1) _ demo_codec_extend(3)]) simp
  then show "beaconed demo_codec demo_sha demo_mac demo_down"
    by (rule beaconed.extended [OF _ demo_codec_as_ok(3) _ demo_codec_extend(4)]) simp
qed

definition demo_comb :: "comb_path list res" where
  "demo_comb = Combine demo_sha (demo_ia 2) (demo_ia 3) [demo_up] [] [demo_down] False"

definition demo_direct :: "comb_path \<Rightarrow> bool" where
  "demo_direct p \<longleftrightarrow> CInterfaces p = [(demo_ia 2, 2), (demo_ia 1, 1), (demo_ia 1, 5), (demo_ia 3, 6)] \<and>
   (case Decoded_DecodeFromBytes (CSCIONPath p) of Inr d \<Rightarrow> map info_field.Peer (InfoFields d) = [False, False] | Inl _ \<Rightarrow> False)"

lemma demo_comb_one: "\<exists>p. demo_comb = Inr [p] \<and> demo_direct p"
proof -
  have "case demo_comb of Inr [p] \<Rightarrow> demo_direct p | _ \<Rightarrow> False" by code_simp
  then show ?thesis by (auto split: sum.splits list.splits)
qed

lemma demo_lengths: "\<forall>ps\<in>set ([demo_up] @ [] @ [demo_down]). beaconed demo_codec demo_sha demo_mac ps \<and> length (ASEntries ps) < 64"
  using demo_segs_beaconed by (simp add: demo_up_def demo_down_def)

theorem combined_paths_verify_witness:
  "\<exists>p ss. demo_comb = Inr [p] \<and> CInterfaces p = [(demo_ia 2, 2), (demo_ia 1, 1), (demo_ia 1, 5), (demo_ia 3, 6)] \<and>
     Decoded_DecodeFromBytes (CSCIONPath p) = Inr (list_decoded ss) \<and> crosses demo_mac (demo_ia 2) ss (demo_ia 3)"
proof -
  obtain p where p: "demo_comb = Inr [p]" "demo_direct p" using demo_comb_one by blast
  from combined_paths_verify [OF p(1) [unfolded demo_comb_def] _ demo_lengths demo_codec_ok demo_sha_len, of p]
  obtain ss where ss: "Decoded_DecodeFromBytes (CSCIONPath p) = Inr (list_decoded ss)"
    "(\<forall>s\<in>set ss. \<not> info_field.Peer (CInfo s)) \<longrightarrow> crosses demo_mac (demo_ia 2) ss (demo_ia 3)" by auto
  have "map info_field.Peer (map CInfo ss) = [False, False]"
    using p(2) ss(1) by (simp add: demo_direct_def list_decoded_def)
  then have "\<forall>s\<in>set ss. \<not> info_field.Peer (CInfo s)" by auto
  then show ?thesis using p ss by (auto simp: demo_direct_def)
qed

section \<open>The search\<close>

text \<open>Claim C13. The search of the combinator ends and returns exactly the routes of the graph from the source to the destination,
  of any combination of up, core and down segments, sorted by cost, number of segments and the identifiers, shortcuts and
  peering links of the segments, each with the sum of the weights of its edges as cost.\<close>

theorem search_complete:
  assumes "newDMG ups cores downs = Inr g"
  shows "SolEdges ` set (GetPaths sha256 g src dst) = {ses. route g src None dst ses} \<and>
    sorted (map (sol_key sha256) (GetPaths sha256 g src dst)) \<and>
    (\<forall>s\<in>set (GetPaths sha256 g src dst). cost s = sum_list (map (\<lambda>se. EWeight (SolEdge se)) (SolEdges s)))"
proof -
  let ?s0 = "\<lparr>SolEdges = [], currentVertex = src, currentSeg = None, cost = 0\<rparr>"
  note r = GetPaths_routes [OF newDMG_wf [OF assms]]
  have "ses \<in> SolEdges ` set (GetPaths sha256 g src dst)" if "route g src None dst ses" for ses
  proof -
    have "SolEdges (add_edges ?s0 ses) = ses" using route_srcs [OF that, of ?s0] by simp
    then show ?thesis unfolding r(1) using that by (metis (mono_tags, lifting) image_eqI mem_Collect_eq)
  qed
  moreover have "solution_Less sha256 = (\<lambda>a b. sol_key sha256 a < sol_key sha256 b)" by (intro ext) (rule solution_Less_iff)
  then have "sorted (map (sol_key sha256) (GetPaths sha256 g src dst))" by (simp only: GetPaths_def sorted_sort_by)
  ultimately show ?thesis using r(2) by auto
qed

lemma demo_graph: "\<exists>g. newDMG [demo_up] [] [demo_down] = Inr g \<and> length (GetPaths demo_sha g (vertexFromIA (demo_ia 2)) (vertexFromIA (demo_ia 3))) = 1"
proof -
  have "case newDMG [demo_up] [] [demo_down] of Inr g \<Rightarrow>
      length (GetPaths demo_sha g (vertexFromIA (demo_ia 2)) (vertexFromIA (demo_ia 3))) = 1 | _ \<Rightarrow> False" by code_simp
  then show ?thesis by (auto split: sum.splits)
qed

theorem search_complete_witness:
  "\<exists>g s. newDMG [demo_up] [] [demo_down] = Inr g \<and> GetPaths demo_sha g (vertexFromIA (demo_ia 2)) (vertexFromIA (demo_ia 3)) = [s] \<and>
     {ses. route g (vertexFromIA (demo_ia 2)) None (vertexFromIA (demo_ia 3)) ses} = {SolEdges s}"
proof -
  obtain g where g: "newDMG [demo_up] [] [demo_down] = Inr g"
    "length (GetPaths demo_sha g (vertexFromIA (demo_ia 2)) (vertexFromIA (demo_ia 3))) = 1" using demo_graph by blast
  then obtain s where s: "GetPaths demo_sha g (vertexFromIA (demo_ia 2)) (vertexFromIA (demo_ia 3)) = [s]"
    by (auto simp: length_Suc_conv)
  show ?thesis using search_complete [OF g(1), of demo_sha "vertexFromIA (demo_ia 2)" "vertexFromIA (demo_ia 3)"] g(1) s by auto
qed

section \<open>Peering links\<close>

text \<open>The info fields the routers of a segment verify with.\<close>

fun walk_infos :: "u16 \<Rightarrow> info_field \<Rightarrow> hop_field list \<Rightarrow> info_field list" where
  "walk_infos ing info [] = []"
| "walk_infos ing info (h # hs) = (let i = seg_in ing info h in i # walk_infos 1 (seg_out i h) hs)"

lemma length_walk_infos [simp]: "length (walk_infos ing info hs) = length hs"
  by (induction hs arbitrary: ing info) (simp_all add: Let_def)

lemma walk_infos_up:
  assumes "\<not> ConsDir info" "SegID info = seg_beta ps j" "j \<le> length (ASEntries ps)" "i \<le> j"
  shows "\<exists>info'. walk_infos 1 info (map (\<lambda>k. snd (as_hop ps k)) (rev [i..<j]) @ hs) =
      walk_infos 1 info (map (\<lambda>k. snd (as_hop ps k)) (rev [i..<j])) @ walk_infos 1 info' hs \<and> SegID info' = seg_beta ps i \<and> \<not> ConsDir info'"
  using assms
proof (induction j arbitrary: info)
  case 0
  then show ?case by (intro exI [of _ info]) simp
next
  case (Suc j)
  show ?case
  proof (cases "i \<le> j")
    case True
    have j: "j < length (ASEntries ps)" using Suc.prems(3) by simp
    let ?info = "UpdateSegID info (Mac (snd (as_hop ps j)))"
    have "SegID ?info = seg_beta ps j" using SegID_UpdateSegID(2) [OF j Suc.prems(2)] .
    then obtain info' where "walk_infos 1 ?info (map (\<lambda>k. snd (as_hop ps k)) (rev [i..<j]) @ hs) =
        walk_infos 1 ?info (map (\<lambda>k. snd (as_hop ps k)) (rev [i..<j])) @ walk_infos 1 info' hs" "SegID info' = seg_beta ps i" "\<not> ConsDir info'"
      using Suc.IH [of ?info] Suc.prems(1) j True by auto
    then show ?thesis using True Suc.prems(1) by (auto simp: seg_in_def seg_out_def Let_def)
  next
    case False
    then have "i = Suc j" using Suc.prems(4) by simp
    then show ?thesis using Suc.prems by (intro exI [of _ info]) auto
  qed
qed

lemma xor_same_iff: "x XOR m = x \<longleftrightarrow> m = (0 :: u16)"
proof
  assume "x XOR m = x"
  then have "x XOR (x XOR m) = 0" by simp
  then show "m = 0" by (simp add: xor.assoc [symmetric])
qed simp

lemma hop_of_Mac [simp]: "Mac (hop_of h) = SMAC h"
  by (simp add: hop_of_def)

text \<open>Claim C15. The routers do not know the peering flag. Take a segment of a path over a peering link as the combinator builds it, and the
  accumulators with which the routers on it verify. The peering hop field and the hop field after it were authenticated with the accumulator
  that includes the entry of the peering AS. On a down segment the router at the peering link verifies with it, but then adds the MAC of
  the peering hop field, so that the next router uses another accumulator. On an up segment the router at the peering link does: its
  accumulator has the MAC of the peering hop field added, or, when the peering AS is the source itself, lacks that of its
  entry. The accumulators agree only if the first two bytes of that MAC are zero.\<close>

theorem peering_accumulator:
  assumes "edge_ok se" "EPeer (SolEdge se) \<noteq> 0"
  shows "\<exists>s mtu'. edge_segment se mtu = Inr (s, mtu') \<and>
    (let ps = ISSeg (SolSegment se); k = EShortcut (SolEdge se); n = length (ASEntries ps);
         accs = map SegID (walk_infos 0 (CInfo s) (CHops s));
         peering = Uint16 (slice 0 2 (SMAC (PeerHop (PeerEntries (ASEntries ps ! k) ! (EPeer (SolEdge se) - 1)))));
         regular = Uint16 (slice 0 2 (SMAC (EntryHop (HopEntry (ASEntries ps ! k)))));
         other = (if Suc k < n then peering else regular)
     in length accs = n - k \<and>
       (if ISType (SolSegment se) = PathSegDown
        then accs ! 0 = seg_beta ps (Suc k) \<and> (Suc k < n \<longrightarrow> accs ! 1 = seg_beta ps (Suc k) XOR peering)
        else last accs = seg_beta ps (Suc k) XOR other) \<and>
       (seg_beta ps (Suc k) XOR other = seg_beta ps (Suc k) \<longleftrightarrow> other = 0))"
proof -
  let ?ps = "ISSeg (SolSegment se)" and ?k = "EShortcut (SolEdge se)"
  obtain s mtu' where s: "edge_segment se mtu = Inr (s, mtu')" "CInfo s = edge_info se" "CHops s = map (hop_at se) (used_entries se)"
    using edge_segment_ok [OF assms(1)] by blast
  define n where "n = length (ASEntries ?ps) - 1"
  have n: "length (ASEntries ?ps) = Suc n" "?k \<le> n" using assms(1) by (auto simp: n_def edge_ok_def Let_def)
  let ?infos = "walk_infos 0 (edge_info se) (map (hop_at se) (used_entries se))"
  have hk: "Mac (hop_at se ?k) = SMAC (PeerHop (PeerEntries (ASEntries ?ps ! ?k) ! (EPeer (SolEdge se) - 1)))"
    using assms(2) by (simp add: hop_at_def Let_def)
  have len: "length ?infos = Suc n - ?k" using n(2) by (simp add: used_entries_def n(1) Suc_diff_le Let_def)
  have "SegID (?infos ! 0) = seg_beta ?ps (Suc ?k) \<and> (?k < n \<longrightarrow> SegID (?infos ! 1) = seg_beta ?ps (Suc ?k) XOR Uint16 (slice 0 2 (Mac (hop_at se ?k))))"
    if True: "ISType (SolSegment se) = PathSegDown"
  proof -
    have "used_entries se = ?k # [Suc ?k..<Suc n]" using True n by (simp add: used_entries_def upt_conv_Cons)
    moreover have "?k < n \<Longrightarrow> [Suc ?k..<Suc n] = Suc ?k # [Suc (Suc ?k)..<Suc n]" by (simp add: upt_conv_Cons)
    ultimately show ?thesis using True assms(2)
      by (auto simp: edge_info_def IsDownSeg_def seg_in_def seg_out_def UpdateSegID_def Let_def simp del: upt.simps)
  qed
  moreover have "SegID (last ?infos) = seg_beta ?ps (Suc ?k) XOR Uint16 (slice 0 2
      (if ?k < n then Mac (hop_at se ?k) else SMAC (EntryHop (HopEntry (ASEntries ?ps ! ?k)))))"
    if False: "ISType (SolSegment se) \<noteq> PathSegDown"
  proof -
    have c: "\<not> ConsDir (edge_info se)" "SegID (edge_info se) = seg_beta ?ps n"
      using False n(1) by (simp_all add: edge_info_def IsDownSeg_def Let_def)
    show ?thesis
    proof (cases "?k < n")
      case True
      have u: "used_entries se = n # rev [Suc ?k..<n] @ [?k]" using False n True by (simp add: used_entries_def upt_conv_Cons)
      have h: "map (hop_at se) (rev [Suc ?k..<n]) = map (\<lambda>k. snd (as_hop ?ps k)) (rev [Suc ?k..<n])"
        by (auto simp: hop_at_def as_hop_def Let_def)
      obtain info' where i: "walk_infos 1 (edge_info se) (map (\<lambda>k. snd (as_hop ?ps k)) (rev [Suc ?k..<n]) @ [hop_at se ?k]) =
          walk_infos 1 (edge_info se) (map (\<lambda>k. snd (as_hop ?ps k)) (rev [Suc ?k..<n])) @ walk_infos 1 info' [hop_at se ?k]"
        "SegID info' = seg_beta ?ps (Suc ?k)" "\<not> ConsDir info'"
        using walk_infos_up [OF c, of "Suc ?k" "[hop_at se ?k]"] n True by auto
      then show ?thesis using True c(1) by (simp add: u h seg_in_def seg_out_def UpdateSegID_def Let_def)
    next
      case kn: False
      then have "used_entries se = [n]" "?k = n" using False n by (auto simp: used_entries_def)
      moreover have "seg_beta ?ps (Suc n) = seg_beta ?ps n XOR Uint16 (slice 0 2 (SMAC (EntryHop (HopEntry (ASEntries ?ps ! n)))))"
        using n(1) by (intro seg_beta_Suc) simp
      ultimately show ?thesis using c kn by (simp add: seg_in_def Let_def xor.assoc)
    qed
  qed
  moreover have "?infos \<noteq> []" using n(2) len by (metis Suc_diff_le list.size(3) nat.distinct(1))
  ultimately show ?thesis using s n len unfolding Let_def
    by (intro exI [of _ s] exI [of _ mtu']) (auto simp: hk xor_same_iff last_map nth_map)
qed

definition demo_peer_edge :: "pseg_type \<Rightarrow> solution_edge" where
  "demo_peer_edge ty = \<lparr>SolEdge = \<lparr>EWeight = 1, EShortcut = 1, EPeer = 1\<rparr>, SolSrc = vertexFromIA 1, SolDst = vertexFromIA 2,
     SolSegment = \<lparr>ISPtr = 0, ISSeg = demo_seg2\<lparr>ASEntries := ASEntries demo_seg2 @ [demo_entry1]\<rparr>, ISType = ty\<rparr>\<rparr>"

lemma demo_peer_edge_ok: "edge_ok (demo_peer_edge ty)" "EPeer (SolEdge (demo_peer_edge ty)) \<noteq> 0"
  "Suc (EShortcut (SolEdge (demo_peer_edge ty))) < length (ASEntries (ISSeg (SolSegment (demo_peer_edge ty))))"
proof -
  obtain a b where "ASEntries demo_seg2 = [a, b]" "length (PeerEntries b) = 1"
    using demo_seg2_shape(2) by (auto simp: map_eq_Cons_conv)
  then show "edge_ok (demo_peer_edge ty)" "EPeer (SolEdge (demo_peer_edge ty)) \<noteq> 0"
    "Suc (EShortcut (SolEdge (demo_peer_edge ty))) < length (ASEntries (ISSeg (SolSegment (demo_peer_edge ty))))"
    by (simp_all add: edge_ok_def demo_peer_edge_def Let_def)
qed

theorem peering_accumulator_witness:
  "\<exists>s m. edge_segment (demo_peer_edge PathSegUp) 1400 = Inr (s, m) \<and>
     last (map SegID (walk_infos 0 (CInfo s) (CHops s))) \<noteq> seg_beta (ISSeg (SolSegment (demo_peer_edge PathSegUp))) 2"
proof -
  have e: "EShortcut (SolEdge (demo_peer_edge PathSegUp)) = 1" "ISType (SolSegment (demo_peer_edge PathSegUp)) = PathSegUp"
    "Suc 1 < length (ASEntries (ISSeg (SolSegment (demo_peer_edge PathSegUp))))"
    using demo_peer_edge_ok(3) [of PathSegUp] by (simp_all add: demo_peer_edge_def)
  have "Uint16 (slice 0 2 (SMAC (PeerHop (PeerEntries (ASEntries (ISSeg (SolSegment (demo_peer_edge PathSegUp))) ! 1) !
      (EPeer (SolEdge (demo_peer_edge PathSegUp)) - 1))))) \<noteq> 0" by code_simp
  then show ?thesis
    using peering_accumulator [OF demo_peer_edge_ok(1,2), of PathSegUp 1400] e
    by (simp only: Let_def e pseg_type.distinct if_True if_False Suc_1 numeral_2_eq_2 [symmetric] One_nat_def [symmetric]) metis
qed

end
