(* ===== verification/Dispatcher.thy ===== *)
theory Dispatcher
  imports Addr "HOL-Library.AList"
begin

text \<open>
  The registration tables of the dispatcher (go/dispatcher/internal/registration): applications register a public UDP
  address, possibly a service with a bind address, and SCMP identifiers; the dispatcher looks up whom a packet is for. One
  definition per method of udptable.go, scmp\_table.go, portlist.go, svctable.go, table.go and iatable.go. A Go map is an association
  list whose order is the order of iteration. The values are those of type \<open>interface{}\<close>, \<open>None\<close> being nil. A method that
  changes a table returns the changed table also when it fails. A reference is a record; what its \<open>Free\<close> does is a function of
  the table and the reference. The zone of an address, which no table reads, is left out, and so are the locks: every
  operation is atomic. (\<open>LookupService\<close> takes the lock for reading only, although it turns the rings of ports.)
\<close>

section \<open>Addresses\<close>

record udp_addr =
  UIP :: bytes
  UPort :: int

text \<open>The text of an IP address, as far as the tables distinguish texts: \<open>net.IP.String\<close> prints addresses that have a
  \<open>To4\<close> form in dotted decimal, other addresses of 16 bytes as IPv6, and the rest as hexadecimal.\<close>

datatype ip_text = IPv4Text bytes | IPv6Text bytes | OtherText bytes

definition ip_String :: "bytes \<Rightarrow> ip_text" where
  "ip_String ip = (case To4 ip of
       Some ip4 \<Rightarrow> IPv4Text ip4
     | None \<Rightarrow> if length ip = 16 then IPv6Text ip else OtherText ip)"

definition zero4 :: ip_text where "zero4 = IPv4Text (replicate 4 0)"
definition zero6 :: ip_text where "zero6 = IPv6Text (replicate 16 0)"

text \<open>\<open>net.IP.IsUnspecified\<close>\<close>

definition IsUnspecified :: "bytes \<Rightarrow> bool" where
  "IsUnspecified ip \<longleftrightarrow> ip_String ip = zero4 \<or> ip_String ip = zero6"

section \<open>UDP ports (udptable.go)\<close>

type_synonym 'v ip_table = "(ip_text \<times> 'v) list"

definition getZeroString :: "bytes \<Rightarrow> ip_text" where
  "getZeroString ip = (if To4 ip \<noteq> None then zero4 else zero6)"

definition IPTable_Route :: "'v ip_table \<Rightarrow> bytes \<Rightarrow> 'v option" where
  "IPTable_Route t ip = (case map_of t (getZeroString ip) of Some v \<Rightarrow> Some v | None \<Rightarrow> map_of t (ip_String ip))"

definition IPTable_OverlapsWith :: "'v ip_table \<Rightarrow> bytes \<Rightarrow> bool" where
  "IPTable_OverlapsWith t ip = (if IsUnspecified ip \<and> length t > 0 then True else IPTable_Route t ip \<noteq> None)"

record port_allocator =
  PaMin :: int
  PaMax :: int
  PaNext :: int

record 'v udp_table =
  v4PortTable :: "(int \<times> 'v ip_table) list"
  v6PortTable :: "(int \<times> 'v ip_table) list"
  allocator :: port_allocator

definition NewUDPPortAllocator :: "int \<Rightarrow> int \<Rightarrow> port_allocator res" where
  "NewUDPPortAllocator mn mx =
     (if mn \<le> 0 then Inl (Panic ''bad min port value'')
      else if mn > mx then Inl (Panic ''min port must be less than maxport'')
      else if mx \<ge> 2 ^ 16 then Inl (Panic ''max port cannot exceed'')
      else Inr \<lparr>PaMin = mn, PaMax = mx, PaNext = mn\<rparr>)"

definition NewUDPPortTable :: "int \<Rightarrow> int \<Rightarrow> 'v udp_table res" where
  "NewUDPPortTable mn mx =
     rbind (NewUDPPortAllocator mn mx) (\<lambda>a. Inr \<lparr>v4PortTable = [], v6PortTable = [], allocator = a\<rparr>)"

definition getPortTableByIP :: "'v udp_table \<Rightarrow> bytes \<Rightarrow> (int \<times> 'v ip_table) list" where
  "getPortTableByIP t ip = (if To4 ip \<noteq> None then v4PortTable t else v6PortTable t)"

text \<open>The port table of an address is changed through the map.\<close>

definition setPortTableByIP :: "'v udp_table \<Rightarrow> bytes \<Rightarrow> (int \<times> 'v ip_table) list \<Rightarrow> 'v udp_table" where
  "setPortTableByIP t ip pt = (if To4 ip \<noteq> None then t\<lparr>v4PortTable := pt\<rparr> else t\<lparr>v6PortTable := pt\<rparr>)"

definition Udp_Lookup :: "'v udp_table \<Rightarrow> udp_addr \<Rightarrow> 'v option" where
  "Udp_Lookup t address =
     (if IsUnspecified (UIP address) then None
      else case map_of (getPortTableByIP t (UIP address)) (UPort address) of
        None \<Rightarrow> None
      | Some ipTable \<Rightarrow> IPTable_Route ipTable (UIP address))"

definition overlapsWith :: "'v udp_table \<Rightarrow> udp_addr \<Rightarrow> bool" where
  "overlapsWith t address = (case map_of (getPortTableByIP t (UIP address)) (UPort address) of
       None \<Rightarrow> False
     | Some ipTable \<Rightarrow> IPTable_OverlapsWith ipTable (UIP address))"

fun alloc_loop :: "nat \<Rightarrow> port_allocator \<Rightarrow> bytes \<Rightarrow> 'v udp_table \<Rightarrow> port_allocator \<times> int res" where
  "alloc_loop 0 a ip t = (a, Inl (Err ''no free ports''))"
| "alloc_loop (Suc n) a ip t = (let
     candidate = PaNext a;
     a = a\<lparr>PaNext := (if candidate + 1 = PaMax a + 1 then PaMin a else candidate + 1)\<rparr>
   in if \<not> overlapsWith t \<lparr>UIP = ip, UPort = candidate\<rparr> then (a, Inr candidate) else alloc_loop n a ip t)"

definition Allocate :: "port_allocator \<Rightarrow> bytes \<Rightarrow> 'v udp_table \<Rightarrow> port_allocator \<times> int res" where
  "Allocate a ip t = alloc_loop (nat (PaMax a + 1 - PaMin a)) a ip t"

definition computeAddressWithPort :: "'v udp_table \<Rightarrow> udp_addr \<Rightarrow> 'v udp_table \<times> udp_addr res" where
  "computeAddressWithPort t address =
     (if UPort address = 0 then (case Allocate (allocator t) (UIP address) t of
        (a, Inl e) \<Rightarrow> (t\<lparr>allocator := a\<rparr>, Inl e)
      | (a, Inr port) \<Rightarrow> (t\<lparr>allocator := a\<rparr>, Inr (address\<lparr>UPort := port\<rparr>)))
      else (t, Inr address))"

definition insertUDPAddress :: "'v udp_table \<Rightarrow> udp_addr \<Rightarrow> 'v \<Rightarrow> 'v udp_table" where
  "insertUDPAddress t address v = (let
     portTable = getPortTableByIP t (UIP address);
     ipTable = (case map_of portTable (UPort address) of None \<Rightarrow> [] | Some i \<Rightarrow> i)
   in setPortTableByIP t (UIP address) (AList.update (UPort address) (AList.update (ip_String (UIP address)) v ipTable) portTable))"

definition Udp_Insert :: "'v udp_table \<Rightarrow> udp_addr \<Rightarrow> 'v option \<Rightarrow> 'v udp_table \<times> udp_addr res" where
  "Udp_Insert t address val =
     (if overlapsWith t address then (t, Inl (Err ''overlapping address''))
      else case val of
        None \<Rightarrow> (t, Inl (Err ''nil value''))
      | Some v \<Rightarrow> (case computeAddressWithPort t address of
          (t, Inl e) \<Rightarrow> (t, Inl e)
        | (t, Inr newAddress) \<Rightarrow> (insertUDPAddress t newAddress v, Inr newAddress)))"

definition Udp_Remove :: "'v udp_table \<Rightarrow> udp_addr \<Rightarrow> 'v udp_table" where
  "Udp_Remove t address = (let portTable = getPortTableByIP t (UIP address) in
     case map_of portTable (UPort address) of
       None \<Rightarrow> t
     | Some ipTable \<Rightarrow> let ipTable = AList.delete (ip_String (UIP address)) ipTable in
         setPortTableByIP t (UIP address)
           (if ipTable = [] then AList.delete (UPort address) portTable else AList.update (UPort address) ipTable portTable))"

section \<open>SCMP identifiers (scmp\_table.go)\<close>

type_synonym 'v scmp_table = "(u64 \<times> 'v) list"

definition Scmp_Lookup :: "'v scmp_table \<Rightarrow> u64 \<Rightarrow> 'v option" where
  "Scmp_Lookup t sid = map_of t sid"

definition Scmp_Register :: "'v scmp_table \<Rightarrow> u64 \<Rightarrow> 'v option \<Rightarrow> 'v scmp_table res" where
  "Scmp_Register t sid val = (case val of
       None \<Rightarrow> Inl (Err ''cannot register nil value'')
     | Some v \<Rightarrow> if map_of t sid \<noteq> None then Inl (Err ''id already registered'') else Inr (AList.update sid v t))"

definition Scmp_Remove :: "'v scmp_table \<Rightarrow> u64 \<Rightarrow> 'v scmp_table" where
  "Scmp_Remove t sid = AList.delete sid t"

section \<open>Port lists (portlist.go)\<close>

text \<open>A ring of ports and values, from the element the list points to. An element is known by its port: the table inserts
  a port once.\<close>

type_synonym 'v port_list = "(int \<times> 'v) list"

definition portlist_Insert :: "'v port_list \<Rightarrow> int \<Rightarrow> 'v \<Rightarrow> 'v port_list" where
  "portlist_Insert l port v = (case l of [] \<Rightarrow> [(port, v)] | x # xs \<Rightarrow> x # (port, v) # xs)"

definition portlist_Get :: "'v port_list \<Rightarrow> 'v option \<times> 'v port_list" where
  "portlist_Get l = (case l of [] \<Rightarrow> (None, []) | x # xs \<Rightarrow> (Some (snd x), xs @ [x]))"

definition portlist_Find :: "'v port_list \<Rightarrow> int \<Rightarrow> bool" where
  "portlist_Find l port \<longleftrightarrow> list_ex (\<lambda>x. fst x = port) l"

text \<open>The list points to the element before the one that is removed.\<close>

definition portlist_Remove :: "'v port_list \<Rightarrow> int \<Rightarrow> 'v port_list" where
  "portlist_Remove l port = (let
     before = takeWhile (\<lambda>x. fst x \<noteq> port) l;
     others = drop (Suc (length before)) l @ before
   in if others = [] then [] else last others # butlast others)"

section \<open>Services (svctable.go)\<close>

type_synonym 'v unicast_table = "(ip_text \<times> 'v port_list) list"
type_synonym 'v svc_table = "(u16 \<times> 'v unicast_table) list"

definition validateUDPAddr :: "udp_addr option \<Rightarrow> udp_addr res" where
  "validateUDPAddr address = (case address of
       None \<Rightarrow> Inl (Err ''nil address'')
     | Some a \<Rightarrow>
         if IsUnspecified (UIP a) then Inl (Err ''zero address'')
         else if UPort a = 0 then Inl (Err ''zero port'')
         else Inr a)"

definition unicast_insert :: "'v unicast_table \<Rightarrow> udp_addr \<Rightarrow> 'v \<Rightarrow> 'v unicast_table res" where
  "unicast_insert t address v = (let str = ip_String (UIP address) in
     case map_of t str of
       Some l \<Rightarrow>
         if portlist_Find l (UPort address) then Inl (Err ''overlapping address'')
         else Inr (AList.update str (portlist_Insert l (UPort address) v) t)
     | None \<Rightarrow> Inr (AList.update str (portlist_Insert [] (UPort address) v) t))"

text \<open>What a reference frees: a service, an IP address and a port for each element it stands for.\<close>

record svc_ref =
  SrFreed :: bool
  SrClean :: "(u16 \<times> bytes \<times> int) list"

definition registerOne :: "'v svc_table \<Rightarrow> u16 \<Rightarrow> udp_addr \<Rightarrow> 'v \<Rightarrow> 'v svc_table \<times> svc_ref res" where
  "registerOne t svc address v = (let
     t = (if map_of t svc = None then AList.update svc [] t else t);
     ipTable = (case map_of t svc of None \<Rightarrow> [] | Some i \<Rightarrow> i)
   in case unicast_insert ipTable address v of
        Inl e \<Rightarrow> (t, Inl e)
      | Inr ipTable \<Rightarrow> (AList.update svc ipTable t, Inr \<lparr>SrFreed = False, SrClean = [(svc, UIP address, UPort address)]\<rparr>))"

definition doCleanup :: "'v svc_table \<Rightarrow> u16 \<times> bytes \<times> int \<Rightarrow> 'v svc_table res" where
  "doCleanup t = (\<lambda>(svc, ip, port). let ipTable = (case map_of t svc of None \<Rightarrow> [] | Some i \<Rightarrow> i) in
     case map_of ipTable (ip_String ip) of
       None \<Rightarrow> Inl (Panic ''nil pointer dereference'')
     | Some l \<Rightarrow> let
         l = portlist_Remove l port;
         ipTable = (if l = [] then AList.delete (ip_String ip) ipTable else AList.update (ip_String ip) l ipTable)
       in Inr (if ipTable = [] then AList.delete svc t else AList.update svc ipTable t))"

fun cleanups :: "'v svc_table \<Rightarrow> (u16 \<times> bytes \<times> int) list \<Rightarrow> 'v svc_table res" where
  "cleanups t [] = Inr t"
| "cleanups t (c # cs) = rbind (doCleanup t c) (\<lambda>t. cleanups t cs)"

definition SvcRef_Free :: "'v svc_table \<Rightarrow> svc_ref \<Rightarrow> ('v svc_table \<times> svc_ref) res" where
  "SvcRef_Free t r =
     (if SrFreed r then Inl (Panic ''double free'')
      else rbind (cleanups t (SrClean r)) (\<lambda>t. Inr (t, r\<lparr>SrFreed := True\<rparr>)))"

definition Svc_Register :: "'v svc_table \<Rightarrow> u16 \<Rightarrow> udp_addr option \<Rightarrow> 'v \<Rightarrow> 'v svc_table \<times> svc_ref res" where
  "Svc_Register t svc address v = (case validateUDPAddr address of
       Inl e \<Rightarrow> (t, Inl e)
     | Inr address \<Rightarrow>
         if svc = SvcNone then (t, Inl (Err ''svc none''))
         else if svc = SvcWildcard then (case registerOne t SvcCS address v of
             (t, Inl e) \<Rightarrow> (t, Inl e)
           | (t, Inr refCS) \<Rightarrow> (case registerOne t SvcDS address v of
               (t, Inl e) \<Rightarrow> (case SvcRef_Free t refCS of Inl p \<Rightarrow> (t, Inl p) | Inr (t, _) \<Rightarrow> (t, Inl e))
             | (t, Inr refDS) \<Rightarrow> (t, Inr \<lparr>SrFreed = False, SrClean = SrClean refCS @ SrClean refDS\<rparr>)))
         else registerOne t svc address v)"

text \<open>The loop that takes all elements of a list, one \<open>Get\<close> after the other.\<close>

fun get_values :: "nat \<Rightarrow> 'v port_list \<Rightarrow> 'v list \<times> 'v port_list" where
  "get_values 0 l = ([], l)"
| "get_values (Suc n) l = (case portlist_Get l of
     (None, l) \<Rightarrow> get_values n l
   | (Some v, l) \<Rightarrow> let (vs, l) = get_values n l in (v # vs, l))"

definition multicast :: "'v svc_table \<Rightarrow> u16 \<Rightarrow> 'v list \<times> 'v svc_table" where
  "multicast t svc = (case map_of t (SVC_Base svc) of
       None \<Rightarrow> ([], t)
     | Some ipTable \<Rightarrow> let rs = map (\<lambda>(ip, l). (ip, get_values (length l) l)) ipTable in
         (concat (map (\<lambda>(ip, vs, l). vs) rs), AList.update (SVC_Base svc) (map (\<lambda>(ip, vs, l). (ip, l)) rs) t))"

definition unicast_any :: "'v unicast_table \<Rightarrow> (ip_text \<times> 'v port_list) option" where
  "unicast_any t = (case t of [] \<Rightarrow> None | x # _ \<Rightarrow> Some x)"

text \<open>No list in a table is empty (\<open>doCleanup\<close> deletes it), so \<open>Get\<close> has a value to return.\<close>

definition anycast :: "'v svc_table \<Rightarrow> u16 \<Rightarrow> bytes option \<Rightarrow> 'v option \<times> 'v svc_table" where
  "anycast t svc ip = (case map_of t svc of
       None \<Rightarrow> (None, t)
     | Some ipTable \<Rightarrow>
         (case (case ip of None \<Rightarrow> unicast_any ipTable | Some ip \<Rightarrow> map_option (\<lambda>l. (ip_String ip, l)) (map_of ipTable (ip_String ip))) of
            None \<Rightarrow> (None, t)
          | Some (str, ports) \<Rightarrow> let (v, ports) = portlist_Get ports in (v, AList.update svc (AList.update str ports ipTable) t)))"

definition Svc_Lookup :: "'v svc_table \<Rightarrow> u16 \<Rightarrow> bytes option \<Rightarrow> 'v list \<times> 'v svc_table" where
  "Svc_Lookup t svc ip =
     (if SVC_IsMulticast svc then multicast t svc
      else case anycast t svc ip of (None, t) \<Rightarrow> ([], t) | (Some v, t) \<Rightarrow> ([v], t))"

section \<open>The tables of an AS (table.go)\<close>

record 'v reg_table =
  udpPortTable :: "'v udp_table"
  svcTable :: "'v option svc_table"
  tabSize :: int
  scmpTable :: "'v scmp_table"

definition NewTable :: "int \<Rightarrow> int \<Rightarrow> 'v reg_table res" where
  "NewTable mn mx = rbind (NewUDPPortTable mn mx) (\<lambda>u. Inr \<lparr>udpPortTable = u, svcTable = [], tabSize = 0, scmpTable = []\<rparr>)"

record table_ref =
  TrFreed :: bool
  TrAddress :: udp_addr
  TrSvc :: "svc_ref option"
  TrIds :: "u64 list"

definition insertSVCIfRequested :: "'v svc_table \<Rightarrow> u16 \<Rightarrow> bytes \<Rightarrow> int \<Rightarrow> 'v \<Rightarrow> 'v svc_table \<times> svc_ref option res" where
  "insertSVCIfRequested t svc bind port v =
     (if svc \<noteq> SvcNone then (case Svc_Register t svc (Some \<lparr>UIP = bind, UPort = port\<rparr>) v of
        (t, Inl e) \<Rightarrow> (t, Inl e) | (t, Inr r) \<Rightarrow> (t, Inr (Some r)))
      else (t, Inr None))"

definition Table_Register ::
  "'v reg_table \<Rightarrow> udp_addr option \<Rightarrow> bytes option \<Rightarrow> u16 \<Rightarrow> 'v option \<Rightarrow> 'v reg_table \<times> table_ref res" where
  "Table_Register t public bind svc val = (case public of
       None \<Rightarrow> (t, Inl (Err ''no public address''))
     | Some public \<Rightarrow>
         if bind \<noteq> None \<and> svc = SvcNone then (t, Inl (Err ''bind address without svc address''))
         else (case Udp_Insert (udpPortTable t) public val of
           (u, Inl e) \<Rightarrow> (t\<lparr>udpPortTable := u\<rparr>, Inl e)
         | (u, Inr address) \<Rightarrow> let bindIP = (case bind of None \<Rightarrow> UIP public | Some b \<Rightarrow> b) in
             (case insertSVCIfRequested (svcTable t) svc bindIP (UPort public) val of
                (s, Inl e) \<Rightarrow> (t\<lparr>udpPortTable := Udp_Remove u public, svcTable := s\<rparr>, Inl e)
              | (s, Inr svcRef) \<Rightarrow> (t\<lparr>udpPortTable := u, svcTable := s, tabSize := tabSize t + 1\<rparr>,
                  Inr \<lparr>TrFreed = False, TrAddress = address, TrSvc = svcRef, TrIds = []\<rparr>))))"

definition Table_LookupPublic :: "'v reg_table \<Rightarrow> udp_addr \<Rightarrow> 'v option" where
  "Table_LookupPublic t address = Udp_Lookup (udpPortTable t) address"

definition Table_LookupService :: "'v reg_table \<Rightarrow> u16 \<Rightarrow> bytes option \<Rightarrow> 'v option list \<times> 'v reg_table" where
  "Table_LookupService t svc bind = (let (vs, s) = Svc_Lookup (svcTable t) svc bind in (vs, t\<lparr>svcTable := s\<rparr>))"

definition Table_LookupID :: "'v reg_table \<Rightarrow> u64 \<Rightarrow> 'v option" where
  "Table_LookupID t sid = Scmp_Lookup (scmpTable t) sid"

definition TableRef_Free :: "'v reg_table \<Rightarrow> table_ref \<Rightarrow> ('v reg_table \<times> table_ref) res" where
  "TableRef_Free t r =
     (if TrFreed r then Inl (Panic ''double free'')
      else let u = Udp_Remove (udpPortTable t) (TrAddress r) in
        rbind (case TrSvc r of None \<Rightarrow> Inr (svcTable t, None)
               | Some sr \<Rightarrow> rbind (SvcRef_Free (svcTable t) sr) (\<lambda>(s, sr). Inr (s, Some sr))) (\<lambda>(s, sr).
        Inr (t\<lparr>udpPortTable := u, svcTable := s, tabSize := tabSize t - 1, scmpTable := foldl Scmp_Remove (scmpTable t) (TrIds r)\<rparr>,
          r\<lparr>TrFreed := True, TrSvc := sr\<rparr>)))"

definition TableRef_RegisterID :: "'v reg_table \<Rightarrow> table_ref \<Rightarrow> u64 \<Rightarrow> 'v option \<Rightarrow> ('v reg_table \<times> table_ref) res" where
  "TableRef_RegisterID t r sid val =
     rbind (Scmp_Register (scmpTable t) sid val) (\<lambda>s. Inr (t\<lparr>scmpTable := s\<rparr>, r\<lparr>TrIds := TrIds r @ [sid]\<rparr>))"

section \<open>All ASes (iatable.go)\<close>

record 'v ia_table =
  iaTables :: "(u64 \<times> 'v reg_table) list"
  iaMinPort :: int
  iaMaxPort :: int

text \<open>A reference holds a pointer to the table of its AS. The map holds that table as long as the reference is not freed, so the
  table is looked up there.\<close>

record 'v ia_ref =
  IrIA :: u64
  IrEntry :: table_ref
  IrSvc :: u16
  IrValue :: "'v option"

definition newIATable :: "int \<Rightarrow> int \<Rightarrow> 'v ia_table" where
  "newIATable mn mx = \<lparr>iaTables = [], iaMinPort = mn, iaMaxPort = mx\<rparr>"

definition Ia_Register ::
  "'v ia_table \<Rightarrow> u64 \<Rightarrow> udp_addr option \<Rightarrow> bytes option \<Rightarrow> u16 \<Rightarrow> 'v option \<Rightarrow> 'v ia_table \<times> 'v ia_ref res" where
  "Ia_Register t ia public bind svc val =
     (if IA_ISD ia = 0 then (t, Inl (Err ''0 is not valid ISD''))
      else if IA_AS ia = 0 then (t, Inl (Err ''0 is not valid AS''))
      else case (case map_of (iaTables t) ia of Some tab \<Rightarrow> Inr tab | None \<Rightarrow> NewTable (iaMinPort t) (iaMaxPort t)) of
        Inl e \<Rightarrow> (t, Inl e)
      | Inr tab \<Rightarrow> (case Table_Register tab public bind svc val of
          (tab, Inl e) \<Rightarrow> (t\<lparr>iaTables := AList.update ia tab (iaTables t)\<rparr>, Inl e)
        | (tab, Inr r) \<Rightarrow> (t\<lparr>iaTables := AList.update ia tab (iaTables t)\<rparr>,
            Inr \<lparr>IrIA = ia, IrEntry = r, IrSvc = svc, IrValue = val\<rparr>)))"

definition Ia_LookupPublic :: "'v ia_table \<Rightarrow> u64 \<Rightarrow> udp_addr \<Rightarrow> 'v option" where
  "Ia_LookupPublic t ia public = (case map_of (iaTables t) ia of None \<Rightarrow> None | Some tab \<Rightarrow> Table_LookupPublic tab public)"

definition Ia_LookupService :: "'v ia_table \<Rightarrow> u64 \<Rightarrow> u16 \<Rightarrow> bytes option \<Rightarrow> 'v option list \<times> 'v ia_table" where
  "Ia_LookupService t ia svc bind = (case map_of (iaTables t) ia of
       None \<Rightarrow> ([], t)
     | Some tab \<Rightarrow> let (vs, tab) = Table_LookupService tab svc bind in (vs, t\<lparr>iaTables := AList.update ia tab (iaTables t)\<rparr>))"

definition Ia_LookupID :: "'v ia_table \<Rightarrow> u64 \<Rightarrow> u64 \<Rightarrow> 'v option" where
  "Ia_LookupID t ia sid = (case map_of (iaTables t) ia of None \<Rightarrow> None | Some tab \<Rightarrow> Table_LookupID tab sid)"

definition IaRef_Free :: "'v ia_table \<Rightarrow> 'v ia_ref \<Rightarrow> ('v ia_table \<times> 'v ia_ref) res" where
  "IaRef_Free t r = (case map_of (iaTables t) (IrIA r) of
       None \<Rightarrow> Inl (Panic ''nil pointer dereference'')
     | Some tab \<Rightarrow> rbind (TableRef_Free tab (IrEntry r)) (\<lambda>(tab, e).
         Inr (t\<lparr>iaTables := (if tabSize tab = 0 then AList.delete (IrIA r) (iaTables t) else AList.update (IrIA r) tab (iaTables t))\<rparr>,
           r\<lparr>IrEntry := e\<rparr>)))"

definition IaRef_RegisterID :: "'v ia_table \<Rightarrow> 'v ia_ref \<Rightarrow> u64 \<Rightarrow> ('v ia_table \<times> 'v ia_ref) res" where
  "IaRef_RegisterID t r sid = (case map_of (iaTables t) (IrIA r) of
       None \<Rightarrow> Inl (Panic ''nil pointer dereference'')
     | Some tab \<Rightarrow> rbind (TableRef_RegisterID tab (IrEntry r) sid (IrValue r)) (\<lambda>(tab, e).
         Inr (t\<lparr>iaTables := AList.update (IrIA r) tab (iaTables t)\<rparr>, r\<lparr>IrEntry := e\<rparr>)))"

end
