(* ===== verification/Dispatcher_Tables.thy ===== *)
theory Dispatcher_Tables
  imports Dispatcher "HOL-Library.Multiset"
begin

text \<open>
  The registration tables of the dispatcher against a specification: a table holds exactly the entries of the references
  that were given out and not freed, and besides them the ports that were taken for a request that then failed. The interface of a table is the locale \<open>registry\<close>; \<open>registry_map\<close> makes a table of
  tables from it, and the two are interpreted for the tables of SCMP identifiers, UDP addresses and services.
\<close>

lemma set_update_cases': "x \<in> set (AList.update k v al) \<Longrightarrow> x = (k, v) \<or> x \<in> set al"
  by (induction al) (auto split: if_splits)

lemma set_delete_subset: "set (AList.delete k al) \<subseteq> set al"
  by (simp add: AList.delete_eq)

section \<open>Interface of a table\<close>

text \<open>What the tables promise: a key that is put where there was none is found until it is deleted, and no other key changes.
  \<open>holds s kvs\<close> says that the table has exactly the given entries.\<close>

locale registry =
  fixes inv :: "'s \<Rightarrow> bool" and get :: "'s \<Rightarrow> 'k \<Rightarrow> 'v option" and put :: "'k \<Rightarrow> 'v \<Rightarrow> 's \<Rightarrow> 's" and del :: "'k \<Rightarrow> 's \<Rightarrow> 's"
  assumes put_inv: "inv s \<Longrightarrow> get s k = None \<Longrightarrow> inv (put k v s)"
    and del_inv: "inv s \<Longrightarrow> get s k \<noteq> None \<Longrightarrow> inv (del k s)"
    and get_put: "inv s \<Longrightarrow> get s k = None \<Longrightarrow> get (put k v s) k' = (if k' = k then Some v else get s k')"
    and get_del: "inv s \<Longrightarrow> get s k \<noteq> None \<Longrightarrow> get (del k s) k' = (if k' = k then None else get s k')"
begin

definition holds :: "'s \<Rightarrow> ('k \<times> 'v) list \<Rightarrow> bool" where
  "holds s kvs \<longleftrightarrow> inv s \<and> distinct (map fst kvs) \<and> (\<forall>k v. get s k = Some v \<longleftrightarrow> (k, v) \<in> set kvs)"

lemma holds_get: "holds s kvs \<Longrightarrow> get s k = Some v \<longleftrightarrow> (k, v) \<in> set kvs"
  by (simp add: holds_def)

lemma holds_None: "holds s kvs \<Longrightarrow> get s k = None \<longleftrightarrow> k \<notin> fst ` set kvs"
  by (cases "get s k") (force simp: holds_def)+

lemma holds_perm: "holds s kvs \<Longrightarrow> mset kvs = mset kvs' \<Longrightarrow> holds s kvs'"
  unfolding holds_def by (metis mset_eq_imp_distinct_iff mset_map set_mset_mset)

lemma holds_put: "holds s kvs \<Longrightarrow> get s k = None \<Longrightarrow> holds (put k v s) ((k, v) # kvs)"
  using holds_None [of s kvs k] by (force simp: holds_def put_inv get_put)

lemma holds_del: "holds s ((k, v) # kvs) \<Longrightarrow> holds (del k s) kvs"
proof -
  assume h: "holds s ((k, v) # kvs)"
  then have k: "inv s" "get s k = Some v" by (auto simp: holds_def)
  then have "get (del k s) k' = (if k' = k then None else get s k')" for k' by (simp add: get_del)
  then have "get (del k s) k' = Some w \<longleftrightarrow> (k', w) \<in> set kvs" for k' w
    using h by (force simp: holds_def)
  moreover have "inv (del k s)" using k by (simp add: del_inv)
  ultimately show ?thesis using h by (simp add: holds_def)
qed

lemma holds_del_all: "holds s (map (\<lambda>k. (k, v)) ks @ kvs) \<Longrightarrow> holds (foldl (\<lambda>s k. del k s) s ks) kvs"
  by (induction ks arbitrary: s) (auto dest: holds_del)

end

text \<open>A map of tables, which holds no empty table: an entry is created when it is first needed and deleted with the last entry in it.\<close>

locale registry_map = registry inv get put del
  for inv :: "'s \<Rightarrow> bool" and get :: "'s \<Rightarrow> 'k \<Rightarrow> 'v option" and put :: "'k \<Rightarrow> 'v \<Rightarrow> 's \<Rightarrow> 's" and del :: "'k \<Rightarrow> 's \<Rightarrow> 's" +
  fixes emp :: 's
  assumes emp_inv: "inv emp" and get_emp: "get emp k = None"
    and nonempty: "inv s \<Longrightarrow> s \<noteq> emp \<Longrightarrow> \<exists>k. get s k \<noteq> None"
begin

definition inner :: "('a \<times> 's) list \<Rightarrow> 'a \<Rightarrow> 's" where
  "inner m a = (case map_of m a of None \<Rightarrow> emp | Some s \<Rightarrow> s)"

definition minv :: "('a \<times> 's) list \<Rightarrow> bool" where
  "minv m \<longleftrightarrow> distinct (map fst m) \<and> (\<forall>(a, s)\<in>set m. inv s \<and> s \<noteq> emp)"

definition mget :: "('a \<times> 's) list \<Rightarrow> 'a \<times> 'k \<Rightarrow> 'v option" where
  "mget m = (\<lambda>(a, k). get (inner m a) k)"

definition mput :: "'a \<times> 'k \<Rightarrow> 'v \<Rightarrow> ('a \<times> 's) list \<Rightarrow> ('a \<times> 's) list" where
  "mput = (\<lambda>(a, k) v m. AList.update a (put k v (inner m a)) m)"

definition mset_inner :: "'a \<Rightarrow> 's \<Rightarrow> ('a \<times> 's) list \<Rightarrow> ('a \<times> 's) list" where
  "mset_inner a s m = (if s = emp then AList.delete a m else AList.update a s m)"

definition mdel :: "'a \<times> 'k \<Rightarrow> ('a \<times> 's) list \<Rightarrow> ('a \<times> 's) list" where
  "mdel = (\<lambda>(a, k) m. mset_inner a (del k (inner m a)) m)"

lemma inner_inv: "minv m \<Longrightarrow> inv (inner m a)"
  by (auto simp: minv_def inner_def emp_inv split: option.splits dest!: map_of_SomeD)

lemma minv_update: "minv m \<Longrightarrow> inv s \<Longrightarrow> s \<noteq> emp \<Longrightarrow> minv (AList.update a s m)"
  by (auto simp: minv_def distinct_update dest!: set_update_cases')

lemma minv_mset: "minv m \<Longrightarrow> inv s \<Longrightarrow> minv (mset_inner a s m)"
  using set_delete_subset [of a m] by (auto simp: mset_inner_def minv_update) (auto simp: minv_def distinct_delete)

lemma inner_mset: "inner (mset_inner a s m) a' = (if a' = a then s else inner m a')"
  by (auto simp: inner_def mset_inner_def update_conv' delete_conv')

lemma put_nonempty: "inv s \<Longrightarrow> get s k = None \<Longrightarrow> put k v s \<noteq> emp"
  using get_put [of s k v k] get_emp [of k] by force

lemma inner_update: "inner (AList.update a s m) a' = (if a' = a then s else inner m a')"
  by (auto simp: inner_def update_conv')

lemma mget_ex: "minv m \<Longrightarrow> map_of m a = Some s \<Longrightarrow> \<exists>k. mget m (a, k) \<noteq> None"
  using nonempty [of s] by (auto simp: mget_def inner_def minv_def dest!: map_of_SomeD)

end

sublocale registry_map \<subseteq> map: registry minv mget mput mdel
proof
  fix m :: "('a \<times> 's) list" and k :: "'a \<times> 'k" and v :: 'v and k' :: "'a \<times> 'k"
  assume m: "minv m"
  obtain a c where k: "k = (a, c)" by (cases k)
  show "minv (mput k v m)" if "mget m k = None"
    using m that inner_inv [OF m, of a] put_nonempty [of "inner m a" c v]
    by (auto simp: k mget_def mput_def put_inv intro!: minv_update)
  show "mget (mput k v m) k' = (if k' = k then Some v else mget m k')" if "mget m k = None"
    using that inner_inv [OF m, of a] by (auto simp: k mget_def mput_def inner_update get_put split: prod.splits)
  show "minv (mdel k m)" if "mget m k \<noteq> None"
    using m that inner_inv [OF m, of a] by (auto simp: k mget_def mdel_def del_inv intro!: minv_mset)
  show "mget (mdel k m) k' = (if k' = k then None else mget m k')" if "mget m k \<noteq> None"
    using that inner_inv [OF m, of a] by (auto simp: k mget_def mdel_def inner_mset get_del split: prod.splits)
qed

section \<open>SCMP identifiers\<close>

lemma delete_alist:
  "distinct (map fst al) \<Longrightarrow> distinct (map fst (AList.delete k al))"
  "map_of (AList.delete k al) k' = (if k' = k then None else map_of al k')"
  by (simp_all add: distinct_delete delete_conv')

interpretation scmp: registry "\<lambda>t :: 'v scmp_table. distinct (map fst t)" Scmp_Lookup "AList.update" "\<lambda>k t. Scmp_Remove t k"
  by unfold_locales (auto simp: Scmp_Lookup_def Scmp_Remove_def distinct_update update_conv' delete_alist)

text \<open>The IP addresses registered on a port, and the ports of a family of addresses.\<close>

interpretation ipt: registry_map "\<lambda>t :: 'v ip_table. distinct (map fst t)" map_of AList.update AList.delete "[]"
proof
  fix t :: "'v ip_table"
  assume "t \<noteq> []"
  then obtain x xs where "t = x # xs" by (cases t) auto
  then show "\<exists>k. map_of t k \<noteq> None" by (intro exI [of _ "fst x"]) simp
qed (auto simp: distinct_update update_conv' delete_alist)

section \<open>Port lists\<close>

lemma portlist_Insert_perm: "mset (portlist_Insert l port v) = mset ((port, v) # l)"
  by (cases l) (simp_all add: portlist_Insert_def)

lemma last_butlast_perm: "xs \<noteq> [] \<Longrightarrow> mset (last xs # butlast xs) = mset xs"
  by (metis append_butlast_last_id mset.simps(2) mset_append union_mset_add_mset_right add_0_right mset.simps(1))

lemma portlist_Remove_perm:
  assumes "map_of l port = Some v" "distinct (map fst l)"
  shows "mset l = mset ((port, v) # portlist_Remove l port)"
proof -
  have "(port, v) \<in> set l" using assms(1) by (rule map_of_SomeD)
  then obtain as bs where l: "l = as @ (port, v) # bs" by (meson split_list)
  then have "takeWhile (\<lambda>x. fst x \<noteq> port) l = as"
    using assms(2) by (auto simp: takeWhile_append takeWhile_eq_all_conv image_iff)
  then have r: "portlist_Remove l port = (let others = bs @ as in if others = [] then [] else last others # butlast others)"
    by (simp add: portlist_Remove_def l)
  show ?thesis
  proof (cases "bs @ as = []")
    case False
    then have "mset (portlist_Remove l port) = mset (bs @ as)" unfolding r Let_def by (simp only: if_False last_butlast_perm not_False_eq_True)
    then show ?thesis by (simp add: l)
  next
    case True
    then have "portlist_Remove l port = []" using r by simp
    then show ?thesis using True l by simp
  qed
qed

lemma map_of_perm: "mset xs = mset ys \<Longrightarrow> distinct (map fst xs) \<Longrightarrow> map_of xs = map_of ys"
proof
  fix k
  assume m: "mset xs = mset ys" "distinct (map fst xs)"
  then have "set xs = set ys" "distinct (map fst ys)" by (metis set_mset_mset, metis mset_eq_imp_distinct_iff mset_map)
  then show "map_of xs k = map_of ys k" using m(2) by (metis map_of_eq_Some_iff option.exhaust)
qed

lemma distinct_perm: "mset xs = mset ys \<Longrightarrow> distinct (map fst xs) \<longleftrightarrow> distinct (map fst ys)"
  by (metis mset_eq_imp_distinct_iff mset_map)

interpretation ring: registry_map "\<lambda>l :: 'v port_list. distinct (map fst l)" map_of "\<lambda>port v l. portlist_Insert l port v"
  "\<lambda>port l. portlist_Remove l port" "[]"
proof
  fix l :: "'v port_list" and k v k'
  assume d: "distinct (map fst l)"
  note i = portlist_Insert_perm [of l k v]
  show "distinct (map fst (portlist_Insert l k v))" if "map_of l k = None"
    using d that distinct_perm [OF i] by (simp add: map_of_eq_None_iff)
  then show "map_of (portlist_Insert l k v) k' = (if k' = k then Some v else map_of l k')" if "map_of l k = None"
    using that map_of_perm [OF i] by simp
  assume "map_of l k \<noteq> None"
  then obtain w where w: "map_of l k = Some w" by auto
  note r = portlist_Remove_perm [OF w d]
  show "distinct (map fst (portlist_Remove l k))" using d distinct_perm [OF r] by simp
  have "map_of l k' = (if k' = k then Some w else map_of (portlist_Remove l k) k')" using map_of_perm [OF r d] by simp
  moreover have "map_of (portlist_Remove l k) k = None" using d distinct_perm [OF r] by (simp add: map_of_eq_None_iff)
  ultimately show "map_of (portlist_Remove l k) k' = (if k' = k then None else map_of l k')" by auto
next
  fix l :: "'v port_list"
  assume "l \<noteq> []"
  then obtain x xs where "l = x # xs" by (cases l) auto
  then show "\<exists>k. map_of l k \<noteq> None" by (intro exI [of _ "fst x"]) simp
qed simp_all

interpretation svct: registry_map "ring.minv :: 'v unicast_table \<Rightarrow> bool" ring.mget ring.mput ring.mdel "[]"
proof
  fix t :: "'v unicast_table"
  assume t: "ring.minv t" "t \<noteq> []"
  then obtain a l where "map_of t a = Some l" by (cases t) (auto intro: that [of "fst (hd t)" "snd (hd t)"])
  then show "\<exists>k. ring.mget t k \<noteq> None" using ring.mget_ex [OF t(1)] by blast
qed (auto simp: ring.minv_def ring.mget_def ring.inner_def split: prod.splits)

section \<open>UDP addresses\<close>

fun is_v4 :: "ip_text \<Rightarrow> bool" where
  "is_v4 (IPv4Text _) = True"
| "is_v4 _ = False"

definition is_zero :: "ip_text \<Rightarrow> bool" where
  "is_zero x \<longleftrightarrow> x = zero4 \<or> x = zero6"

definition akey :: "udp_addr \<Rightarrow> int \<times> ip_text" where
  "akey a = (UPort a, ip_String (UIP a))"

text \<open>Two addresses that cannot be registered together: the same port and family, and the same or an unspecified IP address.\<close>

definition conflicts :: "int \<times> ip_text \<Rightarrow> int \<times> ip_text \<Rightarrow> bool" where
  "conflicts = (\<lambda>(p, x) (q, y). p = q \<and> is_v4 x = is_v4 y \<and> (x = y \<or> is_zero x \<or> is_zero y))"

lemma is_v4_zero [simp]: "is_v4 zero4" "\<not> is_v4 zero6"
  by (simp_all add: zero4_def zero6_def)

lemma is_v4_String: "is_v4 (ip_String ip) \<longleftrightarrow> To4 ip \<noteq> None"
  by (auto simp: ip_String_def split: option.splits)

lemma getZeroString_eq: "is_zero x \<and> is_v4 x = is_v4 (ip_String ip) \<longleftrightarrow> x = getZeroString ip"
  by (auto simp: is_zero_def getZeroString_def is_v4_String)

lemma IsUnspecified_iff: "IsUnspecified ip \<longleftrightarrow> is_zero (ip_String ip)"
  by (simp add: IsUnspecified_def is_zero_def)

definition family :: "'v udp_table \<Rightarrow> ip_text \<Rightarrow> (int \<times> 'v ip_table) list" where
  "family t x = (if is_v4 x then v4PortTable t else v6PortTable t)"

definition set_family :: "ip_text \<Rightarrow> (int \<times> 'v ip_table) list \<Rightarrow> 'v udp_table \<Rightarrow> 'v udp_table" where
  "set_family x pt t = (if is_v4 x then t\<lparr>v4PortTable := pt\<rparr> else t\<lparr>v6PortTable := pt\<rparr>)"

definition udp_inv :: "'v udp_table \<Rightarrow> bool" where
  "udp_inv t \<longleftrightarrow> ipt.minv (v4PortTable t) \<and> ipt.minv (v6PortTable t) \<and>
     (\<forall>p x. (ipt.mget (v4PortTable t) (p, x) \<noteq> None \<longrightarrow> is_v4 x) \<and> (ipt.mget (v6PortTable t) (p, x) \<noteq> None \<longrightarrow> \<not> is_v4 x))"

definition udp_get :: "'v udp_table \<Rightarrow> int \<times> ip_text \<Rightarrow> 'v option" where
  "udp_get t k = ipt.mget (family t (snd k)) k"

definition udp_put :: "int \<times> ip_text \<Rightarrow> 'v \<Rightarrow> 'v udp_table \<Rightarrow> 'v udp_table" where
  "udp_put k v t = set_family (snd k) (ipt.mput k v (family t (snd k))) t"

definition udp_del :: "int \<times> ip_text \<Rightarrow> 'v udp_table \<Rightarrow> 'v udp_table" where
  "udp_del k t = set_family (snd k) (ipt.mdel k (family t (snd k))) t"

lemma family_set [simp]: "family (set_family x pt t) y = (if is_v4 x = is_v4 y then pt else family t y)"
  by (auto simp: family_def set_family_def)

lemma family_inv: "udp_inv t \<Longrightarrow> ipt.minv (family t x)"
  by (simp add: udp_inv_def family_def)

lemma udp_inv_set:
  "udp_inv t \<Longrightarrow> ipt.minv pt \<Longrightarrow> (\<And>p y. ipt.mget pt (p, y) \<noteq> None \<Longrightarrow> is_v4 y = is_v4 x) \<Longrightarrow> udp_inv (set_family x pt t)"
  by (auto simp: udp_inv_def set_family_def)

lemma family_v4: "udp_inv t \<Longrightarrow> ipt.mget (family t x) (p, y) \<noteq> None \<Longrightarrow> is_v4 y = is_v4 x"
  by (auto simp: udp_inv_def family_def split: if_splits)

interpretation udp: registry "udp_inv :: 'v udp_table \<Rightarrow> bool" udp_get udp_put udp_del
proof
  fix t :: "'v udp_table" and k v k'
  assume t: "udp_inv t"
  note f = family_inv [OF t, of "snd k"]
  {
    assume n: "udp_get t k = None"
    then have g: "ipt.mget (ipt.mput k v (family t (snd k))) k' = (if k' = k then Some v else ipt.mget (family t (snd k)) k')" for k'
      by (simp add: udp_get_def ipt.map.get_put [OF f])
    show "udp_inv (udp_put k v t)"
      unfolding udp_put_def
    proof (rule udp_inv_set [OF t])
      show "ipt.minv (ipt.mput k v (family t (snd k)))" using n by (intro ipt.map.put_inv f) (simp add: udp_get_def)
      show "is_v4 y = is_v4 (snd k)" if "ipt.mget (ipt.mput k v (family t (snd k))) (p, y) \<noteq> None" for p y
        using that family_v4 [OF t] by (auto simp: g split: if_splits)
    qed
    show "udp_get (udp_put k v t) k' = (if k' = k then Some v else udp_get t k')"
      by (auto simp: udp_get_def udp_put_def g) (auto simp: family_def)
  next
    assume n: "udp_get t k \<noteq> None"
    then have g: "ipt.mget (ipt.mdel k (family t (snd k))) k' = (if k' = k then None else ipt.mget (family t (snd k)) k')" for k'
      by (simp add: udp_get_def ipt.map.get_del [OF f])
    show "udp_inv (udp_del k t)"
      unfolding udp_del_def
    proof (rule udp_inv_set [OF t])
      show "ipt.minv (ipt.mdel k (family t (snd k)))" using n by (intro ipt.map.del_inv f) (simp add: udp_get_def)
      show "is_v4 y = is_v4 (snd k)" if "ipt.mget (ipt.mdel k (family t (snd k))) (p, y) \<noteq> None" for p y
        using that family_v4 [OF t] by (auto simp: g split: if_splits)
    qed
    show "udp_get (udp_del k t) k' = (if k' = k then None else udp_get t k')"
      by (auto simp: udp_get_def udp_del_def g) (auto simp: family_def)
  }
qed

text \<open>The operations of the code in terms of the interface.\<close>

lemma getPortTableByIP_eq: "getPortTableByIP t ip = family t (ip_String ip)" "setPortTableByIP t ip pt = set_family (ip_String ip) pt t"
  by (simp_all add: getPortTableByIP_def setPortTableByIP_def family_def set_family_def is_v4_String)

lemma insertUDPAddress_eq: "insertUDPAddress t a v = udp_put (akey a) v t"
  by (simp add: insertUDPAddress_def udp_put_def akey_def getPortTableByIP_eq ipt.mput_def ipt.inner_def Let_def)

lemma Udp_Remove_eq: "udp_get t (akey a) \<noteq> None \<Longrightarrow> Udp_Remove t a = udp_del (akey a) t"
  by (auto simp: Udp_Remove_def udp_del_def udp_get_def akey_def getPortTableByIP_eq ipt.mdel_def ipt.mget_def ipt.mset_inner_def
      ipt.inner_def Let_def split: option.splits)

lemma Route_eq:
  "map_of (getPortTableByIP t ip) p = Some i \<Longrightarrow>
   IPTable_Route i ip = (case udp_get t (p, getZeroString ip) of Some v \<Rightarrow> Some v | None \<Rightarrow> udp_get t (p, ip_String ip))"
proof -
  assume i: "map_of (getPortTableByIP t ip) p = Some i"
  have "is_v4 (getZeroString ip) = is_v4 (ip_String ip)" using getZeroString_eq by blast
  then have "family t (getZeroString ip) = family t (ip_String ip)" by (simp add: family_def)
  then show ?thesis using i by (simp add: IPTable_Route_def udp_get_def getPortTableByIP_eq ipt.mget_def ipt.inner_def split: option.splits)
qed

lemma overlapsWith_iff:
  assumes "udp_inv t"
  shows "overlapsWith t a \<longleftrightarrow> (\<exists>k. udp_get t k \<noteq> None \<and> conflicts k (akey a))"
proof (cases "map_of (getPortTableByIP t (UIP a)) (UPort a)")
  case None
  then have n: "udp_get t (UPort a, x) = None" if "is_v4 x = is_v4 (ip_String (UIP a))" for x
    using that by (simp add: udp_get_def getPortTableByIP_eq family_def ipt.mget_def ipt.inner_def)
  have "\<not> conflicts k (akey a)" if "udp_get t k \<noteq> None" for k
    using that n [of "snd k"] by (cases k) (auto simp: conflicts_def akey_def, blast+)
  moreover have "\<not> overlapsWith t a" using None by (simp add: overlapsWith_def)
  ultimately show ?thesis by blast
next
  case (Some i)
  let ?x = "ip_String (UIP a)"
  have m: "ipt.minv (family t ?x)" by (rule family_inv [OF assms])
  have g: "udp_get t (UPort a, y) = map_of i y" if "is_v4 y = is_v4 ?x" for y
    using that Some by (simp add: udp_get_def getPortTableByIP_eq family_def ipt.mget_def ipt.inner_def)
  have f: "map_of (family t ?x) (UPort a) = Some i" using Some by (simp add: getPortTableByIP_eq)
  obtain y where y: "ipt.mget (family t ?x) (UPort a, y) \<noteq> None" using ipt.mget_ex [OF m f] by blast
  then have "is_v4 y = is_v4 ?x" by (rule family_v4 [OF assms])
  moreover from this have "udp_get t (UPort a, y) \<noteq> None" using y f by (simp add: g ipt.mget_def ipt.inner_def)
  ultimately have ex: "\<exists>y. is_v4 y = is_v4 ?x \<and> udp_get t (UPort a, y) \<noteq> None" by blast
  have c: "conflicts (p, y) (akey a) \<longleftrightarrow> p = UPort a \<and> is_v4 y = is_v4 ?x \<and> (y = ?x \<or> y = getZeroString (UIP a) \<or> is_zero ?x)" for p y
    using getZeroString_eq [of y "UIP a"] by (auto simp: conflicts_def akey_def)
  have z: "is_v4 (getZeroString (UIP a)) = is_v4 ?x" using getZeroString_eq by blast
  have "i \<noteq> []" using m Some by (auto simp: getPortTableByIP_eq ipt.minv_def dest!: map_of_SomeD)
  then have "overlapsWith t a \<longleftrightarrow> is_zero ?x \<or> udp_get t (UPort a, getZeroString (UIP a)) \<noteq> None \<or> udp_get t (UPort a, ?x) \<noteq> None"
    by (simp add: overlapsWith_def Some IPTable_OverlapsWith_def Route_eq [OF Some] IsUnspecified_iff split: option.splits)
  also have "\<dots> \<longleftrightarrow> (\<exists>k. udp_get t k \<noteq> None \<and> conflicts k (akey a))"
    unfolding split_paired_Ex c using ex z by blast
  finally show ?thesis .
qed

lemma udp_get_allocator [simp]: "udp_get (t\<lparr>allocator := a\<rparr>) = udp_get t" "udp_inv (t\<lparr>allocator := a\<rparr>) = udp_inv t"
  by (simp_all add: udp_get_def udp_inv_def family_def fun_eq_iff)

lemma udp_holds_allocator [simp]: "udp.holds (t\<lparr>allocator := a\<rparr>) kvs = udp.holds t kvs"
  by (simp add: udp.holds_def)

lemma conflicts_sym: "conflicts k k' \<longleftrightarrow> conflicts k' k"
  by (auto simp: conflicts_def split: prod.splits)

lemma conflicts_refl [simp]: "conflicts k k"
  by (simp add: conflicts_def split: prod.splits)

text \<open>No two entries conflict.\<close>

definition apart :: "((int \<times> ip_text) \<times> 'v) list \<Rightarrow> bool" where
  "apart kvs \<longleftrightarrow> (\<forall>(k, v)\<in>set kvs. \<forall>(k', v')\<in>set kvs. conflicts k k' \<longrightarrow> k = k')"

lemma apartD: "apart kvs \<Longrightarrow> (k, v) \<in> set kvs \<Longrightarrow> (k', v') \<in> set kvs \<Longrightarrow> conflicts k k' \<Longrightarrow> k = k'"
  by (fastforce simp: apart_def)

lemma apart_Cons: "apart kvs \<Longrightarrow> (\<And>k w. (k, w) \<in> set kvs \<Longrightarrow> \<not> conflicts k key) \<Longrightarrow> apart ((key, v) # kvs)"
proof -
  assume a: "apart kvs" "\<And>k w. (k, w) \<in> set kvs \<Longrightarrow> \<not> conflicts k key"
  then have "\<not> conflicts key k" if "(k, w) \<in> set kvs" for k w using that conflicts_sym by blast
  then show ?thesis using a by (auto simp: apart_def)
qed

lemma overlapsWith_holds: "udp.holds t kvs \<Longrightarrow> overlapsWith t a \<longleftrightarrow> (\<exists>k v. (k, v) \<in> set kvs \<and> conflicts k (akey a))"
proof -
  assume h: "udp.holds t kvs"
  then have "overlapsWith t a \<longleftrightarrow> (\<exists>k. udp_get t k \<noteq> None \<and> conflicts k (akey a))" by (intro overlapsWith_iff) (simp add: udp.holds_def)
  also have "\<dots> \<longleftrightarrow> (\<exists>k v. udp_get t k = Some v \<and> conflicts k (akey a))" by blast
  finally show ?thesis by (simp only: udp.holds_get [OF h])
qed

lemma Udp_Lookup_holds:
  assumes "udp.holds t kvs" "apart kvs"
  shows "Udp_Lookup t a = Some v \<longleftrightarrow> \<not> IsUnspecified (UIP a) \<and> (\<exists>k. (k, v) \<in> set kvs \<and> conflicts k (akey a))"
proof (cases "IsUnspecified (UIP a)")
  case False
  have g: "udp_get t k = Some w \<longleftrightarrow> (k, w) \<in> set kvs" for k w by (rule udp.holds_get [OF assms(1)])
  let ?x = "ip_String (UIP a)" and ?z = "getZeroString (UIP a)"
  have c: "conflicts (p, y) (akey a) \<longleftrightarrow> p = UPort a \<and> (y = ?x \<or> y = ?z)" for p y
    using getZeroString_eq [of y "UIP a"] getZeroString_eq [of ?z "UIP a"] False by (auto simp: conflicts_def akey_def IsUnspecified_iff)
  have z: "conflicts (UPort a, ?z) (UPort a, ?x)" using c [of "UPort a" ?z] by (simp add: akey_def)
  have l: "Udp_Lookup t a = (case udp_get t (UPort a, ?z) of Some v \<Rightarrow> Some v | None \<Rightarrow> udp_get t (UPort a, ?x))"
  proof (cases "map_of (getPortTableByIP t (UIP a)) (UPort a)")
    case None
    then have "udp_get t (UPort a, y) = None" if "is_v4 y = is_v4 ?x" for y
      using that by (simp add: udp_get_def getPortTableByIP_eq family_def ipt.mget_def ipt.inner_def)
    moreover have "is_v4 ?z = is_v4 ?x" using getZeroString_eq by blast
    ultimately show ?thesis using None False by (simp add: Udp_Lookup_def)
  qed (use False in \<open>simp add: Udp_Lookup_def Route_eq\<close>)
  have "?z = ?x" if "((UPort a, ?z), w) \<in> set kvs" "((UPort a, ?x), w') \<in> set kvs" for w w'
    using apartD [OF assms(2) that z] by simp
  then have "(case udp_get t (UPort a, ?z) of Some v \<Rightarrow> Some v | None \<Rightarrow> udp_get t (UPort a, ?x)) = Some v \<longleftrightarrow>
      ((UPort a, ?z), v) \<in> set kvs \<or> ((UPort a, ?x), v) \<in> set kvs"
    using g by (auto split: option.splits) (metis option.inject option.distinct(1))+
  then show ?thesis using False by (auto simp: l c)
qed (simp add: Udp_Lookup_def)

text \<open>The allocator goes once round its range.\<close>

definition port_at :: "port_allocator \<Rightarrow> nat \<Rightarrow> int" where
  "port_at a j = PaMin a + (PaNext a - PaMin a + int j) mod (PaMax a + 1 - PaMin a)"

definition alloc_ok :: "port_allocator \<Rightarrow> bool" where
  "alloc_ok a \<longleftrightarrow> 0 < PaMin a \<and> PaMin a \<le> PaNext a \<and> PaNext a \<le> PaMax a"

lemma port_at_Suc:
  assumes "alloc_ok a"
  shows "port_at (a\<lparr>PaNext := (if PaNext a + 1 = PaMax a + 1 then PaMin a else PaNext a + 1)\<rparr>) j = port_at a (Suc j)"
proof (cases "PaNext a = PaMax a")
  case True
  have "(PaMax a - PaMin a + int (Suc j)) mod (PaMax a + 1 - PaMin a) = (int j + (PaMax a + 1 - PaMin a)) mod (PaMax a + 1 - PaMin a)"
    by (simp add: algebra_simps)
  then show ?thesis using True by (simp add: port_at_def)
qed (simp add: port_at_def algebra_simps)

lemma alloc_loop_cases:
  assumes "alloc_ok a" "alloc_loop n a ip t = (a', res)"
  shows "alloc_ok a' \<and> PaMin a' = PaMin a \<and> PaMax a' = PaMax a \<and>
    (case res of
       Inr p \<Rightarrow> PaMin a \<le> p \<and> p \<le> PaMax a \<and> \<not> overlapsWith t \<lparr>UIP = ip, UPort = p\<rparr>
     | Inl e \<Rightarrow> e = Err ''no free ports'' \<and> (\<forall>j<n. overlapsWith t \<lparr>UIP = ip, UPort = port_at a j\<rparr>))"
  using assms
proof (induction n arbitrary: a)
  case (Suc n)
  let ?a = "a\<lparr>PaNext := (if PaNext a + 1 = PaMax a + 1 then PaMin a else PaNext a + 1)\<rparr>"
  have ok: "alloc_ok ?a" using Suc.prems(1) by (auto simp: alloc_ok_def)
  show ?case
  proof (cases "overlapsWith t \<lparr>UIP = ip, UPort = PaNext a\<rparr>")
    case True
    have "port_at a 0 = PaNext a" using Suc.prems(1) by (simp add: port_at_def alloc_ok_def)
    moreover have "alloc_loop n ?a ip t = (a', res)" using Suc.prems(2) True by (simp add: Let_def)
    from Suc.IH [OF ok this] True calculation show ?thesis
      unfolding port_at_Suc [OF Suc.prems(1)] by (auto simp: All_less_Suc2 split: sum.splits)
  next
    case False
    then show ?thesis using Suc.prems ok by (auto simp: Let_def alloc_ok_def split: if_splits)
  qed
qed auto

text \<open>An address that was inserted conflicted with no entry.\<close>

lemma Udp_Insert_cases:
  assumes "udp.holds t kvs" "apart kvs" "alloc_ok (allocator t)" "Udp_Insert t a val = (t', res)"
  shows "alloc_ok (allocator t') \<and>
    (case res of
       Inl e \<Rightarrow> udp.holds t' kvs \<and> soft_error e
     | Inr a' \<Rightarrow> \<exists>v. val = Some v \<and> UIP a' = UIP a \<and> (UPort a \<noteq> 0 \<longrightarrow> a' = a) \<and> UPort a' \<noteq> 0 \<and> udp_get t (akey a') = None \<and>
         udp.holds t' ((akey a', v) # kvs) \<and> apart ((akey a', v) # kvs))"
proof -
  have ins: "udp.holds (insertUDPAddress (t\<lparr>allocator := al\<rparr>) a' v) ((akey a', v) # kvs) \<and> apart ((akey a', v) # kvs) \<and> udp_get t (akey a') = None"
    if n: "\<not> overlapsWith t a'" for a' v al
  proof -
    have c: "\<not> conflicts k (akey a')" if "(k, w) \<in> set kvs" for k w using n that overlapsWith_holds [OF assms(1)] by blast
    then have g: "udp_get t (akey a') = None" using udp.holds_None [OF assms(1)] by (metis conflicts_refl image_iff prod.collapse)
    then have "udp.holds (udp_put (akey a') v (t\<lparr>allocator := al\<rparr>)) ((akey a', v) # kvs)" using assms(1) by (intro udp.holds_put) simp_all
    moreover have "apart ((akey a', v) # kvs)" using assms(2) c by (rule apart_Cons)
    ultimately show ?thesis using g by (simp add: insertUDPAddress_eq)
  qed
  consider e where "t' = t" "res = Inl e" "soft_error e" | v where "val = Some v" "\<not> overlapsWith t a" "UPort a \<noteq> 0" "t' = insertUDPAddress t a v" "res = Inr a"
    | v al r where "val = Some v" "UPort a = 0" "Allocate (allocator t) (UIP a) t = (al, r)" "(t', res) = (case r of Inl e \<Rightarrow> (t\<lparr>allocator := al\<rparr>, Inl e)
        | Inr p \<Rightarrow> (insertUDPAddress (t\<lparr>allocator := al\<rparr>) (a\<lparr>UPort := p\<rparr>) v, Inr (a\<lparr>UPort := p\<rparr>)))"
    using assms(4) by (auto simp: Udp_Insert_def computeAddressWithPort_def split: if_splits option.splits prod.splits sum.splits)
  then show ?thesis
  proof cases
    case (2 v)
    then show ?thesis using ins [of a "allocator t" v] assms(3) by (auto simp: insertUDPAddress_eq udp_put_def set_family_def)
  next
    case (3 v al r)
    note al = alloc_loop_cases [OF assms(3) 3(3) [unfolded Allocate_def]]
    have k: "\<lparr>UIP = UIP a, UPort = p\<rparr> = a\<lparr>UPort := p\<rparr>" for p by simp
    show ?thesis
    proof (cases r)
      case (Inl e)
      then show ?thesis using 3 al assms(1) by auto
    next
      case (Inr p)
      then have p: "\<not> overlapsWith t (a\<lparr>UPort := p\<rparr>)" "p \<noteq> 0" "alloc_ok al" using al assms(3) by (auto simp: k alloc_ok_def)
      show ?thesis using ins [OF p(1), of al v] p(2,3) 3 Inr by (auto simp: insertUDPAddress_eq udp_put_def set_family_def)
    qed
  qed (use assms in auto)
qed

section \<open>Services\<close>

text \<open>The key of an element that a reference frees.\<close>

definition skey :: "u16 \<times> bytes \<times> int \<Rightarrow> u16 \<times> ip_text \<times> int" where
  "skey = (\<lambda>(svc, ip, port). (svc, ip_String ip, port))"

lemma svc_get: "svct.mget t (svc, x, p) = (case map_of t svc of None \<Rightarrow> None | Some i \<Rightarrow>
    (case map_of i x of None \<Rightarrow> None | Some l \<Rightarrow> map_of l p))"
  by (simp add: svct.mget_def svct.inner_def ring.mget_def ring.inner_def split: option.splits)

lemma svc_put: "svct.mput (svc, x, p) v t = (let i = (case map_of t svc of None \<Rightarrow> [] | Some i \<Rightarrow> i) in
    AList.update svc (AList.update x (portlist_Insert (case map_of i x of None \<Rightarrow> [] | Some l \<Rightarrow> l) p v) i) t)"
  unfolding svct.mput_def svct.inner_def unfolding ring.mput_def ring.inner_def by (simp add: Let_def)

lemma svc_del: "svct.mdel (svc, x, p) t = (let
    i = (case map_of t svc of None \<Rightarrow> [] | Some i \<Rightarrow> i);
    l = portlist_Remove (case map_of i x of None \<Rightarrow> [] | Some l \<Rightarrow> l) p;
    i = (if l = [] then AList.delete x i else AList.update x l i)
  in if i = [] then AList.delete svc t else AList.update svc i t)"
  unfolding svct.mdel_def svct.mset_inner_def svct.inner_def
  unfolding ring.mdel_def ring.mset_inner_def ring.inner_def by (simp add: Let_def)

lemma portlist_Find_iff: "portlist_Find l p \<longleftrightarrow> map_of l p \<noteq> None"
  by (induction l) (auto simp: portlist_Find_def)

lemma registerOne_eq:
  "registerOne t svc a v = (if svct.mget t (skey (svc, UIP a, UPort a)) = None
     then (svct.mput (skey (svc, UIP a, UPort a)) v t, Inr \<lparr>SrFreed = False, SrClean = [(svc, UIP a, UPort a)]\<rparr>)
     else (t, Inl (Err ''overlapping address'')))"
  by (auto simp: registerOne_def unicast_insert_def skey_def svc_get svc_put
      portlist_Find_iff Let_def update_conv' update_last split: option.splits)

lemma doCleanup_eq: "svct.mget t (skey c) \<noteq> None \<Longrightarrow> doCleanup t c = Inr (svct.mdel (skey c) t)"
  by (cases c) (auto simp: doCleanup_def skey_def svc_get svc_del Let_def split: option.splits)

text \<open>The entries a reference stands for.\<close>

definition svc_kvs :: "svc_ref \<Rightarrow> 'v \<Rightarrow> ((u16 \<times> ip_text \<times> int) \<times> 'v) list" where
  "svc_kvs r v = map (\<lambda>c. (skey c, v)) (SrClean r)"

lemma cleanups_holds: "svct.map.holds t (map (\<lambda>c. (skey c, v)) cs @ kvs) \<Longrightarrow> \<exists>t'. cleanups t cs = Inr t' \<and> svct.map.holds t' kvs"
proof (induction cs arbitrary: t)
  case (Cons c cs)
  then have h: "svct.map.holds t ((skey c, v) # map (\<lambda>c. (skey c, v)) cs @ kvs)" by simp
  then have "svct.mget t (skey c) = Some v" by (simp add: svct.map.holds_get)
  then show ?case using doCleanup_eq [of t c] Cons.IH [OF svct.map.holds_del [OF h]] by simp
qed simp

lemma SvcRef_Free_holds:
  "svct.map.holds t (svc_kvs r v @ kvs) \<Longrightarrow> \<not> SrFreed r \<Longrightarrow> \<exists>t'. SvcRef_Free t r = Inr (t', r\<lparr>SrFreed := True\<rparr>) \<and> svct.map.holds t' kvs"
  using cleanups_holds [of t v "SrClean r" kvs] by (auto simp: SvcRef_Free_def svc_kvs_def)

definition services :: "u16 \<Rightarrow> u16 set" where
  "services svc = (if svc = SvcNone then {} else if svc = SvcWildcard then {SvcCS, SvcDS} else {svc})"

lemma registerOne_holds:
  assumes "svct.map.holds t kvs" "registerOne t svc a v = (t', res)"
  shows "case res of Inl e \<Rightarrow> t' = t \<and> soft_error e
    | Inr r \<Rightarrow> \<not> SrFreed r \<and> SrClean r = [(svc, UIP a, UPort a)] \<and> svct.map.holds t' (svc_kvs r v @ kvs)"
  using assms svct.map.holds_put [OF assms(1), of "skey (svc, UIP a, UPort a)" v]
  by (auto simp: registerOne_eq svc_kvs_def split: if_splits)

lemma Svc_Register_holds:
  assumes "svct.map.holds t kvs" "Svc_Register t svc (Some a) v = (t', res)"
  shows "case res of Inl e \<Rightarrow> svct.map.holds t' kvs \<and> soft_error e
    | Inr r \<Rightarrow> \<not> SrFreed r \<and> SrClean r \<noteq> [] \<and> set (SrClean r) = services svc \<times> {(UIP a, UPort a)} \<and> UPort a \<noteq> 0 \<and>
        svct.map.holds t' (svc_kvs r v @ kvs)"
proof -
  consider e where "t' = t" "res = Inl e" "soft_error e" | "svc \<noteq> SvcNone" "svc = SvcWildcard" "UPort a \<noteq> 0"
    | "svc \<noteq> SvcNone" "svc \<noteq> SvcWildcard" "UPort a \<noteq> 0" "registerOne t svc a v = (t', res)"
    using assms(2) by (auto simp: Svc_Register_def validateUDPAddr_def split: if_splits)
  then show ?thesis
  proof cases
    case 1
    then show ?thesis using assms(1) by simp
  next
    case 3
    from registerOne_holds [OF assms(1) 3(4)] 3 assms(1) show ?thesis by (auto simp: services_def split: sum.splits)
  next
    case 2
    have reg: "Svc_Register t svc (Some a) v = (case registerOne t SvcCS a v of
             (t, Inl e) \<Rightarrow> (t, Inl e)
           | (t, Inr refCS) \<Rightarrow> (case registerOne t SvcDS a v of
               (t, Inl e) \<Rightarrow> (case SvcRef_Free t refCS of Inl p \<Rightarrow> (t, Inl p) | Inr (t, _) \<Rightarrow> (t, Inl e))
             | (t, Inr refDS) \<Rightarrow> (t, Inr \<lparr>SrFreed = False, SrClean = SrClean refCS @ SrClean refDS\<rparr>)))
         \<or> (\<exists>e. Svc_Register t svc (Some a) v = (t, Inl e) \<and> soft_error e)"
      using 2 by (auto simp: Svc_Register_def validateUDPAddr_def)
    obtain t1 r1 where cs: "registerOne t SvcCS a v = (t1, r1)" by fastforce
    note h1 = registerOne_holds [OF assms(1) cs]
    show ?thesis
    proof (cases r1)
      case (Inl e)
      then show ?thesis using reg cs h1 assms by auto
    next
      case (Inr r)
      then have r: "\<not> SrFreed r" "SrClean r = [(SvcCS, UIP a, UPort a)]" "svct.map.holds t1 (svc_kvs r v @ kvs)" using h1 by auto
      obtain t2 r2 where ds: "registerOne t1 SvcDS a v = (t2, r2)" by fastforce
      note h2 = registerOne_holds [OF r(3) ds]
      show ?thesis
      proof (cases r2)
        case (Inl e)
        then show ?thesis using reg cs Inr ds h2 SvcRef_Free_holds [OF r(3,1)] assms by auto
      next
        case Inr2: (Inr r')
        then have r': "SrClean r' = [(SvcDS, UIP a, UPort a)]" "svct.map.holds t2 (svc_kvs r' v @ svc_kvs r v @ kvs)" using h2 by auto
        have "svct.map.holds t2 (svc_kvs \<lparr>SrFreed = False, SrClean = SrClean r @ SrClean r'\<rparr> v @ kvs)"
          by (rule svct.map.holds_perm [OF r'(2)]) (simp add: svc_kvs_def)
        then show ?thesis using reg cs Inr ds Inr2 r(2) r'(1) 2 assms by (auto simp: services_def svc_consts)
      qed
    qed
  qed
qed

lemma get_values_append: "get_values (length xs) (xs @ ys) = (map snd xs, ys @ xs)"
proof (induction xs arbitrary: ys)
  case (Cons x xs)
  then show ?case using Cons [of "ys @ [x]"] by (simp add: portlist_Get_def)
qed simp

lemma multicast_eq:
  "multicast t svc = (case map_of t (SVC_Base svc) of None \<Rightarrow> ([], t) | Some i \<Rightarrow> (concat (map (\<lambda>(ip, l). map snd l) i), t))"
proof (cases "map_of t (SVC_Base svc)")
  case (Some i)
  have v: "map (\<lambda>(ip, l). (ip, get_values (length l) l)) i = map (\<lambda>(ip, l). (ip, map snd l, l)) i"
    using get_values_append [of _ "[]"] by (auto simp: map_eq_conv)
  have "map (\<lambda>(ip, vs, l). (ip, l)) (map (\<lambda>(ip, l). (ip, map snd l, l)) i) = i"
    "map (\<lambda>(ip, vs, l). vs) (map (\<lambda>(ip, l). (ip, map snd l, l)) i) = map (\<lambda>(ip, l). map snd l) i"
    by (induction i) auto
  then show ?thesis using Some by (simp only: multicast_def v Let_def option.case update_triv)
qed (simp add: multicast_def)

lemma case_option_Some_iff: "(case m of None \<Rightarrow> None | Some l \<Rightarrow> f l) = Some v \<longleftrightarrow> (\<exists>l. m = Some l \<and> f l = Some v)"
  by (cases m) auto

lemma svc_minv: "svct.minv t \<Longrightarrow> map_of t svc = Some i \<Longrightarrow> i \<noteq> [] \<and> ring.minv i"
  by (auto simp: svct.minv_def dest!: map_of_SomeD)

lemma ring_minv: "ring.minv i \<Longrightarrow> map_of i x = Some l \<Longrightarrow> l \<noteq> [] \<and> distinct (map fst l)"
  by (auto simp: ring.minv_def dest!: map_of_SomeD)

lemma multicast_values:
  assumes "svct.minv t"
  shows "v \<in> set (fst (multicast t svc)) \<longleftrightarrow> (\<exists>x p. svct.mget t (SVC_Base svc, x, p) = Some v)"
proof (cases "map_of t (SVC_Base svc)")
  case (Some i)
  then have i: "ring.minv i" using svc_minv [OF assms] by blast
  then have d: "distinct (map fst i)" by (simp add: ring.minv_def)
  have "v \<in> set (fst (multicast t svc)) \<longleftrightarrow> (\<exists>x l p. (x, l) \<in> set i \<and> (p, v) \<in> set l)" by (force simp: multicast_eq Some)
  also have "\<dots> \<longleftrightarrow> (\<exists>x l p. map_of i x = Some l \<and> map_of l p = Some v)"
    using d ring_minv [OF i] by (metis map_of_eq_Some_iff)
  also have "\<dots> \<longleftrightarrow> (\<exists>x p. svct.mget t (SVC_Base svc, x, p) = Some v)"
    by (simp add: svc_get Some case_option_Some_iff) blast
  finally show ?thesis .
qed (simp add: multicast_eq svc_get)

lemma rotate_holds:
  assumes "svct.map.holds t kvs" "map_of t svc = Some i" "map_of i x = Some l" "mset l' = mset l"
  shows "svct.map.holds (AList.update svc (AList.update x l' i) t) kvs"
proof -
  let ?t = "AList.update svc (AList.update x l' i) t"
  have m: "svct.minv t" using assms(1) by (simp add: svct.map.holds_def)
  note i = svc_minv [OF m assms(2)]
  note l = ring_minv [OF conjunct2 [OF i] assms(3)]
  have "svct.mget ?t k = svct.mget t k" for k
    using assms(2,3) map_of_perm [OF assms(4) [symmetric]] l by (cases k) (auto simp: svc_get update_conv' split: option.splits)
  moreover have "l' \<noteq> []" "distinct (map fst l')" using assms(4) l distinct_perm [OF assms(4)] by auto
  then have "svct.minv ?t" using i by (intro svct.minv_update m ring.minv_update) auto
  ultimately show ?thesis using assms(1) by (simp add: svct.map.holds_def)
qed

lemma anycast_holds:
  assumes "svct.map.holds t kvs" "anycast t svc bind = (res, t')"
  shows "svct.map.holds t' kvs \<and> (case res of
      Some v \<Rightarrow> \<exists>x p. ((svc, x, p), v) \<in> set kvs \<and> (\<forall>ip. bind = Some ip \<longrightarrow> x = ip_String ip)
    | None \<Rightarrow> \<forall>x p v. ((svc, x, p), v) \<in> set kvs \<longrightarrow> (\<exists>ip. bind = Some ip \<and> x \<noteq> ip_String ip))"
proof (cases "map_of t svc")
  case None
  then have "svct.mget t (svc, x, p) = None" for x p by (simp add: svc_get)
  then have "((svc, x, p), v) \<notin> set kvs" for x p v using svct.map.holds_get [OF assms(1), of "(svc, x, p)" v] by simp
  then show ?thesis using assms None by (auto simp: anycast_def)
next
  case (Some i)
  have m: "svct.minv t" using assms(1) by (simp add: svct.map.holds_def)
  note i = svc_minv [OF m Some]
  define sel where "sel = (case bind of None \<Rightarrow> unicast_any i | Some ip \<Rightarrow> map_option (\<lambda>l. (ip_String ip, l)) (map_of i (ip_String ip)))"
  show ?thesis
  proof (cases sel)
    case None
    then obtain ip where ip: "bind = Some ip" "map_of i (ip_String ip) = None"
      using i by (auto simp: sel_def unicast_any_def split: option.splits list.splits)
    then have "svct.mget t (svc, ip_String ip, p) = None" for p using Some by (simp add: svc_get)
    then have "((svc, ip_String ip, p), v) \<notin> set kvs" for p v
      using svct.map.holds_get [OF assms(1), of "(svc, ip_String ip, p)" v] by simp
    then show ?thesis using assms Some None ip by (auto simp: anycast_def sel_def)
  next
    case s: (Some y)
    obtain x l where y: "y = (x, l)" by (cases y)
    have x: "map_of i x = Some l" "\<And>ip. bind = Some ip \<Longrightarrow> x = ip_String ip"
      using s y by (auto simp: sel_def unicast_any_def split: option.splits list.splits)
    note l = ring_minv [OF conjunct2 [OF i] x(1)]
    then obtain p v ls where ls: "l = (p, v) # ls" by (cases l) auto
    then have r: "res = Some v" "t' = AList.update svc (AList.update x (ls @ [(p, v)]) i) t"
      using assms(2) Some s y by (auto simp: anycast_def sel_def portlist_Get_def)
    have "svct.mget t (svc, x, p) = Some v" using Some x(1) ls by (simp add: svc_get)
    then have "((svc, x, p), v) \<in> set kvs" using svct.map.holds_get [OF assms(1)] by blast
    then show ?thesis using rotate_holds [OF assms(1) Some x(1), of "ls @ [(p, v)]"] ls r x(2) by auto
  qed
qed

text \<open>Whom a lookup is for: every entry of a service for multicast, one of its entries for anycast, of the given IP address if there is one.\<close>

lemma Svc_Lookup_holds:
  assumes "svct.map.holds t kvs" "Svc_Lookup t svc bind = (vs, t')"
  shows "svct.map.holds t' kvs \<and>
    (SVC_IsMulticast svc \<longrightarrow> set vs = {v. \<exists>x p. ((SVC_Base svc, x, p), v) \<in> set kvs}) \<and>
    (\<not> SVC_IsMulticast svc \<longrightarrow> length vs \<le> 1 \<and>
      (\<forall>v\<in>set vs. \<exists>x p. ((svc, x, p), v) \<in> set kvs \<and> (\<forall>ip. bind = Some ip \<longrightarrow> x = ip_String ip)) \<and>
      (vs = [] \<longrightarrow> (\<forall>x p v. ((svc, x, p), v) \<in> set kvs \<longrightarrow> (\<exists>ip. bind = Some ip \<and> x \<noteq> ip_String ip))))"
proof (cases "SVC_IsMulticast svc")
  case True
  have m: "svct.minv t" using assms(1) by (simp add: svct.map.holds_def)
  have "fst (multicast t svc) = vs" "t' = t" using assms(2) True by (auto simp: Svc_Lookup_def multicast_eq split: option.splits)
  then show ?thesis using True assms(1) multicast_values [OF m] svct.map.holds_get [OF assms(1)] by auto
next
  case False
  obtain res t1 where a: "anycast t svc bind = (res, t1)" by fastforce
  then have "vs = (case res of None \<Rightarrow> [] | Some v \<Rightarrow> [v])" "t' = t1"
    using assms(2) False by (auto simp: Svc_Lookup_def split: option.splits)
  then show ?thesis using False anycast_holds [OF assms(1) a] by (auto split: option.splits)
qed

section \<open>The table of an AS\<close>

text \<open>The entries of a reference in the three tables.\<close>

definition udp_kv :: "'v ia_ref \<Rightarrow> (int \<times> ip_text) \<times> 'v" where
  "udp_kv r = (akey (TrAddress (IrEntry r)), the (IrValue r))"

definition svc_kv :: "'v ia_ref \<Rightarrow> ((u16 \<times> ip_text \<times> int) \<times> 'v option) list" where
  "svc_kv r = (case TrSvc (IrEntry r) of None \<Rightarrow> [] | Some sr \<Rightarrow> svc_kvs sr (IrValue r))"

definition id_kv :: "'v ia_ref \<Rightarrow> (u64 \<times> 'v) list" where
  "id_kv r = map (\<lambda>i. (i, the (IrValue r))) (TrIds (IrEntry r))"

definition live_ref :: "'v ia_ref \<Rightarrow> bool" where
  "live_ref r \<longleftrightarrow> IrValue r \<noteq> None \<and> \<not> TrFreed (IrEntry r) \<and> UPort (TrAddress (IrEntry r)) \<noteq> 0 \<and> (case TrSvc (IrEntry r) of
       None \<Rightarrow> IrSvc r = SvcNone
     | Some sr \<Rightarrow> \<not> SrFreed sr \<and> (\<exists>a. fst ` set (SrClean sr) = services (IrSvc r) \<and> snd ` set (SrClean sr) = {a}))"

text \<open>What a table holds: the references given out and not freed, and \<open>lk\<close>, ports that were taken for a registration that then failed.\<close>

definition tab_inv :: "'v reg_table \<Rightarrow> 'v ia_ref list \<Rightarrow> ((int \<times> ip_text) \<times> 'v) list \<Rightarrow> bool" where
  "tab_inv t rs lk \<longleftrightarrow> udp.holds (udpPortTable t) (map udp_kv rs @ lk) \<and> apart (map udp_kv rs @ lk) \<and> (\<forall>(k, v) \<in> set lk. fst k \<noteq> 0) \<and> alloc_ok (allocator (udpPortTable t)) \<and>
     svct.map.holds (svcTable t) (concat (map svc_kv rs)) \<and> scmp.holds (scmpTable t) (concat (map id_kv rs)) \<and>
     tabSize t = int (length rs) \<and> list_all live_ref rs"

lemma concat_perm: "mset xs = mset ys \<Longrightarrow> mset (concat (map f xs)) = mset (concat (map f ys))"
  by (metis mset_concat sum_mset_sum_list mset_map map_map)

lemma tab_inv_perm: "mset rs = mset rs' \<Longrightarrow> tab_inv t rs lk \<Longrightarrow> tab_inv t rs' lk"
proof -
  assume m: "mset rs = mset rs'" and t: "tab_inv t rs lk"
  have s: "set rs = set rs'" "length rs = length rs'" using m by (metis set_mset_mset, metis size_mset)
  have "udp.holds (udpPortTable t) (map udp_kv rs' @ lk)" using t m by (auto simp: tab_inv_def intro: udp.holds_perm)
  moreover have "svct.map.holds (svcTable t) (concat (map svc_kv rs'))" "scmp.holds (scmpTable t) (concat (map id_kv rs'))"
    using t concat_perm [OF m] by (auto simp: tab_inv_def intro: svct.map.holds_perm scmp.holds_perm)
  ultimately show ?thesis using t s by (simp add: tab_inv_def apart_def list_all_iff)
qed

lemma apart_mono: "apart kvs \<Longrightarrow> set kvs' \<subseteq> set kvs \<Longrightarrow> apart kvs'"
  unfolding apart_def by blast

text \<open>The services of a reference, with the IP address.\<close>

definition svc_places :: "table_ref \<Rightarrow> (u16 \<times> ip_text) set" where
  "svc_places r = (case TrSvc r of None \<Rightarrow> {} | Some sr \<Rightarrow> (\<lambda>(svc, ip, port). (svc, ip_String ip)) ` set (SrClean sr))"

lemma svc_places_image:
  assumes "fst ` S = A" "snd ` S = {(ip, port)}"
  shows "(\<lambda>(svc, ip, port). (svc, ip_String ip)) ` S = A \<times> {ip_String ip}"
proof -
  have "snd x = (ip, port)" if "x \<in> S" for x using assms(2) that by blast
  then have "(\<lambda>(svc, ip, port). (svc, ip_String ip)) ` S = (\<lambda>s. (s, ip_String ip)) ` fst ` S"
    by (force simp: image_image intro!: image_cong)
  then show ?thesis using assms(1) by auto
qed

lemma allocator_put_del [simp]: "allocator (udp_put k v t) = allocator t" "allocator (udp_del k t) = allocator t"
  by (simp_all add: udp_put_def udp_del_def set_family_def)

lemma insertSVCIfRequested_holds:
  assumes "svct.map.holds t kvs" "insertSVCIfRequested t svc ip port v = (t', res)"
  shows "case res of
      Inl e \<Rightarrow> svct.map.holds t' kvs \<and> soft_error e \<and> svc \<noteq> SvcNone
    | Inr None \<Rightarrow> svc = SvcNone \<and> t' = t
    | Inr (Some r) \<Rightarrow> \<not> SrFreed r \<and> fst ` set (SrClean r) = services svc \<and> snd ` set (SrClean r) = {(ip, port)} \<and>
        svct.map.holds t' (svc_kvs r v @ kvs)"
proof (cases "svc = SvcNone")
  case False
  obtain s0 r0 where s0: "Svc_Register t svc (Some \<lparr>UIP = ip, UPort = port\<rparr>) v = (s0, r0)" by fastforce
  have "services svc \<noteq> {}" using False by (simp add: services_def)
  then show ?thesis using Svc_Register_holds [OF assms(1) s0] assms(2) s0 False
    by (cases r0) (auto simp: insertSVCIfRequested_def split: if_splits)
qed (use assms in \<open>auto simp: insertSVCIfRequested_def\<close>)

lemma Udp_Remove_absent:
  assumes "udp.holds u kvs" "\<forall>(k, v)\<in>set kvs. fst k \<noteq> UPort a"
  shows "Udp_Remove u a = u"
proof (cases "map_of (getPortTableByIP u (UIP a)) (UPort a)")
  case (Some i)
  let ?f = "family u (ip_String (UIP a))"
  have "ipt.minv ?f" using assms(1) by (intro family_inv) (simp add: udp.holds_def)
  then obtain x w where x: "ipt.mget ?f (UPort a, x) = Some w"
    using ipt.mget_ex [of ?f "UPort a" i] Some unfolding getPortTableByIP_eq by auto
  then have "is_v4 x = is_v4 (ip_String (UIP a))" using assms(1) by (auto simp: udp.holds_def udp_inv_def family_def split: if_splits)
  then have "udp_get u (UPort a, x) = Some w" using x by (simp add: udp_get_def family_def)
  then show ?thesis using assms by (auto simp: udp.holds_get)
qed (simp add: Udp_Remove_def)

text \<open>A registration either fails and changes nothing, or takes its place; with a service and port 0 it can fail and leave the port behind.\<close>

lemma insertSVC_port: "insertSVCIfRequested t svc ip 0 v = (t', Inr r) \<Longrightarrow> svc = SvcNone"
  by (auto simp: insertSVCIfRequested_def Svc_Register_def validateUDPAddr_def split: if_splits)

lemma Table_Register_inv:
  assumes "tab_inv t rs lk" "Table_Register t public bind svc val = (t', res)"
  shows "case res of
      Inl e \<Rightarrow> soft_error e \<and> (tab_inv t' rs lk \<or>
        (\<exists>a v p. public = Some a \<and> val = Some v \<and> UPort a = 0 \<and> svc \<noteq> SvcNone \<and> tab_inv t' rs (((p, ip_String (UIP a)), v) # lk)))
    | Inr r \<Rightarrow> tab_inv t' (\<lparr>IrIA = ia, IrEntry = r, IrSvc = svc, IrValue = val\<rparr> # rs) lk \<and>
        (\<exists>a. public = Some a \<and> UIP (TrAddress r) = UIP a \<and> (if UPort a = 0 then svc = SvcNone else TrAddress r = a) \<and> TrIds r = [] \<and>
          svc_places r = services svc \<times> {ip_String (case bind of None \<Rightarrow> UIP a | Some b \<Rightarrow> b)})"
proof -
  let ?u = "map udp_kv rs @ lk" and ?s = "concat (map svc_kv rs)"
  from assms(1) have inv: "udp.holds (udpPortTable t) ?u" "apart ?u" "alloc_ok (allocator (udpPortTable t))" "svct.map.holds (svcTable t) ?s"
    and p0: "\<forall>(k, v) \<in> set ?u. fst k \<noteq> 0" by (auto simp: tab_inv_def list_all_iff live_ref_def udp_kv_def akey_def)
  consider e where "t' = t" "res = Inl e" "soft_error e" | a where "public = Some a" "bind = None \<or> svc \<noteq> SvcNone"
    using assms(2) by (cases public) (auto simp: Table_Register_def split: if_splits)
  then show ?thesis
  proof cases
    case 1
    then show ?thesis using assms(1) by simp
  next
    case (2 a)
    obtain u ru where u: "Udp_Insert (udpPortTable t) a val = (u, ru)" by fastforce
    note h = Udp_Insert_cases [OF inv(1-3) u]
    show ?thesis
    proof (cases ru)
      case (Inl e)
      then show ?thesis using h u 2 assms by (auto simp: Table_Register_def tab_inv_def)
    next
      case (Inr a')
      with h obtain v where v: "val = Some v" "UPort a \<noteq> 0 \<longrightarrow> a' = a" "udp.holds u ((akey a', v) # ?u)" "apart ((akey a', v) # ?u)" "alloc_ok (allocator u)"
        "UPort a' \<noteq> 0" "UIP a' = UIP a" by auto
      define b where "b = (case bind of None \<Rightarrow> UIP a | Some b \<Rightarrow> b)"
      obtain s rs' where s: "insertSVCIfRequested (svcTable t) svc b (UPort a) val = (s, rs')" by fastforce
      have reg: "Table_Register t public bind svc val = (case rs' of
          Inl e \<Rightarrow> (t\<lparr>udpPortTable := Udp_Remove u a, svcTable := s\<rparr>, Inl e)
        | Inr svcRef \<Rightarrow> (t\<lparr>udpPortTable := u, svcTable := s, tabSize := tabSize t + 1\<rparr>,
            Inr \<lparr>TrFreed = False, TrAddress = a', TrSvc = svcRef, TrIds = []\<rparr>))"
        using 2 u Inr s by (auto simp: Table_Register_def b_def split: sum.splits)
      note hs = insertSVCIfRequested_holds [OF inv(4) s]
      show ?thesis
      proof (cases rs')
        case (Inl e)
        then have e: "svct.map.holds s ?s" "soft_error e" "svc \<noteq> SvcNone" using hs by auto
        show ?thesis
        proof (cases "UPort a = 0")
          case True
          have "Udp_Remove u a = u" by (rule Udp_Remove_absent [OF v(3)]) (use True v(6) p0 in \<open>auto simp: akey_def\<close>)
          moreover have "udp.holds u (map udp_kv rs @ (akey a', v) # lk)" by (rule udp.holds_perm [OF v(3)]) simp
          moreover have "apart (map udp_kv rs @ (akey a', v) # lk)" by (rule apart_mono [OF v(4)]) auto
          ultimately have "tab_inv t' rs (((UPort a', ip_String (UIP a)), v) # lk)"
            using assms(1,2) reg e(1) Inl v(5,6,7) by (auto simp: tab_inv_def akey_def)
          then show ?thesis using reg assms(2) Inl e 2(1) v(1) True by auto
        next
          case False
          then have a: "a' = a" using v(2) by simp
          then have "udp_get u (akey a) = Some v" using v(3) by (simp add: udp.holds_get)
          then have "udp.holds (Udp_Remove u a) ?u" "allocator (Udp_Remove u a) = allocator u"
            using udp.holds_del [OF v(3)] a by (simp_all add: Udp_Remove_eq)
          then show ?thesis using assms reg e Inl v(5) by (auto simp: tab_inv_def)
        qed
      next
        case (Inr svcRef)
        then have "svc_places \<lparr>TrFreed = False, TrAddress = a', TrSvc = svcRef, TrIds = []\<rparr> = services svc \<times> {ip_String b}"
          using hs svc_places_image [of _ "services svc" b "UPort a"] by (cases svcRef) (auto simp: svc_places_def services_def)
        moreover have "svc = SvcNone" if "UPort a = 0" using insertSVC_port [OF s [unfolded that Inr]] .
        ultimately show ?thesis using assms reg v hs Inr 2(1)
          by (cases svcRef) (auto simp: tab_inv_def udp_kv_def svc_kv_def id_kv_def live_ref_def b_def)
      qed
    qed
  qed
qed

lemma TableRef_Free_inv:
  assumes "tab_inv t (r # rs) lk"
  shows "\<exists>t' e. TableRef_Free t (IrEntry r) = Inr (t', e) \<and> tab_inv t' rs lk"
proof -
  let ?e = "IrEntry r"
  from assms have a: "udp.holds (udpPortTable t) (udp_kv r # map udp_kv rs @ lk)" "svct.map.holds (svcTable t) (svc_kv r @ concat (map svc_kv rs))"
    "scmp.holds (scmpTable t) (id_kv r @ concat (map id_kv rs))" "live_ref r" by (auto simp: tab_inv_def)
  have "udp_get (udpPortTable t) (akey (TrAddress ?e)) = Some (the (IrValue r))" using udp.holds_get [OF a(1)] by (simp add: udp_kv_def)
  then have u: "udp.holds (Udp_Remove (udpPortTable t) (TrAddress ?e)) (map udp_kv rs @ lk)"
      "allocator (Udp_Remove (udpPortTable t) (TrAddress ?e)) = allocator (udpPortTable t)"
    using udp.holds_del [of "udpPortTable t" "akey (TrAddress ?e)" "the (IrValue r)"] a(1) by (simp_all add: Udp_Remove_eq udp_kv_def)
  have i: "scmp.holds (foldl Scmp_Remove (scmpTable t) (TrIds ?e)) (concat (map id_kv rs))"
    using scmp.holds_del_all [of "scmpTable t" "the (IrValue r)" "TrIds ?e"] a(3) by (simp add: id_kv_def)
  obtain s sr where s: "(case TrSvc ?e of None \<Rightarrow> Inr (svcTable t, None)
               | Some sr \<Rightarrow> rbind (SvcRef_Free (svcTable t) sr) (\<lambda>(s, sr). Inr (s, Some sr))) = Inr (s, sr)"
    "svct.map.holds s (concat (map svc_kv rs))"
  proof (cases "TrSvc ?e")
    case (Some sr)
    then have "svct.map.holds (svcTable t) (svc_kvs sr (IrValue r) @ concat (map svc_kv rs))" "\<not> SrFreed sr"
      using a(2,4) by (simp_all add: svc_kv_def live_ref_def)
    from SvcRef_Free_holds [OF this] obtain s
      where "SvcRef_Free (svcTable t) sr = Inr (s, sr\<lparr>SrFreed := True\<rparr>)" "svct.map.holds s (concat (map svc_kv rs))" by blast
    then show thesis using that Some by simp
  qed (use a(2) that in \<open>simp add: svc_kv_def\<close>)
  have "apart (map udp_kv rs @ lk)" using assms apart_mono [of "udp_kv r # map udp_kv rs @ lk" "map udp_kv rs @ lk"] by (auto simp: tab_inv_def)
  then show ?thesis using assms u i s a(4) by (auto simp: TableRef_Free_def tab_inv_def live_ref_def)
qed

lemma TableRef_RegisterID_inv:
  assumes "tab_inv t (r # rs) lk" "TableRef_RegisterID t (IrEntry r) sid (IrValue r) = Inr (t', e)"
  shows "tab_inv t' (r\<lparr>IrEntry := e\<rparr> # rs) lk"
proof -
  from assms(2) obtain v where v: "IrValue r = Some v" "map_of (scmpTable t) sid = None" "t' = t\<lparr>scmpTable := AList.update sid v (scmpTable t)\<rparr>"
    "e = (IrEntry r)\<lparr>TrIds := TrIds (IrEntry r) @ [sid]\<rparr>"
    by (auto simp: TableRef_RegisterID_def Scmp_Register_def res_simps split: option.splits if_splits)
  have h: "scmp.holds (scmpTable t) (id_kv r @ concat (map id_kv rs))" using assms(1) by (simp add: tab_inv_def)
  then have "scmp.holds (AList.update sid v (scmpTable t)) ((sid, v) # id_kv r @ concat (map id_kv rs))"
    using v(2) by (intro scmp.holds_put) (simp_all add: Scmp_Lookup_def)
  then have "scmp.holds (AList.update sid v (scmpTable t)) (id_kv (r\<lparr>IrEntry := e\<rparr>) @ concat (map id_kv rs))"
    by (rule scmp.holds_perm) (simp add: id_kv_def v)
  then show ?thesis using assms(1) v by (cases "TrSvc (IrEntry r)") (simp_all add: tab_inv_def udp_kv_def svc_kv_def live_ref_def)
qed

lemma NewTable_inv: "NewTable mn mx = Inr t \<Longrightarrow> tab_inv t [] []"
  by (auto simp: NewTable_def NewUDPPortTable_def NewUDPPortAllocator_def res_simps tab_inv_def udp.holds_def udp_inv_def ipt.minv_def
      udp_get_def family_def ipt.mget_def ipt.inner_def apart_def alloc_ok_def svct.map.holds_def svct.minv_def svc_get scmp.holds_def
      Scmp_Lookup_def split: if_splits)

section \<open>All ASes\<close>

text \<open>The dispatcher at work: the table, the references that were given out and not freed, and the requests for a service together with
  any free port (port 0), which always fail.\<close>

definition asks :: "u64 \<Rightarrow> udp_addr option \<Rightarrow> u16 \<Rightarrow> 'v option \<Rightarrow> (u64 \<times> udp_addr \<times> 'v) list" where
  "asks ia public svc val = (case (public, val) of
       (Some a, Some v) \<Rightarrow> if UPort a = 0 \<and> svc \<noteq> SvcNone then [(ia, a, v)] else []
     | _ \<Rightarrow> [])"

type_synonym 'v disp_state = "'v ia_table \<times> 'v ia_ref list \<times> (u64 \<times> udp_addr \<times> 'v) list"

inductive disp_step :: "'v disp_state \<Rightarrow> 'v disp_state \<Rightarrow> bool" where
  register: "Ia_Register t ia public bind svc val = (t', res) \<Longrightarrow>
     disp_step (t, refs, asked) (t', case res of Inl _ \<Rightarrow> refs | Inr r \<Rightarrow> r # refs, asks ia public svc val @ asked)"
| free: "IaRef_Free t r = Inr (t', r') \<Longrightarrow> disp_step (t, as @ r # bs, asked) (t', as @ bs, asked)"
| register_id: "IaRef_RegisterID t r sid = Inr (t', r') \<Longrightarrow> disp_step (t, as @ r # bs, asked) (t', as @ r' # bs, asked)"
| service: "Ia_LookupService t ia svc bind = (vs, t') \<Longrightarrow> disp_step (t, refs, asked) (t', refs, asked)"

definition refs_of :: "u64 \<Rightarrow> 'v ia_ref list \<Rightarrow> 'v ia_ref list" where
  "refs_of ia refs = filter (\<lambda>r. IrIA r = ia) refs"

fun tab_ok :: "'v reg_table option \<Rightarrow> 'v ia_ref list \<Rightarrow> ((int \<times> ip_text) \<times> 'v) list \<Rightarrow> bool" where
  "tab_ok None rs lk \<longleftrightarrow> rs = [] \<and> lk = []"
| "tab_ok (Some tab) rs lk \<longleftrightarrow> tab_inv tab rs lk"

text \<open>\<open>lk\<close>: the ports of an AS that are taken although nobody holds a reference; each goes back to a request in \<open>asked\<close>.\<close>

definition leaks_from :: "(u64 \<Rightarrow> ((int \<times> ip_text) \<times> 'v) list) \<Rightarrow> (u64 \<times> udp_addr \<times> 'v) list \<Rightarrow> bool" where
  "leaks_from lk asked \<longleftrightarrow> (\<forall>ia p x v. ((p, x), v) \<in> set (lk ia) \<longrightarrow> (\<exists>a. (ia, a, v) \<in> set asked \<and> x = ip_String (UIP a)))"

lemma leaks_fromD: "leaks_from lk asked \<Longrightarrow> ((p, x), v) \<in> set (lk ia) \<Longrightarrow> \<exists>a. (ia, a, v) \<in> set asked \<and> x = ip_String (UIP a)"
  unfolding leaks_from_def by blast

lemma leaks_from_mono: "leaks_from lk asked \<Longrightarrow> leaks_from lk (xs @ asked)"
  unfolding leaks_from_def set_append by blast

lemma leaks_from_cons:
  assumes "leaks_from lk asked"
  shows "leaks_from (lk(ia := ((p, ip_String (UIP a)), v) # lk ia)) ((ia, a, v) # asked)"
  unfolding leaks_from_def
proof (intro allI impI)
  fix ia' q x w
  assume "((q, x), w) \<in> set ((lk(ia := ((p, ip_String (UIP a)), v) # lk ia)) ia')"
  then have "ia' = ia \<and> x = ip_String (UIP a) \<and> w = v \<or> ((q, x), w) \<in> set (lk ia')" by (auto split: if_splits)
  then show "\<exists>b. (ia', b, w) \<in> set ((ia, a, v) # asked) \<and> x = ip_String (UIP b)"
    using assms unfolding leaks_from_def list.set by blast
qed

definition disp_inv :: "'v ia_table \<Rightarrow> 'v ia_ref list \<Rightarrow> (u64 \<Rightarrow> ((int \<times> ip_text) \<times> 'v) list) \<Rightarrow> bool" where
  "disp_inv t refs lk \<longleftrightarrow> (\<forall>ia. tab_ok (map_of (iaTables t) ia) (refs_of ia refs) (lk ia))"

lemma disp_inv_D: "disp_inv t refs lk \<Longrightarrow> tab_ok (map_of (iaTables t) ia) (refs_of ia refs) (lk ia)"
  by (simp add: disp_inv_def)

lemma disp_inv_update:
  assumes "disp_inv t refs lk" "tab_ok tab (refs_of ia refs') l" "\<And>ia'. ia' \<noteq> ia \<Longrightarrow> refs_of ia' refs' = refs_of ia' refs"
    "map_of m = (map_of (iaTables t)) (ia := tab)"
  shows "disp_inv (t\<lparr>iaTables := m\<rparr>) refs' (lk(ia := l))"
  using assms by (simp add: disp_inv_def)

lemma disp_inv_tab: "disp_inv t refs lk \<Longrightarrow> map_of (iaTables t) ia = Some tab \<Longrightarrow> tab_inv tab (refs_of ia refs) (lk ia)"
  using disp_inv_D [of t refs lk ia] by simp

lemma Ia_Register_cases:
  assumes "Ia_Register t ia public bind svc val = (t', res)"
  obtains (none) e where "t' = t" "res = Inl e" "e \<notin> {Err ''zero port'', Err ''zero address''}"
  | (table) tab tab' r where "(case map_of (iaTables t) ia of Some tab \<Rightarrow> Inr tab | None \<Rightarrow> NewTable (iaMinPort t) (iaMaxPort t)) = Inr tab"
      "Table_Register tab public bind svc val = (tab', r)" "t' = t\<lparr>iaTables := AList.update ia tab' (iaTables t)\<rparr>"
      "res = (case r of Inl e \<Rightarrow> Inl e | Inr e \<Rightarrow> Inr \<lparr>IrIA = ia, IrEntry = e, IrSvc = svc, IrValue = val\<rparr>)"
proof (cases "IA_ISD ia = 0 \<or> IA_AS ia = 0")
  case True
  then show thesis using assms none by (auto simp: Ia_Register_def split: if_splits)
next
  case False
  define look where "look = (case map_of (iaTables t) ia of Some tab \<Rightarrow> Inr tab | None \<Rightarrow> NewTable (iaMinPort t) (iaMaxPort t))"
  have reg: "Ia_Register t ia public bind svc val = (case look of Inl e \<Rightarrow> (t, Inl e)
      | Inr tab \<Rightarrow> (case Table_Register tab public bind svc val of
          (tab, Inl e) \<Rightarrow> (t\<lparr>iaTables := AList.update ia tab (iaTables t)\<rparr>, Inl e)
        | (tab, Inr r) \<Rightarrow> (t\<lparr>iaTables := AList.update ia tab (iaTables t)\<rparr>,
            Inr \<lparr>IrIA = ia, IrEntry = r, IrSvc = svc, IrValue = val\<rparr>)))"
    using False by (simp add: Ia_Register_def look_def)
  show thesis
  proof (cases look)
    case (Inl e)
    then have "e \<notin> {Err ''zero port'', Err ''zero address''}"
      by (auto simp: look_def NewTable_def NewUDPPortTable_def NewUDPPortAllocator_def res_simps split: option.splits if_splits)
    then show thesis using none [of e] Inl assms reg by simp
  next
    case (Inr tab)
    obtain tab' r where r: "Table_Register tab public bind svc val = (tab', r)" by fastforce
    have "t' = t\<lparr>iaTables := AList.update ia tab' (iaTables t)\<rparr>"
      "res = (case r of Inl e \<Rightarrow> Inl e | Inr e \<Rightarrow> Inr \<lparr>IrIA = ia, IrEntry = e, IrSvc = svc, IrValue = val\<rparr>)"
      using assms unfolding reg Inr by (simp_all add: r split: sum.splits)
    then show thesis using table [of tab tab' r] Inr r unfolding look_def by blast
  qed
qed

lemma Ia_Register_tab:
  assumes "disp_inv t refs lk" "(case map_of (iaTables t) ia of Some tab \<Rightarrow> Inr tab | None \<Rightarrow> NewTable (iaMinPort t) (iaMaxPort t)) = Inr tab"
  shows "tab_inv tab (refs_of ia refs) (lk ia)"
  using assms(2) disp_inv_D [OF assms(1), of ia] NewTable_inv by (cases "map_of (iaTables t) ia") auto

lemma Ia_Register_inv:
  assumes "disp_inv t refs lk" "leaks_from lk asked" "Ia_Register t ia public bind svc val = (t', res)"
  shows "\<exists>lk'. disp_inv t' (case res of Inl _ \<Rightarrow> refs | Inr r \<Rightarrow> r # refs) lk' \<and> leaks_from lk' (asks ia public svc val @ asked)"
  using assms(3)
proof (cases rule: Ia_Register_cases)
  case (none e)
  then show ?thesis using assms(1) leaks_from_mono [OF assms(2)] by (intro exI [of _ lk]) simp
next
  case (table tab tab' r)
  note i = Ia_Register_tab [OF assms(1) table(1)]
  have m: "map_of (AList.update ia tab' (iaTables t)) = (map_of (iaTables t)) (ia := Some tab')" by (simp add: update_conv')
  note ri = Table_Register_inv [OF i table(2), of ia] and upd = disp_inv_update [OF assms(1) _ _ m]
  have old: "leaks_from (lk(ia := lk ia)) (asks ia public svc val @ asked)" using leaks_from_mono [OF assms(2)] by simp
  show ?thesis
  proof (cases r)
    case (Inl e)
    then consider "tab_inv tab' (refs_of ia refs) (lk ia)"
      | a v p where "public = Some a" "val = Some v" "UPort a = 0" "svc \<noteq> SvcNone" "tab_inv tab' (refs_of ia refs) (((p, ip_String (UIP a)), v) # lk ia)"
      using ri by auto
    then show ?thesis
    proof cases
      case 1
      then show ?thesis unfolding table(3,4) Inl using upd [of refs "lk ia"] old by auto
    next
      case (2 a v p)
      then have "leaks_from (lk(ia := ((p, ip_String (UIP a)), v) # lk ia)) (asks ia public svc val @ asked)"
        using leaks_from_cons [OF assms(2)] by (simp add: asks_def)
      then show ?thesis unfolding table(3,4) Inl using upd [of refs "((p, ip_String (UIP a)), v) # lk ia"] 2(5) by auto
    qed
  next
    case (Inr e)
    then show ?thesis unfolding table(3,4) Inr
      using ri [unfolded Inr sum.case] upd [of "\<lparr>IrIA = ia, IrEntry = e, IrSvc = svc, IrValue = val\<rparr> # refs" "lk ia"] old by (auto simp: refs_of_def)
  qed
qed

lemma refs_of_middle:
  "mset (refs_of (IrIA r) (as @ r # bs)) = mset (r # refs_of (IrIA r) (as @ bs))"
  "ia \<noteq> IrIA r \<Longrightarrow> refs_of ia (as @ r # bs) = refs_of ia (as @ bs)"
  by (simp_all add: refs_of_def)

lemma disp_inv_middle: "disp_inv t (as @ r # bs) lk \<Longrightarrow> \<exists>tab. map_of (iaTables t) (IrIA r) = Some tab \<and> tab_inv tab (r # refs_of (IrIA r) (as @ bs)) (lk (IrIA r))"
proof -
  assume d: "disp_inv t (as @ r # bs) lk"
  then obtain tab where "map_of (iaTables t) (IrIA r) = Some tab"
    using disp_inv_D [OF d, of "IrIA r"] by (cases "map_of (iaTables t) (IrIA r)") (auto simp: refs_of_def)
  then show ?thesis using disp_inv_tab [OF d] tab_inv_perm [OF refs_of_middle(1)] by blast
qed

lemma IaRef_Free_inv:
  assumes "disp_inv t (as @ r # bs) lk"
  shows "\<exists>t' r' lk'. IaRef_Free t r = Inr (t', r') \<and> disp_inv t' (as @ bs) lk' \<and> (\<forall>ia. set (lk' ia) \<subseteq> set (lk ia))"
proof -
  obtain tab where tab: "map_of (iaTables t) (IrIA r) = Some tab" "tab_inv tab (r # refs_of (IrIA r) (as @ bs)) (lk (IrIA r))"
    using disp_inv_middle [OF assms] by blast
  obtain tab' e where f: "TableRef_Free tab (IrEntry r) = Inr (tab', e)" "tab_inv tab' (refs_of (IrIA r) (as @ bs)) (lk (IrIA r))"
    using TableRef_Free_inv [OF tab(2)] by blast
  have s: "tabSize tab' = int (length (refs_of (IrIA r) (as @ bs)))" using f(2) by (simp add: tab_inv_def)
  let ?m = "if tabSize tab' = 0 then AList.delete (IrIA r) (iaTables t) else AList.update (IrIA r) tab' (iaTables t)"
  let ?lk = "lk(IrIA r := if tabSize tab' = 0 then [] else lk (IrIA r))"
  have m: "map_of ?m = (map_of (iaTables t)) (IrIA r := if tabSize tab' = 0 then None else Some tab')"
    by (simp add: update_conv' delete_conv' fun_eq_iff)
  have "disp_inv (t\<lparr>iaTables := ?m\<rparr>) (as @ bs) ?lk"
    by (rule disp_inv_update [OF assms _ _ m]) (use f(2) s refs_of_middle(2) [of _ r as bs] in auto)
  then show ?thesis using tab(1) f(1) by (intro exI [of _ "t\<lparr>iaTables := ?m\<rparr>"] exI [of _ "r\<lparr>IrEntry := e\<rparr>"] exI [of _ ?lk]) (auto simp: IaRef_Free_def)
qed

lemma IaRef_RegisterID_inv:
  assumes "disp_inv t (as @ r # bs) lk" "IaRef_RegisterID t r sid = Inr (t', r')"
  shows "disp_inv t' (as @ r' # bs) lk"
proof -
  obtain tab where tab: "map_of (iaTables t) (IrIA r) = Some tab" "tab_inv tab (r # refs_of (IrIA r) (as @ bs)) (lk (IrIA r))"
    using disp_inv_middle [OF assms(1)] by blast
  obtain tab' e where r: "TableRef_RegisterID tab (IrEntry r) sid (IrValue r) = Inr (tab', e)"
    "t' = t\<lparr>iaTables := AList.update (IrIA r) tab' (iaTables t)\<rparr>" "r' = r\<lparr>IrEntry := e\<rparr>"
    using assms(2) tab(1) by (auto simp: IaRef_RegisterID_def res_simps)
  have i: "IrIA r' = IrIA r" by (simp add: r(3))
  have "tab_inv tab' (r' # refs_of (IrIA r') (as @ bs)) (lk (IrIA r))" using TableRef_RegisterID_inv [OF tab(2) r(1)] r(3) by simp
  then have "tab_inv tab' (refs_of (IrIA r') (as @ r' # bs)) (lk (IrIA r))" by (rule tab_inv_perm [OF refs_of_middle(1) [symmetric]])
  then have "disp_inv t' (as @ r' # bs) (lk(IrIA r := lk (IrIA r)))" unfolding r(2)
    using refs_of_middle(2) [of _ r as bs] refs_of_middle(2) [of _ r' as bs] i
    by (intro disp_inv_update [OF assms(1), of "Some tab'" "IrIA r"]) (simp_all add: update_conv')
  then show ?thesis by simp
qed

lemma Ia_LookupService_inv: "disp_inv t refs lk \<Longrightarrow> Ia_LookupService t ia svc bind = (vs, t') \<Longrightarrow> disp_inv t' refs lk"
proof (cases "map_of (iaTables t) ia")
  case (Some tab)
  assume d: "disp_inv t refs lk" and l: "Ia_LookupService t ia svc bind = (vs, t')"
  obtain s where s: "Svc_Lookup (svcTable tab) svc bind = (vs, s)" "t' = t\<lparr>iaTables := AList.update ia (tab\<lparr>svcTable := s\<rparr>) (iaTables t)\<rparr>"
    using l Some by (auto simp: Ia_LookupService_def Table_LookupService_def split: prod.splits)
  have i: "tab_inv tab (refs_of ia refs) (lk ia)" by (rule disp_inv_tab [OF d Some])
  then have "svct.map.holds (svcTable tab) (concat (map svc_kv (refs_of ia refs)))" by (simp add: tab_inv_def)
  from Svc_Lookup_holds [OF this s(1)] have "tab_inv (tab\<lparr>svcTable := s\<rparr>) (refs_of ia refs) (lk ia)" using i by (simp add: tab_inv_def)
  then have "disp_inv t' refs (lk(ia := lk ia))" unfolding s(2)
    by (intro disp_inv_update [OF d, of "Some (tab\<lparr>svcTable := s\<rparr>)" ia]) (simp_all add: update_conv')
  then show ?thesis by simp
qed (auto simp: Ia_LookupService_def)

lemma disp_step_inv:
  assumes "disp_step s s'" "\<exists>lk. disp_inv (fst s) (fst (snd s)) lk \<and> leaks_from lk (snd (snd s))"
  shows "\<exists>lk. disp_inv (fst s') (fst (snd s')) lk \<and> leaks_from lk (snd (snd s'))"
  using assms
proof (induction rule: disp_step.induct)
  case (register t ia public bind svc val t' res refs asked)
  then show ?case using Ia_Register_inv [OF _ _ register(1)] by auto
next
  case (free t r t' r' as bs asked)
  then obtain lk where lk: "disp_inv t (as @ r # bs) lk" "leaks_from lk asked" by auto
  then obtain lk' where "disp_inv t' (as @ bs) lk'" "\<And>ia. set (lk' ia) \<subseteq> set (lk ia)" using IaRef_Free_inv [OF lk(1)] free(1) by auto
  moreover from this(2) have "leaks_from lk' asked" using lk(2) unfolding leaks_from_def by blast
  ultimately show ?case by auto
next
  case (register_id t r sid t' r' as bs asked)
  then show ?case using IaRef_RegisterID_inv [OF _ register_id(1)] by auto
next
  case (service t ia svc bind vs t' refs asked)
  then show ?case using Ia_LookupService_inv [OF _ service(1)] by auto
qed

lemma disp_inv_reachable:
  assumes "disp_step\<^sup>*\<^sup>* (newIATable mn mx, [], []) (t, refs, asked)"
  shows "\<exists>lk. disp_inv t refs lk \<and> leaks_from lk asked"
proof -
  have "\<exists>lk. disp_inv (fst s) (fst (snd s)) lk \<and> leaks_from lk (snd (snd s))" if "disp_step\<^sup>*\<^sup>* (newIATable mn mx, [], []) s" for s :: "'a disp_state"
    using that
  proof (induction rule: rtranclp_induct)
    case base
    show ?case by (intro exI [of _ "\<lambda>_. []"]) (simp add: disp_inv_def newIATable_def refs_of_def leaks_from_def)
  qed (rule disp_step_inv)
  from this [OF assms] show ?thesis by simp
qed

lemma set_refs_of [simp]: "r \<in> set (refs_of ia refs) \<longleftrightarrow> r \<in> set refs \<and> IrIA r = ia"
  by (auto simp: refs_of_def)

lemma tab_inv_live: "tab_inv tab rs lk \<Longrightarrow> r \<in> set rs \<Longrightarrow> live_ref r"
  by (simp add: tab_inv_def list_all_iff)

lemma lookup_public_iff:
  assumes "tab_inv tab rs lk"
  shows "Table_LookupPublic tab a = Some v \<longleftrightarrow> \<not> IsUnspecified (UIP a) \<and>
    ((\<exists>r\<in>set rs. IrValue r = Some v \<and> conflicts (akey (TrAddress (IrEntry r))) (akey a)) \<or> (\<exists>k. (k, v) \<in> set lk \<and> conflicts k (akey a)))"
proof -
  have k: "(k, v) \<in> set (map udp_kv rs @ lk) \<longleftrightarrow> (\<exists>r\<in>set rs. IrValue r = Some v \<and> k = akey (TrAddress (IrEntry r))) \<or> (k, v) \<in> set lk" for k
    using tab_inv_live [OF assms] by (force simp: udp_kv_def live_ref_def)
  have "udp.holds (udpPortTable tab) (map udp_kv rs @ lk)" "apart (map udp_kv rs @ lk)" using assms by (simp_all add: tab_inv_def)
  from Udp_Lookup_holds [OF this, of a v] show ?thesis unfolding Table_LookupPublic_def k by blast
qed

lemma lookup_id_iff:
  assumes "tab_inv tab rs lk"
  shows "Table_LookupID tab sid = Some v \<longleftrightarrow> (\<exists>r\<in>set rs. IrValue r = Some v \<and> sid \<in> set (TrIds (IrEntry r)))"
proof -
  have "scmp.holds (scmpTable tab) (concat (map id_kv rs))" using assms by (simp add: tab_inv_def)
  then have "Table_LookupID tab sid = Some v \<longleftrightarrow> (sid, v) \<in> set (concat (map id_kv rs))"
    unfolding Table_LookupID_def by (rule scmp.holds_get)
  also have "\<dots> \<longleftrightarrow> (\<exists>r\<in>set rs. IrValue r = Some v \<and> sid \<in> set (TrIds (IrEntry r)))"
    using tab_inv_live [OF assms] by (force simp: id_kv_def live_ref_def)
  finally show ?thesis .
qed

text \<open>A reference offers a service, at an IP address if one is given.\<close>

definition offers :: "'v ia_ref \<Rightarrow> u16 \<Rightarrow> bytes option \<Rightarrow> bool" where
  "offers r svc bind \<longleftrightarrow> (\<exists>x. (svc, x) \<in> svc_places (IrEntry r) \<and> (\<forall>ip. bind = Some ip \<longrightarrow> x = ip_String ip))"

lemma svc_kv_iff: "(\<exists>p. ((svc, x, p), v) \<in> set (concat (map svc_kv rs))) \<longleftrightarrow> (\<exists>r\<in>set rs. IrValue r = v \<and> (svc, x) \<in> svc_places (IrEntry r))"
proof -
  have "(\<exists>p. ((svc, x, p), v) \<in> set (svc_kv r)) \<longleftrightarrow> IrValue r = v \<and> (svc, x) \<in> svc_places (IrEntry r)" for r :: "'a ia_ref"
    by (cases "TrSvc (IrEntry r)") (force simp: svc_kv_def svc_kvs_def skey_def svc_places_def)+
  then show ?thesis by (simp only: set_concat set_map UN_iff image_iff bex_simps) blast
qed

lemma lookup_service:
  assumes "tab_inv tab rs lk"
  shows "SVC_IsMulticast svc \<Longrightarrow> set (fst (Table_LookupService tab svc bind)) = {IrValue r |r. r \<in> set rs \<and> offers r (SVC_Base svc) None}"
    and "\<not> SVC_IsMulticast svc \<Longrightarrow> length (fst (Table_LookupService tab svc bind)) = (if \<exists>r\<in>set rs. offers r svc bind then 1 else 0) \<and>
      set (fst (Table_LookupService tab svc bind)) \<subseteq> {IrValue r |r. r \<in> set rs \<and> offers r svc bind}"
proof -
  have h: "svct.map.holds (svcTable tab) (concat (map svc_kv rs))" using assms by (simp add: tab_inv_def)
  have k: "(\<exists>x p. ((s, x, p), v) \<in> set (concat (map svc_kv rs)) \<and> (\<forall>ip. b = Some ip \<longrightarrow> x = ip_String ip)) \<longleftrightarrow>
      (\<exists>r\<in>set rs. IrValue r = v \<and> offers r s b)" for s v b
    unfolding offers_def using svc_kv_iff [of s _ v rs] by blast
  have f: "fst (Table_LookupService tab svc b) = fst (Svc_Lookup (svcTable tab) svc b)" for b
    by (simp add: Table_LookupService_def split: prod.splits)
  obtain vs s where vs: "Svc_Lookup (svcTable tab) svc bind = (vs, s)" by fastforce
  note l = Svc_Lookup_holds [OF h vs]
  show "set (fst (Table_LookupService tab svc bind)) = {IrValue r |r. r \<in> set rs \<and> offers r (SVC_Base svc) None}" if "SVC_IsMulticast svc"
    using l that k [of "SVC_Base svc" _ None] f vs by auto
  assume n: "\<not> SVC_IsMulticast svc"
  have v: "length vs \<le> 1" using l n by blast
  have "\<exists>r\<in>set rs. IrValue r = v \<and> offers r svc bind" if "v \<in> set vs" for v using l n that unfolding k [symmetric] by blast
  then have v2: "set vs \<subseteq> {IrValue r |r. r \<in> set rs \<and> offers r svc bind}" by (auto simp: eq_commute)
  have "\<not> (\<exists>r\<in>set rs. IrValue r = v \<and> offers r svc bind)" if "vs = []" for v using l n that unfolding k [symmetric] by blast
  then have v3: "vs = [] \<Longrightarrow> \<not> (\<exists>r\<in>set rs. offers r svc bind)" by blast
  have "length vs = (if \<exists>r\<in>set rs. offers r svc bind then 1 else 0)" using v v2 v3 by (cases vs) auto
  then show "length (fst (Table_LookupService tab svc bind)) = (if \<exists>r\<in>set rs. offers r svc bind then 1 else 0) \<and>
      set (fst (Table_LookupService tab svc bind)) \<subseteq> {IrValue r |r. r \<in> set rs \<and> offers r svc bind}"
    using v2 vs f by simp
qed

lemma Ia_LookupService_eq: "fst (Ia_LookupService t ia svc bind) = (case map_of (iaTables t) ia of
    None \<Rightarrow> [] | Some tab \<Rightarrow> fst (Table_LookupService tab svc bind))"
  by (simp add: Ia_LookupService_def split: option.splits prod.splits)

lemma refs_apart:
  assumes "disp_inv t (as @ r # bs) lk" "r' \<in> set (as @ bs)" "IrIA r' = IrIA r"
  shows "\<not> conflicts (akey (TrAddress (IrEntry r'))) (akey (TrAddress (IrEntry r)))"
proof
  assume c: "conflicts (akey (TrAddress (IrEntry r'))) (akey (TrAddress (IrEntry r)))"
  let ?rs = "refs_of (IrIA r) (as @ bs)"
  obtain tab where "tab_inv tab (r # ?rs) (lk (IrIA r))" using disp_inv_middle [OF assms(1)] by blast
  then have a: "distinct (map fst (map udp_kv (r # ?rs) @ lk (IrIA r)))" "apart (map udp_kv (r # ?rs) @ lk (IrIA r))"
    by (simp_all add: tab_inv_def udp.holds_def)
  have m: "r' \<in> set ?rs" using assms(2,3) by simp
  then have "akey (TrAddress (IrEntry r')) = akey (TrAddress (IrEntry r))"
    by (intro apartD [OF a(2) _ _ c, of "the (IrValue r')" "the (IrValue r)"]) (auto simp: udp_kv_def)
  then have "fst (udp_kv r') = fst (udp_kv r)" by (simp add: udp_kv_def)
  moreover have "fst (udp_kv r') \<in> set (map fst (map udp_kv ?rs))" using m by (metis image_eqI list.set_map)
  ultimately show False using a(1) by (simp del: set_refs_of)
qed

lemma Ia_Register_ref:
  assumes "disp_inv t refs lk" "Ia_Register t ia public bind svc val = (t', Inr r)"
  shows "\<exists>a. public = Some a \<and> IrIA r = ia \<and> IrValue r = val \<and> TrIds (IrEntry r) = [] \<and>
    UIP (TrAddress (IrEntry r)) = UIP a \<and> (if UPort a = 0 then svc = SvcNone else TrAddress (IrEntry r) = a) \<and>
    (\<forall>s b. offers r s b \<longleftrightarrow> s \<in> services svc \<and> (\<forall>ip. b = Some ip \<longrightarrow> ip_String (case bind of None \<Rightarrow> UIP a | Some b \<Rightarrow> b) = ip_String ip))"
  using assms(2)
proof (cases rule: Ia_Register_cases)
  case (table tab tab' e)
  then obtain x where x: "e = Inr x" "r = \<lparr>IrIA = ia, IrEntry = x, IrSvc = svc, IrValue = val\<rparr>" by (cases e) auto
  from Table_Register_inv [OF Ia_Register_tab [OF assms(1) table(1)] table(2), of ia] x show ?thesis by (auto simp: offers_def)
qed simp

lemma Ia_lookups:
  assumes "disp_inv t refs lk"
  shows "Ia_LookupPublic t ia a = Some v \<longleftrightarrow> \<not> IsUnspecified (UIP a) \<and>
      ((\<exists>r\<in>set refs. IrIA r = ia \<and> IrValue r = Some v \<and> conflicts (akey (TrAddress (IrEntry r))) (akey a)) \<or> (\<exists>k. (k, v) \<in> set (lk ia) \<and> conflicts k (akey a)))"
    "Ia_LookupID t ia sid = Some v \<longleftrightarrow> (\<exists>r\<in>set refs. IrIA r = ia \<and> IrValue r = Some v \<and> sid \<in> set (TrIds (IrEntry r)))"
    "SVC_IsMulticast svc \<Longrightarrow> set (fst (Ia_LookupService t ia svc bind)) = {IrValue r |r. r \<in> set refs \<and> IrIA r = ia \<and> offers r (SVC_Base svc) None}"
    "\<not> SVC_IsMulticast svc \<Longrightarrow> length (fst (Ia_LookupService t ia svc bind)) = (if \<exists>r\<in>set refs. IrIA r = ia \<and> offers r svc bind then 1 else 0) \<and>
      set (fst (Ia_LookupService t ia svc bind)) \<subseteq> {IrValue r |r. r \<in> set refs \<and> IrIA r = ia \<and> offers r svc bind}"
proof -
  note D = disp_inv_D [OF assms, of ia]
  have none: "refs_of ia refs = [] \<and> lk ia = []" "\<And>r. r \<in> set refs \<Longrightarrow> IrIA r \<noteq> ia" if "map_of (iaTables t) ia = None"
    using D that by (auto simp: refs_of_def filter_empty_conv)
  show "Ia_LookupPublic t ia a = Some v \<longleftrightarrow> \<not> IsUnspecified (UIP a) \<and>
      ((\<exists>r\<in>set refs. IrIA r = ia \<and> IrValue r = Some v \<and> conflicts (akey (TrAddress (IrEntry r))) (akey a)) \<or> (\<exists>k. (k, v) \<in> set (lk ia) \<and> conflicts k (akey a)))"
  proof (cases "map_of (iaTables t) ia")
    case (Some tab)
    then show ?thesis using lookup_public_iff [of tab "refs_of ia refs" "lk ia" a v] D by (auto simp: Ia_LookupPublic_def)
  qed (use none in \<open>auto simp: Ia_LookupPublic_def\<close>)
  show "Ia_LookupID t ia sid = Some v \<longleftrightarrow> (\<exists>r\<in>set refs. IrIA r = ia \<and> IrValue r = Some v \<and> sid \<in> set (TrIds (IrEntry r)))"
  proof (cases "map_of (iaTables t) ia")
    case (Some tab)
    then show ?thesis using lookup_id_iff [of tab "refs_of ia refs" "lk ia" sid v] D by (auto simp: Ia_LookupID_def)
  qed (use none in \<open>auto simp: Ia_LookupID_def\<close>)
  show "SVC_IsMulticast svc \<Longrightarrow> set (fst (Ia_LookupService t ia svc bind)) = {IrValue r |r. r \<in> set refs \<and> IrIA r = ia \<and> offers r (SVC_Base svc) None}"
  proof (cases "map_of (iaTables t) ia")
    case (Some tab)
    then show "SVC_IsMulticast svc \<Longrightarrow> ?thesis" using lookup_service(1) [of tab "refs_of ia refs" "lk ia" svc bind] D by (auto simp: Ia_LookupService_eq)
  qed (use none in \<open>auto simp: Ia_LookupService_eq\<close>)
  show "\<not> SVC_IsMulticast svc \<Longrightarrow> length (fst (Ia_LookupService t ia svc bind)) = (if \<exists>r\<in>set refs. IrIA r = ia \<and> offers r svc bind then 1 else 0) \<and>
      set (fst (Ia_LookupService t ia svc bind)) \<subseteq> {IrValue r |r. r \<in> set refs \<and> IrIA r = ia \<and> offers r svc bind}"
  proof (cases "map_of (iaTables t) ia")
    case (Some tab)
    then show "\<not> SVC_IsMulticast svc \<Longrightarrow> ?thesis" using lookup_service(2) [of tab "refs_of ia refs" "lk ia" svc bind] D by (auto simp: Ia_LookupService_eq)
  qed (use none in \<open>auto simp: Ia_LookupService_eq\<close>)
qed

text \<open>Claim C23. Whatever applications register, free and look up, the dispatcher knows exactly the registrations that were made and not
  freed, and besides them at most some ports that it took for a request for a service together with any free port, which always fails. A packet for a UDP address goes to
  the registration whose address is the same or unspecified, with the same port and family, or else to the application of such a lost port; an SCMP identifier
  leads to the registration that registered it; a multicast to a service reaches all that registered it and an anycast, with an IP address or without,
  one of them if there is any. A reference stands for the address, value, service and IP address that were asked for. No two registrations
  of an AS conflict, and freeing one never panics.\<close>

theorem registrations_exact:
  assumes "disp_step\<^sup>*\<^sup>* (newIATable mn mx, [], []) (t, refs, asked)"
  shows "\<exists>lost :: (u64 \<times> (int \<times> ip_text) \<times> 'v) set.
    (\<forall>ia p x v. (ia, (p, x), v) \<in> lost \<longrightarrow> (\<exists>a. (ia, a, v) \<in> set asked \<and> x = ip_String (UIP a))) \<and>
    (\<forall>ia a v. Ia_LookupPublic t ia a = Some v \<longleftrightarrow> \<not> IsUnspecified (UIP a) \<and>
      ((\<exists>r\<in>set refs. IrIA r = ia \<and> IrValue r = Some v \<and> conflicts (akey (TrAddress (IrEntry r))) (akey a)) \<or>
       (\<exists>k. (ia, k, v) \<in> lost \<and> conflicts k (akey a)))) \<and>
    (\<forall>ia sid v. Ia_LookupID t ia sid = Some v \<longleftrightarrow> (\<exists>r\<in>set refs. IrIA r = ia \<and> IrValue r = Some v \<and> sid \<in> set (TrIds (IrEntry r)))) \<and>
    (\<forall>ia svc bind. if SVC_IsMulticast svc
      then set (fst (Ia_LookupService t ia svc bind)) = {IrValue r |r. r \<in> set refs \<and> IrIA r = ia \<and> offers r (SVC_Base svc) None}
      else length (fst (Ia_LookupService t ia svc bind)) = (if \<exists>r\<in>set refs. IrIA r = ia \<and> offers r svc bind then 1 else 0) \<and>
        set (fst (Ia_LookupService t ia svc bind)) \<subseteq> {IrValue r |r. r \<in> set refs \<and> IrIA r = ia \<and> offers r svc bind}) \<and>
    (\<forall>ia public bind svc val t' r. Ia_Register t ia public bind svc val = (t', Inr r) \<longrightarrow>
      (\<exists>a. public = Some a \<and> IrIA r = ia \<and> IrValue r = val \<and> TrIds (IrEntry r) = [] \<and>
        UIP (TrAddress (IrEntry r)) = UIP a \<and> (if UPort a = 0 then svc = SvcNone else TrAddress (IrEntry r) = a) \<and>
        (\<forall>s b. offers r s b \<longleftrightarrow> s \<in> services svc \<and> (\<forall>ip. b = Some ip \<longrightarrow> ip_String (case bind of None \<Rightarrow> UIP a | Some b \<Rightarrow> b) = ip_String ip)))) \<and>
    (\<forall>as r bs r'. refs = as @ r # bs \<longrightarrow> (\<exists>s. IaRef_Free t r = Inr s) \<and>
      (r' \<in> set (as @ bs) \<and> IrIA r' = IrIA r \<longrightarrow> \<not> conflicts (akey (TrAddress (IrEntry r'))) (akey (TrAddress (IrEntry r)))))"
proof -
  obtain lk where d: "disp_inv t refs lk" "leaks_from lk asked" using disp_inv_reachable [OF assms] by blast
  note L = Ia_lookups [OF d(1)]
  have svc: "if SVC_IsMulticast svc
      then set (fst (Ia_LookupService t ia svc bind)) = {IrValue r |r. r \<in> set refs \<and> IrIA r = ia \<and> offers r (SVC_Base svc) None}
      else length (fst (Ia_LookupService t ia svc bind)) = (if \<exists>r\<in>set refs. IrIA r = ia \<and> offers r svc bind then 1 else 0) \<and>
        set (fst (Ia_LookupService t ia svc bind)) \<subseteq> {IrValue r |r. r \<in> set refs \<and> IrIA r = ia \<and> offers r svc bind}" for ia svc bind
  proof (cases "SVC_IsMulticast svc")
    case True
    then show ?thesis unfolding if_P [OF True] by (rule L(3))
  next
    case False
    then show ?thesis unfolding if_not_P [OF False] by (rule L(4))
  qed
  have free: "\<exists>s. IaRef_Free t r = Inr s"
    and apart: "r' \<in> set (as @ bs) \<and> IrIA r' = IrIA r \<Longrightarrow> \<not> conflicts (akey (TrAddress (IrEntry r'))) (akey (TrAddress (IrEntry r)))"
    if "refs = as @ r # bs" for as r bs r'
    using IaRef_Free_inv [OF d(1) [unfolded that]] refs_apart [OF d(1) [unfolded that]] by blast+
  show ?thesis
    by (intro exI [of _ "{(ia, k, v). (k, v) \<in> set (lk ia)}"] conjI allI impI; (unfold mem_Collect_eq prod.case)?)
      (erule leaks_fromD [OF d(2)] | rule L(1,2) svc | erule Ia_Register_ref [OF d(1)] free | erule (1) apart)+
qed

lemma alloc_loop_error: "alloc_loop n al ip t = (al', Inl e) \<Longrightarrow> e = Err ''no free ports''"
  by (induction n arbitrary: al) (auto simp: Let_def split: if_splits)

lemma Udp_Insert_error: "Udp_Insert t a val = (t', Inl e) \<Longrightarrow> e \<in> {Err ''overlapping address'', Err ''nil value'', Err ''no free ports''}"
  by (auto simp: Udp_Insert_def computeAddressWithPort_def Allocate_def split: if_splits option.splits prod.splits sum.splits dest!: alloc_loop_error)

lemma Table_Register_leak:
  assumes "tab_inv t rs lk" "Table_Register t (Some a) bind svc (Some v) = (t', res)" "UPort a = 0" "svc \<noteq> SvcNone" "\<not> IsUnspecified (UIP a)"
  shows "\<exists>e. res = Inl e \<and> (e \<in> {Err ''zero port'', Err ''zero address''} \<longrightarrow> (\<exists>p. Table_LookupPublic t (a\<lparr>UPort := p\<rparr>) = None \<and>
    Table_LookupPublic t' (a\<lparr>UPort := p\<rparr>) = Some v))"
proof -
  obtain u ru where u: "Udp_Insert (udpPortTable t) a (Some v) = (u, ru)" by fastforce
  show ?thesis
  proof (cases ru)
    case (Inl e)
    then show ?thesis using assms(2,4) u Udp_Insert_error [of "udpPortTable t" a "Some v" u e] by (auto simp: Table_Register_def)
  next
    case (Inr a')
    define b where "b = (case bind of None \<Rightarrow> UIP a | Some b \<Rightarrow> b)"
    have "insertSVCIfRequested (svcTable t) svc b 0 (Some v) = (svcTable t, Inl (Err (if IsUnspecified b then ''zero address'' else ''zero port'')))"
      using assms(4) by (simp add: insertSVCIfRequested_def Svc_Register_def validateUDPAddr_def)
    then have r: "t' = t\<lparr>udpPortTable := Udp_Remove u a\<rparr>" "\<exists>e. res = Inl e"
      using assms(2-4) u Inr by (auto simp: Table_Register_def b_def)
    let ?kvs = "map udp_kv rs @ lk"
    have h: "udp.holds (udpPortTable t) ?kvs" "apart ?kvs" "alloc_ok (allocator (udpPortTable t))"
      and p0: "\<forall>(k, v) \<in> set ?kvs. fst k \<noteq> 0"
      using assms(1) by (auto simp: tab_inv_def list_all_iff live_ref_def udp_kv_def akey_def)
    note c = Udp_Insert_cases [OF h(1-3) u, unfolded Inr sum.case]
    then have n: "UIP a' = UIP a" "UPort a' \<noteq> 0" "udp_get (udpPortTable t) (akey a') = None" "udp.holds u ((akey a', v) # ?kvs)" "apart ((akey a', v) # ?kvs)"
      by auto
    have "Udp_Remove u a = u"
      by (rule Udp_Remove_absent [OF n(4)]) (use assms(3) n(2) p0 in \<open>auto simp: akey_def\<close>)
    moreover have "Udp_Lookup u a' = Some v" 
      using Udp_Lookup_holds [OF n(4,5), of a' v] assms(5) n(1) conflicts_refl [of "akey a'"] list.set_intros(1) [of "(akey a', v)" ?kvs] by metis
    moreover have "Udp_Lookup (udpPortTable t) a' = None"
    proof (rule ccontr)
      assume "Udp_Lookup (udpPortTable t) a' \<noteq> None"
      then obtain k w where k: "(k, w) \<in> set ?kvs" "conflicts k (akey a')" using Udp_Lookup_holds [OF h(1,2)] by blast
      then have "k = akey a'" by (intro apartD [OF n(5) _ _ k(2), of w v]) auto
      moreover have "udp_get (udpPortTable t) k = Some w" using k(1) udp.holds_get [OF h(1)] by blast
      ultimately show False using n(3) by simp
    qed
    moreover have "a\<lparr>UPort := UPort a'\<rparr> = a'" using n(1) by (cases a, cases a') simp
    ultimately have "Table_LookupPublic t (a\<lparr>UPort := UPort a'\<rparr>) = None \<and> Table_LookupPublic t' (a\<lparr>UPort := UPort a'\<rparr>) = Some v"
      by (simp add: Table_LookupPublic_def r(1))
    then show ?thesis using r(2) by blast
  qed
qed

text \<open>The lost ports are real: an application that asks for a service and for any free port at once is always refused, and when the port is found before the service is
  refused, the dispatcher keeps the port: from then on packets to an address that nobody holds a reference for are delivered to that application.\<close>

lemma service_port_leak:
  assumes "disp_step\<^sup>*\<^sup>* (newIATable mn mx, [], []) (t, refs, asked)"
    and "Ia_Register t ia (Some a) bind svc (Some v) = (t', res)" "UPort a = 0" "svc \<noteq> SvcNone" "\<not> IsUnspecified (UIP a)"
  shows "\<exists>e. res = Inl e \<and> (e \<in> {Err ''zero port'', Err ''zero address''} \<longrightarrow> (\<exists>p. Ia_LookupPublic t ia (a\<lparr>UPort := p\<rparr>) = None \<and>
    Ia_LookupPublic t' ia (a\<lparr>UPort := p\<rparr>) = Some v))"
  using assms(2)
proof (cases rule: Ia_Register_cases)
  case (none e)
  then show ?thesis by blast
next
  case (table tab tab' r)
  obtain lk where "disp_inv t refs lk" using disp_inv_reachable [OF assms(1)] by blast
  note i = Ia_Register_tab [OF this table(1)]
  have l: "Ia_LookupPublic t ia b = Table_LookupPublic tab b" for b
  proof (cases "map_of (iaTables t) ia")
    case None
    then have "tab_inv tab [] []" using table(1) NewTable_inv by auto
    then show ?thesis using None lookup_public_iff [of tab "[]" "[]" b] by (cases "Table_LookupPublic tab b") (auto simp: Ia_LookupPublic_def)
  qed (use table(1) in \<open>simp add: Ia_LookupPublic_def\<close>)
  have "Ia_LookupPublic t' ia b = Table_LookupPublic tab' b" for b by (simp add: table(3) Ia_LookupPublic_def update_conv')
  then show ?thesis using Table_Register_leak [OF i table(2) assms(3-5)] l table(4) by auto
qed

text \<open>Two registrations: a control service on an address of its own, and an application on any address and any free port; then a third
  application that asks for a service and any free port.\<close>

definition disp_w_ia :: u64 where "disp_w_ia = 0x1ff0000000110"

definition disp_w1 :: "nat ia_table \<times> nat ia_ref res" where
  "disp_w1 = Ia_Register (newIATable 30000 30001) disp_w_ia (Some \<lparr>UIP = [10, 0, 0, 1], UPort = 30041\<rparr>) None SvcCS (Some 1)"

definition disp_w1_refs :: "nat ia_ref list" where
  "disp_w1_refs = (case snd disp_w1 of Inl _ \<Rightarrow> [] | Inr r \<Rightarrow> r # [])"

definition disp_w2 :: "nat ia_table \<times> nat ia_ref res" where
  "disp_w2 = Ia_Register (fst disp_w1) disp_w_ia (Some \<lparr>UIP = [0, 0, 0, 0], UPort = 0\<rparr>) None SvcNone (Some 2)"

definition disp_w2_refs :: "nat ia_ref list" where
  "disp_w2_refs = (case snd disp_w2 of Inl _ \<Rightarrow> disp_w1_refs | Inr r \<Rightarrow> r # disp_w1_refs)"

definition disp_w3 :: "nat ia_table \<times> nat ia_ref res" where
  "disp_w3 = Ia_Register (fst disp_w2) disp_w_ia (Some \<lparr>UIP = [10, 0, 0, 1], UPort = 0\<rparr>) None SvcCS (Some 7)"

lemma disp_w_reachable: "disp_step\<^sup>*\<^sup>* (newIATable 30000 30001, [], []) (fst disp_w2, disp_w2_refs, [])"
proof -
  have "disp_step (newIATable 30000 30001, [], []) (fst disp_w1, disp_w1_refs, asks disp_w_ia (Some \<lparr>UIP = [10, 0, 0, 1], UPort = 30041\<rparr>) SvcCS (Some 1) @ [])"
    unfolding disp_w1_refs_def by (rule disp_step.register) (auto simp: disp_w1_def)
  moreover have "disp_step (fst disp_w1, disp_w1_refs, []) (fst disp_w2, disp_w2_refs, asks disp_w_ia (Some \<lparr>UIP = [0, 0, 0, 0], UPort = 0\<rparr>) SvcNone (Some 2) @ [])"
    unfolding disp_w2_refs_def by (rule disp_step.register) (auto simp: disp_w2_def)
  ultimately show ?thesis by (auto simp: asks_def intro: rtranclp.rtrancl_into_rtrancl)
qed

lemma disp_w_lookup:
  "Ia_LookupPublic (fst disp_w2) disp_w_ia \<lparr>UIP = [10, 9, 9, 9], UPort = 30000\<rparr> = Some 2"
  "length disp_w2_refs = 2" "SVC_IsMulticast 0x8002"
  "snd disp_w3 = Inl (Err ''zero port'')" "SvcCS \<noteq> SvcNone" "\<not> IsUnspecified [10, 0, 0, 1]"
  by code_simp+

theorem registrations_exact_witness:
  "(\<exists>r\<in>set disp_w2_refs. IrIA r = disp_w_ia \<and> IrValue r = Some 2 \<and>
     conflicts (akey (TrAddress (IrEntry r))) (akey \<lparr>UIP = [10, 9, 9, 9], UPort = 30000\<rparr>)) \<and>
   set (fst (Ia_LookupService (fst disp_w2) disp_w_ia 0x8002 None)) =
     {IrValue r |r. r \<in> set disp_w2_refs \<and> IrIA r = disp_w_ia \<and> offers r (SVC_Base 0x8002) None}"
proof -
  note w = registrations_exact [OF disp_w_reachable]
  obtain lost :: "(u64 \<times> (int \<times> ip_text) \<times> nat) set" where
    "\<forall>ia p x v. (ia, (p, x), v) \<in> lost \<longrightarrow> (\<exists>a :: udp_addr. (ia, a, v) \<in> set [] \<and> x = ip_String (UIP a))" and
    l: "\<forall>ia a v. Ia_LookupPublic (fst disp_w2) ia a = Some v \<longleftrightarrow> \<not> IsUnspecified (UIP a) \<and>
      ((\<exists>r\<in>set disp_w2_refs. IrIA r = ia \<and> IrValue r = Some v \<and> conflicts (akey (TrAddress (IrEntry r))) (akey a)) \<or>
       (\<exists>k. (ia, k, v) \<in> lost \<and> conflicts k (akey a)))"
    using w by (elim exE conjE)
  then have "(ia, k, v) \<notin> lost" for ia k v by (cases k) simp
  then have "\<exists>r\<in>set disp_w2_refs. IrIA r = disp_w_ia \<and> IrValue r = Some 2 \<and>
     conflicts (akey (TrAddress (IrEntry r))) (akey \<lparr>UIP = [10, 9, 9, 9], UPort = 30000\<rparr>)"
    using l disp_w_lookup(1) by blast
  moreover have "\<forall>ia svc bind. if SVC_IsMulticast svc
      then set (fst (Ia_LookupService (fst disp_w2) ia svc bind)) = {IrValue r |r. r \<in> set disp_w2_refs \<and> IrIA r = ia \<and> offers r (SVC_Base svc) None}
      else length (fst (Ia_LookupService (fst disp_w2) ia svc bind)) = (if \<exists>r\<in>set disp_w2_refs. IrIA r = ia \<and> offers r svc bind then 1 else 0) \<and>
        set (fst (Ia_LookupService (fst disp_w2) ia svc bind)) \<subseteq> {IrValue r |r. r \<in> set disp_w2_refs \<and> IrIA r = ia \<and> offers r svc bind}"
    using w by (elim exE conjE)
  ultimately show ?thesis using disp_w_lookup(3) by presburger
qed

text \<open>The remaining port of the range is lost to the third application.\<close>

lemma service_port_leak_example:
  "\<exists>p. Ia_LookupPublic (fst disp_w2) disp_w_ia \<lparr>UIP = [10, 0, 0, 1], UPort = p\<rparr> = None \<and>
    Ia_LookupPublic (fst disp_w3) disp_w_ia \<lparr>UIP = [10, 0, 0, 1], UPort = p\<rparr> = Some 7"
proof -
  have "Ia_Register (fst disp_w2) disp_w_ia (Some \<lparr>UIP = [10, 0, 0, 1], UPort = 0\<rparr>) None SvcCS (Some 7) = (fst disp_w3, snd disp_w3)"
    by (simp add: disp_w3_def)
  from service_port_leak [OF disp_w_reachable this] disp_w_lookup show ?thesis by simp
qed

end
