(* ===== verification/Spec2Isabelle.thy ===== *)
theory Spec2Isabelle
  imports Prelude Wire Path_Fields Scion_Path Addr Scion_Header Colibri_Path Path_Types Scion_Layer Scmp Extn
    Cbc Epic Colibri_Dataplane Router_Config Router Router_Colibri Router_Forwarding Router_Packets Router_Replies Router_Reservations Router_Entry Bfd
    Ringbuf Gateway_Frames Gateway_Reassembly Gateway_Ingress
    Colibri_Tokens Colibri_Steps Colibri_Indices Colibri_Keeper Colibri_Stitching Colibri_Derive
    Segments Beacon_Store Beaconing Combinator Combinator_Paths Dispatcher Dispatcher_Tables
begin

text \<open>
  A verification development for the SCION border router, the libraries below it, and parts of the
  gateway, the COLIBRI service, the control plane that feeds it and the dispatcher of the end hosts.

  \<^bold>\<open>The program.\<close> SCION is a path-aware Internet architecture. End hosts put the path of a packet
  into its header; the path is made of hop fields that the ASes on it have authenticated with a MAC
  under a key only they know. The parts of the repository and how they meet in this development:

  \<^item> The wire formats (src/go/lib/slayers, src/go/lib/addr): path types, common header, SCMP,
    extension headers, addresses. Every other part reads and writes packets through them.
  \<^item> The border router (src/go/pkg/router): decodes a packet, checks hop field, MAC and interfaces,
    updates the path in place and sends the packet on, or answers with SCMP. It uses the EPIC and
    COLIBRI libraries (src/go/lib/epic, src/go/lib/colibri/dataplane) for those path types and
    the BFD sessions (src/go/pkg/router/bfd) for the state of its links.
  \<^item> The IP gateway (src/go/pkg/gateway/dataplane, over src/go/lib/ringbuf): packs IP packets into
    frames, sends them over SCION and reassembles them at the other end.
  \<^item> The COLIBRI service (src/go/co, src/go/lib/colibri): keeps bandwidth reservations with their
    indices, renews them, issues the hop fields the router later verifies, and stitches segment
    reservations to end-to-end trips.
  \<^item> The control plane (src/go/lib/ctrl/seg, src/go/cs/beacon, src/go/cs/beaconing, src/go/cs/ifstate) and the
    path combinator (src/go/lib/infra/modules/combinator): ASes originate beacons and extend them by
    hop fields, keep the best ones and send them on; an end host combines up, core and down segments to
    the forwarding paths that the routers verify.
  \<^item> The dispatcher (src/go/dispatcher/internal/registration): on an end host it keeps the tables that say which application
    a packet is for, by address and port, service or SCMP identifier.

  \<^bold>\<open>Conventions.\<close> A Go integer is a word of its width, so it wraps as in Go; \<open>int\<close> and lengths
  are \<open>nat\<close> or \<open>int\<close> where no modelled value comes near 2^63. A byte slice is a list of bytes, and a
  write through it returns the changed list; where two slices share an array and it matters
  (\<open>ColibriMin\<close>, \<open>shortcutSteps\<close>, the packet buffer of the router) the array is explicit. A function that
  returns an error returns \<open>go_error + 'a\<close>, and a run-time panic is the error \<open>Panic\<close>, which no caller
  recovers. A Go map is an association list that holds a key once, or a function to \<open>option\<close>. A struct is a record, a
  tagged union a datatype, a method on a pointer receiver returns the changed struct. The messages of
  errors are kept, the key/value context, logging and metrics are not.

  \<^bold>\<open>The theories.\<close>

  \<^item> \<open>Prelude\<close>, \<open>Wire\<close>: machine integers, big-endian encoding, slices, the error monad; decoding
    and encoding of sequences of fixed-width fields once for all path types (locales \<open>wire_field\<close>,
    \<open>path_codec\<close>, interpreted for the fields and paths of the model).
  \<^item> \<open>Path_Fields\<close> (slayers/path), \<open>Scion_Path\<close> (slayers/path/scion: \<open>base\<close>, \<open>raw\<close>, \<open>decoded\<close>),
    \<open>Colibri_Path\<close> (slayers/path/colibri), \<open>Path_Types\<close> (empty, onehop, epic, the registry of path
    types): round trips, exactly which bytes decode, reversal, the path increment with its
    wrap-around, and that the raw forms refine the decoded ones.
  \<^item> \<open>Addr\<close> (lib/addr), \<open>Scion_Header\<close> (slayers/scion, colibri/addr), \<open>Scion_Layer\<close> (slayers/scion.go),
    \<open>Scmp\<close>, \<open>Extn\<close>: ISD-AS text, host addresses, the header with its checksum, SCMP messages, TLV options.
  \<^item> \<open>Cbc\<close>, \<open>Epic\<close>, \<open>Colibri_Dataplane\<close>: the MACs of EPIC and COLIBRI, timestamps and freshness.
  \<^item> \<open>Router_Config\<close> (svc.go and the setters of dataplane.go), \<open>Router\<close> (\<open>scionPacketProcessor\<close>),
    \<open>Router_Colibri\<close> (colibri\_processing.go, \<open>processPkt\<close>, the body of the read loop): the state of the
    data plane and the processor as records, one function per method, \<open>andThen\<close> for the early return.
    \<open>Router_Forwarding\<close>, \<open>Router_Packets\<close>, \<open>Router_Replies\<close>, \<open>Router_Reservations\<close>, \<open>Router_Entry\<close>: the
    predicate \<open>forwards\<close> as specification of forwarding and its equivalence with the code, what a
    forwarded packet was authorised by, what of its bytes changes, progress of the path, the SCMP
    replies and their bounds, COLIBRI and EPIC checks.
  \<^item> \<open>Bfd\<close>: state machine, session and the turns of its main loop; no session panics, AdminDown is
    final, two sessions over a working link come up.
  \<^item> \<open>Ringbuf\<close>: ring buffer and packet ring refine a bounded queue (locale \<open>bounded_queue\<close>).
    \<open>Gateway_Frames\<close> (encoder, frame buffers, reassembly lists, workers, ingress server with the pool of buffers; \<open>ingress_step\<close>
    is a turn of the server or of a worker),
    \<open>Gateway_Reassembly\<close> (what was sent comes out, nothing else does, under loss), \<open>Gateway_Ingress\<close>
    (arbitrary frames: every buffer is accounted for, what ends the server and what starves it).
  \<^item> \<open>Colibri_Tokens\<close>, \<open>Colibri_Steps\<close>, \<open>Colibri_Indices\<close>, \<open>Colibri_Keeper\<close>, \<open>Colibri_Stitching\<close>,
    \<open>Colibri_Derive\<close>: values and wire formats of reservations; the steps of a path; the indices of a
    reservation with the invariant that every sequence of operations keeps (locale \<open>index_holder\<close>); the
    keeper; stitching (exactly the wanted trips) and shortcuts; that the hop fields the service issues verify at the routers, in the order of the initiator.
  \<^item> \<open>Segments\<close> (lib/ctrl/seg with its EPIC and digest extensions, the message format of scrypto/signed):
    path segments and their protobuf form, round trip, exactly what is valid, expiry, what a signature covers.
    \<open>Beacon_Store\<close> (cs/beacon): loop filters, policies, selection. \<open>Beaconing\<close> (cs/beaconing, cs/ifstate):
    the extender, originator, propagator and handler; the relation \<open>beaconed\<close> of all segments that
    ASes can make together, and that every hop field in them is authentic.
  \<^item> \<open>Combinator\<close> (graph.go, combinator.go): the graph of segments, the search and the forwarding
    path of a solution. \<open>Combinator_Paths\<close>: the search finds exactly the routes; a path it returns decodes,
    leads from source to destination and is verified hop by hop by the routers of \<open>Router_Forwarding\<close>; what
    goes wrong on peering links.
  \<^item> \<open>Dispatcher\<close> (udptable.go, svctable.go, portlist.go, scmp\_table.go, table.go, iatable.go), \<open>Dispatcher_Tables\<close>: what a table
    promises (locales \<open>registry\<close> and \<open>registry_map\<close>, interpreted for the tables of identifiers, addresses, ports and services), and
    that the lookups find exactly the registrations that were made and not freed, and besides them at most the ports lost to requests
    for a service with port 0 (relation \<open>disp_step\<close>).

  \<^bold>\<open>Parameters and their hypotheses.\<close> AES and AES-CMAC are arbitrary functions on bytes; the
  hypothesis where one is needed is that a block has 16 bytes. The hash functions, protobuf's encoding, gopacket's buffers
  (\<open>alloc\<close>), the clock, random numbers, the network device and the service provider of the keeper are
  arguments of the definitions that use them. Each property with a hypothesis has a witness on a
  concrete instance of its parameters.

  \<^bold>\<open>Bounds.\<close> No definition uses fuel but where it is named: the loops of the model are structural or have
  a measure. The main loops of servers are modelled turn by turn, with the list of what the
  environment delivers as argument (the reads of the packet ring, the frames a worker receives, the turns of the ingress side, the
  events of a BFD session), so that a property over all such lists holds for every run. The encoder of the gateway needs an MTU
  of at least 57 bytes and numbers fewer than 2^64 frames; a reassembly list holds 100 frames.

  \<^bold>\<open>Not modelled.\<close> Sockets, goroutines and locks: operations are atomic and their interleaving is the order of a
  list of steps. Metrics, logging, configuration files, command line tools. Code generated from
  protobuf, OpenAPI and ANTLR grammars, and mocks. Databases (SQLite), the parsing of policy files, and the static info
  extension of segments (latencies, locations and notes). Certificates, TRCs and DRKey: the
  signatures and keys they give are parameters here. The admission of COLIBRI reservations, whose
  decisions are ratios of floating point numbers. The gateway's control plane, which is mostly
  goroutines, timers and remote calls.
\<close>

end
